(* ===== verification/Prelude.thy ===== *)
theory Prelude
  imports Main "HOL-Library.List_Lexorder" "HOL-Library.Char_ord"
begin

section \<open>Shared vocabulary of the development\<close>

text \<open>
  What every component theory uses: Python exceptions as values, the checks of a
  dataclass \<open>__post_init__\<close>, code that reads and writes a durable state and may raise
  half way, a small rule set for reasoning about such code, decimal formatting as
  Python's format specifications do it, and a few facts on lists.
\<close>

named_theorems checks \<open>validation functions as the conjunction of their checks\<close>
named_theorems triples \<open>rules for stateful code that may raise\<close>

subsection \<open>Exceptions as values\<close>

text \<open>The exception classes the modelled code raises; the argument says which raise it was.\<close>

datatype 'e exn =
    ValueError 'e
  | TypeError 'e
  | RuntimeError 'e
  | KeyError 'e
  | IndexError 'e
  | SystemExit 'e
  | AssertionError 'e
  | StopIteration 'e

type_synonym ('e, 'a) result = "'e exn + 'a"

definition bindE :: "'x + 'a \<Rightarrow> ('a \<Rightarrow> 'x + 'b) \<Rightarrow> 'x + 'b" where
  "bindE r f = (case r of Inl e \<Rightarrow> Inl e | Inr a \<Rightarrow> f a)"

lemma bindE_simps [simp]:
  "bindE (Inl e) f = Inl e"
  "bindE (Inr a) f = f a"
  by (simp_all add: bindE_def)

lemma bindE_eq_Inr [simp]: "bindE r f = Inr b \<longleftrightarrow> (\<exists>a. r = Inr a \<and> f a = Inr b)"
  by (cases r) auto

lemma bindE_eq_Inl: "bindE r f = Inl e \<longleftrightarrow> r = Inl e \<or> (\<exists>a. r = Inr a \<and> f a = Inl e)"
  by (cases r) auto

text \<open>The exceptions of a called module as exceptions of the caller's.\<close>

fun map_exn :: "('a \<Rightarrow> 'b) \<Rightarrow> 'a exn \<Rightarrow> 'b exn" where
  "map_exn f (ValueError e) = ValueError (f e)"
| "map_exn f (TypeError e) = TypeError (f e)"
| "map_exn f (RuntimeError e) = RuntimeError (f e)"
| "map_exn f (KeyError e) = KeyError (f e)"
| "map_exn f (IndexError e) = IndexError (f e)"
| "map_exn f (SystemExit e) = SystemExit (f e)"
| "map_exn f (AssertionError e) = AssertionError (f e)"
| "map_exn f (StopIteration e) = StopIteration (f e)"

definition embed_exn :: "('a \<Rightarrow> 'b) \<Rightarrow> ('a, 'c) result \<Rightarrow> ('b, 'c) result" where
  "embed_exn f r = map_sum (map_exn f) id r"

lemma embed_exn_ok [simp]: "embed_exn f r = Inr a \<longleftrightarrow> r = Inr a"
  by (cases r) (auto simp: embed_exn_def)

text \<open>A sequence of \<open>if c: raise e\<close> statements: the first true condition raises.\<close>

fun raise_first :: "(bool \<times> 'e) list \<Rightarrow> 'e + unit" where
  "raise_first [] = Inr ()"
| "raise_first ((c, e) # cs) = (if c then Inl e else raise_first cs)"

lemma raise_first_ok [simp]:
  "raise_first ((c, e) # cs) = Inr u \<longleftrightarrow> \<not> c \<and> raise_first cs = Inr u"
  by simp

lemma if_Inl_eq_Inr [simp]:
  "((if c then Inl e else r) = Inr u) \<longleftrightarrow> \<not> c \<and> r = Inr u"
  "((if c then r else Inl e) = Inr u) \<longleftrightarrow> c \<and> r = Inr u"
  by simp_all

lemma raise_first_append:
  "raise_first (xs @ ys) = bindE (raise_first xs) (\<lambda>_. raise_first ys)"
  by (induction xs rule: raise_first.induct) auto

lemma raise_first_iff: "raise_first cs = Inr u \<longleftrightarrow> (\<forall>c \<in> set cs. \<not> fst c)"
  by (induction cs rule: raise_first.induct) auto

definition is_ok :: "'x + 'a \<Rightarrow> bool" where
  "is_ok r = (case r of Inl _ \<Rightarrow> False | Inr _ \<Rightarrow> True)"

lemma is_ok_simps [simp]: "is_ok (Inl e) = False" "is_ok (Inr a) = True"
  by (simp_all add: is_ok_def)

lemma is_ok_unit: "is_ok r \<longleftrightarrow> r = Inr ()" for r :: "'x + unit"
  by (cases r) auto

lemma is_ok_bindE: "is_ok (bindE r f) \<longleftrightarrow> (\<exists>a. r = Inr a \<and> is_ok (f a))"
  by (cases r) auto

text \<open>Validate and hand the value on: the constructor call of a checked dataclass.\<close>

definition checked :: "('a \<Rightarrow> 'x + unit) \<Rightarrow> 'a \<Rightarrow> 'x + 'a" where
  "checked post_init v = bindE (post_init v) (\<lambda>_. Inr v)"

lemma checked_Inr [simp]: "checked p v = Inr w \<longleftrightarrow> p v = Inr () \<and> w = v"
  by (auto simp: checked_def)

lemma checked_Inl: "checked p v = Inl e \<longleftrightarrow> p v = Inl e"
  by (auto simp: checked_def bindE_eq_Inl)

lemma checked_okI: "p v = Inr () \<Longrightarrow> checked p v = Inr v"
  by simp

subsection \<open>Stateful code that may raise\<close>

text \<open>
  The state a computation has written survives an exception, as a durable journal does,
  so the outcome of a step is a pair of a result and a state in every case.
\<close>

type_synonym ('s, 'x, 'a) io = "'s \<Rightarrow> ('x + 'a) \<times> 's"

definition ret :: "'a \<Rightarrow> ('s, 'x, 'a) io" where
  "ret a s = (Inr a, s)"

definition lift :: "'x + 'a \<Rightarrow> ('s, 'x, 'a) io" where
  "lift r s = (r, s)"

definition bind_io :: "('s, 'x, 'a) io \<Rightarrow> ('a \<Rightarrow> ('s, 'x, 'b) io) \<Rightarrow> ('s, 'x, 'b) io" where
  "bind_io m f s = (case m s of (Inl e, t) \<Rightarrow> (Inl e, t) | (Inr a, t) \<Rightarrow> f a t)"

lemma bind_lift [simp]:
  "bind_io (lift (Inr a)) f = f a"
  "bind_io (lift (Inl e)) f = lift (Inl e)"
  by (auto simp: bind_io_def lift_def)

lemma bind_mem: "m s = (Inr a, t) \<Longrightarrow> bind_io m f s = f a t"
  by (simp add: bind_io_def)

text \<open>When a computation returns, read backwards.\<close>

lemma bind_io_Inr: "bind_io m f s = (Inr b, u) \<longleftrightarrow> (\<exists>a t. m s = (Inr a, t) \<and> f a t = (Inr b, u))"
  by (auto simp: bind_io_def split: prod.splits sum.splits)

lemma bind_io_Inl: "bind_io m f s = (Inl e, u) \<longleftrightarrow> m s = (Inl e, u) \<or> (\<exists>a t. m s = (Inr a, t) \<and> f a t = (Inl e, u))"
  by (auto simp: bind_io_def split: prod.splits sum.splits)

lemma ret_Inr: "ret a s = (Inr b, t) \<longleftrightarrow> b = a \<and> t = s"
  by (auto simp: ret_def)

lemma lift_Inr: "lift r s = (Inr b, t) \<longleftrightarrow> r = Inr b \<and> t = s"
  by (cases r) (auto simp: lift_def)

lemmas io_returns = bind_io_Inr ret_Inr lift_Inr

lemma bind_assoc: "bind_io (bind_io m f) g = bind_io m (\<lambda>a. bind_io (f a) g)"
  by (rule ext) (auto simp: bind_io_def split: prod.splits sum.splits)

lemma bind_ret: "bind_io (ret a) f = f a"
  by (rule ext) (simp add: bind_io_def ret_def)

text \<open>What a computation leaves alone, as a relation between the states before and after.\<close>

locale io_frame =
  fixes R :: "'s \<Rightarrow> 's \<Rightarrow> bool"
  assumes same: "R s s"
    and onward: "R s t \<Longrightarrow> R t u \<Longrightarrow> R s u"
begin

definition framed :: "('s, 'x, 'a) io \<Rightarrow> bool" where
  "framed m \<longleftrightarrow> (\<forall>s. R s (snd (m s)))"

lemma framedD: "framed m \<Longrightarrow> m s = (r, t) \<Longrightarrow> R s t"
  unfolding framed_def by (metis snd_conv)

lemma framed_bind:
  assumes "framed m" and "\<And>a. framed (f a)"
  shows "framed (bind_io m f)"
  unfolding framed_def
proof
  fix s
  obtain r t where m: "m s = (r, t)" by (cases "m s")
  have "R s t" by (rule framedD [OF assms(1) m])
  moreover have "R t (snd (f a t))" for a using assms(2) by (simp add: framed_def)
  ultimately show "R s (snd (bind_io m f s))" using m onward by (cases r) (auto simp: bind_io_def)
qed

lemma framed_ret: "framed (ret a)" and framed_lift: "framed (lift r)"
  by (simp_all add: framed_def ret_def lift_def same)

lemma framed_if: "framed m \<Longrightarrow> framed n \<Longrightarrow> framed (if b then m else n)"
  by simp

lemmas framed_basic = framed_bind framed_ret framed_lift framed_if

end

text \<open>Total reading: what holds after a return and what holds after a raise.\<close>

definition triple ::
  "('s \<Rightarrow> bool) \<Rightarrow> ('s, 'x, 'a) io \<Rightarrow> ('a \<Rightarrow> 's \<Rightarrow> bool) \<Rightarrow> ('x \<Rightarrow> 's \<Rightarrow> bool) \<Rightarrow> bool" where
  "triple P m Q E \<longleftrightarrow>
     (\<forall>s. P s \<longrightarrow> (case m s of (Inr a, t) \<Rightarrow> Q a t | (Inl e, t) \<Rightarrow> E e t))"

lemma triple_ret [triples]: "(\<And>s. P s \<Longrightarrow> Q a s) \<Longrightarrow> triple P (ret a) Q E"
  by (simp add: triple_def ret_def)

lemma triple_lift [triples]:
  "(\<And>s a. P s \<Longrightarrow> r = Inr a \<Longrightarrow> Q a s) \<Longrightarrow> (\<And>s e. P s \<Longrightarrow> r = Inl e \<Longrightarrow> E e s)
     \<Longrightarrow> triple P (lift r) Q E"
  by (auto simp: triple_def lift_def split: sum.split)

lemma triple_bind [triples]:
  assumes "triple P m R E" and "\<And>a. triple (R a) (f a) Q E"
  shows "triple P (bind_io m f) Q E"
  unfolding triple_def
proof (intro allI impI)
  fix s
  assume "P s"
  with assms(1) have m: "case m s of (Inr a, t) \<Rightarrow> R a t | (Inl e, t) \<Rightarrow> E e t"
    by (simp add: triple_def)
  show "case bind_io m f s of (Inr a, t) \<Rightarrow> Q a t | (Inl e, t) \<Rightarrow> E e t"
  proof (cases "m s")
    case (Pair r t)
    show ?thesis
    proof (cases r)
      case (Inl e)
      with Pair m show ?thesis by (simp add: bind_io_def)
    next
      case (Inr a)
      with Pair m have "R a t" by simp
      with assms(2) [of a] have "case f a t of (Inr b, u) \<Rightarrow> Q b u | (Inl e, u) \<Rightarrow> E e u"
        by (simp add: triple_def)
      with Pair Inr show ?thesis by (simp add: bind_io_def)
    qed
  qed
qed

lemma triple_bind_eq:
  assumes "triple P m (\<lambda>z s. z = a \<and> R s) E" and "triple R (f a) Q E"
  shows "triple P (bind_io m f) Q E"
  by (rule triple_bind [OF assms(1)]) (use assms(2) in \<open>auto simp: triple_def\<close>)

lemma triple_if [triples]:
  "(c \<Longrightarrow> triple P m Q E) \<Longrightarrow> (\<not> c \<Longrightarrow> triple P n Q E) \<Longrightarrow> triple P (if c then m else n) Q E"
  by simp

lemma triple_option [triples]:
  "(x = None \<Longrightarrow> triple P m Q E) \<Longrightarrow> (\<And>a. x = Some a \<Longrightarrow> triple P (f a) Q E)
     \<Longrightarrow> triple P (case x of None \<Rightarrow> m | Some a \<Rightarrow> f a) Q E"
  by (cases x) simp_all

lemma triple_weaken:
  "triple P' m Q' E' \<Longrightarrow> (\<And>s. P s \<Longrightarrow> P' s) \<Longrightarrow> (\<And>a s. Q' a s \<Longrightarrow> Q a s)
     \<Longrightarrow> (\<And>e s. E' e s \<Longrightarrow> E e s) \<Longrightarrow> triple P m Q E"
  unfolding triple_def by (fastforce split: prod.splits sum.splits)

lemma triple_pre: "(\<And>s. P s \<Longrightarrow> triple (\<lambda>t. t = s) m Q E) \<Longrightarrow> triple P m Q E"
  by (simp add: triple_def)

lemma tripleD:
  assumes "triple P m Q E" and "P s" and "m s = (Inr a, t)"
  shows "Q a t"
  using assms by (force simp: triple_def)

lemma tripleD_raise:
  assumes "triple P m Q E" and "P s" and "m s = (Inl e, t)"
  shows "E e t"
  using assms by (force simp: triple_def)

subsection \<open>Decimal text\<close>

definition digit :: "nat \<Rightarrow> char" where
  "digit d = char_of (48 + d)"

definition digit_val :: "char \<Rightarrow> nat" where
  "digit_val c = of_char c - 48"

definition is_digit :: "char \<Rightarrow> bool" where
  "is_digit c \<longleftrightarrow> 48 \<le> (of_char c :: nat) \<and> (of_char c :: nat) \<le> 57"

fun dec :: "nat \<Rightarrow> string" where
  "dec n = (if n < 10 then [digit n] else dec (n div 10) @ [digit (n mod 10)])"

declare dec.simps [simp del]

definition undec :: "string \<Rightarrow> nat" where
  "undec s = foldl (\<lambda>a c. 10 * a + digit_val c) 0 s"

text \<open>\<open>str(n)\<close> of a Python integer.\<close>

definition str_int :: "int \<Rightarrow> string" where
  "str_int n = (if n < 0 then CHR ''-'' # dec (nat (- n)) else dec (nat n))"

text \<open>\<open>f"{n:0wd}"\<close>: zero padding after the sign, never truncating.\<close>

definition pad0 :: "nat \<Rightarrow> string \<Rightarrow> string" where
  "pad0 w s = replicate (w - length s) CHR ''0'' @ s"

definition fmt0 :: "nat \<Rightarrow> int \<Rightarrow> string" where
  "fmt0 w n = (if n < 0 then CHR ''-'' # pad0 (w - 1) (dec (nat (- n))) else pad0 w (dec (nat n)))"

lemma of_char_digit: "d < 10 \<Longrightarrow> (of_char (digit d) :: nat) = 48 + d"
  by (simp add: digit_def)

lemma digit_val_digit [simp]: "d < 10 \<Longrightarrow> digit_val (digit d) = d"
  by (simp add: digit_val_def of_char_digit)

lemma digit_chars:
  "digit 0 = CHR ''0''" "digit 1 = CHR ''1''" "digit 2 = CHR ''2''" "digit 3 = CHR ''3''"
  "digit 4 = CHR ''4''" "digit 5 = CHR ''5''" "digit 6 = CHR ''6''" "digit 7 = CHR ''7''"
  "digit 8 = CHR ''8''" "digit 9 = CHR ''9''"
  by code_simp+

lemma is_digit_digit [simp]: "d < 10 \<Longrightarrow> is_digit (digit d)"
  by (simp add: is_digit_def of_char_digit)

lemma dec_digits: "\<forall>c \<in> set (dec n). is_digit c"
proof (induction n rule: dec.induct)
  case (1 n)
  then show ?case by (cases "n < 10") (auto simp: dec.simps [of n])
qed

lemma dec_nonempty [simp]: "dec n \<noteq> []"
  by (simp add: dec.simps [of n])

lemma undec_append: "undec (s @ [c]) = 10 * undec s + digit_val c"
  by (simp add: undec_def)

lemma undec_dec [simp]: "undec (dec n) = n"
proof (induction n rule: dec.induct)
  case (1 n)
  show ?case
  proof (cases "n < 10")
    case True
    then show ?thesis by (simp add: dec.simps [of n] undec_def)
  next
    case False
    with 1 have "undec (dec (n div 10)) = n div 10" by simp
    with False show ?thesis by (simp add: dec.simps [of n] undec_append)
  qed
qed

lemma undec_zeros: "undec (replicate k CHR ''0'' @ s) = undec s"
proof (induction k)
  case (Suc k)
  have "undec (CHR ''0'' # t) = undec t" for t
    by (simp add: undec_def digit_val_def)
  with Suc show ?case by simp
qed simp

lemma undec_pad0 [simp]: "undec (pad0 w s) = undec s"
  by (simp add: pad0_def undec_zeros)

lemma fmt0_digits: "0 \<le> n \<Longrightarrow> c \<in> set (fmt0 w n) \<Longrightarrow> is_digit c"
  using dec_digits by (auto simp: fmt0_def pad0_def is_digit_def)

lemma undec_fmt0: "0 \<le> n \<Longrightarrow> undec (fmt0 w n) = nat n"
  by (simp add: fmt0_def)

lemma fmt0_inj: "0 \<le> m \<Longrightarrow> 0 \<le> n \<Longrightarrow> fmt0 w m = fmt0 w n \<Longrightarrow> m = n"
  by (metis undec_fmt0 eq_nat_nat_iff)

text \<open>
  Splitting a text at a separator that is no digit: two texts of the form digits,
  separator, rest are equal only if the parts are.
\<close>

lemma digits_sep_eq:
  assumes "\<forall>c \<in> set xs. is_digit c" "\<forall>c \<in> set ys. is_digit c" "\<not> is_digit s"
    and "xs @ s # us = ys @ s # vs"
  shows "xs = ys \<and> us = vs"
  using assms
proof (induction xs arbitrary: ys)
  case Nil
  then show ?case by (cases ys) auto
next
  case (Cons x xs)
  then show ?case by (cases ys) auto
qed

subsection \<open>Lists\<close>

text \<open>\<open>sum(pred(x) for x in xs)\<close> and \<open>enumerate\<close>.\<close>

definition count_where :: "('a \<Rightarrow> bool) \<Rightarrow> 'a list \<Rightarrow> nat" where
  "count_where p xs = length (filter p xs)"

lemma count_where_simps [simp]:
  "count_where p [] = 0"
  "count_where p (x # xs) = (if p x then Suc (count_where p xs) else count_where p xs)"
  "count_where p (xs @ ys) = count_where p xs + count_where p ys"
  by (simp_all add: count_where_def)

lemma count_where_le: "count_where p xs \<le> length xs"
  by (simp add: count_where_def)

lemma count_where_cong: "(\<And>x. x \<in> set xs \<Longrightarrow> p x = q x) \<Longrightarrow> count_where p xs = count_where q xs"
  by (induction xs) auto

text \<open>A property of the residue is met equally often in every period.\<close>

lemma count_where_mod:
  assumes "0 < k"
  shows "count_where (\<lambda>i. p (i mod k)) [0..<m * k] = m * count_where p [0..<k]"
proof (induction m)
  case (Suc m)
  have "[0..<Suc m * k] = [0..<m * k] @ map (\<lambda>i. i + m * k) [0..<k]"
    using upt_add_eq_append [of 0 "m * k" k] by (simp add: map_add_upt add.commute)
  moreover have "count_where (\<lambda>i. p (i mod k)) (map (\<lambda>i. i + m * k) [0..<k]) = count_where p [0..<k]"
  proof -
    have "filter (\<lambda>i. p ((i + m * k) mod k)) [0..<k] = filter p [0..<k]"
      by (rule filter_cong) auto
    then show ?thesis by (simp add: count_where_def filter_map o_def)
  qed
  ultimately show ?case using Suc by simp
qed simp

text \<open>Python's \<open>xs[-1]\<close>, with the empty list as \<open>None\<close>.\<close>

definition last_opt :: "'a list \<Rightarrow> 'a option" where
  "last_opt xs = (if xs = [] then None else Some (last xs))"

lemma last_opt_simps [simp]:
  "last_opt [] = None" "last_opt (xs @ [x]) = Some x"
  by (simp_all add: last_opt_def)

lemma last_opt_None [simp]: "last_opt xs = None \<longleftrightarrow> xs = []"
  by (simp add: last_opt_def)

lemma last_opt_SomeE:
  assumes "last_opt xs = Some x"
  obtains ys where "xs = ys @ [x]"
  using assms by (cases xs rule: rev_cases) auto

text \<open>\<open>next(((i, x) for i, x in enumerate(xs) if p(x)), None)\<close>.\<close>

fun find_index :: "('a \<Rightarrow> bool) \<Rightarrow> 'a list \<Rightarrow> (nat \<times> 'a) option" where
  "find_index p [] = None"
| "find_index p (x # xs) =
     (if p x then Some (0, x) else map_option (\<lambda>(i, y). (Suc i, y)) (find_index p xs))"

lemma find_index_Some:
  "find_index p xs = Some (i, x) \<Longrightarrow> i < length xs \<and> xs ! i = x \<and> p x"
  by (induction xs arbitrary: i) (auto split: if_splits)

lemma find_index_None: "find_index p xs = None \<longleftrightarrow> (\<forall>x \<in> set xs. \<not> p x)"
  by (induction xs) auto

lemma find_index_split:
  assumes "find_index p xs = Some (i, x)"
  shows "xs = take i xs @ x # drop (Suc i) xs"
  using find_index_Some [OF assms] by (auto simp: id_take_nth_drop)

lemma sum_list_mod:
  assumes "0 < k"
  shows "sum_list (map (\<lambda>i. f (i mod k)) [0..<m * k]) = of_nat m * (sum_list (map f [0..<k]) :: int)"
proof (induction m)
  case (Suc m)
  have split: "[0..<Suc m * k] = [0..<m * k] @ map (\<lambda>i. i + m * k) [0..<k]"
    by (rule nth_equalityI) (auto simp: nth_append)
  have "map (\<lambda>i. f (i mod k)) [0..<k] = map f [0..<k]" by simp
  with Suc show ?case unfolding split by (simp add: o_def algebra_simps del: map_eq_conv)
qed simp

lemma sum_list_bound: "(\<And>x. x \<in> set xs \<Longrightarrow> f x \<le> (b :: int)) \<Longrightarrow> sum_list (map f xs) \<le> b * int (length xs)"
  by (induction xs) (auto simp: algebra_simps add_mono)

lemma last_optD: "last_opt xs = Some x \<Longrightarrow> xs \<noteq> [] \<and> x = last xs"
  by (erule last_opt_SomeE) simp

lemma update_last: "xs \<noteq> [] \<Longrightarrow> xs[length xs - 1 := x] = butlast xs @ [x]"
  by (cases xs rule: rev_cases) simp_all

text \<open>\<open>tuple(sorted(xs, key=f)) == xs\<close>.\<close>

definition in_order :: "('a \<Rightarrow> 'k::linorder) \<Rightarrow> 'a list \<Rightarrow> bool" where
  "in_order f xs \<longleftrightarrow> sort_key f xs = xs"

lemma in_order_iff: "in_order f xs \<longleftrightarrow> sorted (map f xs)"
  unfolding in_order_def by (metis sorted_sort_key sort_key_id_if_sorted)

lemma in_order_pair [simp]: "in_order f [x, y] \<longleftrightarrow> f x \<le> f y"
  by (simp add: in_order_iff)

lemma in_order_small [simp]: "in_order f []" "in_order f [x]"
  by (simp_all add: in_order_iff)

text \<open>\<open>min(xs, key=f)\<close>: the first element with the least key, \<open>None\<close> for no element.\<close>

fun min_by :: "('a \<Rightarrow> 'k::linorder) \<Rightarrow> 'a list \<Rightarrow> 'a option" where
  "min_by f [] = None"
| "min_by f (x # xs) =
     (case min_by f xs of None \<Rightarrow> Some x | Some y \<Rightarrow> if f x \<le> f y then Some x else Some y)"

lemma min_by_None [simp]: "min_by f xs = None \<longleftrightarrow> xs = []"
  by (cases xs) (auto split: option.splits)

lemma min_by_Some: "min_by f xs = Some x \<Longrightarrow> x \<in> set xs \<and> (\<forall>y \<in> set xs. f x \<le> f y)"
proof (induction xs arbitrary: x)
  case (Cons a xs)
  then show ?case by (fastforce split: option.splits if_splits)
qed simp

text \<open>\<open>xs[i]\<close> of a Python list: a negative index counts from the end.\<close>

definition py_index :: "'e \<Rightarrow> 'a list \<Rightarrow> int \<Rightarrow> ('e, 'a) result" where
  "py_index e xs i =
     (if 0 \<le> i \<and> i < int (length xs) then Inr (xs ! nat i)
      else if - int (length xs) \<le> i \<and> i < 0 then Inr (xs ! nat (int (length xs) + i))
      else Inl (IndexError e))"

lemma py_index_nat [simp]: "i < length xs \<Longrightarrow> py_index e xs (int i) = Inr (xs ! i)"
  by (simp add: py_index_def)

text \<open>A comprehension whose element expression may raise.\<close>

fun mapE :: "('a \<Rightarrow> 'x + 'b) \<Rightarrow> 'a list \<Rightarrow> 'x + 'b list" where
  "mapE f [] = Inr []"
| "mapE f (x # xs) = bindE (f x) (\<lambda>y. bindE (mapE f xs) (\<lambda>ys. Inr (y # ys)))"

lemma mapE_Inr: "mapE f xs = Inr ys \<longleftrightarrow> list_all2 (\<lambda>x y. f x = Inr y) xs ys"
  by (induction xs arbitrary: ys) (auto simp: list_all2_Cons1)

lemma mapE_eq_map: "(\<And>x. x \<in> set xs \<Longrightarrow> f x = Inr (g x)) \<Longrightarrow> mapE f xs = Inr (map g xs)"
  by (induction xs) auto

lemma mapE_map: "mapE f (map g xs) = mapE (\<lambda>x. f (g x)) xs"
  by (induction xs) auto

text \<open>\<open>list(range(lo, hi, step))\<close> for a positive step.\<close>

definition py_range :: "int \<Rightarrow> int \<Rightarrow> int \<Rightarrow> int list" where
  "py_range lo hi step =
     map (\<lambda>i. lo + int i * step) [0..<nat ((hi - lo + step - 1) div step)]"

lemma py_range_set:
  assumes "0 < step"
  shows "x \<in> set (py_range lo hi step) \<longleftrightarrow> (\<exists>i. 0 \<le> i \<and> x = lo + i * step \<and> x < hi)"
proof
  assume "x \<in> set (py_range lo hi step)"
  then obtain i where i: "x = lo + int i * step" "int i < (hi - lo + step - 1) div step"
    by (force simp: py_range_def)
  have "(int i + 1) * step \<le> (hi - lo + step - 1) div step * step"
    using assms i(2) by (intro mult_right_mono) simp_all
  also have "\<dots> \<le> hi - lo + step - 1"
    using minus_mod_eq_div_mult [of "hi - lo + step - 1" step] pos_mod_sign [OF assms]
    by (metis diff_le_eq le_add_same_cancel1)
  finally have "(int i + 1) * step \<le> hi - lo + step - 1" .
  with i(1) have "x < hi" by (simp add: algebra_simps)
  with i(1) show "\<exists>i. 0 \<le> i \<and> x = lo + i * step \<and> x < hi" by (intro exI [of _ "int i"]) simp
next
  assume "\<exists>i. 0 \<le> i \<and> x = lo + i * step \<and> x < hi"
  then obtain i where i: "0 \<le> i" "x = lo + i * step" "x < hi" by blast
  then have "(i + 1) * step \<le> hi - lo + step - 1" by (simp add: algebra_simps)
  then have "(i + 1) * step div step \<le> (hi - lo + step - 1) div step"
    using assms by (intro zdiv_mono1) auto
  with assms have "i < (hi - lo + step - 1) div step" by simp
  with i(1,2) show "x \<in> set (py_range lo hi step)"
    by (auto simp: py_range_def image_iff intro!: bexI [of _ "nat i"])
qed

lemma py_range_Cons:
  assumes "0 < step" and "lo < hi"
  shows "\<exists>zs. py_range lo hi step = lo # zs"
proof -
  have "0 < (hi - lo + step - 1) div step"
    using assms by (simp add: pos_imp_zdiv_pos_iff)
  then have "nat ((hi - lo + step - 1) div step) = Suc (nat ((hi - lo + step - 1) div step) - 1)"
    by simp
  then show ?thesis
    unfolding py_range_def by (metis (no_types, lifting) map_upt_Suc add.right_neutral mult_zero_left of_nat_0)
qed

text \<open>
  Cutting a list at the positions of \<open>J\<close>: the pieces between neighbouring cuts. When \<open>J\<close>
  is the increasing list of the positions with a property, the pieces are the maximal runs
  without it.
\<close>

definition pieces :: "nat \<Rightarrow> nat list \<Rightarrow> nat \<Rightarrow> (nat \<times> nat) list" where
  "pieces c J n = zip (c # J) (J @ [n])"

lemma pieces_simps [simp]:
  "pieces c [] n = [(c, n)]"
  "pieces c (j # J) n = (c, j) # pieces j J n"
  by (simp_all add: pieces_def)

lemma filter_upt_Cons:
  assumes "filter P [a..<n] = j # J"
  shows "a \<le> j \<and> j < n \<and> P j \<and> (\<forall>i. a \<le> i \<and> i < j \<longrightarrow> \<not> P i) \<and> J = filter P [Suc j..<n]"
  using assms
proof (induction "n - a" arbitrary: a)
  case (Suc k)
  then have a: "[a..<n] = a # [Suc a..<n]" by (simp add: upt_conv_Cons)
  show ?case
  proof (cases "P a")
    case True
    with Suc.prems Suc.hyps(2) a show ?thesis by auto
  next
    case False
    with Suc.prems a have f: "filter P [Suc a..<n] = j # J" by simp
    have "k = n - Suc a" using Suc.hyps(2) by simp
    from Suc.hyps(1) [OF this f]
    have IH: "Suc a \<le> j" "j < n" "P j" "J = filter P [Suc j..<n]"
      and none: "\<And>i. Suc a \<le> i \<Longrightarrow> i < j \<Longrightarrow> \<not> P i" by blast+
    have "\<not> P i" if "a \<le> i" "i < j" for i
      using none [of i] False that by (cases "i = a") simp_all
    with IH show ?thesis by simp
  qed
qed simp

lemma pieces_runs:
  assumes "c < n" and "J = filter P [Suc c..<n]" and "(a, b) \<in> set (pieces c J n)"
  shows "c \<le> a \<and> a < b \<and> b \<le> n \<and> (\<forall>i. a < i \<and> i < b \<longrightarrow> \<not> P i)"
  using assms
proof (induction J arbitrary: c)
  case Nil
  from Nil.prems(2) have "filter P [Suc c..<n] = []" by simp
  then have "\<forall>i \<in> set [Suc c..<n]. \<not> P i" by (simp only: filter_empty_conv)
  moreover have "a = c \<and> b = n" using Nil.prems(3) by simp
  ultimately show ?case using Nil.prems(1) by simp
next
  case (Cons j J)
  have f: "filter P [Suc c..<n] = j # J" using Cons.prems(2) by (rule sym)
  have j: "Suc c \<le> j" "j < n" "J = filter P [Suc j..<n]"
    and none: "\<forall>i. Suc c \<le> i \<and> i < j \<longrightarrow> \<not> P i"
    using filter_upt_Cons [OF f] by blast+
  from Cons.prems(3) have "(a, b) = (c, j) \<or> (a, b) \<in> set (pieces j J n)" by simp
  then show ?case
  proof
    assume "(a, b) = (c, j)"
    with j none show ?thesis by (simp add: Suc_le_eq)
  next
    assume "(a, b) \<in> set (pieces j J n)"
    from Cons.IH [OF j(2,3) this] j(1) show ?thesis by simp
  qed
qed

lemma pieces_concat:
  assumes "sorted (c # J)" and "\<forall>j \<in> set J. j \<le> n" and "c \<le> n"
  shows "concat (map (\<lambda>(a, b). drop a (take b xs)) (pieces c J n)) = drop c (take n xs)"
  using assms
proof (induction J arbitrary: c)
  case (Cons j J)
  then have "concat (map (\<lambda>(a, b). drop a (take b xs)) (pieces j J n)) = drop j (take n xs)"
    by (intro Cons.IH) auto
  moreover have "drop c (take j xs) @ drop j (take n xs) = drop c (take n xs)"
  proof -
    have jn: "c \<le> j" "j \<le> n" using Cons.prems by auto
    show ?thesis
    proof (cases "j \<le> length xs")
      case True
      have "take n xs = take j xs @ drop j (take n xs)"
        using append_take_drop_id [of j "take n xs"] jn by (simp add: min_absorb1)
      then have "drop c (take n xs) = drop c (take j xs @ drop j (take n xs))" by simp
      also have "\<dots> = drop c (take j xs) @ drop j (take n xs)" using True jn by simp
      finally show ?thesis by simp
    qed (use jn in simp)
  qed
  ultimately show ?case by simp
qed simp

text \<open>A dict built from pairs: a later pair with the same key wins.\<close>

definition dict_of :: "('k \<times> 'v) list \<Rightarrow> 'k \<Rightarrow> 'v option" where
  "dict_of kvs = map_of (rev kvs)"

end
