(* ===== verification/Sha256.thy ===== *)
theory Sha256
  imports Prelude "HOL-Library.Word"
begin

unbundle bit_operations_syntax

section \<open>SHA-256\<close>

text \<open>
  The library routine \<open>hashlib.sha256(data).hexdigest()\<close> that every content identity
  of the program goes through (\<open>contracts/core.py\<close>, \<open>Digest.sha256\<close>), as FIPS 180-4
  states it: padding to 64-byte blocks, the message schedule, 64 rounds on eight 32-bit
  words, and the lower-case hexadecimal rendering. Text is a list of bytes (\<open>char\<close>).
\<close>

type_synonym w32 = "32 word"

definition ch :: "w32 \<Rightarrow> w32 \<Rightarrow> w32 \<Rightarrow> w32" where
  "ch x y z = (x AND y) XOR (NOT x AND z)"

definition maj :: "w32 \<Rightarrow> w32 \<Rightarrow> w32 \<Rightarrow> w32" where
  "maj x y z = (x AND y) XOR (x AND z) XOR (y AND z)"

definition big_sigma0 :: "w32 \<Rightarrow> w32" where
  "big_sigma0 x = word_rotr 2 x XOR word_rotr 13 x XOR word_rotr 22 x"

definition big_sigma1 :: "w32 \<Rightarrow> w32" where
  "big_sigma1 x = word_rotr 6 x XOR word_rotr 11 x XOR word_rotr 25 x"

definition small_sigma0 :: "w32 \<Rightarrow> w32" where
  "small_sigma0 x = word_rotr 7 x XOR word_rotr 18 x XOR drop_bit 3 x"

definition small_sigma1 :: "w32 \<Rightarrow> w32" where
  "small_sigma1 x = word_rotr 17 x XOR word_rotr 19 x XOR drop_bit 10 x"

definition sha_k :: "w32 list" where
  "sha_k =
   [1116352408, 1899447441, 3049323471, 3921009573, 961987163, 1508970993, 2453635748,
    2870763221, 3624381080, 310598401, 607225278, 1426881987, 1925078388, 2162078206,
    2614888103, 3248222580, 3835390401, 4022224774, 264347078, 604807628, 770255983,
    1249150122, 1555081692, 1996064986, 2554220882, 2821834349, 2952996808, 3210313671,
    3336571891, 3584528711, 113926993, 338241895, 666307205, 773529912, 1294757372,
    1396182291, 1695183700, 1986661051, 2177026350, 2456956037, 2730485921, 2820302411,
    3259730800, 3345764771, 3516065817, 3600352804, 4094571909, 275423344, 430227734,
    506948616, 659060556, 883997877, 958139571, 1322822218, 1537002063, 1747873779,
    1955562222, 2024104815, 2227730452, 2361852424, 2428436474, 2756734187, 3204031479,
    3329325298]"

definition sha_init :: "w32 list" where
  "sha_init =
   [1779033703, 3144134277, 1013904242, 2773480762, 1359893119, 2600822924, 528734635,
    1541459225]"

text \<open>Big-endian bytes of a word and back.\<close>

definition word_of_bytes :: "int list \<Rightarrow> w32" where
  "word_of_bytes bs = word_of_int (foldl (\<lambda>a b. 256 * a + b) 0 bs)"

fun be_bytes :: "nat \<Rightarrow> int \<Rightarrow> int list" where
  "be_bytes 0 n = []"
| "be_bytes (Suc k) n = be_bytes k (n div 256) @ [n mod 256]"

fun chunks :: "nat \<Rightarrow> nat \<Rightarrow> 'a list \<Rightarrow> 'a list list" where
  "chunks 0 k xs = []"
| "chunks (Suc fuel) k xs = (if xs = [] then [] else take k xs # chunks fuel k (drop k xs))"

definition sha_pad :: "int list \<Rightarrow> int list" where
  "sha_pad bs =
     bs @ [128] @ replicate ((119 - length bs mod 64) mod 64) 0 @ be_bytes 8 (8 * int (length bs))"

text \<open>The schedule is kept newest first: word \<open>t\<close> is the head after \<open>t\<close> steps.\<close>

fun sha_extend :: "nat \<Rightarrow> w32 list \<Rightarrow> w32 list" where
  "sha_extend 0 ws = ws"
| "sha_extend (Suc k) ws =
     sha_extend k ((small_sigma1 (ws ! 1) + ws ! 6 + small_sigma0 (ws ! 14) + ws ! 15) # ws)"

definition sha_schedule :: "int list \<Rightarrow> w32 list" where
  "sha_schedule block = rev (sha_extend 48 (rev (map word_of_bytes (chunks 16 4 block))))"

fun sha_round :: "w32 list \<Rightarrow> w32 \<times> w32 \<Rightarrow> w32 list" where
  "sha_round [a, b, c, d, e, f, g, h] (k, w) =
     (let t1 = h + big_sigma1 e + ch e f g + k + w; t2 = big_sigma0 a + maj a b c
      in [t1 + t2, a, b, c, d + t1, e, f, g])"
| "sha_round s _ = s"

definition sha_block :: "w32 list \<Rightarrow> int list \<Rightarrow> w32 list" where
  "sha_block hs block = map2 (+) hs (foldl sha_round hs (zip sha_k (sha_schedule block)))"

definition hex_digit :: "int \<Rightarrow> char" where
  "hex_digit n = (if n < 10 then char_of (48 + nat n) else char_of (87 + nat n))"

fun hex_of :: "nat \<Rightarrow> int \<Rightarrow> string" where
  "hex_of 0 n = []"
| "hex_of (Suc k) n = hex_of k (n div 16) @ [hex_digit (n mod 16)]"

definition sha256_hex :: "string \<Rightarrow> string" where
  "sha256_hex data =
     (let bs = sha_pad (map of_char data);
          hs = foldl sha_block sha_init (chunks (length bs) 64 bs)
      in concat (map (\<lambda>w. hex_of 8 (uint w)) hs))"

subsection \<open>The rendering is 64 lower-case hexadecimal characters\<close>

definition is_hex :: "char \<Rightarrow> bool" where
  "is_hex c \<longleftrightarrow> is_digit c \<or> 97 \<le> (of_char c :: nat) \<and> (of_char c :: nat) \<le> 102"

lemma hex_digit_hex:
  assumes "0 \<le> n" "n < 16"
  shows "is_hex (hex_digit n)"
  using assms by (auto simp: hex_digit_def is_hex_def is_digit_def)

lemma length_hex_of [simp]: "length (hex_of k n) = k"
  by (induction k n rule: hex_of.induct) auto

lemma hex_of_hex: "c \<in> set (hex_of k n) \<Longrightarrow> is_hex c"
  by (induction k n rule: hex_of.induct) (auto intro: hex_digit_hex)

lemma length_sha_round [simp]: "length (sha_round hs kw) = length hs"
  by (cases "(hs, kw)" rule: sha_round.cases) (auto simp: Let_def)

lemma length_foldl_round [simp]: "length (foldl sha_round hs kws) = length hs"
  by (induction kws arbitrary: hs) auto

lemma length_sha_block [simp]: "length (sha_block hs b) = length hs"
  by (simp add: sha_block_def)

lemma length_foldl_block [simp]: "length (foldl sha_block hs bs) = length hs"
  by (induction bs arbitrary: hs) auto

lemma length_sha_init [simp]: "length sha_init = 8"
  by (simp add: sha_init_def)

lemma sha256_hex_shape:
  "length (sha256_hex data) = 64 \<and> (\<forall>c \<in> set (sha256_hex data). is_hex c)"
  unfolding sha256_hex_def Let_def
  by (auto simp: length_concat comp_def sum_list_triv dest: hex_of_hex)

end
