(* ===== verification/Float64.thy ===== *)
theory Float64
  imports Complex_Main Prelude
begin

section \<open>Python floats as correctly rounded rationals\<close>

text \<open>
  A finite Python float is a rational, and every arithmetic operation is the exact
  result rounded to 53 significant bits, ties to even. The exponent is not bounded:
  overflow to infinity and subnormal results do not occur for the radio frequencies,
  sample rates and time-outs of the modelled components (between \<open>2\<^sup>-\<^sup>1\<^sup>0\<^sup>0\<close> and
  \<open>2\<^sup>1\<^sup>0\<^sup>0\<close>).
\<close>

type_synonym pyfloat = rat

definition round_half_even :: "rat \<Rightarrow> int" where
  "round_half_even x =
     (let f = \<lfloor>x\<rfloor>; r = x - of_int f
      in if r < 1 / 2 then f else if 1 / 2 < r then f + 1 else if even f then f else f + 1)"

function bitlen :: "int \<Rightarrow> nat" where
  "bitlen n = (if n \<le> 0 then 0 else Suc (bitlen (n div 2)))"
  by pat_completeness auto
termination
  by (relation "measure nat") auto

declare bitlen.simps [simp del]

text \<open>\<open>2 powi ilog2 x \<le> x < 2 powi (ilog2 x + 1)\<close> for positive \<open>x\<close>.\<close>

definition ilog2 :: "rat \<Rightarrow> int" where
  "ilog2 x =
     (let (n, d) = quotient_of x; k = int (bitlen n) - int (bitlen d)
      in if 2 powi k \<le> x then k else k - 1)"

definition round64_pos :: "rat \<Rightarrow> rat" where
  "round64_pos x = (let u = 2 powi (ilog2 x - 52) in of_int (round_half_even (x / u)) * u)"

definition round64 :: "rat \<Rightarrow> pyfloat" where
  "round64 x = (if x = 0 then 0 else if 0 < x then round64_pos x else - round64_pos (- x))"

definition fadd :: "pyfloat \<Rightarrow> pyfloat \<Rightarrow> pyfloat" where "fadd a b = round64 (a + b)"
definition fsub :: "pyfloat \<Rightarrow> pyfloat \<Rightarrow> pyfloat" where "fsub a b = round64 (a - b)"
definition fmul :: "pyfloat \<Rightarrow> pyfloat \<Rightarrow> pyfloat" where "fmul a b = round64 (a * b)"
definition fdiv :: "pyfloat \<Rightarrow> pyfloat \<Rightarrow> pyfloat" where "fdiv a b = round64 (a / b)"

text \<open>\<open>sum(xs)\<close>: left to right from the integer 0.\<close>

definition fsum :: "pyfloat list \<Rightarrow> pyfloat" where
  "fsum xs = foldl fadd 0 xs"

subsection \<open>Exactness\<close>

lemma round_half_even_int [simp]: "round_half_even (of_int n) = n"
  by (simp add: round_half_even_def)

lemma bitlen_bounds: "0 < n \<Longrightarrow> (2::int) ^ (bitlen n - 1) \<le> n \<and> n < 2 ^ bitlen n \<and> 0 < bitlen n"
proof (induction n rule: bitlen.induct)
  case (1 n)
  show ?case
  proof (cases "n div 2 = 0")
    case True
    with "1.prems" have "n = 1" by simp
    then show ?thesis by (simp add: bitlen.simps [of 1] bitlen.simps [of 0])
  next
    case False
    with 1 have ih: "(2::int) ^ (bitlen (n div 2) - 1) \<le> n div 2" "n div 2 < 2 ^ bitlen (n div 2)"
        "0 < bitlen (n div 2)"
      by auto
    have b: "bitlen n = Suc (bitlen (n div 2))"
      using "1.prems" by (simp add: bitlen.simps [of n])
    obtain j where j: "bitlen (n div 2) = Suc j"
      using ih(3) gr0_implies_Suc by blast
    have "2 * 2 ^ j \<le> n" using ih(1) j by simp
    moreover have "n < 2 * 2 ^ Suc j" using ih(2) j by simp
    ultimately show ?thesis using b j by simp
  qed
qed

lemma ilog2_bounds:
  assumes "0 < x"
  shows "2 powi ilog2 x \<le> x \<and> x < 2 powi (ilog2 x + 1)"
proof -
  obtain n d where q: "quotient_of x = (n, d)" by (cases "quotient_of x")
  have d: "0 < d" using q quotient_of_denom_pos by blast
  have x: "x = of_int n / of_int d" using q quotient_of_div by blast
  with assms d have n: "0 < n" by (simp add: zero_less_divide_iff)
  define a b where "a = bitlen n" and "b = bitlen d"
  have rat_pow: "(2::rat) ^ i = of_int (2 ^ i)" for i by simp
  have na: "(2::rat) ^ (a - 1) \<le> of_int n" "of_int n < (2::rat) ^ a" "0 < a"
    unfolding rat_pow of_int_le_iff of_int_less_iff a_def using bitlen_bounds [OF n] by auto
  have db: "(2::rat) ^ (b - 1) \<le> of_int d" "of_int d < (2::rat) ^ b" "0 < b"
    unfolding rat_pow of_int_le_iff of_int_less_iff b_def using bitlen_bounds [OF d] by auto
  obtain a' b' where ab: "a = Suc a'" "b = Suc b'"
    using na(3) db(3) gr0_implies_Suc by blast
  define k where "k = int a - int b"
  have dpos: "(0::rat) < of_int d" using d by simp
  have pw: "(2::rat) powi k * 2 ^ b = 2 ^ a"
    by (simp add: k_def power_int_diff flip: power_int_of_nat)
  have up: "x < 2 powi (k + 1)"
  proof -
    have "of_int n < (2::rat) ^ a" by (rule na(2))
    also have "(2::rat) ^ a = 2 powi (k + 1) * 2 ^ b'"
      using pw ab by (simp add: power_int_add)
    also have "\<dots> \<le> 2 powi (k + 1) * of_int d"
      using db(1) ab by (intro mult_left_mono) auto
    finally show ?thesis using x dpos by (simp add: divide_less_eq)
  qed
  have lo: "2 powi (k - 1) \<le> x"
  proof -
    have "2 powi (k - 1) * of_int d \<le> 2 powi (k - 1) * (2::rat) ^ b"
      using db(2) by (intro mult_left_mono) auto
    also have "\<dots> = 2 ^ a'"
      using pw ab by (simp add: power_int_diff)
    also have "\<dots> \<le> of_int n" using na(1) ab by simp
    finally show ?thesis using x dpos by (simp add: le_divide_eq)
  qed
  have "ilog2 x = (if 2 powi k \<le> x then k else k - 1)"
    by (simp add: ilog2_def q k_def a_def b_def)
  with up lo show ?thesis by auto
qed

definition exact64 :: "rat \<Rightarrow> bool" where
  "exact64 x \<longleftrightarrow> (\<exists>m k. x = of_int m * 2 powi k \<and> \<bar>m\<bar> < 2 ^ 53)"

lemma round64_pos_exact:
  assumes "0 < x" and x: "x = of_int m * 2 powi k" and m: "\<bar>m\<bar> < 2 ^ 53"
  shows "round64_pos x = x"
proof -
  define e where "e = ilog2 x - 52"
  have lo: "2 powi (e + 52) \<le> x"
    using ilog2_bounds [OF assms(1)] by (simp add: e_def)
  have "(0::rat) < 2 powi k" by simp
  with assms(1) x have mpos: "0 < m" by (simp add: zero_less_mult_iff not_less_iff_gr_or_eq)
  have ke: "e \<le> k"
  proof (rule ccontr)
    assume "\<not> e \<le> k"
    then have le: "k + 1 + 52 \<le> e + 52" by simp
    have "2 powi (k + 1 + 52) \<le> (2::rat) powi (e + 52)"
      using le by (intro power_int_increasing) auto
    also have "\<dots> \<le> of_int m * 2 powi k" using lo x by simp
    finally have "(2::rat) ^ 53 * 2 powi k \<le> of_int m * 2 powi k"
      by (simp add: power_int_add)
    then have "(2::rat) ^ 53 \<le> of_int m" by simp
    then have "(2::int) ^ 53 \<le> m"
      by (metis of_int_le_iff of_int_numeral of_int_power)
    with m show False by simp
  qed
  define j where "j = nat (k - e)"
  have kj: "k = e + int j" using ke by (simp add: j_def)
  have "x / 2 powi e = of_int (m * 2 ^ j)"
    using x kj by (simp add: power_int_add)
  then have r: "round_half_even (x / 2 powi e) = m * 2 ^ j" by (metis round_half_even_int)
  have "round64_pos x = of_int (round_half_even (x / 2 powi e)) * 2 powi e"
    by (simp add: round64_pos_def e_def Let_def)
  also have "\<dots> = x"
    unfolding r using x kj by (simp add: power_int_add)
  finally show ?thesis .
qed

text \<open>A value with at most 53 significant bits is not changed by rounding.\<close>

lemma round64_exact:
  assumes "exact64 x"
  shows "round64 x = x"
proof -
  obtain m k where x: "x = of_int m * 2 powi k" and m: "\<bar>m\<bar> < 2 ^ 53"
    using assms by (auto simp: exact64_def)
  show ?thesis
  proof (cases "x < 0")
    case True
    then have "0 < - x" by simp
    moreover have "- x = of_int (- m) * 2 powi k" using x by simp
    ultimately have "round64_pos (- x) = - x"
      using m by (intro round64_pos_exact [of "- x" "- m" k]) auto
    with True show ?thesis by (simp add: round64_def)
  next
    case False
    then show ?thesis
      using round64_pos_exact [OF _ x m] by (cases "x = 0") (auto simp: round64_def)
  qed
qed

text \<open>Halves of integers below \<open>2\<^sup>5\<^sup>2\<close>: the grid every tuned frequency lies on.\<close>

lemma exact64_half:
  assumes "2 * x = of_int n" and "\<bar>n\<bar> < 2 ^ 53"
  shows "exact64 x"
proof -
  have "x = of_int n * 2 powi (- 1)" using assms(1) by (simp add: power_int_minus)
  with assms(2) show ?thesis unfolding exact64_def by blast
qed

lemma round64_half: "2 * x = of_int n \<Longrightarrow> \<bar>n\<bar> < 2 ^ 53 \<Longrightarrow> round64 x = x"
  by (rule round64_exact) (rule exact64_half)

lemma round64_int: "\<bar>n\<bar> < 2 ^ 53 \<Longrightarrow> round64 (of_int n) = of_int n"
  proof (rule round64_exact)
  assume "\<bar>n\<bar> < 2 ^ 53"
  then have "(of_int n :: rat) = of_int n * 2 powi 0 \<and> \<bar>n\<bar> < 2 ^ 53" by simp
  then show "exact64 (of_int n)" unfolding exact64_def by blast
qed

lemma round64_0 [simp]: "round64 0 = 0"
  by (simp add: round64_def)

lemma round64_minus: "round64 (- x) = - round64 x"
  by (auto simp: round64_def)

lemma round_half_even_nonneg: "0 \<le> x \<Longrightarrow> 0 \<le> round_half_even x"
  by (auto simp: round_half_even_def Let_def)

lemma round64_nonneg: "0 \<le> x \<Longrightarrow> 0 \<le> round64 x"
  by (auto simp: round64_def round64_pos_def Let_def intro!: mult_nonneg_nonneg round_half_even_nonneg)

subsection \<open>The text of a float\<close>

text \<open>
  \<open>repr(x)\<close>: the shortest decimal digits that read back as \<open>x\<close>, in positional notation for
  decimal points from -3 to 16 and with an exponent otherwise.
\<close>

text \<open>\<open>10 powi ilog10 x \<le> x < 10 powi (ilog10 x + 1)\<close> for positive \<open>x\<close>.\<close>

definition ilog10 :: "rat \<Rightarrow> int" where
  "ilog10 x =
     (if 1 \<le> x then int (length (dec (nat \<lfloor>x\<rfloor>))) - 1
      else - int (length (dec (nat (\<lceil>1 / x\<rceil> - 1)))))"

definition decimal_digits :: "nat \<Rightarrow> rat \<Rightarrow> int" where
  "decimal_digits n x = round_half_even (x * 10 powi (int n - 1 - ilog10 x))"

definition reads_back :: "rat \<Rightarrow> nat \<Rightarrow> bool" where
  "reads_back x n \<longleftrightarrow> round64 (of_int (decimal_digits n x) * 10 powi (ilog10 x + 1 - int n)) = x"

text \<open>The digits and the position of the decimal point behind them; 17 digits always suffice.\<close>

definition shortest_digits :: "rat \<Rightarrow> string \<times> int" where
  "shortest_digits x =
     (let n = (case find (reads_back x) [1..<17] of Some n \<Rightarrow> n | None \<Rightarrow> 17);
          c = decimal_digits n x
      in if c = 10 ^ n then (''1'', ilog10 x + 2) else (dec (nat c), ilog10 x + 1))"

definition repr_positive :: "rat \<Rightarrow> string" where
  "repr_positive x =
     (let (s, point) = shortest_digits x; n = int (length s) in
      if -4 < point \<and> point \<le> 0 then ''0.'' @ replicate (nat (- point)) CHR ''0'' @ s
      else if 0 < point \<and> point < n then take (nat point) s @ ''.'' @ drop (nat point) s
      else if n \<le> point \<and> point \<le> 16 then s @ replicate (nat (point - n)) CHR ''0'' @ ''.0''
      else
        take 1 s @ (if 1 < n then CHR ''.'' # drop 1 s else []) @ ''e''
          @ (if point - 1 < 0 then ''-'' else ''+'') @ pad0 2 (dec (nat \<bar>point - 1\<bar>)))"

definition repr_float :: "pyfloat \<Rightarrow> string" where
  "repr_float x =
     (if x = 0 then ''0.0'' else if x < 0 then ''-'' @ repr_positive (- x) else repr_positive x)"

text \<open>\<open>str.partition\<close> and \<open>str.removesuffix\<close>; \<open>int\<close> of a signed decimal exponent.\<close>

definition partition_at :: "char \<Rightarrow> string \<Rightarrow> string \<times> bool \<times> string" where
  "partition_at c s =
     (takeWhile (\<lambda>d. d \<noteq> c) s, c \<in> set s, drop (Suc (length (takeWhile (\<lambda>d. d \<noteq> c) s))) s)"

definition removesuffix :: "string \<Rightarrow> string \<Rightarrow> string" where
  "removesuffix s t =
     (if length t \<le> length s \<and> drop (length s - length t) s = t then take (length s - length t) s else s)"

definition int_of_text :: "string \<Rightarrow> int" where
  "int_of_text s =
     (case s of
        [] \<Rightarrow> 0
      | c # t \<Rightarrow> if c = CHR ''-'' then - int (undec t) else if c = CHR ''+'' then int (undec t)
                 else int (undec s))"

text \<open>\<open>_ecmascript_number\<close>.\<close>

definition ecmascript_number :: "pyfloat \<Rightarrow> string" where
  "ecmascript_number x =
     (if x = 0 then ''0''
      else
        let shortest = repr_float x; (mantissa, separator, exponent_text) = partition_at CHR ''e'' shortest in
        if 1 / 10 ^ 6 \<le> \<bar>x\<bar> \<and> \<bar>x\<bar> < 10 ^ 21 then
          if \<not> separator then removesuffix shortest ''.0''
          else
            let exponent = int_of_text exponent_text;
                sign = (if take 1 mantissa = ''-'' then ''-'' else []);
                mantissa = (if take 1 mantissa = ''-'' then drop 1 mantissa else mantissa);
                (whole, _, fraction) = partition_at CHR ''.'' mantissa;
                digits = whole @ fraction;
                decimal_position = int (length whole) + exponent
            in
            if decimal_position \<le> 0
            then sign @ ''0.'' @ replicate (nat (- decimal_position)) CHR ''0'' @ digits
            else if decimal_position \<ge> int (length digits)
            then sign @ digits @ replicate (nat (decimal_position - int (length digits))) CHR ''0''
            else sign @ take (nat decimal_position) digits @ ''.'' @ drop (nat decimal_position) digits
        else if \<not> separator then removesuffix mantissa ''.0''
        else
          let exponent = int_of_text exponent_text in
          removesuffix mantissa ''.0'' @ ''e'' @ (if 0 \<le> exponent then ''+'' else []) @ str_int exponent)"

end
