(* ===== verification/Core_Types.thy ===== *)
theory Core_Types
  imports Sha256 Float64
begin

section \<open>Identities, versions, digests and canonical documents\<close>

text \<open>
  \<open>contracts/_validation.py\<close>, \<open>contracts/core.py\<close> and \<open>contracts/storage.py\<close>: portable
  tokens, the opaque identifiers whose prefix is their namespace, schema versions,
  content digests, the canonical JSON encoding behind every identity digest, and the
  references to stored objects. Python text is modelled by the bytes of ASCII text;
  every identifier of the program is an ASCII token. Python integers are \<open>int\<close>.
\<close>

datatype core_error =
    Not_Portable_Token | Negative_Utc | Negative_Number | Not_Positive
  | Bad_Schema_Version | Wrong_Id_Prefix | Invalid_Digest
  | Completion_Precedes_Start | No_Input_Digest
  | Media_Type_Not_Mime | Empty_Locator | Empty_Byte_Range
  | Same_Data_And_Metadata | Empty_Data_Object | Empty_Metadata_Object

subsection \<open>Field checks\<close>

definition is_alnum :: "char \<Rightarrow> bool" where
  "is_alnum c \<longleftrightarrow> is_digit c
     \<or> 65 \<le> (of_char c :: nat) \<and> (of_char c :: nat) \<le> 90
     \<or> 97 \<le> (of_char c :: nat) \<and> (of_char c :: nat) \<le> 122"

definition token_char :: "char \<Rightarrow> bool" where
  "token_char c \<longleftrightarrow> is_alnum c \<or> c \<in> set ''._:-''"

text \<open>\<open>_TOKEN\<close>: \<open>^[A-Za-z0-9][A-Za-z0-9._:-]*$\<close> with \<open>fullmatch\<close>.\<close>

definition is_token :: "string \<Rightarrow> bool" where
  "is_token s \<longleftrightarrow> s \<noteq> [] \<and> is_alnum (hd s) \<and> list_all token_char (tl s)"

definition require_token :: "string \<Rightarrow> (core_error, string) result" where
  "require_token s = (if is_token s then Inr s else Inl (ValueError Not_Portable_Token))"

definition require_nonnegative :: "int \<Rightarrow> (core_error, unit) result" where
  "require_nonnegative n = (if n < 0 then Inl (ValueError Negative_Number) else Inr ())"

definition require_positive :: "int \<Rightarrow> (core_error, unit) result" where
  "require_positive n = (if n \<le> 0 then Inl (ValueError Not_Positive) else Inr ())"

definition require_utc_ns :: "int \<Rightarrow> (core_error, unit) result" where
  "require_utc_ns n = (if n < 0 then Inl (ValueError Negative_Utc) else Inr ())"

lemma require_ok [simp]:
  "require_nonnegative n = Inr () \<longleftrightarrow> 0 \<le> n"
  "require_positive n = Inr () \<longleftrightarrow> 0 < n"
  "require_utc_ns n = Inr () \<longleftrightarrow> 0 \<le> n"
  "require_token s = Inr t \<longleftrightarrow> is_token s \<and> t = s"
  by (auto simp: require_nonnegative_def require_positive_def require_utc_ns_def
      require_token_def)

lemma token_charI: "is_alnum c \<Longrightarrow> token_char c" "is_digit c \<Longrightarrow> token_char c"
  "token_char CHR ''_''" "token_char CHR ''-''"
  by (auto simp: token_char_def is_alnum_def)

lemma is_tokenI: "s \<noteq> [] \<Longrightarrow> is_alnum (hd s) \<Longrightarrow> (\<And>c. c \<in> set s \<Longrightarrow> token_char c) \<Longrightarrow> is_token s"
  by (cases s) (auto simp: is_token_def list_all_iff)

lemma is_token_chars: "is_token s \<Longrightarrow> c \<in> set s \<Longrightarrow> token_char c"
  by (cases s) (auto simp: is_token_def list_all_iff token_charI)

lemma is_token_append: "is_token s \<Longrightarrow> (\<And>c. c \<in> set t \<Longrightarrow> token_char c) \<Longrightarrow> is_token (s @ t)"
  by (cases s) (auto simp: is_token_def list_all_iff)

subsection \<open>Schema versions\<close>

datatype schema_version = SchemaVersion (major: int) (minor: int)

text \<open>\<open>@dataclass(order=True)\<close>: lexicographic on the fields.\<close>

instantiation schema_version :: linorder
begin

definition less_eq_schema_version :: "schema_version \<Rightarrow> schema_version \<Rightarrow> bool" where
  "v \<le> w \<longleftrightarrow> major v < major w \<or> major v = major w \<and> minor v \<le> minor w"

definition less_schema_version :: "schema_version \<Rightarrow> schema_version \<Rightarrow> bool" where
  "(v :: schema_version) < w \<longleftrightarrow> v \<le> w \<and> \<not> w \<le> v"

instance
  by standard (auto simp: less_eq_schema_version_def less_schema_version_def
      intro: schema_version.expand)

end

definition V0_1 :: schema_version where
  "V0_1 = SchemaVersion 0 1"

definition schema_version_post_init :: "schema_version \<Rightarrow> (core_error, unit) result" where
  "schema_version_post_init v =
     bindE (require_nonnegative (major v)) (\<lambda>_. require_nonnegative (minor v))"

text \<open>\<open>(0|[1-9][0-9]*)\<close>\<close>

definition plain_numeral :: "string \<Rightarrow> bool" where
  "plain_numeral s \<longleftrightarrow> list_all is_digit s \<and> (s = ''0'' \<or> s \<noteq> [] \<and> hd s \<noteq> CHR ''0'')"

definition parse_schema_version :: "string \<Rightarrow> (core_error, schema_version) result" where
  "parse_schema_version s =
     (let a = takeWhile is_digit s; rest = dropWhile is_digit s
      in case rest of
           [] \<Rightarrow> Inl (ValueError Bad_Schema_Version)
         | c # b \<Rightarrow>
             if c = CHR ''.'' \<and> plain_numeral a \<and> plain_numeral b
             then checked schema_version_post_init
                    (SchemaVersion (int (undec a)) (int (undec b)))
             else Inl (ValueError Bad_Schema_Version))"

definition can_read :: "schema_version \<Rightarrow> schema_version \<Rightarrow> bool" where
  "can_read self produced \<longleftrightarrow> major self = major produced \<and> minor produced \<le> minor self"

definition str_schema_version :: "schema_version \<Rightarrow> string" where
  "str_schema_version v = str_int (major v) @ ''.'' @ str_int (minor v)"

lemma hd_append_dec [simp]: "hd (dec n @ s) = hd (dec n)"
  by simp

lemma dec_hd_zero: "hd (dec n) = CHR ''0'' \<Longrightarrow> n = 0"
proof (induction n rule: dec.induct)
  case (1 n)
  show ?case
  proof (cases "n < 10")
    case True
    with "1.prems" have "digit n = digit 0"
      by (simp add: dec.simps [of n] digit_chars)
    then have "digit_val (digit n) = digit_val (digit 0)" by simp
    with True show ?thesis by simp
  next
    case False
    with 1 have "n div 10 = 0" by (simp add: dec.simps [of n])
    with False show ?thesis by simp
  qed
qed

lemma dec_zero: "dec 0 = ''0''"
  by (simp add: dec.simps digit_chars)

lemma plain_numeral_dec: "plain_numeral (dec n)"
  using dec_hd_zero [of n] dec_digits [of n] by (auto simp: plain_numeral_def list_all_iff dec_zero)

lemma takeWhile_digits: "list_all is_digit a \<Longrightarrow> \<not> is_digit c \<Longrightarrow>
    takeWhile is_digit (a @ c # b) = a \<and> dropWhile is_digit (a @ c # b) = c # b"
  by (induction a) auto

lemma list_all_digits_dec: "list_all is_digit (dec n)"
  using dec_digits by (simp add: list_all_iff)

lemma dot_no_digit [simp]: "\<not> is_digit CHR ''.''"
  by (simp add: is_digit_def)

subsection \<open>Identifiers\<close>

text \<open>The concrete subclasses of \<open>ContractId\<close> and their prefixes.\<close>

datatype id_kind =
    PlanId | ActivityId | SegmentId | RecordingId | CaptureBatchId | CaptureAttemptId
  | StationId | RadioId | ReceiverChainId | ReceiverPairId | HardwareSnapshotId
  | AnalysisRunId | FeatureId | FeatureSetId | DatasetSnapshotId | DetectorEvaluationId
  | EvaluationRunId | ModelRunId | ModelSnapshotId | EphemerisSnapshotId
  | EphemerisRetrievalId | JobId

fun id_prefix :: "id_kind \<Rightarrow> string" where
  "id_prefix PlanId = ''plan''"
| "id_prefix ActivityId = ''act''"
| "id_prefix SegmentId = ''seg''"
| "id_prefix RecordingId = ''rec''"
| "id_prefix CaptureBatchId = ''cbatch''"
| "id_prefix CaptureAttemptId = ''cattempt''"
| "id_prefix StationId = ''station''"
| "id_prefix RadioId = ''radio''"
| "id_prefix ReceiverChainId = ''rx''"
| "id_prefix ReceiverPairId = ''rxpair''"
| "id_prefix HardwareSnapshotId = ''hw''"
| "id_prefix AnalysisRunId = ''arun''"
| "id_prefix FeatureId = ''feature''"
| "id_prefix FeatureSetId = ''fset''"
| "id_prefix DatasetSnapshotId = ''dataset''"
| "id_prefix DetectorEvaluationId = ''eval''"
| "id_prefix EvaluationRunId = ''erun''"
| "id_prefix ModelRunId = ''mrun''"
| "id_prefix ModelSnapshotId = ''model''"
| "id_prefix EphemerisSnapshotId = ''eph''"
| "id_prefix EphemerisRetrievalId = ''ephret''"
| "id_prefix JobId = ''job''"

definition startswith :: "string \<Rightarrow> string \<Rightarrow> bool" where
  "startswith s p \<longleftrightarrow> take (length p) s = p"

definition contract_id :: "id_kind \<Rightarrow> string \<Rightarrow> (core_error, string) result" where
  "contract_id k s =
     bindE (require_token s) (\<lambda>_.
       if startswith s (id_prefix k @ ''_'') then Inr s else Inl (ValueError Wrong_Id_Prefix))"

definition valid_id :: "id_kind \<Rightarrow> string \<Rightarrow> bool" where
  "valid_id k s \<longleftrightarrow> is_token s \<and> startswith s (id_prefix k @ ''_'')"

lemma contract_id_ok [simp]: "contract_id k s = Inr t \<longleftrightarrow> valid_id k s \<and> t = s"
  by (auto simp: contract_id_def valid_id_def)

lemma startswith_append [simp]: "startswith (p @ s) p"
  by (simp add: startswith_def)

lemma id_prefix_alnum: "id_prefix k \<noteq> [] \<and> (\<forall>c \<in> set (id_prefix k). is_alnum c)"
  by (cases k) (auto simp: is_alnum_def is_digit_def)

text \<open>A prefix and an underscore followed by token characters is an identifier.\<close>

lemma valid_id_build:
  assumes "\<And>c. c \<in> set s \<Longrightarrow> token_char c"
  shows "valid_id k (id_prefix k @ ''_'' @ s)"
proof -
  have "id_prefix k \<noteq> []" "\<And>c. c \<in> set (id_prefix k) \<Longrightarrow> is_alnum c"
    using id_prefix_alnum [of k] by auto
  then have "is_token (id_prefix k @ ''_'' @ s)"
    using assms by (intro is_tokenI) (auto simp: token_charI)
  moreover have "startswith (id_prefix k @ ''_'' @ s) (id_prefix k @ ''_'')"
    using startswith_append [of "id_prefix k @ ''_''" s] by simp
  ultimately show ?thesis by (simp add: valid_id_def)
qed

subsection \<open>Digests and references\<close>

datatype digest_algorithm = SHA256

record digest =
  algorithm :: digest_algorithm
  dvalue :: string

definition digest_post_init :: "digest \<Rightarrow> (core_error, unit) result" where
  "digest_post_init d =
     (if length (dvalue d) \<noteq> (case algorithm d of SHA256 \<Rightarrow> 64) \<or> \<not> list_all is_hex (dvalue d)
      then Inl (ValueError Invalid_Digest) else Inr ())"

definition digest_sha256 :: "string \<Rightarrow> digest" where
  "digest_sha256 data = \<lparr>algorithm = SHA256, dvalue = sha256_hex data\<rparr>"

fun str_algorithm :: "digest_algorithm \<Rightarrow> string" where
  "str_algorithm SHA256 = ''sha256''"

definition str_digest :: "digest \<Rightarrow> string" where
  "str_digest d = str_algorithm (algorithm d) @ '':'' @ dvalue d"

lemma str_digest_inj [simp]: "str_digest d = str_digest e \<longleftrightarrow> d = e"
  by (cases "algorithm d"; cases "algorithm e") (auto simp: str_digest_def)

record schema_ref =
  schema_id :: string
  version :: schema_version

definition schema_ref_post_init :: "schema_ref \<Rightarrow> (core_error, unit) result" where
  "schema_ref_post_init r = bindE (require_token (schema_id r)) (\<lambda>_. Inr ())"

text \<open>\<open>SchemaRef(name)\<close> with the default version.\<close>

definition schema_v0_1 :: "string \<Rightarrow> schema_ref" where
  "schema_v0_1 s = \<lparr>schema_id = s, version = V0_1\<rparr>"

record artifact_ref =
  artifact_id :: string
  ar_digest :: digest
  ar_schema :: "schema_ref option"

definition artifact_ref_post_init :: "artifact_ref \<Rightarrow> (core_error, unit) result" where
  "artifact_ref_post_init r = bindE (require_token (artifact_id r)) (\<lambda>_. Inr ())"

record provenance =
  producer_name :: string
  producer_version :: string
  git_commit :: string
  environment_digest :: digest
  normalized_config_digest :: digest
  input_digests :: "digest list"
  dependency_digests :: "digest list"
  started_utc_ns :: int
  completed_utc_ns :: int
  host_class :: string

definition provenance_post_init :: "provenance \<Rightarrow> (core_error, unit) result" where
  "provenance_post_init p =
     bindE (require_token (producer_name p)) (\<lambda>_.
     bindE (require_token (producer_version p)) (\<lambda>_.
     bindE (require_token (git_commit p)) (\<lambda>_.
     bindE (require_token (host_class p)) (\<lambda>_.
     bindE (require_utc_ns (started_utc_ns p)) (\<lambda>_.
     bindE (require_utc_ns (completed_utc_ns p)) (\<lambda>_.
       raise_first
         [(completed_utc_ns p < started_utc_ns p, ValueError Completion_Precedes_Start),
          (input_digests p = [], ValueError No_Input_Digest)]))))))"

subsection \<open>Canonical JSON\<close>

text \<open>
  The values \<open>_primitive\<close> produces: \<open>null\<close>, booleans, integers, finite floats, text, lists
  and objects. A Python dict is a list of pairs in insertion order with distinct keys.
\<close>

datatype json =
    JNull
  | JBool bool
  | JInt int
  | JFloat pyfloat
  | JStr string
  | JList "json list"
  | JObj "(string \<times> json) list"

text \<open>\<open>json.dumps(s, ensure_ascii=False)\<close>: the escapes of the standard encoder.\<close>

definition hex4 :: "nat \<Rightarrow> string" where
  "hex4 n = hex_of 4 (int n)"

definition escape_char :: "char \<Rightarrow> string" where
  "escape_char c =
     (let n = (of_char c :: nat) in
      if n = 34 then [CHR 0x5C, CHR 0x22]
      else if n = 92 then [CHR 0x5C, CHR 0x5C]
      else if n = 10 then CHR 0x5C # ''n''
      else if n = 13 then CHR 0x5C # ''r''
      else if n = 9 then CHR 0x5C # ''t''
      else if n = 8 then CHR 0x5C # ''b''
      else if n = 12 then CHR 0x5C # ''f''
      else if n < 32 then CHR 0x5C # CHR ''u'' # hex4 n
      else [c])"

definition dump_str :: "string \<Rightarrow> string" where
  "dump_str s = CHR 0x22 # concat (map escape_char s) @ [CHR 0x22]"

fun join :: "string \<Rightarrow> string list \<Rightarrow> string" where
  "join sep [] = []"
| "join sep [x] = x"
| "join sep (x # y # zs) = x @ sep @ join sep (y # zs)"

fun encode_canonical :: "json \<Rightarrow> string" where
  "encode_canonical JNull = ''null''"
| "encode_canonical (JBool b) = (if b then ''true'' else ''false'')"
| "encode_canonical (JInt n) = str_int n"
| "encode_canonical (JFloat x) = ecmascript_number x"
| "encode_canonical (JStr s) = dump_str s"
| "encode_canonical (JList xs) = ''['' @ join '','' (map encode_canonical xs) @ '']''"
| "encode_canonical (JObj kvs) =
     CHR 0x7B # join '','' (map (\<lambda>(k, t). dump_str k @ '':'' @ t)
        (sort_key fst (map (\<lambda>(k, v). (k, encode_canonical v)) kvs))) @ [CHR 0x7D]"

definition canonical_json_bytes :: "json \<Rightarrow> string" where
  "canonical_json_bytes v = encode_canonical v"

definition canonical_digest :: "json \<Rightarrow> digest" where
  "canonical_digest v = digest_sha256 (canonical_json_bytes v)"

text \<open>\<open>_primitive\<close> on the shared value types.\<close>

definition json_schema_version :: "schema_version \<Rightarrow> json" where
  "json_schema_version v = JObj [(''major'', JInt (major v)), (''minor'', JInt (minor v))]"

definition json_schema_ref :: "schema_ref \<Rightarrow> json" where
  "json_schema_ref r =
     JObj [(''schema_id'', JStr (schema_id r)), (''version'', json_schema_version (version r))]"

definition json_digest :: "digest \<Rightarrow> json" where
  "json_digest d =
     JObj [(''algorithm'', JStr (str_algorithm (algorithm d))), (''value'', JStr (dvalue d))]"

fun json_option :: "('a \<Rightarrow> json) \<Rightarrow> 'a option \<Rightarrow> json" where
  "json_option f None = JNull"
| "json_option f (Some x) = f x"

subsection \<open>Stored objects\<close>

record object_ref =
  obj_digest :: digest
  byte_count :: int
  media_type :: string
  format_id :: string
  locator :: string

definition object_ref_post_init :: "object_ref \<Rightarrow> (core_error, unit) result" where
  "object_ref_post_init r =
     bindE (require_nonnegative (byte_count r)) (\<lambda>_.
     bindE (require_token (format_id r)) (\<lambda>_.
       raise_first
         [(CHR ''/'' \<notin> set (media_type r), ValueError Media_Type_Not_Mime),
          (locator r = [], ValueError Empty_Locator)]))"

record byte_range =
  br_start :: int
  br_stop :: int

definition byte_range_post_init :: "byte_range \<Rightarrow> (core_error, unit) result" where
  "byte_range_post_init r =
     bindE (require_nonnegative (br_start r)) (\<lambda>_.
     bindE (require_positive (br_stop r)) (\<lambda>_.
       raise_first [(br_stop r \<le> br_start r, ValueError Empty_Byte_Range)]))"

record recording_object_ref =
  ror_recording_id :: string
  data_object :: object_ref
  metadata_object :: object_ref
  manifest_digest :: digest

definition recording_object_ref_post_init :: "recording_object_ref \<Rightarrow> (core_error, unit) result" where
  "recording_object_ref_post_init r =
     raise_first
       [(obj_digest (data_object r) = obj_digest (metadata_object r),
           ValueError Same_Data_And_Metadata),
        (byte_count (data_object r) = 0, ValueError Empty_Data_Object),
        (byte_count (metadata_object r) = 0, ValueError Empty_Metadata_Object)]"

definition object_identity :: "object_ref \<Rightarrow> json" where
  "object_identity r =
     JObj [(''digest'', JStr (str_digest (obj_digest r))),
           (''byte_count'', JInt (byte_count r)),
           (''media_type'', JStr (media_type r)),
           (''format_id'', JStr (format_id r))]"

definition recording_identity_document :: "recording_object_ref \<Rightarrow> json" where
  "recording_identity_document r =
     JObj [(''recording_id'', JStr (ror_recording_id r)),
           (''data'', object_identity (data_object r)),
           (''metadata'', object_identity (metadata_object r)),
           (''manifest_digest'', JStr (str_digest (manifest_digest r)))]"

definition identity_digest :: "recording_object_ref \<Rightarrow> digest" where
  "identity_digest r = canonical_digest (recording_identity_document r)"

record published_recording_ref =
  recording_object :: recording_object_ref

definition published_recording_id :: "published_recording_ref \<Rightarrow> string" where
  "published_recording_id p = ror_recording_id (recording_object p)"

subsection \<open>Versions and digests as text\<close>

text \<open>
  Printing a schema version and parsing the text gives the version back, for every
  version the constructor accepts.
\<close>

lemma parse_str_schema_version:
  assumes "schema_version_post_init v = Inr ()"
  shows "parse_schema_version (str_schema_version v) = Inr v"
proof -
  have nn: "0 \<le> major v" "0 \<le> minor v"
    using assms by (auto simp: schema_version_post_init_def)
  let ?a = "dec (nat (major v))" and ?b = "dec (nat (minor v))"
  have s: "str_schema_version v = ?a @ CHR ''.'' # ?b"
    using nn by (simp add: str_schema_version_def str_int_def)
  have t: "takeWhile is_digit (?a @ CHR ''.'' # ?b) = ?a"
      "dropWhile is_digit (?a @ CHR ''.'' # ?b) = CHR ''.'' # ?b"
    using takeWhile_digits [of ?a "CHR ''.''" ?b] list_all_digits_dec by auto
  have v: "SchemaVersion (int (undec ?a)) (int (undec ?b)) = v"
    using nn by (simp add: schema_version.expand)
  show ?thesis
    unfolding parse_schema_version_def s t
    using plain_numeral_dec v assms by (simp add: checked_okI)
qed

text \<open>
  A content digest is always well formed: \<open>Digest.sha256\<close>, and so
  \<open>canonical_digest\<close>, never raises, whatever the bytes, and its text determines it.
\<close>

lemma digest_sha256_valid:
  "digest_post_init (digest_sha256 data) = Inr () \<and>
   digest_post_init (canonical_digest doc) = Inr () \<and>
   (str_digest (canonical_digest doc) = str_digest d \<longleftrightarrow> canonical_digest doc = d)"
  using sha256_hex_shape
  by (auto simp: digest_post_init_def digest_sha256_def canonical_digest_def list_all_iff)

end
