(* ===== verification/Jobs.thy ===== *)
theory Jobs
  imports Core_Types Float64 "HOL-Library.AList"
begin

section \<open>Fenced job leases\<close>

text \<open>
  \<open>jobs/contracts.py\<close>, \<open>jobs/ports.py\<close>, \<open>jobs/memory.py\<close> and the fenced worker cycle of
  \<open>services/analysis.py\<close>. The repository is the dictionary \<open>_jobs\<close> as an association
  list in insertion order; every operation holds the lock, so it is one step. The clock
  and the token factory are read by the operation: their readings are arguments
  (\<open>fail\<close> reads the clock twice). Exceptions leave behind what was written before them.
\<close>

datatype job_error =
    Bad_Park_Reason | Payload_Not_Canonical | Job_Conflict | Unknown_Job | Stale_Unknown
  | Stale_Lease | Empty_Reason | Bad_Ttl | No_Lease_Fields | Bad_Lease core_error
  | Bad_Worker | Processor_Failed | Ttl_Below_Resolution | Clock_Out_Of_Range | Claim_Rejected
  | Row_Incomplete | Row_Unreadable core_error | Row_Unknown_Member

datatype job_type =
    RECORDING_ANALYSIS | WATERFALL_ANALYSIS | STARLINK_ANALYSIS | STARLINK_SUITE_ANALYSIS
  | MODEL_ANALYSIS | EPHEMERIS_RETRIEVAL | EPHEMERIS_LINK_BACKFILL

datatype job_state = READY | LEASED | SUCCEEDED | FAILED | PARKED

text \<open>\<open>_PARK_REASON\<close>: \<open>[a-z0-9][a-z0-9._:-]{0,127}\<close>.\<close>

definition is_lower_alnum :: "char \<Rightarrow> bool" where
  "is_lower_alnum c \<longleftrightarrow> is_digit c \<or> 97 \<le> (of_char c :: nat) \<and> (of_char c :: nat) \<le> 122"

definition reason_code :: "string \<Rightarrow> bool" where
  "reason_code s \<longleftrightarrow> s \<noteq> [] \<and> is_lower_alnum (hd s) \<and> length s \<le> 128
     \<and> list_all (\<lambda>c. is_lower_alnum c \<or> c \<in> set ''._:-'') (tl s)"

definition validate_park_reason :: "string \<Rightarrow> (job_error, unit) result" where
  "validate_park_reason s = (if reason_code s then Inr () else Inl (ValueError Bad_Park_Reason))"

record job_payload =
  pl_schema :: schema_ref
  pl_value :: "(string \<times> json) list"

definition job_payload_post_init :: "job_payload \<Rightarrow> (job_error, unit) result" where
  "job_payload_post_init p =
     raise_first [(\<not> in_order fst (pl_value p), ValueError Payload_Not_Canonical)]"

text \<open>
  Equality of Python values: \<open>1 == 1.0 == True\<close>, and dicts without order. A payload's value is a
  tuple of pairs, and a tuple is a \<open>JList\<close>, so the pair \<open>(key, item)\<close> is the list of the text
  and the item.
\<close>

fun equality_key :: "json \<Rightarrow> json" where
  "equality_key (JBool b) = JFloat (if b then 1 else 0)"
| "equality_key (JInt n) = JFloat (of_int n)"
| "equality_key (JList xs) = JList (map equality_key xs)"
| "equality_key (JObj kvs) = JObj (sort_key fst (map (\<lambda>(k, v). (k, equality_key v)) kvs))"
| "equality_key v = v"

definition python_equal :: "json \<Rightarrow> json \<Rightarrow> bool" where
  "python_equal v w \<longleftrightarrow> equality_key v = equality_key w"

definition payload_tuple :: "job_payload \<Rightarrow> json" where
  "payload_tuple p = JList (map (\<lambda>(k, v). JList [JStr k, v]) (pl_value p))"

definition same_payload :: "job_payload \<Rightarrow> job_payload \<Rightarrow> bool" where
  "same_payload p q \<longleftrightarrow> pl_schema p = pl_schema q \<and> python_equal (payload_tuple p) (payload_tuple q)"

record job_lease =
  jl_job_id :: string
  jl_type :: job_type
  jl_payload :: job_payload
  jl_attempt :: int
  jl_token :: string
  jl_generation :: int
  jl_expires :: int

definition job_lease_post_init :: "job_lease \<Rightarrow> (job_error, unit) result" where
  "job_lease_post_init l =
     embed_exn Bad_Lease
       (bindE (require_positive (jl_attempt l)) (\<lambda>_.
        bindE (require_token (jl_token l)) (\<lambda>_.
        bindE (require_positive (jl_generation l)) (\<lambda>_.
          require_utc_ns (jl_expires l)))))"

record job_snapshot =
  js_job_id :: string
  js_state :: job_state
  js_attempt :: int
  js_generation :: int
  js_result :: "artifact_ref option"
  js_last_error :: "string option"
  js_park_reason :: "string option"
  js_parked_at :: "int option"

record job_record =
  jr_id :: string
  jr_type :: job_type
  jr_payload :: job_payload
  jr_state :: job_state
  jr_available :: int
  jr_attempt :: int
  jr_token :: "string option"
  jr_generation :: int
  jr_expires :: "int option"
  jr_result :: "artifact_ref option"
  jr_last_error :: "string option"
  jr_park_reason :: "string option"
  jr_parked_at :: "int option"

type_synonym job_repo = "(string \<times> job_record) list"
type_synonym 'a job_io = "(job_repo, job_error exn, 'a) io"

definition new_job_record :: "string \<Rightarrow> job_type \<Rightarrow> job_payload \<Rightarrow> int \<Rightarrow> job_record" where
  "new_job_record i t p available =
     \<lparr>jr_id = i, jr_type = t, jr_payload = p, jr_state = READY, jr_available = available,
      jr_attempt = 0, jr_token = None, jr_generation = 0, jr_expires = None,
      jr_result = None, jr_last_error = None, jr_park_reason = None, jr_parked_at = None\<rparr>"

subsection \<open>The repository operations\<close>

definition job_enqueue ::
  "string \<Rightarrow> job_type \<Rightarrow> job_payload \<Rightarrow> int option \<Rightarrow> int \<Rightarrow> unit job_io" where
  "job_enqueue job_id t payload available_at now s =
     (case map_of s job_id of
        Some existing \<Rightarrow>
          if jr_type existing \<noteq> t \<or> \<not> same_payload (jr_payload existing) payload
          then (Inl (RuntimeError Job_Conflict), s)
          else (Inr (), s)
      | None \<Rightarrow>
          (Inr (), AList.update job_id
             (new_job_record job_id t payload
                (case available_at of Some a \<Rightarrow> a | None \<Rightarrow> now)) s))"

text \<open>\<open>max(1, int(ttl_s * 1_000_000_000))\<close>, the product rounded as a float.\<close>

definition ttl_ns :: "pyfloat \<Rightarrow> (job_error, int) result" where
  "ttl_ns ttl_s =
     (if ttl_s \<le> 0 then Inl (ValueError Bad_Ttl)
      else Inr (max 1 \<lfloor>fmul ttl_s 1000000000\<rfloor>))"

definition lease_of :: "job_record \<Rightarrow> (job_error, job_lease) result" where
  "lease_of r =
     (case (jr_token r, jr_expires r) of
        (Some token, Some expires) \<Rightarrow>
          checked job_lease_post_init
            \<lparr>jl_job_id = jr_id r, jl_type = jr_type r, jl_payload = jr_payload r,
             jl_attempt = jr_attempt r, jl_token = token, jl_generation = jr_generation r,
             jl_expires = expires\<rparr>
      | _ \<Rightarrow> Inl (AssertionError No_Lease_Fields))"

definition claimable :: "job_type list \<Rightarrow> int \<Rightarrow> job_record \<Rightarrow> bool" where
  "claimable types now r \<longleftrightarrow>
     jr_type r \<in> set types \<and> jr_state r \<noteq> SUCCEEDED \<and> jr_state r \<noteq> PARKED
     \<and> jr_available r \<le> now
     \<and> (jr_state r = READY \<or> jr_state r = FAILED
        \<or> jr_state r = LEASED \<and> (case jr_expires r of None \<Rightarrow> False | Some e \<Rightarrow> e \<le> now))"

definition job_claim ::
  "job_type list \<Rightarrow> pyfloat \<Rightarrow> int \<Rightarrow> string \<Rightarrow> job_lease option job_io" where
  "job_claim types ttl_s now token =
     bind_io (lift (ttl_ns ttl_s)) (\<lambda>ttl s.
       case min_by jr_id (filter (claimable types now) (map snd s)) of
         None \<Rightarrow> (Inr None, s)
       | Some r \<Rightarrow>
           let r' = r\<lparr>jr_state := LEASED, jr_attempt := jr_attempt r + 1,
                      jr_generation := jr_generation r + 1, jr_token := Some token,
                      jr_expires := Some (now + ttl)\<rparr>
           in bind_io (lift (lease_of r')) (\<lambda>l. ret (Some l)) (AList.update (jr_id r) r' s))"

definition job_require_active ::
  "string \<Rightarrow> string \<Rightarrow> int \<Rightarrow> int \<Rightarrow> job_repo \<Rightarrow> (job_error, job_record) result" where
  "job_require_active job_id token generation now s =
     (case map_of s job_id of
        None \<Rightarrow> Inl (RuntimeError Stale_Unknown)
      | Some r \<Rightarrow>
          if jr_state r \<noteq> LEASED \<or> jr_token r \<noteq> Some token \<or> jr_generation r \<noteq> generation
             \<or> (case jr_expires r of None \<Rightarrow> True | Some e \<Rightarrow> e \<le> now)
          then Inl (RuntimeError Stale_Lease) else Inr r)"

text \<open>Look the active record up, then write the changed record back.\<close>

definition job_heartbeat ::
  "string \<Rightarrow> string \<Rightarrow> int \<Rightarrow> pyfloat \<Rightarrow> int \<Rightarrow> job_lease job_io" where
  "job_heartbeat job_id token generation ttl_s now =
     bind_io (lift (ttl_ns ttl_s)) (\<lambda>ttl s.
       case job_require_active job_id token generation now s of
         Inl e \<Rightarrow> (Inl e, s)
       | Inr r \<Rightarrow>
           let r' = r\<lparr>jr_expires := Some (now + ttl)\<rparr>
           in (lease_of r', AList.update job_id r' s))"

definition job_complete :: "string \<Rightarrow> string \<Rightarrow> int \<Rightarrow> artifact_ref \<Rightarrow> int \<Rightarrow> unit job_io" where
  "job_complete job_id token generation result_ref now s =
     (case job_require_active job_id token generation now s of
        Inl e \<Rightarrow> (Inl e, s)
      | Inr r \<Rightarrow>
          (Inr (), AList.update job_id
             (r\<lparr>jr_state := SUCCEEDED, jr_result := Some result_ref, jr_token := None,
                jr_expires := None\<rparr>) s))"

definition job_fail ::
  "string \<Rightarrow> string \<Rightarrow> int \<Rightarrow> string \<Rightarrow> int option \<Rightarrow> int \<Rightarrow> int \<Rightarrow> unit job_io" where
  "job_fail job_id token generation reason retry_at now now' s =
     (if reason = [] then (Inl (ValueError Empty_Reason), s)
      else case job_require_active job_id token generation now s of
        Inl e \<Rightarrow> (Inl e, s)
      | Inr r \<Rightarrow>
          (Inr (), AList.update job_id
             (r\<lparr>jr_state := FAILED, jr_last_error := Some reason,
                jr_available := (case retry_at of Some a \<Rightarrow> a | None \<Rightarrow> now'),
                jr_token := None, jr_expires := None\<rparr>) s))"

definition job_park :: "string \<Rightarrow> string \<Rightarrow> int \<Rightarrow> string \<Rightarrow> int \<Rightarrow> unit job_io" where
  "job_park job_id token generation reason now s =
     (case validate_park_reason reason of
        Inl e \<Rightarrow> (Inl e, s)
      | Inr _ \<Rightarrow>
          (case job_require_active job_id token generation now s of
             Inl e \<Rightarrow> (Inl e, s)
           | Inr r \<Rightarrow>
               (Inr (), AList.update job_id
                  (r\<lparr>jr_state := PARKED, jr_park_reason := Some reason,
                     jr_parked_at := Some now, jr_result := None, jr_last_error := None,
                     jr_token := None, jr_expires := None\<rparr>) s)))"

definition job_snapshot_of :: "string \<Rightarrow> job_repo \<Rightarrow> (job_error, job_snapshot) result" where
  "job_snapshot_of job_id s =
     (case map_of s job_id of
        None \<Rightarrow> Inl (KeyError Unknown_Job)
      | Some r \<Rightarrow>
          Inr \<lparr>js_job_id = jr_id r, js_state = jr_state r, js_attempt = jr_attempt r,
               js_generation = jr_generation r, js_result = jr_result r,
               js_last_error = jr_last_error r, js_park_reason = jr_park_reason r,
               js_parked_at = jr_parked_at r\<rparr>)"

subsection \<open>What every stored job satisfies\<close>

definition job_wf :: "job_record \<Rightarrow> bool" where
  "job_wf r \<longleftrightarrow>
     0 \<le> jr_attempt r \<and> jr_generation r = jr_attempt r
     \<and> (jr_state r = READY \<longleftrightarrow> jr_attempt r = 0)
     \<and> (jr_state r = LEASED \<longleftrightarrow> jr_token r \<noteq> None)
     \<and> (jr_token r = None \<longleftrightarrow> jr_expires r = None)
     \<and> (jr_state r = SUCCEEDED \<longleftrightarrow> jr_result r \<noteq> None)
     \<and> (jr_state r = PARKED \<longleftrightarrow> jr_park_reason r \<noteq> None)
     \<and> (jr_park_reason r = None \<longleftrightarrow> jr_parked_at r = None)
     \<and> (jr_state r = FAILED \<longrightarrow> jr_last_error r \<noteq> None)
     \<and> (\<forall>c. jr_park_reason r = Some c \<longrightarrow> reason_code c \<and> jr_last_error r = None)"

definition repo_wf :: "job_repo \<Rightarrow> bool" where
  "repo_wf s \<longleftrightarrow>
     distinct (map fst s) \<and> (\<forall>k r. map_of s k = Some r \<longrightarrow> jr_id r = k \<and> job_wf r)"

lemma repo_wf_empty [simp]: "repo_wf []"
  by (simp add: repo_wf_def)

lemma repo_wfD: "repo_wf s \<Longrightarrow> map_of s k = Some r \<Longrightarrow> jr_id r = k \<and> job_wf r"
  by (simp add: repo_wf_def)

lemma repo_wf_update:
  "repo_wf s \<Longrightarrow> job_wf r \<Longrightarrow> jr_id r = k \<Longrightarrow> repo_wf (AList.update k r s)"
  by (auto simp: repo_wf_def distinct_update update_conv')

lemma repo_wf_values:
  assumes "repo_wf s" and "r \<in> set (map snd s)"
  shows "map_of s (jr_id r) = Some r"
proof -
  from assms(2) obtain k where k: "(k, r) \<in> set s" by auto
  with assms(1) have "map_of s k = Some r" by (simp add: repo_wf_def)
  with repo_wfD [OF assms(1) this] show ?thesis by simp
qed

lemma require_active_Inr:
  "job_require_active i t g now s = Inr r \<longleftrightarrow>
     map_of s i = Some r \<and> jr_state r = LEASED \<and> jr_token r = Some t \<and> jr_generation r = g
     \<and> (\<exists>e. jr_expires r = Some e \<and> now < e)"
  by (auto simp: job_require_active_def split: option.splits if_splits)

text \<open>A claim either finds nothing, or writes the leased record under its own key.\<close>

definition claimed :: "job_record \<Rightarrow> string \<Rightarrow> int \<Rightarrow> job_record" where
  "claimed r token expires =
     r\<lparr>jr_state := LEASED, jr_attempt := jr_attempt r + 1, jr_generation := jr_generation r + 1,
       jr_token := Some token, jr_expires := Some expires\<rparr>"

lemma claim_cases:
  assumes "repo_wf s" and "job_claim types ttl_s now token s = (res, s')"
  obtains (bad_ttl) "ttl_s \<le> 0" "res = Inl (ValueError Bad_Ttl)" "s' = s"
  | (idle) "0 < ttl_s" "res = Inr None" "s' = s" "\<forall>r \<in> set (map snd s). \<not> claimable types now r"
  | (leased) r ttl where "ttl_ns ttl_s = Inr ttl" "map_of s (jr_id r) = Some r"
      "claimable types now r"
      "\<forall>q \<in> set (map snd s). claimable types now q \<longrightarrow> jr_id r \<le> jr_id q"
      "s' = AList.update (jr_id r) (claimed r token (now + ttl)) s"
      "res = bindE (lease_of (claimed r token (now + ttl))) (\<lambda>l. Inr (Some l))"
proof (cases "ttl_s \<le> 0")
  case True
  then show thesis
    using assms(2) bad_ttl by (auto simp: job_claim_def ttl_ns_def bind_io_def lift_def)
next
  case False
  then obtain ttl where ttl: "ttl_ns ttl_s = Inr ttl" by (simp add: ttl_ns_def)
  let ?c = "filter (claimable types now) (map snd s)"
  show thesis
  proof (cases "min_by jr_id ?c")
    case None
    with False ttl assms(2) show thesis
      by (intro idle) (auto simp: job_claim_def bind_io_def lift_def filter_empty_conv)
  next
    case (Some r)
    then have r: "r \<in> set ?c" "\<forall>q \<in> set ?c. jr_id r \<le> jr_id q"
      using min_by_Some [OF Some] by blast+
    moreover have "map_of s (jr_id r) = Some r"
      using repo_wf_values [OF assms(1)] r(1) by auto
    ultimately show thesis
      using Some ttl assms(2)
      by (intro leased [of ttl r])
        (auto simp: job_claim_def bind_io_def lift_def ret_def claimed_def Let_def bindE_def
          split: sum.splits)
  qed
qed

lemma lease_of_Inr:
  "lease_of r = Inr l \<Longrightarrow>
     jl_job_id l = jr_id r \<and> jl_generation l = jr_generation r \<and> jr_token r = Some (jl_token l)
     \<and> jr_expires r = Some (jl_expires l) \<and> jl_attempt l = jr_attempt r \<and> jl_type l = jr_type r
     \<and> jl_payload l = jr_payload r"
  by (auto simp: lease_of_def split: option.splits)

lemma lease_of_claimed:
  assumes "job_wf r" and "is_token tok" and "0 \<le> e"
  shows "\<exists>l. lease_of (claimed r tok e) = Inr l"
  using assms
  by (simp add: lease_of_def claimed_def job_lease_post_init_def job_wf_def require_token_def
      require_positive_def require_utc_ns_def)

subsection \<open>Operations as steps\<close>

datatype job_op =
    Enqueue string job_type job_payload "int option" int
  | Claim "job_type list" pyfloat int string
  | Heartbeat string string int pyfloat int
  | Complete string string int artifact_ref int
  | Fail string string int string "int option" int int
  | Park string string int string int

text \<open>The reply is the lease an operation returns, if it returns one.\<close>

fun job_step :: "job_op \<Rightarrow> job_lease option job_io" where
  "job_step (Enqueue i t p a now) = bind_io (job_enqueue i t p a now) (\<lambda>_. ret None)"
| "job_step (Claim ts ttl now tok) = job_claim ts ttl now tok"
| "job_step (Heartbeat i tok g ttl now) =
     bind_io (job_heartbeat i tok g ttl now) (\<lambda>l. ret (Some l))"
| "job_step (Complete i tok g ref now) = bind_io (job_complete i tok g ref now) (\<lambda>_. ret None)"
| "job_step (Fail i tok g why ra now now') =
     bind_io (job_fail i tok g why ra now now') (\<lambda>_. ret None)"
| "job_step (Park i tok g why now) = bind_io (job_park i tok g why now) (\<lambda>_. ret None)"

definition job_run :: "job_op list \<Rightarrow> job_repo \<Rightarrow> job_repo" where
  "job_run ops s = fold (\<lambda>oper s. snd (job_step oper s)) ops s"

lemma job_run_simps [simp]:
  "job_run [] s = s"
  "job_run (oper # ops) s = job_run ops (snd (job_step oper s))"
  "job_run (xs @ ys) s = job_run ys (job_run xs s)"
  by (simp_all add: job_run_def)

text \<open>The lease an operation presents: job, token and generation.\<close>

fun presents :: "job_op \<Rightarrow> (string \<times> string \<times> int) option" where
  "presents (Heartbeat i tok g _ _) = Some (i, tok, g)"
| "presents (Complete i tok g _ _) = Some (i, tok, g)"
| "presents (Fail i tok g _ _ _ _) = Some (i, tok, g)"
| "presents (Park i tok g _ _) = Some (i, tok, g)"
| "presents _ = None"

text \<open>
  Every step that changes a record is one of these: a new record, a claim, or a change of
  a record under its active lease that keeps the generation.
\<close>

lemma job_step_cases:
  assumes "repo_wf s" and "job_step oper s = (res, s')"
  obtains (same) "s' = s"
  | (new) i t p a where "map_of s i = None" "s' = AList.update i (new_job_record i t p a) s"
  | (claim) r tok e types ttl now where "oper = Claim types ttl now tok"
      "map_of s (jr_id r) = Some r" "claimable types now r"
      "s' = AList.update (jr_id r) (claimed r tok e) s"
  | (active) i tok g r r' where "presents oper = Some (i, tok, g)" "map_of s i = Some r"
      "jr_state r = LEASED" "jr_token r = Some tok" "jr_generation r = g" "jr_id r' = jr_id r"
      "jr_generation r' = g" "job_wf r'" "s' = AList.update i r' s"
proof (cases oper)
  case (Enqueue i t p a now)
  show thesis
  proof (cases "map_of s i")
    case None
    with Enqueue assms(2) show thesis
      by (intro new) (auto simp: job_enqueue_def bind_io_def ret_def)
  next
    case (Some r)
    with Enqueue assms(2) show thesis
      by (intro same) (auto simp: job_enqueue_def bind_io_def ret_def split: if_splits)
  qed
next
  case (Claim types ttl now tok)
  with assms(2) have "job_claim types ttl now tok s = (res, s')" by simp
  with assms(1) show thesis
    by (cases rule: claim_cases) (use Claim same claim in auto)
next
  case (Heartbeat i tok g ttl now)
  show thesis
  proof (cases "\<exists>r. 0 < ttl \<and> job_require_active i tok g now s = Inr r")
    case True
    then obtain r where r: "0 < ttl" "job_require_active i tok g now s = Inr r" by blast
    then have "map_of s i = Some r" by (simp add: require_active_Inr)
    with assms(1) have "job_wf r" "jr_id r = i" by (auto dest: repo_wfD)
    define r' where "r' = r\<lparr>jr_expires := Some (now + max 1 \<lfloor>fmul ttl 1000000000\<rfloor>)\<rparr>"
    have "s' = AList.update i r' s"
      using r Heartbeat assms(2)
      by (auto simp: job_heartbeat_def bind_io_def lift_def ttl_ns_def ret_def r'_def
          Let_def split: sum.splits)
    with r(2) Heartbeat \<open>job_wf r\<close> \<open>jr_id r = i\<close> show thesis
      by (intro active [of i tok g r r'])
        (auto simp: require_active_Inr job_wf_def r'_def)
  next
    case False
    with Heartbeat assms(2) show thesis
      by (intro same) (auto simp: job_heartbeat_def bind_io_def lift_def ttl_ns_def
          split: sum.splits if_splits)
  qed
next
  case (Complete i tok g ref now)
  show thesis
  proof (cases "job_require_active i tok g now s")
    case (Inl e)
    with Complete assms(2) show thesis
      by (intro same) (auto simp: job_complete_def bind_io_def)
  next
    case (Inr r)
    then have "map_of s i = Some r" by (simp add: require_active_Inr)
    with assms(1) have "job_wf r" "jr_id r = i" by (auto dest: repo_wfD)
    define r' where "r' = r\<lparr>jr_state := SUCCEEDED, jr_result := Some ref, jr_token := None,
        jr_expires := None\<rparr>"
    have "s' = AList.update i r' s"
      using Inr Complete assms(2) by (auto simp: job_complete_def bind_io_def ret_def r'_def)
    with Inr Complete \<open>job_wf r\<close> \<open>jr_id r = i\<close> show thesis
      by (intro active [of i tok g r r']) (auto simp: require_active_Inr job_wf_def r'_def)
  qed
next
  case (Fail i tok g why ra now now')
  show thesis
  proof (cases "\<exists>r. why \<noteq> [] \<and> job_require_active i tok g now s = Inr r")
    case True
    then obtain r where r: "why \<noteq> []" "job_require_active i tok g now s = Inr r" by blast
    then have "map_of s i = Some r" by (simp add: require_active_Inr)
    with assms(1) have "job_wf r" "jr_id r = i" by (auto dest: repo_wfD)
    define r' where "r' = r\<lparr>jr_state := FAILED, jr_last_error := Some why,
        jr_available := (case ra of Some a \<Rightarrow> a | None \<Rightarrow> now'), jr_token := None,
        jr_expires := None\<rparr>"
    have "s' = AList.update i r' s"
      using r Fail assms(2) by (auto simp: job_fail_def bind_io_def ret_def r'_def)
    with r Fail \<open>job_wf r\<close> \<open>jr_id r = i\<close> show thesis
      by (intro active [of i tok g r r']) (auto simp: require_active_Inr job_wf_def r'_def)
  next
    case False
    with Fail assms(2) show thesis
      by (intro same) (auto simp: job_fail_def bind_io_def split: sum.splits if_splits)
  qed
next
  case (Park i tok g why now)
  show thesis
  proof (cases "\<exists>r. reason_code why \<and> job_require_active i tok g now s = Inr r")
    case True
    then obtain r where r: "reason_code why" "job_require_active i tok g now s = Inr r" by blast
    then have "map_of s i = Some r" by (simp add: require_active_Inr)
    with assms(1) have "job_wf r" "jr_id r = i" by (auto dest: repo_wfD)
    define r' where "r' = r\<lparr>jr_state := PARKED, jr_park_reason := Some why,
        jr_parked_at := Some now, jr_result := None, jr_last_error := None, jr_token := None,
        jr_expires := None\<rparr>"
    have "s' = AList.update i r' s"
      using r Park assms(2)
      by (auto simp: job_park_def validate_park_reason_def bind_io_def ret_def r'_def)
    with r Park \<open>job_wf r\<close> \<open>jr_id r = i\<close> show thesis
      by (intro active [of i tok g r r']) (auto simp: require_active_Inr job_wf_def r'_def)
  next
    case False
    with Park assms(2) show thesis
      by (intro same)
        (auto simp: job_park_def validate_park_reason_def bind_io_def split: sum.splits if_splits)
  qed
qed

lemma job_wf_new: "job_wf (new_job_record i t p a)"
  by (simp add: job_wf_def new_job_record_def)

lemma job_wf_claimed: "job_wf r \<Longrightarrow> claimable types now r \<Longrightarrow> job_wf (claimed r tok e)"
  by (auto simp: job_wf_def claimed_def claimable_def)

lemma claimed_simps [simp]:
  "jr_id (claimed r tok e) = jr_id r"
  "jr_generation (claimed r tok e) = jr_generation r + 1"
  "jr_state (claimed r tok e) = LEASED"
  "jr_token (claimed r tok e) = Some tok"
  "jr_expires (claimed r tok e) = Some e"
  by (simp_all add: claimed_def)

lemma new_job_record_simps [simp]:
  "jr_id (new_job_record i t p a) = i"
  "jr_generation (new_job_record i t p a) = 0"
  by (simp_all add: new_job_record_def)

lemma job_step_wf:
  assumes "repo_wf s"
  shows "repo_wf (snd (job_step oper s))"
proof -
  obtain res s' where st: "job_step oper s = (res, s')" by (cases "job_step oper s")
  from assms st show ?thesis
  proof (cases rule: job_step_cases)
    case same
    with assms st show ?thesis by simp
  next
    case (new i t p a)
    with assms st show ?thesis
      by (auto intro!: repo_wf_update job_wf_new)
  next
    case (claim r tok e types ttl now)
    with assms st show ?thesis
      by (auto intro!: repo_wf_update job_wf_claimed dest: repo_wfD)
  next
    case (active i tok g r r')
    with repo_wfD [OF assms, of i r] show ?thesis
      using assms st by (auto intro: repo_wf_update)
  qed
qed

lemma job_run_wf: "repo_wf s \<Longrightarrow> repo_wf (job_run ops s)"
  by (induction ops arbitrary: s) (auto intro: job_step_wf)

text \<open>Generations never go down, and a finished job never changes.\<close>

definition generation_of :: "job_repo \<Rightarrow> string \<Rightarrow> int" where
  "generation_of s i = (case map_of s i of None \<Rightarrow> 0 | Some r \<Rightarrow> jr_generation r)"

definition finished :: "job_record \<Rightarrow> bool" where
  "finished r \<longleftrightarrow> jr_state r = SUCCEEDED \<or> jr_state r = PARKED"

lemma generation_nonneg: "repo_wf s \<Longrightarrow> 0 \<le> generation_of s i"
  by (auto simp: generation_of_def job_wf_def split: option.split dest: repo_wfD)

lemma generation_step:
  assumes "repo_wf s"
  shows "generation_of s i \<le> generation_of (snd (job_step oper s)) i"
proof -
  obtain res s' where st: "job_step oper s = (res, s')" by (cases "job_step oper s")
  from assms st show ?thesis
    by (cases rule: job_step_cases)
      (use st in \<open>auto simp: generation_of_def update_conv'\<close>)
qed

lemma generation_run:
  assumes "repo_wf s"
  shows "generation_of s i \<le> generation_of (job_run ops s) i"
  using assms
proof (induction ops arbitrary: s)
  case (Cons oper ops)
  have "generation_of s i \<le> generation_of (snd (job_step oper s)) i"
    using Cons.prems by (rule generation_step)
  also have "\<dots> \<le> generation_of (job_run ops (snd (job_step oper s))) i"
    using Cons.prems by (intro Cons.IH job_step_wf)
  finally show ?case by simp
qed simp

lemma finished_step:
  assumes "repo_wf s" and "map_of s i = Some r" and "finished r"
  shows "map_of (snd (job_step oper s)) i = Some r"
proof -
  obtain res s' where st: "job_step oper s = (res, s')" by (cases "job_step oper s")
  from assms(1) st show ?thesis
    by (cases rule: job_step_cases)
      (use st assms in \<open>auto simp: update_conv' finished_def claimable_def\<close>)
qed

text \<open>An operation that presents a generation other than the current one changes nothing.\<close>

definition stale_error :: "job_error exn \<Rightarrow> bool" where
  "stale_error e \<longleftrightarrow> e \<in> {RuntimeError Stale_Lease, RuntimeError Stale_Unknown,
     ValueError Bad_Ttl, ValueError Empty_Reason, ValueError Bad_Park_Reason}"

lemma job_step_stale:
  assumes "presents oper = Some (i, tok, g)" and "g \<noteq> generation_of s i"
  shows "\<exists>e. job_step oper s = (Inl e, s) \<and> stale_error e"
proof -
  have ra: "\<exists>e. job_require_active i tok g now s = Inl e \<and> stale_error e" for now
    using assms(2) by (auto simp: job_require_active_def generation_of_def stale_error_def
        split: option.splits)
  show ?thesis
  proof (cases oper)
    case (Heartbeat j tok' g' ttl now)
    with assms(1) ra [of now] show ?thesis
      by (auto simp: job_heartbeat_def bind_io_def lift_def ttl_ns_def stale_error_def)
  next
    case (Complete j tok' g' ref now)
    with assms(1) ra [of now] show ?thesis
      by (auto simp: job_complete_def bind_io_def)
  next
    case (Fail j tok' g' why ra' now now')
    with assms(1) ra [of now] show ?thesis
      by (auto simp: job_fail_def bind_io_def stale_error_def)
  next
    case (Park j tok' g' why now)
    with assms(1) ra [of now] show ?thesis
      by (auto simp: job_park_def validate_park_reason_def bind_io_def stale_error_def)
  qed (use assms in auto)
qed

lemma claim_leaseE:
  assumes "repo_wf s" and "job_claim types ttl_s now tok s = (Inr (Some l), s')"
  obtains r where "map_of s (jl_job_id l) = Some r" "claimable types now r"
    "jl_job_id l = jr_id r" "jl_generation l = jr_generation r + 1" "jl_token l = tok"
    "now < jl_expires l" "s' = AList.update (jr_id r) (claimed r tok (jl_expires l)) s"
    "\<forall>q \<in> set (map snd s). claimable types now q \<longrightarrow> jr_id r \<le> jr_id q"
    "jl_payload l = jr_payload r" "jl_type l = jr_type r"
  using assms
proof (cases rule: claim_cases)
  case (leased r ttl)
  from leased(6) have l: "lease_of (claimed r tok (now + ttl)) = Inr l"
    unfolding eq_commute [of "Inr (Some l)"] bindE_eq_Inr by auto
  have "0 < ttl" using leased(1) by (auto simp: ttl_ns_def split: if_splits)
  with leased lease_of_Inr [OF l] show thesis
    by (intro that [of r]) (auto simp: claimed_def)
qed auto

lemma claim_lease_generation:
  assumes "repo_wf s" and "job_claim types ttl_s now tok s = (Inr (Some l), s')"
  shows "jl_generation l = generation_of s (jl_job_id l) + 1
    \<and> generation_of s' (jl_job_id l) = jl_generation l"
  using assms by (rule claim_leaseE) (auto simp: generation_of_def update_conv')

subsection \<open>Properties of the repository\<close>

text \<open>
  C32. Every operation, whether it returns or raises, keeps the repository well formed:
  one record per job under its own identity, generation equal to attempt count, a token
  and an expiry exactly while leased, a result exactly when succeeded, a bounded reason
  code and no raw error text when parked.
\<close>

theorem job_repository_invariant: "repo_wf (job_run ops [])"
  by (simp add: job_run_wf)

text \<open>
  C2. Fencing: once a job has been claimed again, the lease of the earlier claim is dead
  for good. Its generation is smaller, and after any later history every heartbeat,
  completion, failure or parking that presents it raises and leaves the repository
  exactly as it was.
\<close>

theorem superseded_lease_is_fenced:
  assumes "repo_wf s"
    and "job_step (Claim ts ttl now tok) s = (Inr (Some l1), s1)"
    and "job_step (Claim ts' ttl' now' tok') (job_run between s1) = (Inr (Some l2), s2)"
    and "jl_job_id l2 = jl_job_id l1"
    and "presents oper = Some (jl_job_id l1, jl_token l1, jl_generation l1)"
  shows "jl_generation l1 < jl_generation l2 \<and>
    (\<exists>e. job_step oper (job_run later s2) = (Inl e, job_run later s2) \<and> stale_error e)"
proof -
  let ?i = "jl_job_id l1"
  have wf1: "repo_wf s1" using job_step_wf [OF assms(1)] assms(2) by (metis snd_conv)
  then have wfb: "repo_wf (job_run between s1)" by (rule job_run_wf)
  have wf2: "repo_wf s2" using job_step_wf [OF wfb] assms(3) by (metis snd_conv)
  have g1: "generation_of s1 ?i = jl_generation l1"
    using claim_lease_generation [OF assms(1)] assms(2) by simp
  have g2: "jl_generation l2 = generation_of (job_run between s1) ?i + 1"
      "generation_of s2 ?i = jl_generation l2"
    using claim_lease_generation [OF wfb] assms(3,4) by force+
  have "generation_of s1 ?i \<le> generation_of (job_run between s1) ?i"
    using wf1 by (rule generation_run)
  with g1 g2(1) have lt: "jl_generation l1 < jl_generation l2" by simp
  have "generation_of s2 ?i \<le> generation_of (job_run later s2) ?i"
    using wf2 by (rule generation_run)
  with lt g2(2) have "jl_generation l1 \<noteq> generation_of (job_run later s2) ?i" by simp
  then show ?thesis using lt job_step_stale [OF assms(5)] by blast
qed

text \<open>
  A finished job is final: after any further operations a succeeded or parked job
  still has the very same record, so its result is set at most once.
\<close>

lemma finished_job_is_final:
  assumes "repo_wf s" and "map_of s i = Some r" and "finished r"
  shows "map_of (job_run ops s) i = Some r"
  using assms by (induction ops arbitrary: s) (auto intro: job_step_wf finished_step)

text \<open>
  Mutual exclusion in time: while a lease has not expired by the claimer's clock, no
  claim hands its job out again, and claiming another job leaves it untouched.
\<close>

lemma live_lease_excludes_claim:
  assumes "repo_wf s" and "map_of s i = Some r"
    and "jr_state r = LEASED" and "jr_expires r = Some e" and "now < e"
    and "job_claim ts ttl now tok s = (Inr (Some l), s')"
  shows "jl_job_id l \<noteq> i \<and> map_of s' i = Some r"
  using assms(1,6)
proof (rule claim_leaseE)
  fix q
  assume q: "map_of s (jl_job_id l) = Some q" "claimable ts now q" "jl_job_id l = jr_id q"
    "s' = AList.update (jr_id q) (claimed q tok (jl_expires l)) s"
  have "q \<noteq> r" using q(2) assms(3-5) by (auto simp: claimable_def)
  with q assms(2) show ?thesis by (auto simp: update_conv')
qed

text \<open>
  A claim never misses work: with a positive time-out and a portable token it returns
  a lease whenever some job of the requested types is available and unfinished and not
  held under a live lease, and it takes the one with the least identity.
\<close>

lemma claim_finds_work:
  assumes "repo_wf s" and "0 < ttl_s" and "is_token tok" and "0 \<le> now"
    and "map_of s i = Some r" and "claimable ts now r"
  shows "\<exists>l s'. job_claim ts ttl_s now tok s = (Inr (Some l), s') \<and> jl_job_id l \<le> i
    \<and> jl_token l = tok \<and> jl_attempt l = jl_generation l"
proof -
  obtain res s' where c: "job_claim ts ttl_s now tok s = (res, s')"
    by (cases "job_claim ts ttl_s now tok s")
  have r: "r \<in> set (map snd s)" using assms(5) by (force dest: map_of_SomeD)
  from assms(1) c show ?thesis
  proof (cases rule: claim_cases)
    case (leased q ttl)
    have q: "job_wf q" using repo_wfD [OF assms(1) leased(2)] by simp
    have "0 < ttl" using leased(1) by (auto simp: ttl_ns_def split: if_splits)
    with assms(3,4) q obtain l where l: "lease_of (claimed q tok (now + ttl)) = Inr l"
      using lease_of_claimed [of q tok "now + ttl"] by auto
    have "jr_id q \<le> jr_id r" using leased(4) r assms(6) by blast
    moreover have "jr_id r = i" using repo_wfD [OF assms(1,5)] by blast
    moreover have "jl_job_id l = jr_id q" "jl_token l = tok" "jl_attempt l = jl_generation l"
      using lease_of_Inr [OF l] q by (simp_all add: claimed_def job_wf_def)
    ultimately have "jl_job_id l \<le> i \<and> jl_token l = tok \<and> jl_attempt l = jl_generation l" by simp
    moreover have "job_claim ts ttl_s now tok s = (Inr (Some l), s')"
      using c l leased(6) by simp
    ultimately show ?thesis by blast
  next
    case idle
    with r assms(6) show ?thesis by blast
  next
    case bad_ttl
    with assms(2) show ?thesis by simp
  qed
qed

subsection \<open>The lease contract and its worker\<close>

text \<open>
  What a worker relies on: the laws of \<open>JobLeaseRepository\<close>. \<open>holds s now l\<close> says that
  the lease \<open>l\<close> is the active one at clock reading \<open>now\<close>, and \<open>stored_as\<close> is how the repository
  keeps a result.
\<close>

locale lease_repository =
  fixes claim_op :: "job_type list \<Rightarrow> pyfloat \<Rightarrow> int \<Rightarrow> string \<Rightarrow> ('s, job_error exn, job_lease option) io"
    and complete_op :: "string \<Rightarrow> string \<Rightarrow> int \<Rightarrow> artifact_ref \<Rightarrow> int \<Rightarrow> ('s, job_error exn, unit) io"
    and fail_op :: "string \<Rightarrow> string \<Rightarrow> int \<Rightarrow> string \<Rightarrow> int option \<Rightarrow> int \<Rightarrow> int
                      \<Rightarrow> ('s, job_error exn, unit) io"
    and inv :: "'s \<Rightarrow> bool"
    and holds :: "'s \<Rightarrow> int \<Rightarrow> job_lease \<Rightarrow> bool"
    and state_of :: "'s \<Rightarrow> string \<Rightarrow> (job_state \<times> 'r option) option"
    and stored_as :: "artifact_ref \<Rightarrow> 'r"
  assumes claim_lease_ok: "inv s \<Longrightarrow> claim_op ts ttl now tok s = (Inr (Some l), s') \<Longrightarrow>
      inv s' \<and> holds s' now l \<and> jl_type l \<in> set ts"
    and claim_idle: "inv s \<Longrightarrow> claim_op ts ttl now tok s = (Inr None, s') \<Longrightarrow> s' = s"
    and complete_held: "inv s \<Longrightarrow> holds s now l \<Longrightarrow>
      \<exists>s'. complete_op (jl_job_id l) (jl_token l) (jl_generation l) ref now s = (Inr (), s') \<and> inv s'
         \<and> state_of s' = (state_of s)(jl_job_id l \<mapsto> (SUCCEEDED, Some (stored_as ref)))"
    and complete_lost: "inv s \<Longrightarrow> \<not> holds s now l \<Longrightarrow>
      \<exists>e. complete_op (jl_job_id l) (jl_token l) (jl_generation l) ref now s = (Inl e, s)"
    and fail_held: "inv s \<Longrightarrow> holds s now l \<Longrightarrow> why \<noteq> [] \<Longrightarrow>
      \<exists>s'. fail_op (jl_job_id l) (jl_token l) (jl_generation l) why None now now' s = (Inr (), s') \<and> inv s'
         \<and> state_of s' = (state_of s)(jl_job_id l \<mapsto> (FAILED, None))"
    and fail_lost: "inv s \<Longrightarrow> \<not> holds s now l \<Longrightarrow>
      \<exists>e. fail_op (jl_job_id l) (jl_token l) (jl_generation l) why ra now now' s = (Inl e, s)"

text \<open>
  \<open>FencedAnalysisCycle\<close>: claim, process outside the repository, complete or fail. The
  processor is code of other modules: a function that returns an artifact or raises
  (\<open>Inl\<close> the exception's class name). While it runs, other workers act: \<open>others\<close> is what
  they do to the repository meanwhile.
\<close>

definition fenced_cycle_init :: "string \<Rightarrow> pyfloat \<Rightarrow> (job_error, unit) result" where
  "fenced_cycle_init worker_id lease_ttl_s =
     raise_first [(worker_id = [] \<or> lease_ttl_s \<le> 0, ValueError Bad_Worker)]"

definition process_one_job where
  "process_one_job claim_op complete_op fail_op lease_ttl_s now0 now1 now2 tok process others =
     bind_io (claim_op [RECORDING_ANALYSIS, MODEL_ANALYSIS] lease_ttl_s now0 tok)
       (\<lambda>lease. case lease of
          None \<Rightarrow> ret False
        | Some l \<Rightarrow> (\<lambda>s.
            case process l of
              Inl cls \<Rightarrow>
                bind_io (fail_op (jl_job_id l) (jl_token l) (jl_generation l)
                           (cls @ '': processor failed'') None now1 now2)
                  (\<lambda>_. lift (Inl (RuntimeError Processor_Failed))) (others s)
            | Inr result \<Rightarrow>
                bind_io (complete_op (jl_job_id l) (jl_token l) (jl_generation l) result now1)
                  (\<lambda>_. ret True) (others s)))"

context lease_repository
begin

text \<open>The worker reports success only if its own result is the job's, under its own lease.\<close>

lemma cycle_success:
  assumes "inv s" and others: "\<And>t. inv t \<Longrightarrow> inv (others t)"
    and run: "process_one_job claim_op complete_op fail_op ttl now0 now1 now2 tok process others s
      = (Inr b, s')"
  shows "if b then \<exists>l ref s1. claim_op [RECORDING_ANALYSIS, MODEL_ANALYSIS] ttl now0 tok s
               = (Inr (Some l), s1) \<and> process l = Inr ref \<and> holds (others s1) now1 l
               \<and> state_of s' = (state_of (others s1))(jl_job_id l \<mapsto> (SUCCEEDED, Some (stored_as ref)))
         else s' = s"
proof -
  from run obtain lease s1 where
    cl: "claim_op [RECORDING_ANALYSIS, MODEL_ANALYSIS] ttl now0 tok s = (Inr lease, s1)"
    and rest: "(case lease of None \<Rightarrow> ret False | Some l \<Rightarrow> (\<lambda>s. case process l of
              Inl cls \<Rightarrow> bind_io (fail_op (jl_job_id l) (jl_token l) (jl_generation l)
                           (cls @ '': processor failed'') None now1 now2)
                  (\<lambda>_. lift (Inl (RuntimeError Processor_Failed))) (others s)
            | Inr result \<Rightarrow>
                bind_io (complete_op (jl_job_id l) (jl_token l) (jl_generation l) result now1)
                  (\<lambda>_. ret True) (others s))) s1 = (Inr b, s')"
    unfolding process_one_job_def bind_io_Inr by blast
  show ?thesis
  proof (cases lease)
    case None
    with cl rest claim_idle [OF assms(1)] show ?thesis by (auto simp: ret_def)
  next
    case (Some l)
    with cl have inv1: "inv (others s1)"
      using claim_lease_ok [OF assms(1)] others by blast
    from rest Some obtain ref where ref: "process l = Inr ref" and b: b
      and fin: "complete_op (jl_job_id l) (jl_token l) (jl_generation l) ref now1 (others s1)
        = (Inr (), s')"
      by (auto simp: bind_io_Inr lift_def ret_def split: sum.splits)
    have "holds (others s1) now1 l"
      using complete_lost [OF inv1, of now1 l ref] fin by auto
    with complete_held [OF inv1 this, of ref] fin cl Some ref b show ?thesis by auto
  qed
qed

text \<open>A worker whose lease is gone when its processor returns changes nothing any more.\<close>

lemma cycle_lease_lost:
  assumes "inv s" and others: "\<And>t. inv t \<Longrightarrow> inv (others t)"
    and cl: "claim_op [RECORDING_ANALYSIS, MODEL_ANALYSIS] ttl now0 tok s = (Inr (Some l), s1)"
    and "\<not> holds (others s1) now1 l"
  shows "\<exists>e. process_one_job claim_op complete_op fail_op ttl now0 now1 now2 tok process others s
    = (Inl e, others s1)"
proof -
  have inv1: "inv (others s1)" using claim_lease_ok [OF assms(1) cl] others by blast
  show ?thesis
  proof (cases "process l")
    case (Inl cls)
    from fail_lost [OF inv1 assms(4)] obtain e where
      "fail_op (jl_job_id l) (jl_token l) (jl_generation l) (cls @ '': processor failed'') None
         now1 now2 (others s1) = (Inl e, others s1)" by blast
    with Inl show ?thesis
      by (simp add: process_one_job_def bind_io_def cl)
  next
    case (Inr ref)
    from complete_lost [OF inv1 assms(4)] obtain e where
      "complete_op (jl_job_id l) (jl_token l) (jl_generation l) ref now1 (others s1)
         = (Inl e, others s1)" by blast
    with Inr show ?thesis
      by (simp add: process_one_job_def bind_io_def cl)
  qed
qed

end

subsection \<open>The in-memory repository keeps the contract\<close>

definition lease_held :: "job_repo \<Rightarrow> int \<Rightarrow> job_lease \<Rightarrow> bool" where
  "lease_held s now l \<longleftrightarrow>
     is_ok (job_require_active (jl_job_id l) (jl_token l) (jl_generation l) now s)"

definition state_result :: "job_repo \<Rightarrow> string \<Rightarrow> (job_state \<times> artifact_ref option) option" where
  "state_result s i = map_option (\<lambda>r. (jr_state r, jr_result r)) (map_of s i)"

lemma lease_held_iff:
  "lease_held s now l \<longleftrightarrow>
     (\<exists>r. job_require_active (jl_job_id l) (jl_token l) (jl_generation l) now s = Inr r)"
  by (auto simp: lease_held_def is_ok_def split: sum.splits)

lemma state_result_update:
  "state_result (AList.update i r s) = (state_result s)(i \<mapsto> (jr_state r, jr_result r))"
  by (auto simp: state_result_def update_conv')

interpretation memory: lease_repository job_claim job_complete job_fail repo_wf lease_held state_result
    "\<lambda>ref. ref"
proof unfold_locales
  fix s ts ttl now tok l s'
  assume wf: "repo_wf s" and cl: "job_claim ts ttl now tok s = (Inr (Some l), s')"
  have "repo_wf s'" using job_step_wf [OF wf, of "Claim ts ttl now tok"] cl by simp
  moreover from wf cl have "lease_held s' now l \<and> jl_type l \<in> set ts"
    by (rule claim_leaseE) (auto simp: lease_held_iff require_active_Inr update_conv' claimable_def)
  ultimately show "repo_wf s' \<and> lease_held s' now l \<and> jl_type l \<in> set ts" by simp
next
  fix s ts ttl now tok s'
  assume "repo_wf s" "job_claim ts ttl now tok s = (Inr None, s')"
  then show "s' = s"
    by (cases rule: claim_cases) (auto simp: bindE_def split: sum.splits)
next
  fix s now l ref
  assume wf: "repo_wf s" and "lease_held s now l"
  then obtain r where r: "job_require_active (jl_job_id l) (jl_token l) (jl_generation l) now s = Inr r"
    by (auto simp: lease_held_iff)
  then show "\<exists>s'. job_complete (jl_job_id l) (jl_token l) (jl_generation l) ref now s = (Inr (), s')
      \<and> repo_wf s' \<and> state_result s' = (state_result s)(jl_job_id l \<mapsto> (SUCCEEDED, Some ref))"
    using job_step_wf [OF wf, of "Complete (jl_job_id l) (jl_token l) (jl_generation l) ref now"]
    by (simp add: job_complete_def state_result_update bind_io_def ret_def)
next
  fix s now l ref
  assume "\<not> lease_held s now l"
  then show "\<exists>e. job_complete (jl_job_id l) (jl_token l) (jl_generation l) ref now s = (Inl e, s)"
    by (auto simp: lease_held_iff job_complete_def split: sum.splits)
next
  fix s now l why now'
  assume wf: "repo_wf s" and "lease_held s now l" and why: "(why :: string) \<noteq> []"
  then obtain r where r: "job_require_active (jl_job_id l) (jl_token l) (jl_generation l) now s = Inr r"
    by (auto simp: lease_held_iff)
  then have "map_of s (jl_job_id l) = Some r" "jr_state r = LEASED"
    by (auto simp: require_active_Inr)
  with wf have "jr_result r = None" by (auto dest!: repo_wfD simp: job_wf_def)
  with r why show "\<exists>s'. job_fail (jl_job_id l) (jl_token l) (jl_generation l) why None now now' s = (Inr (), s')
      \<and> repo_wf s' \<and> state_result s' = (state_result s)(jl_job_id l \<mapsto> (FAILED, None))"
    using job_step_wf [OF wf, of "Fail (jl_job_id l) (jl_token l) (jl_generation l) why None now now'"]
    by (simp add: job_fail_def state_result_update bind_io_def ret_def)
next
  fix s now l why ra now'
  assume "\<not> lease_held s now l"
  then show "\<exists>e. job_fail (jl_job_id l) (jl_token l) (jl_generation l) why ra now now' s = (Inl e, s)"
    by (auto simp: lease_held_iff job_fail_def split: sum.splits)
qed

text \<open>
  The analysis worker never publishes over another worker: if its lease is no longer
  the active one when its processor returns (expired, or superseded by another claim), the
  cycle raises and leaves the repository exactly as the other workers left it, whatever
  the processor did.
\<close>

lemma late_worker_changes_nothing:
  assumes "repo_wf s" and "\<And>t. repo_wf t \<Longrightarrow> repo_wf (others t)"
    and "job_claim [RECORDING_ANALYSIS, MODEL_ANALYSIS] ttl now0 tok s = (Inr (Some l), s1)"
    and "\<not> lease_held (others s1) now1 l"
  shows "\<exists>e. process_one_job job_claim job_complete job_fail ttl now0 now1 now2 tok process others s
    = (Inl e, others s1)"
  using assms by (rule memory.cycle_lease_lost)

subsection \<open>A concrete history\<close>

text \<open>Two jobs; a worker leases the first for one second, and another takes it over later.\<close>

abbreviation worker_types :: "job_type list" where
  "worker_types \<equiv> [RECORDING_ANALYSIS, MODEL_ANALYSIS]"

definition demo_payload :: job_payload where
  "demo_payload = \<lparr>pl_schema = schema_v0_1 ''leo_flow.recording'', pl_value = []\<rparr>"

definition demo_result :: artifact_ref where
  "demo_result = \<lparr>artifact_id = ''arun_1'', ar_digest = digest_sha256 [], ar_schema = None\<rparr>"

definition demo_repo :: job_repo where
  "demo_repo = job_run [Enqueue ''job_a'' RECORDING_ANALYSIS demo_payload None 0,
                        Enqueue ''job_b'' MODEL_ANALYSIS demo_payload None 0] []"

definition demo_claim :: job_op where "demo_claim = Claim worker_types 1 10 ''t1''"
definition demo_reclaim :: job_op where "demo_reclaim = Claim worker_types 1 2000000000 ''t2''"
definition demo_claimed :: job_repo where "demo_claimed = snd (job_step demo_claim demo_repo)"
definition demo_reclaimed :: job_repo where
  "demo_reclaimed = snd (job_step demo_reclaim demo_claimed)"

definition demo_lease :: "string \<Rightarrow> int \<Rightarrow> int \<Rightarrow> job_lease" where
  "demo_lease tok g e =
     \<lparr>jl_job_id = ''job_a'', jl_type = RECORDING_ANALYSIS, jl_payload = demo_payload,
      jl_attempt = g, jl_token = tok, jl_generation = g, jl_expires = e\<rparr>"

lemma demo_wf: "repo_wf demo_repo" "repo_wf demo_claimed" "repo_wf demo_reclaimed"
proof -
  show a: "repo_wf demo_repo" unfolding demo_repo_def by (rule job_run_wf) (rule repo_wf_empty)
  show b: "repo_wf demo_claimed" unfolding demo_claimed_def using a by (rule job_step_wf)
  show "repo_wf demo_reclaimed" unfolding demo_reclaimed_def using b by (rule job_step_wf)
qed

lemma demo_claim_step:
  "job_step demo_claim demo_repo = (Inr (Some (demo_lease ''t1'' 1 1000000010)), demo_claimed)"
  unfolding demo_claimed_def prod_eq_iff by code_simp

lemma demo_reclaim_step:
  "job_step demo_reclaim demo_claimed
     = (Inr (Some (demo_lease ''t2'' 2 3000000000)), demo_reclaimed)"
  unfolding demo_reclaimed_def prod_eq_iff by code_simp

theorem superseded_lease_is_fenced_witness:
  "(1::int) < 2 \<and> (\<exists>e. job_step (Complete ''job_a'' ''t1'' 1 demo_result 5)
        (job_run [] demo_reclaimed) = (Inl e, job_run [] demo_reclaimed) \<and> stale_error e)"
  using superseded_lease_is_fenced [OF demo_wf(1) demo_claim_step [unfolded demo_claim_def],
      of _ _ _ _ "[]" "demo_lease ''t2'' 2 3000000000" demo_reclaimed
      "Complete ''job_a'' ''t1'' 1 demo_result 5" "[]"] demo_reclaim_step
  by (simp add: demo_reclaim_def demo_lease_def)

definition demo_finished :: job_repo where
  "demo_finished = snd (job_step (Complete ''job_a'' ''t1'' 1 demo_result 20) demo_claimed)"

definition demo_record :: "job_state \<Rightarrow> job_record" where
  "demo_record st =
     \<lparr>jr_id = ''job_a'', jr_type = RECORDING_ANALYSIS, jr_payload = demo_payload,
      jr_state = st, jr_available = 0, jr_attempt = 1,
      jr_token = (if st = LEASED then Some ''t1'' else None), jr_generation = 1,
      jr_expires = (if st = LEASED then Some 1000000010 else None),
      jr_result = (if st = SUCCEEDED then Some demo_result else None),
      jr_last_error = None, jr_park_reason = None, jr_parked_at = None\<rparr>"

lemma demo_claimed_record: "map_of demo_claimed ''job_a'' = Some (demo_record LEASED)"
  unfolding demo_claimed_def by code_simp

lemma demo_active:
  "job_require_active ''job_a'' ''t1'' 1 20 demo_claimed = Inr (demo_record LEASED)"
  by (simp add: require_active_Inr demo_claimed_record) (simp add: demo_record_def)

lemma demo_finished_record: "map_of demo_finished ''job_a'' = Some (demo_record SUCCEEDED)"
  by (simp add: demo_finished_def bind_io_def job_complete_def demo_active ret_def update_conv')
    (simp add: demo_record_def)

lemma finished_job_is_final_witness:
  "map_of (job_run [demo_claim, demo_reclaim] demo_finished) ''job_a''
     = Some (demo_record SUCCEEDED)"
proof (rule finished_job_is_final)
  show "repo_wf demo_finished"
    unfolding demo_finished_def using demo_wf(2) by (rule job_step_wf)
qed (simp_all add: demo_finished_record finished_def demo_record_def)

lemma live_lease_excludes_claim_witness:
  "\<exists>l s'. job_claim worker_types 1 20 ''t3'' demo_claimed = (Inr (Some l), s')
     \<and> jl_job_id l \<noteq> ''job_a'' \<and> map_of s' ''job_a'' = Some (demo_record LEASED)"
proof -
  have "is_ok (fst (job_claim worker_types 1 20 ''t3'' demo_claimed)) \<and>
    fst (job_claim worker_types 1 20 ''t3'' demo_claimed) \<noteq> Inr None"
    unfolding demo_claimed_def by code_simp
  then obtain l s' where c: "job_claim worker_types 1 20 ''t3'' demo_claimed = (Inr (Some l), s')"
    by (cases "job_claim worker_types 1 20 ''t3'' demo_claimed")
      (auto simp: is_ok_def split: sum.splits)
  have "jl_job_id l \<noteq> ''job_a'' \<and> map_of s' ''job_a'' = Some (demo_record LEASED)"
    using live_lease_excludes_claim [OF demo_wf(2) demo_claimed_record _ _ _ c, of 1000000010]
    by (simp add: demo_record_def)
  with c show ?thesis by blast
qed

lemma claim_finds_work_witness:
  "\<exists>l s'. job_claim worker_types (1/2) 2000000000 ''t9'' demo_claimed = (Inr (Some l), s')
    \<and> jl_job_id l \<le> ''job_a'' \<and> jl_token l = ''t9'' \<and> jl_attempt l = jl_generation l"
proof (rule claim_finds_work)
  show "map_of demo_claimed ''job_a'' = Some (demo_record LEASED)" by (rule demo_claimed_record)
  show "is_token ''t9''" by code_simp
  show "claimable worker_types 2000000000 (demo_record LEASED)"
    by (simp add: claimable_def demo_record_def)
qed (use demo_wf in simp_all)

lemma late_worker_changes_nothing_witness:
  "\<exists>e. process_one_job job_claim job_complete job_fail 1 10 2000000001 2000000002 ''t1''
     (\<lambda>_. Inr demo_result) (\<lambda>s. snd (job_step demo_reclaim s)) demo_repo = (Inl e, demo_reclaimed)"
proof -
  have late: "\<not> lease_held (snd (job_step demo_reclaim demo_claimed)) 2000000001
      (demo_lease ''t1'' 1 1000000010)"
    unfolding demo_claimed_def lease_held_def by code_simp
  show ?thesis
    unfolding demo_reclaimed_def
    using late_worker_changes_nothing [where others = "\<lambda>s. snd (job_step demo_reclaim s)",
        OF demo_wf(1) job_step_wf [of _ demo_reclaim]
        demo_claim_step [unfolded demo_claim_def job_step.simps] late] .
qed

end
