(* ===== verification/Json.thy ===== *)
theory Json
  imports Core_Types
begin

section \<open>Reading JSON\<close>

text \<open>
  \<open>json.loads\<close> of the standard library, the other half of the canonical encoding of
  \<open>contracts/core.py\<close>: a recursive descent over the text of a UTF-8 document, with the
  optional \<open>object_pairs_hook\<close> of \<open>contracts/capture_batch_codec.py\<close> that refuses a repeated
  key. Python text is its UTF-8 bytes, as everywhere; the literals \<open>NaN\<close> and \<open>Infinity\<close> and
  a lone surrogate escape, which the library reads and the canonical encoding refuses,
  are malformed here.
\<close>

datatype json_error = Malformed | Exhausted | Repeated_Key

subsection \<open>Text\<close>

definition is_space :: "char \<Rightarrow> bool" where
  "is_space c \<longleftrightarrow> (of_char c :: nat) \<in> {32, 9, 10, 13}"

definition skip_space :: "string \<Rightarrow> string" where
  "skip_space s = dropWhile is_space s"

definition hex_value :: "char \<Rightarrow> nat option" where
  "hex_value c =
     (let n = (of_char c :: nat) in
      if 48 \<le> n \<and> n \<le> 57 then Some (n - 48)
      else if 97 \<le> n \<and> n \<le> 102 then Some (n - 87)
      else if 65 \<le> n \<and> n \<le> 70 then Some (n - 55)
      else None)"

fun hex_quad :: "string \<Rightarrow> (nat \<times> string) option" where
  "hex_quad (a # b # c # d # s) =
     (case (hex_value a, hex_value b, hex_value c, hex_value d) of
        (Some i, Some j, Some k, Some l) \<Rightarrow> Some (((i * 16 + j) * 16 + k) * 16 + l, s)
      | _ \<Rightarrow> None)"
| "hex_quad _ = None"

definition utf8 :: "nat \<Rightarrow> string" where
  "utf8 n =
     (if n < 128 then [char_of n]
      else if n < 2048 then [char_of (192 + n div 64), char_of (128 + n mod 64)]
      else if n < 65536
      then [char_of (224 + n div 4096), char_of (128 + n div 64 mod 64), char_of (128 + n mod 64)]
      else [char_of (240 + n div 262144), char_of (128 + n div 4096 mod 64),
            char_of (128 + n div 64 mod 64), char_of (128 + n mod 64)])"

text \<open>Behind \<open>\u\<close>: four hexadecimal digits, two such groups for a surrogate pair.\<close>

definition unicode_escape :: "string \<Rightarrow> (string \<times> string) option" where
  "unicode_escape s =
     (case hex_quad s of
        None \<Rightarrow> None
      | Some (n, r) \<Rightarrow>
          if 55296 \<le> n \<and> n < 56320 then
            (if take 2 r \<noteq> CHR 0x5C # ''u'' then None
             else case hex_quad (drop 2 r) of
               None \<Rightarrow> None
             | Some (m, q) \<Rightarrow>
                 if 56320 \<le> m \<and> m < 57344
                 then Some (utf8 (65536 + (n - 55296) * 1024 + (m - 56320)), q)
                 else None)
          else if 56320 \<le> n \<and> n < 57344 then None
          else Some (utf8 n, r))"

definition escape_sequence :: "string \<Rightarrow> (string \<times> string) option" where
  "escape_sequence s =
     (case s of
        [] \<Rightarrow> None
      | c # r \<Rightarrow>
          if c = CHR ''u'' then unicode_escape r
          else if c \<in> {CHR 0x22, CHR 0x5C, CHR ''/''} then Some ([c], r)
          else if c = CHR ''b'' then Some ([CHR 8], r)
          else if c = CHR ''f'' then Some ([CHR 12], r)
          else if c = CHR ''n'' then Some ([CHR 10], r)
          else if c = CHR ''r'' then Some ([CHR 13], r)
          else if c = CHR ''t'' then Some ([CHR 9], r)
          else None)"

lemma hex_quad_shorter: "hex_quad s = Some (n, r) \<Longrightarrow> length r < length s"
  by (induction s rule: hex_quad.induct) (auto split: option.splits)

lemma unicode_shorter:
  assumes "unicode_escape s = Some (t, r)"
  shows "length r < length s"
proof -
  obtain n q where q: "hex_quad s = Some (n, q)"
    using assms by (auto simp: unicode_escape_def split: option.splits)
  have "r = q \<or> (\<exists>m. hex_quad (drop 2 q) = Some (m, r))"
    using assms by (simp add: unicode_escape_def q split: option.splits if_splits prod.splits)
  moreover have "length q < length s" by (rule hex_quad_shorter [OF q])
  ultimately show ?thesis using hex_quad_shorter [of "drop 2 q" _ r] by auto
qed

lemma escape_shorter:
  assumes "escape_sequence s = Some (t, r)"
  shows "length r < length s"
proof (cases s)
  case (Cons c q)
  then have "unicode_escape q = Some (t, r) \<or> r = q"
    using assms by (simp add: escape_sequence_def split: if_splits)
  with Cons show ?thesis using unicode_shorter [of q t r] by auto
qed (use assms in \<open>simp add: escape_sequence_def\<close>)

text \<open>The text up to its closing quote; control characters must be escaped.\<close>

function string_body :: "string \<Rightarrow> (string \<times> string) option" where
  "string_body [] = None"
| "string_body (c # s) =
     (if c = CHR 0x22 then Some ([], s)
      else if c = CHR 0x5C then
        (case escape_sequence s of
           None \<Rightarrow> None
         | Some (t, r) \<Rightarrow> map_option (\<lambda>(u, q). (t @ u, q)) (string_body r))
      else if (of_char c :: nat) < 32 then None
      else map_option (\<lambda>(u, q). (c # u, q)) (string_body s))"
  by pat_completeness auto
termination
  by (relation "measure length") (auto dest: escape_shorter)

lemma string_body_shorter: "string_body s = Some (t, r) \<Longrightarrow> length r < length s"
proof (induction s arbitrary: t rule: string_body.induct)
  case (2 c s)
  then show ?case
    by (fastforce split: if_splits option.splits dest: escape_shorter)
qed simp

subsection \<open>Numbers\<close>

text \<open>\<open>(-?(?:0|[1-9]\d*))(\.\d+)?([eE][-+]?\d+)?\<close>\<close>

definition fraction_part :: "string \<Rightarrow> string \<times> string" where
  "fraction_part s =
     (case s of
        c # r \<Rightarrow> if c = CHR ''.'' \<and> takeWhile is_digit r \<noteq> []
                  then (takeWhile is_digit r, dropWhile is_digit r) else ([], s)
      | [] \<Rightarrow> ([], s))"

definition exponent_part :: "string \<Rightarrow> int option \<times> string" where
  "exponent_part s =
     (case s of
        c # r \<Rightarrow>
          (let signed = (r \<noteq> [] \<and> hd r \<in> set ''+-''); q = (if signed then tl r else r) in
           if (c = CHR ''e'' \<or> c = CHR ''E'') \<and> takeWhile is_digit q \<noteq> []
           then (Some ((if signed \<and> hd r = CHR ''-'' then -1 else 1) * int (undec (takeWhile is_digit q))),
                 dropWhile is_digit q)
           else (None, s))
      | [] \<Rightarrow> (None, s))"

definition integer_part :: "string \<Rightarrow> (string \<times> string) option" where
  "integer_part s =
     (case s of
        [] \<Rightarrow> None
      | c # r \<Rightarrow>
          if \<not> is_digit c then None
          else if c = CHR ''0'' then Some (''0'', r)
          else Some (takeWhile is_digit s, dropWhile is_digit s))"

definition unsigned_number :: "int \<Rightarrow> string \<Rightarrow> (json \<times> string) option" where
  "unsigned_number sign s =
     (case integer_part s of
        None \<Rightarrow> None
      | Some (whole, r) \<Rightarrow>
          (let (fraction, q) = fraction_part r; (exponent, p) = exponent_part q in
           if fraction = [] \<and> exponent = None then Some (JInt (sign * int (undec whole)), p)
           else Some (JFloat (round64 (of_int (sign * int (undec (whole @ fraction)))
                        * 10 powi ((case exponent of None \<Rightarrow> 0 | Some e \<Rightarrow> e) - int (length fraction)))), p)))"

definition number :: "string \<Rightarrow> (json \<times> string) option" where
  "number s = (if take 1 s = ''-'' then unsigned_number (-1) (drop 1 s) else unsigned_number 1 s)"

lemma length_dropWhile_less: "takeWhile p s \<noteq> [] \<Longrightarrow> length (dropWhile p s) < length s"
  by (cases s) (auto simp: le_imp_less_Suc length_dropWhile_le split: if_splits)

lemma number_shorter: "number s = Some (v, r) \<Longrightarrow> length r < length s"
proof -
  have f: "length (snd (fraction_part q)) \<le> length q" for q
    by (auto simp: fraction_part_def le_SucI length_dropWhile_le split: list.splits)
  have "length (dropWhile is_digit (tl q)) \<le> length q" for q
    using length_dropWhile_le [of is_digit "tl q"] by simp
  then have e: "length (snd (exponent_part q)) \<le> length q" for q
    by (auto simp: exponent_part_def Let_def le_SucI length_dropWhile_le split: list.splits)
  have i: "integer_part q = Some (w, t) \<Longrightarrow> length t < length q" for q w t
    by (auto simp: integer_part_def le_imp_less_Suc length_dropWhile_le split: list.splits if_splits)
  have u: "length t < length q" if h: "unsigned_number sign q = Some (w, t)" for sign q w t
  proof -
    obtain w1 r1 where r1: "integer_part q = Some (w1, r1)"
      using h by (cases "integer_part q") (auto simp: unsigned_number_def)
    have "t = snd (exponent_part (snd (fraction_part r1)))"
      using h r1 by (auto simp: unsigned_number_def split: prod.splits if_splits)
    then show ?thesis using i [OF r1] f [of r1] e [of "snd (fraction_part r1)"] by simp
  qed
  assume "number s = Some (v, r)"
  then show ?thesis
    using u [of "- 1" "drop 1 s" v r] u [of 1 s v r]
    by (cases s) (auto simp: number_def split: if_splits)
qed

subsection \<open>Values\<close>

text \<open>A dict built from pairs in order: a repeated key keeps its place and takes the value.\<close>

fun dict_put :: "string \<Rightarrow> json \<Rightarrow> (string \<times> json) list \<Rightarrow> (string \<times> json) list" where
  "dict_put k v [] = [(k, v)]"
| "dict_put k v ((l, w) # kvs) = (if k = l then (k, v) # kvs else (l, w) # dict_put k v kvs)"

definition dict_pairs :: "(string \<times> json) list \<Rightarrow> (string \<times> json) list" where
  "dict_pairs kvs = foldl (\<lambda>d (k, v). dict_put k v d) [] kvs"

definition finish_object :: "bool \<Rightarrow> (string \<times> json) list \<Rightarrow> json_error + json" where
  "finish_object unique kvs =
     (if unique \<and> \<not> distinct (map fst kvs) then Inl Repeated_Key else Inr (JObj (dict_pairs kvs)))"

definition literal :: "string \<Rightarrow> json \<Rightarrow> string \<Rightarrow> json_error + json \<times> string" where
  "literal word v s = (if startswith s word then Inr (v, drop (length word) s) else Inl Malformed)"

text \<open>A quoted key, the colon behind it and the space around.\<close>

definition member_key :: "string \<Rightarrow> (string \<times> string) option" where
  "member_key s =
     (case s of
        [] \<Rightarrow> None
      | c # r \<Rightarrow>
          if c \<noteq> CHR 0x22 then None
          else case string_body r of
            None \<Rightarrow> None
          | Some (k, q) \<Rightarrow>
              (case skip_space q of
                 [] \<Rightarrow> None
               | d # p \<Rightarrow> if d = CHR '':'' then Some (k, skip_space p) else None))"

text \<open>
  The recursion of the scanner, with fuel: \<open>Exhausted\<close> never comes out of
  \<open>json_loads\<close> (\<open>loads_not_exhausted\<close> below).
\<close>

fun scan_value :: "bool \<Rightarrow> nat \<Rightarrow> string \<Rightarrow> json_error + json \<times> string"
and scan_elements :: "bool \<Rightarrow> nat \<Rightarrow> string \<Rightarrow> json_error + json list \<times> string"
and scan_members :: "bool \<Rightarrow> nat \<Rightarrow> string \<Rightarrow> json_error + (string \<times> json) list \<times> string" where
  "scan_value unique 0 s = Inl Exhausted"
| "scan_value unique (Suc k) s =
     (case s of
        [] \<Rightarrow> Inl Malformed
      | c # r \<Rightarrow>
          if c = CHR 0x22 then
            (case string_body r of None \<Rightarrow> Inl Malformed | Some (t, q) \<Rightarrow> Inr (JStr t, q))
          else if c = CHR ''['' then
            (if take 1 (skip_space r) = '']'' then Inr (JList [], drop 1 (skip_space r))
             else bindE (scan_elements unique k (skip_space r)) (\<lambda>(xs, q). Inr (JList xs, q)))
          else if c = CHR 0x7B then
            (if take 1 (skip_space r) = [CHR 0x7D]
             then bindE (finish_object unique []) (\<lambda>v. Inr (v, drop 1 (skip_space r)))
             else bindE (scan_members unique k (skip_space r)) (\<lambda>(kvs, q).
               bindE (finish_object unique kvs) (\<lambda>v. Inr (v, q))))
          else if c = CHR ''n'' then literal ''null'' JNull s
          else if c = CHR ''t'' then literal ''true'' (JBool True) s
          else if c = CHR ''f'' then literal ''false'' (JBool False) s
          else (case number s of None \<Rightarrow> Inl Malformed | Some p \<Rightarrow> Inr p))"
| "scan_elements unique 0 s = Inl Exhausted"
| "scan_elements unique (Suc k) s =
     bindE (scan_value unique k s) (\<lambda>(v, r).
       case skip_space r of
         [] \<Rightarrow> Inl Malformed
       | c # q \<Rightarrow>
           if c = CHR '']'' then Inr ([v], q)
           else if c = CHR '','' then bindE (scan_elements unique k (skip_space q)) (\<lambda>(vs, p). Inr (v # vs, p))
           else Inl Malformed)"
| "scan_members unique 0 s = Inl Exhausted"
| "scan_members unique (Suc k) s =
     (case member_key s of
        None \<Rightarrow> Inl Malformed
      | Some (key, t) \<Rightarrow>
          bindE (scan_value unique k t) (\<lambda>(v, r).
            case skip_space r of
              [] \<Rightarrow> Inl Malformed
            | c # q \<Rightarrow>
                if c = CHR 0x7D then Inr ([(key, v)], q)
                else if c = CHR '',''
                then bindE (scan_members unique k (skip_space q)) (\<lambda>(kvs, p). Inr ((key, v) # kvs, p))
                else Inl Malformed))"

definition json_read :: "bool \<Rightarrow> string \<Rightarrow> json_error + json" where
  "json_read unique s =
     bindE (scan_value unique (2 * length s + 1) (skip_space s)) (\<lambda>(v, r).
       if skip_space r = [] then Inr v else Inl Malformed)"

text \<open>\<open>json.loads(s)\<close>, and with the hook that refuses repeated keys.\<close>

definition json_loads :: "string \<Rightarrow> json_error + json" where
  "json_loads s = json_read False s"

definition json_loads_unique :: "string \<Rightarrow> json_error + json" where
  "json_loads_unique s = json_read True s"

subsection \<open>The fuel is enough\<close>

lemma member_key_shorter: "member_key s = Some (k, r) \<Longrightarrow> length r < length s"
proof -
  have sk: "length (skip_space q) \<le> length q" for q by (simp add: skip_space_def length_dropWhile_le)
  assume a: "member_key s = Some (k, r)"
  then obtain c t q d p where "s = c # t" "string_body t = Some (k, q)" "skip_space q = d # p" "r = skip_space p"
    by (auto simp: member_key_def split: list.splits if_splits option.splits)
  then show ?thesis using string_body_shorter [of t k q] sk [of q] sk [of p] by simp
qed

lemma literal_shorter:
  "word \<noteq> [] \<Longrightarrow> literal word v s = Inr (w, r) \<Longrightarrow> length r < length s"
  by (cases s) (auto simp: literal_def startswith_def split: if_splits)

lemma skip_space_le: "length (skip_space s) \<le> length s"
  by (simp add: skip_space_def length_dropWhile_le)

lemma skip_spaceD: "skip_space s = c # t \<Longrightarrow> length t < length s"
  using skip_space_le [of s] by simp

lemma scan_ok:
  "2 * length s + 1 \<le> k \<Longrightarrow> scan_value u k s \<noteq> Inl Exhausted
     \<and> (\<forall>v r. scan_value u k s = Inr (v, r) \<longrightarrow> length r < length s)"
  "2 * length s + 2 \<le> k \<Longrightarrow> scan_elements u k s \<noteq> Inl Exhausted
     \<and> (\<forall>v r. scan_elements u k s = Inr (v, r) \<longrightarrow> length r < length s)"
  "2 * length s + 2 \<le> k \<Longrightarrow> scan_members u k s \<noteq> Inl Exhausted
     \<and> (\<forall>v r. scan_members u k s = Inr (v, r) \<longrightarrow> length r < length s)"
proof (induction u k s and u k s and u k s rule: scan_value_scan_elements_scan_members.induct)
  case (2 u k s)
  show ?case
  proof (cases s)
    case (Cons c r)
    note IH = "2.IH" [OF Cons]
    have len: "length (skip_space r) \<le> length r" by (rule skip_space_le)
    have lit: "literal w v s \<noteq> Inl Exhausted" for w v by (simp add: literal_def)
    consider "c = CHR 0x22" | "c = CHR ''[''" | "c = CHR 0x7B"
      | "c \<notin> {CHR 0x22, CHR ''['', CHR 0x7B}" by blast
    then show ?thesis
    proof cases
      case 1
      with Cons show ?thesis by (auto split: option.splits dest: string_body_shorter)
    next
      case 2
      show ?thesis
      proof (cases "take 1 (skip_space r) = '']''")
        case True
        with 2 Cons len show ?thesis by (cases "skip_space r") auto
      next
        case False
        have "2 * length (skip_space r) + 2 \<le> k" using "2.prems" Cons len by simp
        with IH(1) [OF _ 2 False] 2 have e: "scan_elements u k (skip_space r) \<noteq> Inl Exhausted"
          "\<forall>v q. scan_elements u k (skip_space r) = Inr (v, q) \<longrightarrow> length q < length (skip_space r)" by auto
        with 2 False Cons len show ?thesis by (fastforce simp: bindE_eq_Inl)
      qed
    next
      case 3
      show ?thesis
      proof (cases "take 1 (skip_space r) = [CHR 0x7D]")
        case True
        with 3 Cons len show ?thesis
          by (cases "skip_space r") (auto simp: finish_object_def)
      next
        case False
        have "2 * length (skip_space r) + 2 \<le> k" using "2.prems" Cons len by simp
        with IH(2) [OF _ _ 3 False] 3 have e: "scan_members u k (skip_space r) \<noteq> Inl Exhausted"
          "\<forall>v q. scan_members u k (skip_space r) = Inr (v, q) \<longrightarrow> length q < length (skip_space r)" by auto
        with 3 False Cons len show ?thesis by (fastforce simp: bindE_eq_Inl finish_object_def split: if_splits)
      qed
    next
      case 4
      then have "scan_value u (Suc k) s =
        (if c = CHR ''n'' then literal ''null'' JNull s else if c = CHR ''t'' then literal ''true'' (JBool True) s
         else if c = CHR ''f'' then literal ''false'' (JBool False) s
         else case number s of None \<Rightarrow> Inl Malformed | Some p \<Rightarrow> Inr p)" (is "_ = ?r")
        using Cons by simp
      moreover have "?r \<noteq> Inl Exhausted" using lit by (simp split: option.splits)
      moreover have "length q < length s" if h: "?r = Inr (v, q)" for v q
      proof (cases "c \<in> {CHR ''n'', CHR ''t'', CHR ''f''}")
        case True
        then show ?thesis using h
          literal_shorter [of "''null''" JNull s v q] literal_shorter [of "''true''" "JBool True" s v q]
          literal_shorter [of "''false''" "JBool False" s v q] by (simp split: if_splits)
      next
        case False
        then show ?thesis using h number_shorter [of s v q] by (simp split: option.splits)
      qed
      ultimately show ?thesis by simp
    qed
  qed simp
next
  case (4 u k s)
  have v: "scan_value u k s \<noteq> Inl Exhausted"
    "\<And>v r. scan_value u k s = Inr (v, r) \<Longrightarrow> length r < length s"
    using "4.IH"(1) "4.prems" by auto
  show ?case
  proof (cases "scan_value u k s")
    case (Inl e)
    with v(1) show ?thesis by simp
  next
    case (Inr p)
    obtain w r where p: "p = (w, r)" by (cases p)
    show ?thesis
    proof (cases "skip_space r")
      case (Cons c q)
      have q: "length (skip_space q) < length s"
        using v(2) [of w r] Inr p skip_spaceD [OF Cons] skip_space_le [of q] by simp
      show ?thesis
      proof (cases "c = CHR '']'' \<or> c \<noteq> CHR '',''")
        case True
        with Inr p Cons show ?thesis using v(2) [of w r] skip_spaceD [OF Cons] by auto
      next
        case False
        then have c: "c \<noteq> CHR '']''" "c = CHR '',''" by auto
        have "2 * length (skip_space q) + 2 \<le> k" using "4.prems" q by simp
        with "4.IH"(2) [OF Cons c]
        have "scan_elements u k (skip_space q) \<noteq> Inl Exhausted"
          "\<forall>v t. scan_elements u k (skip_space q) = Inr (v, t) \<longrightarrow> length t < length (skip_space q)" by auto
        with Inr p Cons c q show ?thesis by (fastforce simp: bindE_eq_Inl)
      qed
    qed (use Inr p in simp)
  qed
next
  case (6 u k s)
  show ?case
  proof (cases "member_key s")
    case (Some kt)
    obtain key t where kt: "kt = (key, t)" by (cases kt)
    have t: "length t < length s" using member_key_shorter Some kt by simp
    have v: "scan_value u k t \<noteq> Inl Exhausted"
      "\<And>v r. scan_value u k t = Inr (v, r) \<Longrightarrow> length r < length t"
      using "6.IH"(1) [OF Some kt [symmetric]] "6.prems" t by auto
    show ?thesis
    proof (cases "scan_value u k t")
      case (Inl e)
      with v(1) Some kt show ?thesis by simp
    next
      case (Inr p)
      obtain w r where p: "p = (w, r)" by (cases p)
      show ?thesis
      proof (cases "skip_space r")
        case (Cons c q)
        have q: "length (skip_space q) < length s"
          using v(2) [of w r] Inr p skip_spaceD [OF Cons] skip_space_le [of q] t by simp
        show ?thesis
        proof (cases "c = CHR 0x7D \<or> c \<noteq> CHR '',''")
          case True
          with Inr p Cons Some kt show ?thesis using v(2) [of w r] skip_spaceD [OF Cons] t by auto
        next
          case False
          then have c: "c \<noteq> CHR 0x7D" "c = CHR '',''" by auto
          have "2 * length (skip_space q) + 2 \<le> k" using "6.prems" q by simp
          with "6.IH"(2) [OF Some kt [symmetric] Cons c]
          have "scan_members u k (skip_space q) \<noteq> Inl Exhausted"
            "\<forall>v t. scan_members u k (skip_space q) = Inr (v, t) \<longrightarrow> length t < length (skip_space q)" by auto
          with Inr p Cons c q Some kt show ?thesis by (fastforce simp: bindE_eq_Inl)
        qed
      qed (use Inr p Some kt in simp)
    qed
  qed simp
qed simp_all

lemma loads_not_exhausted: "json_loads s \<noteq> Inl Exhausted \<and> json_loads_unique s \<noteq> Inl Exhausted"
proof -
  have "2 * length (skip_space s) + 1 \<le> 2 * length s + 1" using skip_space_le [of s] by simp
  from scan_ok(1) [OF this] show ?thesis
    by (auto simp: json_loads_def json_loads_unique_def json_read_def bindE_eq_Inl split: if_splits)
qed

subsection \<open>Integers read back\<close>

text \<open>What may follow a value inside a canonical document.\<close>

definition ends_value :: "string \<Rightarrow> bool" where
  "ends_value r \<longleftrightarrow> r = [] \<or> hd r \<in> {CHR '','', CHR '']'', CHR 0x7D}"

lemma ends_value_simps [simp]:
  "ends_value []" "ends_value (CHR '','' # r)" "ends_value (CHR '']'' # r)" "ends_value (CHR 0x7D # r)"
  by (simp_all add: ends_value_def)

lemma takeWhile_dec: "ends_value r \<Longrightarrow> takeWhile is_digit (dec n @ r) = dec n"
  "ends_value r \<Longrightarrow> dropWhile is_digit (dec n @ r) = r"
  using dec_digits [of n] by (cases r; auto simp: ends_value_def is_digit_def)+

lemma integer_part_dec:
  assumes "ends_value r"
  shows "integer_part (dec n @ r) = Some (dec n, r)"
proof -
  obtain c t where d: "dec n = c # t" by (cases "dec n") auto
  have c: "is_digit c" using dec_digits [of n] d by simp
  show ?thesis
  proof (cases "c = CHR ''0''")
    case True
    then have "n = 0" using dec_hd_zero [of n] d by simp
    then show ?thesis by (simp add: dec_zero integer_part_def is_digit_def)
  next
    case False
    with c d takeWhile_dec [OF assms, of n] show ?thesis by (simp add: integer_part_def)
  qed
qed

lemma number_str_int:
  assumes "ends_value r"
  shows "number (str_int n @ r) = Some (JInt n, r)"
proof -
  have f: "fraction_part r = ([], r)" "exponent_part r = (None, r)"
    using assms by (auto simp: fraction_part_def exponent_part_def ends_value_def split: list.splits)
  have u: "unsigned_number sgn (dec m @ r) = Some (JInt (sgn * int m), r)" for sgn m
    by (simp add: unsigned_number_def integer_part_dec [OF assms] f)
  have "take 1 (dec m @ r) \<noteq> ''-''" for m
  proof -
    obtain c t where "dec m = c # t" by (cases "dec m") auto
    with dec_digits [of m] show ?thesis by (auto simp: is_digit_def)
  qed
  with u show ?thesis by (simp add: number_def str_int_def)
qed

end
