(* ===== verification/Float_Text.thy ===== *)
theory Float_Text
  imports Json
begin

section \<open>Floats as text and back\<close>

text \<open>
  Why the text of a float loses nothing: 17 significant digits determine a float of 53 bits,
  \<open>repr\<close> therefore always ends at digits that read back, \<open>_ecmascript_number\<close> of
  \<open>contracts/core.py\<close> only moves the decimal point, and the number scanner of \<open>json.loads\<close>
  reads the text to a number equal to the float, to an \<open>int\<close> where the text shows no fraction.
\<close>

subsection \<open>Rounding to nearest\<close>

lemma round_half_even_error: "\<bar>of_int (round_half_even x) - x\<bar> \<le> (1 / 2 :: rat)"
proof -
  have "of_int \<lfloor>x\<rfloor> \<le> x" "x < of_int \<lfloor>x\<rfloor> + 1" by linarith+
  then show ?thesis by (auto simp: round_half_even_def Let_def)
qed

lemma round_half_even_close:
  assumes "\<bar>x - of_int n\<bar> < (1 / 2 :: rat)"
  shows "round_half_even x = n"
proof -
  have "\<bar>of_int (round_half_even x) - of_int n\<bar> < (1 :: rat)"
    using round_half_even_error [of x] assms by linarith
  then have "\<bar>of_int (round_half_even x - n)\<bar> < (1 :: rat)" by simp
  then show ?thesis by linarith
qed

lemma round_half_even_mono_int: "of_int n \<le> x \<Longrightarrow> n \<le> round_half_even x"
proof -
  assume "of_int n \<le> x"
  then have "n \<le> \<lfloor>x\<rfloor>" by (simp add: le_floor_iff)
  then show ?thesis by (auto simp: round_half_even_def Let_def)
qed

lemma round_half_even_upper: "x \<le> of_int n \<Longrightarrow> round_half_even x \<le> n"
proof -
  assume x: "x \<le> of_int n"
  show ?thesis
  proof (cases "\<lfloor>x\<rfloor> = n")
    case True
    then have "x = of_int n" using x by linarith
    then show ?thesis by simp
  next
    case False
    then have "\<lfloor>x\<rfloor> + 1 \<le> n" using x by linarith
    then show ?thesis by (auto simp: round_half_even_def Let_def)
  qed
qed

lemma ilog2_unique:
  assumes "2 powi k \<le> x" and "x < 2 powi (k + 1)"
  shows "ilog2 x = k"
proof -
  have "(0 :: rat) < 2 powi k" by simp
  with assms(1) have "0 < x" by linarith
  then have b: "2 powi ilog2 x \<le> x" "x < 2 powi (ilog2 x + 1)" using ilog2_bounds by auto
  have mono: "(2 :: rat) powi i \<le> 2 powi j" if "i \<le> j" for i j
    using that by (intro power_int_increasing) auto
  show ?thesis using assms b mono [of "ilog2 x + 1" k] mono [of "k + 1" "ilog2 x"] by linarith
qed

text \<open>A 53-bit number as a whole multiple of its last place.\<close>

lemma exact64_mantissa:
  assumes "0 < x" and "round64 x = x"
  obtains m :: int where "x = of_int m * 2 powi (ilog2 x - 52)" "2 ^ 52 \<le> m" "m < 2 ^ 53"
proof -
  define u where "u = (2 :: rat) powi (ilog2 x - 52)"
  define m where "m = round_half_even (x / u)"
  have u: "0 < u" by (simp add: u_def)
  have x: "x = of_int m * u"
    using assms by (simp add: round64_def round64_pos_def Let_def u_def m_def)
  have b: "2 powi ilog2 x \<le> x" "x < 2 powi (ilog2 x + 1)" using ilog2_bounds [OF assms(1)] by auto
  have p: "(2 :: rat) powi ilog2 x = 2 ^ 52 * u" "(2 :: rat) powi (ilog2 x + 1) = 2 ^ 53 * u"
    by (simp_all add: u_def power_int_diff power_int_add)
  have "2 ^ 52 * u \<le> of_int m * u" "of_int m * u < 2 ^ 53 * u"
    using b p x by simp_all
  then have "(2 :: rat) ^ 52 \<le> of_int m" "of_int m < (2 :: rat) ^ 53"
    using u by simp_all
  then have "(2 :: int) ^ 52 \<le> m" "m < 2 ^ 53"
    by (metis of_int_le_iff of_int_less_iff of_int_numeral of_int_power)+
  with x that show ?thesis unfolding u_def by blast
qed

text \<open>A decimal within \<open>2\<^sup>-\<^sup>5\<^sup>4\<close> of a float, relatively, rounds to it.\<close>

lemma round64_near:
  assumes x: "0 < x" "round64 x = x" and d: "\<bar>d - x\<bar> * 2 ^ 54 < x"
  shows "round64 d = x"
proof -
  define k where "k = ilog2 x"
  obtain m where m: "x = of_int m * 2 powi (k - 52)" "2 ^ 52 \<le> m" "m < 2 ^ 53"
    using exact64_mantissa [OF x] unfolding k_def by blast
  define u where "u = (2 :: rat) powi (k - 52)"
  have u: "0 < u" by (simp add: u_def)
  have p: "(2 :: rat) powi k = 2 ^ 52 * u" "(2 :: rat) powi (k + 1) = 2 ^ 53 * u"
      "(2 :: rat) powi (k - 1) = 2 ^ 51 * u"
    by (simp_all add: u_def power_int_diff power_int_add)
  have xm: "x = of_int m * u" by (simp add: m u_def)
  have r: "of_int m \<le> (2 :: rat) ^ 53 - 1" "(2 :: rat) ^ 52 \<le> of_int m"
  proof -
    have "of_int m \<le> (of_int (2 ^ 53 - 1) :: rat)" "of_int (2 ^ 52) \<le> (of_int m :: rat)"
      unfolding of_int_le_iff using m(2,3) by simp_all
    then show "of_int m \<le> (2 :: rat) ^ 53 - 1" "(2 :: rat) ^ 52 \<le> of_int m" by simp_all
  qed
  have xu: "x \<le> (2 ^ 53 - 1) * u" "2 ^ 52 * u \<le> x"
    unfolding xm using r u by (auto intro!: mult_right_mono)
  have e: "\<bar>d - x\<bar> < u / 2"
  proof -
    have "\<bar>d - x\<bar> * 2 ^ 54 < 2 ^ 53 * u"
      using d xu(1) u by (simp only: left_diff_distrib)
    then show ?thesis by simp
  qed
  have dpos: "2 ^ 51 * u \<le> d" using e xu(2) u unfolding abs_less_iff by simp
  moreover have "0 < 2 ^ 51 * u" using u by simp
  ultimately have d0: "0 < d" by linarith
  show ?thesis
  proof (cases "2 ^ 52 * u \<le> d")
    case True
    have "d < 2 ^ 53 * u" using e xu(1) u unfolding abs_less_iff left_diff_distrib by simp
    then have "ilog2 d = k" using True p by (intro ilog2_unique) simp_all
    moreover have "round_half_even (d / u) = m"
    proof (rule round_half_even_close)
      have "d / u - of_int m = (d - x) / u" using u xm by (simp add: field_simps)
      then show "\<bar>d / u - of_int m\<bar> < 1 / 2" using e u by (simp add: abs_divide field_simps)
    qed
    ultimately show ?thesis using d0 xm by (simp add: round64_def round64_pos_def Let_def u_def)
  next
    case False
    then have l: "ilog2 d = k - 1" using dpos p by (intro ilog2_unique) simp_all
    have "x < (2 ^ 52 + 1) * u" using False e u unfolding abs_less_iff distrib_right by simp
    then have "of_int m < (2 :: rat) ^ 52 + 1" unfolding xm using u by simp
    then have "of_int m < (of_int (2 ^ 52 + 1) :: rat)" by simp
    then have "m < 2 ^ 52 + 1" by (simp only: of_int_less_iff)
    with m(2) have m52: "m = 2 ^ 52" by simp
    have v: "(2 :: rat) powi (k - 1 - 52) = u / 2" by (simp add: u_def power_int_diff)
    have h: "round_half_even (d / (u / 2)) = 2 ^ 53"
    proof (rule round_half_even_close)
      have "\<bar>d - x\<bar> < u / 4" using d xm m52 u by (simp add: field_simps)
      then have "\<bar>2 * (d - x) / u\<bar> < 1 / 2"
        using u by (simp only: abs_divide abs_mult abs_of_pos) (simp add: field_simps)
      moreover have "d / (u / 2) - of_int (2 ^ 53) = 2 * (d - x) / u"
        using u xm m52 by (simp add: field_simps)
      ultimately show "\<bar>d / (u / 2) - of_int (2 ^ 53)\<bar> < 1 / 2" by simp
    qed
    have "round64_pos d = x" unfolding round64_pos_def Let_def l v h xm m52 by simp
    then show ?thesis using d0 by (simp add: round64_def)
  qed
qed

subsection \<open>Decimal digits\<close>

lemma dec_bounds: "0 < n \<Longrightarrow> 10 ^ (length (dec n) - 1) \<le> n \<and> n < 10 ^ length (dec n)"
proof (induction n rule: dec.induct)
  case (1 n)
  show ?case
  proof (cases "n < 10")
    case True
    with "1.prems" show ?thesis by (simp add: dec.simps [of n])
  next
    case False
    then have "10 ^ (length (dec (n div 10)) - 1) \<le> n div 10 \<and> n div 10 < 10 ^ length (dec (n div 10))"
      using 1 by simp
    moreover obtain j where j: "length (dec (n div 10)) = Suc j" by (cases "dec (n div 10)") auto
    ultimately have "10 ^ j * 10 \<le> n" "n < 10 ^ Suc j * 10"
      by (simp_all add: less_eq_div_iff_mult_less_eq div_less_iff_less_mult)
    with False j show ?thesis by (simp add: dec.simps [of n] mult.commute)
  qed
qed

lemma length_dec:
  assumes "10 ^ k \<le> n" and "n < 10 ^ Suc k"
  shows "length (dec n) = Suc k"
proof -
  have "0 < n" using assms(1) by (simp add: order_less_le_trans [of 0 "10 ^ k"])
  from dec_bounds [OF this] have b: "10 ^ (length (dec n) - 1) \<le> n" "n < 10 ^ length (dec n)" by auto
  obtain j where j: "length (dec n) = Suc j" by (cases "dec n") auto
  have "(10 :: nat) ^ j < 10 ^ Suc k" "(10 :: nat) ^ k < 10 ^ Suc j"
    using le_less_trans [OF _ assms(2)] le_less_trans [OF assms(1)] b unfolding j by simp_all
  then have "j < Suc k" "k < Suc j" by (metis one_less_numeral_iff power_less_imp_less_exp semiring_norm(76))+
  with j show ?thesis by simp
qed

lemma digits_in_rat:
  assumes "10 ^ j \<le> n" and "n + 1 \<le> 10 ^ Suc j"
  shows "(10 :: rat) ^ j \<le> of_nat n \<and> of_nat n + 1 \<le> (10 :: rat) ^ Suc j"
proof -
  have e: "(10 :: rat) ^ i = of_nat (10 ^ i)" "(of_nat n + 1 :: rat) = of_nat (n + 1)" for i by simp_all
  show ?thesis unfolding e using assms by (blast intro: of_nat_mono)
qed

lemma ilog10_bounds:
  assumes "0 < x"
  shows "10 powi ilog10 x \<le> x \<and> x < 10 powi (ilog10 x + 1)"
proof (cases "1 \<le> x")
  case True
  define n where "n = nat \<lfloor>x\<rfloor>"
  have n: "0 < n" "of_nat n \<le> x" "x < of_nat n + 1"
    using True by (simp_all add: n_def of_nat_nat) linarith+
  obtain j where j: "length (dec n) = Suc j" by (cases "dec n") auto
  from dec_bounds [OF n(1)] have d: "10 ^ j \<le> n" "n + 1 \<le> 10 ^ Suc j" unfolding j by simp_all
  have "(10 :: rat) ^ j \<le> of_nat n" "of_nat n + 1 \<le> (10 :: rat) ^ Suc j"
    using digits_in_rat [OF d] by auto
  then have "10 ^ j \<le> x" "x < 10 ^ Suc j" using n by linarith+
  moreover have "ilog10 x = int j" using True j by (simp add: ilog10_def n_def)
  moreover have "(10 :: rat) powi (int j + 1) = 10 ^ Suc j"
    by (simp add: power_int_add)
  ultimately show ?thesis by simp
next
  case False
  define y where "y = 1 / x"
  define n where "n = nat (\<lceil>y\<rceil> - 1)"
  have y: "1 < y" using False assms by (simp add: y_def)
  have c: "y \<le> of_int \<lceil>y\<rceil>" "of_int \<lceil>y\<rceil> < y + 1" by linarith+
  have "1 < \<lceil>y\<rceil>" using y by (simp add: less_ceiling_iff)
  then have n: "0 < n" "(of_nat n :: rat) = of_int \<lceil>y\<rceil> - 1" by (simp_all add: n_def of_nat_nat)
  obtain j where j: "length (dec n) = Suc j" by (cases "dec n") auto
  from dec_bounds [OF n(1)] have d: "10 ^ j \<le> n" "n + 1 \<le> 10 ^ Suc j" unfolding j by simp_all
  have "(10 :: rat) ^ j \<le> of_nat n" "of_nat n + 1 \<le> (10 :: rat) ^ Suc j"
    using digits_in_rat [OF d] by auto
  then have "10 ^ j < y" "y \<le> 10 ^ Suc j" using n c by linarith+
  then have "x < 1 / 10 ^ j" "1 / 10 ^ Suc j \<le> x"
    using assms unfolding y_def by (simp_all add: field_simps)
  moreover have "ilog10 x = - int (Suc j)" using False j by (simp add: ilog10_def n_def y_def)
  moreover have "(10 :: rat) powi (- int (Suc j)) = 1 / 10 ^ Suc j" "(10 :: rat) powi (- int (Suc j) + 1) = 1 / 10 ^ j"
    by (simp_all only: power_int_minus power_int_of_nat inverse_eq_divide) (simp add: power_int_minus inverse_eq_divide)
  ultimately show ?thesis by simp
qed

text \<open>The value of \<open>n\<close> digits of \<open>x\<close>.\<close>

definition decimal_value :: "nat \<Rightarrow> rat \<Rightarrow> rat" where
  "decimal_value n x = of_int (decimal_digits n x) * 10 powi (ilog10 x + 1 - int n)"

lemma decimal_digits_bounds:
  assumes "0 < x"
  shows "10 ^ n \<le> decimal_digits (Suc n) x \<and> decimal_digits (Suc n) x \<le> 10 ^ Suc n"
proof -
  let ?e = "ilog10 x"
  have b: "10 powi ?e \<le> x" "x < 10 powi (?e + 1)" using ilog10_bounds [OF assms] by auto
  have s: "10 powi (int n - ?e) > (0 :: rat)" by simp
  have p: "(10 :: rat) powi ?e * 10 powi (int n - ?e) = 10 ^ n"
      "(10 :: rat) powi (?e + 1) * 10 powi (int n - ?e) = 10 ^ Suc n"
    by (simp_all add: power_int_add power_int_diff)
  have "10 ^ n \<le> x * 10 powi (int n - ?e)" "x * 10 powi (int n - ?e) \<le> 10 ^ Suc n"
    unfolding p [symmetric] using b s by (auto intro!: mult_right_mono)
  then have "of_int (10 ^ n) \<le> x * 10 powi (int n - ?e)" "x * 10 powi (int n - ?e) \<le> of_int (10 ^ Suc n)"
    by simp_all
  then show ?thesis
    unfolding decimal_digits_def using round_half_even_mono_int round_half_even_upper by simp
qed

lemma decimal_value_error:
  assumes "0 < x"
  shows "\<bar>decimal_value n x - x\<bar> \<le> 10 powi (ilog10 x + 1 - int n) / 2"
proof -
  define t where "t = (10 :: rat) powi (ilog10 x + 1 - int n)"
  have t: "0 < t" by (simp add: t_def)
  have i: "(10 :: rat) powi (int n - 1 - ilog10 x) = 1 / t"
    by (simp add: t_def power_int_diff power_int_add)
  have "decimal_value n x - x = (of_int (decimal_digits n x) - x / t) * t"
    unfolding decimal_value_def t_def [symmetric] using t by (simp add: field_simps)
  moreover have "\<bar>of_int (decimal_digits n x) - x / t\<bar> \<le> 1 / 2"
    using round_half_even_error [of "x / t"] by (simp add: decimal_digits_def i)
  ultimately show ?thesis using t by (simp add: abs_mult t_def [symmetric])
qed

lemma seventeen_digits:
  assumes "0 < x" and "round64 x = x"
  shows "round64 (decimal_value 17 x) = x"
proof (rule round64_near [OF assms])
  let ?e = "ilog10 x"
  have b: "10 powi ?e \<le> x" using ilog10_bounds [OF assms(1)] by auto
  have "(10 :: rat) powi (?e + 1 - int 17) = 10 powi ?e / 10 ^ 16"
    by (simp add: power_int_diff power_int_add)
  then have "\<bar>decimal_value 17 x - x\<bar> \<le> 10 powi ?e / (2 * 10 ^ 16)"
    using decimal_value_error [OF assms(1), of 17] by simp
  then have "\<bar>decimal_value 17 x - x\<bar> * (2 * 10 ^ 16) \<le> x" using b by simp
  moreover have "(2 :: rat) ^ 54 < 2 * 10 ^ 16" by simp
  ultimately show "\<bar>decimal_value 17 x - x\<bar> * 2 ^ 54 < x"
    using assms(1) by (cases "decimal_value 17 x = x") (auto elim!: less_le_trans [rotated])
qed

subsection \<open>The shortest digits\<close>

lemma digit_digit_val: "is_digit c \<Longrightarrow> digit (digit_val c) = c"
proof -
  assume "is_digit c"
  then have "48 + digit_val c = of_char c" by (simp add: is_digit_def digit_val_def)
  then show ?thesis by (simp add: digit_def)
qed

lemma digit_val_less: "is_digit c \<Longrightarrow> digit_val c < 10"
  by (auto simp: is_digit_def digit_val_def)

lemma undec_pos: "list_all is_digit s \<Longrightarrow> s \<noteq> [] \<Longrightarrow> hd s \<noteq> CHR ''0'' \<Longrightarrow> 0 < undec s"
proof (induction s rule: rev_induct)
  case (snoc c t)
  show ?case
  proof (cases "t = []")
    case True
    with snoc.prems have "digit (digit_val c) \<noteq> digit 0" by (simp add: digit_digit_val digit_chars)
    then have "digit_val c \<noteq> 0" by metis
    with True show ?thesis by (simp add: undec_def)
  qed (use snoc in \<open>simp add: undec_append\<close>)
qed simp

lemma dec_undec: "plain_numeral s \<Longrightarrow> dec (undec s) = s"
proof (induction s rule: rev_induct)
  case (snoc c t)
  have c: "is_digit c" using snoc.prems by (auto simp: plain_numeral_def)
  show ?case
  proof (cases "t = []")
    case True
    with c show ?thesis by (simp add: undec_def dec.simps [of "digit_val c"] digit_val_less digit_digit_val)
  next
    case False
    with snoc.prems have t: "plain_numeral t" "0 < undec t"
      by (auto simp: plain_numeral_def intro!: undec_pos split: if_splits)
    with c digit_val_less [OF c] snoc.IH show ?thesis
      by (simp add: undec_append dec.simps [of "10 * undec t + digit_val c"] digit_digit_val)
  qed
qed (simp add: plain_numeral_def)

text \<open>The number \<open>0.s \<times> 10\<^sup>point\<close>.\<close>

definition scaled :: "string \<Rightarrow> int \<Rightarrow> rat" where
  "scaled s point = of_nat (undec s) * 10 powi (point - int (length s))"

definition significant :: "string \<Rightarrow> bool" where
  "significant s \<longleftrightarrow> list_all is_digit s \<and> s \<noteq> [] \<and> hd s \<noteq> CHR ''0''"

lemma significant_dec: "0 < n \<Longrightarrow> significant (dec n)"
  using dec_hd_zero [of n] list_all_digits_dec by (auto simp: significant_def)

lemma shortest_digits_read_back:
  assumes x: "0 < x" "round64 x = x" and s: "shortest_digits x = (s, point)"
  shows "significant s" "round64 (scaled s point) = x" "point \<in> {ilog10 x + 1, ilog10 x + 2}"
proof -
  define n where "n = (case find (reads_back x) [1..<17] of Some n \<Rightarrow> n | None \<Rightarrow> 17)"
  define c where "c = decimal_digits n x"
  have "0 < n \<and> round64 (decimal_value n x) = x"
  proof (cases "find (reads_back x) [1..<17]")
    case None
    then show ?thesis using seventeen_digits [OF x] by (simp add: n_def)
  next
    case (Some k)
    then have "reads_back x k" "k \<in> set [1..<17]" by (auto simp: find_Some_iff in_set_conv_nth)
    with Some show ?thesis by (auto simp: n_def reads_back_def decimal_value_def)
  qed
  then obtain m where m: "n = Suc m" and v: "round64 (decimal_value n x) = x"
    using gr0_implies_Suc by blast
  have b: "10 ^ m \<le> c" "c \<le> 10 ^ n" unfolding c_def m using decimal_digits_bounds [OF x(1), of m] by auto
  have sp: "(s, point) = (if c = 10 ^ n then (''1'', ilog10 x + 2) else (dec (nat c), ilog10 x + 1))"
    using s unfolding shortest_digits_def Let_def n_def c_def by (rule sym)
  have "significant s \<and> scaled s point = decimal_value n x"
  proof (cases "c = 10 ^ n")
    case True
    have "undec ''1'' = 1" by code_simp
    moreover have "significant ''1''" by code_simp
    moreover have "decimal_value n x = 10 powi (ilog10 x + 1)"
      using True by (simp add: decimal_value_def c_def [symmetric] power_int_diff)
    ultimately show ?thesis using True sp by (simp add: scaled_def add.commute)
  next
    case False
    have c: "0 < c" using b(1) by (smt (verit) zero_less_power)
    have "nat c < 10 ^ Suc m" "10 ^ m \<le> nat c"
      using False b m c by (simp_all add: nat_less_iff nat_le_eq_zle le_nat_iff flip: nat_power_eq)
    then have "length (dec (nat c)) = n" using m by (simp add: length_dec)
    then show ?thesis
      using False sp c significant_dec [of "nat c"] by (simp add: scaled_def decimal_value_def c_def [symmetric])
  qed
  with v sp show "significant s" "round64 (scaled s point) = x" "point \<in> {ilog10 x + 1, ilog10 x + 2}"
    by (auto split: if_splits)
qed

subsection \<open>Scanning a number\<close>

fun exponent_text :: "int option \<Rightarrow> string" where
  "exponent_text None = []"
| "exponent_text (Some e) = ''e'' @ (if 0 \<le> e then ''+'' else []) @ str_int e"

definition number_text :: "string \<Rightarrow> string \<Rightarrow> int option \<Rightarrow> string" where
  "number_text w f e = w @ (if f = [] then [] else CHR ''.'' # f) @ exponent_text e"

text \<open>The value of the parts of a number.\<close>

definition parts_value :: "string \<Rightarrow> string \<Rightarrow> int option \<Rightarrow> rat" where
  "parts_value w f e =
     of_nat (undec (w @ f)) * 10 powi ((case e of None \<Rightarrow> 0 | Some k \<Rightarrow> k) - int (length f))"

lemma digits_stop:
  assumes "list_all is_digit a" and "b = [] \<or> \<not> is_digit (hd b)"
  shows "takeWhile is_digit (a @ b) = a" "dropWhile is_digit (a @ b) = b"
  using assms by (cases b; induction a; auto)+

lemma ends_no_digit: "ends_value r \<Longrightarrow> r = [] \<or> \<not> is_digit (hd r)"
  by (auto simp: ends_value_def is_digit_def)

lemma exponent_text_stop: "ends_value r \<Longrightarrow> exponent_text e @ r = [] \<or> \<not> is_digit (hd (exponent_text e @ r))"
  using ends_no_digit [of r] by (cases e) (auto simp: is_digit_def [of "CHR ''e''"])

lemma exponent_part_text:
  assumes "ends_value r"
  shows "exponent_part (exponent_text e @ r) = (e, r)"
proof (cases e)
  case None
  then show ?thesis
    using assms by (auto simp: exponent_part_def ends_value_def split: list.splits)
next
  case (Some k)
  have d: "takeWhile is_digit (dec n @ r) = dec n" "dropWhile is_digit (dec n @ r) = r" for n
    using takeWhile_dec [OF assms] by auto
  show ?thesis using Some d by (auto simp: exponent_part_def Let_def str_int_def)
qed

lemma fraction_part_text:
  assumes "list_all is_digit f" and "ends_value r"
  shows "fraction_part ((if f = [] then [] else CHR ''.'' # f) @ exponent_text e @ r) = (f, exponent_text e @ r)"
proof (cases "f = []")
  case True
  then show ?thesis
    using assms(2) by (cases e) (auto simp: fraction_part_def ends_value_def split: list.splits)
next
  case False
  with digits_stop [OF assms(1) exponent_text_stop [OF assms(2), of e]]
  show ?thesis by (simp add: fraction_part_def)
qed

lemma integer_part_text:
  assumes "plain_numeral w" and "q = [] \<or> \<not> is_digit (hd q)"
  shows "integer_part (w @ q) = Some (w, q)"
proof (cases "w = ''0''")
  case True
  then show ?thesis by (simp add: integer_part_def is_digit_def)
next
  case False
  then obtain c t where w: "w = c # t" "is_digit c" "c \<noteq> CHR ''0''" "list_all is_digit w"
    using assms(1) by (cases w) (auto simp: plain_numeral_def)
  then show ?thesis using digits_stop [OF w(4) assms(2)] by (simp add: integer_part_def)
qed

lemma unsigned_number_text:
  assumes "plain_numeral w" and "list_all is_digit f" and "ends_value r"
  shows "unsigned_number sg (number_text w f e @ r) =
    Some (if f = [] \<and> e = None then JInt (sg * int (undec w)) else JFloat (round64 (of_int sg * parts_value w f e)), r)"
proof -
  let ?q = "(if f = [] then [] else CHR ''.'' # f) @ exponent_text e @ r"
  have "?q = [] \<or> \<not> is_digit (hd ?q)" using exponent_text_stop [OF assms(3), of e] by (simp add: is_digit_def)
  then have "integer_part (number_text w f e @ r) = Some (w, ?q)"
    using integer_part_text [OF assms(1)] by (simp add: number_text_def)
  then show ?thesis
    using fraction_part_text [OF assms(2,3), of e] exponent_part_text [OF assms(3), of e]
    by (simp add: unsigned_number_def parts_value_def mult.assoc)
qed

subsection \<open>The text of a float\<close>

text \<open>A number without exponent and its value.\<close>

definition plain_text :: "string \<Rightarrow> rat \<Rightarrow> bool" where
  "plain_text t v \<longleftrightarrow>
     (\<exists>w f. t = number_text w f None \<and> plain_numeral w \<and> list_all is_digit f \<and> parts_value w f None = v)"

definition denotes :: "string \<Rightarrow> rat \<Rightarrow> bool" where
  "denotes t v \<longleftrightarrow>
     (\<exists>w f e. t = number_text w f e \<and> plain_numeral w \<and> list_all is_digit f \<and> parts_value w f e = v)"

lemma plain_denotes: "plain_text t v \<Longrightarrow> denotes t v"
  unfolding plain_text_def denotes_def by blast

lemma significant_parts:
  assumes "significant s"
  shows "plain_numeral s" "s \<noteq> []" "list_all is_digit s" "list_all is_digit (drop k s)"
    "0 < k \<Longrightarrow> plain_numeral (take k s)" "plain_numeral (s @ replicate k CHR ''0'')"
    "list_all is_digit (replicate k CHR ''0'')"
  using assms by (auto simp: significant_def plain_numeral_def list_all_iff is_digit_def hd_append
      dest: in_set_takeD in_set_dropD)

lemma undec_shift: "undec (s @ replicate k CHR ''0'') = undec s * 10 ^ k"
proof (induction k)
  case (Suc k)
  have z: "digit_val CHR ''0'' = 0" by (simp add: digit_val_def)
  have "undec (s @ replicate (Suc k) CHR ''0'') = undec ((s @ replicate k CHR ''0'') @ [CHR ''0''])"
    by (simp add: replicate_append_same)
  also have "\<dots> = 10 * undec (s @ replicate k CHR ''0'')" unfolding undec_append z by simp
  finally show ?case using Suc by simp
qed simp

lemma plain_below:
  assumes "significant s" and "point \<le> 0"
  shows "plain_text (''0.'' @ replicate (nat (- point)) CHR ''0'' @ s) (scaled s point)"
proof -
  let ?f = "replicate (nat (- point)) CHR ''0'' @ s"
  have "undec (''0'' @ ?f) = undec s"
    using undec_zeros [of "Suc (nat (- point))" s] by simp
  then have "parts_value ''0'' ?f None = scaled s point"
    using assms(2) by (simp add: parts_value_def scaled_def)
  moreover have "''0.'' @ ?f = number_text ''0'' ?f None" using significant_parts(2) [OF assms(1)] by (simp add: number_text_def)
  moreover have "plain_numeral ''0''" by (simp add: plain_numeral_def is_digit_def)
  ultimately show ?thesis
    unfolding plain_text_def using significant_parts(3,7) [OF assms(1)] by (metis list_all_append)
qed

lemma plain_inside:
  assumes "significant s" and "0 < point" and "point < int (length s)"
  shows "plain_text (take (nat point) s @ ''.'' @ drop (nat point) s) (scaled s point)"
proof -
  let ?w = "take (nat point) s" and ?f = "drop (nat point) s"
  have "parts_value ?w ?f None = scaled s point"
    using assms(2,3) by (simp add: parts_value_def scaled_def of_nat_diff)
  moreover have "?w @ ''.'' @ ?f = number_text ?w ?f None" using assms(2,3) by (simp add: number_text_def not_le nat_less_iff)
  ultimately show ?thesis
    unfolding plain_text_def using significant_parts(4,5) [OF assms(1)] assms(2) by (metis zero_less_nat_eq)
qed

lemma scaled_zeros:
  assumes "int (length s) \<le> point"
  shows "of_nat (undec (s @ replicate (nat (point - int (length s))) CHR ''0'')) = scaled s point"
proof -
  obtain k where k: "point = int (length s) + int k" using assms zle_iff_zadd by blast
  show ?thesis by (simp add: k undec_shift scaled_def)
qed

lemma plain_above:
  assumes "significant s" and "int (length s) \<le> point"
  shows "plain_text (s @ replicate (nat (point - int (length s))) CHR ''0'') (scaled s point)"
    "plain_text (s @ replicate (nat (point - int (length s))) CHR ''0'' @ ''.0'') (scaled s point)"
proof -
  let ?w = "s @ replicate (nat (point - int (length s))) CHR ''0''"
  have w: "plain_numeral ?w" using significant_parts(6) [OF assms(1)] .
  have z: "digit_val CHR ''0'' = 0" by (simp add: digit_val_def)
  have "parts_value ?w [] None = scaled s point" "parts_value ?w ''0'' None = scaled s point"
    using scaled_zeros [OF assms(2)] unfolding parts_value_def undec_append z
    by (simp_all add: power_int_minus)
  moreover have "?w = number_text ?w [] None" "?w @ ''.0'' = number_text ?w ''0'' None"
    by (simp_all add: number_text_def)
  moreover have "list_all is_digit []" "list_all is_digit ''0''" by (simp_all add: is_digit_def)
  ultimately show "plain_text ?w (scaled s point)"
      "plain_text (s @ replicate (nat (point - int (length s))) CHR ''0'' @ ''.0'') (scaled s point)"
    unfolding plain_text_def using w by (metis append_assoc)+
qed

lemma removesuffix_append: "removesuffix (s @ t) t = s"
  by (simp add: removesuffix_def)

lemma removesuffix_cases: "removesuffix s t = s \<or> s = removesuffix s t @ t"
  by (simp add: removesuffix_def) (metis append_take_drop_id)

lemma plain_strip:
  assumes "plain_text t v"
  shows "plain_text (removesuffix t ''.0'') v"
proof (cases "removesuffix t ''.0'' = t")
  case False
  then obtain a where a: "removesuffix t ''.0'' = a" "t = a @ ''.0''" using removesuffix_cases by blast
  obtain w f where t: "t = w @ (if f = [] then [] else CHR ''.'' # f)" "plain_numeral w" "list_all is_digit f"
      "parts_value w f None = v"
    using assms by (auto simp: plain_text_def number_text_def)
  have w: "list_all is_digit w" using t(2) by (simp add: plain_numeral_def)
  have nd: "CHR ''.'' \<notin> set w" "CHR ''.'' \<notin> set f" using w t(3) by (auto simp: list_all_iff)
  have "f \<noteq> []" using a t(1) nd by (auto dest: arg_cong [where f = set])
  then have "w @ CHR ''.'' # f = a @ CHR ''.'' # ''0''" using a t(1) by simp
  then have e: "w = a" "f = ''0''" using append_Cons_eq_iff [OF nd] by auto
  have z: "digit_val CHR ''0'' = 0" by (simp add: digit_val_def)
  have "parts_value w [] None = v"
    using t(4) unfolding e(2) parts_value_def undec_append z by (simp add: power_int_minus)
  moreover have "a = number_text w [] None" using e by (simp add: number_text_def)
  ultimately show ?thesis
    unfolding plain_text_def a(1) using t(2) by (intro exI [of _ w] exI [of _ "[]"]) simp
qed (use assms in simp)

lemma plain_chars: "plain_text t v \<Longrightarrow> c \<in> set t \<Longrightarrow> is_digit c \<or> c = CHR ''.''"
  by (auto simp: plain_text_def number_text_def plain_numeral_def list_all_iff split: if_splits)

lemma plain_first: "plain_text t v \<Longrightarrow> t \<noteq> [] \<and> is_digit (hd t)"
  by (auto simp: plain_text_def number_text_def plain_numeral_def list_all_iff hd_append is_digit_def)

lemma partition_absent: "c \<notin> set t \<Longrightarrow> partition_at c t = (t, False, [])"
proof -
  assume c: "c \<notin> set t"
  then have tw: "takeWhile (\<lambda>d. d \<noteq> c) t = t" by (auto simp: takeWhile_eq_all_conv)
  show ?thesis unfolding partition_at_def tw using c by simp
qed

lemma partition_present: "c \<notin> set t \<Longrightarrow> partition_at c (t @ c # q) = (t, True, q)"
proof -
  assume "c \<notin> set t"
  then have "takeWhile (\<lambda>d. d \<noteq> c) (t @ c # q) = t" by (subst takeWhile_append2) auto
  then show ?thesis by (simp add: partition_at_def)
qed

lemma e_no_plain [simp]: "\<not> is_digit CHR ''e''" "\<not> is_digit CHR ''-''"
  by (simp_all add: is_digit_def)

lemma plain_no_e: "plain_text t v \<Longrightarrow> CHR ''e'' \<notin> set t"
  using plain_chars [of t v "CHR ''e''"] by auto

lemma plain_exponent:
  assumes "plain_text t v"
  shows "denotes (t @ exponent_text (Some e)) (v * 10 powi e)"
proof -
  obtain w f where w: "t = number_text w f None" "plain_numeral w" "list_all is_digit f" "parts_value w f None = v"
    using assms by (auto simp: plain_text_def)
  have "parts_value w f (Some e) = v * 10 powi e"
    using w(4) by (auto simp: parts_value_def power_int_add power_int_diff power_int_minus field_simps)
  moreover have "t @ exponent_text (Some e) = number_text w f (Some e)" using w(1) by (simp add: number_text_def)
  ultimately show ?thesis unfolding denotes_def using w by blast
qed

definition scientific :: "string \<Rightarrow> string" where
  "scientific s = take 1 s @ (if 1 < int (length s) then CHR ''.'' # drop 1 s else [])"

lemma plain_scientific:
  assumes "significant s"
  shows "plain_text (scientific s) (scaled s 1)"
proof -
  obtain c t where s: "s = c # t" using assms by (cases s) (auto simp: significant_def)
  show ?thesis
  proof (cases t)
    case Nil
    then show ?thesis using plain_above(1) [OF assms, of 1] s by (simp add: scientific_def)
  next
    case (Cons d u)
    then show ?thesis using plain_inside [OF assms, of 1] s by (simp add: scientific_def)
  qed
qed

lemma partition_scientific:
  assumes "significant s"
  shows "\<exists>b. partition_at CHR ''.'' (scientific s) = (take 1 s, b, drop 1 s)"
proof -
  obtain c t where s: "s = c # t" using assms by (cases s) (auto simp: significant_def)
  have d: "CHR ''.'' \<notin> set s" using assms by (auto simp: significant_def list_all_iff)
  show ?thesis
  proof (cases t)
    case Nil
    with s d have "partition_at CHR ''.'' [c] = ([c], False, [])" by (intro partition_absent) auto
    then show ?thesis using s Nil by (auto simp: scientific_def)
  next
    case (Cons e u)
    with s d have "partition_at CHR ''.'' ([c] @ CHR ''.'' # t) = ([c], True, t)" by (intro partition_present) auto
    then show ?thesis using s Cons by (auto simp: scientific_def)
  qed
qed

lemma repr_cases:
  assumes "shortest_digits x = (s, point)" and "significant s"
  shows "plain_text (repr_positive x) (scaled s point)
    \<or> (\<exists>t. repr_positive x = scientific s @ CHR ''e'' # t \<and> int_of_text t = point - 1)"
proof -
  consider "-4 < point" "point \<le> 0" | "0 < point" "point < int (length s)"
    | "int (length s) \<le> point" "point \<le> 16" "0 < point" | "point \<le> -4 \<or> 16 < point" "\<not> (0 < point \<and> point < int (length s))"
    by linarith
  then show ?thesis
  proof cases
    case 1
    then show ?thesis using plain_below [OF assms(2)] assms(1) by (simp add: repr_positive_def)
  next
    case 2
    then show ?thesis using plain_inside [OF assms(2)] assms(1) by (simp add: repr_positive_def)
  next
    case 3
    then show ?thesis using plain_above(2) [OF assms(2)] assms(1) by (simp add: repr_positive_def)
  next
    case 4
    define t where "t = (if point - 1 < 0 then ''-'' else ''+'') @ pad0 2 (dec (nat \<bar>point - 1\<bar>))"
    have "repr_positive x = scientific s @ CHR ''e'' # t"
      using 4 assms(1) by (auto simp: repr_positive_def scientific_def t_def)
    moreover have "int_of_text t = point - 1" by (simp add: t_def int_of_text_def)
    ultimately show ?thesis using 4(1) by blast
  qed
qed

text \<open>What the encoder writes for a positive float denotes exactly the digits \<open>repr\<close> found.\<close>

lemma ecmascript_denotes:
  assumes "0 < x" and sp: "shortest_digits x = (s, point)" and s: "significant s"
  shows "denotes (ecmascript_number x) (scaled s point)"
  using repr_cases [OF sp s]
proof (elim disjE exE conjE)
  assume p: "plain_text (repr_positive x) (scaled s point)"
  have "ecmascript_number x = removesuffix (repr_positive x) ''.0''"
    using assms(1) partition_absent [OF plain_no_e [OF p]] by (simp add: ecmascript_number_def repr_float_def Let_def)
  then show ?thesis using plain_denotes [OF plain_strip [OF p]] by simp
next
  fix t
  assume r: "repr_positive x = scientific s @ CHR ''e'' # t" and i: "int_of_text t = point - 1"
  note sci = plain_scientific [OF s]
  have pe: "partition_at CHR ''e'' (repr_positive x) = (scientific s, True, t)"
    unfolding r by (rule partition_present [OF plain_no_e [OF sci]])
  obtain c q where c: "scientific s = c # q" "is_digit c" using plain_first [OF sci] by (cases "scientific s") auto
  then have nm: "(take 1 (scientific s) = ''-'') = False" by auto
  have rx: "repr_float x = repr_positive x" "(x = 0) = False" using assms(1) by (simp_all add: repr_float_def)
  obtain b where pd: "partition_at CHR ''.'' (scientific s) = (take 1 s, b, drop 1 s)"
    using partition_scientific [OF s] by blast
  have l: "int (length (take 1 s)) + (point - 1) = point" using significant_parts(2) [OF s] by (cases s) auto
  show ?thesis
  proof (cases "1 / 10 ^ 6 \<le> \<bar>x\<bar> \<and> \<bar>x\<bar> < 10 ^ 21")
    case True
    then have "ecmascript_number x =
        (if point \<le> 0 then ''0.'' @ replicate (nat (- point)) CHR ''0'' @ s
         else if point \<ge> int (length s) then s @ replicate (nat (point - int (length s))) CHR ''0''
         else take (nat point) s @ ''.'' @ drop (nat point) s)"
      unfolding ecmascript_number_def
      by (simp only: rx True pe pd nm Let_def prod.case if_False if_True i l simp_thms append_take_drop_id append_Nil)
    then show ?thesis
      using plain_denotes [OF plain_below [OF s]] plain_denotes [OF plain_above(1) [OF s]]
        plain_denotes [OF plain_inside [OF s]] by simp
  next
    case False
    have "ecmascript_number x = removesuffix (scientific s) ''.0'' @ exponent_text (Some (point - 1))"
      using False unfolding ecmascript_number_def
      by (simp only: rx pe Let_def prod.case if_False simp_thms i exponent_text.simps append_assoc)
    moreover have "scaled s 1 * 10 powi (point - 1) = scaled s point"
      by (simp add: scaled_def power_int_diff field_simps)
    ultimately show ?thesis using plain_exponent [OF plain_strip [OF sci], of "point - 1"] by simp
  qed
qed

lemma ecmascript_negative:
  assumes "0 < x" and "round64 x = x"
  shows "ecmascript_number (- x) = CHR ''-'' # ecmascript_number x"
proof -
  obtain s point where sp: "shortest_digits x = (s, point)" by (cases "shortest_digits x")
  note s = shortest_digits_read_back(1) [OF assms sp]
  have rx: "repr_float x = repr_positive x" "repr_float (- x) = CHR ''-'' # repr_positive x" "(x = 0) = False"
      "(- x = 0) = False" "\<bar>- x\<bar> = \<bar>x\<bar>"
    using assms(1) by (simp_all add: repr_float_def)
  have cons: "partition_at CHR ''e'' (CHR ''-'' # t) = (CHR ''-'' # m, b, q)"
    if "partition_at CHR ''e'' t = (m, b, q)" for t m b q
    using that by (auto simp: partition_at_def)
  have strip: "removesuffix (CHR ''-'' # t) ''.0'' = CHR ''-'' # removesuffix t ''.0''"
    if "t \<noteq> []" "is_digit (hd t)" for t
  proof -
    have "t \<noteq> ''0''  \<or> CHR ''-'' \<noteq> CHR ''.''" by simp
    then show ?thesis using that
      by (cases t; cases "tl t"; auto simp: removesuffix_def Suc_diff_le)
  qed
  show ?thesis
    using repr_cases [OF sp s]
  proof (elim disjE exE conjE)
    assume p: "plain_text (repr_positive x) (scaled s point)"
    note pe = partition_absent [OF plain_no_e [OF p]]
    show ?thesis
      using strip plain_first [OF p] unfolding ecmascript_number_def
      by (simp only: rx pe cons [OF pe] Let_def prod.case if_False if_True simp_thms split: if_split)
  next
    fix t
    assume r: "repr_positive x = scientific s @ CHR ''e'' # t"
    note sci = plain_scientific [OF s]
    have pe: "partition_at CHR ''e'' (repr_positive x) = (scientific s, True, t)"
      unfolding r by (rule partition_present [OF plain_no_e [OF sci]])
    obtain c q where c: "scientific s = c # q" "is_digit c" using plain_first [OF sci] by (cases "scientific s") auto
    then have nm: "(take 1 (scientific s) = ''-'') = False" "take 1 (CHR ''-'' # scientific s) = ''-''"
        "drop 1 (CHR ''-'' # scientific s) = scientific s" by auto
    obtain b where pd: "partition_at CHR ''.'' (scientific s) = (take 1 s, b, drop 1 s)"
      using partition_scientific [OF s] by blast
    have st: "removesuffix (CHR ''-'' # scientific s) ''.0'' = CHR ''-'' # removesuffix (scientific s) ''.0''"
      using strip plain_first [OF sci] by blast
    show ?thesis
      unfolding ecmascript_number_def
      by (simp only: rx pe cons [OF pe] pd nm st Let_def prod.case if_False if_True simp_thms append_Nil append_Cons)
        (auto split: if_split)
  qed
qed

subsection \<open>Reading a float back\<close>

text \<open>What the reader makes of the text of a float: the float, or an equal integer.\<close>

definition reads_as :: "pyfloat \<Rightarrow> json \<Rightarrow> bool" where
  "reads_as x v \<longleftrightarrow>
     v = JFloat x \<or> (\<exists>m. v = JInt m \<and> str_int m = ecmascript_number x \<and> round64 (of_int m) = x)"

lemma number_denoted:
  assumes "denotes t v" and "0 < round64 v" and "sg = 1 \<or> sg = -1"
  shows "\<exists>u. (\<forall>r. ends_value r \<longrightarrow> unsigned_number sg (t @ r) = Some (u, r)) \<and>
    (u = JFloat (of_int sg * round64 v) \<or>
     (\<exists>n. u = JInt (sg * int n) \<and> t = dec n \<and> 0 < n \<and> round64 (of_int (int n)) = round64 v))"
proof -
  obtain w f e where t: "t = number_text w f e" "plain_numeral w" "list_all is_digit f" "parts_value w f e = v"
    using assms(1) by (auto simp: denotes_def)
  have m: "round64 (of_int sg * v) = of_int sg * round64 v" using assms(3) by (auto simp: round64_minus)
  note un = unsigned_number_text [OF t(2,3), where sg = sg and e = e]
  show ?thesis
  proof (cases "f = [] \<and> e = None")
    case True
    then have "of_nat (undec w) = v" using t(4) by (simp add: parts_value_def)
    moreover have "t = dec (undec w)" using True t(1) dec_undec [OF t(2)] by (simp add: number_text_def)
    moreover have "0 < undec w" using calculation(1) assms(2) by (intro neq0_conv [THEN iffD1] notI) auto
    ultimately show ?thesis using un True t(1) by (intro exI [of _ "JInt (sg * int (undec w))"]) auto
  next
    case False
    then show ?thesis using un t m by (intro exI [of _ "JFloat (of_int sg * round64 v)"]) auto
  qed
qed

lemma number_ecmascript:
  assumes "round64 x = x"
  shows "\<exists>v. reads_as x v \<and> (\<forall>r. ends_value r \<longrightarrow> number (ecmascript_number x @ r) = Some (v, r))"
proof -
  have pos: "denotes (ecmascript_number y) (scaled s point) \<and> round64 (scaled s point) = y"
    if y: "0 < y" "round64 y = y" and sp: "shortest_digits y = (s, point)" for y s point
    using ecmascript_denotes [OF y(1) sp] shortest_digits_read_back [OF y sp] by simp
  consider "x = 0" | "0 < x" | "x < 0" by linarith
  then show ?thesis
  proof cases
    case 1
    have "\<forall>r. ends_value r \<longrightarrow> number (str_int 0 @ r) = Some (JInt 0, r)" using number_str_int by blast
    moreover have "ecmascript_number x = str_int 0" using 1 by (simp add: ecmascript_number_def str_int_def dec_zero)
    ultimately show ?thesis using 1 by (intro exI [of _ "JInt 0"]) (auto simp: reads_as_def)
  next
    case 2
    obtain s point where sp: "shortest_digits x = (s, point)" by (cases "shortest_digits x")
    note p = pos [OF 2 assms sp]
    have "take 1 (ecmascript_number x @ r) \<noteq> ''-''" for r
    proof -
      obtain w f e where "ecmascript_number x = number_text w f e" "plain_numeral w"
        using p by (auto simp: denotes_def)
      then show ?thesis by (cases w) (auto simp: number_text_def plain_numeral_def)
    qed
    then have "number (ecmascript_number x @ r) = unsigned_number 1 (ecmascript_number x @ r)" for r
      by (simp add: number_def)
    with number_denoted [OF conjunct1 [OF p], of 1] p 2 obtain u where
        u: "\<forall>r. ends_value r \<longrightarrow> number (ecmascript_number x @ r) = Some (u, r)"
        and c: "u = JFloat x \<or> (\<exists>n. u = JInt (int n) \<and> ecmascript_number x = dec n
          \<and> round64 (of_int (int n)) = x)"
      by auto
    have "str_int (int n) = dec n" for n by (simp add: str_int_def)
    with u c show ?thesis unfolding reads_as_def by metis
  next
    case 3
    define y where "y = - x"
    have y: "0 < y" "round64 y = y" "x = - y" using 3 assms by (simp_all add: y_def round64_minus)
    obtain s point where sp: "shortest_digits y = (s, point)" by (cases "shortest_digits y")
    note p = pos [OF y(1,2) sp]
    have t: "ecmascript_number x = CHR ''-'' # ecmascript_number y"
      using ecmascript_negative [OF y(1,2)] y(3) by simp
    have "number (ecmascript_number x @ r) = unsigned_number (- 1) (ecmascript_number y @ r)" for r
      unfolding t by (simp add: number_def)
    with number_denoted [OF conjunct1 [OF p], of "- 1"] p y(1) obtain u where
        u: "\<forall>r. ends_value r \<longrightarrow> number (ecmascript_number x @ r) = Some (u, r)"
        and c: "u = JFloat x \<or> (\<exists>n. u = JInt (- int n) \<and> ecmascript_number y = dec n \<and> 0 < n
          \<and> round64 (of_int (int n)) = y)"
      using y(3) by auto
    have "str_int (- int n) = CHR ''-'' # dec n \<and> round64 (of_int (- int n)) = - round64 (of_int (int n))"
      if "0 < n" for n
      using that by (simp add: str_int_def round64_minus)
    with u c show ?thesis unfolding reads_as_def t using y(3) by metis
  qed
qed

text \<open>The text shows no fraction only of integers, and below \<open>2\<^sup>5\<^sup>3\<close> shows them exactly.\<close>

lemma round64_whole_large:
  assumes "2 ^ 53 \<le> m"
  shows "\<exists>n. round64 (of_int m) = of_int n \<and> 2 ^ 53 \<le> n"
proof -
  let ?x = "of_int m :: rat" and ?k = "ilog2 (of_int m :: rat)"
  have m: "(2 :: rat) ^ 53 \<le> ?x" by (metis assms of_int_le_iff of_int_numeral of_int_power)
  then have x: "0 < ?x" by (rule less_le_trans [rotated]) simp
  have b: "?x < 2 powi (?k + 1)" using ilog2_bounds [OF x] by simp
  have "53 < ?k + 1"
  proof (rule ccontr)
    assume "\<not> 53 < ?k + 1"
    then have "(2 :: rat) powi (?k + 1) \<le> 2 powi 53" by (intro power_int_increasing) auto
    with m b show False by simp
  qed
  then obtain j where j: "?k - 52 = int j" using zero_le_imp_eq_int [of "?k - 52"] by auto
  have p: "(2 :: rat) powi (?k - 52) = of_int (2 ^ j)" unfolding j by simp
  have "2 powi (?k - 52) * 2 ^ 52 \<le> ?x" using ilog2_bounds [OF x] by (simp add: power_int_diff)
  then have "of_int (2 ^ 52) \<le> ?x / 2 powi (?k - 52)" by (simp add: field_simps)
  then have "2 ^ 52 \<le> round_half_even (?x / 2 powi (?k - 52))" by (rule round_half_even_mono_int)
  moreover have "1 \<le> j" using j \<open>53 < ?k + 1\<close> by simp
  then have "(2 :: int) ^ 1 \<le> 2 ^ j" by (rule power_increasing) simp
  ultimately have "2 ^ 52 * 2 ^ 1 \<le> round_half_even (?x / 2 powi (?k - 52)) * 2 ^ j" by (intro mult_mono) auto
  moreover have "round64 ?x = of_int (round_half_even (?x / 2 powi (?k - 52)) * 2 ^ j)"
    using x unfolding round64_def round64_pos_def Let_def p by simp
  ultimately show ?thesis
    by (intro exI [of _ "round_half_even (?x / 2 powi (?k - 52)) * 2 ^ j"]) simp
qed

lemma reads_as_value:
  assumes "reads_as x v" and "\<bar>x\<bar> < 2 ^ 53 \<or> x \<notin> \<int>"
  shows "v = JFloat x \<or> (\<exists>m. v = JInt m \<and> of_int m = x)"
proof -
  have "of_int m = x" if r: "round64 (of_int m) = x" for m
  proof -
    consider "\<bar>m\<bar> < 2 ^ 53" | "2 ^ 53 \<le> m" | "2 ^ 53 \<le> - m" by linarith
    then show ?thesis
    proof cases
      case 1
      then show ?thesis using r by (simp add: round64_int)
    next
      case 2
      then obtain n where n: "x = of_int n" "2 ^ 53 \<le> n" using round64_whole_large r by metis
      have "(2 :: rat) ^ 53 \<le> of_int n" by (metis n(2) of_int_le_iff of_int_numeral of_int_power)
      with n assms(2) show ?thesis by simp
    next
      case 3
      then obtain n where "- x = of_int n" and n2: "2 ^ 53 \<le> n"
        using round64_whole_large [OF 3] r by (auto simp: round64_minus)
      then have n: "x = of_int (- n)" by simp
      have "(2 :: rat) ^ 53 \<le> of_int n" by (metis n2 of_int_le_iff of_int_numeral of_int_power)
      then have "2 ^ 53 \<le> \<bar>x\<bar>" using n by simp
      with n assms(2) show ?thesis by (metis Ints_of_int not_le)
    qed
  qed
  with assms(1) show ?thesis by (auto simp: reads_as_def)
qed

end
