(* ===== verification/Json_Canonical.thy ===== *)
theory Json_Canonical
  imports Float_Text
begin

section \<open>Canonical documents read back\<close>

text \<open>
  \<open>json.loads\<close> on the text \<open>canonical_json_bytes\<close> writes: the document comes back with the members
  of every object in key order, and a float as \<open>reads_as\<close> says.
\<close>

subsection \<open>Documents\<close>

text \<open>The document as it is read back: the members of every object in key order.\<close>

fun sorted_json :: "json \<Rightarrow> json" where
  "sorted_json (JList xs) = JList (map sorted_json xs)"
| "sorted_json (JObj kvs) = JObj (sort_key fst (map (\<lambda>(k, v). (k, sorted_json v)) kvs))"
| "sorted_json v = v"

text \<open>A document whose objects are dicts and whose floats show themselves as floats.\<close>

fun plain_json :: "json \<Rightarrow> bool" where
  "plain_json (JFloat x) \<longleftrightarrow> round64 x = x \<and> number (ecmascript_number x) = Some (JFloat x, [])"
| "plain_json (JList xs) \<longleftrightarrow> (\<forall>v \<in> set xs. plain_json v)"
| "plain_json (JObj kvs) \<longleftrightarrow> distinct (map fst kvs) \<and> (\<forall>(k, v) \<in> set kvs. plain_json v)"
| "plain_json v \<longleftrightarrow> True"

lemma hex_value_digit: "0 \<le> m \<Longrightarrow> m < 16 \<Longrightarrow> hex_value (hex_digit m) = Some (nat m)"
  by (auto simp: hex_value_def hex_digit_def Let_def)

lemma hex4_quad:
  assumes "n < 32"
  shows "hex_quad (hex4 n @ r) = Some (n, r)"
proof -
  have "int n div 16 div 16 = 0" "int n div 16 div 16 div 16 = 0" "0 \<le> int n div 16" "int n div 16 < 16"
    using assms by simp_all
  then have "hex4 n = [hex_digit 0, hex_digit 0, hex_digit (int n div 16), hex_digit (int n mod 16)]"
    by (simp add: hex4_def eval_nat_numeral)
  moreover have "nat (int n div 16) * 16 + nat (int n mod 16) = n"
    by (simp add: nat_div_distrib nat_mod_distrib)
  ultimately show ?thesis
    using assms by (simp add: hex_value_digit)
qed

lemma escaped_codes:
  "char_of (34 :: nat) = CHR 0x22" "char_of (92 :: nat) = CHR 0x5C" "char_of (10 :: nat) = CHR 10"
  "char_of (13 :: nat) = CHR 13" "char_of (9 :: nat) = CHR 9" "char_of (8 :: nat) = CHR 8"
  "char_of (12 :: nat) = CHR 12"
  by code_simp+

lemma string_body_escape:
  "string_body (escape_char c @ s) = map_option (\<lambda>(u, q). (c # u, q)) (string_body s)"
proof -
  have u: "unicode_escape (hex4 n @ s) = Some ([char_of n], s)" if "n < 32" for n
    using that hex4_quad [OF that, of s] by (simp add: unicode_escape_def utf8_def)
  have e: "c = char_of n" if "of_char c = (n :: nat)" for n using that by (metis char_of_char)
  define n where "n = (of_char c :: nat)"
  consider "n = 34" | "n = 92" | "n = 10" | "n = 13" | "n = 9" | "n = 8" | "n = 12"
    | "n < 32" "n \<notin> {10, 13, 9, 8, 12}" | "32 \<le> n" "n \<noteq> 34" "n \<noteq> 92" by fastforce
  then show ?thesis
  proof cases
    case 8
    then have "escape_char c = CHR 0x5C # CHR ''u'' # hex4 n"
      by (simp add: escape_char_def n_def Let_def)
    then show ?thesis
      using u [OF 8(1)] by (simp add: escape_sequence_def n_def)
  next
    case 9
    then have "escape_char c = [c]" "c \<noteq> CHR 0x22" "c \<noteq> CHR 0x5C"
      by (auto simp: escape_char_def n_def Let_def)
    with 9 show ?thesis by (simp add: n_def)
  qed (use e [of n] in \<open>auto simp: n_def escape_char_def escape_sequence_def escaped_codes\<close>)
qed

lemma string_body_dump [simp]:
  "string_body (concat (map escape_char t) @ CHR 0x22 # r) = Some (t, r)"
  by (induction t) (simp_all add: string_body_escape)

text \<open>The first character of a canonical document.\<close>

lemma str_int_first: "\<exists>c t. str_int n = c # t \<and> (is_digit c \<or> c = CHR ''-'')"
proof -
  have "\<exists>c t. dec m = c # t \<and> is_digit c" for m
    using dec_digits [of m] by (cases "dec m") auto
  then show ?thesis by (cases "n < 0") (fastforce simp: str_int_def)+
qed

lemma number_first:
  assumes "number s = Some p"
  shows "\<exists>c t. s = c # t \<and> (is_digit c \<or> c = CHR ''-'')"
  using assms by (cases s) (auto simp: number_def unsigned_number_def integer_part_def split: if_splits)

lemma number_self:
  assumes "plain_json (JFloat x)" and "ends_value r"
  shows "number (ecmascript_number x @ r) = Some (JFloat x, r)"
proof -
  have x: "round64 x = x" "number (ecmascript_number x) = Some (JFloat x, [])" using assms(1) by auto
  obtain v where v: "\<And>r. ends_value r \<Longrightarrow> number (ecmascript_number x @ r) = Some (v, r)"
    using number_ecmascript [OF x(1)] by blast
  with v [of "[]"] v [OF assms(2)] x(2) show ?thesis by simp
qed

lemma encoded_first:
  assumes "plain_json v"
  shows "\<exists>c t. encode_canonical v = c # t \<and> \<not> is_space c \<and> c \<noteq> CHR '']''"
proof (cases v)
  case (JInt n)
  then show ?thesis using str_int_first [of n] by (auto simp: is_space_def is_digit_def)
next
  case (JFloat x)
  then have "number (ecmascript_number x) = Some (JFloat x, [])" using assms by simp
  from number_first [OF this] show ?thesis using JFloat by (auto simp: is_space_def is_digit_def)
qed (use assms in \<open>auto simp: dump_str_def is_space_def\<close>)

lemma skip_space_encoded: "plain_json v \<Longrightarrow> skip_space (encode_canonical v @ r) = encode_canonical v @ r"
  using encoded_first [of v] by (auto simp: skip_space_def)

lemma skip_space_punct [simp]:
  "skip_space [] = []" "skip_space (CHR '','' # r) = CHR '','' # r" "skip_space (CHR '']'' # r) = CHR '']'' # r"
  "skip_space (CHR 0x7D # r) = CHR 0x7D # r" "skip_space (CHR '':'' # r) = CHR '':'' # r"
  "skip_space (CHR 0x22 # r) = CHR 0x22 # r"
  by (simp_all add: skip_space_def is_space_def)

lemma sort_key_map_snd:
  fixes kvs :: "(string \<times> 'a) list"
  shows "sort_key fst (map (\<lambda>(k, v). (k, f v)) kvs) = map (\<lambda>(k, v). (k, f v)) (sort_key fst kvs)"
proof -
  have ins: "insort_key fst (k, f v) (map (\<lambda>(k, v). (k, f v)) xs) = map (\<lambda>(k, v). (k, f v)) (insort_key fst (k, v) xs)"
    for k v and xs :: "(string \<times> 'a) list"
    by (induction xs) auto
  show ?thesis by (induction kvs) (auto simp: ins)
qed

lemma dict_put_fresh: "k \<notin> set (map fst kvs) \<Longrightarrow> dict_put k v kvs = kvs @ [(k, v)]"
  by (induction k v kvs rule: dict_put.induct) auto

lemma dict_pairs_distinct: "distinct (map fst kvs) \<Longrightarrow> dict_pairs kvs = kvs"
proof -
  have "foldl (\<lambda>d (k, v). dict_put k v d) d kvs = d @ kvs"
    if "distinct (map fst (d @ kvs))" for d
    using that
  proof (induction kvs arbitrary: d)
    case (Cons p kvs)
    obtain k v where p: "p = (k, v)" by (cases p)
    then have "dict_put k v d = d @ [(k, v)]" using Cons.prems by (intro dict_put_fresh) auto
    moreover have "distinct (map fst ((d @ [(k, v)]) @ kvs))" using Cons.prems p by auto
    ultimately show ?case using Cons.IH p by simp
  qed simp
  from this [of "[]"] show "distinct (map fst kvs) \<Longrightarrow> dict_pairs kvs = kvs"
    by (simp add: dict_pairs_def)
qed

definition scans_back :: "bool \<Rightarrow> json \<Rightarrow> bool" where
  "scans_back u v \<longleftrightarrow> (\<forall>k r. 2 * length (encode_canonical v) + 1 \<le> k \<longrightarrow> ends_value r \<longrightarrow>
     scan_value u k (encode_canonical v @ r) = Inr (sorted_json v, r))"

lemma scan_elements_encoded:
  assumes "\<forall>v \<in> set xs. scans_back u v \<and> plain_json v" and "xs \<noteq> []"
    and "2 * length (join '','' (map encode_canonical xs)) + 2 \<le> k"
  shows "scan_elements u k (join '','' (map encode_canonical xs) @ CHR '']'' # r) = Inr (map sorted_json xs, r)"
  using assms
proof (induction xs arbitrary: k)
  case (Cons x xs)
  obtain k' where k: "k = Suc k'" using Cons.prems(3) by (cases k) auto
  have x: "scans_back u x" using Cons.prems by simp
  show ?case
  proof (cases xs)
    case Nil
    with x k Cons.prems(3) show ?thesis by (simp add: scans_back_def)
  next
    case (Cons y ys)
    let ?rest = "join '','' (map encode_canonical xs) @ CHR '']'' # r"
    have j: "join '','' (map encode_canonical (x # xs)) @ CHR '']'' # r = encode_canonical x @ CHR '','' # ?rest"
      using Cons by simp
    have l: "2 * length (encode_canonical x) + 1 \<le> k'" "2 * length (join '','' (map encode_canonical xs)) + 2 \<le> k'"
      using Cons.prems(3) Cons k by simp_all
    have v: "scan_value u k' (encode_canonical x @ CHR '','' # ?rest) = Inr (sorted_json x, CHR '','' # ?rest)"
      using x l(1) by (simp add: scans_back_def)
    have "skip_space ?rest = ?rest"
    proof -
      have "?rest = encode_canonical y @ drop (length (encode_canonical y)) ?rest"
        using Cons by (cases ys) auto
      moreover have "plain_json y" using Cons.prems(1) Cons by simp
      ultimately show ?thesis using skip_space_encoded by metis
    qed
    moreover have "scan_elements u k' ?rest = Inr (map sorted_json xs, r)"
      using Cons.IH [OF _ _ l(2)] Cons.prems(1) Cons by simp
    ultimately show ?thesis unfolding j k using v by simp
  qed
qed simp

definition member_text :: "string \<times> string \<Rightarrow> string" where
  "member_text = (\<lambda>(k, t). dump_str k @ '':'' @ t)"

lemma member_key_text:
  assumes "plain_json v"
  shows "member_key (member_text (k, encode_canonical v) @ r) = Some (k, encode_canonical v @ r)"
  using skip_space_encoded [OF assms] by (simp add: member_key_def member_text_def dump_str_def)

lemma scan_members_encoded:
  assumes "\<forall>(k, v) \<in> set kvs. scans_back u v \<and> plain_json v" and "kvs \<noteq> []"
    and "2 * length (join '','' (map (\<lambda>(k, v). member_text (k, encode_canonical v)) kvs)) + 2 \<le> n"
  shows "scan_members u n (join '','' (map (\<lambda>(k, v). member_text (k, encode_canonical v)) kvs) @ CHR 0x7D # r)
    = Inr (map (\<lambda>(k, v). (k, sorted_json v)) kvs, r)"
  using assms
proof (induction kvs arbitrary: n)
  case (Cons p kvs)
  obtain key x where p: "p = (key, x)" by (cases p)
  obtain n' where n: "n = Suc n'" using Cons.prems(3) by (cases n) auto
  have x: "scans_back u x" "plain_json x" using Cons.prems p by auto
  let ?t = "member_text (key, encode_canonical x)"
  have lt: "length (encode_canonical x) \<le> length ?t" by (simp add: member_text_def)
  show ?case
  proof (cases kvs)
    case Nil
    have "2 * length (encode_canonical x) + 1 \<le> n'" using Cons.prems(3) Nil n p lt by simp
    with x Nil n p show ?thesis by (simp add: scans_back_def member_key_text)
  next
    case (Cons q qs)
    obtain key2 y where q: "q = (key2, y)" by (cases q)
    let ?js = "join '','' (map (\<lambda>(k, v). member_text (k, encode_canonical v)) kvs)"
    let ?rest = "?js @ CHR 0x7D # r"
    have j: "join '','' (map (\<lambda>(k, v). member_text (k, encode_canonical v)) (p # kvs)) @ CHR 0x7D # r
        = ?t @ CHR '','' # ?rest"
      using Cons p by simp
    have l: "2 * length (encode_canonical x) + 1 \<le> n'" "2 * length ?js + 2 \<le> n'"
      using Cons.prems(3) Cons n p lt by simp_all
    have v: "scan_value u n' (encode_canonical x @ CHR '','' # ?rest) = Inr (sorted_json x, CHR '','' # ?rest)"
      using x l(1) by (simp add: scans_back_def)
    have "\<exists>t. ?rest = CHR 0x22 # t"
      using Cons q by (cases qs) (auto simp: member_text_def dump_str_def)
    then have "skip_space ?rest = ?rest" by auto
    moreover have "scan_members u n' ?rest = Inr (map (\<lambda>(k, v). (k, sorted_json v)) kvs, r)"
      using Cons.IH [OF _ _ l(2)] Cons.prems(1) Cons by simp
    ultimately show ?thesis unfolding j n using v member_key_text [OF x(2), of key] p by simp
  qed
qed simp

lemma scans_back_list:
  assumes "\<forall>v \<in> set xs. scans_back u v \<and> plain_json v"
  shows "scans_back u (JList xs)"
  unfolding scans_back_def
proof (intro allI impI)
  fix k r
  assume k: "2 * length (encode_canonical (JList xs)) + 1 \<le> k"
  then obtain k' where k': "k = Suc k'" by (cases k) auto
  show "scan_value u k (encode_canonical (JList xs) @ r) = Inr (sorted_json (JList xs), r)"
  proof (cases xs)
    case (Cons y ys)
    let ?t = "join '','' (map encode_canonical xs) @ CHR '']'' # r"
    have y: "plain_json y" using assms Cons by simp
    have t: "?t = encode_canonical y @ drop (length (encode_canonical y)) ?t"
      using Cons by (cases ys) auto
    have sk: "skip_space ?t = ?t" using skip_space_encoded [OF y] t by metis
    have "take 1 ?t \<noteq> '']''"
    proof -
      obtain c q where "encode_canonical y = c # q" "c \<noteq> CHR '']''" using encoded_first [OF y] by blast
      then show ?thesis by (subst t) simp
    qed
    moreover have "scan_elements u k' ?t = Inr (map sorted_json xs, r)"
      using k k' Cons by (intro scan_elements_encoded [OF assms]) simp_all
    ultimately show ?thesis using sk k' by simp
  qed (use k' in simp)
qed

lemma encode_object:
  "encode_canonical (JObj kvs) =
     CHR 0x7B # join '','' (map (\<lambda>(k, v). member_text (k, encode_canonical v)) (sort_key fst kvs)) @ [CHR 0x7D]"
  unfolding encode_canonical.simps sort_key_map_snd
  by (simp add: member_text_def case_prod_unfold comp_def)

lemma scans_backI:
  assumes "\<And>k r. ends_value r \<Longrightarrow> scan_value u (Suc k) (encode_canonical v @ r) = Inr (sorted_json v, r)"
  shows "scans_back u v"
  unfolding scans_back_def
proof (intro allI impI)
  fix k r
  assume "2 * length (encode_canonical v) + 1 \<le> k" and r: "ends_value r"
  then obtain j where "k = Suc j" by (cases k) auto
  with assms [OF r, of j] show "scan_value u k (encode_canonical v @ r) = Inr (sorted_json v, r)" by simp
qed

lemma scans_back_object:
  assumes "distinct (map fst kvs)" and "\<forall>(k, v) \<in> set kvs. scans_back u v \<and> plain_json v"
  shows "scans_back u (JObj kvs)"
  unfolding scans_back_def encode_object
proof (intro allI impI)
  fix k r
  let ?s = "sort_key fst kvs"
  let ?js = "join '','' (map (\<lambda>(k, v). member_text (k, encode_canonical v)) ?s)"
  assume k: "2 * length (CHR 0x7B # ?js @ [CHR 0x7D]) + 1 \<le> k"
  then obtain k' where k': "k = Suc k'" by (cases k) auto
  have all: "\<forall>(k, v) \<in> set ?s. scans_back u v \<and> plain_json v" using assms(2) by simp
  have "distinct (map fst ?s)" using assms(1) by (simp add: distinct_map)
  then have d: "distinct (map fst (map (\<lambda>(k, v). (k, sorted_json v)) ?s))"
    by (simp add: case_prod_unfold comp_def)
  have f: "finish_object u (map (\<lambda>(k, v). (k, sorted_json v)) ?s) = Inr (sorted_json (JObj kvs))"
    using d dict_pairs_distinct [OF d] by (simp add: finish_object_def sort_key_map_snd)
  show "scan_value u k ((CHR 0x7B # ?js @ [CHR 0x7D]) @ r) = Inr (sorted_json (JObj kvs), r)"
  proof (cases ?s)
    case Nil
    with f k' show ?thesis by simp
  next
    case (Cons q qs)
    obtain key y where q: "q = (key, y)" by (cases q)
    obtain t where t: "?js @ CHR 0x7D # r = CHR 0x22 # t"
      using Cons q by (cases qs) (auto simp: member_text_def dump_str_def)
    have sk: "skip_space (?js @ CHR 0x7D # r) = ?js @ CHR 0x7D # r"
      and nb: "take 1 (?js @ CHR 0x7D # r) \<noteq> [CHR 0x7D]" unfolding t by simp_all
    have "scan_members u k' (?js @ CHR 0x7D # r) = Inr (map (\<lambda>(k, v). (k, sorted_json v)) ?s, r)"
      using k k' Cons by (intro scan_members_encoded [OF all]) simp_all
    then show ?thesis using sk nb k' f by simp
  qed
qed

lemma plain_scans_back: "plain_json v \<Longrightarrow> scans_back u v"
proof (induction v)
  case (JInt n)
  obtain c t where c: "str_int n = c # t" "is_digit c \<or> c = CHR ''-''" using str_int_first [of n] by blast
  then have n: "c \<notin> {CHR 0x22, CHR ''['', CHR 0x7B, CHR ''n'', CHR ''t'', CHR ''f''}" by (auto simp: is_digit_def)
  show ?case
  proof (rule scans_backI)
    fix k r
    assume "ends_value r"
    from n c(1) number_str_int [OF this, of n]
    show "scan_value u (Suc k) (encode_canonical (JInt n) @ r) = Inr (sorted_json (JInt n), r)" by simp
  qed
next
  case (JFloat x)
  then have "number (ecmascript_number x) = Some (JFloat x, [])" by simp
  from number_first [OF this] obtain c t where c: "ecmascript_number x = c # t" "is_digit c \<or> c = CHR ''-''" by blast
  then have n: "c \<notin> {CHR 0x22, CHR ''['', CHR 0x7B, CHR ''n'', CHR ''t'', CHR ''f''}" by (auto simp: is_digit_def)
  show ?case
  proof (rule scans_backI)
    fix k r
    assume "ends_value r"
    from n c(1) number_self [OF JFloat this]
    show "scan_value u (Suc k) (encode_canonical (JFloat x) @ r) = Inr (sorted_json (JFloat x), r)" by simp
  qed
next
  case (JList xs)
  then show ?case by (intro scans_back_list) auto
next
  case (JObj kvs)
  then show ?case by (intro scans_back_object) fastforce+
qed (auto simp: dump_str_def literal_def startswith_def intro!: scans_backI)

text \<open>Canonical text reads back as the document, with or without the hook.\<close>

lemma json_read_canonical:
  assumes "plain_json v"
  shows "json_read u (canonical_json_bytes v) = Inr (sorted_json v)"
proof -
  have "scan_value u (2 * length (encode_canonical v) + 1) (encode_canonical v @ []) = Inr (sorted_json v, [])"
    using plain_scans_back [OF assms, of u] unfolding scans_back_def by (metis order_refl ends_value_simps(1))
  moreover have "skip_space (encode_canonical v) = encode_canonical v"
    using skip_space_encoded [OF assms, of "[]"] by simp
  ultimately show ?thesis by (simp add: json_read_def canonical_json_bytes_def)
qed

lemma encode_sorted_json [simp]: "encode_canonical (sorted_json v) = encode_canonical v"
proof (induction v)
  case (JList xs)
  then show ?case by (simp add: comp_def cong: map_cong)
next
  case (JObj kvs)
  have s: "sort_key fst (sort_key fst kvs) = sort_key fst kvs"
    by (rule sort_key_id_if_sorted) (rule sorted_sort_key)
  have "map (\<lambda>(k, v). member_text (k, encode_canonical v)) (map (\<lambda>(k, v). (k, sorted_json v)) (sort_key fst kvs))
      = map (\<lambda>(k, v). member_text (k, encode_canonical v)) (sort_key fst kvs)"
    using JObj by (auto simp: case_prod_unfold)
  then show ?case unfolding sorted_json.simps encode_object sort_key_map_snd s by (simp del: map_eq_conv)
qed simp_all

subsection \<open>Documents with floats\<close>

text \<open>Where a text shows a float as an integer the reader returns that integer.\<close>

definition float_read :: "pyfloat \<Rightarrow> json" where
  "float_read x = (case number (ecmascript_number x) of Some (v, r) \<Rightarrow> v | None \<Rightarrow> JNull)"

lemma float_read_as:
  assumes "round64 x = x"
  shows "reads_as x (float_read x)" "plain_json (float_read x)"
    "encode_canonical (float_read x) = ecmascript_number x"
proof -
  obtain v where v: "reads_as x v" "number (ecmascript_number x @ []) = Some (v, [])"
    using number_ecmascript [OF assms] by (metis ends_value_simps(1))
  then have f: "float_read x = v" by (simp add: float_read_def)
  show "reads_as x (float_read x)" unfolding f by (rule v(1))
  show "plain_json (float_read x)" using v assms unfolding f by (auto simp: reads_as_def)
  show "encode_canonical (float_read x) = ecmascript_number x" using v(1) unfolding f by (auto simp: reads_as_def)
qed

fun as_read :: "json \<Rightarrow> json" where
  "as_read (JFloat x) = float_read x"
| "as_read (JList xs) = JList (map as_read xs)"
| "as_read (JObj kvs) = JObj (map (\<lambda>(k, v). (k, as_read v)) kvs)"
| "as_read v = v"

text \<open>A document \<open>_primitive\<close> can produce: floats are representable, objects are dicts.\<close>

fun finite_json :: "json \<Rightarrow> bool" where
  "finite_json (JFloat x) \<longleftrightarrow> round64 x = x"
| "finite_json (JList xs) \<longleftrightarrow> (\<forall>v \<in> set xs. finite_json v)"
| "finite_json (JObj kvs) \<longleftrightarrow> distinct (map fst kvs) \<and> (\<forall>(k, v) \<in> set kvs. finite_json v)"
| "finite_json v \<longleftrightarrow> True"

lemma plain_as_read: "finite_json v \<Longrightarrow> plain_json (as_read v)"
proof (induction v)
  case (JObj kvs)
  then show ?case by (fastforce simp: case_prod_unfold comp_def)
qed (auto simp: float_read_as)

lemma encode_as_read: "finite_json v \<Longrightarrow> encode_canonical (as_read v) = encode_canonical v"
proof (induction v)
  case (JList xs)
  then show ?case by (simp add: comp_def cong: map_cong)
next
  case (JObj kvs)
  then have "map (\<lambda>(k, v). (k, encode_canonical v)) (map (\<lambda>(k, v). (k, as_read v)) kvs)
      = map (\<lambda>(k, v). (k, encode_canonical v)) kvs" by fastforce
  then show ?case by (simp only: as_read.simps encode_canonical.simps)
qed (auto simp: float_read_as)

lemma json_read_finite:
  assumes "finite_json v"
  shows "json_read u (canonical_json_bytes v) = Inr (sorted_json (as_read v))"
  using json_read_canonical [OF plain_as_read [OF assms], of u] encode_as_read [OF assms]
  by (simp add: canonical_json_bytes_def)

end
