(* ===== verification/Job_Rows.thy ===== *)
theory Job_Rows
  imports Jobs Json_Canonical "HOL-Library.Product_Lexorder"
begin

section \<open>Job leases in PostgreSQL\<close>

text \<open>
  \<open>jobs/postgres_repository.py\<close> over the transition functions of
  \<open>migrations/0017_security_definer_hardening.sql\<close>. The table \<open>job\<close> is an association list
  keyed by \<open>job_id\<close>; timestamps are whole microseconds. Each method is one transaction: a raise
  inside \<open>with self._connect()\<close> rolls it back. The readings of the clocks are arguments:
  \<open>now\<close> is \<open>clock_timestamp()\<close>, read once per statement, or \<open>datetime.now(UTC)\<close>. \<open>busy\<close> lists
  the rows other transactions have locked, which a claim skips. Identifiers are ordered by
  their bytes (the \<open>C\<close> collation).
\<close>

subsection \<open>Values at the border\<close>

fun job_type_value :: "job_type \<Rightarrow> string" where
  "job_type_value RECORDING_ANALYSIS = ''recording_analysis''"
| "job_type_value WATERFALL_ANALYSIS = ''waterfall_analysis''"
| "job_type_value STARLINK_ANALYSIS = ''starlink_analysis''"
| "job_type_value STARLINK_SUITE_ANALYSIS = ''starlink_suite_analysis''"
| "job_type_value MODEL_ANALYSIS = ''model_analysis''"
| "job_type_value EPHEMERIS_RETRIEVAL = ''ephemeris_retrieval''"
| "job_type_value EPHEMERIS_LINK_BACKFILL = ''ephemeris_link_backfill''"

fun job_state_value :: "job_state \<Rightarrow> string" where
  "job_state_value READY = ''ready''"
| "job_state_value LEASED = ''leased''"
| "job_state_value SUCCEEDED = ''succeeded''"
| "job_state_value FAILED = ''failed''"
| "job_state_value PARKED = ''parked''"

text \<open>\<open>JobType(text)\<close> and \<open>JobState(text)\<close>.\<close>

definition read_job_type :: "string \<Rightarrow> (job_error, job_type) result" where
  "read_job_type s =
     (case find (\<lambda>t. job_type_value t = s)
        [RECORDING_ANALYSIS, WATERFALL_ANALYSIS, STARLINK_ANALYSIS, STARLINK_SUITE_ANALYSIS,
         MODEL_ANALYSIS, EPHEMERIS_RETRIEVAL, EPHEMERIS_LINK_BACKFILL] of
        None \<Rightarrow> Inl (ValueError Row_Unknown_Member) | Some t \<Rightarrow> Inr t)"

definition read_job_state :: "string \<Rightarrow> (job_error, job_state) result" where
  "read_job_state s =
     (case find (\<lambda>t. job_state_value t = s) [READY, LEASED, SUCCEEDED, FAILED, PARKED] of
        None \<Rightarrow> Inl (ValueError Row_Unknown_Member) | Some t \<Rightarrow> Inr t)"

text \<open>
  A frozen payload value is a tuple, text, number, boolean or \<open>None\<close>. A tuple is a \<open>JList\<close>
  here and the pair \<open>(key, item)\<close> the list of the text and the item; mappings are frozen to
  tuples of pairs, so no \<open>JObj\<close> occurs in a frozen value.
\<close>

fun is_pair :: "json \<Rightarrow> bool" where
  "is_pair (JList [JStr k, v]) = True"
| "is_pair _ = False"

fun pair_of :: "json \<Rightarrow> string \<times> json" where
  "pair_of (JList [JStr k, v]) = (k, v)"
| "pair_of v = ([], v)"

text \<open>\<open>_json_value\<close>: a pair keeps its shape, so its item is converted before it is taken out.\<close>

fun json_value :: "json \<Rightarrow> json" where
  "json_value (JList xs) =
     (let ys = map json_value xs in
      if list_all is_pair xs then JObj (dict_pairs (map pair_of ys)) else JList ys)"
| "json_value v = v"

fun freeze_value :: "json \<Rightarrow> json" where
  "freeze_value (JObj kvs) =
     JList (map (\<lambda>(k, v). JList [JStr k, v])
       (sort_key fst (map (\<lambda>(k, v). (k, freeze_value v)) kvs)))"
| "freeze_value (JList xs) = JList (map freeze_value xs)"
| "freeze_value v = v"

definition freeze_object :: "json \<Rightarrow> (job_error, (string \<times> json) list) result" where
  "freeze_object v =
     (case v of
        JObj kvs \<Rightarrow> Inr (sort_key fst (map (\<lambda>(k, v). (k, freeze_value v)) kvs))
      | _ \<Rightarrow> Inl (RuntimeError Row_Incomplete))"

definition payload_json :: "job_payload \<Rightarrow> json" where
  "payload_json p = JObj (dict_pairs (map (\<lambda>(k, v). (k, json_value v)) (pl_value p)))"

definition artifact_value :: "artifact_ref \<Rightarrow> json" where
  "artifact_value ref =
     JObj ([(''artifact_id'', JStr (artifact_id ref)),
            (''digest_algorithm'', JStr (str_algorithm (algorithm (ar_digest ref)))),
            (''digest_value'', JStr (dvalue (ar_digest ref)))]
       @ (case ar_schema ref of
            None \<Rightarrow> []
          | Some s \<Rightarrow> [(''schema_id'', JStr (schema_id s)),
                       (''schema_version'', JStr (str_schema_version (version s)))]))"

text \<open>\<open>value.get(name)\<close>\<close>

definition get_value :: "string \<Rightarrow> (string \<times> json) list \<Rightarrow> json" where
  "get_value k kvs = (case map_of kvs k of None \<Rightarrow> JNull | Some v \<Rightarrow> v)"

definition artifact_from_value :: "json \<Rightarrow> (job_error, artifact_ref) result" where
  "artifact_from_value v =
     (case v of
        JObj kvs \<Rightarrow>
          (case (map_of kvs ''artifact_id'', map_of kvs ''digest_algorithm'', map_of kvs ''digest_value'') of
             (Some (JStr a), Some (JStr alg), Some (JStr d)) \<Rightarrow>
               bindE (case (get_value ''schema_id'' kvs,
                            get_value ''schema_version'' kvs) of
                        (JNull, JNull) \<Rightarrow> Inr None
                      | (JStr i, JStr w) \<Rightarrow>
                          embed_exn Row_Unreadable
                            (bindE (parse_schema_version w) (\<lambda>w.
                             bindE (checked schema_ref_post_init \<lparr>schema_id = i, version = w\<rparr>)
                               (\<lambda>s. Inr (Some s))))
                      | _ \<Rightarrow> Inl (RuntimeError Row_Incomplete)) (\<lambda>schema.
               bindE (if alg = ''sha256'' then Inr SHA256 else Inl (ValueError Row_Unknown_Member)) (\<lambda>alg.
               embed_exn Row_Unreadable
                 (bindE (checked digest_post_init \<lparr>algorithm = alg, dvalue = d\<rparr>) (\<lambda>d.
                    checked artifact_ref_post_init
                      \<lparr>artifact_id = a, ar_digest = d, ar_schema = schema\<rparr>))))
           | _ \<Rightarrow> Inl (RuntimeError Row_Incomplete))
      | _ \<Rightarrow> Inl (RuntimeError Row_Incomplete))"

subsection \<open>Time\<close>

text \<open>\<open>datetime\<close> ends with the year 9999.\<close>

definition ns_to_datetime :: "int \<Rightarrow> (job_error, int) result" where
  "ns_to_datetime value =
     (let seconds = value div 1000000000; nanoseconds = value mod 1000000000 in
      if seconds < - 62135596800 \<or> 253402300799 < seconds then Inl (ValueError Clock_Out_Of_Range)
      else Inr (seconds * 1000000 + nanoseconds div 1000))"

text \<open>\<open>int\<close> of a float cuts its fraction off.\<close>

definition py_trunc :: "pyfloat \<Rightarrow> int" where
  "py_trunc x = (if 0 \<le> x then \<lfloor>x\<rfloor> else \<lceil>x\<rceil>)"

definition datetime_to_ns :: "int \<Rightarrow> int" where
  "datetime_to_ns us =
     py_trunc (fdiv (of_int us) 1000000) * 1000000000 + us mod 1000000 * 1000"

text \<open>\<open>timedelta(seconds=ttl_s)\<close>: the fraction of the seconds is rounded to microseconds.\<close>

definition timedelta_us :: "pyfloat \<Rightarrow> int" where
  "timedelta_us s = \<lfloor>s\<rfloor> * 1000000 + round_half_even (fmul (s - of_int \<lfloor>s\<rfloor>) 1000000)"

definition pg_ttl :: "pyfloat \<Rightarrow> (job_error, int) result" where
  "pg_ttl ttl_s =
     (if ttl_s \<le> 0 then Inl (ValueError Bad_Ttl)
      else if timedelta_us ttl_s \<le> 0 then Inl (ValueError Ttl_Below_Resolution)
      else Inr (timedelta_us ttl_s))"

subsection \<open>The table and its transition functions\<close>

record pg_job =
  pj_id :: string
  pj_type :: string
  pj_schema_id :: string
  pj_schema_version :: string
  pj_payload :: json
  pj_state :: string
  pj_available :: int
  pj_attempt :: int
  pj_token :: "string option"
  pj_generation :: int
  pj_expires :: "int option"
  pj_result :: "json option"
  pj_last_error :: "string option"
  pj_park_reason :: "string option"
  pj_parked_at :: "int option"

type_synonym job_table = "(string \<times> pg_job) list"
type_synonym 'a pg_io = "(job_table, job_error exn, 'a) io"

text \<open>\<open>enqueue_job\<close>: \<open>INSERT ... ON CONFLICT (job_id) DO NOTHING\<close>, whether it inserted.\<close>

definition sql_enqueue_job ::
  "string \<Rightarrow> string \<Rightarrow> string \<Rightarrow> string \<Rightarrow> json \<Rightarrow> int \<Rightarrow> job_table \<Rightarrow> bool \<times> job_table" where
  "sql_enqueue_job job_id t sid sver payload available tbl =
     (case map_of tbl job_id of
        Some _ \<Rightarrow> (False, tbl)
      | None \<Rightarrow>
          (True, AList.update job_id
             \<lparr>pj_id = job_id, pj_type = t, pj_schema_id = sid, pj_schema_version = sver,
              pj_payload = payload, pj_state = ''ready'', pj_available = available, pj_attempt = 0,
              pj_token = None, pj_generation = 0, pj_expires = None, pj_result = None,
              pj_last_error = None, pj_park_reason = None, pj_parked_at = None\<rparr> tbl))"

definition sql_claimable :: "string list \<Rightarrow> int \<Rightarrow> pg_job \<Rightarrow> bool" where
  "sql_claimable types now r \<longleftrightarrow>
     pj_type r \<in> set types \<and> pj_available r \<le> now
     \<and> (pj_state r \<in> {''ready'', ''failed''}
        \<or> pj_state r = ''leased'' \<and> (case pj_expires r of None \<Rightarrow> False | Some e \<Rightarrow> e \<le> now))"

text \<open>\<open>claim_job\<close>: the first row by availability and identifier that nobody has locked.\<close>

definition sql_claim_job ::
  "string list \<Rightarrow> string \<Rightarrow> int \<Rightarrow> int \<Rightarrow> string list \<Rightarrow> job_table \<Rightarrow>
     (job_error, pg_job option \<times> job_table) result" where
  "sql_claim_job types token ttl now busy tbl =
     (if types = [] \<or> token = [] \<or> ttl \<le> 0 then Inl (RuntimeError Claim_Rejected)
      else
        case min_by (\<lambda>r. (pj_available r, pj_id r))
            (filter (\<lambda>r. sql_claimable types now r \<and> pj_id r \<notin> set busy) (map snd tbl)) of
          None \<Rightarrow> Inr (None, tbl)
        | Some r \<Rightarrow>
            let r' = r\<lparr>pj_state := ''leased'', pj_attempt := pj_attempt r + 1,
                       pj_generation := pj_generation r + 1, pj_token := Some token,
                       pj_expires := Some (now + ttl)\<rparr>
            in Inr (Some r', AList.update (pj_id r) r' tbl))"

text \<open>The condition every fenced \<open>UPDATE\<close> shares, and \<open>UPDATE ... RETURNING *\<close>.\<close>

definition sql_active :: "string \<Rightarrow> int \<Rightarrow> int \<Rightarrow> pg_job \<Rightarrow> bool" where
  "sql_active token generation now r \<longleftrightarrow>
     pj_state r = ''leased'' \<and> pj_token r = Some token \<and> pj_generation r = generation
     \<and> (case pj_expires r of None \<Rightarrow> False | Some e \<Rightarrow> e > now)"

definition sql_update ::
  "string \<Rightarrow> (pg_job \<Rightarrow> bool) \<Rightarrow> (pg_job \<Rightarrow> pg_job) \<Rightarrow> job_table \<Rightarrow> pg_job option \<times> job_table" where
  "sql_update job_id cond upd tbl =
     (case map_of tbl job_id of
        None \<Rightarrow> (None, tbl)
      | Some r \<Rightarrow> if cond r then (Some (upd r), AList.update job_id (upd r) tbl) else (None, tbl))"

definition sql_heartbeat_job ::
  "string \<Rightarrow> string \<Rightarrow> int \<Rightarrow> int \<Rightarrow> int \<Rightarrow> job_table \<Rightarrow> pg_job option \<times> job_table" where
  "sql_heartbeat_job job_id token generation ttl now =
     sql_update job_id (\<lambda>r. sql_active token generation now r \<and> ttl > 0)
       (\<lambda>r. r\<lparr>pj_expires := Some (now + ttl)\<rparr>)"

definition sql_complete_job ::
  "string \<Rightarrow> string \<Rightarrow> int \<Rightarrow> json \<Rightarrow> int \<Rightarrow> job_table \<Rightarrow> pg_job option \<times> job_table" where
  "sql_complete_job job_id token generation result_ref now =
     sql_update job_id (sql_active token generation now)
       (\<lambda>r. r\<lparr>pj_state := ''succeeded'', pj_result := Some result_ref, pj_token := None, pj_expires := None\<rparr>)"

definition sql_fail_job ::
  "string \<Rightarrow> string \<Rightarrow> int \<Rightarrow> string \<Rightarrow> int \<Rightarrow> int \<Rightarrow> job_table \<Rightarrow> pg_job option \<times> job_table" where
  "sql_fail_job job_id token generation reason retry_at now =
     sql_update job_id (\<lambda>r. sql_active token generation now r \<and> reason \<noteq> [])
       (\<lambda>r. r\<lparr>pj_state := ''failed'', pj_last_error := Some reason, pj_available := retry_at,
              pj_token := None, pj_expires := None\<rparr>)"

definition sql_park_job ::
  "string \<Rightarrow> string \<Rightarrow> int \<Rightarrow> string \<Rightarrow> int \<Rightarrow> job_table \<Rightarrow> pg_job option \<times> job_table" where
  "sql_park_job job_id token generation reason now =
     sql_update job_id (\<lambda>r. sql_active token generation now r \<and> reason_code reason)
       (\<lambda>r. r\<lparr>pj_state := ''parked'', pj_park_reason := Some reason, pj_parked_at := Some now,
              pj_token := None, pj_expires := None, pj_result := None, pj_last_error := None\<rparr>)"

subsection \<open>The repository\<close>

definition lease_from_row :: "pg_job \<Rightarrow> (job_error, job_lease) result" where
  "lease_from_row r =
     (case pj_expires r of
        None \<Rightarrow> Inl (RuntimeError Row_Incomplete)
      | Some expires \<Rightarrow>
          bindE (embed_exn Row_Unreadable (contract_id JobId (pj_id r))) (\<lambda>i.
          bindE (read_job_type (pj_type r)) (\<lambda>t.
          bindE (embed_exn Row_Unreadable
            (bindE (parse_schema_version (pj_schema_version r)) (\<lambda>v.
               checked schema_ref_post_init \<lparr>schema_id = pj_schema_id r, version = v\<rparr>))) (\<lambda>schema.
          bindE (freeze_object (pj_payload r)) (\<lambda>value.
          bindE (checked job_payload_post_init \<lparr>pl_schema = schema, pl_value = value\<rparr>) (\<lambda>payload.
            checked job_lease_post_init
              \<lparr>jl_job_id = i, jl_type = t, jl_payload = payload, jl_attempt = pj_attempt r,
               jl_token = (case pj_token r of None \<Rightarrow> ''None'' | Some tok \<Rightarrow> tok),
               jl_generation = pj_generation r, jl_expires = datetime_to_ns expires\<rparr>))))))"

definition same_job :: "pg_job \<Rightarrow> job_type \<Rightarrow> job_payload \<Rightarrow> bool" where
  "same_job r t payload \<longleftrightarrow>
     pj_type r = job_type_value t
     \<and> pj_schema_id r = schema_id (pl_schema payload)
     \<and> pj_schema_version r = str_schema_version (version (pl_schema payload))
     \<and> python_equal (pj_payload r) (payload_json payload)"

definition snapshot_from_row :: "pg_job \<Rightarrow> (job_error, job_snapshot) result" where
  "snapshot_from_row r =
     bindE (embed_exn Row_Unreadable (contract_id JobId (pj_id r))) (\<lambda>i.
     bindE (read_job_state (pj_state r)) (\<lambda>st.
     bindE (case pj_result r of
              None \<Rightarrow> Inr None
            | Some v \<Rightarrow> bindE (artifact_from_value v) (\<lambda>a. Inr (Some a))) (\<lambda>result.
       Inr \<lparr>js_job_id = i, js_state = st, js_attempt = pj_attempt r, js_generation = pj_generation r,
            js_result = result, js_last_error = pj_last_error r, js_park_reason = pj_park_reason r,
            js_parked_at = map_option datetime_to_ns (pj_parked_at r)\<rparr>)))"

definition pg_enqueue ::
  "string \<Rightarrow> job_type \<Rightarrow> job_payload \<Rightarrow> int option \<Rightarrow> int \<Rightarrow> unit pg_io" where
  "pg_enqueue job_id t payload available_at now tbl =
     (case (case available_at of None \<Rightarrow> Inr (now div 1000) | Some a \<Rightarrow> ns_to_datetime a) of
        Inl e \<Rightarrow> (Inl e, tbl)
      | Inr available \<Rightarrow>
          let (inserted, tbl') = sql_enqueue_job job_id (job_type_value t) (schema_id (pl_schema payload))
                (str_schema_version (version (pl_schema payload))) (payload_json payload) available tbl
          in if inserted then (Inr (), tbl')
             else
               (case map_of tbl' job_id of
                  None \<Rightarrow> (Inl (RuntimeError Job_Conflict), tbl)
                | Some r \<Rightarrow>
                    if \<not> same_job r t payload then (Inl (RuntimeError Job_Conflict), tbl)
                    else (Inr (), tbl')))"

definition pg_claim ::
  "string list \<Rightarrow> job_type list \<Rightarrow> pyfloat \<Rightarrow> int \<Rightarrow> string \<Rightarrow> job_lease option pg_io" where
  "pg_claim busy types ttl_s now token tbl =
     (if types = [] then (Inr None, tbl)
      else
        case bindE (pg_ttl ttl_s) (\<lambda>ttl.
            sql_claim_job (map job_type_value types) token ttl (now div 1000) busy tbl) of
          Inl e \<Rightarrow> (Inl e, tbl)
        | Inr (None, tbl') \<Rightarrow> (Inr None, tbl')
        | Inr (Some r, tbl') \<Rightarrow>
            (case lease_from_row r of Inl e \<Rightarrow> (Inl e, tbl) | Inr l \<Rightarrow> (Inr (Some l), tbl')))"

definition pg_heartbeat ::
  "string \<Rightarrow> string \<Rightarrow> int \<Rightarrow> pyfloat \<Rightarrow> int \<Rightarrow> job_lease pg_io" where
  "pg_heartbeat job_id token generation ttl_s now tbl =
     (case pg_ttl ttl_s of
        Inl e \<Rightarrow> (Inl e, tbl)
      | Inr ttl \<Rightarrow>
          (case sql_heartbeat_job job_id token generation ttl (now div 1000) tbl of
             (None, _) \<Rightarrow> (Inl (RuntimeError Stale_Lease), tbl)
           | (Some r, tbl') \<Rightarrow>
               (case lease_from_row r of Inl e \<Rightarrow> (Inl e, tbl) | Inr l \<Rightarrow> (Inr l, tbl'))))"

definition fenced_update :: "(job_table \<Rightarrow> pg_job option \<times> job_table) \<Rightarrow> unit pg_io" where
  "fenced_update sql tbl =
     (case sql tbl of
        (None, _) \<Rightarrow> (Inl (RuntimeError Stale_Lease), tbl)
      | (Some _, tbl') \<Rightarrow> (Inr (), tbl'))"

definition pg_complete :: "string \<Rightarrow> string \<Rightarrow> int \<Rightarrow> artifact_ref \<Rightarrow> int \<Rightarrow> unit pg_io" where
  "pg_complete job_id token generation result_ref now =
     fenced_update (sql_complete_job job_id token generation (artifact_value result_ref) (now div 1000))"

text \<open>\<open>now'\<close> is the client's clock, read before the statement runs.\<close>

definition pg_fail ::
  "string \<Rightarrow> string \<Rightarrow> int \<Rightarrow> string \<Rightarrow> int option \<Rightarrow> int \<Rightarrow> int \<Rightarrow> unit pg_io" where
  "pg_fail job_id token generation reason retry_at now now' tbl =
     (if reason = [] then (Inl (ValueError Empty_Reason), tbl)
      else
        case (case retry_at of None \<Rightarrow> Inr (now' div 1000) | Some a \<Rightarrow> ns_to_datetime a) of
          Inl e \<Rightarrow> (Inl e, tbl)
        | Inr retry \<Rightarrow> fenced_update (sql_fail_job job_id token generation reason retry (now div 1000)) tbl)"

definition pg_park :: "string \<Rightarrow> string \<Rightarrow> int \<Rightarrow> string \<Rightarrow> int \<Rightarrow> unit pg_io" where
  "pg_park job_id token generation reason now tbl =
     (case validate_park_reason reason of
        Inl e \<Rightarrow> (Inl e, tbl)
      | Inr _ \<Rightarrow> fenced_update (sql_park_job job_id token generation reason (now div 1000)) tbl)"

definition pg_snapshot :: "string \<Rightarrow> job_table \<Rightarrow> (job_error, job_snapshot) result" where
  "pg_snapshot job_id tbl =
     (case map_of tbl job_id of
        None \<Rightarrow> Inl (KeyError Unknown_Job)
      | Some r \<Rightarrow> snapshot_from_row r)"

subsection \<open>Rows and records\<close>

text \<open>The row of a record whose times are whole microseconds, and the table of a repository.\<close>

definition job_row :: "job_record \<Rightarrow> pg_job" where
  "job_row r =
     \<lparr>pj_id = jr_id r, pj_type = job_type_value (jr_type r),
      pj_schema_id = schema_id (pl_schema (jr_payload r)),
      pj_schema_version = str_schema_version (version (pl_schema (jr_payload r))),
      pj_payload = payload_json (jr_payload r), pj_state = job_state_value (jr_state r),
      pj_available = jr_available r div 1000, pj_attempt = jr_attempt r, pj_token = jr_token r,
      pj_generation = jr_generation r, pj_expires = map_option (\<lambda>e. e div 1000) (jr_expires r),
      pj_result = map_option artifact_value (jr_result r), pj_last_error = jr_last_error r,
      pj_park_reason = jr_park_reason r, pj_parked_at = map_option (\<lambda>e. e div 1000) (jr_parked_at r)\<rparr>"

definition job_rows :: "job_repo \<Rightarrow> job_table" where
  "job_rows s = map (\<lambda>(k, r). (k, job_row r)) s"

definition whole_us :: "int \<Rightarrow> bool" where
  "whole_us t \<longleftrightarrow> 1000 dvd t"

definition whole_record :: "job_record \<Rightarrow> bool" where
  "whole_record r \<longleftrightarrow> whole_us (jr_available r) \<and> (\<forall>e. jr_expires r = Some e \<longrightarrow> whole_us e)"

definition whole_repo :: "job_repo \<Rightarrow> bool" where
  "whole_repo s \<longleftrightarrow> repo_wf s \<and> (\<forall>k r. map_of s k = Some r \<longrightarrow> whole_record r)"

lemma whole_us_le: "whole_us t \<Longrightarrow> t div 1000 \<le> now div 1000 \<longleftrightarrow> t \<le> now"
  by (auto simp: whole_us_def elim!: dvdE)

lemma whole_us_order: "whole_us t \<Longrightarrow> whole_us u \<Longrightarrow> t div 1000 \<le> u div 1000 \<longleftrightarrow> t \<le> u"
  by (rule whole_us_le)

lemma whole_us_div: "whole_us t \<Longrightarrow> 1000 * (t div 1000) = t"
  by (simp add: whole_us_def)

lemma whole_us_mult [simp]: "whole_us (1000 * n)"
  by (simp add: whole_us_def)

lemma job_state_value_eq [simp]: "job_state_value a = job_state_value b \<longleftrightarrow> a = b"
  by (cases a; cases b) auto

lemma job_type_value_eq [simp]: "job_type_value a = job_type_value b \<longleftrightarrow> a = b"
  by (cases a; cases b) auto

lemma read_job_type_back [simp]: "read_job_type (job_type_value t) = Inr t"
  by (cases t) (simp_all add: read_job_type_def)

lemma read_job_state_back [simp]: "read_job_state (job_state_value t) = Inr t"
  by (cases t) (simp_all add: read_job_state_def)

lemma read_job_type_Inr: "read_job_type s = Inr t \<Longrightarrow> s = job_type_value t"
  by (auto simp: read_job_type_def split: option.splits if_splits)

lemma map_of_job_rows [simp]: "map_of (job_rows s) k = map_option job_row (map_of s k)"
  by (simp add: job_rows_def map_of_map)

lemma keys_job_rows [simp]: "map fst (job_rows s) = map fst s"
  by (simp add: job_rows_def case_prod_unfold)

lemma job_rows_update: "AList.update k (job_row r) (job_rows s) = job_rows (AList.update k r s)"
  by (induction s) (auto simp: job_rows_def)

lemma whole_repoD: "whole_repo s \<Longrightarrow> map_of s k = Some r \<Longrightarrow> whole_record r \<and> jr_id r = k \<and> job_wf r"
  using repo_wfD by (auto simp: whole_repo_def)

lemma whole_repo_update:
  assumes "whole_repo s" and "whole_record r" and "job_wf r" and "jr_id r = k"
  shows "whole_repo (AList.update k r s)"
  using assms repo_wf_update by (auto simp: whole_repo_def update_conv')

lemma sql_active_job_row:
  assumes "whole_record r"
  shows "sql_active tok g (now div 1000) (job_row r)
    \<longleftrightarrow> jr_state r = LEASED \<and> jr_token r = Some tok \<and> jr_generation r = g
      \<and> (\<exists>e. jr_expires r = Some e \<and> now < e)"
proof -
  have "job_state_value (jr_state r) = ''leased'' \<longleftrightarrow> jr_state r = LEASED" by (cases "jr_state r") auto
  moreover have "now div 1000 < e div 1000 \<longleftrightarrow> now < e" if "jr_expires r = Some e" for e
    using whole_us_le [of e now] assms that by (simp add: whole_record_def flip: not_le)
  ultimately show ?thesis
    by (auto simp: sql_active_def job_row_def split: option.splits)
qed

lemma sql_claimable_job_row:
  assumes "whole_record r" and "job_wf r"
  shows "sql_claimable (map job_type_value types) (now div 1000) (job_row r) \<longleftrightarrow> claimable types now r"
proof -
  have st: "job_state_value (jr_state r) \<in> {''ready'', ''failed''} \<longleftrightarrow> jr_state r \<in> {READY, FAILED}"
      "job_state_value (jr_state r) = ''leased'' \<longleftrightarrow> jr_state r = LEASED"
    by (cases "jr_state r"; simp)+
  have le: "jr_available r div 1000 \<le> now div 1000 \<longleftrightarrow> jr_available r \<le> now"
      "\<And>e. jr_expires r = Some e \<Longrightarrow> e div 1000 \<le> now div 1000 \<longleftrightarrow> e \<le> now"
    using assms(1) whole_us_le by (auto simp: whole_record_def)
  have "job_type_value (jr_type r) \<in> job_type_value ` set types \<longleftrightarrow> jr_type r \<in> set types" by auto
  with st le show ?thesis
    by (auto simp: sql_claimable_def claimable_def job_row_def split: option.splits)
qed

subsection \<open>Payloads that are the same\<close>

text \<open>
  Writing a payload as JSON respects Python's equality; on payloads whose lists of pairs are in dict
  order (as \<open>freeze_mapping\<close> builds them) it also keeps different payloads apart.
\<close>

lemma map_via:
  "map f xs = map f ys \<Longrightarrow> (\<And>x y. x \<in> set xs \<Longrightarrow> y \<in> set ys \<Longrightarrow> f x = f y \<Longrightarrow> g x = g y) \<Longrightarrow> map g xs = map g ys"
proof (induction xs arbitrary: ys)
  case (Cons x xs)
  then show ?case by (cases ys) auto
qed simp

lemma is_pair_iff: "is_pair v \<longleftrightarrow> (\<exists>k w. v = JList [JStr k, w])"
  by (cases v rule: is_pair.cases) auto

lemma equality_key_list: "equality_key v = JList xs \<longleftrightarrow> (\<exists>ys. v = JList ys \<and> xs = map equality_key ys)"
  by (cases v) auto

lemma equality_key_str: "equality_key v = JStr k \<longleftrightarrow> v = JStr k"
  by (cases v) auto

lemma is_pair_key: "is_pair (equality_key v) \<longleftrightarrow> is_pair v"
  by (auto simp: is_pair_iff equality_key_list equality_key_str map_eq_Cons_conv)
    (metis equality_key_str)

lemma is_pair_cong: "equality_key v = equality_key w \<Longrightarrow> is_pair v \<longleftrightarrow> is_pair w"
  by (metis is_pair_key)

lemma json_value_pair: "json_value (JList [JStr k, v]) = JList [JStr k, json_value v]"
  by simp

lemma dict_put_map: "dict_put k (f v) (map (\<lambda>(k, v). (k, f v)) kvs) = map (\<lambda>(k, v). (k, f v)) (dict_put k v kvs)"
  by (induction k v kvs rule: dict_put.induct) auto

lemma dict_pairs_map: "dict_pairs (map (\<lambda>(k, v). (k, f v)) kvs) = map (\<lambda>(k, v). (k, f v)) (dict_pairs kvs)"
proof (induction kvs rule: rev_induct)
  case (snoc p kvs)
  then show ?case by (cases p) (simp add: dict_pairs_def dict_put_map)
qed (simp add: dict_pairs_def)

text \<open>The keyed pairs of a list of pairs after conversion.\<close>

definition keyed :: "json list \<Rightarrow> (string \<times> json) list" where
  "keyed xs = map (\<lambda>(k, v). (k, equality_key v)) (map pair_of (map json_value xs))"

lemma key_of_pairs:
  "list_all is_pair xs \<Longrightarrow> equality_key (json_value (JList xs)) = JObj (sort_key fst (dict_pairs (keyed xs)))"
  unfolding keyed_def dict_pairs_map by simp

lemma key_of_list:
  "\<not> list_all is_pair xs \<Longrightarrow> equality_key (json_value (JList xs)) = JList (map (\<lambda>x. equality_key (json_value x)) xs)"
  by (simp add: comp_def)

lemma keyed_pair:
  assumes "is_pair x" and "is_pair y"
  shows "equality_key (json_value x) = equality_key (json_value y) \<longleftrightarrow>
    (\<lambda>(k, v). (k, equality_key v)) (pair_of (json_value x)) = (\<lambda>(k, v). (k, equality_key v)) (pair_of (json_value y))"
  using assms by (auto simp: is_pair_iff simp del: json_value.simps(1) simp add: json_value_pair)

lemma json_value_scalar: "(\<And>xs. v \<noteq> JList xs) \<Longrightarrow> json_value v = v"
  by (cases v) auto

lemma json_value_cong:
  "equality_key v = equality_key w \<Longrightarrow> equality_key (json_value v) = equality_key (json_value w)"
proof (induction v arbitrary: w rule: json_value.induct)
  case (1 xs)
  from "1.prems" have "equality_key w = JList (map equality_key xs)" by simp
  then obtain ys where w: "w = JList ys" and m: "map equality_key xs = map equality_key ys"
    unfolding equality_key_list by auto
  have jv: "map (\<lambda>x. equality_key (json_value x)) xs = map (\<lambda>x. equality_key (json_value x)) ys"
    using m by (rule map_via) (rule "1.IH")
  have "map is_pair xs = map is_pair ys" using m by (rule map_via) (rule is_pair_cong)
  then have all: "list_all is_pair xs \<longleftrightarrow> list_all is_pair ys"
    by (metis list_all_length length_map nth_map)
  show ?case
  proof (cases "list_all is_pair xs")
    case True
    then have "x \<in> set xs \<Longrightarrow> is_pair x" "y \<in> set ys \<Longrightarrow> is_pair y" for x y
      using all by (auto simp: list_all_iff)
    then have "keyed xs = keyed ys"
      unfolding keyed_def map_map comp_def using jv by (intro map_via [OF jv]) (simp only: keyed_pair [symmetric])
    with True all show ?thesis unfolding w by (simp only: key_of_pairs)
  next
    case False
    then have "\<not> list_all is_pair ys" using all by simp
    with False jv show ?thesis unfolding w by (simp only: key_of_list not_False_eq_True)
  qed
next
  case "2_1" then show ?case by (cases w) auto
next
  case "2_2" then show ?case by (cases w) auto
next
  case "2_3" then show ?case by (cases w) auto
next
  case "2_4" then show ?case by (cases w) auto
next
  case "2_5" then show ?case by (cases w) auto
next
  case "2_6" then show ?case by (cases w) auto
qed

fun dict_ordered :: "json \<Rightarrow> bool" where
  "dict_ordered (JList xs) \<longleftrightarrow> (\<forall>x \<in> set xs. dict_ordered x)
     \<and> (list_all is_pair xs \<longrightarrow> sorted_wrt (<) (map (\<lambda>x. fst (pair_of x)) xs))"
| "dict_ordered (JObj kvs) \<longleftrightarrow> False"
| "dict_ordered _ \<longleftrightarrow> True"

lemma keyed_keys: "list_all is_pair xs \<Longrightarrow> map fst (keyed xs) = map (\<lambda>x. fst (pair_of x)) xs"
  by (auto simp: keyed_def list_all_iff is_pair_iff simp del: json_value.simps(1) simp add: json_value_pair)

lemma keyed_ordered:
  assumes "dict_ordered (JList xs)" and "list_all is_pair xs"
  shows "sort_key fst (dict_pairs (keyed xs)) = keyed xs"
proof -
  have "sorted_wrt (<) (map fst (keyed xs))" using assms by (simp add: keyed_keys)
  then have "distinct (map fst (keyed xs))" "sorted (map fst (keyed xs))"
    using strict_sorted_iff by blast+
  then show ?thesis by (simp add: dict_pairs_distinct sort_key_id_if_sorted)
qed

lemma json_value_inj:
  "dict_ordered v \<Longrightarrow> dict_ordered w \<Longrightarrow> equality_key (json_value v) = equality_key (json_value w) \<Longrightarrow>
    equality_key v = equality_key w"
proof (induction v arbitrary: w rule: json_value.induct)
  case (1 xs)
  obtain ys where w: "w = JList ys"
    using "1.prems"(2,3) by (cases w) (simp_all add: Let_def split: if_splits)
  have IH: "equality_key x = equality_key y"
    if "x \<in> set xs" "y \<in> set ys" "equality_key (json_value x) = equality_key (json_value y)" for x y
  proof (rule "1.IH" [OF that(1) _ _ that(3)])
    show "dict_ordered x" using "1.prems"(1) that(1) by simp
    show "dict_ordered y" using "1.prems"(2) that(2) w by simp
  qed
  have all: "list_all is_pair xs \<longleftrightarrow> list_all is_pair ys"
    using "1.prems"(3) unfolding w by (cases "list_all is_pair xs"; cases "list_all is_pair ys") (simp_all add: Let_def)
  have "map (\<lambda>x. equality_key (json_value x)) xs = map (\<lambda>x. equality_key (json_value x)) ys"
  proof (cases "list_all is_pair xs")
    case True
    then have pairs: "x \<in> set xs \<Longrightarrow> is_pair x" "y \<in> set ys \<Longrightarrow> is_pair y" for x y
      using all by (auto simp: list_all_iff)
    have "keyed xs = keyed ys"
      using "1.prems" True all unfolding w by (simp only: key_of_pairs keyed_ordered json.inject)
    then show ?thesis
      unfolding keyed_def map_map comp_def by (rule map_via) (simp only: keyed_pair pairs)
  next
    case False
    then have "\<not> list_all is_pair ys" using all by simp
    with False "1.prems"(3) show ?thesis unfolding w by (simp only: key_of_list not_False_eq_True json.inject)
  qed
  then have "map equality_key xs = map equality_key ys" by (rule map_via) (rule IH)
  then show ?case by (simp add: w)
next
  case "2_1" then show ?case by (cases w) (auto simp: Let_def split: if_splits)
next
  case "2_2" then show ?case by (cases w) (auto simp: Let_def split: if_splits)
next
  case "2_3" then show ?case by (cases w) (auto simp: Let_def split: if_splits)
next
  case "2_4" then show ?case by (cases w) (auto simp: Let_def split: if_splits)
next
  case "2_5" then show ?case by (cases w) (auto simp: Let_def split: if_splits)
next
  case "2_6" then show ?case by simp
qed

text \<open>A payload whose text and tuples the readers give back.\<close>

definition plain_payload :: "job_payload \<Rightarrow> bool" where
  "plain_payload p \<longleftrightarrow> schema_version_post_init (version (pl_schema p)) = Inr () \<and> dict_ordered (payload_tuple p)"

lemma payload_json_tuple: "payload_json p = json_value (payload_tuple p)"
  by (simp add: payload_json_def payload_tuple_def list_all_iff case_prod_unfold comp_def)

lemma str_version_inj:
  assumes "schema_version_post_init v = Inr ()" and "schema_version_post_init w = Inr ()"
    and "str_schema_version v = str_schema_version w"
  shows "v = w"
  by (metis assms parse_str_schema_version sum.inject(2))

lemma same_payload_rows:
  assumes "plain_payload p" and "plain_payload q"
  shows "same_payload p q \<longleftrightarrow> schema_id (pl_schema p) = schema_id (pl_schema q)
    \<and> str_schema_version (version (pl_schema p)) = str_schema_version (version (pl_schema q))
    \<and> python_equal (payload_json p) (payload_json q)"
proof -
  have "pl_schema p = pl_schema q \<longleftrightarrow> schema_id (pl_schema p) = schema_id (pl_schema q)
      \<and> str_schema_version (version (pl_schema p)) = str_schema_version (version (pl_schema q))"
    using assms str_version_inj by (auto simp: plain_payload_def intro: schema_ref.equality)
  moreover have "python_equal (payload_tuple p) (payload_tuple q) \<longleftrightarrow> python_equal (payload_json p) (payload_json q)"
    using assms json_value_cong json_value_inj
    unfolding python_equal_def payload_json_tuple plain_payload_def by blast
  ultimately show ?thesis by (simp add: same_payload_def)
qed

subsection \<open>Timestamps read back\<close>

text \<open>Up to the year 2514 the quotient of \<open>timestamp()\<close> never rounds up to the next second.\<close>

lemma round_half_even_bounds: "round_half_even y \<le> \<lfloor>y\<rfloor> + 1" "\<lfloor>y\<rfloor> \<le> round_half_even y"
  "of_int (round_half_even y) \<le> y + 1 / 2"
proof -
  show "round_half_even y \<le> \<lfloor>y\<rfloor> + 1" "\<lfloor>y\<rfloor> \<le> round_half_even y"
    by (simp_all add: round_half_even_def Let_def)
  show "of_int (round_half_even y) \<le> y + 1 / 2"
  proof -
    have "of_int \<lfloor>y\<rfloor> \<le> y + 1 / 2" by (rule order_trans [OF of_int_floor_le]) simp
    then show ?thesis by (simp add: round_half_even_def Let_def)
  qed
qed

lemma round64_floor:
  fixes q m :: int
  assumes "0 \<le> q" and "q < 2 ^ 34" and "0 \<le> m" and "m < 1000000"
  shows "\<lfloor>round64 (of_int q + of_int m / 1000000)\<rfloor> = q"
proof -
  define x :: rat where "x = of_int q + of_int m / 1000000"
  show ?thesis
  proof (cases "x = 0")
    case True
    then have "q = 0" using assms(1,3) unfolding x_def
      by (metis add_nonneg_eq_0_iff divide_nonneg_nonneg of_int_0_le_iff of_int_eq_0_iff zero_le_numeral)
    then show ?thesis using True by (simp add: x_def)
  next
    case False
    have frac: "of_int m / (1000000 :: rat) < 1" "0 \<le> of_int m / (1000000 :: rat)"
      using assms(3,4) by (simp_all add: divide_less_eq)
    have nn: "0 \<le> x" using frac assms(1) by (simp add: x_def)
    with False have pos: "0 < x" by simp
    define k where "k = ilog2 x"
    have "q + 1 \<le> 2 ^ 34" using assms(2) by simp
    then have "of_int (q + 1) \<le> (of_int (2 ^ 34) :: rat)" by (simp only: of_int_le_iff)
    then have "of_int q + (1 :: rat) \<le> 2 ^ 34" by simp
    moreover have "x < of_int q + 1" using frac by (simp add: x_def)
    ultimately have "x < 2 ^ 34" by (rule order.strict_trans2 [rotated])
    then have "x < 2 powi 34" by (simp only: power_int_numeral)
    moreover have "2 powi k \<le> x" using ilog2_bounds [OF pos] by (simp add: k_def)
    ultimately have "(2 :: rat) powi k < 2 powi 34" by simp
    then have k: "k < 34" using power_int_increasing [of 34 k "2 :: rat"] by (auto simp: not_less [symmetric])
    define j where "j = nat (52 - k)"
    have j: "19 \<le> j" "k - 52 = - int j" using k by (auto simp: j_def)
    define y where "y = x * 2 ^ j"
    define n where "n = round_half_even y"
    have U: "2 powi (k - 52) = inverse ((2 :: rat) ^ j)"
      unfolding j(2) by (simp add: power_int_minus)
    have "round64_pos x = of_int n * inverse (2 ^ j)"
      unfolding round64_pos_def k_def [symmetric] Let_def U n_def y_def by (simp add: divide_inverse)
    then have r: "round64 x = of_int n / 2 ^ j"
      using pos False by (simp add: round64_def divide_inverse)
    have "of_int (q * 2 ^ j) \<le> y" using frac by (simp add: y_def x_def)
    then have "q * 2 ^ j \<le> n"
      using round_half_even_bounds(2) [of y] le_floor_iff [of "q * 2 ^ j" y] by (simp add: n_def)
    then have lo: "of_int q \<le> round64 x"
      unfolding r by (simp add: le_divide_eq) (metis of_int_le_iff of_int_mult of_int_numeral of_int_power)
    have "x + 1 / 1000000 \<le> of_int q + 1"
    proof -
      have "m \<le> 999999" using assms(4) by simp
      then have "(of_int m :: rat) \<le> 999999" by (metis of_int_le_iff of_int_numeral)
      then show ?thesis by (simp add: x_def field_simps)
    qed
    moreover have "(1 :: rat) / 2 < 1 / 1000000 * 2 ^ j"
    proof -
      have "(2 :: rat) ^ 19 \<le> 2 ^ j" using j(1) by (intro power_increasing) auto
      then show ?thesis by simp
    qed
    moreover have "(x + 1 / 1000000) * 2 ^ j \<le> (of_int q + 1) * (2 :: rat) ^ j"
      by (rule mult_right_mono) (use \<open>x + 1 / 1000000 \<le> of_int q + 1\<close> in simp_all)
    ultimately have "y + 1 / 2 < (of_int q + 1) * 2 ^ j"
      unfolding y_def distrib_right [of x] by linarith
    then have "of_int n < (of_int q + 1) * (2 :: rat) ^ j"
      using round_half_even_bounds(3) [of y] by (simp add: n_def)
    then have "round64 x < of_int q + 1" unfolding r by (simp add: divide_less_eq)
    with lo show ?thesis unfolding x_def by (simp add: floor_eq_iff)
  qed
qed

lemma datetime_to_ns_exact:
  assumes "0 \<le> u" and "u < 2 ^ 34 * 1000000"
  shows "datetime_to_ns u = 1000 * u"
proof -
  define q m where "q = u div 1000000" and "m = u mod 1000000"
  have qm: "u = q * 1000000 + m" "0 \<le> m" "m < 1000000" by (simp_all add: q_def m_def)
  have q0: "0 \<le> q" using assms(1) by (simp add: q_def pos_imp_zdiv_nonneg_iff)
  have q1: "q < 2 ^ 34" using assms(2) qm by simp
  have "of_int u / 1000000 = (of_int q + of_int m / 1000000 :: rat)" unfolding qm(1) by (simp add: add_divide_distrib)
  then have "\<lfloor>fdiv (of_int u) 1000000\<rfloor> = q"
    using round64_floor [OF q0 q1 qm(2,3)] by (simp only: fdiv_def)
  moreover have "0 \<le> fdiv (of_int u) 1000000" using assms(1) by (simp add: fdiv_def round64_nonneg)
  ultimately have "datetime_to_ns u = q * 1000000000 + m * 1000"
    by (simp add: datetime_to_ns_def py_trunc_def m_def)
  then show ?thesis using qm(1) by simp
qed

text \<open>The duration is the requested one to within a microsecond.\<close>

lemma half_even_within_half: "\<bar>of_int (round_half_even y) - y\<bar> \<le> 1 / 2"
proof -
  have "of_int \<lfloor>y\<rfloor> \<le> y" "y < of_int \<lfloor>y\<rfloor> + 1" by linarith+
  then show ?thesis by (auto simp: round_half_even_def Let_def abs_le_iff)
qed

lemma round64_error:
  assumes "0 \<le> x" and "x < 2 ^ 20"
  shows "\<bar>round64 x - x\<bar> < 1 / 2"
proof (cases "x = 0")
  case False
  with assms(1) have pos: "0 < x" by simp
  define k where "k = ilog2 x"
  define u :: rat where "u = 2 powi (k - 52)"
  have "2 powi k \<le> x" using ilog2_bounds [OF pos] by (simp add: k_def)
  moreover have "x < 2 powi 20" using assms(2) by (simp only: power_int_numeral)
  ultimately have "(2 :: rat) powi k < 2 powi 20" by simp
  then have k: "k < 20" using power_int_increasing [of 20 k "2 :: rat"] by (auto simp: not_less [symmetric])
  have u: "0 < u" "u \<le> 2 powi (-1)"
    unfolding u_def using k power_int_increasing [of "k - 52" "-1" "2 :: rat"] by simp_all
  then have half: "u \<le> 1 / 2" by (simp add: power_int_minus)
  define n where "n = round_half_even (x / u)"
  have "round64 x = of_int n * u"
    using pos False by (simp add: round64_def round64_pos_def Let_def k_def u_def n_def)
  then have "round64 x - x = (of_int n - x / u) * u" using u(1) by (simp add: left_diff_distrib)
  then have "\<bar>round64 x - x\<bar> = \<bar>of_int n - x / u\<bar> * u" using u(1) by (simp add: abs_mult)
  also have "\<dots> \<le> 1 / 2 * u" using u(1) half_even_within_half [of "x / u"] by (intro mult_right_mono) (simp_all add: n_def)
  also have "\<dots> < 1 / 2" using half by simp
  finally show ?thesis .
qed simp

lemma timedelta_us_error: "\<bar>of_int (timedelta_us s) - s * 1000000\<bar> < 1"
proof -
  define f where "f = s - of_int \<lfloor>s\<rfloor>"
  have f: "0 \<le> f" "f < 1" unfolding f_def by linarith+
  have "\<bar>fmul f 1000000 - f * 1000000\<bar> < 1 / 2"
    unfolding fmul_def by (rule round64_error) (use f in simp_all)
  moreover have "\<bar>of_int (round_half_even (fmul f 1000000)) - fmul f 1000000\<bar> \<le> 1 / 2" by (rule half_even_within_half)
  ultimately have "\<bar>of_int (round_half_even (fmul f 1000000)) - f * 1000000\<bar> < 1" by linarith
  then show ?thesis by (simp add: timedelta_us_def f_def algebra_simps)
qed

subsection \<open>Every method as a step of the repository\<close>

text \<open>
  What a method may do, told on the records: what enqueueing does in memory, a claim of the first
  claimable record, a renewed expiry, or exactly what the repository in memory does at the same
  clock cut to microseconds.
\<close>

definition us :: "int \<Rightarrow> int" where
  "us t = 1000 * (t div 1000)"

text \<open>
  The expiry a claim or a heartbeat at \<open>now\<close> grants for \<open>ttl\<close> seconds: the clock in whole
  microseconds and the duration, which is the requested one to within a microsecond. A duration that
  is refused is shorter than a microsecond.
\<close>

definition lease_until :: "int \<Rightarrow> pyfloat \<Rightarrow> int \<Rightarrow> bool" where
  "lease_until now ttl e \<longleftrightarrow>
     (\<exists>u. pg_ttl ttl = Inr u \<and> e = us now + 1000 * u)
     \<and> \<bar>of_int (e - us now) - ttl * 1000000000\<bar> < 1000"

definition ttl_refused :: "pyfloat \<Rightarrow> bool" where
  "ttl_refused ttl \<longleftrightarrow> \<not> is_ok (pg_ttl ttl) \<and> ttl * 1000000 < 1"

text \<open>The lease that is returned for a leased record; \<open>datetime\<close> keeps its expiry up to the year 2514.\<close>

definition lease_shows :: "job_record \<Rightarrow> job_lease \<Rightarrow> bool" where
  "lease_shows r l \<longleftrightarrow>
     jl_job_id l = jr_id r \<and> jl_type l = jr_type r \<and> jl_attempt l = jr_attempt r
     \<and> jr_token r = Some (jl_token l) \<and> jl_generation l = jr_generation r
     \<and> freeze_object (payload_json (jr_payload r)) = Inr (pl_value (jl_payload l))
     \<and> (\<forall>e. jr_expires r = Some e \<longrightarrow> e < 2 ^ 34 * 1000000000 \<longrightarrow> jl_expires l = e)"

definition same_outcome ::
  "('x + 'a) \<times> job_repo \<Rightarrow> ('y + 'b) \<Rightarrow> job_repo \<Rightarrow> bool" where
  "same_outcome mem res s' \<longleftrightarrow> snd mem = s' \<and> is_ok (fst mem) = is_ok res"

fun pg_step :: "string list \<Rightarrow> job_op \<Rightarrow> job_lease option pg_io" where
  "pg_step busy (Enqueue i t p a now) = bind_io (pg_enqueue i t p a now) (\<lambda>_. ret None)"
| "pg_step busy (Claim ts ttl now tok) = pg_claim busy ts ttl now tok"
| "pg_step busy (Heartbeat i tok g ttl now) = bind_io (pg_heartbeat i tok g ttl now) (\<lambda>l. ret (Some l))"
| "pg_step busy (Complete i tok g ref now) = bind_io (pg_complete i tok g ref now) (\<lambda>_. ret None)"
| "pg_step busy (Fail i tok g why ra now now') = bind_io (pg_fail i tok g why ra now now') (\<lambda>_. ret None)"
| "pg_step busy (Park i tok g why now) = bind_io (pg_park i tok g why now) (\<lambda>_. ret None)"

definition first_claimable ::
  "string list \<Rightarrow> job_type list \<Rightarrow> int \<Rightarrow> job_repo \<Rightarrow> job_record \<Rightarrow> bool" where
  "first_claimable busy ts now s r \<longleftrightarrow>
     map_of s (jr_id r) = Some r \<and> claimable ts now r \<and> jr_id r \<notin> set busy
     \<and> (\<forall>k q. map_of s k = Some q \<longrightarrow> claimable ts now q \<longrightarrow> k \<notin> set busy \<longrightarrow>
          (jr_available r, jr_id r) \<le> (jr_available q, jr_id q))"

text \<open>A record whose identifier and payload schema the readers accept.\<close>

definition readable_job :: "job_record \<Rightarrow> bool" where
  "readable_job r \<longleftrightarrow> valid_id JobId (jr_id r)
     \<and> schema_ref_post_init (pl_schema (jr_payload r)) = Inr ()
     \<and> schema_version_post_init (version (pl_schema (jr_payload r))) = Inr ()"

fun pg_effect ::
  "string list \<Rightarrow> job_op \<Rightarrow> job_repo \<Rightarrow> (job_error, job_lease option) result \<Rightarrow> job_repo \<Rightarrow> bool" where
  "pg_effect busy (Enqueue i t p a now) s res s' \<longleftrightarrow>
     (let mem = job_enqueue i t p (Some (us (case a of None \<Rightarrow> now | Some b \<Rightarrow> b))) now s in
        s' = snd mem \<and> (is_ok res \<longrightarrow> res = Inr None) \<and> (is_ok (fst mem) \<longrightarrow> is_ok res)
        \<and> (plain_payload p \<and> (\<forall>r. map_of s i = Some r \<longrightarrow> plain_payload (jr_payload r)) \<longrightarrow>
             is_ok res = is_ok (fst mem)))"
| "pg_effect busy (Claim ts ttl now tok) s res s' \<longleftrightarrow>
     (case res of
        Inl _ \<Rightarrow> s' = s \<and> (\<not> is_token tok \<or> ttl_refused ttl
          \<or> (\<exists>r. first_claimable busy ts now s r \<and> \<not> readable_job r))
      | Inr None \<Rightarrow> s' = s \<and> (\<forall>k q. map_of s k = Some q \<longrightarrow> claimable ts now q \<longrightarrow> k \<in> set busy)
      | Inr (Some l) \<Rightarrow> (\<exists>r e. first_claimable busy ts now s r \<and> lease_until now ttl e
          \<and> s' = AList.update (jr_id r) (claimed r tok e) s \<and> lease_shows (claimed r tok e) l))"
| "pg_effect busy (Heartbeat i tok g ttl now) s res s' \<longleftrightarrow>
     (case res of
        Inl _ \<Rightarrow> s' = s \<and> (\<not> is_token tok \<or> ttl_refused ttl
          \<or> (\<forall>r. job_require_active i tok g now s = Inr r \<longrightarrow> \<not> readable_job r))
      | Inr None \<Rightarrow> False
      | Inr (Some l) \<Rightarrow> (\<exists>r e. job_require_active i tok g now s = Inr r \<and> lease_until now ttl e
          \<and> s' = AList.update i (r\<lparr>jr_expires := Some e\<rparr>) s \<and> lease_shows (r\<lparr>jr_expires := Some e\<rparr>) l))"
| "pg_effect busy (Complete i tok g ref now) s res s' \<longleftrightarrow> same_outcome (job_complete i tok g ref now s) res s'"
| "pg_effect busy (Fail i tok g why ra now now') s res s' \<longleftrightarrow>
     same_outcome (job_fail i tok g why (Some (us (case ra of None \<Rightarrow> now' | Some b \<Rightarrow> b))) now now' s) res s'"
| "pg_effect busy (Park i tok g why now) s res s' \<longleftrightarrow> same_outcome (job_park i tok g why (us now) s) res s'"

text \<open>Clock readings and requested times a \<open>datetime\<close> can hold.\<close>

definition in_calendar :: "int \<Rightarrow> bool" where
  "in_calendar t \<longleftrightarrow> 0 \<le> t \<and> t div 1000000000 \<le> 253402300799"

fun op_in_calendar :: "job_op \<Rightarrow> bool" where
  "op_in_calendar (Enqueue i t p a now) \<longleftrightarrow> (case a of None \<Rightarrow> True | Some b \<Rightarrow> in_calendar b)"
| "op_in_calendar (Fail i tok g why ra now now') \<longleftrightarrow> (case ra of None \<Rightarrow> True | Some b \<Rightarrow> in_calendar b)"
| "op_in_calendar (Claim ts ttl now tok) \<longleftrightarrow> 0 \<le> now"
| "op_in_calendar (Heartbeat i tok g ttl now) \<longleftrightarrow> 0 \<le> now"
| "op_in_calendar (Complete i tok g ref now) \<longleftrightarrow> True"
| "op_in_calendar (Park i tok g why now) \<longleftrightarrow> True"

lemma ns_to_datetime_in:
  assumes "in_calendar t"
  shows "ns_to_datetime t = Inr (t div 1000)"
proof -
  define q m where "q = t div 1000000000" and "m = t mod 1000000000"
  have t: "t = m + 1000 * (q * 1000000)" by (simp add: q_def m_def)
  have "t div 1000 = q * 1000000 + m div 1000" unfolding t by simp
  moreover have "0 \<le> t div 1000000000" using assms by (simp add: in_calendar_def pos_imp_zdiv_nonneg_iff)
  then have "\<not> t div 1000000000 < - 62135596800" by linarith
  ultimately show ?thesis
    using assms by (simp add: in_calendar_def ns_to_datetime_def Let_def q_def m_def)
qed

lemma us_whole [simp]: "whole_us (us t)" "us t div 1000 = t div 1000"
  by (simp_all add: us_def)

lemma whole_record_simps [simp]:
  "whole_record (new_job_record i t p a) \<longleftrightarrow> whole_us a"
  "whole_record (r\<lparr>jr_expires := Some e\<rparr>) \<longleftrightarrow> whole_us (jr_available r) \<and> whole_us e"
  "whole_record (claimed r tok e) \<longleftrightarrow> whole_us (jr_available r) \<and> whole_us e"
  by (simp_all add: whole_record_def new_job_record_def claimed_def)

lemma job_row_new:
  "whole_us a \<Longrightarrow> job_row (new_job_record i t p a) =
     \<lparr>pj_id = i, pj_type = job_type_value t, pj_schema_id = schema_id (pl_schema p),
      pj_schema_version = str_schema_version (version (pl_schema p)), pj_payload = payload_json p,
      pj_state = ''ready'', pj_available = a div 1000, pj_attempt = 0, pj_token = None, pj_generation = 0,
      pj_expires = None, pj_result = None, pj_last_error = None, pj_park_reason = None, pj_parked_at = None\<rparr>"
  by (simp add: job_row_def new_job_record_def)

lemma pg_enqueue_rows:
  assumes "whole_repo s" and "op_in_calendar (Enqueue i t p a now)"
  shows "\<exists>s'. whole_repo s' \<and> snd (pg_enqueue i t p a now (job_rows s)) = job_rows s'
    \<and> pg_effect busy (Enqueue i t p a now) s (bindE (fst (pg_enqueue i t p a now (job_rows s))) (\<lambda>_. Inr None)) s'"
proof -
  define b where "b = (case a of None \<Rightarrow> now | Some b \<Rightarrow> b)"
  have at: "(case a of None \<Rightarrow> Inr (now div 1000) | Some b \<Rightarrow> ns_to_datetime b) = Inr (b div 1000)"
    using assms(2) ns_to_datetime_in by (auto simp: b_def split: option.splits)
  show ?thesis
  proof (cases "map_of s i")
    case None
    let ?s' = "AList.update i (new_job_record i t p (us b)) s"
    have "whole_repo ?s'"
      using assms(1) by (intro whole_repo_update) (auto intro: job_wf_new)
    moreover have "snd (pg_enqueue i t p a now (job_rows s)) = job_rows ?s'
        \<and> fst (pg_enqueue i t p a now (job_rows s)) = Inr ()"
      unfolding pg_enqueue_def at job_rows_update [symmetric] sql_enqueue_job_def
      using None by (simp add: job_row_new)
    moreover have "job_enqueue i t p (Some (us b)) now s = (Inr (), ?s')"
      using None by (simp add: job_enqueue_def)
    ultimately show ?thesis by (intro exI [of _ ?s']) (simp add: b_def [symmetric] is_ok_def)
  next
    case (Some r)
    have run: "pg_enqueue i t p a now (job_rows s)
        = (if same_job (job_row r) t p then Inr () else Inl (RuntimeError Job_Conflict), job_rows s)"
      unfolding pg_enqueue_def at sql_enqueue_job_def using Some by simp
    have mem: "job_enqueue i t p (Some (us b)) now s
        = (if jr_type r = t \<and> same_payload (jr_payload r) p then Inr () else Inl (RuntimeError Job_Conflict), s)"
      using Some by (simp add: job_enqueue_def)
    have row: "same_job (job_row r) t p \<longleftrightarrow> jr_type r = t \<and> schema_id (pl_schema (jr_payload r)) = schema_id (pl_schema p)
        \<and> str_schema_version (version (pl_schema (jr_payload r))) = str_schema_version (version (pl_schema p))
        \<and> python_equal (payload_json (jr_payload r)) (payload_json p)"
      by (simp add: same_job_def job_row_def)
    have keep: "same_job (job_row r) t p" if "jr_type r = t" "same_payload (jr_payload r) p"
    proof -
      have "equality_key (payload_tuple (jr_payload r)) = equality_key (payload_tuple p)"
        using that(2) by (simp add: same_payload_def python_equal_def)
      then have "python_equal (payload_json (jr_payload r)) (payload_json p)"
        unfolding python_equal_def payload_json_tuple by (rule json_value_cong)
      with that show ?thesis unfolding row same_payload_def by simp
    qed
    have exact: "same_job (job_row r) t p \<longleftrightarrow> jr_type r = t \<and> same_payload (jr_payload r) p"
      if "plain_payload (jr_payload r)" "plain_payload p"
      unfolding row same_payload_rows [OF that] by simp
    show ?thesis
      using assms(1) keep exact Some
      by (intro exI [of _ s]) (simp add: run mem b_def [symmetric] is_ok_def)
  qed
qed

text \<open>The fenced updates.\<close>

lemma sql_update_rows:
  assumes "whole_repo s"
  shows "sql_update i (\<lambda>r. sql_active tok g (now div 1000) r \<and> c) upd (job_rows s) =
    (if c \<and> is_ok (job_require_active i tok g now s)
     then (Some (upd (job_row (the (map_of s i)))), AList.update i (upd (job_row (the (map_of s i)))) (job_rows s))
     else (None, job_rows s))"
proof (cases "map_of s i")
  case None
  then show ?thesis by (simp add: sql_update_def job_require_active_def is_ok_def)
next
  case (Some r)
  then have "whole_record r" using whole_repoD [OF assms] by blast
  then have "sql_active tok g (now div 1000) (job_row r) \<longleftrightarrow> is_ok (job_require_active i tok g now s)"
    using Some by (auto simp: sql_active_job_row is_ok_def job_require_active_def split: option.splits)
  with Some show ?thesis by (simp add: sql_update_def)
qed

lemma fenced_rows:
  assumes "whole_repo s"
  shows "fenced_update (\<lambda>tbl. sql_update i (\<lambda>r. sql_active tok g (now div 1000) r \<and> c) upd tbl) (job_rows s) =
    (if c \<and> is_ok (job_require_active i tok g now s)
     then (Inr (), AList.update i (upd (job_row (the (map_of s i)))) (job_rows s))
     else (Inl (RuntimeError Stale_Lease), job_rows s))"
  by (simp add: fenced_update_def sql_update_rows [OF assms])

lemma active_at_us:
  assumes "whole_repo s"
  shows "job_require_active i tok g (us now) s = job_require_active i tok g now s"
proof (cases "map_of s i")
  case (Some r)
  then have "e \<le> us now \<longleftrightarrow> e \<le> now" if "jr_expires r = Some e" for e
    using whole_repoD [OF assms Some] that whole_us_le [of e now] whole_us_le [of e "us now"]
    by (simp add: whole_record_def)
  then show ?thesis using Some by (auto simp: job_require_active_def split: option.splits)
qed (simp add: job_require_active_def)

text \<open>An update that is the row of the same change to the record.\<close>

definition row_update :: "(pg_job \<Rightarrow> pg_job) \<Rightarrow> (job_record \<Rightarrow> job_record) \<Rightarrow> bool" where
  "row_update upd f \<longleftrightarrow> (\<forall>r. upd (job_row r) = job_row (f r) \<and> jr_id (f r) = jr_id r
     \<and> (job_wf r \<and> jr_state r = LEASED \<and> whole_record r \<longrightarrow> job_wf (f r) \<and> whole_record (f r)))"

lemma fenced_effect:
  assumes "whole_repo s" and "row_update upd f"
    and res_def: "res = fenced_update (\<lambda>tbl. sql_update i (\<lambda>r. sql_active tok g (now div 1000) r \<and> c) upd tbl) (job_rows s)"
  shows "\<exists>s'. whole_repo s' \<and> snd res = job_rows s'
    \<and> (case job_require_active i tok g now s of
         Inr r \<Rightarrow> if c then fst res = Inr () \<and> s' = AList.update i (f r) s else \<not> is_ok (fst res) \<and> s' = s
       | Inl _ \<Rightarrow> \<not> is_ok (fst res) \<and> s' = s)"
proof (cases "job_require_active i tok g now s")
  case (Inl e)
  then show ?thesis
    unfolding res_def fenced_rows [OF assms(1)] using assms(1) by (intro exI [of _ s]) (simp add: is_ok_def)
next
  case (Inr r)
  then have r: "map_of s i = Some r" "jr_state r = LEASED" by (auto simp: require_active_Inr)
  with assms(1) have "whole_record r" "jr_id r = i" "job_wf r" using whole_repoD by blast+
  with assms(2) r have f: "upd (job_row r) = job_row (f r)" "jr_id (f r) = i" "job_wf (f r)" "whole_record (f r)"
    unfolding row_update_def by auto
  show ?thesis
  proof (cases c)
    case True
    with Inr r f show ?thesis
      unfolding res_def fenced_rows [OF assms(1)] using whole_repo_update [OF assms(1)]
      by (intro exI [of _ "AList.update i (f r) s"]) (simp add: is_ok_def job_rows_update)
  next
    case False
    with Inr show ?thesis
      unfolding res_def fenced_rows [OF assms(1)] using assms(1)
      by (intro exI [of _ s]) (simp add: is_ok_def)
  qed
qed

lemma row_update_complete:
  "row_update
     (\<lambda>r. r\<lparr>pj_state := ''succeeded'', pj_result := Some (artifact_value ref), pj_token := None, pj_expires := None\<rparr>)
     (\<lambda>r. r\<lparr>jr_state := SUCCEEDED, jr_result := Some ref, jr_token := None, jr_expires := None\<rparr>)"
  by (auto simp: row_update_def job_row_def job_wf_def whole_record_def)

lemma row_update_fail:
  "whole_us t \<Longrightarrow> why \<noteq> [] \<Longrightarrow> row_update
     (\<lambda>r. r\<lparr>pj_state := ''failed'', pj_last_error := Some why, pj_available := t div 1000,
            pj_token := None, pj_expires := None\<rparr>)
     (\<lambda>r. r\<lparr>jr_state := FAILED, jr_last_error := Some why, jr_available := t, jr_token := None, jr_expires := None\<rparr>)"
  by (auto simp: row_update_def job_row_def job_wf_def whole_record_def)

lemma row_update_park:
  "reason_code why \<Longrightarrow> row_update
     (\<lambda>r. r\<lparr>pj_state := ''parked'', pj_park_reason := Some why, pj_parked_at := Some (t div 1000),
            pj_token := None, pj_expires := None, pj_result := None, pj_last_error := None\<rparr>)
     (\<lambda>r. r\<lparr>jr_state := PARKED, jr_park_reason := Some why, jr_parked_at := Some (us t), jr_result := None,
            jr_last_error := None, jr_token := None, jr_expires := None\<rparr>)"
  by (auto simp: row_update_def job_row_def job_wf_def whole_record_def)

lemma row_update_heartbeat:
  "row_update (\<lambda>r. r\<lparr>pj_expires := Some e\<rparr>) (\<lambda>r. r\<lparr>jr_expires := Some (1000 * e)\<rparr>)"
  by (auto simp: row_update_def job_row_def job_wf_def whole_record_def)

lemma pg_complete_rows:
  assumes "whole_repo s"
  shows "\<exists>s'. whole_repo s' \<and> snd (pg_complete i tok g ref now (job_rows s)) = job_rows s'
    \<and> same_outcome (job_complete i tok g ref now s) (fst (pg_complete i tok g ref now (job_rows s))) s'"
  using fenced_effect [OF assms row_update_complete refl, of i tok g now True ref]
  unfolding pg_complete_def sql_complete_job_def
  by (auto simp: same_outcome_def job_complete_def is_ok_def split: sum.splits)

lemma pg_fail_rows:
  assumes "whole_repo s" and "op_in_calendar (Fail i tok g why ra now now')"
  defines "t \<equiv> us (case ra of None \<Rightarrow> now' | Some b \<Rightarrow> b)"
  shows "\<exists>s'. whole_repo s' \<and> snd (pg_fail i tok g why ra now now' (job_rows s)) = job_rows s'
    \<and> same_outcome (job_fail i tok g why (Some t) now now' s) (fst (pg_fail i tok g why ra now now' (job_rows s))) s'"
proof (cases "why = []")
  case True
  then show ?thesis
    using assms(1) by (intro exI [of _ s]) (simp add: pg_fail_def same_outcome_def job_fail_def is_ok_def)
next
  case False
  have "(case ra of None \<Rightarrow> Inr (now' div 1000) | Some a \<Rightarrow> ns_to_datetime a) = Inr (t div 1000)"
    using assms(2) ns_to_datetime_in by (auto simp: t_def split: option.splits)
  then show ?thesis
    using False fenced_effect [OF assms(1) row_update_fail [of t why] refl, of i tok g now True]
    unfolding pg_fail_def sql_fail_job_def
    by (auto simp: same_outcome_def job_fail_def is_ok_def t_def split: sum.splits)
qed

lemma pg_park_rows:
  assumes "whole_repo s"
  shows "\<exists>s'. whole_repo s' \<and> snd (pg_park i tok g why now (job_rows s)) = job_rows s'
    \<and> same_outcome (job_park i tok g why (us now) s) (fst (pg_park i tok g why now (job_rows s))) s'"
proof (cases "reason_code why")
  case False
  then show ?thesis
    using assms(1) by (intro exI [of _ s]) (simp add: pg_park_def same_outcome_def job_park_def is_ok_def validate_park_reason_def)
next
  case True
  then show ?thesis
    using fenced_effect [OF assms(1) row_update_park [of why now] refl, of i tok g now True]
    unfolding pg_park_def sql_park_job_def
    by (auto simp: same_outcome_def job_park_def is_ok_def validate_park_reason_def active_at_us [OF assms] split: sum.splits)
qed

lemma pg_ttl_Inr: "pg_ttl ttl = Inr u \<Longrightarrow> 0 < u"
  by (auto simp: pg_ttl_def split: if_splits)

lemma pg_ttl_refused: "pg_ttl ttl = Inl e \<Longrightarrow> ttl_refused ttl"
proof -
  assume e: "pg_ttl ttl = Inl e"
  then have "ttl \<le> 0 \<or> timedelta_us ttl \<le> 0" by (auto simp: pg_ttl_def split: if_splits)
  moreover have "of_int (timedelta_us ttl) \<le> (0 :: rat)" if "timedelta_us ttl \<le> 0" using that by simp
  ultimately have "ttl * 1000000 < 1" using timedelta_us_error [of ttl] by (auto simp: abs_less_iff)
  with e show ?thesis by (simp add: ttl_refused_def is_ok_def)
qed

lemma lease_until_ttl:
  assumes "pg_ttl ttl = Inr u"
  shows "lease_until now ttl (1000 * (now div 1000 + u))"
proof -
  have "\<bar>of_int u - ttl * 1000000\<bar> < 1"
    using assms timedelta_us_error [of ttl] by (auto simp: pg_ttl_def split: if_splits)
  moreover have "of_int (1000 * (now div 1000 + u) - us now) - ttl * 1000000000 = 1000 * (of_int u - ttl * 1000000)"
    by (simp add: us_def algebra_simps)
  ultimately show ?thesis
    using assms by (simp add: lease_until_def abs_mult us_def)
qed

lemma us_later:
  fixes now u :: int
  assumes "0 < u"
  shows "now < 1000 * (now div 1000 + u)"
proof -
  have "now mod 1000 < 1000" by simp
  moreover have "now = 1000 * (now div 1000) + now mod 1000" by simp
  ultimately show ?thesis using assms by (simp only: distrib_left)
qed

text \<open>Reading a leased row back.\<close>

lemma lease_from_row_Inr:
  "lease_from_row r = Inr l \<Longrightarrow> jl_job_id l = pj_id r \<and> jl_generation l = pj_generation r
     \<and> (\<forall>tok. pj_token r = Some tok \<longrightarrow> jl_token l = tok) \<and> pj_type r = job_type_value (jl_type l)
     \<and> (\<forall>e. pj_expires r = Some e \<longrightarrow> jl_expires l = datetime_to_ns e) \<and> jl_attempt l = pj_attempt r
     \<and> freeze_object (pj_payload r) = Inr (pl_value (jl_payload l))"
  by (auto simp: lease_from_row_def dest!: read_job_type_Inr split: option.splits)

lemma lease_row_shows:
  assumes "lease_from_row (job_row r) = Inr l" and "jr_token r = Some tok" and "whole_record r"
    and "jr_expires r = Some e" and "0 \<le> e"
  shows "lease_shows r l"
proof -
  note l = lease_from_row_Inr [OF assms(1)]
  have "whole_us e" using assms(3,4) by (simp add: whole_record_def)
  then have e: "1000 * (e div 1000) = e" by (rule whole_us_div)
  have "jl_expires l = e" if "e < 2 ^ 34 * 1000000000"
  proof -
    have "0 \<le> e div 1000" using assms(5) by (simp add: pos_imp_zdiv_nonneg_iff)
    moreover have "e div 1000 < 2 ^ 34 * 1000000" using that e by linarith
    ultimately have "datetime_to_ns (e div 1000) = e" using datetime_to_ns_exact e by metis
    with l assms(4) show ?thesis by (simp add: job_row_def)
  qed
  with l assms(2,4) show ?thesis by (simp add: lease_shows_def job_row_def)
qed

lemma sorted_freeze: "in_order fst (sort_key fst (map (\<lambda>(k, v). (k, freeze_value v)) kvs))"
  by (simp add: in_order_iff)

lemma datetime_to_ns_nonneg: "0 \<le> e \<Longrightarrow> 0 \<le> datetime_to_ns e"
  using round64_nonneg [of "of_int e / 1000000"]
  by (simp add: datetime_to_ns_def py_trunc_def fdiv_def)

lemma lease_readable:
  assumes "readable_job r" and "jr_token r = Some tok" and "is_token tok" and "jr_expires r = Some e"
    and "0 \<le> e" and "0 < jr_attempt r" and "0 < jr_generation r"
  shows "\<exists>l. lease_from_row (job_row r) = Inr l"
proof -
  have "0 \<le> e div 1000" using assms(5) by (simp add: pos_imp_zdiv_nonneg_iff)
  then have ns: "0 \<le> datetime_to_ns (e div 1000)" by (rule datetime_to_ns_nonneg)
  have schema: "\<lparr>schema_id = schema_id q, version = version q\<rparr> = q" for q :: schema_ref by simp
  show ?thesis
    using assms ns
    by (simp add: lease_from_row_def job_row_def readable_job_def parse_str_schema_version checked_okI schema
      freeze_object_def payload_json_def job_payload_post_init_def sorted_freeze job_lease_post_init_def
      require_token_def require_positive_def require_utc_ns_def)
qed

lemma min_by_map: "min_by f (map g xs) = map_option g (min_by (\<lambda>x. f (g x)) xs)"
  by (induction xs) (auto split: option.splits)

lemma filter_map_rows: "(\<And>r. r \<in> set rs \<Longrightarrow> P (f r) = Q r) \<Longrightarrow> filter P (map f rs) = map f (filter Q rs)"
  by (induction rs) auto

lemma sql_claim_rows:
  assumes "whole_repo s" and "types \<noteq> []" and "tok \<noteq> []" and "0 < u"
  shows "(\<exists>r. first_claimable busy types now s r \<and> whole_record r \<and> job_wf r
      \<and> sql_claim_job (map job_type_value types) tok u (now div 1000) busy (job_rows s)
        = Inr (Some (job_row (claimed r tok (1000 * (now div 1000 + u)))),
               job_rows (AList.update (jr_id r) (claimed r tok (1000 * (now div 1000 + u))) s)))
    \<or> (\<forall>k q. map_of s k = Some q \<longrightarrow> claimable types now q \<longrightarrow> k \<in> set busy)
      \<and> sql_claim_job (map job_type_value types) tok u (now div 1000) busy (job_rows s) = Inr (None, job_rows s)"
proof -
  let ?ok = "\<lambda>r. claimable types now r \<and> jr_id r \<notin> set busy"
  let ?key = "\<lambda>r. (jr_available r div 1000, jr_id r)"
  have wf: "repo_wf s" using assms(1) by (simp add: whole_repo_def)
  have vals: "map_of s (jr_id r) = Some r \<and> whole_record r \<and> job_wf r" if "r \<in> snd ` set s" for r
    using repo_wf_values [OF wf, of r] that whole_repoD [OF assms(1), of "jr_id r" r] by simp
  have "filter (\<lambda>r. sql_claimable (map job_type_value types) (now div 1000) r \<and> pj_id r \<notin> set busy)
      (map snd (job_rows s)) = map job_row (filter ?ok (map snd s))"
  proof -
    have "map snd (job_rows s) = map job_row (map snd s)" by (simp add: job_rows_def case_prod_unfold)
    moreover have "(sql_claimable (map job_type_value types) (now div 1000) (job_row r) \<and> pj_id (job_row r) \<notin> set busy)
        = ?ok r" if "r \<in> set (map snd s)" for r
      using vals [of r] that by (simp add: sql_claimable_job_row) (simp add: job_row_def)
    ultimately show ?thesis by (simp only: filter_map_rows)
  qed
  then have m: "min_by (\<lambda>r. (pj_available r, pj_id r))
      (filter (\<lambda>r. sql_claimable (map job_type_value types) (now div 1000) r \<and> pj_id r \<notin> set busy)
        (map snd (job_rows s))) = map_option job_row (min_by ?key (filter ?ok (map snd s)))"
    by (simp add: min_by_map job_row_def)
  show ?thesis
  proof (cases "min_by ?key (filter ?ok (map snd s))")
    case None
    then have "\<forall>r \<in> snd ` set s. \<not> ?ok r" by (auto simp: filter_empty_conv)
    then have "k \<in> set busy" if "map_of s k = Some q" "claimable types now q" for k q
      using that repo_wfD [OF wf that(1)] by (metis imageI map_of_SomeD snd_conv)
    with None m assms show ?thesis by (simp add: sql_claim_job_def)
  next
    case (Some r)
    have r: "r \<in> set (filter ?ok (map snd s))" "\<forall>q \<in> set (filter ?ok (map snd s)). ?key r \<le> ?key q"
      using min_by_Some [OF Some] by blast+
    then have rs: "map_of s (jr_id r) = Some r" "whole_record r" "job_wf r" using vals [of r] by auto
    have "(jr_available r, jr_id r) \<le> (jr_available q, jr_id q)"
      if "map_of s k = Some q" "claimable types now q" "k \<notin> set busy" for k q
    proof -
      have "q \<in> set (filter ?ok (map snd s))" "whole_record q"
        using that whole_repoD [OF assms(1) that(1)] map_of_SomeD [OF that(1)] by force+
      then have "?key r \<le> ?key q" "whole_us (jr_available q)" using r(2) by (auto simp: whole_record_def)
      then show ?thesis
        using rs(2) whole_us_div [of "jr_available r"] whole_us_div [of "jr_available q"]
        by (auto simp: whole_record_def less_eq_prod_def)
    qed
    then have "first_claimable busy types now s r"
      using r rs by (auto simp: first_claimable_def)
    moreover have "(job_row r)\<lparr>pj_state := ''leased'', pj_attempt := pj_attempt (job_row r) + 1,
        pj_generation := pj_generation (job_row r) + 1, pj_token := Some tok, pj_expires := Some (now div 1000 + u)\<rparr>
      = job_row (claimed r tok (1000 * (now div 1000 + u)))" "pj_id (job_row r) = jr_id r"
      by (simp_all add: job_row_def claimed_def)
    then have "sql_claim_job (map job_type_value types) tok u (now div 1000) busy (job_rows s)
        = Inr (Some (job_row (claimed r tok (1000 * (now div 1000 + u)))),
               job_rows (AList.update (jr_id r) (claimed r tok (1000 * (now div 1000 + u))) s))"
      unfolding sql_claim_job_def m Some job_rows_update [symmetric] using assms by (simp add: Let_def)
    ultimately show ?thesis using rs by blast
  qed
qed

lemma leased_positive: "job_wf r \<Longrightarrow> jr_state r = LEASED \<Longrightarrow> 0 < jr_attempt r \<and> 0 < jr_generation r"
  by (auto simp: job_wf_def)

lemma pg_heartbeat_rows:
  assumes "whole_repo s" and "0 \<le> now"
  shows "\<exists>s'. whole_repo s' \<and> snd (pg_heartbeat i tok g ttl now (job_rows s)) = job_rows s'
    \<and> pg_effect busy (Heartbeat i tok g ttl now) s
        (bindE (fst (pg_heartbeat i tok g ttl now (job_rows s))) (\<lambda>l. Inr (Some l))) s'"
proof (cases "pg_ttl ttl")
  case (Inl e)
  with assms pg_ttl_refused [OF Inl] show ?thesis by (intro exI [of _ s]) (simp add: pg_heartbeat_def)
next
  case (Inr u)
  then have u: "0 < u" by (rule pg_ttl_Inr)
  have sql: "sql_heartbeat_job i tok g u (now div 1000) (job_rows s) =
      (if is_ok (job_require_active i tok g now s)
       then (Some ((job_row (the (map_of s i)))\<lparr>pj_expires := Some (now div 1000 + u)\<rparr>),
             AList.update i ((job_row (the (map_of s i)))\<lparr>pj_expires := Some (now div 1000 + u)\<rparr>) (job_rows s))
       else (None, job_rows s))"
    unfolding sql_heartbeat_job_def sql_update_rows [OF assms(1)] using u by simp
  show ?thesis
  proof (cases "job_require_active i tok g now s")
    case (Inl e)
    with Inr sql assms show ?thesis by (intro exI [of _ s]) (simp add: pg_heartbeat_def is_ok_def)
  next
    case active: (Inr r)
    then have r: "map_of s i = Some r" "jr_state r = LEASED" by (auto simp: require_active_Inr)
    with assms have w: "whole_record r" "jr_id r = i" "job_wf r" using whole_repoD by blast+
    let ?r = "r\<lparr>jr_expires := Some (1000 * (now div 1000 + u))\<rparr>"
    have row: "(job_row r)\<lparr>pj_expires := Some (now div 1000 + u)\<rparr> = job_row ?r" "job_wf ?r" "whole_record ?r"
      using row_update_heartbeat [of "now div 1000 + u"] w r by (auto simp: row_update_def)
    show ?thesis
    proof (cases "lease_from_row (job_row ?r)")
      case (Inl e)
      have "\<not> readable_job r" if "is_token tok"
      proof
        assume "readable_job r"
        then have "readable_job ?r" by (simp add: readable_job_def)
        moreover have "0 \<le> 1000 * (now div 1000 + u)" using u assms(2) us_later [OF u, of now] by linarith
        moreover have "jr_token r = Some tok" using active by (simp add: require_active_Inr)
        ultimately show False
          using lease_readable [of ?r tok] that leased_positive [OF w(3) r(2)] Inl by auto
      qed
      moreover have "pg_heartbeat i tok g ttl now (job_rows s) = (Inl e, job_rows s)"
        using Inr sql active r row(1) Inl by (simp add: pg_heartbeat_def is_ok_def)
      ultimately show ?thesis
        using assms(1) active by (intro exI [of _ s]) (simp add: is_ok_def)
    next
      case lease: (Inr l)
      have "0 \<le> 1000 * (now div 1000 + u)" using u assms(2) us_later [OF u, of now] by linarith
      moreover have "jr_token ?r = Some tok" using active by (simp add: require_active_Inr)
      ultimately have "lease_shows ?r l" using lease_row_shows [OF lease _ row(3)] by simp
      moreover have "whole_repo (AList.update i ?r s)" using whole_repo_update [OF assms(1) row(3,2)] w by simp
      moreover have "pg_heartbeat i tok g ttl now (job_rows s) = (Inr l, job_rows (AList.update i ?r s))"
        using Inr sql active r row(1) lease by (simp add: pg_heartbeat_def is_ok_def job_rows_update)
      moreover have "lease_until now ttl (1000 * (now div 1000 + u))" using Inr by (rule lease_until_ttl)
      ultimately show ?thesis using active by (intro exI [of _ "AList.update i ?r s"]) auto
    qed
  qed
qed

lemma pg_claim_rows:
  assumes "whole_repo s" and "0 \<le> now"
  shows "\<exists>s'. whole_repo s' \<and> snd (pg_claim busy ts ttl now tok (job_rows s)) = job_rows s'
    \<and> pg_effect busy (Claim ts ttl now tok) s (fst (pg_claim busy ts ttl now tok (job_rows s))) s'"
proof (cases "ts = []")
  case True
  with assms(1) show ?thesis by (intro exI [of _ s]) (auto simp: pg_claim_def claimable_def)
next
  case types: False
  show ?thesis
  proof (cases "pg_ttl ttl")
    case (Inl e)
    with types assms(1) pg_ttl_refused [OF Inl] show ?thesis by (intro exI [of _ s]) (simp add: pg_claim_def)
  next
    case (Inr u)
    then have u: "0 < u" by (rule pg_ttl_Inr)
    show ?thesis
    proof (cases "tok = []")
      case True
      with Inr types assms(1) show ?thesis
        by (intro exI [of _ s]) (simp add: pg_claim_def sql_claim_job_def is_token_def)
    next
      case False
      from sql_claim_rows [OF assms(1) types False u, of busy now] show ?thesis
      proof (elim disjE exE conjE)
        assume "sql_claim_job (map job_type_value ts) tok u (now div 1000) busy (job_rows s) = Inr (None, job_rows s)"
          and "\<forall>k q. map_of s k = Some q \<longrightarrow> claimable ts now q \<longrightarrow> k \<in> set busy"
        with Inr types assms(1) show ?thesis by (intro exI [of _ s]) (simp add: pg_claim_def)
      next
        fix r
        let ?e = "1000 * (now div 1000 + u)"
        let ?r = "claimed r tok ?e"
        assume first: "first_claimable busy ts now s r" and w: "whole_record r" "job_wf r"
          and sql: "sql_claim_job (map job_type_value ts) tok u (now div 1000) busy (job_rows s)
            = Inr (Some (job_row ?r), job_rows (AList.update (jr_id r) ?r s))"
        have wf: "job_wf ?r" using w(2) first job_wf_claimed by (auto simp: first_claimable_def)
        have e: "now < ?e" using u by (rule us_later)
        show ?thesis
        proof (cases "lease_from_row (job_row ?r)")
          case lost: (Inl e')
          have "\<not> readable_job r" if "is_token tok"
          proof
            assume "readable_job r"
            then have "readable_job ?r" by (simp add: readable_job_def claimed_def)
            then show False
              using lease_readable [of ?r tok ?e] that leased_positive [OF wf] lost e assms(2)
              by (auto simp: claimed_def)
          qed
          then show ?thesis
            using Inr types sql lost first assms(1) by (intro exI [of _ s]) (auto simp: pg_claim_def)
        next
          case lease: (Inr l)
          have "whole_repo (AList.update (jr_id r) ?r s)"
            using w wf by (intro whole_repo_update [OF assms(1)]) (simp_all add: whole_record_def claimed_def whole_us_def)
          moreover have "lease_shows ?r l"
          proof (rule lease_row_shows [OF lease])
            show "whole_record ?r" using w(1) by (simp add: whole_record_def claimed_def whole_us_def)
            show "0 \<le> ?e" using e assms(2) by linarith
          qed (simp_all add: claimed_def)
          then have "pg_effect busy (Claim ts ttl now tok) s (Inr (Some l)) (AList.update (jr_id r) ?r s)"
            unfolding pg_effect.simps sum.case option.case using first lease_until_ttl [OF Inr] by blast
          moreover have "pg_claim busy ts ttl now tok (job_rows s) = (Inr (Some l), job_rows (AList.update (jr_id r) ?r s))"
            using Inr types sql lease by (simp add: pg_claim_def)
          ultimately show ?thesis by (metis fst_conv snd_conv)
        qed
      qed
    qed
  qed
qed

lemma is_ok_bind_ret: "is_ok (bindE r (\<lambda>_. Inr x)) = is_ok r"
  by (cases r) (simp_all add: is_ok_def)

lemma bind_io_result: "bind_io m (\<lambda>a. ret (f a)) s = (bindE (fst (m s)) (\<lambda>a. Inr (f a)), snd (m s))"
  by (auto simp: bind_io_def ret_def bindE_def split: prod.splits sum.splits)

text \<open>
  C5. The PostgreSQL repository does to its table what the repository in memory does to its
  records. For every operation on a table that holds the rows of well-formed records at whole
  microseconds, the new table again holds such rows, and: completing, failing, parking and enqueueing
  leave exactly the records the operation in memory leaves, with times cut to microseconds, and succeed
  exactly when it does (enqueueing a job again for payloads whose lists of pairs are in dict order; it
  never refuses what the repository in memory accepts); a claim takes the claimable
  unlocked record that is first by availability and identifier, advances its generation and
  returns its lease, or finds none; a heartbeat renews exactly the active lease and returns it; both grant
  an expiry that is the clock in whole microseconds plus the TTL to within a microsecond; and an operation
  that raises leaves the table as it was, which a claim or a
  heartbeat does only for a bad token, for a TTL below a microsecond or for a row whose identifier or payload schema
  is not valid.
\<close>

theorem pg_step_refines:
  assumes "whole_repo s" and "op_in_calendar oper"
  shows "\<exists>s'. whole_repo s' \<and> snd (pg_step busy oper (job_rows s)) = job_rows s'
    \<and> pg_effect busy oper s (fst (pg_step busy oper (job_rows s))) s'"
proof (cases oper)
  case (Enqueue i t p a now)
  then show ?thesis
    using pg_enqueue_rows [OF assms(1), of i t p a now busy] assms(2) by (simp add: bind_io_result del: pg_effect.simps)
next
  case (Claim ts ttl now tok)
  then show ?thesis
    using pg_claim_rows [OF assms(1), of now busy ts ttl tok] assms(2) by (simp del: pg_effect.simps)
next
  case (Heartbeat i tok g ttl now)
  then show ?thesis
    using pg_heartbeat_rows [OF assms(1), of now i tok g ttl busy] assms(2) by (simp add: bind_io_result del: pg_effect.simps)
next
  case (Complete i tok g ref now)
  then show ?thesis
    using pg_complete_rows [OF assms(1), of i tok g ref now] by (simp add: bind_io_result same_outcome_def is_ok_bind_ret)
next
  case (Fail i tok g why ra now now')
  then show ?thesis
    using pg_fail_rows [OF assms(1), of i tok g why ra now now'] assms(2)
    by (simp add: bind_io_result same_outcome_def is_ok_bind_ret)
next
  case (Park i tok g why now)
  then show ?thesis
    using pg_park_rows [OF assms(1), of i tok g why now] by (simp add: bind_io_result same_outcome_def is_ok_bind_ret)
qed

subsection \<open>The worker over PostgreSQL\<close>

definition pg_inv :: "job_table \<Rightarrow> bool" where
  "pg_inv tbl \<longleftrightarrow> distinct (map fst tbl) \<and> (\<forall>i r. map_of tbl i = Some r \<longrightarrow> pj_id r = i
     \<and> (pj_state r \<in> {''ready'', ''leased'', ''failed''} \<longrightarrow> pj_result r = None))"

definition pg_held :: "job_table \<Rightarrow> int \<Rightarrow> job_lease \<Rightarrow> bool" where
  "pg_held tbl now l \<longleftrightarrow>
     (\<exists>r. map_of tbl (jl_job_id l) = Some r \<and> sql_active (jl_token l) (jl_generation l) (now div 1000) r)"

definition pg_state :: "job_table \<Rightarrow> string \<Rightarrow> (job_state \<times> json option) option" where
  "pg_state tbl i =
     (case map_of tbl i of
        None \<Rightarrow> None
      | Some r \<Rightarrow> (case read_job_state (pj_state r) of Inl _ \<Rightarrow> None | Inr st \<Rightarrow> Some (st, pj_result r)))"

lemma fenced_held:
  assumes "pg_held tbl now l"
  shows "\<exists>r. map_of tbl (jl_job_id l) = Some r \<and> pj_state r = ''leased''
    \<and> fenced_update (sql_update (jl_job_id l) (sql_active (jl_token l) (jl_generation l) (now div 1000)) upd) tbl
      = (Inr (), AList.update (jl_job_id l) (upd r) tbl)"
  using assms by (auto simp: pg_held_def fenced_update_def sql_update_def sql_active_def)

lemma fenced_lost:
  "\<not> pg_held tbl now l \<Longrightarrow>
    fenced_update (sql_update (jl_job_id l) (sql_active (jl_token l) (jl_generation l) (now div 1000)) upd) tbl
      = (Inl (RuntimeError Stale_Lease), tbl)"
  by (auto simp: pg_held_def fenced_update_def sql_update_def split: option.splits)

lemma pg_claim_cases:
  assumes "pg_claim busy ts ttl now tok tbl = (Inr (Some l), t)"
  shows "\<exists>r u. pg_ttl ttl = Inr u \<and> r \<in> snd ` set tbl \<and> sql_claimable (map job_type_value ts) (now div 1000) r
    \<and> t = AList.update (pj_id r) (r\<lparr>pj_state := ''leased'', pj_attempt := pj_attempt r + 1,
        pj_generation := pj_generation r + 1, pj_token := Some tok, pj_expires := Some (now div 1000 + u)\<rparr>) tbl
    \<and> lease_from_row (r\<lparr>pj_state := ''leased'', pj_attempt := pj_attempt r + 1,
        pj_generation := pj_generation r + 1, pj_token := Some tok, pj_expires := Some (now div 1000 + u)\<rparr>) = Inr l"
  using assms
  by (fastforce simp: pg_claim_def sql_claim_job_def Let_def bindE_def dest!: min_by_Some
    split: if_splits sum.splits option.splits prod.splits)

lemma pg_inv_update:
  "pg_inv tbl \<Longrightarrow> pj_id r = i \<Longrightarrow> (pj_state r \<in> {''ready'', ''leased'', ''failed''} \<Longrightarrow> pj_result r = None) \<Longrightarrow>
     pg_inv (AList.update i r tbl)"
  by (auto simp: pg_inv_def update_conv' distinct_update)

lemma pg_state_update:
  "read_job_state (pj_state r) = Inr st \<Longrightarrow>
     pg_state (AList.update i r tbl) = (pg_state tbl)(i \<mapsto> (st, pj_result r))"
  by (auto simp: pg_state_def update_conv')

lemma pg_inv_values:
  assumes "pg_inv tbl" and "r \<in> snd ` set tbl"
  shows "map_of tbl (pj_id r) = Some r"
proof -
  obtain k where "(k, r) \<in> set tbl" using assms(2) by auto
  then have "map_of tbl k = Some r" using assms(1) by (simp add: pg_inv_def)
  then show ?thesis using assms(1) by (auto simp: pg_inv_def)
qed

lemma pg_held_row:
  assumes "pg_inv tbl" and "pg_held tbl now l"
  shows "\<exists>r. map_of tbl (jl_job_id l) = Some r \<and> pj_id r = jl_job_id l \<and> pj_result r = None
    \<and> (\<forall>upd. fenced_update (sql_update (jl_job_id l) (sql_active (jl_token l) (jl_generation l) (now div 1000)) upd) tbl
      = (Inr (), AList.update (jl_job_id l) (upd r) tbl))"
proof -
  obtain r where r: "map_of tbl (jl_job_id l) = Some r"
      "sql_active (jl_token l) (jl_generation l) (now div 1000) r"
    using assms(2) by (auto simp: pg_held_def)
  then show ?thesis
    using assms(1) by (auto simp: pg_inv_def fenced_update_def sql_update_def sql_active_def)
qed

interpretation postgres: lease_repository "pg_claim busy" pg_complete pg_fail pg_inv pg_held pg_state artifact_value
  for busy
proof unfold_locales
  fix tbl ts ttl now tok l t
  assume inv: "pg_inv tbl" and cl: "pg_claim busy ts ttl now tok tbl = (Inr (Some l), t)"
  obtain r u where ttl: "pg_ttl ttl = Inr u" and r: "r \<in> snd ` set tbl" "sql_claimable (map job_type_value ts) (now div 1000) r"
    and t: "t = AList.update (pj_id r) (r\<lparr>pj_state := ''leased'', pj_attempt := pj_attempt r + 1,
        pj_generation := pj_generation r + 1, pj_token := Some tok, pj_expires := Some (now div 1000 + u)\<rparr>) tbl"
    and l: "lease_from_row (r\<lparr>pj_state := ''leased'', pj_attempt := pj_attempt r + 1,
        pj_generation := pj_generation r + 1, pj_token := Some tok, pj_expires := Some (now div 1000 + u)\<rparr>) = Inr l"
    using pg_claim_cases [OF cl] by blast
  have u: "0 < u" using ttl by (rule pg_ttl_Inr)
  have "map_of tbl (pj_id r) = Some r" using inv r(1) by (rule pg_inv_values)
  then have "pj_result r = None" using inv r(2) by (auto simp: pg_inv_def sql_claimable_def)
  then have "pg_inv t" unfolding t using inv by (intro pg_inv_update) auto
  moreover have "pg_held t now l"
    using lease_from_row_Inr [OF l] u by (simp add: pg_held_def t update_conv' sql_active_def)
  moreover have "jl_type l \<in> set ts"
    using lease_from_row_Inr [OF l] r(2) by (auto simp: sql_claimable_def)
  ultimately show "pg_inv t \<and> pg_held t now l \<and> jl_type l \<in> set ts" by blast
next
  fix tbl ts ttl now tok t
  assume "pg_inv tbl" "pg_claim busy ts ttl now tok tbl = (Inr None, t)"
  then show "t = tbl"
    by (auto simp: pg_claim_def sql_claim_job_def Let_def bindE_def split: if_splits sum.splits option.splits prod.splits)
next
  fix tbl now l ref
  assume inv: "pg_inv tbl" and "pg_held tbl now l"
  then obtain r where r: "pj_id r = jl_job_id l"
      "\<And>upd. fenced_update (sql_update (jl_job_id l) (sql_active (jl_token l) (jl_generation l) (now div 1000)) upd) tbl
        = (Inr (), AList.update (jl_job_id l) (upd r) tbl)"
    using pg_held_row by blast
  show "\<exists>t. pg_complete (jl_job_id l) (jl_token l) (jl_generation l) ref now tbl = (Inr (), t) \<and> pg_inv t
      \<and> pg_state t = (pg_state tbl)(jl_job_id l \<mapsto> (SUCCEEDED, Some (artifact_value ref)))"
    using inv r read_job_state_back [of SUCCEEDED]
    by (auto simp: pg_complete_def sql_complete_job_def pg_state_update [of _ SUCCEEDED] intro!: pg_inv_update)
next
  fix tbl now l ref
  assume "pg_inv tbl" and lost: "\<not> pg_held tbl now l"
  then show "\<exists>e. pg_complete (jl_job_id l) (jl_token l) (jl_generation l) ref now tbl = (Inl e, tbl)"
    by (simp add: pg_complete_def sql_complete_job_def fenced_lost)
next
  fix tbl now l why now'
  assume inv: "pg_inv tbl" and "pg_held tbl now l" and why: "(why :: string) \<noteq> []"
  then obtain r where r: "pj_id r = jl_job_id l" "pj_result r = None"
      "\<And>upd. fenced_update (sql_update (jl_job_id l) (sql_active (jl_token l) (jl_generation l) (now div 1000)) upd) tbl
        = (Inr (), AList.update (jl_job_id l) (upd r) tbl)"
    using pg_held_row by blast
  show "\<exists>t. pg_fail (jl_job_id l) (jl_token l) (jl_generation l) why None now now' tbl = (Inr (), t) \<and> pg_inv t
      \<and> pg_state t = (pg_state tbl)(jl_job_id l \<mapsto> (FAILED, None))"
    using inv r why read_job_state_back [of FAILED]
    by (auto simp: pg_fail_def sql_fail_job_def pg_state_update [of _ FAILED] intro!: pg_inv_update)
next
  fix tbl now l why ra now'
  assume "pg_inv tbl" and lost: "\<not> pg_held tbl now l"
  then show "\<exists>e. pg_fail (jl_job_id l) (jl_token l) (jl_generation l) why ra now now' tbl = (Inl e, tbl)"
    using fenced_lost [OF lost]
    by (cases "why = []") (auto simp: pg_fail_def sql_fail_job_def split: sum.split)
qed

subsection \<open>The lease as its history tells it\<close>

text \<open>
  Other workers act on the table between a claim and its end: operations with the rows locked at each,
  and the history of the operations with their answers. A lease is taken over when a later claim returns
  the job, handed back when completing, failing or parking it under this lease is answered, and renewed
  by an answered heartbeat under this lease. It lasts until the expiry that its last grant gave.
\<close>

type_synonym pg_entry = "job_op \<times> (job_error, job_lease option) result"

fun pg_run :: "(string list \<times> job_op) list \<Rightarrow> job_table \<Rightarrow> job_table" where
  "pg_run [] tbl = tbl"
| "pg_run ((busy, oper) # xs) tbl = pg_run xs (snd (pg_step busy oper tbl))"

fun pg_history :: "(string list \<times> job_op) list \<Rightarrow> job_table \<Rightarrow> pg_entry list" where
  "pg_history [] tbl = []"
| "pg_history ((busy, oper) # xs) tbl =
     (oper, fst (pg_step busy oper tbl)) # pg_history xs (snd (pg_step busy oper tbl))"

definition lease_key :: "job_lease \<Rightarrow> string \<times> string \<times> int" where
  "lease_key l = (jl_job_id l, jl_token l, jl_generation l)"

fun handed_key :: "job_op \<Rightarrow> (string \<times> string \<times> int) option" where
  "handed_key (Complete i tok g ref now) = Some (i, tok, g)"
| "handed_key (Fail i tok g why ra now now') = Some (i, tok, g)"
| "handed_key (Park i tok g why now) = Some (i, tok, g)"
| "handed_key _ = None"

fun renewal :: "job_op \<Rightarrow> ((string \<times> string \<times> int) \<times> int \<times> pyfloat) option" where
  "renewal (Heartbeat i tok g ttl now) = Some ((i, tok, g), now, ttl)"
| "renewal _ = None"

fun claims_job :: "string \<Rightarrow> pg_entry \<Rightarrow> bool" where
  "claims_job i (Claim ts ttl now tok, Inr (Some l)) \<longleftrightarrow> jl_job_id l = i"
| "claims_job i _ \<longleftrightarrow> False"

definition hands_back :: "job_lease \<Rightarrow> pg_entry \<Rightarrow> bool" where
  "hands_back l x \<longleftrightarrow> is_ok (snd x) \<and> handed_key (fst x) = Some (lease_key l)"

definition renewed :: "job_lease \<Rightarrow> int \<times> pyfloat \<Rightarrow> pg_entry \<Rightarrow> int \<times> pyfloat" where
  "renewed l granted x =
     (case renewal (fst x) of
        Some (k, grant) \<Rightarrow> if is_ok (snd x) \<and> k = lease_key l then grant else granted
      | None \<Rightarrow> granted)"

definition last_grant :: "job_lease \<Rightarrow> int \<times> pyfloat \<Rightarrow> pg_entry list \<Rightarrow> int \<times> pyfloat" where
  "last_grant l first h = foldl (renewed l) first h"

definition still_leased :: "job_lease \<Rightarrow> int \<times> pyfloat \<Rightarrow> pg_entry list \<Rightarrow> int \<Rightarrow> bool" where
  "still_leased l first h now \<longleftrightarrow>
     \<not> (\<exists>x \<in> set h. claims_job (jl_job_id l) x) \<and> \<not> (\<exists>x \<in> set h. hands_back l x)
     \<and> (case last_grant l first h of (granted, ttl) \<Rightarrow> \<exists>e. lease_until granted ttl e \<and> now < e)"

lemma fenced_cases:
  assumes "fenced_update (sql_update j cond upd) tbl = (res, t)"
  obtains (ok) r where "res = Inr ()" "map_of tbl j = Some r" "cond r" "t = AList.update j (upd r) tbl"
  | (refused) e where "res = Inl e" "t = tbl"
  using assms by (auto simp: fenced_update_def sql_update_def split: option.splits if_splits prod.splits)

lemma pg_claim_keeps: "pg_claim busy ts ttl now tok tbl = (res, t) \<Longrightarrow> (\<And>l. res \<noteq> Inr (Some l)) \<Longrightarrow> t = tbl"
  by (auto simp: pg_claim_def sql_claim_job_def Let_def bindE_def split: if_splits sum.splits option.splits prod.splits)

definition row_moves :: "string \<Rightarrow> pg_entry \<Rightarrow> pg_job \<Rightarrow> pg_job \<Rightarrow> bool" where
  "row_moves i x r r' \<longleftrightarrow>
     (r' = r \<and> \<not> claims_job i x
       \<and> (is_ok (snd x) \<longrightarrow> (\<forall>k. handed_key (fst x) \<noteq> Some (i, k)) \<and> (\<forall>k q. renewal (fst x) \<noteq> Some ((i, k), q))))
   \<or> (claims_job i x \<and> pj_generation r' = pj_generation r + 1)
   \<or> (\<exists>tok g now ttl u. is_ok (snd x) \<and> renewal (fst x) = Some ((i, tok, g), now, ttl)
       \<and> sql_active tok g (now div 1000) r \<and> pg_ttl ttl = Inr u \<and> r' = r\<lparr>pj_expires := Some (now div 1000 + u)\<rparr>)
   \<or> (\<exists>tok g now. is_ok (snd x) \<and> handed_key (fst x) = Some (i, tok, g) \<and> sql_active tok g now r
       \<and> pj_state r' \<noteq> ''leased'' \<and> pj_generation r' = pj_generation r)"

lemma claims_job_reply: "claims_job i x \<Longrightarrow> \<exists>l. snd x = Inr (Some l)"
  by (induction i x rule: claims_job.induct) auto

lemma row_same:
  "\<not> claims_job i x \<Longrightarrow> (is_ok (snd x) \<Longrightarrow> (\<forall>k. handed_key (fst x) \<noteq> Some (i, k)) \<and> (\<forall>k q. renewal (fst x) \<noteq> Some ((i, k), q)))
    \<Longrightarrow> row_moves i x r r"
  unfolding row_moves_def by blast

definition moves_rows :: "job_table \<Rightarrow> pg_entry \<Rightarrow> job_table \<Rightarrow> bool" where
  "moves_rows tbl x t \<longleftrightarrow> pg_inv t \<and>
     (\<forall>i r. map_of tbl i = Some r \<longrightarrow> (\<exists>r'. map_of t i = Some r' \<and> row_moves i x r r'))"

lemma moves_refused: "pg_inv tbl \<Longrightarrow> \<not> is_ok (snd x) \<Longrightarrow> moves_rows tbl x tbl"
  unfolding moves_rows_def by (auto intro!: row_same dest: claims_job_reply simp: is_ok_def)

text \<open>A fenced update that hands its job back.\<close>

lemma fenced_moves:
  assumes inv: "pg_inv tbl" and run: "fenced_update (sql_update j cond upd) tbl = (res, t)"
    and cond: "\<And>r. cond r \<Longrightarrow> sql_active tok g now r"
    and upd: "\<And>r. pj_id (upd r) = pj_id r \<and> pj_generation (upd r) = pj_generation r \<and> pj_state (upd r) \<noteq> ''leased''
      \<and> (pj_state (upd r) \<in> {''ready'', ''leased'', ''failed''} \<longrightarrow> pj_result (upd r) = pj_result r)"
    and oper: "handed_key oper = Some (j, tok, g)"
  shows "moves_rows tbl (oper, bindE res (\<lambda>_. Inr None)) t"
  using run
proof (cases rule: fenced_cases)
  case (ok r)
  have "sql_active tok g now r" using ok(3) by (rule cond)
  then have "pj_state r = ''leased''" by (simp add: sql_active_def)
  then have row: "pj_id r = j" "pj_result r = None" using inv ok(2) by (auto simp: pg_inv_def)
  have "pg_inv t"
    unfolding ok(4) using inv upd [of r] row by (intro pg_inv_update) auto
  moreover have "row_moves j (oper, Inr None) r (upd r)"
    using \<open>sql_active tok g now r\<close> upd [of r] oper unfolding row_moves_def by (auto simp: is_ok_def)
  moreover have "row_moves i (oper, Inr None) q q" if "i \<noteq> j" for i q
    using that oper by (intro row_same) (cases oper; simp)+
  ultimately show ?thesis
    unfolding moves_rows_def ok(1) using ok(2,4) by (auto simp: update_conv')
next
  case (refused e)
  then show ?thesis using inv by (simp add: moves_refused is_ok_def)
qed

lemma heartbeat_moves:
  assumes inv: "pg_inv tbl" and run: "pg_heartbeat j tok g ttl now tbl = (res, t)"
  shows "moves_rows tbl (Heartbeat j tok g ttl now, bindE res (\<lambda>l. Inr (Some l))) t"
proof (cases res)
  case (Inl e)
  with run have "t = tbl" by (auto simp: pg_heartbeat_def split: sum.splits option.splits prod.splits)
  then show ?thesis using inv Inl by (simp add: moves_refused is_ok_def)
next
  case (Inr l)
  then obtain u r where u: "pg_ttl ttl = Inr u" and r: "map_of tbl j = Some r" "sql_active tok g (now div 1000) r"
    and t: "t = AList.update j (r\<lparr>pj_expires := Some (now div 1000 + u)\<rparr>) tbl"
    using run by (auto simp: pg_heartbeat_def sql_heartbeat_job_def sql_update_def
      split: sum.splits option.splits prod.splits if_splits)
  have row: "pj_id r = j" "pj_result r = None" using inv r by (auto simp: pg_inv_def sql_active_def)
  have "pg_inv t" unfolding t using inv row by (intro pg_inv_update) auto
  moreover have "row_moves j (Heartbeat j tok g ttl now, Inr (Some l)) r (r\<lparr>pj_expires := Some (now div 1000 + u)\<rparr>)"
    using u r unfolding row_moves_def by (auto simp: is_ok_def)
  moreover have "row_moves i (Heartbeat j tok g ttl now, Inr (Some l)) q q" if "i \<noteq> j" for i q
    using that by (intro row_same) auto
  ultimately show ?thesis
    unfolding moves_rows_def t using r(1) Inr by (auto simp: update_conv')
qed

lemma claim_moves:
  assumes inv: "pg_inv tbl" and run: "pg_claim busy ts ttl now tok tbl = (res, t)"
  shows "moves_rows tbl (Claim ts ttl now tok, res) t"
proof (cases "\<exists>l. res = Inr (Some l)")
  case False
  then have "t = tbl" using pg_claim_keeps [OF run] by blast
  moreover have "\<not> claims_job i (Claim ts ttl now tok, res)" for i
    using False claims_job_reply [of i "(Claim ts ttl now tok, res)"] by auto
  ultimately show ?thesis unfolding moves_rows_def using inv by (auto intro!: row_same)
next
  case True
  then obtain l where l: "res = Inr (Some l)" by blast
  then have cl: "pg_claim busy ts ttl now tok tbl = (Inr (Some l), t)" using run by simp
  obtain r u where r: "r \<in> snd ` set tbl"
    and t: "t = AList.update (pj_id r) (r\<lparr>pj_state := ''leased'', pj_attempt := pj_attempt r + 1,
        pj_generation := pj_generation r + 1, pj_token := Some tok, pj_expires := Some (now div 1000 + u)\<rparr>) tbl"
    and lease: "lease_from_row (r\<lparr>pj_state := ''leased'', pj_attempt := pj_attempt r + 1,
        pj_generation := pj_generation r + 1, pj_token := Some tok, pj_expires := Some (now div 1000 + u)\<rparr>) = Inr l"
    using pg_claim_cases [OF cl] by blast
  have row: "map_of tbl (pj_id r) = Some r" using inv r by (rule pg_inv_values)
  have job: "jl_job_id l = pj_id r" using lease_from_row_Inr [OF lease] by simp
  have "pg_inv t" using postgres.claim_lease_ok [OF inv cl] by blast
  moreover have "row_moves i (Claim ts ttl now tok, res) q q" if "i \<noteq> pj_id r" for i q
    using that job l by (intro row_same) auto
  moreover have "row_moves (pj_id r) (Claim ts ttl now tok, res) r q" if "pj_generation q = pj_generation r + 1" for q
    using that job l by (simp add: row_moves_def)
  ultimately show ?thesis
    unfolding moves_rows_def t using row by (auto simp: update_conv')
qed

lemma enqueue_moves:
  assumes inv: "pg_inv tbl" and run: "pg_enqueue j ty p a now tbl = (res, t)"
  shows "moves_rows tbl (Enqueue j ty p a now, bindE res (\<lambda>_. Inr None)) t"
proof -
  have "t = tbl \<or> (map_of tbl j = None \<and> (\<exists>r. t = AList.update j r tbl \<and> pj_id r = j \<and> pj_result r = None))"
    using run by (auto simp: pg_enqueue_def sql_enqueue_job_def Let_def split: sum.splits option.splits if_splits)
  then show ?thesis
    unfolding moves_rows_def using inv
    by (auto intro!: row_same pg_inv_update simp: update_conv')
qed

lemma pg_step_moves:
  assumes inv: "pg_inv tbl"
  shows "moves_rows tbl (oper, fst (pg_step busy oper tbl)) (snd (pg_step busy oper tbl))"
proof (cases oper)
  case (Enqueue j ty p a now)
  with enqueue_moves [OF inv, of j ty p a now] show ?thesis by (simp add: bind_io_result)
next
  case (Claim ts ttl now tok)
  with claim_moves [OF inv, of busy ts ttl now tok] show ?thesis by simp
next
  case (Heartbeat j tok g ttl now)
  with heartbeat_moves [OF inv, of j tok g ttl now] show ?thesis by (simp add: bind_io_result)
next
  case (Complete j tok g ref now)
  have "moves_rows tbl (oper, bindE (fst (pg_complete j tok g ref now tbl)) (\<lambda>_. Inr None)) (snd (pg_complete j tok g ref now tbl))"
    unfolding pg_complete_def sql_complete_job_def
    by (rule fenced_moves [OF inv prod.collapse [symmetric], where now = "now div 1000"]) (auto simp: Complete)
  with Complete show ?thesis by (simp add: bind_io_result)
next
  case (Fail j tok g why ra now now')
  have "moves_rows tbl (oper, bindE (fst (pg_fail j tok g why ra now now' tbl)) (\<lambda>_. Inr None)) (snd (pg_fail j tok g why ra now now' tbl))"
  proof (cases "(if why = [] then Inl (ValueError Empty_Reason)
      else case ra of None \<Rightarrow> Inr (now' div 1000) | Some a \<Rightarrow> ns_to_datetime a)")
    case (Inl e)
    then have "pg_fail j tok g why ra now now' tbl = (Inl e, tbl)" by (auto simp: pg_fail_def split: if_splits sum.splits)
    then show ?thesis using inv by (simp add: moves_refused is_ok_def)
  next
    case (Inr retry)
    then have run: "pg_fail j tok g why ra now now' tbl = fenced_update (sql_fail_job j tok g why retry (now div 1000)) tbl"
      by (auto simp: pg_fail_def split: if_splits)
    show ?thesis
      unfolding run sql_fail_job_def
      by (rule fenced_moves [OF inv prod.collapse [symmetric], where now = "now div 1000"]) (auto simp: Fail)
  qed
  with Fail show ?thesis by (simp add: bind_io_result)
next
  case (Park j tok g why now)
  have "moves_rows tbl (oper, bindE (fst (pg_park j tok g why now tbl)) (\<lambda>_. Inr None)) (snd (pg_park j tok g why now tbl))"
  proof (cases "validate_park_reason why")
    case (Inl e)
    then show ?thesis using inv by (simp add: pg_park_def moves_refused is_ok_def)
  next
    case (Inr x)
    then have run: "pg_park j tok g why now tbl = fenced_update (sql_park_job j tok g why (now div 1000)) tbl"
      by (simp add: pg_park_def)
    show ?thesis
      unfolding run sql_park_job_def
      by (rule fenced_moves [OF inv prod.collapse [symmetric], where now = "now div 1000"]) (auto simp: Park)
  qed
  with Park show ?thesis by (simp add: bind_io_result)
qed

text \<open>What the row says of a lease after a history.\<close>

definition lease_row :: "job_lease \<Rightarrow> int \<times> pyfloat \<Rightarrow> pg_entry list \<Rightarrow> job_table \<Rightarrow> bool" where
  "lease_row l first h tbl \<longleftrightarrow>
     (\<exists>r. map_of tbl (jl_job_id l) = Some r \<and>
       (if \<exists>x \<in> set h. claims_job (jl_job_id l) x then jl_generation l < pj_generation r
        else pj_generation r = jl_generation l
          \<and> (if \<exists>x \<in> set h. hands_back l x then pj_state r \<noteq> ''leased''
             else pj_state r = ''leased'' \<and> pj_token r = Some (jl_token l)
               \<and> (\<exists>u. pg_ttl (snd (last_grant l first h)) = Inr u
                    \<and> pj_expires r = Some (fst (last_grant l first h) div 1000 + u)))))"

lemma last_grant_snoc: "last_grant l first (h @ [x]) = renewed l (last_grant l first h) x"
  by (simp add: last_grant_def)

lemma not_a_claim:
  "handed_key oper = Some k \<Longrightarrow> \<not> claims_job i (oper, res)" "renewal oper = Some q \<Longrightarrow> \<not> claims_job i (oper, res)"
  "handed_key oper = Some k \<Longrightarrow> renewal oper = None" "renewal oper = Some q \<Longrightarrow> handed_key oper = None"
  by (cases oper; simp)+

lemma lease_row_step:
  assumes before: "lease_row l first h tbl" and moves: "moves_rows tbl x t"
  shows "lease_row l first (h @ [x]) t"
proof -
  let ?i = "jl_job_id l"
  let ?taken = "\<exists>x \<in> set h. claims_job ?i x" and ?handed = "\<exists>x \<in> set h. hands_back l x"
  obtain oper res where x: "x = (oper, res)" by (cases x)
  obtain r where r: "map_of tbl ?i = Some r"
    and row: "if ?taken then jl_generation l < pj_generation r
      else pj_generation r = jl_generation l
        \<and> (if ?handed then pj_state r \<noteq> ''leased''
           else pj_state r = ''leased'' \<and> pj_token r = Some (jl_token l)
             \<and> (\<exists>u. pg_ttl (snd (last_grant l first h)) = Inr u
                  \<and> pj_expires r = Some (fst (last_grant l first h) div 1000 + u)))"
    using before unfolding lease_row_def by blast
  obtain r' where r': "map_of t ?i = Some r'" and m: "row_moves ?i x r r'"
    using moves r unfolding moves_rows_def by blast
  note sets = lease_row_def r' last_grant_snoc
  consider
      (same) "r' = r" "\<not> claims_job ?i x"
        "is_ok res \<longrightarrow> (\<forall>k. handed_key oper \<noteq> Some (?i, k)) \<and> (\<forall>k q. renewal oper \<noteq> Some ((?i, k), q))"
    | (claim) "claims_job ?i x" "pj_generation r' = pj_generation r + 1"
    | (renew) tok g now ttl u where "is_ok res" "renewal oper = Some ((?i, tok, g), now, ttl)"
        "sql_active tok g (now div 1000) r" "pg_ttl ttl = Inr u" "r' = r\<lparr>pj_expires := Some (now div 1000 + u)\<rparr>"
    | (handed) tok g now where "is_ok res" "handed_key oper = Some (?i, tok, g)" "sql_active tok g now r"
        "pj_state r' \<noteq> ''leased''" "pj_generation r' = pj_generation r"
    using m unfolding row_moves_def x fst_conv snd_conv by blast
  then show ?thesis
  proof cases
    case same
    have "\<not> hands_back l x" "renewed l q x = q" for q
      using same(3) by (auto simp: hands_back_def renewed_def x lease_key_def split: option.splits)
    with same row show ?thesis unfolding sets by simp
  next
    case claim
    then have "jl_generation l < pj_generation r'" using row by (auto split: if_splits)
    with claim(1) show ?thesis unfolding sets by simp
  next
    case renew
    have no: "\<not> claims_job ?i x" "\<not> hands_back l x"
      using renew(2) not_a_claim by (auto simp: x hands_back_def)
    show ?thesis
    proof (cases "?taken \<or> ?handed")
      case True
      then have "?taken" using row renew(3) by (auto simp: sql_active_def split: if_splits)
      then show ?thesis using row renew(5) no unfolding sets by simp
    next
      case False
      then have "(?i, tok, g) = lease_key l" using row renew(3) by (simp add: sql_active_def lease_key_def)
      then have "renewed l q x = (now, ttl)" for q using renew(1,2) by (simp add: renewed_def x)
      with False row renew(4,5) no show ?thesis unfolding sets by simp
    qed
  next
    case handed
    have no: "\<not> claims_job ?i x" using handed(2) not_a_claim by (simp add: x)
    show ?thesis
    proof (cases "?taken \<or> ?handed")
      case True
      then have "?taken" using row handed(3) by (auto simp: sql_active_def split: if_splits)
      then show ?thesis using row handed(5) no unfolding sets by simp
    next
      case False
      then have "(?i, tok, g) = lease_key l" using row handed(3) by (simp add: sql_active_def lease_key_def)
      then have "hands_back l x" using handed(1,2) by (simp add: hands_back_def x)
      with False row handed(4,5) no show ?thesis unfolding sets by simp
    qed
  qed
qed

lemma lease_row_run:
  "pg_inv tbl \<Longrightarrow> lease_row l first h tbl \<Longrightarrow>
     pg_inv (pg_run xs tbl) \<and> lease_row l first (h @ pg_history xs tbl) (pg_run xs tbl)"
proof (induction xs arbitrary: tbl h)
  case (Cons x xs)
  obtain busy oper where x: "x = (busy, oper)" by (cases x)
  let ?t = "snd (pg_step busy oper tbl)"
  note moves = pg_step_moves [OF Cons.prems(1), of oper busy]
  have "pg_inv ?t" using moves by (simp add: moves_rows_def)
  moreover have "lease_row l first (h @ [(oper, fst (pg_step busy oper tbl))]) ?t"
    using Cons.prems(2) moves by (rule lease_row_step)
  ultimately show ?case using Cons.IH [of ?t "h @ [(oper, fst (pg_step busy oper tbl))]"] by (simp add: x)
qed simp

lemma lease_until_iff:
  assumes "pg_ttl ttl = Inr u"
  shows "lease_until now ttl e \<longleftrightarrow> e = 1000 * (now div 1000 + u)"
  using lease_until_ttl [OF assms] assms by (auto simp: lease_until_def us_def)

lemma lease_row_held:
  assumes "lease_row l first h tbl"
  shows "pg_held tbl now l \<longleftrightarrow> still_leased l first h now"
proof -
  obtain granted ttl where g: "last_grant l first h = (granted, ttl)" by (cases "last_grant l first h")
  obtain r where r: "map_of tbl (jl_job_id l) = Some r" and
    row: "if \<exists>x \<in> set h. claims_job (jl_job_id l) x then jl_generation l < pj_generation r
        else pj_generation r = jl_generation l
          \<and> (if \<exists>x \<in> set h. hands_back l x then pj_state r \<noteq> ''leased''
             else pj_state r = ''leased'' \<and> pj_token r = Some (jl_token l)
               \<and> (\<exists>u. pg_ttl ttl = Inr u \<and> pj_expires r = Some (granted div 1000 + u)))"
    using assms unfolding lease_row_def g fst_conv snd_conv by blast
  show ?thesis
  proof (cases "(\<exists>x \<in> set h. claims_job (jl_job_id l) x) \<or> (\<exists>x \<in> set h. hands_back l x)")
    case True
    then show ?thesis using r row by (auto simp: pg_held_def sql_active_def still_leased_def split: if_splits)
  next
    case False
    then obtain u where u: "pg_ttl ttl = Inr u"
      and act: "pj_generation r = jl_generation l" "pj_state r = ''leased''" "pj_token r = Some (jl_token l)"
        "pj_expires r = Some (granted div 1000 + u)"
      using row by auto
    have "now div 1000 < granted div 1000 + u \<longleftrightarrow> now < 1000 * (granted div 1000 + u)"
      using whole_us_le [OF whole_us_mult, of "granted div 1000 + u" now] by (simp flip: not_le)
    with False r act g u show ?thesis
      by (simp add: pg_held_def sql_active_def still_leased_def lease_until_iff)
  qed
qed

lemma lease_row_claimed:
  assumes inv: "pg_inv tbl" and cl: "pg_claim busy ts ttl now tok tbl = (Inr (Some l), t)"
  shows "lease_row l (now, ttl) [] t"
proof -
  obtain r u where "pg_ttl ttl = Inr u"
    and "t = AList.update (pj_id r) (r\<lparr>pj_state := ''leased'', pj_attempt := pj_attempt r + 1,
        pj_generation := pj_generation r + 1, pj_token := Some tok, pj_expires := Some (now div 1000 + u)\<rparr>) tbl"
    and "lease_from_row (r\<lparr>pj_state := ''leased'', pj_attempt := pj_attempt r + 1,
        pj_generation := pj_generation r + 1, pj_token := Some tok, pj_expires := Some (now div 1000 + u)\<rparr>) = Inr l"
    using pg_claim_cases [OF cl] by blast
  then show ?thesis
    by (auto simp: lease_row_def last_grant_def update_conv' dest!: lease_from_row_Inr)
qed

text \<open>
  C22. The analysis worker over PostgreSQL publishes only under its own lease. Between its claim and
  its end any workers run any operations on the table. If in their history no claim returned the job
  and nobody completed, failed or parked it under this lease, and the clock stands before the expiry
  that the claim, or the last answered heartbeat under this lease, granted, then the job becomes
  succeeded with exactly the worker's result when its processor returns one, and failed when it raises,
  every other job staying as the others left it; otherwise the cycle raises and changes nothing. In
  particular the cycle reports success only in the first case.
\<close>

theorem pg_worker_publishes_under_its_lease:
  assumes "pg_inv tbl" and "pg_claim busy [RECORDING_ANALYSIS, MODEL_ANALYSIS] ttl now0 tok tbl = (Inr (Some l), t1)"
  shows "let t = pg_run xs t1; leased = still_leased l (now0, ttl) (pg_history xs t1) now1
    in case process_one_job (pg_claim busy) pg_complete pg_fail ttl now0 now1 now2 tok process (pg_run xs) tbl of
         (Inr _, t') \<Rightarrow> leased \<and> (\<exists>ref. process l = Inr ref
           \<and> pg_state t' = (pg_state t)(jl_job_id l \<mapsto> (SUCCEEDED, Some (artifact_value ref))))
       | (Inl _, t') \<Rightarrow>
           if leased then (\<exists>cls. process l = Inl cls) \<and> pg_state t' = (pg_state t)(jl_job_id l \<mapsto> (FAILED, None))
           else t' = t"
proof -
  let ?t = "pg_run xs t1" and ?leased = "still_leased l (now0, ttl) (pg_history xs t1) now1"
  let ?run = "process_one_job (pg_claim busy) pg_complete pg_fail ttl now0 now1 now2 tok process (pg_run xs) tbl"
  have inv1: "pg_inv t1" using postgres.claim_lease_ok [OF assms] by blast
  have t: "pg_inv ?t" "lease_row l (now0, ttl) (pg_history xs t1) ?t"
    using lease_row_run [OF inv1 lease_row_claimed [OF assms], of xs] by simp_all
  have held: "pg_held ?t now1 l \<longleftrightarrow> ?leased" using t(2) by (rule lease_row_held)
  note run = process_one_job_def bind_io_def ret_def lift_def assms(2)
  show ?thesis
  proof (cases ?leased)
    case True
    with held have h: "pg_held ?t now1 l" by simp
    show ?thesis
    proof (cases "process l")
      case (Inl cls)
      have "cls @ '': processor failed'' \<noteq> []" by simp
      from postgres.fail_held [OF t(1) h this, of now2] Inl True show ?thesis by (auto simp: run)
    next
      case (Inr ref)
      from postgres.complete_held [OF t(1) h, of ref] Inr True show ?thesis by (auto simp: run)
    qed
  next
    case False
    with held have h: "\<not> pg_held ?t now1 l" by simp
    show ?thesis
    proof (cases "process l")
      case (Inl cls)
      from postgres.fail_lost [OF t(1) h, of "cls @ '': processor failed''" None now2] Inl False show ?thesis
        by (auto simp: run)
    next
      case (Inr ref)
      from postgres.complete_lost [OF t(1) h, of ref] Inr False show ?thesis by (auto simp: run)
    qed
  qed
qed

text \<open>A job waiting since the start of the epoch, claimed and then taken over by another worker.\<close>

definition demo_table :: job_table where
  "demo_table = job_rows [(''job_a'', new_job_record ''job_a'' RECORDING_ANALYSIS demo_payload 0)]"

lemma demo_whole: "whole_repo [(''job_a'', new_job_record ''job_a'' RECORDING_ANALYSIS demo_payload 0)]"
  by (auto simp: whole_repo_def repo_wf_def job_wf_new whole_us_def)

lemma demo_table_inv: "pg_inv demo_table"
  by (auto simp: demo_table_def pg_inv_def job_rows_def job_row_def new_job_record_def)

lemma demo_pg_claim:
  "pg_claim [] worker_types 1 10000 ''t1'' demo_table
     = (Inr (Some (demo_lease ''t1'' 1 1000010000)), snd (pg_claim [] worker_types 1 10000 ''t1'' demo_table))"
  by code_simp

theorem pg_step_refines_witness:
  "\<exists>s'. whole_repo s' \<and> snd (pg_step [] (Claim worker_types 1 10000 ''t1'') demo_table) = job_rows s'"
  using pg_step_refines [OF demo_whole, of "Claim worker_types 1 10000 ''t1''" "[]"]
  by (auto simp: demo_table_def simp del: pg_step.simps pg_effect.simps)

text \<open>
  Another worker takes the expired lease over: the worker changes nothing. Without it, it publishes.
\<close>

definition demo_others :: "(string list \<times> job_op) list" where
  "demo_others = [([], Claim worker_types 1 2000000000 ''t2'')]"

lemma demo_pg_alone:
  "fst (process_one_job (pg_claim []) pg_complete pg_fail 1 10000 20000 30000 ''t1'' (\<lambda>_. Inr demo_result)
     (pg_run []) demo_table) = Inr True"
  by code_simp

lemma demo_pg_taken_over:
  "fst (process_one_job (pg_claim []) pg_complete pg_fail 1 10000 2000000001 2000000002 ''t1'' (\<lambda>_. Inr demo_result)
     (pg_run demo_others) demo_table) = Inl (RuntimeError Stale_Lease)"
  by code_simp

theorem pg_worker_publishes_under_its_lease_witness:
  "pg_state (snd (process_one_job (pg_claim []) pg_complete pg_fail 1 10000 20000 30000 ''t1''
       (\<lambda>_. Inr demo_result) (pg_run []) demo_table)) ''job_a'' = Some (SUCCEEDED, Some (artifact_value demo_result))
   \<and> snd (process_one_job (pg_claim []) pg_complete pg_fail 1 10000 2000000001 2000000002 ''t1''
       (\<lambda>_. Inr demo_result) (pg_run demo_others) demo_table)
     = pg_run demo_others (snd (pg_claim [] worker_types 1 10000 ''t1'' demo_table))"
proof
  show "pg_state (snd (process_one_job (pg_claim []) pg_complete pg_fail 1 10000 20000 30000 ''t1''
      (\<lambda>_. Inr demo_result) (pg_run []) demo_table)) ''job_a'' = Some (SUCCEEDED, Some (artifact_value demo_result))"
    using pg_worker_publishes_under_its_lease [where xs = "[]" and process = "\<lambda>_. Inr demo_result",
        OF demo_table_inv demo_pg_claim, of 20000 30000] demo_pg_alone
    by (auto simp: demo_lease_def Let_def split: prod.splits sum.splits)
  show "snd (process_one_job (pg_claim []) pg_complete pg_fail 1 10000 2000000001 2000000002 ''t1''
       (\<lambda>_. Inr demo_result) (pg_run demo_others) demo_table)
     = pg_run demo_others (snd (pg_claim [] worker_types 1 10000 ''t1'' demo_table))"
    using pg_worker_publishes_under_its_lease [where xs = demo_others and process = "\<lambda>_. Inr demo_result",
        OF demo_table_inv demo_pg_claim, of 2000000001 2000000002] demo_pg_taken_over
    by (auto simp: Let_def split: prod.splits sum.splits if_splits simp del: pg_run.simps)
qed

text \<open>
  A payload item that is a list of pairs is stored as an object and comes back in the order of
  its keys: the worker does not get the payload that was enqueued.
\<close>

lemma payload_pairs_reordered:
  "let p = \<lparr>pl_schema = schema_v0_1 ''leo_flow.recording'',
            pl_value = [(''steps'', freeze_value (JList [JList [JStr ''b'', JInt 1], JList [JStr ''a'', JInt 2]]))]\<rparr>
   in freeze_object (payload_json p)
        = Inr [(''steps'', freeze_value (JList [JList [JStr ''a'', JInt 2], JList [JStr ''b'', JInt 1]]))]
      \<and> freeze_object (payload_json p) \<noteq> Inr (pl_value p)"
  by code_simp

end
