(* ===== verification/Continuity.thy ===== *)
theory Continuity
  imports Core_Types Float64
begin

section \<open>Capture continuity\<close>

text \<open>
  \<open>contracts/continuity.py\<close>: what one IQ refill is observed to be, the verification that
  a sequence of refills stores every sample once and in radio order, the gaps it derives,
  the spans of stored samples that are contiguous in radio time, and the analysis windows
  that stay inside one span. Gain and RSSI readings are floats that may be infinite or
  NaN; such a reading is \<open>None\<close>.
\<close>

datatype continuity_error =
    Empty_Provenance | Bad_Gain_Observation | Gain_Not_Finite
  | Bad_Refill_Counters | Empty_Refill_Interval | Not_Two_Receivers | Endpoint_Not_Finite
  | Duplicate_Flags | Bad_Gap | Gap_Without_Loss | Empty_Span | Span_Sequences_Differ
  | Empty_Window | Not_Two_Chains | No_Refills | Buffer_Gap | Sample_Gap | No_Gap
  | Gaps_Differ | Untrusted_Evidence | Not_Verified | Bad_Window_Size | Refill_Index_Order
  | Failure_Flags | First_Offset | Stream_Changed | Buffer_Regressed | Samples_Overlap
  | Stored_Gap | Buffer_Gap_Only | Times_Contradict | No_Such_Refill

datatype continuity_policy = REQUIRE_CONTIGUOUS | ALLOW_VERIFIED_GAPPED | ALLOW_UNVERIFIED

datatype continuity_status = VERIFIED_CONTIGUOUS | VERIFIED_GAPPED | UNVERIFIED

datatype refill_flag =
    DEVICE_IIO_OVERFLOW | GAIN_READ_FAILED | RSSI_READ_FAILED | GAIN_OBSERVATION_OVERFLOW
  | FPGA_EVENT_OVERFLOW | METADATA_READ_FAILED

record capture_provenance =
  firmware_release :: string
  firmware_commit :: string
  host_libiio_version :: string
  metadata_protocol :: string
  capability :: string

definition capture_provenance_post_init :: "capture_provenance \<Rightarrow> (continuity_error, unit) result" where
  "capture_provenance_post_init p =
     raise_first
       [(firmware_release p = [] \<or> firmware_commit p = [] \<or> host_libiio_version p = []
           \<or> metadata_protocol p = [] \<or> capability p = [], ValueError Empty_Provenance)]"

type_synonym reading = "pyfloat option"

definition isfinite :: "reading \<Rightarrow> bool" where
  "isfinite x \<longleftrightarrow> x \<noteq> None"

record gain_observation =
  go_before :: int
  go_after :: int
  read_duration_ns :: int
  gain_db :: "reading list"

definition gain_observation_post_init :: "gain_observation \<Rightarrow> (continuity_error, unit) result" where
  "gain_observation_post_init g =
     raise_first
       [(go_before g < 0 \<or> go_after g < go_before g \<or> read_duration_ns g < 0 \<or> gain_db g = [],
           ValueError Bad_Gain_Observation),
        (\<not> list_all isfinite (gain_db g), ValueError Gain_Not_Finite)]"

record refill =
  refill_index :: int
  segment_sample_offset :: int
  sample_count :: int
  stream_id :: int
  buffer_sequence :: int
  first_sample_sequence :: int
  monotonic_start_ns :: int
  monotonic_end_ns :: int
  utc_start_ns :: int
  utc_end_ns :: int
  time_uncertainty_ns :: int
  gain_db_start :: "reading list"
  gain_db_end :: "reading list"
  rssi_db_start :: "reading list"
  rssi_db_end :: "reading list"
  gain_observation_overflow_count :: int
  gain_event_overflow_count :: int
  gain_observations :: "gain_observation list"
  flags :: "refill_flag list"

definition refill_post_init :: "refill \<Rightarrow> (continuity_error, unit) result" where
  "refill_post_init r =
     raise_first
       [(list_ex (\<lambda>v. v < 0)
           [refill_index r, segment_sample_offset r, stream_id r, buffer_sequence r,
            first_sample_sequence r, monotonic_start_ns r, utc_start_ns r,
            time_uncertainty_ns r, gain_observation_overflow_count r,
            gain_event_overflow_count r]
         \<or> sample_count r \<le> 0, ValueError Bad_Refill_Counters),
        (monotonic_end_ns r \<le> monotonic_start_ns r \<or> utc_end_ns r \<le> utc_start_ns r,
           ValueError Empty_Refill_Interval),
        (set [length (gain_db_start r), length (gain_db_end r), length (rssi_db_start r),
              length (rssi_db_end r)] \<noteq> {2}, ValueError Not_Two_Receivers),
        (\<not> list_all (list_all isfinite)
            [gain_db_start r, gain_db_end r, rssi_db_start r, rssi_db_end r],
           ValueError Endpoint_Not_Finite),
        (length (remdups (flags r)) \<noteq> length (flags r), ValueError Duplicate_Flags)]"

definition sequence_end :: "refill \<Rightarrow> int" where
  "sequence_end r = first_sample_sequence r + sample_count r"

record continuity_gap =
  prior_refill_index :: int
  next_refill_index :: int
  stored_sample_offset :: int
  first_missing_sample_sequence :: int
  next_sample_sequence :: int
  missing_sample_count :: int
  missing_buffer_count :: int

definition gap_post_init :: "continuity_gap \<Rightarrow> (continuity_error, unit) result" where
  "gap_post_init g =
     raise_first
       [(prior_refill_index g < 0 \<or> next_refill_index g \<noteq> prior_refill_index g + 1
           \<or> stored_sample_offset g \<le> 0 \<or> first_missing_sample_sequence g < 0
           \<or> next_sample_sequence g \<le> first_missing_sample_sequence g
           \<or> missing_sample_count g \<noteq> next_sample_sequence g - first_missing_sample_sequence g
           \<or> missing_buffer_count g < 0, ValueError Bad_Gap),
        (missing_sample_count g \<le> 0 \<and> missing_buffer_count g \<le> 0,
           ValueError Gap_Without_Loss)]"

record rf_span =
  sp_start :: int
  sp_stop :: int
  sp_first_sequence :: int
  sp_stop_sequence :: int

definition rf_span_post_init :: "rf_span \<Rightarrow> (continuity_error, unit) result" where
  "rf_span_post_init s =
     raise_first
       [(\<not> (0 \<le> sp_start s \<and> sp_start s < sp_stop s), ValueError Empty_Span),
        (sp_first_sequence s < 0 \<or> sp_stop_sequence s \<le> sp_first_sequence s
           \<or> sp_stop s - sp_start s \<noteq> sp_stop_sequence s - sp_first_sequence s,
           ValueError Span_Sequences_Differ)]"

record sample_window =
  win_start :: int
  win_stop :: int

definition window_post_init :: "sample_window \<Rightarrow> (continuity_error, unit) result" where
  "window_post_init w =
     raise_first
       [(\<not> (0 \<le> win_start w \<and> win_start w < win_stop w), ValueError Empty_Window)]"

subsection \<open>Verifying refills\<close>

text \<open>The loop of \<open>_verify_refills\<close>; \<open>expected\<close> is the enumeration index.\<close>

definition gap_between :: "refill \<Rightarrow> refill \<Rightarrow> continuity_gap" where
  "gap_between prior r =
     \<lparr>prior_refill_index = refill_index prior, next_refill_index = refill_index r,
      stored_sample_offset = segment_sample_offset r,
      first_missing_sample_sequence = sequence_end prior,
      next_sample_sequence = first_sample_sequence r,
      missing_sample_count = first_sample_sequence r - sequence_end prior,
      missing_buffer_count = buffer_sequence r - buffer_sequence prior - 1\<rparr>"

definition check_refill :: "int \<Rightarrow> refill \<Rightarrow> (continuity_error, unit) result" where
  "check_refill expected r =
     raise_first
       [(refill_index r \<noteq> expected, ValueError Refill_Index_Order),
        (flags r \<noteq> [] \<or> gain_observation_overflow_count r \<noteq> 0
           \<or> gain_event_overflow_count r \<noteq> 0, ValueError Failure_Flags)]"

definition check_pair :: "refill \<Rightarrow> refill \<Rightarrow> (continuity_error, continuity_gap list) result" where
  "check_pair prior r =
     bindE (raise_first
       [(stream_id r \<noteq> stream_id prior, ValueError Stream_Changed),
        (buffer_sequence r \<le> buffer_sequence prior, ValueError Buffer_Regressed),
        (first_sample_sequence r < sequence_end prior, ValueError Samples_Overlap),
        (segment_sample_offset r \<noteq> segment_sample_offset prior + sample_count prior,
           ValueError Stored_Gap)]) (\<lambda>_.
     let missing_buffers = buffer_sequence r - buffer_sequence prior - 1;
         missing_samples = first_sample_sequence r - sequence_end prior
     in bindE (if missing_buffers \<noteq> 0 \<or> missing_samples \<noteq> 0
               then (if missing_samples \<le> 0 then Inl (ValueError Buffer_Gap_Only)
                     else bindE (checked gap_post_init (gap_between prior r)) (\<lambda>g. Inr [g]))
               else Inr []) (\<lambda>gs.
        if monotonic_start_ns r + time_uncertainty_ns r
             < monotonic_end_ns prior - time_uncertainty_ns prior
        then Inl (ValueError Times_Contradict) else Inr gs))"

fun verify_from ::
  "int \<Rightarrow> refill option \<Rightarrow> refill list \<Rightarrow> (continuity_error, continuity_gap list) result" where
  "verify_from expected prior [] = Inr []"
| "verify_from expected prior (r # rs) =
     bindE (check_refill expected r) (\<lambda>_.
     bindE (case prior of
              None \<Rightarrow> (if segment_sample_offset r \<noteq> 0 then Inl (ValueError First_Offset) else Inr [])
            | Some p \<Rightarrow> check_pair p r) (\<lambda>gs.
     bindE (verify_from (expected + 1) (Some r) rs) (\<lambda>hs. Inr (gs @ hs))))"

definition verify_refills :: "refill list \<Rightarrow> (continuity_error, continuity_gap list) result" where
  "verify_refills rs = verify_from 0 None rs"

subsection \<open>Segment continuity\<close>

record segment_continuity =
  sc_status :: continuity_status
  receiver_chain_ids :: "string list"
  sc_provenance :: capture_provenance
  refills :: "refill list"
  gaps :: "continuity_gap list"

definition segment_continuity_post_init ::
  "segment_continuity \<Rightarrow> (continuity_error, unit) result" where
  "segment_continuity_post_init c =
     (if length (receiver_chain_ids c) \<noteq> 2 \<or> length (remdups (receiver_chain_ids c)) \<noteq> 2
      then Inl (ValueError Not_Two_Chains)
      else if sc_status c \<in> {VERIFIED_CONTIGUOUS, VERIFIED_GAPPED} then
        (if refills c = [] then Inl (ValueError No_Refills)
         else bindE (verify_refills (refills c)) (\<lambda>derived.
           raise_first
             [(sc_status c = VERIFIED_CONTIGUOUS \<and> derived \<noteq> []
                 \<and> list_ex (\<lambda>g. missing_buffer_count g \<noteq> 0) derived, ValueError Buffer_Gap),
              (sc_status c = VERIFIED_CONTIGUOUS \<and> derived \<noteq> [], ValueError Sample_Gap),
              (sc_status c = VERIFIED_GAPPED \<and> derived = [], ValueError No_Gap),
              (gaps c \<noteq> derived, ValueError Gaps_Differ)]))
      else raise_first
        [(refills c \<noteq> [] \<or> gaps c \<noteq> [], ValueError Untrusted_Evidence)])"

definition from_refills ::
  "string list \<Rightarrow> capture_provenance \<Rightarrow> refill list
     \<Rightarrow> (continuity_error, segment_continuity) result" where
  "from_refills chain_ids prov rs =
     (if rs = [] then
        checked segment_continuity_post_init
          \<lparr>sc_status = UNVERIFIED, receiver_chain_ids = chain_ids, sc_provenance = prov,
           refills = [], gaps = []\<rparr>
      else bindE (verify_refills rs) (\<lambda>gs.
        checked segment_continuity_post_init
          \<lparr>sc_status = (if gs \<noteq> [] then VERIFIED_GAPPED else VERIFIED_CONTIGUOUS),
           receiver_chain_ids = chain_ids, sc_provenance = prov, refills = rs, gaps = gs\<rparr>))"

definition is_verified :: "segment_continuity \<Rightarrow> bool" where
  "is_verified c \<longleftrightarrow> sc_status c \<noteq> UNVERIFIED"

definition span_of ::
  "refill list \<Rightarrow> int \<Rightarrow> int \<Rightarrow> (continuity_error, rf_span) result" where
  "span_of rs start stop =
     bindE (py_index No_Such_Refill rs start) (\<lambda>a.
     bindE (py_index No_Such_Refill rs (stop - 1)) (\<lambda>b.
       checked rf_span_post_init
         \<lparr>sp_start = segment_sample_offset a,
          sp_stop = segment_sample_offset b + sample_count b,
          sp_first_sequence = first_sample_sequence a,
          sp_stop_sequence = sequence_end b\<rparr>))"

definition contiguous_rf_spans ::
  "segment_continuity \<Rightarrow> (continuity_error, rf_span list) result" where
  "contiguous_rf_spans c =
     (if \<not> is_verified c then Inl (ValueError Not_Verified)
      else
        let starts = 0 # sort (remdups (map next_refill_index (gaps c)));
            stops = tl starts @ [int (length (refills c))]
        in mapE (\<lambda>(start, stop). span_of (refills c) start stop) (zip starts stops))"

definition windows_in :: "int \<Rightarrow> int \<Rightarrow> rf_span \<Rightarrow> (continuity_error, sample_window list) result" where
  "windows_in window stride sp =
     (if sp_stop sp - sp_start sp < window then Inr []
      else
        let starts = py_range (sp_start sp) (sp_stop sp - window + 1) stride;
            last_start = sp_stop sp - window
        in mapE (\<lambda>s. checked window_post_init \<lparr>win_start = s, win_stop = s + window\<rparr>)
             (if last starts \<noteq> last_start then starts @ [last_start] else starts))"

definition safe_windows ::
  "segment_continuity \<Rightarrow> int \<Rightarrow> int \<Rightarrow> (continuity_error, sample_window list) result" where
  "safe_windows c window stride =
     (if window \<le> 0 \<or> stride \<le> 0 then Inl (ValueError Bad_Window_Size)
      else bindE (contiguous_rf_spans c) (\<lambda>spans.
        bindE (mapE (windows_in window stride) spans) (\<lambda>ws. Inr (concat ws))))"

subsection \<open>What verification establishes\<close>

text \<open>
  The specification: the radio sequence numbers of the stored samples, in stored order;
  a boundary where they jump; and what consecutive refills must satisfy.
\<close>

definition refill_samples :: "refill \<Rightarrow> int list" where
  "refill_samples r = [first_sample_sequence r..sequence_end r - 1]"

definition radio_samples :: "refill list \<Rightarrow> int list" where
  "radio_samples rs = concat (map refill_samples rs)"

definition jump :: "refill \<Rightarrow> refill \<Rightarrow> bool" where
  "jump p r \<longleftrightarrow> first_sample_sequence r \<noteq> sequence_end p"

definition jumps :: "refill list \<Rightarrow> nat list" where
  "jumps rs = filter (\<lambda>i. jump (rs ! (i - 1)) (rs ! i)) [1..<length rs]"

definition follows :: "refill \<Rightarrow> refill \<Rightarrow> bool" where
  "follows p r \<longleftrightarrow>
     stream_id r = stream_id p \<and> buffer_sequence p < buffer_sequence r
     \<and> sequence_end p \<le> first_sample_sequence r
     \<and> segment_sample_offset r = segment_sample_offset p + sample_count p
     \<and> (\<not> jump p r \<longrightarrow> buffer_sequence r = buffer_sequence p + 1)
     \<and> monotonic_end_ns p - time_uncertainty_ns p \<le> monotonic_start_ns r + time_uncertainty_ns r"

abbreviation valid_refill :: "refill \<Rightarrow> bool" where
  "valid_refill r \<equiv> refill_post_init r = Inr ()"

lemma valid_refillD:
  assumes "valid_refill r"
  shows "0 \<le> refill_index r" "0 \<le> segment_sample_offset r" "0 < sample_count r"
    "0 \<le> first_sample_sequence r" "0 \<le> buffer_sequence r"
  using assms by (simp_all add: refill_post_init_def)

lemma check_pair_Inr:
  assumes "valid_refill p" and "valid_refill r" and "refill_index r = refill_index p + 1"
  shows "check_pair p r = Inr gs \<longleftrightarrow>
    follows p r \<and> gs = (if jump p r then [gap_between p r] else [])"
proof -
  have "gap_post_init (gap_between p r) = Inr ()"
    if "buffer_sequence p < buffer_sequence r" "sequence_end p < first_sample_sequence r"
      "segment_sample_offset r = segment_sample_offset p + sample_count p"
    using that valid_refillD [OF assms(1)] assms(3)
    by (simp add: gap_post_init_def gap_between_def sequence_end_def)
  then show ?thesis
    by (auto simp: check_pair_def follows_def jump_def Let_def split: if_splits)
qed

lemma jumps_Cons:
  "jumps (p # r # rs) = (if jump p r then [1] else []) @ map Suc (jumps (r # rs))"
proof -
  have "[1..<length (p # r # rs)] = 1 # map Suc [1..<length (r # rs)]"
    by (simp add: map_Suc_upt upt_conv_Cons numeral_2_eq_2 del: upt_Suc)
  moreover have "filter (\<lambda>i. jump ((p # r # rs) ! (i - 1)) ((p # r # rs) ! i))
        (map Suc [1..<length (r # rs)]) = map Suc (jumps (r # rs))"
    unfolding jumps_def filter_map by (rule arg_cong [where f = "map Suc"], rule filter_cong)
      (auto simp: nth_Cons' simp del: upt_Suc)
  ultimately show ?thesis by (simp add: jumps_def)
qed

definition gap_list :: "refill list \<Rightarrow> continuity_gap list" where
  "gap_list rs = map (\<lambda>i. gap_between (rs ! (i - 1)) (rs ! i)) (jumps rs)"

lemma jumps_small [simp]: "jumps [] = []" "jumps [r] = []"
  by (simp_all add: jumps_def)

lemma jumps_range: "i \<in> set (jumps rs) \<Longrightarrow> 1 \<le> i \<and> i < length rs"
  by (auto simp: jumps_def)

lemma gap_list_Cons:
  "gap_list (p # r # rs) = (if jump p r then [gap_between p r] else []) @ gap_list (r # rs)"
  by (auto simp: gap_list_def jumps_Cons dest: jumps_range)

lemma verify_from_Some:
  assumes "\<forall>r \<in> set (p # rs). valid_refill r" and "refill_index p = k - 1"
  shows "verify_from k (Some p) rs = Inr gs \<longleftrightarrow>
    (\<forall>i < length rs. check_refill (k + int i) (rs ! i) = Inr ())
    \<and> successively follows (p # rs) \<and> gs = gap_list (p # rs)"
  using assms
proof (induction rs arbitrary: k p gs)
  case Nil
  then show ?case by (auto simp: gap_list_def)
next
  case (Cons r rs)
  have idx: "refill_index r = k" if "check_refill k r = Inr ()"
    using that by (simp add: check_refill_def)
  have all: "(\<forall>i < length (r # rs). check_refill (k + int i) ((r # rs) ! i) = Inr ()) \<longleftrightarrow>
      check_refill k r = Inr () \<and> (\<forall>i < length rs. check_refill (k + 1 + int i) (rs ! i) = Inr ())"
    by (simp add: All_less_Suc2 algebra_simps)
  show ?case
  proof (cases "check_refill k r = Inr ()")
    case True
    with Cons.prems idx have "check_pair p r = Inr hs \<longleftrightarrow>
        follows p r \<and> hs = (if jump p r then [gap_between p r] else [])" for hs
      by (intro check_pair_Inr) auto
    moreover have "verify_from (k + 1) (Some r) rs = Inr hs \<longleftrightarrow>
        (\<forall>i < length rs. check_refill (k + 1 + int i) (rs ! i) = Inr ())
        \<and> successively follows (r # rs) \<and> hs = gap_list (r # rs)" for hs
      using Cons.prems idx [OF True] by (intro Cons.IH) auto
    ultimately show ?thesis
      unfolding all by (auto simp: True gap_list_Cons)
  next
    case False
    then show ?thesis unfolding all by auto
  qed
qed

lemma verify_refills_Inr:
  assumes "\<forall>r \<in> set rs. valid_refill r" and "rs \<noteq> []"
  shows "verify_refills rs = Inr gs \<longleftrightarrow>
    (\<forall>i < length rs. check_refill (int i) (rs ! i) = Inr ())
    \<and> segment_sample_offset (rs ! 0) = 0 \<and> successively follows rs \<and> gs = gap_list rs"
proof (cases rs)
  case (Cons r rs')
  have "verify_from 1 (Some r) rs' = Inr gs \<longleftrightarrow>
      (\<forall>i < length rs'. check_refill (1 + int i) (rs' ! i) = Inr ())
      \<and> successively follows (r # rs') \<and> gs = gap_list (r # rs')" if "refill_index r = 0"
    using assms Cons that by (intro verify_from_Some) auto
  moreover have "refill_index r = 0" if "check_refill 0 r = Inr ()"
    using that by (simp add: check_refill_def)
  ultimately show ?thesis
    unfolding Cons verify_refills_def
    by (auto simp: All_less_Suc2 algebra_simps)
qed (use assms in simp)

text \<open>A non-empty list of valid refills that verification accepts.\<close>

definition verified_refills :: "refill list \<Rightarrow> bool" where
  "verified_refills rs \<longleftrightarrow>
     rs \<noteq> [] \<and> (\<forall>r \<in> set rs. valid_refill r) \<and> is_ok (verify_refills rs)"

lemma verified_refillsD:
  assumes "verified_refills rs"
  shows "\<And>i. i < length rs \<Longrightarrow> valid_refill (rs ! i)"
    "\<And>i. i < length rs \<Longrightarrow> check_refill (int i) (rs ! i) = Inr ()"
    "segment_sample_offset (rs ! 0) = 0"
    "\<And>i. Suc i < length rs \<Longrightarrow> follows (rs ! i) (rs ! Suc i)"
    "verify_refills rs = Inr (gap_list rs)" "0 < length rs"
proof -
  from assms obtain gs where v: "rs \<noteq> []" "\<forall>r \<in> set rs. valid_refill r" "verify_refills rs = Inr gs"
    by (auto simp: verified_refills_def is_ok_def split: sum.splits)
  then show "\<And>i. i < length rs \<Longrightarrow> valid_refill (rs ! i)" "0 < length rs" by auto
  show "\<And>i. i < length rs \<Longrightarrow> check_refill (int i) (rs ! i) = Inr ()"
    "segment_sample_offset (rs ! 0) = 0" "verify_refills rs = Inr (gap_list rs)"
    "\<And>i. Suc i < length rs \<Longrightarrow> follows (rs ! i) (rs ! Suc i)"
    using v verify_refills_Inr [OF v(2,1), of gs] by (auto simp: successively_conv_nth)
qed

lemma length_refill_samples: "valid_refill r \<Longrightarrow> int (length (refill_samples r)) = sample_count r"
  using valid_refillD [of r] by (simp add: refill_samples_def sequence_end_def)

lemma radio_samples_Suc:
  "i < length rs \<Longrightarrow> radio_samples (take (Suc i) rs) = radio_samples (take i rs) @ refill_samples (rs ! i)"
  by (simp add: radio_samples_def take_Suc_conv_app_nth)

lemma stored_offset:
  assumes "verified_refills rs" and "i < length rs"
  shows "segment_sample_offset (rs ! i) = int (length (radio_samples (take i rs)))"
  using assms(2)
proof (induction i)
  case 0
  then show ?case using verified_refillsD(3) [OF assms(1)] by (simp add: radio_samples_def)
next
  case (Suc i)
  then have "follows (rs ! i) (rs ! Suc i)" "valid_refill (rs ! i)"
    using verified_refillsD(1,4) [OF assms(1)] by simp_all
  with Suc show ?case by (simp add: follows_def radio_samples_Suc length_refill_samples)
qed

text \<open>A run of refills without a jump: its extent in storage and in radio time agree.\<close>

lemma run_extent:
  assumes "verified_refills rs" and "a + d < length rs"
    and "\<forall>i. a < i \<and> i \<le> a + d \<longrightarrow> \<not> jump (rs ! (i - 1)) (rs ! i)"
  shows "sequence_end (rs ! (a + d)) - first_sample_sequence (rs ! a)
      = segment_sample_offset (rs ! (a + d)) + sample_count (rs ! (a + d))
          - segment_sample_offset (rs ! a)
    \<and> first_sample_sequence (rs ! a) < sequence_end (rs ! (a + d))
    \<and> radio_samples (drop a (take (Suc (a + d)) rs))
      = [first_sample_sequence (rs ! a)..sequence_end (rs ! (a + d)) - 1]"
  using assms(2,3)
proof (induction d)
  case 0
  then show ?case
    using valid_refillD(3) [OF verified_refillsD(1) [OF assms(1), of a]]
    by (simp add: sequence_end_def radio_samples_def refill_samples_def take_Suc_conv_app_nth)
next
  case (Suc d)
  let ?p = "rs ! (a + d)" and ?r = "rs ! Suc (a + d)"
  have v: "0 < sample_count ?r"
    using valid_refillD(3) [OF verified_refillsD(1) [OF assms(1)]] Suc.prems(1) by simp
  have f: "segment_sample_offset ?r = segment_sample_offset ?p + sample_count ?p"
    using verified_refillsD(4) [OF assms(1), of "a + d"] Suc.prems(1) by (simp add: follows_def)
  have j: "first_sample_sequence ?r = sequence_end ?p"
    using Suc.prems(2) [rule_format, of "Suc (a + d)"] by (simp add: jump_def)
  have IH: "sequence_end ?p - first_sample_sequence (rs ! a)
      = segment_sample_offset ?p + sample_count ?p - segment_sample_offset (rs ! a)"
    "first_sample_sequence (rs ! a) < sequence_end ?p"
    "radio_samples (drop a (take (Suc (a + d)) rs))
      = [first_sample_sequence (rs ! a)..sequence_end ?p - 1]"
    using Suc by auto
  have "drop a (take (Suc (a + Suc d)) rs) = drop a (take (Suc (a + d)) rs) @ [?r]"
    using Suc.prems(1) by (simp add: take_Suc_conv_app_nth [of "Suc (a + d)"])
  then have "radio_samples (drop a (take (Suc (a + Suc d)) rs))
      = [first_sample_sequence (rs ! a)..sequence_end ?p - 1]
        @ [sequence_end ?p..sequence_end ?p + sample_count ?r - 1]"
    using IH(3) j by (simp add: radio_samples_def refill_samples_def sequence_end_def)
  also have "\<dots> = [first_sample_sequence (rs ! a)..sequence_end ?p + sample_count ?r - 1]"
    using IH(2) v upto_split2 [of "first_sample_sequence (rs ! a)" "sequence_end ?p - 1"
        "sequence_end ?p + sample_count ?r - 1"] by simp
  finally show ?case using IH(1,2) v f j by (simp add: sequence_end_def)
qed

subsection \<open>Spans\<close>

definition mk_span :: "refill list \<Rightarrow> nat \<times> nat \<Rightarrow> rf_span" where
  "mk_span rs = (\<lambda>(a, b).
     \<lparr>sp_start = segment_sample_offset (rs ! a),
      sp_stop = segment_sample_offset (rs ! (b - 1)) + sample_count (rs ! (b - 1)),
      sp_first_sequence = first_sample_sequence (rs ! a),
      sp_stop_sequence = sequence_end (rs ! (b - 1))\<rparr>)"

definition span_samples :: "rf_span \<Rightarrow> int list" where
  "span_samples s = [sp_first_sequence s..sp_stop_sequence s - 1]"

definition run_pieces :: "refill list \<Rightarrow> (nat \<times> nat) list" where
  "run_pieces rs = pieces 0 (jumps rs) (length rs)"

lemma run_piecesD:
  assumes "(a, b) \<in> set (run_pieces rs)" and "0 < length rs"
  shows "a < b" "b \<le> length rs" "\<And>i. a < i \<Longrightarrow> i < b \<Longrightarrow> \<not> jump (rs ! (i - 1)) (rs ! i)"
  using pieces_runs [of 0 "length rs" "jumps rs" "\<lambda>i. jump (rs ! (i - 1)) (rs ! i)" a b] assms
  by (auto simp: run_pieces_def jumps_def)

lemma run_piece_facts:
  assumes "verified_refills rs" and "(a, b) \<in> set (run_pieces rs)"
  shows "span_of rs (int a) (int b) = Inr (mk_span rs (a, b))"
    "radio_samples (drop a (take b rs)) = span_samples (mk_span rs (a, b))"
    "rf_span_post_init (mk_span rs (a, b)) = Inr ()"
    "sp_start (mk_span rs (a, b)) = int (length (radio_samples (take a rs)))"
proof -
  note n = verified_refillsD(6) [OF assms(1)]
  note ab = run_piecesD [OF assms(2) n]
  then obtain d where d: "b = Suc (a + d)" by (metis less_iff_Suc_add)
  have "a + d < length rs" using ab(2) d by simp
  note ext = run_extent [OF assms(1) this]
  have noj: "\<forall>i. a < i \<and> i \<le> a + d \<longrightarrow> \<not> jump (rs ! (i - 1)) (rs ! i)" using ab(3) d by simp
  have v: "0 \<le> segment_sample_offset (rs ! a)" "0 \<le> first_sample_sequence (rs ! a)"
    using valid_refillD [OF verified_refillsD(1) [OF assms(1)], of a] ab by simp_all
  show ok: "rf_span_post_init (mk_span rs (a, b)) = Inr ()"
    using ext [OF noj] v by (simp add: rf_span_post_init_def mk_span_def d)
  show "radio_samples (drop a (take b rs)) = span_samples (mk_span rs (a, b))"
    using ext [OF noj] by (simp add: span_samples_def mk_span_def d)
  show "sp_start (mk_span rs (a, b)) = int (length (radio_samples (take a rs)))"
    using stored_offset [OF assms(1), of a] ab by (simp add: mk_span_def)
  have "py_index No_Such_Refill rs (int a) = Inr (rs ! a)"
    using ab by (intro py_index_nat) simp
  moreover have "py_index No_Such_Refill rs (int b - 1) = Inr (rs ! (b - 1))"
    using ab py_index_nat [of "b - 1" rs No_Such_Refill] by (simp add: of_nat_diff)
  ultimately show "span_of rs (int a) (int b) = Inr (mk_span rs (a, b))"
    using ok by (simp add: span_of_def checked_def mk_span_def)
qed

lemma sorted_jumps: "sorted (jumps rs)" "distinct (jumps rs)"
  unfolding jumps_def by (auto intro: sorted_wrt_filter)

lemma gap_indices:
  assumes "verified_refills rs"
  shows "map next_refill_index (gap_list rs) = map int (jumps rs)"
proof -
  have "refill_index (rs ! i) = int i" if "i \<in> set (jumps rs)" for i
    using verified_refillsD(2) [OF assms, of i] jumps_range [OF that] by (simp add: check_refill_def)
  then show ?thesis by (simp add: gap_list_def gap_between_def)
qed

lemma spans_eq:
  assumes "verified_refills (refills c)" and "gaps c = gap_list (refills c)" and "is_verified c"
  shows "contiguous_rf_spans c = Inr (map (mk_span (refills c)) (run_pieces (refills c)))"
proof -
  let ?rs = "refills c" and ?J = "jumps (refills c)"
  have "sort (remdups (map int ?J)) = map int ?J"
    using sorted_jumps [of ?rs] by (simp add: distinct_map sorted_map sorted_sort_id)
  then have cut: "sort (remdups (map next_refill_index (gaps c))) = map int ?J"
    using gap_indices [OF assms(1)] assms(2) by simp
  have "zip (0 # map int ?J) (map int ?J @ [int (length ?rs)])
      = map (\<lambda>(a, b). (int a, int b)) (run_pieces ?rs)"
    using zip_map_map [of int "0 # ?J" int "?J @ [length ?rs]"]
    by (simp add: run_pieces_def pieces_def)
  then have "contiguous_rf_spans c
      = mapE (\<lambda>(a, b). span_of ?rs (int a) (int b)) (run_pieces ?rs)"
    unfolding contiguous_rf_spans_def Let_def cut using assms(3)
    by (simp add: mapE_map case_prod_unfold)
  also have "\<dots> = Inr (map (mk_span ?rs) (run_pieces ?rs))"
    by (intro mapE_eq_map) (use run_piece_facts(1) [OF assms(1)] in auto)
  finally show ?thesis .
qed

lemma verified_segment:
  assumes "segment_continuity_post_init c = Inr ()" and "is_verified c"
    and "\<forall>r \<in> set (refills c). valid_refill r"
  shows "verified_refills (refills c)" "gaps c = gap_list (refills c)"
proof -
  have "sc_status c \<in> {VERIFIED_CONTIGUOUS, VERIFIED_GAPPED}"
    using assms(2) by (cases "sc_status c") (auto simp: is_verified_def)
  with assms(1) obtain gs where gs: "refills c \<noteq> []" "verify_refills (refills c) = Inr gs" "gaps c = gs"
    by (auto simp: segment_continuity_post_init_def)
  then show v: "verified_refills (refills c)"
    using assms(3) by (simp add: verified_refills_def)
  show "gaps c = gap_list (refills c)"
    using verified_refillsD(5) [OF v] gs by simp
qed

lemma radio_samples_concat: "radio_samples (concat rss) = concat (map radio_samples rss)"
  by (induction rss) (simp_all add: radio_samples_def)

lemma concat_pieces_samples:
  assumes "verified_refills rs"
  shows "concat (map (\<lambda>p. span_samples (mk_span rs p)) (run_pieces rs)) = radio_samples rs"
proof -
  have "map (\<lambda>p. span_samples (mk_span rs p)) (run_pieces rs)
      = map (\<lambda>(a, b). radio_samples (drop a (take b rs))) (run_pieces rs)"
    by (intro map_cong) (use run_piece_facts(2) [OF assms] in auto)
  then have "concat (map (\<lambda>p. span_samples (mk_span rs p)) (run_pieces rs))
      = concat (map (\<lambda>(a, b). radio_samples (drop a (take b rs))) (run_pieces rs))"
    by (rule arg_cong)
  also have "\<dots> = radio_samples (concat (map (\<lambda>(a, b). drop a (take b rs)) (run_pieces rs)))"
    by (simp add: radio_samples_concat o_def case_prod_unfold)
  also have "concat (map (\<lambda>(a, b). drop a (take b rs)) (run_pieces rs)) = rs"
    unfolding run_pieces_def
    using sorted_jumps [of rs] by (subst pieces_concat) (auto dest: jumps_range)
  finally show ?thesis .
qed

lemma span_boundary:
  assumes "verified_refills rs" and "Suc i < length (run_pieces rs)"
  shows "sp_stop (mk_span rs (run_pieces rs ! i)) = sp_start (mk_span rs (run_pieces rs ! Suc i))
    \<and> sp_stop_sequence (mk_span rs (run_pieces rs ! i))
        < sp_first_sequence (mk_span rs (run_pieces rs ! Suc i))"
proof -
  let ?J = "jumps rs"
  have i: "i < length ?J" using assms(2) by (simp add: run_pieces_def pieces_def)
  define j where "j = ?J ! i"
  have j: "j \<in> set ?J" "1 \<le> j" "j < length rs"
    using i jumps_range [of j rs] by (simp_all add: j_def)
  then have "follows (rs ! (j - 1)) (rs ! j)" "jump (rs ! (j - 1)) (rs ! j)"
    using verified_refillsD(4) [OF assms(1), of "j - 1"] by (auto simp: jumps_def)
  moreover have "snd (run_pieces rs ! i) = j" "fst (run_pieces rs ! Suc i) = j"
    using i by (simp_all add: run_pieces_def pieces_def nth_append j_def)
  ultimately show ?thesis
    by (auto simp: mk_span_def case_prod_unfold follows_def jump_def sequence_end_def)
qed

text \<open>The samples of a window inside one span of a decomposition are consecutive.\<close>

lemma take_drop_upto:
  assumes "k + d \<le> length [x..y]"
  shows "take k (drop d [x..y]) = [x + int d..x + int d + int k - 1]"
proof (rule nth_equalityI)
  have "k \<le> nat (y - x + 1) - d" using assms by simp
  then show len: "length (take k (drop d [x..y])) = length [x + int d..x + int d + int k - 1]"
    by (simp add: min_absorb2)
  fix i
  assume "i < length (take k (drop d [x..y]))"
  then have i: "i < k" by simp
  then have "x + int (d + i) \<le> y" using assms by simp
  with i assms show "take k (drop d [x..y]) ! i = [x + int d..x + int d + int k - 1] ! i"
    by (simp add: nth_upto)
qed

lemma window_in_span:
  assumes "radio_samples rs = xs @ span_samples sp @ ys" and "sp_start sp = int (length xs)"
    and "rf_span_post_init sp = Inr ()" and "sp_start sp \<le> a" and "a + w \<le> sp_stop sp" and "0 \<le> w"
  shows "\<exists>x. take (nat w) (drop (nat a) (radio_samples rs)) = [x..x + w - 1]"
proof -
  have len: "int (length (span_samples sp)) = sp_stop sp - sp_start sp"
    using assms(3) by (simp add: rf_span_post_init_def span_samples_def)
  let ?d = "nat (a - sp_start sp)"
  have "nat a = length xs + ?d" "nat w + ?d \<le> length (span_samples sp)"
    using assms(2,4-6) len by auto
  then have "take (nat w) (drop (nat a) (radio_samples rs)) = take (nat w) (drop ?d (span_samples sp))"
    using assms(1) by simp
  also have "\<dots> = [sp_first_sequence sp + int ?d..sp_first_sequence sp + int ?d + w - 1]"
    using take_drop_upto [of "nat w" ?d "sp_first_sequence sp" "sp_stop_sequence sp - 1"]
      \<open>nat w + ?d \<le> length (span_samples sp)\<close> assms(6)
    by (simp add: span_samples_def)
  finally show ?thesis by blast
qed

subsection \<open>Windows\<close>

lemma windows_in_ok:
  assumes "rf_span_post_init sp = Inr ()" and "0 < w" and "0 < stride"
  obtains ws where "windows_in w stride sp = Inr ws"
    "\<And>v. v \<in> set ws \<Longrightarrow> sp_start sp \<le> win_start v \<and> win_stop v = win_start v + w
        \<and> win_stop v \<le> sp_stop sp"
    "\<And>k. w \<le> sp_stop sp - sp_start sp \<Longrightarrow> stride \<le> w \<Longrightarrow> sp_start sp \<le> k \<Longrightarrow> k < sp_stop sp
        \<Longrightarrow> \<exists>v \<in> set ws. win_start v \<le> k \<and> k < win_stop v"
proof (cases "sp_stop sp - sp_start sp < w")
  case True
  then show thesis by (intro that [of "[]"]) (simp_all add: windows_in_def)
next
  case False
  let ?a = "sp_start sp" and ?l = "sp_stop sp - w"
  define starts where "starts = py_range ?a (?l + 1) stride"
  define ss where "ss = (if last starts \<noteq> ?l then starts @ [?l] else starts)"
  have ne: "starts \<noteq> []" using py_range_Cons [of stride ?a "?l + 1"] assms(3) False
    by (auto simp: starts_def)
  have mem: "x \<in> set ss \<longleftrightarrow> (\<exists>i. 0 \<le> i \<and> x = ?a + i * stride \<and> x \<le> ?l) \<or> x = ?l" for x
    using py_range_set [OF assms(3), of x ?a "?l + 1"] last_in_set [OF ne]
    by (auto simp: ss_def starts_def)
  have inside: "?a \<le> x \<and> x + w \<le> sp_stop sp" if "x \<in> set ss" for x
    using that mem [of x] False assms(3) by auto
  let ?ws = "map (\<lambda>s. \<lparr>win_start = s, win_stop = s + w\<rparr>) ss"
  have "0 \<le> ?a" using assms(1) by (simp add: rf_span_post_init_def)
  then have "mapE (\<lambda>s. checked window_post_init \<lparr>win_start = s, win_stop = s + w\<rparr>) ss = Inr ?ws"
    using inside assms(2) by (intro mapE_eq_map) (force simp: window_post_init_def checked_def)
  then have "windows_in w stride sp = Inr ?ws"
    unfolding windows_in_def Let_def starts_def [symmetric] ss_def [symmetric] using False by simp
  moreover have "\<exists>v \<in> set ?ws. win_start v \<le> k \<and> k < win_stop v"
    if k: "stride \<le> w" "?a \<le> k" "k < sp_stop sp" for k
  proof -
    define i where "i = (k - ?a) div stride"
    have "i * stride + (k - ?a) mod stride = k - ?a" by (simp add: i_def)
    then have i: "?a + i * stride \<le> k" "k < ?a + i * stride + stride"
      using pos_mod_bound [OF assms(3), of "k - ?a"] pos_mod_sign [OF assms(3), of "k - ?a"]
      by linarith+
    have i0: "0 \<le> i" using k assms(3) by (simp add: i_def pos_imp_zdiv_nonneg_iff)
    show ?thesis
    proof (cases "?a + i * stride \<le> ?l")
      case True
      then have "?a + i * stride \<in> set ss" using mem i0 by blast
      with i k show ?thesis by force
    next
      case out: False
      have "?l \<in> set ss" using mem by blast
      moreover have "?l \<le> k" "k < ?l + w" using out i(1) i(2) k by simp_all
      ultimately show ?thesis by force
    qed
  qed
  ultimately show thesis using inside by (intro that [of ?ws]) auto
qed

subsection \<open>Properties\<close>

text \<open>
  C28. Refill verification accepts only evidence in which every stored sample has one
  place: refill \<open>i\<close> carries index \<open>i\<close> and starts at the sum of the sample counts before it,
  all refills belong to one stream, radio sample numbers never go back, and the derived
  gaps stand exactly at the refills where the radio numbering jumps, each with the exact
  number of missing samples.
\<close>

theorem verified_refills_tile:
  assumes "\<forall>r \<in> set rs. valid_refill r" and "rs \<noteq> []" and "verify_refills rs = Inr gs"
  shows "(\<forall>i < length rs. refill_index (rs ! i) = int i \<and> flags (rs ! i) = []
            \<and> segment_sample_offset (rs ! i) = (\<Sum>r \<leftarrow> take i rs. sample_count r)
            \<and> stream_id (rs ! i) = stream_id (hd rs))
    \<and> sorted_wrt (<) (radio_samples rs)
    \<and> map next_refill_index gs
        = map int (filter (\<lambda>i. first_sample_sequence (rs ! i) \<noteq> sequence_end (rs ! (i - 1)))
            [1..<length rs])
    \<and> (\<forall>g \<in> set gs. 0 < missing_sample_count g
          \<and> missing_sample_count g = next_sample_sequence g - first_missing_sample_sequence g
          \<and> next_sample_sequence g = first_sample_sequence (rs ! nat (next_refill_index g)))"
proof -
  have v: "verified_refills rs" using assms by (simp add: verified_refills_def)
  note d = verified_refillsD [OF v]
  have gs: "gs = gap_list rs" using d(5) assms(3) by simp
  have idx: "refill_index (rs ! i) = int i" "flags (rs ! i) = []" if "i < length rs" for i
    using d(2) [OF that] by (simp_all add: check_refill_def)
  have stream: "stream_id (rs ! i) = stream_id (hd rs)" if "i < length rs" for i
    using that
  proof (induction i)
    case (Suc i)
    with d(4) [of i] show ?case by (simp add: follows_def)
  qed (use assms(2) in \<open>simp add: hd_conv_nth\<close>)
  have off: "segment_sample_offset (rs ! i) = (\<Sum>r \<leftarrow> take i rs. sample_count r)"
    if "i < length rs" for i
    using that
  proof (induction i)
    case (Suc i)
    with d(4) [of i] show ?case by (simp add: follows_def take_Suc_conv_app_nth)
  qed (use d(3) in simp)
  have samples: "sorted_wrt (<) (radio_samples (take i rs))
      \<and> (\<forall>x \<in> set (radio_samples (take i rs)). x < sequence_end (rs ! (i - 1)))"
    if "0 < i" "i \<le> length rs" for i
    using that
  proof (induction i)
    case (Suc i)
    show ?case
    proof (cases i)
      case 0
      with Suc.prems assms(2) show ?thesis
        by (cases rs) (simp_all add: radio_samples_def refill_samples_def)
    next
      case (Suc j)
      with Suc.prems d(4) [of j] have "sequence_end (rs ! (i - 1)) \<le> first_sample_sequence (rs ! i)"
        by (simp add: follows_def)
      moreover have IH: "sorted_wrt (<) (radio_samples (take i rs))"
          "\<And>x. x \<in> set (radio_samples (take i rs)) \<Longrightarrow> x < sequence_end (rs ! (i - 1))"
        using Suc.IH Suc.prems Suc by simp_all
      ultimately have lt:
          "\<And>x. x \<in> set (radio_samples (take i rs)) \<Longrightarrow> x < first_sample_sequence (rs ! i)"
        by (meson order_less_le_trans)
      have "0 < sample_count (rs ! i)"
        using valid_refillD(3) [OF d(1) [of i]] Suc.prems by simp
      moreover have "radio_samples (take (Suc i) rs) = radio_samples (take i rs) @ refill_samples (rs ! i)"
        using Suc.prems by (simp add: radio_samples_Suc)
      ultimately show ?thesis
        using IH(1) by (auto simp: sorted_wrt_append refill_samples_def sequence_end_def dest!: lt)
    qed
  qed simp
  have gaps_ok: "\<forall>g \<in> set gs. 0 < missing_sample_count g
      \<and> missing_sample_count g = next_sample_sequence g - first_missing_sample_sequence g
      \<and> next_sample_sequence g = first_sample_sequence (rs ! nat (next_refill_index g))"
  proof
    fix g
    assume "g \<in> set gs"
    then obtain j where j: "j \<in> set (jumps rs)" "g = gap_between (rs ! (j - 1)) (rs ! j)"
      by (auto simp: gs gap_list_def)
    then have "1 \<le> j" "j < length rs" "jump (rs ! (j - 1)) (rs ! j)"
      by (auto simp: jumps_def)
    with d(4) [of "j - 1"] idx [of j] j(2) show "0 < missing_sample_count g
      \<and> missing_sample_count g = next_sample_sequence g - first_missing_sample_sequence g
      \<and> next_sample_sequence g = first_sample_sequence (rs ! nat (next_refill_index g))"
      by (auto simp: gap_between_def follows_def jump_def)
  qed
  have "map next_refill_index gs = map int (filter
      (\<lambda>i. first_sample_sequence (rs ! i) \<noteq> sequence_end (rs ! (i - 1))) [1..<length rs])"
    using gap_indices [OF v] by (simp add: gs jumps_def jump_def)
  moreover have "sorted_wrt (<) (radio_samples rs)"
    using samples [of "length rs"] d(6) by simp
  ultimately show ?thesis using gaps_ok idx off stream by blast
qed

text \<open>
  C29. \<open>from_refills\<close> raises only for what it is given, never for what it derives: with two
  distinct chains and refills that verify (or none) it returns a segment that keeps the
  refills, satisfies its own constructor, is unverified exactly without refills, and is
  gapped exactly when the radio numbering jumps somewhere.
\<close>

theorem from_refills_total:
  assumes "length chs = 2" and "distinct chs"
    and "\<forall>r \<in> set rs. valid_refill r" and "rs = [] \<or> is_ok (verify_refills rs)"
  shows "\<exists>c. from_refills chs prov rs = Inr c \<and> segment_continuity_post_init c = Inr ()
    \<and> refills c = rs \<and> (is_verified c \<longleftrightarrow> rs \<noteq> [])
    \<and> (sc_status c = VERIFIED_GAPPED \<longleftrightarrow>
        (\<exists>i. Suc i < length rs \<and> first_sample_sequence (rs ! Suc i) \<noteq> sequence_end (rs ! i)))"
proof (cases "rs = []")
  case True
  with assms(1,2) show ?thesis
    by (auto simp: from_refills_def segment_continuity_post_init_def is_verified_def
        distinct_remdups_id)
next
  case False
  then have v: "verified_refills rs" using assms(3,4) by (simp add: verified_refills_def)
  have "gap_list rs \<noteq> [] \<longleftrightarrow> (\<exists>j \<in> {1..<length rs}. jump (rs ! (j - 1)) (rs ! j))"
    by (auto simp: gap_list_def jumps_def filter_empty_conv)
  also have "\<dots> \<longleftrightarrow> (\<exists>i. Suc i < length rs \<and> jump (rs ! i) (rs ! Suc i))"
    by (metis (no_types, lifting) One_nat_def Suc_diff_1 Suc_le_eq atLeastLessThan_iff
        diff_Suc_1 zero_less_Suc)
  finally show ?thesis
    using False assms(1,2) verified_refillsD(5) [OF v]
    by (auto simp: from_refills_def segment_continuity_post_init_def is_verified_def
        distinct_remdups_id jump_def)
qed

text \<open>
  C27. The contiguous spans of a verified segment are the maximal radio-contiguous runs:
  computing them never raises, laid end to end they are exactly the radio numbers of the
  stored samples, each starts in storage where the one before stops, and between two of
  them the radio numbering really jumps.
\<close>

theorem spans_are_maximal_runs:
  assumes "segment_continuity_post_init c = Inr ()" and "is_verified c"
    and "\<forall>r \<in> set (refills c). valid_refill r"
  shows "\<exists>spans. contiguous_rf_spans c = Inr spans \<and> spans \<noteq> []
    \<and> concat (map span_samples spans) = radio_samples (refills c)
    \<and> sp_start (hd spans) = 0
    \<and> (\<forall>sp \<in> set spans. rf_span_post_init sp = Inr ())
    \<and> (\<forall>i. Suc i < length spans \<longrightarrow> sp_stop (spans ! i) = sp_start (spans ! Suc i)
          \<and> sp_stop_sequence (spans ! i) < sp_first_sequence (spans ! Suc i))"
proof -
  let ?rs = "refills c"
  note v = verified_segment [OF assms]
  let ?spans = "map (mk_span ?rs) (run_pieces ?rs)"
  have "?spans \<noteq> []" by (simp add: run_pieces_def pieces_def)
  moreover have "concat (map span_samples ?spans) = radio_samples ?rs"
    using concat_pieces_samples [OF v(1)] by (simp add: o_def)
  moreover have "sp_start (hd ?spans) = 0"
  proof -
    obtain b ps where ps: "run_pieces ?rs = (0, b) # ps"
      by (cases "jumps ?rs") (simp_all add: run_pieces_def)
    then show ?thesis
      using run_piece_facts(4) [OF v(1), of 0 b] by (simp add: radio_samples_def)
  qed
  moreover have "rf_span_post_init sp = Inr ()" if "sp \<in> set ?spans" for sp
    using that run_piece_facts(3) [OF v(1)] by auto
  moreover have "sp_stop (?spans ! i) = sp_start (?spans ! Suc i)
      \<and> sp_stop_sequence (?spans ! i) < sp_first_sequence (?spans ! Suc i)"
    if "Suc i < length ?spans" for i
    using span_boundary [OF v(1), of i] that by simp
  ultimately show ?thesis using spans_eq [OF v assms(2)] by blast
qed

text \<open>
  Every analysis window of a verified segment holds exactly the requested number of
  samples, and they are consecutive in radio time: \<open>safe_windows\<close> never raises for
  positive sizes and no window crosses a gap. With a stride of at most the window size
  every sample of every span that can hold a window is inside one.
\<close>

lemma safe_windows_contiguous:
  assumes "segment_continuity_post_init c = Inr ()" and "is_verified c"
    and "\<forall>r \<in> set (refills c). valid_refill r" and "0 < w" and "0 < stride"
  shows "\<exists>ws spans. safe_windows c w stride = Inr ws \<and> contiguous_rf_spans c = Inr spans
    \<and> (\<forall>v \<in> set ws. win_stop v = win_start v + w
        \<and> (\<exists>x. take (nat w) (drop (nat (win_start v)) (radio_samples (refills c))) = [x..x + w - 1]))
    \<and> (stride \<le> w \<longrightarrow> (\<forall>sp \<in> set spans. \<forall>k. w \<le> sp_stop sp - sp_start sp
          \<and> sp_start sp \<le> k \<and> k < sp_stop sp \<longrightarrow> (\<exists>v \<in> set ws. win_start v \<le> k \<and> k < win_stop v)))"
proof -
  let ?rs = "refills c"
  note v = verified_segment [OF assms(1-3)]
  let ?spans = "map (mk_span ?rs) (run_pieces ?rs)"
  define win where "win sp = (case windows_in w stride sp of Inl _ \<Rightarrow> [] | Inr ws \<Rightarrow> ws)" for sp
  have ok: "rf_span_post_init sp = Inr ()" if "sp \<in> set ?spans" for sp
    using that run_piece_facts(3) [OF v(1)] by auto
  have win: "windows_in w stride sp = Inr (win sp)
      \<and> (\<forall>u \<in> set (win sp). sp_start sp \<le> win_start u \<and> win_stop u = win_start u + w
          \<and> win_stop u \<le> sp_stop sp)
      \<and> (\<forall>k. w \<le> sp_stop sp - sp_start sp \<and> stride \<le> w \<and> sp_start sp \<le> k \<and> k < sp_stop sp
          \<longrightarrow> (\<exists>u \<in> set (win sp). win_start u \<le> k \<and> k < win_stop u))" if "sp \<in> set ?spans" for sp
  proof (rule windows_in_ok [OF ok [OF that] assms(4,5)])
    fix us
    assume us: "windows_in w stride sp = Inr us"
    then have "win sp = us" by (simp add: win_def)
    moreover assume "\<And>u. u \<in> set us \<Longrightarrow> sp_start sp \<le> win_start u \<and> win_stop u = win_start u + w
        \<and> win_stop u \<le> sp_stop sp"
      "\<And>k. w \<le> sp_stop sp - sp_start sp \<Longrightarrow> stride \<le> w \<Longrightarrow> sp_start sp \<le> k \<Longrightarrow> k < sp_stop sp
        \<Longrightarrow> \<exists>u \<in> set us. win_start u \<le> k \<and> k < win_stop u"
    ultimately show ?thesis using us by blast
  qed
  have ws: "safe_windows c w stride = Inr (concat (map win ?spans))"
    using mapE_eq_map [of ?spans "windows_in w stride" win] win spans_eq [OF v assms(2)] assms(4,5)
    by (simp add: safe_windows_def)
  have consecutive: "\<exists>x. take (nat w) (drop (nat (win_start u)) (radio_samples ?rs)) = [x..x + w - 1]"
    if sp: "sp \<in> set ?spans" and u: "u \<in> set (win sp)" for sp u
  proof -
    from sp obtain a b where ab: "(a, b) \<in> set (run_pieces ?rs)" "sp = mk_span ?rs (a, b)" by auto
    have "take a ?rs @ drop a (take b ?rs) = take b ?rs"
      using run_piecesD [OF ab(1) verified_refillsD(6) [OF v(1)]]
        append_take_drop_id [of a "take b ?rs"] by (simp add: min_absorb1)
    then have "(take a ?rs @ drop a (take b ?rs)) @ drop b ?rs = ?rs"
      by (simp only: append_take_drop_id)
    then have "take a ?rs @ drop a (take b ?rs) @ drop b ?rs = ?rs" by (simp only: append_assoc)
    then have "radio_samples ?rs = radio_samples (take a ?rs) @ span_samples sp @ radio_samples (drop b ?rs)"
      using run_piece_facts(2) [OF v(1) ab(1)] ab(2)
      by (metis (no_types, lifting) concat_append map_append radio_samples_def)
    then show ?thesis
      by (rule window_in_span)
        (use run_piece_facts(3,4) [OF v(1) ab(1)] ab(2) win [OF sp] u assms(4) in auto)
  qed
  show ?thesis
    using ws spans_eq [OF v assms(2)] consecutive win
    by (intro exI [of _ "concat (map win ?spans)"] exI [of _ ?spans]) fastforce
qed

subsection \<open>A concrete segment\<close>

text \<open>Three refills of four samples; two buffers, eight samples, are lost before the third.\<close>

definition demo_refill :: "int \<Rightarrow> int \<Rightarrow> int \<Rightarrow> refill" where
  "demo_refill i buffer first =
     \<lparr>refill_index = i, segment_sample_offset = 4 * i, sample_count = 4, stream_id = 7,
      buffer_sequence = buffer, first_sample_sequence = first,
      monotonic_start_ns = 10 * buffer, monotonic_end_ns = 10 * buffer + 10,
      utc_start_ns = 10 * buffer, utc_end_ns = 10 * buffer + 10, time_uncertainty_ns = 1,
      gain_db_start = [Some 30, Some 31], gain_db_end = [Some 30, Some 31],
      rssi_db_start = [Some 60, Some 61], rssi_db_end = [Some 60, Some 61],
      gain_observation_overflow_count = 0, gain_event_overflow_count = 0,
      gain_observations = [], flags = []\<rparr>"

definition demo_refills :: "refill list" where
  "demo_refills = [demo_refill 0 0 100, demo_refill 1 1 104, demo_refill 2 4 116]"

definition demo_capture_provenance :: capture_provenance where
  "demo_capture_provenance =
     \<lparr>firmware_release = ''v0.38'', firmware_commit = ''c0ffee'', host_libiio_version = ''0.25'',
      metadata_protocol = ''1'', capability = ''paired''\<rparr>"

definition demo_segment :: segment_continuity where
  "demo_segment =
     \<lparr>sc_status = VERIFIED_GAPPED, receiver_chain_ids = [''rx_a'', ''rx_b''],
      sc_provenance = demo_capture_provenance, refills = demo_refills,
      gaps = [gap_between (demo_refill 1 1 104) (demo_refill 2 4 116)]\<rparr>"

lemma demo_refills_valid: "\<forall>r \<in> set demo_refills. valid_refill r"
  by (simp add: demo_refills_def demo_refill_def refill_post_init_def isfinite_def)

lemma demo_refills_verified:
  "verify_refills demo_refills = Inr [gap_between (demo_refill 1 1 104) (demo_refill 2 4 116)]"
  by (simp add: verify_refills_def demo_refills_def demo_refill_def check_refill_def check_pair_def
      sequence_end_def gap_between_def gap_post_init_def checked_def)

lemma demo_segment_facts:
  "segment_continuity_post_init demo_segment = Inr ()" "is_verified demo_segment"
  "\<forall>r \<in> set (refills demo_segment). valid_refill r"
proof -
  have "demo_refills \<noteq> []" by (simp add: demo_refills_def)
  then show "segment_continuity_post_init demo_segment = Inr ()"
    by (simp add: demo_segment_def segment_continuity_post_init_def demo_refills_verified)
  show "is_verified demo_segment" by (simp add: demo_segment_def is_verified_def)
  show "\<forall>r \<in> set (refills demo_segment). valid_refill r"
    using demo_refills_valid by (simp add: demo_segment_def)
qed

theorem verified_refills_tile_witness:
  "sorted_wrt (<) (radio_samples demo_refills) \<and>
   map next_refill_index [gap_between (demo_refill 1 1 104) (demo_refill 2 4 116)]
     = map int (filter (\<lambda>i. first_sample_sequence (demo_refills ! i)
          \<noteq> sequence_end (demo_refills ! (i - 1))) [1..<length demo_refills])"
proof -
  have "demo_refills \<noteq> []" by (simp add: demo_refills_def)
  from verified_refills_tile [OF demo_refills_valid this demo_refills_verified] show ?thesis
    by blast
qed

theorem from_refills_total_witness:
  "\<exists>c. from_refills [''rx_a'', ''rx_b''] demo_capture_provenance demo_refills = Inr c
     \<and> refills c = demo_refills \<and> sc_status c = VERIFIED_GAPPED"
proof -
  have "Suc 1 < length demo_refills
      \<and> first_sample_sequence (demo_refills ! Suc 1) \<noteq> sequence_end (demo_refills ! 1)"
    by (simp add: demo_refills_def demo_refill_def sequence_end_def)
  then show ?thesis
    using from_refills_total [of "[''rx_a'', ''rx_b'']" demo_refills demo_capture_provenance]
      demo_refills_valid demo_refills_verified by auto
qed

theorem spans_are_maximal_runs_witness:
  "\<exists>spans. contiguous_rf_spans demo_segment = Inr spans
     \<and> concat (map span_samples spans) = radio_samples demo_refills \<and> sp_start (hd spans) = 0"
proof -
  have "refills demo_segment = demo_refills" by (simp add: demo_segment_def)
  then show ?thesis using spans_are_maximal_runs [OF demo_segment_facts] by auto
qed

lemma safe_windows_contiguous_witness:
  "\<exists>ws. safe_windows demo_segment 3 2 = Inr ws
     \<and> (\<forall>v \<in> set ws. win_stop v = win_start v + 3
        \<and> (\<exists>x. take 3 (drop (nat (win_start v)) (radio_samples demo_refills)) = [x..2 + x]))"
proof -
  have "refills demo_segment = demo_refills" by (simp add: demo_segment_def)
  then show ?thesis using safe_windows_contiguous [OF demo_segment_facts, of 3 2] by auto
qed

end
