(* ===== verification/Capture_Batch.thy ===== *)
theory Capture_Batch
  imports Core_Types
begin

section \<open>Two-radio capture batches\<close>

text \<open>
  \<open>contracts/capture_batch.py\<close> and \<open>application/capture_batches.py\<close>: a batch of exactly two
  capture attempts, the reduction of their terminal outcomes to a revisioned snapshot, the
  compare-and-swap store behind it, the coordinator that retries on conflict, and the
  admission of a complete pair to analysis.
\<close>

datatype batch_error =
    Bad_Schema | Negative_Integer | Bad_Time core_error | Not_Two_Attempts | Attempt_Order
  | Attempts_Not_Unique | Independent_With_Limit | Coordinated_Without_Limit
  | Requested_Starts_Differ | Ends_Before_Start | Incomplete_Success | Success_With_Reason
  | Failure_With_Recording | Bad_Failure_Reason | Revision_Count | Outcome_Not_Expected
  | Other_Batch | Outcome_Order | Wrong_Route | Same_Recording | Different_Outcome
  | Not_In_Batch | Not_Two_Captures | Capture_Order | Captures_Not_Unique
  | Skew_Exceeded | Bad_Retry_Limit
  | Batch_Not_Found | Batch_Identity_Conflict | Batch_Revision_Conflict | Batch_Not_Eligible
  | Unknown_Attempt

datatype batch_mode = INDEPENDENT | COORDINATED
datatype attempt_state = SUCCEEDED | FAILED
datatype eligibility = PENDING | ELIGIBLE | INELIGIBLE

text \<open>\<open>_FAILURE_REASON\<close>: \<open>[a-z0-9][a-z0-9._:-]{0,127}\<close>.\<close>

definition lower_alnum :: "char \<Rightarrow> bool" where
  "lower_alnum c \<longleftrightarrow> is_digit c \<or> 97 \<le> (of_char c :: nat) \<and> (of_char c :: nat) \<le> 122"

definition failure_reason_ok :: "string \<Rightarrow> bool" where
  "failure_reason_ok s \<longleftrightarrow> s \<noteq> [] \<and> lower_alnum (hd s) \<and> length s \<le> 128
     \<and> list_all (\<lambda>c. lower_alnum c \<or> c \<in> set ''._:-'') (tl s)"

record expected_attempt =
  ea_attempt_id :: string
  ea_radio_id :: string
  ea_plan_id :: string
  ea_requested_start :: int

definition expected_attempt_post_init :: "expected_attempt \<Rightarrow> (batch_error, unit) result" where
  "expected_attempt_post_init a =
     raise_first [(ea_requested_start a < 0, ValueError (Bad_Time Negative_Utc))]"

record batch_definition =
  bd_schema :: schema_ref
  bd_batch_id :: string
  bd_mode :: batch_mode
  expected_attempts :: "expected_attempt list"
  maximum_skew :: "int option"

definition batch_schema_id :: string where
  "batch_schema_id = ''org.leo-flow.capture-batch''"

definition requested_skew :: "expected_attempt list \<Rightarrow> int" where
  "requested_skew es = \<bar>ea_requested_start (es ! 0) - ea_requested_start (es ! 1)\<bar>"

definition batch_definition_post_init :: "batch_definition \<Rightarrow> (batch_error, unit) result" where
  "batch_definition_post_init d =
     (let es = expected_attempts d in
      bindE (raise_first
        [(bd_schema d \<noteq> schema_v0_1 batch_schema_id, ValueError Bad_Schema),
         (length es \<noteq> 2, ValueError Not_Two_Attempts),
         (\<not> in_order ea_attempt_id es, ValueError Attempt_Order),
         (card (set (map ea_attempt_id es)) \<noteq> 2, ValueError Attempts_Not_Unique),
         (card (set (map ea_radio_id es)) \<noteq> 2, ValueError Attempts_Not_Unique),
         (card (set (map ea_plan_id es)) \<noteq> 2, ValueError Attempts_Not_Unique)]) (\<lambda>_.
      case bd_mode d of
        INDEPENDENT \<Rightarrow> raise_first [(maximum_skew d \<noteq> None, ValueError Independent_With_Limit)]
      | COORDINATED \<Rightarrow>
          (case maximum_skew d of
             None \<Rightarrow> Inl (ValueError Coordinated_Without_Limit)
           | Some m \<Rightarrow> raise_first
               [(m < 0, ValueError Negative_Integer),
                (requested_skew es \<noteq> 0, ValueError Requested_Starts_Differ)])))"

record attempt_outcome =
  ao_schema :: schema_ref
  ao_batch_id :: string
  ao_attempt_id :: string
  ao_radio_id :: string
  ao_plan_id :: string
  ao_state :: attempt_state
  ao_terminal :: int
  ao_observed_start :: "int option"
  ao_recording :: "published_recording_ref option"
  ao_failure_reason :: "string option"

definition outcome_schema_id :: string where
  "outcome_schema_id = ''org.leo-flow.capture-attempt-outcome''"

definition attempt_outcome_post_init :: "attempt_outcome \<Rightarrow> (batch_error, unit) result" where
  "attempt_outcome_post_init a =
     bindE (raise_first
       [(ao_schema a \<noteq> schema_v0_1 outcome_schema_id, ValueError Bad_Schema),
        (ao_terminal a < 0, ValueError (Bad_Time Negative_Utc))]) (\<lambda>_.
     bindE (case ao_observed_start a of
              None \<Rightarrow> Inr ()
            | Some t \<Rightarrow> raise_first
                [(t < 0, ValueError (Bad_Time Negative_Utc)),
                 (ao_terminal a < t, ValueError Ends_Before_Start)]) (\<lambda>_.
     case ao_state a of
       SUCCEEDED \<Rightarrow> raise_first
         [(ao_observed_start a = None \<or> ao_recording a = None, ValueError Incomplete_Success),
          (ao_failure_reason a \<noteq> None, ValueError Success_With_Reason)]
     | FAILED \<Rightarrow> raise_first
         [(ao_recording a \<noteq> None, ValueError Failure_With_Recording),
          (case ao_failure_reason a of None \<Rightarrow> True | Some c \<Rightarrow> \<not> failure_reason_ok c,
             ValueError Bad_Failure_Reason)]))"

subsection \<open>The snapshot\<close>

record batch_snapshot =
  bs_schema :: schema_ref
  bs_definition :: batch_definition
  outcomes :: "attempt_outcome list"
  bs_revision :: int

definition state_schema_id :: string where
  "state_schema_id = ''org.leo-flow.capture-batch-state''"

definition bs_batch_id :: "batch_snapshot \<Rightarrow> string" where
  "bs_batch_id s = bd_batch_id (bs_definition s)"

definition expected_dict :: "batch_definition \<Rightarrow> string \<Rightarrow> (nat \<times> expected_attempt) option" where
  "expected_dict d =
     dict_of (map (\<lambda>(i, e). (ea_attempt_id e, i, e)) (enumerate 0 (expected_attempts d)))"

text \<open>The loop over the outcomes; returns the recording identities in order.\<close>

fun check_outcomes ::
  "string \<Rightarrow> (string \<Rightarrow> (nat \<times> expected_attempt) option) \<Rightarrow> string list \<Rightarrow> int
     \<Rightarrow> attempt_outcome list \<Rightarrow> (batch_error, string list) result" where
  "check_outcomes batch expected seen prior [] = Inr []"
| "check_outcomes batch expected seen prior (a # as) =
     (case expected (ao_attempt_id a) of
        None \<Rightarrow> Inl (ValueError Outcome_Not_Expected)
      | Some (index, e) \<Rightarrow>
          bindE (raise_first
            [(ao_attempt_id a \<in> set seen, ValueError Outcome_Not_Expected),
             (ao_batch_id a \<noteq> batch, ValueError Other_Batch),
             (int index \<le> prior, ValueError Outcome_Order),
             (ao_radio_id a \<noteq> ea_radio_id e \<or> ao_plan_id a \<noteq> ea_plan_id e,
                ValueError Wrong_Route)]) (\<lambda>_.
          bindE (check_outcomes batch expected (ao_attempt_id a # seen) (int index) as) (\<lambda>ids.
            Inr (case ao_recording a of None \<Rightarrow> ids | Some p \<Rightarrow> published_recording_id p # ids))))"

definition batch_snapshot_post_init :: "batch_snapshot \<Rightarrow> (batch_error, unit) result" where
  "batch_snapshot_post_init s =
     bindE (raise_first
       [(bs_schema s \<noteq> schema_v0_1 state_schema_id, ValueError Bad_Schema),
        (bs_revision s < 0, ValueError Negative_Integer),
        (bs_revision s \<noteq> int (length (outcomes s)), ValueError Revision_Count)]) (\<lambda>_.
     bindE (check_outcomes (bs_batch_id s) (expected_dict (bs_definition s)) [] (- 1) (outcomes s))
       (\<lambda>ids. raise_first [(\<not> distinct ids, ValueError Same_Recording)]))"

definition terminal :: "batch_snapshot \<Rightarrow> bool" where
  "terminal s \<longleftrightarrow> length (outcomes s) = length (expected_attempts (bs_definition s))"

definition observed_skew :: "batch_snapshot \<Rightarrow> int option" where
  "observed_skew s =
     (case map ao_observed_start (outcomes s) of
        [Some a, Some b] \<Rightarrow> Some \<bar>a - b\<bar>
      | _ \<Rightarrow> None)"

definition successful_recordings :: "batch_snapshot \<Rightarrow> published_recording_ref list" where
  "successful_recordings s = List.map_filter ao_recording (outcomes s)"

definition paired_analysis_eligibility :: "batch_snapshot \<Rightarrow> eligibility" where
  "paired_analysis_eligibility s =
     (if \<not> terminal s then PENDING
      else if list_ex (\<lambda>a. ao_state a \<noteq> SUCCEEDED) (outcomes s) then INELIGIBLE
      else if bd_mode (bs_definition s) = COORDINATED then
        (case (observed_skew s, maximum_skew (bs_definition s)) of
           (Some obs, Some maximum) \<Rightarrow> if obs > maximum then INELIGIBLE else ELIGIBLE
         | _ \<Rightarrow> INELIGIBLE)
      else ELIGIBLE)"

text \<open>
  \<open>CaptureBatchSnapshot.record\<close>. The first outcome with the same attempt decides; a new
  outcome is sorted in, and \<open>replace\<close> runs the constructor's checks again.
\<close>

definition expected_index :: "batch_definition \<Rightarrow> string \<Rightarrow> nat option" where
  "expected_index d a = map_option fst (expected_dict d a)"

definition batch_record ::
  "batch_snapshot \<Rightarrow> attempt_outcome \<Rightarrow> (batch_error, batch_snapshot) result" where
  "batch_record s a =
     (case find (\<lambda>c. ao_attempt_id c = ao_attempt_id a) (outcomes s) of
        Some current \<Rightarrow>
          if current \<noteq> a then Inl (ValueError Different_Outcome) else Inr s
      | None \<Rightarrow>
          if expected_index (bs_definition s) (ao_attempt_id a) = None
          then Inl (ValueError Not_In_Batch)
          else if list_ex (\<lambda>c. expected_index (bs_definition s) (ao_attempt_id c) = None) (outcomes s)
          then Inl (KeyError Unknown_Attempt)
          else checked batch_snapshot_post_init
            (s\<lparr>outcomes := sort_key
                  (\<lambda>c. the (expected_index (bs_definition s) (ao_attempt_id c)))
                  (outcomes s @ [a]),
               bs_revision := bs_revision s + 1\<rparr>))"

subsection \<open>Admission\<close>

record admitted_capture =
  ac_attempt_id :: string
  ac_radio_id :: string
  ac_plan_id :: string
  ac_recording :: published_recording_ref

record paired_admission =
  pa_schema :: schema_ref
  pa_batch_id :: string
  pa_mode :: batch_mode
  pa_captures :: "admitted_capture list"
  pa_requested_skew :: int
  pa_observed_skew :: int
  pa_maximum_skew :: "int option"

definition admission_schema_id :: string where
  "admission_schema_id = ''org.leo-flow.paired-capture-admission''"

definition idempotency_key :: "paired_admission \<Rightarrow> string" where
  "idempotency_key p = ''paired-capture:'' @ pa_batch_id p"

definition paired_admission_post_init :: "paired_admission \<Rightarrow> (batch_error, unit) result" where
  "paired_admission_post_init p =
     (let cs = pa_captures p in
      bindE (raise_first
        [(pa_schema p \<noteq> schema_v0_1 admission_schema_id, ValueError Bad_Schema),
         (length cs \<noteq> 2, ValueError Not_Two_Captures),
         (\<not> in_order ac_attempt_id cs, ValueError Capture_Order),
         (card (set (map ac_attempt_id cs)) \<noteq> 2 \<or> card (set (map ac_radio_id cs)) \<noteq> 2
            \<or> card (set (map ac_plan_id cs)) \<noteq> 2
            \<or> card (set (map (\<lambda>c. published_recording_id (ac_recording c)) cs)) \<noteq> 2,
            ValueError Captures_Not_Unique),
         (pa_requested_skew p < 0, ValueError Negative_Integer),
         (pa_observed_skew p < 0, ValueError Negative_Integer)]) (\<lambda>_.
      case pa_mode p of
        INDEPENDENT \<Rightarrow> raise_first [(pa_maximum_skew p \<noteq> None, ValueError Independent_With_Limit)]
      | COORDINATED \<Rightarrow>
          (case pa_maximum_skew p of
             None \<Rightarrow> Inl (ValueError Coordinated_Without_Limit)
           | Some m \<Rightarrow> raise_first
               [(m < 0, ValueError Negative_Integer),
                (pa_requested_skew p \<noteq> 0, ValueError Requested_Starts_Differ),
                (pa_observed_skew p > m, ValueError Skew_Exceeded)])))"

subsection \<open>Store and coordinator\<close>

text \<open>The in-memory store: the dictionary \<open>_states\<close>, every operation under its lock.\<close>

type_synonym batch_states = "string \<Rightarrow> batch_snapshot option"
type_synonym ('s, 'a) batch_io = "('s, batch_error exn, 'a) io"

definition store_create :: "batch_snapshot \<Rightarrow> (batch_states, batch_snapshot) batch_io" where
  "store_create initial st =
     (case st (bs_batch_id initial) of
        None \<Rightarrow> (Inr initial, st(bs_batch_id initial \<mapsto> initial))
      | Some current \<Rightarrow>
          if bs_definition current \<noteq> bs_definition initial
          then (Inl (RuntimeError Batch_Identity_Conflict), st)
          else (Inr current, st))"

definition store_get :: "string \<Rightarrow> (batch_states, batch_snapshot option) batch_io" where
  "store_get b st = (Inr (st b), st)"

definition store_cas ::
  "string \<Rightarrow> int \<Rightarrow> batch_snapshot \<Rightarrow> (batch_states, batch_snapshot) batch_io" where
  "store_cas b expected_revision replacement st =
     (case st b of
        None \<Rightarrow> (Inl (RuntimeError Batch_Not_Found), st)
      | Some current \<Rightarrow>
          if bs_revision current \<noteq> expected_revision
          then (Inl (RuntimeError Batch_Revision_Conflict), st)
          else if bs_batch_id replacement \<noteq> b \<or> bs_revision replacement \<noteq> expected_revision + 1
          then (Inl (RuntimeError Batch_Identity_Conflict), st)
          else if bs_definition replacement \<noteq> bs_definition current
          then (Inl (RuntimeError Batch_Identity_Conflict), st)
          else (Inr replacement, st(b \<mapsto> replacement)))"

definition batch_coordinator_init :: "int \<Rightarrow> (batch_error, unit) result" where
  "batch_coordinator_init maximum_revision_retries =
     raise_first [(maximum_revision_retries \<le> 0, ValueError Bad_Retry_Limit)]"

definition initial_snapshot :: "batch_definition \<Rightarrow> batch_snapshot" where
  "initial_snapshot d =
     \<lparr>bs_schema = schema_v0_1 state_schema_id, bs_definition = d, outcomes = [], bs_revision = 0\<rparr>"

definition batch_register where
  "batch_register create_op d =
     bind_io (lift (checked batch_snapshot_post_init (initial_snapshot d))) (\<lambda>initial.
     bind_io (create_op initial) (\<lambda>state.
       if bs_batch_id state \<noteq> bd_batch_id d \<or> bs_definition state \<noteq> d
       then lift (Inl (RuntimeError Batch_Identity_Conflict))
       else ret state))"

definition batch_inspect where
  "batch_inspect get_op b =
     bind_io (get_op b) (\<lambda>state. case state of
         None \<Rightarrow> lift (Inl (RuntimeError Batch_Not_Found))
       | Some s \<Rightarrow> ret s)"

text \<open>
  The retry loop of \<open>CaptureBatchCoordinator.record\<close>. Other coordinators use the store at
  the same time: \<open>others n\<close> is what they do to it before the read and before the swap of
  the \<open>n\<close>-th remaining try. A recorded snapshot has a higher revision, so \<open>replacement is
  state\<close> holds exactly when the two are equal.
\<close>

fun coordinator_record where
  "coordinator_record get_op cas_op others 0 a s =
     (Inl (RuntimeError Batch_Revision_Conflict), s)"
| "coordinator_record get_op cas_op others (Suc n) a s =
     (case get_op (ao_batch_id a) (fst (others n) s) of
        (Inl e, t) \<Rightarrow> (Inl e, t)
      | (Inr None, t) \<Rightarrow> (Inl (RuntimeError Batch_Not_Found), t)
      | (Inr (Some state), t) \<Rightarrow>
          (case batch_record state a of
             Inl (ValueError e) \<Rightarrow> (Inl (RuntimeError Batch_Identity_Conflict), t)
           | Inl e \<Rightarrow> (Inl e, t)
           | Inr replacement \<Rightarrow>
               if replacement = state then (Inr state, t)
               else
                 (case cas_op (bs_batch_id state) (bs_revision state) replacement (snd (others n) t) of
                    (Inl e, u) \<Rightarrow>
                      if e = RuntimeError Batch_Revision_Conflict
                      then coordinator_record get_op cas_op others n a u
                      else (Inl e, u)
                  | (Inr stored, u) \<Rightarrow>
                      if stored \<noteq> replacement
                      then (Inl (RuntimeError Batch_Identity_Conflict), u)
                      else (Inr stored, u))))"

definition admission_of :: "batch_snapshot \<Rightarrow> string \<Rightarrow> (batch_error, paired_admission) result" where
  "admission_of state b =
     (if paired_analysis_eligibility state \<noteq> ELIGIBLE
      then Inl (RuntimeError Batch_Not_Eligible)
      else case observed_skew state of
        None \<Rightarrow> Inl (RuntimeError Batch_Not_Eligible)
      | Some obs \<Rightarrow>
          (let by_attempt = dict_of (map (\<lambda>a. (ao_attempt_id a, a)) (outcomes state));
               e1 = expected_attempts (bs_definition state) ! 0;
               e2 = expected_attempts (bs_definition state) ! 1
           in case (by_attempt (ea_attempt_id e1), by_attempt (ea_attempt_id e2)) of
                (Some o1, Some o2) \<Rightarrow>
                  (case (ao_recording o1, ao_recording o2) of
                     (Some r1, Some r2) \<Rightarrow>
                       checked paired_admission_post_init
                         \<lparr>pa_schema = schema_v0_1 admission_schema_id, pa_batch_id = b,
                          pa_mode = bd_mode (bs_definition state),
                          pa_captures =
                            [\<lparr>ac_attempt_id = ea_attempt_id e1, ac_radio_id = ea_radio_id e1,
                              ac_plan_id = ea_plan_id e1, ac_recording = r1\<rparr>,
                             \<lparr>ac_attempt_id = ea_attempt_id e2, ac_radio_id = ea_radio_id e2,
                              ac_plan_id = ea_plan_id e2, ac_recording = r2\<rparr>],
                          pa_requested_skew = requested_skew (expected_attempts (bs_definition state)),
                          pa_observed_skew = obs,
                          pa_maximum_skew = maximum_skew (bs_definition state)\<rparr>
                   | _ \<Rightarrow> Inl (RuntimeError Batch_Not_Eligible))
              | _ \<Rightarrow> Inl (KeyError Unknown_Attempt)))"

definition admit_paired_analysis where
  "admit_paired_analysis get_op b =
     bind_io (batch_inspect get_op b) (\<lambda>state. lift (admission_of state b))"

subsection \<open>The abstract batch\<close>

text \<open>
  The specification: a batch is a map from attempts to outcomes. It is admissible when
  every outcome answers an expected attempt of this batch and no two successes publish the
  same recording. A snapshot lists the outcomes in the order of the expected attempts.
\<close>

type_synonym batch_map = "string \<Rightarrow> attempt_outcome option"

definition routed :: "batch_definition \<Rightarrow> attempt_outcome \<Rightarrow> bool" where
  "routed d a \<longleftrightarrow> ao_batch_id a = bd_batch_id d \<and>
     (\<exists>e \<in> set (expected_attempts d). ea_attempt_id e = ao_attempt_id a
        \<and> ea_radio_id e = ao_radio_id a \<and> ea_plan_id e = ao_plan_id a)"

definition keyed :: "batch_definition \<Rightarrow> batch_map \<Rightarrow> bool" where
  "keyed d v \<longleftrightarrow> (\<forall>i a. v i = Some a \<longrightarrow> ao_attempt_id a = i \<and> routed d a)"

definition admissible :: "batch_definition \<Rightarrow> batch_map \<Rightarrow> bool" where
  "admissible d v \<longleftrightarrow> keyed d v \<and>
     (\<forall>i j a b p q. v i = Some a \<longrightarrow> v j = Some b \<longrightarrow> i \<noteq> j \<longrightarrow> ao_recording a = Some p
        \<longrightarrow> ao_recording b = Some q \<longrightarrow> published_recording_id p \<noteq> published_recording_id q)"

definition concrete :: "batch_definition \<Rightarrow> batch_map \<Rightarrow> batch_snapshot" where
  "concrete d v =
     (let os = List.map_filter v (map ea_attempt_id (expected_attempts d))
      in \<lparr>bs_schema = schema_v0_1 state_schema_id, bs_definition = d, outcomes = os,
          bs_revision = int (length os)\<rparr>)"

definition abs_batch :: "batch_snapshot \<Rightarrow> batch_map" where
  "abs_batch s i = find (\<lambda>c. ao_attempt_id c = i) (outcomes s)"

abbreviation valid_definition :: "batch_definition \<Rightarrow> bool" where
  "valid_definition d \<equiv> batch_definition_post_init d = Inr ()"

abbreviation valid_snapshot :: "batch_snapshot \<Rightarrow> bool" where
  "valid_snapshot s \<equiv> batch_snapshot_post_init s = Inr ()"

lemma card_two: "card (set [x, y]) = 2 \<longleftrightarrow> x \<noteq> y"
  by (simp add: card_insert_if)

lemma length_two: "length xs = 2 \<longleftrightarrow> (\<exists>x y. xs = [x, y])"
  by (auto simp: length_Suc_conv numeral_2_eq_2)

lemma valid_definitionE:
  assumes "valid_definition d"
  obtains e f where "expected_attempts d = [e, f]" "ea_attempt_id e < ea_attempt_id f"
    "ea_radio_id e \<noteq> ea_radio_id f" "ea_plan_id e \<noteq> ea_plan_id f"
proof -
  from assms have "length (expected_attempts d) = 2"
    by (auto simp: batch_definition_post_init_def Let_def)
  then obtain e f where ef: "expected_attempts d = [e, f]" by (auto simp: length_two)
  with assms show thesis
    by (intro that [of e f])
      (auto simp: batch_definition_post_init_def Let_def card_insert_if order.order_iff_strict
        split: if_splits)
qed

lemma expected_dict_two:
  assumes "expected_attempts d = [e, f]" and "ea_attempt_id e \<noteq> ea_attempt_id f"
  shows "expected_dict d i = (if i = ea_attempt_id e then Some (0, e)
    else if i = ea_attempt_id f then Some (1, f) else None)"
  using assms by (simp add: expected_dict_def dict_of_def)

lemma routed_two:
  assumes "expected_attempts d = [e, f]" and "ea_attempt_id e \<noteq> ea_attempt_id f"
  shows "routed d a \<longleftrightarrow> ao_batch_id a = bd_batch_id d \<and>
    (ao_attempt_id a = ea_attempt_id e \<and> ao_radio_id a = ea_radio_id e \<and> ao_plan_id a = ea_plan_id e
     \<or> ao_attempt_id a = ea_attempt_id f \<and> ao_radio_id a = ea_radio_id f \<and> ao_plan_id a = ea_plan_id f)"
  using assms by (auto simp: routed_def)

lemma keyedD:
  assumes "keyed d v" and "v i = Some a"
  shows "ao_attempt_id a = i" "routed d a" "expected_attempts d = [e, f] \<Longrightarrow>
    i = ea_attempt_id e \<or> i = ea_attempt_id f"
proof -
  from assms show *: "ao_attempt_id a = i" "routed d a" by (simp_all add: keyed_def)
  assume "expected_attempts d = [e, f]"
  with * show "i = ea_attempt_id e \<or> i = ea_attempt_id f" by (auto simp: routed_def)
qed

text \<open>The outcomes of a valid snapshot: none, one, or both in order.\<close>

lemma check_outcomes_two:
  assumes "expected_attempts d = [e, f]" and "ea_attempt_id e \<noteq> ea_attempt_id f"
  shows "(is_ok (check_outcomes (bd_batch_id d) (expected_dict d) [] (- 1) os) \<longleftrightarrow>
      (\<forall>a \<in> set os. routed d a) \<and>
      map ao_attempt_id os \<in> {[], [ea_attempt_id e], [ea_attempt_id f],
        [ea_attempt_id e, ea_attempt_id f]})
    \<and> (check_outcomes (bd_batch_id d) (expected_dict d) [] (- 1) os = Inr ids \<longrightarrow>
      ids = map published_recording_id (List.map_filter ao_recording os))"
proof -
  note d = expected_dict_two [OF assms] routed_two [OF assms]
  consider (nil) "os = []" | (one) a where "os = [a]" | (two) a b where "os = [a, b]"
    | (more) a b c os' where "os = a # b # c # os'"
    by (metis list.exhaust)
  then show ?thesis
  proof cases
    case nil
    then show ?thesis by (auto simp: List.map_filter_def)
  next
    case one
    then show ?thesis using assms(2)
      by (auto simp: d List.map_filter_def split: option.splits)
  next
    case two
    then show ?thesis using assms(2)
      by (auto simp: d List.map_filter_def is_ok_bindE split: option.splits)
  next
    case more
    then show ?thesis using assms(2)
      by (auto simp: d is_ok_bindE split: option.splits)
  qed
qed

lemma map_filter_simps [simp]:
  "List.map_filter f [] = []"
  "List.map_filter f (x # xs) = (case f x of None \<Rightarrow> List.map_filter f xs | Some y \<Rightarrow> y # List.map_filter f xs)"
  by (simp_all add: List.map_filter_def split: option.splits)

lemma valid_snapshot_two:
  assumes "expected_attempts d = [e, f]" and "ea_attempt_id e \<noteq> ea_attempt_id f"
    and "bs_definition s = d"
  shows "valid_snapshot s \<longleftrightarrow>
    bs_schema s = schema_v0_1 state_schema_id \<and> bs_revision s = int (length (outcomes s))
    \<and> (\<forall>a \<in> set (outcomes s). routed d a)
    \<and> map ao_attempt_id (outcomes s) \<in> {[], [ea_attempt_id e], [ea_attempt_id f],
        [ea_attempt_id e, ea_attempt_id f]}
    \<and> distinct (map published_recording_id (List.map_filter ao_recording (outcomes s)))"
proof (cases "check_outcomes (bd_batch_id d) (expected_dict d) [] (- 1) (outcomes s)")
  case (Inl x)
  with check_outcomes_two [OF assms(1,2), of "outcomes s"] assms(3) show ?thesis
    by (auto simp: batch_snapshot_post_init_def bs_batch_id_def)
next
  case (Inr ids)
  with check_outcomes_two [OF assms(1,2), of "outcomes s" ids] assms(3) show ?thesis
    by (auto simp: batch_snapshot_post_init_def bs_batch_id_def)
qed

lemma valid_iff_concrete:
  assumes "valid_definition d"
  shows "valid_snapshot s \<and> bs_definition s = d \<longleftrightarrow> (\<exists>v. admissible d v \<and> s = concrete d v)"
proof -
  obtain e f where ef: "expected_attempts d = [e, f]" "ea_attempt_id e < ea_attempt_id f"
    using assms by (rule valid_definitionE)
  then have ne: "ea_attempt_id e \<noteq> ea_attempt_id f" by simp
  note two = valid_snapshot_two [OF ef(1) ne]
  show ?thesis
  proof
    assume s: "valid_snapshot s \<and> bs_definition s = d"
    with two [of s] have s': "bs_schema s = schema_v0_1 state_schema_id"
        "bs_revision s = int (length (outcomes s))" "\<forall>a \<in> set (outcomes s). routed d a"
        "distinct (map published_recording_id (List.map_filter ao_recording (outcomes s)))"
        "map ao_attempt_id (outcomes s) \<in> {[], [ea_attempt_id e], [ea_attempt_id f],
           [ea_attempt_id e, ea_attempt_id f]}" by blast+
    let ?v = "abs_batch s"
    have "admissible d ?v \<and> outcomes s = List.map_filter ?v [ea_attempt_id e, ea_attempt_id f]"
      using s'(3-5) ne
      by (auto simp: admissible_def keyed_def abs_batch_def map_eq_Cons_conv split: if_splits)
    moreover from this s s'(1,2) ef(1) have "s = concrete d ?v"
      by (intro batch_snapshot.equality) (simp_all add: concrete_def Let_def)
    ultimately show "\<exists>v. admissible d v \<and> s = concrete d v" by blast
  next
    assume "\<exists>v. admissible d v \<and> s = concrete d v"
    then obtain v where v: "admissible d v" "s = concrete d v" by blast
    have id: "ao_attempt_id a = i \<and> routed d a" if "v i = Some a" for i a
      using v(1) that by (auto simp: admissible_def keyed_def)
    have d: "bs_definition s = d" by (simp add: v(2) concrete_def Let_def)
    have rec: "published_recording_id p \<noteq> published_recording_id q"
      if "v (ea_attempt_id e) = Some a" "v (ea_attempt_id f) = Some b" "ao_recording a = Some p"
        "ao_recording b = Some q" for a b p q
      using v(1) that ne by (auto simp: admissible_def)
    show "valid_snapshot s \<and> bs_definition s = d"
      unfolding two [OF d] using d ef(1)
      by (cases "v (ea_attempt_id e)"; cases "v (ea_attempt_id f)")
        (auto simp: v(2) concrete_def Let_def rec dest!: id split: option.splits)
  qed
qed

lemma abs_concrete:
  assumes "valid_definition d" and "keyed d v"
  shows "abs_batch (concrete d v) = v"
proof
  fix i
  obtain e f where ef: "expected_attempts d = [e, f]" "ea_attempt_id e < ea_attempt_id f"
    using assms(1) by (rule valid_definitionE)
  show "abs_batch (concrete d v) i = v i"
    using ef keyedD(1) [OF assms(2), of "ea_attempt_id e"]
      keyedD(1) [OF assms(2), of "ea_attempt_id f"] keyedD(3) [OF assms(2) _ ef(1), of i]
    by (cases "v i"; cases "v (ea_attempt_id e)"; cases "v (ea_attempt_id f)")
      (auto simp: abs_batch_def concrete_def Let_def)
qed

lemma admissible_subset:
  "admissible d w \<Longrightarrow> (\<And>i a. v i = Some a \<Longrightarrow> w i = Some a) \<Longrightarrow> admissible d v"
  unfolding admissible_def keyed_def by blast

lemma admissible_empty [simp]: "admissible d (\<lambda>_. None)"
  by (simp add: admissible_def keyed_def)

lemma admissible_keyed: "admissible d v \<Longrightarrow> keyed d v"
  by (simp add: admissible_def)

lemma concrete_simps [simp]:
  "bs_definition (concrete d v) = d"
  "bs_revision (concrete d v) = int (length (outcomes (concrete d v)))"
  by (simp_all add: concrete_def Let_def)

lemma concrete_inj:
  assumes "valid_definition d" "keyed d v" "keyed d w"
  shows "concrete d v = concrete d w \<longleftrightarrow> v = w"
  using abs_concrete assms by metis

text \<open>The sorted insertion is the map update.\<close>

lemma concrete_insert:
  assumes "valid_definition d" and "keyed d v" and "routed d a" and "v (ao_attempt_id a) = None"
  shows "(concrete d v)\<lparr>outcomes := sort_key (\<lambda>c. the (expected_index d (ao_attempt_id c)))
        (outcomes (concrete d v) @ [a]), bs_revision := bs_revision (concrete d v) + 1\<rparr>
    = concrete d (v(ao_attempt_id a \<mapsto> a))"
proof -
  obtain e f where ef: "expected_attempts d = [e, f]" "ea_attempt_id e < ea_attempt_id f"
    using assms(1) by (rule valid_definitionE)
  then have ne: "ea_attempt_id e \<noteq> ea_attempt_id f" "ea_attempt_id f \<noteq> ea_attempt_id e" by auto
  note id = keyedD(1) [OF assms(2)]
  note ix = expected_dict_two [OF ef(1) ne(1)]
  have "ao_attempt_id a = ea_attempt_id e \<or> ao_attempt_id a = ea_attempt_id f"
    using assms(3) ef(1) by (auto simp: routed_def)
  then show ?thesis
  proof
    assume a: "ao_attempt_id a = ea_attempt_id e"
    with assms(4) ef(1) ne id [of "ea_attempt_id f"] show ?thesis
      by (cases "v (ea_attempt_id f)") (auto simp: concrete_def Let_def ix expected_index_def)
  next
    assume a: "ao_attempt_id a = ea_attempt_id f"
    with assms(4) ef(1) ne id [of "ea_attempt_id e"] show ?thesis
      by (cases "v (ea_attempt_id e)") (auto simp: concrete_def Let_def ix expected_index_def)
  qed
qed

lemma batch_record_concrete:
  assumes "valid_definition d" and "admissible d v"
  shows "batch_record (concrete d v) a = Inr t \<longleftrightarrow>
    (case v (ao_attempt_id a) of
       Some c \<Rightarrow> c = a \<and> t = concrete d v
     | None \<Rightarrow> admissible d (v(ao_attempt_id a \<mapsto> a)) \<and> t = concrete d (v(ao_attempt_id a \<mapsto> a)))"
proof -
  note k = admissible_keyed [OF assms(2)]
  show ?thesis
  proof (cases "v (ao_attempt_id a)")
    case (Some c)
    then have "find (\<lambda>c. ao_attempt_id c = ao_attempt_id a) (outcomes (concrete d v)) = Some c"
      using abs_concrete [OF assms(1) k] by (metis abs_batch_def)
    with Some show ?thesis by (auto simp: batch_record_def)
  next
    case None
    then have f: "find (\<lambda>c. ao_attempt_id c = ao_attempt_id a) (outcomes (concrete d v)) = None"
      using abs_concrete [OF assms(1) k] by (metis abs_batch_def)
    let ?w = "v(ao_attempt_id a \<mapsto> a)"
    let ?s = "(concrete d v)\<lparr>outcomes := sort_key (\<lambda>c. the (expected_index d (ao_attempt_id c)))
          (outcomes (concrete d v) @ [a]), bs_revision := bs_revision (concrete d v) + 1\<rparr>"
    obtain e g where eg: "expected_attempts d = [e, g]" "ea_attempt_id e < ea_attempt_id g"
      using assms(1) by (rule valid_definitionE)
    then have ne: "ea_attempt_id e \<noteq> ea_attempt_id g" by simp
    have vs: "valid_snapshot (concrete d v)"
      using valid_iff_concrete [OF assms(1)] assms(2) by blast
    have index: "expected_index d (ao_attempt_id b) \<noteq> None" if "routed d b" for b
      using that eg(1) by (auto simp: routed_def expected_index_def expected_dict_two [OF eg(1) ne])
    have "\<forall>b \<in> set (outcomes (concrete d v)). routed d b"
      using vs valid_snapshot_two [OF eg(1) ne, of "concrete d v"] by simp
    with index have known:
        "\<not> list_ex (\<lambda>c. expected_index d (ao_attempt_id c) = None) (outcomes (concrete d v))"
      by (simp add: list_ex_iff)
    have r: "batch_record (concrete d v) a =
        (if expected_index d (ao_attempt_id a) = None then Inl (ValueError Not_In_Batch)
         else checked batch_snapshot_post_init ?s)"
      using f known by (simp add: batch_record_def)
    have adm: "routed d a" if "admissible d ?w"
      using keyedD(2) [OF admissible_keyed [OF that], of "ao_attempt_id a"] by simp
    have "valid_snapshot ?s \<longleftrightarrow> admissible d ?w"
    proof
      assume valid: "valid_snapshot ?s"
      have "a \<in> set (outcomes ?s)" by simp
      moreover have "\<forall>b \<in> set (outcomes ?s). routed d b"
        using valid valid_snapshot_two [OF eg(1) ne, of ?s] by simp
      ultimately have "routed d a" by blast
      then have s: "?s = concrete d ?w" using concrete_insert [OF assms(1) k _ None] by simp
      with valid obtain w where "admissible d w" "concrete d ?w = concrete d w"
        using valid_iff_concrete [OF assms(1), of ?s] by auto
      moreover have "keyed d ?w" using k \<open>routed d a\<close> by (simp add: keyed_def)
      ultimately show "admissible d ?w"
        using concrete_inj [OF assms(1), of ?w w] admissible_keyed by blast
    next
      assume "admissible d ?w"
      then show "valid_snapshot ?s"
        using concrete_insert [OF assms(1) k adm None] valid_iff_concrete [OF assms(1)] by simp blast
    qed
    with None r index [of a] adm concrete_insert [OF assms(1) k _ None] show ?thesis
      by (auto simp: checked_def)
  qed
qed

text \<open>A valid snapshot of a valid definition, seen as its map.\<close>

lemma valid_snapshotE:
  assumes "valid_definition (bs_definition s)" and "valid_snapshot s"
  obtains "admissible (bs_definition s) (abs_batch s)" "s = concrete (bs_definition s) (abs_batch s)"
proof -
  from assms obtain v where v: "admissible (bs_definition s) v" "s = concrete (bs_definition s) v"
    using valid_iff_concrete [OF assms(1), of s] by blast
  then have "abs_batch s = v"
    using abs_concrete [OF assms(1) admissible_keyed [OF v(1)]] by simp
  with v that show thesis by simp
qed

lemma valid_concrete:
  "valid_definition d \<Longrightarrow> admissible d v \<Longrightarrow> valid_snapshot (concrete d v)"
  using valid_iff_concrete by blast

lemma abs_concrete_admissible:
  "valid_definition d \<Longrightarrow> admissible d v \<Longrightarrow> abs_batch (concrete d v) = v"
  by (rule abs_concrete [OF _ admissible_keyed])

lemma concrete_ne_update:
  assumes "valid_definition d" "admissible d v" "admissible d (v(i \<mapsto> a))" "v i = None"
  shows "concrete d v \<noteq> concrete d (v(i \<mapsto> a))"
  using concrete_inj [OF assms(1) admissible_keyed [OF assms(2)] admissible_keyed [OF assms(3)]]
    assms(4) by (metis fun_upd_same option.distinct(1))

subsection \<open>Properties of the reduction\<close>

text \<open>
  C30. Recording refines insertion into a map: on a valid snapshot, an attempt without an
  outcome gets it exactly when the extended map is admissible, the same outcome again is
  accepted and changes nothing, and a different outcome for a decided attempt raises.
\<close>

theorem batch_record_refines:
  assumes "valid_definition (bs_definition s)" and "valid_snapshot s"
  shows "batch_record s a = Inr t \<longleftrightarrow>
    (case abs_batch s (ao_attempt_id a) of
       Some c \<Rightarrow> c = a \<and> t = s
     | None \<Rightarrow> admissible (bs_definition s) ((abs_batch s)(ao_attempt_id a \<mapsto> a))
         \<and> valid_snapshot t \<and> bs_definition t = bs_definition s
         \<and> abs_batch t = (abs_batch s)(ao_attempt_id a \<mapsto> a))"
proof -
  let ?d = "bs_definition s" and ?v = "abs_batch s"
  obtain adm: "admissible ?d ?v" and s: "s = concrete ?d ?v" using assms by (rule valid_snapshotE)
  have "t = concrete ?d w \<longleftrightarrow> valid_snapshot t \<and> bs_definition t = ?d \<and> abs_batch t = w"
    if "admissible ?d w" for w
  proof
    assume "t = concrete ?d w"
    with that show "valid_snapshot t \<and> bs_definition t = ?d \<and> abs_batch t = w"
      using valid_concrete [OF assms(1) that] abs_concrete_admissible [OF assms(1) that] by simp
  next
    assume t: "valid_snapshot t \<and> bs_definition t = ?d \<and> abs_batch t = w"
    with assms(1) show "t = concrete ?d w" by (metis valid_snapshotE)
  qed
  then show ?thesis
    using batch_record_concrete [OF assms(1) adm, of a t] s
    by (cases "?v (ao_attempt_id a)") auto
qed

text \<open>Insertion into the map, and that two insertions commute.\<close>

definition put :: "batch_definition \<Rightarrow> batch_map \<Rightarrow> attempt_outcome \<Rightarrow> batch_map option" where
  "put d v a =
     (case v (ao_attempt_id a) of
        Some c \<Rightarrow> if c = a then Some v else None
      | None \<Rightarrow> if admissible d (v(ao_attempt_id a \<mapsto> a)) then Some (v(ao_attempt_id a \<mapsto> a)) else None)"

lemma put_Some: "put d v a = Some w \<longleftrightarrow>
    w = v(ao_attempt_id a \<mapsto> a) \<and> v (ao_attempt_id a) \<in> {None, Some a}
    \<and> (v (ao_attempt_id a) = None \<longrightarrow> admissible d w)"
  by (auto simp: put_def fun_upd_idem split: option.splits)

lemma put_admissible: "admissible d v \<Longrightarrow> put d v a = Some w \<Longrightarrow> admissible d w"
  by (auto simp: put_Some fun_upd_idem)

lemma put_mono: "put d v a = Some w \<Longrightarrow> v \<subseteq>\<^sub>m w"
  by (auto simp: put_Some map_le_def)

lemma put_put:
  assumes "admissible d v"
  shows "(\<exists>w. put d v a = Some w \<and> put d w b = Some u) \<longleftrightarrow>
    admissible d u \<and> u = v(ao_attempt_id a \<mapsto> a, ao_attempt_id b \<mapsto> b)
    \<and> v \<subseteq>\<^sub>m u \<and> u (ao_attempt_id a) = Some a" (is "?L \<longleftrightarrow> ?R")
proof
  assume ?L
  then obtain w where w: "put d v a = Some w" "put d w b = Some u" by blast
  have "w \<subseteq>\<^sub>m u" using put_mono [OF w(2)] .
  moreover have "w (ao_attempt_id a) = Some a" using w(1) by (simp add: put_Some)
  ultimately have "u (ao_attempt_id a) = Some a" by (auto simp: map_le_def dom_def)
  moreover have "v \<subseteq>\<^sub>m u" using put_mono w by (blast intro: map_le_trans)
  moreover have "admissible d u" using put_admissible assms w by blast
  ultimately show ?R using w by (simp add: put_Some)
next
  assume R: ?R
  let ?w = "v(ao_attempt_id a \<mapsto> a)"
  have u: "u (ao_attempt_id a) = Some a" "u (ao_attempt_id b) = Some b" "v \<subseteq>\<^sub>m u"
    using R by auto
  have up: "u i = Some c" if "v i = Some c" for i c
    using u(3) that by (metis domI map_le_def)
  have w_u: "u i = Some c" if "?w i = Some c" for i c
    using that up u(1) by (auto split: if_splits)
  have "admissible d u" using R by blast
  then have adm: "admissible d ?w" by (rule admissible_subset) (rule w_u)
  have "v (ao_attempt_id a) \<in> {None, Some a}"
    using up u(1) by (cases "v (ao_attempt_id a)") force+
  moreover have "?w (ao_attempt_id b) \<in> {None, Some b}"
    using w_u u(2) by (cases "?w (ao_attempt_id b)") force+
  ultimately have "put d v a = Some ?w" "put d ?w b = Some u"
    using R adm unfolding put_Some by blast+
  then show ?L by blast
qed

lemma put_commute:
  assumes "admissible d v"
  shows "(\<exists>w. put d v a = Some w \<and> put d w b = Some u) \<longleftrightarrow> (\<exists>w. put d v b = Some w \<and> put d w a = Some u)"
proof -
  have "v(ao_attempt_id a \<mapsto> a, ao_attempt_id b \<mapsto> b) = v(ao_attempt_id b \<mapsto> b, ao_attempt_id a \<mapsto> a)"
    if "ao_attempt_id a \<noteq> ao_attempt_id b \<or> a = b" for a b
    using that by (auto simp: fun_upd_twist)
  then show ?thesis
    unfolding put_put [OF assms] by (metis fun_upd_apply option.inject)
qed

lemma batch_record_put:
  assumes "valid_definition d" and "admissible d v"
  shows "batch_record (concrete d v) a = Inr t \<longleftrightarrow> (\<exists>w. put d v a = Some w \<and> t = concrete d w)"
  unfolding batch_record_concrete [OF assms] put_def by (auto split: option.splits)

lemma record_record_put:
  assumes "valid_definition d" and "admissible d v"
  shows "bindE (batch_record (concrete d v) a) (\<lambda>t. batch_record t b) = Inr u \<longleftrightarrow>
    (\<exists>x. (\<exists>w. put d v a = Some w \<and> put d w b = Some x) \<and> u = concrete d x)"
proof -
  have "batch_record (concrete d w) b = Inr u \<longleftrightarrow> (\<exists>x. put d w b = Some x \<and> u = concrete d x)"
    if "put d v a = Some w" for w
    using batch_record_put [OF assms(1) put_admissible [OF assms(2) that]] .
  then show ?thesis by (auto simp: batch_record_put [OF assms])
qed

text \<open>
  C31. The order in which the outcomes of a batch arrive does not matter: recording two
  outcomes one after the other succeeds in one order exactly if it does in the other, and
  gives the same snapshot.
\<close>

theorem outcome_order_irrelevant:
  assumes "valid_definition (bs_definition s)" and "valid_snapshot s"
  shows "bindE (batch_record s a) (\<lambda>t. batch_record t b) = Inr u \<longleftrightarrow>
         bindE (batch_record s b) (\<lambda>t. batch_record t a) = Inr u"
proof -
  let ?d = "bs_definition s" and ?v = "abs_batch s"
  obtain v1: "admissible ?d ?v" and v2: "s = concrete ?d ?v" using assms by (rule valid_snapshotE)
  have "(\<exists>x. (\<exists>w. put ?d ?v a = Some w \<and> put ?d w b = Some x) \<and> u = concrete ?d x) \<longleftrightarrow>
      (\<exists>x. (\<exists>w. put ?d ?v b = Some w \<and> put ?d w a = Some x) \<and> u = concrete ?d x)"
    unfolding put_commute [OF v1, of a b] ..
  then show ?thesis
    using record_record_put [OF assms(1) v1] v2 by simp
qed

text \<open>How a stored batch changes over time.\<close>

definition evolves :: "batch_snapshot \<Rightarrow> batch_snapshot \<Rightarrow> bool" where
  "evolves s t \<longleftrightarrow>
     valid_snapshot t \<and> bs_definition t = bs_definition s \<and> abs_batch s \<subseteq>\<^sub>m abs_batch t"

lemma evolves_refl: "valid_snapshot s \<Longrightarrow> evolves s s"
  by (simp add: evolves_def)

lemma evolves_trans: "evolves s t \<Longrightarrow> evolves t u \<Longrightarrow> evolves s u"
  by (auto simp: evolves_def intro: map_le_trans)

lemma record_put_snapshot:
  assumes "valid_definition (bs_definition s)" and "valid_snapshot s" and "batch_record s a = Inr t"
  obtains w where "put (bs_definition s) (abs_batch s) a = Some w" "t = concrete (bs_definition s) w"
    "admissible (bs_definition s) w" "abs_batch t = w" "valid_snapshot t"
proof -
  let ?d = "bs_definition s" and ?v = "abs_batch s"
  obtain v1: "admissible ?d ?v" and v2: "s = concrete ?d ?v"
    using assms(1,2) by (rule valid_snapshotE)
  obtain w where w: "put ?d ?v a = Some w" "t = concrete ?d w"
    using batch_record_put [OF assms(1) v1, of a t] v2 assms(3) by auto
  have "admissible ?d w" using put_admissible [OF v1 w(1)] .
  then show thesis
    using that w abs_concrete_admissible [OF assms(1)] valid_concrete [OF assms(1)] by blast
qed

lemma record_evolves:
  assumes "valid_definition (bs_definition s)" and "valid_snapshot s" and "batch_record s a = Inr t"
  shows "evolves s t" "abs_batch t (ao_attempt_id a) = Some a"
proof -
  obtain w where w: "put (bs_definition s) (abs_batch s) a = Some w" "t = concrete (bs_definition s) w"
    "abs_batch t = w" "valid_snapshot t"
    using assms by (rule record_put_snapshot)
  show "evolves s t" using w(2-4) put_mono [OF w(1)] by (simp add: evolves_def)
  show "abs_batch t (ao_attempt_id a) = Some a" using w(1,3) by (simp add: put_Some)
qed

lemma terminal_abs:
  assumes "valid_definition (bs_definition s)" and "valid_snapshot s" and "terminal s"
    and "keyed (bs_definition s) w" and "w (ao_attempt_id a) = Some a"
  shows "abs_batch s (ao_attempt_id a) \<noteq> None"
proof -
  let ?d = "bs_definition s" and ?v = "abs_batch s"
  obtain v2: "s = concrete ?d ?v" using assms(1,2) by (rule valid_snapshotE)
  obtain e f where ef: "expected_attempts ?d = [e, f]" "ea_attempt_id e < ea_attempt_id f"
    using assms(1) by (rule valid_definitionE)
  have "length (outcomes (concrete ?d ?v)) = 2"
    using assms(3) ef(1) v2 by (simp add: terminal_def)
  then have "?v (ea_attempt_id e) \<noteq> None \<and> ?v (ea_attempt_id f) \<noteq> None"
    using ef(1) by (auto simp: concrete_def Let_def split: option.splits)
  then show ?thesis using keyedD(3) [OF assms(4,5) ef(1)] by auto
qed

text \<open>
  A recorded outcome is there to stay: recording returns a valid snapshot that keeps
  every earlier outcome, recording the same outcome again returns the same snapshot, and a
  complete batch never changes.
\<close>

lemma recorded_outcomes_are_final:
  assumes "valid_definition (bs_definition s)" and "valid_snapshot s" and "batch_record s a = Inr t"
  shows "valid_snapshot t \<and> abs_batch s \<subseteq>\<^sub>m abs_batch t \<and> batch_record t a = Inr t
    \<and> abs_batch t (ao_attempt_id a) = Some a \<and> (terminal s \<longrightarrow> t = s)"
proof -
  obtain w where w: "put (bs_definition s) (abs_batch s) a = Some w" "t = concrete (bs_definition s) w"
    "admissible (bs_definition s) w" "abs_batch t = w" "valid_snapshot t"
    using assms by (rule record_put_snapshot)
  note ev = record_evolves [OF assms]
  then have "put (bs_definition s) w a = Some w" using w(4) by (simp add: put_def)
  then have "batch_record t a = Inr t"
    using batch_record_put [OF assms(1) w(3)] w(2) by blast
  moreover have "t = s" if "terminal s"
  proof -
    have "abs_batch s (ao_attempt_id a) = Some a"
      using terminal_abs [OF assms(1,2) that admissible_keyed [OF w(3)], of a] ev(2) w(1,4)
      by (auto simp: put_Some)
    with w(1) have "w = abs_batch s" by (simp add: put_def)
    moreover obtain "s = concrete (bs_definition s) (abs_batch s)"
      using assms(1,2) by (rule valid_snapshotE)
    ultimately show ?thesis using w(2) by simp
  qed
  ultimately show ?thesis using ev by (simp add: evolves_def)
qed

subsection \<open>Admission\<close>

text \<open>
  An eligible batch is always admitted: with outcomes their constructors accepted,
  \<open>admit_paired_analysis\<close> raises nothing, the admitted recordings are the two successful
  recordings in the order of the expected attempts, and a coordinated admission is within
  the declared limit on the measured start skew.
\<close>

lemma eligible_batch_is_admitted:
  assumes "valid_definition (bs_definition s)" and "valid_snapshot s"
    and "\<forall>a \<in> set (outcomes s). attempt_outcome_post_init a = Inr ()"
    and "paired_analysis_eligibility s = ELIGIBLE"
  shows "\<exists>p. admission_of s (bs_batch_id s) = Inr p \<and> paired_admission_post_init p = Inr ()
    \<and> map ac_recording (pa_captures p) = successful_recordings s
    \<and> map ac_attempt_id (pa_captures p) = map ea_attempt_id (expected_attempts (bs_definition s))
    \<and> (bd_mode (bs_definition s) = COORDINATED \<longrightarrow> pa_requested_skew p = 0
        \<and> (\<exists>m. maximum_skew (bs_definition s) = Some m \<and> pa_observed_skew p \<le> m))"
proof -
  let ?d = "bs_definition s"
  obtain e f where ef: "expected_attempts ?d = [e, f]" "ea_attempt_id e < ea_attempt_id f"
    "ea_radio_id e \<noteq> ea_radio_id f" "ea_plan_id e \<noteq> ea_plan_id f"
    using assms(1) by (rule valid_definitionE)
  then have ne: "ea_attempt_id e \<noteq> ea_attempt_id f" by simp
  have complete: "terminal s" using assms(4) by (auto simp: paired_analysis_eligibility_def split: if_splits)
  note valid = assms(2) [unfolded valid_snapshot_two [OF ef(1) ne refl]]
  from complete ef(1) valid obtain a b where ab: "outcomes s = [a, b]"
      "ao_attempt_id a = ea_attempt_id e" "ao_attempt_id b = ea_attempt_id f"
    by (auto simp: terminal_def map_eq_Cons_conv)
  have succ: "ao_state a = SUCCEEDED" "ao_state b = SUCCEEDED"
    using assms(4) complete ab(1)
    by (auto simp: paired_analysis_eligibility_def split: if_splits)
  from assms(3) ab(1) succ obtain p q x y where
    pq: "ao_recording a = Some p" "ao_recording b = Some q"
      "ao_observed_start a = Some x" "ao_observed_start b = Some y"
    by (auto simp: attempt_outcome_post_init_def)
  have rec: "published_recording_id p \<noteq> published_recording_id q"
    using valid ab(1) pq by simp
  have obs: "observed_skew s = Some \<bar>x - y\<bar>" by (simp add: observed_skew_def ab(1) pq)
  let ?p = "\<lparr>pa_schema = schema_v0_1 admission_schema_id, pa_batch_id = bs_batch_id s,
      pa_mode = bd_mode ?d,
      pa_captures = [\<lparr>ac_attempt_id = ea_attempt_id e, ac_radio_id = ea_radio_id e,
          ac_plan_id = ea_plan_id e, ac_recording = p\<rparr>,
        \<lparr>ac_attempt_id = ea_attempt_id f, ac_radio_id = ea_radio_id f,
          ac_plan_id = ea_plan_id f, ac_recording = q\<rparr>],
      pa_requested_skew = requested_skew [e, f], pa_observed_skew = \<bar>x - y\<bar>,
      pa_maximum_skew = maximum_skew ?d\<rparr>"
  have mode: "case bd_mode ?d of INDEPENDENT \<Rightarrow> maximum_skew ?d = None
      | COORDINATED \<Rightarrow> \<exists>m. maximum_skew ?d = Some m \<and> 0 \<le> m \<and> requested_skew [e, f] = 0"
    using assms(1) ef(1)
    by (auto simp: batch_definition_post_init_def Let_def split: batch_mode.splits option.splits)
  have limit: "\<bar>x - y\<bar> \<le> m" if "bd_mode ?d = COORDINATED" "maximum_skew ?d = Some m" for m
    using assms(4) complete succ obs that ab(1)
    by (auto simp: paired_analysis_eligibility_def split: if_splits)
  have skew: "0 \<le> requested_skew [e, f]" by (simp add: requested_skew_def)
  have post: "paired_admission_post_init ?p = Inr ()"
    using ef ne rec mode limit skew
    by (cases "bd_mode ?d") (auto simp: paired_admission_post_init_def card_insert_if)
  have "admission_of s (bs_batch_id s) = Inr ?p"
    using assms(4) obs ef(1) ab pq ne post
    by (simp add: admission_of_def dict_of_def checked_def)
  moreover have "successful_recordings s = [p, q]"
    by (simp add: successful_recordings_def ab(1) pq)
  ultimately show ?thesis
    using post mode limit ef(1) by (intro exI [of _ ?p]) (auto split: batch_mode.splits)
qed

subsection \<open>The store contract and concurrent recording\<close>

text \<open>
  What the coordinator relies on of \<open>CaptureBatchStateStore\<close>, in the states \<open>ok\<close> the store keeps
  itself in and for the snapshots it can hold: \<open>view s b\<close> is the stored snapshot; reading changes
  nothing; a swap succeeds exactly at the expected revision. A recorded outcome that the store
  \<open>accepts\<close> leads from one snapshot it can hold to the next.
\<close>

locale batch_store =
  fixes create_op :: "batch_snapshot \<Rightarrow> ('s, batch_snapshot) batch_io"
    and get_op :: "string \<Rightarrow> ('s, batch_snapshot option) batch_io"
    and cas_op :: "string \<Rightarrow> int \<Rightarrow> batch_snapshot \<Rightarrow> ('s, batch_snapshot) batch_io"
    and view :: "'s \<Rightarrow> string \<Rightarrow> batch_snapshot option"
    and ok :: "'s \<Rightarrow> bool"
    and storable :: "batch_snapshot \<Rightarrow> bool"
    and accepts :: "attempt_outcome \<Rightarrow> bool"
  assumes get_view: "ok s \<Longrightarrow> get_op b s = (Inr (view s b), s)"
    and view_storable: "ok s \<Longrightarrow> view s b = Some c \<Longrightarrow> storable c"
    and record_storable: "storable c \<Longrightarrow> accepts a \<Longrightarrow> batch_record c a = Inr z \<Longrightarrow> storable z"
    and create_new: "ok s \<Longrightarrow> storable x \<Longrightarrow> view s (bs_batch_id x) = None \<Longrightarrow>
      \<exists>t. create_op x s = (Inr x, t) \<and> ok t \<and> view t = (view s)(bs_batch_id x \<mapsto> x)"
    and create_again: "ok s \<Longrightarrow> view s (bs_batch_id x) = Some c \<Longrightarrow> bs_definition c = bs_definition x \<Longrightarrow>
      create_op x s = (Inr c, s)"
    and create_conflict: "ok s \<Longrightarrow> view s (bs_batch_id x) = Some c \<Longrightarrow> bs_definition c \<noteq> bs_definition x \<Longrightarrow>
      create_op x s = (Inl (RuntimeError Batch_Identity_Conflict), s)"
    and cas_conflict: "ok s \<Longrightarrow> view s b = Some c \<Longrightarrow> bs_revision c \<noteq> r \<Longrightarrow> bs_batch_id x = b \<Longrightarrow>
      bs_revision x = r + 1 \<Longrightarrow> cas_op b r x s = (Inl (RuntimeError Batch_Revision_Conflict), s)"
    and cas_swap: "ok s \<Longrightarrow> storable x \<Longrightarrow> view s b = Some c \<Longrightarrow> bs_revision c = r \<Longrightarrow> bs_batch_id x = b \<Longrightarrow>
      bs_revision x = r + 1 \<Longrightarrow> bs_definition x = bs_definition c \<Longrightarrow>
      \<exists>t. cas_op b r x s = (Inr x, t) \<and> ok t \<and> view t = (view s)(b \<mapsto> x)"

text \<open>Facts on revisions.\<close>

lemma revision_bound:
  assumes "valid_definition (bs_definition s)" and "valid_snapshot s"
  shows "bs_revision s \<le> 2"
proof -
  obtain e f where ef: "expected_attempts (bs_definition s) = [e, f]" "ea_attempt_id e < ea_attempt_id f"
    using assms(1) by (rule valid_definitionE)
  then show ?thesis
    using assms(2) valid_snapshot_two [OF ef(1), of s] by (auto dest: arg_cong [where f = length])
qed

lemma evolves_revision:
  assumes "valid_definition (bs_definition s)" and "valid_snapshot s" and "evolves s t"
  shows "bs_revision s \<le> bs_revision t" "bs_revision s = bs_revision t \<Longrightarrow> t = s"
proof -
  let ?d = "bs_definition s" and ?v = "abs_batch s" and ?w = "abs_batch t"
  obtain s: "s = concrete ?d ?v" using assms(1,2) by (rule valid_snapshotE)
  have t: "t = concrete ?d ?w" using assms(1,3) valid_snapshotE [of t] by (simp add: evolves_def)
  have kw: "keyed ?d ?w"
    using valid_snapshotE [of t] assms(1,3) admissible_keyed by (simp add: evolves_def) blast
  obtain e f where ef: "expected_attempts ?d = [e, f]" "ea_attempt_id e < ea_attempt_id f"
    using assms(1) by (rule valid_definitionE)
  have le: "?v i = None \<or> ?v i = ?w i" for i
    using assms(3) by (cases "?v i") (force simp: evolves_def map_le_def dom_def)+
  have rev: "bs_revision (concrete ?d v) = (if v (ea_attempt_id e) = None then 0 else 1)
      + (if v (ea_attempt_id f) = None then 0 else 1)" for v
    using ef(1) by (auto simp: concrete_def Let_def split: option.splits)
  show "bs_revision s \<le> bs_revision t"
    using rev [of ?v] rev [of ?w] s t le [of "ea_attempt_id e"] le [of "ea_attempt_id f"]
    by (auto split: if_splits)
  assume "bs_revision s = bs_revision t"
  then have same: "?v (ea_attempt_id e) = ?w (ea_attempt_id e)" "?v (ea_attempt_id f) = ?w (ea_attempt_id f)"
    using rev [of ?v] rev [of ?w] s t le [of "ea_attempt_id e"] le [of "ea_attempt_id f"]
    by (auto split: if_splits)
  have "concrete ?d ?v = concrete ?d ?w"
    using ef(1) same by (simp add: concrete_def Let_def split: option.split)
  then show "t = s" using s t by simp
qed

lemma check_outcomes_error:
  "check_outcomes b ex seen prior os = Inl e \<Longrightarrow> \<exists>x. e = ValueError x"
  by (induction b ex seen prior os rule: check_outcomes.induct)
    (auto simp: bindE_eq_Inl split: option.splits if_splits)

lemma snapshot_error: "batch_snapshot_post_init s = Inl e \<Longrightarrow> \<exists>x. e = ValueError x"
  by (auto simp: batch_snapshot_post_init_def bindE_eq_Inl split: if_splits dest: check_outcomes_error)

lemma batch_record_error:
  assumes "valid_definition (bs_definition s)" and "valid_snapshot s" and "batch_record s a = Inl e"
  shows "\<exists>x. e = ValueError x"
proof -
  obtain e' f where ef: "expected_attempts (bs_definition s) = [e', f]" "ea_attempt_id e' < ea_attempt_id f"
    using assms(1) by (rule valid_definitionE)
  then have ne: "ea_attempt_id e' \<noteq> ea_attempt_id f" by simp
  have "\<forall>b \<in> set (outcomes s). routed (bs_definition s) b"
    using assms(2) valid_snapshot_two [OF ef(1) ne, of s] by simp
  then have "\<forall>b \<in> set (outcomes s). expected_index (bs_definition s) (ao_attempt_id b) \<noteq> None"
    using ef(1) by (auto simp: routed_def expected_index_def expected_dict_two [OF ef(1) ne])
  then have "\<not> list_ex (\<lambda>c. expected_index (bs_definition s) (ao_attempt_id c) = None) (outcomes s)"
    by (simp add: list_ex_iff)
  with assms(3) show ?thesis
    by (auto simp: batch_record_def checked_Inl split: option.splits if_splits dest: snapshot_error)
qed

lemma batch_record_revision:
  assumes "valid_definition (bs_definition s)" and "valid_snapshot s" and "batch_record s a = Inr t"
  shows "t = s \<or> bs_revision t = bs_revision s + 1"
  using assms(3) by (auto simp: batch_record_def split: option.splits if_splits)

context batch_store
begin

definition keeps_batch :: "string \<Rightarrow> ('s \<Rightarrow> 's) \<Rightarrow> bool" where
  "keeps_batch b f \<longleftrightarrow> (\<forall>s x. ok s \<longrightarrow> view s b = Some x \<longrightarrow> valid_definition (bs_definition x) \<longrightarrow>
     valid_snapshot x \<longrightarrow> ok (f s) \<and> (\<exists>y. view (f s) b = Some y \<and> evolves x y))"

lemma register_returns:
  assumes "ok s" and "view s (bd_batch_id d) = None" and "valid_definition d" and "storable (initial_snapshot d)"
  shows "\<exists>t. batch_register create_op d s = (Inr (initial_snapshot d), t) \<and> ok t
    \<and> view t = (view s)(bd_batch_id d \<mapsto> initial_snapshot d)"
proof -
  have "valid_snapshot (initial_snapshot d)"
    by (simp add: initial_snapshot_def batch_snapshot_post_init_def)
  moreover have "bs_batch_id (initial_snapshot d) = bd_batch_id d"
    "bs_definition (initial_snapshot d) = d"
    by (simp_all add: initial_snapshot_def bs_batch_id_def)
  ultimately show ?thesis
    using create_new [of s "initial_snapshot d"] assms(1,2,4)
    by (auto simp: batch_register_def bind_io_def lift_def ret_def checked_def)
qed

text \<open>
  Three tries are enough: a failed swap means that the batch has moved on to a later
  revision, and there are only the revisions 0, 1 and 2.
\<close>

lemma record_completes:
  assumes "view s (ao_batch_id a) = Some x" and "valid_definition (bs_definition x)"
    and "valid_snapshot x" and "bs_batch_id x = ao_batch_id a"
    and "\<And>n. keeps_batch (ao_batch_id a) (fst (others n)) \<and> keeps_batch (ao_batch_id a) (snd (others n))"
    and "3 \<le> int n + bs_revision x" and "ok s" and "accepts a"
  shows "\<exists>res t y. coordinator_record get_op cas_op others n a s = (res, t)
    \<and> ok t \<and> view t (ao_batch_id a) = Some y \<and> evolves x y
    \<and> (res = Inr y \<and> abs_batch y (ao_attempt_id a) = Some a
       \<or> res = Inl (RuntimeError Batch_Identity_Conflict) \<and> \<not> is_ok (batch_record y a))"
  using assms(1-4,6,7)
proof (induction n arbitrary: s x)
  case 0
  then show ?case using revision_bound [of x] by simp
next
  case (Suc n)
  let ?b = "ao_batch_id a" and ?f = "fst (others n)" and ?g = "snd (others n)"
  have keeps: "keeps_batch ?b ?f" "keeps_batch ?b ?g" using assms(5) by blast+
  then obtain y where y: "view (?f s) ?b = Some y" "evolves x y" and okf: "ok (?f s)"
    using Suc.prems(1-3,6) unfolding keeps_batch_def by blast
  have vy: "valid_definition (bs_definition y)" "valid_snapshot y" "bs_batch_id y = ?b"
    using y(2) Suc.prems(2,4) by (simp_all add: evolves_def bs_batch_id_def)
  have get: "get_op ?b (?f s) = (Inr (Some y), ?f s)" using get_view [OF okf] y(1) by simp
  show ?case
  proof (cases "batch_record y a")
    case (Inl e)
    then obtain e' where "e = ValueError e'" using batch_record_error [OF vy(1,2)] by blast
    with Inl get y okf show ?thesis
      by (intro exI [of _ "Inl (RuntimeError Batch_Identity_Conflict)"] exI [of _ "?f s"] exI [of _ y])
        simp
  next
    case (Inr z)
    note ev = record_evolves [OF vy(1,2) Inr]
    show ?thesis
    proof (cases "z = y")
      case True
      with Inr get y ev(2) okf show ?thesis
        by (intro exI [of _ "Inr y"] exI [of _ "?f s"] exI [of _ y]) simp
    next
      case new: False
      then have rz: "bs_revision z = bs_revision y + 1"
        using batch_record_revision [OF vy(1,2) Inr] by simp
      obtain w where w: "view (?g (?f s)) ?b = Some w" "evolves y w" and okg: "ok (?g (?f s))"
        using keeps(2) y(1) vy okf unfolding keeps_batch_def by blast
      have sz: "storable z" using record_storable [OF view_storable [OF okf y(1)] assms(8) Inr] .
      have iz: "bs_definition z = bs_definition y" "bs_batch_id z = ?b"
        using ev(1) vy(3) by (simp_all add: evolves_def bs_batch_id_def)
      show ?thesis
      proof (cases "bs_revision w = bs_revision y")
        case True
        then have "w = y" using evolves_revision(2) [OF vy(1,2) w(2)] by simp
        then obtain t where "cas_op ?b (bs_revision y) z (?g (?f s)) = (Inr z, t)" "ok t"
            "view t = (view (?g (?f s)))(?b \<mapsto> z)"
          using cas_swap [OF okg sz w(1), of "bs_revision y"] rz iz by auto
        with Inr get new vy(3) ev evolves_trans [OF y(2) ev(1)] show ?thesis
          by (intro exI [of _ "Inr z"] exI [of _ t] exI [of _ z]) simp
      next
        case False
        have "bs_revision x \<le> bs_revision y"
          using evolves_revision(1) [OF Suc.prems(2,3) y(2)] .
        moreover have "bs_revision y < bs_revision w"
          using False evolves_revision(1) [OF vy(1,2) w(2)] by simp
        moreover have "valid_definition (bs_definition w)" "valid_snapshot w" "bs_batch_id w = ?b"
          using w(2) vy by (simp_all add: evolves_def bs_batch_id_def)
        ultimately have "\<exists>res t v. coordinator_record get_op cas_op others n a (?g (?f s)) = (res, t)
            \<and> ok t \<and> view t ?b = Some v \<and> evolves w v
            \<and> (res = Inr v \<and> abs_batch v (ao_attempt_id a) = Some a
               \<or> res = Inl (RuntimeError Batch_Identity_Conflict) \<and> \<not> is_ok (batch_record v a))"
          using Suc.prems(5) w(1) okg by (intro Suc.IH) simp_all
        moreover have "coordinator_record get_op cas_op others (Suc n) a s
            = coordinator_record get_op cas_op others n a (?g (?f s))"
          using Inr get new vy(3) cas_conflict [OF okg w(1) False iz(2)] rz by simp
        ultimately show ?thesis
          using evolves_trans [OF y(2)] evolves_trans [OF w(2)] by metis
      qed
    qed
  qed
qed

end

interpretation memory_store: batch_store store_create store_get store_cas "\<lambda>s. s" "\<lambda>_. True" "\<lambda>_. True" "\<lambda>_. True"
  by unfold_locales (auto simp: store_create_def store_get_def store_cas_def)

text \<open>
  Concurrent recording never livelocks and never loses an outcome: whatever other
  coordinators do to the batch between the read and the swap (as long as they only record),
  three tries already decide. The call returns the stored snapshot holding the outcome
  (or raises an identity conflict, when the stored batch refuses the outcome), and
  everything stored before is still stored.
\<close>

lemma concurrent_record_completes:
  assumes "st (ao_batch_id a) = Some x" and "bs_batch_id x = ao_batch_id a"
    and "valid_definition (bs_definition x)" and "valid_snapshot x" and "3 \<le> retries"
    and "\<And>n s y. s (ao_batch_id a) = Some y \<Longrightarrow> valid_definition (bs_definition y) \<Longrightarrow>
      valid_snapshot y \<Longrightarrow> \<exists>z. fst (others n) s (ao_batch_id a) = Some z \<and> evolves y z"
    and "\<And>n s y. s (ao_batch_id a) = Some y \<Longrightarrow> valid_definition (bs_definition y) \<Longrightarrow>
      valid_snapshot y \<Longrightarrow> \<exists>z. snd (others n) s (ao_batch_id a) = Some z \<and> evolves y z"
  shows "\<exists>res t y. coordinator_record store_get store_cas others retries a st = (res, t)
    \<and> t (ao_batch_id a) = Some y \<and> evolves x y
    \<and> (res = Inr y \<and> abs_batch y (ao_attempt_id a) = Some a
       \<or> res = Inl (RuntimeError Batch_Identity_Conflict) \<and> \<not> is_ok (batch_record y a))"
proof -
  have "0 \<le> bs_revision x" using assms(4) by (simp add: batch_snapshot_post_init_def)
  then show ?thesis
    using assms memory_store.record_completes [of st a x others retries]
    by (auto simp: memory_store.keeps_batch_def)
qed

subsection \<open>A concrete batch\<close>

definition demo_digest :: "char \<Rightarrow> digest" where
  "demo_digest c = \<lparr>algorithm = SHA256, dvalue = replicate 64 c\<rparr>"

definition demo_object :: "char \<Rightarrow> object_ref" where
  "demo_object c = \<lparr>obj_digest = demo_digest c, byte_count = 8, media_type = ''application/x-iq'',
     format_id = ''raw'', locator = ''store''\<rparr>"

definition demo_recording :: "string \<Rightarrow> published_recording_ref" where
  "demo_recording i = \<lparr>recording_object =
     \<lparr>ror_recording_id = i, data_object = demo_object CHR ''a'', metadata_object = demo_object CHR ''b'',
      manifest_digest = demo_digest CHR ''c''\<rparr>\<rparr>"

definition demo_attempt :: "string \<Rightarrow> expected_attempt" where
  "demo_attempt x = \<lparr>ea_attempt_id = ''cattempt_'' @ x, ea_radio_id = ''radio_'' @ x,
     ea_plan_id = ''plan_'' @ x, ea_requested_start = 1000\<rparr>"

definition demo_batch :: batch_definition where
  "demo_batch = \<lparr>bd_schema = schema_v0_1 batch_schema_id, bd_batch_id = ''cbatch_1'',
     bd_mode = COORDINATED, expected_attempts = [demo_attempt ''a'', demo_attempt ''b''],
     maximum_skew = Some 50\<rparr>"

definition demo_outcome :: "string \<Rightarrow> int \<Rightarrow> attempt_outcome" where
  "demo_outcome x start = \<lparr>ao_schema = schema_v0_1 outcome_schema_id, ao_batch_id = ''cbatch_1'',
     ao_attempt_id = ''cattempt_'' @ x, ao_radio_id = ''radio_'' @ x, ao_plan_id = ''plan_'' @ x,
     ao_state = SUCCEEDED, ao_terminal = 5000, ao_observed_start = Some start,
     ao_recording = Some (demo_recording (''rec_'' @ x)), ao_failure_reason = None\<rparr>"

definition demo_complete :: batch_snapshot where
  "demo_complete = \<lparr>bs_schema = schema_v0_1 state_schema_id, bs_definition = demo_batch,
     outcomes = [demo_outcome ''a'' 1010, demo_outcome ''b'' 1040], bs_revision = 2\<rparr>"

definition demo_half :: batch_snapshot where
  "demo_half = \<lparr>bs_schema = schema_v0_1 state_schema_id, bs_definition = demo_batch,
     outcomes = [demo_outcome ''b'' 1040], bs_revision = 1\<rparr>"

lemma demo_batch_valid: "valid_definition demo_batch"
  by code_simp

lemma demo_snapshots_valid:
  "valid_snapshot (initial_snapshot demo_batch)" "valid_snapshot demo_half" "valid_snapshot demo_complete"
  by code_simp+

lemma demo_records:
  "batch_record (initial_snapshot demo_batch) (demo_outcome ''b'' 1040) = Inr demo_half"
  "batch_record demo_half (demo_outcome ''a'' 1010) = Inr demo_complete"
  by code_simp+

lemma demo_definition:
  "bs_definition (initial_snapshot demo_batch) = demo_batch" "bs_definition demo_half = demo_batch"
  "bs_definition demo_complete = demo_batch"
  by (simp_all add: initial_snapshot_def demo_half_def demo_complete_def)

theorem batch_record_refines_witness:
  "abs_batch demo_half ''cattempt_a'' = None \<and>
   abs_batch demo_complete = (abs_batch demo_half)(''cattempt_a'' \<mapsto> demo_outcome ''a'' 1010)"
proof -
  have "ao_attempt_id (demo_outcome ''a'' 1010) = ''cattempt_a''" by (simp add: demo_outcome_def)
  moreover have "abs_batch demo_half ''cattempt_a'' = None"
    by (simp add: abs_batch_def demo_half_def demo_outcome_def)
  ultimately show ?thesis
    using batch_record_refines [of demo_half "demo_outcome ''a'' 1010" demo_complete]
      demo_batch_valid demo_snapshots_valid(2) demo_records(2) demo_definition(2) by simp
qed

theorem outcome_order_irrelevant_witness:
  "bindE (batch_record (initial_snapshot demo_batch) (demo_outcome ''a'' 1010))
     (\<lambda>t. batch_record t (demo_outcome ''b'' 1040)) = Inr demo_complete"
  using outcome_order_irrelevant [of "initial_snapshot demo_batch" "demo_outcome ''b'' 1040"
      "demo_outcome ''a'' 1010" demo_complete]
    demo_batch_valid demo_snapshots_valid(1) demo_records demo_definition(1) by simp

lemma recorded_outcomes_are_final_witness:
  "batch_record demo_complete (demo_outcome ''a'' 1010) = Inr demo_complete
   \<and> abs_batch demo_half \<subseteq>\<^sub>m abs_batch demo_complete"
  using recorded_outcomes_are_final [OF _ demo_snapshots_valid(2) demo_records(2)]
    demo_batch_valid demo_definition(2) by simp

lemma eligible_batch_is_admitted_witness:
  "\<exists>p. admission_of demo_complete ''cbatch_1'' = Inr p
     \<and> map ac_recording (pa_captures p) = [demo_recording ''rec_a'', demo_recording ''rec_b'']
     \<and> pa_observed_skew p \<le> 50"
proof -
  have "paired_analysis_eligibility demo_complete = ELIGIBLE"
    "\<forall>a \<in> set (outcomes demo_complete). attempt_outcome_post_init a = Inr ()"
    "bs_batch_id demo_complete = ''cbatch_1''" "bd_mode demo_batch = COORDINATED"
    "successful_recordings demo_complete = [demo_recording ''rec_a'', demo_recording ''rec_b'']"
    "maximum_skew demo_batch = Some 50"
    by code_simp+
  then show ?thesis
    using eligible_batch_is_admitted [of demo_complete] demo_batch_valid demo_snapshots_valid(3)
      demo_definition(3) by auto
qed

text \<open>Another coordinator records the second attempt between the read and the first swap.\<close>

definition demo_other :: "batch_states \<Rightarrow> batch_states" where
  "demo_other s =
     (case s ''cbatch_1'' of
        None \<Rightarrow> s
      | Some x \<Rightarrow>
          (case batch_record x (demo_outcome ''b'' 1040) of
             Inl _ \<Rightarrow> s
           | Inr y \<Rightarrow> s(''cbatch_1'' \<mapsto> y)))"

lemma concurrent_record_completes_witness:
  "\<exists>res t y. coordinator_record store_get store_cas (\<lambda>n. (\<lambda>s. s, demo_other)) 3
       (demo_outcome ''a'' 1010) [''cbatch_1'' \<mapsto> initial_snapshot demo_batch] = (res, t)
     \<and> t ''cbatch_1'' = Some y \<and> evolves (initial_snapshot demo_batch) y"
proof -
  have b: "ao_batch_id (demo_outcome ''a'' 1010) = ''cbatch_1''"
    "bs_batch_id (initial_snapshot demo_batch) = ''cbatch_1''"
    by (simp_all add: demo_outcome_def bs_batch_id_def initial_snapshot_def demo_batch_def)
  have other: "\<exists>z. demo_other s ''cbatch_1'' = Some z \<and> evolves y z"
    if "s ''cbatch_1'' = Some y" "valid_definition (bs_definition y)" "valid_snapshot y" for s y
    using that evolves_refl record_evolves(1) [OF that(2,3)]
    by (auto simp: demo_other_def split: sum.splits)
  have "\<exists>res t y. coordinator_record store_get store_cas (\<lambda>n. (\<lambda>s. s, demo_other)) 3
       (demo_outcome ''a'' 1010) [''cbatch_1'' \<mapsto> initial_snapshot demo_batch] = (res, t)
     \<and> t (ao_batch_id (demo_outcome ''a'' 1010)) = Some y \<and> evolves (initial_snapshot demo_batch) y
     \<and> (res = Inr y \<and> abs_batch y (ao_attempt_id (demo_outcome ''a'' 1010)) = Some (demo_outcome ''a'' 1010)
       \<or> res = Inl (RuntimeError Batch_Identity_Conflict)
         \<and> \<not> is_ok (batch_record y (demo_outcome ''a'' 1010)))"
    by (rule concurrent_record_completes)
      (use b other demo_batch_valid demo_snapshots_valid(1) demo_definition(1) evolves_refl in auto)
  then show ?thesis using b by auto
qed

end
