(* ===== verification/Documents.thy ===== *)
theory Documents
  imports Json_Canonical
begin

section \<open>Reading documents field by field\<close>

text \<open>
  What the strict codecs share: access to the fields of a decoded object, the type checks
  with the exception each codec raises for them, and the readers of the shared value types
  of \<open>contracts/core.py\<close> and \<open>contracts/storage.py\<close>. The codecs repeat these readers in each
  module; a reader takes the module's own text and integer checks as arguments.
\<close>

datatype doc_error =
    Not_Json json_error | Not_An_Object | Fields_Differ | Not_A_String | Not_An_Integer
  | Not_An_Array | Wrong_Length | Missing_Key | Unknown_Member | No_Algorithm | Not_Canonical
  | Document_Core core_error | Too_Long | Policy_Differs

type_synonym 'a doc = "(doc_error, 'a) result"
type_synonym fields = "(string \<times> json) list"

text \<open>\<open>value["k"]\<close> on a dict.\<close>

definition member :: "string \<Rightarrow> fields \<Rightarrow> json doc" where
  "member k kvs = (case map_of kvs k of None \<Rightarrow> Inl (KeyError Missing_Key) | Some v \<Rightarrow> Inr v)"

definition field_names :: "fields \<Rightarrow> string set" where
  "field_names kvs = set (map fst kvs)"

definition as_object :: "doc_error exn \<Rightarrow> json \<Rightarrow> fields doc" where
  "as_object e v = (case v of JObj kvs \<Rightarrow> Inr kvs | _ \<Rightarrow> Inl e)"

definition as_list :: "doc_error exn \<Rightarrow> json \<Rightarrow> json list doc" where
  "as_list e v = (case v of JList xs \<Rightarrow> Inr xs | _ \<Rightarrow> Inl e)"

definition as_text :: "doc_error exn \<Rightarrow> json \<Rightarrow> string doc" where
  "as_text e v = (case v of JStr s \<Rightarrow> Inr s | _ \<Rightarrow> Inl e)"

definition as_nonempty :: "doc_error exn \<Rightarrow> json \<Rightarrow> string doc" where
  "as_nonempty e v = (case v of JStr s \<Rightarrow> if s = [] then Inl e else Inr s | _ \<Rightarrow> Inl e)"

text \<open>A bool is an \<open>int\<close> in Python; the readers refuse it.\<close>

definition as_integer :: "doc_error exn \<Rightarrow> json \<Rightarrow> int doc" where
  "as_integer e v = (case v of JInt n \<Rightarrow> Inr n | _ \<Rightarrow> Inl e)"

definition expect_fields :: "string list \<Rightarrow> fields \<Rightarrow> unit doc" where
  "expect_fields names kvs =
     (if field_names kvs \<noteq> set names then Inl (ValueError Fields_Differ) else Inr ())"

definition optional :: "(json \<Rightarrow> 'a doc) \<Rightarrow> json \<Rightarrow> 'a option doc" where
  "optional f v = (if v = JNull then Inr None else bindE (f v) (\<lambda>x. Inr (Some x)))"

text \<open>\<open>cls(text)\<close> of an identifier class and \<open>DigestAlgorithm(text)\<close>.\<close>

definition read_id :: "id_kind \<Rightarrow> string \<Rightarrow> string doc" where
  "read_id k s = embed_exn Document_Core (contract_id k s)"

definition read_algorithm :: "string \<Rightarrow> digest_algorithm doc" where
  "read_algorithm s = (if s = ''sha256'' then Inr SHA256 else Inl (ValueError Unknown_Member))"

definition make_digest :: "digest_algorithm \<Rightarrow> string \<Rightarrow> digest doc" where
  "make_digest a s =
     embed_exn Document_Core (checked digest_post_init \<lparr>algorithm = a, dvalue = s\<rparr>)"

text \<open>\<open>{"algorithm": ..., "value": ...}\<close>\<close>

definition read_digest_fields :: "(json \<Rightarrow> fields doc) \<Rightarrow> (json \<Rightarrow> string doc) \<Rightarrow> json \<Rightarrow> digest doc" where
  "read_digest_fields obj str v =
     bindE (obj v) (\<lambda>item.
     bindE (expect_fields [''algorithm'', ''value''] item) (\<lambda>_.
     bindE (bindE (member ''algorithm'' item) str) (\<lambda>a.
     bindE (read_algorithm a) (\<lambda>a.
     bindE (bindE (member ''value'' item) str) (make_digest a)))))"

text \<open>\<open>"sha256:..."\<close>\<close>

definition read_digest_text :: "string \<Rightarrow> digest doc" where
  "read_digest_text s =
     (let (a, separator, encoded) = partition_at CHR '':'' s in
      if \<not> separator then Inl (ValueError No_Algorithm)
      else bindE (read_algorithm a) (\<lambda>a. make_digest a encoded))"

definition read_schema ::
  "(json \<Rightarrow> fields doc) \<Rightarrow> (json \<Rightarrow> string doc) \<Rightarrow> (json \<Rightarrow> int doc) \<Rightarrow> json \<Rightarrow> schema_ref doc" where
  "read_schema obj str num v =
     bindE (obj v) (\<lambda>item.
     bindE (expect_fields [''schema_id'', ''version''] item) (\<lambda>_.
     bindE (bindE (member ''version'' item) obj) (\<lambda>ver.
     bindE (expect_fields [''major'', ''minor''] ver) (\<lambda>_.
     bindE (bindE (member ''schema_id'' item) str) (\<lambda>name.
     bindE (bindE (member ''major'' ver) num) (\<lambda>i.
     bindE (bindE (member ''minor'' ver) num) (\<lambda>j.
     bindE (embed_exn Document_Core (checked schema_version_post_init (SchemaVersion i j))) (\<lambda>w.
       embed_exn Document_Core (checked schema_ref_post_init \<lparr>schema_id = name, version = w\<rparr>)))))))))"

definition read_object_ref ::
  "(json \<Rightarrow> fields doc) \<Rightarrow> (json \<Rightarrow> string doc) \<Rightarrow> (json \<Rightarrow> int doc) \<Rightarrow> json \<Rightarrow> object_ref doc" where
  "read_object_ref obj str num v =
     bindE (obj v) (\<lambda>item.
     bindE (expect_fields [''digest'', ''byte_count'', ''media_type'', ''format_id'', ''locator''] item) (\<lambda>_.
     bindE (bindE (member ''digest'' item) (read_digest_fields obj str)) (\<lambda>d.
     bindE (bindE (member ''byte_count'' item) num) (\<lambda>n.
     bindE (bindE (member ''media_type'' item) str) (\<lambda>m.
     bindE (bindE (member ''format_id'' item) str) (\<lambda>f.
     bindE (bindE (member ''locator'' item) str) (\<lambda>l.
       embed_exn Document_Core (checked object_ref_post_init
         \<lparr>obj_digest = d, byte_count = n, media_type = m, format_id = f, locator = l\<rparr>))))))))"

text \<open>\<open>_primitive\<close> on an object reference.\<close>

definition json_object_ref :: "object_ref \<Rightarrow> json" where
  "json_object_ref r =
     JObj [(''digest'', json_digest (obj_digest r)), (''byte_count'', JInt (byte_count r)),
           (''media_type'', JStr (media_type r)), (''format_id'', JStr (format_id r)),
           (''locator'', JStr (locator r))]"

subsection \<open>Values whose constructors ran\<close>

text \<open>
  A Python object exists only if the constructor checks of it and of every object inside it
  passed. These predicates say so for the shared value types.
\<close>

definition built_digest :: "digest \<Rightarrow> bool" where
  "built_digest d \<longleftrightarrow> digest_post_init d = Inr ()"

definition built_schema :: "schema_ref \<Rightarrow> bool" where
  "built_schema r \<longleftrightarrow> schema_ref_post_init r = Inr () \<and> schema_version_post_init (version r) = Inr ()"

definition built_object :: "object_ref \<Rightarrow> bool" where
  "built_object r \<longleftrightarrow> object_ref_post_init r = Inr () \<and> built_digest (obj_digest r)"

subsection \<open>Fields of a re-read document\<close>

definition sorted_fields :: "fields \<Rightarrow> fields" where
  "sorted_fields kvs = sort_key fst (map (\<lambda>(k, v). (k, sorted_json v)) kvs)"

named_theorems document \<open>reading the fields of a re-read document\<close>

lemma sorted_json_object [document]: "sorted_json (JObj kvs) = JObj (sorted_fields kvs)"
  by (simp add: sorted_fields_def)

declare sorted_json.simps(2) [simp del]

lemma field_names_sorted [document]: "field_names (sorted_fields kvs) = field_names kvs"
  by (auto simp: field_names_def sorted_fields_def image_image case_prod_unfold)

lemma distinct_sorted_keys: "distinct (map fst kvs) \<Longrightarrow> distinct (map fst (sort_key fst kvs))"
  by (simp add: distinct_map)

lemma member_sorted:
  assumes "distinct (map fst kvs)"
  shows "member k (sorted_fields kvs) = map_sum id sorted_json (member k kvs)"
proof -
  let ?m = "map (\<lambda>(k, v). (k, sorted_json v)) kvs"
  have "distinct (map fst ?m)" using assms by (simp add: case_prod_unfold comp_def)
  moreover have "distinct (map fst (sorted_fields kvs))"
    unfolding sorted_fields_def by (intro distinct_sorted_keys) (use calculation in simp)
  ultimately have "map_of (sorted_fields kvs) = map_of ?m"
    by (simp add: sorted_fields_def map_of_inject_set)
  moreover have "map_of ?m k = map_option sorted_json (map_of kvs k)"
    by (simp add: map_of_map)
  ultimately show ?thesis by (simp add: member_def split: option.splits)
qed

lemma plain_sorted [simp]: "plain_json v \<Longrightarrow> plain_json (sorted_json v)"
proof (induction v)
  case (JObj kvs)
  then have "distinct (map fst (map (\<lambda>(k, v). (k, sorted_json v)) kvs))"
    by (simp add: case_prod_unfold comp_def)
  then have "distinct (map fst (sorted_fields kvs))"
    unfolding sorted_fields_def by (rule distinct_sorted_keys)
  moreover have "\<forall>(k, v) \<in> set (sorted_fields kvs). plain_json v"
    using JObj by (fastforce simp: sorted_fields_def)
  ultimately show ?case by (simp add: document)
qed simp_all

lemma sorted_sorted [simp]: "sorted_json (sorted_json v) = sorted_json v"
proof (induction v)
  case (JObj kvs)
  have "map (\<lambda>(k, v). (k, sorted_json v)) (map (\<lambda>(k, v). (k, sorted_json v)) (sort_key fst kvs))
      = map (\<lambda>(k, v). (k, sorted_json v)) (sort_key fst kvs)"
    using JObj by (auto simp: case_prod_unfold)
  then have "sorted_fields (sorted_fields kvs) = sorted_fields kvs"
    unfolding sorted_fields_def sort_key_map_snd
    by (simp del: map_eq_conv add: sort_key_id_if_sorted)
  then show ?case by (simp add: document)
qed simp_all

lemma reads [document]:
  "as_object e (JObj kvs) = Inr kvs"
  "as_list e (JList xs) = Inr xs"
  "as_text e (JStr s) = Inr s"
  "s \<noteq> [] \<Longrightarrow> as_nonempty e (JStr s) = Inr s"
  "as_integer e (JInt n) = Inr n"
  by (simp_all add: as_object_def as_list_def as_text_def as_nonempty_def as_integer_def)

lemma reads_Inr:
  "as_object e v = Inr kvs \<longleftrightarrow> v = JObj kvs"
  "as_list e v = Inr xs \<longleftrightarrow> v = JList xs"
  "as_text e v = Inr s \<longleftrightarrow> v = JStr s"
  "as_nonempty e v = Inr s \<longleftrightarrow> v = JStr s \<and> s \<noteq> []"
  "as_integer e v = Inr n \<longleftrightarrow> v = JInt n"
  by (cases v; auto simp: as_object_def as_list_def as_text_def as_nonempty_def as_integer_def)+

lemma member_simps [document]:
  "member k ((k, v) # kvs) = Inr v"
  "k \<noteq> l \<Longrightarrow> member k ((l, v) # kvs) = member k kvs"
  by (simp_all add: member_def)

lemma field_names_simps [document]:
  "field_names [] = {}" "field_names ((k, v) # kvs) = insert k (field_names kvs)"
  by (simp_all add: field_names_def)

lemma expect_fields_same [document]:
  "field_names kvs \<subseteq> set names \<Longrightarrow> set names \<subseteq> field_names kvs \<Longrightarrow> expect_fields names kvs = Inr ()"
  by (simp add: expect_fields_def subset_antisym)

lemma optional_json [document]:
  "optional f (sorted_json (json_option g x)) = Inr x" if "\<And>a. x = Some a \<Longrightarrow> f (sorted_json (g a)) = Inr a"
    "\<And>a. x = Some a \<Longrightarrow> sorted_json (g a) \<noteq> JNull"
  using that by (cases x) (simp_all add: optional_def)

subsection \<open>The readers of a codec\<close>

text \<open>
  What each module promises of its \<open>_object\<close>, \<open>_string\<close> and \<open>_integer\<close>: they accept the
  objects, non-empty texts and integers, and every shared reader built from them reads back
  what the canonical encoding wrote.
\<close>

locale document_readers =
  fixes obj :: "json \<Rightarrow> fields doc"
    and str :: "json \<Rightarrow> string doc"
    and num :: "json \<Rightarrow> int doc"
  assumes obj_accepts: "obj (JObj kvs) = Inr kvs"
    and str_accepts: "s \<noteq> [] \<Longrightarrow> str (JStr s) = Inr s"
    and num_accepts: "num (JInt n) = Inr n"
begin

lemma digest_back:
  assumes "built_digest d"
  shows "read_digest_fields obj str (sorted_json (json_digest d)) = Inr d"
proof -
  have "dvalue d \<noteq> []" using assms by (auto simp: built_digest_def digest_post_init_def split: digest_algorithm.splits)
  with assms show ?thesis
    by (cases d; cases "algorithm d")
       (simp add: read_digest_fields_def json_digest_def document member_sorted obj_accepts str_accepts
         read_algorithm_def make_digest_def built_digest_def checked_def)
qed

lemma schema_back:
  assumes "built_schema r"
  shows "read_schema obj str num (sorted_json (json_schema_ref r)) = Inr r"
proof -
  have "schema_id r \<noteq> []" using assms by (auto simp: built_schema_def schema_ref_post_init_def is_token_def)
  moreover have "SchemaVersion (major (version r)) (minor (version r)) = version r" by simp
  ultimately show ?thesis
    using assms
    by (cases r) (simp add: read_schema_def json_schema_ref_def json_schema_version_def document member_sorted
      obj_accepts str_accepts num_accepts built_schema_def checked_def)
qed

lemma object_back:
  assumes "built_object r"
  shows "read_object_ref obj str num (sorted_json (json_object_ref r)) = Inr r"
proof -
  have "media_type r \<noteq> []" "format_id r \<noteq> []" "locator r \<noteq> []"
    using assms by (auto simp: built_object_def object_ref_post_init_def is_token_def)
  with assms show ?thesis
    by (cases r) (simp add: read_object_ref_def json_object_ref_def document member_sorted
      obj_accepts str_accepts num_accepts built_object_def checked_def digest_back)
qed

end

text \<open>What the readers return was built.\<close>

lemma make_digest_Inr: "make_digest a s = Inr d \<Longrightarrow> built_digest d"
  by (auto simp: make_digest_def built_digest_def)

lemma read_digest_fields_built: "read_digest_fields obj str v = Inr d \<Longrightarrow> built_digest d"
  by (auto simp: read_digest_fields_def dest: make_digest_Inr)

lemma read_digest_text_built: "read_digest_text s = Inr d \<Longrightarrow> built_digest d"
  by (auto simp: read_digest_text_def Let_def split: prod.splits if_splits dest: make_digest_Inr)

lemma read_schema_built: "read_schema obj str num v = Inr r \<Longrightarrow> built_schema r"
  by (auto simp: read_schema_def built_schema_def)

lemma read_object_ref_built: "read_object_ref obj str num v = Inr r \<Longrightarrow> built_object r"
  by (auto simp: read_object_ref_def built_object_def dest: read_digest_fields_built)

lemma read_id_Inr [simp]: "read_id k s = Inr t \<longleftrightarrow> valid_id k s \<and> t = s"
  by (simp add: read_id_def)

lemma read_id_valid: "valid_id k s \<Longrightarrow> read_id k s = Inr s"
  by simp

lemma valid_id_nonempty: "valid_id k s \<Longrightarrow> s \<noteq> []"
  by (auto simp: valid_id_def is_token_def)

lemma digest_text_back:
  assumes "built_digest d"
  shows "read_digest_text (str_digest d) = Inr d"
proof -
  obtain v where d: "d = \<lparr>algorithm = SHA256, dvalue = v\<rparr>" by (cases d; cases "algorithm d") auto
  have "partition_at CHR '':'' (''sha256:'' @ v) = (''sha256'', True, v)"
    by (simp add: partition_at_def)
  with assms show ?thesis
    by (simp add: read_digest_text_def str_digest_def d read_algorithm_def make_digest_def built_digest_def
        checked_def embed_exn_def)
qed

lemma canonical_digest_built: "built_digest (canonical_digest v)"
  using sha256_hex_shape
  by (auto simp: built_digest_def digest_post_init_def digest_sha256_def canonical_digest_def list_all_iff)

lemma plain_core [simp]:
  "plain_json (json_digest d)" "plain_json (json_schema_ref r)" 
  "plain_json (json_option f x) \<longleftrightarrow> (\<forall>a. x = Some a \<longrightarrow> plain_json (f a))"
  by (simp_all add: json_digest_def json_schema_ref_def json_schema_version_def) (cases x; simp)

end
