(* ===== verification/Batch_Codec.thy ===== *)
theory Batch_Codec
  imports Capture_Batch Documents
begin

section \<open>The codec of capture batches\<close>

text \<open>
  \<open>contracts/capture_batch_codec.py\<close>: the canonical documents of batch definitions and
  snapshots and their strict decoders, which accept exactly the canonical text of a value
  whose constructors pass. \<open>CaptureBatchDocumentError\<close> is a \<open>ValueError\<close>.
\<close>

subsection \<open>Encoding\<close>

text \<open>\<open>_primitive\<close> on the batch contracts: every dataclass field under its name.\<close>

fun mode_value :: "batch_mode \<Rightarrow> string" where
  "mode_value INDEPENDENT = ''independent''"
| "mode_value COORDINATED = ''coordinated''"

fun attempt_state_value :: "attempt_state \<Rightarrow> string" where
  "attempt_state_value SUCCEEDED = ''succeeded''"
| "attempt_state_value FAILED = ''failed''"

definition json_expected :: "expected_attempt \<Rightarrow> json" where
  "json_expected a =
     JObj [(''attempt_id'', JStr (ea_attempt_id a)), (''radio_id'', JStr (ea_radio_id a)),
           (''plan_id'', JStr (ea_plan_id a)),
           (''requested_start_utc_ns'', JInt (ea_requested_start a))]"

definition json_batch_definition :: "batch_definition \<Rightarrow> json" where
  "json_batch_definition d =
     JObj [(''schema'', json_schema_ref (bd_schema d)),
           (''batch_id'', JStr (bd_batch_id d)),
           (''mode'', JStr (mode_value (bd_mode d))),
           (''expected_attempts'', JList (map json_expected (expected_attempts d))),
           (''maximum_observed_start_skew_ns'', json_option JInt (maximum_skew d))]"

definition json_published_recording :: "published_recording_ref \<Rightarrow> json" where
  "json_published_recording p =
     (let r = recording_object p in
      JObj [(''recording_object'',
        JObj [(''recording_id'', JStr (ror_recording_id r)),
              (''data_object'', json_object_ref (data_object r)),
              (''metadata_object'', json_object_ref (metadata_object r)),
              (''manifest_digest'', json_digest (manifest_digest r))])])"

definition json_outcome :: "attempt_outcome \<Rightarrow> json" where
  "json_outcome a =
     JObj [(''schema'', json_schema_ref (ao_schema a)), (''batch_id'', JStr (ao_batch_id a)),
           (''attempt_id'', JStr (ao_attempt_id a)), (''radio_id'', JStr (ao_radio_id a)),
           (''plan_id'', JStr (ao_plan_id a)), (''state'', JStr (attempt_state_value (ao_state a))),
           (''terminal_utc_ns'', JInt (ao_terminal a)),
           (''observed_start_utc_ns'', json_option JInt (ao_observed_start a)),
           (''recording_ref'', json_option json_published_recording (ao_recording a)),
           (''failure_reason'', json_option JStr (ao_failure_reason a))]"

definition json_snapshot :: "batch_snapshot \<Rightarrow> json" where
  "json_snapshot s =
     JObj [(''schema'', json_schema_ref (bs_schema s)),
           (''definition'', json_batch_definition (bs_definition s)),
           (''outcomes'', JList (map json_outcome (outcomes s))),
           (''revision'', JInt (bs_revision s))]"

definition encode_capture_batch_definition :: "batch_definition \<Rightarrow> string" where
  "encode_capture_batch_definition d = canonical_json_bytes (json_batch_definition d)"

definition encode_capture_batch_snapshot :: "batch_snapshot \<Rightarrow> string" where
  "encode_capture_batch_snapshot s = canonical_json_bytes (json_snapshot s)"

subsection \<open>Decoding\<close>

datatype batch_doc_error = Batch_Document doc_error | Batch_Value batch_error

type_synonym 'a batch_doc = "(batch_doc_error, 'a) result"

definition batch_doc_document :: "string \<Rightarrow> json doc" where
  "batch_doc_document encoded =
     (case json_loads_unique encoded of
        Inl e \<Rightarrow> Inl (ValueError (Not_Json e))
      | Inr v \<Rightarrow> Inr v)"

definition batch_doc_object :: "json \<Rightarrow> fields doc" where
  "batch_doc_object = as_object (ValueError Not_An_Object)"

definition batch_doc_list :: "json \<Rightarrow> json list doc" where
  "batch_doc_list = as_list (ValueError Not_An_Array)"

definition batch_doc_fields :: "string list \<Rightarrow> fields \<Rightarrow> unit doc" where
  "batch_doc_fields expected value = expect_fields expected value"

definition batch_doc_string :: "json \<Rightarrow> string doc" where
  "batch_doc_string = as_nonempty (ValueError Not_A_String)"

definition batch_doc_optional_string :: "json \<Rightarrow> string option doc" where
  "batch_doc_optional_string v = optional batch_doc_string v"

definition batch_doc_integer :: "json \<Rightarrow> int doc" where
  "batch_doc_integer = as_integer (ValueError Not_An_Integer)"

definition batch_doc_optional_int :: "json \<Rightarrow> int option doc" where
  "batch_doc_optional_int v = optional batch_doc_integer v"

definition batch_doc_digest :: "json \<Rightarrow> digest doc" where
  "batch_doc_digest = read_digest_fields batch_doc_object batch_doc_string"

definition batch_doc_schema :: "json \<Rightarrow> schema_ref doc" where
  "batch_doc_schema = read_schema batch_doc_object batch_doc_string batch_doc_integer"

definition batch_doc_object_ref :: "json \<Rightarrow> object_ref doc" where
  "batch_doc_object_ref = read_object_ref batch_doc_object batch_doc_string batch_doc_integer"

text \<open>\<open>_string(item[name], name)\<close> and \<open>_integer(item[name], name)\<close>.\<close>

definition batch_doc_text :: "string \<Rightarrow> fields \<Rightarrow> string doc" where
  "batch_doc_text k item = bindE (member k item) batch_doc_string"

definition batch_doc_number :: "string \<Rightarrow> fields \<Rightarrow> int doc" where
  "batch_doc_number k item = bindE (member k item) batch_doc_integer"

definition batch_doc_id :: "id_kind \<Rightarrow> string \<Rightarrow> fields \<Rightarrow> string doc" where
  "batch_doc_id kind k item = bindE (batch_doc_text k item) (read_id kind)"

abbreviation (input) in_document :: "'a doc \<Rightarrow> 'a batch_doc" where
  "in_document r \<equiv> embed_exn Batch_Document r"

abbreviation (input) in_batch :: "(batch_error, 'a) result \<Rightarrow> 'a batch_doc" where
  "in_batch r \<equiv> embed_exn Batch_Value r"

definition read_expected :: "json \<Rightarrow> expected_attempt batch_doc" where
  "read_expected v =
     bindE (in_document (batch_doc_object v)) (\<lambda>item.
     bindE (in_document (batch_doc_fields
       [''attempt_id'', ''radio_id'', ''plan_id'', ''requested_start_utc_ns''] item)) (\<lambda>_.
     bindE (in_document (batch_doc_id CaptureAttemptId ''attempt_id'' item)) (\<lambda>attempt.
     bindE (in_document (batch_doc_id RadioId ''radio_id'' item)) (\<lambda>radio.
     bindE (in_document (batch_doc_id PlanId ''plan_id'' item)) (\<lambda>plan.
     bindE (in_document (batch_doc_number ''requested_start_utc_ns'' item)) (\<lambda>start.
       in_batch (checked expected_attempt_post_init
         \<lparr>ea_attempt_id = attempt, ea_radio_id = radio, ea_plan_id = plan,
          ea_requested_start = start\<rparr>)))))))"

definition read_published :: "json \<Rightarrow> published_recording_ref doc" where
  "read_published v =
     bindE (batch_doc_object v) (\<lambda>item.
     bindE (batch_doc_fields [''recording_object''] item) (\<lambda>_.
     bindE (bindE (member ''recording_object'' item) batch_doc_object) (\<lambda>recording.
     bindE (batch_doc_fields
       [''recording_id'', ''data_object'', ''metadata_object'', ''manifest_digest''] recording) (\<lambda>_.
     bindE (batch_doc_id RecordingId ''recording_id'' recording) (\<lambda>r.
     bindE (bindE (member ''data_object'' recording) batch_doc_object_ref) (\<lambda>d.
     bindE (bindE (member ''metadata_object'' recording) batch_doc_object_ref) (\<lambda>m.
     bindE (bindE (member ''manifest_digest'' recording) batch_doc_digest) (\<lambda>g.
     bindE (embed_exn Document_Core (checked recording_object_ref_post_init
       \<lparr>ror_recording_id = r, data_object = d, metadata_object = m, manifest_digest = g\<rparr>)) (\<lambda>x.
       Inr \<lparr>recording_object = x\<rparr>)))))))))"

definition read_mode :: "string \<Rightarrow> batch_mode doc" where
  "read_mode s =
     (if s = ''independent'' then Inr INDEPENDENT
      else if s = ''coordinated'' then Inr COORDINATED
      else Inl (ValueError Unknown_Member))"

definition read_attempt_state :: "string \<Rightarrow> attempt_state doc" where
  "read_attempt_state s =
     (if s = ''succeeded'' then Inr SUCCEEDED
      else if s = ''failed'' then Inr FAILED
      else Inl (ValueError Unknown_Member))"

definition read_outcome :: "json \<Rightarrow> attempt_outcome batch_doc" where
  "read_outcome v =
     bindE (in_document (batch_doc_object v)) (\<lambda>item.
     bindE (in_document (batch_doc_fields
       [''schema'', ''batch_id'', ''attempt_id'', ''radio_id'', ''plan_id'', ''state'', ''terminal_utc_ns'',
        ''observed_start_utc_ns'', ''recording_ref'', ''failure_reason''] item)) (\<lambda>_.
     bindE (in_document (bindE (member ''schema'' item) batch_doc_schema)) (\<lambda>schema.
     bindE (in_document (batch_doc_id CaptureBatchId ''batch_id'' item)) (\<lambda>batch.
     bindE (in_document (batch_doc_id CaptureAttemptId ''attempt_id'' item)) (\<lambda>attempt.
     bindE (in_document (batch_doc_id RadioId ''radio_id'' item)) (\<lambda>radio.
     bindE (in_document (batch_doc_id PlanId ''plan_id'' item)) (\<lambda>plan.
     bindE (in_document (bindE (batch_doc_text ''state'' item) read_attempt_state)) (\<lambda>state.
     bindE (in_document (batch_doc_number ''terminal_utc_ns'' item)) (\<lambda>terminal.
     bindE (in_document (bindE (member ''observed_start_utc_ns'' item) batch_doc_optional_int)) (\<lambda>observed.
     bindE (in_document (bindE (member ''recording_ref'' item) (optional read_published))) (\<lambda>recording.
     bindE (in_document (bindE (member ''failure_reason'' item) batch_doc_optional_string)) (\<lambda>reason.
       in_batch (checked attempt_outcome_post_init
         \<lparr>ao_schema = schema, ao_batch_id = batch, ao_attempt_id = attempt, ao_radio_id = radio,
          ao_plan_id = plan, ao_state = state, ao_terminal = terminal, ao_observed_start = observed,
          ao_recording = recording, ao_failure_reason = reason\<rparr>)))))))))))))"

definition decode_capture_batch_definition :: "string \<Rightarrow> batch_definition batch_doc" where
  "decode_capture_batch_definition encoded =
     bindE (in_document (bindE (batch_doc_document encoded) batch_doc_object)) (\<lambda>v.
     bindE (in_document (batch_doc_fields
       [''schema'', ''batch_id'', ''mode'', ''expected_attempts'', ''maximum_observed_start_skew_ns''] v)) (\<lambda>_.
     bindE (in_document (bindE (member ''expected_attempts'' v) batch_doc_list)) (\<lambda>attempts.
     if length attempts \<noteq> 2 then Inl (ValueError (Batch_Document Wrong_Length))
     else
       bindE (in_document (bindE (member ''schema'' v) batch_doc_schema)) (\<lambda>schema.
       bindE (in_document (batch_doc_id CaptureBatchId ''batch_id'' v)) (\<lambda>batch.
       bindE (in_document (bindE (batch_doc_text ''mode'' v) read_mode)) (\<lambda>mode.
       bindE (read_expected (attempts ! 0)) (\<lambda>a.
       bindE (read_expected (attempts ! 1)) (\<lambda>b.
       bindE (in_document (bindE (member ''maximum_observed_start_skew_ns'' v) batch_doc_optional_int)) (\<lambda>skew.
       bindE (in_batch (checked batch_definition_post_init
         \<lparr>bd_schema = schema, bd_batch_id = batch, bd_mode = mode, expected_attempts = [a, b],
          maximum_skew = skew\<rparr>)) (\<lambda>d.
       if encode_capture_batch_definition d \<noteq> encoded then Inl (ValueError (Batch_Document Not_Canonical))
       else Inr d))))))))))"

definition decode_capture_batch_snapshot :: "string \<Rightarrow> batch_snapshot batch_doc" where
  "decode_capture_batch_snapshot encoded =
     bindE (in_document (bindE (batch_doc_document encoded) batch_doc_object)) (\<lambda>v.
     bindE (in_document (batch_doc_fields [''schema'', ''definition'', ''outcomes'', ''revision''] v)) (\<lambda>_.
     bindE (in_document (member ''definition'' v)) (\<lambda>definition_value.
     bindE (decode_capture_batch_definition (canonical_json_bytes definition_value)) (\<lambda>d.
     bindE (in_document (bindE (member ''schema'' v) batch_doc_schema)) (\<lambda>schema.
     bindE (in_document (bindE (member ''outcomes'' v) batch_doc_list)) (\<lambda>items.
     bindE (mapE read_outcome items) (\<lambda>outs.
     bindE (in_document (batch_doc_number ''revision'' v)) (\<lambda>revision.
     bindE (in_batch (checked batch_snapshot_post_init
       \<lparr>bs_schema = schema, bs_definition = d, outcomes = outs, bs_revision = revision\<rparr>)) (\<lambda>s.
       if encode_capture_batch_snapshot s \<noteq> encoded then Inl (ValueError (Batch_Document Not_Canonical))
       else Inr s)))))))))"

subsection \<open>What the constructors guarantee\<close>

definition built_expected :: "expected_attempt \<Rightarrow> bool" where
  "built_expected a \<longleftrightarrow> valid_id CaptureAttemptId (ea_attempt_id a) \<and> valid_id RadioId (ea_radio_id a)
     \<and> valid_id PlanId (ea_plan_id a) \<and> expected_attempt_post_init a = Inr ()"

definition built_batch :: "batch_definition \<Rightarrow> bool" where
  "built_batch d \<longleftrightarrow> built_schema (bd_schema d) \<and> valid_id CaptureBatchId (bd_batch_id d)
     \<and> list_all built_expected (expected_attempts d) \<and> batch_definition_post_init d = Inr ()"

definition built_published :: "published_recording_ref \<Rightarrow> bool" where
  "built_published p \<longleftrightarrow>
     (let r = recording_object p in
      valid_id RecordingId (ror_recording_id r) \<and> built_object (data_object r)
      \<and> built_object (metadata_object r) \<and> built_digest (manifest_digest r)
      \<and> recording_object_ref_post_init r = Inr ())"

definition built_outcome :: "attempt_outcome \<Rightarrow> bool" where
  "built_outcome a \<longleftrightarrow> built_schema (ao_schema a) \<and> valid_id CaptureBatchId (ao_batch_id a)
     \<and> valid_id CaptureAttemptId (ao_attempt_id a) \<and> valid_id RadioId (ao_radio_id a)
     \<and> valid_id PlanId (ao_plan_id a) \<and> (\<forall>p. ao_recording a = Some p \<longrightarrow> built_published p)
     \<and> attempt_outcome_post_init a = Inr ()"

definition built_snapshot :: "batch_snapshot \<Rightarrow> bool" where
  "built_snapshot s \<longleftrightarrow> built_schema (bs_schema s) \<and> built_batch (bs_definition s)
     \<and> list_all built_outcome (outcomes s) \<and> batch_snapshot_post_init s = Inr ()"

subsection \<open>Reading back\<close>

interpretation batch_doc: document_readers batch_doc_object batch_doc_string batch_doc_integer
  by unfold_locales (simp_all add: batch_doc_object_def batch_doc_string_def batch_doc_integer_def reads)

lemma batch_doc_id_back:
  "member key item = Inr (JStr s) \<Longrightarrow> valid_id k s \<Longrightarrow> batch_doc_id k key item = Inr s"
  using valid_id_nonempty [of k s] by (simp add: batch_doc_id_def batch_doc_text_def batch_doc.str_accepts)

lemmas batch_reads = batch_doc.obj_accepts batch_doc.str_accepts batch_doc.num_accepts
  batch_doc.digest_back batch_doc.schema_back batch_doc.object_back member_sorted
  batch_doc_text_def batch_doc_number_def batch_doc_id_back batch_doc_fields_def
  batch_doc_digest_def batch_doc_schema_def batch_doc_object_ref_def
  checked_okI

lemma batch_doc_list_back [document]: "batch_doc_list (JList xs) = Inr xs"
  by (simp add: batch_doc_list_def reads)

lemma embed_Inr [simp]: "embed_exn f (Inr a) = Inr a"
  by (simp add: embed_exn_def)

lemma read_expected_back:
  assumes "built_expected a"
  shows "read_expected (sorted_json (json_expected a)) = Inr a"
  using assms unfolding built_expected_def
  by (cases a) (simp add: read_expected_def json_expected_def document batch_reads)

lemma read_published_back:
  assumes "built_published p"
  shows "read_published (sorted_json (json_published_recording p)) = Inr p"
proof -
  obtain r where p: "p = \<lparr>recording_object = r\<rparr>" by (cases p)
  with assms show ?thesis
    unfolding built_published_def
    by (cases r) (simp add: read_published_def json_published_recording_def Let_def document batch_reads)
qed

lemma read_mode_back: "read_mode (mode_value m) = Inr m"
  by (cases m) (simp_all add: read_mode_def)

lemma read_attempt_state_back: "read_attempt_state (attempt_state_value m) = Inr m"
  by (cases m) (simp_all add: read_attempt_state_def)

lemma values_nonempty [simp]: "mode_value m \<noteq> []" "attempt_state_value t \<noteq> []"
  by (cases m; simp) (cases t; simp)

lemma optional_int_back: "batch_doc_optional_int (sorted_json (json_option JInt x)) = Inr x"
  unfolding batch_doc_optional_int_def by (rule optional_json) (simp_all add: batch_reads)

lemma optional_string_back:
  "(\<And>t. x = Some t \<Longrightarrow> t \<noteq> []) \<Longrightarrow> batch_doc_optional_string (sorted_json (json_option JStr x)) = Inr x"
  unfolding batch_doc_optional_string_def by (rule optional_json) (simp_all add: batch_reads)

lemma optional_published_back:
  "(\<And>t. x = Some t \<Longrightarrow> built_published t) \<Longrightarrow>
     optional read_published (sorted_json (json_option json_published_recording x)) = Inr x"
  by (rule optional_json) (simp_all add: read_published_back, simp add: json_published_recording_def Let_def document)

lemma outcome_reason_nonempty:
  "attempt_outcome_post_init a = Inr () \<Longrightarrow> ao_failure_reason a = Some t \<Longrightarrow> t \<noteq> []"
  by (cases "ao_state a") (auto simp: attempt_outcome_post_init_def failure_reason_ok_def)

lemma read_outcome_back:
  assumes "built_outcome a"
  shows "read_outcome (sorted_json (json_outcome a)) = Inr a"
proof -
  have r: "batch_doc_optional_string (sorted_json (json_option JStr (ao_failure_reason a))) = Inr (ao_failure_reason a)"
    using assms outcome_reason_nonempty by (intro optional_string_back) (auto simp: built_outcome_def)
  have p: "optional read_published (sorted_json (json_option json_published_recording (ao_recording a)))
      = Inr (ao_recording a)"
    using assms by (intro optional_published_back) (simp add: built_outcome_def)
  from assms r p show ?thesis
    unfolding built_outcome_def
    by (cases a) (simp add: read_outcome_def json_outcome_def document batch_reads read_attempt_state_back optional_int_back)
qed

lemma plain_batch [simp]: "plain_json (json_batch_definition d)" "plain_json (json_snapshot s)"
proof -
  have "plain_json (json_published_recording p)" for p
    by (simp add: json_published_recording_def Let_def json_object_ref_def)
  then have "plain_json (json_outcome a)" for a by (simp add: json_outcome_def)
  moreover show "plain_json (json_batch_definition d)" for d by (simp add: json_batch_definition_def json_expected_def)
  ultimately show "plain_json (json_snapshot s)" by (simp add: json_snapshot_def)
qed

lemma batch_doc_document_back:
  "plain_json v \<Longrightarrow> batch_doc_document (canonical_json_bytes v) = Inr (sorted_json v)"
  by (simp add: batch_doc_document_def json_loads_unique_def json_read_canonical)

lemma batch_length_two: "batch_definition_post_init d = Inr () \<Longrightarrow> length (expected_attempts d) = 2"
  by (auto simp: batch_definition_post_init_def Let_def)

lemma decode_definition_back:
  assumes "built_batch d"
  shows "decode_capture_batch_definition (encode_capture_batch_definition d) = Inr d"
proof -
  have post: "batch_definition_post_init d = Inr ()" and "list_all built_expected (expected_attempts d)"
    using assms by (simp_all add: built_batch_def)
  then obtain a b where ab: "expected_attempts d = [a, b]" "built_expected a" "built_expected b"
    using batch_length_two [OF post] length_two by (auto simp: numeral_2_eq_2 length_Suc_conv)
  have doc: "batch_doc_document (canonical_json_bytes (json_batch_definition d))
      = Inr (sorted_json (json_batch_definition d))"
    by (rule batch_doc_document_back) simp
  show ?thesis
    unfolding encode_capture_batch_definition_def decode_capture_batch_definition_def doc bindE_simps
    using assms post ab
    by (cases d) (simp add: built_batch_def json_batch_definition_def document batch_reads
      read_expected_back read_mode_back optional_int_back)
qed

lemma encode_sorted [simp]: "canonical_json_bytes (sorted_json v) = canonical_json_bytes v"
  by (simp add: canonical_json_bytes_def)

lemma mapE_back:
  assumes "\<And>x. x \<in> set xs \<Longrightarrow> f (sorted_json (g x)) = Inr x"
  shows "mapE f (map sorted_json (map g xs)) = Inr xs"
  using assms by (induction xs) auto

lemma decode_snapshot_back:
  assumes "built_snapshot s"
  shows "decode_capture_batch_snapshot (encode_capture_batch_snapshot s) = Inr s"
proof -
  have doc: "batch_doc_document (canonical_json_bytes (json_snapshot s)) = Inr (sorted_json (json_snapshot s))"
    by (rule batch_doc_document_back) simp
  have outs: "mapE read_outcome (map sorted_json (map json_outcome (outcomes s))) = Inr (outcomes s)"
    using assms by (intro mapE_back read_outcome_back) (auto simp: built_snapshot_def list_all_iff)
  have d: "decode_capture_batch_definition (canonical_json_bytes (json_batch_definition (bs_definition s)))
      = Inr (bs_definition s)"
    using decode_definition_back [of "bs_definition s"] assms
    by (simp add: built_snapshot_def encode_capture_batch_definition_def)
  show ?thesis
    unfolding encode_capture_batch_snapshot_def decode_capture_batch_snapshot_def doc bindE_simps
    using assms outs d
    by (cases s) (simp add: built_snapshot_def json_snapshot_def document batch_reads)
qed

subsection \<open>What the decoder accepts\<close>

lemma batch_doc_id_valid: "batch_doc_id k key item = Inr s \<Longrightarrow> valid_id k s"
  by (auto simp: batch_doc_id_def)

lemma read_expected_built: "read_expected v = Inr a \<Longrightarrow> built_expected a"
  by (auto simp: read_expected_def built_expected_def dest: batch_doc_id_valid)

lemma read_published_built: "read_published v = Inr p \<Longrightarrow> built_published p"
  by (auto simp: read_published_def built_published_def Let_def batch_doc_object_ref_def batch_doc_digest_def
      dest: batch_doc_id_valid read_object_ref_built read_digest_fields_built)

lemma read_outcome_built: "read_outcome v = Inr a \<Longrightarrow> built_outcome a"
  by (auto simp: read_outcome_def built_outcome_def batch_doc_schema_def optional_def
      dest: batch_doc_id_valid read_schema_built read_published_built split: if_splits)

lemma decode_definition_built:
  "decode_capture_batch_definition b = Inr d \<Longrightarrow> built_batch d \<and> b = encode_capture_batch_definition d"
  by (auto simp: decode_capture_batch_definition_def built_batch_def batch_doc_schema_def
      dest: batch_doc_id_valid read_schema_built read_expected_built)

lemma decode_snapshot_built:
  assumes "decode_capture_batch_snapshot b = Inr s"
  shows "built_snapshot s \<and> b = encode_capture_batch_snapshot s"
proof -
  have outs: "list_all built_outcome as" if "mapE read_outcome vs = Inr as" for vs as
    using that by (induction vs arbitrary: as) (auto dest: read_outcome_built)
  show ?thesis
    using assms
    by (auto simp: decode_capture_batch_snapshot_def built_snapshot_def batch_doc_schema_def
        dest: read_schema_built decode_definition_built outs)
qed

text \<open>
  C15. The snapshot codec accepts a text exactly when it is the canonical encoding of a
  snapshot whose constructors passed, and then returns that snapshot: encoding and decoding
  are inverse, no two texts denote one snapshot and no malformed snapshot comes out. The
  same holds for batch definitions.
\<close>

theorem batch_codec_exact:
  "(decode_capture_batch_snapshot encoded = Inr s \<longleftrightarrow>
      built_snapshot s \<and> encoded = encode_capture_batch_snapshot s)
   \<and> (decode_capture_batch_definition encoded = Inr d \<longleftrightarrow>
      built_batch d \<and> encoded = encode_capture_batch_definition d)"
  using decode_snapshot_back [of s] decode_snapshot_built [of encoded s]
    decode_definition_back [of d] decode_definition_built [of encoded d] by blast

end
