(* ===== verification/Campaign_Plan.thy ===== *)
theory Campaign_Plan
  imports Batch_Codec
begin

section \<open>The campaign schedule\<close>

text \<open>
  The pure half of \<open>capture/campaign.py\<close>: the nine-cell matrix, the campaign definition with
  its identity document, units and their deterministic identities, the journal state,
  receipts and the capacity reserve. The coordinator over them is in \<open>Campaign\<close>.
\<close>

datatype campaign_error =
    Bad_Rate | Bad_Duration | Bad_Campaign_Id | Negative_Start | Same_Radios | Not_Positive_Bound
  | Bad_Skew_Bound | Bad_Preflight_Lead | Qualification_Needs_Analysis | Negative_Lateness
  | Receipt_Policy | Not_Divisible | Outside_Schedule | Bad_Side | Negative_Margin
  | Unit_Id core_error | Unit_Batch batch_error
  | Bad_Work_Id | Negative_Receipt_Time | Artifacts_Differ | Identities_Differ | Not_Feature_Set
  | Projected_After_Receipt | Successes_Order | Successes_Not_Unique
  | Receipt_Units | Receipt_Unbalanced | Other_Definition | Round_Incomplete | Evidence_Incomplete
  | Needs_Capture_Analysis | Consumes_Receipt | Receipt_Differs
  | Not_Initialized | Definition_Differs | Revision_Changed | Bad_Replacement
  | Bad_Capacity | Capacity_Raised | No_Snapshot | Other_Unit | Process_Died | Unknown_Cell

definition CAMPAIGN_WINDOW_NS :: int where "CAMPAIGN_WINDOW_NS = 8 * 60 * 60 * 1000000000"
definition CAMPAIGN_ROUNDS :: int where "CAMPAIGN_ROUNDS = 104"
definition SLOTS_PER_ROUND :: int where "SLOTS_PER_ROUND = 9"
definition CAMPAIGN_SUCCESS_TARGET :: int where
  "CAMPAIGN_SUCCESS_TARGET = CAMPAIGN_ROUNDS * SLOTS_PER_ROUND"
definition CAMPAIGN_RAW_BYTES :: int where "CAMPAIGN_RAW_BYTES = 32614400000"
definition MAXIMUM_START_SKEW_NS :: int where "MAXIMUM_START_SKEW_NS = 100000000"
definition PREFLIGHT_LEAD_NS :: int where "PREFLIGHT_LEAD_NS = 15000000000"
definition HARDWARE_BLOCK_DURATION_MS :: int where "HARDWARE_BLOCK_DURATION_MS = 40"

lemmas campaign_constants = CAMPAIGN_WINDOW_NS_def CAMPAIGN_ROUNDS_def SLOTS_PER_ROUND_def
  CAMPAIGN_SUCCESS_TARGET_def CAMPAIGN_RAW_BYTES_def MAXIMUM_START_SKEW_NS_def
  PREFLIGHT_LEAD_NS_def HARDWARE_BLOCK_DURATION_MS_def

definition MAIN_GEOMETRY_SCHEDULE :: "(string \<times> string) list" where
  "MAIN_GEOMETRY_SCHEDULE = [(''L'', ''L''), (''L'', ''U''), (''U'', ''U''), (''U'', ''L'')]"

text \<open>\<open>_CAMPAIGN_ID\<close>: \<open>[a-z0-9][a-z0-9_-]{0,39}\<close>.\<close>

definition campaign_id_ok :: "string \<Rightarrow> bool" where
  "campaign_id_ok s \<longleftrightarrow> s \<noteq> [] \<and> lower_alnum (hd s) \<and> length s \<le> 40
     \<and> list_all (\<lambda>c. lower_alnum c \<or> c \<in> set ''_-'') (tl s)"

record campaign_cell =
  sample_rate_hz :: int
  duration_ms :: int

definition campaign_cell_post_init :: "campaign_cell \<Rightarrow> (campaign_error, unit) result" where
  "campaign_cell_post_init c =
     raise_first
       [(sample_rate_hz c \<notin> {1250000, 2500000, 5000000}, ValueError Bad_Rate),
        (duration_ms c \<notin> {40, 80, 160}, ValueError Bad_Duration)]"

definition cell_sample_count :: "campaign_cell \<Rightarrow> int" where
  "cell_sample_count c = sample_rate_hz c * duration_ms c div 1000"

definition hardware_block_samples :: "campaign_cell \<Rightarrow> int" where
  "hardware_block_samples c =
     sample_rate_hz c * min (duration_ms c) HARDWARE_BLOCK_DURATION_MS div 1000"

definition arm_name :: "campaign_cell \<Rightarrow> string" where
  "arm_name c = str_int (duration_ms c) @ ''ms-'' @ str_int (sample_rate_hz c div 10000) @ ''x10kSps''"

definition cell_document :: "campaign_cell \<Rightarrow> json" where
  "cell_document c =
     JObj [(''sample_rate_hz'', JInt (sample_rate_hz c)), (''duration_ms'', JInt (duration_ms c)),
           (''sample_count'', JInt (cell_sample_count c))]"

definition CAMPAIGN_CELLS :: "campaign_cell list" where
  "CAMPAIGN_CELLS =
     concat (map (\<lambda>rate. map (\<lambda>d. \<lparr>sample_rate_hz = rate, duration_ms = d\<rparr>) [40, 80, 160])
       [1250000, 2500000, 5000000])"

subsection \<open>The campaign definition\<close>

record campaign_definition =
  campaign_id :: string
  start_utc_ns :: int
  radio_a_id :: string
  radio_b_id :: string
  station_a_digest :: digest
  station_b_digest :: digest
  maximum_start_lateness_ns :: int
  qualification_receipt_digest :: "digest option"
  qualification :: bool
  maximum_capture_invocations :: int
  maximum_fresh_attempts_per_cell :: int
  maximum_analysis_invocations :: int
  maximum_observed_start_skew_ns :: int
  preflight_lead_ns :: int
  analysis_after_each_capture :: bool

definition campaign_definition_post_init :: "campaign_definition \<Rightarrow> (campaign_error, unit) result" where
  "campaign_definition_post_init d =
     raise_first
       [(\<not> campaign_id_ok (campaign_id d), ValueError Bad_Campaign_Id),
        (start_utc_ns d < 0, ValueError Negative_Start),
        (radio_a_id d = radio_b_id d, ValueError Same_Radios),
        (maximum_capture_invocations d \<le> 0, ValueError Not_Positive_Bound),
        (maximum_fresh_attempts_per_cell d \<le> 0, ValueError Not_Positive_Bound),
        (maximum_analysis_invocations d \<le> 0, ValueError Not_Positive_Bound),
        (maximum_observed_start_skew_ns d \<noteq> MAXIMUM_START_SKEW_NS, ValueError Bad_Skew_Bound),
        (preflight_lead_ns d \<noteq> PREFLIGHT_LEAD_NS, ValueError Bad_Preflight_Lead),
        (qualification d \<and> \<not> analysis_after_each_capture d, ValueError Qualification_Needs_Analysis),
        (maximum_start_lateness_ns d < 0, ValueError Negative_Lateness),
        (qualification d = (qualification_receipt_digest d \<noteq> None), ValueError Receipt_Policy)]"

definition end_utc_ns :: "campaign_definition \<Rightarrow> int" where
  "end_utc_ns d = start_utc_ns d + CAMPAIGN_WINDOW_NS"

definition target_successes :: "campaign_definition \<Rightarrow> int" where
  "target_successes d = (if qualification d then SLOTS_PER_ROUND else CAMPAIGN_SUCCESS_TARGET)"

definition slot_period_numerator_ns :: "campaign_definition \<Rightarrow> int" where
  "slot_period_numerator_ns d = (if qualification d then 400000000000 else 400000000000)"

definition slot_period_denominator :: "campaign_definition \<Rightarrow> int" where
  "slot_period_denominator d = (if qualification d then 3 else 13)"

definition capture_run_transition_limit :: "campaign_definition \<Rightarrow> int" where
  "capture_run_transition_limit d = 2 * target_successes d + 1"

definition analysis_drain_transition_limit :: "campaign_definition \<Rightarrow> int" where
  "analysis_drain_transition_limit d = target_successes d + 1"

definition staged_analysis_drain_transition_limit ::
  "campaign_definition \<Rightarrow> (campaign_error, int) result" where
  "staged_analysis_drain_transition_limit d =
     (if target_successes d mod 36 \<noteq> 0 then Inl (ValueError Not_Divisible)
      else Inr (target_successes d div 36 + 1))"

definition campaign_document :: "campaign_definition \<Rightarrow> json" where
  "campaign_document d = JObj
     ([(''schema'', JStr (if qualification d then ''org.leo-flow.gauss-v5-campaign/v2''
          else ''org.leo-flow.gauss-v5-campaign/v3'')),
       (''campaign_id'', JStr (campaign_id d)),
       (''start_utc_ns'', JInt (start_utc_ns d)),
       (''campaign_kind'', JStr (if qualification d then ''qualification'' else ''main'')),
       (''radios'', JList [JStr (radio_a_id d), JStr (radio_b_id d)]),
       (''station_digests'', JList [JStr (str_digest (station_a_digest d)),
          JStr (str_digest (station_b_digest d))]),
       (''cells'', JList (map cell_document CAMPAIGN_CELLS)),
       (''maximum_capture_invocations'', JInt (maximum_capture_invocations d)),
       (''maximum_fresh_attempts_per_cell'', JInt (maximum_fresh_attempts_per_cell d)),
       (''maximum_analysis_invocations'', JInt (maximum_analysis_invocations d)),
       (''maximum_observed_start_skew_ns'', JInt (maximum_observed_start_skew_ns d)),
       (''maximum_start_lateness_ns'', JInt (maximum_start_lateness_ns d)),
       (''preflight_lead_ns'', JInt (preflight_lead_ns d)),
       (''capture_mode'', JStr ''coordinated''),
       (''analysis_after_each_capture'', JBool (analysis_after_each_capture d)),
       (''unit_schedule'', JStr (if qualification d then ''fixed_nine_cell_no_catch_up_grid''
          else ''balanced_nine_cell_four_geometry_no_catch_up_grid'')),
       (''qualification_receipt_digest'',
          json_option (\<lambda>x. JStr (str_digest x)) (qualification_receipt_digest d)),
       (''slot_period_numerator_ns'', JInt (slot_period_numerator_ns d)),
       (''slot_period_denominator'', JInt (slot_period_denominator d)),
       (''no_catch_up'', JBool True)] @
      (if qualification d
       then [(''rounds'', JInt 1), (''slots_per_round'', JInt SLOTS_PER_ROUND)]
       else [(''window_duration_ns'', JInt CAMPAIGN_WINDOW_NS),
             (''rounds'', JInt CAMPAIGN_ROUNDS),
             (''slots_per_round'', JInt SLOTS_PER_ROUND),
             (''geometry_schedule'',
                JList (map (\<lambda>(a, b). JList [JStr a, JStr b]) MAIN_GEOMETRY_SCHEDULE)),
             (''capture_run_transition_limit'', JInt (capture_run_transition_limit d)),
             (''analysis_drain_transition_limit'', JInt (analysis_drain_transition_limit d))]))"

definition campaign_digest :: "campaign_definition \<Rightarrow> digest" where
  "campaign_digest d = canonical_digest (campaign_document d)"

subsection \<open>Units\<close>

record campaign_unit =
  success_index :: int
  slot_index :: int
  retry_index :: int
  unit_cell :: campaign_cell
  requested_start :: int
  unit_batch :: batch_definition
  plan_a_id :: string
  plan_b_id :: string

definition unit_id :: "campaign_unit \<Rightarrow> string" where
  "unit_id u = bd_batch_id (unit_batch u) @ ''_s'' @ fmt0 3 (success_index u) @ ''_r''
     @ fmt0 2 (retry_index u)"

definition unit_digest :: "campaign_unit \<Rightarrow> digest" where
  "unit_digest u = canonical_digest (JObj
     [(''success_index'', JInt (success_index u)), (''slot_index'', JInt (slot_index u)),
      (''retry_index'', JInt (retry_index u)), (''cell'', cell_document (unit_cell u)),
      (''batch_digest'', JStr (str_digest (canonical_digest (json_batch_definition (unit_batch u))))),
      (''plan_ids'', JList [JStr (plan_a_id u), JStr (plan_b_id u)])])"

definition campaign_cell_at :: "int \<Rightarrow> (campaign_error, campaign_cell) result" where
  "campaign_cell_at i =
     (if \<not> (0 \<le> i \<and> i < CAMPAIGN_SUCCESS_TARGET) then Inl (ValueError Outside_Schedule)
      else Inr (CAMPAIGN_CELLS ! nat (i mod SLOTS_PER_ROUND)))"

definition campaign_edge_order ::
  "campaign_definition \<Rightarrow> int \<Rightarrow> string \<Rightarrow> (campaign_error, string) result" where
  "campaign_edge_order d i side =
     bindE (raise_first
       [(side \<noteq> ''a'' \<and> side \<noteq> ''b'', ValueError Bad_Side),
        (\<not> (0 \<le> i \<and> i < target_successes d), ValueError Outside_Schedule)]) (\<lambda>_.
     if qualification d then Inr (if i mod 2 = 0 then ''L'' else ''U'')
     else
       let geometry = MAIN_GEOMETRY_SCHEDULE ! nat (i mod int (length MAIN_GEOMETRY_SCHEDULE))
       in Inr (if side = ''a'' then fst geometry else snd geometry))"

definition unit_stem :: "campaign_definition \<Rightarrow> int \<Rightarrow> int \<Rightarrow> int \<Rightarrow> string" where
  "unit_stem d success slot retry =
     campaign_id d @ ''_u'' @ fmt0 3 success @ ''_s'' @ fmt0 3 slot @ ''_r'' @ fmt0 2 retry"

definition build_campaign_unit ::
  "campaign_definition \<Rightarrow> int \<Rightarrow> int \<Rightarrow> int \<Rightarrow> int \<Rightarrow> (campaign_error, campaign_unit) result" where
  "build_campaign_unit d success slot retry requested =
     bindE (campaign_cell_at success) (\<lambda>cell.
     let stem = unit_stem d success slot retry in
     bindE (embed_exn Unit_Id (contract_id PlanId (''plan_'' @ stem @ ''_a''))) (\<lambda>plan_a.
     bindE (embed_exn Unit_Id (contract_id PlanId (''plan_'' @ stem @ ''_b''))) (\<lambda>plan_b.
     bindE (embed_exn Unit_Id (contract_id CaptureAttemptId (''cattempt_'' @ stem @ ''_a''))) (\<lambda>attempt_a.
     bindE (embed_exn Unit_Batch (checked expected_attempt_post_init
       \<lparr>ea_attempt_id = attempt_a, ea_radio_id = radio_a_id d, ea_plan_id = plan_a,
        ea_requested_start = requested\<rparr>)) (\<lambda>a.
     bindE (embed_exn Unit_Id (contract_id CaptureAttemptId (''cattempt_'' @ stem @ ''_b''))) (\<lambda>attempt_b.
     bindE (embed_exn Unit_Batch (checked expected_attempt_post_init
       \<lparr>ea_attempt_id = attempt_b, ea_radio_id = radio_b_id d, ea_plan_id = plan_b,
        ea_requested_start = requested\<rparr>)) (\<lambda>b.
     bindE (embed_exn Unit_Id (contract_id CaptureBatchId (''cbatch_'' @ stem))) (\<lambda>batch_id.
     bindE (embed_exn Unit_Batch (checked batch_definition_post_init
       \<lparr>bd_schema = schema_v0_1 batch_schema_id, bd_batch_id = batch_id, bd_mode = COORDINATED,
        expected_attempts = [a, b], maximum_skew = Some (maximum_observed_start_skew_ns d)\<rparr>)) (\<lambda>batch.
       Inr \<lparr>success_index = success, slot_index = slot, retry_index = retry, unit_cell = cell,
            requested_start = requested, unit_batch = batch, plan_a_id = plan_a,
            plan_b_id = plan_b\<rparr>)))))))))"

subsection \<open>Analysis receipts\<close>

record feature_set_ref =
  feature_set_id :: string
  fs_analysis_run_id :: string
  bundle_ref :: object_ref

definition FEATURE_SET_SCHEMA :: string where
  "FEATURE_SET_SCHEMA = ''org.leo-flow.feature-set-bundle''"

record analysis_success =
  as_recording_id :: string
  as_job_id :: string
  result_ref :: artifact_ref
  projection_work_id :: string
  projected_feature_set :: feature_set_ref
  projected_utc_ns :: int

definition analysis_success_post_init :: "analysis_success \<Rightarrow> (campaign_error, unit) result" where
  "analysis_success_post_init a =
     raise_first
       [(\<not> startswith (projection_work_id a) ''fpwork_'', ValueError Bad_Work_Id),
        (projected_utc_ns a < 0, ValueError Negative_Receipt_Time),
        (ar_digest (result_ref a) \<noteq> obj_digest (bundle_ref (projected_feature_set a)),
           ValueError Artifacts_Differ),
        (artifact_id (result_ref a) \<noteq> feature_set_id (projected_feature_set a),
           ValueError Identities_Differ),
        (ar_schema (result_ref a) \<noteq> Some (schema_v0_1 FEATURE_SET_SCHEMA),
           ValueError Not_Feature_Set)]"

record analysis_receipt =
  rc_batch_id :: string
  successes :: "analysis_success list"
  rc_completed_utc_ns :: int

definition receipt_recording_ids :: "analysis_receipt \<Rightarrow> string list" where
  "receipt_recording_ids r = map as_recording_id (successes r)"

definition analysis_receipt_post_init :: "analysis_receipt \<Rightarrow> (campaign_error, unit) result" where
  "analysis_receipt_post_init r =
     raise_first
       [(rc_completed_utc_ns r < 0, ValueError Negative_Receipt_Time),
        (list_ex (\<lambda>a. projected_utc_ns a > rc_completed_utc_ns r) (successes r),
           ValueError Projected_After_Receipt),
        (\<not> in_order as_recording_id (successes r), ValueError Successes_Order),
        (card (set (map as_recording_id (successes r))) \<noteq> 2, ValueError Successes_Not_Unique),
        (card (set (map as_job_id (successes r))) \<noteq> 2, ValueError Successes_Not_Unique),
        (card (set (map projection_work_id (successes r))) \<noteq> 2, ValueError Successes_Not_Unique)]"

definition json_artifact_ref :: "artifact_ref \<Rightarrow> json" where
  "json_artifact_ref r =
     JObj [(''artifact_id'', JStr (artifact_id r)), (''digest'', json_digest (ar_digest r)),
           (''schema'', json_option json_schema_ref (ar_schema r))]"

definition json_feature_set_ref :: "feature_set_ref \<Rightarrow> json" where
  "json_feature_set_ref f =
     JObj [(''feature_set_id'', JStr (feature_set_id f)), (''analysis_run_id'', JStr (fs_analysis_run_id f)),
           (''bundle_ref'', json_object_ref (bundle_ref f))]"

definition json_success :: "analysis_success \<Rightarrow> json" where
  "json_success a =
     JObj [(''recording_id'', JStr (as_recording_id a)), (''analysis_job_id'', JStr (as_job_id a)),
           (''result_ref'', json_artifact_ref (result_ref a)),
           (''projection_work_id'', JStr (projection_work_id a)),
           (''projected_feature_set_ref'', json_feature_set_ref (projected_feature_set a)),
           (''projected_utc_ns'', JInt (projected_utc_ns a))]"

definition json_receipt :: "analysis_receipt \<Rightarrow> json" where
  "json_receipt r =
     JObj [(''batch_id'', JStr (rc_batch_id r)),
           (''successes'', JList (map json_success (successes r))),
           (''completed_utc_ns'', JInt (rc_completed_utc_ns r))]"

subsection \<open>The journal state\<close>

datatype unit_phase = PLANNED | CAPTURED | TERMINAL_FAILED | ANALYSIS_FAILED | COMPLETE

record unit_record =
  ur_unit :: campaign_unit
  phase :: unit_phase
  capture_invocations :: int
  analysis_invocations :: int
  ur_snapshot :: "batch_snapshot option"
  ur_receipt :: "analysis_receipt option"

definition planned :: "campaign_unit \<Rightarrow> unit_record" where
  "planned u =
     \<lparr>ur_unit = u, phase = PLANNED, capture_invocations = 0, analysis_invocations = 0,
      ur_snapshot = None, ur_receipt = None\<rparr>"

record campaign_state =
  cs_digest :: digest
  cs_records :: "unit_record list"
  cs_revision :: int

text \<open>\<open>CAMPAIGN_CELLS.index(cell)\<close>; a validated cell is always in the matrix.\<close>

definition cell_index :: "campaign_cell \<Rightarrow> nat" where
  "cell_index c = length (takeWhile (\<lambda>x. x \<noteq> c) CAMPAIGN_CELLS)"

definition successful_counts :: "campaign_state \<Rightarrow> int list" where
  "successful_counts s =
     foldl (\<lambda>counts r.
         if phase r = COMPLETE
         then (let i = cell_index (unit_cell (ur_unit r)) in counts[i := counts ! i + 1])
         else counts)
       (replicate (length CAMPAIGN_CELLS) 0) (cs_records s)"

definition completed_successes :: "campaign_state \<Rightarrow> int" where
  "completed_successes s = sum_list (successful_counts s)"

definition accepted_balanced_rounds :: "campaign_state \<Rightarrow> int" where
  "accepted_balanced_rounds s = Min (set (successful_counts s))"

definition required_remaining_capacity_bytes ::
  "campaign_definition \<Rightarrow> campaign_state \<Rightarrow> int \<Rightarrow> (campaign_error, int) result" where
  "required_remaining_capacity_bytes d s margin =
     (if margin < 0 then Inl (ValueError Negative_Margin)
      else
        let target = (if qualification d then 1 else CAMPAIGN_ROUNDS);
            remaining = sum_list (map2
              (\<lambda>cell completed. max 0 (target - completed) * cell_sample_count cell * 128)
              CAMPAIGN_CELLS (successful_counts s))
        in Inr (remaining * 2 + margin))"

subsection \<open>The qualification receipt\<close>

record qualification_receipt =
  qualification_definition_digest :: digest
  issued_utc_ns :: int
  unit_digests :: "digest list"
  snapshot_digests :: "digest list"
  analysis_receipt_digests :: "digest list"
  qr_successful_counts :: "int list"

definition qualification_receipt_post_init :: "qualification_receipt \<Rightarrow> (campaign_error, unit) result" where
  "qualification_receipt_post_init r =
     raise_first
       [(issued_utc_ns r < 0, ValueError Negative_Receipt_Time),
        (int (length (unit_digests r)) \<noteq> SLOTS_PER_ROUND
           \<or> int (length (snapshot_digests r)) \<noteq> SLOTS_PER_ROUND, ValueError Receipt_Units),
        (int (length (analysis_receipt_digests r)) \<noteq> SLOTS_PER_ROUND, ValueError Receipt_Units),
        (qr_successful_counts r \<noteq> replicate (nat SLOTS_PER_ROUND) 1, ValueError Receipt_Unbalanced)]"

definition qualification_receipt_digest_of :: "qualification_receipt \<Rightarrow> digest" where
  "qualification_receipt_digest_of r =
     (let texts = \<lambda>ds. JList (map (\<lambda>x. JStr (str_digest x)) ds) in
      canonical_digest (JObj
        [(''schema'', JStr ''org.leo-flow.gauss-v5-campaign-qualification/v1''),
         (''qualification_definition_digest'', JStr (str_digest (qualification_definition_digest r))),
         (''issued_utc_ns'', JInt (issued_utc_ns r)),
         (''unit_digests'', texts (unit_digests r)),
         (''snapshot_digests'', texts (snapshot_digests r)),
         (''analysis_receipt_digests'', texts (analysis_receipt_digests r)),
         (''successful_counts'', JList (map JInt (qr_successful_counts r)))]))"

definition build_qualification_receipt ::
  "campaign_definition \<Rightarrow> campaign_state \<Rightarrow> int \<Rightarrow> (campaign_error, qualification_receipt) result" where
  "build_qualification_receipt d s issued =
     (if \<not> qualification d \<or> cs_digest s \<noteq> campaign_digest d
      then Inl (ValueError Other_Definition)
      else
        let complete = filter (\<lambda>r. phase r = COMPLETE) (cs_records s) in
        if int (length complete) \<noteq> SLOTS_PER_ROUND
           \<or> successful_counts s \<noteq> replicate (nat SLOTS_PER_ROUND) 1
        then Inl (ValueError Round_Incomplete)
        else if list_ex (\<lambda>r. ur_snapshot r = None \<or> ur_receipt r = None) complete
        then Inl (ValueError Evidence_Incomplete)
        else checked qualification_receipt_post_init
          \<lparr>qualification_definition_digest = campaign_digest d, issued_utc_ns = issued,
           unit_digests = map (\<lambda>r. unit_digest (ur_unit r)) complete,
           snapshot_digests = map (\<lambda>r. canonical_digest (json_option json_snapshot (ur_snapshot r))) complete,
           analysis_receipt_digests =
             map (\<lambda>r. canonical_digest (json_option json_receipt (ur_receipt r))) complete,
           qr_successful_counts = successful_counts s\<rparr>)"

subsection \<open>Units are well formed and named apart\<close>

abbreviation valid_campaign :: "campaign_definition \<Rightarrow> bool" where
  "valid_campaign d \<equiv> campaign_definition_post_init d = Inr ()"

abbreviation token_text :: "string \<Rightarrow> bool" where
  "token_text s \<equiv> list_all token_char s"

lemma token_literals:
  "token_char CHR ''_''" "token_char CHR ''a''" "token_char CHR ''b''" "token_char CHR ''u''"
  "token_char CHR ''s''" "token_char CHR ''r''"
  by code_simp+

lemma lower_alnum_token: "lower_alnum c \<Longrightarrow> token_char c"
  by (auto simp: lower_alnum_def token_char_def is_alnum_def)

lemma token_text_campaign_id:
  assumes "campaign_id_ok s"
  shows "token_text s"
proof (cases s)
  case (Cons c cs)
  have "token_char x" if "lower_alnum x \<or> x \<in> set ''_-''" for x
    using that lower_alnum_token token_charI(3,4) by auto
  with assms Cons show ?thesis by (auto simp: campaign_id_ok_def list_all_iff)
qed simp

lemma token_text_fmt0: "0 \<le> n \<Longrightarrow> token_text (fmt0 w n)"
  using fmt0_digits token_charI(2) by (simp add: list_all_iff)

lemma token_text_stem:
  assumes "valid_campaign d" "0 \<le> success" "0 \<le> slot" "0 \<le> retry"
  shows "token_text (unit_stem d success slot retry)"
proof -
  have "campaign_id_ok (campaign_id d)" using assms(1) by (simp add: campaign_definition_post_init_def)
  then show ?thesis
    using assms(2-4)
    by (simp add: unit_stem_def token_text_campaign_id token_text_fmt0 token_literals)
qed

lemma built_ids:
  assumes "token_text s"
  shows "contract_id PlanId (''plan_'' @ s) = Inr (''plan_'' @ s)"
    "contract_id CaptureAttemptId (''cattempt_'' @ s) = Inr (''cattempt_'' @ s)"
    "contract_id CaptureBatchId (''cbatch_'' @ s) = Inr (''cbatch_'' @ s)"
  using assms valid_id_build [of s PlanId] valid_id_build [of s CaptureAttemptId]
    valid_id_build [of s CaptureBatchId]
  by (simp_all add: list_all_iff)

lemma suffix_order: "(x :: string) @ ''_a'' \<le> x @ ''_b''"
  by (induction x) (simp_all add: less_char_def)

definition unit_plan :: "campaign_definition \<Rightarrow> int \<Rightarrow> int \<Rightarrow> int \<Rightarrow> string \<Rightarrow> string" where
  "unit_plan d success slot retry side = ''plan_'' @ unit_stem d success slot retry @ ''_'' @ side"

definition expected_unit :: "campaign_definition \<Rightarrow> int \<Rightarrow> int \<Rightarrow> int \<Rightarrow> int \<Rightarrow> campaign_unit" where
  "expected_unit d success slot retry requested =
     (let stem = unit_stem d success slot retry;
          attempt = \<lambda>side radio.
            \<lparr>ea_attempt_id = ''cattempt_'' @ stem @ ''_'' @ side, ea_radio_id = radio,
             ea_plan_id = unit_plan d success slot retry side, ea_requested_start = requested\<rparr>
      in \<lparr>success_index = success, slot_index = slot, retry_index = retry,
          unit_cell = CAMPAIGN_CELLS ! nat (success mod 9), requested_start = requested,
          unit_batch =
            \<lparr>bd_schema = schema_v0_1 batch_schema_id, bd_batch_id = ''cbatch_'' @ stem,
             bd_mode = COORDINATED,
             expected_attempts = [attempt ''a'' (radio_a_id d), attempt ''b'' (radio_b_id d)],
             maximum_skew = Some MAXIMUM_START_SKEW_NS\<rparr>,
          plan_a_id = unit_plan d success slot retry ''a'',
          plan_b_id = unit_plan d success slot retry ''b''\<rparr>)"

lemma built_unit:
  assumes "valid_campaign d" and "0 \<le> success" "success < CAMPAIGN_SUCCESS_TARGET"
    and "0 \<le> slot" "0 \<le> retry" "0 \<le> requested"
  shows "build_campaign_unit d success slot retry requested
      = Inr (expected_unit d success slot retry requested)"
    and "batch_definition_post_init (unit_batch (expected_unit d success slot retry requested)) = Inr ()"
proof -
  let ?stem = "unit_stem d success slot retry"
  have stem: "token_text ?stem" using token_text_stem assms by blast
  then have ids: "token_text (?stem @ ''_a'')" "token_text (?stem @ ''_b'')"
    by (simp_all add: token_literals)
  have d: "radio_a_id d \<noteq> radio_b_id d" "maximum_observed_start_skew_ns d = MAXIMUM_START_SKEW_NS"
    using assms(1) by (simp_all add: campaign_definition_post_init_def)
  have order: "''cattempt_'' @ ?stem @ ''_a'' \<le> ''cattempt_'' @ ?stem @ ''_b''"
    using suffix_order [of "''cattempt_'' @ ?stem"] by simp
  show ok: "batch_definition_post_init (unit_batch (expected_unit d success slot retry requested)) = Inr ()"
    using d order
    by (simp add: batch_definition_post_init_def expected_unit_def Let_def unit_plan_def
        card_insert_if requested_skew_def MAXIMUM_START_SKEW_NS_def)
  show "build_campaign_unit d success slot retry requested
      = Inr (expected_unit d success slot retry requested)"
    using ok assms(2,3,6) d(2) built_ids(1) [OF ids(1)] built_ids(1) [OF ids(2)]
      built_ids(2) [OF ids(1)] built_ids(2) [OF ids(2)] built_ids(3) [OF stem]
    by (simp add: build_campaign_unit_def campaign_cell_at_def Let_def checked_def embed_exn_def
        expected_attempt_post_init_def expected_unit_def unit_plan_def SLOTS_PER_ROUND_def
        del: contract_id_ok)
qed

lemma stem_inj:
  assumes "unit_stem d u s r = unit_stem d u' s' r'"
    and "0 \<le> u" "0 \<le> s" "0 \<le> r" "0 \<le> u'" "0 \<le> s'" "0 \<le> r'"
  shows "u = u' \<and> s = s' \<and> r = r'"
proof -
  have digits: "\<forall>c \<in> set (fmt0 w n). is_digit c" if "0 \<le> n" for w n
    using fmt0_digits that by blast
  have us: "\<not> is_digit CHR ''_''" by code_simp
  have "fmt0 3 u @ CHR ''_'' # (''s'' @ fmt0 3 s @ ''_r'' @ fmt0 2 r)
      = fmt0 3 u' @ CHR ''_'' # (''s'' @ fmt0 3 s' @ ''_r'' @ fmt0 2 r')"
    using assms(1) by (simp add: unit_stem_def)
  then have 1: "fmt0 3 u = fmt0 3 u'"
    and "''s'' @ fmt0 3 s @ ''_r'' @ fmt0 2 r = ''s'' @ fmt0 3 s' @ ''_r'' @ fmt0 2 r'"
    using digits_sep_eq [OF digits digits us] assms by blast+
  then have "fmt0 3 s @ CHR ''_'' # (''r'' @ fmt0 2 r) = fmt0 3 s' @ CHR ''_'' # (''r'' @ fmt0 2 r')"
    by simp
  then have 2: "fmt0 3 s = fmt0 3 s'" and "''r'' @ fmt0 2 r = ''r'' @ fmt0 2 r'"
    using digits_sep_eq [OF digits digits us] assms by blast+
  then have 3: "fmt0 2 r = fmt0 2 r'" by simp
  show ?thesis using 1 2 3 fmt0_inj assms by blast
qed

text \<open>
  A valid campaign never fails to name a unit: for every success index in the schedule
  and every non-negative slot, retry and start, \<open>build_campaign_unit\<close> returns a unit of the
  scheduled cell whose batch is a valid coordinated definition on the two radios, and two
  units of one campaign have the same batch, an attempt or a plan in common only if they
  agree in success, slot and retry index.
\<close>

lemma campaign_units_well_formed:
  assumes "valid_campaign d"
    and "0 \<le> success" "success < CAMPAIGN_SUCCESS_TARGET" "0 \<le> slot" "0 \<le> retry" "0 \<le> requested"
    and "0 \<le> success'" "success' < CAMPAIGN_SUCCESS_TARGET" "0 \<le> slot'" "0 \<le> retry'" "0 \<le> requested'"
  shows "\<exists>u v. build_campaign_unit d success slot retry requested = Inr u
    \<and> build_campaign_unit d success' slot' retry' requested' = Inr v
    \<and> Inr (unit_cell u) = campaign_cell_at success
    \<and> batch_definition_post_init (unit_batch u) = Inr () \<and> bd_mode (unit_batch u) = COORDINATED
    \<and> map ea_radio_id (expected_attempts (unit_batch u)) = [radio_a_id d, radio_b_id d]
    \<and> map ea_plan_id (expected_attempts (unit_batch u)) = [plan_a_id u, plan_b_id u]
    \<and> (bd_batch_id (unit_batch u) = bd_batch_id (unit_batch v)
        \<or> plan_a_id u = plan_a_id v \<or> plan_b_id u = plan_b_id v
        \<or> ea_attempt_id (expected_attempts (unit_batch u) ! 0)
            = ea_attempt_id (expected_attempts (unit_batch v) ! 0)
       \<longrightarrow> success = success' \<and> slot = slot' \<and> retry = retry')"
proof -
  let ?u = "expected_unit d success slot retry requested"
  let ?v = "expected_unit d success' slot' retry' requested'"
  note u = built_unit [OF assms(1-6)] and v = built_unit [OF assms(1,7-11)]
  have cell: "Inr (unit_cell ?u) = campaign_cell_at success"
    using assms(2,3) by (simp add: expected_unit_def Let_def campaign_cell_at_def SLOTS_PER_ROUND_def)
  have stems: "success = success' \<and> slot = slot' \<and> retry = retry'"
    if "unit_stem d success slot retry = unit_stem d success' slot' retry'"
    using stem_inj [OF that] assms by simp
  show ?thesis
    by (rule exI [of _ ?u], rule exI [of _ ?v])
      (use u v cell stems in \<open>simp add: expected_unit_def Let_def unit_plan_def\<close>)
qed

subsection \<open>The schedule is balanced\<close>

lemma matrix_period:
  "\<forall>c \<in> set CAMPAIGN_CELLS. count_where (\<lambda>i. CAMPAIGN_CELLS ! (i mod 9) = c) [0..<36] = 4 \<and>
     (\<forall>g \<in> set MAIN_GEOMETRY_SCHEDULE. count_where (\<lambda>i. CAMPAIGN_CELLS ! (i mod 9) = c
        \<and> MAIN_GEOMETRY_SCHEDULE ! (i mod 4) = g) [0..<36] = 1)"
  by code_simp

lemma cells_valid: "\<forall>c \<in> set CAMPAIGN_CELLS. campaign_cell_post_init c = Inr ()"
  "distinct CAMPAIGN_CELLS" "length CAMPAIGN_CELLS = 9"
  by code_simp+

text \<open>
  The main schedule is balanced: over its 936 successes each of the nine cells is
  scheduled 104 times, and 26 times with each of the four edge geometries of the two
  radios.
\<close>

lemma balanced_schedule:
  assumes "\<not> qualification d"
  shows "\<forall>c \<in> set CAMPAIGN_CELLS.
    count_where (\<lambda>i. campaign_cell_at (int i) = Inr c) [0..<nat CAMPAIGN_SUCCESS_TARGET]
      = nat CAMPAIGN_ROUNDS
    \<and> (\<forall>g \<in> set MAIN_GEOMETRY_SCHEDULE.
        count_where (\<lambda>i. campaign_cell_at (int i) = Inr c
          \<and> campaign_edge_order d (int i) ''a'' = Inr (fst g)
          \<and> campaign_edge_order d (int i) ''b'' = Inr (snd g)) [0..<nat CAMPAIGN_SUCCESS_TARGET] = 26)"
proof -
  have n: "nat CAMPAIGN_SUCCESS_TARGET = 26 * 36" by (simp add: campaign_constants)
  have res: "nat (int i mod 9) = i mod 9" "nat (int i mod 4) = i mod 4"
      "i mod 36 mod 9 = i mod 9" "i mod 36 mod 4 = i mod 4" for i :: nat
    by (simp_all add: nat_mod_distrib mod_mod_cancel)
  have cell: "campaign_cell_at (int i) = Inr c \<longleftrightarrow> CAMPAIGN_CELLS ! (i mod 36 mod 9) = c"
    if "i < 26 * 36" for i c
    using that by (simp add: campaign_cell_at_def campaign_constants res)
  have len: "length MAIN_GEOMETRY_SCHEDULE = 4" by (simp add: MAIN_GEOMETRY_SCHEDULE_def)
  have edge: "campaign_edge_order d (int i) ''a'' = Inr (fst g)
      \<and> campaign_edge_order d (int i) ''b'' = Inr (snd g)
      \<longleftrightarrow> MAIN_GEOMETRY_SCHEDULE ! (i mod 36 mod 4) = g" if "i < 26 * 36" for i g
    using that assms
    by (simp add: campaign_edge_order_def target_successes_def campaign_constants len Let_def
        prod_eq_iff res)
  show ?thesis
  proof (intro ballI conjI)
    fix c
    assume c: "c \<in> set CAMPAIGN_CELLS"
    have "count_where (\<lambda>i. campaign_cell_at (int i) = Inr c) [0..<26 * 36]
        = count_where (\<lambda>i. CAMPAIGN_CELLS ! (i mod 36 mod 9) = c) [0..<26 * 36]"
      by (rule count_where_cong) (use cell in auto)
    also have "\<dots> = 26 * count_where (\<lambda>i. CAMPAIGN_CELLS ! (i mod 9) = c) [0..<36]"
      by (rule count_where_mod) simp
    also have "\<dots> = 26 * 4" using matrix_period c by (simp only:)
    finally show "count_where (\<lambda>i. campaign_cell_at (int i) = Inr c)
        [0..<nat CAMPAIGN_SUCCESS_TARGET] = nat CAMPAIGN_ROUNDS"
      unfolding n by (simp add: CAMPAIGN_ROUNDS_def)
    fix g
    assume g: "g \<in> set MAIN_GEOMETRY_SCHEDULE"
    have "count_where (\<lambda>i. campaign_cell_at (int i) = Inr c
          \<and> campaign_edge_order d (int i) ''a'' = Inr (fst g)
          \<and> campaign_edge_order d (int i) ''b'' = Inr (snd g)) [0..<26 * 36]
        = count_where (\<lambda>i. CAMPAIGN_CELLS ! (i mod 36 mod 9) = c
          \<and> MAIN_GEOMETRY_SCHEDULE ! (i mod 36 mod 4) = g) [0..<26 * 36]"
      by (rule count_where_cong) (use cell edge in auto)
    also have "\<dots> = 26 * count_where (\<lambda>i. CAMPAIGN_CELLS ! (i mod 9) = c
          \<and> MAIN_GEOMETRY_SCHEDULE ! (i mod 4) = g) [0..<36]"
      by (rule count_where_mod) simp
    also have "\<dots> = 26" using matrix_period c g by simp
    finally show "count_where (\<lambda>i. campaign_cell_at (int i) = Inr c
          \<and> campaign_edge_order d (int i) ''a'' = Inr (fst g)
          \<and> campaign_edge_order d (int i) ''b'' = Inr (snd g)) [0..<nat CAMPAIGN_SUCCESS_TARGET] = 26"
      unfolding n .
  qed
qed

subsection \<open>Counting successes\<close>

definition complete_in :: "campaign_cell \<Rightarrow> unit_record \<Rightarrow> bool" where
  "complete_in c r \<longleftrightarrow> phase r = COMPLETE \<and> unit_cell (ur_unit r) = c"

definition complete :: "unit_record \<Rightarrow> bool" where
  "complete r \<longleftrightarrow> phase r = COMPLETE"

lemma cell_index_nth:
  assumes "c \<in> set CAMPAIGN_CELLS"
  shows "cell_index c < 9" "CAMPAIGN_CELLS ! cell_index c = c"
proof -
  have "takeWhile (\<lambda>x. x \<noteq> c) CAMPAIGN_CELLS \<noteq> CAMPAIGN_CELLS"
    using assms by (simp add: takeWhile_eq_all_conv)
  then have lt: "cell_index c < length CAMPAIGN_CELLS"
    unfolding cell_index_def by (metis length_takeWhile_le nat_less_le take_all_iff takeWhile_eq_take)
  then show "cell_index c < 9" using cells_valid(3) by simp
  show "CAMPAIGN_CELLS ! cell_index c = c"
    using nth_length_takeWhile [OF lt [unfolded cell_index_def]] by (simp add: cell_index_def)
qed

lemma successful_counts_eq:
  assumes "\<forall>r \<in> set (cs_records s). unit_cell (ur_unit r) \<in> set CAMPAIGN_CELLS"
  shows "successful_counts s = map (\<lambda>c. int (count_where (complete_in c) (cs_records s))) CAMPAIGN_CELLS"
proof -
  define step where "step = (\<lambda>counts (r :: unit_record). if phase r = COMPLETE
      then (let i = cell_index (unit_cell (ur_unit r)) in counts[i := counts ! i + 1 :: int])
      else counts)"
  have "foldl step (replicate (length CAMPAIGN_CELLS) 0) rs
      = map (\<lambda>c. int (count_where (complete_in c) rs)) CAMPAIGN_CELLS"
    if "\<forall>r \<in> set rs. unit_cell (ur_unit r) \<in> set CAMPAIGN_CELLS" for rs :: "unit_record list"
    using that
  proof (induction rs rule: rev_induct)
    case Nil
    show ?case by (simp add: map_replicate_const)
  next
    case (snoc r rs)
    let ?c = "unit_cell (ur_unit r)"
    have i: "cell_index ?c < length CAMPAIGN_CELLS" "CAMPAIGN_CELLS ! cell_index ?c = ?c"
      using cell_index_nth [of ?c] snoc.prems cells_valid(3) by simp_all
    have uniq: "CAMPAIGN_CELLS ! j = ?c \<longleftrightarrow> j = cell_index ?c" if "j < length CAMPAIGN_CELLS" for j
      using nth_eq_iff_index_eq [OF cells_valid(2) that i(1)] i(2) by simp
    let ?f = "\<lambda>c. int (count_where (complete_in c) rs)"
    have "step (map ?f CAMPAIGN_CELLS) r = map (\<lambda>c. int (count_where (complete_in c) (rs @ [r]))) CAMPAIGN_CELLS"
    proof (rule nth_equalityI)
      show "length (step (map ?f CAMPAIGN_CELLS) r)
          = length (map (\<lambda>c. int (count_where (complete_in c) (rs @ [r]))) CAMPAIGN_CELLS)"
        by (simp add: step_def Let_def)
      fix j
      assume "j < length (step (map ?f CAMPAIGN_CELLS) r)"
      then have j: "j < length CAMPAIGN_CELLS" by (simp add: step_def Let_def split: if_splits)
      have "complete_in (CAMPAIGN_CELLS ! j) r \<longleftrightarrow> phase r = COMPLETE \<and> j = cell_index ?c"
        using uniq [OF j] by (auto simp: complete_in_def)
      with i j show "step (map ?f CAMPAIGN_CELLS) r ! j
          = map (\<lambda>c. int (count_where (complete_in c) (rs @ [r]))) CAMPAIGN_CELLS ! j"
        by (auto simp: step_def Let_def nth_list_update)
    qed
    then show ?case using snoc by simp
  qed
  then show ?thesis
    using assms by (simp add: successful_counts_def step_def)
qed

lemma completed_successes_eq:
  assumes "\<forall>r \<in> set (cs_records s). unit_cell (ur_unit r) \<in> set CAMPAIGN_CELLS"
  shows "completed_successes s = int (count_where complete (cs_records s))"
proof -
  have one: "(\<Sum>c \<leftarrow> CAMPAIGN_CELLS. if x = c then 1 else 0 :: int) = 1" if "x \<in> set CAMPAIGN_CELLS" for x
  proof -
    have "(\<Sum>c \<leftarrow> CAMPAIGN_CELLS. if x = c then 1 else 0 :: int) = (\<Sum>c \<in> set CAMPAIGN_CELLS. if x = c then 1 else 0)"
      using cells_valid(2) by (simp add: sum_list_distinct_conv_sum_set)
    with that show ?thesis by simp
  qed
  have "(\<Sum>c \<leftarrow> CAMPAIGN_CELLS. int (count_where (complete_in c) rs)) = int (count_where complete rs)"
    if "\<forall>r \<in> set rs. unit_cell (ur_unit r) \<in> set CAMPAIGN_CELLS" for rs :: "unit_record list"
    using that
  proof (induction rs)
    case (Cons r rs)
    have "(\<Sum>c \<leftarrow> CAMPAIGN_CELLS. int (count_where (complete_in c) (r # rs)))
        = (\<Sum>c \<leftarrow> CAMPAIGN_CELLS. (if complete r then (if unit_cell (ur_unit r) = c then 1 else 0) else 0)
             + int (count_where (complete_in c) rs))"
      by (rule arg_cong [where f = sum_list], rule map_cong)
        (auto simp: complete_in_def complete_def)
    also have "\<dots> = (if complete r then 1 else 0)
        + (\<Sum>c \<leftarrow> CAMPAIGN_CELLS. int (count_where (complete_in c) rs))"
      using one [of "unit_cell (ur_unit r)"] Cons.prems by (simp add: sum_list_addf)
    finally show ?case using Cons by simp
  qed simp
  then show ?thesis
    unfolding completed_successes_def successful_counts_eq [OF assms] using assms by blast
qed

text \<open>
  The capacity reserve of a main campaign is twice the raw bytes still to be recorded
  plus the margin: \<open>2 * CAMPAIGN_RAW_BYTES\<close> plus the margin at the start, less by the same
  amount with every balanced round, and just the margin after the last.
\<close>

lemma capacity_reserve:
  assumes "\<not> qualification d" and "0 \<le> margin" and "0 \<le> n" "n \<le> CAMPAIGN_ROUNDS"
    and "successful_counts s = replicate 9 n"
  shows "required_remaining_capacity_bytes d s margin
    = Inr (2 * (CAMPAIGN_RAW_BYTES div CAMPAIGN_ROUNDS) * (CAMPAIGN_ROUNDS - n) + margin)
    \<and> CAMPAIGN_RAW_BYTES div CAMPAIGN_ROUNDS * CAMPAIGN_ROUNDS = CAMPAIGN_RAW_BYTES"
  using assms
  by (simp add: required_remaining_capacity_bytes_def CAMPAIGN_CELLS_def cell_sample_count_def
      campaign_constants Let_def numeral_eq_Suc algebra_simps)

subsection \<open>A concrete campaign\<close>

definition demo_campaign :: campaign_definition where
  "demo_campaign =
     \<lparr>campaign_id = ''gauss_1'', start_utc_ns = 1000000, radio_a_id = ''radio_a'',
      radio_b_id = ''radio_b'', station_a_digest = demo_digest CHR ''a'',
      station_b_digest = demo_digest CHR ''b'', maximum_start_lateness_ns = 1000,
      qualification_receipt_digest = Some (demo_digest CHR ''c''), qualification = False,
      maximum_capture_invocations = 2, maximum_fresh_attempts_per_cell = 2,
      maximum_analysis_invocations = 3, maximum_observed_start_skew_ns = MAXIMUM_START_SKEW_NS,
      preflight_lead_ns = PREFLIGHT_LEAD_NS, analysis_after_each_capture = True\<rparr>"

lemma demo_campaign_valid: "valid_campaign demo_campaign"
  by code_simp

lemma demo_campaign_main: "\<not> qualification demo_campaign"
  by (simp add: demo_campaign_def)

lemma campaign_units_well_formed_witness:
  "\<exists>u v. build_campaign_unit demo_campaign 935 935 0 5 = Inr u
    \<and> build_campaign_unit demo_campaign 3 4 1 5 = Inr v
    \<and> batch_definition_post_init (unit_batch u) = Inr ()
    \<and> bd_batch_id (unit_batch u) \<noteq> bd_batch_id (unit_batch v)"
  using campaign_units_well_formed [OF demo_campaign_valid, of 935 935 0 5 3 4 1 5]
  by (auto simp: campaign_constants)

lemma balanced_schedule_witness:
  "count_where (\<lambda>i. campaign_cell_at (int i) = Inr \<lparr>sample_rate_hz = 2500000, duration_ms = 80\<rparr>)
     [0..<nat CAMPAIGN_SUCCESS_TARGET] = nat CAMPAIGN_ROUNDS"
  using balanced_schedule [OF demo_campaign_main] by (simp add: CAMPAIGN_CELLS_def)

lemma capacity_reserve_witness:
  "required_remaining_capacity_bytes demo_campaign
     \<lparr>cs_digest = demo_digest CHR ''a'', cs_records = [], cs_revision = 0\<rparr> 7
   = Inr (2 * CAMPAIGN_RAW_BYTES + 7)"
  using capacity_reserve [OF demo_campaign_main, of 7 0
      "\<lparr>cs_digest = demo_digest CHR ''a'', cs_records = [], cs_revision = 0\<rparr>"]
  by (simp add: campaign_constants successful_counts_def CAMPAIGN_CELLS_def numeral_eq_Suc)

end
