(* ===== verification/Journal.thy ===== *)
theory Journal
  imports Prelude
begin

section \<open>Durable journals and the ports around them\<close>

text \<open>
  The interface the campaign, the continuous collector and the canary share: one state per
  run, read with \<open>load\<close> and replaced with \<open>compare_and_swap\<close> under its revision
  (\<open>CampaignJournal\<close>, \<open>ContinuousCollectionJournal\<close> and \<open>SupercycleCanaryJournal\<close> under
  \<open>capture/\<close>), and the answers of the ports the coordinators call.
\<close>

text \<open>
  A port is code of another module: it returns a value, raises an exception the
  coordinator catches, or the process ends inside it (an exception outside \<open>Exception\<close>,
  or a crash), and only what was stored before survives.
\<close>

datatype 'a port = Returned 'a | Raised | Died

definition call_port :: "'e \<Rightarrow> 'a port \<Rightarrow> ('s, 'e exn, 'a option) io" where
  "call_port died p =
     (case p of Returned a \<Rightarrow> ret (Some a) | Raised \<Rightarrow> ret None | Died \<Rightarrow> lift (Inl (SystemExit died)))"

lemma triple_call_port:
  "(\<And>s a. P s \<Longrightarrow> p = Returned a \<Longrightarrow> Q (Some a) s) \<Longrightarrow> (\<And>s. P s \<Longrightarrow> p = Raised \<Longrightarrow> Q None s)
     \<Longrightarrow> (\<And>s. P s \<Longrightarrow> p = Died \<Longrightarrow> E (SystemExit e) s) \<Longrightarrow> triple P (call_port e p) Q E"
  by (cases p) (auto simp: triple_def call_port_def ret_def lift_def)

locale cas_journal =
  fixes load_op :: "('s, 'x, 'st) io"
    and cas_op :: "int \<Rightarrow> 'st \<Rightarrow> ('s, 'x, 'st) io"
    and current :: "'s \<Rightarrow> 'st option"
    and revision_of :: "'st \<Rightarrow> int"
    and same_run :: "'st \<Rightarrow> 'st \<Rightarrow> bool"
  assumes load_current: "current s = Some x \<Longrightarrow> load_op s = (Inr x, s)"
    and cas_stores: "current s = Some x \<Longrightarrow> revision_of x = r \<Longrightarrow> revision_of y = r + 1 \<Longrightarrow>
      same_run x y \<Longrightarrow> \<exists>t. cas_op r y s = (Inr y, t) \<and> current t = Some y"
    and cas_stale: "current s = Some x \<Longrightarrow> revision_of x \<noteq> r \<Longrightarrow> \<exists>e. cas_op r y s = (Inl e, s)"
    and cas_invalid: "current s = Some x \<Longrightarrow> revision_of y \<noteq> r + 1 \<or> \<not> same_run x y \<Longrightarrow>
      \<exists>e. cas_op r y s = (Inl e, s)"
begin

text \<open>
  What a coordinator proves of its code: from a stored state satisfying an invariant, every
  state it stores satisfies it, and neither reading nor storing ever raises.
\<close>

definition holding :: "('st \<Rightarrow> bool) \<Rightarrow> 's \<Rightarrow> bool" where
  "holding I s \<longleftrightarrow> (\<exists>x. current s = Some x \<and> I x)"

lemma triple_load:
  "(\<And>s x. P s \<Longrightarrow> current s = Some x \<Longrightarrow> Q x s) \<Longrightarrow> (\<And>s. P s \<Longrightarrow> \<exists>x. current s = Some x)
     \<Longrightarrow> triple P load_op Q E"
  using load_current by (fastforce simp: triple_def split: prod.splits sum.splits)

lemma triple_cas:
  assumes "\<And>s. P s \<Longrightarrow> current s = Some x" and "revision_of x = r" and "revision_of y = r + 1"
    and "same_run x y" and "\<And>s. current s = Some y \<Longrightarrow> Q y s"
  shows "triple P (cas_op r y) Q E"
  unfolding triple_def
proof (intro allI impI)
  fix s
  assume "P s"
  then obtain t where "cas_op r y s = (Inr y, t)" "current t = Some y"
    using cas_stores assms(1-4) by blast
  with assms(5) show "case cas_op r y s of (Inr a, t) \<Rightarrow> Q a t | (Inl e, t) \<Rightarrow> E e t" by simp
qed

end

end
