(* ===== verification/Campaign.thy ===== *)
theory Campaign
  imports Campaign_Plan Journal
begin

section \<open>The campaign coordinator\<close>

text \<open>
  The stateful half of \<open>capture/campaign.py\<close>: the in-memory journal and
  \<open>CampaignCoordinator\<close>, which advances at most one unit per call. The capture, analysis and
  capacity ports are code of other modules; one \<open>campaign_env\<close> holds what they answer
  during one call. A stored state survives an exception and the end of the process.
\<close>

datatype run_status =
    UNIT_COMPLETE | NOT_DUE | CAMPAIGN_COMPLETE | WINDOW_ENDED | MISSED_SLOT | CAPACITY_BLOCKED
  | CAPTURE_UNCERTAIN | CAPTURE_FAILED | RUN_ANALYSIS_FAILED

record run_result =
  run_status :: run_status
  run_state :: campaign_state
  run_unit :: "campaign_unit option"

definition run_result_of ::
  "run_status \<Rightarrow> campaign_state \<Rightarrow> campaign_unit option \<Rightarrow> run_result" where
  "run_result_of st s u = \<lparr>run_status = st, run_state = s, run_unit = u\<rparr>"

record campaign_env =
  ce_capture :: "campaign_unit \<Rightarrow> int \<Rightarrow> int \<Rightarrow> batch_snapshot port"
  ce_analyze :: "batch_snapshot \<Rightarrow> int \<Rightarrow> analysis_receipt port"
  ce_capacity :: "int option"

subsection \<open>The in-memory journal\<close>

type_synonym campaign_journal = "campaign_state option"
type_synonym ('s, 'a) campaign_io = "('s, campaign_error exn, 'a) io"

definition campaign_load :: "campaign_definition \<Rightarrow> (campaign_journal, campaign_state) campaign_io" where
  "campaign_load d j =
     (case j of
        None \<Rightarrow> (Inl (RuntimeError Not_Initialized), j)
      | Some s \<Rightarrow>
          if cs_digest s \<noteq> campaign_digest d then (Inl (RuntimeError Definition_Differs), j)
          else (Inr s, j))"

definition campaign_initialize ::
  "campaign_definition \<Rightarrow> (campaign_journal, campaign_state) campaign_io" where
  "campaign_initialize d j =
     campaign_load d
       (case j of
          None \<Rightarrow> Some \<lparr>cs_digest = campaign_digest d, cs_records = [], cs_revision = 0\<rparr>
        | Some s \<Rightarrow> Some s)"

definition campaign_cas ::
  "campaign_definition \<Rightarrow> int \<Rightarrow> campaign_state \<Rightarrow> (campaign_journal, campaign_state) campaign_io" where
  "campaign_cas d expected_revision replacement =
     bind_io (campaign_load d) (\<lambda>current j.
       if cs_revision current \<noteq> expected_revision then (Inl (RuntimeError Revision_Changed), j)
       else if cs_digest replacement \<noteq> cs_digest current
               \<or> cs_revision replacement \<noteq> cs_revision current + 1
       then (Inl (RuntimeError Bad_Replacement), j)
       else (Inr replacement, Some replacement))"

subsection \<open>The coordinator\<close>

definition campaign_coordinator_init ::
  "campaign_definition \<Rightarrow> int \<Rightarrow> qualification_receipt option \<Rightarrow> (campaign_journal, campaign_state) campaign_io" where
  "campaign_coordinator_init d margin receipt =
     bind_io (lift (raise_first
       [(\<not> analysis_after_each_capture d, ValueError Needs_Capture_Analysis),
        (margin < 0, ValueError Negative_Margin),
        (qualification d \<and> receipt \<noteq> None, ValueError Consumes_Receipt),
        (\<not> qualification d \<and>
           (case receipt of None \<Rightarrow> True
            | Some r \<Rightarrow> Some (qualification_receipt_digest_of r) \<noteq> qualification_receipt_digest d),
           ValueError Receipt_Differs)]))
       (\<lambda>_. campaign_initialize d)"

definition next_requested_start :: "campaign_definition \<Rightarrow> int \<Rightarrow> int" where
  "next_requested_start d slot =
     start_utc_ns d + slot * slot_period_numerator_ns d div slot_period_denominator d"

definition slot_deadline :: "campaign_definition \<Rightarrow> campaign_unit \<Rightarrow> int" where
  "slot_deadline d u =
     (if qualification d
      then requested_start u + slot_period_numerator_ns d div slot_period_denominator d
      else start_utc_ns d
        + (slot_index u + 1) * slot_period_numerator_ns d div slot_period_denominator d)"

definition has_capacity ::
  "campaign_definition \<Rightarrow> int \<Rightarrow> campaign_env \<Rightarrow> campaign_state \<Rightarrow> (campaign_error, bool) result" where
  "has_capacity d margin env s =
     (case ce_capacity env of
        None \<Rightarrow> Inl (RuntimeError Capacity_Raised)
      | Some available \<Rightarrow>
          if available < 0 then Inl (RuntimeError Bad_Capacity)
          else bindE (required_remaining_capacity_bytes d s margin) (\<lambda>needed.
                 Inr (needed \<le> available)))"

definition snapshot_accepted :: "campaign_unit \<Rightarrow> batch_snapshot \<Rightarrow> bool" where
  "snapshot_accepted u s \<longleftrightarrow> terminal s \<and> bs_definition s = unit_batch u"

definition receipt_accepted :: "batch_snapshot \<Rightarrow> analysis_receipt \<Rightarrow> bool" where
  "receipt_accepted s r \<longleftrightarrow>
     rc_batch_id r = bs_batch_id s
     \<and> receipt_recording_ids r = sort (map published_recording_id (successful_recordings s))"

definition store_state where
  "store_state cas replacement current =
     cas (cs_revision current) (replacement\<lparr>cs_revision := cs_revision current + 1\<rparr>)"

definition replace_last where
  "replace_last cas state replacement =
     (if cs_records state = [] \<or> ur_unit (last (cs_records state)) \<noteq> ur_unit replacement
      then lift (Inl (RuntimeError Other_Unit))
      else store_state cas (state\<lparr>cs_records := butlast (cs_records state) @ [replacement]\<rparr>) state)"

text \<open>What the answer of the analysis port makes of the invoked record.\<close>

definition settle_analysis ::
  "campaign_definition \<Rightarrow> unit_record \<Rightarrow> batch_snapshot \<Rightarrow> analysis_receipt option
     \<Rightarrow> unit_record \<times> run_status" where
  "settle_analysis d invoked snapshot answer =
     (case answer of
        None \<Rightarrow> (invoked\<lparr>phase := ANALYSIS_FAILED\<rparr>, RUN_ANALYSIS_FAILED)
      | Some receipt \<Rightarrow>
          if \<not> receipt_accepted snapshot receipt
          then (invoked\<lparr>phase := ANALYSIS_FAILED\<rparr>, RUN_ANALYSIS_FAILED)
          else if rc_completed_utc_ns receipt > slot_deadline d (ur_unit invoked)
          then (invoked\<lparr>phase := ANALYSIS_FAILED, ur_receipt := Some receipt\<rparr>, RUN_ANALYSIS_FAILED)
          else (invoked\<lparr>phase := COMPLETE, ur_receipt := Some receipt\<rparr>, UNIT_COMPLETE))"

definition run_analysis where
  "run_analysis cas d env state r now =
     (case ur_snapshot r of
        None \<Rightarrow> lift (Inl (RuntimeError No_Snapshot))
      | Some snapshot \<Rightarrow>
          if analysis_invocations r \<ge> maximum_analysis_invocations d
             \<or> now \<ge> slot_deadline d (ur_unit r)
          then ret (run_result_of RUN_ANALYSIS_FAILED state (Some (ur_unit r)))
          else
            let invoked = r\<lparr>analysis_invocations := analysis_invocations r + 1\<rparr> in
            bind_io (replace_last cas state invoked) (\<lambda>state.
            bind_io (call_port Process_Died (ce_analyze env snapshot (slot_deadline d (ur_unit r)))) (\<lambda>answer.
            bind_io (replace_last cas state (fst (settle_analysis d invoked snapshot answer))) (\<lambda>state.
              ret (run_result_of (snd (settle_analysis d invoked snapshot answer)) state
                (Some (ur_unit r)))))))"

definition capture_succeeded :: "campaign_definition \<Rightarrow> campaign_unit \<Rightarrow> batch_snapshot \<Rightarrow> bool" where
  "capture_succeeded d u s \<longleftrightarrow>
     \<not> (list_ex (\<lambda>a. ao_state a \<noteq> SUCCEEDED) (outcomes s)
        \<or> paired_analysis_eligibility s \<noteq> ELIGIBLE
        \<or> list_ex (\<lambda>a. ao_terminal a > slot_deadline d u) (outcomes s))"

definition run_capture where
  "run_capture cas d env state r =
     (let invoked = r\<lparr>capture_invocations := capture_invocations r + 1\<rparr>; u = ur_unit r in
      bind_io (replace_last cas state invoked) (\<lambda>state.
      bind_io (call_port Process_Died (ce_capture env u (requested_start u) (slot_deadline d u))) (\<lambda>answer.
        case answer of
          None \<Rightarrow> ret (run_result_of CAPTURE_UNCERTAIN state (Some u))
        | Some snapshot \<Rightarrow>
            if \<not> snapshot_accepted u snapshot
            then ret (run_result_of CAPTURE_UNCERTAIN state (Some u))
            else if \<not> capture_succeeded d u snapshot
            then bind_io (replace_last cas state
                (invoked\<lparr>phase := TERMINAL_FAILED, ur_snapshot := Some snapshot\<rparr>)) (\<lambda>state.
              ret (run_result_of CAPTURE_FAILED state (Some u)))
            else
              let captured = invoked\<lparr>phase := CAPTURED, ur_snapshot := Some snapshot\<rparr> in
              bind_io (replace_last cas state captured) (\<lambda>state.
                run_analysis cas d env state captured (requested_start u)))))"

text \<open>\<open>run_next\<close> below its loading of the state, split where the code plans a new unit.\<close>

definition plan_next where
  "plan_next cas d margin env state now =
     (let success = completed_successes state;
          record = last_opt (cs_records state);
          slot = (case record of None \<Rightarrow> 0 | Some r \<Rightarrow> slot_index (ur_unit r) + 1);
          failed = (case record of None \<Rightarrow> False | Some r \<Rightarrow> phase r = TERMINAL_FAILED);
          retry = (case record of Some r \<Rightarrow> if failed then retry_index (ur_unit r) + 1 else 0
                   | None \<Rightarrow> 0)
      in
      if failed \<and> (qualification d \<or> retry \<ge> maximum_fresh_attempts_per_cell d)
      then ret (run_result_of CAPTURE_FAILED state (map_option ur_unit record))
      else
        let requested = next_requested_start d slot in
        if \<not> qualification d \<and> requested \<ge> end_utc_ns d
        then ret (run_result_of WINDOW_ENDED state None)
        else if now > requested + maximum_start_lateness_ns d
        then ret (run_result_of MISSED_SLOT state None)
        else
          bind_io (lift (build_campaign_unit d success slot retry requested)) (\<lambda>u.
          bind_io (store_state cas (state\<lparr>cs_records := cs_records state @ [planned u]\<rparr>) state) (\<lambda>state.
            if now < requested_start u - preflight_lead_ns d
            then ret (run_result_of NOT_DUE state (Some u))
            else
              bind_io (lift (has_capacity d margin env state)) (\<lambda>enough.
                if \<not> enough then ret (run_result_of CAPACITY_BLOCKED state (Some u))
                else run_capture cas d env state (last (cs_records state))))))"

text \<open>\<open>run_next\<close>, after and with the loading of the state.\<close>

definition advance where
  "advance cas d margin env now state =
     (if completed_successes state \<ge> target_successes d
      then ret (run_result_of CAMPAIGN_COMPLETE state None)
      else
        case last_opt (cs_records state) of
          None \<Rightarrow> plan_next cas d margin env state now
        | Some r \<Rightarrow>
            if phase r = CAPTURED \<or> phase r = ANALYSIS_FAILED
            then run_analysis cas d env state r now
            else if phase r = PLANNED then
              (if capture_invocations r \<ge> maximum_capture_invocations d
               then ret (run_result_of CAPTURE_UNCERTAIN state (Some (ur_unit r)))
               else if now < requested_start (ur_unit r) - preflight_lead_ns d
               then ret (run_result_of NOT_DUE state (Some (ur_unit r)))
               else if now > requested_start (ur_unit r) + maximum_start_lateness_ns d
               then ret (run_result_of MISSED_SLOT state (Some (ur_unit r)))
               else
                 bind_io (lift (has_capacity d margin env state)) (\<lambda>enough.
                   if \<not> enough then ret (run_result_of CAPACITY_BLOCKED state (Some (ur_unit r)))
                   else run_capture cas d env state r))
            else plan_next cas d margin env state now)"

definition run_next where
  "run_next load cas d margin env now = bind_io load (advance cas d margin env now)"

subsection \<open>What the journal always holds\<close>

text \<open>
  A unit record on its own: the invocation counts are within their bounds, and each phase
  has exactly the evidence it claims. Then the history: unit \<open>i\<close> occupies slot \<open>i\<close>, its success
  index counts the completed units before it, and only the last unit may be unfinished.
\<close>

definition captured_ok :: "campaign_definition \<Rightarrow> campaign_unit \<Rightarrow> batch_snapshot \<Rightarrow> bool" where
  "captured_ok d u s \<longleftrightarrow> snapshot_accepted u s \<and> capture_succeeded d u s"

definition record_ok :: "campaign_definition \<Rightarrow> unit_record \<Rightarrow> bool" where
  "record_ok d r \<longleftrightarrow>
     0 \<le> capture_invocations r \<and> capture_invocations r \<le> maximum_capture_invocations d
     \<and> 0 \<le> analysis_invocations r \<and> analysis_invocations r \<le> maximum_analysis_invocations d
     \<and> (case phase r of
          PLANNED \<Rightarrow> ur_snapshot r = None \<and> ur_receipt r = None \<and> analysis_invocations r = 0
        | CAPTURED \<Rightarrow> 0 < capture_invocations r
            \<and> (\<exists>s. ur_snapshot r = Some s \<and> captured_ok d (ur_unit r) s)
        | ANALYSIS_FAILED \<Rightarrow> 0 < analysis_invocations r
            \<and> (\<exists>s. ur_snapshot r = Some s \<and> captured_ok d (ur_unit r) s)
        | TERMINAL_FAILED \<Rightarrow> 0 < capture_invocations r \<and> analysis_invocations r = 0
            \<and> ur_receipt r = None
            \<and> (\<exists>s. ur_snapshot r = Some s \<and> snapshot_accepted (ur_unit r) s
                  \<and> \<not> capture_succeeded d (ur_unit r) s)
        | COMPLETE \<Rightarrow> 0 < analysis_invocations r
            \<and> (\<exists>s rc. ur_snapshot r = Some s \<and> captured_ok d (ur_unit r) s
                  \<and> ur_receipt r = Some rc \<and> receipt_accepted s rc
                  \<and> rc_completed_utc_ns rc \<le> slot_deadline d (ur_unit r)))"

definition final_record :: "unit_record \<Rightarrow> bool" where
  "final_record r \<longleftrightarrow> phase r = COMPLETE \<or> phase r = TERMINAL_FAILED"

definition retry_after :: "unit_record list \<Rightarrow> int" where
  "retry_after rs =
     (case last_opt rs of
        None \<Rightarrow> 0
      | Some r \<Rightarrow> if phase r = TERMINAL_FAILED then retry_index (ur_unit r) + 1 else 0)"

definition done_before :: "unit_record list \<Rightarrow> int" where
  "done_before rs = int (count_where complete rs)"

definition slot_open :: "campaign_definition \<Rightarrow> unit_record list \<Rightarrow> bool" where
  "slot_open d rs \<longleftrightarrow>
     done_before rs < target_successes d
     \<and> 0 \<le> retry_after rs \<and> retry_after rs < maximum_fresh_attempts_per_cell d
     \<and> (if qualification d then \<forall>r \<in> set rs. phase r = COMPLETE
        else next_requested_start d (int (length rs)) < end_utc_ns d)
     \<and> (\<forall>r \<in> set rs. final_record r)"

definition scheduled_unit :: "campaign_definition \<Rightarrow> unit_record list \<Rightarrow> campaign_unit" where
  "scheduled_unit d rs =
     expected_unit d (done_before rs) (int (length rs)) (retry_after rs)
       (next_requested_start d (int (length rs)))"

definition next_ok :: "campaign_definition \<Rightarrow> unit_record list \<Rightarrow> unit_record \<Rightarrow> bool" where
  "next_ok d rs r \<longleftrightarrow> slot_open d rs \<and> ur_unit r = scheduled_unit d rs \<and> record_ok d r"

definition history :: "campaign_definition \<Rightarrow> unit_record list \<Rightarrow> bool" where
  "history d rs \<longleftrightarrow> (\<forall>i < length rs. next_ok d (take i rs) (rs ! i))"

definition campaign_inv :: "campaign_definition \<Rightarrow> campaign_state \<Rightarrow> bool" where
  "campaign_inv d s \<longleftrightarrow> cs_digest s = campaign_digest d \<and> 0 \<le> cs_revision s \<and> history d (cs_records s)"

lemma history_Nil [simp]: "history d []"
  by (simp add: history_def)

lemma history_snoc: "history d (rs @ [r]) \<longleftrightarrow> history d rs \<and> next_ok d rs r"
  by (auto simp: history_def nth_append less_Suc_eq)

lemma history_last:
  assumes "history d rs" and "rs \<noteq> []"
  shows "next_ok d (butlast rs) (last rs)" "history d (butlast rs)"
  using assms history_snoc [of d "butlast rs" "last rs"] by simp_all

lemma history_replace:
  assumes "history d rs" and "rs \<noteq> []" and "ur_unit r = ur_unit (last rs)" and "record_ok d r"
  shows "history d (butlast rs @ [r])"
  using history_last [OF assms(1,2)] assms(3,4) by (simp add: history_snoc next_ok_def)

lemma history_prefix: "history d (rs @ ss) \<Longrightarrow> history d rs"
  by (induction ss rule: rev_induct) (simp_all add: history_snoc flip: append_assoc)

lemma expected_unit_simps [simp]:
  "success_index (expected_unit d u s r t) = u" "slot_index (expected_unit d u s r t) = s"
  "retry_index (expected_unit d u s r t) = r" "requested_start (expected_unit d u s r t) = t"
  "unit_cell (expected_unit d u s r t) = CAMPAIGN_CELLS ! nat (u mod 9)"
  by (simp_all add: expected_unit_def Let_def)

lemma scheduled_unit_simps [simp]:
  "success_index (scheduled_unit d rs) = done_before rs"
  "slot_index (scheduled_unit d rs) = int (length rs)"
  "retry_index (scheduled_unit d rs) = retry_after rs"
  "requested_start (scheduled_unit d rs) = next_requested_start d (int (length rs))"
  by (simp_all add: scheduled_unit_def)

lemma history_cells:
  assumes "history d rs"
  shows "\<forall>r \<in> set rs. unit_cell (ur_unit r) \<in> set CAMPAIGN_CELLS"
proof -
  have "CAMPAIGN_CELLS ! nat (k mod 9) \<in> set CAMPAIGN_CELLS" for k
    using cells_valid(3) by (intro nth_mem) simp
  then show ?thesis
    using assms by (auto simp: in_set_conv_nth history_def next_ok_def scheduled_unit_def)
qed

lemma completed_history: "campaign_inv d s \<Longrightarrow> completed_successes s = done_before (cs_records s)"
  using completed_successes_eq [OF history_cells] by (auto simp: campaign_inv_def done_before_def)

lemma done_before_nonneg [simp]: "0 \<le> done_before rs"
  by (simp add: done_before_def)

lemma target_le: "target_successes d \<le> CAMPAIGN_SUCCESS_TARGET"
  by (simp add: target_successes_def campaign_constants)

lemma next_start_nonneg: "valid_campaign d \<Longrightarrow> 0 \<le> next_requested_start d (int n)"
  by (simp add: next_requested_start_def campaign_definition_post_init_def slot_period_numerator_ns_def
      slot_period_denominator_def)

subsection \<open>Every step keeps it\<close>

definition updated :: "campaign_state \<Rightarrow> unit_record \<Rightarrow> campaign_state" where
  "updated s r = s\<lparr>cs_records := butlast (cs_records s) @ [r], cs_revision := cs_revision s + 1\<rparr>"

lemma updated_simps [simp]:
  "cs_records (updated s r) = butlast (cs_records s) @ [r]"
  "cs_digest (updated s r) = cs_digest s"
  "cs_revision (updated s r) = cs_revision s + 1"
  by (simp_all add: updated_def)

lemma updated_inv:
  assumes "campaign_inv d s" and "cs_records s \<noteq> []" and "ur_unit r = ur_unit (last (cs_records s))"
    and "record_ok d r"
  shows "campaign_inv d (updated s r)"
  using assms history_replace by (simp add: campaign_inv_def)

text \<open>The exceptions a call may let out: bad capacity evidence, or the end of the process.\<close>

definition port_error :: "campaign_env \<Rightarrow> campaign_error exn \<Rightarrow> bool" where
  "port_error env e \<longleftrightarrow>
     e = SystemExit Process_Died
       \<and> ((\<exists>u start deadline. ce_capture env u start deadline = Died)
          \<or> (\<exists>s deadline. ce_analyze env s deadline = Died))
     \<or> e = RuntimeError Capacity_Raised \<and> ce_capacity env = None
     \<or> e = RuntimeError Bad_Capacity \<and> (\<exists>a. ce_capacity env = Some a \<and> a < 0)"

locale campaign_run =
  cas_journal load_op cas_op current cs_revision "\<lambda>x y. cs_digest y = cs_digest x"
  for load_op :: "('s, campaign_state) campaign_io"
    and cas_op :: "int \<Rightarrow> campaign_state \<Rightarrow> ('s, campaign_state) campaign_io"
    and current :: "'s \<Rightarrow> campaign_state option" +
  fixes d :: campaign_definition
    and margin :: int
begin

definition Q :: "run_result \<Rightarrow> 's \<Rightarrow> bool" where
  "Q r s \<longleftrightarrow> current s = Some (run_state r) \<and> campaign_inv d (run_state r)"

definition E :: "campaign_env \<Rightarrow> campaign_error exn \<Rightarrow> 's \<Rightarrow> bool" where
  "E env e s \<longleftrightarrow> port_error env e \<and> holding (campaign_inv d) s"

abbreviation at_state :: "campaign_state \<Rightarrow> 's \<Rightarrow> bool" where
  "at_state st s \<equiv> current s = Some st \<and> campaign_inv d st"

lemma triple_store:
  assumes "cs_digest y = cs_digest st" and "campaign_inv d (y\<lparr>cs_revision := cs_revision st + 1\<rparr>)"
  shows "triple (at_state st) (store_state cas_op y st)
    (\<lambda>z s. z = y\<lparr>cs_revision := cs_revision st + 1\<rparr>
        \<and> at_state (y\<lparr>cs_revision := cs_revision st + 1\<rparr>) s) (E env)"
  unfolding store_state_def
  by (rule triple_cas [where x = st]) (use assms in auto)

lemma triple_replace:
  assumes "cs_records st \<noteq> []" and "ur_unit r = ur_unit (last (cs_records st))" and "record_ok d r"
  shows "triple (at_state st) (replace_last cas_op st r) (\<lambda>z s. z = updated st r \<and> at_state (updated st r) s) (E env)"
proof (rule triple_pre)
  fix s
  assume s: "at_state st s"
  then have "campaign_inv d (updated st r)" using updated_inv assms by blast
  then have "triple (at_state st) (store_state cas_op
      (st\<lparr>cs_records := butlast (cs_records st) @ [r]\<rparr>) st) (\<lambda>z s. z = updated st r \<and> at_state (updated st r) s) (E env)"
    using triple_store [of "st\<lparr>cs_records := butlast (cs_records st) @ [r]\<rparr>" st]
    by (simp add: updated_def)
  then show "triple (\<lambda>t. t = s) (replace_last cas_op st r) (\<lambda>z s. z = updated st r \<and> at_state (updated st r) s) (E env)"
    using assms s by (auto simp: replace_last_def intro: triple_weaken)
qed

lemma triple_ret_result: "triple (at_state st) (ret (run_result_of status st u)) Q (E env)"
  by (rule triple_ret) (auto simp: Q_def run_result_of_def)

lemma triple_finish:
  assumes "cs_records st \<noteq> []" and "ur_unit r = ur_unit (last (cs_records st))" and "record_ok d r"
  shows "triple (at_state st) (bind_io (replace_last cas_op st r) (\<lambda>z. ret (run_result_of status z u))) Q (E env)"
  by (rule triple_bind [OF triple_replace [OF assms]]) 
    (auto simp: triple_def ret_def Q_def run_result_of_def)

lemma settle_ok:
  assumes "record_ok d r" and "analysis_invocations r < maximum_analysis_invocations d"
    and "ur_snapshot r = Some snap" and "captured_ok d (ur_unit r) snap"
  defines "ir \<equiv> r\<lparr>analysis_invocations := analysis_invocations r + 1\<rparr>"
  shows "record_ok d (fst (settle_analysis d ir snap answer))"
    "ur_unit (fst (settle_analysis d ir snap answer)) = ur_unit r"
  using assms
  by (auto simp: settle_analysis_def record_ok_def split: option.splits)

lemma triple_run_analysis:
  assumes "cs_records st \<noteq> []" and "r = last (cs_records st)" and "phase r \<in> {CAPTURED, ANALYSIS_FAILED}"
    and "record_ok d r"
  shows "triple (at_state st) (run_analysis cas_op d env st r now) Q (E env)"
proof -
  obtain snap where snap: "ur_snapshot r = Some snap" "captured_ok d (ur_unit r) snap"
    using assms(3,4) by (auto simp: record_ok_def)
  show ?thesis
  proof (cases "analysis_invocations r \<ge> maximum_analysis_invocations d \<or> now \<ge> slot_deadline d (ur_unit r)")
    case True
    with snap(1) show ?thesis
      using triple_ret_result by (auto simp: run_analysis_def)
  next
    case False
    define ir where "ir = r\<lparr>analysis_invocations := analysis_invocations r + 1\<rparr>"
    have ok: "record_ok d ir"
      using assms(3,4) False by (auto simp: ir_def record_ok_def)
    have unit: "ur_unit ir = ur_unit (last (cs_records st))"
      using assms(2) by (simp add: ir_def)
    have settle: "record_ok d (fst (settle_analysis d ir snap answer))"
      "ur_unit (fst (settle_analysis d ir snap answer)) = ur_unit (last (cs_records (updated st ir)))"
      for answer
      using settle_ok [OF assms(4) _ snap, of answer] False by (simp_all add: ir_def)
    show ?thesis
      unfolding run_analysis_def snap(1) option.case Let_def ir_def [symmetric] if_not_P [OF False]
    proof (rule triple_bind_eq [OF triple_replace [OF assms(1) unit ok]])
      show "triple (at_state (updated st ir))
        (bind_io (call_port Process_Died (ce_analyze env snap (slot_deadline d (ur_unit r)))) (\<lambda>answer.
         bind_io (replace_last cas_op (updated st ir) (fst (settle_analysis d ir snap answer)))
          (\<lambda>state. ret (run_result_of (snd (settle_analysis d ir snap answer)) state
              (Some (ur_unit r)))))) Q (E env)"
      proof (rule triple_bind [where R = "\<lambda>_. at_state (updated st ir)"])
        show "triple (at_state (updated st ir))
            (call_port Process_Died (ce_analyze env snap (slot_deadline d (ur_unit r))))
            (\<lambda>_. at_state (updated st ir)) (E env)"
          by (rule triple_call_port) (auto simp: E_def port_error_def holding_def)
      qed (intro triple_finish settle, simp)
    qed
  qed
qed

lemma triple_capacity:
  assumes margin: "0 \<le> margin" and "\<And>b. triple (at_state st) (f b) Q (E env)"
  shows "triple (at_state st) (bind_io (lift (has_capacity d margin env st)) f) Q (E env)"
proof (rule triple_bind [where R = "\<lambda>_. at_state st"])
  show "triple (at_state st) (lift (has_capacity d margin env st)) (\<lambda>_. at_state st) (E env)"
    using margin
    by (intro triple_lift)
      (auto simp: E_def port_error_def holding_def has_capacity_def bindE_eq_Inl Let_def
        required_remaining_capacity_bytes_def split: option.splits if_splits)
qed (use assms in auto)

lemma triple_run_capture:
  assumes "cs_records st \<noteq> []" and "r = last (cs_records st)" and "phase r = PLANNED"
    and "record_ok d r" and "capture_invocations r < maximum_capture_invocations d"
  shows "triple (at_state st) (run_capture cas_op d env st r) Q (E env)"
proof -
  define ir where "ir = r\<lparr>capture_invocations := capture_invocations r + 1\<rparr>"
  have ok: "record_ok d ir" "ur_unit ir = ur_unit (last (cs_records st))"
    using assms by (simp_all add: ir_def record_ok_def)
  let ?u = "ur_unit r"
  have unit: "?u = ur_unit (last (cs_records (updated st ir)))" by (simp add: ir_def)
  have failed: "record_ok d (ir\<lparr>phase := TERMINAL_FAILED, ur_snapshot := Some snap\<rparr>)"
    if "snapshot_accepted ?u snap" "\<not> capture_succeeded d ?u snap" for snap
    using assms(3-5) that by (simp add: ir_def record_ok_def)
  have captured: "record_ok d (ir\<lparr>phase := CAPTURED, ur_snapshot := Some snap\<rparr>)"
    if "snapshot_accepted ?u snap" "capture_succeeded d ?u snap" for snap
    using assms(3-5) that by (simp add: ir_def record_ok_def captured_ok_def)
  have analyze: "triple (at_state (updated st ir))
      (bind_io (replace_last cas_op (updated st ir) (ir\<lparr>phase := CAPTURED, ur_snapshot := Some snap\<rparr>))
        (\<lambda>state. run_analysis cas_op d env state (ir\<lparr>phase := CAPTURED, ur_snapshot := Some snap\<rparr>)
          (requested_start ?u))) Q (E env)"
    if "snapshot_accepted ?u snap" "capture_succeeded d ?u snap" for snap
    by (rule triple_bind_eq [OF triple_replace [OF _ _ captured [OF that]]], simp, simp,
        rule triple_run_analysis) (simp_all add: captured [OF that])
  have answer: "triple (at_state (updated st ir))
      (case answer of
          None \<Rightarrow> ret (run_result_of CAPTURE_UNCERTAIN (updated st ir) (Some ?u))
        | Some snapshot \<Rightarrow>
            if \<not> snapshot_accepted ?u snapshot
            then ret (run_result_of CAPTURE_UNCERTAIN (updated st ir) (Some ?u))
            else if \<not> capture_succeeded d ?u snapshot
            then bind_io (replace_last cas_op (updated st ir)
                (ir\<lparr>phase := TERMINAL_FAILED, ur_snapshot := Some snapshot\<rparr>)) (\<lambda>state.
              ret (run_result_of CAPTURE_FAILED state (Some ?u)))
            else
              let captured = ir\<lparr>phase := CAPTURED, ur_snapshot := Some snapshot\<rparr> in
              bind_io (replace_last cas_op (updated st ir) captured) (\<lambda>state.
                run_analysis cas_op d env state captured (requested_start ?u))) Q (E env)" for answer
    unfolding Let_def
    by (auto intro!: triple_option triple_if triple_ret_result triple_finish analyze failed)
  show ?thesis
    unfolding run_capture_def Let_def ir_def [symmetric]
  proof (rule triple_bind_eq [OF triple_replace [OF assms(1) ok(2,1)]],
      rule triple_bind [where R = "\<lambda>_. at_state (updated st ir)"])
    show "triple (at_state (updated st ir))
        (call_port Process_Died (ce_capture env ?u (requested_start ?u) (slot_deadline d ?u)))
        (\<lambda>_. at_state (updated st ir)) (E env)"
      by (rule triple_call_port) (auto simp: E_def port_error_def holding_def)
  qed (rule answer [unfolded Let_def])
qed

lemma planned_ok: "valid_campaign d \<Longrightarrow> record_ok d (planned (scheduled_unit d rs))"
  by (simp add: record_ok_def planned_def campaign_definition_post_init_def)

lemma history_last_facts:
  assumes "history d rs" and "last_opt rs = Some r"
  shows "rs \<noteq> []" "r = last rs" "record_ok d r" "slot_index (ur_unit r) + 1 = int (length rs)"
    "0 \<le> retry_index (ur_unit r)" "\<forall>q \<in> set (butlast rs). final_record q"
    "qualification d \<Longrightarrow> \<forall>q \<in> set (butlast rs). phase q = COMPLETE"
proof -
  obtain ys where rs: "rs = ys @ [r]" using last_opt_SomeE [OF assms(2)] .
  with assms(1) have "next_ok d ys r" by (simp add: history_snoc)
  then show "rs \<noteq> []" "r = last rs" "record_ok d r" "slot_index (ur_unit r) + 1 = int (length rs)"
    "0 \<le> retry_index (ur_unit r)" "\<forall>q \<in> set (butlast rs). final_record q"
    "qualification d \<Longrightarrow> \<forall>q \<in> set (butlast rs). phase q = COMPLETE"
    using rs by (simp_all add: next_ok_def slot_open_def)
qed

lemma butlast_all:
  assumes "rs \<noteq> []" and "\<forall>q \<in> set (butlast rs). P q" and "P (last rs)"
  shows "\<forall>q \<in> set rs. P q"
proof -
  have "set rs = set (butlast rs @ [last rs])" using assms(1) by simp
  then show ?thesis using assms(2,3) by (metis Un_iff empty_iff insert_iff list.set set_append)
qed

lemma triple_plan_next:
  assumes valid: "valid_campaign d" and margin: "0 \<le> margin"
    and "completed_successes st < target_successes d"
    and "\<forall>r. last_opt (cs_records st) = Some r \<longrightarrow> final_record r"
  shows "triple (at_state st) (plan_next cas_op d margin env st now) Q (E env)"
proof (rule triple_pre)
  fix s
  assume s: "at_state st s"
  let ?rs = "cs_records st"
  have h: "history d ?rs" using s by (simp add: campaign_inv_def)
  have comp: "completed_successes st = done_before ?rs" using completed_history s by blast
  define failed where "failed = (case last_opt ?rs of None \<Rightarrow> False | Some r \<Rightarrow> phase r = TERMINAL_FAILED)"
  have slot: "(case last_opt ?rs of None \<Rightarrow> 0 | Some r \<Rightarrow> slot_index (ur_unit r) + 1) = int (length ?rs)"
    using history_last_facts(4) [OF h] by (auto split: option.splits)
  have retry: "(case last_opt ?rs of None \<Rightarrow> 0 | Some r \<Rightarrow> if failed then retry_index (ur_unit r) + 1 else 0)
      = retry_after ?rs"
    by (simp add: retry_after_def failed_def split: option.splits)
  have retry0: "0 \<le> retry_after ?rs"
    using history_last_facts(5) [OF h] by (auto simp: retry_after_def split: option.splits)
  have main: "triple (at_state st) (plan_next cas_op d margin env st now) Q (E env)"
  proof (cases "failed \<and> (qualification d \<or> retry_after ?rs \<ge> maximum_fresh_attempts_per_cell d)")
    case True
    then show ?thesis
      unfolding plan_next_def Let_def slot retry failed_def [symmetric]
      by (simp add: triple_ret_result)
  next
    case go: False
    let ?req = "next_requested_start d (int (length ?rs))"
    have not_failed: "retry_after ?rs = 0" if "\<not> failed"
      using that by (auto simp: retry_after_def failed_def split: option.splits)
    have fresh: "retry_after ?rs < maximum_fresh_attempts_per_cell d"
      using go not_failed valid by (cases failed) (auto simp: campaign_definition_post_init_def)
    have finals: "\<forall>r \<in> set ?rs. final_record r"
    proof (cases "last_opt ?rs")
      case (Some r)
      note l = history_last_facts [OF h Some]
      show ?thesis using butlast_all [OF l(1,6)] assms(4) Some l(2) by blast
    qed simp
    have qual: "\<forall>r \<in> set ?rs. phase r = COMPLETE" if "qualification d"
    proof (cases "last_opt ?rs")
      case (Some r)
      note l = history_last_facts [OF h Some]
      have "\<not> failed" using go that by blast
      then have "phase (last ?rs) = COMPLETE"
        using assms(4) Some l(2) by (auto simp: failed_def final_record_def)
      then show ?thesis using butlast_all [OF l(1) l(7) [OF that]] by blast
    qed simp
    have build: "build_campaign_unit d (done_before ?rs) (int (length ?rs)) (retry_after ?rs) ?req
        = Inr (scheduled_unit d ?rs)"
      unfolding scheduled_unit_def
      using assms(3) comp target_le [of d] retry0 valid next_start_nonneg [OF valid]
      by (intro built_unit) auto
    have free: "slot_open d ?rs" if "\<not> (\<not> qualification d \<and> ?req \<ge> end_utc_ns d)"
      using assms(3) comp retry0 fresh finals qual that by (auto simp: slot_open_def)
    have plan: "triple (at_state st)
        (bind_io (store_state cas_op (st\<lparr>cs_records := ?rs @ [planned (scheduled_unit d ?rs)]\<rparr>) st) f) Q (E env)"
      if "\<not> (\<not> qualification d \<and> ?req \<ge> end_utc_ns d)"
        and "triple (at_state ((st\<lparr>cs_records := ?rs @ [planned (scheduled_unit d ?rs)]\<rparr>)\<lparr>cs_revision := cs_revision st + 1\<rparr>))
          (f ((st\<lparr>cs_records := ?rs @ [planned (scheduled_unit d ?rs)]\<rparr>)\<lparr>cs_revision := cs_revision st + 1\<rparr>)) Q (E env)"
      for f
      using that(2) s h free [OF that(1)] planned_ok [OF valid, of ?rs]
      by (intro triple_bind_eq [OF triple_store])
        (auto simp: campaign_inv_def history_snoc next_ok_def planned_def)
    have capture: "triple (at_state z) (run_capture cas_op d env z (last (cs_records z))) Q (E env)"
      if "cs_records z = ?rs @ [planned (scheduled_unit d ?rs)]" for z
      using that planned_ok [OF valid, of ?rs] valid
      by (intro triple_run_capture) (auto simp: planned_def campaign_definition_post_init_def)
    show ?thesis
      unfolding plan_next_def Let_def slot retry failed_def [symmetric] comp build bind_lift if_not_P [OF go]
      by (auto intro!: triple_if triple_ret_result plan triple_capacity [OF margin] capture)
  qed
  then show "triple (\<lambda>t. t = s) (plan_next cas_op d margin env st now) Q (E env)"
    using s by (auto elim: triple_weaken)
qed

lemma triple_advance:
  assumes "valid_campaign d" and "0 \<le> margin"
  shows "triple (at_state st) (advance cas_op d margin env now st) Q (E env)"
proof (rule triple_pre)
  fix s
  let ?rs = "cs_records st"
  assume s: "at_state st s"
  then have h: "history d ?rs" by (simp add: campaign_inv_def)
  have "triple (at_state st) (advance cas_op d margin env now st) Q (E env)"
  proof (cases "last_opt ?rs")
    case None
    then show ?thesis
      by (auto intro!: triple_ret_result triple_plan_next [OF assms] simp: advance_def)
  next
    case (Some r)
    note l = history_last_facts [OF h Some]
    have "phase r = COMPLETE \<or> phase r = TERMINAL_FAILED \<or> phase r = CAPTURED
        \<or> phase r = ANALYSIS_FAILED \<or> phase r = PLANNED" by (cases "phase r") auto
    then show ?thesis
      using Some l(1-3)
      by (auto intro!: triple_ret_result triple_plan_next [OF assms] triple_run_analysis triple_capacity [OF assms(2)]
          triple_run_capture simp: advance_def final_record_def)
  qed
  then show "triple (\<lambda>t. t = s) (advance cas_op d margin env now st) Q (E env)"
    using s by (auto elim: triple_weaken)
qed

lemma triple_run_next:
  assumes "valid_campaign d" and "0 \<le> margin"
  shows "triple (holding (campaign_inv d)) (run_next load_op cas_op d margin env now) Q (E env)"
  unfolding run_next_def
  by (rule triple_bind [OF triple_load [where Q = at_state] triple_advance [OF assms]]) (auto simp: holding_def)

end

subsection \<open>On the in-memory journal\<close>

definition campaign_current :: "campaign_definition \<Rightarrow> campaign_journal \<Rightarrow> campaign_state option" where
  "campaign_current d j =
     (case j of None \<Rightarrow> None | Some s \<Rightarrow> if cs_digest s = campaign_digest d then Some s else None)"

lemma campaign_current_Some:
  "campaign_current d j = Some s \<longleftrightarrow> j = Some s \<and> cs_digest s = campaign_digest d"
  by (auto simp: campaign_current_def split: option.splits)

interpretation campaign_mem:
  campaign_run "campaign_load d" "campaign_cas d" "campaign_current d" d margin for d margin
  by unfold_locales
    (auto simp: campaign_load_def campaign_cas_def bind_io_def campaign_current_Some)

text \<open>A coordinator at work: it is created, and called again and again, by any clock.\<close>

definition campaign_step ::
  "campaign_definition \<Rightarrow> int \<Rightarrow> int \<times> campaign_env \<Rightarrow> campaign_journal \<Rightarrow> campaign_journal" where
  "campaign_step d margin call j =
     snd (run_next (campaign_load d) (campaign_cas d) d margin (snd call) (fst call) j)"

definition campaign_calls ::
  "campaign_definition \<Rightarrow> int \<Rightarrow> (int \<times> campaign_env) list \<Rightarrow> campaign_journal" where
  "campaign_calls d margin calls =
     fold (campaign_step d margin) calls (snd (campaign_initialize d None))"

lemma campaign_initial:
  "snd (campaign_initialize d None)
     = Some \<lparr>cs_digest = campaign_digest d, cs_records = [], cs_revision = 0\<rparr>"
  by (simp add: campaign_initialize_def campaign_load_def)

lemma campaign_step_keeps:
  assumes "valid_campaign d" and "0 \<le> margin" and "\<exists>s. j = Some s \<and> campaign_inv d s"
  shows "\<exists>s. campaign_step d margin call j = Some s \<and> campaign_inv d s"
proof -
  have h: "campaign_mem.holding d (campaign_inv d) j"
    using assms(3) by (auto simp: campaign_mem.holding_def campaign_current_Some campaign_inv_def)
  obtain res t where r: "run_next (campaign_load d) (campaign_cas d) d margin (snd call) (fst call) j = (res, t)"
    by (cases "run_next (campaign_load d) (campaign_cas d) d margin (snd call) (fst call) j")
  note tr = campaign_mem.triple_run_next [OF assms(1,2), of "snd call" "fst call"]
  have "\<exists>s. t = Some s \<and> campaign_inv d s"
  proof (cases res)
    case (Inl e)
    with r tripleD_raise [OF tr h] have "campaign_mem.E d (snd call) e t" by simp
    then show ?thesis
      by (auto simp: campaign_mem.E_def campaign_mem.holding_def campaign_current_Some)
  next
    case (Inr a)
    with r tripleD [OF tr h] have "campaign_mem.Q d a t" by simp
    then show ?thesis by (auto simp: campaign_mem.Q_def campaign_current_Some)
  qed
  with r show ?thesis by (simp add: campaign_step_def)
qed

lemma campaign_calls_keep:
  assumes "valid_campaign d" and "0 \<le> margin"
  shows "\<exists>s. campaign_calls d margin calls = Some s \<and> campaign_inv d s"
proof -
  have "\<exists>s. fold (campaign_step d margin) calls j = Some s \<and> campaign_inv d s"
    if "\<exists>s. j = Some s \<and> campaign_inv d s" for j
    using that
  proof (induction calls arbitrary: j)
    case (Cons c cs)
    then show ?case using campaign_step_keeps [OF assms] by simp
  qed simp
  then show ?thesis
    unfolding campaign_calls_def campaign_initial by (simp add: campaign_inv_def)
qed

end
