(* ===== verification/Campaign_Claims.thy ===== *)
theory Campaign_Claims
  imports Campaign
begin

section \<open>What a campaign guarantees\<close>

text \<open>
  Consequences of the journal invariant of \<open>Campaign\<close> for the in-memory journal: balanced
  counts, the slot grid and the resource bounds, the exceptions of a call, completion when
  the ports answer in time, and the qualification receipt.
\<close>

subsection \<open>Counts\<close>

lemma div9_step:
  assumes "k < 9"
  shows "(Suc n + 8 - k) div 9 = (n + 8 - k) div 9 + (if n mod 9 = k then 1 else (0 :: nat))"
proof -
  define q r where "q = n div 9" and "r = n mod 9"
  have n: "n = q * 9 + r" "r < 9" by (simp_all add: q_def r_def)
  have e: "Suc n + 8 - k = (r + 9 - k) + q * 9" "n + 8 - k = (r + 8 - k) + q * 9"
    using n assms by arith+
  have "(r + 9 - k) div 9 = (if k \<le> r then 1 else 0)" "(r + 8 - k) div 9 = (if k < r then 1 else 0)"
    using n(2) assms by (auto intro!: div_nat_eqI)
  then show ?thesis
    unfolding e div_mult_self1 [OF zero_neq_numeral [symmetric]] r_def [symmetric] by simp
qed

lemma history_counts:
  assumes "history d rs" and "k < 9"
  shows "count_where (complete_in (CAMPAIGN_CELLS ! k)) rs = (count_where complete rs + 8 - k) div 9"
  using assms(1)
proof (induction rs rule: rev_induct)
  case Nil
  then show ?case using assms(2) by simp
next
  case (snoc r rs)
  let ?n = "count_where complete rs"
  have h: "history d rs" "ur_unit r = scheduled_unit d rs"
    using snoc.prems by (simp_all add: history_snoc next_ok_def)
  have "unit_cell (ur_unit r) = CAMPAIGN_CELLS ! (?n mod 9)"
    using h(2) by (simp add: scheduled_unit_def done_before_def nat_mod_distrib)
  moreover have "CAMPAIGN_CELLS ! (?n mod 9) = CAMPAIGN_CELLS ! k \<longleftrightarrow> ?n mod 9 = k"
    using nth_eq_iff_index_eq [OF cells_valid(2)] assms(2) cells_valid(3) by simp
  ultimately have "complete_in (CAMPAIGN_CELLS ! k) r \<longleftrightarrow> complete r \<and> ?n mod 9 = k"
    by (auto simp: complete_in_def complete_def)
  with snoc.IH [OF h(1)] div9_step [OF assms(2), of ?n] show ?case by auto
qed

lemma inv_counts:
  assumes "campaign_inv d s"
  shows "successful_counts s = map (\<lambda>k. (completed_successes s + 8 - int k) div 9) [0..<9]"
proof -
  let ?rs = "cs_records s"
  have h: "history d ?rs" using assms by (simp add: campaign_inv_def)
  have c: "successful_counts s = map (\<lambda>c. int (count_where (complete_in c) ?rs)) CAMPAIGN_CELLS"
    by (rule successful_counts_eq [OF history_cells [OF h]])
  have n: "completed_successes s = int (count_where complete ?rs)"
    by (rule completed_successes_eq [OF history_cells [OF h]])
  have e: "int (count_where (complete_in (CAMPAIGN_CELLS ! k)) ?rs)
      = (int (count_where complete ?rs) + 8 - int k) div 9" if "k < 9" for k
    using history_counts [OF h that] that by (simp add: zdiv_int of_nat_diff)
  show ?thesis
    unfolding c n by (rule nth_equalityI) (simp_all add: cells_valid(3) e)
qed

lemma inv_rounds:
  assumes "campaign_inv d s"
  shows "accepted_balanced_rounds s = completed_successes s div 9"
proof -
  let ?c = "completed_successes s"
  have "Min (set (successful_counts s)) = ?c div 9"
  proof (rule Min_eqI)
    show "?c div 9 \<in> set (successful_counts s)"
      unfolding inv_counts [OF assms] by (auto intro!: image_eqI [of _ _ 8])
    show "?c div 9 \<le> y" if "y \<in> set (successful_counts s)" for y
      using that unfolding inv_counts [OF assms] by (auto intro!: zdiv_mono1)
  qed simp
  then show ?thesis by (simp add: accepted_balanced_rounds_def)
qed

subsection \<open>Slots\<close>

lemma slot_start_lt:
  "next_requested_start d (int n) < next_requested_start d (int n + 1)"
  by (cases "qualification d")
    (simp_all add: next_requested_start_def slot_period_numerator_ns_def slot_period_denominator_def)

lemma slot_in_window:
  assumes "\<not> qualification d"
  shows "next_requested_start d (int n) < end_utc_ns d \<longleftrightarrow> n < 936"
  using assms
  by (auto simp: next_requested_start_def slot_period_numerator_ns_def slot_period_denominator_def
      end_utc_ns_def CAMPAIGN_WINDOW_NS_def)

lemma all_complete_count: "\<forall>r \<in> set rs. phase r = COMPLETE \<Longrightarrow> count_where complete rs = length rs"
  by (induction rs) (auto simp: complete_def)

lemma history_length:
  assumes "history d rs"
  shows "int (length rs) \<le> target_successes d"
proof (cases rs rule: rev_cases)
  case Nil
  then show ?thesis by (simp add: target_successes_def campaign_constants)
next
  case (snoc ys r)
  then have o: "slot_open d ys" using assms by (simp add: history_snoc next_ok_def)
  show ?thesis
  proof (cases "qualification d")
    case True
    with o snoc show ?thesis
      using all_complete_count [of ys] by (simp add: slot_open_def done_before_def)
  next
    case False
    with o have "length ys < 936" using slot_in_window [OF False] by (simp add: slot_open_def)
    with False snoc show ?thesis by (simp add: target_successes_def campaign_constants)
  qed
qed

lemma history_deadline:
  assumes "history d rs" and "i < length rs"
  shows "requested_start (ur_unit (rs ! i)) = next_requested_start d (int i)"
    "slot_index (ur_unit (rs ! i)) = int i"
    "next_requested_start d (int i) < slot_deadline d (ur_unit (rs ! i))"
    "slot_deadline d (ur_unit (rs ! i)) \<le> next_requested_start d (int i + 1)"
    "\<not> qualification d \<Longrightarrow> slot_deadline d (ur_unit (rs ! i)) \<le> end_utc_ns d"
proof -
  have u: "ur_unit (rs ! i) = scheduled_unit d (take i rs)" and o: "slot_open d (take i rs)"
    using assms by (simp_all add: history_def next_ok_def)
  have l: "length (take i rs) = i" using assms(2) by simp
  show a: "requested_start (ur_unit (rs ! i)) = next_requested_start d (int i)"
    and b: "slot_index (ur_unit (rs ! i)) = int i" using u l by simp_all
  show "next_requested_start d (int i) < slot_deadline d (ur_unit (rs ! i))"
    "slot_deadline d (ur_unit (rs ! i)) \<le> next_requested_start d (int i + 1)"
    using slot_start_lt [of d i]
    by (cases "qualification d"; simp add: slot_deadline_def a b next_requested_start_def
          slot_period_numerator_ns_def slot_period_denominator_def)+
  show "slot_deadline d (ur_unit (rs ! i)) \<le> end_utc_ns d" if "\<not> qualification d"
  proof -
    have "i < 936" using o l that slot_in_window [OF that, of i] by (simp add: slot_open_def)
    then have "(int i + 1) * 400000000000 div 13 \<le> 936 * 400000000000 div 13"
      by (intro zdiv_mono1) auto
    with that show ?thesis
      by (simp add: slot_deadline_def b slot_period_numerator_ns_def slot_period_denominator_def
          end_utc_ns_def CAMPAIGN_WINDOW_NS_def)
  qed
qed

lemma count_disjoint:
  "(\<And>x. \<not> (p x \<and> q x)) \<Longrightarrow> count_where p xs + count_where q xs \<le> length xs"
  by (induction xs) (auto simp: not_less_eq_eq)

lemma history_record_ok:
  assumes "history d rs" and "r \<in> set rs"
  shows "record_ok d r"
  using assms by (auto simp: history_def next_ok_def in_set_conv_nth)

subsection \<open>Reachable states\<close>

lemma reachable_state:
  assumes "valid_campaign d" and "0 \<le> margin"
  obtains s where "campaign_calls d margin calls = Some s" and "campaign_inv d s"
  using campaign_calls_keep [OF assms, of calls] by blast

text \<open>
  C4. Whatever the ports answer and whenever the coordinator is called, its journal always holds
  a well-formed history: unit \<open>i\<close> is the deterministic unit of slot \<open>i\<close> whose success index
  counts the completed units before it and whose retry index follows the failed one, every
  record has exactly the evidence its phase claims, the invocation counts respect their
  bounds and only the last unit may be unfinished.
\<close>

theorem campaign_journal_invariant:
  assumes "valid_campaign d" and "0 \<le> margin"
  shows "\<exists>s. campaign_calls d margin calls = Some s \<and> campaign_inv d s"
  by (rule reachable_state [OF assms]) blast

text \<open>
  The completed units of every reachable state are balanced over the nine cells: cell
  \<open>k\<close> has \<open>(n + 8 - k) div 9\<close> of the \<open>n\<close> successes, so any two cells differ by at most one and
  the accepted balanced rounds are \<open>n div 9\<close>.
\<close>

lemma campaign_counts_balanced:
  assumes "valid_campaign d" and "0 \<le> margin" and "campaign_calls d margin calls = Some s"
  shows "successful_counts s = map (\<lambda>k. (completed_successes s + 8 - int k) div 9) [0..<9]
    \<and> accepted_balanced_rounds s = completed_successes s div 9"
  using reachable_state [OF assms(1,2), of calls] assms(3) inv_counts inv_rounds
  by (metis option.inject)

text \<open>
  C33. No reachable state uses more than its budget: at most one unit per slot of the grid
  (936 for a main campaign, nine for a qualification), so completed and failed units together
  never exceed the target and one failed slot makes it unreachable; and at most the configured number of
  captures and analyses per unit. The slots do not overlap and those of a main campaign end
  inside its window.
\<close>

theorem campaign_within_bounds:
  assumes "valid_campaign d" and "0 \<le> margin" and "campaign_calls d margin calls = Some s"
  shows "int (length (cs_records s)) \<le> target_successes d
    \<and> completed_successes s + int (count_where (\<lambda>r. phase r = TERMINAL_FAILED) (cs_records s)) \<le> target_successes d
    \<and> sum_list (map capture_invocations (cs_records s)) \<le> maximum_capture_invocations d * target_successes d
    \<and> sum_list (map analysis_invocations (cs_records s)) \<le> maximum_analysis_invocations d * target_successes d
    \<and> (\<forall>i < length (cs_records s). \<forall>j < i.
         slot_deadline d (ur_unit (cs_records s ! j)) \<le> requested_start (ur_unit (cs_records s ! i)))
    \<and> (\<not> qualification d \<longrightarrow>
         (\<forall>r \<in> set (cs_records s). requested_start (ur_unit r) < slot_deadline d (ur_unit r)
            \<and> slot_deadline d (ur_unit r) \<le> end_utc_ns d))"
proof -
  let ?rs = "cs_records s"
  have inv: "campaign_inv d s" using reachable_state [OF assms(1,2), of calls] assms(3) by auto
  then have h: "history d ?rs" by (simp add: campaign_inv_def)
  have len: "int (length ?rs) \<le> target_successes d" by (rule history_length [OF h])
  have pos: "0 \<le> maximum_capture_invocations d" "0 \<le> maximum_analysis_invocations d"
    using assms(1) by (auto simp: campaign_definition_post_init_def)
  have disj: "count_where complete ?rs + count_where (\<lambda>r. phase r = TERMINAL_FAILED) ?rs \<le> length ?rs"
    by (rule count_disjoint) (simp add: complete_def)
  have caps: "sum_list (map capture_invocations ?rs) \<le> maximum_capture_invocations d * int (length ?rs)"
    "sum_list (map analysis_invocations ?rs) \<le> maximum_analysis_invocations d * int (length ?rs)"
    using history_record_ok [OF h] by (auto intro!: sum_list_bound simp: record_ok_def)
  have budget: "b * int (length ?rs) \<le> b * target_successes d" if "0 \<le> b" for b
    using len that by (intro mult_left_mono)
  have mono: "next_requested_start d (int j + 1) \<le> next_requested_start d (int i)" if "j < i" for i j
    using that by (cases "qualification d")
      (auto simp: next_requested_start_def slot_period_numerator_ns_def slot_period_denominator_def
        intro!: zdiv_mono1)
  have apart: "slot_deadline d (ur_unit (?rs ! j)) \<le> requested_start (ur_unit (?rs ! i))"
    if "i < length ?rs" "j < i" for i j
    using history_deadline(4) [OF h, of j] history_deadline(1) [OF h that(1)] mono [OF that(2)] that by simp
  have inside: "requested_start (ur_unit r) < slot_deadline d (ur_unit r)
      \<and> slot_deadline d (ur_unit r) \<le> end_utc_ns d" if "\<not> qualification d" "r \<in> set ?rs" for r
    using that history_deadline [OF h] by (auto simp: in_set_conv_nth)
  show ?thesis
    using len disj caps budget [OF pos(1)] budget [OF pos(2)] apart inside completed_history [OF inv]
    by (auto simp: done_before_def)
qed

lemma holding_mem: "campaign_mem.holding d (campaign_inv d) (Some s) \<longleftrightarrow> campaign_inv d s"
  by (auto simp: campaign_mem.holding_def campaign_current_Some campaign_inv_def)

text \<open>
  C34. A call to \<open>run_next\<close> on a journal it has kept never raises on its own account: it
  returns the state it stored, or the capacity port or the end of the process inside a port
  interrupted it, and in every case the journal still satisfies the invariant.
\<close>

theorem run_next_errors:
  assumes "valid_campaign d" and "0 \<le> margin" and "campaign_calls d margin calls = Some s"
    and "run_next (campaign_load d) (campaign_cas d) d margin env now (Some s) = (res, j)"
  shows "\<exists>t. j = Some t \<and> campaign_inv d t
    \<and> (case res of Inr r \<Rightarrow> run_state r = t | Inl e \<Rightarrow> port_error env e)"
proof -
  have h: "campaign_mem.holding d (campaign_inv d) (Some s)"
    using reachable_state [OF assms(1,2), of calls] assms(3) by (auto simp: holding_mem)
  note tr = campaign_mem.triple_run_next [OF assms(1,2), of env now]
  show ?thesis
  proof (cases res)
    case (Inl e)
    with tripleD_raise [OF tr h] assms(4) have "campaign_mem.E d env e j" by simp
    with Inl show ?thesis
      by (auto simp: campaign_mem.E_def campaign_mem.holding_def campaign_current_Some)
  next
    case (Inr a)
    with tripleD [OF tr h] assms(4) have "campaign_mem.Q d a j" by simp
    with Inr show ?thesis by (auto simp: campaign_mem.Q_def campaign_current_Some)
  qed
qed

subsection \<open>Completion\<close>

lemma store_mem:
  assumes "cs_digest st = campaign_digest d" and "cs_digest y = cs_digest st"
  shows "store_state (campaign_cas d) y st (Some st)
    = (Inr (y\<lparr>cs_revision := cs_revision st + 1\<rparr>), Some (y\<lparr>cs_revision := cs_revision st + 1\<rparr>))"
  using assms by (simp add: store_state_def campaign_cas_def campaign_load_def bind_io_def)

lemma replace_mem:
  assumes "cs_digest st = campaign_digest d" and "cs_records st \<noteq> []"
    and "ur_unit r = ur_unit (last (cs_records st))"
  shows "replace_last (campaign_cas d) st r (Some st) = (Inr (updated st r), Some (updated st r))"
  using assms store_mem [OF assms(1), of "st\<lparr>cs_records := butlast (cs_records st) @ [r]\<rparr>"]
  by (simp add: replace_last_def updated_def)

definition fresh_state :: "campaign_definition \<Rightarrow> campaign_state" where
  "fresh_state d = \<lparr>cs_digest = campaign_digest d, cs_records = [], cs_revision = 0\<rparr>"

text \<open>Ports that do their work for the unit of slot \<open>n\<close> when it is due.\<close>

definition answers_in_time :: "campaign_definition \<Rightarrow> int \<Rightarrow> campaign_unit \<Rightarrow> campaign_env \<Rightarrow> bool" where
  "answers_in_time d margin u env \<longleftrightarrow>
     (\<exists>snap rc. ce_capture env u (requested_start u) (slot_deadline d u) = Returned snap
        \<and> captured_ok d u snap
        \<and> ce_analyze env snap (slot_deadline d u) = Returned rc
        \<and> receipt_accepted snap rc \<and> rc_completed_utc_ns rc \<le> slot_deadline d u)
     \<and> (\<exists>available \<ge> 0. ce_capacity env = Some available
        \<and> (case required_remaining_capacity_bytes d (fresh_state d) margin of
             Inr needed \<Rightarrow> needed \<le> available | Inl _ \<Rightarrow> False))"

definition on_time :: "campaign_definition \<Rightarrow> campaign_unit \<Rightarrow> int \<Rightarrow> bool" where
  "on_time d u now \<longleftrightarrow>
     requested_start u - preflight_lead_ns d \<le> now \<and> now \<le> requested_start u + maximum_start_lateness_ns d"

definition grid_unit :: "campaign_definition \<Rightarrow> nat \<Rightarrow> campaign_unit" where
  "grid_unit d n = expected_unit d (int n) (int n) 0 (next_requested_start d (int n))"

lemma analysis_completes:
  assumes "cs_digest st = campaign_digest d" and "cs_records st \<noteq> []" and "r = last (cs_records st)"
    and "ur_snapshot r = Some snap" and "analysis_invocations r < maximum_analysis_invocations d"
    and "now < slot_deadline d (ur_unit r)"
    and "ce_analyze env snap (slot_deadline d (ur_unit r)) = Returned rc" and "receipt_accepted snap rc"
    and "rc_completed_utc_ns rc \<le> slot_deadline d (ur_unit r)"
  shows "\<exists>t q. run_analysis (campaign_cas d) d env st r now (Some st)
      = (Inr (run_result_of UNIT_COMPLETE t (Some (ur_unit r))), Some t)
    \<and> cs_records t = butlast (cs_records st) @ [q] \<and> phase q = COMPLETE"
proof -
  define ir where "ir = r\<lparr>analysis_invocations := analysis_invocations r + 1\<rparr>"
  let ?fin = "ir\<lparr>phase := COMPLETE, ur_receipt := Some rc\<rparr>"
  have settled: "settle_analysis d ir snap (Some rc) = (?fin, UNIT_COMPLETE)"
    using assms(8,9) by (simp add: settle_analysis_def ir_def)
  have 1: "replace_last (campaign_cas d) st ir (Some st) = (Inr (updated st ir), Some (updated st ir))"
    using assms(1-3) by (intro replace_mem) (simp_all add: ir_def)
  have 2: "replace_last (campaign_cas d) (updated st ir) ?fin (Some (updated st ir))
      = (Inr (updated (updated st ir) ?fin), Some (updated (updated st ir) ?fin))"
    using assms(1-3) by (intro replace_mem) (simp_all add: ir_def)
  show ?thesis
    unfolding run_analysis_def assms(4) option.case Let_def ir_def [symmetric]
    using assms(5,6)
    by (simp add: bind_io_def call_port_def ret_def 1 2 assms(7) settled)
qed

lemma capture_completes:
  assumes "cs_digest st = campaign_digest d" and "cs_records st \<noteq> []" and "r = last (cs_records st)"
    and "analysis_invocations r < maximum_analysis_invocations d"
    and "requested_start (ur_unit r) < slot_deadline d (ur_unit r)"
    and "answers_in_time d margin (ur_unit r) env"
  shows "\<exists>t q. run_capture (campaign_cas d) d env st r (Some st)
      = (Inr (run_result_of UNIT_COMPLETE t (Some (ur_unit r))), Some t)
    \<and> cs_records t = butlast (cs_records st) @ [q] \<and> phase q = COMPLETE"
proof -
  let ?u = "ur_unit r"
  obtain snap rc where snap: "ce_capture env ?u (requested_start ?u) (slot_deadline d ?u) = Returned snap"
      "snapshot_accepted ?u snap" "capture_succeeded d ?u snap"
    and rc: "ce_analyze env snap (slot_deadline d ?u) = Returned rc" "receipt_accepted snap rc"
      "rc_completed_utc_ns rc \<le> slot_deadline d ?u"
    using assms(6) by (auto simp: answers_in_time_def captured_ok_def)
  define ir where "ir = r\<lparr>capture_invocations := capture_invocations r + 1\<rparr>"
  let ?cap = "ir\<lparr>phase := CAPTURED, ur_snapshot := Some snap\<rparr>"
  have 1: "replace_last (campaign_cas d) st ir (Some st) = (Inr (updated st ir), Some (updated st ir))"
    using assms(1-3) by (intro replace_mem) (simp_all add: ir_def)
  have 2: "replace_last (campaign_cas d) (updated st ir) ?cap (Some (updated st ir))
      = (Inr (updated (updated st ir) ?cap), Some (updated (updated st ir) ?cap))"
    using assms(1-3) by (intro replace_mem) (simp_all add: ir_def)
  have 3: "\<exists>t q. run_analysis (campaign_cas d) d env (updated (updated st ir) ?cap) ?cap (requested_start ?u)
        (Some (updated (updated st ir) ?cap))
      = (Inr (run_result_of UNIT_COMPLETE t (Some (ur_unit ?cap))), Some t)
    \<and> cs_records t = butlast (cs_records (updated (updated st ir) ?cap)) @ [q] \<and> phase q = COMPLETE"
    using assms(1,4,5) rc by (intro analysis_completes) (simp_all add: ir_def)
  then show ?thesis
    unfolding run_capture_def Let_def ir_def [symmetric]
    by (simp add: bind_io_def call_port_def ret_def 1 2 snap) (simp add: ir_def)
qed

lemma counts_nonneg:
  assumes "campaign_inv d s"
  shows "\<forall>c \<in> set (successful_counts s). 0 \<le> c" "length (successful_counts s) = 9"
proof -
  have h: "history d (cs_records s)" using assms by (simp add: campaign_inv_def)
  note eq = successful_counts_eq [OF history_cells [OF h]]
  show "\<forall>c \<in> set (successful_counts s). 0 \<le> c" "length (successful_counts s) = 9"
    unfolding eq by (simp_all add: cells_valid(3))
qed

lemma reserve_mono:
  assumes "length ds = length cs" and "\<forall>c \<in> set cs. 0 \<le> c"
    and "\<forall>x \<in> set ds. 0 \<le> cell_sample_count x"
  shows "sum_list (map2 (\<lambda>cell completed. max 0 (t - completed) * cell_sample_count cell * 128) ds cs)
    \<le> sum_list (map2 (\<lambda>cell completed. max 0 (t - completed) * cell_sample_count cell * 128) ds
        (replicate (length ds) 0))"
  using assms
proof (induction ds cs rule: list_induct2)
  case (Cons x xs y ys)
  have "max 0 (t - y) * cell_sample_count x * 128 \<le> max 0 (t - 0) * cell_sample_count x * 128"
    using Cons.prems by (intro mult_right_mono) auto
  with Cons show ?case by simp
qed simp

lemma required_le_initial:
  assumes "campaign_inv d s" and "0 \<le> margin"
    and "required_remaining_capacity_bytes d (fresh_state d) margin = Inr n"
  shows "\<exists>k \<le> n. required_remaining_capacity_bytes d s margin = Inr k"
proof -
  define t where "t = (if qualification d then 1 else CAMPAIGN_ROUNDS)"
  have pos: "\<forall>x \<in> set CAMPAIGN_CELLS. 0 \<le> cell_sample_count x" by code_simp
  have len: "length CAMPAIGN_CELLS = length (successful_counts s)"
    using counts_nonneg(2) [OF assms(1)] cells_valid(3) by simp
  have zero: "successful_counts (fresh_state d) = replicate (length CAMPAIGN_CELLS) 0"
    by (simp add: successful_counts_def fresh_state_def)
  show ?thesis
    using reserve_mono [OF len counts_nonneg(1) [OF assms(1)] pos, of t] assms(2,3)
    by (simp add: required_remaining_capacity_bytes_def Let_def t_def [symmetric] zero)
qed

lemma initial_capacity:
  assumes "campaign_inv d s" and "answers_in_time d margin u env" and "0 \<le> margin"
  shows "has_capacity d margin env s = Inr True"
proof -
  obtain available n where "ce_capacity env = Some available" "0 \<le> available"
      "required_remaining_capacity_bytes d (fresh_state d) margin = Inr n" "n \<le> available"
    using assms(2) by (cases "required_remaining_capacity_bytes d (fresh_state d) margin")
      (auto simp: answers_in_time_def)
  then show ?thesis
    using required_le_initial [OF assms(1,3)] by (auto simp: has_capacity_def)
qed

text \<open>One due call on a journal whose units are all complete adds a complete unit.\<close>

lemma slot_completes:
  assumes "valid_campaign d" and "0 \<le> margin" and "campaign_inv d s"
    and "\<forall>r \<in> set (cs_records s). phase r = COMPLETE" and "int (length (cs_records s)) < target_successes d"
    and "on_time d (grid_unit d (length (cs_records s))) now"
    and "answers_in_time d margin (grid_unit d (length (cs_records s))) env"
  shows "\<exists>t q. run_next (campaign_load d) (campaign_cas d) d margin env now (Some s)
      = (Inr (run_result_of UNIT_COMPLETE t (Some (grid_unit d (length (cs_records s))))), Some t)
    \<and> cs_records t = cs_records s @ [q] \<and> phase q = COMPLETE"
proof -
  let ?n = "length (cs_records s)" and ?rs = "cs_records s"
  let ?u = "grid_unit d ?n"
  have h: "history d ?rs" and dig: "cs_digest s = campaign_digest d"
    using assms(3) by (simp_all add: campaign_inv_def)
  have n: "done_before ?rs = int ?n" "completed_successes s = int ?n"
    using all_complete_count [OF assms(4)] completed_history [OF assms(3)] by (simp_all add: done_before_def)
  have ok: "retry_after ?rs = 0" using assms(4) last_opt_SomeE
    by (fastforce simp: retry_after_def split: option.splits)
  have u: "scheduled_unit d ?rs = ?u" by (simp add: scheduled_unit_def grid_unit_def n ok)
  let ?new = "s\<lparr>cs_records := ?rs @ [planned ?u], cs_revision := cs_revision s + 1\<rparr>"
  have slot: "(case last_opt ?rs of None \<Rightarrow> 0 | Some r \<Rightarrow> slot_index (ur_unit r) + 1) = int ?n"
    using campaign_mem.history_last_facts(4) [OF h] by (auto split: option.splits)
  have last_complete: "phase r = COMPLETE" if l: "last_opt ?rs = Some r" for r
  proof -
    obtain ys where "?rs = ys @ [r]" using last_opt_SomeE [OF l] .
    then show ?thesis using assms(4) by simp
  qed
  have not_failed: "(case last_opt ?rs of None \<Rightarrow> False | Some r \<Rightarrow> phase r = TERMINAL_FAILED) \<longleftrightarrow> False"
    using last_complete by (auto split: option.splits)
  have zero: "(case last_opt ?rs of None \<Rightarrow> 0
      | Some r \<Rightarrow> if False then retry_index (ur_unit r) + 1 else 0) = 0"
    by (simp split: option.splits)
  have window: "next_requested_start d (int ?n) < end_utc_ns d" if "\<not> qualification d"
    using assms(5) that slot_in_window [OF that, of ?n] by (simp add: target_successes_def campaign_constants)
  have build: "build_campaign_unit d (int ?n) (int ?n) 0 (next_requested_start d (int ?n)) = Inr ?u"
    using assms(1,5) target_le [of d] next_start_nonneg [OF assms(1)]
    unfolding grid_unit_def by (intro built_unit) auto
  have start: "requested_start ?u = next_requested_start d (int ?n)" by (simp add: grid_unit_def)
  have time: "\<not> now > next_requested_start d (int ?n) + maximum_start_lateness_ns d"
    "\<not> now < requested_start ?u - preflight_lead_ns d"
    using assms(6) by (simp_all add: on_time_def start)
  have store: "store_state (campaign_cas d) (s\<lparr>cs_records := ?rs @ [planned ?u]\<rparr>) s (Some s) = (Inr ?new, Some ?new)"
    using store_mem [OF dig, of "s\<lparr>cs_records := ?rs @ [planned ?u]\<rparr>"] by simp
  have open_slot: "slot_open d ?rs"
    using assms(1,4,5) n ok window by (auto simp: slot_open_def final_record_def campaign_definition_post_init_def)
  have inv: "campaign_inv d ?new"
    using assms(3) open_slot u campaign_mem.planned_ok [OF assms(1), of ?rs]
    by (simp add: campaign_inv_def history_snoc next_ok_def planned_def)
  have dl: "requested_start ?u < slot_deadline d ?u"
    using slot_start_lt [of d ?n]
    by (cases "qualification d"; simp add: grid_unit_def slot_deadline_def next_requested_start_def
        slot_period_numerator_ns_def slot_period_denominator_def)
  have capture: "\<exists>t q. run_capture (campaign_cas d) d env ?new (planned ?u) (Some ?new)
      = (Inr (run_result_of UNIT_COMPLETE t (Some (ur_unit (planned ?u)))), Some t)
    \<and> cs_records t = butlast (cs_records ?new) @ [q] \<and> phase q = COMPLETE"
    using assms(1,7) dig dl
    by (intro capture_completes) (simp_all add: planned_def campaign_definition_post_init_def)
  have plan: "run_next (campaign_load d) (campaign_cas d) d margin env now (Some s)
      = plan_next (campaign_cas d) d margin env s now (Some s)"
    using assms(5) dig n(2) last_complete
    by (cases "last_opt ?rs") (auto simp: run_next_def bind_io_def campaign_load_def advance_def)
  have "plan_next (campaign_cas d) d margin env s now (Some s)
      = run_capture (campaign_cas d) d env ?new (planned ?u) (Some ?new)"
    unfolding plan_next_def Let_def slot n(2) not_failed zero
    using window time build initial_capacity [OF inv assms(7,2)]
    by (auto simp: bind_io_def lift_def store)
  then show ?thesis using capture by (simp add: plan planned_def)
qed

lemma slots_complete:
  assumes "valid_campaign d" and "0 \<le> margin" and "int (length calls) \<le> target_successes d"
    and "\<forall>n < length calls. on_time d (grid_unit d n) (fst (calls ! n))
      \<and> answers_in_time d margin (grid_unit d n) (snd (calls ! n))"
  shows "\<exists>s. campaign_calls d margin calls = Some s \<and> campaign_inv d s
    \<and> length (cs_records s) = length calls \<and> (\<forall>r \<in> set (cs_records s). phase r = COMPLETE)"
  using assms(3,4)
proof (induction calls rule: rev_induct)
  case Nil
  show ?case
    by (simp add: campaign_calls_def campaign_initial campaign_inv_def)
next
  case (snoc c cs)
  have "\<exists>s. campaign_calls d margin cs = Some s \<and> campaign_inv d s
      \<and> length (cs_records s) = length cs \<and> (\<forall>r \<in> set (cs_records s). phase r = COMPLETE)"
    using snoc.prems by (intro snoc.IH) (auto simp: nth_append less_Suc_eq split: if_splits)
  then obtain s where s: "campaign_calls d margin cs = Some s" "campaign_inv d s"
    "length (cs_records s) = length cs" "\<forall>r \<in> set (cs_records s). phase r = COMPLETE" by blast
  have due: "on_time d (grid_unit d (length cs)) (fst c)"
    "answers_in_time d margin (grid_unit d (length cs)) (snd c)"
    using snoc.prems(2) [rule_format, of "length cs"] by simp_all
  obtain t q where t: "run_next (campaign_load d) (campaign_cas d) d margin (snd c) (fst c) (Some s)
      = (Inr (run_result_of UNIT_COMPLETE t (Some (grid_unit d (length cs)))), Some t)"
    "cs_records t = cs_records s @ [q]" "phase q = COMPLETE"
    using slot_completes [OF assms(1,2) s(2,4), of "fst c" "snd c"] s(3) snoc.prems(1) due by auto
  have "campaign_calls d margin (cs @ [c]) = Some t"
    using s(1) t(1) by (simp add: campaign_calls_def campaign_step_def)
  moreover have "campaign_inv d t"
    using campaign_calls_keep [OF assms(1,2), of "cs @ [c]"] calculation by simp
  ultimately show ?case using t(2,3) s(3,4) by auto
qed

text \<open>
  C25. A campaign whose ports answer in time completes: when the coordinator is called once
  per slot while its unit is due, and every capture and analysis succeeds by the slot's
  deadline with the initial reserve available, each call completes a unit, all target
  successes are reached, and any later call reports the campaign complete and changes
  nothing.
\<close>

theorem campaign_completes:
  assumes "valid_campaign d" and "0 \<le> margin" and "int (length calls) = target_successes d"
    and "\<forall>n < length calls. on_time d (grid_unit d n) (fst (calls ! n))
      \<and> answers_in_time d margin (grid_unit d n) (snd (calls ! n))"
  shows "\<exists>s. campaign_calls d margin calls = Some s
    \<and> map phase (cs_records s) = replicate (length calls) COMPLETE
    \<and> completed_successes s = target_successes d
    \<and> run_next (campaign_load d) (campaign_cas d) d margin env now (Some s)
        = (Inr (run_result_of CAMPAIGN_COMPLETE s None), Some s)"
proof -
  obtain s where s: "campaign_calls d margin calls = Some s" "campaign_inv d s"
    "length (cs_records s) = length calls" "\<forall>r \<in> set (cs_records s). phase r = COMPLETE"
    using slots_complete [OF assms(1,2) _ assms(4)] assms(3) by auto
  have n: "completed_successes s = target_successes d"
    using all_complete_count [OF s(4)] completed_history [OF s(2)] s(3) assms(3) by (simp add: done_before_def)
  have "map phase (cs_records s) = replicate (length calls) COMPLETE"
    using s(3,4) by (metis length_map list.set_map imageE replicate_eqI)
  moreover have "run_next (campaign_load d) (campaign_cas d) d margin env now (Some s)
      = (Inr (run_result_of CAMPAIGN_COMPLETE s None), Some s)"
    using s(2) n by (simp add: run_next_def campaign_load_def campaign_inv_def bind_io_def advance_def ret_def)
  ultimately show ?thesis using s(1) n by blast
qed

subsection \<open>The qualification receipt\<close>

text \<open>
  C35. A qualification campaign can prove its round as soon as it is complete and never
  before: from a reachable state, with a non-negative issue time,
  \<open>build_qualification_receipt\<close> returns a receipt exactly if all nine units are complete,
  and the receipt then lists the nine units, one success per cell.
\<close>

theorem qualification_receipt_iff_complete:
  assumes "valid_campaign d" and "0 \<le> margin" and "campaign_calls d margin calls = Some s"
    and "qualification d" and "0 \<le> issued"
  shows "((\<exists>r. build_qualification_receipt d s issued = Inr r) \<longleftrightarrow> completed_successes s = 9)
    \<and> (\<forall>r. build_qualification_receipt d s issued = Inr r \<longrightarrow>
      qualification_definition_digest r = campaign_digest d
      \<and> unit_digests r = map (\<lambda>q. unit_digest (ur_unit q)) (cs_records s)
      \<and> qr_successful_counts r = replicate 9 1)"
proof -
  let ?rs = "cs_records s"
  have inv: "campaign_inv d s" using reachable_state [OF assms(1,2), of calls] assms(3) by auto
  then have h: "history d ?rs" and dig: "cs_digest s = campaign_digest d" by (simp_all add: campaign_inv_def)
  have n: "completed_successes s = int (length (filter (\<lambda>r. phase r = COMPLETE) ?rs))"
    using completed_history [OF inv] by (simp add: done_before_def count_where_def complete_def [abs_def])
  have evidence: "\<not> list_ex (\<lambda>r. ur_snapshot r = None \<or> ur_receipt r = None) (filter (\<lambda>r. phase r = COMPLETE) ?rs)"
    using history_record_ok [OF h] by (fastforce simp: list_ex_iff record_ok_def)
  have counts: "successful_counts s = replicate 9 1" if "completed_successes s = 9"
    unfolding inv_counts [OF inv] that by (simp add: numeral_eq_Suc)
  have all: "filter (\<lambda>r. phase r = COMPLETE) ?rs = ?rs" if "completed_successes s = 9"
  proof (rule filter_True, rule ccontr)
    assume "\<not> (\<forall>x \<in> set ?rs. phase x = COMPLETE)"
    then have "length (filter (\<lambda>r. phase r = COMPLETE) ?rs) < length ?rs"
      by (auto intro: length_filter_less)
    with that n history_length [OF h] assms(4) show False
      by (simp add: target_successes_def campaign_constants)
  qed
  have built: "build_qualification_receipt d s issued = Inr
     \<lparr>qualification_definition_digest = campaign_digest d, issued_utc_ns = issued,
           unit_digests = map (\<lambda>r. unit_digest (ur_unit r)) ?rs,
           snapshot_digests = map (\<lambda>r. canonical_digest (json_option json_snapshot (ur_snapshot r))) ?rs,
           analysis_receipt_digests =
             map (\<lambda>r. canonical_digest (json_option json_receipt (ur_receipt r))) ?rs,
           qr_successful_counts = replicate 9 1\<rparr>" if "completed_successes s = 9"
    using that n counts [OF that] all [OF that] evidence assms(4,5) dig
    by (simp add: build_qualification_receipt_def Let_def checked_def qualification_receipt_post_init_def
        campaign_constants)
  have only: "completed_successes s = 9" if "build_qualification_receipt d s issued = Inr r" for r
    using that n assms(4) by (auto simp: build_qualification_receipt_def Let_def campaign_constants split: if_splits)
  show ?thesis using built only by fastforce
qed

subsection \<open>A campaign that completes\<close>

definition demo_capture :: "campaign_unit \<Rightarrow> int \<Rightarrow> int \<Rightarrow> batch_snapshot port" where
  "demo_capture u start deadline = Returned
     \<lparr>bs_schema = schema_v0_1 state_schema_id, bs_definition = unit_batch u,
      outcomes = map (\<lambda>(a, i).
        \<lparr>ao_schema = schema_v0_1 outcome_schema_id, ao_batch_id = bd_batch_id (unit_batch u),
         ao_attempt_id = ea_attempt_id a, ao_radio_id = ea_radio_id a, ao_plan_id = ea_plan_id a,
         ao_state = SUCCEEDED, ao_terminal = start, ao_observed_start = Some start,
         ao_recording = Some (demo_recording i), ao_failure_reason = None\<rparr>)
        (zip (expected_attempts (unit_batch u)) [''rec_a'', ''rec_b'']),
      bs_revision = 2\<rparr>"

definition demo_success :: "string \<Rightarrow> analysis_success" where
  "demo_success i =
     \<lparr>as_recording_id = i, as_job_id = ''job_1'',
      result_ref = \<lparr>artifact_id = ''fset_1'', ar_digest = demo_digest CHR ''a'',
        ar_schema = Some (schema_v0_1 FEATURE_SET_SCHEMA)\<rparr>,
      projection_work_id = ''fpwork_1'',
      projected_feature_set = \<lparr>feature_set_id = ''fset_1'', fs_analysis_run_id = ''arun_1'',
        bundle_ref = demo_object CHR ''a''\<rparr>, projected_utc_ns = 0\<rparr>"

definition demo_analyze :: "batch_snapshot \<Rightarrow> int \<Rightarrow> analysis_receipt port" where
  "demo_analyze s deadline = Returned
     \<lparr>rc_batch_id = bs_batch_id s,
      successes = map demo_success (sort (map published_recording_id (successful_recordings s))),
      rc_completed_utc_ns = deadline\<rparr>"

definition demo_env :: campaign_env where
  "demo_env = \<lparr>ce_capture = demo_capture, ce_analyze = demo_analyze, ce_capacity = Some 100000000000\<rparr>"

definition demo_qualification :: campaign_definition where
  "demo_qualification = demo_campaign\<lparr>qualification := True, qualification_receipt_digest := None\<rparr>"

definition demo_calls :: "campaign_definition \<Rightarrow> (int \<times> campaign_env) list" where
  "demo_calls d = map (\<lambda>n. (next_requested_start d (int n), demo_env)) [0..<nat (target_successes d)]"

lemma demo_qualification_valid: "valid_campaign demo_qualification" "qualification demo_qualification"
  by code_simp+

lemma demo_answers:
  assumes "d = demo_campaign \<or> d = demo_qualification"
  shows "answers_in_time d 0 (grid_unit d n) demo_env"
proof -
  let ?u = "grid_unit d n"
  have dl: "requested_start ?u \<le> slot_deadline d ?u"
    using slot_start_lt [of d n]
    by (cases "qualification d"; simp add: grid_unit_def slot_deadline_def next_requested_start_def
        slot_period_numerator_ns_def slot_period_denominator_def)
  have cap: "case required_remaining_capacity_bytes d (fresh_state d) 0 of
      Inr needed \<Rightarrow> needed \<le> 100000000000 | Inl _ \<Rightarrow> False"
    using assms
    by (elim disjE) (simp_all add: required_remaining_capacity_bytes_def Let_def successful_counts_def
        fresh_state_def CAMPAIGN_CELLS_def cell_sample_count_def campaign_constants numeral_eq_Suc
        demo_campaign_def demo_qualification_def)
  show ?thesis
    unfolding answers_in_time_def
    using dl cap
    by (simp add: demo_env_def demo_capture_def demo_analyze_def grid_unit_def expected_unit_def Let_def
        captured_ok_def snapshot_accepted_def capture_succeeded_def terminal_def observed_skew_def
        paired_analysis_eligibility_def receipt_accepted_def receipt_recording_ids_def
        demo_success_def o_def MAXIMUM_START_SKEW_NS_def)
qed

lemma demo_due:
  assumes "d = demo_campaign \<or> d = demo_qualification"
  shows "int (length (demo_calls d)) = target_successes d"
    "\<forall>n < length (demo_calls d). on_time d (grid_unit d n) (fst (demo_calls d ! n))
       \<and> answers_in_time d 0 (grid_unit d n) (snd (demo_calls d ! n))"
proof -
  have "0 \<le> target_successes d" by (simp add: target_successes_def campaign_constants)
  then show "int (length (demo_calls d)) = target_successes d" by (simp add: demo_calls_def)
  have "on_time d (grid_unit d n) (next_requested_start d (int n))" for n
    using assms
    by (auto simp: on_time_def grid_unit_def demo_campaign_def demo_qualification_def PREFLIGHT_LEAD_NS_def)
  then show "\<forall>n < length (demo_calls d). on_time d (grid_unit d n) (fst (demo_calls d ! n))
       \<and> answers_in_time d 0 (grid_unit d n) (snd (demo_calls d ! n))"
    using demo_answers [OF assms] by (simp add: demo_calls_def)
qed

lemma demo_run:
  assumes "d = demo_campaign \<or> d = demo_qualification"
  obtains s where "campaign_calls d 0 (demo_calls d) = Some s" "campaign_inv d s"
    "completed_successes s = target_successes d"
proof -
  have v: "valid_campaign d" using assms demo_campaign_valid demo_qualification_valid by blast
  obtain s where "campaign_calls d 0 (demo_calls d) = Some s" "campaign_inv d s"
    "length (cs_records s) = length (demo_calls d)" "\<forall>r \<in> set (cs_records s). phase r = COMPLETE"
    using slots_complete [OF v, of 0 "demo_calls d"] demo_due [OF assms] by auto
  moreover from this have "completed_successes s = target_successes d"
    using all_complete_count completed_history demo_due(1) [OF assms] by (simp add: done_before_def)
  ultimately show ?thesis using that by blast
qed

theorem campaign_journal_invariant_witness:
  "\<exists>s. campaign_calls demo_campaign 0 (demo_calls demo_campaign) = Some s \<and> campaign_inv demo_campaign s"
  using campaign_journal_invariant [OF demo_campaign_valid, of 0] by simp

lemma campaign_counts_balanced_witness:
  "\<exists>s. campaign_calls demo_campaign 0 (demo_calls demo_campaign) = Some s
     \<and> successful_counts s = replicate 9 104 \<and> accepted_balanced_rounds s = 104"
proof -
  obtain s where s: "campaign_calls demo_campaign 0 (demo_calls demo_campaign) = Some s"
    "completed_successes s = target_successes demo_campaign"
    using demo_run [of demo_campaign] by blast
  then have "completed_successes s = 936" by (simp add: target_successes_def demo_campaign_def campaign_constants)
  with campaign_counts_balanced [OF demo_campaign_valid _ s(1)] s(1) show ?thesis
    by (simp add: numeral_eq_Suc)
qed

theorem campaign_within_bounds_witness:
  "\<exists>s. campaign_calls demo_campaign 0 (demo_calls demo_campaign) = Some s
     \<and> length (cs_records s) \<le> 936 \<and> sum_list (map capture_invocations (cs_records s)) \<le> 2 * 936"
proof -
  obtain s where s: "campaign_calls demo_campaign 0 (demo_calls demo_campaign) = Some s"
    using demo_run [of demo_campaign] by blast
  from campaign_within_bounds [OF demo_campaign_valid _ s] s show ?thesis
    by (simp add: target_successes_def demo_campaign_def campaign_constants)
qed

theorem run_next_errors_witness:
  "\<exists>res j t. run_next (campaign_load demo_campaign) (campaign_cas demo_campaign) demo_campaign 0 demo_env 5
      (Some (fresh_state demo_campaign)) = (res, j) \<and> j = Some t \<and> campaign_inv demo_campaign t"
proof -
  have "campaign_calls demo_campaign 0 [] = Some (fresh_state demo_campaign)"
    by (simp add: campaign_calls_def campaign_initial fresh_state_def)
  then show ?thesis
    using run_next_errors [OF demo_campaign_valid, of 0 "[]" "fresh_state demo_campaign" demo_env 5]
    by (meson dual_order.refl surj_pair)
qed

theorem campaign_completes_witness:
  "\<exists>s. campaign_calls demo_campaign 0 (demo_calls demo_campaign) = Some s
     \<and> map phase (cs_records s) = replicate 936 COMPLETE"
  using campaign_completes [OF demo_campaign_valid _ demo_due [of demo_campaign]] demo_due(1) [of demo_campaign]
  by (auto simp: target_successes_def demo_campaign_main campaign_constants)

theorem qualification_receipt_iff_complete_witness:
  "\<exists>s r. campaign_calls demo_qualification 0 (demo_calls demo_qualification) = Some s
     \<and> build_qualification_receipt demo_qualification s 7 = Inr r
     \<and> qr_successful_counts r = replicate 9 1"
proof -
  obtain s where s: "campaign_calls demo_qualification 0 (demo_calls demo_qualification) = Some s"
    "completed_successes s = target_successes demo_qualification"
    using demo_run [of demo_qualification] by blast
  then have "completed_successes s = 9"
    by (simp add: target_successes_def demo_qualification_valid(2) campaign_constants)
  with qualification_receipt_iff_complete [OF demo_qualification_valid(1) _ s(1) demo_qualification_valid(2), of 7]
    s(1) show ?thesis by auto
qed

end
