(* ===== verification/Continuous.thy ===== *)
theory Continuous
  imports Campaign
begin

section \<open>The capture-first collector\<close>

text \<open>
  \<open>capture/continuous.py\<close>: records and states with their construction checks, the in-memory
  journal and \<open>DeferredCampaignCoordinator\<close>, which first captures every slot of a main
  campaign and only then, once capture is closed, analyses the stored snapshots. The ports
  are those of \<open>Campaign\<close>.
\<close>

datatype collection_error =
    Negative_Invocations | Snapshot_Required | Early_Evidence | Receipt_Required | Early_Receipt
  | Uncaptured_Analysis | Negative_Collection_Revision | Halt_Evidence | Not_Canonical
  | Exceeds_Target | Planned_Inside | Closed_Uncertain | Complete_Pending | Stop_Needs_Halt
  | Not_Main | Negative_Collection_Margin | Collection_Receipt_Differs
  | Collection_Not_Initialized | Collection_Differs | Collection_Revision_Changed
  | Collection_Bad_Replacement | Collection_Bad_Capacity | Collection_Capacity_Raised
  | Collection_No_Snapshot | Collection_Other_Unit | Unresolved_Capture | Analysis_Not_Open
  | Collection_Died | Collection_Unit campaign_error | Record_Index

datatype collection_phase = CAPTURING | ANALYZING | COLLECTION_COMPLETE | HALTED

datatype halt_reason =
    INTEGRITY_FAILURE | HALT_UNCERTAIN | HALT_MISSED_SLOT | HALT_WINDOW_ENDED | HALT_ANALYSIS

datatype record_phase =
    REC_PLANNED | REC_ABANDONED | REC_CAPTURED | REC_TERMINAL_FAILED | REC_ANALYSIS_FAILED | REC_COMPLETE

record collection_record =
  co_unit :: campaign_unit
  co_phase :: record_phase
  co_captures :: int
  co_analyses :: int
  co_snapshot :: "batch_snapshot option"
  co_receipt :: "analysis_receipt option"

definition new_record :: "campaign_unit \<Rightarrow> collection_record" where
  "new_record u =
     \<lparr>co_unit = u, co_phase = REC_PLANNED, co_captures = 0, co_analyses = 0,
      co_snapshot = None, co_receipt = None\<rparr>"

definition collection_record_post_init :: "collection_record \<Rightarrow> (collection_error, unit) result" where
  "collection_record_post_init r =
     raise_first
       [(co_captures r < 0 \<or> co_analyses r < 0, ValueError Negative_Invocations),
        (co_phase r \<in> {REC_CAPTURED, REC_TERMINAL_FAILED, REC_ANALYSIS_FAILED, REC_COMPLETE}
           \<and> co_snapshot r = None, ValueError Snapshot_Required),
        (co_phase r \<in> {REC_PLANNED, REC_ABANDONED}
           \<and> (co_snapshot r \<noteq> None \<or> co_receipt r \<noteq> None), ValueError Early_Evidence),
        (co_phase r = REC_COMPLETE \<and> co_receipt r = None, ValueError Receipt_Required),
        (co_phase r \<noteq> REC_COMPLETE \<and> co_receipt r \<noteq> None, ValueError Early_Receipt),
        (co_analyses r \<noteq> 0 \<and> co_phase r \<in> {REC_PLANNED, REC_ABANDONED, REC_TERMINAL_FAILED},
           ValueError Uncaptured_Analysis)]"

record collection_state =
  co_digest :: digest
  collection_phase :: collection_phase
  co_records :: "collection_record list"
  halt_reason :: "halt_reason option"
  co_revision :: int

definition new_collection :: "digest \<Rightarrow> collection_state" where
  "new_collection dg =
     \<lparr>co_digest = dg, collection_phase = CAPTURING, co_records = [], halt_reason = None, co_revision = 0\<rparr>"

definition accepted_record :: "collection_record \<Rightarrow> bool" where
  "accepted_record r \<longleftrightarrow> co_phase r \<in> {REC_CAPTURED, REC_ANALYSIS_FAILED, REC_COMPLETE}"

text \<open>The loop over \<open>enumerate(records)\<close> with its \<open>accepted\<close> counter.\<close>

fun canonical_schedule ::
  "int \<Rightarrow> int \<Rightarrow> collection_record list \<Rightarrow> (collection_error, int) result" where
  "canonical_schedule index accepted [] = Inr accepted"
| "canonical_schedule index accepted (r # rs) =
     (if slot_index (co_unit r) \<noteq> index \<or> success_index (co_unit r) \<noteq> accepted
      then Inl (ValueError Not_Canonical)
      else canonical_schedule (index + 1) (if accepted_record r then accepted + 1 else accepted) rs)"

definition collection_state_post_init :: "collection_state \<Rightarrow> (collection_error, unit) result" where
  "collection_state_post_init s =
     bindE (raise_first
       [(co_revision s < 0, ValueError Negative_Collection_Revision),
        ((collection_phase s = HALTED) \<noteq> (halt_reason s \<noteq> None), ValueError Halt_Evidence)]) (\<lambda>_.
     bindE (canonical_schedule 0 0 (co_records s)) (\<lambda>accepted.
     raise_first
       [(accepted > CAMPAIGN_SUCCESS_TARGET, ValueError Exceeds_Target),
        (list_ex (\<lambda>r. co_phase r = REC_PLANNED) (butlast (co_records s)), ValueError Planned_Inside),
        (collection_phase s \<in> {ANALYZING, COLLECTION_COMPLETE}
           \<and> list_ex (\<lambda>r. co_phase r = REC_PLANNED) (co_records s), ValueError Closed_Uncertain),
        (collection_phase s = COLLECTION_COMPLETE
           \<and> list_ex (\<lambda>r. co_phase r \<in> {REC_CAPTURED, REC_ANALYSIS_FAILED}) (co_records s),
           ValueError Complete_Pending),
        (collection_phase s = CAPTURING \<and> co_records s \<noteq> []
           \<and> co_phase (last (co_records s)) \<in> {REC_ABANDONED, REC_TERMINAL_FAILED},
           ValueError Stop_Needs_Halt)]))"

definition captured_count :: "collection_state \<Rightarrow> int" where
  "captured_count s = int (count_where accepted_record (co_records s))"

definition analyzed_count :: "collection_state \<Rightarrow> int" where
  "analyzed_count s = int (count_where (\<lambda>r. co_phase r = REC_COMPLETE) (co_records s))"

datatype collection_status =
    ST_CAPTURED | ST_NOT_DUE | ST_CAPACITY_BLOCKED | ST_CAPTURE_UNCERTAIN | ST_CAPTURE_PHASE_CLOSED
  | ST_ANALYZED | ST_ANALYSIS_PENDING | ST_COMPLETE | ST_HALTED

record collection_result =
  co_status :: collection_status
  co_state :: collection_state
  co_result_unit :: "campaign_unit option"

definition collection_result_of ::
  "collection_status \<Rightarrow> collection_state \<Rightarrow> campaign_unit option \<Rightarrow> collection_result" where
  "collection_result_of st s u = \<lparr>co_status = st, co_state = s, co_result_unit = u\<rparr>"

subsection \<open>The in-memory journal\<close>

type_synonym collection_journal = "collection_state option"
type_synonym ('s, 'a) collection_io = "('s, collection_error exn, 'a) io"

definition collection_load ::
  "campaign_definition \<Rightarrow> (collection_journal, collection_state) collection_io" where
  "collection_load d j =
     (case j of
        None \<Rightarrow> (Inl (RuntimeError Collection_Not_Initialized), j)
      | Some s \<Rightarrow>
          if co_digest s \<noteq> campaign_digest d then (Inl (RuntimeError Collection_Differs), j)
          else (Inr s, j))"

definition collection_initialize ::
  "campaign_definition \<Rightarrow> (collection_journal, collection_state) collection_io" where
  "collection_initialize d j =
     collection_load d
       (case j of None \<Rightarrow> Some (new_collection (campaign_digest d)) | Some s \<Rightarrow> Some s)"

definition collection_cas ::
  "campaign_definition \<Rightarrow> int \<Rightarrow> collection_state \<Rightarrow> (collection_journal, collection_state) collection_io" where
  "collection_cas d expected_revision replacement =
     bind_io (collection_load d) (\<lambda>current j.
       if co_revision current \<noteq> expected_revision
       then (Inl (RuntimeError Collection_Revision_Changed), j)
       else if co_digest replacement \<noteq> campaign_digest d
               \<or> co_revision replacement \<noteq> expected_revision + 1
       then (Inl (RuntimeError Collection_Bad_Replacement), j)
       else (Inr replacement, Some replacement))"

subsection \<open>The coordinator\<close>

definition deferred_coordinator_init ::
  "campaign_definition \<Rightarrow> int \<Rightarrow> qualification_receipt \<Rightarrow> (collection_journal, collection_state) collection_io" where
  "deferred_coordinator_init d margin receipt =
     bind_io (lift (raise_first
       [(qualification d \<or> analysis_after_each_capture d, ValueError Not_Main),
        (margin < 0, ValueError Negative_Collection_Margin),
        (Some (qualification_receipt_digest_of receipt) \<noteq> qualification_receipt_digest d,
           ValueError Collection_Receipt_Differs)]))
       (\<lambda>_. collection_initialize d)"

definition collection_start :: "campaign_definition \<Rightarrow> int \<Rightarrow> int" where
  "collection_start d slot = start_utc_ns d + slot * 400000000000 div 13"

definition collection_deadline :: "campaign_definition \<Rightarrow> campaign_unit \<Rightarrow> int" where
  "collection_deadline d u = start_utc_ns d + (slot_index u + 1) * 400000000000 div 13"

text \<open>\<open>campaign_cell(index)\<close> on the indices still to be captured, all in the schedule.\<close>

definition remaining_raw :: "int \<Rightarrow> int" where
  "remaining_raw done_count =
     sum_list (map (\<lambda>i. (case campaign_cell_at i of Inr c \<Rightarrow> cell_sample_count c | Inl _ \<Rightarrow> 0) * 128)
       [done_count..CAMPAIGN_SUCCESS_TARGET - 1])"

definition collection_capacity ::
  "int \<Rightarrow> campaign_env \<Rightarrow> collection_state \<Rightarrow> (collection_error, bool) result" where
  "collection_capacity margin env s =
     (case ce_capacity env of
        None \<Rightarrow> Inl (RuntimeError Collection_Capacity_Raised)
      | Some available \<Rightarrow>
          if available < 0 then Inl (RuntimeError Collection_Bad_Capacity)
          else Inr (available \<ge> remaining_raw (captured_count s) * 2 + margin))"

definition collection_snapshot_ok :: "campaign_definition \<Rightarrow> campaign_unit \<Rightarrow> batch_snapshot \<Rightarrow> bool" where
  "collection_snapshot_ok d u s \<longleftrightarrow>
     \<not> (list_ex (\<lambda>a. ao_state a \<noteq> SUCCEEDED) (outcomes s)
        \<or> paired_analysis_eligibility s \<noteq> ELIGIBLE
        \<or> list_ex (\<lambda>a. ao_terminal a > collection_deadline d u) (outcomes s))"

definition collection_receipt_ok :: "batch_snapshot \<Rightarrow> analysis_receipt \<Rightarrow> bool" where
  "collection_receipt_ok s r \<longleftrightarrow>
     rc_batch_id r = bs_batch_id s
     \<and> receipt_recording_ids r = sort (map published_recording_id (successful_recordings s))"

text \<open>\<open>replace\<close> on a record or a state runs the construction checks.\<close>

abbreviation (input) checked_record :: "collection_record \<Rightarrow> (collection_error, collection_record) result" where
  "checked_record \<equiv> checked collection_record_post_init"

abbreviation (input) checked_state :: "collection_state \<Rightarrow> (collection_error, collection_state) result" where
  "checked_state \<equiv> checked collection_state_post_init"

definition records_with ::
  "collection_state \<Rightarrow> nat \<Rightarrow> collection_record \<Rightarrow> (collection_error, collection_record list) result" where
  "records_with s i r =
     (if i \<ge> length (co_records s) then Inl (IndexError Record_Index)
      else if co_unit (co_records s ! i) \<noteq> co_unit r then Inl (RuntimeError Collection_Other_Unit)
      else Inr ((co_records s)[i := r]))"

definition collection_store where
  "collection_store cas replacement current =
     bind_io (lift (checked_state (replacement\<lparr>co_revision := co_revision current + 1\<rparr>)))
       (cas (co_revision current))"

definition collection_halt where
  "collection_halt cas s reason =
     bind_io (lift (checked_state (s\<lparr>collection_phase := HALTED, halt_reason := Some reason\<rparr>)))
       (\<lambda>h. collection_store cas h s)"

definition replace_record where
  "replace_record cas s i r =
     bind_io (lift (records_with s i r)) (\<lambda>rs.
     bind_io (lift (checked_state (s\<lparr>co_records := rs\<rparr>))) (\<lambda>s'. collection_store cas s' s))"

text \<open>A stop on the last record: the record and the halt are one transition.\<close>

definition halt_with where
  "halt_with cas s r reason =
     bind_io (lift (records_with s (length (co_records s) - 1) r)) (\<lambda>rs.
     bind_io (lift (checked_state (s\<lparr>co_records := rs, collection_phase := HALTED,
       halt_reason := Some reason\<rparr>))) (\<lambda>h. collection_store cas h s))"

definition capture_planned where
  "capture_planned cas d margin env now s r =
     (let u = co_unit r; requested = requested_start u; i = length (co_records s) - 1 in
      if now < requested - preflight_lead_ns d
      then ret (collection_result_of ST_NOT_DUE s (Some u))
      else if now > requested + maximum_start_lateness_ns d
      then
        bind_io (lift (checked_record (r\<lparr>co_phase := REC_ABANDONED\<rparr>))) (\<lambda>abandoned.
        bind_io (halt_with cas s abandoned HALT_MISSED_SLOT) (\<lambda>halted.
          ret (collection_result_of ST_HALTED halted (Some u))))
      else
        bind_io (lift (collection_capacity margin env s)) (\<lambda>enough.
        if \<not> enough then ret (collection_result_of ST_CAPACITY_BLOCKED s (Some u))
        else
          bind_io (lift (checked_record (r\<lparr>co_captures := co_captures r + 1\<rparr>))) (\<lambda>invoked.
          bind_io (replace_record cas s i invoked) (\<lambda>s.
          bind_io (call_port Collection_Died (ce_capture env u requested (collection_deadline d u))) (\<lambda>answer.
            case answer of
              None \<Rightarrow> ret (collection_result_of ST_CAPTURE_UNCERTAIN s (Some u))
            | Some snapshot \<Rightarrow>
                if \<not> terminal snapshot \<or> bs_definition snapshot \<noteq> unit_batch u
                then ret (collection_result_of ST_CAPTURE_UNCERTAIN s (Some u))
                else if \<not> collection_snapshot_ok d u snapshot
                then
                  bind_io (lift (checked_record
                    (invoked\<lparr>co_phase := REC_TERMINAL_FAILED, co_snapshot := Some snapshot\<rparr>))) (\<lambda>failure.
                  bind_io (halt_with cas s failure INTEGRITY_FAILURE) (\<lambda>halted.
                    ret (collection_result_of ST_HALTED halted (Some u))))
                else
                  bind_io (lift (checked_record
                    (invoked\<lparr>co_phase := REC_CAPTURED, co_snapshot := Some snapshot\<rparr>))) (\<lambda>captured.
                  bind_io (replace_record cas s i captured) (\<lambda>s.
                    ret (collection_result_of ST_CAPTURED s (Some u)))))))))"

text \<open>\<open>capture_next\<close>, split where the last identity is not planned.\<close>

definition capture_fresh where
  "capture_fresh cas d margin env now s =
     (let slot = int (length (co_records s)); requested = collection_start d slot in
      if requested \<ge> end_utc_ns d
      then bind_io (collection_halt cas s HALT_WINDOW_ENDED) (\<lambda>h. ret (collection_result_of ST_HALTED h None))
      else if now > requested + maximum_start_lateness_ns d
      then bind_io (collection_halt cas s HALT_MISSED_SLOT) (\<lambda>h. ret (collection_result_of ST_HALTED h None))
      else
        bind_io (lift (embed_exn Collection_Unit
          (build_campaign_unit d (captured_count s) slot 0 requested))) (\<lambda>u.
        bind_io (lift (checked_record (new_record u))) (\<lambda>r.
        bind_io (lift (checked_state (s\<lparr>co_records := co_records s @ [r]\<rparr>))) (\<lambda>planned.
        bind_io (collection_store cas planned s) (\<lambda>s.
          if now < requested - preflight_lead_ns d
          then ret (collection_result_of ST_NOT_DUE s (Some u))
          else capture_planned cas d margin env now s (last (co_records s)))))))"

definition capture_next_from where
  "capture_next_from cas d margin env now s =
     (if collection_phase s = HALTED then ret (collection_result_of ST_HALTED s None)
      else if collection_phase s \<noteq> CAPTURING
      then ret (collection_result_of ST_CAPTURE_PHASE_CLOSED s None)
      else if captured_count s \<ge> CAMPAIGN_SUCCESS_TARGET
      then
        bind_io (lift (checked_state (s\<lparr>collection_phase := ANALYZING\<rparr>))) (\<lambda>a.
        bind_io (collection_store cas a s) (\<lambda>closed.
          ret (collection_result_of ST_CAPTURE_PHASE_CLOSED closed None)))
      else
        case last_opt (co_records s) of
          None \<Rightarrow> capture_fresh cas d margin env now s
        | Some r \<Rightarrow>
            if co_phase r = REC_PLANNED then
              (if co_captures r \<ge> maximum_capture_invocations d
               then bind_io (collection_halt cas s HALT_UNCERTAIN) (\<lambda>h.
                 ret (collection_result_of ST_HALTED h (Some (co_unit r))))
               else capture_planned cas d margin env now s r)
            else capture_fresh cas d margin env now s)"

definition capture_next where
  "capture_next load cas d margin env now = bind_io load (capture_next_from cas d margin env now)"

definition close_capture where
  "close_capture load cas =
     bind_io load (\<lambda>s.
       if collection_phase s = COLLECTION_COMPLETE then ret (collection_result_of ST_COMPLETE s None)
       else if collection_phase s = ANALYZING then ret (collection_result_of ST_ANALYSIS_PENDING s None)
       else if co_records s \<noteq> [] \<and> co_phase (last (co_records s)) = REC_PLANNED
       then lift (Inl (RuntimeError Unresolved_Capture))
       else
         bind_io (lift (checked_state (s\<lparr>collection_phase := ANALYZING, halt_reason := None\<rparr>))) (\<lambda>a.
         bind_io (collection_store cas a s) (\<lambda>closed.
           ret (collection_result_of ST_ANALYSIS_PENDING closed None))))"

definition pending_record :: "collection_record \<Rightarrow> bool" where
  "pending_record r \<longleftrightarrow> co_phase r \<in> {REC_CAPTURED, REC_ANALYSIS_FAILED}"

definition analyze_record where
  "analyze_record cas d env deadline s i r =
     (case co_snapshot r of
        None \<Rightarrow> lift (Inl (RuntimeError Collection_No_Snapshot))
      | Some snapshot \<Rightarrow>
          if co_analyses r \<ge> maximum_analysis_invocations d
          then bind_io (collection_halt cas s HALT_ANALYSIS) (\<lambda>h.
            ret (collection_result_of ST_HALTED h (Some (co_unit r))))
          else
            bind_io (lift (checked_record (r\<lparr>co_analyses := co_analyses r + 1\<rparr>))) (\<lambda>invoked.
            bind_io (replace_record cas s i invoked) (\<lambda>s.
            bind_io (call_port Collection_Died (ce_analyze env snapshot deadline)) (\<lambda>answer.
              case (case answer of None \<Rightarrow> None
                    | Some rc \<Rightarrow> if collection_receipt_ok snapshot rc \<and> \<not> rc_completed_utc_ns rc > deadline
                                then Some rc else None) of
                None \<Rightarrow>
                  bind_io (lift (checked_record (invoked\<lparr>co_phase := REC_ANALYSIS_FAILED\<rparr>))) (\<lambda>failed.
                  bind_io (replace_record cas s i failed) (\<lambda>s.
                    ret (collection_result_of ST_ANALYSIS_PENDING s (Some (co_unit r)))))
              | Some rc \<Rightarrow>
                  bind_io (lift (checked_record
                    (invoked\<lparr>co_phase := REC_COMPLETE, co_receipt := Some rc\<rparr>))) (\<lambda>complete_record.
                  bind_io (replace_record cas s i complete_record) (\<lambda>s.
                    ret (collection_result_of ST_ANALYZED s (Some (co_unit r)))))))))"

definition analyze_next where
  "analyze_next load cas d env deadline =
     bind_io load (\<lambda>s.
       if collection_phase s = HALTED then ret (collection_result_of ST_HALTED s None)
       else if collection_phase s = CAPTURING then ret (collection_result_of ST_CAPTURE_PHASE_CLOSED s None)
       else if collection_phase s = COLLECTION_COMPLETE then ret (collection_result_of ST_COMPLETE s None)
       else
         case find_index pending_record (co_records s) of
           None \<Rightarrow>
             bind_io (lift (checked_state (s\<lparr>collection_phase := COLLECTION_COMPLETE\<rparr>))) (\<lambda>c.
             bind_io (collection_store cas c s) (\<lambda>closed.
               ret (collection_result_of ST_COMPLETE closed None)))
         | Some (i, r) \<Rightarrow> analyze_record cas d env deadline s i r)"

definition halt_analysis where
  "halt_analysis load cas =
     bind_io load (\<lambda>s.
       if collection_phase s = HALTED then ret (collection_result_of ST_HALTED s None)
       else if collection_phase s \<noteq> ANALYZING then lift (Inl (RuntimeError Analysis_Not_Open))
       else bind_io (collection_halt cas s HALT_ANALYSIS) (\<lambda>h. ret (collection_result_of ST_HALTED h None)))"

subsection \<open>What the journal always holds\<close>

text \<open>
  Record \<open>i\<close> is the deterministic unit of slot \<open>i\<close> with the evidence of its phase. Every
  record but the last is accepted, no analysis precedes the end of capture, and a halt for
  an uncertain capture is the only one that leaves a planned identity behind.
\<close>

definition slot_unit :: "campaign_definition \<Rightarrow> nat \<Rightarrow> campaign_unit" where
  "slot_unit d i = expected_unit d (int i) (int i) 0 (collection_start d (int i))"

definition evidence_ok :: "campaign_definition \<Rightarrow> collection_record \<Rightarrow> batch_snapshot \<Rightarrow> bool" where
  "evidence_ok d r s \<longleftrightarrow> co_snapshot r = Some s \<and> terminal s \<and> bs_definition s = unit_batch (co_unit r)"

definition collection_record_ok :: "campaign_definition \<Rightarrow> nat \<Rightarrow> collection_record \<Rightarrow> bool" where
  "collection_record_ok d i r \<longleftrightarrow>
     co_unit r = slot_unit d i
     \<and> 0 \<le> co_captures r \<and> co_captures r \<le> maximum_capture_invocations d
     \<and> 0 \<le> co_analyses r \<and> co_analyses r \<le> maximum_analysis_invocations d
     \<and> (co_phase r \<noteq> REC_COMPLETE \<longrightarrow> co_receipt r = None)
     \<and> (case co_phase r of
          REC_PLANNED \<Rightarrow> co_snapshot r = None \<and> co_analyses r = 0
        | REC_ABANDONED \<Rightarrow> co_snapshot r = None \<and> co_analyses r = 0
        | REC_TERMINAL_FAILED \<Rightarrow> co_analyses r = 0 \<and> 0 < co_captures r
            \<and> (\<exists>s. evidence_ok d r s \<and> \<not> collection_snapshot_ok d (co_unit r) s)
        | REC_CAPTURED \<Rightarrow> 0 < co_captures r
            \<and> (\<exists>s. evidence_ok d r s \<and> collection_snapshot_ok d (co_unit r) s)
        | REC_ANALYSIS_FAILED \<Rightarrow> 0 < co_captures r \<and> 0 < co_analyses r
            \<and> (\<exists>s. evidence_ok d r s \<and> collection_snapshot_ok d (co_unit r) s)
        | REC_COMPLETE \<Rightarrow> 0 < co_captures r \<and> 0 < co_analyses r
            \<and> (\<exists>s rc. evidence_ok d r s \<and> collection_snapshot_ok d (co_unit r) s
                  \<and> co_receipt r = Some rc \<and> collection_receipt_ok s rc))"

definition phase_ok :: "collection_phase \<Rightarrow> halt_reason option \<Rightarrow> collection_record list \<Rightarrow> bool" where
  "phase_ok p h rs \<longleftrightarrow>
     (p = HALTED) = (h \<noteq> None)
     \<and> (case p of
          CAPTURING \<Rightarrow> \<forall>r \<in> set rs. co_phase r \<in> {REC_PLANNED, REC_CAPTURED} \<and> co_analyses r = 0
        | ANALYZING \<Rightarrow> \<forall>r \<in> set rs. co_phase r \<noteq> REC_PLANNED
        | COLLECTION_COMPLETE \<Rightarrow> \<forall>r \<in> set rs. co_phase r \<notin> {REC_PLANNED, REC_CAPTURED, REC_ANALYSIS_FAILED}
        | HALTED \<Rightarrow> (\<exists>r \<in> set rs. co_phase r = REC_PLANNED) = (h = Some HALT_UNCERTAIN))"

definition collection_inv :: "campaign_definition \<Rightarrow> collection_state \<Rightarrow> bool" where
  "collection_inv d s \<longleftrightarrow>
     co_digest s = campaign_digest d \<and> 0 \<le> co_revision s
     \<and> length (co_records s) \<le> nat CAMPAIGN_SUCCESS_TARGET
     \<and> (\<forall>i < length (co_records s). collection_record_ok d i (co_records s ! i))
     \<and> (\<forall>r \<in> set (butlast (co_records s)). accepted_record r)
     \<and> phase_ok (collection_phase s) (halt_reason s) (co_records s)"

lemma inv_revision [simp]:
  "0 \<le> n \<Longrightarrow> 0 \<le> co_revision s \<Longrightarrow> collection_inv d (s\<lparr>co_revision := n\<rparr>) \<longleftrightarrow> collection_inv d s"
  by (simp add: collection_inv_def)

lemma slot_unit_simps [simp]:
  "slot_index (slot_unit d i) = int i" "success_index (slot_unit d i) = int i"
  "requested_start (slot_unit d i) = collection_start d (int i)" "retry_index (slot_unit d i) = 0"
  by (simp_all add: slot_unit_def expected_unit_simps)

lemma record_ok_checked: "collection_record_ok d i r \<Longrightarrow> collection_record_post_init r = Inr ()"
  by (cases "co_phase r")
    (auto simp: collection_record_ok_def collection_record_post_init_def evidence_ok_def)

lemma canonical_ok:
  assumes "\<forall>i < length rs. slot_index (co_unit (rs ! i)) = k + int i \<and> success_index (co_unit (rs ! i)) = k + int i"
    and "\<forall>r \<in> set (butlast rs). accepted_record r"
  shows "canonical_schedule k k rs = Inr (k + int (count_where accepted_record rs))"
  using assms
proof (induction rs arbitrary: k)
  case (Cons r rs)
  have r: "slot_index (co_unit r) = k" "success_index (co_unit r) = k" using Cons.prems(1) by force+
  show ?case
  proof (cases rs)
    case Nil
    with r show ?thesis by simp
  next
    case (Cons q qs)
    have tail: "\<forall>i < length rs. slot_index (co_unit (rs ! i)) = (k + 1) + int i
        \<and> success_index (co_unit (rs ! i)) = (k + 1) + int i"
      using Cons.prems(1) by force
    have "accepted_record r" "\<forall>x \<in> set (butlast rs). accepted_record x"
      using Cons.prems(2) Cons by simp_all
    with Cons.IH [OF tail] r show ?thesis by simp
  qed
qed simp

lemma inv_schedule:
  assumes "collection_inv d s"
  shows "canonical_schedule 0 0 (co_records s) = Inr (captured_count s)"
    "captured_count s \<le> CAMPAIGN_SUCCESS_TARGET"
proof -
  have "canonical_schedule 0 0 (co_records s) = Inr (0 + int (count_where accepted_record (co_records s)))"
    using assms by (intro canonical_ok) (auto simp: collection_inv_def collection_record_ok_def)
  then show "canonical_schedule 0 0 (co_records s) = Inr (captured_count s)"
    by (simp add: captured_count_def)
  show "captured_count s \<le> CAMPAIGN_SUCCESS_TARGET"
    using assms count_where_le [of accepted_record "co_records s"]
    by (simp add: collection_inv_def captured_count_def campaign_constants)
qed

lemma inv_checked:
  assumes "collection_inv d s"
  shows "collection_state_post_init s = Inr ()"
proof -
  have ph: "phase_ok (collection_phase s) (halt_reason s) (co_records s)"
    and ac: "\<forall>r \<in> set (butlast (co_records s)). accepted_record r" and rev: "0 \<le> co_revision s"
    using assms by (simp_all add: collection_inv_def)
  have inside: "\<not> list_ex (\<lambda>r. co_phase r = REC_PLANNED) (butlast (co_records s))"
    using ac by (auto simp: list_ex_iff accepted_record_def)
  have closed: "\<not> (collection_phase s \<in> {ANALYZING, COLLECTION_COMPLETE}
      \<and> list_ex (\<lambda>r. co_phase r = REC_PLANNED) (co_records s))"
    "\<not> (collection_phase s = COLLECTION_COMPLETE
      \<and> list_ex (\<lambda>r. co_phase r \<in> {REC_CAPTURED, REC_ANALYSIS_FAILED}) (co_records s))"
    using ph by (cases "collection_phase s"; force simp: phase_ok_def list_ex_iff)+
  have stopped: "\<not> (collection_phase s = CAPTURING \<and> co_records s \<noteq> []
      \<and> co_phase (last (co_records s)) \<in> {REC_ABANDONED, REC_TERMINAL_FAILED})"
  proof
    assume a: "collection_phase s = CAPTURING \<and> co_records s \<noteq> []
      \<and> co_phase (last (co_records s)) \<in> {REC_ABANDONED, REC_TERMINAL_FAILED}"
    then have "co_phase (last (co_records s)) \<in> {REC_PLANNED, REC_CAPTURED}"
      using ph last_in_set [of "co_records s"] by (simp add: phase_ok_def)
    with a show False by auto
  qed
  show ?thesis
    using inv_schedule [OF assms] inside closed stopped rev ph
    by (simp add: collection_state_post_init_def phase_ok_def)
qed

lemma state_checked: "collection_inv d s \<Longrightarrow> checked_state s = Inr s"
  by (simp add: inv_checked)

lemma record_checked: "collection_record_ok d i r \<Longrightarrow> checked_record r = Inr r"
  by (simp add: record_ok_checked)

subsection \<open>What a step may change\<close>

text \<open>
  From one call to the next: identities and stored snapshots stay, finished records stay as
  they are, only the capture phase adds or captures records, it is never entered again, and
  only the analysis phase invokes an analysis.
\<close>

definition collection_step :: "collection_state \<Rightarrow> collection_state \<Rightarrow> bool" where
  "collection_step a b \<longleftrightarrow>
     length (co_records a) \<le> length (co_records b)
     \<and> (\<forall>i < length (co_records a).
          co_unit (co_records b ! i) = co_unit (co_records a ! i)
          \<and> (co_snapshot (co_records a ! i) \<noteq> None \<longrightarrow>
               co_snapshot (co_records b ! i) = co_snapshot (co_records a ! i))
          \<and> (co_phase (co_records a ! i) \<in> {REC_ABANDONED, REC_TERMINAL_FAILED, REC_COMPLETE} \<longrightarrow>
               co_records b ! i = co_records a ! i)
          \<and> (collection_phase a \<noteq> CAPTURING \<longrightarrow>
               co_captures (co_records b ! i) = co_captures (co_records a ! i))
          \<and> (collection_phase a \<noteq> ANALYZING \<longrightarrow>
               co_analyses (co_records b ! i) = co_analyses (co_records a ! i)))
     \<and> (collection_phase a \<noteq> CAPTURING \<longrightarrow>
          collection_phase b \<noteq> CAPTURING \<and> length (co_records b) = length (co_records a))"

lemma step_refl: "collection_step a a"
  by (simp add: collection_step_def)

lemma step_records:
  assumes "collection_step a s" and "co_records t = co_records s"
    and "collection_phase a = CAPTURING \<or> collection_phase t \<noteq> CAPTURING"
  shows "collection_step a t"
  using assms by (auto simp: collection_step_def)

lemma step_append:
  assumes "collection_step a s" and "collection_phase a = CAPTURING" and "co_records t = co_records s @ [r]"
  shows "collection_step a t"
  using assms by (simp add: collection_step_def nth_append)

lemma step_set:
  assumes "collection_step a s" and "i < length (co_records s)" and "co_records t = (co_records s)[i := r]"
    and "co_unit r = co_unit (co_records s ! i)"
    and "co_phase (co_records s ! i) \<notin> {REC_ABANDONED, REC_TERMINAL_FAILED, REC_COMPLETE}"
    and "co_snapshot (co_records s ! i) \<noteq> None \<longrightarrow> co_snapshot r = co_snapshot (co_records s ! i)"
    and "collection_phase a = CAPTURING \<or> co_captures r = co_captures (co_records s ! i)"
    and "collection_phase a = ANALYZING \<or> co_analyses r = co_analyses (co_records s ! i)"
    and "collection_phase a = CAPTURING \<or> collection_phase t \<noteq> CAPTURING"
  shows "collection_step a t"
  unfolding collection_step_def
proof (intro conjI allI impI)
  show "length (co_records a) \<le> length (co_records t)"
    using assms(1,3) by (simp add: collection_step_def)
next
  fix j
  assume "j < length (co_records a)"
  note a = assms(1) [unfolded collection_step_def, THEN conjunct2, THEN conjunct1, rule_format, OF this]
  have t: "co_records t ! j = (if j = i then r else co_records s ! j)"
    using assms(2,3) by auto
  show "co_unit (co_records t ! j) = co_unit (co_records a ! j)" using a t assms(4) by (cases "j = i") simp_all
  show "co_snapshot (co_records t ! j) = co_snapshot (co_records a ! j)"
    if "co_snapshot (co_records a ! j) \<noteq> None" using a t assms(6) that by (cases "j = i") simp_all
  show "co_records t ! j = co_records a ! j"
    if "co_phase (co_records a ! j) \<in> {REC_ABANDONED, REC_TERMINAL_FAILED, REC_COMPLETE}"
    using a t assms(5) that by (cases "j = i") (simp_all only: if_True if_False, metis)
  show "co_captures (co_records t ! j) = co_captures (co_records a ! j)" if "collection_phase a \<noteq> CAPTURING"
    using a t assms(7) that by (cases "j = i") simp_all
  show "co_analyses (co_records t ! j) = co_analyses (co_records a ! j)" if "collection_phase a \<noteq> ANALYZING"
    using a t assms(8) that by (cases "j = i") simp_all
qed (use assms(1,3,9) in \<open>auto simp: collection_step_def\<close>)

lemma inv_set:
  assumes "collection_inv d s" and "i < length (co_records s)" and "collection_record_ok d i r"
    and "accepted_record r \<or> Suc i = length (co_records s)"
    and "co_records t = (co_records s)[i := r]" "co_digest t = co_digest s" "0 \<le> co_revision t"
    and "phase_ok (collection_phase t) (halt_reason t) (co_records t)"
  shows "collection_inv d t"
proof -
  have "\<forall>q \<in> set (butlast ((co_records s)[i := r])). accepted_record q"
  proof (cases "Suc i = length (co_records s)")
    case True
    then have "i = length (co_records s) - 1" by simp
    then show ?thesis using assms(1) by (auto simp: butlast_list_update collection_inv_def)
  next
    case False
    have "butlast ((co_records s)[i := r]) = (butlast (co_records s))[i := r]"
    proof -
      have "i \<noteq> length (co_records s) - 1" using False assms(2) by arith
      then show ?thesis by (simp add: butlast_list_update)
    qed
    moreover have "set ((butlast (co_records s))[i := r]) \<subseteq> insert r (set (butlast (co_records s)))"
      by (rule set_update_subset_insert)
    ultimately show ?thesis using assms(1,4) False unfolding collection_inv_def by auto
  qed
  moreover have "\<forall>j < length (co_records s). collection_record_ok d j ((co_records s)[i := r] ! j)"
    using assms(1-3) by (auto simp: collection_inv_def nth_list_update)
  ultimately show ?thesis
    using assms(1,5-8) by (simp add: collection_inv_def)
qed

lemma inv_phase:
  assumes "collection_inv d s" and "co_records t = co_records s" "co_digest t = co_digest s" "0 \<le> co_revision t"
    and "phase_ok (collection_phase t) (halt_reason t) (co_records t)"
  shows "collection_inv d t"
  using assms by (simp add: collection_inv_def)

lemma inv_append:
  assumes "collection_inv d s" and "collection_phase s = CAPTURING"
    and "\<forall>q \<in> set (co_records s). co_phase q \<noteq> REC_PLANNED"
    and "length (co_records s) < nat CAMPAIGN_SUCCESS_TARGET"
    and "collection_record_ok d (length (co_records s)) r" and "co_phase r = REC_PLANNED"
  shows "collection_inv d (s\<lparr>co_records := co_records s @ [r]\<rparr>)"
proof -
  have "phase_ok CAPTURING (halt_reason s) (co_records s)" using assms(1,2) by (simp add: collection_inv_def)
  then have "\<forall>q \<in> set (co_records s). accepted_record q" "phase_ok CAPTURING (halt_reason s) (co_records s @ [r])"
    using assms(3,5,6) by (auto simp: phase_ok_def accepted_record_def collection_record_ok_def)
  then show ?thesis using assms by (simp add: collection_inv_def nth_append less_Suc_eq)
qed

subsection \<open>Every operation keeps it\<close>

text \<open>The exceptions of a call: what its ports raise, and what the code raises on purpose.\<close>

definition capture_errors :: "campaign_env \<Rightarrow> collection_error exn set" where
  "capture_errors env =
     {e. e = RuntimeError Collection_Capacity_Raised \<and> ce_capacity env = None
       \<or> e = RuntimeError Collection_Bad_Capacity \<and> (\<exists>a. ce_capacity env = Some a \<and> a < 0)
       \<or> e = SystemExit Collection_Died
           \<and> (\<exists>u start deadline. ce_capture env u start deadline = Died)}"

definition analysis_errors :: "campaign_env \<Rightarrow> collection_error exn set" where
  "analysis_errors env =
     {e. e = SystemExit Collection_Died \<and> (\<exists>s deadline. ce_analyze env s deadline = Died)}"

locale collection_run =
  cas_journal load_op cas_op current co_revision "\<lambda>x y. co_digest y = co_digest x"
  for load_op :: "('s, collection_state) collection_io"
    and cas_op :: "int \<Rightarrow> collection_state \<Rightarrow> ('s, collection_state) collection_io"
    and current :: "'s \<Rightarrow> collection_state option" +
  fixes d :: campaign_definition
begin

definition Q :: "collection_state \<Rightarrow> collection_result \<Rightarrow> 's \<Rightarrow> bool" where
  "Q a r s \<longleftrightarrow> current s = Some (co_state r) \<and> collection_inv d (co_state r) \<and> collection_step a (co_state r)"

definition E :: "collection_state \<Rightarrow> collection_error exn set \<Rightarrow> collection_error exn \<Rightarrow> 's \<Rightarrow> bool" where
  "E a X e s \<longleftrightarrow> e \<in> X \<and> holding (\<lambda>x. collection_inv d x \<and> collection_step a x) s"

abbreviation at_state :: "collection_state \<Rightarrow> collection_state \<Rightarrow> 's \<Rightarrow> bool" where
  "at_state a st s \<equiv> current s = Some st \<and> collection_inv d st \<and> collection_step a st"

lemma triple_at_pre:
  assumes "collection_inv d st \<Longrightarrow> triple (at_state a st) m Q' E'"
  shows "triple (at_state a st) m Q' E'"
proof (rule triple_pre)
  fix s
  assume s: "at_state a st s"
  then have "triple (at_state a st) m Q' E'" using assms by blast
  then show "triple (\<lambda>t. t = s) m Q' E'" using s by (auto elim: triple_weaken)
qed

lemma triple_step_pre:
  assumes "collection_step a st \<Longrightarrow> triple (at_state a st) m Q' E'"
  shows "triple (at_state a st) m Q' E'"
proof (rule triple_pre)
  fix s
  assume s: "at_state a st s"
  then have "triple (at_state a st) m Q' E'" using assms by blast
  then show "triple (\<lambda>t. t = s) m Q' E'" using s by (auto elim: triple_weaken)
qed

lemma triple_ret_result: "triple (at_state a st) (ret (collection_result_of status st u)) (Q a) (E a X)"
  by (rule triple_ret) (auto simp: Q_def collection_result_of_def)

lemma triple_port_then:
  assumes "\<And>answer. triple (at_state a st) (f answer) (Q a) (E a X)"
    and "p = Died \<Longrightarrow> SystemExit Collection_Died \<in> X"
  shows "triple (at_state a st) (bind_io (call_port Collection_Died p) f) (Q a) (E a X)"
proof (rule triple_bind)
  show "triple (at_state a st) (call_port Collection_Died p) (\<lambda>_. at_state a st) (E a X)"
    using assms(2) by (intro triple_call_port) (auto simp: E_def holding_def)
qed (rule assms(1))

lemma triple_store_then:
  assumes "collection_inv d y" and "collection_step a y" and "co_digest y = co_digest st"
    and "\<And>z. z = y\<lparr>co_revision := co_revision st + 1\<rparr> \<Longrightarrow> triple (at_state a z) (f z) (Q a) (E a X)"
  shows "triple (at_state a st) (bind_io (collection_store cas_op y st) f) (Q a) (E a X)"
proof (rule triple_at_pre)
  assume st: "collection_inv d st"
  let ?z = "y\<lparr>co_revision := co_revision st + 1\<rparr>"
  have z: "collection_inv d ?z"
    using assms(1) st by (simp add: collection_inv_def)
  have step: "collection_step a ?z"
    using assms(2) by (simp add: collection_step_def)
  have "triple (at_state a st) (collection_store cas_op y st) (\<lambda>w s. w = ?z \<and> at_state a ?z s) (E a X)"
    unfolding collection_store_def state_checked [OF z] bind_lift
    by (rule triple_cas [where x = st]) (use z step assms(3) in auto)
  then show "triple (at_state a st) (bind_io (collection_store cas_op y st) f) (Q a) (E a X)"
    by (rule triple_bind_eq) (use assms(4) in simp)
qed

lemma triple_halt:
  assumes "collection_inv d st" "collection_step a st"
    and "phase_ok HALTED (Some reason) (co_records st)"
  shows "triple (at_state a st) (bind_io (collection_halt cas_op st reason)
    (\<lambda>h. ret (collection_result_of status h u))) (Q a) (E a X)"
proof -
  let ?h = "st\<lparr>collection_phase := HALTED, halt_reason := Some reason\<rparr>"
  have h: "collection_inv d ?h"
    using assms(1,3) by (simp add: collection_inv_def)
  have step: "collection_step a ?h" using assms(2) by (rule step_records) simp_all
  have assoc: "bind_io (collection_halt cas_op st reason) f = bind_io (collection_store cas_op ?h st) f" for f :: "collection_state \<Rightarrow> ('s, collection_result) collection_io"
    by (simp add: collection_halt_def state_checked [OF h])
  show ?thesis
    unfolding assoc
    by (rule triple_store_then [OF h step]) (simp_all add: triple_ret_result)
qed

lemma triple_replace_then:
  assumes "collection_inv d st" and "collection_step a st" and "i < length (co_records st)"
    and "collection_record_ok d i r" and "accepted_record r \<or> Suc i = length (co_records st)"
    and "phase_ok (collection_phase st) (halt_reason st) ((co_records st)[i := r])"
    and "collection_step a (st\<lparr>co_records := (co_records st)[i := r]\<rparr>)"
    and "\<And>z. z = st\<lparr>co_records := (co_records st)[i := r], co_revision := co_revision st + 1\<rparr> \<Longrightarrow>
      collection_inv d z \<Longrightarrow> collection_step a z \<Longrightarrow> triple (at_state a z) (f z) (Q a) (E a X)"
  shows "triple (at_state a st) (bind_io (replace_record cas_op st i r) f) (Q a) (E a X)"
proof -
  let ?y = "st\<lparr>co_records := (co_records st)[i := r]\<rparr>"
  have rev: "0 \<le> co_revision st" using assms(1) by (simp add: collection_inv_def)
  have y: "collection_inv d ?y"
    by (rule inv_set [OF assms(1,3-5)]) (use assms(6) rev in simp_all)
  have unit: "co_unit (co_records st ! i) = co_unit r"
    using assms(1,3,4) by (simp add: collection_inv_def collection_record_ok_def)
  have e: "bind_io (replace_record cas_op st i r) f = bind_io (collection_store cas_op ?y st) f"
    using assms(3) unit
    by (simp add: replace_record_def records_with_def state_checked [OF y])
  show ?thesis
    unfolding e
    by (rule triple_store_then [OF y assms(7)])
      (use assms(8) y rev assms(7) in \<open>auto simp: collection_inv_def collection_step_def\<close>)
qed

lemma triple_halt_with:
  assumes "collection_inv d st" and "collection_step a st" and "co_records st \<noteq> []"
    and "collection_record_ok d (length (co_records st) - 1) r"
    and "phase_ok HALTED (Some reason) ((co_records st)[length (co_records st) - 1 := r])"
    and "collection_step a (st\<lparr>co_records := (co_records st)[length (co_records st) - 1 := r],
      collection_phase := HALTED, halt_reason := Some reason\<rparr>)"
  shows "triple (at_state a st) (bind_io (halt_with cas_op st r reason)
    (\<lambda>h. ret (collection_result_of status h u))) (Q a) (E a X)"
proof -
  define i where "i = length (co_records st) - 1"
  let ?h = "st\<lparr>co_records := (co_records st)[i := r], collection_phase := HALTED, halt_reason := Some reason\<rparr>"
  have i: "i < length (co_records st)" "Suc i = length (co_records st)" using assms(3) by (simp_all add: i_def)
  note a = assms(4-6) [folded i_def]
  have rev: "0 \<le> co_revision st" using assms(1) by (simp add: collection_inv_def)
  have h: "collection_inv d ?h"
    by (rule inv_set [OF assms(1) i(1) a(1)]) (use a(2) rev i(2) in simp_all)
  have unit: "co_unit (co_records st ! i) = co_unit r"
    using assms(1) a(1) i by (simp add: collection_inv_def collection_record_ok_def)
  have e: "bind_io (halt_with cas_op st r reason) f = bind_io (collection_store cas_op ?h st) f"
    for f :: "collection_state \<Rightarrow> ('s, collection_result) collection_io"
    using i unit by (simp add: halt_with_def i_def [symmetric] records_with_def state_checked [OF h] del: One_nat_def)
  show ?thesis
    unfolding e by (rule triple_store_then [OF h a(3)]) (simp_all add: triple_ret_result)
qed

lemma triple_capture_planned:
  assumes "collection_phase a = CAPTURING" and "collection_phase st = CAPTURING"
    and "co_records st \<noteq> []" and "r = last (co_records st)" and "co_phase r = REC_PLANNED"
    and "co_captures r < maximum_capture_invocations d" and "capture_errors env \<subseteq> X"
  shows "triple (at_state a st) (capture_planned cas_op d margin env now st r) (Q a) (E a X)"
proof (rule triple_at_pre, rule triple_step_pre)
  assume inv: "collection_inv d st" and step: "collection_step a st"
  define i where "i = length (co_records st) - 1"
  have i: "i < length (co_records st)" "Suc i = length (co_records st)" "co_records st ! i = r"
    using assms(3,4) by (simp_all add: i_def last_conv_nth)
  have ok: "collection_record_ok d i r" using inv i by (auto simp: collection_inv_def)
  have u: "co_unit r = slot_unit d i" using ok by (simp add: collection_record_ok_def)
  have capt: "phase_ok CAPTURING (halt_reason st) (co_records st)"
    using inv assms(2) by (simp add: collection_inv_def)
  have set_capt: "phase_ok CAPTURING (halt_reason st) ((co_records st)[i := q])"
    if "co_phase q \<in> {REC_PLANNED, REC_CAPTURED}" "co_analyses q = 0" for q
    using capt that set_update_subset_insert [of "co_records st" i q] by (auto simp: phase_ok_def)
  have set_halt: "phase_ok HALTED (Some reason) ((co_records st)[i := q])"
    if "co_phase q \<noteq> REC_PLANNED" "reason \<noteq> HALT_UNCERTAIN" for q reason
    using inv that update_last [OF assms(3)]
    by (auto simp: phase_ok_def collection_inv_def i_def accepted_record_def)
  have abandoned: "collection_record_ok d i (r\<lparr>co_phase := REC_ABANDONED\<rparr>)"
    using ok assms(5) by (simp add: collection_record_ok_def)
  define ir where "ir = r\<lparr>co_captures := co_captures r + 1\<rparr>"
  have ir: "collection_record_ok d i ir" "co_phase ir = REC_PLANNED" "co_analyses ir = 0" "co_unit ir = co_unit r"
    "co_snapshot ir = None"
    using ok assms(5,6) by (simp_all add: ir_def collection_record_ok_def)
  have r0: "co_snapshot r = None" "co_analyses r = 0" using ok assms(5) by (simp_all add: collection_record_ok_def)
  have capacity: "triple (at_state a st) (bind_io (lift (collection_capacity margin env st)) f) (Q a) (E a X)"
    if "\<And>b. triple (at_state a st) (f b) (Q a) (E a X)" for f
  proof (rule triple_bind)
    show "triple (at_state a st) (lift (collection_capacity margin env st)) (\<lambda>_. at_state a st) (E a X)"
      using assms(7) by (intro triple_lift)
        (auto simp: E_def holding_def collection_capacity_def capture_errors_def split: option.splits if_splits)
  qed (rule that)
  have answered: "triple (at_state a z)
     (case answer of
        None \<Rightarrow> ret (collection_result_of ST_CAPTURE_UNCERTAIN z (Some (co_unit r)))
      | Some snapshot \<Rightarrow>
          if \<not> terminal snapshot \<or> bs_definition snapshot \<noteq> unit_batch (co_unit r)
          then ret (collection_result_of ST_CAPTURE_UNCERTAIN z (Some (co_unit r)))
          else if \<not> collection_snapshot_ok d (co_unit r) snapshot
          then
            bind_io (lift (checked_record (ir\<lparr>co_phase := REC_TERMINAL_FAILED, co_snapshot := Some snapshot\<rparr>))) (\<lambda>failure.
            bind_io (halt_with cas_op z failure INTEGRITY_FAILURE) (\<lambda>halted.
              ret (collection_result_of ST_HALTED halted (Some (co_unit r)))))
          else
            bind_io (lift (checked_record (ir\<lparr>co_phase := REC_CAPTURED, co_snapshot := Some snapshot\<rparr>))) (\<lambda>captured.
            bind_io (replace_record cas_op z i captured) (\<lambda>s.
              ret (collection_result_of ST_CAPTURED s (Some (co_unit r)))))) (Q a) (E a X)"
    if z: "z = st\<lparr>co_records := (co_records st)[i := ir], co_revision := co_revision st + 1\<rparr>"
      "collection_inv d z" "collection_step a z" for z answer
  proof -
    have failed: "collection_record_ok d i (ir\<lparr>co_phase := REC_TERMINAL_FAILED, co_snapshot := Some snap\<rparr>)"
      if "terminal snap" "bs_definition snap = unit_batch (co_unit r)" "\<not> collection_snapshot_ok d (co_unit r) snap" for snap
      using ok assms(5,6) that by (simp add: ir_def collection_record_ok_def evidence_ok_def)
    have captured: "collection_record_ok d i (ir\<lparr>co_phase := REC_CAPTURED, co_snapshot := Some snap\<rparr>)"
      if "terminal snap" "bs_definition snap = unit_batch (co_unit r)" "collection_snapshot_ok d (co_unit r) snap" for snap
      using ok assms(5,6) that by (simp add: ir_def collection_record_ok_def evidence_ok_def)
    have step_z: "collection_step a t" if "co_records t = (co_records z)[i := q]" "co_unit q = co_unit r" "co_analyses q = 0" for t q
      using i ir z(1) that by (intro step_set [OF z(3), of i t q]) (simp_all add: assms(1) ir_def r0)
    have stop: "triple (at_state a z) (bind_io (halt_with cas_op z
        (ir\<lparr>co_phase := REC_TERMINAL_FAILED, co_snapshot := Some snap\<rparr>) INTEGRITY_FAILURE)
        (\<lambda>h. ret (collection_result_of ST_HALTED h (Some (co_unit r))))) (Q a) (E a X)"
      if "terminal snap" "bs_definition snap = unit_batch (co_unit r)" "\<not> collection_snapshot_ok d (co_unit r) snap" for snap
      using failed [OF that] i z(1) ir(4) set_halt [of "ir\<lparr>co_phase := REC_TERMINAL_FAILED, co_snapshot := Some snap\<rparr>" INTEGRITY_FAILURE]
      by (intro triple_halt_with [OF z(2,3)] step_z [where q = "ir\<lparr>co_phase := REC_TERMINAL_FAILED, co_snapshot := Some snap\<rparr>"])
        (simp_all add: i_def [symmetric] assms(3) ir(3) del: One_nat_def)
    have finish: "triple (at_state a z) (bind_io (replace_record cas_op z i
        (ir\<lparr>co_phase := REC_CAPTURED, co_snapshot := Some snap\<rparr>))
        (\<lambda>s. ret (collection_result_of ST_CAPTURED s (Some (co_unit r))))) (Q a) (E a X)"
      if "terminal snap" "bs_definition snap = unit_batch (co_unit r)" "collection_snapshot_ok d (co_unit r) snap" for snap
      using captured [OF that] i z(1) ir(3,4) set_capt [of "ir\<lparr>co_phase := REC_CAPTURED, co_snapshot := Some snap\<rparr>"]
      by (intro triple_replace_then [OF z(2,3)] triple_ret_result
          step_z [where q = "ir\<lparr>co_phase := REC_CAPTURED, co_snapshot := Some snap\<rparr>"])
        (simp_all add: accepted_record_def assms(2))
    show ?thesis
    proof (cases answer)
      case None
      then show ?thesis by (simp add: triple_ret_result)
    next
      case (Some snap)
      show ?thesis
      proof (cases "terminal snap \<and> bs_definition snap = unit_batch (co_unit r)")
        case True
        then show ?thesis
          using Some failed [of snap] captured [of snap] stop [of snap] finish [of snap]
          by (cases "collection_snapshot_ok d (co_unit r) snap") (simp_all add: record_checked)
      next
        case False
        then show ?thesis using Some by (auto simp: triple_ret_result)
      qed
    qed
  qed
  have step_st: "collection_step a t"
    if "co_records t = (co_records st)[i := q]" "co_unit q = co_unit r" "co_analyses q = 0" for t q
    using i that by (intro step_set [OF step, of i t q]) (simp_all add: assms(1,5) r0)
  have invoke: "triple (at_state a st) (bind_io (replace_record cas_op st i ir) (\<lambda>s.
      bind_io (call_port Collection_Died (ce_capture env (co_unit r) requested (collection_deadline d (co_unit r)))) (g s)))
      (Q a) (E a X)"
    if "\<And>z answer. z = st\<lparr>co_records := (co_records st)[i := ir], co_revision := co_revision st + 1\<rparr> \<Longrightarrow>
      collection_inv d z \<Longrightarrow> collection_step a z \<Longrightarrow> triple (at_state a z) (g z answer) (Q a) (E a X)" for g requested
    using ir i set_capt [of ir] assms(7)
    by (intro triple_replace_then [OF inv step i(1)] step_st [where q = ir] triple_port_then that)
      (auto simp: assms(2) capture_errors_def)
  have miss: "triple (at_state a st) (bind_io (halt_with cas_op st (r\<lparr>co_phase := REC_ABANDONED\<rparr>) HALT_MISSED_SLOT)
      (\<lambda>h. ret (collection_result_of ST_HALTED h (Some (co_unit r))))) (Q a) (E a X)"
    using abandoned i r0 set_halt [of "r\<lparr>co_phase := REC_ABANDONED\<rparr>" HALT_MISSED_SLOT]
    by (intro triple_halt_with [OF inv step assms(3)] step_st [where q = "r\<lparr>co_phase := REC_ABANDONED\<rparr>"])
      (simp_all add: i_def [symmetric] del: One_nat_def)
  show "triple (at_state a st) (capture_planned cas_op d margin env now st r) (Q a) (E a X)"
    unfolding capture_planned_def Let_def i_def [symmetric] ir_def [symmetric] record_checked [OF abandoned]
      record_checked [OF ir(1)] bind_lift
    by (intro triple_if triple_ret_result miss capacity invoke answered)
qed

lemma capturing_facts:
  assumes "collection_inv d st" and "collection_phase st = CAPTURING" and "\<forall>r \<in> set (co_records st). co_phase r \<noteq> REC_PLANNED"
  shows "captured_count st = int (length (co_records st))"
proof -
  have "\<forall>r \<in> set (co_records st). accepted_record r"
    using assms by (auto simp: collection_inv_def phase_ok_def accepted_record_def)
  then show ?thesis by (simp add: captured_count_def count_where_def)
qed

lemma triple_capture_fresh:
  assumes main: "valid_campaign d" "\<not> qualification d"
    and "collection_phase a = CAPTURING" and "collection_phase st = CAPTURING"
    and none: "\<forall>r \<in> set (co_records st). co_phase r \<noteq> REC_PLANNED"
    and "captured_count st < CAMPAIGN_SUCCESS_TARGET" and "capture_errors env \<subseteq> X"
  shows "triple (at_state a st) (capture_fresh cas_op d margin env now st) (Q a) (E a X)"
proof (rule triple_at_pre, rule triple_step_pre)
  assume inv: "collection_inv d st" and step: "collection_step a st"
  let ?n = "length (co_records st)"
  let ?u = "slot_unit d ?n"
  have n: "captured_count st = int ?n" using capturing_facts [OF inv assms(4) none] .
  have halt: "phase_ok HALTED (Some reason) (co_records st)" if "reason \<noteq> HALT_UNCERTAIN" for reason
    using none that by (auto simp: phase_ok_def)
  have pos: "0 \<le> collection_start d (int ?n)"
    using main(1) by (simp add: collection_start_def campaign_definition_post_init_def)
  have build: "build_campaign_unit d (captured_count st) (int ?n) 0 (collection_start d (int ?n)) = Inr ?u"
    unfolding slot_unit_def n using assms(6) main(1) pos n by (intro built_unit(1)) auto
  have ok: "collection_record_ok d ?n (new_record ?u)"
    using main(1) by (simp add: collection_record_ok_def new_record_def campaign_definition_post_init_def)
  let ?p = "st\<lparr>co_records := co_records st @ [new_record ?u]\<rparr>"
  have p: "collection_inv d ?p"
    using assms(6) n ok by (intro inv_append [OF inv assms(4) none]) (simp_all add: new_record_def)
  have step_p: "collection_step a ?p" by (rule step_append [OF step assms(3)]) simp
  have less: "0 < maximum_capture_invocations d" using main(1) by (simp add: campaign_definition_post_init_def)
  have fresh: "triple (at_state a z)
      (if now < collection_start d (int ?n) - preflight_lead_ns d
       then ret (collection_result_of ST_NOT_DUE z (Some ?u))
       else capture_planned cas_op d margin env now z (last (co_records z))) (Q a) (E a X)"
    if "z = ?p\<lparr>co_revision := co_revision st + 1\<rparr>" for z
    using that less assms(3,4,7)
    by (intro triple_if triple_ret_result triple_capture_planned) (simp_all add: new_record_def)
  show "triple (at_state a st) (capture_fresh cas_op d margin env now st) (Q a) (E a X)"
    unfolding capture_fresh_def Let_def build embed_exn_def map_sum.simps id_apply bind_lift
      record_checked [OF ok] state_checked [OF p]
    by (intro triple_if triple_halt inv step halt triple_store_then p step_p fresh) simp_all
qed

lemma triple_loaded:
  assumes "collection_inv d a" and "triple (at_state a a) (f a) (Q a) (E a X)"
  shows "triple (\<lambda>s. current s = Some a) (bind_io load_op f) (Q a) (E a X)"
proof (rule triple_bind_eq)
  show "triple (\<lambda>s. current s = Some a) load_op (\<lambda>z s. z = a \<and> at_state a a s) (E a X)"
    using assms(1) step_refl by (intro triple_load) auto
qed (rule assms(2))

lemma triple_capture_next:
  assumes "valid_campaign d" "\<not> qualification d" and "capture_errors env \<subseteq> X" and inv: "collection_inv d a"
  shows "triple (\<lambda>s. current s = Some a) (capture_next load_op cas_op d margin env now) (Q a) (E a X)"
  unfolding capture_next_def
proof (rule triple_loaded [OF inv])
  have ph: "phase_ok (collection_phase a) (halt_reason a) (co_records a)"
    and ac: "\<forall>r \<in> set (butlast (co_records a)). accepted_record r" using inv by (simp_all add: collection_inv_def)
  have closed: "triple (at_state a a) (bind_io (lift (checked_state (a\<lparr>collection_phase := ANALYZING\<rparr>))) (\<lambda>b.
        bind_io (collection_store cas_op b a) (\<lambda>closed.
          ret (collection_result_of ST_CAPTURE_PHASE_CLOSED closed None)))) (Q a) (E a X)"
    if "collection_phase a = CAPTURING" "captured_count a \<ge> CAMPAIGN_SUCCESS_TARGET"
  proof -
    have full: "length (co_records a) \<le> count_where accepted_record (co_records a)"
      using inv that(2) by (simp add: captured_count_def collection_inv_def campaign_constants)
    have "\<forall>r \<in> set (co_records a). accepted_record r"
    proof (rule ccontr)
      assume "\<not> (\<forall>r \<in> set (co_records a). accepted_record r)"
      then have "length (filter accepted_record (co_records a)) < length (co_records a)"
        by (auto intro: length_filter_less)
      with full show False by (simp add: count_where_def)
    qed
    then have "phase_ok ANALYZING (halt_reason a) (co_records a)"
      using ph that(1) by (auto simp: phase_ok_def accepted_record_def)
    then have b: "collection_inv d (a\<lparr>collection_phase := ANALYZING\<rparr>)"
      using inv by (simp add: collection_inv_def)
    have step: "collection_step a (a\<lparr>collection_phase := ANALYZING\<rparr>)"
      by (rule step_records [OF step_refl]) simp_all
    show ?thesis
      unfolding state_checked [OF b] bind_lift
      by (intro triple_store_then b step triple_ret_result) simp
  qed
  have all_planned: "\<forall>r \<in> set (co_records a). co_phase r \<noteq> REC_PLANNED"
    if "\<forall>r. last_opt (co_records a) = Some r \<longrightarrow> co_phase r \<noteq> REC_PLANNED"
  proof (cases "co_records a" rule: rev_cases)
    case (snoc ys y)
    with that ac show ?thesis by (auto simp: accepted_record_def)
  qed simp
  have halt: "phase_ok HALTED (Some HALT_UNCERTAIN) (co_records a)"
    if "last_opt (co_records a) = Some r" "co_phase r = REC_PLANNED" for r
    using last_optD [OF that(1)] that(2) last_in_set by (fastforce simp: phase_ok_def)
  have lastr: "co_records a \<noteq> []" "r = last (co_records a)" if "last_opt (co_records a) = Some r" for r
    using last_optD [OF that] by simp_all
  show "triple (at_state a a) (capture_next_from cas_op d margin env now a) (Q a) (E a X)"
    unfolding capture_next_from_def
    using all_planned assms(1-3)
    by (intro triple_if triple_ret_result triple_option triple_halt triple_capture_fresh triple_capture_planned
        closed inv step_refl halt lastr) auto
qed

lemma triple_close_capture:
  assumes inv: "collection_inv d a" and "RuntimeError Unresolved_Capture \<in> X"
  shows "triple (\<lambda>s. current s = Some a) (close_capture load_op cas_op) (Q a) (E a X)"
  unfolding close_capture_def
proof (rule triple_loaded [OF inv])
  have ac: "\<forall>r \<in> set (butlast (co_records a)). accepted_record r" using inv by (simp add: collection_inv_def)
  let ?b = "a\<lparr>collection_phase := ANALYZING, halt_reason := None\<rparr>"
  have close: "triple (at_state a a) (bind_io (lift (checked_state ?b)) (\<lambda>b.
        bind_io (collection_store cas_op b a) (\<lambda>closed.
          ret (collection_result_of ST_ANALYSIS_PENDING closed None)))) (Q a) (E a X)"
    if "\<not> (co_records a \<noteq> [] \<and> co_phase (last (co_records a)) = REC_PLANNED)"
  proof -
    have "\<forall>r \<in> set (co_records a). co_phase r \<noteq> REC_PLANNED"
    proof (cases "co_records a" rule: rev_cases)
      case (snoc ys y)
      with that ac show ?thesis by (auto simp: accepted_record_def)
    qed simp
    then have b: "collection_inv d ?b"
      using inv by (simp add: collection_inv_def phase_ok_def)
    have step: "collection_step a ?b" by (rule step_records [OF step_refl]) simp_all
    show ?thesis
      unfolding state_checked [OF b] bind_lift
      by (intro triple_store_then b step triple_ret_result) simp
  qed
  have stuck: "triple (at_state a a) (lift (Inl (RuntimeError Unresolved_Capture))) (Q a) (E a X)"
    using assms(2) by (intro triple_lift) (auto simp: E_def holding_def)
  show "triple (at_state a a)
      (if collection_phase a = COLLECTION_COMPLETE then ret (collection_result_of ST_COMPLETE a None)
       else if collection_phase a = ANALYZING then ret (collection_result_of ST_ANALYSIS_PENDING a None)
       else if co_records a \<noteq> [] \<and> co_phase (last (co_records a)) = REC_PLANNED
       then lift (Inl (RuntimeError Unresolved_Capture))
       else bind_io (lift (checked_state ?b)) (\<lambda>b.
         bind_io (collection_store cas_op b a) (\<lambda>closed.
           ret (collection_result_of ST_ANALYSIS_PENDING closed None)))) (Q a) (E a X)"
    by (intro triple_if triple_ret_result stuck close)
qed

lemma triple_halt_analysis:
  assumes inv: "collection_inv d a" and "RuntimeError Analysis_Not_Open \<in> X"
  shows "triple (\<lambda>s. current s = Some a) (halt_analysis load_op cas_op) (Q a) (E a X)"
  unfolding halt_analysis_def
proof (rule triple_loaded [OF inv])
  have raise: "triple (at_state a a) (lift (Inl (RuntimeError Analysis_Not_Open))) (Q a) (E a X)"
    using assms(2) by (intro triple_lift) (auto simp: E_def holding_def)
  have halt: "phase_ok HALTED (Some HALT_ANALYSIS) (co_records a)" if "collection_phase a = ANALYZING"
    using inv that by (auto simp: collection_inv_def phase_ok_def)
  show "triple (at_state a a)
      (if collection_phase a = HALTED then ret (collection_result_of ST_HALTED a None)
       else if collection_phase a \<noteq> ANALYZING then lift (Inl (RuntimeError Analysis_Not_Open))
       else bind_io (collection_halt cas_op a HALT_ANALYSIS) (\<lambda>h. ret (collection_result_of ST_HALTED h None)))
      (Q a) (E a X)"
    by (intro triple_if triple_ret_result raise triple_halt inv step_refl halt) simp
qed

lemma triple_analyze_record:
  assumes inv: "collection_inv d a" and ph: "collection_phase a = ANALYZING"
    and i: "i < length (co_records a)" "co_records a ! i = r" and pend: "pending_record r"
    and X: "analysis_errors env \<subseteq> X"
  shows "triple (at_state a a) (analyze_record cas_op d env deadline a i r) (Q a) (E a X)"
proof -
  have ok: "collection_record_ok d i r" using inv i by (auto simp: collection_inv_def)
  obtain snap where snap: "co_snapshot r = Some snap" "evidence_ok d r snap"
      "collection_snapshot_ok d (co_unit r) snap" "0 < co_captures r"
    using ok pend by (auto simp: collection_record_ok_def pending_record_def evidence_ok_def)
  have open_all: "phase_ok ANALYZING (halt_reason a) (co_records a)"
    using inv ph by (simp add: collection_inv_def)
  have set_open: "phase_ok ANALYZING (halt_reason a) ((co_records a)[i := q])" if "accepted_record q" for q
    using open_all that set_update_subset_insert [of "co_records a" i q]
    by (auto simp: phase_ok_def accepted_record_def)
  have halt: "phase_ok HALTED (Some HALT_ANALYSIS) (co_records a)"
    using open_all by (auto simp: phase_ok_def)
  show ?thesis
  proof (cases "co_analyses r \<ge> maximum_analysis_invocations d")
    case True
    then show ?thesis
      unfolding analyze_record_def snap(1) option.case
      using triple_halt [OF inv step_refl halt] by simp
  next
    case False
    define ir where "ir = r\<lparr>co_analyses := co_analyses r + 1\<rparr>"
    have ir: "collection_record_ok d i ir" "accepted_record ir" "co_unit ir = co_unit r"
      "co_captures ir = co_captures r" "co_snapshot ir = Some snap" "pending_record ir"
      using ok False pend snap(1)
      by (auto simp: ir_def collection_record_ok_def pending_record_def accepted_record_def evidence_ok_def)
    have failed: "collection_record_ok d i (ir\<lparr>co_phase := REC_ANALYSIS_FAILED\<rparr>)"
      using ir(1,6) snap(4) ok by (auto simp: ir_def collection_record_ok_def pending_record_def evidence_ok_def)
    have complete: "collection_record_ok d i (ir\<lparr>co_phase := REC_COMPLETE, co_receipt := Some rc\<rparr>)"
      if "collection_receipt_ok snap rc" for rc
      using ir(1) ok snap that by (auto simp: ir_def collection_record_ok_def evidence_ok_def)
    have step_a: "collection_step a t"
      if "co_records t = (co_records a)[i := q]" "co_unit q = co_unit r" "co_snapshot q = Some snap"
        "co_captures q = co_captures r" "collection_phase t \<noteq> CAPTURING" for t q
      using i that pend snap(1)
      by (intro step_set [OF step_refl, of i a t q]) (auto simp: ph pending_record_def)
    have step_z: "collection_step a t"
      if "collection_step a z" "co_records z = (co_records a)[i := ir]" "co_records t = (co_records z)[i := q]"
        "co_unit q = co_unit r" "co_snapshot q = Some snap"
        "co_captures q = co_captures r" "collection_phase t \<noteq> CAPTURING" for t q z
      using i that ir
      by (intro step_set [OF that(1), of i t q]) (auto simp: ph pending_record_def)
    have finish: "triple (at_state a z) (bind_io (lift (checked_record q)) (\<lambda>f.
        bind_io (replace_record cas_op z i f) (\<lambda>s. ret (collection_result_of status s u)))) (Q a) (E a X)"
      if z: "z = a\<lparr>co_records := (co_records a)[i := ir], co_revision := co_revision a + 1\<rparr>"
        "collection_inv d z" "collection_step a z"
      and q: "collection_record_ok d i q" "accepted_record q" "co_unit q = co_unit r"
        "co_snapshot q = Some snap" "co_captures q = co_captures r" for z q status u
      unfolding record_checked [OF q(1)] bind_lift
      using i q set_open [OF q(2)] z(1)
      by (intro triple_replace_then [OF z(2,3)] triple_ret_result step_z [OF z(3), of _ q]) (simp_all add: ph)
    have failed_facts: "accepted_record (ir\<lparr>co_phase := REC_ANALYSIS_FAILED\<rparr>)"
      "accepted_record (ir\<lparr>co_phase := REC_COMPLETE, co_receipt := Some rc\<rparr>)" for rc
      by (simp_all add: accepted_record_def)
    have settle: "triple (at_state a z)
        (case (case answer of None \<Rightarrow> None
                | Some rc \<Rightarrow> if collection_receipt_ok snap rc \<and> \<not> rc_completed_utc_ns rc > deadline
                            then Some rc else None) of
           None \<Rightarrow>
             bind_io (lift (checked_record (ir\<lparr>co_phase := REC_ANALYSIS_FAILED\<rparr>))) (\<lambda>failed.
             bind_io (replace_record cas_op z i failed) (\<lambda>s.
               ret (collection_result_of ST_ANALYSIS_PENDING s (Some (co_unit r)))))
         | Some rc \<Rightarrow>
             bind_io (lift (checked_record (ir\<lparr>co_phase := REC_COMPLETE, co_receipt := Some rc\<rparr>))) (\<lambda>complete_record.
             bind_io (replace_record cas_op z i complete_record) (\<lambda>s.
               ret (collection_result_of ST_ANALYZED s (Some (co_unit r)))))) (Q a) (E a X)"
      if z: "z = a\<lparr>co_records := (co_records a)[i := ir], co_revision := co_revision a + 1\<rparr>"
        "collection_inv d z" "collection_step a z" for z answer
    proof (rule triple_option)
      show "triple (at_state a z) (bind_io (lift (checked_record (ir\<lparr>co_phase := REC_ANALYSIS_FAILED\<rparr>))) (\<lambda>failed.
             bind_io (replace_record cas_op z i failed) (\<lambda>s.
               ret (collection_result_of ST_ANALYSIS_PENDING s (Some (co_unit r)))))) (Q a) (E a X)"
        by (rule finish [OF z failed failed_facts(1)]) (simp_all add: ir)
      fix rc
      assume "(case answer of None \<Rightarrow> None
                | Some rc \<Rightarrow> if collection_receipt_ok snap rc \<and> \<not> rc_completed_utc_ns rc > deadline
                            then Some rc else None) = Some rc"
      then have rc: "collection_receipt_ok snap rc" by (auto split: option.splits if_splits)
      show "triple (at_state a z) (bind_io (lift (checked_record (ir\<lparr>co_phase := REC_COMPLETE, co_receipt := Some rc\<rparr>)))
          (\<lambda>complete_record. bind_io (replace_record cas_op z i complete_record) (\<lambda>s.
               ret (collection_result_of ST_ANALYZED s (Some (co_unit r)))))) (Q a) (E a X)"
        by (rule finish [OF z complete [OF rc] failed_facts(2)]) (simp_all add: ir)
    qed
    show ?thesis
      unfolding analyze_record_def snap(1) option.case if_not_P [OF False] ir_def [symmetric]
        record_checked [OF ir(1)] bind_lift
      using ir i X set_open [OF ir(2)]
      by (intro triple_replace_then [OF inv step_refl i(1)] step_a [where q = ir] triple_port_then settle)
        (auto simp: ph analysis_errors_def)
  qed
qed

lemma triple_analyze_next:
  assumes inv: "collection_inv d a" and "analysis_errors env \<subseteq> X"
  shows "triple (\<lambda>s. current s = Some a) (analyze_next load_op cas_op d env deadline) (Q a) (E a X)"
  unfolding analyze_next_def
proof (rule triple_loaded [OF inv])
  let ?b = "a\<lparr>collection_phase := COLLECTION_COMPLETE\<rparr>"
  have finish: "triple (at_state a a) (bind_io (lift (checked_state ?b)) (\<lambda>c.
        bind_io (collection_store cas_op c a) (\<lambda>closed. ret (collection_result_of ST_COMPLETE closed None)))) (Q a) (E a X)"
    if "find_index pending_record (co_records a) = None" "collection_phase a = ANALYZING"
  proof -
    have b: "collection_inv d ?b"
      using inv that by (auto simp: collection_inv_def phase_ok_def find_index_None pending_record_def)
    have step: "collection_step a ?b" by (rule step_records [OF step_refl]) simp_all
    show ?thesis
      unfolding state_checked [OF b] bind_lift
      by (intro triple_store_then b step triple_ret_result) simp
  qed
  show "triple (at_state a a)
      (if collection_phase a = HALTED then ret (collection_result_of ST_HALTED a None)
       else if collection_phase a = CAPTURING then ret (collection_result_of ST_CAPTURE_PHASE_CLOSED a None)
       else if collection_phase a = COLLECTION_COMPLETE then ret (collection_result_of ST_COMPLETE a None)
       else case find_index pending_record (co_records a) of
           None \<Rightarrow> bind_io (lift (checked_state ?b)) (\<lambda>c.
             bind_io (collection_store cas_op c a) (\<lambda>closed. ret (collection_result_of ST_COMPLETE closed None)))
         | Some (i, r) \<Rightarrow> analyze_record cas_op d env deadline a i r) (Q a) (E a X)"
  proof (cases "find_index pending_record (co_records a)")
    case None
    then show ?thesis
      using finish by (cases "collection_phase a") (auto intro!: triple_ret_result)
  next
    case (Some p)
    then obtain i r where p: "find_index pending_record (co_records a) = Some (i, r)" by (cases p) simp
    then have "i < length (co_records a)" "co_records a ! i = r" "pending_record r"
      using find_index_Some by fast+
    then show ?thesis
      using p triple_analyze_record [OF inv] assms(2)
      by (cases "collection_phase a") (auto intro!: triple_ret_result)
  qed
qed

end

subsection \<open>On the in-memory journal\<close>

definition collection_current :: "campaign_definition \<Rightarrow> collection_journal \<Rightarrow> collection_state option" where
  "collection_current d j =
     (case j of None \<Rightarrow> None | Some s \<Rightarrow> if co_digest s = campaign_digest d then Some s else None)"

lemma collection_current_Some:
  "collection_current d j = Some s \<longleftrightarrow> j = Some s \<and> co_digest s = campaign_digest d"
  by (auto simp: collection_current_def split: option.splits)

interpretation collection_mem:
  collection_run "collection_load d" "collection_cas d" "collection_current d" d for d
  by unfold_locales
    (auto simp: collection_load_def collection_cas_def bind_io_def collection_current_Some)

text \<open>The calls of an operator and of a scheduler, in any order and with any answers.\<close>

datatype collection_call =
    CaptureNext int campaign_env int
  | CloseCapture
  | AnalyzeNext campaign_env int
  | HaltAnalysis

fun collection_do ::
  "campaign_definition \<Rightarrow> collection_call \<Rightarrow> (collection_journal, collection_result) collection_io" where
  "collection_do d (CaptureNext margin env now) = capture_next (collection_load d) (collection_cas d) d margin env now"
| "collection_do d CloseCapture = close_capture (collection_load d) (collection_cas d)"
| "collection_do d (AnalyzeNext env deadline) = analyze_next (collection_load d) (collection_cas d) d env deadline"
| "collection_do d HaltAnalysis = halt_analysis (collection_load d) (collection_cas d)"

fun call_errors :: "collection_call \<Rightarrow> collection_error exn set" where
  "call_errors (CaptureNext margin env now) = capture_errors env"
| "call_errors CloseCapture = {RuntimeError Unresolved_Capture}"
| "call_errors (AnalyzeNext env deadline) = analysis_errors env"
| "call_errors HaltAnalysis = {RuntimeError Analysis_Not_Open}"

abbreviation main_campaign :: "campaign_definition \<Rightarrow> bool" where
  "main_campaign d \<equiv> valid_campaign d \<and> \<not> qualification d"

lemma collection_call_triple:
  assumes "main_campaign d" and "collection_inv d a"
  shows "triple (\<lambda>s. collection_current d s = Some a) (collection_do d c)
    (collection_mem.Q d a) (collection_mem.E d a (call_errors c))"
  using assms
  by (cases c) (auto intro!: collection_mem.triple_capture_next collection_mem.triple_close_capture
      collection_mem.triple_analyze_next collection_mem.triple_halt_analysis)

lemma collection_call_steps:
  assumes "main_campaign d" and "collection_inv d a" and "collection_do d c (Some a) = (res, j)"
  shows "\<exists>b. j = Some b \<and> collection_inv d b \<and> collection_step a b
    \<and> (case res of Inr r \<Rightarrow> co_state r = b | Inl e \<Rightarrow> e \<in> call_errors c)"
proof -
  note tr = collection_call_triple [OF assms(1,2), of c]
  have p: "collection_current d (Some a) = Some a"
    using assms(2) by (simp add: collection_current_Some collection_inv_def)
  show ?thesis
  proof (cases res)
    case (Inl e)
    with tripleD_raise [OF tr p] assms(3) show ?thesis
      by (auto simp: collection_mem.E_def collection_mem.holding_def collection_current_Some)
  next
    case (Inr r)
    with tripleD [OF tr p] assms(3) show ?thesis
      by (auto simp: collection_mem.Q_def collection_current_Some)
  qed
qed

definition collection_after :: "campaign_definition \<Rightarrow> collection_call list \<Rightarrow> collection_journal" where
  "collection_after d calls =
     fold (\<lambda>c j. snd (collection_do d c j)) calls (snd (collection_initialize d None))"

lemma collection_after_Nil: "collection_after d [] = Some (new_collection (campaign_digest d))"
  by (simp add: collection_after_def collection_initialize_def collection_load_def new_collection_def)

lemma collection_after_snoc: "collection_after d (cs @ [c]) = snd (collection_do d c (collection_after d cs))"
  by (simp add: collection_after_def)

lemma new_collection_inv: "collection_inv d (new_collection (campaign_digest d))"
  by (simp add: collection_inv_def new_collection_def phase_ok_def)

lemma collection_reachable:
  assumes "main_campaign d"
  obtains s where "collection_after d calls = Some s" "collection_inv d s"
proof -
  have "\<exists>s. collection_after d calls = Some s \<and> collection_inv d s"
  proof (induction calls rule: rev_induct)
    case Nil
    then show ?case by (simp add: collection_after_Nil new_collection_inv)
  next
    case (snoc c cs)
    then obtain s where s: "collection_after d cs = Some s" "collection_inv d s" by blast
    obtain res j where "collection_do d c (Some s) = (res, j)" by (cases "collection_do d c (Some s)")
    then show ?case
      using collection_call_steps [OF assms s(2)] s(1) by (force simp: collection_after_snoc)
  qed
  then show ?thesis using that by blast
qed

end
