(* ===== verification/Continuous_Claims.thy ===== *)
theory Continuous_Claims
  imports Continuous Campaign_Claims
begin

section \<open>What the capture-first collector guarantees\<close>

text \<open>
  Consequences of the journal invariant and the step relation of \<open>Continuous\<close>: integrity of
  every reachable state, capture before analysis, the halt that nothing resolves, and the
  end of every analysis drain.
\<close>

text \<open>
  After any calls in any order, with any answers of the ports, the collection's
  journal holds a state that passes all construction checks and the invariant: record \<open>i\<close> is
  the deterministic unit of slot \<open>i\<close> with the evidence of its phase, no analysis has begun
  while capture is open, and a complete collection retains no pending record.
\<close>

lemma collection_journal_invariant:
  assumes "main_campaign d"
  shows "\<exists>s. collection_after d calls = Some s \<and> collection_inv d s
    \<and> collection_state_post_init s = Inr ()
    \<and> (\<forall>r \<in> set (co_records s). collection_record_post_init r = Inr ())"
proof -
  obtain s where s: "collection_after d calls = Some s" "collection_inv d s"
    by (rule collection_reachable [OF assms])
  then have "\<forall>r \<in> set (co_records s). collection_record_post_init r = Inr ()"
    using record_ok_checked unfolding collection_inv_def by (metis in_set_conv_nth)
  with s inv_checked show ?thesis by blast
qed

text \<open>
  C11. Capture strictly precedes analysis: from any reachable state, no call changes an
  identity, a stored snapshot or a finished record, only a call in the capturing phase adds
  records or invokes a capture, only a call in the analysing phase invokes an analysis, and
  the capturing phase is never entered again. A call raises only what its ports raise, the
  refusal to close over an uncertain capture, or the refusal to halt a closed drain.
\<close>

theorem capture_strictly_before_analysis:
  assumes "main_campaign d" and "collection_after d calls = Some a"
    and "collection_do d c (Some a) = (res, j)"
  shows "\<exists>b. j = Some b \<and> collection_step a b
    \<and> (case res of Inr r \<Rightarrow> co_state r = b | Inl e \<Rightarrow> e \<in> call_errors c)"
proof -
  have "collection_inv d a" using collection_reachable [OF assms(1), of calls] assms(2) by auto
  from collection_call_steps [OF assms(1) this assms(3)] show ?thesis by blast
qed

lemma uncertain_stays:
  assumes "collection_inv d a" and "halt_reason a = Some HALT_UNCERTAIN"
  shows "snd (collection_do d c (Some a)) = Some a"
    "collection_do d CloseCapture (Some a) = (Inl (RuntimeError Unresolved_Capture), Some a)"
proof -
  have dig: "co_digest a = campaign_digest d" and ph: "collection_phase a = HALTED"
    and planned: "\<exists>r \<in> set (co_records a). co_phase r = REC_PLANNED"
    using assms by (auto simp: collection_inv_def phase_ok_def split: collection_phase.splits)
  have last: "co_records a \<noteq> [] \<and> co_phase (last (co_records a)) = REC_PLANNED"
  proof (cases "co_records a" rule: rev_cases)
    case (snoc ys y)
    moreover have "\<forall>r \<in> set ys. co_phase r \<noteq> REC_PLANNED"
      using assms(1) snoc by (auto simp: collection_inv_def accepted_record_def)
    ultimately show ?thesis using planned by auto
  qed (use planned in simp)
  show close: "collection_do d CloseCapture (Some a) = (Inl (RuntimeError Unresolved_Capture), Some a)"
    using dig ph last by (simp add: close_capture_def bind_io_def collection_load_def lift_def)
  show "snd (collection_do d c (Some a)) = Some a"
    using dig ph close
    by (cases c) (simp_all add: capture_next_def capture_next_from_def analyze_next_def halt_analysis_def
        bind_io_def collection_load_def ret_def)
qed

text \<open>
  C37. A collection halted for an uncertain capture is stuck: no call, however often, changes
  its state, and closing capture always raises, so the snapshots collected before it are never
  analysed under this definition.
\<close>

theorem uncertain_halt_is_stuck:
  assumes "main_campaign d" and "collection_after d calls = Some a"
    and "halt_reason a = Some HALT_UNCERTAIN"
  shows "collection_after d (calls @ later) = Some a
    \<and> collection_do d CloseCapture (Some a) = (Inl (RuntimeError Unresolved_Capture), Some a)"
proof -
  have inv: "collection_inv d a" using collection_reachable [OF assms(1), of calls] assms(2) by auto
  have "collection_after d (calls @ later) = Some a"
  proof (induction later rule: rev_induct)
    case Nil
    then show ?case using assms(2) by simp
  next
    case (snoc c cs)
    then show ?case
      using uncertain_stays(1) [OF inv assms(3)] by (simp add: collection_after_snoc flip: append_assoc)
  qed
  with uncertain_stays(2) [OF inv assms(3)] show ?thesis by blast
qed

subsection \<open>The drain ends\<close>

lemma collection_store_mem:
  assumes "collection_inv d y" and "co_digest a = campaign_digest d" "0 \<le> co_revision a"
  shows "collection_store (collection_cas d) y a (Some a)
    = (Inr (y\<lparr>co_revision := co_revision a + 1\<rparr>), Some (y\<lparr>co_revision := co_revision a + 1\<rparr>))"
proof -
  have z: "collection_inv d (y\<lparr>co_revision := co_revision a + 1\<rparr>)"
    using assms by (simp add: collection_inv_def)
  show ?thesis
    unfolding collection_store_def state_checked [OF z] bind_lift
    using assms by (simp add: collection_cas_def collection_load_def bind_io_def collection_inv_def)
qed

definition with_record :: "collection_state \<Rightarrow> nat \<Rightarrow> collection_record \<Rightarrow> collection_state" where
  "with_record s i r = s\<lparr>co_records := (co_records s)[i := r], co_revision := co_revision s + 1\<rparr>"

lemma with_record_simps [simp]:
  "co_records (with_record s i r) = (co_records s)[i := r]" "co_digest (with_record s i r) = co_digest s"
  "collection_phase (with_record s i r) = collection_phase s" "halt_reason (with_record s i r) = halt_reason s"
  "co_revision (with_record s i r) = co_revision s + 1"
  by (simp_all add: with_record_def)

lemma with_record_inv:
  assumes "collection_inv d a" and "collection_phase a = ANALYZING" and "i < length (co_records a)"
    and "collection_record_ok d i r" and "accepted_record r"
  shows "collection_inv d (with_record a i r)"
proof -
  have "phase_ok ANALYZING (halt_reason a) ((co_records a)[i := r])"
    using assms set_update_subset_insert [of "co_records a" i r]
    by (auto simp: collection_inv_def phase_ok_def accepted_record_def)
  then show ?thesis
    using assms by (intro inv_set [OF assms(1,3,4)]) (simp_all add: collection_inv_def)
qed

lemma collection_replace_mem:
  assumes "collection_inv d a" and "collection_phase a = ANALYZING" and "i < length (co_records a)"
    and "collection_record_ok d i r" and "accepted_record r"
  shows "replace_record (collection_cas d) a i r (Some a)
    = (Inr (with_record a i r), Some (with_record a i r))"
proof -
  let ?y = "a\<lparr>co_records := (co_records a)[i := r]\<rparr>"
  have facts: "co_digest a = campaign_digest d" "0 \<le> co_revision a" "co_unit (co_records a ! i) = co_unit r"
    using assms(1,3,4) by (simp_all add: collection_inv_def collection_record_ok_def)
  have y: "collection_inv d ?y"
    using with_record_inv [OF assms] facts(2) by (simp add: collection_inv_def)
  show ?thesis
    using assms(3) facts collection_store_mem [OF y facts(1,2)]
    by (simp add: replace_record_def records_with_def state_checked [OF y] with_record_def)
qed

text \<open>A call that invokes an analysis spends one of its record, whatever the port does.\<close>

lemma analysis_is_spent:
  assumes "collection_inv d a" and "collection_phase a = ANALYZING"
    and "find_index pending_record (co_records a) = Some (i, r)"
    and "co_analyses r < maximum_analysis_invocations d"
    and "collection_do d (AnalyzeNext env deadline) (Some a) = (res, Some b)"
  shows "\<exists>q. co_records b = (co_records a)[i := q] \<and> co_analyses q = co_analyses r + 1
    \<and> collection_phase b = ANALYZING
    \<and> (\<forall>snap rc. co_snapshot r = Some snap \<and> ce_analyze env snap deadline = Returned rc
          \<and> collection_receipt_ok snap rc \<and> rc_completed_utc_ns rc \<le> deadline \<longrightarrow> co_phase q = REC_COMPLETE)"
proof -
  have dig: "co_digest a = campaign_digest d" using assms(1) by (simp add: collection_inv_def)
  have i: "i < length (co_records a)" "co_records a ! i = r" "pending_record r"
    using find_index_Some [OF assms(3)] by simp_all
  have ok: "collection_record_ok d i r" using assms(1) i by (auto simp: collection_inv_def)
  obtain snap where snap: "co_snapshot r = Some snap" "evidence_ok d r snap"
      "collection_snapshot_ok d (co_unit r) snap" "0 < co_captures r"
    using ok i(3) by (auto simp: collection_record_ok_def pending_record_def evidence_ok_def)
  define ir where "ir = r\<lparr>co_analyses := co_analyses r + 1\<rparr>"
  have ir: "collection_record_ok d i ir" "accepted_record ir"
    using ok assms(4) i(3) by (auto simp: ir_def collection_record_ok_def pending_record_def
        accepted_record_def evidence_ok_def)
  let ?z = "with_record a i ir"
  have z: "collection_inv d ?z" by (rule with_record_inv [OF assms(1,2) i(1) ir])
  let ?failed = "ir\<lparr>co_phase := REC_ANALYSIS_FAILED\<rparr>"
  have failed: "collection_record_ok d i ?failed" "accepted_record ?failed"
    using ir(1) i(3) snap(4) ok
    by (auto simp: ir_def collection_record_ok_def pending_record_def evidence_ok_def accepted_record_def)
  have complete: "collection_record_ok d i (ir\<lparr>co_phase := REC_COMPLETE, co_receipt := Some rc\<rparr>)"
    "accepted_record (ir\<lparr>co_phase := REC_COMPLETE, co_receipt := Some rc\<rparr>)"
    if "collection_receipt_ok snap rc" for rc
    using ir(1) ok snap that by (auto simp: ir_def collection_record_ok_def evidence_ok_def accepted_record_def)
  have iz: "i < length (co_records ?z)" using i(1) by simp
  have pz: "collection_phase ?z = ANALYZING" using assms(2) by simp
  note stored = collection_replace_mem [OF assms(1,2) i(1) ir] collection_replace_mem [OF z pz iz failed]
    collection_replace_mem [OF z pz iz complete]
  have run: "analyze_record (collection_cas d) d env deadline a i r (Some a) = (res, Some b)"
    using assms(2,3,5) dig
    by (simp add: analyze_next_def collection_load_def bind_io_def)
  let ?answer = "\<lambda>answer. case (case answer of None \<Rightarrow> None
      | Some rc \<Rightarrow> if collection_receipt_ok snap rc \<and> \<not> rc_completed_utc_ns rc > deadline then Some rc else None) of
        None \<Rightarrow> bind_io (replace_record (collection_cas d) ?z i ?failed) (\<lambda>s.
          ret (collection_result_of ST_ANALYSIS_PENDING s (Some (co_unit r))))
      | Some rc \<Rightarrow>
          bind_io (lift (checked collection_record_post_init (ir\<lparr>co_phase := REC_COMPLETE, co_receipt := Some rc\<rparr>)))
          (\<lambda>complete_record. bind_io (replace_record (collection_cas d) ?z i complete_record) (\<lambda>s.
            ret (collection_result_of ST_ANALYZED s (Some (co_unit r)))))"
  have within: "\<not> co_analyses r \<ge> maximum_analysis_invocations d" using assms(4) by simp
  have run': "bind_io (call_port Collection_Died (ce_analyze env snap deadline)) ?answer (Some ?z) = (res, Some b)"
    using run
    unfolding analyze_record_def snap(1) option.case if_not_P [OF within] ir_def [symmetric] record_checked [OF ir(1)] bind_lift
      record_checked [OF failed(1)]
      bind_mem [where m = "replace_record (collection_cas d) a i ir" and s = "Some a", OF stored(1)]
    by simp
  show ?thesis
  proof (cases "ce_analyze env snap deadline")
    case (Returned rc)
    show ?thesis
    proof (cases "collection_receipt_ok snap rc \<and> \<not> rc_completed_utc_ns rc > deadline")
      case True
      then have rc: "collection_receipt_ok snap rc" by simp
      have "Some b = Some (with_record ?z i (ir\<lparr>co_phase := REC_COMPLETE, co_receipt := Some rc\<rparr>))"
        using run' Returned True stored(3) [OF rc]
        by (simp add: record_checked [OF complete(1) [OF rc]] call_port_def bind_io_def ret_def)
      then show ?thesis using pz
        by (intro exI [of _ "ir\<lparr>co_phase := REC_COMPLETE, co_receipt := Some rc\<rparr>"]) (simp add: ir_def)
    next
      case False
      have "Some b = Some (with_record ?z i ?failed)"
        using run' Returned False stored(2) by (simp add: call_port_def bind_io_def ret_def)
      then show ?thesis using pz Returned False snap(1)
        by (intro exI [of _ ?failed]) (auto simp: ir_def)
    qed
  next
    case Raised
    have "Some b = Some (with_record ?z i ?failed)"
      using run' Raised stored(2) by (simp add: call_port_def bind_io_def ret_def)
    then show ?thesis using pz Raised snap(1) by (intro exI [of _ ?failed]) (simp add: ir_def)
  next
    case Died
    have "Some b = Some ?z" using run' Died by (simp add: call_port_def bind_io_def lift_def)
    then show ?thesis using pz Died snap(1) by (intro exI [of _ ir]) (simp add: ir_def)
  qed
qed

text \<open>The analyses the budget still allows.\<close>

definition drain_budget :: "campaign_definition \<Rightarrow> collection_state \<Rightarrow> nat" where
  "drain_budget d s =
     nat (sum_list (map (\<lambda>r. maximum_analysis_invocations d - co_analyses r) (co_records s)))"

lemma budget_update:
  assumes "i < length xs" and "f q = f (xs ! i) - (1 :: int)"
  shows "sum_list (map f (xs[i := q])) = sum_list (map f xs) - 1"
  using assms
proof (induction xs arbitrary: i)
  case (Cons x xs)
  then show ?case by (cases i) auto
qed simp

lemma budget_decreases:
  assumes "collection_inv d a" and "i < length (co_records a)"
    and "co_records b = (co_records a)[i := q]" and "co_analyses q = co_analyses (co_records a ! i) + 1"
    and "co_analyses (co_records a ! i) < maximum_analysis_invocations d"
  shows "drain_budget d b < drain_budget d a"
proof -
  let ?f = "\<lambda>r. maximum_analysis_invocations d - co_analyses r"
  have nonneg: "0 \<le> ?f r" if "r \<in> set (co_records a)" for r
    using assms(1) that by (auto simp: collection_inv_def collection_record_ok_def in_set_conv_nth)
  have "?f (co_records a ! i) \<le> sum_list (map ?f (co_records a))"
    using assms(2) nonneg by (intro member_le_sum_list) auto
  then have "0 < sum_list (map ?f (co_records a))" using assms(5) by simp
  moreover have "sum_list (map ?f (co_records b)) = sum_list (map ?f (co_records a)) - 1"
    unfolding assms(3) using assms(2,4) by (intro budget_update) simp_all
  ultimately show ?thesis by (simp add: drain_budget_def)
qed

lemma drain_step:
  assumes "main_campaign d" and "collection_inv d a" and "collection_phase a = ANALYZING"
  shows "\<exists>b. snd (collection_do d (AnalyzeNext env deadline) (Some a)) = Some b \<and> collection_inv d b
    \<and> (collection_phase b \<in> {COLLECTION_COMPLETE, HALTED}
       \<or> collection_phase b = ANALYZING \<and> drain_budget d b < drain_budget d a)"
proof -
  obtain res j where r: "collection_do d (AnalyzeNext env deadline) (Some a) = (res, j)"
    by (cases "collection_do d (AnalyzeNext env deadline) (Some a)")
  then obtain b where b: "j = Some b" "collection_inv d b" "collection_step a b"
    using collection_call_steps [OF assms(1,2)] by blast
  have "collection_phase b \<noteq> CAPTURING"
    using b(3) assms(3) by (simp add: collection_step_def)
  moreover have "drain_budget d b < drain_budget d a" if "collection_phase b = ANALYZING"
  proof -
    have dig: "co_digest a = campaign_digest d" "0 \<le> co_revision a"
      using assms(2) by (simp_all add: collection_inv_def)
    have some: "find_index pending_record (co_records a) \<noteq> None"
    proof
      assume none: "find_index pending_record (co_records a) = None"
      let ?c = "a\<lparr>collection_phase := COLLECTION_COMPLETE\<rparr>"
      have c: "collection_inv d ?c"
        using assms(2,3) none
        by (auto simp: collection_inv_def phase_ok_def find_index_None pending_record_def)
      have "Some b = Some (?c\<lparr>co_revision := co_revision a + 1\<rparr>)"
        using r b(1) none assms(3) dig collection_store_mem [OF c dig]
        by (simp add: analyze_next_def collection_load_def bind_io_def state_checked [OF c] lift_def ret_def)
      with that show False by simp
    qed
    then obtain i q where i: "find_index pending_record (co_records a) = Some (i, q)" by force
    note fi = find_index_Some [OF i]
    have "co_analyses q < maximum_analysis_invocations d"
    proof (rule ccontr)
      assume full: "\<not> co_analyses q < maximum_analysis_invocations d"
      let ?h = "a\<lparr>collection_phase := HALTED, halt_reason := Some HALT_ANALYSIS\<rparr>"
      have h: "collection_inv d ?h" using assms(2,3) by (auto simp: collection_inv_def phase_ok_def)
      have "collection_record_ok d i q" using assms(2) fi by (auto simp: collection_inv_def)
      then obtain snap where "co_snapshot q = Some snap"
        using fi by (auto simp: collection_record_ok_def pending_record_def evidence_ok_def)
      then have "Some b = Some (?h\<lparr>co_revision := co_revision a + 1\<rparr>)"
        using r b(1) i full assms(3) dig collection_store_mem [OF h dig]
        by (simp add: analyze_next_def analyze_record_def collection_halt_def collection_load_def bind_io_def
            state_checked [OF h] lift_def ret_def)
      with that show False by simp
    qed
    then show ?thesis
      using analysis_is_spent [OF assms(2,3) i] r b(1) fi budget_decreases [OF assms(2), of i b]
      by blast
  qed
  ultimately show ?thesis using r b(1,2) by (cases "collection_phase b") auto
qed

lemma drain_closed:
  assumes "collection_inv d a" and "collection_phase a \<in> {COLLECTION_COMPLETE, HALTED}"
  shows "snd (collection_do d (AnalyzeNext env deadline) (Some a)) = Some a"
  using assms by (auto simp: analyze_next_def collection_load_def bind_io_def ret_def collection_inv_def)

definition drain :: "(campaign_env \<times> int) list \<Rightarrow> collection_call list" where
  "drain calls = map (\<lambda>(env, deadline). AnalyzeNext env deadline) calls"

lemma drain_ends:
  assumes "main_campaign d" and "collection_inv d a" and "collection_phase a = ANALYZING"
    and "drain_budget d a < length calls"
  shows "\<exists>b. fold (\<lambda>c j. snd (collection_do d c j)) (drain calls) (Some a) = Some b
    \<and> collection_phase b \<in> {COLLECTION_COMPLETE, HALTED}"
proof -
  have closed: "fold (\<lambda>c j. snd (collection_do d c j)) (drain calls) (Some a) = Some a"
    if "collection_inv d a" "collection_phase a \<in> {COLLECTION_COMPLETE, HALTED}" for calls a
  proof (induction calls)
    case (Cons c cs)
    then show ?case using drain_closed [OF that, of "fst c" "snd c"] by (simp add: drain_def split_beta)
  qed (simp add: drain_def)
  show ?thesis
    using assms(2-4)
  proof (induction calls arbitrary: a)
    case (Cons c cs)
    obtain b where b: "snd (collection_do d (AnalyzeNext (fst c) (snd c)) (Some a)) = Some b" "collection_inv d b"
      "collection_phase b \<in> {COLLECTION_COMPLETE, HALTED}
       \<or> collection_phase b = ANALYZING \<and> drain_budget d b < drain_budget d a"
      using drain_step [OF assms(1) Cons.prems(1,2)] by blast
    have fold: "fold (\<lambda>c j. snd (collection_do d c j)) (drain (c # cs)) (Some a)
        = fold (\<lambda>c j. snd (collection_do d c j)) (drain cs) (Some b)"
      using b(1) by (simp add: drain_def split_beta)
    show ?case
    proof (cases "collection_phase b = ANALYZING")
      case True
      then show ?thesis using b(3) Cons.IH [OF b(2) True] Cons.prems(3) fold by auto
    next
      case False
      then have "collection_phase b \<in> {COLLECTION_COMPLETE, HALTED}" using b(3) by blast
      then show ?thesis using closed [OF b(2)] fold by auto
    qed
  qed simp
qed

text \<open>
  C36. Every analysis drain ends: once capture is closed, after more calls of
  \<open>analyze_next\<close> than the collection has analyses in its budget, the collection is complete
  or halted, whatever the analysis port answers, even if the process dies inside every
  call.
\<close>

theorem analysis_drain_terminates:
  assumes "main_campaign d" and "collection_after d history_calls = Some a"
    and "collection_phase a = ANALYZING"
    and "maximum_analysis_invocations d * int (length (co_records a)) < int (length calls)"
  shows "\<exists>b. collection_after d (history_calls @ drain calls) = Some b
    \<and> collection_phase b \<in> {COLLECTION_COMPLETE, HALTED}"
proof -
  have inv: "collection_inv d a" using collection_reachable [OF assms(1), of history_calls] assms(2) by auto
  have "sum_list (map (\<lambda>r. maximum_analysis_invocations d - co_analyses r) (co_records a))
      \<le> maximum_analysis_invocations d * int (length (co_records a))"
    using inv by (intro sum_list_bound) (auto simp: collection_inv_def collection_record_ok_def in_set_conv_nth)
  moreover have "0 \<le> maximum_analysis_invocations d * int (length (co_records a))"
    using assms(1) by (simp add: campaign_definition_post_init_def)
  ultimately have "drain_budget d a < length calls" using assms(4) by (simp add: drain_budget_def)
  then show ?thesis
    using drain_ends [OF assms(1) inv assms(3)] assms(2) by (simp add: collection_after_def)
qed

subsection \<open>Concrete collections\<close>

definition demo_collection :: campaign_definition where
  "demo_collection = demo_campaign\<lparr>analysis_after_each_capture := False\<rparr>"

lemma demo_collection_main: "main_campaign demo_collection"
  by code_simp

definition failing_env :: campaign_env where
  "failing_env = \<lparr>ce_capture = \<lambda>u start deadline. Raised, ce_analyze = \<lambda>s deadline. Raised,
     ce_capacity = Some 100000000000\<rparr>"

lemma remaining_raw_full: "remaining_raw 0 = CAMPAIGN_RAW_BYTES"
proof -
  define f where "f = (\<lambda>k. cell_sample_count (CAMPAIGN_CELLS ! k) * 128)"
  have idx: "[0..CAMPAIGN_SUCCESS_TARGET - 1] = map int [0..<104 * 9]"
    by (rule nth_equalityI) (simp_all add: campaign_constants nth_upto)
  have "remaining_raw 0 = sum_list (map (\<lambda>i. f (i mod 9)) [0..<104 * 9])"
    unfolding remaining_raw_def idx map_map
    by (intro arg_cong [where f = sum_list] map_cong)
      (auto simp: f_def campaign_cell_at_def campaign_constants nat_mod_distrib)
  also have "\<dots> = 104 * sum_list (map f [0..<9])"
    using sum_list_mod [of 9 f 104] by simp
  also have "sum_list (map f [0..<9]) = 313600000" unfolding f_def by code_simp
  finally show ?thesis by (simp add: campaign_constants)
qed

lemma demo_start: "collection_start demo_collection 0 = 1000000"
  by (simp add: collection_start_def demo_collection_def demo_campaign_def)

lemma demo_unit:
  "build_campaign_unit demo_collection 0 0 0 1000000 = Inr (slot_unit demo_collection 0)"
  using built_unit(1) [of demo_collection 0 0 0 1000000] demo_collection_main demo_start
  by (simp add: slot_unit_def campaign_constants)

lemma demo_bounds:
  "preflight_lead_ns demo_collection = PREFLIGHT_LEAD_NS" "maximum_start_lateness_ns demo_collection = 1000"
  "maximum_capture_invocations demo_collection = 2" "maximum_analysis_invocations demo_collection = 3"
  "end_utc_ns demo_collection = 28800001000000"
  by (simp_all add: demo_collection_def demo_campaign_def end_utc_ns_def CAMPAIGN_WINDOW_NS_def)

abbreviation demo_state :: "collection_phase \<Rightarrow> collection_record list \<Rightarrow> halt_reason option \<Rightarrow> int \<Rightarrow> collection_state" where
  "demo_state p rs h n \<equiv> \<lparr>co_digest = campaign_digest demo_collection, collection_phase = p, co_records = rs,
     halt_reason = h, co_revision = n\<rparr>"

abbreviation demo_planned :: "int \<Rightarrow> collection_record" where
  "demo_planned n \<equiv> (new_record (slot_unit demo_collection 0))\<lparr>co_captures := n\<rparr>"

lemmas demo_eval = capture_next_def capture_next_from_def capture_fresh_def capture_planned_def
  collection_load_def collection_cas_def collection_store_def replace_record_def records_with_def
  collection_halt_def last_opt_def collection_capacity_def captured_count_def accepted_record_def Let_def
  collection_state_post_init_def collection_record_post_init_def checked_def bind_io_def lift_def ret_def
  call_port_def embed_exn_def new_record_def demo_start demo_unit demo_bounds remaining_raw_full
  campaign_constants

lemma demo_uncertain:
  "collection_after demo_collection (replicate 3 (CaptureNext 0 failing_env 1000000))
     = Some (demo_state HALTED [demo_planned 2] (Some HALT_UNCERTAIN) 4)"
proof -
  let ?c = "CaptureNext 0 failing_env 1000000"
  have 1: "snd (collection_do demo_collection ?c (Some (demo_state CAPTURING [] None 0)))
      = Some (demo_state CAPTURING [demo_planned 1] None 2)"
    by (simp add: demo_eval failing_env_def)
  have 2: "snd (collection_do demo_collection ?c (Some (demo_state CAPTURING [demo_planned 1] None 2)))
      = Some (demo_state CAPTURING [demo_planned 2] None 3)"
    by (simp add: demo_eval failing_env_def)
  have 3: "snd (collection_do demo_collection ?c (Some (demo_state CAPTURING [demo_planned 2] None 3)))
      = Some (demo_state HALTED [demo_planned 2] (Some HALT_UNCERTAIN) 4)"
    by (simp add: demo_eval failing_env_def)
  have "replicate 3 ?c = [] @ [?c] @ [?c] @ [?c]" by (simp add: numeral_eq_Suc)
  then show ?thesis
    using 1 2 3 by (simp add: collection_after_def collection_after_Nil collection_initialize_def
        collection_load_def new_collection_def del: collection_do.simps)
qed

definition demo_snapshot :: batch_snapshot where
  "demo_snapshot = (case demo_capture (slot_unit demo_collection 0) 1000000 0 of Returned s \<Rightarrow> s)"

lemma demo_snapshot_ok:
  "demo_capture (slot_unit demo_collection 0) 1000000 x = Returned demo_snapshot"
  "terminal demo_snapshot" "bs_definition demo_snapshot = unit_batch (slot_unit demo_collection 0)"
  "collection_snapshot_ok demo_collection (slot_unit demo_collection 0) demo_snapshot"
  by (simp_all add: demo_snapshot_def demo_capture_def slot_unit_def expected_unit_def Let_def terminal_def
      collection_snapshot_ok_def observed_skew_def paired_analysis_eligibility_def MAXIMUM_START_SKEW_NS_def
      collection_deadline_def demo_collection_def demo_campaign_def)

abbreviation demo_captured :: collection_record where
  "demo_captured \<equiv> (demo_planned 1)\<lparr>co_phase := REC_CAPTURED, co_snapshot := Some demo_snapshot\<rparr>"

lemma demo_closed:
  "collection_after demo_collection [CaptureNext 0 demo_env 1000000, CloseCapture]
     = Some (demo_state ANALYZING [demo_captured] None 4)"
proof -
  have 1: "snd (collection_do demo_collection (CaptureNext 0 demo_env 1000000) (Some (demo_state CAPTURING [] None 0)))
      = Some (demo_state CAPTURING [demo_captured] None 3)"
    by (simp add: demo_eval demo_env_def demo_snapshot_ok)
  have 2: "snd (collection_do demo_collection CloseCapture (Some (demo_state CAPTURING [demo_captured] None 3)))
      = Some (demo_state ANALYZING [demo_captured] None 4)"
    by (simp add: demo_eval close_capture_def)
  show ?thesis
    using 1 2 by (simp add: collection_after_def collection_initialize_def
        collection_load_def new_collection_def del: collection_do.simps)
qed

lemma collection_journal_invariant_witness:
  "\<exists>s. collection_after demo_collection [CaptureNext 0 demo_env 1000000, CloseCapture] = Some s
     \<and> co_records s = [demo_captured] \<and> collection_state_post_init s = Inr ()"
  using collection_journal_invariant [OF demo_collection_main, of "[CaptureNext 0 demo_env 1000000, CloseCapture]"]
  unfolding demo_closed by simp

theorem capture_strictly_before_analysis_witness:
  "\<exists>b. snd (collection_do demo_collection (CaptureNext 0 demo_env 99) (Some (demo_state ANALYZING [demo_captured] None 4)))
      = Some b \<and> map co_captures (co_records b) = [1] \<and> collection_phase b \<noteq> CAPTURING"
proof -
  obtain res j where r: "collection_do demo_collection (CaptureNext 0 demo_env 99)
      (Some (demo_state ANALYZING [demo_captured] None 4)) = (res, j)" by (meson surj_pair)
  obtain b where b: "j = Some b" "collection_step (demo_state ANALYZING [demo_captured] None 4) b"
    using capture_strictly_before_analysis [OF demo_collection_main demo_closed r] by blast
  obtain x where "co_records b = [x]" "co_captures x = 1"
    using b(2) by (auto simp: collection_step_def length_Suc_conv)
  with b r show ?thesis by (simp add: collection_step_def)
qed

theorem uncertain_halt_is_stuck_witness:
  "collection_after demo_collection (replicate 3 (CaptureNext 0 failing_env 1000000) @ [CloseCapture, AnalyzeNext demo_env 5])
     = Some (demo_state HALTED [demo_planned 2] (Some HALT_UNCERTAIN) 4)"
  using uncertain_halt_is_stuck [OF demo_collection_main demo_uncertain] by simp

theorem analysis_drain_terminates_witness:
  "\<exists>b. collection_after demo_collection
      ([CaptureNext 0 demo_env 1000000, CloseCapture] @ drain (replicate 4 (failing_env, 7))) = Some b
     \<and> collection_phase b \<in> {COLLECTION_COMPLETE, HALTED}"
  by (rule analysis_drain_terminates [OF demo_collection_main demo_closed]) (simp_all add: demo_bounds)

end
