(* ===== verification/Canary.thy ===== *)
theory Canary
  imports Campaign
begin

section \<open>The supercycle canary\<close>

text \<open>
  \<open>capture/supercycle_canary.py\<close>: the 36-slot canary with its own definition, schedule,
  journal state, no-replay coordinator and receipt. Units, cells, geometries, snapshots and
  ports are those of the campaign.
\<close>

datatype canary_error =
    Bad_Canary_Id | Negative_Canary_Start | Same_Canary_Radios | Not_V8_Receipt | Bad_Canary_Lateness
  | Outside_Supercycle | Canary_Unit_Id core_error | Canary_Unit_Batch batch_error
  | Replayed_Identity | Planned_Evidence | Snapshot_Lacking | Receipt_Phase_Differs
  | Canary_Bounds | Canary_Halt_Evidence | Canary_Not_Canonical | Nonterminal_Inside
  | Closed_Planned | Complete_Lacks_Receipts | Canary_Definition_Differs | Canary_Revision_Changed
  | Negative_Canary_Margin | Canary_Other_Unit | Canary_Capacity_Raised | Canary_Died
  | No_Captured_Record | Canary_Not_Open | No_Canary_Snapshot
  | Unreviewed_Stage | Worker_Count | Resource_Evidence
  | Receipt_Not_V8 | Receipt_Time | Receipt_Inventory | Recordings_Reused | Capture_Timing
  | Skew_Bound | Benchmark_Order | Recording_Closure
  | Canary_Incomplete | Lacks_Terminal_Evidence | Lacks_Observed_Start

definition CANARY_SLOTS :: int where "CANARY_SLOTS = 36"
definition CANARY_RECORDINGS :: int where "CANARY_RECORDINGS = 72"
definition CANARY_NUMERATOR_NS :: int where "CANARY_NUMERATOR_NS = 400000000000"
definition CANARY_DENOMINATOR :: int where "CANARY_DENOMINATOR = 13"
definition CANARY_PREFLIGHT_LEAD_NS :: int where "CANARY_PREFLIGHT_LEAD_NS = 15000000000"
definition CANARY_MAXIMUM_SKEW_NS :: int where "CANARY_MAXIMUM_SKEW_NS = 100000000"
definition CANARY_BLOCK_DURATION_MS :: int where "CANARY_BLOCK_DURATION_MS = 40"
definition CANARY_RAW_BYTES :: int where "CANARY_RAW_BYTES = 1254400000"
definition CANARY_CAPTURE_LIMIT :: int where "CANARY_CAPTURE_LIMIT = 2 * CANARY_SLOTS + 1"
definition CANARY_ANALYSIS_LIMIT :: int where "CANARY_ANALYSIS_LIMIT = CANARY_SLOTS + 1"
definition CANARY_COMPUTE_WORKERS :: int where "CANARY_COMPUTE_WORKERS = 8"
definition CANARY_PROJECTION_WORKERS :: int where "CANARY_PROJECTION_WORKERS = 4"

lemmas canary_constants = CANARY_SLOTS_def CANARY_RECORDINGS_def CANARY_NUMERATOR_NS_def
  CANARY_DENOMINATOR_def CANARY_PREFLIGHT_LEAD_NS_def CANARY_MAXIMUM_SKEW_NS_def
  CANARY_CAPTURE_LIMIT_def CANARY_ANALYSIS_LIMIT_def CANARY_COMPUTE_WORKERS_def
  CANARY_PROJECTION_WORKERS_def CANARY_RAW_BYTES_def CANARY_BLOCK_DURATION_MS_def

definition V8_RECEIPT_DIGEST :: digest where
  "V8_RECEIPT_DIGEST =
     \<lparr>algorithm = SHA256,
      dvalue = ''6a816b5da9be8cb8'' @ ''6361610fe4200407'' @ ''4512e64b0748de2b'' @ ''e2b62e832cdbcb8d''\<rparr>"

text \<open>\<open>_CANARY_ID\<close>: \<open>canary_[a-z0-9][a-z0-9_-]{0,31}\<close>.\<close>

definition canary_id_ok :: "string \<Rightarrow> bool" where
  "canary_id_ok s \<longleftrightarrow> startswith s ''canary_'' \<and>
     (let t = drop 7 s in
      t \<noteq> [] \<and> lower_alnum (hd t) \<and> length t \<le> 32
      \<and> list_all (\<lambda>c. lower_alnum c \<or> c \<in> set ''_-'') (tl t))"

subsection \<open>The definition\<close>

record canary_definition =
  canary_id :: string
  canary_start :: int
  canary_radio_a :: string
  canary_radio_b :: string
  canary_station_a :: digest
  canary_station_b :: digest
  canary_lateness :: int
  canary_receipt_digest :: digest

definition canary_definition_post_init :: "canary_definition \<Rightarrow> (canary_error, unit) result" where
  "canary_definition_post_init d =
     raise_first
       [(\<not> canary_id_ok (canary_id d), ValueError Bad_Canary_Id),
        (canary_start d < 0, ValueError Negative_Canary_Start),
        (canary_radio_a d = canary_radio_b d, ValueError Same_Canary_Radios),
        (canary_receipt_digest d \<noteq> V8_RECEIPT_DIGEST, ValueError Not_V8_Receipt),
        (\<not> (0 \<le> canary_lateness d \<and> canary_lateness d \<le> 5000000000), ValueError Bad_Canary_Lateness)]"

definition canary_target :: "canary_definition \<Rightarrow> int" where
  "canary_target d = CANARY_SLOTS"

definition canary_end :: "canary_definition \<Rightarrow> int" where
  "canary_end d = canary_start d + CANARY_SLOTS * CANARY_NUMERATOR_NS div CANARY_DENOMINATOR"

definition canary_document :: "canary_definition \<Rightarrow> json" where
  "canary_document d = JObj
     [(''schema'', JStr ''org.leo-flow.gauss-v5-supercycle-canary/v1''),
      (''canary_id'', JStr (canary_id d)),
      (''campaign_kind'', JStr ''supercycle_canary''),
      (''authorization_scope'', JStr ''canary_only''),
      (''main_campaign_authorized'', JBool False),
      (''start_utc_ns'', JInt (canary_start d)),
      (''radios'', JList [JStr (canary_radio_a d), JStr (canary_radio_b d)]),
      (''station_digests'', JList [JStr (str_digest (canary_station_a d)),
         JStr (str_digest (canary_station_b d))]),
      (''qualification_receipt_digest'', JStr (str_digest (canary_receipt_digest d))),
      (''slots'', JInt CANARY_SLOTS),
      (''recordings'', JInt CANARY_RECORDINGS),
      (''cells'', JList (map cell_document CAMPAIGN_CELLS)),
      (''geometry_schedule'', JList (map (\<lambda>(a, b). JList [JStr a, JStr b]) MAIN_GEOMETRY_SCHEDULE)),
      (''unit_schedule'', JStr ''single_nine_cell_four_geometry_no_catch_up_supercycle''),
      (''slot_period_numerator_ns'', JInt CANARY_NUMERATOR_NS),
      (''slot_period_denominator'', JInt CANARY_DENOMINATOR),
      (''preflight_lead_ns'', JInt CANARY_PREFLIGHT_LEAD_NS),
      (''maximum_start_lateness_ns'', JInt (canary_lateness d)),
      (''maximum_observed_start_skew_ns'', JInt CANARY_MAXIMUM_SKEW_NS),
      (''hardware_block_duration_ms'', JInt CANARY_BLOCK_DURATION_MS),
      (''capture_mode'', JStr ''coordinated''),
      (''capture_first'', JBool True),
      (''no_catch_up'', JBool True),
      (''replay_allowed'', JBool False),
      (''raw_bytes'', JInt CANARY_RAW_BYTES),
      (''capture_transition_limit'', JInt CANARY_CAPTURE_LIMIT),
      (''analysis_transition_limit'', JInt CANARY_ANALYSIS_LIMIT),
      (''staged_analysis'', JObj
         [(''migration_head'', JStr ''0030_campaign_scoped_analysis_claims.sql''),
          (''window_batches'', JInt CANARY_SLOTS),
          (''compute_workers'', JInt CANARY_COMPUTE_WORKERS),
          (''projection_workers'', JInt CANARY_PROJECTION_WORKERS)]),
      (''result_semantics'', JStr ''candidate_only_no_detection_count'')]"

definition canary_digest :: "canary_definition \<Rightarrow> digest" where
  "canary_digest d = canonical_digest (canary_document d)"

definition canary_cell :: "int \<Rightarrow> (canary_error, campaign_cell) result" where
  "canary_cell i =
     (if \<not> (0 \<le> i \<and> i < CANARY_SLOTS) then Inl (ValueError Outside_Supercycle)
      else Inr (CAMPAIGN_CELLS ! nat (i mod int (length CAMPAIGN_CELLS))))"

definition canary_geometry :: "int \<Rightarrow> (canary_error, string \<times> string) result" where
  "canary_geometry i =
     (if \<not> (0 \<le> i \<and> i < CANARY_SLOTS) then Inl (ValueError Outside_Supercycle)
      else Inr (MAIN_GEOMETRY_SCHEDULE ! nat (i mod int (length MAIN_GEOMETRY_SCHEDULE))))"

definition canary_requested :: "canary_definition \<Rightarrow> int \<Rightarrow> int" where
  "canary_requested d i = canary_start d + i * CANARY_NUMERATOR_NS div CANARY_DENOMINATOR"

definition canary_stem :: "canary_definition \<Rightarrow> int \<Rightarrow> string" where
  "canary_stem d i = canary_id d @ ''_u'' @ fmt0 3 i @ ''_s'' @ fmt0 3 i @ ''_r00''"

definition build_canary_unit :: "canary_definition \<Rightarrow> int \<Rightarrow> (canary_error, campaign_unit) result" where
  "build_canary_unit d i =
     bindE (canary_cell i) (\<lambda>cell.
     let requested = canary_requested d i; stem = canary_stem d i in
     bindE (embed_exn Canary_Unit_Id (contract_id PlanId (''plan_'' @ stem @ ''_a''))) (\<lambda>plan_a.
     bindE (embed_exn Canary_Unit_Id (contract_id PlanId (''plan_'' @ stem @ ''_b''))) (\<lambda>plan_b.
     bindE (embed_exn Canary_Unit_Id (contract_id CaptureAttemptId (''cattempt_'' @ stem @ ''_a''))) (\<lambda>attempt_a.
     bindE (embed_exn Canary_Unit_Batch (checked expected_attempt_post_init
       \<lparr>ea_attempt_id = attempt_a, ea_radio_id = canary_radio_a d, ea_plan_id = plan_a,
        ea_requested_start = requested\<rparr>)) (\<lambda>a.
     bindE (embed_exn Canary_Unit_Id (contract_id CaptureAttemptId (''cattempt_'' @ stem @ ''_b''))) (\<lambda>attempt_b.
     bindE (embed_exn Canary_Unit_Batch (checked expected_attempt_post_init
       \<lparr>ea_attempt_id = attempt_b, ea_radio_id = canary_radio_b d, ea_plan_id = plan_b,
        ea_requested_start = requested\<rparr>)) (\<lambda>b.
     bindE (embed_exn Canary_Unit_Id (contract_id CaptureBatchId (''cbatch_'' @ stem))) (\<lambda>batch_id.
     bindE (embed_exn Canary_Unit_Batch (checked batch_definition_post_init
       \<lparr>bd_schema = schema_v0_1 batch_schema_id, bd_batch_id = batch_id, bd_mode = COORDINATED,
        expected_attempts = [a, b], maximum_skew = Some CANARY_MAXIMUM_SKEW_NS\<rparr>)) (\<lambda>batch.
       Inr \<lparr>success_index = i, slot_index = i, retry_index = 0, unit_cell = cell,
            requested_start = requested, unit_batch = batch, plan_a_id = plan_a,
            plan_b_id = plan_b\<rparr>)))))))))"

subsection \<open>Records and states\<close>

datatype canary_phase = CY_CAPTURING | CY_ANALYZING | CY_COMPLETE | CY_HALTED

datatype canary_halt = CY_MISSED_SLOT | CY_UNCERTAIN | CY_INTEGRITY_FAILURE | CY_ANALYSIS_FAILURE

datatype canary_record_phase = CR_PLANNED | CAPTURE_INVOKED | CR_CAPTURED | CR_COMPLETE

record canary_record =
  cr_unit :: campaign_unit
  cr_phase :: canary_record_phase
  cr_snapshot :: "batch_snapshot option"
  cr_receipt :: "analysis_receipt option"

definition new_canary_record :: "campaign_unit \<Rightarrow> canary_record" where
  "new_canary_record u = \<lparr>cr_unit = u, cr_phase = CR_PLANNED, cr_snapshot = None, cr_receipt = None\<rparr>"

definition canary_record_post_init :: "canary_record \<Rightarrow> (canary_error, unit) result" where
  "canary_record_post_init r =
     raise_first
       [(retry_index (cr_unit r) \<noteq> 0 \<or> success_index (cr_unit r) \<noteq> slot_index (cr_unit r),
           ValueError Replayed_Identity),
        (cr_phase r \<in> {CR_PLANNED, CAPTURE_INVOKED} \<and> (cr_snapshot r \<noteq> None \<or> cr_receipt r \<noteq> None),
           ValueError Planned_Evidence),
        (cr_phase r \<notin> {CR_PLANNED, CAPTURE_INVOKED} \<and> cr_snapshot r = None, ValueError Snapshot_Lacking),
        ((cr_phase r = CR_COMPLETE) \<noteq> (cr_receipt r \<noteq> None), ValueError Receipt_Phase_Differs)]"

record canary_state =
  cy_digest :: digest
  cy_phase :: canary_phase
  cy_records :: "canary_record list"
  cy_halt :: "canary_halt option"
  cy_revision :: int

definition new_canary_state :: "digest \<Rightarrow> canary_state" where
  "new_canary_state dg =
     \<lparr>cy_digest = dg, cy_phase = CY_CAPTURING, cy_records = [], cy_halt = None, cy_revision = 0\<rparr>"

definition canary_captured_count :: "canary_state \<Rightarrow> int" where
  "canary_captured_count s = int (count_where (\<lambda>r. cr_snapshot r \<noteq> None) (cy_records s))"

definition canary_analyzed_count :: "canary_state \<Rightarrow> int" where
  "canary_analyzed_count s = int (count_where (\<lambda>r. cr_phase r = CR_COMPLETE) (cy_records s))"

definition undecided :: "canary_record \<Rightarrow> bool" where
  "undecided r \<longleftrightarrow> cr_phase r \<in> {CR_PLANNED, CAPTURE_INVOKED}"

definition canary_state_post_init :: "canary_state \<Rightarrow> (canary_error, unit) result" where
  "canary_state_post_init s =
     raise_first
       [(cy_revision s < 0 \<or> int (length (cy_records s)) > CANARY_SLOTS, ValueError Canary_Bounds),
        ((cy_phase s = CY_HALTED) \<noteq> (cy_halt s \<noteq> None), ValueError Canary_Halt_Evidence),
        (map (\<lambda>r. slot_index (cr_unit r)) (cy_records s) \<noteq> map int [0..<length (cy_records s)],
           ValueError Canary_Not_Canonical),
        (list_ex undecided (butlast (cy_records s)), ValueError Nonterminal_Inside),
        (cy_phase s \<in> {CY_ANALYZING, CY_COMPLETE} \<and> list_ex undecided (cy_records s),
           ValueError Closed_Planned),
        (cy_phase s = CY_COMPLETE \<and> canary_analyzed_count s \<noteq> CANARY_SLOTS,
           ValueError Complete_Lacks_Receipts)]"

datatype canary_status =
    CS_NOT_DUE | CS_CAPTURED | CS_PHASE_CLOSED | CS_ANALYZED | CS_COMPLETE | CS_CAPACITY_BLOCKED | CS_HALTED

record canary_result =
  cy_status :: canary_status
  cy_state :: canary_state
  cy_unit :: "campaign_unit option"

definition canary_result_of :: "canary_status \<Rightarrow> canary_state \<Rightarrow> campaign_unit option \<Rightarrow> canary_result" where
  "canary_result_of st s u = \<lparr>cy_status = st, cy_state = s, cy_unit = u\<rparr>"

subsection \<open>The in-memory journal\<close>

type_synonym canary_journal = "canary_state option"
type_synonym ('s, 'a) canary_io = "('s, canary_error exn, 'a) io"

definition canary_load :: "canary_definition \<Rightarrow> (canary_journal, canary_state) canary_io" where
  "canary_load d j =
     (case j of
        None \<Rightarrow> (Inl (RuntimeError Canary_Definition_Differs), j)
      | Some s \<Rightarrow>
          if cy_digest s \<noteq> canary_digest d then (Inl (RuntimeError Canary_Definition_Differs), j)
          else (Inr s, j))"

definition canary_initialize :: "canary_definition \<Rightarrow> (canary_journal, canary_state) canary_io" where
  "canary_initialize d j =
     canary_load d (case j of None \<Rightarrow> Some (new_canary_state (canary_digest d)) | Some s \<Rightarrow> Some s)"

definition canary_cas ::
  "canary_definition \<Rightarrow> int \<Rightarrow> canary_state \<Rightarrow> (canary_journal, canary_state) canary_io" where
  "canary_cas d expected_revision replacement =
     bind_io (canary_load d) (\<lambda>current j.
       if cy_revision current \<noteq> expected_revision
          \<or> cy_digest replacement \<noteq> canary_digest d
          \<or> cy_revision replacement \<noteq> expected_revision + 1
       then (Inl (RuntimeError Canary_Revision_Changed), j)
       else (Inr replacement, Some replacement))"

subsection \<open>The coordinator\<close>

definition canary_coordinator_init ::
  "canary_definition \<Rightarrow> int \<Rightarrow> (canary_journal, canary_state) canary_io" where
  "canary_coordinator_init d margin =
     bind_io (lift (raise_first [(margin < 0, ValueError Negative_Canary_Margin)]))
       (\<lambda>_. canary_initialize d)"

text \<open>The indices summed over are slots of the supercycle, so \<open>canary_cell\<close> returns.\<close>

definition canary_required_capacity :: "int \<Rightarrow> canary_state \<Rightarrow> int" where
  "canary_required_capacity margin s =
     sum_list (map (\<lambda>i. (case canary_cell i of Inr c \<Rightarrow> cell_sample_count c | Inl _ \<Rightarrow> 0) * 128)
       [canary_captured_count s..CANARY_SLOTS - 1]) * 2 + margin"

definition canary_deadline :: "canary_definition \<Rightarrow> int \<Rightarrow> int" where
  "canary_deadline d i = canary_start d + (i + 1) * CANARY_NUMERATOR_NS div CANARY_DENOMINATOR"

abbreviation (input) checked_canary_record :: "canary_record \<Rightarrow> (canary_error, canary_record) result" where
  "checked_canary_record \<equiv> checked canary_record_post_init"

abbreviation (input) checked_canary :: "canary_state \<Rightarrow> (canary_error, canary_state) result" where
  "checked_canary \<equiv> checked canary_state_post_init"

definition canary_store where
  "canary_store cas replacement current =
     bind_io (lift (checked_canary (replacement\<lparr>cy_revision := cy_revision current + 1\<rparr>)))
       (cas (cy_revision current))"

definition canary_halt_with where
  "canary_halt_with cas s reason u =
     bind_io (lift (checked_canary (s\<lparr>cy_phase := CY_HALTED, cy_halt := Some reason\<rparr>))) (\<lambda>h.
     bind_io (canary_store cas h s) (\<lambda>halted. ret (canary_result_of CS_HALTED halted (Some u))))"

definition canary_replace_last where
  "canary_replace_last cas s r =
     (if cy_records s = [] \<or> cr_unit (last (cy_records s)) \<noteq> cr_unit r
      then lift (Inl (RuntimeError Canary_Other_Unit))
      else
        bind_io (lift (checked_canary (s\<lparr>cy_records := butlast (cy_records s) @ [r]\<rparr>)))
          (\<lambda>s'. canary_store cas s' s))"

definition canary_snapshot_bad :: "canary_definition \<Rightarrow> campaign_unit \<Rightarrow> batch_snapshot \<Rightarrow> bool" where
  "canary_snapshot_bad d u s \<longleftrightarrow>
     \<not> terminal s
     \<or> bs_definition s \<noteq> unit_batch u
     \<or> paired_analysis_eligibility s \<noteq> ELIGIBLE
     \<or> list_ex (\<lambda>a. ao_state a \<noteq> SUCCEEDED \<or> ao_terminal a > canary_deadline d (slot_index u)) (outcomes s)"

text \<open>\<open>capture_next\<close>: from the due check on, with the planned record in place.\<close>

definition canary_capture where
  "canary_capture cas d margin env now s r =
     (let u = cr_unit r; requested = requested_start u in
      if now < requested - CANARY_PREFLIGHT_LEAD_NS
      then ret (canary_result_of CS_NOT_DUE s (Some u))
      else if now > requested + canary_lateness d
      then canary_halt_with cas s CY_MISSED_SLOT u
      else
        case ce_capacity env of
          None \<Rightarrow> lift (Inl (RuntimeError Canary_Capacity_Raised))
        | Some available \<Rightarrow>
            if available < canary_required_capacity margin s
            then ret (canary_result_of CS_CAPACITY_BLOCKED s (Some u))
            else
              bind_io (lift (checked_canary_record (r\<lparr>cr_phase := CAPTURE_INVOKED\<rparr>))) (\<lambda>r.
              bind_io (canary_replace_last cas s r) (\<lambda>s.
              bind_io (call_port Canary_Died (ce_capture env u requested (canary_deadline d (slot_index u)))) (\<lambda>answer.
                case answer of
                  None \<Rightarrow> canary_halt_with cas s CY_UNCERTAIN u
                | Some snapshot \<Rightarrow>
                    if canary_snapshot_bad d u snapshot
                    then canary_halt_with cas s CY_INTEGRITY_FAILURE u
                    else
                      bind_io (lift (checked_canary_record
                        (r\<lparr>cr_phase := CR_CAPTURED, cr_snapshot := Some snapshot\<rparr>))) (\<lambda>replacement.
                      bind_io (canary_replace_last cas s replacement) (\<lambda>s.
                        ret (canary_result_of CS_CAPTURED s (Some u))))))))"

definition canary_plan_next where
  "canary_plan_next cas d margin env now s =
     bind_io (lift (build_canary_unit d (canary_captured_count s))) (\<lambda>u.
     bind_io (lift (checked_canary_record (new_canary_record u))) (\<lambda>r.
     bind_io (lift (checked_canary (s\<lparr>cy_records := cy_records s @ [r]\<rparr>))) (\<lambda>planned.
     bind_io (canary_store cas planned s) (\<lambda>s.
       canary_capture cas d margin env now s (last (cy_records s))))))"

definition canary_capture_from where
  "canary_capture_from cas d margin env now s =
     (if cy_phase s = CY_HALTED then ret (canary_result_of CS_HALTED s None)
      else if cy_phase s \<noteq> CY_CAPTURING then ret (canary_result_of CS_PHASE_CLOSED s None)
      else if canary_captured_count s = CANARY_SLOTS
      then
        bind_io (lift (checked_canary (s\<lparr>cy_phase := CY_ANALYZING\<rparr>))) (\<lambda>a.
        bind_io (canary_store cas a s) (\<lambda>closed. ret (canary_result_of CS_PHASE_CLOSED closed None)))
      else
        case last_opt (cy_records s) of
          Some r \<Rightarrow>
            if cr_phase r = CAPTURE_INVOKED then canary_halt_with cas s CY_UNCERTAIN (cr_unit r)
            else if cr_phase r = CR_PLANNED then canary_capture cas d margin env now s r
            else canary_plan_next cas d margin env now s
        | None \<Rightarrow> canary_plan_next cas d margin env now s)"

definition canary_capture_next where
  "canary_capture_next load cas d margin env now = bind_io load (canary_capture_from cas d margin env now)"

definition canary_receipt_ok :: "int \<Rightarrow> batch_snapshot \<Rightarrow> analysis_receipt \<Rightarrow> bool" where
  "canary_receipt_ok deadline s r \<longleftrightarrow>
     rc_batch_id r = bs_batch_id s
     \<and> \<not> (receipt_recording_ids r \<noteq> sort (map published_recording_id (successful_recordings s))
          \<or> rc_completed_utc_ns r > deadline)"

definition captured_record :: "canary_record \<Rightarrow> bool" where
  "captured_record r \<longleftrightarrow> cr_phase r = CR_CAPTURED"

definition canary_reconcile where
  "canary_reconcile cas env deadline s i r =
     (case cr_snapshot r of
        None \<Rightarrow> lift (Inl (AssertionError No_Canary_Snapshot))
      | Some snapshot \<Rightarrow>
          bind_io (call_port Canary_Died (ce_analyze env snapshot deadline)) (\<lambda>answer.
            case answer of
              None \<Rightarrow> canary_halt_with cas s CY_ANALYSIS_FAILURE (cr_unit r)
            | Some receipt \<Rightarrow>
                if \<not> canary_receipt_ok deadline snapshot receipt
                then canary_halt_with cas s CY_ANALYSIS_FAILURE (cr_unit r)
                else
                  bind_io (lift (checked_canary_record
                    (r\<lparr>cr_phase := CR_COMPLETE, cr_receipt := Some receipt\<rparr>))) (\<lambda>replacement.
                  bind_io (lift (checked_canary (s\<lparr>cy_records := (cy_records s)[i := replacement]\<rparr>))) (\<lambda>s'.
                  bind_io (canary_store cas s' s) (\<lambda>s.
                    ret (canary_result_of CS_ANALYZED s (Some (cr_unit r))))))))"

definition canary_reconcile_next where
  "canary_reconcile_next load cas env deadline =
     bind_io load (\<lambda>s.
       if cy_phase s = CY_HALTED then ret (canary_result_of CS_HALTED s None)
       else if cy_phase s = CY_CAPTURING then ret (canary_result_of CS_PHASE_CLOSED s None)
       else if canary_analyzed_count s < CANARY_SLOTS then
         (case find_index captured_record (cy_records s) of
            None \<Rightarrow> lift (Inl (StopIteration No_Captured_Record))
          | Some (i, r) \<Rightarrow> canary_reconcile cas env deadline s i r)
       else
         bind_io (lift (checked_canary (s\<lparr>cy_phase := CY_COMPLETE\<rparr>))) (\<lambda>c.
         bind_io (canary_store cas c s) (\<lambda>completed.
           ret (canary_result_of CS_COMPLETE completed None))))"

definition canary_halt_analysis where
  "canary_halt_analysis load cas =
     bind_io load (\<lambda>s.
       if cy_phase s = CY_HALTED then ret (canary_result_of CS_HALTED s None)
       else if cy_phase s \<noteq> CY_ANALYZING then lift (Inl (RuntimeError Canary_Not_Open))
       else
         case find captured_record (cy_records s) of
           None \<Rightarrow> lift (Inl (StopIteration No_Captured_Record))
         | Some r \<Rightarrow> canary_halt_with cas s CY_ANALYSIS_FAILURE (cr_unit r))"

subsection \<open>The receipt\<close>

definition CANARY_ANALYSIS_STAGES :: "string list" where
  "CANARY_ANALYSIS_STAGES =
     [''feature_compute'', ''feature_projection'', ''waterfall_compute'', ''waterfall_projection'',
      ''starlink_suite_compute'', ''starlink_suite_projection'']"

record canary_benchmark =
  stage :: string
  workers :: int
  wall_time_ns :: int
  cpu_time_ns :: int
  peak_rss_bytes :: int

definition endswith :: "string \<Rightarrow> string \<Rightarrow> bool" where
  "endswith s t \<longleftrightarrow> length t \<le> length s \<and> drop (length s - length t) s = t"

definition canary_benchmark_post_init :: "canary_benchmark \<Rightarrow> (canary_error, unit) result" where
  "canary_benchmark_post_init b =
     raise_first
       [(stage b \<notin> set CANARY_ANALYSIS_STAGES, ValueError Unreviewed_Stage),
        (workers b \<noteq> (if endswith (stage b) ''compute'' then 8 else 4), ValueError Worker_Count),
        (wall_time_ns b \<le> 0 \<or> cpu_time_ns b < 0 \<or> peak_rss_bytes b \<le> 0, ValueError Resource_Evidence)]"

definition benchmark_document :: "canary_benchmark \<Rightarrow> json" where
  "benchmark_document b =
     JObj [(''stage'', JStr (stage b)), (''workers'', JInt (workers b)),
           (''wall_time_ns'', JInt (wall_time_ns b)), (''cpu_time_ns'', JInt (cpu_time_ns b)),
           (''peak_rss_bytes'', JInt (peak_rss_bytes b))]"

record canary_receipt =
  yr_definition :: digest
  yr_qualification :: digest
  yr_issued :: int
  yr_units :: "digest list"
  yr_snapshots :: "digest list"
  yr_analyses :: "digest list"
  yr_recordings :: "string list"
  yr_latency :: "int list"
  yr_skew :: "int list"
  yr_benchmarks :: "canary_benchmark list"
  yr_feature_sets :: int
  yr_waterfalls :: int
  yr_suites :: int
  yr_dashboard :: int

definition canary_receipt_post_init :: "canary_receipt \<Rightarrow> (canary_error, unit) result" where
  "canary_receipt_post_init r =
     raise_first
       [(yr_qualification r \<noteq> V8_RECEIPT_DIGEST, ValueError Receipt_Not_V8),
        (yr_issued r < 0, ValueError Receipt_Time),
        (\<not> (int (length (yr_units r)) = CANARY_SLOTS \<and> int (length (yr_snapshots r)) = CANARY_SLOTS
            \<and> int (length (yr_analyses r)) = CANARY_SLOTS
            \<and> int (length (yr_recordings r)) = CANARY_RECORDINGS
            \<and> int (length (yr_latency r)) = CANARY_SLOTS \<and> int (length (yr_skew r)) = CANARY_SLOTS),
           ValueError Receipt_Inventory),
        (int (card (set (yr_recordings r))) \<noteq> CANARY_RECORDINGS, ValueError Recordings_Reused),
        (list_ex (\<lambda>v. v < 0) (yr_latency r), ValueError Capture_Timing),
        (list_ex (\<lambda>v. \<not> (0 \<le> v \<and> v < CANARY_MAXIMUM_SKEW_NS)) (yr_skew r), ValueError Skew_Bound),
        (map stage (yr_benchmarks r) \<noteq> CANARY_ANALYSIS_STAGES, ValueError Benchmark_Order),
        (\<not> (yr_feature_sets r = CANARY_RECORDINGS \<and> yr_waterfalls r = CANARY_RECORDINGS
            \<and> yr_suites r = CANARY_RECORDINGS \<and> yr_dashboard r = CANARY_RECORDINGS),
           ValueError Recording_Closure)]"

definition canary_receipt_document :: "canary_receipt \<Rightarrow> json" where
  "canary_receipt_document r =
     (let texts = \<lambda>ds. JList (map (\<lambda>x. JStr (str_digest x)) ds) in
      JObj
       [(''schema'', JStr ''org.leo-flow.gauss-v5-supercycle-canary-receipt/v1''),
        (''authorization_scope'', JStr ''canary_only''),
        (''main_campaign_authorized'', JBool False),
        (''definition_digest'', JStr (str_digest (yr_definition r))),
        (''qualification_receipt_digest'', JStr (str_digest (yr_qualification r))),
        (''issued_utc_ns'', JInt (yr_issued r)),
        (''unit_digests'', texts (yr_units r)),
        (''snapshot_digests'', texts (yr_snapshots r)),
        (''analysis_receipt_digests'', texts (yr_analyses r)),
        (''recording_ids'', JList (map JStr (yr_recordings r))),
        (''capture_completion_latency_ns'', JList (map JInt (yr_latency r))),
        (''observed_skew_ns'', JList (map JInt (yr_skew r))),
        (''maximum_observed_skew_ns'', JInt (Max (set (yr_skew r)))),
        (''benchmarks'', JList (map benchmark_document (yr_benchmarks r))),
        (''closure'', JObj
           [(''feature_set_count'', JInt (yr_feature_sets r)),
            (''waterfall_count'', JInt (yr_waterfalls r)),
            (''starlink_suite_terminal_count'', JInt (yr_suites r)),
            (''dashboard_recording_count'', JInt (yr_dashboard r))]),
        (''result_semantics'', JStr ''candidate_only_no_detection_count'')])"

definition canary_receipt_digest_of :: "canary_receipt \<Rightarrow> digest" where
  "canary_receipt_digest_of r = canonical_digest (canary_receipt_document r)"

text \<open>An index past the outcomes raises; the snapshots of a complete canary have two.\<close>

definition observed_start_at :: "batch_snapshot \<Rightarrow> nat \<Rightarrow> (canary_error, int) result" where
  "observed_start_at s i =
     (if i \<ge> length (outcomes s) then Inl (IndexError Lacks_Observed_Start)
      else case ao_observed_start (outcomes s ! i) of
        None \<Rightarrow> Inl (ValueError Lacks_Observed_Start)
      | Some v \<Rightarrow> Inr v)"

definition canary_recordings :: "batch_snapshot \<Rightarrow> string list" where
  "canary_recordings s = sort (map published_recording_id (successful_recordings s))"

text \<open>\<open>max\<close> over no outcomes raises; terminal snapshots have their two.\<close>

definition completion_latency :: "canary_record \<Rightarrow> batch_snapshot \<Rightarrow> (canary_error, int) result" where
  "completion_latency r s =
     (if outcomes s = [] then Inl (ValueError Capture_Timing)
      else Inr (Max (set (map ao_terminal (outcomes s))) - requested_start (cr_unit r)))"

definition snapshot_skew :: "batch_snapshot \<Rightarrow> (canary_error, int) result" where
  "snapshot_skew s =
     bindE (observed_start_at s 0) (\<lambda>a. bindE (observed_start_at s 1) (\<lambda>b. Inr \<bar>a - b\<bar>))"

definition build_canary_receipt ::
  "canary_definition \<Rightarrow> canary_state \<Rightarrow> int \<Rightarrow> canary_benchmark list \<Rightarrow> int \<Rightarrow> int \<Rightarrow> int \<Rightarrow> int
     \<Rightarrow> (canary_error, canary_receipt) result" where
  "build_canary_receipt d s issued benchmarks feature_sets waterfalls suites dashboard =
     (if cy_digest s \<noteq> canary_digest d \<or> cy_phase s \<noteq> CY_COMPLETE
         \<or> int (length (cy_records s)) \<noteq> CANARY_SLOTS
      then Inl (ValueError Canary_Incomplete)
      else if list_ex (\<lambda>r. cr_snapshot r = None \<or> cr_receipt r = None) (cy_records s)
      then Inl (ValueError Lacks_Terminal_Evidence)
      else
        let snapshots = List.map_filter cr_snapshot (cy_records s);
            receipts = List.map_filter cr_receipt (cy_records s)
        in
        bindE (mapE (\<lambda>(r, x). completion_latency r x) (zip (cy_records s) snapshots)) (\<lambda>latency.
        bindE (mapE snapshot_skew snapshots) (\<lambda>skew.
        checked canary_receipt_post_init
          \<lparr>yr_definition = canary_digest d, yr_qualification = canary_receipt_digest d,
           yr_issued = issued, yr_units = map (\<lambda>r. unit_digest (cr_unit r)) (cy_records s),
           yr_snapshots = map (\<lambda>x. canonical_digest (json_snapshot x)) snapshots,
           yr_analyses = map (\<lambda>x. canonical_digest (json_receipt x)) receipts,
           yr_recordings = concat (map canary_recordings snapshots), yr_latency = latency,
           yr_skew = skew, yr_benchmarks = benchmarks, yr_feature_sets = feature_sets,
           yr_waterfalls = waterfalls, yr_suites = suites, yr_dashboard = dashboard\<rparr>)))"

subsection \<open>The units of the supercycle\<close>

abbreviation valid_canary :: "canary_definition \<Rightarrow> bool" where
  "valid_canary d \<equiv> canary_definition_post_init d = Inr ()"

text \<open>The canary's units are those a campaign of the same name and radios would build.\<close>

definition as_campaign :: "canary_definition \<Rightarrow> campaign_definition" where
  "as_campaign d =
     \<lparr>campaign_id = canary_id d, start_utc_ns = canary_start d, radio_a_id = canary_radio_a d,
      radio_b_id = canary_radio_b d, station_a_digest = canary_station_a d,
      station_b_digest = canary_station_b d, maximum_start_lateness_ns = canary_lateness d,
      qualification_receipt_digest = Some (canary_receipt_digest d), qualification = False,
      maximum_capture_invocations = 1, maximum_fresh_attempts_per_cell = 1,
      maximum_analysis_invocations = 1, maximum_observed_start_skew_ns = MAXIMUM_START_SKEW_NS,
      preflight_lead_ns = PREFLIGHT_LEAD_NS, analysis_after_each_capture = False\<rparr>"

definition canary_slot_unit :: "canary_definition \<Rightarrow> nat \<Rightarrow> campaign_unit" where
  "canary_slot_unit d i = expected_unit (as_campaign d) (int i) (int i) 0 (canary_requested d (int i))"

lemma canary_campaign_id:
  assumes "canary_id_ok s"
  shows "campaign_id_ok s"
proof -
  have parts: "s = ''canary_'' @ drop 7 s"
  proof -
    have "take (length ''canary_'') s = ''canary_''"
      using assms unfolding canary_id_ok_def startswith_def by blast
    then have "s = ''canary_'' @ drop (length ''canary_'') s"
      by (metis append_take_drop_id)
    moreover have "length ''canary_'' = 7" by simp
    ultimately show ?thesis by metis
  qed
  have "drop 7 s \<noteq> []" "list_all (\<lambda>c. lower_alnum c \<or> c \<in> set ''_-'') (drop 7 s)" "length (drop 7 s) \<le> 32"
    using assms by (cases "drop 7 s"; auto simp: canary_id_ok_def Let_def)+
  moreover have "lower_alnum CHR ''c''" "list_all (\<lambda>c. lower_alnum c \<or> c \<in> set ''_-'') ''anary_''"
    by code_simp+
  ultimately have "campaign_id_ok (''canary_'' @ drop 7 s)"
    by (simp add: campaign_id_ok_def)
  with parts show ?thesis by simp
qed

lemma as_campaign_valid: "valid_canary d \<Longrightarrow> valid_campaign (as_campaign d)"
  by (simp add: canary_definition_post_init_def campaign_definition_post_init_def as_campaign_def canary_campaign_id)

lemma canary_start_nonneg: "valid_canary d \<Longrightarrow> 0 \<le> canary_requested d (int i)"
  by (simp add: canary_requested_def canary_definition_post_init_def canary_constants)

lemma as_campaign_simps [simp]:
  "radio_a_id (as_campaign d) = canary_radio_a d" "radio_b_id (as_campaign d) = canary_radio_b d"
  by (simp_all add: as_campaign_def)

lemma zero_pad: "fmt0 2 0 = ''00''"
  by code_simp

lemma built_canary_unit:
  assumes "valid_canary d" and "i < 36"
  shows "build_canary_unit d (int i) = Inr (canary_slot_unit d i)"
proof -
  let ?c = "as_campaign d" and ?n = "int i" and ?r = "canary_requested d (int i)"
  note valid = as_campaign_valid [OF assms(1)]
  have stem: "unit_stem ?c ?n ?n 0 = canary_stem d ?n"
    using zero_pad by (simp add: unit_stem_def canary_stem_def as_campaign_def)
  have "token_text (canary_stem d ?n)"
    using token_text_stem [OF valid, of ?n ?n 0] by (simp add: stem)
  then have ids: "token_text (canary_stem d ?n @ ''_a'')" "token_text (canary_stem d ?n @ ''_b'')"
    and whole: "token_text (canary_stem d ?n)"
    by (simp_all add: token_literals)
  have "?n < CAMPAIGN_SUCCESS_TARGET" "0 \<le> ?r"
    using assms canary_start_nonneg by (auto simp: campaign_constants)
  then have ok: "batch_definition_post_init (unit_batch (expected_unit ?c ?n ?n 0 ?r)) = Inr ()"
    by (intro built_unit(2) [OF valid]) simp_all
  then show ?thesis
    using assms(2) \<open>0 \<le> ?r\<close> built_ids(1) [OF ids(1)] built_ids(1) [OF ids(2)]
      built_ids(2) [OF ids(1)] built_ids(2) [OF ids(2)] built_ids(3) [OF whole]
    by (simp add: build_canary_unit_def canary_cell_def Let_def checked_def embed_exn_def
        expected_attempt_post_init_def canary_slot_unit_def expected_unit_def unit_plan_def stem
        canary_constants campaign_constants cells_valid(3) del: contract_id_ok)
qed

lemma canary_unit_simps [simp]:
  "slot_index (canary_slot_unit d i) = int i" "success_index (canary_slot_unit d i) = int i"
  "requested_start (canary_slot_unit d i) = canary_requested d (int i)" "retry_index (canary_slot_unit d i) = 0"
  by (simp_all add: canary_slot_unit_def)

subsection \<open>What the journal always holds\<close>

definition canary_evidence :: "canary_definition \<Rightarrow> canary_record \<Rightarrow> batch_snapshot \<Rightarrow> bool" where
  "canary_evidence d r s \<longleftrightarrow> cr_snapshot r = Some s \<and> \<not> canary_snapshot_bad d (cr_unit r) s"

definition canary_record_ok :: "canary_definition \<Rightarrow> nat \<Rightarrow> canary_record \<Rightarrow> bool" where
  "canary_record_ok d i r \<longleftrightarrow>
     cr_unit r = canary_slot_unit d i
     \<and> (case cr_phase r of
          CR_PLANNED \<Rightarrow> cr_snapshot r = None \<and> cr_receipt r = None
        | CAPTURE_INVOKED \<Rightarrow> cr_snapshot r = None \<and> cr_receipt r = None
        | CR_CAPTURED \<Rightarrow> cr_receipt r = None \<and> (\<exists>s. canary_evidence d r s)
        | CR_COMPLETE \<Rightarrow> (\<exists>s rc. canary_evidence d r s \<and> cr_receipt r = Some rc
            \<and> rc_batch_id rc = bs_batch_id s \<and> receipt_recording_ids rc = canary_recordings s))"

definition canary_phase_ok :: "canary_phase \<Rightarrow> canary_halt option \<Rightarrow> canary_record list \<Rightarrow> bool" where
  "canary_phase_ok p h rs \<longleftrightarrow>
     (p = CY_HALTED) = (h \<noteq> None)
     \<and> (case p of
          CY_CAPTURING \<Rightarrow> \<forall>r \<in> set rs. cr_phase r \<noteq> CR_COMPLETE
        | CY_ANALYZING \<Rightarrow> length rs = 36 \<and> (\<forall>r \<in> set rs. cr_phase r \<in> {CR_CAPTURED, CR_COMPLETE})
        | CY_COMPLETE \<Rightarrow> length rs = 36 \<and> (\<forall>r \<in> set rs. cr_phase r = CR_COMPLETE)
        | CY_HALTED \<Rightarrow> True)"

definition canary_inv :: "canary_definition \<Rightarrow> canary_state \<Rightarrow> bool" where
  "canary_inv d s \<longleftrightarrow>
     cy_digest s = canary_digest d \<and> 0 \<le> cy_revision s
     \<and> length (cy_records s) \<le> 36
     \<and> (\<forall>i < length (cy_records s). canary_record_ok d i (cy_records s ! i))
     \<and> (\<forall>r \<in> set (butlast (cy_records s)). \<not> undecided r)
     \<and> canary_phase_ok (cy_phase s) (cy_halt s) (cy_records s)"

lemma canary_record_checked:
  assumes "canary_record_ok d i r"
  shows "checked_canary_record r = Inr r"
proof -
  have "canary_record_post_init r = Inr ()"
    using assms by (cases "cr_phase r")
      (auto simp: canary_record_ok_def canary_record_post_init_def canary_evidence_def)
  then show ?thesis by simp
qed

lemma canary_state_checked:
  assumes "canary_inv d s"
  shows "checked_canary s = Inr s"
proof -
  have ph: "canary_phase_ok (cy_phase s) (cy_halt s) (cy_records s)"
    and nt: "\<forall>r \<in> set (butlast (cy_records s)). \<not> undecided r"
    and ok: "\<forall>i < length (cy_records s). canary_record_ok d i (cy_records s ! i)"
    using assms by (simp_all add: canary_inv_def)
  have idx: "map (\<lambda>r. slot_index (cr_unit r)) (cy_records s) = map int [0..<length (cy_records s)]"
    using ok by (intro nth_equalityI) (simp_all add: canary_record_ok_def)
  have inside: "\<not> list_ex undecided (butlast (cy_records s))" using nt by (simp add: list_ex_iff)
  have closed: "\<not> (cy_phase s \<in> {CY_ANALYZING, CY_COMPLETE} \<and> list_ex undecided (cy_records s))"
    using ph by (cases "cy_phase s") (auto simp: canary_phase_ok_def list_ex_iff undecided_def)
  have full: "\<not> (cy_phase s = CY_COMPLETE \<and> canary_analyzed_count s \<noteq> CANARY_SLOTS)"
    using ph by (cases "cy_phase s")
      (auto simp: canary_phase_ok_def canary_analyzed_count_def count_where_def canary_constants)
  have "canary_state_post_init s = Inr ()"
    using idx inside closed full ph assms
    by (simp add: canary_state_post_init_def canary_phase_ok_def canary_inv_def canary_constants)
  then show ?thesis by simp
qed

subsection \<open>What a step may change\<close>

fun canary_rank :: "canary_record_phase \<Rightarrow> nat" where
  "canary_rank CR_PLANNED = 0"
| "canary_rank CAPTURE_INVOKED = 1"
| "canary_rank CR_CAPTURED = 2"
| "canary_rank CR_COMPLETE = 3"

text \<open>
  Records move forward only, snapshots stay, a record whose capture was invoked before the
  call is never touched again, and a halted canary stays exactly as it is.
\<close>

definition canary_step :: "canary_state \<Rightarrow> canary_state \<Rightarrow> bool" where
  "canary_step a b \<longleftrightarrow>
     length (cy_records a) \<le> length (cy_records b)
     \<and> (\<forall>i < length (cy_records a).
          cr_unit (cy_records b ! i) = cr_unit (cy_records a ! i)
          \<and> canary_rank (cr_phase (cy_records a ! i)) \<le> canary_rank (cr_phase (cy_records b ! i))
          \<and> (cr_snapshot (cy_records a ! i) \<noteq> None \<longrightarrow>
               cr_snapshot (cy_records b ! i) = cr_snapshot (cy_records a ! i))
          \<and> (cr_phase (cy_records a ! i) \<in> {CAPTURE_INVOKED, CR_COMPLETE} \<longrightarrow>
               cy_records b ! i = cy_records a ! i))
     \<and> (cy_phase a \<noteq> CY_CAPTURING \<longrightarrow>
          cy_phase b \<noteq> CY_CAPTURING \<and> length (cy_records b) = length (cy_records a))
     \<and> (cy_phase a = CY_HALTED \<longrightarrow> b = a)"

lemma canary_step_refl: "canary_step a a"
  by (simp add: canary_step_def)

lemma canary_step_records:
  assumes "canary_step a s" and "cy_records t = cy_records s" and "cy_phase a \<noteq> CY_HALTED"
    and "cy_phase a = CY_CAPTURING \<or> cy_phase t \<noteq> CY_CAPTURING"
  shows "canary_step a t"
  using assms by (auto simp: canary_step_def)

lemma canary_step_append:
  assumes "canary_step a s" and "cy_phase a = CY_CAPTURING" and "cy_records t = cy_records s @ [r]"
  shows "canary_step a t"
  using assms by (simp add: canary_step_def nth_append)

text \<open>Replacing record \<open>i\<close>, seen from the state before the call.\<close>

lemma canary_step_set:
  assumes "canary_step a s" and "i < length (cy_records s)" and "cy_records t = (cy_records s)[i := r]"
    and "cr_unit r = cr_unit (cy_records s ! i)"
    and "i < length (cy_records a) \<longrightarrow>
      canary_rank (cr_phase (cy_records a ! i)) \<le> canary_rank (cr_phase r)
      \<and> (cr_snapshot (cy_records a ! i) \<noteq> None \<longrightarrow> cr_snapshot r = cr_snapshot (cy_records a ! i))
      \<and> cr_phase (cy_records a ! i) \<notin> {CAPTURE_INVOKED, CR_COMPLETE}"
    and "cy_phase a \<noteq> CY_HALTED" and "cy_phase a = CY_CAPTURING \<or> cy_phase t \<noteq> CY_CAPTURING"
  shows "canary_step a t"
  unfolding canary_step_def
proof (intro conjI allI impI)
  show "length (cy_records a) \<le> length (cy_records t)"
    using assms(1,3) by (simp add: canary_step_def)
next
  fix j
  assume j: "j < length (cy_records a)"
  note a = assms(1) [unfolded canary_step_def, THEN conjunct2, THEN conjunct1, rule_format, OF j]
  have t: "cy_records t ! j = (if j = i then r else cy_records s ! j)"
    using assms(2,3) by auto
  show "cr_unit (cy_records t ! j) = cr_unit (cy_records a ! j)"
    using a t assms(4) by (cases "j = i") simp_all
  show "canary_rank (cr_phase (cy_records a ! j)) \<le> canary_rank (cr_phase (cy_records t ! j))"
    using a t j assms(5) by (cases "j = i") simp_all
  show "cr_snapshot (cy_records t ! j) = cr_snapshot (cy_records a ! j)"
    if "cr_snapshot (cy_records a ! j) \<noteq> None"
    using a t j assms(5) that by (cases "j = i") simp_all
  show "cy_records t ! j = cy_records a ! j"
    if "cr_phase (cy_records a ! j) \<in> {CAPTURE_INVOKED, CR_COMPLETE}"
    using a t j assms(5) that by metis
qed (use assms(1,3,6,7) in \<open>auto simp: canary_step_def\<close>)

lemma canary_inv_set:
  assumes "canary_inv d s" and "i < length (cy_records s)" and "canary_record_ok d i r"
    and "\<not> undecided r \<or> Suc i = length (cy_records s)"
    and "cy_records t = (cy_records s)[i := r]" "cy_digest t = cy_digest s" "0 \<le> cy_revision t"
    and "canary_phase_ok (cy_phase t) (cy_halt t) (cy_records t)"
  shows "canary_inv d t"
proof -
  have "\<forall>q \<in> set (butlast ((cy_records s)[i := r])). \<not> undecided q"
  proof (cases "Suc i = length (cy_records s)")
    case True
    then have "i = length (cy_records s) - 1" by simp
    then show ?thesis using assms(1) by (auto simp: butlast_list_update canary_inv_def)
  next
    case False
    have "butlast ((cy_records s)[i := r]) = (butlast (cy_records s))[i := r]"
    proof -
      have "i \<noteq> length (cy_records s) - 1" using False assms(2) by arith
      then show ?thesis by (simp add: butlast_list_update)
    qed
    moreover have "set ((butlast (cy_records s))[i := r]) \<subseteq> insert r (set (butlast (cy_records s)))"
      by (rule set_update_subset_insert)
    ultimately show ?thesis using assms(1,4) False unfolding canary_inv_def by auto
  qed
  moreover have "\<forall>j < length (cy_records s). canary_record_ok d j ((cy_records s)[i := r] ! j)"
    using assms(1-3) by (auto simp: canary_inv_def nth_list_update)
  ultimately show ?thesis
    using assms(1,5-8) by (simp add: canary_inv_def)
qed

subsection \<open>Every operation keeps it\<close>

definition canary_capture_errors :: "campaign_env \<Rightarrow> canary_error exn set" where
  "canary_capture_errors env =
     {e. e = RuntimeError Canary_Capacity_Raised \<and> ce_capacity env = None
       \<or> e = SystemExit Canary_Died \<and> (\<exists>u start deadline. ce_capture env u start deadline = Died)}"

definition canary_analysis_errors :: "campaign_env \<Rightarrow> canary_error exn set" where
  "canary_analysis_errors env =
     {e. e = SystemExit Canary_Died \<and> (\<exists>s deadline. ce_analyze env s deadline = Died)}"

locale canary_run =
  cas_journal load_op cas_op current cy_revision "\<lambda>x y. cy_digest y = cy_digest x"
  for load_op :: "('s, canary_state) canary_io"
    and cas_op :: "int \<Rightarrow> canary_state \<Rightarrow> ('s, canary_state) canary_io"
    and current :: "'s \<Rightarrow> canary_state option" +
  fixes d :: canary_definition
begin

definition Q :: "canary_state \<Rightarrow> canary_result \<Rightarrow> 's \<Rightarrow> bool" where
  "Q a r s \<longleftrightarrow> current s = Some (cy_state r) \<and> canary_inv d (cy_state r) \<and> canary_step a (cy_state r)"

definition E :: "canary_state \<Rightarrow> canary_error exn set \<Rightarrow> canary_error exn \<Rightarrow> 's \<Rightarrow> bool" where
  "E a X e s \<longleftrightarrow> e \<in> X \<and> holding (\<lambda>x. canary_inv d x \<and> canary_step a x) s"

abbreviation at_state :: "canary_state \<Rightarrow> canary_state \<Rightarrow> 's \<Rightarrow> bool" where
  "at_state a st s \<equiv> current s = Some st \<and> canary_inv d st \<and> canary_step a st"

lemma triple_at_pre:
  assumes "canary_inv d st \<Longrightarrow> canary_step a st \<Longrightarrow> triple (at_state a st) m Q' E'"
  shows "triple (at_state a st) m Q' E'"
proof (rule triple_pre)
  fix s
  assume s: "at_state a st s"
  then have "triple (at_state a st) m Q' E'" using assms by blast
  then show "triple (\<lambda>t. t = s) m Q' E'" using s by (auto elim: triple_weaken)
qed

lemma triple_ret_result: "triple (at_state a st) (ret (canary_result_of status st u)) (Q a) (E a X)"
  by (rule triple_ret) (auto simp: Q_def canary_result_of_def)

lemma triple_raise: "e \<in> X \<Longrightarrow> triple (at_state a st) (lift (Inl e)) (Q a) (E a X)"
  by (intro triple_lift) (auto simp: E_def holding_def)

lemma triple_port_then:
  assumes "\<And>answer. triple (at_state a st) (f answer) (Q a) (E a X)"
    and "p = Died \<Longrightarrow> SystemExit Canary_Died \<in> X"
  shows "triple (at_state a st) (bind_io (call_port Canary_Died p) f) (Q a) (E a X)"
proof (rule triple_bind)
  show "triple (at_state a st) (call_port Canary_Died p) (\<lambda>_. at_state a st) (E a X)"
    using assms(2) by (intro triple_call_port) (auto simp: E_def holding_def)
qed (rule assms(1))

lemma triple_store_then:
  assumes "canary_inv d y" and "canary_step a y" and "cy_digest y = cy_digest st" and "cy_phase a \<noteq> CY_HALTED"
    and "\<And>z. z = y\<lparr>cy_revision := cy_revision st + 1\<rparr> \<Longrightarrow> triple (at_state a z) (f z) (Q a) (E a X)"
  shows "triple (at_state a st) (bind_io (canary_store cas_op y st) f) (Q a) (E a X)"
proof (rule triple_at_pre)
  assume st: "canary_inv d st"
  let ?z = "y\<lparr>cy_revision := cy_revision st + 1\<rparr>"
  have z: "canary_inv d ?z" using assms(1) st by (simp add: canary_inv_def)
  have step: "canary_step a ?z" using assms(2,4) by (simp add: canary_step_def)
  have "triple (at_state a st) (canary_store cas_op y st) (\<lambda>w s. w = ?z \<and> at_state a ?z s) (E a X)"
    unfolding canary_store_def canary_state_checked [OF z] bind_lift
    by (rule triple_cas [where x = st]) (use z step assms(3) in auto)
  then show "triple (at_state a st) (bind_io (canary_store cas_op y st) f) (Q a) (E a X)"
    by (rule triple_bind_eq) (use assms(5) in simp)
qed

lemma triple_halt:
  assumes "cy_phase a \<noteq> CY_HALTED"
  shows "triple (at_state a st) (canary_halt_with cas_op st reason u) (Q a) (E a X)"
proof (rule triple_at_pre)
  assume inv: "canary_inv d st" and step: "canary_step a st"
  let ?h = "st\<lparr>cy_phase := CY_HALTED, cy_halt := Some reason\<rparr>"
  have h: "canary_inv d ?h" using inv by (simp add: canary_inv_def canary_phase_ok_def)
  have step_h: "canary_step a ?h" by (rule canary_step_records [OF step]) (simp_all add: assms)
  show "triple (at_state a st) (canary_halt_with cas_op st reason u) (Q a) (E a X)"
    unfolding canary_halt_with_def canary_state_checked [OF h] bind_lift
    by (intro triple_store_then h step_h triple_ret_result assms) simp
qed

lemma triple_replace_then:
  assumes "cy_records st \<noteq> []" and "i = length (cy_records st) - 1" and "cy_phase a \<noteq> CY_HALTED"
    and "canary_record_ok d i r"
    and "canary_phase_ok (cy_phase st) (cy_halt st) ((cy_records st)[i := r])"
    and "canary_step a (st\<lparr>cy_records := (cy_records st)[i := r]\<rparr>)"
    and "\<And>z. z = st\<lparr>cy_records := (cy_records st)[i := r], cy_revision := cy_revision st + 1\<rparr> \<Longrightarrow>
      triple (at_state a z) (f z) (Q a) (E a X)"
  shows "triple (at_state a st) (bind_io (canary_replace_last cas_op st r) f) (Q a) (E a X)"
proof (rule triple_at_pre)
  assume inv: "canary_inv d st" and "canary_step a st"
  have i: "i < length (cy_records st)" "Suc i = length (cy_records st)" using assms(1,2) by simp_all
  have eq: "butlast (cy_records st) @ [r] = (cy_records st)[i := r]"
    using update_last [OF assms(1)] assms(2) by simp
  let ?y = "st\<lparr>cy_records := (cy_records st)[i := r]\<rparr>"
  have y: "canary_inv d ?y"
    by (rule canary_inv_set [OF inv i(1) assms(4)]) (use assms(5) i(2) inv in \<open>simp_all add: canary_inv_def\<close>)
  have "last (cy_records st) = cy_records st ! i"
    using assms(1,2) by (simp add: last_conv_nth)
  then have unit: "cr_unit (last (cy_records st)) = cr_unit r"
    using inv assms(4) i by (simp add: canary_inv_def canary_record_ok_def)
  have e: "bind_io (canary_replace_last cas_op st r) f = bind_io (canary_store cas_op ?y st) f"
    using assms(1) unit by (simp add: canary_replace_last_def eq canary_state_checked [OF y])
  show "triple (at_state a st) (bind_io (canary_replace_last cas_op st r) f) (Q a) (E a X)"
    unfolding e by (rule triple_store_then [OF y assms(6)]) (use assms(3,7) in simp_all)
qed

lemma triple_loaded:
  assumes "canary_inv d a" and "triple (at_state a a) (f a) (Q a) (E a X)"
  shows "triple (\<lambda>s. current s = Some a) (bind_io load_op f) (Q a) (E a X)"
proof (rule triple_bind_eq)
  show "triple (\<lambda>s. current s = Some a) load_op (\<lambda>z s. z = a \<and> at_state a a s) (E a X)"
    using assms(1) canary_step_refl by (intro triple_load) auto
qed (rule assms(2))

lemma triple_capture:
  assumes "cy_phase a = CY_CAPTURING" and "cy_phase st = CY_CAPTURING"
    and "cy_records st \<noteq> []" and "r = last (cy_records st)" and "cr_phase r = CR_PLANNED"
    and "canary_capture_errors env \<subseteq> X"
    and old: "length (cy_records a) = length (cy_records st) \<Longrightarrow> cy_records a = cy_records st"
  shows "triple (at_state a st) (canary_capture cas_op d margin env now st r) (Q a) (E a X)"
proof (rule triple_at_pre)
  assume inv: "canary_inv d st" and step: "canary_step a st"
  define i where "i = length (cy_records st) - 1"
  have i: "i < length (cy_records st)" "Suc i = length (cy_records st)" "cy_records st ! i = r"
    using assms(3,4) by (simp_all add: i_def last_conv_nth)
  have len: "length (cy_records a) \<le> length (cy_records st)" using step by (simp add: canary_step_def)
  have a_i: "cy_records a ! i = r" if "i < length (cy_records a)"
    using old len i that by auto
  have ok: "canary_record_ok d i r" using inv i by (auto simp: canary_inv_def)
  have capt: "canary_phase_ok CY_CAPTURING (cy_halt st) (cy_records st)"
    using inv assms(2) by (simp add: canary_inv_def)
  have set_capt: "canary_phase_ok CY_CAPTURING (cy_halt st) ((cy_records st)[i := q])"
    if "cr_phase q \<noteq> CR_COMPLETE" for q
    using capt that set_update_subset_insert [of "cy_records st" i q] by (auto simp: canary_phase_ok_def)
  define ir where "ir = r\<lparr>cr_phase := CAPTURE_INVOKED\<rparr>"
  have ir: "canary_record_ok d i ir" using ok assms(5) by (simp add: ir_def canary_record_ok_def)
  have r0: "cr_snapshot r = None" using ok assms(5) by (simp add: canary_record_ok_def)
  have step_st: "canary_step a t"
    if "cy_records t = (cy_records st)[i := q]" "cr_unit q = cr_unit r" for t q
    using i that a_i by (intro canary_step_set [OF step, of i t q]) (auto simp: assms(1,5) r0)
  let ?z = "st\<lparr>cy_records := (cy_records st)[i := ir], cy_revision := cy_revision st + 1\<rparr>"
  have captured: "canary_record_ok d i (ir\<lparr>cr_phase := CR_CAPTURED, cr_snapshot := Some snap\<rparr>)"
    if "\<not> canary_snapshot_bad d (cr_unit r) snap" for snap
  proof -
    have "canary_evidence d (ir\<lparr>cr_phase := CR_CAPTURED, cr_snapshot := Some snap\<rparr>) snap"
      using that by (simp add: ir_def canary_evidence_def)
    then show ?thesis using ok assms(5) by (auto simp: ir_def canary_record_ok_def)
  qed
  have step_z: "canary_step a (?z\<lparr>cy_records := (cy_records st)[i := q]\<rparr>)" if "cr_unit q = cr_unit r" for q
    by (rule step_st [OF _ that]) simp
  have finish: "triple (at_state a ?z)
      (bind_io (lift (checked_canary_record (ir\<lparr>cr_phase := CR_CAPTURED, cr_snapshot := Some snap\<rparr>))) (\<lambda>replacement.
       bind_io (canary_replace_last cas_op ?z replacement) (\<lambda>s.
         ret (canary_result_of CS_CAPTURED s (Some (cr_unit r)))))) (Q a) (E a X)"
    if good: "\<not> canary_snapshot_bad d (cr_unit r) snap" for snap
    unfolding canary_record_checked [OF captured [OF good]] bind_lift
    using i captured [OF good] set_capt [of "ir\<lparr>cr_phase := CR_CAPTURED, cr_snapshot := Some snap\<rparr>"]
      step_z [of "ir\<lparr>cr_phase := CR_CAPTURED, cr_snapshot := Some snap\<rparr>"]
    by (intro triple_replace_then [where i = i] triple_ret_result)
      (auto simp: assms(1-3) ir_def i_def simp del: One_nat_def)
  have answered: "triple (at_state a z)
      (case answer of
         None \<Rightarrow> canary_halt_with cas_op z CY_UNCERTAIN (cr_unit r)
       | Some snapshot \<Rightarrow>
           if canary_snapshot_bad d (cr_unit r) snapshot
           then canary_halt_with cas_op z CY_INTEGRITY_FAILURE (cr_unit r)
           else bind_io (lift (checked_canary_record (ir\<lparr>cr_phase := CR_CAPTURED, cr_snapshot := Some snapshot\<rparr>)))
             (\<lambda>replacement. bind_io (canary_replace_last cas_op z replacement) (\<lambda>s.
               ret (canary_result_of CS_CAPTURED s (Some (cr_unit r)))))) (Q a) (E a X)"
    if "z = ?z" for z answer
    unfolding that by (intro triple_option triple_if triple_halt finish) (simp_all add: assms(1))
  have invoke: "triple (at_state a st) (bind_io (canary_replace_last cas_op st ir) (\<lambda>s.
      bind_io (call_port Canary_Died (ce_capture env (cr_unit r) requested (canary_deadline d (slot_index (cr_unit r)))))
        (g s))) (Q a) (E a X)"
    if "\<And>z answer. z = ?z \<Longrightarrow> triple (at_state a z) (g z answer) (Q a) (E a X)" for g requested
    using ir i set_capt [of ir] assms(6)
    by (intro triple_replace_then [where i = i] step_st [where q = ir] triple_port_then that)
      (auto simp: assms(1-3) ir_def i_def canary_capture_errors_def simp del: One_nat_def)
  have blocked: "triple (at_state a st) (lift (Inl (RuntimeError Canary_Capacity_Raised))) (Q a) (E a X)"
    if "ce_capacity env = None"
    using that assms(6) by (intro triple_raise) (auto simp: canary_capture_errors_def)
  show "triple (at_state a st) (canary_capture cas_op d margin env now st r) (Q a) (E a X)"
    unfolding canary_capture_def Let_def ir_def [symmetric] canary_record_checked [OF ir] bind_lift
    by (intro triple_if triple_ret_result triple_halt triple_option blocked invoke answered)
      (simp_all add: assms(1))
qed

lemma captured_all:
  assumes "canary_inv d st" and "\<forall>r \<in> set (cy_records st). \<not> undecided r"
  shows "canary_captured_count st = int (length (cy_records st))"
proof -
  have "\<forall>r \<in> set (cy_records st). cr_snapshot r \<noteq> None"
  proof
    fix r
    assume r: "r \<in> set (cy_records st)"
    then obtain i where "canary_record_ok d i r"
      using assms(1) by (auto simp: canary_inv_def in_set_conv_nth)
    with r assms(2) show "cr_snapshot r \<noteq> None"
      by (cases "cr_phase r") (auto simp: canary_record_ok_def undecided_def canary_evidence_def)
  qed
  then show ?thesis by (simp add: canary_captured_count_def count_where_def)
qed

lemma all_decided:
  assumes "canary_inv d st" and "\<forall>r. last_opt (cy_records st) = Some r \<longrightarrow> \<not> undecided r"
  shows "\<forall>r \<in> set (cy_records st). \<not> undecided r"
proof (cases "cy_records st" rule: rev_cases)
  case (snoc ys y)
  with assms show ?thesis by (auto simp: canary_inv_def)
qed simp

lemma triple_plan_next:
  assumes "valid_canary d" and "cy_phase a = CY_CAPTURING" and inv: "canary_inv d a"
    and all: "\<forall>r \<in> set (cy_records a). \<not> undecided r" and "canary_captured_count a \<noteq> CANARY_SLOTS"
    and "canary_capture_errors env \<subseteq> X"
  shows "triple (at_state a a) (canary_plan_next cas_op d margin env now a) (Q a) (E a X)"
proof -
  let ?n = "length (cy_records a)"
  let ?u = "canary_slot_unit d ?n"
  have n: "canary_captured_count a = int ?n" by (rule captured_all [OF inv all])
  have lt: "?n < 36" using inv assms(5) n by (simp add: canary_inv_def canary_constants)
  have build: "build_canary_unit d (canary_captured_count a) = Inr ?u"
    unfolding n by (rule built_canary_unit [OF assms(1) lt])
  have ok: "canary_record_ok d ?n (new_canary_record ?u)"
    by (simp add: canary_record_ok_def new_canary_record_def)
  let ?p = "a\<lparr>cy_records := cy_records a @ [new_canary_record ?u]\<rparr>"
  have p: "canary_inv d ?p"
    using inv lt ok all assms(2)
    by (auto simp: canary_inv_def canary_phase_ok_def nth_append less_Suc_eq new_canary_record_def)
  have capture: "triple (at_state a z) (canary_capture cas_op d margin env now z (last (cy_records z))) (Q a) (E a X)"
    if "z = ?p\<lparr>cy_revision := cy_revision a + 1\<rparr>" for z
    unfolding that
    by (rule triple_capture) (use assms(2,6) in \<open>simp_all add: new_canary_record_def\<close>)
  have step: "canary_step a ?p" by (rule canary_step_append [OF canary_step_refl assms(2)]) simp
  show ?thesis
    unfolding canary_plan_next_def build canary_record_checked [OF ok] canary_state_checked [OF p] bind_lift
    by (intro triple_store_then p step capture) (use assms(2) in simp_all)
qed

lemma triple_capture_next:
  assumes "valid_canary d" and "canary_capture_errors env \<subseteq> X" and inv: "canary_inv d a"
  shows "triple (\<lambda>s. current s = Some a) (canary_capture_next load_op cas_op d margin env now) (Q a) (E a X)"
  unfolding canary_capture_next_def
proof (rule triple_loaded [OF inv])
  have close: "triple (at_state a a) (bind_io (lift (checked_canary (a\<lparr>cy_phase := CY_ANALYZING\<rparr>))) (\<lambda>b.
        bind_io (canary_store cas_op b a) (\<lambda>closed. ret (canary_result_of CS_PHASE_CLOSED closed None)))) (Q a) (E a X)"
    if "cy_phase a = CY_CAPTURING" "canary_captured_count a = CANARY_SLOTS"
  proof -
    have "length (filter (\<lambda>r. cr_snapshot r \<noteq> None) (cy_records a)) = 36"
      using that(2) by (simp add: canary_captured_count_def count_where_def canary_constants)
    moreover have "length (cy_records a) \<le> 36" using inv by (simp add: canary_inv_def)
    ultimately have full: "length (cy_records a) = 36" "\<forall>r \<in> set (cy_records a). cr_snapshot r \<noteq> None"
      using length_filter_le [of "\<lambda>r. cr_snapshot r \<noteq> None" "cy_records a"]
        length_filter_less [of _ "cy_records a" "\<lambda>r. cr_snapshot r \<noteq> None"]
      by (simp, metis le_antisym less_irrefl length_filter_le)
    have "cr_phase r \<in> {CR_CAPTURED, CR_COMPLETE}" if r: "r \<in> set (cy_records a)" for r
    proof -
      obtain i where "canary_record_ok d i r"
        using inv r by (auto simp: canary_inv_def in_set_conv_nth)
      with full(2) r show ?thesis by (cases "cr_phase r") (auto simp: canary_record_ok_def)
    qed
    then have "canary_phase_ok CY_ANALYZING (cy_halt a) (cy_records a)"
      using inv that(1) full(1) by (simp add: canary_inv_def canary_phase_ok_def)
    then have b: "canary_inv d (a\<lparr>cy_phase := CY_ANALYZING\<rparr>)" using inv by (simp add: canary_inv_def)
    have step: "canary_step a (a\<lparr>cy_phase := CY_ANALYZING\<rparr>)"
      by (rule canary_step_records [OF canary_step_refl]) (simp_all add: that)
    show ?thesis
      unfolding canary_state_checked [OF b] bind_lift
      by (intro triple_store_then b step triple_ret_result) (simp_all add: that)
  qed
  have lastr: "cy_records a \<noteq> []" "r = last (cy_records a)" if "last_opt (cy_records a) = Some r" for r
    using last_optD [OF that] by simp_all
  show "triple (at_state a a) (canary_capture_from cas_op d margin env now a) (Q a) (E a X)"
    unfolding canary_capture_from_def
    using assms(1,2)
    by (intro triple_if triple_ret_result triple_option triple_halt triple_plan_next triple_capture
        close inv all_decided lastr) (auto simp: undecided_def)
qed

lemma triple_reconcile_next:
  assumes "canary_analysis_errors env \<subseteq> X" and inv: "canary_inv d a"
  shows "triple (\<lambda>s. current s = Some a) (canary_reconcile_next load_op cas_op env deadline) (Q a) (E a X)"
  unfolding canary_reconcile_next_def
proof (rule triple_loaded [OF inv])
  let ?c = "a\<lparr>cy_phase := CY_COMPLETE\<rparr>"
  have ph: "canary_phase_ok (cy_phase a) (cy_halt a) (cy_records a)" using inv by (simp add: canary_inv_def)
  have complete: "triple (at_state a a) (bind_io (lift (checked_canary ?c)) (\<lambda>c.
        bind_io (canary_store cas_op c a) (\<lambda>completed. ret (canary_result_of CS_COMPLETE completed None)))) (Q a) (E a X)"
    if "cy_phase a \<noteq> CY_HALTED" "cy_phase a \<noteq> CY_CAPTURING" "\<not> canary_analyzed_count a < CANARY_SLOTS"
  proof -
    have "length (cy_records a) = 36" using ph that(1,2) by (cases "cy_phase a") (simp_all add: canary_phase_ok_def)
    moreover have "\<forall>r \<in> set (cy_records a). cr_phase r = CR_COMPLETE"
    proof (rule ccontr)
      assume "\<not> (\<forall>r \<in> set (cy_records a). cr_phase r = CR_COMPLETE)"
      then have "length (filter (\<lambda>r. cr_phase r = CR_COMPLETE) (cy_records a)) < length (cy_records a)"
        by (auto intro: length_filter_less)
      with that(3) calculation show False
        by (simp add: canary_analyzed_count_def count_where_def canary_constants)
    qed
    ultimately have c: "canary_inv d ?c"
      using inv that(1) ph by (simp add: canary_inv_def canary_phase_ok_def)
    have step: "canary_step a ?c"
      by (rule canary_step_records [OF canary_step_refl]) (simp_all add: that)
    show ?thesis
      unfolding canary_state_checked [OF c] bind_lift
      by (intro triple_store_then c step triple_ret_result) (simp_all add: that)
  qed
  have reconcile: "triple (at_state a a) (canary_reconcile cas_op env deadline a i r) (Q a) (E a X)"
    if "cy_phase a \<noteq> CY_HALTED" "cy_phase a \<noteq> CY_CAPTURING"
      and f: "find_index captured_record (cy_records a) = Some (i, r)" for i r
  proof -
    have i: "i < length (cy_records a)" "cy_records a ! i = r" "cr_phase r = CR_CAPTURED"
      using find_index_Some [OF f] by (simp_all add: captured_record_def)
    have ok: "canary_record_ok d i r" using inv i by (auto simp: canary_inv_def)
    then obtain snap where snap: "cr_snapshot r = Some snap" "canary_evidence d r snap"
      using i(3) by (auto simp: canary_record_ok_def canary_evidence_def)
    have open_phase: "cy_phase a = CY_ANALYZING"
      using ph i that nth_mem [of i "cy_records a"] by (cases "cy_phase a") (auto simp: canary_phase_ok_def)
    have settle: "triple (at_state a a) (bind_io (lift (checked_canary_record
          (r\<lparr>cr_phase := CR_COMPLETE, cr_receipt := Some rc\<rparr>))) (\<lambda>replacement.
        bind_io (lift (checked_canary (a\<lparr>cy_records := (cy_records a)[i := replacement]\<rparr>))) (\<lambda>s'.
        bind_io (canary_store cas_op s' a) (\<lambda>s. ret (canary_result_of CS_ANALYZED s (Some (cr_unit r))))))) (Q a) (E a X)"
      if good: "canary_receipt_ok deadline snap rc" for rc
    proof -
      let ?q = "r\<lparr>cr_phase := CR_COMPLETE, cr_receipt := Some rc\<rparr>"
      have "canary_evidence d ?q snap" using snap(2) by (simp add: canary_evidence_def)
      then have q: "canary_record_ok d i ?q"
        using ok good by (auto simp: canary_record_ok_def canary_receipt_ok_def canary_recordings_def)
      let ?s = "a\<lparr>cy_records := (cy_records a)[i := ?q]\<rparr>"
      have "canary_phase_ok CY_ANALYZING (cy_halt a) ((cy_records a)[i := ?q])"
        using ph open_phase set_update_subset_insert [of "cy_records a" i ?q] by (auto simp: canary_phase_ok_def)
      then have s: "canary_inv d ?s"
        using open_phase inv by (intro canary_inv_set [OF inv i(1) q]) (simp_all add: undecided_def canary_inv_def)
      have step: "canary_step a ?s"
        by (rule canary_step_set [OF canary_step_refl i(1), where r = ?q]) (simp_all add: i(2,3) open_phase)
      show ?thesis
        unfolding canary_record_checked [OF q] bind_lift canary_state_checked [OF s]
        by (intro triple_store_then s step triple_ret_result) (simp_all add: open_phase)
    qed
    show ?thesis
      unfolding canary_reconcile_def snap(1) option.case
      by (intro triple_port_then triple_option triple_if triple_halt settle)
        (use that assms(1) in \<open>auto simp: canary_analysis_errors_def\<close>)
  qed
  have stop: False if "cy_phase a \<noteq> CY_HALTED" "cy_phase a \<noteq> CY_CAPTURING" "canary_analyzed_count a < CANARY_SLOTS"
    "find_index captured_record (cy_records a) = None"
  proof -
    have "length (cy_records a) = 36" "\<forall>r \<in> set (cy_records a). cr_phase r = CR_COMPLETE"
      using ph that(1,2,4) by (cases "cy_phase a"; auto simp: canary_phase_ok_def find_index_None captured_record_def)+
    with that(3) show False by (simp add: canary_analyzed_count_def count_where_def canary_constants)
  qed
  show "triple (at_state a a)
      (if cy_phase a = CY_HALTED then ret (canary_result_of CS_HALTED a None)
       else if cy_phase a = CY_CAPTURING then ret (canary_result_of CS_PHASE_CLOSED a None)
       else if canary_analyzed_count a < CANARY_SLOTS then
         (case find_index captured_record (cy_records a) of
            None \<Rightarrow> lift (Inl (StopIteration No_Captured_Record))
          | Some (i, r) \<Rightarrow> canary_reconcile cas_op env deadline a i r)
       else bind_io (lift (checked_canary ?c)) (\<lambda>c.
         bind_io (canary_store cas_op c a) (\<lambda>completed. ret (canary_result_of CS_COMPLETE completed None))))
      (Q a) (E a X)"
    by (intro triple_if triple_ret_result complete; (cases "find_index captured_record (cy_records a)")?)
      (use reconcile stop in auto)
qed

lemma triple_halt_analysis:
  assumes "{RuntimeError Canary_Not_Open, StopIteration No_Captured_Record} \<subseteq> X" and inv: "canary_inv d a"
  shows "triple (\<lambda>s. current s = Some a) (canary_halt_analysis load_op cas_op) (Q a) (E a X)"
  unfolding canary_halt_analysis_def
  by (intro triple_loaded inv triple_if triple_ret_result triple_raise triple_option triple_halt)
    (use assms(1) in auto)

end

subsection \<open>On the in-memory journal\<close>

definition canary_current :: "canary_definition \<Rightarrow> canary_journal \<Rightarrow> canary_state option" where
  "canary_current d j =
     (case j of None \<Rightarrow> None | Some s \<Rightarrow> if cy_digest s = canary_digest d then Some s else None)"

lemma canary_current_Some:
  "canary_current d j = Some s \<longleftrightarrow> j = Some s \<and> cy_digest s = canary_digest d"
  by (auto simp: canary_current_def split: option.splits)

interpretation canary_mem:
  canary_run "canary_load d" "canary_cas d" "canary_current d" d for d
  by unfold_locales
    (auto simp: canary_load_def canary_cas_def bind_io_def canary_current_Some)

datatype canary_call =
    CanaryCapture int campaign_env int
  | CanaryReconcile campaign_env int
  | CanaryHalt

fun canary_do :: "canary_definition \<Rightarrow> canary_call \<Rightarrow> (canary_journal, canary_result) canary_io" where
  "canary_do d (CanaryCapture margin env now) = canary_capture_next (canary_load d) (canary_cas d) d margin env now"
| "canary_do d (CanaryReconcile env deadline) = canary_reconcile_next (canary_load d) (canary_cas d) env deadline"
| "canary_do d CanaryHalt = canary_halt_analysis (canary_load d) (canary_cas d)"

fun canary_call_errors :: "canary_call \<Rightarrow> canary_error exn set" where
  "canary_call_errors (CanaryCapture margin env now) = canary_capture_errors env"
| "canary_call_errors (CanaryReconcile env deadline) = canary_analysis_errors env"
| "canary_call_errors CanaryHalt = {RuntimeError Canary_Not_Open, StopIteration No_Captured_Record}"

lemma canary_call_steps:
  assumes "valid_canary d" and "canary_inv d a" and "canary_do d c (Some a) = (res, j)"
  shows "\<exists>b. j = Some b \<and> canary_inv d b \<and> canary_step a b
    \<and> (case res of Inr r \<Rightarrow> cy_state r = b | Inl e \<Rightarrow> e \<in> canary_call_errors c)"
proof -
  have tr: "triple (\<lambda>s. canary_current d s = Some a) (canary_do d c)
      (canary_mem.Q d a) (canary_mem.E d a (canary_call_errors c))"
    using assms(1,2)
    by (cases c) (auto intro!: canary_mem.triple_capture_next canary_mem.triple_reconcile_next
        canary_mem.triple_halt_analysis)
  have p: "canary_current d (Some a) = Some a"
    using assms(2) by (simp add: canary_current_Some canary_inv_def)
  show ?thesis
  proof (cases res)
    case (Inl e)
    with tripleD_raise [OF tr p] assms(3) show ?thesis
      by (auto simp: canary_mem.E_def canary_mem.holding_def canary_current_Some)
  next
    case (Inr r)
    with tripleD [OF tr p] assms(3) show ?thesis
      by (auto simp: canary_mem.Q_def canary_current_Some)
  qed
qed

definition canary_after :: "canary_definition \<Rightarrow> canary_call list \<Rightarrow> canary_journal" where
  "canary_after d calls = fold (\<lambda>c j. snd (canary_do d c j)) calls (snd (canary_initialize d None))"

lemma canary_after_Nil: "canary_after d [] = Some (new_canary_state (canary_digest d))"
  by (simp add: canary_after_def canary_initialize_def canary_load_def new_canary_state_def)

lemma canary_after_snoc: "canary_after d (cs @ [c]) = snd (canary_do d c (canary_after d cs))"
  by (simp add: canary_after_def)

lemma new_canary_inv: "canary_inv d (new_canary_state (canary_digest d))"
  by (simp add: canary_inv_def new_canary_state_def canary_phase_ok_def)

lemma canary_reachable:
  assumes "valid_canary d"
  obtains s where "canary_after d calls = Some s" "canary_inv d s"
proof -
  have "\<exists>s. canary_after d calls = Some s \<and> canary_inv d s"
  proof (induction calls rule: rev_induct)
    case Nil
    then show ?case by (simp add: canary_after_Nil new_canary_inv)
  next
    case (snoc c cs)
    then obtain s where s: "canary_after d cs = Some s" "canary_inv d s" by blast
    obtain res j where "canary_do d c (Some s) = (res, j)" by (cases "canary_do d c (Some s)")
    then show ?case
      using canary_call_steps [OF assms s(2)] s(1) by (force simp: canary_after_snoc)
  qed
  then show ?thesis using that by blast
qed

text \<open>A concrete canary.\<close>

definition demo_canary :: canary_definition where
  "demo_canary =
     \<lparr>canary_id = ''canary_1'', canary_start = 1000000, canary_radio_a = ''radio_a'',
      canary_radio_b = ''radio_b'', canary_station_a = demo_digest CHR ''a'',
      canary_station_b = demo_digest CHR ''b'', canary_lateness = 1000,
      canary_receipt_digest = V8_RECEIPT_DIGEST\<rparr>"

end
