(* ===== verification/Canary_Claims.thy ===== *)
theory Canary_Claims
  imports Canary Campaign_Claims
begin

section \<open>What the canary guarantees\<close>



subsection \<open>Calls on the in-memory journal\<close>

lemma canary_store_mem:
  assumes "canary_inv d y" and "cy_digest a = canary_digest d" "0 \<le> cy_revision a"
  shows "canary_store (canary_cas d) y a (Some a)
    = (Inr (y\<lparr>cy_revision := cy_revision a + 1\<rparr>), Some (y\<lparr>cy_revision := cy_revision a + 1\<rparr>))"
proof -
  have z: "canary_inv d (y\<lparr>cy_revision := cy_revision a + 1\<rparr>)" using assms by (simp add: canary_inv_def)
  show ?thesis
    unfolding canary_store_def canary_state_checked [OF z] bind_lift
    using assms by (simp add: canary_cas_def canary_load_def bind_io_def canary_inv_def)
qed

lemma canary_halt_mem:
  assumes "canary_inv d a"
  shows "canary_halt_with (canary_cas d) a reason u (Some a)
    = (Inr (canary_result_of CS_HALTED (a\<lparr>cy_phase := CY_HALTED, cy_halt := Some reason, cy_revision := cy_revision a + 1\<rparr>) (Some u)),
       Some (a\<lparr>cy_phase := CY_HALTED, cy_halt := Some reason, cy_revision := cy_revision a + 1\<rparr>))"
proof -
  let ?h = "a\<lparr>cy_phase := CY_HALTED, cy_halt := Some reason\<rparr>"
  have h: "canary_inv d ?h" using assms by (simp add: canary_inv_def canary_phase_ok_def)
  have "cy_digest a = canary_digest d" "0 \<le> cy_revision a" using assms by (simp_all add: canary_inv_def)
  from canary_store_mem [OF h this] show ?thesis
    unfolding canary_halt_with_def canary_state_checked [OF h] bind_lift
    by (simp add: bind_io_def ret_def)
qed

lemma count_where_full: "count_where P xs = length xs \<longleftrightarrow> (\<forall>x \<in> set xs. P x)"
proof (induction xs)
  case (Cons x xs)
  then show ?case using count_where_le [of P xs] by auto
qed simp

lemma analyzing_records:
  assumes "canary_inv d a" and "cy_phase a = CY_ANALYZING"
  shows "length (cy_records a) = 36" "\<forall>r \<in> set (cy_records a). cr_phase r \<in> {CR_CAPTURED, CR_COMPLETE}"
    "canary_analyzed_count a = CANARY_SLOTS \<longleftrightarrow> (\<forall>r \<in> set (cy_records a). cr_phase r = CR_COMPLETE)"
proof -
  show len: "length (cy_records a) = 36" and "\<forall>r \<in> set (cy_records a). cr_phase r \<in> {CR_CAPTURED, CR_COMPLETE}"
    using assms by (simp_all add: canary_inv_def canary_phase_ok_def)
  have "count_where (\<lambda>r. cr_phase r = CR_COMPLETE) (cy_records a) = length (cy_records a)
      \<longleftrightarrow> (\<forall>r \<in> set (cy_records a). cr_phase r = CR_COMPLETE)" by (rule count_where_full)
  then show "canary_analyzed_count a = CANARY_SLOTS \<longleftrightarrow> (\<forall>r \<in> set (cy_records a). cr_phase r = CR_COMPLETE)"
    using len by (simp add: canary_analyzed_count_def canary_constants)
qed

lemma find_first_left:
  "\<exists>r \<in> set rs. cr_phase r \<noteq> CR_COMPLETE \<Longrightarrow> \<forall>r \<in> set rs. cr_phase r \<in> {CR_CAPTURED, CR_COMPLETE} \<Longrightarrow>
     find captured_record rs = Some (hd (dropWhile (\<lambda>r. cr_phase r = CR_COMPLETE) rs))"
  by (induction rs) (auto simp: captured_record_def)

text \<open>
  C38. What \<open>halt_analysis\<close> does in every reachable state. A halted canary is returned as it is; while
  it captures, and once it is complete, the call raises and stores nothing; an open analysis is halted
  with the reason analysis failure, at the unit of its first record that is not analysed yet, and
  nothing else of it changes. Only when all 36 records of an open analysis are complete the call
  raises \<open>StopIteration\<close> and does not halt the canary.
\<close>

theorem canary_halt_analysis_outcome:
  assumes "valid_canary d" and "canary_after d calls = Some a"
  shows "canary_do d CanaryHalt (Some a) =
    (case cy_phase a of
       CY_HALTED \<Rightarrow> (Inr (canary_result_of CS_HALTED a None), Some a)
     | CY_CAPTURING \<Rightarrow> (Inl (RuntimeError Canary_Not_Open), Some a)
     | CY_COMPLETE \<Rightarrow> (Inl (RuntimeError Canary_Not_Open), Some a)
     | CY_ANALYZING \<Rightarrow>
         if canary_analyzed_count a = CANARY_SLOTS then (Inl (StopIteration No_Captured_Record), Some a)
         else
           let b = a\<lparr>cy_phase := CY_HALTED, cy_halt := Some CY_ANALYSIS_FAILURE, cy_revision := cy_revision a + 1\<rparr>;
               first = hd (dropWhile (\<lambda>r. cr_phase r = CR_COMPLETE) (cy_records a))
           in (Inr (canary_result_of CS_HALTED b (Some (cr_unit first))), Some b))"
proof -
  have inv: "canary_inv d a" using canary_reachable [OF assms(1), of calls] assms(2) by auto
  have dig: "cy_digest a = canary_digest d" using inv by (simp add: canary_inv_def)
  note unfold = canary_halt_analysis_def canary_load_def bind_io_def lift_def ret_def
  show ?thesis
  proof (cases "cy_phase a")
    case CY_ANALYZING
    note records = analyzing_records [OF inv CY_ANALYZING]
    show ?thesis
    proof (cases "canary_analyzed_count a = CANARY_SLOTS")
      case True
      then have "find captured_record (cy_records a) = None"
        using records(3) by (auto simp: find_None_iff captured_record_def)
      with True dig CY_ANALYZING show ?thesis by (simp add: unfold)
    next
      case False
      then have "\<exists>r \<in> set (cy_records a). cr_phase r \<noteq> CR_COMPLETE" using records(3) by blast
      then have "find captured_record (cy_records a) = Some (hd (dropWhile (\<lambda>r. cr_phase r = CR_COMPLETE) (cy_records a)))"
        using find_first_left [of "cy_records a"] records(2) by blast
      with False dig CY_ANALYZING show ?thesis by (simp add: unfold canary_halt_mem [OF inv] Let_def)
    qed
  qed (use dig in \<open>simp_all add: unfold\<close>)
qed

subsection \<open>A canary that completes\<close>

text \<open>Ports that do their work for one unit in its slot.\<close>

definition canary_on_time :: "canary_definition \<Rightarrow> campaign_unit \<Rightarrow> int \<Rightarrow> bool" where
  "canary_on_time d u now \<longleftrightarrow>
     requested_start u - CANARY_PREFLIGHT_LEAD_NS \<le> now \<and> now \<le> requested_start u + canary_lateness d"

definition canary_captures :: "canary_definition \<Rightarrow> int \<Rightarrow> campaign_unit \<Rightarrow> campaign_env \<Rightarrow> batch_snapshot \<Rightarrow> bool" where
  "canary_captures d margin u env snap \<longleftrightarrow>
     ce_capture env u (requested_start u) (canary_deadline d (slot_index u)) = Returned snap
     \<and> \<not> canary_snapshot_bad d u snap
     \<and> (\<exists>available. ce_capacity env = Some available
          \<and> canary_required_capacity margin (new_canary_state (canary_digest d)) \<le> available)"

lemma canary_replace_mem:
  assumes "canary_inv d a" and "cy_phase a = CY_CAPTURING" and "cy_records a \<noteq> []"
    and "i = length (cy_records a) - 1" and "canary_record_ok d i r" and "cr_phase r \<noteq> CR_COMPLETE"
  defines "z \<equiv> a\<lparr>cy_records := (cy_records a)[i := r], cy_revision := cy_revision a + 1\<rparr>"
  shows "canary_replace_last (canary_cas d) a r (Some a) = (Inr z, Some z)" "canary_inv d z"
proof -
  have i: "i < length (cy_records a)" "Suc i = length (cy_records a)" using assms(3,4) by simp_all
  have eq: "butlast (cy_records a) @ [r] = (cy_records a)[i := r]"
    using update_last [OF assms(3)] assms(4) by simp
  have "canary_phase_ok CY_CAPTURING (cy_halt a) ((cy_records a)[i := r])"
    using assms(1,2,6) set_update_subset_insert [of "cy_records a" i r]
    by (auto simp: canary_inv_def canary_phase_ok_def)
  then show z: "canary_inv d z"
    using assms(1,2) i by (intro canary_inv_set [OF assms(1) i(1) assms(5)]) (simp_all add: canary_inv_def z_def)
  let ?y = "a\<lparr>cy_records := (cy_records a)[i := r]\<rparr>"
  have rev: "cy_digest a = canary_digest d" "0 \<le> cy_revision a" using assms(1) by (simp_all add: canary_inv_def)
  have y: "canary_inv d ?y" using z rev by (simp add: canary_inv_def z_def)
  have "last (cy_records a) = cy_records a ! i" using assms(3,4) by (simp add: last_conv_nth)
  then have "cr_unit (last (cy_records a)) = cr_unit r"
    using assms(1,5) i by (simp add: canary_inv_def canary_record_ok_def)
  then show "canary_replace_last (canary_cas d) a r (Some a) = (Inr z, Some z)"
    using assms(3) canary_store_mem [OF y rev]
    by (simp add: canary_replace_last_def eq canary_state_checked [OF y] z_def)
qed

lemma capacity_le_initial:
  assumes "canary_captured_count s \<le> CANARY_SLOTS"
  shows "canary_required_capacity margin s \<le> canary_required_capacity margin (new_canary_state dg)"
proof -
  define f where "f = (\<lambda>i. (case canary_cell i of Inr c \<Rightarrow> cell_sample_count c | Inl _ \<Rightarrow> 0) * 128)"
  have pos: "\<forall>x \<in> set CAMPAIGN_CELLS. 0 \<le> cell_sample_count x" by code_simp
  have "0 \<le> f i" for i
  proof (cases "0 \<le> i \<and> i < CANARY_SLOTS")
    case True
    then have "nat (i mod 9) < length CAMPAIGN_CELLS" by (simp add: cells_valid(3) nat_less_iff)
    then have "CAMPAIGN_CELLS ! nat (i mod 9) \<in> set CAMPAIGN_CELLS" by (rule nth_mem)
    with True pos show ?thesis by (simp add: f_def canary_cell_def cells_valid(3))
  qed (simp add: f_def canary_cell_def)
  then have front: "0 \<le> sum_list (map f [0..canary_captured_count s - 1])"
    by (intro sum_list_nonneg) auto
  have "0 \<le> canary_captured_count s" by (simp add: canary_captured_count_def)
  then have "[0..CANARY_SLOTS - 1] = [0..canary_captured_count s - 1] @ [canary_captured_count s..CANARY_SLOTS - 1]"
    using assms by (cases "canary_captured_count s = CANARY_SLOTS")
      (simp_all add: upto_split1 [of 0 "canary_captured_count s"])
  then have "sum_list (map f [0..CANARY_SLOTS - 1])
      = sum_list (map f [0..canary_captured_count s - 1]) + sum_list (map f [canary_captured_count s..CANARY_SLOTS - 1])"
    by simp
  moreover have "canary_captured_count (new_canary_state dg) = 0"
    by (simp add: canary_captured_count_def new_canary_state_def)
  ultimately show ?thesis
    using front by (simp add: canary_required_capacity_def f_def [symmetric])
qed

lemma canary_slot_captured:
  assumes "valid_canary d" and inv: "canary_inv d s" and ph: "cy_phase s = CY_CAPTURING"
    and all: "\<forall>r \<in> set (cy_records s). cr_phase r = CR_CAPTURED" and n: "length (cy_records s) < 36"
  defines "u \<equiv> canary_slot_unit d (length (cy_records s))"
  assumes time: "canary_on_time d u now" and env: "canary_captures d margin u env snap"
  shows "\<exists>t q. canary_do d (CanaryCapture margin env now) (Some s) = (Inr (canary_result_of CS_CAPTURED t (Some u)), Some t)
    \<and> canary_inv d t \<and> cy_phase t = CY_CAPTURING \<and> cy_records t = cy_records s @ [q]
    \<and> cr_phase q = CR_CAPTURED \<and> cr_snapshot q = Some snap \<and> cr_unit q = u"
proof -
  let ?n = "length (cy_records s)"
  have decided: "\<forall>r \<in> set (cy_records s). \<not> undecided r" using all by (auto simp: undecided_def)
  have count: "canary_captured_count s = int ?n" by (rule canary_mem.captured_all [OF inv decided])
  have build: "build_canary_unit d (int ?n) = Inr u" unfolding u_def by (rule built_canary_unit [OF assms(1) n])
  have start: "requested_start u = canary_requested d (int ?n)" "slot_index u = int ?n" by (simp_all add: u_def)
  let ?r = "new_canary_record u"
  have ok: "canary_record_ok d ?n ?r" by (simp add: canary_record_ok_def new_canary_record_def u_def)
  let ?p = "s\<lparr>cy_records := cy_records s @ [?r]\<rparr>"
  have p: "canary_inv d ?p"
    using inv n ok decided ph
    by (auto simp: canary_inv_def canary_phase_ok_def nth_append less_Suc_eq new_canary_record_def)
  have runit: "cr_unit ?r = u" by (simp add: new_canary_record_def)
  define z where "z = ?p\<lparr>cy_revision := cy_revision s + 1\<rparr>"
  have rev: "cy_digest s = canary_digest d" "0 \<le> cy_revision s" using inv by (simp_all add: canary_inv_def)
  have z: "canary_inv d z" "cy_phase z = CY_CAPTURING" "cy_records z = cy_records s @ [?r]"
    using p rev ph by (simp_all add: canary_inv_def z_def)
  have store: "canary_store (canary_cas d) ?p s (Some s) = (Inr z, Some z)"
    unfolding z_def by (rule canary_store_mem [OF p rev])
  define ir where "ir = ?r\<lparr>cr_phase := CAPTURE_INVOKED\<rparr>"
  have ir: "canary_record_ok d ?n ir" "cr_phase ir \<noteq> CR_COMPLETE"
    using ok by (simp_all add: ir_def canary_record_ok_def new_canary_record_def)
  have idx: "?n = length (cy_records z) - 1" "cy_records z \<noteq> []" using z(3) by simp_all
  define z1 where "z1 = z\<lparr>cy_records := (cy_records z)[?n := ir], cy_revision := cy_revision z + 1\<rparr>"
  note m1 = canary_replace_mem [OF z(1,2) idx(2,1) ir, folded z1_def]
  have z1: "cy_phase z1 = CY_CAPTURING" "cy_records z1 = cy_records s @ [ir]"
    using z by (simp_all add: z1_def)
  define q where "q = ir\<lparr>cr_phase := CR_CAPTURED, cr_snapshot := Some snap\<rparr>"
  have good: "\<not> canary_snapshot_bad d u snap" using env by (simp add: canary_captures_def)
  have "canary_evidence d q snap"
    using good by (simp add: canary_evidence_def q_def ir_def new_canary_record_def)
  then have q: "canary_record_ok d ?n q" "cr_phase q \<noteq> CR_COMPLETE"
    using ok by (auto simp: canary_record_ok_def q_def ir_def new_canary_record_def)
  have idx1: "?n = length (cy_records z1) - 1" "cy_records z1 \<noteq> []" using z1 by simp_all
  define z2 where "z2 = z1\<lparr>cy_records := (cy_records z1)[?n := q], cy_revision := cy_revision z1 + 1\<rparr>"
  note m2 = canary_replace_mem [OF m1(2) z1(1) idx1(2,1) q, folded z2_def]
  obtain available where cap: "ce_capacity env = Some available" "\<not> available < canary_required_capacity margin z"
  proof -
    have "canary_captured_count z = int ?n"
      using count z(3) by (simp add: canary_captured_count_def new_canary_record_def)
    then have "canary_captured_count z \<le> CANARY_SLOTS" using n by (simp add: canary_constants)
    then show ?thesis
      using env capacity_le_initial [of z margin "canary_digest d"] that by (auto simp: canary_captures_def)
  qed
  have "canary_capture (canary_cas d) d margin env now z ?r (Some z) = (Inr (canary_result_of CS_CAPTURED z2 (Some u)), Some z2)"
    unfolding canary_capture_def Let_def ir_def [symmetric] canary_record_checked [OF ir(1)] bind_lift runit
    using time cap env good m1(1) m2(1)
    by (simp add: canary_on_time_def canary_captures_def start canary_record_checked [OF q(1)]
        bind_io_def call_port_def ret_def lift_def q_def [symmetric])
  moreover have "canary_do d (CanaryCapture margin env now) (Some s)
      = canary_plan_next (canary_cas d) d margin env now s (Some s)"
  proof -
    have "canary_captured_count s \<noteq> CANARY_SLOTS" using count n by (simp add: canary_constants)
    moreover have "cr_phase r = CR_CAPTURED" if "last_opt (cy_records s) = Some r" for r
      using last_optD [OF that] all by simp
    ultimately show ?thesis
      using rev(1) ph
      by (cases "last_opt (cy_records s)")
        (simp_all add: canary_capture_next_def canary_capture_from_def canary_load_def bind_io_def)
  qed
  moreover have "canary_plan_next (canary_cas d) d margin env now s (Some s)
      = canary_capture (canary_cas d) d margin env now z ?r (Some z)"
    unfolding canary_plan_next_def count build canary_record_checked [OF ok] canary_state_checked [OF p] bind_lift
    by (simp add: bind_mem [where m = "canary_store (canary_cas d) ?p s" and s = "Some s", OF store] z(3))
  moreover have "cy_records z2 = cy_records s @ [q]" "cy_phase z2 = CY_CAPTURING"
    using z1 by (simp_all add: z2_def)
  moreover have "cr_phase q = CR_CAPTURED" "cr_snapshot q = Some snap" "cr_unit q = u"
    by (simp_all add: q_def ir_def new_canary_record_def)
  ultimately show ?thesis using m2(2) by metis
qed

lemma canary_all_captured:
  assumes "valid_canary d" and "length calls \<le> 36" and "length snaps = length calls"
    and "\<forall>n < length calls. canary_on_time d (canary_slot_unit d n) (fst (calls ! n))
      \<and> canary_captures d margin (canary_slot_unit d n) (snd (calls ! n)) (snaps ! n)"
  shows "\<exists>s. canary_after d (map (\<lambda>c. CanaryCapture margin (snd c) (fst c)) calls) = Some s \<and> canary_inv d s
    \<and> cy_phase s = CY_CAPTURING \<and> (\<forall>r \<in> set (cy_records s). cr_phase r = CR_CAPTURED)
    \<and> map cr_snapshot (cy_records s) = map Some snaps"
  using assms(2-4)
proof (induction calls arbitrary: snaps rule: rev_induct)
  case Nil
  then show ?case
    by (simp add: canary_after_Nil new_canary_inv) (simp add: new_canary_state_def)
next
  case (snoc c cs)
  let ?f = "\<lambda>c. CanaryCapture margin (snd c) (fst c)"
  obtain ss x where ss: "snaps = ss @ [x]" "length ss = length cs"
    using snoc.prems(2) by (cases snaps rule: rev_cases) auto
  have "\<forall>n < length cs. canary_on_time d (canary_slot_unit d n) (fst (cs ! n))
      \<and> canary_captures d margin (canary_slot_unit d n) (snd (cs ! n)) (ss ! n)"
    using snoc.prems(3) ss by (auto simp: nth_append less_Suc_eq split: if_splits)
  then obtain s where s: "canary_after d (map ?f cs) = Some s" "canary_inv d s" "cy_phase s = CY_CAPTURING"
      "\<forall>r \<in> set (cy_records s). cr_phase r = CR_CAPTURED" "map cr_snapshot (cy_records s) = map Some ss"
    using snoc.IH [of ss] snoc.prems(1) ss(2) by auto
  have len: "length (cy_records s) = length cs" using s(5) ss(2) by (metis length_map)
  have due: "canary_on_time d (canary_slot_unit d (length cs)) (fst c)"
    "canary_captures d margin (canary_slot_unit d (length cs)) (snd c) x"
    using snoc.prems(3) [rule_format, of "length cs"] ss by (simp_all add: nth_append)
  obtain t q where t: "canary_do d (CanaryCapture margin (snd c) (fst c)) (Some s)
        = (Inr (canary_result_of CS_CAPTURED t (Some (canary_slot_unit d (length cs)))), Some t)"
      "canary_inv d t" "cy_phase t = CY_CAPTURING" "cy_records t = cy_records s @ [q]"
      "cr_phase q = CR_CAPTURED" "cr_snapshot q = Some x"
    using canary_slot_captured [OF assms(1) s(2-4), of "fst c" margin "snd c" x] len snoc.prems(1) due by auto
  have "canary_after d (map ?f (cs @ [c])) = Some t"
    using s(1) t(1) by (simp add: canary_after_snoc del: canary_do.simps)
  then show ?case using t(2-6) s(4,5) ss(1) by auto
qed

lemma canary_closes:
  assumes inv: "canary_inv d s" and "cy_phase s = CY_CAPTURING" and all: "\<forall>r \<in> set (cy_records s). cr_phase r = CR_CAPTURED"
    and "length (cy_records s) = 36"
  shows "\<exists>t. canary_do d (CanaryCapture margin env now) (Some s) = (Inr (canary_result_of CS_PHASE_CLOSED t None), Some t)
    \<and> cy_phase t = CY_ANALYZING \<and> cy_records t = cy_records s"
proof -
  have count: "canary_captured_count s = CANARY_SLOTS"
    using canary_mem.captured_all [OF inv] all assms(4) by (auto simp: undecided_def canary_constants)
  let ?b = "s\<lparr>cy_phase := CY_ANALYZING\<rparr>"
  have b: "canary_inv d ?b" using assms by (auto simp: canary_inv_def canary_phase_ok_def)
  have rev: "cy_digest s = canary_digest d" "0 \<le> cy_revision s" using inv by (simp_all add: canary_inv_def)
  show ?thesis
    using canary_store_mem [OF b rev] count rev(1) assms(2)
    by (simp add: canary_capture_next_def canary_capture_from_def canary_load_def bind_io_def
        canary_state_checked [OF b] lift_def ret_def)
qed

definition canary_analyzes :: "int \<Rightarrow> campaign_env \<Rightarrow> batch_snapshot \<Rightarrow> bool" where
  "canary_analyzes deadline env snap \<longleftrightarrow>
     (\<exists>rc. ce_analyze env snap deadline = Returned rc \<and> canary_receipt_ok deadline snap rc)"

lemma canary_reconciles:
  assumes inv: "canary_inv d s" and ph: "cy_phase s = CY_ANALYZING" and lt: "canary_analyzed_count s < CANARY_SLOTS"
    and env: "\<forall>r \<in> set (cy_records s). \<forall>snap. cr_snapshot r = Some snap \<longrightarrow> canary_analyzes deadline env snap"
  shows "\<exists>t u. canary_do d (CanaryReconcile env deadline) (Some s) = (Inr (canary_result_of CS_ANALYZED t u), Some t)
    \<and> canary_inv d t \<and> cy_phase t = CY_ANALYZING \<and> canary_analyzed_count t = canary_analyzed_count s + 1
    \<and> map cr_snapshot (cy_records t) = map cr_snapshot (cy_records s)
    \<and> map cr_unit (cy_records t) = map cr_unit (cy_records s)"
proof -
  note records = analyzing_records [OF inv ph]
  have "find_index captured_record (cy_records s) \<noteq> None"
    using lt records(2,3) by (auto simp: find_index_None captured_record_def)
  then obtain i r where f: "find_index captured_record (cy_records s) = Some (i, r)" by force
  have i: "i < length (cy_records s)" "cy_records s ! i = r" "cr_phase r = CR_CAPTURED"
    using find_index_Some [OF f] by (simp_all add: captured_record_def)
  have ok: "canary_record_ok d i r" using inv i by (auto simp: canary_inv_def)
  then obtain snap where snap: "cr_snapshot r = Some snap" "canary_evidence d r snap"
    using i(3) by (auto simp: canary_record_ok_def canary_evidence_def)
  then obtain rc where rc: "ce_analyze env snap deadline = Returned rc" "canary_receipt_ok deadline snap rc"
    using env i(1,2) nth_mem [OF i(1)] by (auto simp: canary_analyzes_def)
  define q where "q = r\<lparr>cr_phase := CR_COMPLETE, cr_receipt := Some rc\<rparr>"
  have "canary_evidence d q snap" using snap(2) by (simp add: canary_evidence_def q_def)
  then have q: "canary_record_ok d i q"
    using ok rc(2) by (auto simp: canary_record_ok_def canary_receipt_ok_def canary_recordings_def q_def)
  let ?s = "s\<lparr>cy_records := (cy_records s)[i := q]\<rparr>"
  have "canary_phase_ok CY_ANALYZING (cy_halt s) ((cy_records s)[i := q])"
    using inv ph set_update_subset_insert [of "cy_records s" i q] by (auto simp: canary_inv_def canary_phase_ok_def q_def)
  then have s: "canary_inv d ?s"
    using ph inv by (intro canary_inv_set [OF inv i(1) q]) (simp_all add: undecided_def canary_inv_def q_def)
  have rev: "cy_digest s = canary_digest d" "0 \<le> cy_revision s" using inv by (simp_all add: canary_inv_def)
  let ?t = "?s\<lparr>cy_revision := cy_revision s + 1\<rparr>"
  have t: "canary_inv d ?t" using s rev by (simp add: canary_inv_def)
  have run: "canary_reconcile (canary_cas d) env deadline s i r (Some s)
      = (Inr (canary_result_of CS_ANALYZED ?t (Some (cr_unit r))), Some ?t)"
    using snap(1) rc canary_store_mem [OF s rev]
    by (simp add: canary_reconcile_def call_port_def bind_io_def ret_def lift_def q_def [symmetric]
        canary_record_checked [OF q] canary_state_checked [OF s])
  have "count_where (\<lambda>r. cr_phase r = CR_COMPLETE) ((cy_records s)[i := q])
      = Suc (count_where (\<lambda>r. cr_phase r = CR_COMPLETE) (cy_records s))"
    using i by (subst (2) id_take_nth_drop [OF i(1)]) (simp add: upd_conv_take_nth_drop q_def)
  then have "canary_analyzed_count ?t = canary_analyzed_count s + 1"
    by (simp add: canary_analyzed_count_def)
  moreover have "map cr_snapshot (cy_records ?t) = map cr_snapshot (cy_records s)"
    "map cr_unit (cy_records ?t) = map cr_unit (cy_records s)"
    using i by (simp_all add: map_update q_def list_update_same_conv)
  ultimately show ?thesis
    using run t ph f lt rev(1) i(2)
    by (auto simp: canary_reconcile_next_def canary_load_def bind_io_def)
qed

lemma canary_finishes:
  assumes inv: "canary_inv d s" and ph: "cy_phase s = CY_ANALYZING" and all: "canary_analyzed_count s = CANARY_SLOTS"
  shows "\<exists>t. canary_do d (CanaryReconcile env deadline) (Some s) = (Inr (canary_result_of CS_COMPLETE t None), Some t)
    \<and> cy_phase t = CY_COMPLETE
    \<and> cy_records t = cy_records s"
proof -
  note records = analyzing_records [OF inv ph]
  let ?c = "s\<lparr>cy_phase := CY_COMPLETE\<rparr>"
  have c: "canary_inv d ?c"
    using inv ph records all by (simp add: canary_inv_def canary_phase_ok_def)
  have rev: "cy_digest s = canary_digest d" "0 \<le> cy_revision s" using inv by (simp_all add: canary_inv_def)
  show ?thesis
    using canary_store_mem [OF c rev] rev(1) ph all
    by (simp add: canary_reconcile_next_def canary_load_def bind_io_def canary_state_checked [OF c] lift_def ret_def)
qed

definition canary_scripted :: "int \<Rightarrow> (int \<times> campaign_env) list \<Rightarrow> (int \<times> campaign_env) list \<Rightarrow> canary_call list" where
  "canary_scripted margin captures analyses =
     map (\<lambda>c. CanaryCapture margin (snd c) (fst c)) captures
     @ [CanaryCapture margin (snd (hd captures)) 0]
     @ map (\<lambda>c. CanaryReconcile (snd c) (fst c)) analyses"

lemma canary_after_append:
  "canary_after d (xs @ ys) = fold (\<lambda>c j. snd (canary_do d c j)) ys (canary_after d xs)"
  by (simp add: canary_after_def)

lemma canary_drained:
  assumes "canary_inv d s" and "cy_phase s = CY_ANALYZING"
    and "canary_analyzed_count s + int (length analyses) \<le> CANARY_SLOTS"
    and "map cr_snapshot (cy_records s) = map Some snaps"
    and "\<forall>c \<in> set analyses. \<forall>snap \<in> set snaps. canary_analyzes (fst c) (snd c) snap"
  shows "\<exists>t. fold (\<lambda>c j. snd (canary_do d c j)) (map (\<lambda>c. CanaryReconcile (snd c) (fst c)) analyses) (Some s) = Some t
    \<and> canary_inv d t \<and> cy_phase t = CY_ANALYZING
    \<and> canary_analyzed_count t = canary_analyzed_count s + int (length analyses)
    \<and> map cr_snapshot (cy_records t) = map Some snaps"
  using assms
proof (induction analyses arbitrary: s)
  case (Cons c cs)
  have "\<forall>r \<in> set (cy_records s). \<forall>snap. cr_snapshot r = Some snap \<longrightarrow> snap \<in> set snaps"
  proof (intro ballI allI impI)
    fix r snap
    assume "r \<in> set (cy_records s)" "cr_snapshot r = Some snap"
    then have "Some snap \<in> set (map Some snaps)"
      unfolding Cons.prems(4) [symmetric] by force
    then show "snap \<in> set snaps" by auto
  qed
  then have env: "\<forall>r \<in> set (cy_records s). \<forall>snap. cr_snapshot r = Some snap \<longrightarrow> canary_analyzes (fst c) (snd c) snap"
    using Cons.prems(5) by simp
  have lt: "canary_analyzed_count s < CANARY_SLOTS" using Cons.prems(3) by simp
  obtain t where t: "snd (canary_do d (CanaryReconcile (snd c) (fst c)) (Some s)) = Some t" "canary_inv d t"
      "cy_phase t = CY_ANALYZING" "canary_analyzed_count t = canary_analyzed_count s + 1"
      "map cr_snapshot (cy_records t) = map cr_snapshot (cy_records s)"
    using canary_reconciles [OF Cons.prems(1,2) lt env] by (auto simp del: canary_do.simps)
  have "\<exists>u. fold (\<lambda>c j. snd (canary_do d c j)) (map (\<lambda>c. CanaryReconcile (snd c) (fst c)) cs) (Some t) = Some u
    \<and> canary_inv d u \<and> cy_phase u = CY_ANALYZING
    \<and> canary_analyzed_count u = canary_analyzed_count t + int (length cs)
    \<and> map cr_snapshot (cy_records u) = map Some snaps"
    using Cons.prems t by (intro Cons.IH) auto
  then show ?case using t by (auto simp del: canary_do.simps)
qed auto

lemma canary_drains:
  assumes "valid_canary d" and "length captures = 36" and "length snaps = 36" and "length analyses = 36"
    and "\<forall>n < 36. canary_on_time d (canary_slot_unit d n) (fst (captures ! n))
      \<and> canary_captures d margin (canary_slot_unit d n) (snd (captures ! n)) (snaps ! n)"
    and "\<forall>c \<in> set analyses. \<forall>snap \<in> set snaps. canary_analyzes (fst c) (snd c) snap"
  shows "\<exists>t. canary_after d (canary_scripted margin captures analyses) = Some t \<and> canary_inv d t
    \<and> cy_phase t = CY_ANALYZING \<and> canary_analyzed_count t = CANARY_SLOTS
    \<and> map cr_snapshot (cy_records t) = map Some snaps"
proof -
  let ?do = "\<lambda>c j. snd (canary_do d c j)"
  let ?caps = "map (\<lambda>c. CanaryCapture margin (snd c) (fst c)) captures"
  let ?recs = "\<lambda>cs. map (\<lambda>c. CanaryReconcile (snd c) (fst c)) cs"
  have caps: "\<forall>n < length captures. canary_on_time d (canary_slot_unit d n) (fst (captures ! n))
      \<and> canary_captures d margin (canary_slot_unit d n) (snd (captures ! n)) (snaps ! n)"
    using assms(2,5) by simp
  obtain s where s: "canary_after d ?caps = Some s" "canary_inv d s" "cy_phase s = CY_CAPTURING"
      "\<forall>r \<in> set (cy_records s). cr_phase r = CR_CAPTURED" "map cr_snapshot (cy_records s) = map Some snaps"
    using canary_all_captured [OF assms(1) _ _ caps] assms(2,3) by auto
  have len: "length (cy_records s) = 36" using s(5) assms(3) by (metis length_map)
  obtain c where c: "?do (CanaryCapture margin (snd (hd captures)) 0) (Some s) = Some c"
      "cy_phase c = CY_ANALYZING" "cy_records c = cy_records s"
    using canary_closes [OF s(2-4) len, of margin "snd (hd captures)" 0] by (auto simp del: canary_do.simps)
  have inv_c: "canary_inv d c"
    using canary_call_steps [OF assms(1) s(2), of "CanaryCapture margin (snd (hd captures)) 0"] c(1)
    by (metis option.inject surjective_pairing)
  have none: "canary_analyzed_count c = 0"
    using s(4) c(3) by (auto simp: canary_analyzed_count_def count_where_def filter_empty_conv)
  have "\<exists>t. fold ?do (?recs analyses) (Some c) = Some t \<and> canary_inv d t \<and> cy_phase t = CY_ANALYZING
    \<and> canary_analyzed_count t = canary_analyzed_count c + int (length analyses)
    \<and> map cr_snapshot (cy_records t) = map Some snaps"
    using assms(4,6) none c s(5)
    by (intro canary_drained [OF inv_c c(2)]) (auto simp: canary_constants)
  then obtain t where t: "fold ?do (?recs analyses) (Some c) = Some t" "canary_inv d t" "cy_phase t = CY_ANALYZING"
      "canary_analyzed_count t = CANARY_SLOTS" "map cr_snapshot (cy_records t) = map Some snaps"
    using none assms(4) by (auto simp: canary_constants)
  have "canary_after d (canary_scripted margin captures analyses) = Some t"
    unfolding canary_scripted_def
    using s(1) c(1) t(1) by (simp add: canary_after_append del: canary_do.simps)
  with t show ?thesis by blast
qed

lemma canary_runs:
  assumes "valid_canary d" and "length captures = 36" and "length snaps = 36" and "length analyses = 37"
    and "\<forall>n < 36. canary_on_time d (canary_slot_unit d n) (fst (captures ! n))
      \<and> canary_captures d margin (canary_slot_unit d n) (snd (captures ! n)) (snaps ! n)"
    and "\<forall>c \<in> set analyses. \<forall>snap \<in> set snaps. canary_analyzes (fst c) (snd c) snap"
  shows "\<exists>s. canary_after d (canary_scripted margin captures analyses) = Some s
    \<and> cy_phase s = CY_COMPLETE \<and> map cr_snapshot (cy_records s) = map Some snaps"
proof -
  obtain first last where an: "analyses = first @ [last]" "length first = 36"
    using assms(4) by (cases analyses rule: rev_cases) auto
  obtain t where t: "canary_after d (canary_scripted margin captures first) = Some t" "canary_inv d t"
      "cy_phase t = CY_ANALYZING" "canary_analyzed_count t = CANARY_SLOTS"
      "map cr_snapshot (cy_records t) = map Some snaps"
    using canary_drains [OF assms(1-3) an(2) assms(5)] assms(6) an(1) by auto
  obtain u where u: "snd (canary_do d (CanaryReconcile (snd last) (fst last)) (Some t)) = Some u"
      "cy_phase u = CY_COMPLETE" "cy_records u = cy_records t"
    using canary_finishes [OF t(2-4), of "snd last" "fst last"] by (auto simp del: canary_do.simps)
  have "canary_scripted margin captures analyses
      = canary_scripted margin captures first @ [CanaryReconcile (snd last) (fst last)]"
    by (simp add: canary_scripted_def an)
  then have "canary_after d (canary_scripted margin captures analyses) = Some u"
    using t(1) u(1) by (simp add: canary_after_snoc del: canary_do.simps)
  with u t(5) show ?thesis by auto
qed

subsection \<open>The receipt of a complete canary\<close>

lemma evidence_skew:
  assumes "canary_evidence d q snap" and "cr_unit q = canary_slot_unit d i"
  shows "\<exists>k. observed_skew snap = Some k \<and> snapshot_skew snap = Inr k \<and> 0 \<le> k \<and> k \<le> CANARY_MAXIMUM_SKEW_NS
    \<and> outcomes snap \<noteq> []"
proof -
  have b: "bs_definition snap = unit_batch (canary_slot_unit d i)" and t: "terminal snap"
    and e: "paired_analysis_eligibility snap = ELIGIBLE"
    using assms by (auto simp: canary_evidence_def canary_snapshot_bad_def)
  have mode: "bd_mode (bs_definition snap) = COORDINATED" "maximum_skew (bs_definition snap) = Some MAXIMUM_START_SKEW_NS"
    by (simp_all add: b canary_slot_unit_def expected_unit_def Let_def)
  have "length (outcomes snap) = 2"
    using t by (simp add: terminal_def b canary_slot_unit_def expected_unit_def Let_def)
  then obtain x y where o: "outcomes snap = [x, y]" by (auto simp: numeral_2_eq_2 length_Suc_conv)
  show ?thesis
    using e t mode o
    by (auto simp: paired_analysis_eligibility_def observed_skew_def snapshot_skew_def observed_start_at_def
        MAXIMUM_START_SKEW_NS_def CANARY_MAXIMUM_SKEW_NS_def split: if_splits option.splits)
qed

lemma map_filter_all: "\<forall>x \<in> set xs. f x \<noteq> None \<Longrightarrow> List.map_filter f xs = map (\<lambda>x. the (f x)) xs"
  by (induction xs) auto

lemma zip_map_right: "zip xs (map f xs) = map (\<lambda>x. (x, f x)) xs"
  by (induction xs) auto

lemma complete_receipt_iff:
  assumes "valid_canary d" and "canary_after d calls = Some s" and "cy_phase s = CY_COMPLETE"
  shows "(\<exists>r. build_canary_receipt d s issued benchmarks feature_sets waterfalls suites dashboard = Inr r) \<longleftrightarrow>
    0 \<le> issued \<and> map stage benchmarks = CANARY_ANALYSIS_STAGES
    \<and> feature_sets = 72 \<and> waterfalls = 72 \<and> suites = 72 \<and> dashboard = 72
    \<and> (let recordings = concat (map (\<lambda>q. canary_recordings (the (cr_snapshot q))) (cy_records s)) in
         length recordings = 72 \<and> distinct recordings)
    \<and> (\<forall>q \<in> set (cy_records s). observed_skew (the (cr_snapshot q)) \<noteq> Some CANARY_MAXIMUM_SKEW_NS
         \<and> requested_start (cr_unit q) \<le> Max (set (map ao_terminal (outcomes (the (cr_snapshot q))))))"
proof -
  let ?rs = "cy_records s"
  let ?snap = "\<lambda>q :: canary_record. the (cr_snapshot q)"
  have inv: "canary_inv d s" using canary_reachable [OF assms(1), of calls] assms(2) by auto
  have len: "length ?rs = 36" and all: "\<forall>q \<in> set ?rs. cr_phase q = CR_COMPLETE"
    using inv assms(3) by (simp_all add: canary_inv_def canary_phase_ok_def)
  have rec: "\<exists>i. cr_unit q = canary_slot_unit d i \<and> canary_evidence d q (?snap q) \<and> cr_receipt q \<noteq> None
      \<and> cr_snapshot q \<noteq> None" if q: "q \<in> set ?rs" for q
  proof -
    obtain i where "canary_record_ok d i q" using inv q by (auto simp: canary_inv_def in_set_conv_nth)
    with all q show ?thesis by (auto simp: canary_record_ok_def canary_evidence_def)
  qed
  define skew where "skew = (\<lambda>q :: canary_record. the (observed_skew (?snap q)))"
  have sk: "observed_skew (?snap q) = Some (skew q)" "snapshot_skew (?snap q) = Inr (skew q)" "0 \<le> skew q"
      "skew q \<le> CANARY_MAXIMUM_SKEW_NS" "outcomes (?snap q) \<noteq> []" if q: "q \<in> set ?rs" for q
  proof -
    obtain k where "observed_skew (?snap q) = Some k" "snapshot_skew (?snap q) = Inr k" "0 \<le> k"
        "k \<le> CANARY_MAXIMUM_SKEW_NS" "outcomes (?snap q) \<noteq> []"
      using rec [OF q] evidence_skew [of d q "?snap q"] by blast
    then show "observed_skew (?snap q) = Some (skew q)" "snapshot_skew (?snap q) = Inr (skew q)" "0 \<le> skew q"
      "skew q \<le> CANARY_MAXIMUM_SKEW_NS" "outcomes (?snap q) \<noteq> []" by (simp_all add: skew_def)
  qed
  have snaps: "List.map_filter cr_snapshot ?rs = map ?snap ?rs"
    "List.map_filter cr_receipt ?rs = map (\<lambda>q. the (cr_receipt q)) ?rs"
    using rec by (intro map_filter_all; blast)+
  have evidence: "\<not> list_ex (\<lambda>r. cr_snapshot r = None \<or> cr_receipt r = None) ?rs"
    using rec by (auto simp: list_ex_iff)
  define lat where "lat = (\<lambda>q :: canary_record. Max (set (map ao_terminal (outcomes (?snap q)))) - requested_start (cr_unit q))"
  have latency: "mapE (\<lambda>(r, x). completion_latency r x) (zip ?rs (map ?snap ?rs)) = Inr (map lat ?rs)"
    unfolding zip_map_right mapE_map
    by (rule mapE_eq_map) (use sk(5) in \<open>simp add: completion_latency_def lat_def\<close>)
  have skews: "mapE snapshot_skew (map ?snap ?rs) = Inr (map skew ?rs)"
    unfolding mapE_map by (rule mapE_eq_map) (use sk(2) in simp)
  have dig: "cy_digest s = canary_digest d" using inv by (simp add: canary_inv_def)
  have v8: "canary_receipt_digest d = V8_RECEIPT_DIGEST" using assms(1) by (simp add: canary_definition_post_init_def)
  have card: "length xs = 72 \<and> card (set xs) = 72 \<longleftrightarrow> length xs = 72 \<and> distinct xs" for xs :: "string list"
    using card_distinct distinct_card by metis
  have skew_ok: "(\<forall>q \<in> set ?rs. 0 \<le> skew q \<and> skew q < CANARY_MAXIMUM_SKEW_NS)
      \<longleftrightarrow> (\<forall>q \<in> set ?rs. observed_skew (?snap q) \<noteq> Some CANARY_MAXIMUM_SKEW_NS)"
    using sk by fastforce
  let ?ids = "concat (map (\<lambda>q. canary_recordings (?snap q)) ?rs)"
  define R where "R = \<lparr>yr_definition = canary_digest d, yr_qualification = canary_receipt_digest d,
           yr_issued = issued, yr_units = map (\<lambda>r. unit_digest (cr_unit r)) ?rs,
           yr_snapshots = map (\<lambda>x. canonical_digest (json_snapshot x)) (map ?snap ?rs),
           yr_analyses = map (\<lambda>x. canonical_digest (json_receipt x)) (map (\<lambda>q. the (cr_receipt q)) ?rs),
           yr_recordings = concat (map canary_recordings (map ?snap ?rs)), yr_latency = map lat ?rs,
           yr_skew = map skew ?rs, yr_benchmarks = benchmarks, yr_feature_sets = feature_sets,
           yr_waterfalls = waterfalls, yr_suites = suites, yr_dashboard = dashboard\<rparr>"
  have build: "build_canary_receipt d s issued benchmarks feature_sets waterfalls suites dashboard = checked canary_receipt_post_init R"
    using dig assms(3) len evidence
    unfolding build_canary_receipt_def Let_def snaps latency skews bindE_simps R_def
    by (simp add: canary_constants)
  have lat_ok: "\<not> list_ex (\<lambda>v. v < 0) (map lat ?rs)
      \<longleftrightarrow> (\<forall>q \<in> set ?rs. requested_start (cr_unit q) \<le> Max (set (map ao_terminal (outcomes (?snap q)))))"
    by (simp add: list_ex_iff lat_def not_less)
  have skew_list: "\<not> list_ex (\<lambda>v. \<not> (0 \<le> v \<and> v < CANARY_MAXIMUM_SKEW_NS)) (map skew ?rs)
      \<longleftrightarrow> (\<forall>q \<in> set ?rs. observed_skew (?snap q) \<noteq> Some CANARY_MAXIMUM_SKEW_NS)"
    unfolding skew_ok [symmetric] by (simp add: list_ex_iff)
  have ids: "yr_recordings R = ?ids" by (simp add: R_def o_def)
  have "canary_receipt_post_init R = Inr () \<longleftrightarrow>
      0 \<le> issued \<and> map stage benchmarks = CANARY_ANALYSIS_STAGES
      \<and> (feature_sets = 72 \<and> waterfalls = 72 \<and> suites = 72 \<and> dashboard = 72) \<and> (length ?ids = 72 \<and> card (set ?ids) = 72) \<and> \<not> list_ex (\<lambda>v. v < 0) (map lat ?rs)
      \<and> \<not> list_ex (\<lambda>v. \<not> (0 \<le> v \<and> v < CANARY_MAXIMUM_SKEW_NS)) (map skew ?rs)"
    unfolding canary_receipt_post_init_def raise_first_ok raise_first.simps ids
    using len v8 by (auto simp: R_def canary_constants)
  then show ?thesis
    unfolding build card lat_ok skew_list Let_def by (simp add: ball_conj_distrib) blast
qed

text \<open>
  C39. When a canary can be receipted. In any reachable state and for any arguments,
  \<open>build_canary_receipt\<close> succeeds exactly if the canary is complete, the issue time is not negative, the
  benchmarks are of the reviewed stages in their order, all four counts are 72, the 72 recordings
  are distinct, no capture ended before its requested start, and no snapshot has a start skew of
  exactly the maximum, which the coordinator accepts but the receipt does not.
\<close>

theorem canary_receipt_iff:
  assumes "valid_canary d" and "canary_after d calls = Some s"
  shows "(\<exists>r. build_canary_receipt d s issued benchmarks feature_sets waterfalls suites dashboard = Inr r) \<longleftrightarrow>
    cy_phase s = CY_COMPLETE \<and> 0 \<le> issued \<and> map stage benchmarks = CANARY_ANALYSIS_STAGES
    \<and> feature_sets = 72 \<and> waterfalls = 72 \<and> suites = 72 \<and> dashboard = 72
    \<and> (let recordings = concat (map (\<lambda>q. canary_recordings (the (cr_snapshot q))) (cy_records s)) in
         length recordings = 72 \<and> distinct recordings)
    \<and> (\<forall>q \<in> set (cy_records s). observed_skew (the (cr_snapshot q)) \<noteq> Some CANARY_MAXIMUM_SKEW_NS
         \<and> requested_start (cr_unit q) \<le> Max (set (map ao_terminal (outcomes (the (cr_snapshot q))))))"
proof (cases "cy_phase s = CY_COMPLETE")
  case True
  with complete_receipt_iff [OF assms True, of issued benchmarks feature_sets waterfalls suites dashboard]
  show ?thesis by simp
next
  case False
  then show ?thesis by (simp add: build_canary_receipt_def)
qed

subsection \<open>A concrete canary\<close>

text \<open>Its two radios start exactly the maximum skew apart in every slot.\<close>

lemma demo_canary_valid: "valid_canary demo_canary"
  by code_simp

definition skewed_snapshot :: "campaign_unit \<Rightarrow> batch_snapshot" where
  "skewed_snapshot u =
     \<lparr>bs_schema = schema_v0_1 state_schema_id, bs_definition = unit_batch u,
      outcomes = map (\<lambda>(a, i, delay).
        \<lparr>ao_schema = schema_v0_1 outcome_schema_id, ao_batch_id = bd_batch_id (unit_batch u),
         ao_attempt_id = ea_attempt_id a, ao_radio_id = ea_radio_id a, ao_plan_id = ea_plan_id a,
         ao_state = SUCCEEDED, ao_terminal = requested_start u + delay,
         ao_observed_start = Some (requested_start u + delay),
         ao_recording = Some (demo_recording i), ao_failure_reason = None\<rparr>)
        (zip (expected_attempts (unit_batch u)) [(''rec_a'', 0), (''rec_b'', 100000000)]),
      bs_revision = 2\<rparr>"

definition skewed_env :: campaign_env where
  "skewed_env = \<lparr>ce_capture = \<lambda>u start deadline. Returned (skewed_snapshot u), ce_analyze = demo_analyze,
     ce_capacity = Some 100000000000\<rparr>"

definition skewed_captures :: "(int \<times> campaign_env) list" where
  "skewed_captures = map (\<lambda>n. (canary_requested demo_canary (int n), skewed_env)) [0..<36]"

definition skewed_snaps :: "batch_snapshot list" where
  "skewed_snaps = map (\<lambda>n. skewed_snapshot (canary_slot_unit demo_canary n)) [0..<36]"

lemma demo_canary_capacity: "canary_required_capacity 0 (new_canary_state dg) \<le> 100000000000"
proof -
  have "canary_captured_count (new_canary_state dg) = 0"
    by (simp add: canary_captured_count_def new_canary_state_def)
  moreover have "sum_list (map (\<lambda>i. (case canary_cell i of Inr c \<Rightarrow> cell_sample_count c | Inl _ \<Rightarrow> 0) * 128) [0..35])
      = 1254400000"
    by code_simp
  ultimately show ?thesis by (simp add: canary_required_capacity_def CANARY_SLOTS_def)
qed

lemma skewed_due:
  assumes "n < 36"
  shows "canary_on_time demo_canary (canary_slot_unit demo_canary n) (fst (skewed_captures ! n))"
    "canary_captures demo_canary 0 (canary_slot_unit demo_canary n) (snd (skewed_captures ! n)) (skewed_snaps ! n)"
proof -
  show "canary_on_time demo_canary (canary_slot_unit demo_canary n) (fst (skewed_captures ! n))"
    using assms by (simp add: canary_on_time_def skewed_captures_def canary_constants demo_canary_def)
  have late: "canary_requested demo_canary (int n) + 100000000 \<le> canary_deadline demo_canary (int n)"
    by (simp add: canary_requested_def canary_deadline_def canary_constants demo_canary_def algebra_simps)
  have "\<not> canary_snapshot_bad demo_canary (canary_slot_unit demo_canary n) (skewed_snapshot (canary_slot_unit demo_canary n))"
    using late
    by (simp add: canary_snapshot_bad_def skewed_snapshot_def canary_slot_unit_def expected_unit_def Let_def
        terminal_def observed_skew_def paired_analysis_eligibility_def MAXIMUM_START_SKEW_NS_def)
  then show "canary_captures demo_canary 0 (canary_slot_unit demo_canary n) (snd (skewed_captures ! n)) (skewed_snaps ! n)"
    using assms demo_canary_capacity
    by (simp add: canary_captures_def skewed_captures_def skewed_snaps_def skewed_env_def)
qed

lemma skewed_analyzed: "snap \<in> set skewed_snaps \<Longrightarrow> canary_analyzes 5 skewed_env snap"
  by (auto simp: canary_analyzes_def skewed_env_def demo_analyze_def canary_receipt_ok_def
      receipt_recording_ids_def o_def demo_success_def)

lemma demo_analyzed:
  obtains a where "canary_after demo_canary (canary_scripted 0 skewed_captures (replicate 36 (5, skewed_env))) = Some a"
    "cy_phase a = CY_ANALYZING" "canary_analyzed_count a = CANARY_SLOTS"
  using canary_drains [OF demo_canary_valid, of skewed_captures skewed_snaps "replicate 36 (5, skewed_env)" 0]
    skewed_due skewed_analyzed
  by (auto simp: skewed_captures_def skewed_snaps_def)


theorem canary_halt_analysis_outcome_witness:
  "\<exists>a. canary_after demo_canary (canary_scripted 0 skewed_captures (replicate 36 (5, skewed_env))) = Some a
     \<and> canary_do demo_canary CanaryHalt (Some a) = (Inl (StopIteration No_Captured_Record), Some a)"
proof -
  obtain a where a: "canary_after demo_canary (canary_scripted 0 skewed_captures (replicate 36 (5, skewed_env))) = Some a"
    "cy_phase a = CY_ANALYZING" "canary_analyzed_count a = CANARY_SLOTS"
    using demo_analyzed by blast
  show ?thesis
    using canary_halt_analysis_outcome [OF demo_canary_valid a(1)] a by (simp del: canary_do.simps)
qed

lemma demo_canary_complete:
  obtains s where "canary_after demo_canary (canary_scripted 0 skewed_captures (replicate 37 (5, skewed_env))) = Some s"
    "cy_phase s = CY_COMPLETE" "map cr_snapshot (cy_records s) = map Some skewed_snaps"
  using canary_runs [OF demo_canary_valid, of skewed_captures skewed_snaps "replicate 37 (5, skewed_env)" 0]
    skewed_due skewed_analyzed
  by (auto simp: skewed_captures_def skewed_snaps_def)

definition demo_benchmarks :: "canary_benchmark list" where
  "demo_benchmarks = map (\<lambda>st. \<lparr>stage = st, workers = (if endswith st ''compute'' then 8 else 4), wall_time_ns = 1, cpu_time_ns = 1, peak_rss_bytes = 1\<rparr>)
     CANARY_ANALYSIS_STAGES"

text \<open>The complete canary with the maximum skew cannot be receipted.\<close>

theorem canary_receipt_iff_witness:
  "\<exists>s. canary_after demo_canary (canary_scripted 0 skewed_captures (replicate 37 (5, skewed_env))) = Some s
     \<and> cy_phase s = CY_COMPLETE \<and> \<not> (\<exists>r. build_canary_receipt demo_canary s 7 demo_benchmarks 72 72 72 72 = Inr r)"
proof -
  obtain s where s: "canary_after demo_canary (canary_scripted 0 skewed_captures (replicate 37 (5, skewed_env))) = Some s"
    "cy_phase s = CY_COMPLETE" "map cr_snapshot (cy_records s) = map Some skewed_snaps"
    using demo_canary_complete by blast
  have len: "length (cy_records s) = 36" using s(3) by (metis diff_zero length_map length_upt skewed_snaps_def)
  then have "cr_snapshot (cy_records s ! 0) = map Some skewed_snaps ! 0"
    unfolding s(3) [symmetric] by simp
  then have snap: "cr_snapshot (cy_records s ! 0) = Some (skewed_snapshot (canary_slot_unit demo_canary 0))"
    by (simp add: skewed_snaps_def)
  have skew: "observed_skew (skewed_snapshot (canary_slot_unit demo_canary 0)) = Some CANARY_MAXIMUM_SKEW_NS"
    by (simp add: skewed_snapshot_def observed_skew_def canary_slot_unit_def expected_unit_def Let_def
        CANARY_MAXIMUM_SKEW_NS_def)
  have bad: "\<not> (\<forall>q \<in> set (cy_records s). observed_skew (the (cr_snapshot q)) \<noteq> Some CANARY_MAXIMUM_SKEW_NS
         \<and> requested_start (cr_unit q) \<le> Max (set (map ao_terminal (outcomes (the (cr_snapshot q))))))"
  proof -
    have "cy_records s ! 0 \<in> set (cy_records s)" using len by simp
    then show ?thesis using snap skew by force
  qed
  have "\<not> (\<exists>r. build_canary_receipt demo_canary s 7 demo_benchmarks 72 72 72 72 = Inr r)"
    unfolding canary_receipt_iff [OF demo_canary_valid s(1)] using bad by blast
  with s(1,2) show ?thesis by blast
qed

end
