(* ===== verification/Canary_Operator.thy ===== *)
theory Canary_Operator
  imports Canary_Claims
begin

section \<open>The canary's operator loops\<close>

text \<open>
  The two bounded loops of \<open>deployments/v5_supercycle_canary_operator.py\<close>: \<open>main\<close> with the command
  capture-run and with the command drain-analysis. The world is a parameter: what the clock reads in
  a world, the ports met there, the world after a call of the coordinator and the world after a call
  of the delay function. The staged analysis before the second loop, the closure counts and the receipt
  after it, and the printed events are not part of the loops.
\<close>

record 'w canary_world =
  cw_clock :: "'w \<Rightarrow> int"
  cw_env :: "'w \<Rightarrow> campaign_env"
  cw_passed :: "'w \<Rightarrow> 'w"
  cw_slept :: "int \<Rightarrow> 'w \<Rightarrow> 'w"

datatype canary_run_end =
    Run_Complete canary_state
  | Run_Halted canary_state
  | Run_Exhausted
  | Run_Refused
  | Run_Raised "canary_error exn"

definition canary_wait :: "'w canary_world \<Rightarrow> canary_result \<Rightarrow> 'w \<Rightarrow> 'w" where
  "canary_wait W r w =
     (case cy_unit r of
        Some u \<Rightarrow>
          if cy_status r = CS_NOT_DUE then
            (let wait_ns = requested_start u - 15000000000 - cw_clock W w
             in if 0 < wait_ns then cw_slept W wait_ns w else w)
          else w
      | None \<Rightarrow> w)"

fun canary_capture_run ::
  "nat \<Rightarrow> canary_definition \<Rightarrow> int \<Rightarrow> 'w canary_world \<Rightarrow> 'w \<Rightarrow> canary_journal \<Rightarrow> canary_run_end \<times> 'w \<times> canary_journal" where
  "canary_capture_run 0 d margin W w j = (Run_Exhausted, w, j)"
| "canary_capture_run (Suc n) d margin W w j =
     (case canary_do d (CanaryCapture margin (cw_env W w) (cw_clock W w)) j of
        (Inl e, j) \<Rightarrow> (Run_Raised e, cw_passed W w, j)
      | (Inr r, j) \<Rightarrow>
          if cy_phase (cy_state r) = CY_ANALYZING then (Run_Complete (cy_state r), cw_passed W w, j)
          else if cy_phase (cy_state r) = CY_HALTED then (Run_Halted (cy_state r), cw_passed W w, j)
          else canary_capture_run n d margin W (canary_wait W r (cw_passed W w)) j)"

fun canary_drain_loop ::
  "nat \<Rightarrow> canary_definition \<Rightarrow> int \<Rightarrow> 'w canary_world \<Rightarrow> 'w \<Rightarrow> canary_journal \<Rightarrow> canary_run_end option \<times> canary_journal" where
  "canary_drain_loop 0 d deadline W w j = (None, j)"
| "canary_drain_loop (Suc n) d deadline W w j =
     (case canary_do d (CanaryReconcile (cw_env W w) deadline) j of
        (Inl e, j) \<Rightarrow> (Some (Run_Raised e), j)
      | (Inr r, j) \<Rightarrow>
          if cy_phase (cy_state r) = CY_COMPLETE then (None, j)
          else if cy_phase (cy_state r) = CY_HALTED then (Some (Run_Halted (cy_state r)), j)
          else canary_drain_loop n d deadline W (cw_passed W w) j)"

definition canary_drain_run ::
  "nat \<Rightarrow> canary_definition \<Rightarrow> int \<Rightarrow> 'w canary_world \<Rightarrow> 'w \<Rightarrow> canary_journal \<Rightarrow> canary_run_end \<times> canary_journal" where
  "canary_drain_run n d seconds W w j =
     (if \<not> (1 \<le> seconds \<and> seconds \<le> 86400) then (Run_Refused, j)
      else
        case canary_drain_loop n d (cw_clock W w + seconds * 1000000000) W w j of
          (Some stop, j) \<Rightarrow> (stop, j)
        | (None, j) \<Rightarrow>
            (case canary_load d j of
               (Inl e, j) \<Rightarrow> (Run_Raised e, j)
             | (Inr s, j) \<Rightarrow> (if cy_phase s \<noteq> CY_COMPLETE then Run_Exhausted else Run_Complete s, j)))"

declare canary_do.simps [simp del]

subsection \<open>One turn of the capture loop\<close>

text \<open>An early call plans the slot's record and answers that it is not due.\<close>

definition slot_planned :: "canary_definition \<Rightarrow> nat \<Rightarrow> canary_state \<Rightarrow> bool" where
  "slot_planned d n z \<longleftrightarrow> canary_inv d z \<and> cy_phase z = CY_CAPTURING
     \<and> (\<exists>ps. cy_records z = ps @ [new_canary_record (canary_slot_unit d n)] \<and> length ps = n
          \<and> (\<forall>r \<in> set ps. cr_phase r = CR_CAPTURED))"

definition slots_captured :: "canary_definition \<Rightarrow> batch_snapshot list \<Rightarrow> canary_state \<Rightarrow> bool" where
  "slots_captured d snaps s \<longleftrightarrow> canary_inv d s \<and> cy_phase s = CY_CAPTURING
     \<and> (\<forall>r \<in> set (cy_records s). cr_phase r = CR_CAPTURED) \<and> map cr_snapshot (cy_records s) = map Some snaps"

lemma slots_captured_length: "slots_captured d snaps s \<Longrightarrow> length (cy_records s) = length snaps"
  unfolding slots_captured_def by (metis length_map)

lemma canary_early:
  assumes "valid_canary d" and s: "slots_captured d snaps s" and n: "length snaps < 36"
  defines "u \<equiv> canary_slot_unit d (length snaps)"
  assumes early: "now < requested_start u - CANARY_PREFLIGHT_LEAD_NS"
  shows "\<exists>z. canary_do d (CanaryCapture margin env now) (Some s) = (Inr (canary_result_of CS_NOT_DUE z (Some u)), Some z)
    \<and> slot_planned d (length snaps) z \<and> map cr_snapshot (butlast (cy_records z)) = map Some snaps"
proof -
  let ?n = "length snaps"
  have inv: "canary_inv d s" and ph: "cy_phase s = CY_CAPTURING"
    and all: "\<forall>r \<in> set (cy_records s). cr_phase r = CR_CAPTURED"
    and snaps: "map cr_snapshot (cy_records s) = map Some snaps"
    using s by (simp_all add: slots_captured_def)
  have len: "length (cy_records s) = ?n" by (rule slots_captured_length [OF s])
  have decided: "\<forall>r \<in> set (cy_records s). \<not> undecided r" using all by (auto simp: undecided_def)
  have count: "canary_captured_count s = int ?n" using canary_mem.captured_all [OF inv decided] len by simp
  have build: "build_canary_unit d (int ?n) = Inr u" unfolding u_def by (rule built_canary_unit [OF assms(1) n])
  let ?r = "new_canary_record u"
  have ok: "canary_record_ok d ?n ?r" by (simp add: canary_record_ok_def new_canary_record_def u_def)
  let ?p = "s\<lparr>cy_records := cy_records s @ [?r]\<rparr>"
  have p: "canary_inv d ?p"
    using inv n ok decided ph len
    by (auto simp: canary_inv_def canary_phase_ok_def nth_append less_Suc_eq new_canary_record_def)
  define z where "z = ?p\<lparr>cy_revision := cy_revision s + 1\<rparr>"
  have rev: "cy_digest s = canary_digest d" "0 \<le> cy_revision s" using inv by (simp_all add: canary_inv_def)
  have z: "canary_inv d z" "cy_phase z = CY_CAPTURING" "cy_records z = cy_records s @ [?r]"
    using p rev ph by (simp_all add: canary_inv_def z_def)
  have store: "canary_store (canary_cas d) ?p s (Some s) = (Inr z, Some z)"
    unfolding z_def by (rule canary_store_mem [OF p rev])
  have "canary_do d (CanaryCapture margin env now) (Some s) = canary_plan_next (canary_cas d) d margin env now s (Some s)"
  proof -
    have "canary_captured_count s \<noteq> CANARY_SLOTS" using count n by (simp add: canary_constants)
    moreover have "cr_phase r = CR_CAPTURED" if "last_opt (cy_records s) = Some r" for r
      using last_optD [OF that] all by simp
    ultimately show ?thesis
      using rev(1) ph
      by (cases "last_opt (cy_records s)")
        (simp_all add: canary_do.simps canary_capture_next_def canary_capture_from_def canary_load_def bind_io_def)
  qed
  also have "\<dots> = canary_capture (canary_cas d) d margin env now z ?r (Some z)"
    unfolding canary_plan_next_def count build canary_record_checked [OF ok] canary_state_checked [OF p] bind_lift
    by (simp add: bind_mem [where m = "canary_store (canary_cas d) ?p s" and s = "Some s", OF store] z(3))
  also have "\<dots> = (Inr (canary_result_of CS_NOT_DUE z (Some u)), Some z)"
    using early by (simp add: canary_capture_def Let_def ret_def new_canary_record_def)
  finally have run: "canary_do d (CanaryCapture margin env now) (Some s) = (Inr (canary_result_of CS_NOT_DUE z (Some u)), Some z)" .
  have "slot_planned d ?n z" unfolding slot_planned_def using z all len by (auto simp: u_def)
  with run z(3) snaps show ?thesis by auto
qed

text \<open>A call inside the slot's window captures the planned record.\<close>

lemma canary_planned_due:
  assumes "valid_canary d" and z: "slot_planned d n z" and n: "n < 36"
    and snaps: "map cr_snapshot (butlast (cy_records z)) = map Some snaps"
  defines "u \<equiv> canary_slot_unit d n"
  assumes time: "canary_on_time d u now" and env: "canary_captures d margin u env snap"
  shows "\<exists>t. canary_do d (CanaryCapture margin env now) (Some z) = (Inr (canary_result_of CS_CAPTURED t (Some u)), Some t)
    \<and> slots_captured d (snaps @ [snap]) t"
proof -
  obtain ps where ps: "cy_records z = ps @ [new_canary_record u]" "length ps = n" "\<forall>r \<in> set ps. cr_phase r = CR_CAPTURED"
    and inv: "canary_inv d z" and ph: "cy_phase z = CY_CAPTURING"
    using z by (auto simp: slot_planned_def u_def)
  let ?r = "new_canary_record u"
  have start: "slot_index u = int n" by (simp add: u_def)
  have runit: "cr_unit ?r = u" by (simp add: new_canary_record_def)
  have ok: "canary_record_ok d n ?r" by (simp add: canary_record_ok_def new_canary_record_def u_def)
  have count: "canary_captured_count z = int n"
  proof -
    have "\<forall>r \<in> set ps. cr_snapshot r \<noteq> None"
      using snaps ps(1) by (metis butlast_snoc image_eqI imageE list.set_map option.distinct(1))
    then have "filter (\<lambda>r. cr_snapshot r \<noteq> None) ps = ps" by (simp add: filter_id_conv)
    then show ?thesis
      using ps by (simp add: canary_captured_count_def count_where_def new_canary_record_def)
  qed
  define ir where "ir = ?r\<lparr>cr_phase := CAPTURE_INVOKED\<rparr>"
  have ir: "canary_record_ok d n ir" "cr_phase ir \<noteq> CR_COMPLETE"
    using ok by (simp_all add: ir_def canary_record_ok_def new_canary_record_def)
  have idx: "n = length (cy_records z) - 1" "cy_records z \<noteq> []" using ps by simp_all
  define z1 where "z1 = z\<lparr>cy_records := (cy_records z)[n := ir], cy_revision := cy_revision z + 1\<rparr>"
  note m1 = canary_replace_mem [OF inv ph idx(2,1) ir, folded z1_def]
  have z1: "cy_phase z1 = CY_CAPTURING" "cy_records z1 = ps @ [ir]"
    using ph ps(1) by (simp_all add: z1_def ps(2) [symmetric])
  define q where "q = ir\<lparr>cr_phase := CR_CAPTURED, cr_snapshot := Some snap\<rparr>"
  have good: "\<not> canary_snapshot_bad d u snap" using env by (simp add: canary_captures_def)
  have "canary_evidence d q snap"
    using good by (simp add: canary_evidence_def q_def ir_def new_canary_record_def)
  then have q: "canary_record_ok d n q" "cr_phase q \<noteq> CR_COMPLETE"
    using ok by (auto simp: canary_record_ok_def q_def ir_def new_canary_record_def)
  have idx1: "n = length (cy_records z1) - 1" "cy_records z1 \<noteq> []" using z1 ps(2) by simp_all
  define z2 where "z2 = z1\<lparr>cy_records := (cy_records z1)[n := q], cy_revision := cy_revision z1 + 1\<rparr>"
  note m2 = canary_replace_mem [OF m1(2) z1(1) idx1(2,1) q, folded z2_def]
  obtain available where cap: "ce_capacity env = Some available" "\<not> available < canary_required_capacity margin z"
    using env capacity_le_initial [of z margin "canary_digest d"] count n that
    by (force simp: canary_captures_def canary_constants)
  have "canary_capture (canary_cas d) d margin env now z ?r (Some z) = (Inr (canary_result_of CS_CAPTURED z2 (Some u)), Some z2)"
    unfolding canary_capture_def Let_def ir_def [symmetric] canary_record_checked [OF ir(1)] bind_lift runit
    using time cap env good m1(1) m2(1)
    by (simp add: canary_on_time_def canary_captures_def start canary_record_checked [OF q(1)]
        bind_io_def call_port_def ret_def lift_def q_def [symmetric])
  moreover have "canary_do d (CanaryCapture margin env now) (Some z)
      = canary_capture (canary_cas d) d margin env now z ?r (Some z)"
    using inv ph count n ps(1)
    by (simp add: canary_do.simps canary_capture_next_def canary_capture_from_def canary_load_def bind_io_def canary_inv_def
        canary_constants last_opt_def new_canary_record_def)
  moreover have "slots_captured d (snaps @ [snap]) z2"
  proof -
    have "cy_records z2 = ps @ [q]" "cy_phase z2 = CY_CAPTURING"
      using z1 by (simp_all add: z2_def ps(2) [symmetric])
    moreover have "cr_phase q = CR_CAPTURED" "cr_snapshot q = Some snap" by (simp_all add: q_def)
    ultimately show ?thesis using m2(2) ps snaps by (simp add: slots_captured_def)
  qed
  ultimately show ?thesis by auto
qed

lemma canary_due:
  assumes "valid_canary d" and s: "slots_captured d snaps s" and n: "length snaps < 36"
    and "canary_on_time d (canary_slot_unit d (length snaps)) now"
    and "canary_captures d margin (canary_slot_unit d (length snaps)) env snap"
  shows "\<exists>t u. canary_do d (CanaryCapture margin env now) (Some s) = (Inr (canary_result_of CS_CAPTURED t u), Some t)
    \<and> slots_captured d (snaps @ [snap]) t"
proof -
  have len: "length (cy_records s) = length snaps" by (rule slots_captured_length [OF s])
  obtain t q where "canary_do d (CanaryCapture margin env now) (Some s)
        = (Inr (canary_result_of CS_CAPTURED t (Some (canary_slot_unit d (length snaps)))), Some t)"
      "canary_inv d t" "cy_phase t = CY_CAPTURING" "cy_records t = cy_records s @ [q]"
      "cr_phase q = CR_CAPTURED" "cr_snapshot q = Some snap"
    using canary_slot_captured [of d s now margin env snap] assms len by (auto simp: slots_captured_def)
  with s show ?thesis by (auto simp: slots_captured_def)
qed

subsection \<open>The loops complete within their bounds\<close>

text \<open>
  What the capture loop relies on. Sleeping lasts at least as long as asked and at most as long as the
  slot's window is wide; a call made before a slot's window returns before the window closes; a call made
  inside it meets ports that capture the slot and returns before the next slot's window closes.
\<close>

definition canary_serves :: "canary_definition \<Rightarrow> int \<Rightarrow> 'w canary_world \<Rightarrow> (nat \<Rightarrow> batch_snapshot) \<Rightarrow> bool" where
  "canary_serves d margin W snap \<longleftrightarrow>
     (\<forall>w x. 0 < x \<longrightarrow> cw_clock W w + x \<le> cw_clock W (cw_slept W x w)
        \<and> cw_clock W (cw_slept W x w) \<le> cw_clock W w + x + CANARY_PREFLIGHT_LEAD_NS + canary_lateness d)
   \<and> (\<forall>w n. n < 36 \<longrightarrow> cw_clock W w < canary_requested d (int n) - CANARY_PREFLIGHT_LEAD_NS \<longrightarrow>
        cw_clock W (cw_passed W w) \<le> canary_requested d (int n) + canary_lateness d)
   \<and> (\<forall>w n. n < 36 \<longrightarrow> canary_on_time d (canary_slot_unit d n) (cw_clock W w) \<longrightarrow>
        canary_captures d margin (canary_slot_unit d n) (cw_env W w) (snap n)
        \<and> cw_clock W (cw_passed W w) \<le> canary_requested d (int n + 1) + canary_lateness d)"

lemma canary_servesD:
  assumes "canary_serves d margin W snap"
  shows "0 < x \<Longrightarrow> cw_clock W w + x \<le> cw_clock W (cw_slept W x w)
      \<and> cw_clock W (cw_slept W x w) \<le> cw_clock W w + x + CANARY_PREFLIGHT_LEAD_NS + canary_lateness d"
    and "n < 36 \<Longrightarrow> cw_clock W w < canary_requested d (int n) - CANARY_PREFLIGHT_LEAD_NS \<Longrightarrow>
      cw_clock W (cw_passed W w) \<le> canary_requested d (int n) + canary_lateness d"
    and "n < 36 \<Longrightarrow> canary_on_time d (canary_slot_unit d n) (cw_clock W w) \<Longrightarrow>
      canary_captures d margin (canary_slot_unit d n) (cw_env W w) (snap n)
      \<and> cw_clock W (cw_passed W w) \<le> canary_requested d (int n + 1) + canary_lateness d"
  using assms by (simp_all add: canary_serves_def)

lemma canary_wait_in_window:
  assumes serves: "canary_serves d margin W snap" and n: "n < 36"
    and early: "cw_clock W w < canary_requested d (int n) - CANARY_PREFLIGHT_LEAD_NS"
  shows "canary_on_time d (canary_slot_unit d n)
    (cw_clock W (canary_wait W (canary_result_of CS_NOT_DUE z (Some (canary_slot_unit d n))) (cw_passed W w)))"
proof -
  let ?v = "cw_passed W w"
  let ?x = "canary_requested d (int n) - 15000000000 - cw_clock W ?v"
  have late: "cw_clock W ?v \<le> canary_requested d (int n) + canary_lateness d"
    by (rule canary_servesD(2) [OF serves n early])
  show ?thesis
  proof (cases "0 < ?x")
    case True
    with canary_servesD(1) [OF serves True, of ?v] show ?thesis
      by (simp add: canary_wait_def canary_result_of_def canary_on_time_def CANARY_PREFLIGHT_LEAD_NS_def)
  next
    case False
    with late show ?thesis
      by (simp add: canary_wait_def canary_result_of_def canary_on_time_def CANARY_PREFLIGHT_LEAD_NS_def)
  qed
qed

lemma canary_wait_captured: "canary_wait W (canary_result_of CS_CAPTURED t u) w = w"
  by (simp add: canary_wait_def canary_result_of_def split: option.split)

lemma result_of_state [simp]: "cy_state (canary_result_of st t u) = t"
  by (simp add: canary_result_of_def)

lemma canary_capture_run_completes:
  assumes "valid_canary d" and serves: "canary_serves d margin W snap"
    and "slots_captured d (map snap [0..<n]) s" and "n + m = 36" and "2 * m + 1 \<le> fuel"
    and "cw_clock W w \<le> canary_requested d (int n) + canary_lateness d"
  shows "\<exists>t w'. canary_capture_run fuel d margin W w (Some s) = (Run_Complete t, w', Some t)
    \<and> canary_inv d t \<and> cy_phase t = CY_ANALYZING \<and> (\<forall>r \<in> set (cy_records t). cr_phase r = CR_CAPTURED)
    \<and> map cr_snapshot (cy_records t) = map (\<lambda>n. Some (snap n)) [0..<36]"
  using assms(3-)
proof (induction m arbitrary: n s fuel w)
  case 0
  then have s: "canary_inv d s" "cy_phase s = CY_CAPTURING" "\<forall>r \<in> set (cy_records s). cr_phase r = CR_CAPTURED"
    by (simp_all add: slots_captured_def)
  have len: "length (cy_records s) = 36" using slots_captured_length [OF "0.prems"(1)] "0.prems"(2) by simp
  obtain t where t: "canary_do d (CanaryCapture margin (cw_env W w) (cw_clock W w)) (Some s)
      = (Inr (canary_result_of CS_PHASE_CLOSED t None), Some t)" "cy_phase t = CY_ANALYZING" "cy_records t = cy_records s"
    using canary_closes [OF s len] by blast
  have "canary_inv d t" using canary_call_steps [OF assms(1) s(1) t(1)] by auto
  moreover obtain f where "fuel = Suc f" using "0.prems"(3) by (cases fuel) auto
  ultimately show ?case
    using t s(3) "0.prems"(1,2) by (auto simp: slots_captured_def comp_def)
next
  case (Suc m)
  let ?u = "canary_slot_unit d n"
  have n: "n < 36" using Suc.prems(2) by simp
  have len: "length (map snap [0..<n]) = n" by simp
  obtain f where f: "fuel = Suc (Suc f)" "2 * m + 1 \<le> f" using Suc.prems(3) by (cases fuel; cases "fuel - 1") auto
  have more: "map snap [0..<n] @ [snap n] = map snap [0..<Suc n]" by simp
  let ?goal = "\<lambda>k v j. \<exists>t w'. canary_capture_run k d margin W v j = (Run_Complete t, w', Some t)
    \<and> canary_inv d t \<and> cy_phase t = CY_ANALYZING \<and> (\<forall>r \<in> set (cy_records t). cr_phase r = CR_CAPTURED)
    \<and> map cr_snapshot (cy_records t) = map (\<lambda>n. Some (snap n)) [0..<36]"
  have rest: "?goal k v (Some t)"
    if "slots_captured d (map snap [0..<Suc n]) t" "2 * m + 1 \<le> k"
      "cw_clock W v \<le> canary_requested d (int n + 1) + canary_lateness d" for k v t
    using that Suc.prems(2) by (intro Suc.IH [of "Suc n"]) (simp_all add: add.commute)
  show ?case
  proof (cases "cw_clock W w < canary_requested d (int n) - CANARY_PREFLIGHT_LEAD_NS")
    case True
    obtain z where z: "canary_do d (CanaryCapture margin (cw_env W w) (cw_clock W w)) (Some s)
        = (Inr (canary_result_of CS_NOT_DUE z (Some ?u)), Some z)" "slot_planned d n z"
        "map cr_snapshot (butlast (cy_records z)) = map Some (map snap [0..<n])"
      using canary_early [OF assms(1) Suc.prems(1), of "cw_clock W w" margin "cw_env W w"] n True by auto
    let ?v = "canary_wait W (canary_result_of CS_NOT_DUE z (Some ?u)) (cw_passed W w)"
    have due: "canary_on_time d ?u (cw_clock W ?v)" by (rule canary_wait_in_window [OF serves n True])
    note port = canary_servesD(3) [OF serves n due]
    obtain t where t: "canary_do d (CanaryCapture margin (cw_env W ?v) (cw_clock W ?v)) (Some z)
        = (Inr (canary_result_of CS_CAPTURED t (Some ?u)), Some t)" "slots_captured d (map snap [0..<Suc n]) t"
      using canary_planned_due [OF assms(1) z(2) n z(3) due conjunct1 [OF port]] unfolding more by blast
    have "?goal f (cw_passed W ?v) (Some t)" by (rule rest [OF t(2) f(2) conjunct2 [OF port]])
    moreover have "cy_phase t = CY_CAPTURING" "cy_phase z = CY_CAPTURING"
      using t(2) z(2) by (simp_all add: slots_captured_def slot_planned_def)
    ultimately show ?thesis
      using z(1) t(1) f(1) by (simp add: canary_wait_captured)
  next
    case False
    then have due: "canary_on_time d ?u (cw_clock W w)" using Suc.prems(4) by (simp add: canary_on_time_def)
    note port = canary_servesD(3) [OF serves n due]
    obtain t u where t: "canary_do d (CanaryCapture margin (cw_env W w) (cw_clock W w)) (Some s)
        = (Inr (canary_result_of CS_CAPTURED t u), Some t)" "slots_captured d (map snap [0..<Suc n]) t"
      using canary_due [OF assms(1) Suc.prems(1)] n due port more by (metis len)
    have "?goal (Suc f) (cw_passed W w) (Some t)" using f(2) by (intro rest [OF t(2) _ conjunct2 [OF port]]) simp
    moreover have "cy_phase t = CY_CAPTURING" using t(2) by (simp add: slots_captured_def)
    ultimately show ?thesis
      using t(1) f(1) by (simp add: canary_wait_captured del: canary_capture_run.simps(1))
  qed
qed

lemma canary_drain_completes:
  assumes "valid_canary d" and "canary_inv d s" and "cy_phase s = CY_ANALYZING"
    and "canary_analyzed_count s + int m = CANARY_SLOTS" and "m + 1 \<le> fuel"
    and "map cr_snapshot (cy_records s) = map Some snaps"
    and ports: "\<forall>w. \<forall>snap \<in> set snaps. canary_analyzes deadline (cw_env W w) snap"
  shows "\<exists>t. canary_drain_loop fuel d deadline W w (Some s) = (None, Some t) \<and> canary_inv d t
    \<and> cy_phase t = CY_COMPLETE \<and> map cr_snapshot (cy_records t) = map Some snaps"
  using assms(2-6)
proof (induction m arbitrary: s fuel w)
  case 0
  obtain f where f: "fuel = Suc f" using "0.prems"(4) by (cases fuel) auto
  have all: "canary_analyzed_count s = CANARY_SLOTS" using "0.prems"(3) by simp
  obtain t where t: "canary_do d (CanaryReconcile (cw_env W w) deadline) (Some s)
      = (Inr (canary_result_of CS_COMPLETE t None), Some t)" "cy_phase t = CY_COMPLETE" "cy_records t = cy_records s"
    using canary_finishes [OF "0.prems"(1,2) all] by blast
  have "canary_inv d t" using canary_call_steps [OF assms(1) "0.prems"(1) t(1)] by auto
  then show ?case using t f "0.prems"(5) by simp
next
  case (Suc m)
  obtain f where f: "fuel = Suc f" "m + 1 \<le> f" using Suc.prems(4) by (cases fuel) auto
  have "\<forall>r \<in> set (cy_records s). \<forall>snap. cr_snapshot r = Some snap \<longrightarrow> snap \<in> set snaps"
  proof (intro ballI allI impI)
    fix r snap
    assume "r \<in> set (cy_records s)" "cr_snapshot r = Some snap"
    then have "Some snap \<in> set (map Some snaps)" unfolding Suc.prems(5) [symmetric] by force
    then show "snap \<in> set snaps" by auto
  qed
  then have env: "\<forall>r \<in> set (cy_records s). \<forall>snap. cr_snapshot r = Some snap \<longrightarrow> canary_analyzes deadline (cw_env W w) snap"
    using ports by blast
  have lt: "canary_analyzed_count s < CANARY_SLOTS" using Suc.prems(3) by simp
  obtain t u where t: "canary_do d (CanaryReconcile (cw_env W w) deadline) (Some s)
        = (Inr (canary_result_of CS_ANALYZED t u), Some t)" "canary_inv d t" "cy_phase t = CY_ANALYZING"
      "canary_analyzed_count t = canary_analyzed_count s + 1"
      "map cr_snapshot (cy_records t) = map cr_snapshot (cy_records s)"
    using canary_reconciles [OF Suc.prems(1,2) lt env] by blast
  have "\<exists>v. canary_drain_loop f d deadline W (cw_passed W w) (Some t) = (None, Some v) \<and> canary_inv d v
    \<and> cy_phase v = CY_COMPLETE \<and> map cr_snapshot (cy_records v) = map Some snaps"
    using t Suc.prems(3,5) f(2) by (intro Suc.IH) simp_all
  then show ?case using t(1,3) f(1) by simp
qed

text \<open>
  C26. A canary run by its operator completes within the two transition limits. From the journal a new
  canary starts with, in any world whose clock stands before the close of the first slot's window and
  which serves the canary, the capture loop bounded by the capture limit ends with the phase analysing:
  one call per slot, a second one after sleeping where the first came too early, and a closing call;
  and in any world that analyses the captured snapshots by the deadline, the loop bounded by the
  analysis limit then ends with the canary complete, with exactly the snapshots of the capture port
  in slot order.
\<close>

theorem canary_completes:
  assumes "valid_canary d" and "canary_serves d margin W snap"
    and "cw_clock W w \<le> canary_requested d 0 + canary_lateness d"
    and "1 \<le> seconds" and "seconds \<le> 86400"
    and "\<forall>v. \<forall>n < 36. canary_analyzes (cw_clock V v0 + seconds * 1000000000) (cw_env V v) (snap n)"
  shows "\<exists>s w' t. canary_capture_run (nat CANARY_CAPTURE_LIMIT) d margin W w (canary_after d []) = (Run_Complete s, w', Some s)
    \<and> cy_phase s = CY_ANALYZING
    \<and> canary_drain_run (nat CANARY_ANALYSIS_LIMIT) d seconds V v0 (Some s) = (Run_Complete t, Some t)
    \<and> cy_phase t = CY_COMPLETE \<and> map cr_snapshot (cy_records t) = map (\<lambda>n. Some (snap n)) [0..<36]"
proof -
  have new: "slots_captured d (map snap [0..<0]) (new_canary_state (canary_digest d))"
    using new_canary_inv [of d] by (simp add: slots_captured_def) (simp add: new_canary_state_def)
  obtain s w' where s: "canary_capture_run (nat CANARY_CAPTURE_LIMIT) d margin W w (canary_after d []) = (Run_Complete s, w', Some s)"
      "canary_inv d s" "cy_phase s = CY_ANALYZING" "\<forall>r \<in> set (cy_records s). cr_phase r = CR_CAPTURED"
      "map cr_snapshot (cy_records s) = map (\<lambda>n. Some (snap n)) [0..<36]"
    using canary_capture_run_completes [OF assms(1,2) new, of 36 "nat CANARY_CAPTURE_LIMIT" w] assms(3)
    by (auto simp: canary_constants canary_after_Nil)
  have none: "canary_analyzed_count s = 0"
    using s(4) by (auto simp: canary_analyzed_count_def count_where_def filter_empty_conv)
  have ports: "\<forall>v. \<forall>x \<in> set (map snap [0..<36]). canary_analyzes (cw_clock V v0 + seconds * 1000000000) (cw_env V v) x"
    using assms(6) by auto
  obtain t where t: "canary_drain_loop (nat CANARY_ANALYSIS_LIMIT) d (cw_clock V v0 + seconds * 1000000000) V v0 (Some s) = (None, Some t)"
      "canary_inv d t" "cy_phase t = CY_COMPLETE" "map cr_snapshot (cy_records t) = map Some (map snap [0..<36])"
    using canary_drain_completes [OF assms(1) s(2,3), of 36 "nat CANARY_ANALYSIS_LIMIT" "map snap [0..<36]"
        "cw_clock V v0 + seconds * 1000000000" V v0] ports none s(5)
    by (auto simp: canary_constants comp_def)
  have "canary_load d (Some t) = (Inr t, Some t)" using t(2) by (simp add: canary_load_def canary_inv_def)
  then have "canary_drain_run (nat CANARY_ANALYSIS_LIMIT) d seconds V v0 (Some s) = (Run_Complete t, Some t)"
    using assms(4,5) t(1,3) by (simp add: canary_drain_run_def)
  with s t show ?thesis by (simp add: comp_def)
qed

subsection \<open>A concrete run\<close>

text \<open>A clock that only sleeping moves: after the first slot every call comes early once.\<close>

definition skewed_world :: "int canary_world" where
  "skewed_world = \<lparr>cw_clock = (\<lambda>w. w), cw_env = (\<lambda>w. skewed_env), cw_passed = (\<lambda>w. w), cw_slept = (\<lambda>x w. w + x)\<rparr>"

lemma skewed_serves: "canary_serves demo_canary 0 skewed_world (\<lambda>n. skewed_snapshot (canary_slot_unit demo_canary n))"
proof -
  have later: "canary_requested demo_canary (int n) \<le> canary_requested demo_canary (int n + 1)" for n
    by (simp add: canary_requested_def canary_constants demo_canary_def zdiv_mono1)
  have caps: "canary_captures demo_canary 0 (canary_slot_unit demo_canary n) skewed_env (skewed_snapshot (canary_slot_unit demo_canary n))"
    if "n < 36" for n
    using skewed_due(2) [OF that] that by (simp add: skewed_captures_def skewed_snaps_def)
  have late: "0 \<le> canary_lateness demo_canary" by (simp add: demo_canary_def)
  show ?thesis
    unfolding canary_serves_def
  proof (intro conjI allI impI)
    fix w :: int and n :: nat
    assume "canary_on_time demo_canary (canary_slot_unit demo_canary n) (cw_clock skewed_world w)"
    then show "cw_clock skewed_world (cw_passed skewed_world w) \<le> canary_requested demo_canary (int n + 1) + canary_lateness demo_canary"
      using later [of n] by (simp add: skewed_world_def canary_on_time_def)
  qed (use late caps in \<open>simp_all add: skewed_world_def CANARY_PREFLIGHT_LEAD_NS_def\<close>)
qed

theorem canary_completes_witness:
  "\<exists>s w t. canary_capture_run (nat CANARY_CAPTURE_LIMIT) demo_canary 0 skewed_world 0 (canary_after demo_canary [])
       = (Run_Complete s, w, Some s)
     \<and> canary_drain_run (nat CANARY_ANALYSIS_LIMIT) demo_canary 60 skewed_world (canary_requested demo_canary 100) (Some s)
       = (Run_Complete t, Some t)"
proof -
  have "cw_clock skewed_world 0 \<le> canary_requested demo_canary 0 + canary_lateness demo_canary"
    by (simp add: skewed_world_def canary_requested_def demo_canary_def canary_constants)
  moreover have "\<forall>v. \<forall>n < 36. canary_analyzes (cw_clock skewed_world (canary_requested demo_canary 100) + 60 * 1000000000)
      (cw_env skewed_world v) (skewed_snapshot (canary_slot_unit demo_canary n))"
    by (simp add: canary_analyzes_def skewed_world_def skewed_env_def demo_analyze_def canary_receipt_ok_def
        receipt_recording_ids_def o_def demo_success_def)
  ultimately show ?thesis
    using canary_completes [OF demo_canary_valid skewed_serves, of 0 60 skewed_world "canary_requested demo_canary 100"]
    by auto
qed

end
