(* ===== verification/Sql_Journal.thy ===== *)
theory Sql_Journal
  imports Batch_Codec Campaign_Plan Journal
begin

section \<open>Journals in SQLite\<close>

text \<open>
  The operations \<open>adapters/campaign_sqlite.py\<close>, \<open>adapters/continuous_collection_sqlite.py\<close> and
  \<open>adapters/supercycle_canary_sqlite.py\<close> repeat over their own tables: one row per run with
  the canonical text of the state, replaced under its revision. A table is a map from its
  primary key; each method is one transaction, so a raise inside it leaves the table as it
  was. The clock is an argument. What SQLite itself may raise (a busy or damaged database)
  is not modelled.
\<close>

datatype 'v row_error =
    Row_Document doc_error | Row_Batch batch_doc_error | Row_Value 'v | Row_Campaign campaign_error
  | Row_Too_Long | Row_Not_Canonical | Row_Digest_Differs | Row_Revision_Differs
  | Row_Unit_Differs | Row_Other_Unit | Row_Invalid
  | Not_Stored | Integrity_Failed | Replacement_Invalid | Revision_Lost

type_synonym ('v, 'a) row_result = "('v row_error, 'a) result"

record journal_row =
  jr_digest :: string
  jr_payload :: string
  jr_revision :: int
  jr_updated :: int

type_synonym journal_table = "string \<Rightarrow> journal_row option"

text \<open>\<open>except (KeyError, TypeError, ValueError): raise RuntimeError\<close>\<close>

definition row_integrity :: "('v, 'a) row_result \<Rightarrow> ('v, 'a) row_result" where
  "row_integrity r =
     (case r of
        Inl (ValueError _) \<Rightarrow> Inl (RuntimeError Integrity_Failed)
      | Inl (KeyError _) \<Rightarrow> Inl (RuntimeError Integrity_Failed)
      | Inl (TypeError _) \<Rightarrow> Inl (RuntimeError Integrity_Failed)
      | _ \<Rightarrow> r)"

definition decode_row ::
  "digest \<Rightarrow> (string \<Rightarrow> ('v, 'st) row_result) \<Rightarrow> ('st \<Rightarrow> int) \<Rightarrow> journal_row \<Rightarrow> ('v, 'st) row_result" where
  "decode_row dg decode rv row =
     row_integrity
       (if jr_digest row \<noteq> str_digest dg then Inl (ValueError Row_Digest_Differs)
        else bindE (decode (jr_payload row)) (\<lambda>state.
          if rv state \<noteq> jr_revision row then Inl (ValueError Row_Revision_Differs) else Inr state))"

definition sql_load ::
  "string \<Rightarrow> digest \<Rightarrow> (string \<Rightarrow> ('v, 'st) row_result) \<Rightarrow> ('st \<Rightarrow> int)
     \<Rightarrow> (journal_table, 'v row_error exn, 'st) io" where
  "sql_load key dg decode rv tbl =
     (case tbl key of
        None \<Rightarrow> (Inl (RuntimeError Not_Stored), tbl)
      | Some row \<Rightarrow> (decode_row dg decode rv row, tbl))"

definition sql_initialize ::
  "string \<Rightarrow> digest \<Rightarrow> ('st \<Rightarrow> ('v, string) row_result) \<Rightarrow> (string \<Rightarrow> ('v, 'st) row_result) \<Rightarrow> ('st \<Rightarrow> int)
     \<Rightarrow> 'st \<Rightarrow> int \<Rightarrow> (journal_table, 'v row_error exn, 'st) io" where
  "sql_initialize key dg encode decode rv initial now tbl =
     (case tbl key of
        None \<Rightarrow>
          (case encode initial of
             Inl e \<Rightarrow> (Inl e, tbl)
           | Inr payload \<Rightarrow>
               (Inr initial, tbl(key \<mapsto>
                  \<lparr>jr_digest = str_digest dg, jr_payload = payload, jr_revision = rv initial,
                   jr_updated = now\<rparr>)))
      | Some row \<Rightarrow> (decode_row dg decode rv row, tbl))"

definition sql_cas ::
  "string \<Rightarrow> digest \<Rightarrow> ('st \<Rightarrow> ('v, string) row_result) \<Rightarrow> ('st \<Rightarrow> int) \<Rightarrow> ('st \<Rightarrow> digest) \<Rightarrow> int
     \<Rightarrow> int \<Rightarrow> 'st \<Rightarrow> (journal_table, 'v row_error exn, 'st) io" where
  "sql_cas key dg encode rv digest_of now expected_revision replacement tbl =
     (if digest_of replacement \<noteq> dg \<or> rv replacement \<noteq> expected_revision + 1
      then (Inl (RuntimeError Replacement_Invalid), tbl)
      else
        case encode replacement of
          Inl e \<Rightarrow> (Inl e, tbl)
        | Inr payload \<Rightarrow>
            (case tbl key of
               None \<Rightarrow> (Inl (RuntimeError Revision_Lost), tbl)
             | Some row \<Rightarrow>
                 if jr_digest row = str_digest dg \<and> jr_revision row = expected_revision
                 then (Inr replacement, tbl(key \<mapsto>
                        row\<lparr>jr_payload := payload, jr_revision := rv replacement, jr_updated := now\<rparr>))
                 else (Inl (RuntimeError Revision_Lost), tbl)))"

text \<open>\<open>json.loads\<close> of a document just encoded, and of a stored payload.\<close>

definition row_json :: "string \<Rightarrow> ('v, json) row_result" where
  "row_json text =
     (case json_loads text of Inl e \<Rightarrow> Inl (ValueError (Row_Document (Not_Json e))) | Inr v \<Rightarrow> Inr v)"

text \<open>\<open>None if x is None else f(x)\<close> where \<open>f\<close> may raise.\<close>

fun optionE :: "('a \<Rightarrow> 'x + 'b) \<Rightarrow> 'a option \<Rightarrow> 'x + 'b option" where
  "optionE f None = Inr None"
| "optionE f (Some x) = bindE (f x) (\<lambda>y. Inr (Some y))"

definition snapshot_value :: "batch_snapshot option \<Rightarrow> ('v, json) row_result" where
  "snapshot_value s =
     bindE (optionE (\<lambda>x. row_json (encode_capture_batch_snapshot x)) s) (\<lambda>v.
       Inr (case v of None \<Rightarrow> JNull | Some j \<Rightarrow> j))"

definition receipt_value :: "analysis_receipt option \<Rightarrow> ('v, json) row_result" where
  "receipt_value r =
     bindE (optionE (\<lambda>x. row_json (canonical_json_bytes (json_receipt x))) r) (\<lambda>v.
       Inr (case v of None \<Rightarrow> JNull | Some j \<Rightarrow> j))"

definition read_snapshot_value :: "json \<Rightarrow> ('v, batch_snapshot option) row_result" where
  "read_snapshot_value v =
     (if v = JNull then Inr None
      else bindE (embed_exn Row_Batch (decode_capture_batch_snapshot (canonical_json_bytes v)))
        (\<lambda>s. Inr (Some s)))"

text \<open>The state a row stands for, and two swaps with the same outcome on the journal in memory
  and on the table: equal results and states, or both refused, or the row refused alone
  because the state cannot be encoded.\<close>

definition sql_stored ::
  "string \<Rightarrow> digest \<Rightarrow> (string \<Rightarrow> ('v, 'st) row_result) \<Rightarrow> ('st \<Rightarrow> int) \<Rightarrow> journal_table \<Rightarrow> 'st option" where
  "sql_stored key dg decode rv tbl =
     (case tbl key of None \<Rightarrow> None
      | Some row \<Rightarrow> (case decode_row dg decode rv row of Inl _ \<Rightarrow> None | Inr s \<Rightarrow> Some s))"

definition swaps_alike ::
  "('st \<Rightarrow> ('v, string) row_result) \<Rightarrow> (journal_table \<Rightarrow> 'st option) \<Rightarrow> ('x + 'st) \<times> 'st option
     \<Rightarrow> journal_table \<Rightarrow> ('v row_error exn + 'st) \<times> journal_table \<Rightarrow> bool" where
  "swaps_alike encode stored mem tbl sql \<longleftrightarrow>
     (case (fst mem, fst sql) of
        (Inr z, Inr w) \<Rightarrow> w = z \<and> stored (snd sql) = snd mem
      | (Inl _, Inl _) \<Rightarrow> snd sql = tbl \<and> stored (snd sql) = snd mem
      | (Inr z, Inl e) \<Rightarrow> snd sql = tbl \<and> encode z = Inl e
      | (Inl _, Inr _) \<Rightarrow> False)"

subsection \<open>What a journal needs of its codec\<close>

text \<open>
  If the codec accepts exactly the canonical texts of the storable states, the table is a
  compare-and-swap journal of them: a load after a swap returns the swapped state, a refused
  swap changes nothing, and the rows of other runs are never touched.
\<close>

locale durable_codec =
  fixes key :: string and dg :: digest
    and encode :: "'st \<Rightarrow> ('v, string) row_result" and decode :: "string \<Rightarrow> ('v, 'st) row_result"
    and rv :: "'st \<Rightarrow> int" and digest_of :: "'st \<Rightarrow> digest" and storable :: "'st \<Rightarrow> bool"
  assumes exact: "decode p = Inr s \<longleftrightarrow> storable s \<and> encode s = Inr p"
    and storable_digest: "storable s \<Longrightarrow> digest_of s = dg"
begin

abbreviation stored :: "journal_table \<Rightarrow> 'st option" where
  "stored \<equiv> sql_stored key dg decode rv"

lemma decode_row_Inr:
  "decode_row dg decode rv row = Inr s \<longleftrightarrow>
     jr_digest row = str_digest dg \<and> decode (jr_payload row) = Inr s \<and> rv s = jr_revision row"
  by (auto simp: decode_row_def row_integrity_def bindE_def split: sum.splits exn.splits if_splits)

lemma stored_Some:
  "stored tbl = Some s \<longleftrightarrow> (\<exists>row. tbl key = Some row \<and> jr_digest row = str_digest dg
     \<and> storable s \<and> encode s = Inr (jr_payload row) \<and> jr_revision row = rv s)"
proof -
  have "stored tbl = Some s \<longleftrightarrow> (\<exists>row. tbl key = Some row \<and> decode_row dg decode rv row = Inr s)"
    by (auto simp: sql_stored_def split: option.splits sum.splits)
  then show ?thesis by (auto simp: decode_row_Inr exact)
qed

lemma load_stored: "stored tbl = Some s \<Longrightarrow> sql_load key dg decode rv tbl = (Inr s, tbl)"
  by (auto simp: sql_load_def sql_stored_def split: option.splits sum.splits)

lemma initialize_fresh:
  assumes "tbl key = None" and "storable s" and "encode s = Inr p"
  shows "\<exists>t. sql_initialize key dg encode decode rv s now tbl = (Inr s, t) \<and> stored t = Some s
    \<and> (\<forall>k. k \<noteq> key \<longrightarrow> t k = tbl k)"
  using assms by (auto simp: sql_initialize_def stored_Some)

lemma initialize_stored:
  "stored tbl = Some s \<Longrightarrow> sql_initialize key dg encode decode rv i now tbl = (Inr s, tbl)"
  by (auto simp: sql_initialize_def sql_stored_def split: option.splits sum.splits)

lemma cas_accepted:
  assumes "stored tbl = Some a" and "storable y" and "encode y = Inr p" and "rv y = rv a + 1"
  shows "\<exists>t. sql_cas key dg encode rv digest_of now (rv a) y tbl = (Inr y, t) \<and> stored t = Some y
    \<and> (\<forall>k. k \<noteq> key \<longrightarrow> t k = tbl k)"
proof -
  obtain row where row: "tbl key = Some row" "jr_digest row = str_digest dg" "jr_revision row = rv a"
    using assms(1) by (auto simp: stored_Some)
  let ?t = "tbl(key \<mapsto> row\<lparr>jr_payload := p, jr_revision := rv y, jr_updated := now\<rparr>)"
  have "sql_cas key dg encode rv digest_of now (rv a) y tbl = (Inr y, ?t)"
    using assms row storable_digest by (simp add: sql_cas_def)
  moreover have "stored ?t = Some y" using assms row by (simp add: stored_Some)
  ultimately show ?thesis by auto
qed

lemma cas_refused:
  assumes "stored tbl = Some a" and "rv a \<noteq> r \<or> rv y \<noteq> r + 1 \<or> digest_of y \<noteq> dg \<or> (\<exists>e. encode y = Inl e)"
  shows "\<exists>e. sql_cas key dg encode rv digest_of now r y tbl = (Inl e, tbl)"
  using assms by (auto simp: sql_cas_def stored_Some split: sum.splits)

lemma cas_alike:
  assumes "stored tbl = Some a" and "storable y"
    and mem: "mem = (if rv a = r \<and> rv y = r + 1 then (Inr y, Some y) else (Inl e, Some a))"
  shows "swaps_alike encode stored mem tbl (sql_cas key dg encode rv digest_of now r y tbl)
    \<and> (\<forall>k. k \<noteq> key \<longrightarrow> snd (sql_cas key dg encode rv digest_of now r y tbl) k = tbl k)"
proof (cases "rv a = r \<and> rv y = r + 1")
  case False
  then obtain e' where "sql_cas key dg encode rv digest_of now r y tbl = (Inl e', tbl)"
    using cas_refused [OF assms(1)] by blast
  with False mem assms(1) show ?thesis by (auto simp: swaps_alike_def)
next
  case True
  show ?thesis
  proof (cases "encode y")
    case (Inl e')
    have "digest_of y = dg" using storable_digest assms(2) by simp
    with True Inl have "sql_cas key dg encode rv digest_of now r y tbl = (Inl e', tbl)"
      by (simp add: sql_cas_def)
    with True Inl mem show ?thesis by (auto simp: swaps_alike_def)
  next
    case (Inr p)
    obtain t where "sql_cas key dg encode rv digest_of now (rv a) y tbl = (Inr y, t)"
        "stored t = Some y" "\<forall>k. k \<noteq> key \<longrightarrow> t k = tbl k"
      using cas_accepted [OF assms(1,2) Inr] True by blast
    with True mem show ?thesis by (auto simp: swaps_alike_def)
  qed
qed

end

subsection \<open>Snapshots and receipts inside a payload\<close>

lemma row_json_back: "plain_json v \<Longrightarrow> row_json (canonical_json_bytes v) = Inr (sorted_json v)"
  by (simp add: row_json_def json_loads_def json_read_canonical)

lemma snapshot_value_Inr [simp]: "snapshot_value s = Inr (sorted_json (json_option json_snapshot s))"
  by (cases s) (simp_all add: snapshot_value_def encode_capture_batch_snapshot_def row_json_back)

lemma json_snapshot_object: "json_snapshot s \<noteq> JNull" "sorted_json (json_snapshot s) \<noteq> JNull"
  by (simp_all add: json_snapshot_def document)

lemma read_snapshot_value_back:
  "read_snapshot_value (sorted_json (json_option json_snapshot s)) = Inr s"
  if "\<And>x. s = Some x \<Longrightarrow> built_snapshot x"
  using that decode_snapshot_back json_snapshot_object
  by (cases s) (simp_all add: read_snapshot_value_def encode_capture_batch_snapshot_def)

lemma read_snapshot_value_built:
  "read_snapshot_value v = Inr (Some s) \<Longrightarrow> built_snapshot s"
  by (auto simp: read_snapshot_value_def dest: decode_snapshot_built split: if_splits)

subsection \<open>Analyses whose constructors ran\<close>

definition built_success :: "analysis_success \<Rightarrow> bool" where
  "built_success a \<longleftrightarrow> valid_id RecordingId (as_recording_id a) \<and> valid_id JobId (as_job_id a)
     \<and> artifact_ref_post_init (result_ref a) = Inr () \<and> built_digest (ar_digest (result_ref a))
     \<and> (\<forall>x. ar_schema (result_ref a) = Some x \<longrightarrow> built_schema x) \<and> projection_work_id a \<noteq> []
     \<and> valid_id FeatureSetId (feature_set_id (projected_feature_set a))
     \<and> valid_id AnalysisRunId (fs_analysis_run_id (projected_feature_set a))
     \<and> built_object (bundle_ref (projected_feature_set a))
     \<and> analysis_success_post_init a = Inr ()"

text \<open>The annotation \<open>tuple[CampaignAnalysisSuccess, CampaignAnalysisSuccess]\<close> gives the length.\<close>

definition built_receipt :: "analysis_receipt \<Rightarrow> bool" where
  "built_receipt r \<longleftrightarrow> valid_id CaptureBatchId (rc_batch_id r) \<and> length (successes r) = 2
     \<and> list_all built_success (successes r) \<and> analysis_receipt_post_init r = Inr ()"

lemma artifact_nonempty: "artifact_ref_post_init a = Inr () \<Longrightarrow> artifact_id a \<noteq> []"
  by (auto simp: artifact_ref_post_init_def is_token_def)

lemma plain_receipt [simp]: "plain_json (json_receipt r)"
proof -
  have "plain_json (json_success a)" for a
    by (simp add: json_success_def json_artifact_ref_def json_feature_set_ref_def json_object_ref_def)
  then show ?thesis by (simp add: json_receipt_def)
qed

lemma receipt_value_Inr [simp]: "receipt_value r = Inr (sorted_json (json_option json_receipt r))"
  by (cases r) (simp_all add: receipt_value_def row_json_back)

subsection \<open>How long a text can be\<close>

lemma length_escape_char: "length (escape_char c) \<le> 6"
  by (simp add: escape_char_def hex4_def Let_def)

lemma length_dump_str: "length (dump_str s) \<le> 6 * length s + 2"
proof -
  have "length (concat (map escape_char s)) \<le> 6 * length s"
    by (induction s) (use length_escape_char in \<open>auto intro: add_mono\<close>)
  then show ?thesis by (simp add: dump_str_def)
qed

lemma length_canonical_digest: "length (str_digest (canonical_digest v)) \<le> 71"
  using sha256_hex_shape
  by (simp add: str_digest_def canonical_digest_def digest_sha256_def)

end
