(* ===== verification/Campaign_Rows.thy ===== *)
theory Campaign_Rows
  imports Sql_Journal Campaign
begin

section \<open>The campaign journal in SQLite\<close>

text \<open>
  \<open>adapters/campaign_sqlite.py\<close>: the canonical payload of a campaign state, its strict
  decoder, which rebuilds every unit from the definition, and the journal over them.
\<close>

definition MAX_CAMPAIGN_STATE_BYTES :: nat where
  "MAX_CAMPAIGN_STATE_BYTES = 16 * 1024 * 1024"

subsection \<open>Readers\<close>

definition row_mapping :: "json \<Rightarrow> fields doc" where
  "row_mapping = as_object (ValueError Not_An_Object)"

definition row_string :: "json \<Rightarrow> string doc" where
  "row_string = as_nonempty (ValueError Not_A_String)"

definition row_integer :: "json \<Rightarrow> int doc" where
  "row_integer = as_integer (TypeError Not_An_Integer)"

definition row_digest :: "json \<Rightarrow> digest doc" where
  "row_digest v = bindE (as_text (TypeError Not_A_String) v) read_digest_text"

definition row_structured_digest :: "json \<Rightarrow> digest doc" where
  "row_structured_digest = read_digest_fields row_mapping row_string"

definition row_schema :: "json \<Rightarrow> schema_ref doc" where
  "row_schema = read_schema row_mapping row_string row_integer"

definition row_object_ref :: "json \<Rightarrow> object_ref doc" where
  "row_object_ref = read_object_ref row_mapping row_string row_integer"

text \<open>\<open>_string(value[k])\<close>, \<open>_integer(value[k])\<close> and \<open>cls(_string(value[k]))\<close>.\<close>

definition row_text :: "string \<Rightarrow> fields \<Rightarrow> string doc" where
  "row_text k item = bindE (member k item) row_string"

definition row_number :: "string \<Rightarrow> fields \<Rightarrow> int doc" where
  "row_number k item = bindE (member k item) row_integer"

definition row_id :: "id_kind \<Rightarrow> string \<Rightarrow> fields \<Rightarrow> string doc" where
  "row_id kind k item = bindE (row_text k item) (read_id kind)"

definition row_artifact :: "fields \<Rightarrow> schema_ref option \<Rightarrow> artifact_ref doc" where
  "row_artifact item schema =
     bindE (row_text ''artifact_id'' item) (\<lambda>name.
     bindE (bindE (member ''digest'' item) row_structured_digest) (\<lambda>d.
       embed_exn Document_Core (checked artifact_ref_post_init
         \<lparr>artifact_id = name, ar_digest = d, ar_schema = schema\<rparr>)))"

definition row_feature :: "fields \<Rightarrow> feature_set_ref doc" where
  "row_feature item =
     bindE (row_id FeatureSetId ''feature_set_id'' item) (\<lambda>fset.
     bindE (row_id AnalysisRunId ''analysis_run_id'' item) (\<lambda>run.
     bindE (bindE (member ''bundle_ref'' item) row_object_ref) (\<lambda>bundle.
       Inr \<lparr>feature_set_id = fset, fs_analysis_run_id = run, bundle_ref = bundle\<rparr>)))"

definition row_analysis_success :: "json \<Rightarrow> ('v, analysis_success) row_result" where
  "row_analysis_success v =
     bindE (embed_exn Row_Document
       (bindE (row_mapping v) (\<lambda>item.
        bindE (expect_fields [''recording_id'', ''analysis_job_id'', ''result_ref'', ''projection_work_id'',
          ''projected_feature_set_ref'', ''projected_utc_ns''] item) (\<lambda>_.
        bindE (bindE (member ''result_ref'' item) row_mapping) (\<lambda>result.
        bindE (expect_fields [''artifact_id'', ''digest'', ''schema''] result) (\<lambda>_.
        bindE (bindE (member ''projected_feature_set_ref'' item) row_mapping) (\<lambda>feature.
        bindE (expect_fields [''feature_set_id'', ''analysis_run_id'', ''bundle_ref''] feature) (\<lambda>_.
        bindE (bindE (member ''schema'' result) (optional row_schema)) (\<lambda>schema.
        bindE (row_id RecordingId ''recording_id'' item) (\<lambda>recording.
        bindE (row_id JobId ''analysis_job_id'' item) (\<lambda>job.
        bindE (row_artifact result schema) (\<lambda>artifact.
        bindE (row_text ''projection_work_id'' item) (\<lambda>work.
        bindE (row_feature feature) (\<lambda>fset.
        bindE (row_number ''projected_utc_ns'' item) (\<lambda>projected.
          Inr \<lparr>as_recording_id = recording, as_job_id = job, result_ref = artifact,
               projection_work_id = work, projected_feature_set = fset,
               projected_utc_ns = projected\<rparr>)))))))))))))))
       (\<lambda>a. embed_exn Row_Campaign (checked analysis_success_post_init a))"

definition row_analysis_receipt :: "json \<Rightarrow> ('v, analysis_receipt) row_result" where
  "row_analysis_receipt v =
     bindE (embed_exn Row_Document (row_mapping v)) (\<lambda>item.
     bindE (embed_exn Row_Document (expect_fields [''batch_id'', ''successes'', ''completed_utc_ns''] item)) (\<lambda>_.
     bindE (embed_exn Row_Document (bindE (member ''successes'' item) (as_list (ValueError Not_An_Array)))) (\<lambda>values.
     if length values \<noteq> 2 then Inl (ValueError (Row_Document Wrong_Length))
     else
       bindE (mapE row_analysis_success values) (\<lambda>succs.
       bindE (embed_exn Row_Document (row_id CaptureBatchId ''batch_id'' item)) (\<lambda>batch.
       bindE (embed_exn Row_Document (row_number ''completed_utc_ns'' item)) (\<lambda>completed.
         embed_exn Row_Campaign (checked analysis_receipt_post_init
           \<lparr>rc_batch_id = batch, successes = [succs ! 0, succs ! 1],
            rc_completed_utc_ns = completed\<rparr>)))))))"

definition read_receipt_value ::
  "(json \<Rightarrow> ('v, analysis_receipt) row_result) \<Rightarrow> json \<Rightarrow> ('v, analysis_receipt option) row_result" where
  "read_receipt_value f v = (if v = JNull then Inr None else bindE (f v) (\<lambda>r. Inr (Some r)))"

subsection \<open>The state\<close>

fun unit_phase_value :: "unit_phase \<Rightarrow> string" where
  "unit_phase_value PLANNED = ''planned''"
| "unit_phase_value CAPTURED = ''captured''"
| "unit_phase_value TERMINAL_FAILED = ''terminal_failed''"
| "unit_phase_value ANALYSIS_FAILED = ''analysis_failed''"
| "unit_phase_value COMPLETE = ''complete''"

definition read_unit_phase :: "json \<Rightarrow> unit_phase doc" where
  "read_unit_phase v =
     (case find (\<lambda>p. v = JStr (unit_phase_value p))
        [PLANNED, CAPTURED, TERMINAL_FAILED, ANALYSIS_FAILED, COMPLETE] of
        None \<Rightarrow> Inl (ValueError Unknown_Member) | Some p \<Rightarrow> Inr p)"

definition campaign_record_document :: "unit_record \<Rightarrow> ('v, json) row_result" where
  "campaign_record_document r =
     bindE (snapshot_value (ur_snapshot r)) (\<lambda>snapshot.
     bindE (receipt_value (ur_receipt r)) (\<lambda>receipt.
       Inr (JObj
         [(''success_index'', JInt (success_index (ur_unit r))),
          (''slot_index'', JInt (slot_index (ur_unit r))),
          (''retry_index'', JInt (retry_index (ur_unit r))),
          (''requested_start_utc_ns'', JInt (requested_start (ur_unit r))),
          (''unit_digest'', JStr (str_digest (unit_digest (ur_unit r)))),
          (''phase'', JStr (unit_phase_value (phase r))),
          (''capture_invocations'', JInt (capture_invocations r)),
          (''analysis_invocations'', JInt (analysis_invocations r)),
          (''snapshot'', snapshot),
          (''analysis_receipt'', receipt)])))"

definition encode_campaign_state :: "campaign_state \<Rightarrow> ('v, string) row_result" where
  "encode_campaign_state s =
     bindE (mapE campaign_record_document (cs_records s)) (\<lambda>records.
     let payload = canonical_json_bytes (JObj
           [(''definition_digest'', JStr (str_digest (cs_digest s))),
            (''revision'', JInt (cs_revision s)), (''records'', JList records)])
     in if length payload > MAX_CAMPAIGN_STATE_BYTES then Inl (RuntimeError Row_Too_Long)
        else Inr payload)"

text \<open>One record: its six integers, the unit rebuilt from the definition, the evidence.\<close>

definition decode_campaign_record ::
  "campaign_definition \<Rightarrow> json \<Rightarrow> ('v, unit_record) row_result" where
  "decode_campaign_record d v =
     bindE (embed_exn Row_Document (row_mapping v)) (\<lambda>item.
     bindE (embed_exn Row_Document (expect_fields
       [''success_index'', ''slot_index'', ''retry_index'', ''requested_start_utc_ns'', ''unit_digest'',
        ''phase'', ''capture_invocations'', ''analysis_invocations'', ''snapshot'', ''analysis_receipt'']
       item)) (\<lambda>_.
     bindE (embed_exn Row_Document (mapE (\<lambda>k. bindE (member k item) (as_integer (ValueError Not_An_Integer)))
       [''success_index'', ''slot_index'', ''retry_index'', ''requested_start_utc_ns'',
        ''capture_invocations'', ''analysis_invocations''])) (\<lambda>n.
     bindE (embed_exn Row_Campaign (build_campaign_unit d (n ! 0) (n ! 1) (n ! 2) (n ! 3))) (\<lambda>u.
     bindE (embed_exn Row_Document (member ''unit_digest'' item)) (\<lambda>dg.
     if dg \<noteq> JStr (str_digest (unit_digest u)) then Inl (ValueError Row_Unit_Differs)
     else
       bindE (bindE (embed_exn Row_Document (member ''snapshot'' item)) read_snapshot_value) (\<lambda>snapshot.
       if \<exists>x \<in> set_option snapshot. bs_definition x \<noteq> unit_batch u then Inl (ValueError Row_Other_Unit)
       else
         bindE (bindE (embed_exn Row_Document (member ''analysis_receipt'' item))
           (read_receipt_value row_analysis_receipt)) (\<lambda>receipt.
         if \<exists>x \<in> set_option receipt. rc_batch_id x \<noteq> bd_batch_id (unit_batch u)
         then Inl (ValueError Row_Other_Unit)
         else
           bindE (embed_exn Row_Document (bindE (member ''phase'' item) read_unit_phase)) (\<lambda>ph.
             Inr \<lparr>ur_unit = u, phase = ph, capture_invocations = n ! 4, analysis_invocations = n ! 5,
                  ur_snapshot = snapshot, ur_receipt = receipt\<rparr>))))))))"

definition decode_campaign_state ::
  "campaign_definition \<Rightarrow> string \<Rightarrow> ('v, campaign_state) row_result" where
  "decode_campaign_state d payload =
     (if length payload > MAX_CAMPAIGN_STATE_BYTES then Inl (ValueError Row_Too_Long)
      else
        bindE (bindE (row_json payload) (\<lambda>v. embed_exn Row_Document (row_mapping v))) (\<lambda>root.
        bindE (embed_exn Row_Document (expect_fields [''definition_digest'', ''revision'', ''records''] root)) (\<lambda>_.
        bindE (embed_exn Row_Document (bindE (member ''definition_digest'' root) row_digest)) (\<lambda>dg.
        if dg \<noteq> campaign_digest d then Inl (ValueError Row_Digest_Differs)
        else
          bindE (embed_exn Row_Document (bindE (member ''revision'' root) (as_integer (ValueError Not_An_Integer)))) (\<lambda>revision.
          if revision < 0 then Inl (ValueError Row_Invalid)
          else
            bindE (embed_exn Row_Document (bindE (member ''records'' root) (as_list (ValueError Not_An_Array)))) (\<lambda>values.
            bindE (mapE (decode_campaign_record d) values) (\<lambda>records.
            let state = \<lparr>cs_digest = dg, cs_records = records, cs_revision = revision\<rparr> in
            bindE (encode_campaign_state state) (\<lambda>text.
              if text \<noteq> payload then Inl (ValueError Row_Not_Canonical) else Inr state))))))))"

subsection \<open>The journal\<close>

type_synonym campaign_row_result = "(unit, campaign_state) row_result"
type_synonym ('a) campaign_sql = "(journal_table, unit row_error exn, 'a) io"

definition campaign_sql_initialize :: "campaign_definition \<Rightarrow> int \<Rightarrow> campaign_state campaign_sql" where
  "campaign_sql_initialize d now =
     sql_initialize (campaign_id d) (campaign_digest d) encode_campaign_state (decode_campaign_state d) cs_revision
       \<lparr>cs_digest = campaign_digest d, cs_records = [], cs_revision = 0\<rparr> now"

definition campaign_sql_load :: "campaign_definition \<Rightarrow> campaign_state campaign_sql" where
  "campaign_sql_load d =
     sql_load (campaign_id d) (campaign_digest d) (decode_campaign_state d) cs_revision"

definition campaign_sql_cas ::
  "campaign_definition \<Rightarrow> int \<Rightarrow> int \<Rightarrow> campaign_state \<Rightarrow> campaign_state campaign_sql" where
  "campaign_sql_cas d now expected_revision replacement =
     sql_cas (campaign_id d) (campaign_digest d) encode_campaign_state cs_revision cs_digest now
       expected_revision replacement"

subsection \<open>Storable states\<close>

definition built_evidence :: "campaign_unit \<Rightarrow> batch_snapshot option \<Rightarrow> analysis_receipt option \<Rightarrow> bool" where
  "built_evidence u s r \<longleftrightarrow>
     (\<forall>x. s = Some x \<longrightarrow> built_snapshot x \<and> bs_definition x = unit_batch u)
     \<and> (\<forall>x. r = Some x \<longrightarrow> built_receipt x \<and> rc_batch_id x = bd_batch_id (unit_batch u))"

definition rebuilt_unit :: "campaign_definition \<Rightarrow> campaign_unit \<Rightarrow> bool" where
  "rebuilt_unit d u \<longleftrightarrow>
     build_campaign_unit d (success_index u) (slot_index u) (retry_index u) (requested_start u) = Inr u"

definition storable_campaign :: "campaign_definition \<Rightarrow> campaign_state \<Rightarrow> bool" where
  "storable_campaign d s \<longleftrightarrow> cs_digest s = campaign_digest d \<and> 0 \<le> cs_revision s
     \<and> list_all (\<lambda>r. rebuilt_unit d (ur_unit r) \<and> built_evidence (ur_unit r) (ur_snapshot r) (ur_receipt r))
         (cs_records s)"

lemma built_unit_indices:
  "build_campaign_unit d a b c t = Inr u \<Longrightarrow>
     success_index u = a \<and> slot_index u = b \<and> retry_index u = c \<and> requested_start u = t"
  by (auto simp: build_campaign_unit_def Let_def)

lemma rebuilt_unitI: "build_campaign_unit d a b c t = Inr u \<Longrightarrow> rebuilt_unit d u"
  by (auto simp: rebuilt_unit_def dest: built_unit_indices)

subsection \<open>Reading back\<close>

interpretation campaign_row: document_readers row_mapping row_string row_integer
  by unfold_locales (simp_all add: row_mapping_def row_string_def row_integer_def reads)

lemma row_id_back:
  "member key item = Inr (JStr s) \<Longrightarrow> valid_id k s \<Longrightarrow> row_id k key item = Inr s"
  using valid_id_nonempty [of k s] by (simp add: row_id_def row_text_def campaign_row.str_accepts)

lemmas campaign_reads = campaign_row.obj_accepts campaign_row.str_accepts campaign_row.num_accepts
  campaign_row.digest_back campaign_row.schema_back campaign_row.object_back member_sorted
  row_text_def row_number_def row_id_back row_structured_digest_def row_schema_def row_object_ref_def
  checked_okI

lemma row_schema_back:
  "(\<And>x. s = Some x \<Longrightarrow> built_schema x) \<Longrightarrow>
     optional row_schema (sorted_json (json_option json_schema_ref s)) = Inr s"
  by (rule optional_json) (simp_all add: campaign_reads, simp add: json_schema_ref_def document)

lemma row_success_back:
  assumes "built_success a"
  shows "row_analysis_success (sorted_json (json_success a)) = Inr a"
proof -
  obtain r j art w f t where a: "a = \<lparr>as_recording_id = r, as_job_id = j, result_ref = art,
      projection_work_id = w, projected_feature_set = f, projected_utc_ns = t\<rparr>" by (cases a)
  have s: "optional row_schema (sorted_json (json_option json_schema_ref (ar_schema art))) = Inr (ar_schema art)"
    using assms a by (intro row_schema_back) (simp add: built_success_def)
  have n: "artifact_id art \<noteq> []" using assms a artifact_nonempty by (simp add: built_success_def)
  show ?thesis
    using assms s n unfolding a built_success_def
    by (cases art; cases f) (simp add: row_analysis_success_def json_success_def json_artifact_ref_def
      json_feature_set_ref_def row_artifact_def row_feature_def document campaign_reads)
qed

lemma row_receipt_back:
  assumes "built_receipt r"
  shows "row_analysis_receipt (sorted_json (json_receipt r)) = Inr r"
proof -
  obtain a b where ab: "successes r = [a, b]" "built_success a" "built_success b"
    using assms by (auto simp: built_receipt_def length_two)
  show ?thesis
    using assms ab unfolding built_receipt_def
    by (cases r) (simp add: row_analysis_receipt_def json_receipt_def document campaign_reads row_success_back)
qed

lemma read_receipt_value_back:
  "read_receipt_value row_analysis_receipt (sorted_json (json_option json_receipt r)) = Inr r"
  if "\<And>x. r = Some x \<Longrightarrow> built_receipt x"
proof -
  have "sorted_json (json_receipt x) \<noteq> JNull" for x by (simp add: json_receipt_def document)
  then show ?thesis using that by (cases r) (simp_all add: read_receipt_value_def row_receipt_back)
qed

lemma unit_phase_back [simp]: "read_unit_phase (JStr (unit_phase_value p)) = Inr p"
  by (cases p) (simp_all add: read_unit_phase_def)

definition campaign_record_json :: "unit_record \<Rightarrow> json" where
  "campaign_record_json r = JObj
     [(''success_index'', JInt (success_index (ur_unit r))),
      (''slot_index'', JInt (slot_index (ur_unit r))),
      (''retry_index'', JInt (retry_index (ur_unit r))),
      (''requested_start_utc_ns'', JInt (requested_start (ur_unit r))),
      (''unit_digest'', JStr (str_digest (unit_digest (ur_unit r)))),
      (''phase'', JStr (unit_phase_value (phase r))),
      (''capture_invocations'', JInt (capture_invocations r)),
      (''analysis_invocations'', JInt (analysis_invocations r)),
      (''snapshot'', sorted_json (json_option json_snapshot (ur_snapshot r))),
      (''analysis_receipt'', sorted_json (json_option json_receipt (ur_receipt r)))]"

definition campaign_state_json :: "campaign_state \<Rightarrow> json" where
  "campaign_state_json s = JObj
     [(''definition_digest'', JStr (str_digest (cs_digest s))), (''revision'', JInt (cs_revision s)),
      (''records'', JList (map campaign_record_json (cs_records s)))]"

lemma campaign_records_document:
  "mapE campaign_record_document rs = Inr (map campaign_record_json rs)"
  by (rule mapE_eq_map) (simp add: campaign_record_document_def campaign_record_json_def)

lemma encode_campaign_state_Inr:
  "encode_campaign_state s =
     (if length (canonical_json_bytes (campaign_state_json s)) > MAX_CAMPAIGN_STATE_BYTES
      then Inl (RuntimeError Row_Too_Long) else Inr (canonical_json_bytes (campaign_state_json s)))"
  by (simp add: encode_campaign_state_def campaign_state_json_def campaign_records_document Let_def)

lemma plain_campaign_state: "plain_json (campaign_state_json s)"
  by (simp add: campaign_state_json_def campaign_record_json_def)

lemma decode_campaign_record_back:
  assumes "rebuilt_unit d (ur_unit r)" and "built_evidence (ur_unit r) (ur_snapshot r) (ur_receipt r)"
  shows "decode_campaign_record d (sorted_json (campaign_record_json r)) = Inr r"
proof -
  have s: "read_snapshot_value (sorted_json (json_option json_snapshot (ur_snapshot r))) = Inr (ur_snapshot r)"
    using assms(2) by (intro read_snapshot_value_back) (simp add: built_evidence_def)
  have rc: "read_receipt_value row_analysis_receipt (sorted_json (json_option json_receipt (ur_receipt r)))
      = Inr (ur_receipt r)"
    using assms(2) by (intro read_receipt_value_back) (simp add: built_evidence_def)
  have o: "\<not> (\<exists>x \<in> set_option (ur_snapshot r). bs_definition x \<noteq> unit_batch (ur_unit r))"
    "\<not> (\<exists>x \<in> set_option (ur_receipt r). rc_batch_id x \<noteq> bd_batch_id (unit_batch (ur_unit r)))"
    using assms(2) by (auto simp: built_evidence_def)
  have u: "build_campaign_unit d (success_index (ur_unit r)) (slot_index (ur_unit r)) (retry_index (ur_unit r))
      (requested_start (ur_unit r)) = Inr (ur_unit r)"
    using assms(1) by (simp add: rebuilt_unit_def)
  show ?thesis
    using s rc o u unfolding decode_campaign_record_def campaign_record_json_def
    by (cases r) (simp add: document campaign_reads reads)
qed

lemma campaign_records_back:
  assumes "storable_campaign d s"
  shows "mapE (decode_campaign_record d) (map sorted_json (map campaign_record_json (cs_records s))) = Inr (cs_records s)"
  using assms
  by (intro mapE_back decode_campaign_record_back) (auto simp: storable_campaign_def list_all_iff)

lemma decode_campaign_back:
  assumes "storable_campaign d s" and "encode_campaign_state s = (Inr p :: ('v, string) row_result)"
  shows "decode_campaign_state d p = (Inr s :: ('v, campaign_state) row_result)"
proof -
  have p: "p = canonical_json_bytes (campaign_state_json s)" "\<not> length p > MAX_CAMPAIGN_STATE_BYTES"
    using assms(2) by (auto simp: encode_campaign_state_Inr split: if_splits)
  have recs: "mapE (decode_campaign_record d) (map sorted_json (map campaign_record_json (cs_records s)))
      = (Inr (cs_records s) :: ('v, unit_record list) row_result)"
    by (rule campaign_records_back [OF assms(1)])
  have dg: "read_digest_text (str_digest (campaign_digest d)) = Inr (campaign_digest d)"
    unfolding campaign_digest_def by (rule digest_text_back) (rule canonical_digest_built)
  have json: "row_json p = Inr (sorted_json (campaign_state_json s))"
    unfolding p(1) by (rule row_json_back) (rule plain_campaign_state)
  show ?thesis
    using assms p(2) recs dg unfolding decode_campaign_state_def json bindE_simps storable_campaign_def
    by (cases s) (simp add: campaign_state_json_def document campaign_reads reads row_digest_def Let_def)
qed

lemma row_id_valid: "row_id k key item = Inr s \<Longrightarrow> valid_id k s"
  by (auto simp: row_id_def)

lemma row_text_nonempty: "row_text k item = Inr s \<Longrightarrow> s \<noteq> []"
  by (auto simp: row_text_def row_string_def reads_Inr)

lemma row_success_built: "row_analysis_success v = Inr a \<Longrightarrow> built_success a"
  by (auto simp: row_analysis_success_def built_success_def row_artifact_def row_feature_def optional_def
      row_structured_digest_def row_schema_def row_object_ref_def
      dest: row_id_valid row_text_nonempty read_digest_fields_built read_schema_built read_object_ref_built
      split: if_splits)

lemma row_successes_built:
  "mapE row_analysis_success vs = (Inr as :: ('v, analysis_success list) row_result) \<Longrightarrow> list_all built_success as"
  by (induction vs arbitrary: as) (auto dest: row_success_built)

lemma row_receipt_built:
  assumes "row_analysis_receipt v = (Inr r :: ('v, analysis_receipt) row_result)"
  shows "built_receipt r"
proof -
  obtain vs as where "length vs = 2"
      "mapE row_analysis_success vs = (Inr as :: ('v, analysis_success list) row_result)"
      and r: "successes r = [as ! 0, as ! 1]" "valid_id CaptureBatchId (rc_batch_id r)"
        "analysis_receipt_post_init r = Inr ()"
    using assms by (auto simp: row_analysis_receipt_def dest: row_id_valid split: if_splits)
  then have "length as = 2" "list_all built_success as"
    using row_successes_built by (metis mapE_Inr list_all2_lengthD, blast)
  then show ?thesis using r by (auto simp: built_receipt_def length_two)
qed

lemma read_receipt_value_built:
  "read_receipt_value row_analysis_receipt v = Inr (Some r) \<Longrightarrow> built_receipt r"
  by (auto simp: read_receipt_value_def dest: row_receipt_built split: if_splits)

lemma decode_campaign_record_built:
  assumes "decode_campaign_record d v = Inr r"
  shows "rebuilt_unit d (ur_unit r) \<and> built_evidence (ur_unit r) (ur_snapshot r) (ur_receipt r)"
  using assms
  by (auto simp: decode_campaign_record_def built_evidence_def
      dest: rebuilt_unitI read_snapshot_value_built read_receipt_value_built split: if_splits)

lemma decode_campaign_built:
  assumes "decode_campaign_state d p = (Inr s :: ('v, campaign_state) row_result)"
  shows "storable_campaign d s \<and> encode_campaign_state s = (Inr p :: ('v, string) row_result)"
proof -
  have recs: "list_all (\<lambda>r. rebuilt_unit d (ur_unit r) \<and> built_evidence (ur_unit r) (ur_snapshot r) (ur_receipt r)) rs"
    if "mapE (decode_campaign_record d) vs = (Inr rs :: ('v, unit_record list) row_result)" for vs rs
    using that by (induction vs arbitrary: rs) (auto dest: decode_campaign_record_built)
  show ?thesis
    using assms
    by (auto simp: decode_campaign_state_def storable_campaign_def Let_def dest: recs split: if_splits)
qed

lemma decode_campaign_exact:
  "decode_campaign_state d p = (Inr s :: ('v, campaign_state) row_result)
     \<longleftrightarrow> storable_campaign d s \<and> encode_campaign_state s = (Inr p :: ('v, string) row_result)"
  using decode_campaign_back decode_campaign_built by blast

interpretation campaign_row_codec: durable_codec "campaign_id d" "campaign_digest d" encode_campaign_state
    "decode_campaign_state d :: string \<Rightarrow> campaign_row_result" cs_revision cs_digest "storable_campaign d"
  for d
  by unfold_locales (rule decode_campaign_exact, simp add: storable_campaign_def)

definition campaign_row_state :: "campaign_definition \<Rightarrow> journal_table \<Rightarrow> campaign_state option" where
  "campaign_row_state d =
     sql_stored (campaign_id d) (campaign_digest d)
       (decode_campaign_state d :: string \<Rightarrow> campaign_row_result) cs_revision"

lemma campaign_fresh_encoded:
  assumes "length (str_int r) \<le> 20"
  shows "\<exists>p. encode_campaign_state \<lparr>cs_digest = campaign_digest d, cs_records = [], cs_revision = r\<rparr>
     = (Inr p :: ('v, string) row_result)"
proof -
  have "length (dump_str (str_digest (campaign_digest d))) \<le> 428"
    using length_dump_str [of "str_digest (campaign_digest d)"] length_canonical_digest [of "campaign_document d"]
    unfolding campaign_digest_def by linarith
  then show ?thesis
    using assms length_dump_str [of "''definition_digest''"] length_dump_str [of "''records''"]
      length_dump_str [of "''revision''"]
    by (simp add: encode_campaign_state_Inr campaign_state_json_def MAX_CAMPAIGN_STATE_BYTES_def
      canonical_json_bytes_def sort_key_def insort_key_def)
qed

lemma campaign_cas_outcome:
  assumes "cs_digest a = campaign_digest d" and "cs_digest y = campaign_digest d"
  shows "\<exists>e. campaign_cas d r y (Some a) =
    (if cs_revision a = r \<and> cs_revision y = r + 1 then (Inr y, Some y) else (Inl e, Some a))"
  using assms by (auto simp: campaign_cas_def campaign_load_def bind_io_def)

lemma campaign_initialize_rows:
  assumes "tbl (campaign_id d) = None"
  shows "let (res, t) = campaign_sql_initialize d now tbl; (mem, j) = campaign_initialize d None
    in \<exists>x. res = Inr x \<and> mem = Inr x \<and> j = Some x \<and> campaign_row_state d t = Some x"
proof -
  let ?x = "\<lparr>cs_digest = campaign_digest d, cs_records = [], cs_revision = 0\<rparr>"
  obtain p where "encode_campaign_state ?x = (Inr p :: (unit, string) row_result)"
    using campaign_fresh_encoded [of 0 d] by (auto simp: str_int_def dec.simps)
  moreover have "storable_campaign d ?x" by (simp add: storable_campaign_def)
  ultimately show ?thesis
    using assms campaign_row_codec.initialize_fresh [of tbl d ?x p now]
    by (auto simp: campaign_sql_initialize_def campaign_row_state_def campaign_initialize_def campaign_load_def)
qed

text \<open>
  C19. The campaign journal in SQLite refines the journal in memory: over a table whose row for
  this campaign stands for a state, \<open>load\<close> returns that state and \<open>compare_and_swap\<close> of a state
  the decoder can rebuild has the outcome of the journal in memory. Either both store the
  replacement, and the new row stands for it, or both refuse and nothing changes, or the row
  alone refuses because the payload would be too long, and then the table is as it was. The
  rows of other campaigns are never touched, and an empty row is initialized like an empty
  journal.
\<close>

theorem campaign_sql_refines:
  assumes "campaign_row_state d tbl = Some a" and "storable_campaign d y"
  shows "campaign_sql_load d tbl = (Inr a, tbl) \<and> campaign_load d (Some a) = (Inr a, Some a)
    \<and> swaps_alike encode_campaign_state (campaign_row_state d)
        (campaign_cas d r y (Some a)) tbl (campaign_sql_cas d now r y tbl)
    \<and> (\<forall>k. k \<noteq> campaign_id d \<longrightarrow> snd (campaign_sql_cas d now r y tbl) k = tbl k)
    \<and> (let (res, t) = campaign_sql_initialize d now (tbl(campaign_id d := None));
            (mem, j) = campaign_initialize d None
        in \<exists>x. res = Inr x \<and> mem = Inr x \<and> j = Some x \<and> campaign_row_state d t = Some x)"
proof -
  have a: "storable_campaign d a"
    using assms(1) unfolding campaign_row_state_def campaign_row_codec.stored_Some by blast
  then obtain e where mem: "campaign_cas d r y (Some a) =
      (if cs_revision a = r \<and> cs_revision y = r + 1 then (Inr y, Some y) else (Inl e, Some a))"
    using campaign_cas_outcome assms(2) unfolding storable_campaign_def by meson
  have "campaign_sql_load d tbl = (Inr a, tbl)"
    unfolding campaign_sql_load_def
    by (rule campaign_row_codec.load_stored) (use assms(1) in \<open>simp add: campaign_row_state_def\<close>)
  moreover have "campaign_load d (Some a) = (Inr a, Some a)"
    using a by (simp add: campaign_load_def storable_campaign_def)
  moreover note campaign_row_codec.cas_alike [OF assms(1) [unfolded campaign_row_state_def] assms(2) mem, of now]
    campaign_initialize_rows [of "tbl(campaign_id d := None)" d now]
  ultimately show ?thesis
    by (simp add: campaign_sql_cas_def campaign_row_state_def)
qed

theorem campaign_sql_refines_witness:
  "\<exists>tbl x. campaign_sql_initialize demo_campaign 7 Map.empty = (Inr x, tbl)
     \<and> campaign_sql_load demo_campaign tbl = (Inr x, tbl)"
proof -
  obtain x tbl where x: "campaign_sql_initialize demo_campaign 7 Map.empty = (Inr x, tbl)"
      "campaign_row_state demo_campaign tbl = Some x"
    using campaign_initialize_rows [of Map.empty demo_campaign 7] by (auto simp: Let_def split: prod.splits)
  then have "storable_campaign demo_campaign x"
    unfolding campaign_row_state_def campaign_row_codec.stored_Some by blast
  with campaign_sql_refines [OF x(2)] x(1) show ?thesis by blast
qed

end
