(* ===== verification/Collection_Rows.thy ===== *)
theory Collection_Rows
  imports Campaign_Rows Continuous
begin

section \<open>The collection journal in SQLite\<close>

text \<open>
  \<open>adapters/continuous_collection_sqlite.py\<close>: the canonical payload of a collection, its strict
  decoder and the journal over them. The readers \<open>_mapping\<close>, \<open>_string\<close>, \<open>_integer\<close>,
  \<open>_structured_digest\<close>, \<open>_schema\<close> and \<open>_object_ref\<close> are those of \<open>Campaign_Rows\<close> word for word.
\<close>

definition MAX_CONTINUOUS_COLLECTION_STATE_BYTES :: nat where
  "MAX_CONTINUOUS_COLLECTION_STATE_BYTES = 16 * 1024 * 1024"

subsection \<open>Readers\<close>

definition collection_row_digest :: "json \<Rightarrow> digest doc" where
  "collection_row_digest v = bindE (row_string v) read_digest_text"

definition collection_row_success :: "json \<Rightarrow> ('v, analysis_success) row_result" where
  "collection_row_success v =
     bindE (embed_exn Row_Document
       (bindE (row_mapping v) (\<lambda>item.
        bindE (expect_fields [''recording_id'', ''analysis_job_id'', ''result_ref'', ''projection_work_id'',
          ''projected_feature_set_ref'', ''projected_utc_ns''] item) (\<lambda>_.
        bindE (bindE (member ''result_ref'' item) row_mapping) (\<lambda>result.
        bindE (bindE (member ''projected_feature_set_ref'' item) row_mapping) (\<lambda>feature.
        bindE (expect_fields [''artifact_id'', ''digest'', ''schema''] result) (\<lambda>_.
        bindE (expect_fields [''feature_set_id'', ''analysis_run_id'', ''bundle_ref''] feature) (\<lambda>_.
        bindE (row_id RecordingId ''recording_id'' item) (\<lambda>recording.
        bindE (row_id JobId ''analysis_job_id'' item) (\<lambda>job.
        bindE (bindE (member ''schema'' result) (optional row_schema)) (\<lambda>schema.
        bindE (row_artifact result schema) (\<lambda>artifact.
        bindE (row_text ''projection_work_id'' item) (\<lambda>work.
        bindE (row_feature feature) (\<lambda>fset.
        bindE (row_number ''projected_utc_ns'' item) (\<lambda>projected.
          Inr \<lparr>as_recording_id = recording, as_job_id = job, result_ref = artifact,
               projection_work_id = work, projected_feature_set = fset,
               projected_utc_ns = projected\<rparr>)))))))))))))))
       (\<lambda>a. embed_exn Row_Campaign (checked analysis_success_post_init a))"

definition collection_row_receipt :: "json \<Rightarrow> ('v, analysis_receipt) row_result" where
  "collection_row_receipt v =
     bindE (embed_exn Row_Document (row_mapping v)) (\<lambda>item.
     bindE (embed_exn Row_Document (expect_fields [''batch_id'', ''successes'', ''completed_utc_ns''] item)) (\<lambda>_.
     bindE (embed_exn Row_Document (bindE (member ''successes'' item) (as_list (ValueError Not_An_Array)))) (\<lambda>values.
     if length values \<noteq> 2 then Inl (ValueError (Row_Document Wrong_Length))
     else
       bindE (mapE collection_row_success values) (\<lambda>succs.
       bindE (embed_exn Row_Document (row_id CaptureBatchId ''batch_id'' item)) (\<lambda>batch.
       bindE (embed_exn Row_Document (row_number ''completed_utc_ns'' item)) (\<lambda>completed.
         embed_exn Row_Campaign (checked analysis_receipt_post_init
           \<lparr>rc_batch_id = batch, successes = [succs ! 0, succs ! 1],
            rc_completed_utc_ns = completed\<rparr>)))))))"

subsection \<open>The state\<close>

fun record_phase_value :: "record_phase \<Rightarrow> string" where
  "record_phase_value REC_PLANNED = ''planned''"
| "record_phase_value REC_ABANDONED = ''abandoned''"
| "record_phase_value REC_CAPTURED = ''captured''"
| "record_phase_value REC_TERMINAL_FAILED = ''terminal_failed''"
| "record_phase_value REC_ANALYSIS_FAILED = ''analysis_failed''"
| "record_phase_value REC_COMPLETE = ''complete''"

fun collection_phase_value :: "collection_phase \<Rightarrow> string" where
  "collection_phase_value CAPTURING = ''capturing''"
| "collection_phase_value ANALYZING = ''analyzing''"
| "collection_phase_value COLLECTION_COMPLETE = ''complete''"
| "collection_phase_value HALTED = ''halted''"

fun halt_reason_value :: "halt_reason \<Rightarrow> string" where
  "halt_reason_value INTEGRITY_FAILURE = ''integrity_failure''"
| "halt_reason_value HALT_UNCERTAIN = ''capture_uncertain''"
| "halt_reason_value HALT_MISSED_SLOT = ''missed_slot''"
| "halt_reason_value HALT_WINDOW_ENDED = ''window_ended''"
| "halt_reason_value HALT_ANALYSIS = ''analysis_failed''"

text \<open>\<open>SomeEnum(_string(value))\<close> over the members in their order.\<close>

definition row_member :: "('m \<Rightarrow> string) \<Rightarrow> 'm list \<Rightarrow> json \<Rightarrow> 'm doc" where
  "row_member name members v =
     bindE (row_string v) (\<lambda>s.
       case find (\<lambda>m. name m = s) members of
         None \<Rightarrow> Inl (ValueError Unknown_Member) | Some m \<Rightarrow> Inr m)"

definition read_record_phase :: "json \<Rightarrow> record_phase doc" where
  "read_record_phase = row_member record_phase_value
     [REC_PLANNED, REC_ABANDONED, REC_CAPTURED, REC_TERMINAL_FAILED, REC_ANALYSIS_FAILED, REC_COMPLETE]"

definition read_collection_phase :: "json \<Rightarrow> collection_phase doc" where
  "read_collection_phase = row_member collection_phase_value
     [CAPTURING, ANALYZING, COLLECTION_COMPLETE, HALTED]"

definition read_halt_reason :: "json \<Rightarrow> halt_reason doc" where
  "read_halt_reason = row_member halt_reason_value
     [INTEGRITY_FAILURE, HALT_UNCERTAIN, HALT_MISSED_SLOT, HALT_WINDOW_ENDED, HALT_ANALYSIS]"

definition collection_record_document :: "collection_record \<Rightarrow> ('v, json) row_result" where
  "collection_record_document r =
     bindE (snapshot_value (co_snapshot r)) (\<lambda>snapshot.
     bindE (receipt_value (co_receipt r)) (\<lambda>receipt.
       Inr (JObj
         [(''success_index'', JInt (success_index (co_unit r))),
          (''slot_index'', JInt (slot_index (co_unit r))),
          (''retry_index'', JInt (retry_index (co_unit r))),
          (''requested_start_utc_ns'', JInt (requested_start (co_unit r))),
          (''unit_digest'', JStr (str_digest (unit_digest (co_unit r)))),
          (''phase'', JStr (record_phase_value (co_phase r))),
          (''capture_invocations'', JInt (co_captures r)),
          (''analysis_invocations'', JInt (co_analyses r)),
          (''snapshot'', snapshot),
          (''analysis_receipt'', receipt)])))"

definition encode_collection_state :: "collection_state \<Rightarrow> ('v, string) row_result" where
  "encode_collection_state s =
     bindE (mapE collection_record_document (co_records s)) (\<lambda>records.
     let payload = canonical_json_bytes (JObj
           [(''definition_digest'', JStr (str_digest (co_digest s))),
            (''phase'', JStr (collection_phase_value (collection_phase s))),
            (''halt_reason'', json_option (\<lambda>r. JStr (halt_reason_value r)) (halt_reason s)),
            (''revision'', JInt (co_revision s)), (''records'', JList records)])
     in if length payload > MAX_CONTINUOUS_COLLECTION_STATE_BYTES then Inl (RuntimeError Row_Too_Long)
        else Inr payload)"

type_synonym 'a collection_row_result = "(collection_error, 'a) row_result"

definition decode_collection_record ::
  "campaign_definition \<Rightarrow> json \<Rightarrow> collection_record collection_row_result" where
  "decode_collection_record d v =
     bindE (embed_exn Row_Document (row_mapping v)) (\<lambda>item.
     bindE (embed_exn Row_Document (expect_fields
       [''success_index'', ''slot_index'', ''retry_index'', ''requested_start_utc_ns'', ''unit_digest'',
        ''phase'', ''capture_invocations'', ''analysis_invocations'', ''snapshot'', ''analysis_receipt'']
       item)) (\<lambda>_.
     bindE (embed_exn Row_Document (mapE (\<lambda>k. row_number k item)
       [''success_index'', ''slot_index'', ''retry_index'', ''requested_start_utc_ns''])) (\<lambda>n.
     bindE (embed_exn Row_Campaign (build_campaign_unit d (n ! 0) (n ! 1) (n ! 2) (n ! 3))) (\<lambda>u.
     bindE (embed_exn Row_Document (member ''unit_digest'' item)) (\<lambda>dg.
     if dg \<noteq> JStr (str_digest (unit_digest u)) then Inl (ValueError Row_Unit_Differs)
     else
       bindE (bindE (embed_exn Row_Document (member ''snapshot'' item)) read_snapshot_value) (\<lambda>snapshot.
       if \<exists>x \<in> set_option snapshot. bs_definition x \<noteq> unit_batch u then Inl (ValueError Row_Other_Unit)
       else
         bindE (bindE (embed_exn Row_Document (member ''analysis_receipt'' item))
           (read_receipt_value collection_row_receipt)) (\<lambda>receipt.
         if \<exists>x \<in> set_option receipt. rc_batch_id x \<noteq> bd_batch_id (unit_batch u)
         then Inl (ValueError Row_Other_Unit)
         else
           bindE (embed_exn Row_Document (row_number ''capture_invocations'' item)) (\<lambda>captures.
           bindE (embed_exn Row_Document (row_number ''analysis_invocations'' item)) (\<lambda>analyses.
           if captures < 0 \<or> analyses < 0 then Inl (ValueError Row_Invalid)
           else
             bindE (embed_exn Row_Document (bindE (member ''phase'' item) read_record_phase)) (\<lambda>ph.
               embed_exn Row_Value (checked collection_record_post_init
                 \<lparr>co_unit = u, co_phase = ph, co_captures = captures, co_analyses = analyses,
                  co_snapshot = snapshot, co_receipt = receipt\<rparr>)))))))))))"

definition decode_collection_state ::
  "campaign_definition \<Rightarrow> string \<Rightarrow> collection_state collection_row_result" where
  "decode_collection_state d payload =
     (if length payload > MAX_CONTINUOUS_COLLECTION_STATE_BYTES then Inl (ValueError Row_Too_Long)
      else
        bindE (bindE (row_json payload) (\<lambda>v. embed_exn Row_Document (row_mapping v))) (\<lambda>root.
        bindE (embed_exn Row_Document (expect_fields
          [''definition_digest'', ''phase'', ''halt_reason'', ''revision'', ''records''] root)) (\<lambda>_.
        bindE (embed_exn Row_Document (bindE (member ''definition_digest'' root) collection_row_digest)) (\<lambda>dg.
        bindE (embed_exn Row_Document (row_number ''revision'' root)) (\<lambda>revision.
        if dg \<noteq> campaign_digest d \<or> revision < 0 then Inl (ValueError Row_Invalid)
        else
          bindE (embed_exn Row_Document (bindE (member ''records'' root) (as_list (ValueError Not_An_Array)))) (\<lambda>values.
          bindE (mapE (decode_collection_record d) values) (\<lambda>records.
          bindE (embed_exn Row_Document (member ''halt_reason'' root)) (\<lambda>reason_value.
          bindE (embed_exn Row_Document (bindE (member ''phase'' root) read_collection_phase)) (\<lambda>ph.
          bindE (embed_exn Row_Document (optional read_halt_reason reason_value)) (\<lambda>reason.
          bindE (embed_exn Row_Value (checked collection_state_post_init
            \<lparr>co_digest = dg, collection_phase = ph, co_records = records, halt_reason = reason,
             co_revision = revision\<rparr>)) (\<lambda>state.
          bindE (encode_collection_state state) (\<lambda>text.
            if text \<noteq> payload then Inl (ValueError Row_Not_Canonical) else Inr state))))))))))))"

subsection \<open>The journal\<close>

type_synonym 'a collection_sql = "(journal_table, collection_error row_error exn, 'a) io"

definition collection_sql_initialize :: "campaign_definition \<Rightarrow> int \<Rightarrow> collection_state collection_sql" where
  "collection_sql_initialize d now =
     sql_initialize (campaign_id d) (campaign_digest d) encode_collection_state (decode_collection_state d)
       co_revision (new_collection (campaign_digest d)) now"

definition collection_sql_load :: "campaign_definition \<Rightarrow> collection_state collection_sql" where
  "collection_sql_load d =
     sql_load (campaign_id d) (campaign_digest d) (decode_collection_state d) co_revision"

definition collection_sql_cas ::
  "campaign_definition \<Rightarrow> int \<Rightarrow> int \<Rightarrow> collection_state \<Rightarrow> collection_state collection_sql" where
  "collection_sql_cas d now expected_revision replacement =
     sql_cas (campaign_id d) (campaign_digest d) encode_collection_state co_revision co_digest now
       expected_revision replacement"

definition storable_collection :: "campaign_definition \<Rightarrow> collection_state \<Rightarrow> bool" where
  "storable_collection d s \<longleftrightarrow> co_digest s = campaign_digest d \<and> collection_state_post_init s = Inr ()
     \<and> list_all (\<lambda>r. rebuilt_unit d (co_unit r) \<and> built_evidence (co_unit r) (co_snapshot r) (co_receipt r)
          \<and> collection_record_post_init r = Inr ()) (co_records s)"

subsection \<open>Reading back\<close>

text \<open>The readers of an analysis accept what those of the campaign journal accept.\<close>

lemma collection_success_agrees:
  "collection_row_success v = (Inr a :: ('v, analysis_success) row_result)
     \<longleftrightarrow> row_analysis_success v = (Inr a :: ('v, analysis_success) row_result)"
  by (auto simp: collection_row_success_def row_analysis_success_def)

lemma collection_receipt_agrees:
  "collection_row_receipt v = (Inr r :: ('v, analysis_receipt) row_result)
     \<longleftrightarrow> row_analysis_receipt v = (Inr r :: ('v, analysis_receipt) row_result)"
  by (simp add: collection_row_receipt_def row_analysis_receipt_def mapE_Inr collection_success_agrees)

lemma read_collection_receipt_agrees:
  "read_receipt_value collection_row_receipt v = (Inr r :: ('v, analysis_receipt option) row_result)
     \<longleftrightarrow> read_receipt_value row_analysis_receipt v = (Inr r :: ('v, analysis_receipt option) row_result)"
  by (simp add: read_receipt_value_def collection_receipt_agrees)

lemma row_member_back: "find (\<lambda>x. name x = name m) ms = Some m \<Longrightarrow> name m \<noteq> [] \<Longrightarrow> row_member name ms (JStr (name m)) = Inr m"
  by (simp add: row_member_def campaign_row.str_accepts)

lemma record_phase_back [simp]: "read_record_phase (JStr (record_phase_value p)) = Inr p"
  unfolding read_record_phase_def by (rule row_member_back) (cases p; simp)+

lemma collection_phase_back [simp]: "read_collection_phase (JStr (collection_phase_value p)) = Inr p"
  unfolding read_collection_phase_def by (rule row_member_back) (cases p; simp)+

lemma halt_value_back [simp]: "read_halt_reason (JStr (halt_reason_value h)) = Inr h"
  unfolding read_halt_reason_def by (rule row_member_back) (cases h; simp)+

lemma halt_reason_back:
  "optional read_halt_reason (sorted_json (json_option (\<lambda>r. JStr (halt_reason_value r)) h)) = Inr h"
  by (rule optional_json) simp_all

definition collection_record_json :: "collection_record \<Rightarrow> json" where
  "collection_record_json r = JObj
     [(''success_index'', JInt (success_index (co_unit r))),
      (''slot_index'', JInt (slot_index (co_unit r))),
      (''retry_index'', JInt (retry_index (co_unit r))),
      (''requested_start_utc_ns'', JInt (requested_start (co_unit r))),
      (''unit_digest'', JStr (str_digest (unit_digest (co_unit r)))),
      (''phase'', JStr (record_phase_value (co_phase r))),
      (''capture_invocations'', JInt (co_captures r)),
      (''analysis_invocations'', JInt (co_analyses r)),
      (''snapshot'', sorted_json (json_option json_snapshot (co_snapshot r))),
      (''analysis_receipt'', sorted_json (json_option json_receipt (co_receipt r)))]"

definition collection_state_json :: "collection_state \<Rightarrow> json" where
  "collection_state_json s = JObj
     [(''definition_digest'', JStr (str_digest (co_digest s))),
      (''phase'', JStr (collection_phase_value (collection_phase s))),
      (''halt_reason'', json_option (\<lambda>r. JStr (halt_reason_value r)) (halt_reason s)),
      (''revision'', JInt (co_revision s)), (''records'', JList (map collection_record_json (co_records s)))]"

lemma collection_records_document:
  "mapE collection_record_document rs = Inr (map collection_record_json rs)"
  by (rule mapE_eq_map) (simp add: collection_record_document_def collection_record_json_def)

lemma encode_collection_state_Inr:
  "encode_collection_state s =
     (if length (canonical_json_bytes (collection_state_json s)) > MAX_CONTINUOUS_COLLECTION_STATE_BYTES
      then Inl (RuntimeError Row_Too_Long) else Inr (canonical_json_bytes (collection_state_json s)))"
  by (simp add: encode_collection_state_def collection_state_json_def collection_records_document Let_def)

lemma plain_collection_state: "plain_json (collection_state_json s)"
  by (simp add: collection_state_json_def collection_record_json_def)

lemma decode_collection_record_back:
  assumes "rebuilt_unit d (co_unit r)" and "built_evidence (co_unit r) (co_snapshot r) (co_receipt r)"
    and ok: "collection_record_post_init r = Inr ()"
  shows "decode_collection_record d (sorted_json (collection_record_json r)) = Inr r"
proof -
  have s: "read_snapshot_value (sorted_json (json_option json_snapshot (co_snapshot r))) = Inr (co_snapshot r)"
    using assms(2) by (intro read_snapshot_value_back) (simp add: built_evidence_def)
  have rc: "read_receipt_value collection_row_receipt (sorted_json (json_option json_receipt (co_receipt r)))
      = Inr (co_receipt r)"
    unfolding read_collection_receipt_agrees
    using assms(2) by (intro read_receipt_value_back) (simp add: built_evidence_def)
  have o: "\<not> (\<exists>x \<in> set_option (co_snapshot r). bs_definition x \<noteq> unit_batch (co_unit r))"
    "\<not> (\<exists>x \<in> set_option (co_receipt r). rc_batch_id x \<noteq> bd_batch_id (unit_batch (co_unit r)))"
    using assms(2) by (auto simp: built_evidence_def)
  have u: "build_campaign_unit d (success_index (co_unit r)) (slot_index (co_unit r)) (retry_index (co_unit r))
      (requested_start (co_unit r)) = Inr (co_unit r)"
    using assms(1) by (simp add: rebuilt_unit_def)
  have n: "\<not> (co_captures r < 0 \<or> co_analyses r < 0)"
    using ok by (auto simp: collection_record_post_init_def split: if_splits)
  show ?thesis
    using s rc o u n ok unfolding decode_collection_record_def collection_record_json_def
    by (cases r) (simp add: document campaign_reads reads)
qed

lemma decode_collection_back:
  assumes "storable_collection d s" and "encode_collection_state s = (Inr p :: string collection_row_result)"
  shows "decode_collection_state d p = Inr s"
proof -
  have p: "p = canonical_json_bytes (collection_state_json s)"
      "\<not> length p > MAX_CONTINUOUS_COLLECTION_STATE_BYTES"
    using assms(2) by (auto simp: encode_collection_state_Inr split: if_splits)
  have recs: "mapE (decode_collection_record d) (map sorted_json (map collection_record_json (co_records s)))
      = Inr (co_records s)"
    using assms(1)
    by (intro mapE_back decode_collection_record_back) (auto simp: storable_collection_def list_all_iff)
  have dg: "read_digest_text (str_digest (campaign_digest d)) = Inr (campaign_digest d)"
      "str_digest (campaign_digest d) \<noteq> []"
    unfolding campaign_digest_def by (rule digest_text_back, rule canonical_digest_built) (simp add: str_digest_def)
  have json: "row_json p = Inr (sorted_json (collection_state_json s))"
    unfolding p(1) by (rule row_json_back) (rule plain_collection_state)
  have n: "\<not> co_revision s < 0"
    using assms(1) by (auto simp: storable_collection_def collection_state_post_init_def split: if_splits)
  show ?thesis
    using assms p(2) recs dg n halt_reason_back
    unfolding decode_collection_state_def json bindE_simps storable_collection_def
    by (cases s) (simp add: collection_state_json_def document campaign_reads reads collection_row_digest_def)
qed

lemma decode_collection_record_built:
  assumes "decode_collection_record d v = Inr r"
  shows "rebuilt_unit d (co_unit r) \<and> built_evidence (co_unit r) (co_snapshot r) (co_receipt r)
    \<and> collection_record_post_init r = Inr ()"
  using assms
  by (auto simp: decode_collection_record_def built_evidence_def read_collection_receipt_agrees
      dest: rebuilt_unitI read_snapshot_value_built read_receipt_value_built split: if_splits)

lemma decode_collection_built:
  assumes "decode_collection_state d p = Inr s"
  shows "storable_collection d s \<and> encode_collection_state s = (Inr p :: string collection_row_result)"
proof -
  have recs: "list_all (\<lambda>r. rebuilt_unit d (co_unit r) \<and> built_evidence (co_unit r) (co_snapshot r) (co_receipt r)
      \<and> collection_record_post_init r = Inr ()) rs"
    if "mapE (decode_collection_record d) vs = Inr rs" for vs rs
    using that by (induction vs arbitrary: rs) (auto dest: decode_collection_record_built)
  show ?thesis
    using assms
    by (auto simp: decode_collection_state_def storable_collection_def dest: recs split: if_splits)
qed

interpretation collection_row_codec: durable_codec "campaign_id d" "campaign_digest d"
    "encode_collection_state :: collection_state \<Rightarrow> string collection_row_result"
    "decode_collection_state d" co_revision co_digest "storable_collection d"
  for d
  by unfold_locales
    (use decode_collection_back decode_collection_built in blast, simp add: storable_collection_def)

definition collection_row_state :: "campaign_definition \<Rightarrow> journal_table \<Rightarrow> collection_state option" where
  "collection_row_state d =
     sql_stored (campaign_id d) (campaign_digest d) (decode_collection_state d) co_revision"

lemma new_collection_encoded:
  "\<exists>p. encode_collection_state (new_collection (campaign_digest d)) = (Inr p :: string collection_row_result)"
proof -
  have dg: "length (dump_str (str_digest (campaign_digest d))) \<le> 428"
    using length_dump_str [of "str_digest (campaign_digest d)"] length_canonical_digest [of "campaign_document d"]
    unfolding campaign_digest_def by linarith
  have names: "length (dump_str ''definition_digest'') \<le> 104" "length (dump_str ''phase'') \<le> 32"
    "length (dump_str ''halt_reason'') \<le> 68" "length (dump_str ''revision'') \<le> 50"
    "length (dump_str ''records'') \<le> 44" "length (dump_str ''capturing'') \<le> 56"
    by (rule order_trans [OF length_dump_str], simp)+
  show ?thesis
    using dg names
    by (simp add: new_collection_def encode_collection_state_Inr collection_state_json_def
      MAX_CONTINUOUS_COLLECTION_STATE_BYTES_def canonical_json_bytes_def sort_key_def insort_key_def
      str_int_def dec.simps)
qed

lemma collection_cas_outcome:
  assumes "co_digest a = campaign_digest d" and "co_digest y = campaign_digest d"
  shows "\<exists>e. collection_cas d r y (Some a) =
    (if co_revision a = r \<and> co_revision y = r + 1 then (Inr y, Some y) else (Inl e, Some a))"
  using assms by (auto simp: collection_cas_def collection_load_def bind_io_def)

lemma collection_initialize_rows:
  assumes "tbl (campaign_id d) = None"
  shows "let (res, t) = collection_sql_initialize d now tbl; (mem, j) = collection_initialize d None
    in \<exists>x. res = Inr x \<and> mem = Inr x \<and> j = Some x \<and> collection_row_state d t = Some x"
proof -
  let ?x = "new_collection (campaign_digest d)"
  obtain p where "encode_collection_state ?x = (Inr p :: string collection_row_result)"
    using new_collection_encoded [of d] by auto
  moreover have "storable_collection d ?x"
    by (simp add: storable_collection_def new_collection_def collection_state_post_init_def
        campaign_constants)
  ultimately show ?thesis
    using assms collection_row_codec.initialize_fresh [of tbl d ?x p now]
    by (auto simp: collection_sql_initialize_def collection_row_state_def collection_initialize_def
      collection_load_def new_collection_def)
qed

text \<open>
  C20. The collection journal in SQLite refines the journal in memory, as the campaign journal
  does: over a row that stands for a collection, \<open>load\<close> returns it and \<open>compare_and_swap\<close> of any
  collection whose construction checks pass and whose units, snapshots and receipts belong to
  the campaign has the outcome of the journal in memory, or refuses alone because the payload
  would exceed 16 MiB and changes nothing. A row that decodes to a collection holds exactly its
  canonical payload, and other rows are never touched.
\<close>

theorem collection_sql_refines:
  assumes "collection_row_state d tbl = Some a" and "storable_collection d y"
  shows "collection_sql_load d tbl = (Inr a, tbl) \<and> collection_load d (Some a) = (Inr a, Some a)
    \<and> swaps_alike encode_collection_state (collection_row_state d)
        (collection_cas d r y (Some a)) tbl (collection_sql_cas d now r y tbl)
    \<and> (\<forall>k. k \<noteq> campaign_id d \<longrightarrow> snd (collection_sql_cas d now r y tbl) k = tbl k)
    \<and> map_option (\<lambda>row. Inr (jr_payload row)) (tbl (campaign_id d)) = Some (encode_collection_state a :: string collection_row_result)
    \<and> (let (res, t) = collection_sql_initialize d now (tbl(campaign_id d := None));
            (mem, j) = collection_initialize d None
        in \<exists>x. res = Inr x \<and> mem = Inr x \<and> j = Some x \<and> collection_row_state d t = Some x)"
proof -
  have a: "storable_collection d a"
      "map_option (\<lambda>row. Inr (jr_payload row)) (tbl (campaign_id d)) = Some (encode_collection_state a :: string collection_row_result)"
    using assms(1) unfolding collection_row_state_def collection_row_codec.stored_Some by auto
  then obtain e where mem: "collection_cas d r y (Some a) =
      (if co_revision a = r \<and> co_revision y = r + 1 then (Inr y, Some y) else (Inl e, Some a))"
    using collection_cas_outcome assms(2) unfolding storable_collection_def by meson
  have "collection_sql_load d tbl = (Inr a, tbl)"
    unfolding collection_sql_load_def
    by (rule collection_row_codec.load_stored) (use assms(1) in \<open>simp add: collection_row_state_def\<close>)
  moreover have "collection_load d (Some a) = (Inr a, Some a)"
    using a by (simp add: collection_load_def storable_collection_def)
  moreover note a(2) collection_row_codec.cas_alike [OF assms(1) [unfolded collection_row_state_def] assms(2) mem, of now]
    collection_initialize_rows [of "tbl(campaign_id d := None)" d now]
  ultimately show ?thesis
    by (simp add: collection_sql_cas_def collection_row_state_def)
qed

theorem collection_sql_refines_witness:
  "\<exists>tbl x. collection_sql_initialize demo_campaign 7 Map.empty = (Inr x, tbl)
     \<and> collection_sql_load demo_campaign tbl = (Inr x, tbl)"
proof -
  obtain x tbl where x: "collection_sql_initialize demo_campaign 7 Map.empty = (Inr x, tbl)"
      "collection_row_state demo_campaign tbl = Some x"
    using collection_initialize_rows [of Map.empty demo_campaign 7] by (auto simp: Let_def split: prod.splits)
  then have "storable_collection demo_campaign x"
    unfolding collection_row_state_def collection_row_codec.stored_Some by blast
  with collection_sql_refines [OF x(2)] x(1) show ?thesis by blast
qed

end
