(* ===== verification/Canary_Rows.thy ===== *)
theory Canary_Rows
  imports Sql_Journal Canary
begin

section \<open>The canary journal in SQLite\<close>

text \<open>
  \<open>adapters/supercycle_canary_sqlite.py\<close>: the canonical payload of a canary state, its decoder
  and the journal over them. The readers here raise \<open>TypeError\<close> and leave superfluous fields of
  the nested references to the comparison with the canonical payload at the end.
\<close>

definition MAX_CANARY_STATE_BYTES :: nat where
  "MAX_CANARY_STATE_BYTES = 1024 * 1024"

subsection \<open>Readers\<close>

definition canary_mapping :: "json \<Rightarrow> fields doc" where
  "canary_mapping = as_object (TypeError Not_An_Object)"

definition canary_string :: "json \<Rightarrow> string doc" where
  "canary_string = as_nonempty (TypeError Not_A_String)"

definition canary_integer :: "json \<Rightarrow> int doc" where
  "canary_integer = as_integer (TypeError Not_An_Integer)"

definition canary_text :: "string \<Rightarrow> fields \<Rightarrow> string doc" where
  "canary_text k item = bindE (member k item) canary_string"

definition canary_number :: "string \<Rightarrow> fields \<Rightarrow> int doc" where
  "canary_number k item = bindE (member k item) canary_integer"

definition canary_ident :: "id_kind \<Rightarrow> string \<Rightarrow> fields \<Rightarrow> string doc" where
  "canary_ident kind k item = bindE (canary_text k item) (read_id kind)"

definition canary_row_digest :: "json \<Rightarrow> digest doc" where
  "canary_row_digest v = bindE (canary_string v) read_digest_text"

definition canary_structured_digest :: "json \<Rightarrow> digest doc" where
  "canary_structured_digest v =
     bindE (canary_mapping v) (\<lambda>item.
     bindE (canary_text ''algorithm'' item) (\<lambda>a.
     bindE (read_algorithm a) (\<lambda>a.
     bindE (canary_text ''value'' item) (make_digest a))))"

definition canary_schema :: "json \<Rightarrow> schema_ref doc" where
  "canary_schema v =
     bindE (canary_mapping v) (\<lambda>item.
     bindE (bindE (member ''version'' item) canary_mapping) (\<lambda>ver.
     bindE (canary_text ''schema_id'' item) (\<lambda>name.
     bindE (canary_number ''major'' ver) (\<lambda>i.
     bindE (canary_number ''minor'' ver) (\<lambda>j.
     bindE (embed_exn Document_Core (checked schema_version_post_init (SchemaVersion i j))) (\<lambda>w.
       embed_exn Document_Core (checked schema_ref_post_init \<lparr>schema_id = name, version = w\<rparr>)))))))"

definition canary_object_ref :: "json \<Rightarrow> object_ref doc" where
  "canary_object_ref v =
     bindE (canary_mapping v) (\<lambda>item.
     bindE (bindE (member ''digest'' item) canary_structured_digest) (\<lambda>d.
     bindE (canary_number ''byte_count'' item) (\<lambda>n.
     bindE (canary_text ''media_type'' item) (\<lambda>m.
     bindE (canary_text ''format_id'' item) (\<lambda>f.
     bindE (canary_text ''locator'' item) (\<lambda>l.
       embed_exn Document_Core (checked object_ref_post_init
         \<lparr>obj_digest = d, byte_count = n, media_type = m, format_id = f, locator = l\<rparr>)))))))"

definition canary_artifact :: "fields \<Rightarrow> json \<Rightarrow> artifact_ref doc" where
  "canary_artifact item schema_value =
     bindE (canary_text ''artifact_id'' item) (\<lambda>name.
     bindE (bindE (member ''digest'' item) canary_structured_digest) (\<lambda>d.
     bindE (optional canary_schema schema_value) (\<lambda>schema.
       embed_exn Document_Core (checked artifact_ref_post_init
         \<lparr>artifact_id = name, ar_digest = d, ar_schema = schema\<rparr>))))"

definition canary_feature :: "fields \<Rightarrow> feature_set_ref doc" where
  "canary_feature item =
     bindE (canary_ident FeatureSetId ''feature_set_id'' item) (\<lambda>fset.
     bindE (canary_ident AnalysisRunId ''analysis_run_id'' item) (\<lambda>run.
     bindE (bindE (member ''bundle_ref'' item) canary_object_ref) (\<lambda>bundle.
       Inr \<lparr>feature_set_id = fset, fs_analysis_run_id = run, bundle_ref = bundle\<rparr>)))"

definition canary_row_success :: "json \<Rightarrow> ('v, analysis_success) row_result" where
  "canary_row_success v =
     bindE (embed_exn Row_Document
       (bindE (canary_mapping v) (\<lambda>item.
        bindE (expect_fields [''recording_id'', ''analysis_job_id'', ''result_ref'', ''projection_work_id'',
          ''projected_feature_set_ref'', ''projected_utc_ns''] item) (\<lambda>_.
        bindE (bindE (member ''result_ref'' item) canary_mapping) (\<lambda>artifact.
        bindE (bindE (member ''projected_feature_set_ref'' item) canary_mapping) (\<lambda>feature.
        bindE (member ''schema'' artifact) (\<lambda>schema_value.
        bindE (canary_ident RecordingId ''recording_id'' item) (\<lambda>recording.
        bindE (canary_ident JobId ''analysis_job_id'' item) (\<lambda>job.
        bindE (canary_artifact artifact schema_value) (\<lambda>artifact.
        bindE (canary_text ''projection_work_id'' item) (\<lambda>work.
        bindE (canary_feature feature) (\<lambda>fset.
        bindE (canary_number ''projected_utc_ns'' item) (\<lambda>projected.
          Inr \<lparr>as_recording_id = recording, as_job_id = job, result_ref = artifact,
               projection_work_id = work, projected_feature_set = fset,
               projected_utc_ns = projected\<rparr>)))))))))))))
       (\<lambda>a. embed_exn Row_Campaign (checked analysis_success_post_init a))"

definition canary_row_receipt :: "json \<Rightarrow> ('v, analysis_receipt) row_result" where
  "canary_row_receipt v =
     bindE (embed_exn Row_Document (canary_mapping v)) (\<lambda>item.
     bindE (embed_exn Row_Document (expect_fields [''batch_id'', ''successes'', ''completed_utc_ns''] item)) (\<lambda>_.
     bindE (embed_exn Row_Document (bindE (member ''successes'' item) (as_list (ValueError Not_An_Array)))) (\<lambda>values.
     if length values \<noteq> 2 then Inl (ValueError (Row_Document Wrong_Length))
     else
       bindE (mapE canary_row_success values) (\<lambda>succs.
       bindE (embed_exn Row_Document (canary_ident CaptureBatchId ''batch_id'' item)) (\<lambda>batch.
       bindE (embed_exn Row_Document (canary_number ''completed_utc_ns'' item)) (\<lambda>completed.
         embed_exn Row_Campaign (checked analysis_receipt_post_init
           \<lparr>rc_batch_id = batch, successes = [succs ! 0, succs ! 1],
            rc_completed_utc_ns = completed\<rparr>)))))))"

subsection \<open>The state\<close>

fun canary_record_phase_value :: "canary_record_phase \<Rightarrow> string" where
  "canary_record_phase_value CR_PLANNED = ''planned''"
| "canary_record_phase_value CAPTURE_INVOKED = ''capture_invoked''"
| "canary_record_phase_value CR_CAPTURED = ''captured''"
| "canary_record_phase_value CR_COMPLETE = ''complete''"

fun canary_phase_value :: "canary_phase \<Rightarrow> string" where
  "canary_phase_value CY_CAPTURING = ''capturing''"
| "canary_phase_value CY_ANALYZING = ''analyzing''"
| "canary_phase_value CY_COMPLETE = ''complete''"
| "canary_phase_value CY_HALTED = ''halted''"

fun canary_halt_value :: "canary_halt \<Rightarrow> string" where
  "canary_halt_value CY_MISSED_SLOT = ''missed_slot''"
| "canary_halt_value CY_UNCERTAIN = ''capture_uncertain''"
| "canary_halt_value CY_INTEGRITY_FAILURE = ''integrity_failure''"
| "canary_halt_value CY_ANALYSIS_FAILURE = ''analysis_failure''"

definition canary_member :: "('m \<Rightarrow> string) \<Rightarrow> 'm list \<Rightarrow> json \<Rightarrow> 'm doc" where
  "canary_member name members v =
     bindE (canary_string v) (\<lambda>s.
       case find (\<lambda>m. name m = s) members of
         None \<Rightarrow> Inl (ValueError Unknown_Member) | Some m \<Rightarrow> Inr m)"

definition read_canary_record_phase :: "json \<Rightarrow> canary_record_phase doc" where
  "read_canary_record_phase = canary_member canary_record_phase_value
     [CR_PLANNED, CAPTURE_INVOKED, CR_CAPTURED, CR_COMPLETE]"

definition read_canary_phase :: "json \<Rightarrow> canary_phase doc" where
  "read_canary_phase = canary_member canary_phase_value [CY_CAPTURING, CY_ANALYZING, CY_COMPLETE, CY_HALTED]"

definition read_canary_halt :: "json \<Rightarrow> canary_halt doc" where
  "read_canary_halt = canary_member canary_halt_value
     [CY_MISSED_SLOT, CY_UNCERTAIN, CY_INTEGRITY_FAILURE, CY_ANALYSIS_FAILURE]"

definition canary_record_document :: "canary_record \<Rightarrow> ('v, json) row_result" where
  "canary_record_document r =
     bindE (snapshot_value (cr_snapshot r)) (\<lambda>snapshot.
     bindE (receipt_value (cr_receipt r)) (\<lambda>receipt.
       Inr (JObj
         [(''slot_index'', JInt (slot_index (cr_unit r))),
          (''unit_digest'', JStr (str_digest (unit_digest (cr_unit r)))),
          (''phase'', JStr (canary_record_phase_value (cr_phase r))),
          (''snapshot'', snapshot),
          (''analysis_receipt'', receipt)])))"

definition encode_canary_state :: "canary_state \<Rightarrow> ('v, string) row_result" where
  "encode_canary_state s =
     bindE (mapE canary_record_document (cy_records s)) (\<lambda>records.
     let payload = canonical_json_bytes (JObj
           [(''definition_digest'', JStr (str_digest (cy_digest s))),
            (''phase'', JStr (canary_phase_value (cy_phase s))),
            (''halt_reason'', json_option (\<lambda>r. JStr (canary_halt_value r)) (cy_halt s)),
            (''revision'', JInt (cy_revision s)), (''records'', JList records)])
     in if length payload > MAX_CANARY_STATE_BYTES then Inl (RuntimeError Row_Too_Long)
        else Inr payload)"

type_synonym 'a canary_row_result = "(canary_error, 'a) row_result"

definition decode_canary_record ::
  "canary_definition \<Rightarrow> nat \<times> json \<Rightarrow> canary_record canary_row_result" where
  "decode_canary_record d = (\<lambda>(index, v).
     bindE (embed_exn Row_Document (canary_mapping v)) (\<lambda>item.
     bindE (embed_exn Row_Document (expect_fields
       [''slot_index'', ''unit_digest'', ''phase'', ''snapshot'', ''analysis_receipt''] item)) (\<lambda>_.
     bindE (embed_exn Row_Document (canary_number ''slot_index'' item)) (\<lambda>slot.
     if slot \<noteq> int index then Inl (ValueError Row_Invalid)
     else
       bindE (embed_exn Row_Value (build_canary_unit d slot)) (\<lambda>u.
       bindE (embed_exn Row_Document (member ''unit_digest'' item)) (\<lambda>dg.
       if dg \<noteq> JStr (str_digest (unit_digest u)) then Inl (ValueError Row_Unit_Differs)
       else
         bindE (bindE (embed_exn Row_Document (member ''snapshot'' item)) read_snapshot_value) (\<lambda>snapshot.
         bindE (embed_exn Row_Document (member ''analysis_receipt'' item)) (\<lambda>receipt_value.
         bindE (if receipt_value = JNull then Inr None
                else bindE (canary_row_receipt receipt_value) (\<lambda>x. Inr (Some x))) (\<lambda>receipt.
         bindE (embed_exn Row_Document (bindE (member ''phase'' item) read_canary_record_phase)) (\<lambda>ph.
           embed_exn Row_Value (checked canary_record_post_init
             \<lparr>cr_unit = u, cr_phase = ph, cr_snapshot = snapshot, cr_receipt = receipt\<rparr>)))))))))))"

definition decode_canary_state :: "canary_definition \<Rightarrow> string \<Rightarrow> canary_state canary_row_result" where
  "decode_canary_state d payload =
     (if length payload > MAX_CANARY_STATE_BYTES then Inl (ValueError Row_Too_Long)
      else
        bindE (bindE (row_json payload) (\<lambda>v. embed_exn Row_Document (canary_mapping v))) (\<lambda>root.
        bindE (embed_exn Row_Document (expect_fields
          [''definition_digest'', ''phase'', ''halt_reason'', ''revision'', ''records''] root)) (\<lambda>_.
        bindE (embed_exn Row_Document (bindE (member ''records'' root) (as_list (ValueError Not_An_Array)))) (\<lambda>values.
        if int (length values) > CANARY_SLOTS then Inl (ValueError Row_Invalid)
        else
          bindE (mapE (decode_canary_record d) (enumerate 0 values)) (\<lambda>records.
          bindE (embed_exn Row_Document (member ''halt_reason'' root)) (\<lambda>reason_value.
          bindE (embed_exn Row_Document (bindE (member ''definition_digest'' root) canary_row_digest)) (\<lambda>dg.
          bindE (embed_exn Row_Document (bindE (member ''phase'' root) read_canary_phase)) (\<lambda>ph.
          bindE (embed_exn Row_Document (optional read_canary_halt reason_value)) (\<lambda>reason.
          bindE (embed_exn Row_Document (canary_number ''revision'' root)) (\<lambda>revision.
          bindE (embed_exn Row_Value (checked canary_state_post_init
            \<lparr>cy_digest = dg, cy_phase = ph, cy_records = records, cy_halt = reason,
             cy_revision = revision\<rparr>)) (\<lambda>state.
          if cy_digest state \<noteq> canary_digest d then Inl (ValueError Row_Not_Canonical)
          else
            bindE (encode_canary_state state) (\<lambda>text.
              if text \<noteq> payload then Inl (ValueError Row_Not_Canonical) else Inr state))))))))))))"

subsection \<open>The journal\<close>

type_synonym 'a canary_sql = "(journal_table, canary_error row_error exn, 'a) io"

definition canary_sql_initialize :: "canary_definition \<Rightarrow> int \<Rightarrow> canary_state canary_sql" where
  "canary_sql_initialize d now =
     sql_initialize (canary_id d) (canary_digest d) encode_canary_state (decode_canary_state d)
       cy_revision (new_canary_state (canary_digest d)) now"

definition canary_sql_load :: "canary_definition \<Rightarrow> canary_state canary_sql" where
  "canary_sql_load d =
     sql_load (canary_id d) (canary_digest d) (decode_canary_state d) cy_revision"

definition canary_sql_cas ::
  "canary_definition \<Rightarrow> int \<Rightarrow> int \<Rightarrow> canary_state \<Rightarrow> canary_state canary_sql" where
  "canary_sql_cas d now expected_revision replacement =
     sql_cas (canary_id d) (canary_digest d) encode_canary_state cy_revision cy_digest now
       expected_revision replacement"

definition rebuilt_slot :: "canary_definition \<Rightarrow> campaign_unit \<Rightarrow> bool" where
  "rebuilt_slot d u \<longleftrightarrow> build_canary_unit d (slot_index u) = Inr u"

definition storable_canary_record :: "canary_definition \<Rightarrow> canary_record \<Rightarrow> bool" where
  "storable_canary_record d r \<longleftrightarrow> rebuilt_slot d (cr_unit r) \<and> canary_record_post_init r = Inr ()
     \<and> (\<forall>x. cr_snapshot r = Some x \<longrightarrow> built_snapshot x) \<and> (\<forall>x. cr_receipt r = Some x \<longrightarrow> built_receipt x)"

definition storable_canary :: "canary_definition \<Rightarrow> canary_state \<Rightarrow> bool" where
  "storable_canary d s \<longleftrightarrow> cy_digest s = canary_digest d \<and> canary_state_post_init s = Inr ()
     \<and> list_all (storable_canary_record d) (cy_records s)"

subsection \<open>Reading back\<close>

lemma canary_readers [simp]:
  "canary_mapping (JObj kvs) = Inr kvs" "canary_integer (JInt n) = Inr n"
  "s \<noteq> [] \<Longrightarrow> canary_string (JStr s) = Inr s"
  by (simp_all add: canary_mapping_def canary_integer_def canary_string_def reads)

lemma canary_digest_back:
  assumes "built_digest d"
  shows "canary_structured_digest (sorted_json (json_digest d)) = Inr d"
proof -
  have "dvalue d \<noteq> []" using assms by (auto simp: built_digest_def digest_post_init_def split: digest_algorithm.splits)
  with assms show ?thesis
    by (cases d; cases "algorithm d")
       (simp add: canary_structured_digest_def canary_text_def json_digest_def document member_sorted
         read_algorithm_def make_digest_def built_digest_def checked_def)
qed

lemma canary_schema_back:
  assumes "built_schema r"
  shows "canary_schema (sorted_json (json_schema_ref r)) = Inr r"
proof -
  have "schema_id r \<noteq> []" using assms by (auto simp: built_schema_def schema_ref_post_init_def is_token_def)
  moreover have "SchemaVersion (major (version r)) (minor (version r)) = version r" by simp
  ultimately show ?thesis
    using assms
    by (cases r) (simp add: canary_schema_def canary_text_def canary_number_def json_schema_ref_def
      json_schema_version_def document member_sorted built_schema_def checked_def)
qed

lemma canary_object_back:
  assumes "built_object r"
  shows "canary_object_ref (sorted_json (json_object_ref r)) = Inr r"
proof -
  have "media_type r \<noteq> []" "format_id r \<noteq> []" "locator r \<noteq> []"
    using assms by (auto simp: built_object_def object_ref_post_init_def is_token_def)
  with assms show ?thesis
    by (cases r) (simp add: canary_object_ref_def canary_text_def canary_number_def json_object_ref_def
      document member_sorted built_object_def checked_def canary_digest_back)
qed

lemma canary_optional_schema:
  "(\<And>x. s = Some x \<Longrightarrow> built_schema x) \<Longrightarrow>
     optional canary_schema (sorted_json (json_option json_schema_ref s)) = Inr s"
  by (rule optional_json) (simp_all add: canary_schema_back, simp add: json_schema_ref_def document)

lemma canary_ident_back:
  "member key item = Inr (JStr s) \<Longrightarrow> valid_id k s \<Longrightarrow> canary_ident k key item = Inr s"
  using valid_id_nonempty [of k s] by (simp add: canary_ident_def canary_text_def)

lemmas canary_reads = canary_digest_back canary_schema_back canary_object_back canary_ident_back
  canary_text_def canary_number_def member_sorted checked_okI

lemma canary_success_back:
  assumes "built_success a"
  shows "canary_row_success (sorted_json (json_success a)) = Inr a"
proof -
  obtain r j art w f t where a: "a = \<lparr>as_recording_id = r, as_job_id = j, result_ref = art,
      projection_work_id = w, projected_feature_set = f, projected_utc_ns = t\<rparr>" by (cases a)
  have s: "optional canary_schema (sorted_json (json_option json_schema_ref (ar_schema art))) = Inr (ar_schema art)"
    using assms a by (intro canary_optional_schema) (simp add: built_success_def)
  have n: "artifact_id art \<noteq> []" using assms a artifact_nonempty by (simp add: built_success_def)
  show ?thesis
    using assms s n unfolding a built_success_def
    by (cases art; cases f) (simp add: canary_row_success_def json_success_def json_artifact_ref_def
      json_feature_set_ref_def canary_artifact_def canary_feature_def document canary_reads)
qed

lemma canary_receipt_back:
  assumes "built_receipt r"
  shows "canary_row_receipt (sorted_json (json_receipt r)) = Inr r"
proof -
  obtain a b where ab: "successes r = [a, b]" "built_success a" "built_success b"
    using assms by (auto simp: built_receipt_def length_two)
  show ?thesis
    using assms ab unfolding built_receipt_def
    by (cases r) (simp add: canary_row_receipt_def json_receipt_def document canary_reads canary_success_back)
qed

lemma canary_member_back:
  "find (\<lambda>x. name x = name m) ms = Some m \<Longrightarrow> name m \<noteq> [] \<Longrightarrow> canary_member name ms (JStr (name m)) = Inr m"
  by (simp add: canary_member_def)

lemma canary_record_phase_back [simp]: "read_canary_record_phase (JStr (canary_record_phase_value p)) = Inr p"
  unfolding read_canary_record_phase_def by (rule canary_member_back) (cases p; simp)+

lemma canary_phase_back [simp]: "read_canary_phase (JStr (canary_phase_value p)) = Inr p"
  unfolding read_canary_phase_def by (rule canary_member_back) (cases p; simp)+

lemma canary_halt_value_back [simp]: "read_canary_halt (JStr (canary_halt_value h)) = Inr h"
  unfolding read_canary_halt_def by (rule canary_member_back) (cases h; simp)+

lemma canary_halt_back:
  "optional read_canary_halt (sorted_json (json_option (\<lambda>r. JStr (canary_halt_value r)) h)) = Inr h"
  by (rule optional_json) simp_all

definition canary_record_json :: "canary_record \<Rightarrow> json" where
  "canary_record_json r = JObj
     [(''slot_index'', JInt (slot_index (cr_unit r))),
      (''unit_digest'', JStr (str_digest (unit_digest (cr_unit r)))),
      (''phase'', JStr (canary_record_phase_value (cr_phase r))),
      (''snapshot'', sorted_json (json_option json_snapshot (cr_snapshot r))),
      (''analysis_receipt'', sorted_json (json_option json_receipt (cr_receipt r)))]"

definition canary_state_json :: "canary_state \<Rightarrow> json" where
  "canary_state_json s = JObj
     [(''definition_digest'', JStr (str_digest (cy_digest s))),
      (''phase'', JStr (canary_phase_value (cy_phase s))),
      (''halt_reason'', json_option (\<lambda>r. JStr (canary_halt_value r)) (cy_halt s)),
      (''revision'', JInt (cy_revision s)), (''records'', JList (map canary_record_json (cy_records s)))]"

lemma canary_records_document:
  "mapE canary_record_document rs = Inr (map canary_record_json rs)"
  by (rule mapE_eq_map) (simp add: canary_record_document_def canary_record_json_def)

lemma encode_canary_state_Inr:
  "encode_canary_state s =
     (if length (canonical_json_bytes (canary_state_json s)) > MAX_CANARY_STATE_BYTES
      then Inl (RuntimeError Row_Too_Long) else Inr (canonical_json_bytes (canary_state_json s)))"
  by (simp add: encode_canary_state_def canary_state_json_def canary_records_document Let_def)

lemma plain_canary_state: "plain_json (canary_state_json s)"
  by (simp add: canary_state_json_def canary_record_json_def)

lemma decode_canary_record_back:
  assumes "storable_canary_record d r" and slot: "slot_index (cr_unit r) = int i"
  shows "decode_canary_record d (i, sorted_json (canary_record_json r)) = Inr r"
proof -
  have s: "read_snapshot_value (sorted_json (json_option json_snapshot (cr_snapshot r))) = Inr (cr_snapshot r)"
    using assms(1) by (intro read_snapshot_value_back) (simp add: storable_canary_record_def)
  have nn: "sorted_json (json_receipt x) \<noteq> JNull" for x by (simp add: json_receipt_def document)
  have u: "build_canary_unit d (int i) = Inr (cr_unit r)"
    using assms by (simp add: storable_canary_record_def rebuilt_slot_def)
  show ?thesis
    using s u slot assms(1) nn unfolding storable_canary_record_def
    by (cases r; cases "cr_receipt r")
       (simp_all add: decode_canary_record_def canary_record_json_def document canary_reads canary_receipt_back)
qed

lemma mapE_enumerate_back:
  assumes "\<And>i. i < length xs \<Longrightarrow> f (n + i, g (xs ! i)) = Inr (xs ! i)"
  shows "mapE f (enumerate n (map g xs)) = Inr xs"
  using assms
proof (induction xs arbitrary: n)
  case (Cons x xs)
  have "f (n, g x) = Inr x" using Cons.prems [of 0] by simp
  moreover have "f (Suc n + i, g (xs ! i)) = Inr (xs ! i)" if "i < length xs" for i
    using Cons.prems [of "Suc i"] that by simp
  ultimately show ?case using Cons.IH [of "Suc n"] by simp
qed simp

lemma canary_slot_at:
  assumes "canary_state_post_init s = Inr ()" and "i < length (cy_records s)"
  shows "slot_index (cr_unit (cy_records s ! i)) = int i"
proof -
  have "map (\<lambda>r. slot_index (cr_unit r)) (cy_records s) = map int [0..<length (cy_records s)]"
    using assms(1) by (auto simp: canary_state_post_init_def split: if_splits)
  from arg_cong [OF this, of "\<lambda>xs. xs ! i"] assms(2) show ?thesis by simp
qed

lemma decode_canary_back:
  assumes "storable_canary d s" and "encode_canary_state s = (Inr p :: string canary_row_result)"
  shows "decode_canary_state d p = Inr s"
proof -
  have p: "p = canonical_json_bytes (canary_state_json s)" "\<not> length p > MAX_CANARY_STATE_BYTES"
    using assms(2) by (auto simp: encode_canary_state_Inr split: if_splits)
  have recs: "mapE (decode_canary_record d) (enumerate 0 (map (\<lambda>r. sorted_json (canary_record_json r)) (cy_records s)))
      = Inr (cy_records s)"
    using assms(1) canary_slot_at
    by (intro mapE_enumerate_back) (auto simp: storable_canary_def list_all_length intro!: decode_canary_record_back)
  have dg: "read_digest_text (str_digest (canary_digest d)) = Inr (canary_digest d)"
      "str_digest (canary_digest d) \<noteq> []"
    unfolding canary_digest_def by (rule digest_text_back, rule canonical_digest_built) (simp add: str_digest_def)
  have json: "row_json p = Inr (sorted_json (canary_state_json s))"
    unfolding p(1) by (rule row_json_back) (rule plain_canary_state)
  have n: "\<not> int (length (cy_records s)) > CANARY_SLOTS"
    using assms(1) by (auto simp: storable_canary_def canary_state_post_init_def split: if_splits)
  show ?thesis
    using assms p(2) recs dg n canary_halt_back
    unfolding decode_canary_state_def json bindE_simps storable_canary_def
    by (cases s) (simp add: canary_state_json_def document canary_reads reads canary_row_digest_def comp_def)
qed

lemma canary_schema_built: "canary_schema v = Inr r \<Longrightarrow> built_schema r"
  by (auto simp: canary_schema_def built_schema_def)

lemma canary_structured_digest_built: "canary_structured_digest v = Inr d \<Longrightarrow> built_digest d"
  by (auto simp: canary_structured_digest_def dest: make_digest_Inr)

lemma canary_object_built: "canary_object_ref v = Inr r \<Longrightarrow> built_object r"
  by (auto simp: canary_object_ref_def built_object_def dest: canary_structured_digest_built)

lemma canary_ident_valid: "canary_ident k key item = Inr s \<Longrightarrow> valid_id k s"
  by (auto simp: canary_ident_def)

lemma canary_text_nonempty: "canary_text k item = Inr s \<Longrightarrow> s \<noteq> []"
  by (auto simp: canary_text_def canary_string_def reads_Inr)

lemma canary_success_built: "canary_row_success v = Inr a \<Longrightarrow> built_success a"
  by (auto simp: canary_row_success_def built_success_def canary_artifact_def canary_feature_def optional_def
      dest: canary_ident_valid canary_text_nonempty canary_structured_digest_built canary_schema_built
        canary_object_built split: if_splits)

lemma canary_successes_built:
  "mapE canary_row_success vs = (Inr as :: ('v, analysis_success list) row_result) \<Longrightarrow> list_all built_success as"
  by (induction vs arbitrary: as) (auto dest: canary_success_built)

lemma canary_receipt_built:
  assumes "canary_row_receipt v = (Inr r :: ('v, analysis_receipt) row_result)"
  shows "built_receipt r"
proof -
  obtain vs as where "length vs = 2"
      "mapE canary_row_success vs = (Inr as :: ('v, analysis_success list) row_result)"
      and r: "successes r = [as ! 0, as ! 1]" "valid_id CaptureBatchId (rc_batch_id r)"
        "analysis_receipt_post_init r = Inr ()"
    using assms by (auto simp: canary_row_receipt_def dest: canary_ident_valid split: if_splits)
  then have "length as = 2" "list_all built_success as"
    using canary_successes_built by (metis mapE_Inr list_all2_lengthD, blast)
  then show ?thesis using r by (auto simp: built_receipt_def length_two)
qed

lemma canary_indices: "build_canary_unit d i = Inr u \<Longrightarrow> rebuilt_slot d u"
  by (auto simp: rebuilt_slot_def build_canary_unit_def Let_def)

lemma decode_canary_record_built:
  assumes "decode_canary_record d x = Inr r"
  shows "storable_canary_record d r"
  using assms
  by (auto simp: decode_canary_record_def storable_canary_record_def
      dest: canary_indices read_snapshot_value_built canary_receipt_built split: if_splits prod.splits)

lemma decode_canary_built:
  assumes "decode_canary_state d p = Inr s"
  shows "storable_canary d s \<and> encode_canary_state s = (Inr p :: string canary_row_result)"
proof -
  have recs: "list_all (storable_canary_record d) rs" if "mapE (decode_canary_record d) vs = Inr rs" for vs rs
    using that by (induction vs arbitrary: rs) (auto dest: decode_canary_record_built)
  show ?thesis
    using assms
    by (auto simp: decode_canary_state_def storable_canary_def dest: recs split: if_splits)
qed

interpretation canary_row_codec: durable_codec "canary_id d" "canary_digest d"
    "encode_canary_state :: canary_state \<Rightarrow> string canary_row_result"
    "decode_canary_state d" cy_revision cy_digest "storable_canary d"
  for d
  by unfold_locales
    (use decode_canary_back decode_canary_built in blast, simp add: storable_canary_def)

definition canary_row_state :: "canary_definition \<Rightarrow> journal_table \<Rightarrow> canary_state option" where
  "canary_row_state d = sql_stored (canary_id d) (canary_digest d) (decode_canary_state d) cy_revision"

lemma new_canary_encoded:
  "\<exists>p. encode_canary_state (new_canary_state (canary_digest d)) = (Inr p :: string canary_row_result)"
proof -
  have dg: "length (dump_str (str_digest (canary_digest d))) \<le> 428"
    using length_dump_str [of "str_digest (canary_digest d)"] length_canonical_digest [of "canary_document d"]
    unfolding canary_digest_def by linarith
  have names: "length (dump_str ''definition_digest'') \<le> 104" "length (dump_str ''phase'') \<le> 32"
    "length (dump_str ''halt_reason'') \<le> 68" "length (dump_str ''revision'') \<le> 50"
    "length (dump_str ''records'') \<le> 44" "length (dump_str ''capturing'') \<le> 56"
    by (rule order_trans [OF length_dump_str], simp)+
  show ?thesis
    using dg names
    by (simp add: new_canary_state_def encode_canary_state_Inr canary_state_json_def
      MAX_CANARY_STATE_BYTES_def canonical_json_bytes_def sort_key_def insort_key_def str_int_def dec.simps)
qed

lemma canary_cas_outcome:
  assumes "cy_digest a = canary_digest d" and "cy_digest y = canary_digest d"
  shows "\<exists>e. canary_cas d r y (Some a) =
    (if cy_revision a = r \<and> cy_revision y = r + 1 then (Inr y, Some y) else (Inl e, Some a))"
  using assms by (auto simp: canary_cas_def canary_load_def bind_io_def)

lemma canary_initialize_rows:
  assumes "tbl (canary_id d) = None"
  shows "let (res, t) = canary_sql_initialize d now tbl; (mem, j) = canary_initialize d None
    in \<exists>x. res = Inr x \<and> mem = Inr x \<and> j = Some x \<and> canary_row_state d t = Some x"
proof -
  let ?x = "new_canary_state (canary_digest d)"
  obtain p where "encode_canary_state ?x = (Inr p :: string canary_row_result)"
    using new_canary_encoded [of d] by auto
  moreover have "storable_canary d ?x"
    by (simp add: storable_canary_def new_canary_state_def canary_state_post_init_def CANARY_SLOTS_def)
  ultimately show ?thesis
    using assms canary_row_codec.initialize_fresh [of tbl d ?x p now]
    by (auto simp: canary_sql_initialize_def canary_row_state_def canary_initialize_def
      canary_load_def new_canary_state_def)
qed

text \<open>
  C21. The canary journal in SQLite refines the journal in memory: over a row that stands for a
  canary state, \<open>load\<close> returns it and \<open>compare_and_swap\<close> of any state whose construction checks
  pass and whose units are those of the canary has the outcome of the journal in memory, or
  refuses alone because the payload would exceed 1 MiB and changes nothing. A row that decodes
  holds exactly the canonical payload of its state, although the nested readers ignore
  superfluous fields, and other rows are never touched.
\<close>

theorem canary_sql_refines:
  assumes "canary_row_state d tbl = Some a" and "storable_canary d y"
  shows "canary_sql_load d tbl = (Inr a, tbl) \<and> canary_load d (Some a) = (Inr a, Some a)
    \<and> swaps_alike encode_canary_state (canary_row_state d)
        (canary_cas d r y (Some a)) tbl (canary_sql_cas d now r y tbl)
    \<and> (\<forall>k. k \<noteq> canary_id d \<longrightarrow> snd (canary_sql_cas d now r y tbl) k = tbl k)
    \<and> map_option (\<lambda>row. Inr (jr_payload row)) (tbl (canary_id d))
        = Some (encode_canary_state a :: string canary_row_result)
    \<and> (let (res, t) = canary_sql_initialize d now (tbl(canary_id d := None));
            (mem, j) = canary_initialize d None
        in \<exists>x. res = Inr x \<and> mem = Inr x \<and> j = Some x \<and> canary_row_state d t = Some x)"
proof -
  have a: "storable_canary d a"
      "map_option (\<lambda>row. Inr (jr_payload row)) (tbl (canary_id d))
        = Some (encode_canary_state a :: string canary_row_result)"
    using assms(1) unfolding canary_row_state_def canary_row_codec.stored_Some by auto
  then obtain e where mem: "canary_cas d r y (Some a) =
      (if cy_revision a = r \<and> cy_revision y = r + 1 then (Inr y, Some y) else (Inl e, Some a))"
    using canary_cas_outcome assms(2) unfolding storable_canary_def by meson
  have "canary_sql_load d tbl = (Inr a, tbl)"
    unfolding canary_sql_load_def
    by (rule canary_row_codec.load_stored) (use assms(1) in \<open>simp add: canary_row_state_def\<close>)
  moreover have "canary_load d (Some a) = (Inr a, Some a)"
    using a by (simp add: canary_load_def storable_canary_def)
  moreover note a(2) canary_row_codec.cas_alike [OF assms(1) [unfolded canary_row_state_def] assms(2) mem, of now]
    canary_initialize_rows [of "tbl(canary_id d := None)" d now]
  ultimately show ?thesis
    by (simp add: canary_sql_cas_def canary_row_state_def)
qed

theorem canary_sql_refines_witness:
  "\<exists>tbl x. canary_sql_initialize demo_canary 7 Map.empty = (Inr x, tbl)
     \<and> canary_sql_load demo_canary tbl = (Inr x, tbl)"
proof -
  obtain x tbl where x: "canary_sql_initialize demo_canary 7 Map.empty = (Inr x, tbl)"
      "canary_row_state demo_canary tbl = Some x"
    using canary_initialize_rows [of Map.empty demo_canary 7] by (auto simp: Let_def split: prod.splits)
  then have "storable_canary demo_canary x"
    unfolding canary_row_state_def canary_row_codec.stored_Some by blast
  with canary_sql_refines [OF x(2)] x(1) show ?thesis by blast
qed

end
