(* ===== verification/Capture_Plan.thy ===== *)
theory Capture_Plan
  imports Documents
begin

section \<open>Capture plans and recording manifests\<close>

text \<open>
  \<open>contracts/capture.py\<close>: what a capture is asked to do, what it reports to have done, and the
  locally complete recording whose identity is the digest of its manifest; with the text
  \<open>capture/serialization.py\<close> gives plans and recordings in the capture-local databases.
\<close>

datatype capture_error =
    Manual_Without_Gain | Agc_With_Gain | Plan_Number core_error | Not_Exactly_One | Chains_Not_Unique
  | No_Segment | Segments_Not_Unique | Bad_Plan_Schema | No_Activity | Activities_Not_Unique
  | Foreign_Chain | Empty_Activity | Segment_Ids_Differ | Negative_Monotonic | Bad_Shape
  | Bad_Manifest_Schema | Inconsistent_Times | Not_Complete | Not_Fixed_Layout | Manifest_Chains
  | Manifest_Segments | Segment_Without_Activity | Empty_Local_Locator | Recording_Ids_Differ
  | Same_Objects | Manifest_Digest_Differs | Plan_Doc doc_error | Plan_Core core_error

text \<open>
  A numeric field holds a Python \<open>int\<close> or a finite \<open>float\<close>; \<open>bool\<close> and text are refused by
  \<open>require_finite\<close>, which the type takes over.
\<close>

datatype pynum = PyInt int | PyFloat pyfloat

fun num_value :: "pynum \<Rightarrow> rat" where
  "num_value (PyInt n) = of_int n"
| "num_value (PyFloat x) = x"

definition require_positive_number :: "pynum \<Rightarrow> (core_error, unit) result" where
  "require_positive_number n = raise_first [(num_value n \<le> 0, ValueError Not_Positive)]"

datatype activity_kind = SCAN | DWELL | CALIBRATION | TEST
datatype gain_mode = MANUAL | AGC

record gain_setting =
  g_mode :: gain_mode
  gain_db :: "pynum option"

definition gain_setting_post_init :: "gain_setting \<Rightarrow> (capture_error, unit) result" where
  "gain_setting_post_init g =
     raise_first
       [(g_mode g = MANUAL \<and> gain_db g = None, ValueError Manual_Without_Gain),
        (g_mode g = AGC \<and> gain_db g \<noteq> None, ValueError Agc_With_Gain)]"

text \<open>
  The \<open>Any\<close> in a tuple of pairs is a frozen value: \<open>None\<close>, a boolean, a number, text or a tuple
  of such values (\<open>freeze_mapping\<close>); a tuple is a \<open>JList\<close> here.
\<close>

type_synonym frozen_pairs = "(string \<times> json) list"

record segment_request =
  sq_id :: string
  center_frequency_hz :: pynum
  sample_rate_hz :: pynum
  bandwidth_hz :: pynum
  sq_chains :: "string list"
  sq_gain :: gain_setting
  duration_s :: "pynum option"
  sq_count :: "int option"
  scheduled_utc_ns :: "int option"
  hardware_controls :: frozen_pairs
  sq_tags :: frozen_pairs

definition segment_request_post_init :: "segment_request \<Rightarrow> (capture_error, unit) result" where
  "segment_request_post_init r =
     bindE (embed_exn Plan_Number (require_positive_number (center_frequency_hz r))) (\<lambda>_.
     bindE (embed_exn Plan_Number (require_positive_number (sample_rate_hz r))) (\<lambda>_.
     bindE (embed_exn Plan_Number (require_positive_number (bandwidth_hz r))) (\<lambda>_.
     bindE (raise_first [((duration_s r = None) = (sq_count r = None), ValueError Not_Exactly_One)]) (\<lambda>_.
     bindE (case duration_s r of None \<Rightarrow> Inr () | Some d \<Rightarrow> embed_exn Plan_Number (require_positive_number d)) (\<lambda>_.
     bindE (case sq_count r of None \<Rightarrow> Inr () | Some n \<Rightarrow> embed_exn Plan_Number (require_positive n)) (\<lambda>_.
     bindE (raise_first [(sq_chains r = [] \<or> \<not> distinct (sq_chains r), ValueError Chains_Not_Unique)]) (\<lambda>_.
       case scheduled_utc_ns r of None \<Rightarrow> Inr () | Some t \<Rightarrow> embed_exn Plan_Number (require_utc_ns t))))))))"

record activity_request =
  aq_id :: string
  aq_kind :: activity_kind
  aq_segments :: "segment_request list"

definition activity_request_post_init :: "activity_request \<Rightarrow> (capture_error, unit) result" where
  "activity_request_post_init a =
     raise_first
       [(aq_segments a = [], ValueError No_Segment),
        (\<not> distinct (map sq_id (aq_segments a)), ValueError Segments_Not_Unique)]"

record capture_plan =
  cp_schema :: schema_ref
  cp_id :: string
  cp_radio :: string
  cp_chains :: "string list"
  cp_activities :: "activity_request list"
  cp_tags :: frozen_pairs

definition capture_plan_post_init :: "capture_plan \<Rightarrow> (capture_error, unit) result" where
  "capture_plan_post_init p =
     raise_first
       [(schema_id (cp_schema p) \<noteq> ''org.leo-flow.capture-plan'' \<or> version (cp_schema p) \<noteq> V0_1,
           ValueError Bad_Plan_Schema),
        (cp_activities p = [], ValueError No_Activity),
        (\<not> distinct (map aq_id (cp_activities p)), ValueError Activities_Not_Unique),
        (cp_chains p = [] \<or>
           (\<exists>a \<in> set (cp_activities p). \<exists>s \<in> set (aq_segments a). \<not> set (sq_chains s) \<subseteq> set (cp_chains p)),
           ValueError Foreign_Chain)]"

record activity_manifest =
  am_id :: string
  am_kind :: activity_kind
  am_started :: int
  am_finished :: int
  am_segment_ids :: "string list"

definition activity_manifest_post_init :: "activity_manifest \<Rightarrow> (capture_error, unit) result" where
  "activity_manifest_post_init a =
     bindE (embed_exn Plan_Number (require_utc_ns (am_started a))) (\<lambda>_.
     bindE (embed_exn Plan_Number (require_utc_ns (am_finished a))) (\<lambda>_.
       raise_first [(am_finished a \<le> am_started a \<or> am_segment_ids a = [], ValueError Empty_Activity)]))"

record segment_manifest =
  sm_id :: string
  sm_requested :: segment_request
  actual_center_frequency_hz :: pynum
  actual_sample_rate_hz :: pynum
  actual_bandwidth_hz :: pynum
  actual_gain :: gain_setting
  sm_start :: int
  monotonic_start_ns :: int
  sm_count :: int
  sm_shape :: "int list"
  sm_diagnostics :: frozen_pairs

definition segment_manifest_post_init :: "segment_manifest \<Rightarrow> (capture_error, unit) result" where
  "segment_manifest_post_init m =
     bindE (raise_first [(sm_id m \<noteq> sq_id (sm_requested m), ValueError Segment_Ids_Differ)]) (\<lambda>_.
     bindE (embed_exn Plan_Number (require_utc_ns (sm_start m))) (\<lambda>_.
     bindE (embed_exn Plan_Number (require_positive_number (actual_center_frequency_hz m))) (\<lambda>_.
     bindE (embed_exn Plan_Number (require_positive_number (actual_sample_rate_hz m))) (\<lambda>_.
     bindE (embed_exn Plan_Number (require_positive_number (actual_bandwidth_hz m))) (\<lambda>_.
     bindE (embed_exn Plan_Number (require_positive (sm_count m))) (\<lambda>_.
       raise_first
         [(monotonic_start_ns m < 0, ValueError Negative_Monotonic),
          (sm_shape m \<noteq> [sm_count m, int (length (sq_chains (sm_requested m))), 2], ValueError Bad_Shape)]))))))"

record recording_manifest =
  rm_schema :: schema_ref
  rm_recording_id :: string
  rm_created :: int
  rm_started :: int
  rm_finished :: int
  rm_station :: string
  rm_radio :: string
  rm_serial :: string
  rm_chains :: "string list"
  rm_clock_status :: string
  rm_hardware :: string
  rm_activities :: "activity_manifest list"
  rm_segments :: "segment_manifest list"
  rm_plan_id :: string
  rm_producer :: string
  rm_tags :: frozen_pairs
  rm_dtype :: string
  rm_layout :: "string list"
  rm_state :: string

definition recording_manifest_post_init :: "recording_manifest \<Rightarrow> (capture_error, unit) result" where
  "recording_manifest_post_init m =
     bindE (raise_first
       [(schema_id (rm_schema m) \<noteq> ''org.leo-flow.recording-manifest'' \<or> version (rm_schema m) \<noteq> V0_1,
           ValueError Bad_Manifest_Schema)]) (\<lambda>_.
     bindE (embed_exn Plan_Number (require_utc_ns (rm_created m))) (\<lambda>_.
     bindE (embed_exn Plan_Number (require_utc_ns (rm_started m))) (\<lambda>_.
     bindE (embed_exn Plan_Number (require_utc_ns (rm_finished m))) (\<lambda>_.
       raise_first
         [(\<not> (rm_created m \<le> rm_started m \<and> rm_started m < rm_finished m), ValueError Inconsistent_Times),
          (rm_state m \<noteq> ''complete'', ValueError Not_Complete),
          (rm_dtype m \<noteq> ''<i2'' \<or> rm_layout m \<noteq> [''sample'', ''receiver'', ''component''],
             ValueError Not_Fixed_Layout),
          (\<not> distinct (rm_chains m), ValueError Manifest_Chains),
          (\<not> distinct (map sm_id (rm_segments m)), ValueError Manifest_Segments),
          (let ids = concat (map am_segment_ids (rm_activities m))
           in set ids \<noteq> set (map sm_id (rm_segments m)) \<or> length ids \<noteq> card (set (map sm_id (rm_segments m))),
             ValueError Segment_Without_Activity)]))))"

record local_object =
  lo_locator :: string
  lo_digest :: digest
  lo_bytes :: int

definition local_object_post_init :: "local_object \<Rightarrow> (capture_error, unit) result" where
  "local_object_post_init r =
     bindE (embed_exn Plan_Number (require_positive (lo_bytes r))) (\<lambda>_.
       raise_first [(lo_locator r = [], ValueError Empty_Local_Locator)])"

subsection \<open>Documents\<close>

text \<open>\<open>_primitive\<close> on these contracts: every field under its name, an enum as its value.\<close>

fun json_num :: "pynum \<Rightarrow> json" where
  "json_num (PyInt n) = JInt n"
| "json_num (PyFloat x) = JFloat x"

fun str_kind :: "activity_kind \<Rightarrow> string" where
  "str_kind SCAN = ''scan''"
| "str_kind DWELL = ''dwell''"
| "str_kind CALIBRATION = ''calibration''"
| "str_kind TEST = ''test''"

fun str_mode :: "gain_mode \<Rightarrow> string" where
  "str_mode MANUAL = ''manual''"
| "str_mode AGC = ''agc''"

definition json_pairs :: "frozen_pairs \<Rightarrow> json" where
  "json_pairs kvs = JList (map (\<lambda>(k, v). JList [JStr k, v]) kvs)"

definition json_gain :: "gain_setting \<Rightarrow> json" where
  "json_gain g = JObj [(''mode'', JStr (str_mode (g_mode g))), (''gain_db'', json_option json_num (gain_db g))]"

definition json_segment_request :: "segment_request \<Rightarrow> json" where
  "json_segment_request r =
     JObj [(''segment_id'', JStr (sq_id r)),
           (''center_frequency_hz'', json_num (center_frequency_hz r)),
           (''sample_rate_hz'', json_num (sample_rate_hz r)),
           (''bandwidth_hz'', json_num (bandwidth_hz r)),
           (''receiver_chain_ids'', JList (map JStr (sq_chains r))),
           (''gain'', json_gain (sq_gain r)),
           (''duration_s'', json_option json_num (duration_s r)),
           (''sample_count'', json_option JInt (sq_count r)),
           (''scheduled_utc_ns'', json_option JInt (scheduled_utc_ns r)),
           (''hardware_controls'', json_pairs (hardware_controls r)),
           (''tags'', json_pairs (sq_tags r))]"

definition json_activity_request :: "activity_request \<Rightarrow> json" where
  "json_activity_request a =
     JObj [(''activity_id'', JStr (aq_id a)), (''kind'', JStr (str_kind (aq_kind a))),
           (''segments'', JList (map json_segment_request (aq_segments a)))]"

definition json_plan :: "capture_plan \<Rightarrow> json" where
  "json_plan p =
     JObj [(''schema'', json_schema_ref (cp_schema p)), (''plan_id'', JStr (cp_id p)),
           (''radio_id'', JStr (cp_radio p)), (''receiver_chain_ids'', JList (map JStr (cp_chains p))),
           (''activities'', JList (map json_activity_request (cp_activities p))),
           (''experiment_tags'', json_pairs (cp_tags p))]"

definition json_activity_manifest :: "activity_manifest \<Rightarrow> json" where
  "json_activity_manifest a =
     JObj [(''activity_id'', JStr (am_id a)), (''kind'', JStr (str_kind (am_kind a))),
           (''started_utc_ns'', JInt (am_started a)), (''finished_utc_ns'', JInt (am_finished a)),
           (''segment_ids'', JList (map JStr (am_segment_ids a)))]"

definition json_segment_manifest :: "segment_manifest \<Rightarrow> json" where
  "json_segment_manifest m =
     JObj [(''segment_id'', JStr (sm_id m)), (''requested'', json_segment_request (sm_requested m)),
           (''actual_center_frequency_hz'', json_num (actual_center_frequency_hz m)),
           (''actual_sample_rate_hz'', json_num (actual_sample_rate_hz m)),
           (''actual_bandwidth_hz'', json_num (actual_bandwidth_hz m)),
           (''actual_gain'', json_gain (actual_gain m)),
           (''start_utc_ns'', JInt (sm_start m)), (''monotonic_start_ns'', JInt (monotonic_start_ns m)),
           (''sample_count'', JInt (sm_count m)), (''shape'', JList (map JInt (sm_shape m))),
           (''diagnostics'', json_pairs (sm_diagnostics m))]"

definition json_manifest :: "recording_manifest \<Rightarrow> json" where
  "json_manifest m =
     JObj [(''schema'', json_schema_ref (rm_schema m)), (''recording_id'', JStr (rm_recording_id m)),
           (''created_utc_ns'', JInt (rm_created m)), (''capture_started_utc_ns'', JInt (rm_started m)),
           (''capture_finished_utc_ns'', JInt (rm_finished m)), (''station_id'', JStr (rm_station m)),
           (''radio_id'', JStr (rm_radio m)), (''radio_serial'', JStr (rm_serial m)),
           (''receiver_chain_ids'', JList (map JStr (rm_chains m))), (''clock_status'', JStr (rm_clock_status m)),
           (''hardware_metadata_snapshot_id'', JStr (rm_hardware m)),
           (''activities'', JList (map json_activity_manifest (rm_activities m))),
           (''segments'', JList (map json_segment_manifest (rm_segments m))), (''plan_id'', JStr (rm_plan_id m)),
           (''producer'', JStr (rm_producer m)), (''experiment_tags'', json_pairs (rm_tags m)),
           (''sample_dtype'', JStr (rm_dtype m)), (''sample_layout'', JList (map JStr (rm_layout m))),
           (''state'', JStr (rm_state m))]"

definition json_local_object :: "local_object \<Rightarrow> json" where
  "json_local_object r =
     JObj [(''locator'', JStr (lo_locator r)), (''digest'', json_digest (lo_digest r)),
           (''byte_count'', JInt (lo_bytes r))]"

record completed_recording =
  co_recording_id :: string
  co_data :: local_object
  co_metadata :: local_object
  co_manifest :: recording_manifest
  co_manifest_digest :: digest

definition completed_recording_post_init :: "completed_recording \<Rightarrow> (capture_error, unit) result" where
  "completed_recording_post_init r =
     raise_first
       [(co_recording_id r \<noteq> rm_recording_id (co_manifest r), ValueError Recording_Ids_Differ),
        (lo_digest (co_data r) = lo_digest (co_metadata r), ValueError Same_Objects),
        (co_manifest_digest r \<noteq> canonical_digest (json_manifest (co_manifest r)),
           ValueError Manifest_Digest_Differs)]"

definition json_completed :: "completed_recording \<Rightarrow> json" where
  "json_completed r =
     JObj [(''recording_id'', JStr (co_recording_id r)), (''data_object'', json_local_object (co_data r)),
           (''metadata_object'', json_local_object (co_metadata r)), (''manifest'', json_manifest (co_manifest r)),
           (''manifest_digest'', json_digest (co_manifest_digest r))]"

definition encode_completed :: "completed_recording \<Rightarrow> string" where
  "encode_completed r = canonical_json_bytes (json_completed r)"

definition encode_plan :: "capture_plan \<Rightarrow> string" where
  "encode_plan p = canonical_json_bytes (json_plan p)"

subsection \<open>Reading plans and recordings\<close>

text \<open>
  The decoders are applied to what the encoders have stored. They check no types of their own:
  a member of another type than its annotation is refused here, where the code refuses it at the
  first operation that fails on it and keeps it where there is none.
\<close>

type_synonym 'a capture = "(capture_error, 'a) result"

definition subscript :: "string \<Rightarrow> json \<Rightarrow> json capture" where
  "subscript k v = embed_exn Plan_Doc (bindE (as_object (TypeError Not_An_Object) v) (member k))"

definition each :: "(json \<Rightarrow> 'a capture) \<Rightarrow> json \<Rightarrow> 'a list capture" where
  "each f v = bindE (embed_exn Plan_Doc (as_list (TypeError Not_An_Array) v)) (mapE f)"

definition plain_str :: "json \<Rightarrow> string capture" where
  "plain_str v = embed_exn Plan_Doc (as_text (TypeError Not_A_String) v)"

definition plain_int :: "json \<Rightarrow> int capture" where
  "plain_int v = embed_exn Plan_Doc (as_integer (TypeError Not_An_Integer) v)"

fun plain_num :: "json \<Rightarrow> pynum capture" where
  "plain_num (JInt n) = Inr (PyInt n)"
| "plain_num (JFloat x) = Inr (PyFloat x)"
| "plain_num v = Inl (TypeError (Plan_Doc Not_An_Integer))"

definition maybe :: "(json \<Rightarrow> 'a capture) \<Rightarrow> json \<Rightarrow> 'a option capture" where
  "maybe f v = (if v = JNull then Inr None else bindE (f v) (\<lambda>x. Inr (Some x)))"

text \<open>\<open>RecordingId(value)\<close> and its siblings refuse a value that is not text.\<close>

definition read_contract_id :: "id_kind \<Rightarrow> json \<Rightarrow> string capture" where
  "read_contract_id k v =
     (case v of JStr s \<Rightarrow> embed_exn Plan_Core (contract_id k s)
      | _ \<Rightarrow> Inl (ValueError (Plan_Core Not_Portable_Token)))"

definition read_local_digest :: "json \<Rightarrow> digest capture" where
  "read_local_digest v =
     bindE (bindE (subscript ''algorithm'' v) plain_str) (\<lambda>a.
     bindE (embed_exn Plan_Doc (read_algorithm a)) (\<lambda>a.
     bindE (bindE (subscript ''value'' v) plain_str) (\<lambda>s. embed_exn Plan_Doc (make_digest a s))))"

definition read_local_schema :: "json \<Rightarrow> schema_ref capture" where
  "read_local_schema v =
     bindE (subscript ''version'' v) (\<lambda>ver.
     bindE (bindE (subscript ''schema_id'' v) plain_str) (\<lambda>name.
     bindE (bindE (subscript ''major'' ver) plain_int) (\<lambda>i.
     bindE (bindE (subscript ''minor'' ver) plain_int) (\<lambda>j.
     bindE (embed_exn Plan_Core (checked schema_version_post_init (SchemaVersion i j))) (\<lambda>w.
       embed_exn Plan_Core (checked schema_ref_post_init \<lparr>schema_id = name, version = w\<rparr>))))))"

definition read_kind :: "json \<Rightarrow> activity_kind capture" where
  "read_kind v =
     (if v = JStr ''scan'' then Inr SCAN else if v = JStr ''dwell'' then Inr DWELL
      else if v = JStr ''calibration'' then Inr CALIBRATION else if v = JStr ''test'' then Inr TEST
      else Inl (ValueError (Plan_Doc Unknown_Member)))"

definition read_gain_mode :: "json \<Rightarrow> gain_mode capture" where
  "read_gain_mode v =
     (if v = JStr ''manual'' then Inr MANUAL else if v = JStr ''agc'' then Inr AGC
      else Inl (ValueError (Plan_Doc Unknown_Member)))"

definition read_gain :: "json \<Rightarrow> gain_setting capture" where
  "read_gain v =
     bindE (bindE (subscript ''mode'' v) read_gain_mode) (\<lambda>m.
     bindE (bindE (subscript ''gain_db'' v) (maybe plain_num)) (\<lambda>d.
       checked gain_setting_post_init \<lparr>g_mode = m, gain_db = d\<rparr>))"

text \<open>\<open>_immutable_json\<close>: lists become tuples, dicts tuples of their pairs in key order.\<close>

fun immutable_json :: "json \<Rightarrow> json" where
  "immutable_json (JList xs) = JList (map immutable_json xs)"
| "immutable_json (JObj kvs) =
     JList (map (\<lambda>(k, v). JList [JStr k, v]) (sort_key fst (map (\<lambda>(k, v). (k, immutable_json v)) kvs)))"
| "immutable_json v = v"

definition read_pairs :: "json \<Rightarrow> frozen_pairs capture" where
  "read_pairs = each (\<lambda>p.
     case p of
       JList [k, item] \<Rightarrow> bindE (plain_str k) (\<lambda>k. Inr (k, immutable_json item))
     | _ \<Rightarrow> Inl (ValueError (Plan_Doc Wrong_Length)))"

definition read_segment_request :: "json \<Rightarrow> segment_request capture" where
  "read_segment_request v =
     bindE (subscript ''scheduled_utc_ns'' v) (\<lambda>scheduled.
     bindE (bindE (subscript ''segment_id'' v) (read_contract_id SegmentId)) (\<lambda>i.
     bindE (bindE (subscript ''center_frequency_hz'' v) plain_num) (\<lambda>center.
     bindE (bindE (subscript ''sample_rate_hz'' v) plain_num) (\<lambda>rate.
     bindE (bindE (subscript ''bandwidth_hz'' v) plain_num) (\<lambda>band.
     bindE (bindE (subscript ''receiver_chain_ids'' v) (each (read_contract_id ReceiverChainId))) (\<lambda>chains.
     bindE (bindE (subscript ''gain'' v) read_gain) (\<lambda>gain.
     bindE (bindE (subscript ''duration_s'' v) (maybe plain_num)) (\<lambda>duration.
     bindE (bindE (subscript ''sample_count'' v) (maybe plain_int)) (\<lambda>n.
     bindE (maybe plain_int scheduled) (\<lambda>t.
     bindE (bindE (subscript ''hardware_controls'' v) read_pairs) (\<lambda>controls.
     bindE (bindE (subscript ''tags'' v) read_pairs) (\<lambda>tags.
       checked segment_request_post_init
         \<lparr>sq_id = i, center_frequency_hz = center, sample_rate_hz = rate, bandwidth_hz = band,
          sq_chains = chains, sq_gain = gain, duration_s = duration, sq_count = n,
          scheduled_utc_ns = t, hardware_controls = controls, sq_tags = tags\<rparr>))))))))))))"

definition read_activity_request :: "json \<Rightarrow> activity_request capture" where
  "read_activity_request v =
     bindE (bindE (subscript ''activity_id'' v) (read_contract_id ActivityId)) (\<lambda>i.
     bindE (bindE (subscript ''kind'' v) read_kind) (\<lambda>k.
     bindE (bindE (subscript ''segments'' v) (each read_segment_request)) (\<lambda>ss.
       checked activity_request_post_init \<lparr>aq_id = i, aq_kind = k, aq_segments = ss\<rparr>)))"

definition read_plan :: "json \<Rightarrow> capture_plan capture" where
  "read_plan v =
     bindE (bindE (subscript ''schema'' v) read_local_schema) (\<lambda>s.
     bindE (bindE (subscript ''plan_id'' v) (read_contract_id PlanId)) (\<lambda>i.
     bindE (bindE (subscript ''radio_id'' v) (read_contract_id RadioId)) (\<lambda>r.
     bindE (bindE (subscript ''receiver_chain_ids'' v) (each (read_contract_id ReceiverChainId))) (\<lambda>chains.
     bindE (bindE (subscript ''activities'' v) (each read_activity_request)) (\<lambda>acts.
     bindE (bindE (subscript ''experiment_tags'' v) read_pairs) (\<lambda>tags.
       checked capture_plan_post_init
         \<lparr>cp_schema = s, cp_id = i, cp_radio = r, cp_chains = chains, cp_activities = acts, cp_tags = tags\<rparr>))))))"

definition decode_plan :: "string \<Rightarrow> capture_plan capture" where
  "decode_plan encoded =
     bindE (case json_loads encoded of Inl e \<Rightarrow> Inl (ValueError (Plan_Doc (Not_Json e))) | Inr v \<Rightarrow> Inr v) read_plan"

definition read_segment_manifest :: "json \<Rightarrow> segment_manifest capture" where
  "read_segment_manifest v =
     bindE (bindE (subscript ''segment_id'' v) (read_contract_id SegmentId)) (\<lambda>i.
     bindE (bindE (subscript ''requested'' v) read_segment_request) (\<lambda>req.
     bindE (bindE (subscript ''actual_center_frequency_hz'' v) plain_num) (\<lambda>center.
     bindE (bindE (subscript ''actual_sample_rate_hz'' v) plain_num) (\<lambda>rate.
     bindE (bindE (subscript ''actual_bandwidth_hz'' v) plain_num) (\<lambda>band.
     bindE (bindE (subscript ''actual_gain'' v) read_gain) (\<lambda>gain.
     bindE (bindE (subscript ''start_utc_ns'' v) plain_int) (\<lambda>t.
     bindE (bindE (subscript ''monotonic_start_ns'' v) plain_int) (\<lambda>m.
     bindE (bindE (subscript ''sample_count'' v) plain_int) (\<lambda>n.
     bindE (bindE (subscript ''shape'' v) (each plain_int)) (\<lambda>shape.
     bindE (bindE (subscript ''diagnostics'' v) read_pairs) (\<lambda>ds.
       checked segment_manifest_post_init
         \<lparr>sm_id = i, sm_requested = req, actual_center_frequency_hz = center, actual_sample_rate_hz = rate,
          actual_bandwidth_hz = band, actual_gain = gain, sm_start = t, monotonic_start_ns = m, sm_count = n,
          sm_shape = shape, sm_diagnostics = ds\<rparr>)))))))))))"

definition read_activity_manifest :: "json \<Rightarrow> activity_manifest capture" where
  "read_activity_manifest v =
     bindE (bindE (subscript ''activity_id'' v) (read_contract_id ActivityId)) (\<lambda>i.
     bindE (bindE (subscript ''kind'' v) read_kind) (\<lambda>k.
     bindE (bindE (subscript ''started_utc_ns'' v) plain_int) (\<lambda>s.
     bindE (bindE (subscript ''finished_utc_ns'' v) plain_int) (\<lambda>f.
     bindE (bindE (subscript ''segment_ids'' v) (each (read_contract_id SegmentId))) (\<lambda>ids.
       checked activity_manifest_post_init
         \<lparr>am_id = i, am_kind = k, am_started = s, am_finished = f, am_segment_ids = ids\<rparr>)))))"

definition read_manifest :: "json \<Rightarrow> recording_manifest capture" where
  "read_manifest v =
     bindE (bindE (subscript ''schema'' v) read_local_schema) (\<lambda>s.
     bindE (bindE (subscript ''recording_id'' v) (read_contract_id RecordingId)) (\<lambda>i.
     bindE (bindE (subscript ''created_utc_ns'' v) plain_int) (\<lambda>created.
     bindE (bindE (subscript ''capture_started_utc_ns'' v) plain_int) (\<lambda>started.
     bindE (bindE (subscript ''capture_finished_utc_ns'' v) plain_int) (\<lambda>finished.
     bindE (bindE (subscript ''station_id'' v) (read_contract_id StationId)) (\<lambda>station.
     bindE (bindE (subscript ''radio_id'' v) (read_contract_id RadioId)) (\<lambda>radio.
     bindE (bindE (subscript ''radio_serial'' v) plain_str) (\<lambda>serial.
     bindE (bindE (subscript ''receiver_chain_ids'' v) (each (read_contract_id ReceiverChainId))) (\<lambda>chains.
     bindE (bindE (subscript ''clock_status'' v) plain_str) (\<lambda>clock.
     bindE (bindE (subscript ''hardware_metadata_snapshot_id'' v) (read_contract_id HardwareSnapshotId)) (\<lambda>hw.
     bindE (bindE (subscript ''activities'' v) (each read_activity_manifest)) (\<lambda>acts.
     bindE (bindE (subscript ''segments'' v) (each read_segment_manifest)) (\<lambda>segs.
     bindE (bindE (subscript ''plan_id'' v) (read_contract_id PlanId)) (\<lambda>plan.
     bindE (bindE (subscript ''producer'' v) plain_str) (\<lambda>producer.
     bindE (bindE (subscript ''experiment_tags'' v) read_pairs) (\<lambda>tags.
     bindE (bindE (subscript ''sample_dtype'' v) plain_str) (\<lambda>dtype.
     bindE (bindE (subscript ''sample_layout'' v) (each plain_str)) (\<lambda>layout.
     bindE (bindE (subscript ''state'' v) plain_str) (\<lambda>st.
       checked recording_manifest_post_init
         \<lparr>rm_schema = s, rm_recording_id = i, rm_created = created, rm_started = started,
          rm_finished = finished, rm_station = station, rm_radio = radio, rm_serial = serial,
          rm_chains = chains, rm_clock_status = clock, rm_hardware = hw, rm_activities = acts,
          rm_segments = segs, rm_plan_id = plan, rm_producer = producer, rm_tags = tags,
          rm_dtype = dtype, rm_layout = layout, rm_state = st\<rparr>)))))))))))))))))))"

definition read_local_object :: "json \<Rightarrow> local_object capture" where
  "read_local_object v =
     bindE (bindE (subscript ''locator'' v) plain_str) (\<lambda>l.
     bindE (bindE (subscript ''digest'' v) read_local_digest) (\<lambda>d.
     bindE (bindE (subscript ''byte_count'' v) plain_int) (\<lambda>n.
       checked local_object_post_init \<lparr>lo_locator = l, lo_digest = d, lo_bytes = n\<rparr>)))"

definition read_completed :: "json \<Rightarrow> completed_recording capture" where
  "read_completed v =
     bindE (bindE (subscript ''manifest'' v) read_manifest) (\<lambda>m.
     bindE (bindE (subscript ''recording_id'' v) (read_contract_id RecordingId)) (\<lambda>i.
     bindE (bindE (subscript ''data_object'' v) read_local_object) (\<lambda>d.
     bindE (bindE (subscript ''metadata_object'' v) read_local_object) (\<lambda>e.
     bindE (bindE (subscript ''manifest_digest'' v) read_local_digest) (\<lambda>g.
       checked completed_recording_post_init
         \<lparr>co_recording_id = i, co_data = d, co_metadata = e, co_manifest = m, co_manifest_digest = g\<rparr>)))))"

definition decode_completed :: "string \<Rightarrow> completed_recording capture" where
  "decode_completed encoded =
     bindE (case json_loads encoded of Inl e \<Rightarrow> Inl (ValueError (Plan_Doc (Not_Json e))) | Inr v \<Rightarrow> Inr v)
       read_completed"

end
