(* ===== verification/Plan_Codec.thy ===== *)
theory Plan_Codec
  imports Capture_Plan
begin

section \<open>Capture plans and recordings as text\<close>

text \<open>
  What \<open>capture/serialization.py\<close> guarantees: every plan and every completed recording the
  constructors build is read back from its text, with the same text and digest again, and with
  numbers of the same value wherever a float shows its value.
\<close>

subsection \<open>Values that exist\<close>

fun finite_num :: "pynum \<Rightarrow> bool" where
  "finite_num (PyInt n) \<longleftrightarrow> True"
| "finite_num (PyFloat x) \<longleftrightarrow> round64 x = x"

text \<open>Frozen values: no dict is left in them.\<close>

fun frozen :: "json \<Rightarrow> bool" where
  "frozen (JFloat x) \<longleftrightarrow> round64 x = x"
| "frozen (JList xs) \<longleftrightarrow> (\<forall>v \<in> set xs. frozen v)"
| "frozen (JObj kvs) \<longleftrightarrow> False"
| "frozen v \<longleftrightarrow> True"

definition frozen_fields :: "frozen_pairs \<Rightarrow> bool" where
  "frozen_fields kvs \<longleftrightarrow> (\<forall>(k, v) \<in> set kvs. frozen v)"

definition built_gain :: "gain_setting \<Rightarrow> bool" where
  "built_gain g \<longleftrightarrow> gain_setting_post_init g = Inr () \<and> (\<forall>n \<in> set_option (gain_db g). finite_num n)"

definition built_segment_request :: "segment_request \<Rightarrow> bool" where
  "built_segment_request r \<longleftrightarrow>
     segment_request_post_init r = Inr () \<and> valid_id SegmentId (sq_id r)
     \<and> (\<forall>c \<in> set (sq_chains r). valid_id ReceiverChainId c)
     \<and> built_gain (sq_gain r) \<and> finite_num (center_frequency_hz r) \<and> finite_num (sample_rate_hz r)
     \<and> finite_num (bandwidth_hz r) \<and> (\<forall>n \<in> set_option (duration_s r). finite_num n)
     \<and> frozen_fields (hardware_controls r) \<and> frozen_fields (sq_tags r)"

definition built_activity_request :: "activity_request \<Rightarrow> bool" where
  "built_activity_request a \<longleftrightarrow>
     activity_request_post_init a = Inr () \<and> valid_id ActivityId (aq_id a)
     \<and> (\<forall>s \<in> set (aq_segments a). built_segment_request s)"

definition built_plan :: "capture_plan \<Rightarrow> bool" where
  "built_plan p \<longleftrightarrow>
     capture_plan_post_init p = Inr () \<and> built_schema (cp_schema p) \<and> valid_id PlanId (cp_id p)
     \<and> valid_id RadioId (cp_radio p) \<and> (\<forall>c \<in> set (cp_chains p). valid_id ReceiverChainId c)
     \<and> (\<forall>a \<in> set (cp_activities p). built_activity_request a) \<and> frozen_fields (cp_tags p)"

definition built_activity_manifest :: "activity_manifest \<Rightarrow> bool" where
  "built_activity_manifest a \<longleftrightarrow>
     activity_manifest_post_init a = Inr () \<and> valid_id ActivityId (am_id a)
     \<and> (\<forall>i \<in> set (am_segment_ids a). valid_id SegmentId i)"

definition built_segment_manifest :: "segment_manifest \<Rightarrow> bool" where
  "built_segment_manifest m \<longleftrightarrow>
     segment_manifest_post_init m = Inr () \<and> valid_id SegmentId (sm_id m)
     \<and> built_segment_request (sm_requested m) \<and> built_gain (actual_gain m)
     \<and> finite_num (actual_center_frequency_hz m) \<and> finite_num (actual_sample_rate_hz m)
     \<and> finite_num (actual_bandwidth_hz m) \<and> frozen_fields (sm_diagnostics m)"

definition built_manifest :: "recording_manifest \<Rightarrow> bool" where
  "built_manifest m \<longleftrightarrow>
     recording_manifest_post_init m = Inr () \<and> built_schema (rm_schema m)
     \<and> valid_id RecordingId (rm_recording_id m) \<and> valid_id StationId (rm_station m)
     \<and> valid_id RadioId (rm_radio m) \<and> (\<forall>c \<in> set (rm_chains m). valid_id ReceiverChainId c)
     \<and> valid_id HardwareSnapshotId (rm_hardware m) \<and> valid_id PlanId (rm_plan_id m)
     \<and> (\<forall>a \<in> set (rm_activities m). built_activity_manifest a)
     \<and> (\<forall>s \<in> set (rm_segments m). built_segment_manifest s) \<and> frozen_fields (rm_tags m)"

definition built_local_object :: "local_object \<Rightarrow> bool" where
  "built_local_object r \<longleftrightarrow> local_object_post_init r = Inr () \<and> built_digest (lo_digest r)"

definition built_completed :: "completed_recording \<Rightarrow> bool" where
  "built_completed r \<longleftrightarrow>
     completed_recording_post_init r = Inr () \<and> built_local_object (co_data r)
     \<and> built_local_object (co_metadata r) \<and> built_manifest (co_manifest r)"

lemmas built_parts =
  built_gain_def built_segment_request_def built_activity_request_def built_plan_def
  built_activity_manifest_def built_segment_manifest_def built_manifest_def built_local_object_def
  built_completed_def

subsection \<open>Reading the parts back\<close>

lemma subscript_sorted:
  assumes "distinct (map fst kvs)"
  shows "subscript k (JObj (sorted_fields kvs)) = map_sum id sorted_json (subscript k (JObj kvs))"
  by (cases "member k kvs") (simp_all add: subscript_def document member_sorted [OF assms] embed_exn_def)

lemma subscript_simps:
  "subscript k (JObj ((k, v) # kvs)) = Inr v"
  "k \<noteq> l \<Longrightarrow> subscript k (JObj ((l, v) # kvs)) = subscript k (JObj kvs)"
  by (simp_all add: subscript_def document)

lemma plain_reads [simp]:
  "plain_str (JStr s) = Inr s" "plain_int (JInt n) = Inr n" "plain_num (json_num m) = Inr m"
  by (simp_all add: plain_str_def plain_int_def document) (cases m; simp)

lemma sorted_num [simp]: "sorted_json (json_num n) = json_num n"
  by (cases n) simp_all

lemma json_num_not_null [simp]: "json_num n \<noteq> JNull"
  by (cases n) simp_all

lemma maybe_num [simp]: "maybe plain_num (sorted_json (json_option json_num x)) = Inr x"
  by (cases x) (simp_all add: maybe_def)

lemma maybe_int [simp]: "maybe plain_int (sorted_json (json_option JInt x)) = Inr x"
  by (cases x) (simp_all add: maybe_def)

lemma each_back:
  assumes "\<And>x. x \<in> set xs \<Longrightarrow> f (sorted_json (g x)) = Inr x"
  shows "each f (JList (map (sorted_json \<circ> g) xs)) = Inr xs"
proof -
  have "mapE f (map (sorted_json \<circ> g) xs) = Inr (map id xs)"
    unfolding mapE_map using assms by (intro mapE_eq_map) simp
  then show ?thesis by (simp add: each_def document comp_def)
qed

lemma ids_back [simp]:
  "\<forall>c \<in> set xs. valid_id k c \<Longrightarrow> each (read_contract_id k) (JList (map (sorted_json \<circ> JStr) xs)) = Inr xs"
  by (rule each_back) (simp add: read_contract_id_def)

lemma read_contract_id_JStr [simp]: "valid_id k s \<Longrightarrow> read_contract_id k (JStr s) = Inr s"
  by (simp add: read_contract_id_def)

lemma texts_back [simp]: "each plain_str (JList (map (sorted_json \<circ> JStr) xs)) = Inr xs"
  by (rule each_back) simp

lemma ints_back [simp]: "each plain_int (JList (map (sorted_json \<circ> JInt) xs)) = Inr xs"
  by (rule each_back) simp

lemma immutable_frozen: "frozen v \<Longrightarrow> immutable_json (sorted_json v) = v"
  by (induction v) (auto simp: map_idI)

lemma pairs_back [simp]: "frozen_fields kvs \<Longrightarrow> read_pairs (sorted_json (json_pairs kvs)) = Inr kvs"
  unfolding read_pairs_def json_pairs_def sorted_json.simps map_map
  by (rule each_back) (auto simp: frozen_fields_def immutable_frozen)

lemma kind_back [simp]: "read_kind (JStr (str_kind k)) = Inr k"
  by (cases k) (simp_all add: read_kind_def)

lemma mode_back [simp]: "read_gain_mode (JStr (str_mode m)) = Inr m"
  by (cases m) (simp_all add: read_gain_mode_def)

lemma local_digest_back [simp]:
  "built_digest d \<Longrightarrow> read_local_digest (sorted_json (json_digest d)) = Inr d"
  by (cases d; cases "algorithm d")
     (simp add: read_local_digest_def json_digest_def document subscript_sorted subscript_simps
       read_algorithm_def make_digest_def built_digest_def checked_def)

lemma local_schema_back [simp]:
  assumes "built_schema r"
  shows "read_local_schema (sorted_json (json_schema_ref r)) = Inr r"
proof -
  have "SchemaVersion (major (version r)) (minor (version r)) = version r" by simp
  then show ?thesis
    using assms
    by (cases r) (simp add: read_local_schema_def json_schema_ref_def json_schema_version_def document
      subscript_sorted subscript_simps built_schema_def checked_def)
qed

lemma gain_back [simp]: "built_gain g \<Longrightarrow> read_gain (sorted_json (json_gain g)) = Inr g"
  by (cases g) (simp add: read_gain_def json_gain_def document subscript_sorted subscript_simps built_gain_def)

lemma segment_request_back [simp]:
  "built_segment_request r \<Longrightarrow> read_segment_request (sorted_json (json_segment_request r)) = Inr r"
  by (cases r) (simp add: read_segment_request_def json_segment_request_def document subscript_sorted subscript_simps
      built_segment_request_def)

lemma activity_request_back [simp]:
  assumes "built_activity_request a"
  shows "read_activity_request (sorted_json (json_activity_request a)) = Inr a"
proof -
  have "each read_segment_request (JList (map (sorted_json \<circ> json_segment_request) (aq_segments a))) = Inr (aq_segments a)"
    using assms by (intro each_back) (auto simp: built_activity_request_def)
  then show ?thesis
    using assms by (cases a) (simp add: read_activity_request_def json_activity_request_def document subscript_sorted
        subscript_simps built_activity_request_def)
qed

lemma plan_back:
  assumes "built_plan p"
  shows "read_plan (sorted_json (json_plan p)) = Inr p"
proof -
  have "each read_activity_request (JList (map (sorted_json \<circ> json_activity_request) (cp_activities p))) = Inr (cp_activities p)"
    using assms by (intro each_back) (auto simp: built_plan_def)
  then show ?thesis
    using assms by (cases p) (simp add: read_plan_def json_plan_def document subscript_sorted subscript_simps built_plan_def)
qed

lemma activity_manifest_back [simp]:
  "built_activity_manifest a \<Longrightarrow> read_activity_manifest (sorted_json (json_activity_manifest a)) = Inr a"
  by (cases a) (simp add: read_activity_manifest_def json_activity_manifest_def document subscript_sorted subscript_simps
      built_activity_manifest_def)

lemma segment_manifest_back [simp]:
  "built_segment_manifest m \<Longrightarrow> read_segment_manifest (sorted_json (json_segment_manifest m)) = Inr m"
  by (cases m) (simp add: read_segment_manifest_def json_segment_manifest_def document subscript_sorted subscript_simps
      built_segment_manifest_def)

lemma manifest_back [simp]:
  assumes "built_manifest m"
  shows "read_manifest (sorted_json (json_manifest m)) = Inr m"
proof -
  have "each read_activity_manifest (JList (map (sorted_json \<circ> json_activity_manifest) (rm_activities m))) = Inr (rm_activities m)"
       "each read_segment_manifest (JList (map (sorted_json \<circ> json_segment_manifest) (rm_segments m))) = Inr (rm_segments m)"
    using assms by (auto intro!: each_back simp: built_manifest_def)
  then show ?thesis
    using assms by (cases m) (simp add: read_manifest_def json_manifest_def document subscript_sorted subscript_simps
        built_manifest_def)
qed

lemma local_object_back [simp]:
  "built_local_object r \<Longrightarrow> read_local_object (sorted_json (json_local_object r)) = Inr r"
  by (cases r) (simp add: read_local_object_def json_local_object_def document subscript_sorted subscript_simps
      built_local_object_def)

lemma built_completed_digest: "built_completed r \<Longrightarrow> built_digest (co_manifest_digest r)"
  by (auto simp: built_completed_def completed_recording_post_init_def canonical_digest_built)

lemma built_completed_id: "built_completed r \<Longrightarrow> valid_id RecordingId (co_recording_id r)"
  by (simp add: built_completed_def built_manifest_def completed_recording_post_init_def)

lemma completed_back:
  assumes "built_completed r"
  shows "read_completed (sorted_json (json_completed r)) = Inr r"
  using assms built_completed_digest [OF assms] built_completed_id [OF assms]
  by (cases r) (simp add: read_completed_def json_completed_def document subscript_sorted subscript_simps
      built_completed_def)

subsection \<open>Documents of these values\<close>

lemma finite_num_json [simp]: "finite_json (json_num n) \<longleftrightarrow> finite_num n"
  by (cases n) simp_all

lemma frozen_finite: "frozen v \<Longrightarrow> finite_json v"
  by (induction v) auto

lemma finite_option [simp]: "finite_json (json_option f x) \<longleftrightarrow> (\<forall>a \<in> set_option x. finite_json (f a))"
  by (cases x) simp_all

lemma finite_pairs [simp]: "frozen_fields kvs \<Longrightarrow> finite_json (json_pairs kvs)"
  by (auto simp: json_pairs_def frozen_fields_def frozen_finite)

lemma finite_core [simp]: "finite_json (json_digest d)" "finite_json (json_schema_ref r)"
  by (simp_all add: json_digest_def json_schema_ref_def json_schema_version_def)

lemma finite_gain [simp]: "built_gain g \<Longrightarrow> finite_json (json_gain g)"
  by (simp add: built_gain_def json_gain_def)

lemma finite_request [simp]: "built_segment_request r \<Longrightarrow> finite_json (json_segment_request r)"
  by (simp add: built_segment_request_def json_segment_request_def)

lemma finite_plan: "built_plan p \<Longrightarrow> finite_json (json_plan p)"
  by (auto simp: built_plan_def json_plan_def built_activity_request_def json_activity_request_def)

lemma finite_segment [simp]: "built_segment_manifest m \<Longrightarrow> finite_json (json_segment_manifest m)"
  by (simp add: built_segment_manifest_def json_segment_manifest_def)

lemma finite_manifest [simp]: "built_manifest m \<Longrightarrow> finite_json (json_manifest m)"
  by (auto simp: built_manifest_def json_manifest_def json_activity_manifest_def)

lemma finite_completed: "built_completed r \<Longrightarrow> finite_json (json_completed r)"
  by (simp add: built_completed_def json_completed_def json_local_object_def)

subsection \<open>What is read back\<close>

text \<open>The number the text of a number reads as; the records with every number read back.\<close>

fun num_read :: "pynum \<Rightarrow> pynum" where
  "num_read (PyInt n) = PyInt n"
| "num_read (PyFloat x) = (case float_read x of JInt m \<Rightarrow> PyInt m | _ \<Rightarrow> PyFloat x)"

definition pairs_read :: "frozen_pairs \<Rightarrow> frozen_pairs" where
  "pairs_read kvs = map (\<lambda>(k, v). (k, as_read v)) kvs"

definition gain_read :: "gain_setting \<Rightarrow> gain_setting" where
  "gain_read g = g\<lparr>gain_db := map_option num_read (gain_db g)\<rparr>"

definition segment_request_read :: "segment_request \<Rightarrow> segment_request" where
  "segment_request_read r = r\<lparr>
     center_frequency_hz := num_read (center_frequency_hz r), sample_rate_hz := num_read (sample_rate_hz r),
     bandwidth_hz := num_read (bandwidth_hz r), sq_gain := gain_read (sq_gain r),
     duration_s := map_option num_read (duration_s r), hardware_controls := pairs_read (hardware_controls r),
     sq_tags := pairs_read (sq_tags r)\<rparr>"

definition activity_request_read :: "activity_request \<Rightarrow> activity_request" where
  "activity_request_read a = a\<lparr>aq_segments := map segment_request_read (aq_segments a)\<rparr>"

definition plan_read :: "capture_plan \<Rightarrow> capture_plan" where
  "plan_read p = p\<lparr>cp_activities := map activity_request_read (cp_activities p), cp_tags := pairs_read (cp_tags p)\<rparr>"

definition segment_manifest_read :: "segment_manifest \<Rightarrow> segment_manifest" where
  "segment_manifest_read m = m\<lparr>
     sm_requested := segment_request_read (sm_requested m),
     actual_center_frequency_hz := num_read (actual_center_frequency_hz m),
     actual_sample_rate_hz := num_read (actual_sample_rate_hz m),
     actual_bandwidth_hz := num_read (actual_bandwidth_hz m), actual_gain := gain_read (actual_gain m),
     sm_diagnostics := pairs_read (sm_diagnostics m)\<rparr>"

definition manifest_read :: "recording_manifest \<Rightarrow> recording_manifest" where
  "manifest_read m = m\<lparr>rm_segments := map segment_manifest_read (rm_segments m), rm_tags := pairs_read (rm_tags m)\<rparr>"

definition completed_read :: "completed_recording \<Rightarrow> completed_recording" where
  "completed_read r = r\<lparr>co_manifest := manifest_read (co_manifest r)\<rparr>"

lemmas read_parts =
  gain_read_def segment_request_read_def activity_request_read_def plan_read_def segment_manifest_read_def
  manifest_read_def completed_read_def

lemma float_read_cases:
  assumes "round64 x = x"
  shows "float_read x = JFloat x \<or> (\<exists>m. float_read x = JInt m \<and> round64 (of_int m) = x)"
  using float_read_as(1) [OF assms] by (auto simp: reads_as_def)

lemma num_read_json [simp]: "finite_num n \<Longrightarrow> as_read (json_num n) = json_num (num_read n)"
  using float_read_cases by (cases n) fastforce+

lemma round64_int_sign: "round64 (of_int m) = x \<Longrightarrow> (0 < x \<longleftrightarrow> 0 < m)"
proof -
  assume x: "round64 (of_int m) = x"
  consider "\<bar>m\<bar> < 2 ^ 53" | "2 ^ 53 \<le> m" | "2 ^ 53 \<le> - m" by linarith
  then show ?thesis
  proof cases
    case 1
    then show ?thesis using x by (auto simp: round64_int)
  next
    case 2
    then obtain n where n: "x = of_int n" "2 ^ 53 \<le> n" using round64_whole_large x by metis
    have "(0 :: int) < 2 ^ 53" by simp
    then have "0 < n" "0 < m" using 2 n(2) by linarith+
    then show ?thesis using n(1) by simp
  next
    case 3
    then obtain n where n: "- x = of_int n" "2 ^ 53 \<le> n"
      using round64_whole_large [OF 3] x by (auto simp: round64_minus)
    have "(0 :: int) < 2 ^ 53" by simp
    then have "0 < n" "\<not> 0 < m" using 3 n(2) by linarith+
    moreover have "(0 :: rat) < - x" unfolding n(1) using \<open>0 < n\<close> by simp
    ultimately show ?thesis by simp
  qed
qed

lemma num_read_positive [simp]:
  "finite_num n \<Longrightarrow> require_positive_number (num_read n) = require_positive_number n"
proof (cases n)
  case (PyFloat x)
  assume "finite_num n"
  then have x: "round64 x = x" using PyFloat by simp
  show ?thesis
    using float_read_cases [OF x] round64_int_sign [of _ x] PyFloat
    by (auto simp: require_positive_number_def not_less [symmetric] split: if_splits)
qed simp

lemma as_read_frozen: "frozen v \<Longrightarrow> frozen (as_read v)"
proof (induction v)
  case (JFloat x)
  then show ?case using float_read_cases [of x] by auto
qed auto

lemma num_read_finite [simp]: "finite_num n \<Longrightarrow> finite_num (num_read n)"
  using float_read_cases by (cases n) fastforce+

lemma pairs_read_frozen [simp]: "frozen_fields kvs \<Longrightarrow> frozen_fields (pairs_read kvs)"
  by (auto simp: frozen_fields_def pairs_read_def as_read_frozen)

lemma pairs_read_json [simp]: "as_read (json_pairs kvs) = json_pairs (pairs_read kvs)"
  by (auto simp: json_pairs_def pairs_read_def)

lemma option_read_json [simp]:
  "\<forall>n \<in> set_option x. finite_num n \<Longrightarrow>
    as_read (json_option json_num x) = json_option json_num (map_option num_read x)"
  by (cases x) simp_all

lemma core_read [simp]: "as_read (json_digest d) = json_digest d" "as_read (json_schema_ref r) = json_schema_ref r"
  "as_read (json_option JInt n) = json_option JInt n"
  by (simp_all add: json_digest_def json_schema_ref_def json_schema_version_def) (cases n; simp)

lemma gain_read_json [simp]: "built_gain g \<Longrightarrow> as_read (json_gain g) = json_gain (gain_read g)"
  by (simp add: json_gain_def gain_read_def built_gain_def)

lemma segment_request_read_json [simp]:
  "built_segment_request r \<Longrightarrow> as_read (json_segment_request r) = json_segment_request (segment_request_read r)"
  by (simp add: json_segment_request_def segment_request_read_def built_segment_request_def comp_def)

lemma activity_request_read_json [simp]:
  "built_activity_request a \<Longrightarrow> as_read (json_activity_request a) = json_activity_request (activity_request_read a)"
  by (simp add: json_activity_request_def activity_request_read_def built_activity_request_def)

lemma plan_read_json: "built_plan p \<Longrightarrow> as_read (json_plan p) = json_plan (plan_read p)"
  by (simp add: json_plan_def plan_read_def built_plan_def comp_def)

lemma segment_manifest_read_json [simp]:
  "built_segment_manifest m \<Longrightarrow> as_read (json_segment_manifest m) = json_segment_manifest (segment_manifest_read m)"
  by (simp add: json_segment_manifest_def segment_manifest_read_def built_segment_manifest_def comp_def)

lemma activity_manifest_read_json [simp]: "as_read (json_activity_manifest a) = json_activity_manifest a"
  by (simp add: json_activity_manifest_def comp_def)

lemma manifest_read_json [simp]:
  "built_manifest m \<Longrightarrow> as_read (json_manifest m) = json_manifest (manifest_read m)"
  by (simp add: json_manifest_def manifest_read_def built_manifest_def comp_def)

lemma local_object_read_json [simp]: "as_read (json_local_object r) = json_local_object r"
  by (simp add: json_local_object_def)

lemma completed_read_json:
  "built_completed r \<Longrightarrow> as_read (json_completed r) = json_completed (completed_read r)"
  by (simp add: json_completed_def completed_read_def built_completed_def)

subsection \<open>The value read back was built\<close>

lemma option_read_finite [simp]:
  "\<forall>n \<in> set_option x. finite_num n \<Longrightarrow> \<forall>n \<in> set_option (map_option num_read x). finite_num n"
  by (cases x) simp_all

lemma built_gain_read [simp]: "built_gain g \<Longrightarrow> built_gain (gain_read g)"
  by (auto simp: built_gain_def gain_read_def gain_setting_post_init_def)

lemma built_segment_request_read [simp]:
  assumes "built_segment_request r"
  shows "built_segment_request (segment_request_read r)"
proof -
  have "segment_request_post_init (segment_request_read r) = segment_request_post_init r"
    using assms unfolding segment_request_post_init_def segment_request_read_def built_segment_request_def
    by (cases "duration_s r") simp_all
  then show ?thesis
    using assms by (simp add: built_segment_request_def) (auto simp: segment_request_read_def)
qed

lemma built_activity_request_read [simp]:
  assumes "built_activity_request a"
  shows "built_activity_request (activity_request_read a)"
proof -
  have "map sq_id (map segment_request_read xs) = map sq_id xs" for xs
    by (simp add: segment_request_read_def)
  then show ?thesis
    using assms by (simp add: built_activity_request_def activity_request_read_def activity_request_post_init_def
        del: map_map)
qed

lemma built_plan_read:
  assumes "built_plan p"
  shows "built_plan (plan_read p)"
proof -
  have "aq_id (activity_request_read a) = aq_id a"
      "map sq_chains (aq_segments (activity_request_read a)) = map sq_chains (aq_segments a)" for a
    by (simp_all add: activity_request_read_def segment_request_read_def)
  then have m: "map aq_id (map activity_request_read as) = map aq_id as"
      "(\<exists>a \<in> set (map activity_request_read as). \<exists>s \<in> set (aq_segments a). \<not> set (sq_chains s) \<subseteq> C)
        \<longleftrightarrow> (\<exists>a \<in> set as. \<exists>s \<in> set (aq_segments a). \<not> set (sq_chains s) \<subseteq> C)" for as C
    by (auto simp: activity_request_read_def segment_request_read_def)
  have "capture_plan_post_init (plan_read p) = capture_plan_post_init p"
    unfolding capture_plan_post_init_def plan_read_def
    by (cases p) (simp only: capture_plan.simps m map_is_Nil_conv)
  then show ?thesis using assms by (simp add: built_plan_def) (simp add: plan_read_def)
qed

lemma built_segment_manifest_read [simp]:
  assumes "built_segment_manifest m"
  shows "built_segment_manifest (segment_manifest_read m)"
proof -
  have r: "sq_id (segment_request_read r) = sq_id r" "sq_chains (segment_request_read r) = sq_chains r" for r
    by (simp_all add: segment_request_read_def)
  have "segment_manifest_post_init (segment_manifest_read m) = segment_manifest_post_init m"
  proof -
    have "finite_num (actual_center_frequency_hz m)" "finite_num (actual_sample_rate_hz m)"
        "finite_num (actual_bandwidth_hz m)"
      using assms by (simp_all add: built_segment_manifest_def)
    then have "require_positive_number (num_read (actual_center_frequency_hz m)) = require_positive_number (actual_center_frequency_hz m)"
        "require_positive_number (num_read (actual_sample_rate_hz m)) = require_positive_number (actual_sample_rate_hz m)"
        "require_positive_number (num_read (actual_bandwidth_hz m)) = require_positive_number (actual_bandwidth_hz m)"
      by simp_all
    then show ?thesis
      unfolding segment_manifest_post_init_def segment_manifest_read_def
      by (cases m) (simp only: segment_manifest.simps r)
  qed
  then show ?thesis
    using assms by (simp add: built_segment_manifest_def) (simp add: segment_manifest_read_def)
qed

lemma built_manifest_read [simp]:
  assumes "built_manifest m"
  shows "built_manifest (manifest_read m)"
proof -
  have "map sm_id (map segment_manifest_read xs) = map sm_id xs" for xs
    by (simp add: segment_manifest_read_def)
  then have "recording_manifest_post_init (manifest_read m) = recording_manifest_post_init m"
    unfolding recording_manifest_post_init_def manifest_read_def by (cases m) (simp only: recording_manifest.simps)
  then show ?thesis using assms by (simp add: built_manifest_def) (simp add: manifest_read_def)
qed

lemma manifest_digest_read:
  "built_manifest m \<Longrightarrow> canonical_digest (json_manifest (manifest_read m)) = canonical_digest (json_manifest m)"
  using encode_as_read [OF finite_manifest, of m]
  by (simp add: canonical_digest_def canonical_json_bytes_def)

lemma built_completed_read:
  assumes "built_completed r"
  shows "built_completed (completed_read r)"
proof -
  have "rm_recording_id (manifest_read m) = rm_recording_id m" for m by (simp add: manifest_read_def)
  with assms manifest_digest_read [of "co_manifest r"] show ?thesis
    by (simp add: built_completed_def completed_read_def completed_recording_post_init_def)
qed

lemma decode_encoded_plan:
  assumes "built_plan p"
  shows "decode_plan (encode_plan p) = Inr (plan_read p)" "encode_plan (plan_read p) = encode_plan p"
proof -
  have "json_loads (encode_plan p) = Inr (sorted_json (json_plan (plan_read p)))"
    using json_read_finite [OF finite_plan [OF assms], of False] plan_read_json [OF assms]
    by (simp add: json_loads_def encode_plan_def)
  then show "decode_plan (encode_plan p) = Inr (plan_read p)"
    using plan_back [OF built_plan_read [OF assms]] by (simp add: decode_plan_def)
  show "encode_plan (plan_read p) = encode_plan p"
    using encode_as_read [OF finite_plan [OF assms]] plan_read_json [OF assms]
    by (simp add: encode_plan_def canonical_json_bytes_def)
qed

lemma decode_encoded_completed:
  assumes "built_completed r"
  shows "decode_completed (encode_completed r) = Inr (completed_read r)"
    "encode_completed (completed_read r) = encode_completed r"
proof -
  have "json_loads (encode_completed r) = Inr (sorted_json (json_completed (completed_read r)))"
    using json_read_finite [OF finite_completed [OF assms], of False] completed_read_json [OF assms]
    by (simp add: json_loads_def encode_completed_def)
  then show "decode_completed (encode_completed r) = Inr (completed_read r)"
    using completed_back [OF built_completed_read [OF assms]] by (simp add: decode_completed_def)
  show "encode_completed (completed_read r) = encode_completed r"
    using encode_as_read [OF finite_completed [OF assms]] completed_read_json [OF assms]
    by (simp add: encode_completed_def canonical_json_bytes_def)
qed

subsection \<open>Python equality\<close>

text \<open>
  Documents up to \<open>1 == 1.0\<close>: a float without fraction is written as the integer. Two values of
  the same class with the same such document are equal in Python.
\<close>

fun same_numbers :: "json \<Rightarrow> json" where
  "same_numbers (JFloat x) = (if of_int \<lfloor>x\<rfloor> = x then JInt \<lfloor>x\<rfloor> else JFloat x)"
| "same_numbers (JList xs) = JList (map same_numbers xs)"
| "same_numbers (JObj kvs) = JObj (map (\<lambda>(k, v). (k, same_numbers v)) kvs)"
| "same_numbers v = v"

text \<open>No float without a fraction from \<open>2\<^sup>5\<^sup>3\<close> on, where the text no longer shows every digit.\<close>

fun shown_exactly :: "json \<Rightarrow> bool" where
  "shown_exactly (JFloat x) \<longleftrightarrow> \<bar>x\<bar> < 2 ^ 53 \<or> of_int \<lfloor>x\<rfloor> \<noteq> x"
| "shown_exactly (JList xs) \<longleftrightarrow> (\<forall>v \<in> set xs. shown_exactly v)"
| "shown_exactly (JObj kvs) \<longleftrightarrow> (\<forall>(k, v) \<in> set kvs. shown_exactly v)"
| "shown_exactly v \<longleftrightarrow> True"

lemma same_numbers_read: "finite_json v \<Longrightarrow> shown_exactly v \<Longrightarrow> same_numbers (as_read v) = same_numbers v"
proof (induction v)
  case (JFloat x)
  then have x: "round64 x = x" "\<bar>x\<bar> < 2 ^ 53 \<or> x \<notin> \<int>" by (auto simp: Ints_def)
  from reads_as_value [OF float_read_as(1) [OF x(1)] x(2)] show ?case
  proof (elim disjE exE conjE)
    fix m
    assume "float_read x = JInt m" and "of_int m = x"
    then show ?thesis by auto
  qed simp
next
  case (JObj kvs)
  then have "map (\<lambda>(k, v). (k, same_numbers v)) (map (\<lambda>(k, v). (k, as_read v)) kvs)
      = map (\<lambda>(k, v). (k, same_numbers v)) kvs" by fastforce
  then show ?case by (simp only: as_read.simps same_numbers.simps)
qed auto

subsection \<open>The round trip\<close>

definition demo_gain :: gain_setting where
  "demo_gain = \<lparr>g_mode = MANUAL, gain_db = Some (PyFloat (81 / 2))\<rparr>"

definition demo_request :: segment_request where
  "demo_request =
     \<lparr>sq_id = ''seg_1'', center_frequency_hz = PyFloat 11075000000, sample_rate_hz = PyInt 61440000,
      bandwidth_hz = PyInt 56000000, sq_chains = [''rx_a'', ''rx_b''], sq_gain = demo_gain,
      duration_s = Some (PyFloat (1 / 4)), sq_count = None, scheduled_utc_ns = Some 7,
      hardware_controls = [(''lo'', JFloat (1 / 2))], sq_tags = [(''edge'', JList [JStr ''low'', JNull])]\<rparr>"

definition demo_plan :: capture_plan where
  "demo_plan =
     \<lparr>cp_schema = schema_v0_1 ''org.leo-flow.capture-plan'', cp_id = ''plan_1'', cp_radio = ''radio_1'',
      cp_chains = [''rx_a'', ''rx_b''],
      cp_activities = [\<lparr>aq_id = ''act_1'', aq_kind = DWELL, aq_segments = [demo_request]\<rparr>], cp_tags = []\<rparr>"

definition demo_manifest :: recording_manifest where
  "demo_manifest =
     \<lparr>rm_schema = schema_v0_1 ''org.leo-flow.recording-manifest'', rm_recording_id = ''rec_1'',
      rm_created = 1, rm_started = 2, rm_finished = 9, rm_station = ''station_1'', rm_radio = ''radio_1'',
      rm_serial = ''serial'', rm_chains = [''rx_a'', ''rx_b''], rm_clock_status = ''locked'', rm_hardware = ''hw_1'',
      rm_activities = [\<lparr>am_id = ''act_1'', am_kind = DWELL, am_started = 2, am_finished = 9, am_segment_ids = [''seg_1'']\<rparr>],
      rm_segments = [\<lparr>sm_id = ''seg_1'', sm_requested = demo_request,
        actual_center_frequency_hz = PyFloat (22150000001 / 2), actual_sample_rate_hz = PyInt 61440000,
        actual_bandwidth_hz = PyInt 56000000, actual_gain = demo_gain, sm_start = 3, monotonic_start_ns = 5,
        sm_count = 4, sm_shape = [4, 2, 2], sm_diagnostics = []\<rparr>],
      rm_plan_id = ''plan_1'', rm_producer = ''capture'', rm_tags = [], rm_dtype = ''<i2'',
      rm_layout = [''sample'', ''receiver'', ''component''], rm_state = ''complete''\<rparr>"

definition demo_object :: "char \<Rightarrow> local_object" where
  "demo_object c =
     \<lparr>lo_locator = [c], lo_digest = \<lparr>algorithm = SHA256, dvalue = replicate 64 c\<rparr>, lo_bytes = 16\<rparr>"

definition demo_recording :: completed_recording where
  "demo_recording =
     \<lparr>co_recording_id = ''rec_1'', co_data = demo_object CHR ''a'', co_metadata = demo_object CHR ''b'',
      co_manifest = demo_manifest, co_manifest_digest = canonical_digest (json_manifest demo_manifest)\<rparr>"

lemma demo_built: "built_plan demo_plan" "built_manifest demo_manifest"
  "built_local_object (demo_object CHR ''a'')" "built_local_object (demo_object CHR ''b'')"
  by code_simp+

lemma demo_recording_built: "built_completed demo_recording"
  using demo_built
  by (simp add: built_completed_def demo_recording_def completed_recording_post_init_def)
     (simp add: demo_object_def demo_manifest_def)

text \<open>
  C16. A capture plan and a completed recording survive their text: whatever the constructors
  accepted, decoding its encoding does not fail and returns a value the constructors accept, with
  the same text and so the same digests again; and the value is equal to the original, up to
  \<open>1 == 1.0\<close>, unless it holds a float without fraction from \<open>2\<^sup>5\<^sup>3\<close> on.
\<close>

theorem capture_texts_round_trip:
  "(\<forall>p. built_plan p \<longrightarrow>
     (\<exists>q. decode_plan (encode_plan p) = Inr q \<and> built_plan q \<and> encode_plan q = encode_plan p
        \<and> (shown_exactly (json_plan p) \<longrightarrow> same_numbers (json_plan q) = same_numbers (json_plan p))))
   \<and> (\<forall>r. built_completed r \<longrightarrow>
     (\<exists>q. decode_completed (encode_completed r) = Inr q \<and> built_completed q
        \<and> encode_completed q = encode_completed r \<and> co_manifest_digest q = co_manifest_digest r
        \<and> (shown_exactly (json_completed r) \<longrightarrow>
             same_numbers (json_completed q) = same_numbers (json_completed r))))"
proof (intro conjI allI impI)
  fix p
  assume p: "built_plan p"
  show "\<exists>q. decode_plan (encode_plan p) = Inr q \<and> built_plan q \<and> encode_plan q = encode_plan p
    \<and> (shown_exactly (json_plan p) \<longrightarrow> same_numbers (json_plan q) = same_numbers (json_plan p))"
    using decode_encoded_plan [OF p] built_plan_read [OF p] plan_read_json [OF p]
      same_numbers_read [OF finite_plan [OF p]] by auto
next
  fix r
  assume r: "built_completed r"
  have "co_manifest_digest (completed_read r) = co_manifest_digest r" by (simp add: completed_read_def)
  then show "\<exists>q. decode_completed (encode_completed r) = Inr q \<and> built_completed q
    \<and> encode_completed q = encode_completed r \<and> co_manifest_digest q = co_manifest_digest r
    \<and> (shown_exactly (json_completed r) \<longrightarrow> same_numbers (json_completed q) = same_numbers (json_completed r))"
    using decode_encoded_completed [OF r] built_completed_read [OF r] completed_read_json [OF r]
      same_numbers_read [OF finite_completed [OF r]] by auto
qed

theorem capture_texts_round_trip_witness:
  "(\<exists>q. decode_plan (encode_plan demo_plan) = Inr q \<and> same_numbers (json_plan q) = same_numbers (json_plan demo_plan))
   \<and> (\<exists>q. decode_completed (encode_completed demo_recording) = Inr q \<and> built_completed q
        \<and> encode_completed q = encode_completed demo_recording)"
proof -
  have "shown_exactly (json_plan demo_plan)" by code_simp
  then show ?thesis using capture_texts_round_trip demo_built(1) demo_recording_built by blast
qed

end
