(* ===== verification/Plan_Rows.thy ===== *)
theory Plan_Rows
  imports Plan_Codec
begin

section \<open>The capture plan repository\<close>

text \<open>
  \<open>capture/plan_repository.py\<close>: immutable plans in SQLite, keyed by plan identity with a unique
  idempotency key. The table is a list of rows; \<open>publish\<close> runs in one immediate transaction and
  \<open>get\<close> is one statement. The clock is an argument.
\<close>

datatype plan_store_error = Empty_Plan_Key | Plan_Conflict | Plan_Integrity | No_Plan | Plan_Text capture_error

record plan_row =
  pr_plan_id :: string
  pr_digest :: string
  pr_key :: string
  pr_payload :: string
  pr_accepted :: int

record capture_plan_ref =
  plan_ref_id :: string
  plan_ref_digest :: digest

type_synonym plan_table = "plan_row list"

definition plan_publish ::
  "capture_plan \<Rightarrow> string \<Rightarrow> int \<Rightarrow> (plan_table, plan_store_error exn, capture_plan_ref) io" where
  "plan_publish p key now tbl =
     (if key = [] then (Inl (ValueError Empty_Plan_Key), tbl)
      else
        let payload = encode_plan p; d = canonical_digest (json_plan p);
            ref = \<lparr>plan_ref_id = cp_id p, plan_ref_digest = d\<rparr>;
            rows = filter (\<lambda>r. pr_plan_id r = cp_id p \<or> pr_key r = key) tbl in
        if rows \<noteq> [] then
          if length rows \<noteq> 1
             \<or> (pr_plan_id (hd rows), pr_digest (hd rows), pr_key (hd rows), pr_payload (hd rows))
               \<noteq> (cp_id p, str_digest d, key, payload)
          then (Inl (RuntimeError Plan_Conflict), tbl)
          else (Inr ref, tbl)
        else
          (Inr ref, tbl @ [\<lparr>pr_plan_id = cp_id p, pr_digest = str_digest d, pr_key = key,
             pr_payload = payload, pr_accepted = now\<rparr>]))"

definition plan_get :: "string \<Rightarrow> plan_table \<Rightarrow> (plan_store_error, capture_plan) result" where
  "plan_get i tbl =
     (case find (\<lambda>r. pr_plan_id r = i) tbl of
        None \<Rightarrow> Inl (KeyError No_Plan)
      | Some r \<Rightarrow>
          bindE (embed_exn Plan_Text (decode_plan (pr_payload r))) (\<lambda>p.
            if cp_id p \<noteq> i \<or> str_digest (canonical_digest (json_plan p)) \<noteq> pr_digest r
               \<or> encode_plan p \<noteq> pr_payload r
            then Inl (RuntimeError Plan_Integrity) else Inr p))"

text \<open>Publishing plans one after another, each with its key and the clock.\<close>

definition publish_all :: "(capture_plan \<times> string \<times> int) list \<Rightarrow> plan_table \<Rightarrow> plan_table" where
  "publish_all calls tbl = fold (\<lambda>(p, k, now) t. snd (plan_publish p k now t)) calls tbl"

definition plan_row_of :: "capture_plan \<Rightarrow> string \<Rightarrow> plan_row \<Rightarrow> bool" where
  "plan_row_of p k r \<longleftrightarrow>
     pr_plan_id r = cp_id p \<and> pr_key r = k \<and> pr_payload r = encode_plan p
     \<and> pr_digest r = str_digest (canonical_digest (json_plan p))"

text \<open>Identities and keys are unique.\<close>

definition plan_table_ok :: "plan_table \<Rightarrow> bool" where
  "plan_table_ok tbl \<longleftrightarrow> distinct (map pr_plan_id tbl) \<and> distinct (map pr_key tbl)"

lemma plan_publish_stored:
  assumes "plan_table_ok tbl" and "r \<in> set tbl" and "plan_row_of p k r"
  shows "filter (\<lambda>q. pr_plan_id q = cp_id p \<or> pr_key q = k) tbl = [r]"
proof -
  obtain xs ys where t: "tbl = xs @ r # ys" using assms(2) by (auto simp: in_set_conv_decomp)
  have u: "pr_plan_id r \<notin> pr_plan_id ` (set xs \<union> set ys)" "pr_key r \<notin> pr_key ` (set xs \<union> set ys)"
    using assms(1) unfolding plan_table_ok_def t by auto
  have "\<forall>q \<in> set xs \<union> set ys. pr_plan_id q \<noteq> pr_plan_id r \<and> pr_key q \<noteq> pr_key r"
    using imageI [of _ "set xs \<union> set ys" pr_plan_id] imageI [of _ "set xs \<union> set ys" pr_key] u by metis
  moreover have "pr_plan_id r = cp_id p" "pr_key r = k" using assms(3) by (simp_all add: plan_row_of_def)
  ultimately show ?thesis unfolding t by (auto simp: filter_empty_conv)
qed

lemma find_SomeD: "find P xs = Some x \<Longrightarrow> x \<in> set xs \<and> P x"
  by (induction xs) (auto split: if_splits)

lemma plan_publish_keeps:
  "plan_table_ok tbl \<Longrightarrow> plan_table_ok (snd (plan_publish p k now tbl)) \<and> set tbl \<subseteq> set (snd (plan_publish p k now tbl))"
  by (auto simp: plan_publish_def plan_table_ok_def Let_def filter_empty_conv)

lemma publish_all_keeps:
  "plan_table_ok tbl \<Longrightarrow> plan_table_ok (publish_all calls tbl) \<and> set tbl \<subseteq> set (publish_all calls tbl)"
proof (induction calls arbitrary: tbl)
  case (Cons c calls)
  obtain p k now where c: "c = (p, k, now)" by (cases c)
  have "plan_table_ok (snd (plan_publish p k now tbl))" "set tbl \<subseteq> set (snd (plan_publish p k now tbl))"
    using plan_publish_keeps [OF Cons.prems] by auto
  with Cons.IH [OF this(1)] show ?case by (auto simp: publish_all_def c)
qed (simp add: publish_all_def)

lemma publish_stores:
  assumes "plan_publish p k now tbl = (Inr ref, t)"
  shows "k \<noteq> [] \<and> ref = \<lparr>plan_ref_id = cp_id p, plan_ref_digest = canonical_digest (json_plan p)\<rparr>
    \<and> (\<exists>r \<in> set t. plan_row_of p k r)"
proof (cases "filter (\<lambda>r. pr_plan_id r = cp_id p \<or> pr_key r = k) tbl")
  case Nil
  with assms show ?thesis by (auto simp: plan_publish_def plan_row_of_def Let_def split: if_splits)
next
  case (Cons r rs)
  then have "r \<in> set (filter (\<lambda>r. pr_plan_id r = cp_id p \<or> pr_key r = k) tbl)" by simp
  then have "r \<in> set tbl" by simp
  with Cons assms show ?thesis by (auto simp: plan_publish_def plan_row_of_def Let_def split: if_splits)
qed

lemma plan_get_stored:
  assumes "plan_table_ok tbl" and "r \<in> set tbl" and "plan_row_of p k r" and "built_plan p"
  shows "plan_get (cp_id p) tbl = Inr (plan_read p)"
proof -
  have i: "pr_plan_id r = cp_id p" using assms(3) by (simp add: plan_row_of_def)
  have "find (\<lambda>q. pr_plan_id q = cp_id p) tbl = Some r"
  proof (cases "find (\<lambda>q. pr_plan_id q = cp_id p) tbl")
    case None
    with assms(2) i show ?thesis unfolding find_None_iff by blast
  next
    case (Some q)
    from find_SomeD [OF this] have q: "q \<in> set tbl" "pr_plan_id q = pr_plan_id r" using i by simp_all
    have "inj_on pr_plan_id (set tbl)" using assms(1) by (simp add: plan_table_ok_def distinct_map)
    from inj_onD [OF this q(2) q(1) assms(2)] have "q = r" .
    with Some show ?thesis by simp
  qed
  moreover have "canonical_digest (json_plan (plan_read p)) = canonical_digest (json_plan p)"
    using decode_encoded_plan(2) [OF assms(4)] by (simp add: canonical_digest_def encode_plan_def)
  moreover have "cp_id (plan_read p) = cp_id p" by (simp add: plan_read_def)
  ultimately show ?thesis
    using decode_encoded_plan [OF assms(4)] assms(3) by (simp add: plan_get_def plan_row_of_def embed_exn_def)
qed

text \<open>
  C24. A published plan is immutable. Once \<open>publish\<close> has returned for a plan and a key, then after
  any further publications \<open>get\<close> returns that plan with the same text, publishing it again under
  its key returns the same reference and changes nothing, and publishing anything else under its
  identity or its key raises the conflict and changes nothing.
\<close>

theorem published_plan_is_immutable:
  assumes "plan_publish p k now (publish_all before []) = (Inr ref, t)" and "built_plan p"
    and "tbl = publish_all after t"
  shows "plan_get (cp_id p) tbl = Inr (plan_read p) \<and> encode_plan (plan_read p) = encode_plan p
    \<and> plan_publish p k now' tbl = (Inr ref, tbl)
    \<and> ((cp_id q = cp_id p \<or> k' = k) \<and> (encode_plan q \<noteq> encode_plan p \<or> cp_id q \<noteq> cp_id p \<or> k' \<noteq> k)
      \<longrightarrow> (\<exists>e. plan_publish q k' now' tbl = (Inl e, tbl)))"
proof -
  have "plan_table_ok (publish_all before [])"
    using publish_all_keeps [of "[]" before] by (simp add: plan_table_ok_def)
  then have t: "plan_table_ok t" using plan_publish_keeps [of _ p k now] assms(1) by (metis snd_conv)
  obtain r where r: "r \<in> set t" "plan_row_of p k r" and k: "k \<noteq> []"
      and ref: "ref = \<lparr>plan_ref_id = cp_id p, plan_ref_digest = canonical_digest (json_plan p)\<rparr>"
    using publish_stores [OF assms(1)] by blast
  have ok: "plan_table_ok tbl" "r \<in> set tbl" using publish_all_keeps [OF t, of after] r(1) assms(3) by auto
  note f = plan_publish_stored [OF ok r(2)]
  have same: "plan_publish p k now' tbl = (Inr ref, tbl)"
    using f r(2) k ref by (simp add: plan_publish_def plan_row_of_def Let_def)
  have other: "\<exists>e. plan_publish q k' now' tbl = (Inl e, tbl)"
    if "cp_id q = cp_id p \<or> k' = k" and "encode_plan q \<noteq> encode_plan p \<or> cp_id q \<noteq> cp_id p \<or> k' \<noteq> k"
  proof (cases "k' = []")
    case False
    let ?rows = "filter (\<lambda>x. pr_plan_id x = cp_id q \<or> pr_key x = k') tbl"
    have "r \<in> set ?rows" using ok(2) r(2) that(1) by (auto simp: plan_row_of_def)
    then have "?rows \<noteq> [] \<and> (length ?rows = 1 \<longrightarrow> hd ?rows = r)" by (cases ?rows) auto
    moreover have "(pr_plan_id r, pr_digest r, pr_key r, pr_payload r)
        \<noteq> (cp_id q, str_digest (canonical_digest (json_plan q)), k', encode_plan q)"
      using r(2) that(2) by (auto simp: plan_row_of_def)
    ultimately show ?thesis using False unfolding plan_publish_def Let_def by (simp only: if_False if_True) auto
  qed (simp add: plan_publish_def)
  show ?thesis
    using plan_get_stored [OF ok r(2) assms(2)] decode_encoded_plan(2) [OF assms(2)] same other by blast
qed

theorem published_plan_is_immutable_witness:
  "\<exists>ref t. plan_publish demo_plan ''key'' 5 [] = (Inr ref, t) \<and> plan_get ''plan_1'' t = Inr (plan_read demo_plan)"
proof -
  obtain ref t where t: "plan_publish demo_plan ''key'' 5 (publish_all [] []) = (Inr ref, t)"
    by (simp add: plan_publish_def publish_all_def Let_def)
  have "t = publish_all [] t" by (simp add: publish_all_def)
  from published_plan_is_immutable [OF t demo_built(1) this] have "plan_get (cp_id demo_plan) t = Inr (plan_read demo_plan)"
    by blast
  then show ?thesis using t by (auto simp: publish_all_def demo_plan_def)
qed

end
