(* ===== verification/Batch_Rows.thy ===== *)
theory Batch_Rows
  imports Batch_Codec
begin

section \<open>Capture batches in SQLite\<close>

text \<open>
  \<open>adapters/capture_batch_sqlite.py\<close>: the store of batch snapshots the coordinator uses in the
  running system. One row per batch holds the canonical texts of definition and snapshot, the
  digest of the definition and the revision; every method is one transaction, so a raise inside
  it leaves the table as it was. The clock is an argument. A table is a map from its primary key.
\<close>

record batch_row =
  br_digest :: string
  br_definition :: string
  br_snapshot :: string
  br_revision :: int
  br_updated :: int

type_synonym batch_table = "string \<Rightarrow> batch_row option"

text \<open>
  \<open>_decode_row\<close>: the decoders raise only \<open>KeyError\<close>, \<open>TypeError\<close> and \<open>ValueError\<close>, which become an
  identity conflict like every difference between the columns.
\<close>

definition decode_batch_row :: "string \<Rightarrow> batch_row \<Rightarrow> (batch_error, batch_snapshot) result" where
  "decode_batch_row key row =
     (case bindE (decode_capture_batch_definition (br_definition row)) (\<lambda>d.
             bindE (decode_capture_batch_snapshot (br_snapshot row)) (\<lambda>s. Inr (d, s))) of
        Inl e \<Rightarrow> Inl (RuntimeError Batch_Identity_Conflict)
      | Inr (d, s) \<Rightarrow>
          if contract_id CaptureBatchId key \<noteq> Inr (bs_batch_id s) \<or> bs_definition s \<noteq> d
             \<or> bs_revision s \<noteq> br_revision row
             \<or> str_digest (canonical_digest (json_batch_definition d)) \<noteq> br_digest row
          then Inl (RuntimeError Batch_Identity_Conflict) else Inr s)"

definition batch_sql_create :: "int \<Rightarrow> batch_snapshot \<Rightarrow> (batch_table, batch_snapshot) batch_io" where
  "batch_sql_create now initial tbl =
     (case tbl (bs_batch_id initial) of
        None \<Rightarrow>
          (Inr initial, tbl(bs_batch_id initial \<mapsto>
             \<lparr>br_digest = str_digest (canonical_digest (json_batch_definition (bs_definition initial))),
              br_definition = encode_capture_batch_definition (bs_definition initial),
              br_snapshot = encode_capture_batch_snapshot initial,
              br_revision = bs_revision initial, br_updated = now\<rparr>))
      | Some row \<Rightarrow>
          (case decode_batch_row (bs_batch_id initial) row of
             Inl e \<Rightarrow> (Inl e, tbl)
           | Inr current \<Rightarrow>
               if bs_definition current \<noteq> bs_definition initial
               then (Inl (RuntimeError Batch_Identity_Conflict), tbl)
               else (Inr current, tbl)))"

definition batch_sql_get :: "string \<Rightarrow> (batch_table, batch_snapshot option) batch_io" where
  "batch_sql_get b tbl =
     (case tbl b of
        None \<Rightarrow> (Inr None, tbl)
      | Some row \<Rightarrow> (bindE (decode_batch_row b row) (\<lambda>s. Inr (Some s)), tbl))"

definition batch_sql_cas ::
  "int \<Rightarrow> string \<Rightarrow> int \<Rightarrow> batch_snapshot \<Rightarrow> (batch_table, batch_snapshot) batch_io" where
  "batch_sql_cas now b expected_revision replacement tbl =
     (if bs_batch_id replacement \<noteq> b \<or> bs_revision replacement \<noteq> expected_revision + 1
      then (Inl (RuntimeError Batch_Identity_Conflict), tbl)
      else
        case tbl b of
          None \<Rightarrow> (Inl (RuntimeError Batch_Not_Found), tbl)
        | Some row \<Rightarrow>
            (case decode_batch_row b row of
               Inl e \<Rightarrow> (Inl e, tbl)
             | Inr current \<Rightarrow>
                 if bs_revision current \<noteq> expected_revision
                 then (Inl (RuntimeError Batch_Revision_Conflict), tbl)
                 else if bs_definition current \<noteq> bs_definition replacement
                 then (Inl (RuntimeError Batch_Identity_Conflict), tbl)
                 else if br_revision row \<noteq> expected_revision
                 then (Inl (RuntimeError Batch_Revision_Conflict), tbl)
                 else (Inr replacement, tbl(b \<mapsto>
                   row\<lparr>br_snapshot := encode_capture_batch_snapshot replacement,
                       br_revision := bs_revision replacement, br_updated := now\<rparr>))))"

subsection \<open>What the rows stand for\<close>

definition batch_row_of :: "string \<Rightarrow> batch_snapshot \<Rightarrow> batch_row \<Rightarrow> bool" where
  "batch_row_of b s row \<longleftrightarrow>
     built_snapshot s \<and> bs_batch_id s = b
     \<and> br_digest row = str_digest (canonical_digest (json_batch_definition (bs_definition s)))
     \<and> br_definition row = encode_capture_batch_definition (bs_definition s)
     \<and> br_snapshot row = encode_capture_batch_snapshot s \<and> br_revision row = bs_revision s"

definition batch_table_ok :: "batch_table \<Rightarrow> bool" where
  "batch_table_ok tbl \<longleftrightarrow> (\<forall>b row. tbl b = Some row \<longrightarrow> (\<exists>s. batch_row_of b s row))"

definition batch_view :: "batch_table \<Rightarrow> string \<Rightarrow> batch_snapshot option" where
  "batch_view tbl b =
     (case tbl b of None \<Rightarrow> None
      | Some row \<Rightarrow> (case decode_batch_row b row of Inl _ \<Rightarrow> None | Inr s \<Rightarrow> Some s))"

lemma decode_batch_row_back:
  assumes "batch_row_of b s row"
  shows "decode_batch_row b row = Inr s"
proof -
  have b: "built_snapshot s" "built_batch (bs_definition s)" "valid_id CaptureBatchId b"
    using assms by (auto simp: batch_row_of_def built_snapshot_def built_batch_def bs_batch_id_def)
  have "bs_batch_id s = b" using assms by (simp add: batch_row_of_def)
  then have "contract_id CaptureBatchId b = Inr (bs_batch_id s)" using b(3) by simp
  then show ?thesis
    using assms decode_definition_back [OF b(2)] decode_snapshot_back [OF b(1)]
    by (simp add: decode_batch_row_def batch_row_of_def)
qed

lemma batch_rowE:
  assumes "batch_table_ok tbl" and "tbl b = Some row"
  obtains s where "batch_row_of b s row" "decode_batch_row b row = Inr s" "batch_view tbl b = Some s"
  using assms decode_batch_row_back unfolding batch_table_ok_def batch_view_def by fastforce

lemma batch_view_None: "batch_table_ok tbl \<Longrightarrow> batch_view tbl b = None \<longleftrightarrow> tbl b = None"
  by (cases "tbl b") (auto simp: batch_view_def elim: batch_rowE)

lemma batch_view_upd: "batch_row_of b s row \<Longrightarrow> batch_view (tbl(b \<mapsto> row)) = (batch_view tbl)(b \<mapsto> s)"
  by (auto simp: batch_view_def decode_batch_row_back)

lemma batch_ok_upd: "batch_table_ok tbl \<Longrightarrow> batch_row_of b s row \<Longrightarrow> batch_table_ok (tbl(b \<mapsto> row))"
  by (auto simp: batch_table_ok_def)

lemma batch_view_built:
  assumes "batch_table_ok tbl" and "batch_view tbl b = Some s"
  shows "built_snapshot s \<and> bs_batch_id s = b"
proof -
  obtain row where "tbl b = Some row" using assms batch_view_None [OF assms(1)] by (metis not_None_eq)
  from batch_rowE [OF assms(1) this] assms(2) show ?thesis by (auto simp: batch_row_of_def)
qed

lemma batch_record_built:
  assumes "built_snapshot s" and "built_outcome a" and "batch_record s a = Inr t"
  shows "built_snapshot t"
  using assms
  by (auto simp: batch_record_def built_snapshot_def checked_def list_all_iff split: option.splits if_splits sum.splits)

lemma create_new_row:
  assumes "batch_table_ok tbl" and "built_snapshot x" and "batch_view tbl (bs_batch_id x) = None"
  shows "\<exists>t. batch_sql_create now x tbl = (Inr x, t) \<and> batch_table_ok t
    \<and> batch_view t = (batch_view tbl)(bs_batch_id x \<mapsto> x)"
proof -
  let ?row = "\<lparr>br_digest = str_digest (canonical_digest (json_batch_definition (bs_definition x))),
      br_definition = encode_capture_batch_definition (bs_definition x),
      br_snapshot = encode_capture_batch_snapshot x, br_revision = bs_revision x, br_updated = now\<rparr>"
  have "batch_row_of (bs_batch_id x) x ?row" using assms(2) by (simp add: batch_row_of_def)
  then show ?thesis
    using assms batch_view_None [OF assms(1)] batch_view_upd batch_ok_upd [OF assms(1)]
    by (simp add: batch_sql_create_def)
qed

lemma cas_swap_row:
  assumes "batch_table_ok tbl" and "built_snapshot x" and "batch_view tbl b = Some c" and "bs_revision c = r"
    and "bs_batch_id x = b" and "bs_revision x = r + 1" and "bs_definition x = bs_definition c"
  shows "\<exists>t. batch_sql_cas now b r x tbl = (Inr x, t) \<and> batch_table_ok t \<and> batch_view t = (batch_view tbl)(b \<mapsto> x)"
proof -
  obtain row where row: "tbl b = Some row" using assms(3) batch_view_None [OF assms(1)] by (metis not_None_eq)
  then obtain s where s: "batch_row_of b s row" "decode_batch_row b row = Inr s" "batch_view tbl b = Some s"
    using batch_rowE [OF assms(1)] by blast
  then have "s = c" using assms(3) by simp
  let ?row = "row\<lparr>br_snapshot := encode_capture_batch_snapshot x, br_revision := bs_revision x, br_updated := now\<rparr>"
  have "batch_row_of b x ?row" using s(1) assms \<open>s = c\<close> by (simp add: batch_row_of_def)
  moreover have "br_revision row = r" using s(1) \<open>s = c\<close> assms(4) by (simp add: batch_row_of_def)
  ultimately show ?thesis
    using row s(2) \<open>s = c\<close> assms batch_view_upd batch_ok_upd [OF assms(1)]
    by (simp add: batch_sql_cas_def)
qed

text \<open>The SQLite store keeps the contract of the coordinator, for every clock.\<close>

interpretation sqlite_store: batch_store
    "\<lambda>x t. batch_sql_create (clock t) x t" batch_sql_get "\<lambda>b r x t. batch_sql_cas (clock t) b r x t"
    batch_view batch_table_ok built_snapshot built_outcome
  for clock :: "batch_table \<Rightarrow> int"
proof
  fix s :: batch_table and b
  assume ok: "batch_table_ok s"
  show "batch_sql_get b s = (Inr (batch_view s b), s)"
    by (cases "s b") (auto simp: batch_sql_get_def batch_view_def elim!: batch_rowE [OF ok])
next
  fix s :: batch_table and x c
  assume a: "batch_table_ok s" "batch_view s (bs_batch_id x) = Some c"
  then obtain row where row: "s (bs_batch_id x) = Some row" using batch_view_None by (metis not_None_eq)
  from batch_rowE [OF a(1) row] a(2) have d: "decode_batch_row (bs_batch_id x) row = Inr c" by auto
  show "bs_definition c = bs_definition x \<Longrightarrow> batch_sql_create (clock s) x s = (Inr c, s)"
    "bs_definition c \<noteq> bs_definition x \<Longrightarrow>
       batch_sql_create (clock s) x s = (Inl (RuntimeError Batch_Identity_Conflict), s)"
    using row d by (simp_all add: batch_sql_create_def)
next
  fix s :: batch_table and b c r x
  assume a: "batch_table_ok s" "batch_view s b = Some c" "bs_revision c \<noteq> r" "bs_batch_id x = b" "bs_revision x = r + 1"
  then obtain row where row: "s b = Some row" using batch_view_None by (metis not_None_eq)
  from batch_rowE [OF a(1) row] a(2) have d: "decode_batch_row b row = Inr c" by auto
  show "batch_sql_cas (clock s) b r x s = (Inl (RuntimeError Batch_Revision_Conflict), s)"
    using a row d by (simp add: batch_sql_cas_def)
qed (use batch_view_built create_new_row cas_swap_row batch_record_built in blast)+

text \<open>
  C18. The SQLite store implements the one in memory: over any table whose rows it has written
  itself, reading, creating and swapping return what the dictionary returns, leave a table that
  stands for the dictionary afterwards, and leave it alone whenever they raise. The only
  difference is a swap whose replacement has another identity or revision, which SQLite refuses
  before it looks at the row.
\<close>

theorem batch_sql_refines:
  assumes "batch_table_ok tbl" and "built_snapshot x"
  shows "batch_sql_get b tbl = (fst (store_get b (batch_view tbl)), tbl)
    \<and> (\<exists>t. batch_sql_create now x tbl = (fst (store_create x (batch_view tbl)), t) \<and> batch_table_ok t
         \<and> batch_view t = snd (store_create x (batch_view tbl)))
    \<and> (\<exists>t. batch_sql_cas now b r x tbl =
           (if bs_batch_id x \<noteq> b \<or> bs_revision x \<noteq> r + 1 then Inl (RuntimeError Batch_Identity_Conflict)
            else fst (store_cas b r x (batch_view tbl)), t)
         \<and> batch_table_ok t
         \<and> batch_view t = (if bs_batch_id x \<noteq> b \<or> bs_revision x \<noteq> r + 1 then batch_view tbl
             else snd (store_cas b r x (batch_view tbl))))"
proof (intro conjI)
  show "batch_sql_get b tbl = (fst (store_get b (batch_view tbl)), tbl)"
    using sqlite_store.get_view [OF assms(1)] by (simp add: store_get_def)
  show "\<exists>t. batch_sql_create now x tbl = (fst (store_create x (batch_view tbl)), t) \<and> batch_table_ok t
      \<and> batch_view t = snd (store_create x (batch_view tbl))"
  proof (cases "batch_view tbl (bs_batch_id x)")
    case None
    with create_new_row [OF assms None] show ?thesis by (auto simp: store_create_def)
  next
    case (Some c)
    with sqlite_store.create_again [OF assms(1) Some, of "\<lambda>_. now"] assms
      sqlite_store.create_conflict [OF assms(1) Some, of "\<lambda>_. now"] show ?thesis
      by (auto simp: store_create_def)
  qed
  show "\<exists>t. batch_sql_cas now b r x tbl =
        (if bs_batch_id x \<noteq> b \<or> bs_revision x \<noteq> r + 1 then Inl (RuntimeError Batch_Identity_Conflict)
         else fst (store_cas b r x (batch_view tbl)), t)
      \<and> batch_table_ok t
      \<and> batch_view t = (if bs_batch_id x \<noteq> b \<or> bs_revision x \<noteq> r + 1 then batch_view tbl
          else snd (store_cas b r x (batch_view tbl)))"
  proof (cases "bs_batch_id x \<noteq> b \<or> bs_revision x \<noteq> r + 1")
    case True
    then show ?thesis using assms by (auto simp: batch_sql_cas_def)
  next
    case same: False
    show ?thesis
    proof (cases "batch_view tbl b")
      case None
      with same assms batch_view_None [OF assms(1), of b] show ?thesis
        by (simp add: batch_sql_cas_def store_cas_def)
    next
      case (Some c)
      then obtain row where row: "tbl b = Some row" using batch_view_None [OF assms(1)] by (metis not_None_eq)
      from batch_rowE [OF assms(1) row] Some have d: "decode_batch_row b row = Inr c" by auto
      show ?thesis
      proof (cases "bs_revision c = r \<and> bs_definition x = bs_definition c")
        case True
        with cas_swap_row [OF assms Some, of r now] same Some show ?thesis by (auto simp: store_cas_def)
      next
        case False
        with same Some row d assms show ?thesis by (auto simp: batch_sql_cas_def store_cas_def)
      qed
    qed
  qed
qed

subsection \<open>Recording while others record\<close>

text \<open>Another process that records outcomes one after the other, each with a coordinator of its own.\<close>

definition batch_sql_record ::
  "(batch_table \<Rightarrow> int) \<Rightarrow> (nat \<Rightarrow> (batch_table \<Rightarrow> batch_table) \<times> (batch_table \<Rightarrow> batch_table)) \<Rightarrow> nat
     \<Rightarrow> attempt_outcome \<Rightarrow> (batch_table, batch_snapshot) batch_io" where
  "batch_sql_record clock others retries a =
     coordinator_record batch_sql_get (\<lambda>b r x t. batch_sql_cas (clock t) b r x t) others retries a"

definition others_record :: "(batch_table \<Rightarrow> int) \<Rightarrow> attempt_outcome list \<Rightarrow> batch_table \<Rightarrow> batch_table" where
  "others_record clock outs tbl =
     fold (\<lambda>a t. snd (batch_sql_record clock (\<lambda>_. (id, id)) 3 a t)) outs tbl"

lemma durable_record:
  assumes "batch_table_ok tbl" and "batch_view tbl (ao_batch_id a) = Some x" and "built_outcome a" and "3 \<le> retries"
    and "\<And>n. sqlite_store.keeps_batch (ao_batch_id a) (fst (others n)) \<and> sqlite_store.keeps_batch (ao_batch_id a) (snd (others n))"
  shows "\<exists>res t y. batch_sql_record clock others retries a tbl = (res, t)
    \<and> batch_table_ok t \<and> batch_view t (ao_batch_id a) = Some y \<and> evolves x y
    \<and> (res = Inr y \<and> abs_batch y (ao_attempt_id a) = Some a
       \<or> res = Inl (RuntimeError Batch_Identity_Conflict) \<and> \<not> is_ok (batch_record y a))"
proof -
  have x: "built_snapshot x" "bs_batch_id x = ao_batch_id a" using batch_view_built [OF assms(1,2)] by auto
  then have v: "valid_definition (bs_definition x)" "valid_snapshot x"
    by (simp_all add: built_snapshot_def built_batch_def)
  then have "0 \<le> bs_revision x" by (simp add: batch_snapshot_post_init_def)
  then show ?thesis
    unfolding batch_sql_record_def
    using assms v x by (intro sqlite_store.record_completes) simp_all
qed

lemma others_keep:
  assumes "\<forall>a \<in> set outs. built_outcome a \<and> ao_batch_id a = b"
  shows "sqlite_store.keeps_batch b (others_record clock outs)"
proof -
  have id: "sqlite_store.keeps_batch i id" for i
    by (auto simp: sqlite_store.keeps_batch_def evolves_refl)
  have "batch_table_ok (others_record clock outs t) \<and> (\<exists>y. batch_view (others_record clock outs t) b = Some y \<and> evolves x y)"
    if "batch_table_ok t" "batch_view t b = Some x" for t x
    using that assms
  proof (induction outs arbitrary: t x)
    case Nil
    then show ?case
      using batch_view_built [OF Nil(1,2)]
      by (auto simp: others_record_def built_snapshot_def built_batch_def intro!: evolves_refl)
  next
    case (Cons a outs)
    from Cons.prems have a: "built_outcome a" "ao_batch_id a = b" by auto
    from durable_record [OF Cons.prems(1) _ a(1) order_refl, of x "\<lambda>_. (id, id)" clock] id Cons.prems(2) a(2)
    obtain res u y where u: "batch_sql_record clock (\<lambda>_. (id, id)) 3 a t = (res, u)" "batch_table_ok u"
        "batch_view u b = Some y" "evolves x y"
      by auto
    from Cons.IH [OF u(2,3)] Cons.prems(3) u(1,4) evolves_trans [OF u(4)] show ?case
      by (auto simp: others_record_def)
  qed
  then show ?thesis by (auto simp: sqlite_store.keeps_batch_def)
qed

text \<open>
  C14. Recording into the durable store never livelocks and never loses an outcome. Other
  processes may record any outcomes of the batch into the same table between each read and the
  swap after it; three tries decide all the same. The call returns the stored snapshot with its
  outcome, or raises an identity conflict because the stored batch refuses it; every outcome
  stored before is still stored, and every row stays readable.
\<close>

theorem durable_record_completes:
  assumes "batch_table_ok tbl" and "batch_view tbl (ao_batch_id a) = Some x" and "built_outcome a" and "3 \<le> retries"
    and "\<forall>n. \<forall>o' \<in> set (before n @ between n). built_outcome o' \<and> ao_batch_id o' = ao_batch_id a"
  shows "\<exists>res t y. batch_sql_record clock (\<lambda>n. (others_record clock (before n), others_record clock (between n)))
      retries a tbl = (res, t)
    \<and> batch_table_ok t \<and> batch_view t (ao_batch_id a) = Some y \<and> evolves x y
    \<and> (res = Inr y \<and> abs_batch y (ao_attempt_id a) = Some a
       \<or> res = Inl (RuntimeError Batch_Identity_Conflict) \<and> \<not> is_ok (batch_record y a))"
proof -
  have "sqlite_store.keeps_batch (ao_batch_id a) (others_record clock (before n))"
    "sqlite_store.keeps_batch (ao_batch_id a) (others_record clock (between n))" for n
    using assms(5) by (auto intro!: others_keep)
  then show ?thesis by (intro durable_record [OF assms(1-4)]) simp
qed

text \<open>The batch of the example, created and recorded by two processes at once.\<close>

lemma demo_batch_built: "built_snapshot (initial_snapshot demo_batch)" "built_outcome (demo_outcome ''a'' 1010)"
  "built_outcome (demo_outcome ''b'' 1040)"
proof -
  have o': "built_outcome a \<longleftrightarrow> built_schema (ao_schema a) \<and> valid_id CaptureBatchId (ao_batch_id a)
     \<and> valid_id CaptureAttemptId (ao_attempt_id a) \<and> valid_id RadioId (ao_radio_id a)
     \<and> valid_id PlanId (ao_plan_id a) \<and> (case ao_recording a of None \<Rightarrow> True | Some p \<Rightarrow> built_published p)
     \<and> attempt_outcome_post_init a = Inr ()" for a
    by (auto simp: built_outcome_def split: option.splits)
  show "built_outcome (demo_outcome ''a'' 1010)" "built_outcome (demo_outcome ''b'' 1040)"
    unfolding o' by code_simp+
  have "built_batch demo_batch" "built_schema (schema_v0_1 state_schema_id)"
    "batch_snapshot_post_init (initial_snapshot demo_batch) = Inr ()"
    by code_simp+
  then show "built_snapshot (initial_snapshot demo_batch)"
    by (simp add: built_snapshot_def) (simp add: initial_snapshot_def)
qed

definition demo_rows :: batch_table where
  "demo_rows = snd (batch_sql_create 0 (initial_snapshot demo_batch) (\<lambda>_. None))"

lemma batch_empty: "batch_table_ok (\<lambda>_. None)" "batch_view (\<lambda>_. None) b = None"
  by (simp_all add: batch_table_ok_def batch_view_def)

lemma demo_rows_ok: "batch_table_ok demo_rows" "batch_view demo_rows ''cbatch_1'' = Some (initial_snapshot demo_batch)"
proof -
  have "bs_batch_id (initial_snapshot demo_batch) = ''cbatch_1''"
    by (simp add: initial_snapshot_def bs_batch_id_def demo_batch_def)
  with create_new_row [of "\<lambda>_. None" "initial_snapshot demo_batch" 0] demo_batch_built(1)
  show "batch_table_ok demo_rows" "batch_view demo_rows ''cbatch_1'' = Some (initial_snapshot demo_batch)"
    by (auto simp: demo_rows_def batch_empty)
qed

theorem batch_sql_refines_witness:
  "batch_view (snd (batch_sql_create 0 (initial_snapshot demo_batch) demo_rows)) ''cbatch_1''
     = Some (initial_snapshot demo_batch)"
proof -
  have "bs_batch_id (initial_snapshot demo_batch) = ''cbatch_1''"
    by (simp add: initial_snapshot_def bs_batch_id_def demo_batch_def)
  with batch_sql_refines [OF demo_rows_ok(1) demo_batch_built(1), of "''cbatch_1''" 0 0] demo_rows_ok(2)
  obtain t where "batch_sql_create 0 (initial_snapshot demo_batch) demo_rows = (Inr (initial_snapshot demo_batch), t)"
      "batch_view t = batch_view demo_rows"
    by (auto simp: store_create_def)
  with demo_rows_ok(2) show ?thesis by simp
qed

theorem durable_record_completes_witness:
  "\<exists>res t y. batch_sql_record (\<lambda>_. 9) (\<lambda>n. (others_record (\<lambda>_. 9) [], others_record (\<lambda>_. 9) [demo_outcome ''b'' 1040]))
      3 (demo_outcome ''a'' 1010) demo_rows = (res, t)
    \<and> batch_view t ''cbatch_1'' = Some y \<and> evolves (initial_snapshot demo_batch) y"
proof -
  have i: "ao_batch_id (demo_outcome x n) = ''cbatch_1''" for x n by (simp add: demo_outcome_def)
  from durable_record_completes [OF demo_rows_ok(1) _ demo_batch_built(2) order_refl,
      of "initial_snapshot demo_batch" "\<lambda>_. []" "\<lambda>_. [demo_outcome ''b'' 1040]" "\<lambda>_. 9"]
    demo_rows_ok(2) demo_batch_built(3)
  show ?thesis by (simp add: i) blast
qed

end
