(* ===== verification/Blob_Store.thy ===== *)
theory Blob_Store
  imports Core_Types
begin

section \<open>The content-addressed store of blobs\<close>

text \<open>
  \<open>storage/filesystem.py\<close>: blobs in files named by their SHA-256 digest. A file is its bytes and
  its identity (device, inode and times) as one number; the state of a store object is the
  directory, the idempotency keys it has seen and the files it has verified, the last two lost
  with the process. The temporary file of a \<open>put\<close> exists only during the call. Every entry below
  the root is a regular file, and \<open>OSError\<close>s are not modelled.
\<close>

datatype blob_error =
    Negative_Size | Empty_Blob_Key | Key_Conflict | Stream_Too_Long | Count_Differs | Digest_Differs
  | Object_Missing | Stored_Count_Differs | Stored_Digest_Differs | Object_Changed | Bad_Locator
  | Range_Exceeds | Blob_Core core_error

record stored_file =
  sf_bytes :: string
  sf_stamp :: int

record blob_store =
  cas_files :: "string \<Rightarrow> stored_file option"
  cas_keys :: "string \<Rightarrow> (digest \<times> int) option"
  cas_verified :: "digest \<times> int \<Rightarrow> (int \<times> int) option"

type_synonym 'a blob_io = "(blob_store, blob_error exn, 'a) io"

definition cas_locator :: "digest \<Rightarrow> string" where
  "cas_locator d = ''cas:sha256:'' @ dvalue d"

subsection \<open>Writing\<close>

text \<open>The loop over \<open>stream.read\<close>, which gives chunks until an empty one.\<close>

fun receive :: "int \<Rightarrow> string \<Rightarrow> string list \<Rightarrow> (blob_error, string) result" where
  "receive limit got [] = Inr got"
| "receive limit got (c # cs) =
     (if c = [] then Inr got
      else if limit < int (length (got @ c)) then Inl (RuntimeError Stream_Too_Long)
      else receive limit (got @ c) cs)"

definition verify_path :: "string \<Rightarrow> int \<Rightarrow> blob_store \<Rightarrow> (blob_error, unit) result" where
  "verify_path v n st =
     (case cas_files st v of
        None \<Rightarrow> Inl (RuntimeError Object_Missing)
      | Some f \<Rightarrow> raise_first
          [(int (length (sf_bytes f)) \<noteq> n, RuntimeError Stored_Count_Differs),
           (sha256_hex (sf_bytes f) \<noteq> v, RuntimeError Stored_Digest_Differs)])"

definition key_taken :: "string \<Rightarrow> digest \<times> int \<Rightarrow> blob_store \<Rightarrow> bool" where
  "key_taken key i st \<longleftrightarrow> (case cas_keys st key of None \<Rightarrow> False | Some j \<Rightarrow> j \<noteq> i)"

text \<open>\<open>os.link\<close>, or the check of the file that is there already.\<close>

definition link_blob :: "int \<Rightarrow> digest \<Rightarrow> int \<Rightarrow> string \<Rightarrow> unit blob_io" where
  "link_blob stamp d n bytes st =
     (case cas_files st (dvalue d) of
        None \<Rightarrow> (Inr (), st\<lparr>cas_files := (cas_files st)(dvalue d \<mapsto> \<lparr>sf_bytes = bytes, sf_stamp = stamp\<rparr>)\<rparr>)
      | Some f \<Rightarrow> (verify_path (dvalue d) n st, st))"

text \<open>
  \<open>put\<close>: \<open>others\<close> is what other threads do to the store between the two checks of the key, and
  \<open>stamp\<close> the identity of the new file, if one is linked.
\<close>

definition blob_put ::
  "(blob_store \<Rightarrow> blob_store) \<Rightarrow> int \<Rightarrow> string list \<Rightarrow> digest \<Rightarrow> int \<Rightarrow> string \<Rightarrow> string \<Rightarrow> string
     \<Rightarrow> object_ref blob_io" where
  "blob_put others stamp stream expected n media fmt key st =
     (if n < 0 then (Inl (ValueError Negative_Size), st)
      else if key = [] then (Inl (ValueError Empty_Blob_Key), st)
      else if key_taken key (expected, n) st then (Inl (RuntimeError Key_Conflict), st)
      else
        case receive n [] stream of
          Inl e \<Rightarrow> (Inl e, st)
        | Inr bytes \<Rightarrow>
            if int (length bytes) \<noteq> n then (Inl (RuntimeError Count_Differs), st)
            else if digest_sha256 bytes \<noteq> expected then (Inl (RuntimeError Digest_Differs), st)
            else
              (case link_blob stamp expected n bytes st of
                 (Inl e, t) \<Rightarrow> (Inl e, t)
               | (Inr _, t) \<Rightarrow>
                   let u = others t in
                   if key_taken key (expected, n) u then (Inl (RuntimeError Key_Conflict), u)
                   else
                     (embed_exn Blob_Core (checked object_ref_post_init
                        \<lparr>obj_digest = expected, byte_count = n, media_type = media, format_id = fmt,
                         locator = cas_locator expected\<rparr>),
                      u\<lparr>cas_keys := (cas_keys u)(key \<mapsto> (expected, n))\<rparr>)))"

subsection \<open>Reading\<close>

definition resolve :: "object_ref \<Rightarrow> (blob_error, string) result" where
  "resolve ref =
     (if locator ref \<noteq> cas_locator (obj_digest ref) then Inl (RuntimeError Bad_Locator)
      else Inr (dvalue (obj_digest ref)))"

definition file_identity :: "stored_file \<Rightarrow> int \<Rightarrow> (blob_error, int \<times> int) result" where
  "file_identity f n =
     (if int (length (sf_bytes f)) \<noteq> n then Inl (RuntimeError Stored_Count_Differs)
      else Inr (int (length (sf_bytes f)), sf_stamp f))"

definition require_unchanged :: "stored_file \<Rightarrow> int \<times> int \<Rightarrow> (blob_error, unit) result" where
  "require_unchanged f i =
     bindE (file_identity f (fst i)) (\<lambda>j. raise_first [(j \<noteq> i, RuntimeError Object_Changed)])"

text \<open>
  \<open>_open_verified\<close>: a file whose identity was verified before is not hashed again. \<open>hashed f\<close> is
  the open file as it is found once it has been read through.
\<close>

definition open_verified ::
  "(stored_file \<Rightarrow> stored_file) \<Rightarrow> object_ref \<Rightarrow> (stored_file \<times> int \<times> int) blob_io" where
  "open_verified hashed ref st =
     (case cas_files st (dvalue (obj_digest ref)) of
        None \<Rightarrow> (Inl (RuntimeError Object_Missing), st)
      | Some f \<Rightarrow>
          (case file_identity f (byte_count ref) of
             Inl e \<Rightarrow> (Inl e, st)
           | Inr i \<Rightarrow>
               let key = (obj_digest ref, byte_count ref) in
               if cas_verified st key = Some i then (Inr (f, i), st)
               else
                 (case require_unchanged (hashed f) i of
                    Inl e \<Rightarrow> (Inl e, st)
                  | Inr _ \<Rightarrow>
                      if sha256_hex (sf_bytes f) \<noteq> dvalue (obj_digest ref)
                      then (Inl (RuntimeError Stored_Digest_Differs), st)
                      else (Inr (f, i), st\<lparr>cas_verified := (cas_verified st)(key \<mapsto> i)\<rparr>))))"

text \<open>
  \<open>head\<close>, and \<open>open\<close> with the reading done by its caller: \<open>ends f\<close> is the file as it is found when
  the stream is closed. A change raises there, whatever has been raised before.
\<close>

definition blob_head :: "(stored_file \<Rightarrow> stored_file) \<Rightarrow> (stored_file \<Rightarrow> stored_file) \<Rightarrow> object_ref \<Rightarrow> bool blob_io" where
  "blob_head hashed ends ref =
     bind_io (lift (resolve ref)) (\<lambda>_.
     bind_io (open_verified hashed ref) (\<lambda>(f, i).
     bind_io (lift (require_unchanged (ends f) i)) (\<lambda>_. ret True)))"

definition range_bytes :: "object_ref \<Rightarrow> byte_range option \<Rightarrow> string \<Rightarrow> (blob_error, string) result" where
  "range_bytes ref rng bytes =
     (case rng of
        None \<Rightarrow> Inr bytes
      | Some r \<Rightarrow>
          if byte_count ref < br_stop r then Inl (RuntimeError Range_Exceeds)
          else Inr (take (nat (br_stop r - br_start r)) (drop (nat (br_start r)) bytes)))"

definition blob_read ::
  "(stored_file \<Rightarrow> stored_file) \<Rightarrow> (stored_file \<Rightarrow> stored_file) \<Rightarrow> object_ref \<Rightarrow> byte_range option \<Rightarrow> string blob_io" where
  "blob_read hashed ends ref rng =
     bind_io (lift (resolve ref)) (\<lambda>_.
     bind_io (open_verified hashed ref) (\<lambda>(f, i).
     bind_io (lift (require_unchanged (ends f) i)) (\<lambda>_.
       lift (range_bytes ref rng (sf_bytes f)))))"

text \<open>\<open>_BoundedReader\<close>: the rest of the stream and how much of it may still be read.\<close>

definition bounded_read :: "int \<Rightarrow> string \<times> int \<Rightarrow> string \<times> string \<times> int" where
  "bounded_read asked s =
     (let (rest, remaining) = s;
          k = if asked < 0 \<or> remaining < asked then remaining else asked;
          got = take (nat k) rest
      in (got, drop (nat k) rest, remaining - int (length got)))"

fun bounded_reads :: "int list \<Rightarrow> string \<times> int \<Rightarrow> string" where
  "bounded_reads [] s = []"
| "bounded_reads (k # ks) s = (let (got, t) = bounded_read k s in got @ bounded_reads ks t)"

lemma bounded_reads_within:
  "0 \<le> n \<Longrightarrow> \<exists>rest. take (nat n) data = bounded_reads sizes (data, n) @ rest"
proof (induction sizes arbitrary: data n)
  case (Cons k sizes)
  define m where "m = (if k < 0 \<or> n < k then n else k)"
  have m: "0 \<le> m" "m \<le> n" using Cons.prems by (auto simp: m_def)
  let ?got = "take (nat m) data"
  have le: "0 \<le> n - int (length ?got)" using m by simp
  have split: "take (nat n) data = ?got @ take (nat n - length ?got) (drop (nat m) data)"
  proof (cases "nat m \<le> length data")
    case True
    then have "nat n = nat m + (nat n - nat m)" "length ?got = nat m" using m by auto
    then show ?thesis by (metis take_add)
  next
    case False
    then show ?thesis using m by simp
  qed
  have "nat n - length ?got = nat (n - int (length ?got))" by simp
  with Cons.IH [OF le, of "drop (nat m) data"] split show ?case
    by (auto simp: bounded_read_def Let_def m_def)
qed simp

subsection \<open>Histories\<close>

text \<open>
  Calls of the store, the end of the process, and whatever else may happen to the files
  (\<open>Replaced\<close>). The identity of a file stands for its bytes: \<open>content\<close> gives the bytes that had an
  identity when it arose, which every change of the bytes renews.
\<close>

datatype blob_op =
    Put int "string list" digest int string string string
  | Head object_ref
  | Read object_ref "byte_range option"
  | Restarted
  | Replaced "string \<Rightarrow> stored_file option"

fun blob_do :: "blob_op \<Rightarrow> blob_store \<Rightarrow> blob_store" where
  "blob_do (Put stamp stream d n media fmt key) st = snd (blob_put id stamp stream d n media fmt key st)"
| "blob_do (Head ref) st = snd (blob_head id id ref st)"
| "blob_do (Read ref rng) st = snd (blob_read id id ref rng st)"
| "blob_do Restarted st = st\<lparr>cas_keys := \<lambda>_. None, cas_verified := \<lambda>_. None\<rparr>"
| "blob_do (Replaced files) st = st\<lparr>cas_files := files\<rparr>"

definition empty_store :: blob_store where
  "empty_store = \<lparr>cas_files = \<lambda>_. None, cas_keys = \<lambda>_. None, cas_verified = \<lambda>_. None\<rparr>"

definition blob_run :: "blob_op list \<Rightarrow> blob_store \<Rightarrow> blob_store" where
  "blob_run ops st = fold blob_do ops st"

definition genuine :: "(int \<Rightarrow> string) \<Rightarrow> (string \<Rightarrow> stored_file option) \<Rightarrow> bool" where
  "genuine content files \<longleftrightarrow> (\<forall>v f. files v = Some f \<longrightarrow> sf_bytes f = content (sf_stamp f))"

fun blob_op_ok :: "(int \<Rightarrow> string) \<Rightarrow> blob_op \<Rightarrow> bool" where
  "blob_op_ok content (Put stamp stream d n media fmt key) \<longleftrightarrow>
     (\<forall>bytes. receive n [] stream = Inr bytes \<longrightarrow> content stamp = bytes)"
| "blob_op_ok content (Replaced files) \<longleftrightarrow> genuine content files"
| "blob_op_ok content _ \<longleftrightarrow> True"

fun leaves_files :: "blob_op \<Rightarrow> bool" where
  "leaves_files (Replaced files) \<longleftrightarrow> False"
| "leaves_files _ \<longleftrightarrow> True"

text \<open>Whatever is verified had the right bytes; and, until files are replaced, every file has.\<close>

definition verified_ok :: "(int \<Rightarrow> string) \<Rightarrow> blob_store \<Rightarrow> bool" where
  "verified_ok content st \<longleftrightarrow> genuine content (cas_files st) \<and>
     (\<forall>d n l stamp. cas_verified st (d, n) = Some (l, stamp) \<longrightarrow> sha256_hex (content stamp) = dvalue d)"

definition cas_ok :: "blob_store \<Rightarrow> bool" where
  "cas_ok st \<longleftrightarrow> (\<forall>v f. cas_files st v = Some f \<longrightarrow> sha256_hex (sf_bytes f) = v)"

lemma open_verified_keeps:
  "verified_ok content st \<Longrightarrow> verified_ok content (snd (open_verified hashed ref st))"
  "cas_files (snd (open_verified hashed ref st)) = cas_files st"
  "cas_keys (snd (open_verified hashed ref st)) = cas_keys st"
  by (auto simp: open_verified_def Let_def verified_ok_def genuine_def file_identity_def
      split: option.splits sum.splits if_splits)

lemma read_state: "snd (blob_read hashed ends ref rng st) = st \<or> snd (blob_read hashed ends ref rng st) = snd (open_verified hashed ref st)"
  "snd (blob_head hashed ends ref st) = st \<or> snd (blob_head hashed ends ref st) = snd (open_verified hashed ref st)"
  by (auto simp: blob_read_def blob_head_def bind_io_def lift_def ret_def split: prod.splits sum.splits)

text \<open>A \<open>put\<close> leaves the store alone, or has received exactly the announced bytes and linked them.\<close>

lemma put_state:
  assumes "blob_put others stamp stream d n media fmt key st = (r, t)"
  obtains (same) "t = st" "\<not> is_ok r"
  | (received) bytes v where "receive n [] stream = Inr bytes" "digest_sha256 bytes = d" "int (length bytes) = n"
      "v = (case cas_files st (dvalue d) of
         None \<Rightarrow> st\<lparr>cas_files := (cas_files st)(dvalue d \<mapsto> \<lparr>sf_bytes = bytes, sf_stamp = stamp\<rparr>)\<rparr>
       | Some f \<Rightarrow> st)"
      "\<forall>f. cas_files st (dvalue d) = Some f \<longrightarrow> verify_path (dvalue d) n st = Inr ()"
      "cas_files t = cas_files (others v)" "cas_verified t = cas_verified (others v)"
      "is_ok r \<Longrightarrow> \<exists>ref. r = Inr ref \<and> obj_digest ref = d \<and> byte_count ref = n \<and> locator ref = cas_locator d"
proof (cases "n < 0 \<or> key = [] \<or> key_taken key (d, n) st")
  case True
  then show thesis using assms same by (auto simp: blob_put_def split: if_splits)
next
  case False
  then have p: "blob_put others stamp stream d n media fmt key st
      = (case receive n [] stream of
          Inl e \<Rightarrow> (Inl e, st)
        | Inr bytes \<Rightarrow>
            if int (length bytes) \<noteq> n then (Inl (RuntimeError Count_Differs), st)
            else if digest_sha256 bytes \<noteq> d then (Inl (RuntimeError Digest_Differs), st)
            else
              (case link_blob stamp d n bytes st of
                 (Inl e, t) \<Rightarrow> (Inl e, t)
               | (Inr _, t) \<Rightarrow>
                   let u = others t in
                   if key_taken key (d, n) u then (Inl (RuntimeError Key_Conflict), u)
                   else
                     (embed_exn Blob_Core (checked object_ref_post_init
                        \<lparr>obj_digest = d, byte_count = n, media_type = media, format_id = fmt,
                         locator = cas_locator d\<rparr>),
                      u\<lparr>cas_keys := (cas_keys u)(key \<mapsto> (d, n))\<rparr>)))"
    by (simp add: blob_put_def)
  show thesis
  proof (cases "\<exists>bytes. receive n [] stream = Inr bytes \<and> int (length bytes) = n \<and> digest_sha256 bytes = d")
    case False
    then show thesis using assms same unfolding p by (auto split: sum.splits if_splits)
  next
    case True
    then obtain bytes where b: "receive n [] stream = Inr bytes" "int (length bytes) = n" "digest_sha256 bytes = d"
      by blast
    obtain l v where l: "link_blob stamp d n bytes st = (l, v)" by (cases "link_blob stamp d n bytes st")
    show thesis
    proof (cases l)
      case (Inl e)
      then have "v = st" using l by (auto simp: link_blob_def split: option.splits)
      then show thesis using assms same l Inl b unfolding p by auto
    next
      case (Inr x)
      have v: "v = (case cas_files st (dvalue d) of
           None \<Rightarrow> st\<lparr>cas_files := (cas_files st)(dvalue d \<mapsto> \<lparr>sf_bytes = bytes, sf_stamp = stamp\<rparr>)\<rparr>
         | Some f \<Rightarrow> st)" "\<forall>f. cas_files st (dvalue d) = Some f \<longrightarrow> verify_path (dvalue d) n st = Inr ()"
        using l Inr by (auto simp: link_blob_def split: option.splits)
      let ?ref = "\<lparr>obj_digest = d, byte_count = n, media_type = media, format_id = fmt, locator = cas_locator d\<rparr>"
      have t: "(r, t) = (if key_taken key (d, n) (others v) then (Inl (RuntimeError Key_Conflict), others v)
          else (embed_exn Blob_Core (checked object_ref_post_init ?ref),
                (others v)\<lparr>cas_keys := (cas_keys (others v))(key \<mapsto> (d, n))\<rparr>))"
        using assms l Inr b unfolding p by (simp add: Let_def)
      then have "cas_files t = cas_files (others v)" "cas_verified t = cas_verified (others v)"
        by (simp_all split: if_splits)
      moreover have "\<exists>ref. r = Inr ref \<and> obj_digest ref = d \<and> byte_count ref = n \<and> locator ref = cas_locator d"
        if "is_ok r"
        using t that by (cases "object_ref_post_init ?ref") (auto simp: checked_def embed_exn_def split: if_splits)
      ultimately show thesis by (rule received [OF b(1,3,2) v])
    qed
  qed
qed

lemma linked_verified:
  assumes "verified_ok content st" and "content stamp = bytes"
  shows "verified_ok content (case cas_files st v of
      None \<Rightarrow> st\<lparr>cas_files := (cas_files st)(v \<mapsto> \<lparr>sf_bytes = bytes, sf_stamp = stamp\<rparr>)\<rparr> | Some f \<Rightarrow> st)"
  using assms by (auto simp: verified_ok_def genuine_def split: option.splits)

lemma blob_do_verified:
  assumes "verified_ok content st" and "blob_op_ok content op"
  shows "verified_ok content (blob_do op st)"
proof (cases op)
  case (Put stamp stream d n media fmt key)
  obtain r t where p: "blob_put id stamp stream d n media fmt key st = (r, t)"
    by (cases "blob_put id stamp stream d n media fmt key st")
  from p have "verified_ok content t"
  proof (cases rule: put_state)
    case same
    then show ?thesis using assms(1) by simp
  next
    case (received bytes v)
    have "content stamp = bytes" using assms(2) Put received(1) by simp
    from linked_verified [OF assms(1) this, of "dvalue d"] received(4,6,7) show ?thesis
      by (simp add: verified_ok_def)
  qed
  then show ?thesis using Put p by simp
next
  case (Head ref)
  then show ?thesis using assms(1) open_verified_keeps(1) read_state(2) [of id id ref st] by auto
next
  case (Read ref rng)
  then show ?thesis using assms(1) open_verified_keeps(1) read_state(1) [of id id ref rng st] by auto
qed (use assms in \<open>simp_all add: verified_ok_def\<close>)

lemma blob_run_verified:
  "verified_ok content st \<Longrightarrow> \<forall>op \<in> set ops. blob_op_ok content op \<Longrightarrow> verified_ok content (blob_run ops st)"
  by (induction ops arbitrary: st) (auto simp: blob_run_def intro: blob_do_verified)

lemma blob_do_files:
  assumes "leaves_files op"
  shows "cas_files st \<subseteq>\<^sub>m cas_files (blob_do op st)"
proof (cases op)
  case (Put stamp stream d n media fmt key)
  obtain r t where p: "blob_put id stamp stream d n media fmt key st = (r, t)"
    by (cases "blob_put id stamp stream d n media fmt key st")
  from p have "cas_files st \<subseteq>\<^sub>m cas_files t"
    by (cases rule: put_state) (auto simp: map_le_def split: option.splits)
  then show ?thesis using Put p by simp
next
  case (Head ref)
  then show ?thesis using open_verified_keeps(2) read_state(2) [of id id ref st] by auto
next
  case (Read ref rng)
  then show ?thesis using open_verified_keeps(2) read_state(1) [of id id ref rng st] by auto
qed (use assms in simp_all)

lemma blob_run_files:
  "\<forall>op \<in> set ops. leaves_files op \<Longrightarrow> cas_files st \<subseteq>\<^sub>m cas_files (blob_run ops st)"
proof (induction ops arbitrary: st)
  case (Cons op ops)
  have "cas_files st \<subseteq>\<^sub>m cas_files (blob_do op st)" using Cons.prems by (intro blob_do_files) simp
  moreover have "cas_files (blob_do op st) \<subseteq>\<^sub>m cas_files (blob_run ops (blob_do op st))"
    using Cons.prems by (intro Cons.IH) simp
  ultimately show ?case using map_le_trans by (fastforce simp: blob_run_def)
qed (simp add: blob_run_def)

subsection \<open>What a read returns\<close>

definition file_is :: "digest \<Rightarrow> int \<Rightarrow> stored_file \<Rightarrow> bool" where
  "file_is d n f \<longleftrightarrow> sha256_hex (sf_bytes f) = dvalue d \<and> int (length (sf_bytes f)) = n"

lemma file_is_digest: "file_is d n f \<longleftrightarrow> digest_sha256 (sf_bytes f) = d \<and> int (length (sf_bytes f)) = n"
  by (cases d; cases "algorithm d") (auto simp: file_is_def digest_sha256_def)

lemma read_returns:
  assumes "verified_ok content st" and "blob_read hashed ends ref None st = (Inr bytes, t)"
  shows "digest_sha256 bytes = obj_digest ref \<and> int (length bytes) = byte_count ref"
proof -
  from assms(2) obtain f i where f: "fst (open_verified hashed ref st) = Inr (f, i)" "bytes = sf_bytes f"
    by (auto simp: blob_read_def bind_io_def lift_def ret_def range_bytes_def split: prod.splits sum.splits)
  from f(1) have "cas_files st (dvalue (obj_digest ref)) = Some f" "int (length (sf_bytes f)) = byte_count ref"
      "i = (int (length (sf_bytes f)), sf_stamp f)"
      "cas_verified st (obj_digest ref, byte_count ref) = Some i \<or> sha256_hex (sf_bytes f) = dvalue (obj_digest ref)"
    by (auto simp: open_verified_def file_identity_def Let_def split: option.splits sum.splits if_splits)
  moreover from this assms(1) have "sha256_hex (sf_bytes f) = dvalue (obj_digest ref)"
    by (auto simp: verified_ok_def genuine_def)
  ultimately have "file_is (obj_digest ref) (byte_count ref) f" by (simp add: file_is_def)
  then show ?thesis using f(2) by (simp add: file_is_digest)
qed

lemma read_stored:
  assumes "cas_files st (dvalue (obj_digest ref)) = Some f" and "file_is (obj_digest ref) (byte_count ref) f"
    and "locator ref = cas_locator (obj_digest ref)"
  shows "fst (blob_read id id ref None st) = Inr (sf_bytes f)"
  using assms
  by (auto simp: blob_read_def resolve_def open_verified_def file_identity_def require_unchanged_def range_bytes_def
      file_is_def bind_io_def lift_def ret_def Let_def)

lemma put_stores:
  assumes "blob_put (blob_run race) stamp stream d n media fmt key st = (Inr ref, t)"
    and "\<forall>op \<in> set race. leaves_files op"
  shows "obj_digest ref = d \<and> byte_count ref = n \<and> locator ref = cas_locator d
    \<and> (\<exists>f. cas_files t (dvalue d) = Some f \<and> file_is d n f)"
  using assms(1)
proof (cases rule: put_state)
  case (received bytes v)
  have "\<exists>f. cas_files v (dvalue d) = Some f \<and> file_is d n f"
    using received(2-5)
    by (cases "cas_files st (dvalue d)") (auto simp: verify_path_def file_is_def digest_sha256_def)
  then have "\<exists>f. cas_files (blob_run race v) (dvalue d) = Some f \<and> file_is d n f"
    using blob_run_files [OF assms(2), of v] by (auto simp: map_le_def dom_def)
  then show ?thesis using received(6,8) by auto
qed simp

text \<open>
  C17. The store returns only the bytes that were asked for, and keeps what it has accepted. After
  any history of calls, restarts and replacements of files, a read that returns gives bytes with
  the digest and the length of the reference. A \<open>put\<close> that returns, whatever other threads did in
  between and whatever lay in the directory before, has stored such bytes under a reference with
  the announced digest and length; as long as no file is replaced they can be read back after any
  further calls and restarts.
\<close>

theorem blob_store_exact:
  assumes "\<forall>op \<in> set ops. blob_op_ok content op" and "st = blob_run ops empty_store"
    and "\<forall>op \<in> set (race @ later). leaves_files op"
  shows "(\<forall>hashed ends ref bytes t. blob_read hashed ends ref None st = (Inr bytes, t) \<longrightarrow>
        digest_sha256 bytes = obj_digest ref \<and> int (length bytes) = byte_count ref)
    \<and> (\<forall>ref t. blob_put (blob_run race) stamp stream d n media fmt key st = (Inr ref, t) \<longrightarrow>
        obj_digest ref = d \<and> byte_count ref = n \<and>
        (\<exists>bytes. fst (blob_read id id ref None (blob_run later t)) = Inr bytes
           \<and> digest_sha256 bytes = d \<and> int (length bytes) = n))"
proof (intro conjI allI impI)
  have "verified_ok content empty_store" by (simp add: verified_ok_def genuine_def empty_store_def)
  then have v: "verified_ok content st" using blob_run_verified assms(1,2) by simp
  fix hashed ends ref bytes t
  assume "blob_read hashed ends ref None st = (Inr bytes, t)"
  from read_returns [OF v this] show "digest_sha256 bytes = obj_digest ref" "int (length bytes) = byte_count ref"
    by auto
next
  fix ref t
  assume p: "blob_put (blob_run race) stamp stream d n media fmt key st = (Inr ref, t)"
  have "\<forall>op \<in> set race. leaves_files op" using assms(3) by simp
  from put_stores [OF p this] obtain f where f: "obj_digest ref = d" "byte_count ref = n" "locator ref = cas_locator d"
      "cas_files t (dvalue d) = Some f" "file_is d n f"
    by blast
  then show "obj_digest ref = d" "byte_count ref = n" by simp_all
  have "\<forall>op \<in> set later. leaves_files op" using assms(3) by simp
  from blob_run_files [OF this, of t] f(4) have "cas_files (blob_run later t) (dvalue d) = Some f"
    by (auto simp: map_le_def dom_def)
  with read_stored [of "blob_run later t" ref f] f show
    "\<exists>bytes. fst (blob_read id id ref None (blob_run later t)) = Inr bytes \<and> digest_sha256 bytes = d \<and> int (length bytes) = n"
    by (auto simp: file_is_digest)
qed

text \<open>Two bytes, put and read back by a new process after the file has been read once.\<close>

definition demo_bytes :: string where
  "demo_bytes = ''ab''"

definition demo_ref :: object_ref where
  "demo_ref = \<lparr>obj_digest = digest_sha256 demo_bytes, byte_count = 2, media_type = ''a/b'', format_id = ''raw'',
     locator = cas_locator (digest_sha256 demo_bytes)\<rparr>"

theorem blob_store_exact_witness:
  "\<exists>bytes. fst (blob_read id id demo_ref None (blob_run [Read demo_ref None, Restarted]
      (snd (blob_put (blob_run []) 7 [''a'', ''b''] (digest_sha256 demo_bytes) 2 ''a/b'' ''raw'' ''key'' empty_store))))
     = Inr bytes \<and> digest_sha256 bytes = digest_sha256 demo_bytes"
proof -
  have t: "is_token ''raw''" by code_simp
  obtain t' where p: "blob_put (blob_run []) 7 [''a'', ''b''] (digest_sha256 demo_bytes) 2 ''a/b'' ''raw'' ''key'' empty_store
      = (Inr demo_ref, t')"
    using t
    by (simp add: blob_put_def link_blob_def empty_store_def key_taken_def demo_bytes_def blob_run_def demo_ref_def
        checked_def Let_def object_ref_post_init_def cas_locator_def embed_exn_def require_nonnegative_def
        require_token_def)
  have "\<forall>op \<in> set ([] :: blob_op list). blob_op_ok (\<lambda>_. []) op" "\<forall>op \<in> set ([] @ [Read demo_ref None, Restarted]). leaves_files op"
    by simp_all
  from blob_store_exact [OF this(1) refl this(2), of 7 "[''a'', ''b'']" "digest_sha256 demo_bytes" 2 "''a/b''" "''raw''" "''key''"] p
  show ?thesis by (auto simp: blob_run_def)
qed

end
