(* ===== verification/Catalog.thy ===== *)
theory Catalog
  imports Documents
begin

section \<open>Catalogs of published recordings\<close>

text \<open>
  \<open>storage/catalog.py\<close> and \<open>storage/postgres_catalog.py\<close>: a recording becomes visible in one step as
  a pair of stored objects, under its identity and its idempotency key. The PostgreSQL catalog is
  its tables \<open>object_blob\<close> and \<open>recording\<close>, with the function \<open>register_live_object_blob\<close> of migration
  0017; its transaction is one step that changes nothing when it raises. Only the columns that are
  read are kept, and of the orphan observations only which digests are claimed for deletion. What
  PostgreSQL itself may raise is not modelled, except the refusal of a claimed object.
\<close>

datatype catalog_error =
    Empty_Catalog_Key | Catalog_Key_Conflict | Recording_Conflict | Object_Collision | Orphan_Claimed
  | Catalog_Core core_error

type_synonym ('s, 'a) catalog_io = "('s, catalog_error exn, 'a) io"

subsection \<open>In memory\<close>

record memory_catalog =
  mc_recordings :: "string \<Rightarrow> published_recording_ref option"
  mc_keys :: "string \<Rightarrow> recording_object_ref option"

definition memory_publish ::
  "recording_object_ref \<Rightarrow> string \<Rightarrow> (memory_catalog, published_recording_ref) catalog_io" where
  "memory_publish r key st =
     (case mc_keys st key of
        Some b \<Rightarrow>
          if b \<noteq> r then (Inl (RuntimeError Catalog_Key_Conflict), st)
          else (Inr \<lparr>recording_object = b\<rparr>, st)
      | None \<Rightarrow>
          (case mc_recordings st (ror_recording_id r) of
             Some p \<Rightarrow>
               if recording_object p \<noteq> r then (Inl (RuntimeError Recording_Conflict), st)
               else (Inr p, st\<lparr>mc_keys := (mc_keys st)(key \<mapsto> r)\<rparr>)
           | None \<Rightarrow>
               (Inr \<lparr>recording_object = r\<rparr>,
                st\<lparr>mc_recordings := (mc_recordings st)(ror_recording_id r \<mapsto> \<lparr>recording_object = r\<rparr>),
                   mc_keys := (mc_keys st)(key \<mapsto> r)\<rparr>)))"

definition memory_get :: "string \<Rightarrow> memory_catalog \<Rightarrow> (catalog_error, published_recording_ref option) result" where
  "memory_get i st = Inr (mc_recordings st i)"

subsection \<open>In PostgreSQL\<close>

datatype blob_lifecycle = Live | Gc_Claimed | Gc_Delete_Failed | Gc_Deleted

record blob_row =
  bl_bytes :: int
  bl_media :: string
  bl_format :: string
  bl_locator :: string
  bl_state :: blob_lifecycle

record recording_row =
  rc_data :: string
  rc_metadata :: string
  rc_manifest :: string
  rc_key :: string

record catalog_tables =
  ct_objects :: "(string \<times> blob_row) list"
  ct_claimed :: "string list"
  ct_recordings :: "(string \<times> recording_row) list"

definition same_blob :: "object_ref \<Rightarrow> blob_row \<Rightarrow> bool" where
  "same_blob r row \<longleftrightarrow> bl_bytes row = byte_count r \<and> bl_media row = media_type r \<and> bl_format row = format_id r
     \<and> bl_locator row = locator r"

definition live_row :: "object_ref \<Rightarrow> blob_row" where
  "live_row r = \<lparr>bl_bytes = byte_count r, bl_media = media_type r, bl_format = format_id r, bl_locator = locator r,
     bl_state = Live\<rparr>"

text \<open>\<open>INSERT ... ON CONFLICT DO NOTHING\<close> conflicts on the digest and on the locator.\<close>

definition register_live_object_blob :: "object_ref \<Rightarrow> (catalog_tables, unit) catalog_io" where
  "register_live_object_blob r t =
     (let v = dvalue (obj_digest r) in
      if v \<in> set (ct_claimed t) then (Inl (RuntimeError Orphan_Claimed), t)
      else
        let objs = (if v \<in> set (map fst (ct_objects t)) \<or> locator r \<in> set (map (bl_locator \<circ> snd) (ct_objects t))
                    then ct_objects t else ct_objects t @ [(v, live_row r)])
        in (Inr (), t\<lparr>ct_objects := map (\<lambda>(w, row).
              (w, if w = v \<and> bl_state row = Gc_Deleted \<and> same_blob r row then row\<lparr>bl_state := Live\<rparr> else row)) objs\<rparr>))"

definition register_object :: "object_ref \<Rightarrow> (catalog_tables, unit) catalog_io" where
  "register_object r =
     bind_io (register_live_object_blob r) (\<lambda>_ t.
       case map_of (ct_objects t) (dvalue (obj_digest r)) of
         None \<Rightarrow> (Inl (RuntimeError Object_Collision), t)
       | Some row \<Rightarrow>
           if bl_state row = Live \<and> same_blob r row then (Inr (), t)
           else (Inl (RuntimeError Object_Collision), t))"

definition object_from_row :: "string \<Rightarrow> blob_row \<Rightarrow> (catalog_error, object_ref) result" where
  "object_from_row v row =
     bindE (embed_exn Catalog_Core (checked digest_post_init \<lparr>algorithm = SHA256, dvalue = v\<rparr>)) (\<lambda>d.
       embed_exn Catalog_Core (checked object_ref_post_init
         \<lparr>obj_digest = d, byte_count = bl_bytes row, media_type = bl_media row, format_id = bl_format row,
          locator = bl_locator row\<rparr>))"

definition published_from_row ::
  "string \<Rightarrow> recording_row \<Rightarrow> blob_row \<Rightarrow> blob_row \<Rightarrow> (catalog_error, published_recording_ref) result" where
  "published_from_row i r d m =
     bindE (object_from_row (rc_data r) d) (\<lambda>data.
     bindE (object_from_row (rc_metadata r) m) (\<lambda>meta.
     bindE (embed_exn Catalog_Core (contract_id RecordingId i)) (\<lambda>i.
     bindE (embed_exn Catalog_Core (checked digest_post_init \<lparr>algorithm = SHA256, dvalue = rc_manifest r\<rparr>)) (\<lambda>g.
     bindE (embed_exn Catalog_Core (checked recording_object_ref_post_init
         \<lparr>ror_recording_id = i, data_object = data, metadata_object = meta, manifest_digest = g\<rparr>)) (\<lambda>pair.
       Inr \<lparr>recording_object = pair\<rparr>)))))"

definition catalog_get :: "string \<Rightarrow> catalog_tables \<Rightarrow> (catalog_error, published_recording_ref option) result" where
  "catalog_get i t =
     (case map_of (ct_recordings t) i of
        None \<Rightarrow> Inr None
      | Some r \<Rightarrow>
          (case (map_of (ct_objects t) (rc_data r), map_of (ct_objects t) (rc_metadata r)) of
             (Some d, Some m) \<Rightarrow> bindE (published_from_row i r d m) (\<lambda>p. Inr (Some p))
           | _ \<Rightarrow> Inr None))"

definition recording_row_of :: "recording_object_ref \<Rightarrow> string \<Rightarrow> recording_row" where
  "recording_row_of r key =
     \<lparr>rc_data = dvalue (obj_digest (data_object r)), rc_metadata = dvalue (obj_digest (metadata_object r)),
      rc_manifest = dvalue (manifest_digest r), rc_key = key\<rparr>"

definition publish_statements ::
  "recording_object_ref \<Rightarrow> string \<Rightarrow> (catalog_tables, published_recording_ref) catalog_io" where
  "publish_statements r key =
     bind_io (register_object (data_object r)) (\<lambda>_.
     bind_io (register_object (metadata_object r)) (\<lambda>_ t.
       let i = ror_recording_id r;
           conflicts = filter (\<lambda>(j, row). j = i \<or> rc_key row = key) (ct_recordings t)
       in if conflicts = []
          then (Inr \<lparr>recording_object = r\<rparr>, t\<lparr>ct_recordings := ct_recordings t @ [(i, recording_row_of r key)]\<rparr>)
          else if length conflicts \<noteq> 1 \<or> fst (hd conflicts) \<noteq> i \<or> rc_key (snd (hd conflicts)) \<noteq> key
          then (Inl (RuntimeError Recording_Conflict), t)
          else
            (case catalog_get i t of
               Inl e \<Rightarrow> (Inl e, t)
             | Inr None \<Rightarrow> (Inl (RuntimeError Recording_Conflict), t)
             | Inr (Some p) \<Rightarrow>
                 if recording_object p \<noteq> r then (Inl (RuntimeError Recording_Conflict), t) else (Inr p, t))))"

definition catalog_publish ::
  "recording_object_ref \<Rightarrow> string \<Rightarrow> (catalog_tables, published_recording_ref) catalog_io" where
  "catalog_publish r key t =
     (if key = [] then (Inl (ValueError Empty_Catalog_Key), t)
      else
        case publish_statements r key t of
          (Inl e, u) \<Rightarrow> (Inl e, t)
        | (Inr p, u) \<Rightarrow> (Inr p, u))"

subsection \<open>The contract\<close>

text \<open>
  What a publisher relies on. \<open>stored s r key\<close>: the recording is visible under this key; it stays so
  under any publication, and to publish it again returns it and changes nothing.
\<close>

locale recording_catalog =
  fixes publish_op :: "recording_object_ref \<Rightarrow> string \<Rightarrow> ('s, published_recording_ref) catalog_io"
    and get_op :: "string \<Rightarrow> 's \<Rightarrow> (catalog_error, published_recording_ref option) result"
    and ok :: "'s \<Rightarrow> bool"
    and stored :: "'s \<Rightarrow> recording_object_ref \<Rightarrow> string \<Rightarrow> bool"
    and storable :: "recording_object_ref \<Rightarrow> bool"
  assumes keeps_ok: "ok s \<Longrightarrow> storable r \<Longrightarrow> ok (snd (publish_op r k s))"
    and keeps_stored: "ok s \<Longrightarrow> storable r \<Longrightarrow> stored s q j \<Longrightarrow> stored (snd (publish_op r k s)) q j"
    and publishes_stored: "ok s \<Longrightarrow> storable r \<Longrightarrow> publish_op r k s = (Inr p, t) \<Longrightarrow>
      recording_object p = r \<and> stored t r k"
    and stored_visible: "ok s \<Longrightarrow> stored s r k \<Longrightarrow> get_op (ror_recording_id r) s = Inr (Some \<lparr>recording_object = r\<rparr>)"
    and stored_again: "ok s \<Longrightarrow> stored s r k \<Longrightarrow> publish_op r k s = (Inr \<lparr>recording_object = r\<rparr>, s)"

definition memory_stored :: "memory_catalog \<Rightarrow> recording_object_ref \<Rightarrow> string \<Rightarrow> bool" where
  "memory_stored st r key \<longleftrightarrow> mc_keys st key = Some r"

definition memory_ok :: "memory_catalog \<Rightarrow> bool" where
  "memory_ok st \<longleftrightarrow> (\<forall>k r. mc_keys st k = Some r \<longrightarrow> mc_recordings st (ror_recording_id r) = Some \<lparr>recording_object = r\<rparr>)"

lemma published_eta: "recording_object p = r \<longleftrightarrow> p = \<lparr>recording_object = r\<rparr>"
  by (cases p) auto

interpretation memory: recording_catalog memory_publish memory_get memory_ok memory_stored "\<lambda>_. True"
  by unfold_locales
    (auto simp: memory_publish_def memory_get_def memory_ok_def memory_stored_def published_eta
      split: option.splits if_splits, metis option.distinct(1))

text \<open>The tables: rows under their keys, and a stored recording with both its objects live.\<close>

definition live_in :: "catalog_tables \<Rightarrow> object_ref \<Rightarrow> bool" where
  "live_in t r \<longleftrightarrow> dvalue (obj_digest r) \<notin> set (ct_claimed t) \<and>
     (\<exists>row. map_of (ct_objects t) (dvalue (obj_digest r)) = Some row \<and> bl_state row = Live \<and> same_blob r row)"

definition catalog_ok :: "catalog_tables \<Rightarrow> bool" where
  "catalog_ok t \<longleftrightarrow> distinct (map fst (ct_objects t)) \<and> distinct (map fst (ct_recordings t))
     \<and> distinct (map (rc_key \<circ> snd) (ct_recordings t))"

definition built_pair :: "recording_object_ref \<Rightarrow> bool" where
  "built_pair r \<longleftrightarrow> valid_id RecordingId (ror_recording_id r) \<and> built_object (data_object r)
     \<and> built_object (metadata_object r) \<and> built_digest (manifest_digest r)
     \<and> recording_object_ref_post_init r = Inr ()"

definition catalog_stored :: "catalog_tables \<Rightarrow> recording_object_ref \<Rightarrow> string \<Rightarrow> bool" where
  "catalog_stored t r key \<longleftrightarrow> built_pair r \<and> key \<noteq> [] \<and> live_in t (data_object r) \<and> live_in t (metadata_object r)
     \<and> map_of (ct_recordings t) (ror_recording_id r) = Some (recording_row_of r key)"

text \<open>A registration keeps the tables in order and every live object as it is.\<close>

definition objects_grow :: "catalog_tables \<Rightarrow> catalog_tables \<Rightarrow> bool" where
  "objects_grow t u \<longleftrightarrow> ct_claimed u = ct_claimed t \<and> ct_recordings u = ct_recordings t
     \<and> (distinct (map fst (ct_objects t)) \<longrightarrow> distinct (map fst (ct_objects u)))
     \<and> (\<forall>w row. map_of (ct_objects t) w = Some row \<longrightarrow> bl_state row = Live \<longrightarrow> map_of (ct_objects u) w = Some row)"

lemma objects_grow_trans: "objects_grow a b \<Longrightarrow> objects_grow b c \<Longrightarrow> objects_grow a c"
  by (auto simp: objects_grow_def)

lemma live_in_grow: "objects_grow t u \<Longrightarrow> live_in t r \<Longrightarrow> live_in u r"
  by (auto simp: objects_grow_def live_in_def)

lemma map_of_revive:
  "map_of (map (\<lambda>(w, row). (w, if P w row then f row else row)) objs) w
     = map_option (\<lambda>row. if P w row then f row else row) (map_of objs w)"
  by (induction objs) auto

lemma register_grow:
  assumes "register_live_object_blob r t = (Inr (), u)"
  shows "objects_grow t u \<and> dvalue (obj_digest r) \<notin> set (ct_claimed t)"
proof -
  let ?v = "dvalue (obj_digest r)"
  define objs where "objs = (if ?v \<in> set (map fst (ct_objects t)) \<or> locator r \<in> set (map (bl_locator \<circ> snd) (ct_objects t))
      then ct_objects t else ct_objects t @ [(?v, live_row r)])"
  have u: "u = t\<lparr>ct_objects := map (\<lambda>(w, row).
      (w, if w = ?v \<and> bl_state row = Gc_Deleted \<and> same_blob r row then row\<lparr>bl_state := Live\<rparr> else row)) objs\<rparr>"
    "?v \<notin> set (ct_claimed t)"
    using assms unfolding register_live_object_blob_def Let_def objs_def by (auto split: if_splits)
  have "ct_claimed u = ct_claimed t" "ct_recordings u = ct_recordings t" using u(1) by simp_all
  moreover have "map fst (ct_objects u) = map fst objs" using u(1) by (simp add: case_prod_unfold comp_def)
  moreover have "distinct (map fst (ct_objects t)) \<longrightarrow> distinct (map fst objs)" by (auto simp: objs_def)
  moreover have "map_of (ct_objects u) w = Some row"
    if "map_of (ct_objects t) w = Some row" "bl_state row = Live" for w row
  proof -
    have "map_of objs w = Some row" using that(1) by (auto simp: objs_def map_add_def)
    then show ?thesis using that(2) unfolding u by (simp add: map_of_revive)
  qed
  ultimately show ?thesis using u(2) unfolding objects_grow_def by metis
qed

lemma register_object_live:
  assumes "register_object r t = (Inr (), u)"
  shows "objects_grow t u \<and> live_in u r"
proof -
  obtain x where x: "register_live_object_blob r t = (Inr (), x)"
    using assms by (auto simp: register_object_def bind_io_def split: sum.splits prod.splits)
  from register_grow [OF x] x assms show ?thesis
    by (auto simp: register_object_def bind_io_def live_in_def objects_grow_def split: option.splits if_splits)
qed

lemma register_object_again:
  assumes "catalog_ok t" and "live_in t r"
  shows "register_object r t = (Inr (), t)"
proof -
  let ?v = "dvalue (obj_digest r)"
  obtain row where row: "?v \<notin> set (ct_claimed t)" "map_of (ct_objects t) ?v = Some row" "bl_state row = Live" "same_blob r row"
    using assms(2) by (auto simp: live_in_def)
  have "(?v, row) \<in> set (ct_objects t)" using row(2) by (rule map_of_SomeD)
  then have m: "?v \<in> set (map fst (ct_objects t))" by force
  have "map (\<lambda>(w, row). (w, if w = ?v \<and> bl_state row = Gc_Deleted \<and> same_blob r row then row\<lparr>bl_state := Live\<rparr> else row))
      (ct_objects t) = ct_objects t"
  proof (rule map_idI)
    fix x
    assume "x \<in> set (ct_objects t)"
    moreover obtain w q where x: "x = (w, q)" by (cases x)
    ultimately have "map_of (ct_objects t) w = Some q" using assms(1) by (simp add: catalog_ok_def)
    then show "(\<lambda>(w, row). (w, if w = ?v \<and> bl_state row = Gc_Deleted \<and> same_blob r row then row\<lparr>bl_state := Live\<rparr> else row)) x = x"
      using row(2,3) x by auto
  qed
  then have "register_live_object_blob r t = (Inr (), t)"
    using m row(1) by (simp add: register_live_object_blob_def Let_def)
  then show ?thesis using row by (simp add: register_object_def bind_io_def)
qed

text \<open>What a successful publication has done.\<close>

lemma same_blob_simps: "same_blob r row \<Longrightarrow>
    r = \<lparr>obj_digest = obj_digest r, byte_count = bl_bytes row, media_type = bl_media row, format_id = bl_format row,
         locator = bl_locator row\<rparr>"
  by (cases r) (simp add: same_blob_def)

lemma object_from_live:
  assumes "built_object r" and "same_blob r row"
  shows "object_from_row (dvalue (obj_digest r)) row = Inr r"
proof -
  have d: "\<lparr>algorithm = SHA256, dvalue = dvalue (obj_digest r)\<rparr> = obj_digest r"
    by (cases "obj_digest r"; cases "algorithm (obj_digest r)") simp
  have "digest_post_init (obj_digest r) = Inr ()" "object_ref_post_init r = Inr ()"
    using assms(1) by (simp_all add: built_object_def built_digest_def)
  then show ?thesis
    using same_blob_simps [OF assms(2)] by (simp add: object_from_row_def d checked_def embed_exn_def)
qed

lemma get_stored:
  assumes "catalog_stored t r key"
  shows "catalog_get (ror_recording_id r) t = Inr (Some \<lparr>recording_object = r\<rparr>)"
proof -
  obtain d m where dm: "map_of (ct_objects t) (dvalue (obj_digest (data_object r))) = Some d" "same_blob (data_object r) d"
      "map_of (ct_objects t) (dvalue (obj_digest (metadata_object r))) = Some m" "same_blob (metadata_object r) m"
    using assms by (auto simp: catalog_stored_def live_in_def)
  have b: "built_object (data_object r)" "built_object (metadata_object r)" "valid_id RecordingId (ror_recording_id r)"
      "digest_post_init (manifest_digest r) = Inr ()" "recording_object_ref_post_init r = Inr ()"
    using assms by (simp_all add: catalog_stored_def built_pair_def built_digest_def)
  have g: "\<lparr>algorithm = SHA256, dvalue = dvalue (manifest_digest r)\<rparr> = manifest_digest r"
    by (cases "manifest_digest r"; cases "algorithm (manifest_digest r)") simp
  have i: "contract_id RecordingId (ror_recording_id r) = Inr (ror_recording_id r)" using b(3) by simp
  have r: "\<lparr>ror_recording_id = ror_recording_id r, data_object = data_object r, metadata_object = metadata_object r,
      manifest_digest = manifest_digest r\<rparr> = r" by simp
  have "map_of (ct_recordings t) (ror_recording_id r) = Some (recording_row_of r key)"
    using assms by (simp add: catalog_stored_def)
  then show ?thesis
    using dm b object_from_live [OF b(1) dm(2)] object_from_live [OF b(2) dm(4)]
    by (simp add: catalog_get_def published_from_row_def recording_row_of_def g i r checked_def embed_exn_def)
qed

lemma object_from_columns: "object_from_row v row = Inr r \<Longrightarrow> dvalue (obj_digest r) = v"
  by (auto simp: object_from_row_def)

lemma get_columns:
  assumes "catalog_get i t = Inr (Some p)" and "map_of (ct_recordings t) i = Some row"
  shows "row = recording_row_of (recording_object p) (rc_key row)"
proof -
  obtain d m where f: "published_from_row i row d m = Inr p"
    using assms by (auto simp: catalog_get_def split: option.splits)
  obtain data meta where "object_from_row (rc_data row) d = Inr data" "object_from_row (rc_metadata row) m = Inr meta"
      "data_object (recording_object p) = data" "metadata_object (recording_object p) = meta"
      "dvalue (manifest_digest (recording_object p)) = rc_manifest row"
    using f by (auto simp: published_from_row_def)
  then show ?thesis by (cases row) (auto simp: recording_row_of_def dest: object_from_columns)
qed

lemma published_row:
  assumes "catalog_ok t" and "publish_statements r key t = (Inr p, u)" and "built_pair r" and "key \<noteq> []"
  shows "catalog_ok u \<and> recording_object p = r \<and> catalog_stored u r key
    \<and> (\<forall>q j. catalog_stored t q j \<longrightarrow> catalog_stored u q j)"
proof -
  let ?i = "ror_recording_id r"
  obtain x where x: "register_object (data_object r) t = (Inr (), x)"
    using assms(2) by (auto simp: publish_statements_def bind_io_def split: sum.splits prod.splits)
  obtain y where y: "register_object (metadata_object r) x = (Inr (), y)"
    using assms(2) x by (auto simp: publish_statements_def bind_io_def split: sum.splits prod.splits)
  have gx: "objects_grow t x" "live_in x (data_object r)" using register_object_live [OF x] by auto
  have gy: "objects_grow x y" "live_in y (metadata_object r)" using register_object_live [OF y] by auto
  have g: "objects_grow t y" using objects_grow_trans gx(1) gy(1) by blast
  have live: "live_in y (data_object r)" "live_in y (metadata_object r)" using live_in_grow [OF gy(1) gx(2)] gy(2) by auto
  have ok: "catalog_ok y" using assms(1) g by (simp add: catalog_ok_def objects_grow_def)
  have keep: "catalog_stored y q j" if "catalog_stored t q j" for q j
    using that live_in_grow [OF g] g by (auto simp: catalog_stored_def objects_grow_def)
  define conflicts where "conflicts = filter (\<lambda>(j, row). j = ?i \<or> rc_key row = key) (ct_recordings y)"
  have run: "publish_statements r key t =
      (if conflicts = []
       then (Inr \<lparr>recording_object = r\<rparr>, y\<lparr>ct_recordings := ct_recordings y @ [(?i, recording_row_of r key)]\<rparr>)
       else if length conflicts \<noteq> 1 \<or> fst (hd conflicts) \<noteq> ?i \<or> rc_key (snd (hd conflicts)) \<noteq> key
       then (Inl (RuntimeError Recording_Conflict), y)
       else
         (case catalog_get ?i y of
            Inl e \<Rightarrow> (Inl e, y)
          | Inr None \<Rightarrow> (Inl (RuntimeError Recording_Conflict), y)
          | Inr (Some p) \<Rightarrow>
              if recording_object p \<noteq> r then (Inl (RuntimeError Recording_Conflict), y) else (Inr p, y)))"
    using x y by (simp add: publish_statements_def bind_io_def Let_def conflicts_def)
  show ?thesis
  proof (cases "conflicts = []")
    case True
    let ?u = "y\<lparr>ct_recordings := ct_recordings y @ [(?i, recording_row_of r key)]\<rparr>"
    have u: "u = ?u" "recording_object p = r" using assms(2) run True by auto
    have fresh: "?i \<notin> set (map fst (ct_recordings y))" "key \<notin> set (map (rc_key \<circ> snd) (ct_recordings y))"
      using True by (auto simp: conflicts_def filter_empty_conv)
    have lu: "live_in ?u q = live_in y q" for q by (simp add: live_in_def)
    have old: "map_of (ct_recordings ?u) j = (if j = ?i then Some (recording_row_of r key) else map_of (ct_recordings y) j)" for j
    proof -
      have "map_of (ct_recordings y) ?i = None" using fresh(1) by (simp add: map_of_eq_None_iff)
      then show ?thesis by (cases "map_of (ct_recordings y) j") (auto simp: map_add_def)
    qed
    have "catalog_stored ?u r key" using live assms(3,4) unfolding catalog_stored_def lu old by simp
    moreover have "catalog_stored ?u q j" if "catalog_stored t q j" for q j
    proof -
      have q: "catalog_stored y q j" using that by (rule keep)
      then have "map_of (ct_recordings y) (ror_recording_id q) \<noteq> None" by (simp add: catalog_stored_def)
      then have "ror_recording_id q \<noteq> ?i" using fresh(1) by (metis map_of_eq_None_iff list.set_map)
      then show ?thesis using q unfolding catalog_stored_def lu old by simp
    qed
    moreover have "catalog_ok ?u" using ok fresh by (simp add: catalog_ok_def recording_row_of_def)
    ultimately show ?thesis using u by blast
  next
    case False
    then have c: "length conflicts = 1" "fst (hd conflicts) = ?i" "rc_key (snd (hd conflicts)) = key"
        "catalog_get ?i y = Inr (Some p)" "recording_object p = r" "u = y"
      using assms(2) run by (auto split: if_splits sum.splits option.splits)
    then obtain row where row: "conflicts = [(?i, row)]" "rc_key row = key"
      by (cases conflicts) auto
    have "set conflicts \<subseteq> set (ct_recordings y)" by (auto simp: conflicts_def)
    then have "(?i, row) \<in> set (ct_recordings y)" using row(1) by simp
    then have m: "map_of (ct_recordings y) ?i = Some row" using ok by (simp add: catalog_ok_def)
    have "row = recording_row_of r key" using get_columns [OF c(4) m] c(5) row(2) by simp
    with m live c(6) assms(3,4) have "catalog_stored u r key" by (simp add: catalog_stored_def)
    then show ?thesis using c(5,6) ok keep by blast
  qed
qed

lemma published_again:
  assumes "catalog_ok t" and "catalog_stored t r key"
  shows "catalog_publish r key t = (Inr \<lparr>recording_object = r\<rparr>, t)"
proof -
  let ?i = "ror_recording_id r" and ?row = "recording_row_of r key"
  have l: "live_in t (data_object r)" "live_in t (metadata_object r)" "key \<noteq> []"
      "map_of (ct_recordings t) ?i = Some ?row"
    using assms(2) by (simp_all add: catalog_stored_def)
  obtain xs ys where t: "ct_recordings t = xs @ (?i, ?row) # ys"
    using map_of_SomeD [OF l(4)] by (auto simp: in_set_conv_decomp)
  have "filter (\<lambda>(j, row). j = ?i \<or> rc_key row = key) (ct_recordings t) = [(?i, ?row)]"
  proof -
    have d: "distinct (map fst (xs @ (?i, ?row) # ys))" "distinct (map (rc_key \<circ> snd) (xs @ (?i, ?row) # ys))"
      using assms(1) unfolding catalog_ok_def t by blast+
    have k: "rc_key ?row = key" by (simp add: recording_row_of_def)
    have "j \<noteq> ?i \<and> rc_key row \<noteq> key" if "(j, row) \<in> set xs \<union> set ys" for j row
    proof
      have "j \<in> fst ` set xs \<union> fst ` set ys" using that by force
      moreover have "?i \<notin> fst ` set xs \<union> fst ` set ys" using d(1) by simp
      ultimately show "j \<noteq> ?i" by metis
      have "rc_key row \<in> (rc_key \<circ> snd) ` set xs \<union> (rc_key \<circ> snd) ` set ys" using that by force
      moreover have "key \<notin> (rc_key \<circ> snd) ` set xs \<union> (rc_key \<circ> snd) ` set ys" using d(2) k by simp
      ultimately show "rc_key row \<noteq> key" by metis
    qed
    then have "filter (\<lambda>(j, row). j = ?i \<or> rc_key row = key) xs = []" "filter (\<lambda>(j, row). j = ?i \<or> rc_key row = key) ys = []"
      unfolding filter_empty_conv by blast+
    then show ?thesis unfolding t by simp
  qed
  then show ?thesis
    using register_object_again [OF assms(1) l(1)] register_object_again [OF assms(1) l(2)] get_stored [OF assms(2)] l(3)
    by (simp add: catalog_publish_def publish_statements_def bind_io_def Let_def recording_row_of_def)
qed

lemma catalog_publish_keeps:
  assumes "catalog_ok t" and "built_pair r"
  shows "catalog_ok (snd (catalog_publish r key t))"
    "catalog_stored t q j \<Longrightarrow> catalog_stored (snd (catalog_publish r key t)) q j"
proof -
  have "catalog_ok (snd (catalog_publish r key t)) \<and> (catalog_stored t q j \<longrightarrow> catalog_stored (snd (catalog_publish r key t)) q j)"
  proof (cases "key = []")
    case True
    then show ?thesis using assms by (simp add: catalog_publish_def)
  next
    case False
    obtain res u where p: "publish_statements r key t = (res, u)" by (cases "publish_statements r key t")
    show ?thesis
    proof (cases res)
      case (Inl e)
      then show ?thesis using p False assms by (simp add: catalog_publish_def)
    next
      case (Inr x)
      then show ?thesis using p False published_row [OF assms(1) _ assms(2) False, of x u] by (simp add: catalog_publish_def)
    qed
  qed
  then show "catalog_ok (snd (catalog_publish r key t))"
    "catalog_stored t q j \<Longrightarrow> catalog_stored (snd (catalog_publish r key t)) q j" by blast+
qed

lemma publish_stored:
  assumes "catalog_ok t" and "built_pair r" and "catalog_publish r key t = (Inr p, u)"
  shows "recording_object p = r \<and> catalog_stored u r key"
proof -
  have k: "key \<noteq> []" using assms(3) by (auto simp: catalog_publish_def)
  obtain res v where p: "publish_statements r key t = (res, v)" by (cases "publish_statements r key t")
  with assms(3) k have "res = Inr p" "v = u" by (cases res; simp add: catalog_publish_def)+
  with published_row [OF assms(1) _ assms(2) k, of p u] p show ?thesis by blast
qed

interpretation postgres: recording_catalog catalog_publish catalog_get catalog_ok catalog_stored built_pair
proof
  fix s r k p t
  assume "catalog_ok s" "built_pair r" "catalog_publish r k s = (Inr p, t)"
  then show "recording_object p = r \<and> catalog_stored t r k" by (rule publish_stored)
qed (use catalog_publish_keeps get_stored published_again in blast)+

end
