(* ===== verification/Spool.thy ===== *)
theory Spool
  imports Plan_Codec "HOL-Library.Product_Lexorder"
begin

section \<open>The capture spool\<close>

text \<open>
  \<open>capture/spool.py\<close>: the durable state of every local recording from its allocation to the
  clean-up of its bytes. The table \<open>recordings\<close> is an association list from the identity to the
  other columns; each method is one step on it, as with the single capture process the spool is
  made for. The clock and the identity factory are arguments. Exceptions carry the text of the
  code, because the reconciler stores it. What SQLite itself may raise is not modelled.
\<close>

datatype spool_state = ALLOCATED | COMPLETE | FAILED | ACKNOWLEDGED | CLEANED

fun str_spool_state :: "spool_state \<Rightarrow> string" where
  "str_spool_state ALLOCATED = ''allocated''"
| "str_spool_state COMPLETE = ''complete''"
| "str_spool_state FAILED = ''failed''"
| "str_spool_state ACKNOWLEDGED = ''acknowledged''"
| "str_spool_state CLEANED = ''cleaned''"

record spool_row =
  sr_plan_id :: string
  sr_destination :: string
  sr_state :: spool_state
  sr_payload :: "string option"
  publish_attempts :: int
  sr_error :: "string option"
  sr_key :: "string option"
  published_identity :: "string option"
  sr_created :: int
  sr_updated :: int

type_synonym spool_table = "(string \<times> spool_row) list"

datatype spool_error = Says string | Stored_Text capture_error

type_synonym 'a spool_io = "(spool_table, spool_error exn, 'a) io"

record spool_entry =
  se_recording_id :: string
  se_plan_id :: string
  se_destination :: string
  se_state :: spool_state
  se_recording :: "completed_recording option"
  se_attempts :: int
  se_error :: "string option"
  se_key :: "string option"

record failed_recording =
  fr_recording_id :: string
  fr_plan_id :: string
  fr_error :: string
  fr_created :: int
  fr_updated :: int

subsection \<open>Statements\<close>

text \<open>\<open>UPDATE recordings SET ... WHERE recording_id = ? AND state = ?\<close> and its row count.\<close>

definition spool_update ::
  "(string \<Rightarrow> spool_row \<Rightarrow> bool) \<Rightarrow> (spool_row \<Rightarrow> spool_row) \<Rightarrow> spool_table \<Rightarrow> nat \<times> spool_table" where
  "spool_update p f tbl =
     (length (filter (\<lambda>(i, r). p i r) tbl), map (\<lambda>(i, r). (i, if p i r then f r else r)) tbl)"

text \<open>\<open>SELECT ... WHERE ... ORDER BY created_utc_ns, recording_id LIMIT ?\<close>.\<close>

definition by_creation :: "(spool_row \<Rightarrow> bool) \<Rightarrow> int \<Rightarrow> spool_table \<Rightarrow> spool_table" where
  "by_creation p limit tbl =
     take (nat limit) (sort_key (\<lambda>(i, r). (sr_created r, i)) (filter (\<lambda>(i, r). p r) tbl))"

definition by_update :: "(spool_row \<Rightarrow> bool) \<Rightarrow> int \<Rightarrow> spool_table \<Rightarrow> spool_table" where
  "by_update p limit tbl =
     take (nat limit) (sort_key (\<lambda>(i, r). (sr_updated r, i)) (filter (\<lambda>(i, r). p r) tbl))"

definition stored_completed :: "string option \<Rightarrow> (spool_error, completed_recording) result" where
  "stored_completed payload =
     (case payload of
        None \<Rightarrow> Inl (TypeError (Says ''the JSON object must be str, bytes or bytearray, not NoneType''))
      | Some t \<Rightarrow> embed_exn Stored_Text (decode_completed t))"

text \<open>\<open>_entry_from_row\<close> and \<open>_failed_recording_from_row\<close>.\<close>

definition entry_from_row :: "string \<times> spool_row \<Rightarrow> (spool_error, spool_entry) result" where
  "entry_from_row = (\<lambda>(i, r).
     bindE (embed_exn (Stored_Text \<circ> Plan_Core) (contract_id RecordingId i)) (\<lambda>i.
     bindE (embed_exn (Stored_Text \<circ> Plan_Core) (contract_id PlanId (sr_plan_id r))) (\<lambda>p.
     bindE (case sr_payload r of None \<Rightarrow> Inr None
            | Some t \<Rightarrow> bindE (embed_exn Stored_Text (decode_completed t)) (\<lambda>c. Inr (Some c))) (\<lambda>c.
       Inr \<lparr>se_recording_id = i, se_plan_id = p, se_destination = sr_destination r, se_state = sr_state r,
            se_recording = c, se_attempts = publish_attempts r, se_error = sr_error r, se_key = sr_key r\<rparr>))))"

definition failed_from_row :: "string \<times> spool_row \<Rightarrow> (spool_error, failed_recording) result" where
  "failed_from_row = (\<lambda>(i, r).
     case sr_error r of
       None \<Rightarrow> Inl (RuntimeError (Says ''failed spool evidence is invalid''))
     | Some e \<Rightarrow>
         if e = [] \<or> sr_created r < 0 \<or> sr_updated r < sr_created r
         then Inl (RuntimeError (Says ''failed spool evidence is invalid''))
         else
           bindE (embed_exn (Stored_Text \<circ> Plan_Core) (contract_id RecordingId i)) (\<lambda>i.
           bindE (embed_exn (Stored_Text \<circ> Plan_Core) (contract_id PlanId (sr_plan_id r))) (\<lambda>p.
             Inr \<lparr>fr_recording_id = i, fr_plan_id = p, fr_error = e, fr_created = sr_created r,
                  fr_updated = sr_updated r\<rparr>)))"

subsection \<open>Capture\<close>

text \<open>
  \<open>allocate\<close>: up to eight identities of the factory are tried; an \<open>INSERT\<close> that repeats an identity
  or a destination is refused by the table. \<open>dir\<close> is the normal path text of the recording
  directory, neither the file system dir nor the current directory.
\<close>

definition destination_of :: "string \<Rightarrow> string \<Rightarrow> string" where
  "destination_of dir i = dir @ ''/'' @ i"

fun allocate_tries ::
  "nat \<Rightarrow> string \<Rightarrow> string \<Rightarrow> (nat \<Rightarrow> string \<times> int) \<Rightarrow> (string \<times> string) spool_io" where
  "allocate_tries 0 dir plan draw tbl =
     (Inl (RuntimeError (Says ''could not allocate a unique recording ID'')), tbl)"
| "allocate_tries (Suc k) dir plan draw tbl =
     (let (i, now) = draw 0; d = destination_of dir i in
      if i \<in> set (map fst tbl) \<or> d \<in> set (map (sr_destination \<circ> snd) tbl)
      then allocate_tries k dir plan (\<lambda>n. draw (Suc n)) tbl
      else (Inr (i, d),
        tbl @ [(i, \<lparr>sr_plan_id = plan, sr_destination = d, sr_state = ALLOCATED, sr_payload = None,
          publish_attempts = 0, sr_error = None, sr_key = None, published_identity = None,
          sr_created = now, sr_updated = now\<rparr>)]))"

definition spool_allocate ::
  "string \<Rightarrow> string \<Rightarrow> (nat \<Rightarrow> string \<times> int) \<Rightarrow> (string \<times> string) spool_io" where
  "spool_allocate dir plan draw = allocate_tries 8 dir plan draw"

definition record_complete :: "completed_recording \<Rightarrow> int \<Rightarrow> unit spool_io" where
  "record_complete c now tbl =
     (let payload = encode_completed c; i = co_recording_id c in
      case map_of tbl i of
        None \<Rightarrow> (Inl (KeyError (Says (''unknown spool recording '' @ i))), tbl)
      | Some r \<Rightarrow>
          if sr_state r = COMPLETE \<and> sr_payload r = Some payload then (Inr (), tbl)
          else if sr_state r \<noteq> ALLOCATED
          then (Inl (RuntimeError (Says (''cannot complete recording in state '' @ str_spool_state (sr_state r)))), tbl)
          else if sr_plan_id r \<noteq> rm_plan_id (co_manifest c)
          then (Inl (RuntimeError (Says ''completed recording belongs to a different plan'')), tbl)
          else
            (Inr (), snd (spool_update (\<lambda>j r. j = i \<and> sr_state r = ALLOCATED)
               (\<lambda>r. r\<lparr>sr_state := COMPLETE, sr_payload := Some payload, sr_error := None, sr_updated := now\<rparr>) tbl)))"

definition record_failure :: "string \<Rightarrow> string \<Rightarrow> int \<Rightarrow> unit spool_io" where
  "record_failure i reason now tbl =
     (if reason = [] then (Inl (ValueError (Says ''failure reason cannot be empty'')), tbl)
      else
        let (n, t) = spool_update (\<lambda>j r. j = i \<and> sr_state r = ALLOCATED)
              (\<lambda>r. r\<lparr>sr_state := FAILED, sr_error := Some reason, sr_updated := now\<rparr>) tbl in
        if n = 0 then
          (case map_of t i of
             None \<Rightarrow> (Inl (KeyError (Says (''unknown spool recording '' @ i))), tbl)
           | Some r \<Rightarrow>
               if sr_state r \<noteq> FAILED
               then (Inl (RuntimeError (Says (''cannot fail recording in state '' @ str_spool_state (sr_state r)))), tbl)
               else (Inr (), t))
        else (Inr (), t))"

definition fail_incomplete_allocations :: "string \<Rightarrow> int \<Rightarrow> nat spool_io" where
  "fail_incomplete_allocations reason now tbl =
     (let (n, t) = spool_update (\<lambda>_ r. sr_state r = ALLOCATED)
            (\<lambda>r. r\<lparr>sr_state := FAILED, sr_error := Some reason, sr_updated := now\<rparr>) tbl
      in (Inr n, t))"

subsection \<open>Queries\<close>

definition incomplete_allocations :: "int \<Rightarrow> spool_entry list spool_io" where
  "incomplete_allocations limit tbl =
     (if limit \<le> 0 then (Inl (ValueError (Says ''limit must be positive'')), tbl)
      else (mapE entry_from_row (by_creation (\<lambda>r. sr_state r = ALLOCATED) limit tbl), tbl))"

text \<open>Newest first; identities are unique, so the reversed order is the descending one.\<close>

definition failed_recordings :: "int \<Rightarrow> failed_recording list spool_io" where
  "failed_recordings limit tbl =
     (if limit \<le> 0 then (Inl (ValueError (Says ''limit must be a positive integer'')), tbl)
      else
        (mapE failed_from_row (take (nat limit)
           (rev (sort_key (\<lambda>(i, r). (sr_updated r, i)) (filter (\<lambda>(i, r). sr_state r = FAILED) tbl)))), tbl))"

definition pending_publication :: "int \<Rightarrow> completed_recording list spool_io" where
  "pending_publication limit tbl =
     (if limit \<le> 0 then (Inl (ValueError (Says ''limit must be positive'')), tbl)
      else
        (mapE (\<lambda>(i, r). stored_completed (sr_payload r)) (by_creation (\<lambda>r. sr_state r = COMPLETE) limit tbl), tbl))"

definition pending_cleanup :: "int \<Rightarrow> completed_recording list spool_io" where
  "pending_cleanup limit tbl =
     (if limit \<le> 0 then (Inl (ValueError (Says ''limit must be positive'')), tbl)
      else
        (mapE (\<lambda>(i, r). stored_completed (sr_payload r)) (by_update (\<lambda>r. sr_state r = ACKNOWLEDGED) limit tbl), tbl))"

definition durable_state :: "spool_row \<Rightarrow> bool" where
  "durable_state r \<longleftrightarrow> sr_state r = COMPLETE \<or> sr_state r = ACKNOWLEDGED \<or> sr_state r = CLEANED"

definition has_durable_recording :: "string \<Rightarrow> spool_table \<Rightarrow> bool" where
  "has_durable_recording plan tbl \<longleftrightarrow> (\<exists>(i, r) \<in> set tbl. sr_plan_id r = plan \<and> durable_state r)"

definition durable_recording_for_plan :: "string \<Rightarrow> spool_entry option spool_io" where
  "durable_recording_for_plan plan tbl =
     (let rows = by_creation (\<lambda>r. sr_plan_id r = plan \<and> durable_state r) 2 tbl in
      if 1 < length rows then (Inl (RuntimeError (Says ''plan has more than one durable recording'')), tbl)
      else if rows = [] then (Inr None, tbl)
      else (bindE (entry_from_row (hd rows)) (\<lambda>e. Inr (Some e)), tbl))"

definition durable_recordings :: "int \<Rightarrow> spool_entry list spool_io" where
  "durable_recordings limit tbl =
     (if limit \<le> 0 then (Inl (ValueError (Says ''limit must be positive'')), tbl)
      else (mapE entry_from_row (by_creation durable_state limit tbl), tbl))"

definition spool_get :: "string \<Rightarrow> spool_entry spool_io" where
  "spool_get i tbl =
     (case map_of tbl i of
        None \<Rightarrow> (Inl (KeyError (Says i)), tbl)
      | Some r \<Rightarrow> (entry_from_row (i, r), tbl))"

subsection \<open>Publication\<close>

definition note_publish_attempt :: "string \<Rightarrow> string \<Rightarrow> string option \<Rightarrow> int \<Rightarrow> unit spool_io" where
  "note_publish_attempt i key err now tbl =
     (if key = [] then (Inl (ValueError (Says ''idempotency key cannot be empty'')), tbl)
      else
        let (n, t) = spool_update (\<lambda>j r. j = i \<and> sr_state r = COMPLETE)
              (\<lambda>r. r\<lparr>publish_attempts := publish_attempts r + 1, sr_key := Some key, sr_error := err,
                     sr_updated := now\<rparr>) tbl in
        if n \<noteq> 1 then (Inl (RuntimeError (Says ''publish attempt requires a complete recording'')), tbl)
        else (Inr (), t))"

definition spool_acknowledge ::
  "completed_recording \<Rightarrow> published_recording_ref \<Rightarrow> string \<Rightarrow> int \<Rightarrow> unit spool_io" where
  "spool_acknowledge c published key now tbl =
     (let i = co_recording_id c in
      if published_recording_id published \<noteq> i
      then (Inl (ValueError (Says ''publisher acknowledged a different recording'')), tbl)
      else
        let identity = str_digest (identity_digest (recording_object published)) in
        case map_of tbl i of
          None \<Rightarrow> (Inl (KeyError (Says (''unknown spool recording '' @ i))), tbl)
        | Some r \<Rightarrow>
            if sr_state r = ACKNOWLEDGED \<or> sr_state r = CLEANED then
              if published_identity r \<noteq> Some identity \<or> sr_key r \<noteq> Some key
              then (Inl (RuntimeError (Says ''publication acknowledgement collision'')), tbl)
              else (Inr (), tbl)
            else if sr_state r \<noteq> COMPLETE
            then (Inl (RuntimeError (Says (''cannot acknowledge recording in state '' @ str_spool_state (sr_state r)))), tbl)
            else
              (Inr (), snd (spool_update (\<lambda>j r. j = i \<and> sr_state r = COMPLETE)
                 (\<lambda>r. r\<lparr>sr_state := ACKNOWLEDGED, published_identity := Some identity, sr_key := Some key,
                        sr_error := None, sr_updated := now\<rparr>) tbl)))"

definition mark_cleaned :: "string \<Rightarrow> int \<Rightarrow> unit spool_io" where
  "mark_cleaned i now tbl =
     (let (n, t) = spool_update (\<lambda>j r. j = i \<and> sr_state r = ACKNOWLEDGED)
            (\<lambda>r. r\<lparr>sr_state := CLEANED, sr_updated := now\<rparr>) tbl in
      if n = 0 then
        (case map_of t i of
           None \<Rightarrow> (Inl (RuntimeError (Says ''cleanup completion requires acknowledgement'')), tbl)
         | Some r \<Rightarrow>
             if sr_state r \<noteq> CLEANED
             then (Inl (RuntimeError (Says ''cleanup completion requires acknowledgement'')), tbl)
             else (Inr (), t))
      else (Inr (), t))"

subsection \<open>Recording identities\<close>

text \<open>
  \<open>_new_recording_id\<close>: a ULID of the time in milliseconds and 80 random bits, in Crockford's
  base 32. The clock reading and the random bits are arguments.
\<close>

definition CROCKFORD32 :: string where
  "CROCKFORD32 = ''0123456789ABCDEFGHJKMNPQRSTVWXYZ''"

definition ulid_value :: "int \<Rightarrow> int \<Rightarrow> int" where
  "ulid_value time_ns bits = (time_ns div 1000000) * 2 ^ 80 + bits"

definition ulid_text :: "int \<Rightarrow> string" where
  "ulid_text v = map (\<lambda>k. CROCKFORD32 ! nat (v div 2 ^ (125 - 5 * k) mod 32)) [0..<26]"

definition new_recording_id :: "int \<Rightarrow> int \<Rightarrow> (core_error, string) result" where
  "new_recording_id time_ns bits = contract_id RecordingId (''rec_'' @ ulid_text (ulid_value time_ns bits))"

lemma embed_value: "embed_exn f (Inr a) = Inr a"
  by (simp add: embed_exn_def)

subsection \<open>Histories\<close>

text \<open>The operations that write, and a history of them.\<close>

datatype spool_op =
    Allocate string "nat \<Rightarrow> string \<times> int"
  | Complete completed_recording int
  | Fail_One string string int
  | Fail_All string int
  | Note_Attempt string string "string option" int
  | Acknowledge completed_recording published_recording_ref string int
  | Clean string int

definition forget :: "'a spool_io \<Rightarrow> unit spool_io" where
  "forget m tbl = (let (r, t) = m tbl in (bindE r (\<lambda>_. Inr ()), t))"

fun spool_do :: "string \<Rightarrow> spool_op \<Rightarrow> unit spool_io" where
  "spool_do dir (Allocate plan draw) = forget (spool_allocate dir plan draw)"
| "spool_do dir (Complete c now) = record_complete c now"
| "spool_do dir (Fail_One i reason now) = record_failure i reason now"
| "spool_do dir (Fail_All reason now) = forget (fail_incomplete_allocations reason now)"
| "spool_do dir (Note_Attempt i key err now) = note_publish_attempt i key err now"
| "spool_do dir (Acknowledge c ref key now) = spool_acknowledge c ref key now"
| "spool_do dir (Clean i now) = mark_cleaned i now"

definition spool_run :: "string \<Rightarrow> spool_op list \<Rightarrow> spool_table \<Rightarrow> spool_table" where
  "spool_run dir ops tbl = fold (\<lambda>op t. snd (spool_do dir op t)) ops tbl"

text \<open>Arguments that exist: identifiers and recordings their constructors have accepted.\<close>

fun op_built :: "spool_op \<Rightarrow> bool" where
  "op_built (Allocate plan draw) \<longleftrightarrow> valid_id PlanId plan \<and> (\<forall>n. valid_id RecordingId (fst (draw n)))"
| "op_built (Complete c now) \<longleftrightarrow> built_completed c"
| "op_built op \<longleftrightarrow> True"

definition payload_ok :: "string \<Rightarrow> spool_row \<Rightarrow> bool" where
  "payload_ok i r \<longleftrightarrow>
     (\<exists>c. built_completed c \<and> co_recording_id c = i \<and> rm_plan_id (co_manifest c) = sr_plan_id r
        \<and> sr_payload r = Some (encode_completed c))"

definition spool_row_ok :: "string \<Rightarrow> string \<Rightarrow> spool_row \<Rightarrow> bool" where
  "spool_row_ok dir i r \<longleftrightarrow>
     valid_id RecordingId i \<and> valid_id PlanId (sr_plan_id r) \<and> sr_destination r = destination_of dir i
     \<and> (case sr_state r of
          ALLOCATED \<Rightarrow> sr_payload r = None \<and> sr_error r = None \<and> publish_attempts r = 0 \<and> sr_key r = None
            \<and> published_identity r = None
        | FAILED \<Rightarrow> sr_payload r = None \<and> sr_error r \<noteq> None \<and> publish_attempts r = 0 \<and> sr_key r = None
            \<and> published_identity r = None
        | COMPLETE \<Rightarrow> payload_ok i r \<and> published_identity r = None
        | _ \<Rightarrow> payload_ok i r \<and> sr_error r = None \<and> sr_key r \<noteq> None \<and>
            (\<exists>ref. published_recording_id ref = i
               \<and> published_identity r = Some (str_digest (identity_digest (recording_object ref)))))"

definition spool_ok :: "string \<Rightarrow> spool_table \<Rightarrow> bool" where
  "spool_ok dir tbl \<longleftrightarrow> distinct (map fst tbl) \<and> (\<forall>(i, r) \<in> set tbl. spool_row_ok dir i r)"

text \<open>
  How a row may change: its plan, destination and creation never, its payload only while the
  recording is being taken, its publication only until it is acknowledged; a failure and a
  clean-up are final.
\<close>

definition advances :: "spool_row \<Rightarrow> spool_row \<Rightarrow> bool" where
  "advances r q \<longleftrightarrow>
     sr_plan_id q = sr_plan_id r \<and> sr_destination q = sr_destination r \<and> sr_created q = sr_created r
     \<and> (case sr_state r of
          ALLOCATED \<Rightarrow> True
        | FAILED \<Rightarrow> q = r
        | COMPLETE \<Rightarrow> sr_payload q = sr_payload r \<and> durable_state q
        | ACKNOWLEDGED \<Rightarrow>
            sr_payload q = sr_payload r \<and> published_identity q = published_identity r \<and> sr_key q = sr_key r
            \<and> (sr_state q = ACKNOWLEDGED \<or> sr_state q = CLEANED)
        | CLEANED \<Rightarrow> q = r)"

lemma advances_refl [simp]: "advances r r"
  by (auto simp: advances_def durable_state_def split: spool_state.splits)

lemma advances_trans: "advances r q \<Longrightarrow> advances q s \<Longrightarrow> advances r s"
  by (auto simp: advances_def durable_state_def split: spool_state.splits)

text \<open>A statement that touches rows one by one keeps identities and may only add rows behind.\<close>

definition rows_advance :: "spool_table \<Rightarrow> spool_table \<Rightarrow> bool" where
  "rows_advance tbl t \<longleftrightarrow> (\<forall>(i, r) \<in> set tbl. \<exists>q. (i, q) \<in> set t \<and> advances r q)"

lemma rows_advance_refl [simp]: "rows_advance t t"
  unfolding rows_advance_def by (intro ballI) (auto intro!: advances_refl)

lemma rows_advance_trans: "rows_advance a b \<Longrightarrow> rows_advance b c \<Longrightarrow> rows_advance a c"
  unfolding rows_advance_def using advances_trans by fast

lemma update_rows:
  assumes "spool_ok dir tbl"
    and "\<And>i r. (i, r) \<in> set tbl \<Longrightarrow> p i r \<Longrightarrow> spool_row_ok dir i r \<Longrightarrow> spool_row_ok dir i (f r) \<and> advances r (f r)"
  shows "spool_ok dir (snd (spool_update p f tbl)) \<and> rows_advance tbl (snd (spool_update p f tbl))"
proof -
  have "map fst (snd (spool_update p f tbl)) = map fst tbl"
    by (simp add: spool_update_def case_prod_unfold comp_def)
  moreover have "\<forall>(i, r) \<in> set (snd (spool_update p f tbl)). spool_row_ok dir i r"
    using assms by (fastforce simp: spool_update_def spool_ok_def)
  ultimately have "spool_ok dir (snd (spool_update p f tbl))"
    using assms(1) unfolding spool_ok_def by simp
  moreover have "rows_advance tbl (snd (spool_update p f tbl))"
    unfolding rows_advance_def
  proof (intro ballI, clarify)
    fix i r
    assume m: "(i, r) \<in> set tbl"
    then have ok: "spool_row_ok dir i r" using assms(1) by (auto simp: spool_ok_def)
    have "(i, if p i r then f r else r) \<in> set (snd (spool_update p f tbl))"
      using m by (force simp: spool_update_def)
    moreover have "advances r (if p i r then f r else r)" using assms(2) [OF m _ ok] by simp
    ultimately show "\<exists>q. (i, q) \<in> set (snd (spool_update p f tbl)) \<and> advances r q" by blast
  qed
  ultimately show ?thesis ..
qed

lemma map_of_row:
  assumes "spool_ok dir tbl" and "map_of tbl i = Some r"
  shows "(i, r) \<in> set tbl" "spool_row_ok dir i r"
  using map_of_SomeD [OF assms(2)] assms(1) by (auto simp: spool_ok_def)

lemma unique_row:
  assumes "spool_ok dir tbl" and "(i, r) \<in> set tbl"
  shows "map_of tbl i = Some r"
  using assms by (simp add: spool_ok_def)

lemma allocate_tries_keeps:
  assumes "spool_ok dir tbl" and "valid_id PlanId plan" and "\<And>n. valid_id RecordingId (fst (draw n))"
  shows "spool_ok dir (snd (allocate_tries k dir plan draw tbl))
    \<and> rows_advance tbl (snd (allocate_tries k dir plan draw tbl))"
  using assms(3)
proof (induction k arbitrary: draw)
  case 0
  then show ?case using assms(1) by simp
next
  case (Suc k)
  obtain i now where d: "draw 0 = (i, now)" by (cases "draw 0")
  have i: "valid_id RecordingId i" using Suc.prems [of 0] d by simp
  show ?case
  proof (cases "i \<in> set (map fst tbl) \<or> destination_of dir i \<in> set (map (sr_destination \<circ> snd) tbl)")
    case True
    then have "allocate_tries (Suc k) dir plan draw tbl = allocate_tries k dir plan (\<lambda>n. draw (Suc n)) tbl"
      using d by (simp add: Let_def)
    with Suc.IH [of "\<lambda>n. draw (Suc n)"] Suc.prems show ?thesis by simp
  next
    case False
    let ?r = "\<lparr>sr_plan_id = plan, sr_destination = destination_of dir i, sr_state = ALLOCATED, sr_payload = None,
      publish_attempts = 0, sr_error = None, sr_key = None, published_identity = None, sr_created = now, sr_updated = now\<rparr>"
    have t: "snd (allocate_tries (Suc k) dir plan draw tbl) = tbl @ [(i, ?r)]"
      using False d by (auto simp: Let_def)
    have "spool_row_ok dir i ?r" using i assms(2) by (simp add: spool_row_ok_def)
    then have "spool_ok dir (tbl @ [(i, ?r)])" using assms(1) False by (auto simp: spool_ok_def)
    moreover have "rows_advance tbl (tbl @ [(i, ?r)])"
      unfolding rows_advance_def using advances_refl by fastforce
    ultimately show ?thesis unfolding t ..
  qed
qed

lemma spool_do_keeps:
  assumes "spool_ok dir tbl" and "op_built op"
  shows "spool_ok dir (snd (spool_do dir op tbl)) \<and> rows_advance tbl (snd (spool_do dir op tbl))"
proof (cases op)
  case (Allocate plan draw)
  then show ?thesis
    using allocate_tries_keeps [OF assms(1), of plan draw 8] assms(2)
    by (cases "allocate_tries 8 dir plan draw tbl") (simp add: forget_def spool_allocate_def)
next
  case (Complete c now)
  let ?i = "co_recording_id c"
  let ?f = "\<lambda>r. r\<lparr>sr_state := COMPLETE, sr_payload := Some (encode_completed c), sr_error := None, sr_updated := now\<rparr>"
  show ?thesis
  proof (cases "map_of tbl ?i")
    case (Some r)
    have u: "spool_ok dir (snd (spool_update (\<lambda>j r. j = ?i \<and> sr_state r = ALLOCATED) ?f tbl))
        \<and> rows_advance tbl (snd (spool_update (\<lambda>j r. j = ?i \<and> sr_state r = ALLOCATED) ?f tbl))"
      if "sr_plan_id r = rm_plan_id (co_manifest c)"
    proof (rule update_rows [OF assms(1)], clarify)
      fix j q
      assume q: "(co_recording_id c, q) \<in> set tbl" "sr_state q = ALLOCATED" "spool_row_ok dir (co_recording_id c) q"
      have "q = r" using unique_row [OF assms(1) q(1)] Some by simp
      moreover have "payload_ok ?i (?f q)"
        unfolding payload_ok_def using assms(2) Complete that \<open>q = r\<close> by (intro exI [of _ c]) simp
      ultimately show "spool_row_ok dir (co_recording_id c) (?f q) \<and> advances q (?f q)"
        using q by (simp add: spool_row_ok_def advances_def)
    qed
    then show ?thesis using Complete Some assms(1) by (simp add: record_complete_def Let_def)
  qed (use Complete assms(1) in \<open>simp add: record_complete_def\<close>)
next
  case (Fail_One i reason now)
  let ?u = "spool_update (\<lambda>j r. j = i \<and> sr_state r = ALLOCATED)
    (\<lambda>r. r\<lparr>sr_state := FAILED, sr_error := Some reason, sr_updated := now\<rparr>) tbl"
  have "spool_ok dir (snd ?u) \<and> rows_advance tbl (snd ?u)"
    by (rule update_rows [OF assms(1)]) (auto simp: spool_row_ok_def advances_def)
  then show ?thesis
    using Fail_One assms(1) by (auto simp: record_failure_def Let_def split: prod.splits option.splits)
next
  case (Fail_All reason now)
  let ?u = "spool_update (\<lambda>_ r. sr_state r = ALLOCATED)
    (\<lambda>r. r\<lparr>sr_state := FAILED, sr_error := Some reason, sr_updated := now\<rparr>) tbl"
  have "spool_ok dir (snd ?u) \<and> rows_advance tbl (snd ?u)"
    by (rule update_rows [OF assms(1)]) (auto simp: spool_row_ok_def advances_def)
  then show ?thesis
    using Fail_All by (auto simp: fail_incomplete_allocations_def forget_def Let_def split: prod.splits)
next
  case (Note_Attempt i key err now)
  let ?u = "spool_update (\<lambda>j r. j = i \<and> sr_state r = COMPLETE)
    (\<lambda>r. r\<lparr>publish_attempts := publish_attempts r + 1, sr_key := Some key, sr_error := err, sr_updated := now\<rparr>) tbl"
  have "spool_ok dir (snd ?u) \<and> rows_advance tbl (snd ?u)"
    by (rule update_rows [OF assms(1)]) (auto simp: spool_row_ok_def advances_def payload_ok_def durable_state_def)
  then show ?thesis
    using Note_Attempt assms(1) by (auto simp: note_publish_attempt_def Let_def split: prod.splits)
next
  case (Acknowledge c ref key now)
  let ?i = "co_recording_id c"
  let ?u = "spool_update (\<lambda>j r. j = ?i \<and> sr_state r = COMPLETE)
    (\<lambda>r. r\<lparr>sr_state := ACKNOWLEDGED, published_identity := Some (str_digest (identity_digest (recording_object ref))),
      sr_key := Some key, sr_error := None, sr_updated := now\<rparr>) tbl"
  have "spool_ok dir (snd ?u) \<and> rows_advance tbl (snd ?u)" if "published_recording_id ref = ?i"
    using that
    by (intro update_rows [OF assms(1)]) (auto simp: spool_row_ok_def advances_def payload_ok_def durable_state_def)
  then show ?thesis
    using Acknowledge assms(1) by (auto simp: spool_acknowledge_def Let_def split: option.splits)
next
  case (Clean i now)
  let ?u = "spool_update (\<lambda>j r. j = i \<and> sr_state r = ACKNOWLEDGED) (\<lambda>r. r\<lparr>sr_state := CLEANED, sr_updated := now\<rparr>) tbl"
  have "spool_ok dir (snd ?u) \<and> rows_advance tbl (snd ?u)"
    by (rule update_rows [OF assms(1)]) (auto simp: spool_row_ok_def advances_def payload_ok_def)
  then show ?thesis
    using Clean assms(1) by (auto simp: mark_cleaned_def Let_def split: prod.splits option.splits)
qed

lemma spool_run_keeps:
  "spool_ok dir tbl \<Longrightarrow> \<forall>op \<in> set ops. op_built op \<Longrightarrow>
    spool_ok dir (spool_run dir ops tbl) \<and> rows_advance tbl (spool_run dir ops tbl)"
proof (induction ops arbitrary: tbl)
  case (Cons op ops)
  have s: "spool_ok dir (snd (spool_do dir op tbl))" "rows_advance tbl (snd (spool_do dir op tbl))"
    using spool_do_keeps Cons.prems by auto
  with Cons.IH [OF s(1)] Cons.prems(2) rows_advance_trans [OF s(2)] show ?case by (simp add: spool_run_def)
qed (simp add: spool_run_def)

lemma spool_raise_keeps:
  assumes "fst (spool_do dir op tbl) = Inl e"
  shows "snd (spool_do dir op tbl) = tbl"
proof (cases op)
  case (Allocate plan draw)
  have "fst (allocate_tries k dir plan draw tbl) = Inl e \<Longrightarrow> snd (allocate_tries k dir plan draw tbl) = tbl" for k draw
    by (induction k arbitrary: draw) (auto simp: Let_def split: prod.splits if_splits)
  from this [of 8 draw] assms Allocate show ?thesis
    by (cases "allocate_tries 8 dir plan draw tbl") (simp add: forget_def spool_allocate_def bindE_eq_Inl)
qed (use assms in \<open>auto simp: record_complete_def record_failure_def fail_incomplete_allocations_def
    note_publish_attempt_def spool_acknowledge_def mark_cleaned_def forget_def Let_def
    split: option.splits if_splits prod.splits\<close>)

subsection \<open>What the queries return\<close>

lemma stored_payload:
  assumes "payload_ok i r"
  shows "\<exists>c. built_completed c \<and> co_recording_id c = i \<and> stored_completed (sr_payload r) = Inr c
    \<and> sr_payload r = Some (encode_completed c)"
proof -
  obtain c where c: "built_completed c" "co_recording_id c = i" "sr_payload r = Some (encode_completed c)"
    using assms by (auto simp: payload_ok_def)
  let ?d = "completed_read c"
  have "built_completed ?d" "co_recording_id ?d = i" "encode_completed ?d = encode_completed c"
    using built_completed_read [OF c(1)] c(2) decode_encoded_completed [OF c(1)] by (simp_all add: completed_read_def)
  moreover have "stored_completed (sr_payload r) = Inr ?d"
    using decode_encoded_completed [OF c(1)] c(3) by (simp add: stored_completed_def embed_exn_def)
  ultimately show ?thesis using c(3) by (intro exI [of _ ?d]) simp
qed

lemma durable_payload: "spool_row_ok dir i r \<Longrightarrow> durable_state r \<Longrightarrow> payload_ok i r"
  by (auto simp: spool_row_ok_def durable_state_def)

lemma entry_readable:
  assumes "spool_row_ok dir i r"
  shows "is_ok (entry_from_row (i, r))"
proof -
  have i: "embed_exn (Stored_Text \<circ> Plan_Core) (contract_id RecordingId i) = Inr i"
      "embed_exn (Stored_Text \<circ> Plan_Core) (contract_id PlanId (sr_plan_id r)) = Inr (sr_plan_id r)"
    using assms by (simp_all add: spool_row_ok_def)
  show ?thesis
  proof (cases "sr_payload r")
    case None
    then show ?thesis by (simp add: entry_from_row_def i)
  next
    case (Some t)
    then have "durable_state r" using assms by (auto simp: spool_row_ok_def durable_state_def split: spool_state.splits)
    from stored_payload [OF durable_payload [OF assms this]]
    obtain c where "stored_completed (sr_payload r) = Inr c" by blast
    then have "embed_exn Stored_Text (decode_completed t) = Inr c" using Some by (simp add: stored_completed_def)
    then show ?thesis using Some by (simp add: entry_from_row_def i embed_value)
  qed
qed

lemma mapE_ok: "(\<And>x. x \<in> set xs \<Longrightarrow> is_ok (f x)) \<Longrightarrow> is_ok (mapE f xs)"
proof (induction xs)
  case (Cons x xs)
  then have "is_ok (f x)" "is_ok (mapE f xs)" by auto
  then show ?case by (cases "f x"; cases "mapE f xs") simp_all
qed simp

lemma by_creation_rows: "x \<in> set (by_creation p limit tbl) \<Longrightarrow> x \<in> set tbl \<and> p (snd x)"
  "x \<in> set (by_update p limit tbl) \<Longrightarrow> x \<in> set tbl \<and> p (snd x)"
  unfolding by_creation_def by_update_def by (auto dest!: in_set_takeD)

lemma pending_rows:
  assumes "\<And>x. x \<in> set rows \<Longrightarrow> payload_ok (fst x) (snd x)"
  shows "\<exists>cs. mapE (\<lambda>(i, r). stored_completed (sr_payload r)) rows = Inr cs
    \<and> list_all2 (\<lambda>(i, r) c. built_completed c \<and> co_recording_id c = i \<and> sr_payload r = Some (encode_completed c)) rows cs"
  using assms
proof (induction rows)
  case (Cons x rows)
  obtain i r where x: "x = (i, r)" by (cases x)
  obtain c where c: "stored_completed (sr_payload r) = Inr c" "built_completed c" "co_recording_id c = i"
      "sr_payload r = Some (encode_completed c)"
    using stored_payload [of i r] Cons.prems [of x] x by auto
  obtain cs where "mapE (\<lambda>(i, r). stored_completed (sr_payload r)) rows = Inr cs"
      "list_all2 (\<lambda>(i, r) c. built_completed c \<and> co_recording_id c = i \<and> sr_payload r = Some (encode_completed c)) rows cs"
    using Cons.IH Cons.prems by auto
  with c x show ?case by (intro exI [of _ "c # cs"]) simp
qed simp

text \<open>The recordings a query hands out, row by row.\<close>

definition recordings_of :: "spool_table \<Rightarrow> completed_recording list \<Rightarrow> bool" where
  "recordings_of rows cs \<longleftrightarrow>
     list_all2 (\<lambda>(i, r) c. built_completed c \<and> co_recording_id c = i \<and> sr_payload r = Some (encode_completed c)) rows cs"

lemma pending_publication_rows:
  assumes "spool_ok dir tbl" and "0 < limit"
  shows "\<exists>cs. pending_publication limit tbl = (Inr cs, tbl)
    \<and> recordings_of (by_creation (\<lambda>r. sr_state r = COMPLETE) limit tbl) cs"
proof -
  have "payload_ok (fst x) (snd x)" if "x \<in> set (by_creation (\<lambda>r. sr_state r = COMPLETE) limit tbl)" for x
    using by_creation_rows(1) [OF that] assms(1) durable_payload
    by (cases x) (auto simp: spool_ok_def durable_state_def)
  from pending_rows [OF this] show ?thesis using assms(2) by (auto simp: pending_publication_def recordings_of_def)
qed

lemma pending_cleanup_rows:
  assumes "spool_ok dir tbl" and "0 < limit"
  shows "\<exists>cs. pending_cleanup limit tbl = (Inr cs, tbl)
    \<and> recordings_of (by_update (\<lambda>r. sr_state r = ACKNOWLEDGED) limit tbl) cs"
proof -
  have "payload_ok (fst x) (snd x)" if "x \<in> set (by_update (\<lambda>r. sr_state r = ACKNOWLEDGED) limit tbl)" for x
    using by_creation_rows(2) [OF that] assms(1) durable_payload
    by (cases x) (auto simp: spool_ok_def durable_state_def)
  from pending_rows [OF this] show ?thesis using assms(2) by (auto simp: pending_cleanup_def recordings_of_def)
qed

lemma entries_readable:
  assumes "spool_ok dir tbl"
  shows "is_ok (mapE entry_from_row (by_creation p limit tbl))"
  using assms entry_readable by (intro mapE_ok) (auto simp: spool_ok_def dest!: by_creation_rows)

text \<open>
  C23. The spool never loses a recording. Whatever operations run in whatever order, every row
  is well formed (its columns are those of its state, its payload the text of a built recording
  of its own identity and plan), keeps its plan, destination and creation, goes only from
  allocated to failed or to complete, acknowledged and cleaned, and keeps its payload and its
  publication once it has them; every query decodes every row it selects; and an operation that
  raises leaves the table as it was.
\<close>

theorem spool_keeps_recordings:
  assumes "\<forall>op \<in> set (ops @ later). op_built op" and "t = spool_run dir ops []" and "u = spool_run dir later t"
  shows "spool_ok dir u \<and> rows_advance t u
    \<and> (\<forall>limit > 0.
         (\<exists>cs. pending_publication limit u = (Inr cs, u)
            \<and> recordings_of (by_creation (\<lambda>r. sr_state r = COMPLETE) limit u) cs)
       \<and> (\<exists>cs. pending_cleanup limit u = (Inr cs, u)
            \<and> recordings_of (by_update (\<lambda>r. sr_state r = ACKNOWLEDGED) limit u) cs)
       \<and> is_ok (fst (incomplete_allocations limit u)) \<and> is_ok (fst (durable_recordings limit u)))
    \<and> (\<forall>op e. fst (spool_do dir op u) = Inl e \<longrightarrow> snd (spool_do dir op u) = u)"
proof -
  have "spool_ok dir []" by (simp add: spool_ok_def)
  then have t: "spool_ok dir t" using spool_run_keeps [of dir "[]" ops] assms(1,2) by auto
  have u: "spool_ok dir u" "rows_advance t u" using spool_run_keeps [OF t, of later] assms(1,3) by auto
  then show ?thesis
    using pending_publication_rows [OF u(1)] pending_cleanup_rows [OF u(1)] entries_readable [OF u(1)]
      spool_raise_keeps
    by (auto simp: incomplete_allocations_def durable_recordings_def)
qed

definition demo_published :: published_recording_ref where
  "demo_published =
     \<lparr>recording_object =
       \<lparr>ror_recording_id = ''rec_1'',
        data_object = \<lparr>obj_digest = lo_digest (demo_object CHR ''a''), byte_count = 16, media_type = ''a/b'',
          format_id = ''iq'', locator = ''x''\<rparr>,
        metadata_object = \<lparr>obj_digest = lo_digest (demo_object CHR ''b''), byte_count = 16, media_type = ''a/b'',
          format_id = ''md'', locator = ''y''\<rparr>,
        manifest_digest = co_manifest_digest demo_recording\<rparr>\<rparr>"

definition demo_capture :: "spool_op list" where
  "demo_capture = [Allocate ''plan_1'' (\<lambda>_. (''rec_1'', 5)), Complete demo_recording 6]"

lemma demo_capture_built: "\<forall>op \<in> set demo_capture. op_built op"
proof -
  have "valid_id PlanId ''plan_1''" "valid_id RecordingId ''rec_1''" by code_simp+
  then show ?thesis using demo_recording_built by (simp add: demo_capture_def)
qed

theorem spool_keeps_recordings_witness:
  "spool_ok ''/r'' (spool_run ''/r'' [Clean ''rec_1'' 9] (spool_run ''/r'' demo_capture []))"
proof -
  have "\<forall>op \<in> set (demo_capture @ [Clean ''rec_1'' 9]). op_built op" using demo_capture_built by auto
  from spool_keeps_recordings [OF this refl refl] show ?thesis by blast
qed

text \<open>
  A wall clock set back between an allocation and its failure makes \<open>failed_recordings\<close> refuse
  the row, and with it the whole answer; so does the empty reason that
  \<open>fail_incomplete_allocations\<close>, unlike \<open>record_failure\<close>, accepts.
\<close>

lemma failed_listing_refuses:
  "fst (failed_recordings 9 (spool_run ''/r'' [Allocate ''plan_1'' (\<lambda>_. (''rec_1'', 5)), Fail_One ''rec_1'' ''x'' 4] []))
     = Inl (RuntimeError (Says ''failed spool evidence is invalid''))"
  "fst (failed_recordings 9 (spool_run ''/r'' [Allocate ''plan_1'' (\<lambda>_. (''rec_1'', 5)), Fail_All [] 6] []))
     = Inl (RuntimeError (Says ''failed spool evidence is invalid''))"
  by code_simp+

end
