(* ===== verification/Publication.thy ===== *)
theory Publication
  imports Spool
begin

section \<open>Publication of completed recordings\<close>

text \<open>
  \<open>capture/publication.py\<close>: the reconciler that publishes completed recordings, acknowledges them
  in the spool and removes their bytes. The publisher and the cleaner are code of other modules:
  during one pass they answer each recording with a value, an exception with its class name and
  text, or the end of the process, after which only the table remains. The world of a pass is the
  table, the calls made on the ports with the row of the recording at that moment, and the number
  of clock readings so far.
\<close>

datatype 'a reply = Reply 'a | Raise_Exc string string | Process_Ends

record publication_env =
  publisher :: "completed_recording \<Rightarrow> string \<Rightarrow> published_recording_ref reply"
  cleaner :: "completed_recording \<Rightarrow> unit reply"
  pub_clock :: "nat \<Rightarrow> int"

datatype port_call =
    Publish_Called completed_recording string "spool_row option"
  | Cleanup_Called completed_recording "spool_row option"

record pub_world =
  w_table :: spool_table
  w_log :: "port_call list"
  w_reads :: nat

text \<open>Exceptions of the spool, of the checks here and of the ports; the last one ends the process.\<close>

datatype pub_exn = Spool_Raised "spool_error exn" | Named string string | Ended

type_synonym 'a pub_io = "(pub_world, pub_exn, 'a) io"

fun spool_text :: "spool_error \<Rightarrow> string" where
  "spool_text (Says m) = m"
| "spool_text (Stored_Text e) = []"

text \<open>
  \<open>type(error).__name__\<close> and \<open>str(error)\<close>; the text of a \<open>KeyError\<close> is the quoted one. No codec error
  is raised inside a \<open>try\<close>.
\<close>

fun error_parts :: "pub_exn \<Rightarrow> string \<times> string" where
  "error_parts (Spool_Raised (ValueError m)) = (''ValueError'', spool_text m)"
| "error_parts (Spool_Raised (TypeError m)) = (''TypeError'', spool_text m)"
| "error_parts (Spool_Raised (RuntimeError m)) = (''RuntimeError'', spool_text m)"
| "error_parts (Spool_Raised (KeyError m)) = (''KeyError'', [CHR 0x27] @ spool_text m @ [CHR 0x27])"
| "error_parts (Spool_Raised (IndexError m)) = (''IndexError'', spool_text m)"
| "error_parts (Spool_Raised (SystemExit m)) = (''SystemExit'', spool_text m)"
| "error_parts (Spool_Raised (AssertionError m)) = (''AssertionError'', spool_text m)"
| "error_parts (Spool_Raised (StopIteration m)) = (''StopIteration'', spool_text m)"
| "error_parts (Named n m) = (n, m)"
| "error_parts Ended = ([], [])"

record reconciliation_result =
  rr_published :: nat
  rr_cleaned :: nat
  rr_deferred :: nat
  rr_errors :: "string list"

definition nothing_reconciled :: reconciliation_result where
  "nothing_reconciled = \<lparr>rr_published = 0, rr_cleaned = 0, rr_deferred = 0, rr_errors = []\<rparr>"

subsection \<open>Calls\<close>

definition in_spool :: "publication_env \<Rightarrow> (int \<Rightarrow> 'a spool_io) \<Rightarrow> 'a pub_io" where
  "in_spool env m w =
     (let (r, t) = m (pub_clock env (w_reads w)) (w_table w)
      in (map_sum Spool_Raised id r, w\<lparr>w_table := t, w_reads := w_reads w + 1\<rparr>))"

fun answer :: "'a reply \<Rightarrow> pub_exn + 'a" where
  "answer (Reply a) = Inr a"
| "answer (Raise_Exc n m) = Inl (Named n m)"
| "answer Process_Ends = Inl Ended"

definition call_publisher ::
  "publication_env \<Rightarrow> completed_recording \<Rightarrow> string \<Rightarrow> published_recording_ref pub_io" where
  "call_publisher env c key w =
     (answer (publisher env c key),
      w\<lparr>w_log := w_log w @ [Publish_Called c key (map_of (w_table w) (co_recording_id c))]\<rparr>)"

definition call_cleaner :: "publication_env \<Rightarrow> completed_recording \<Rightarrow> unit pub_io" where
  "call_cleaner env c w =
     (answer (cleaner env c),
      w\<lparr>w_log := w_log w @ [Cleanup_Called c (map_of (w_table w) (co_recording_id c))]\<rparr>)"

text \<open>\<open>try: ... except Exception as error\<close>: the end of the process is not caught.\<close>

definition attempt :: "'a pub_io \<Rightarrow> ((string \<times> string) + 'a) pub_io" where
  "attempt m w =
     (case m w of
        (Inr a, t) \<Rightarrow> (Inr (Inr a), t)
      | (Inl e, t) \<Rightarrow> if e = Ended then (Inl Ended, t) else (Inr (Inl (error_parts e)), t))"

definition publication_idempotency_key :: "completed_recording \<Rightarrow> string" where
  "publication_idempotency_key c =
     ''recording:'' @ co_recording_id c @ '':'' @ str_digest (co_manifest_digest c)"

definition validate_publication :: "completed_recording \<Rightarrow> published_recording_ref \<Rightarrow> pub_exn + unit" where
  "validate_publication c published =
     (let remote = recording_object published in
      if (ror_recording_id remote, obj_digest (data_object remote), byte_count (data_object remote),
          obj_digest (metadata_object remote), byte_count (metadata_object remote), manifest_digest remote)
         \<noteq> (co_recording_id c, lo_digest (co_data c), lo_bytes (co_data c), lo_digest (co_metadata c),
            lo_bytes (co_metadata c), co_manifest_digest c)
      then Inl (Named ''ValueError'' ''publisher returned a different recording identity'') else Inr ())"

definition error_line :: "completed_recording \<Rightarrow> string \<Rightarrow> string \<times> string \<Rightarrow> string" where
  "error_line c operation e =
     co_recording_id c @ '':'' @ operation @ '':'' @ fst e @ '':'' @ snd e"

definition deferred :: "completed_recording \<Rightarrow> string \<Rightarrow> string \<times> string \<Rightarrow> reconciliation_result \<Rightarrow> reconciliation_result" where
  "deferred c operation e res =
     res\<lparr>rr_deferred := rr_deferred res + 1, rr_errors := rr_errors res @ [error_line c operation e]\<rparr>"

subsection \<open>One pass\<close>

definition clean_one :: "publication_env \<Rightarrow> completed_recording \<Rightarrow> reconciliation_result \<Rightarrow> reconciliation_result pub_io" where
  "clean_one env c res =
     bind_io
       (attempt (bind_io (call_cleaner env c) (\<lambda>_. in_spool env (mark_cleaned (co_recording_id c)))))
       (\<lambda>outcome. ret (case outcome of
           Inr _ \<Rightarrow> res\<lparr>rr_cleaned := rr_cleaned res + 1\<rparr>
         | Inl e \<Rightarrow> deferred c ''cleanup'' e res))"

definition publish_one :: "publication_env \<Rightarrow> completed_recording \<Rightarrow> reconciliation_result \<Rightarrow> reconciliation_result pub_io" where
  "publish_one env c res =
     (let key = publication_idempotency_key c; i = co_recording_id c in
      bind_io
        (attempt (bind_io (call_publisher env c key) (\<lambda>p.
           bind_io (lift (validate_publication c p)) (\<lambda>_. ret p))))
        (\<lambda>outcome. case outcome of
            Inl e \<Rightarrow>
              bind_io (in_spool env (note_publish_attempt i key (Some (fst e @ '': '' @ snd e)))) (\<lambda>_.
                ret (deferred c ''publication'' e res))
          | Inr p \<Rightarrow>
              bind_io
                (attempt (bind_io (in_spool env (note_publish_attempt i key None)) (\<lambda>_.
                   in_spool env (spool_acknowledge c p key))))
                (\<lambda>outcome. case outcome of
                    Inl e \<Rightarrow> ret (deferred c ''acknowledgement'' e res)
                  | Inr _ \<Rightarrow> clean_one env c (res\<lparr>rr_published := rr_published res + 1\<rparr>))))"

fun for_each :: "('c \<Rightarrow> 'r \<Rightarrow> 'r pub_io) \<Rightarrow> 'c list \<Rightarrow> 'r \<Rightarrow> 'r pub_io" where
  "for_each f [] res = ret res"
| "for_each f (c # cs) res = bind_io (f c res) (for_each f cs)"

definition reconcile :: "publication_env \<Rightarrow> int \<Rightarrow> reconciliation_result pub_io" where
  "reconcile env limit =
     (if limit \<le> 0 then lift (Inl (Named ''ValueError'' ''limit must be positive''))
      else
        bind_io (in_spool env (\<lambda>_. pending_cleanup limit)) (\<lambda>acknowledged.
        bind_io (for_each (clean_one env) acknowledged nothing_reconciled) (\<lambda>res.
          let remaining = max 0 (limit - int (length acknowledged)) in
          bind_io (if remaining \<noteq> 0 then in_spool env (\<lambda>_. pending_publication remaining) else ret []) (\<lambda>pending.
            for_each (publish_one env) pending res))))"

definition start_world :: "spool_table \<Rightarrow> pub_world" where
  "start_world tbl = \<lparr>w_table = tbl, w_log = [], w_reads = 0\<rparr>"

subsection \<open>The spool statements on one row\<close>

lemma map_of_update:
  "map_of (snd (spool_update (\<lambda>j r. j = i \<and> P r) f tbl)) j =
     (if j = i then map_option (\<lambda>r. if P r then f r else r) (map_of tbl j) else map_of tbl j)"
  by (induction tbl) (auto simp: spool_update_def)

lemma update_count:
  assumes "spool_ok dir tbl" and "map_of tbl i = Some r" and "P r"
  shows "fst (spool_update (\<lambda>j r. j = i \<and> P r) f tbl) = 1"
proof -
  obtain xs ys where t: "tbl = xs @ (i, r) # ys" using map_of_SomeD [OF assms(2)] by (auto simp: in_set_conv_decomp)
  have "i \<notin> fst ` set xs" "i \<notin> fst ` set ys" using assms(1) unfolding spool_ok_def t by auto
  then have "filter (\<lambda>(j, r). j = i \<and> P r) xs = []" "filter (\<lambda>(j, r). j = i \<and> P r) ys = []"
    by (force simp: filter_empty_conv)+
  then show ?thesis unfolding t spool_update_def using assms(3) by simp
qed

text \<open>Only the row of one recording differs.\<close>

definition same_except :: "string \<Rightarrow> spool_table \<Rightarrow> spool_table \<Rightarrow> bool" where
  "same_except i tbl t \<longleftrightarrow> (\<forall>j. j \<noteq> i \<longrightarrow> map_of t j = map_of tbl j)"

lemma mark_cleaned_row:
  assumes "spool_ok dir tbl" and "map_of tbl i = Some r" and "sr_state r = ACKNOWLEDGED"
  shows "\<exists>t. mark_cleaned i now tbl = (Inr (), t) \<and> same_except i tbl t
    \<and> map_of t i = Some (r\<lparr>sr_state := CLEANED, sr_updated := now\<rparr>)"
proof -
  let ?f = "\<lambda>r. r\<lparr>sr_state := CLEANED, sr_updated := now\<rparr>"
  let ?u = "spool_update (\<lambda>j r. j = i \<and> sr_state r = ACKNOWLEDGED) ?f tbl"
  have "fst ?u = 1" by (rule update_count [OF assms(1,2)]) (rule assms(3))
  moreover have "\<And>j. map_of (snd ?u) j = (if j = i then map_option (\<lambda>r. if sr_state r = ACKNOWLEDGED then ?f r else r) (map_of tbl j) else map_of tbl j)"
    by (rule map_of_update)
  ultimately show ?thesis
    using assms(2,3) by (cases ?u) (auto simp: mark_cleaned_def same_except_def)
qed

lemma note_attempt_row:
  assumes "spool_ok dir tbl" and "map_of tbl i = Some r" and "sr_state r = COMPLETE" and "key \<noteq> []"
  shows "\<exists>t. note_publish_attempt i key err now tbl = (Inr (), t) \<and> same_except i tbl t
    \<and> map_of t i = Some (r\<lparr>publish_attempts := publish_attempts r + 1, sr_key := Some key, sr_error := err,
         sr_updated := now\<rparr>)"
proof -
  let ?f = "\<lambda>r. r\<lparr>publish_attempts := publish_attempts r + 1, sr_key := Some key, sr_error := err, sr_updated := now\<rparr>"
  let ?u = "spool_update (\<lambda>j r. j = i \<and> sr_state r = COMPLETE) ?f tbl"
  have "fst ?u = 1" by (rule update_count [OF assms(1,2)]) (rule assms(3))
  moreover have "\<And>j. map_of (snd ?u) j = (if j = i then map_option (\<lambda>r. if sr_state r = COMPLETE then ?f r else r) (map_of tbl j) else map_of tbl j)"
    by (rule map_of_update)
  ultimately show ?thesis
    using assms(2-4) by (cases ?u) (auto simp: note_publish_attempt_def same_except_def)
qed

lemma acknowledge_row:
  assumes "map_of tbl (co_recording_id c) = Some r" and "sr_state r = COMPLETE"
    and "published_recording_id p = co_recording_id c"
  shows "\<exists>t. spool_acknowledge c p key now tbl = (Inr (), t) \<and> same_except (co_recording_id c) tbl t
    \<and> map_of t (co_recording_id c) = Some (r\<lparr>sr_state := ACKNOWLEDGED,
         published_identity := Some (str_digest (identity_digest (recording_object p))), sr_key := Some key,
         sr_error := None, sr_updated := now\<rparr>)"
  using assms by (auto simp: spool_acknowledge_def Let_def map_of_update same_except_def)

subsection \<open>What the table says about publications\<close>

definition published_row :: "string \<Rightarrow> spool_row \<Rightarrow> bool" where
  "published_row i r \<longleftrightarrow>
     (\<exists>c p. built_completed c \<and> co_recording_id c = i \<and> sr_payload r = Some (encode_completed c)
        \<and> validate_publication c p = Inr ()
        \<and> published_identity r = Some (str_digest (identity_digest (recording_object p)))
        \<and> sr_key r = Some (publication_idempotency_key c))"

definition publication_ok :: "string \<Rightarrow> spool_table \<Rightarrow> bool" where
  "publication_ok dir tbl \<longleftrightarrow>
     spool_ok dir tbl \<and>
     (\<forall>i r. map_of tbl i = Some r \<longrightarrow> sr_state r = ACKNOWLEDGED \<or> sr_state r = CLEANED \<longrightarrow> published_row i r)"

definition row_is :: "spool_state \<Rightarrow> completed_recording \<Rightarrow> spool_table \<Rightarrow> bool" where
  "row_is st c tbl \<longleftrightarrow>
     (\<exists>r. map_of tbl (co_recording_id c) = Some r \<and> sr_state r = st \<and> sr_payload r = Some (encode_completed c))"

text \<open>A remote object of the same recording, with the bytes and the manifest of the local one.\<close>

definition remote_matches :: "completed_recording \<Rightarrow> published_recording_ref \<Rightarrow> bool" where
  "remote_matches c p \<longleftrightarrow>
     (let remote = recording_object p in
      ror_recording_id remote = co_recording_id c
      \<and> obj_digest (data_object remote) = lo_digest (co_data c)
      \<and> byte_count (data_object remote) = lo_bytes (co_data c)
      \<and> obj_digest (metadata_object remote) = lo_digest (co_metadata c)
      \<and> byte_count (metadata_object remote) = lo_bytes (co_metadata c)
      \<and> manifest_digest remote = co_manifest_digest c)"

lemma validated_matches: "validate_publication c p = Inr () \<Longrightarrow> remote_matches c p"
  by (simp add: validate_publication_def remote_matches_def Let_def split: if_splits)

text \<open>
  A call is in order: a recording is published under its own key while its row is complete, and
  its bytes are removed only while its row is acknowledged for a publication that matches it.
\<close>

fun call_ok :: "port_call \<Rightarrow> bool" where
  "call_ok (Publish_Called c key row) \<longleftrightarrow>
     key = publication_idempotency_key c \<and>
     (\<exists>r. row = Some r \<and> sr_state r = COMPLETE \<and> sr_payload r = Some (encode_completed c))"
| "call_ok (Cleanup_Called c row) \<longleftrightarrow>
     (\<exists>r p. row = Some r \<and> sr_state r = ACKNOWLEDGED \<and> sr_payload r = Some (encode_completed c)
        \<and> remote_matches c p
        \<and> published_identity r = Some (str_digest (identity_digest (recording_object p)))
        \<and> sr_key r = Some (publication_idempotency_key c))"

lemma same_text:
  assumes "built_completed c" and "built_completed d" and "encode_completed c = encode_completed d"
  shows "validate_publication c p = validate_publication d p"
    "publication_idempotency_key c = publication_idempotency_key d"
proof -
  have "completed_read c = completed_read d"
    using decode_encoded_completed(1) [OF assms(1)] decode_encoded_completed(1) [OF assms(2)] assms(3) by simp
  then have "co_recording_id c = co_recording_id d" "co_data c = co_data d" "co_metadata c = co_metadata d"
      "co_manifest_digest c = co_manifest_digest d"
    by (cases c; cases d; simp add: completed_read_def)+
  then show "validate_publication c p = validate_publication d p"
      "publication_idempotency_key c = publication_idempotency_key d"
    by (simp_all add: validate_publication_def publication_idempotency_key_def)
qed

lemma validated_recording: "validate_publication c p = Inr () \<Longrightarrow> published_recording_id p = co_recording_id c"
  by (auto simp: validate_publication_def published_recording_id_def Let_def split: if_splits)

lemma publication_ok_step:
  assumes "publication_ok dir tbl" and "spool_ok dir t" and "same_except i tbl t"
    and "\<And>r. map_of t i = Some r \<Longrightarrow> sr_state r = ACKNOWLEDGED \<or> sr_state r = CLEANED \<Longrightarrow> published_row i r"
  shows "publication_ok dir t"
  using assms unfolding publication_ok_def same_except_def by metis

lemma published_call:
  assumes "publication_ok dir tbl" and "built_completed c" and "row_is ACKNOWLEDGED c tbl"
  shows "call_ok (Cleanup_Called c (map_of tbl (co_recording_id c)))"
proof -
  obtain r where r: "map_of tbl (co_recording_id c) = Some r" "sr_state r = ACKNOWLEDGED"
      "sr_payload r = Some (encode_completed c)"
    using assms(3) by (auto simp: row_is_def)
  then have "published_row (co_recording_id c) r" using assms(1) by (simp add: publication_ok_def)
  then obtain d p where d: "built_completed d" "sr_payload r = Some (encode_completed d)"
      "validate_publication d p = Inr ()"
      "published_identity r = Some (str_digest (identity_digest (recording_object p)))"
      "sr_key r = Some (publication_idempotency_key d)"
    by (auto simp: published_row_def)
  from same_text [OF assms(2) d(1)] d r validated_matches [of c p] show ?thesis by auto
qed

subsection \<open>Going through a list of recordings\<close>

text \<open>
  What both loops of a pass promise for one recording whose row has a given state: the table
  stays in order, only this row changes, the calls are in order, and with good ports the row is
  cleaned and the counters say so.
\<close>

definition step_keeps ::
  "string \<Rightarrow> (completed_recording \<Rightarrow> bool) \<Rightarrow> (reconciliation_result \<Rightarrow> reconciliation_result) \<Rightarrow>
   completed_recording \<Rightarrow> reconciliation_result \<Rightarrow> pub_world \<Rightarrow>
   (pub_exn + reconciliation_result) \<times> pub_world \<Rightarrow> bool" where
  "step_keeps dir good count c res w = (\<lambda>(out, u).
     publication_ok dir (w_table u) \<and> rows_advance (w_table w) (w_table u)
     \<and> same_except (co_recording_id c) (w_table w) (w_table u)
     \<and> (\<exists>new. w_log u = w_log w @ new \<and> (\<forall>x \<in> set new. call_ok x))
     \<and> (good c \<longrightarrow> out = Inr (count res) \<and> row_is CLEANED c (w_table u)))"

locale recording_step =
  fixes dir :: string
    and body :: "completed_recording \<Rightarrow> reconciliation_result \<Rightarrow> reconciliation_result pub_io"
    and state :: spool_state
    and good :: "completed_recording \<Rightarrow> bool"
    and count :: "reconciliation_result \<Rightarrow> reconciliation_result"
  assumes step: "publication_ok dir (w_table w) \<Longrightarrow> built_completed c \<Longrightarrow> row_is state c (w_table w) \<Longrightarrow>
    step_keeps dir good count c res w (body c res w)"
begin

lemma loop:
  assumes "publication_ok dir (w_table w)" and "distinct (map co_recording_id cs)"
    and "\<forall>c \<in> set cs. built_completed c \<and> row_is state c (w_table w)"
  shows "\<exists>out u. for_each body cs res w = (out, u)
    \<and> publication_ok dir (w_table u) \<and> rows_advance (w_table w) (w_table u)
    \<and> (\<forall>j. j \<notin> set (map co_recording_id cs) \<longrightarrow> map_of (w_table u) j = map_of (w_table w) j)
    \<and> (\<exists>new. w_log u = w_log w @ new \<and> (\<forall>x \<in> set new. call_ok x))
    \<and> ((\<forall>c \<in> set cs. good c) \<longrightarrow>
         out = Inr ((count ^^ length cs) res) \<and> (\<forall>c \<in> set cs. row_is CLEANED c (w_table u)))"
  using assms
proof (induction cs arbitrary: res w)
  case Nil
  then show ?case by (simp add: ret_def)
next
  case (Cons c cs)
  obtain out u where b: "body c res w = (out, u)" by (cases "body c res w")
  have s: "step_keeps dir good count c res w (out, u)"
    using step [OF Cons.prems(1), of c res] Cons.prems(3) b by simp
  then obtain new where s1: "publication_ok dir (w_table u)" "rows_advance (w_table w) (w_table u)"
      "same_except (co_recording_id c) (w_table w) (w_table u)"
      "w_log u = w_log w @ new" "\<forall>x \<in> set new. call_ok x"
      "good c \<Longrightarrow> out = Inr (count res) \<and> row_is CLEANED c (w_table u)"
    by (auto simp: step_keeps_def)
  show ?case
  proof (cases out)
    case (Inl e)
    with b have "for_each body (c # cs) res w = (Inl e, u)" by (simp add: bind_io_def)
    moreover have "\<not> good c" using s1(6) Inl by auto
    moreover have "\<forall>j. j \<notin> set (map co_recording_id (c # cs)) \<longrightarrow> map_of (w_table u) j = map_of (w_table w) j"
      using s1(3) by (simp add: same_except_def)
    ultimately show ?thesis using s1 by auto
  next
    case (Inr res')
    have other: "co_recording_id d \<noteq> co_recording_id c" if "d \<in> set cs" for d
      using Cons.prems(2) that by (metis distinct.simps(2) image_eqI list.set_map list.simps(9))
    have "\<forall>d \<in> set cs. built_completed d \<and> row_is state d (w_table u)"
      using Cons.prems(3) other s1(3) by (auto simp: row_is_def same_except_def)
    with Cons.IH [OF s1(1), of res'] Cons.prems(2) obtain out' v new' where
        v: "for_each body cs res' u = (out', v)" "publication_ok dir (w_table v)"
          "rows_advance (w_table u) (w_table v)"
          "\<forall>j. j \<notin> set (map co_recording_id cs) \<longrightarrow> map_of (w_table v) j = map_of (w_table u) j"
          "w_log v = w_log u @ new'" "\<forall>x \<in> set new'. call_ok x"
          "(\<forall>c \<in> set cs. good c) \<longrightarrow> out' = Inr ((count ^^ length cs) res') \<and> (\<forall>c \<in> set cs. row_is CLEANED c (w_table v))"
      by auto
    have run: "for_each body (c # cs) res w = (out', v)" using b Inr v(1) by (simp add: bind_io_def)
    have "map_of (w_table v) (co_recording_id c) = map_of (w_table u) (co_recording_id c)"
      using v(4) Cons.prems(2) by simp
    then have keep: "row_is CLEANED c (w_table u) \<Longrightarrow> row_is CLEANED c (w_table v)" by (simp add: row_is_def)
    have all: "(\<forall>d \<in> set (c # cs). good d) \<longrightarrow> out' = Inr ((count ^^ length (c # cs)) res)
        \<and> (\<forall>d \<in> set (c # cs). row_is CLEANED d (w_table v))"
      using s1(6) Inr v(7) keep by (simp add: funpow_swap1)
    have rest: "\<forall>j. j \<notin> set (map co_recording_id (c # cs)) \<longrightarrow> map_of (w_table v) j = map_of (w_table w) j"
      using v(4) s1(3) by (simp add: same_except_def)
    have "w_log v = w_log w @ (new @ new')" "\<forall>x \<in> set (new @ new'). call_ok x"
      using s1(4,5) v(5,6) by auto
    with run all rest v(2) rows_advance_trans [OF s1(2) v(3)] show ?thesis by blast
  qed
qed

end

subsection \<open>The two steps\<close>

definition cleans :: "publication_env \<Rightarrow> completed_recording \<Rightarrow> bool" where
  "cleans env c \<longleftrightarrow> cleaner env c = Reply ()"

definition publishes :: "publication_env \<Rightarrow> completed_recording \<Rightarrow> bool" where
  "publishes env c \<longleftrightarrow>
     (\<exists>p. publisher env c (publication_idempotency_key c) = Reply p \<and> validate_publication c p = Inr ())
     \<and> cleaner env c = Reply ()"

lemma key_nonempty [simp]: "publication_idempotency_key c \<noteq> []"
  by (simp add: publication_idempotency_key_def)

lemma spool_step_ok:
  assumes "publication_ok dir tbl" and "op_built op" and "spool_do dir op tbl = (r, t)"
  shows "spool_ok dir t" "rows_advance tbl t"
  using spool_do_keeps [of dir tbl op] assms by (simp_all add: publication_ok_def)

lemma cleaned_result:
  assumes "publication_ok dir (w_table w)" and "built_completed c" and "row_is ACKNOWLEDGED c (w_table w)"
  shows "step_keeps dir (cleans env) (\<lambda>res. res\<lparr>rr_cleaned := rr_cleaned res + 1\<rparr>) c res w (clean_one env c res w)"
proof -
  let ?i = "co_recording_id c" and ?log = "w_log w @ [Cleanup_Called c (map_of (w_table w) (co_recording_id c))]"
  have called: "call_ok (Cleanup_Called c (map_of (w_table w) ?i))" by (rule published_call [OF assms])
  obtain r where r: "map_of (w_table w) ?i = Some r" "sr_state r = ACKNOWLEDGED" "sr_payload r = Some (encode_completed c)"
    using assms(3) by (auto simp: row_is_def)
  show ?thesis
  proof (cases "cleaner env c")
    case (Reply a)
    have ok: "spool_ok dir (w_table w)" using assms(1) by (simp add: publication_ok_def)
    let ?now = "pub_clock env (w_reads w)"
    obtain t where t: "mark_cleaned ?i ?now (w_table w) = (Inr (), t)" "same_except ?i (w_table w) t"
        "map_of t ?i = Some (r\<lparr>sr_state := CLEANED, sr_updated := ?now\<rparr>)"
      using mark_cleaned_row [OF ok r(1,2), of ?now] by blast
    have sp: "spool_ok dir t" "rows_advance (w_table w) t"
      using spool_step_ok [OF assms(1), of "Clean ?i ?now"] t(1) by auto
    have "published_row ?i r" using assms(1) r by (simp add: publication_ok_def)
    then have "publication_ok dir t"
      using t(3) by (intro publication_ok_step [OF assms(1) sp(1) t(2)]) (auto simp: published_row_def)
    moreover have "clean_one env c res w =
        (Inr (res\<lparr>rr_cleaned := rr_cleaned res + 1\<rparr>), w\<lparr>w_table := t, w_log := ?log, w_reads := w_reads w + 1\<rparr>)"
      using Reply t(1)
      by (simp add: clean_one_def bind_io_def attempt_def call_cleaner_def in_spool_def ret_def)
    moreover have "row_is CLEANED c t" using t(3) r(3) by (simp add: row_is_def)
    ultimately show ?thesis using sp t(2) called by (auto simp: step_keeps_def)
  next
    case (Raise_Exc n m)
    then have "clean_one env c res w = (Inr (deferred c ''cleanup'' (n, m) res), w\<lparr>w_log := ?log\<rparr>)"
      by (simp add: clean_one_def bind_io_def attempt_def call_cleaner_def ret_def)
    then show ?thesis using assms(1) called Raise_Exc by (auto simp: step_keeps_def same_except_def cleans_def)
  next
    case Process_Ends
    then have "clean_one env c res w = (Inl Ended, w\<lparr>w_log := ?log\<rparr>)"
      by (simp add: clean_one_def bind_io_def attempt_def call_cleaner_def ret_def)
    then show ?thesis using assms(1) called Process_Ends by (auto simp: step_keeps_def same_except_def cleans_def)
  qed
qed

lemma noted_result:
  assumes "publication_ok dir (w_table w)" and "row_is COMPLETE c (w_table w)"
  shows "\<exists>u. in_spool env (note_publish_attempt (co_recording_id c) (publication_idempotency_key c) err) w = (Inr (), u)
    \<and> publication_ok dir (w_table u) \<and> rows_advance (w_table w) (w_table u)
    \<and> same_except (co_recording_id c) (w_table w) (w_table u) \<and> w_log u = w_log w \<and> row_is COMPLETE c (w_table u)"
proof -
  let ?i = "co_recording_id c" and ?key = "publication_idempotency_key c" and ?now = "pub_clock env (w_reads w)"
  obtain r where r: "map_of (w_table w) ?i = Some r" "sr_state r = COMPLETE" "sr_payload r = Some (encode_completed c)"
    using assms(2) by (auto simp: row_is_def)
  have ok: "spool_ok dir (w_table w)" using assms(1) by (simp add: publication_ok_def)
  obtain t where t: "note_publish_attempt ?i ?key err ?now (w_table w) = (Inr (), t)" "same_except ?i (w_table w) t"
      "map_of t ?i = Some (r\<lparr>publish_attempts := publish_attempts r + 1, sr_key := Some ?key, sr_error := err, sr_updated := ?now\<rparr>)"
    using note_attempt_row [OF ok r(1,2) key_nonempty] by blast
  have sp: "spool_ok dir t" "rows_advance (w_table w) t"
    using spool_step_ok [OF assms(1), of "Note_Attempt ?i ?key err ?now"] t(1) by auto
  have "publication_ok dir t"
    using t(3) r(2) by (intro publication_ok_step [OF assms(1) sp(1) t(2)]) auto
  moreover have "row_is COMPLETE c t" using t(3) r by (simp add: row_is_def)
  ultimately show ?thesis using sp t by (simp add: in_spool_def)
qed

lemma acknowledged_result:
  assumes "publication_ok dir (w_table w)" and "built_completed c" and "row_is COMPLETE c (w_table w)"
    and "validate_publication c p = Inr ()"
  shows "\<exists>u. in_spool env (spool_acknowledge c p (publication_idempotency_key c)) w = (Inr (), u)
    \<and> publication_ok dir (w_table u) \<and> rows_advance (w_table w) (w_table u)
    \<and> same_except (co_recording_id c) (w_table w) (w_table u) \<and> w_log u = w_log w \<and> row_is ACKNOWLEDGED c (w_table u)"
proof -
  let ?i = "co_recording_id c" and ?key = "publication_idempotency_key c" and ?now = "pub_clock env (w_reads w)"
  obtain r where r: "map_of (w_table w) ?i = Some r" "sr_state r = COMPLETE" "sr_payload r = Some (encode_completed c)"
    using assms(3) by (auto simp: row_is_def)
  obtain t where t: "spool_acknowledge c p ?key ?now (w_table w) = (Inr (), t)" "same_except ?i (w_table w) t"
      "map_of t ?i = Some (r\<lparr>sr_state := ACKNOWLEDGED, published_identity := Some (str_digest (identity_digest (recording_object p))),
         sr_key := Some ?key, sr_error := None, sr_updated := ?now\<rparr>)"
    using acknowledge_row [OF r(1,2) validated_recording [OF assms(4)]] by blast
  have sp: "spool_ok dir t" "rows_advance (w_table w) t"
    using spool_step_ok [OF assms(1), of "Acknowledge c p ?key ?now"] t(1) by auto
  have "published_row ?i q" if "map_of t ?i = Some q" for q
    unfolding published_row_def using that t(3) r(3) assms(2,4) by (intro exI [of _ c] exI [of _ p]) auto
  then have "publication_ok dir t" by (intro publication_ok_step [OF assms(1) sp(1) t(2)])
  moreover have "row_is ACKNOWLEDGED c t" using t(3) r by (simp add: row_is_def)
  ultimately show ?thesis using sp t by (simp add: in_spool_def)
qed

lemma same_except_trans: "same_except i a b \<Longrightarrow> same_except i b c \<Longrightarrow> same_except i a c"
  by (simp add: same_except_def)

lemma published_result:
  assumes ok: "publication_ok dir (w_table w)" and c: "built_completed c" and row: "row_is COMPLETE c (w_table w)"
  shows "step_keeps dir (publishes env) (\<lambda>res. res\<lparr>rr_published := rr_published res + 1, rr_cleaned := rr_cleaned res + 1\<rparr>)
    c res w (publish_one env c res w)"
proof -
  let ?i = "co_recording_id c" and ?key = "publication_idempotency_key c"
  let ?call = "Publish_Called c ?key (map_of (w_table w) ?i)"
  define v where "v = w\<lparr>w_log := w_log w @ [?call]\<rparr>"
  have v: "publication_ok dir (w_table v)" "row_is COMPLETE c (w_table v)" "w_table v = w_table w"
      "w_log v = w_log w @ [?call]"
    using ok row by (simp_all add: v_def)
  have called: "call_ok ?call" using row by (auto simp: row_is_def)
  have cp: "call_publisher env c ?key w = (answer (publisher env c ?key), v)"
    by (simp add: call_publisher_def v_def)
  have failed: ?thesis
    if f: "attempt (bind_io (call_publisher env c ?key) (\<lambda>p. bind_io (lift (validate_publication c p)) (\<lambda>_. ret p))) w
        = (Inr (Inl e), v)" and ng: "\<not> publishes env c" for e
  proof -
    obtain u where u: "in_spool env (note_publish_attempt ?i ?key (Some (fst e @ '': '' @ snd e))) v = (Inr (), u)"
        "publication_ok dir (w_table u)" "rows_advance (w_table v) (w_table u)" "same_except ?i (w_table v) (w_table u)"
        "w_log u = w_log v"
      using noted_result [OF v(1,2)] by blast
    have "publish_one env c res w = (Inr (deferred c ''publication'' e res), u)"
      using f u(1) by (simp add: publish_one_def bind_io_def ret_def Let_def)
    then show ?thesis using u v called ng by (auto simp: step_keeps_def)
  qed
  show ?thesis
  proof (cases "publisher env c ?key")
    case Process_Ends
    then have "publish_one env c res w = (Inl Ended, v)"
      using cp by (simp add: publish_one_def bind_io_def attempt_def Let_def)
    then show ?thesis using v called Process_Ends by (auto simp: step_keeps_def same_except_def publishes_def)
  next
    case (Raise_Exc n m)
    then show ?thesis
      using cp by (intro failed [of "(n, m)"]) (simp_all add: bind_io_def attempt_def publishes_def)
  next
    case (Reply p)
    show ?thesis
    proof (cases "validate_publication c p")
      case (Inl e)
      then have e: "e = Named ''ValueError'' ''publisher returned a different recording identity''"
        by (auto simp: validate_publication_def Let_def split: if_splits)
      show ?thesis
        using cp Reply Inl e
        by (intro failed [of "error_parts e"]) (auto simp: bind_io_def attempt_def publishes_def lift_def)
    next
      case (Inr a)
      then have val: "validate_publication c p = Inr ()" by simp
      obtain u where u: "in_spool env (note_publish_attempt ?i ?key None) v = (Inr (), u)"
          "publication_ok dir (w_table u)" "rows_advance (w_table v) (w_table u)" "same_except ?i (w_table v) (w_table u)"
          "w_log u = w_log v" "row_is COMPLETE c (w_table u)"
        using noted_result [OF v(1,2)] by blast
      obtain x where x: "in_spool env (spool_acknowledge c p ?key) u = (Inr (), x)" "publication_ok dir (w_table x)"
          "rows_advance (w_table u) (w_table x)" "same_except ?i (w_table u) (w_table x)" "w_log x = w_log u"
          "row_is ACKNOWLEDGED c (w_table x)"
        using acknowledged_result [OF u(2) c u(6) val] by blast
      let ?res = "res\<lparr>rr_published := rr_published res + 1\<rparr>"
      have run: "publish_one env c res w = clean_one env c ?res x"
        using cp Reply val u(1) x(1) by (simp add: publish_one_def bind_io_def attempt_def lift_def ret_def Let_def)
      obtain out y where y: "clean_one env c ?res x = (out, y)" by (cases "clean_one env c ?res x")
      have "step_keeps dir (cleans env) (\<lambda>res. res\<lparr>rr_cleaned := rr_cleaned res + 1\<rparr>) c ?res x (out, y)"
        using cleaned_result [OF x(2) c x(6), of env ?res] y by simp
      then obtain new where n: "publication_ok dir (w_table y)" "rows_advance (w_table x) (w_table y)"
          "same_except ?i (w_table x) (w_table y)" "w_log y = w_log x @ new" "\<forall>z \<in> set new. call_ok z"
          "cleans env c \<longrightarrow> out = Inr (?res\<lparr>rr_cleaned := rr_cleaned ?res + 1\<rparr>) \<and> row_is CLEANED c (w_table y)"
        by (auto simp: step_keeps_def)
      have "rows_advance (w_table w) (w_table y)"
        using rows_advance_trans [OF u(3) rows_advance_trans [OF x(3) n(2)]] v(3) by simp
      moreover have "same_except ?i (w_table w) (w_table y)"
        using same_except_trans [OF u(4) same_except_trans [OF x(4) n(3)]] v(3) by simp
      moreover have "w_log y = w_log w @ (?call # new)" "\<forall>z \<in> set (?call # new). call_ok z"
        using n(4,5) x(5) u(5) v(4) called by auto
      moreover have "publishes env c \<longrightarrow> out = Inr (res\<lparr>rr_published := rr_published res + 1, rr_cleaned := rr_cleaned res + 1\<rparr>)
          \<and> row_is CLEANED c (w_table y)"
        using n(6) by (simp add: publishes_def cleans_def)
      ultimately show ?thesis unfolding run y step_keeps_def using n(1) by auto
    qed
  qed
qed

interpretation cleaning: recording_step dir "clean_one env" ACKNOWLEDGED "cleans env"
    "\<lambda>res. res\<lparr>rr_cleaned := rr_cleaned res + 1\<rparr>" for dir env
  by unfold_locales (rule cleaned_result)

interpretation publishing: recording_step dir "publish_one env" COMPLETE "publishes env"
    "\<lambda>res. res\<lparr>rr_published := rr_published res + 1, rr_cleaned := rr_cleaned res + 1\<rparr>" for dir env
  by unfold_locales (rule published_result)

subsection \<open>A whole pass\<close>

lemma recordings_rows:
  assumes "publication_ok dir tbl" and "recordings_of rows cs" and "distinct (map fst rows)"
    and "\<And>x. x \<in> set rows \<Longrightarrow> x \<in> set tbl \<and> sr_state (snd x) = st"
  shows "map co_recording_id cs = map fst rows" "\<forall>c \<in> set cs. built_completed c \<and> row_is st c tbl"
proof -
  have l: "list_all2 (\<lambda>x c. built_completed c \<and> co_recording_id c = fst x \<and> sr_payload (snd x) = Some (encode_completed c)) rows cs"
    using assms(2) by (simp add: recordings_of_def case_prod_unfold)
  then show "map co_recording_id cs = map fst rows"
    by (induction rows cs rule: list_all2_induct) auto
  show "\<forall>c \<in> set cs. built_completed c \<and> row_is st c tbl"
  proof
    fix c
    assume "c \<in> set cs"
    then obtain k where k: "k < length cs" "c = cs ! k" by (auto simp: in_set_conv_nth)
    then have "k < length rows" using l by (simp add: list_all2_lengthD)
    then have x: "rows ! k \<in> set rows" and c: "built_completed c" "co_recording_id c = fst (rows ! k)"
        "sr_payload (snd (rows ! k)) = Some (encode_completed c)"
      using list_all2_nthD [OF l, of k] k(2) by auto
    have "spool_ok dir tbl" using assms(1) by (simp add: publication_ok_def)
    moreover have "(fst (rows ! k), snd (rows ! k)) \<in> set tbl" using assms(4) [OF x] by simp
    ultimately have "map_of tbl (fst (rows ! k)) = Some (snd (rows ! k))" by (rule unique_row)
    then show "built_completed c \<and> row_is st c tbl" using c assms(4) [OF x] by (auto simp: row_is_def)
  qed
qed

lemma query_distinct:
  assumes "spool_ok dir tbl"
  shows "distinct (map fst (by_creation p limit tbl))" "distinct (map fst (by_update p limit tbl))"
proof -
  have d: "distinct (map fst (filter (\<lambda>(i, r). p r) tbl))"
    using assms by (simp add: spool_ok_def distinct_map_filter)
  have "distinct (map fst (take n (sort_key f xs)))" if "distinct (map fst xs)"
    for n xs and f :: "string \<times> spool_row \<Rightarrow> int \<times> string"
    using that by (simp add: distinct_map distinct_take inj_on_subset [OF _ set_take_subset] flip: take_map)
  with d show "distinct (map fst (by_creation p limit tbl))" "distinct (map fst (by_update p limit tbl))"
    unfolding by_creation_def by_update_def by blast+
qed

lemma query_all:
  assumes "int (length (filter (\<lambda>(i, r). p r) tbl)) \<le> limit"
  shows "set (by_creation p limit tbl) = {x \<in> set tbl. p (snd x)}"
    "set (by_update p limit tbl) = {x \<in> set tbl. p (snd x)}"
    "length (by_creation p limit tbl) = length (filter (\<lambda>(i, r). p r) tbl)"
    "length (by_update p limit tbl) = length (filter (\<lambda>(i, r). p r) tbl)"
proof -
  have n: "length (filter (\<lambda>(i, r). p r) tbl) \<le> nat limit" using assms by simp
  then show "set (by_creation p limit tbl) = {x \<in> set tbl. p (snd x)}"
    "set (by_update p limit tbl) = {x \<in> set tbl. p (snd x)}"
    "length (by_creation p limit tbl) = length (filter (\<lambda>(i, r). p r) tbl)"
    "length (by_update p limit tbl) = length (filter (\<lambda>(i, r). p r) tbl)"
    unfolding by_creation_def by_update_def by (auto simp: case_prod_unfold)
qed

definition rows_in :: "spool_state \<Rightarrow> spool_table \<Rightarrow> nat" where
  "rows_in st tbl = length (filter (\<lambda>(i, r). sr_state r = st) tbl)"

lemma rows_in_card:
  assumes "spool_ok dir tbl"
  shows "rows_in st tbl = card {i. \<exists>r. map_of tbl i = Some r \<and> sr_state r = st}"
proof -
  let ?rows = "filter (\<lambda>(i, r). sr_state r = st) tbl"
  have "distinct (map fst ?rows)" using assms by (simp add: spool_ok_def distinct_map_filter)
  then have "rows_in st tbl = card (set (map fst ?rows))" by (metis distinct_card length_map rows_in_def)
  moreover have "set (map fst ?rows) = {i. \<exists>r. map_of tbl i = Some r \<and> sr_state r = st}"
    using unique_row [OF assms] map_of_SomeD by (fastforce simp: image_iff)
  ultimately show ?thesis by simp
qed

lemma count_cleaned:
  "((\<lambda>res. res\<lparr>rr_cleaned := rr_cleaned res + 1\<rparr>) ^^ n) nothing_reconciled
     = \<lparr>rr_published = 0, rr_cleaned = n, rr_deferred = 0, rr_errors = []\<rparr>"
  by (induction n) (simp_all add: nothing_reconciled_def)

lemma count_published:
  "((\<lambda>res. res\<lparr>rr_published := rr_published res + 1, rr_cleaned := rr_cleaned res + 1\<rparr>) ^^ m)
       \<lparr>rr_published = 0, rr_cleaned = n, rr_deferred = 0, rr_errors = []\<rparr>
     = \<lparr>rr_published = m, rr_cleaned = n + m, rr_deferred = 0, rr_errors = []\<rparr>"
  by (induction m) simp_all

text \<open>The first loop of a pass, from the table it reads.\<close>

lemma cleaning_pass:
  assumes ok: "publication_ok dir tbl" and l: "0 < limit"
  shows "\<exists>cs v out u. in_spool env (\<lambda>_. pending_cleanup limit) (start_world tbl) = (Inr cs, v)
    \<and> map co_recording_id cs = map fst (by_update (\<lambda>r. sr_state r = ACKNOWLEDGED) limit tbl)
    \<and> for_each (clean_one env) cs nothing_reconciled v = (out, u)
    \<and> publication_ok dir (w_table u) \<and> rows_advance tbl (w_table u)
    \<and> (\<forall>j. j \<notin> set (map co_recording_id cs) \<longrightarrow> map_of (w_table u) j = map_of tbl j)
    \<and> (\<forall>x \<in> set (w_log u). call_ok x)
    \<and> ((\<forall>c. cleans env c) \<longrightarrow>
         out = Inr \<lparr>rr_published = 0, rr_cleaned = length cs, rr_deferred = 0, rr_errors = []\<rparr>
         \<and> (\<forall>c \<in> set cs. row_is CLEANED c (w_table u)))"
proof -
  let ?rows = "by_update (\<lambda>r. sr_state r = ACKNOWLEDGED) limit tbl"
  have sp: "spool_ok dir tbl" using ok by (simp add: publication_ok_def)
  obtain cs where cs: "pending_cleanup limit tbl = (Inr cs, tbl)" "recordings_of ?rows cs"
    using pending_cleanup_rows [OF sp l] by blast
  have m: "map co_recording_id cs = map fst ?rows" and b: "\<forall>c \<in> set cs. built_completed c \<and> row_is ACKNOWLEDGED c tbl"
    using recordings_rows [OF ok cs(2) query_distinct(2) [OF sp], of ACKNOWLEDGED] by_creation_rows(2) by blast+
  define v where "v = \<lparr>w_table = tbl, w_log = [], w_reads = 1\<rparr>"
  have v: "in_spool env (\<lambda>_. pending_cleanup limit) (start_world tbl) = (Inr cs, v)"
    using cs(1) by (simp add: in_spool_def start_world_def v_def)
  have "distinct (map co_recording_id cs)" unfolding m by (rule query_distinct(2) [OF sp])
  from cleaning.loop [of dir v cs env nothing_reconciled, OF _ this] ok b
  obtain out u new where f: "for_each (clean_one env) cs nothing_reconciled v = (out, u)"
      "publication_ok dir (w_table u)" "rows_advance tbl (w_table u)"
      "\<forall>j. j \<notin> set (map co_recording_id cs) \<longrightarrow> map_of (w_table u) j = map_of tbl j"
      "w_log u = [] @ new" "\<forall>x \<in> set new. call_ok x"
      "(\<forall>c \<in> set cs. cleans env c) \<longrightarrow> out = Inr (((\<lambda>res. res\<lparr>rr_cleaned := rr_cleaned res + 1\<rparr>) ^^ length cs) nothing_reconciled)
         \<and> (\<forall>c \<in> set cs. row_is CLEANED c (w_table u))"
    unfolding v_def by (simp only: pub_world.simps) blast
  have "\<forall>x \<in> set (w_log u). call_ok x" using f(5,6) by simp
  moreover have "(\<forall>c. cleans env c) \<longrightarrow>
      out = Inr \<lparr>rr_published = 0, rr_cleaned = length cs, rr_deferred = 0, rr_errors = []\<rparr>
      \<and> (\<forall>c \<in> set cs. row_is CLEANED c (w_table u))"
    using f(7) unfolding count_cleaned by blast
  ultimately show ?thesis using v m f(1-4) by blast
qed

lemma publishing_pass:
  assumes ok: "publication_ok dir (w_table w)" and l: "0 < limit" and log: "\<forall>x \<in> set (w_log w). call_ok x"
  shows "\<exists>cs v out u. in_spool env (\<lambda>_. pending_publication limit) w = (Inr cs, v)
    \<and> map co_recording_id cs = map fst (by_creation (\<lambda>r. sr_state r = COMPLETE) limit (w_table w))
    \<and> for_each (publish_one env) cs res v = (out, u)
    \<and> publication_ok dir (w_table u) \<and> rows_advance (w_table w) (w_table u)
    \<and> (\<forall>j. j \<notin> set (map co_recording_id cs) \<longrightarrow> map_of (w_table u) j = map_of (w_table w) j)
    \<and> (\<forall>x \<in> set (w_log u). call_ok x)
    \<and> ((\<forall>c. publishes env c) \<longrightarrow>
         out = Inr (((\<lambda>res. res\<lparr>rr_published := rr_published res + 1, rr_cleaned := rr_cleaned res + 1\<rparr>) ^^ length cs) res)
         \<and> (\<forall>c \<in> set cs. row_is CLEANED c (w_table u)))"
proof -
  let ?rows = "by_creation (\<lambda>r. sr_state r = COMPLETE) limit (w_table w)"
  have sp: "spool_ok dir (w_table w)" using ok by (simp add: publication_ok_def)
  obtain cs where cs: "pending_publication limit (w_table w) = (Inr cs, w_table w)" "recordings_of ?rows cs"
    using pending_publication_rows [OF sp l] by blast
  have m: "map co_recording_id cs = map fst ?rows" and b: "\<forall>c \<in> set cs. built_completed c \<and> row_is COMPLETE c (w_table w)"
    using recordings_rows [OF ok cs(2) query_distinct(1) [OF sp], of COMPLETE] by_creation_rows(1) by blast+
  define v where "v = w\<lparr>w_reads := w_reads w + 1\<rparr>"
  have v: "in_spool env (\<lambda>_. pending_publication limit) w = (Inr cs, v)"
    using cs(1) by (simp add: in_spool_def v_def)
  have "distinct (map co_recording_id cs)" unfolding m by (rule query_distinct(1) [OF sp])
  from publishing.loop [of dir v cs env res, OF _ this] ok b
  obtain out u new where f: "for_each (publish_one env) cs res v = (out, u)"
      "publication_ok dir (w_table u)" "rows_advance (w_table w) (w_table u)"
      "\<forall>j. j \<notin> set (map co_recording_id cs) \<longrightarrow> map_of (w_table u) j = map_of (w_table w) j"
      "w_log u = w_log w @ new" "\<forall>x \<in> set new. call_ok x"
      "(\<forall>c \<in> set cs. publishes env c) \<longrightarrow>
         out = Inr (((\<lambda>res. res\<lparr>rr_published := rr_published res + 1, rr_cleaned := rr_cleaned res + 1\<rparr>) ^^ length cs) res)
         \<and> (\<forall>c \<in> set cs. row_is CLEANED c (w_table u))"
    unfolding v_def by simp blast
  have "\<forall>x \<in> set (w_log u). call_ok x" using f(5,6) log by auto
  moreover have "(\<forall>c. publishes env c) \<longrightarrow>
      out = Inr (((\<lambda>res. res\<lparr>rr_published := rr_published res + 1, rr_cleaned := rr_cleaned res + 1\<rparr>) ^^ length cs) res)
      \<and> (\<forall>c \<in> set cs. row_is CLEANED c (w_table u))"
    using f(7) by blast
  ultimately show ?thesis using v m f(1-4) by blast
qed

text \<open>
  A whole pass keeps the table in order and makes only calls that are in order; with good ports
  and a limit that covers all pending rows it publishes and cleans every one of them.
\<close>

definition good_ports :: "publication_env \<Rightarrow> bool" where
  "good_ports env \<longleftrightarrow> (\<forall>c. publishes env c)"

lemma good_cleans: "good_ports env \<Longrightarrow> cleans env c"
  by (simp add: good_ports_def publishes_def cleans_def)

lemma reconcile_pass:
  assumes ok: "publication_ok dir tbl"
  shows "\<exists>out u. reconcile env limit (start_world tbl) = (out, u) \<and> publication_ok dir (w_table u)
    \<and> rows_advance tbl (w_table u) \<and> (\<forall>x \<in> set (w_log u). call_ok x)"
proof (cases "limit \<le> 0")
  case True
  then show ?thesis using ok by (simp add: reconcile_def lift_def start_world_def)
next
  case False
  then have l: "0 < limit" by simp
  obtain cs v out u where a: "in_spool env (\<lambda>_. pending_cleanup limit) (start_world tbl) = (Inr cs, v)"
      "for_each (clean_one env) cs nothing_reconciled v = (out, u)" "publication_ok dir (w_table u)"
      "rows_advance tbl (w_table u)" "\<forall>x \<in> set (w_log u). call_ok x"
    using cleaning_pass [OF ok l, of env] by blast
  show ?thesis
  proof (cases out)
    case (Inl e)
    then show ?thesis using a False by (simp add: reconcile_def bind_io_def)
  next
    case (Inr res)
    define k where "k = max 0 (limit - int (length cs))"
    show ?thesis
    proof (cases "k = 0")
      case True
      then show ?thesis using a Inr False by (simp add: reconcile_def bind_io_def Let_def k_def ret_def)
    next
      case kn: False
      then have "0 < k" by (simp add: k_def)
      from publishing_pass [OF a(3) this a(5), of env res]
      obtain ds x out' y where b: "in_spool env (\<lambda>_. pending_publication k) u = (Inr ds, x)"
          "for_each (publish_one env) ds res x = (out', y)" "publication_ok dir (w_table y)"
          "rows_advance (w_table u) (w_table y)" "\<forall>x \<in> set (w_log y). call_ok x"
        by blast
      have kl: "k = limit - int (length cs)" "limit \<noteq> int (length cs)" using kn by (auto simp: k_def max_def split: if_splits)
      have "reconcile env limit (start_world tbl) = (out', y)"
        using a(1,2) b(1,2) Inr False kn kl(2) by (simp add: reconcile_def bind_io_def Let_def k_def)
      then show ?thesis using b(3,5) rows_advance_trans [OF a(4) b(4)] by blast
    qed
  qed
qed

lemma reconcile_good:
  assumes ok: "publication_ok dir tbl" and good: "good_ports env" and l: "0 < limit"
    and n: "int (rows_in ACKNOWLEDGED tbl + rows_in COMPLETE tbl) \<le> limit"
  shows "\<exists>u. reconcile env limit (start_world tbl)
      = (Inr \<lparr>rr_published = rows_in COMPLETE tbl, rr_cleaned = rows_in ACKNOWLEDGED tbl + rows_in COMPLETE tbl,
           rr_deferred = 0, rr_errors = []\<rparr>, u)
    \<and> (\<forall>i r. map_of tbl i = Some r \<longrightarrow>
         (\<exists>q. map_of (w_table u) i = Some q \<and> (if durable_state r then sr_state q = CLEANED else q = r)))"
proof -
  have sp: "spool_ok dir tbl" using ok by (simp add: publication_ok_def)
  have nb: "int (length (filter (\<lambda>(i, r). sr_state r = ACKNOWLEDGED) tbl)) \<le> limit"
    using n by (simp add: rows_in_def)
  from cleaning_pass [OF ok l, of env] good_cleans [OF good] obtain cs v u where
      a: "in_spool env (\<lambda>_. pending_cleanup limit) (start_world tbl) = (Inr cs, v)"
        "map co_recording_id cs = map fst (by_update (\<lambda>r. sr_state r = ACKNOWLEDGED) limit tbl)"
        "for_each (clean_one env) cs nothing_reconciled v
           = (Inr \<lparr>rr_published = 0, rr_cleaned = length cs, rr_deferred = 0, rr_errors = []\<rparr>, u)"
        "publication_ok dir (w_table u)" "\<forall>x \<in> set (w_log u). call_ok x"
        "\<And>j. j \<notin> set (map co_recording_id cs) \<Longrightarrow> map_of (w_table u) j = map_of tbl j"
        "\<And>c. c \<in> set cs \<Longrightarrow> row_is CLEANED c (w_table u)"
    by blast
  have len: "length cs = rows_in ACKNOWLEDGED tbl"
    using arg_cong [OF a(2), of length] query_all(4) [OF nb] by (simp add: rows_in_def)
  have acked: "j \<in> set (map co_recording_id cs) \<longleftrightarrow> (\<exists>r. map_of tbl j = Some r \<and> sr_state r = ACKNOWLEDGED)" for j
    unfolding a(2) set_map query_all(2) [OF nb] using unique_row [OF sp] map_of_SomeD
    by (fastforce simp: image_iff)
  have usp: "spool_ok dir (w_table u)" using a(4) by (simp add: publication_ok_def)
  have done_row: "\<exists>q. map_of (w_table u) j = Some q \<and> sr_state q = CLEANED" if "j \<in> set (map co_recording_id cs)" for j
    using that a(7) by (auto simp: row_is_def)
  have "{i. \<exists>r. map_of (w_table u) i = Some r \<and> sr_state r = COMPLETE} = {i. \<exists>r. map_of tbl i = Some r \<and> sr_state r = COMPLETE}"
  proof (intro Collect_cong)
    fix j
    show "(\<exists>r. map_of (w_table u) j = Some r \<and> sr_state r = COMPLETE) \<longleftrightarrow> (\<exists>r. map_of tbl j = Some r \<and> sr_state r = COMPLETE)"
      using a(6) [of j] acked [of j] done_row [of j] by (cases "j \<in> set (map co_recording_id cs)") auto
  qed
  then have cu: "rows_in COMPLETE (w_table u) = rows_in COMPLETE tbl"
    using rows_in_card [OF usp] rows_in_card [OF sp] by simp
  have others: "map_of (w_table u) i = Some r" if "map_of tbl i = Some r" "sr_state r \<noteq> ACKNOWLEDGED" for i r
    using that acked [of i] a(6) [of i] by auto
  define k where "k = max 0 (limit - int (length cs))"
  have kc: "int (rows_in COMPLETE tbl) \<le> k" using n len by (simp add: k_def)
  show ?thesis
  proof (cases "k = 0")
    case True
    then have none: "rows_in COMPLETE tbl = 0" using kc by simp
    have run: "reconcile env limit (start_world tbl)
        = (Inr \<lparr>rr_published = 0, rr_cleaned = length cs, rr_deferred = 0, rr_errors = []\<rparr>, u)"
      using a(1,3) l True by (simp add: reconcile_def bind_io_def Let_def k_def ret_def)
    have "\<exists>q. map_of (w_table u) i = Some q \<and> (if durable_state r then sr_state q = CLEANED else q = r)"
      if r: "map_of tbl i = Some r" for i r
    proof -
      have "finite {i. \<exists>r. map_of tbl i = Some r \<and> sr_state r = COMPLETE}"
        using finite_dom_map_of [of tbl] by (rule finite_subset [rotated]) (auto simp: dom_def)
      then have "sr_state r \<noteq> COMPLETE" using none rows_in_card [OF sp, of COMPLETE] r by auto
      then show ?thesis
        using acked [of i] done_row [of i] others [OF r] r by (cases "sr_state r") (auto simp: durable_state_def)
    qed
    with run none len show ?thesis by auto
  next
    case False
    then have k0: "0 < k" by (simp add: k_def)
    have kb: "int (length (filter (\<lambda>(i, r). sr_state r = COMPLETE) (w_table u))) \<le> k"
      using kc cu by (simp add: rows_in_def)
    from publishing_pass [OF a(4) k0 a(5), of env "\<lparr>rr_published = 0, rr_cleaned = length cs, rr_deferred = 0, rr_errors = []\<rparr>"]
      good obtain ds x y where
        b: "in_spool env (\<lambda>_. pending_publication k) u = (Inr ds, x)"
          "map co_recording_id ds = map fst (by_creation (\<lambda>r. sr_state r = COMPLETE) k (w_table u))"
          "for_each (publish_one env) ds \<lparr>rr_published = 0, rr_cleaned = length cs, rr_deferred = 0, rr_errors = []\<rparr> x
             = (Inr \<lparr>rr_published = length ds, rr_cleaned = length cs + length ds, rr_deferred = 0, rr_errors = []\<rparr>, y)"
          "\<And>j. j \<notin> set (map co_recording_id ds) \<Longrightarrow> map_of (w_table y) j = map_of (w_table u) j"
          "\<And>c. c \<in> set ds \<Longrightarrow> row_is CLEANED c (w_table y)"
      unfolding count_published good_ports_def by blast
    have dlen: "length ds = rows_in COMPLETE tbl"
      using arg_cong [OF b(2), of length] query_all(3) [OF kb] cu by (simp add: rows_in_def)
    have complete: "j \<in> set (map co_recording_id ds) \<longleftrightarrow> (\<exists>r. map_of (w_table u) j = Some r \<and> sr_state r = COMPLETE)" for j
      unfolding b(2) set_map query_all(1) [OF kb] using unique_row [OF usp] map_of_SomeD
      by (fastforce simp: image_iff)
    have cleaned: "\<exists>q. map_of (w_table y) j = Some q \<and> sr_state q = CLEANED" if "j \<in> set (map co_recording_id ds)" for j
      using that b(5) by (auto simp: row_is_def)
    have kl: "limit \<noteq> int (length cs)" using False by (auto simp: k_def)
    have run: "reconcile env limit (start_world tbl)
        = (Inr \<lparr>rr_published = length ds, rr_cleaned = length cs + length ds, rr_deferred = 0, rr_errors = []\<rparr>, y)"
      using a(1,3) b(1,3) l False kl by (simp add: reconcile_def bind_io_def Let_def k_def)
    have "\<exists>q. map_of (w_table y) i = Some q \<and> (if durable_state r then sr_state q = CLEANED else q = r)"
      if r: "map_of tbl i = Some r" for i r
    proof (cases "sr_state r = ACKNOWLEDGED")
      case True
      then obtain q where q: "map_of (w_table u) i = Some q" "sr_state q = CLEANED" using done_row [of i] acked [of i] r by auto
      then have "map_of (w_table y) i = Some q" using b(4) [of i] complete [of i] by auto
      then show ?thesis using q True by (simp add: durable_state_def)
    next
      case False
      note u = others [OF r False]
      show ?thesis
      proof (cases "sr_state r = COMPLETE")
        case True
        then show ?thesis using cleaned [of i] complete [of i] u by (auto simp: durable_state_def)
      next
        case nc: False
        then have "map_of (w_table y) i = Some r" using b(4) [of i] complete [of i] u by auto
        then show ?thesis using False nc by (cases "sr_state r") (auto simp: durable_state_def)
      qed
    qed
    with run len dlen show ?thesis by auto
  qed
qed

subsection \<open>Histories of capture and publication\<close>

text \<open>
  The capture process allocates, completes and fails recordings; passes of the reconciler come in
  between, each with ports of its own, and any of them may end early with the process.
\<close>

datatype system_op = Capture_Side spool_op | Publish_Pass publication_env int

fun capture_op :: "spool_op \<Rightarrow> bool" where
  "capture_op (Allocate plan draw) \<longleftrightarrow> True"
| "capture_op (Complete c now) \<longleftrightarrow> True"
| "capture_op (Fail_One i reason now) \<longleftrightarrow> True"
| "capture_op (Fail_All reason now) \<longleftrightarrow> True"
| "capture_op _ \<longleftrightarrow> False"

fun system_step :: "string \<Rightarrow> system_op \<Rightarrow> spool_table \<Rightarrow> spool_table" where
  "system_step dir (Capture_Side op) tbl = snd (spool_do dir op tbl)"
| "system_step dir (Publish_Pass env limit) tbl = w_table (snd (reconcile env limit (start_world tbl)))"

definition system_run :: "string \<Rightarrow> system_op list \<Rightarrow> spool_table" where
  "system_run dir ops = fold (system_step dir) ops []"

fun system_op_ok :: "system_op \<Rightarrow> bool" where
  "system_op_ok (Capture_Side op) \<longleftrightarrow> capture_op op \<and> op_built op"
| "system_op_ok (Publish_Pass env limit) \<longleftrightarrow> True"

definition settled :: "spool_row \<Rightarrow> bool" where
  "settled r \<longleftrightarrow> sr_state r = ACKNOWLEDGED \<or> sr_state r = CLEANED"

lemma update_settled:
  assumes "(i, q) \<in> set (snd (spool_update P f tbl))" and "settled q" and "\<And>r. \<not> settled (f r)"
  shows "(i, q) \<in> set tbl"
  using assms by (auto simp: spool_update_def split: if_splits)

lemma allocate_settled:
  "(i, q) \<in> set (snd (allocate_tries k dir plan draw tbl)) \<Longrightarrow> settled q \<Longrightarrow> (i, q) \<in> set tbl"
  by (induction k arbitrary: draw) (auto simp: Let_def settled_def split: prod.splits if_splits)

lemma capture_settled:
  assumes "capture_op op" and "(i, q) \<in> set (snd (spool_do dir op tbl))" and "settled q"
  shows "(i, q) \<in> set tbl"
proof -
  note upd = update_settled [OF _ assms(3)]
  show ?thesis
  proof (cases op)
    case (Allocate plan draw)
    then have "(i, q) \<in> set (snd (allocate_tries 8 dir plan draw tbl))"
      using assms(2) by (simp add: forget_def spool_allocate_def split: prod.splits)
    then show ?thesis using assms(3) by (rule allocate_settled)
  next
    case (Complete c now)
    let ?f = "\<lambda>r. r\<lparr>sr_state := COMPLETE, sr_payload := Some (encode_completed c), sr_error := None, sr_updated := now\<rparr>"
    from Complete assms(2) have "(i, q) \<in> set tbl
        \<or> (i, q) \<in> set (snd (spool_update (\<lambda>j r. j = co_recording_id c \<and> sr_state r = ALLOCATED) ?f tbl))"
      by (auto simp: record_complete_def Let_def split: option.splits if_splits)
    then show ?thesis using upd [of i "\<lambda>j r. j = co_recording_id c \<and> sr_state r = ALLOCATED" ?f tbl]
      by (auto simp: settled_def)
  next
    case (Fail_One j reason now)
    let ?f = "\<lambda>r. r\<lparr>sr_state := FAILED, sr_error := Some reason, sr_updated := now\<rparr>"
    let ?p = "\<lambda>k r. k = j \<and> sr_state r = ALLOCATED"
    from Fail_One assms(2) have "(i, q) \<in> set tbl \<or> (i, q) \<in> set (snd (spool_update ?p ?f tbl))"
      by (cases "spool_update ?p ?f tbl") (auto simp: record_failure_def Let_def split: option.splits if_splits)
    then show ?thesis using upd [of i ?p ?f tbl] by (auto simp: settled_def)
  next
    case (Fail_All reason now)
    let ?f = "\<lambda>r. r\<lparr>sr_state := FAILED, sr_error := Some reason, sr_updated := now\<rparr>"
    let ?p = "\<lambda>k r. sr_state r = ALLOCATED"
    from Fail_All assms(2) have "(i, q) \<in> set (snd (spool_update ?p ?f tbl))"
      by (cases "spool_update ?p ?f tbl") (auto simp: fail_incomplete_allocations_def forget_def Let_def)
    then show ?thesis using upd [of i ?p ?f tbl] by (auto simp: settled_def)
  qed (use assms(1) in simp_all)
qed

lemma system_step_keeps:
  assumes ok: "publication_ok dir tbl" and op: "system_op_ok op"
  shows "publication_ok dir (system_step dir op tbl) \<and> rows_advance tbl (system_step dir op tbl)"
proof (cases op)
  case (Publish_Pass env limit)
  from reconcile_pass [OF ok, of env limit] show ?thesis using Publish_Pass by auto
next
  case (Capture_Side o')
  have b: "capture_op o'" "op_built o'" using op Capture_Side by auto
  have sp: "spool_ok dir tbl" using ok by (simp add: publication_ok_def)
  have t: "spool_ok dir (snd (spool_do dir o' tbl))" "rows_advance tbl (snd (spool_do dir o' tbl))"
    using spool_do_keeps [OF sp b(2)] by auto
  have "published_row i r" if "map_of (snd (spool_do dir o' tbl)) i = Some r" "settled r" for i r
  proof -
    have "(i, r) \<in> set tbl" using capture_settled [OF b(1) map_of_SomeD [OF that(1)] that(2)] .
    then have "map_of tbl i = Some r" by (rule unique_row [OF sp])
    then show ?thesis using ok that(2) by (auto simp: publication_ok_def settled_def)
  qed
  then show ?thesis using t Capture_Side by (auto simp: publication_ok_def settled_def)
qed

lemma system_run_keeps:
  assumes "\<forall>op \<in> set ops. system_op_ok op"
  shows "publication_ok dir (system_run dir ops)"
proof -
  have "publication_ok dir tbl \<Longrightarrow> publication_ok dir (fold (system_step dir) ops tbl)" for tbl
    using assms by (induction ops arbitrary: tbl) (auto dest: system_step_keeps)
  moreover have "publication_ok dir []" by (simp add: publication_ok_def spool_ok_def)
  ultimately show ?thesis by (simp add: system_run_def)
qed

text \<open>
  C1. Bytes go only after a publication that matches them. After any history of captures and
  passes, in which publishers and cleaners answer with anything, raise, or take the process with
  them, the next pass keeps the table in order and its rows only advance; it publishes a recording
  only while its row is complete and under its own idempotency key; and it asks for bytes to be
  removed only while the row is acknowledged and holds the identity of a remote object whose
  recording, sizes and digests are those of the local one.
\<close>

theorem bytes_go_only_after_publication:
  assumes "\<forall>op \<in> set ops. system_op_ok op" and "tbl = system_run dir ops"
  shows "\<exists>out u. reconcile env limit (start_world tbl) = (out, u)
    \<and> publication_ok dir (w_table u) \<and> rows_advance tbl (w_table u)
    \<and> (\<forall>x \<in> set (w_log u). call_ok x)"
  using reconcile_pass [OF system_run_keeps [OF assms(1)]] assms(2) by simp

text \<open>
  C8. A pass with working ports drains the spool. After any such history, crashes and failed
  passes included, one pass whose publisher returns matching objects, whose cleaner returns and
  whose limit covers the pending rows returns normally, counts every complete and acknowledged
  recording, defers none, and leaves each of them cleaned and every other row as it was.
\<close>

theorem good_pass_publishes_everything:
  assumes "\<forall>op \<in> set ops. system_op_ok op" and "tbl = system_run dir ops" and "good_ports env"
    and "0 < limit" and "int (rows_in ACKNOWLEDGED tbl + rows_in COMPLETE tbl) \<le> limit"
  shows "\<exists>u. reconcile env limit (start_world tbl)
      = (Inr \<lparr>rr_published = rows_in COMPLETE tbl,
           rr_cleaned = rows_in ACKNOWLEDGED tbl + rows_in COMPLETE tbl, rr_deferred = 0, rr_errors = []\<rparr>, u)
    \<and> (\<forall>i r. map_of tbl i = Some r \<longrightarrow>
         (\<exists>q. map_of (w_table u) i = Some q \<and> (if durable_state r then sr_state q = CLEANED else q = r)))"
  using reconcile_good [of dir tbl env limit] system_run_keeps [OF assms(1)] assms(2-5) by simp

text \<open>
  The recording of the spool's example is captured; a first pass ends the process inside the
  publisher, a second one publishes but cannot clean, a third one succeeds.
\<close>

definition matching_ref :: "completed_recording \<Rightarrow> published_recording_ref" where
  "matching_ref c =
     \<lparr>recording_object =
       \<lparr>ror_recording_id = co_recording_id c,
        data_object = \<lparr>obj_digest = lo_digest (co_data c), byte_count = lo_bytes (co_data c), media_type = ''a/b'',
          format_id = ''iq'', locator = ''x''\<rparr>,
        metadata_object = \<lparr>obj_digest = lo_digest (co_metadata c), byte_count = lo_bytes (co_metadata c),
          media_type = ''a/b'', format_id = ''md'', locator = ''y''\<rparr>,
        manifest_digest = co_manifest_digest c\<rparr>\<rparr>"

definition demo_env :: publication_env where
  "demo_env = \<lparr>publisher = (\<lambda>c key. Reply (matching_ref c)), cleaner = (\<lambda>c. Reply ()), pub_clock = (\<lambda>n. 10 + int n)\<rparr>"

definition demo_history :: "system_op list" where
  "demo_history = map Capture_Side demo_capture @
     [Publish_Pass (demo_env\<lparr>publisher := (\<lambda>c key. Process_Ends)\<rparr>) 5,
      Publish_Pass (demo_env\<lparr>cleaner := (\<lambda>c. Raise_Exc ''OSError'' ''busy'')\<rparr>) 5]"

lemma demo_history_ok: "\<forall>op \<in> set demo_history. system_op_ok op"
  using demo_capture_built by (auto simp: demo_history_def demo_capture_def)

lemma demo_ports_good: "good_ports demo_env"
  by (simp add: good_ports_def publishes_def demo_env_def matching_ref_def validate_publication_def)

abbreviation demo_row :: "spool_state \<Rightarrow> spool_row" where
  "demo_row st \<equiv> \<lparr>sr_plan_id = ''plan_1'', sr_destination = ''/r/rec_1'', sr_state = st,
     sr_payload = Some (encode_completed demo_recording), publish_attempts = 0, sr_error = None, sr_key = None,
     published_identity = None, sr_created = 5, sr_updated = 6\<rparr>"

lemma demo_names: "co_recording_id demo_recording = ''rec_1''" "rm_plan_id (co_manifest demo_recording) = ''plan_1''"
  by (simp_all add: demo_recording_def demo_manifest_def demo_plan_def)

lemma demo_captured: "spool_run ''/r'' demo_capture [] = [(''rec_1'', demo_row COMPLETE)]"
  by (simp add: spool_run_def demo_capture_def forget_def spool_allocate_def eval_nat_numeral destination_of_def
      record_complete_def demo_names spool_update_def bindE_def Let_def)

lemma demo_stored: "stored_completed (Some (encode_completed demo_recording)) = Inr (completed_read demo_recording)"
  using decode_encoded_completed [OF demo_recording_built] by (simp add: stored_completed_def embed_exn_def)

lemma demo_read_names: "co_recording_id (completed_read demo_recording) = ''rec_1''"
  by (simp add: demo_names completed_read_def)

lemmas demo_pass = reconcile_def start_world_def bind_io_def in_spool_def pending_cleanup_def pending_publication_def
  by_update_def by_creation_def demo_stored Let_def lift_def ret_def publish_one_def clean_one_def attempt_def
  call_publisher_def call_cleaner_def note_publish_attempt_def spool_acknowledge_def spool_update_def demo_env_def
  nothing_reconciled_def deferred_def demo_read_names

lemma demo_killed:
  "w_table (snd (reconcile (demo_env\<lparr>publisher := (\<lambda>c key. Process_Ends)\<rparr>) 5 (start_world [(''rec_1'', demo_row COMPLETE)])))
     = [(''rec_1'', demo_row COMPLETE)]"
  by (simp add: demo_pass bindE_def)

lemma demo_unclean:
  "map (sr_state \<circ> snd) (w_table (snd (reconcile (demo_env\<lparr>cleaner := (\<lambda>c. Raise_Exc ''OSError'' ''busy'')\<rparr>) 5
     (start_world [(''rec_1'', demo_row COMPLETE)])))) = [ACKNOWLEDGED]"
  by (simp add: demo_pass bindE_def matching_ref_def validate_publication_def published_recording_id_def)

lemma capture_run: "fold (system_step dir) (map Capture_Side ops) tbl = spool_run dir ops tbl"
  by (induction ops arbitrary: tbl) (simp_all add: spool_run_def)

lemma demo_rows: "map (sr_state \<circ> snd) (system_run ''/r'' demo_history) = [ACKNOWLEDGED]"
  using demo_killed demo_unclean by (simp add: system_run_def demo_history_def capture_run demo_captured)

lemma demo_counts: "rows_in ACKNOWLEDGED (system_run ''/r'' demo_history) + rows_in COMPLETE (system_run ''/r'' demo_history) = 1"
proof -
  have r: "rows_in st t = length (filter (\<lambda>s. s = st) (map (sr_state \<circ> snd) t))" for st t
    unfolding rows_in_def filter_map length_map by (simp add: comp_def case_prod_unfold)
  show ?thesis unfolding r demo_rows by simp
qed

theorem bytes_go_only_after_publication_witness:
  "list_all call_ok (w_log (snd (reconcile demo_env 5 (start_world (system_run ''/r'' demo_history)))))"
  using bytes_go_only_after_publication [OF demo_history_ok refl, where dir = "''/r''" and env = demo_env and limit = 5]
  by (auto simp: list_all_iff)

theorem good_pass_publishes_everything_witness:
  "map_option rr_deferred (case fst (reconcile demo_env 5 (start_world (system_run ''/r'' demo_history))) of
     Inl e \<Rightarrow> None | Inr res \<Rightarrow> Some res) = Some 0"
proof -
  have "int (rows_in ACKNOWLEDGED (system_run ''/r'' demo_history) + rows_in COMPLETE (system_run ''/r'' demo_history)) \<le> 5"
    unfolding demo_counts by simp
  from good_pass_publishes_everything [OF demo_history_ok refl demo_ports_good _ this] show ?thesis by auto
qed

end
