(* ===== verification/Publisher.thy ===== *)
theory Publisher
  imports Blob_Store Catalog Publication
begin

section \<open>The publisher of recordings\<close>

text \<open>
  \<open>RecordingPublisherAdapter\<close> of \<open>storage/catalog.py\<close> and \<open>PostgresRecordingPublisher\<close> of
  \<open>storage/postgres_catalog.py\<close>, which are the same code over their catalogs: upload the data, upload
  the metadata, show the pair. This is the publisher the reconciler of \<open>Publication\<close> calls. The
  local source of the two streams is an argument: it gives the chunks, raises, or the process ends.
\<close>

datatype upload_error =
    Local_Failed string string | Local_Ended | Blob_Failed "blob_error exn" | Pair_Failed "core_error exn"
  | Catalog_Failed "catalog_error exn"

record 's publishing =
  pb_blobs :: blob_store
  pb_catalog :: 's

type_synonym ('s, 'a) publisher_io = "('s publishing, upload_error, 'a) io"

record local_source =
  open_data :: "completed_recording \<Rightarrow> string list reply"
  open_metadata :: "completed_recording \<Rightarrow> string list reply"

fun opened :: "string list reply \<Rightarrow> upload_error + string list" where
  "opened (Reply xs) = Inr xs"
| "opened (Raise_Exc n m) = Inl (Local_Failed n m)"
| "opened Process_Ends = Inl Local_Ended"

definition upload ::
  "int \<Rightarrow> string list \<Rightarrow> digest \<Rightarrow> int \<Rightarrow> string \<Rightarrow> string \<Rightarrow> string \<Rightarrow> ('s, object_ref) publisher_io" where
  "upload stamp stream d n media fmt key w =
     (let (r, b) = blob_put id stamp stream d n media fmt key (pb_blobs w)
      in (map_sum Blob_Failed id r, w\<lparr>pb_blobs := b\<rparr>))"

definition publish_recording ::
  "(recording_object_ref \<Rightarrow> string \<Rightarrow> ('s, published_recording_ref) catalog_io) \<Rightarrow> local_source \<Rightarrow> int \<Rightarrow> int
     \<Rightarrow> completed_recording \<Rightarrow> string \<Rightarrow> ('s, published_recording_ref) publisher_io" where
  "publish_recording publish_op source stamp stamp' c key =
     bind_io (lift (opened (open_data source c))) (\<lambda>stream.
     bind_io (upload stamp stream (lo_digest (co_data c)) (lo_bytes (co_data c))
       ''application/octet-stream'' ''leo-recording-data-v1'' (key @ '':data'')) (\<lambda>data.
     bind_io (lift (opened (open_metadata source c))) (\<lambda>stream.
     bind_io (upload stamp' stream (lo_digest (co_metadata c)) (lo_bytes (co_metadata c))
       ''application/json'' ''leo-recording-metadata-v1'' (key @ '':metadata'')) (\<lambda>meta.
     bind_io (lift (map_sum Pair_Failed id (checked recording_object_ref_post_init
       \<lparr>ror_recording_id = co_recording_id c, data_object = data, metadata_object = meta,
        manifest_digest = co_manifest_digest c\<rparr>))) (\<lambda>logical w.
       let (r, s) = publish_op logical key (pb_catalog w)
       in (map_sum Catalog_Failed id r, w\<lparr>pb_catalog := s\<rparr>))))))"

text \<open>The references a recording has in the store, and the pair.\<close>

definition data_ref :: "completed_recording \<Rightarrow> object_ref" where
  "data_ref c = \<lparr>obj_digest = lo_digest (co_data c), byte_count = lo_bytes (co_data c),
     media_type = ''application/octet-stream'', format_id = ''leo-recording-data-v1'',
     locator = cas_locator (lo_digest (co_data c))\<rparr>"

definition metadata_ref :: "completed_recording \<Rightarrow> object_ref" where
  "metadata_ref c = \<lparr>obj_digest = lo_digest (co_metadata c), byte_count = lo_bytes (co_metadata c),
     media_type = ''application/json'', format_id = ''leo-recording-metadata-v1'',
     locator = cas_locator (lo_digest (co_metadata c))\<rparr>"

definition pair_of :: "completed_recording \<Rightarrow> recording_object_ref" where
  "pair_of c = \<lparr>ror_recording_id = co_recording_id c, data_object = data_ref c, metadata_object = metadata_ref c,
     manifest_digest = co_manifest_digest c\<rparr>"

lemma pair_matches: "remote_matches c \<lparr>recording_object = pair_of c\<rparr>"
  by (simp add: remote_matches_def pair_of_def data_ref_def metadata_ref_def)

lemma put_ref:
  assumes "blob_put others stamp stream d n media fmt key st = (Inr ref, t)"
  shows "ref = \<lparr>obj_digest = d, byte_count = n, media_type = media, format_id = fmt, locator = cas_locator d\<rparr>"
  using assms
  by (auto simp: blob_put_def Let_def split: if_splits sum.splits prod.splits)

text \<open>A publication that returns has uploaded both objects and shown their pair.\<close>

definition put_data where
  "put_data stamp stream c key = blob_put id stamp stream (lo_digest (co_data c)) (lo_bytes (co_data c))
     ''application/octet-stream'' ''leo-recording-data-v1'' (key @ '':data'')"

definition put_metadata where
  "put_metadata stamp stream c key = blob_put id stamp stream (lo_digest (co_metadata c)) (lo_bytes (co_metadata c))
     ''application/json'' ''leo-recording-metadata-v1'' (key @ '':metadata'')"

text \<open>The steps of a publication one by one.\<close>

lemma publish_recording_steps:
  "publish_recording publish_op source stamp stamp' c key w =
     (case opened (open_data source c) of
        Inl e \<Rightarrow> (Inl e, w)
      | Inr xs \<Rightarrow>
          (case put_data stamp xs c key (pb_blobs w) of
             (Inl e, b) \<Rightarrow> (Inl (Blob_Failed e), w\<lparr>pb_blobs := b\<rparr>)
           | (Inr data, b) \<Rightarrow>
               (case opened (open_metadata source c) of
                  Inl e \<Rightarrow> (Inl e, w\<lparr>pb_blobs := b\<rparr>)
                | Inr ys \<Rightarrow>
                    (case put_metadata stamp' ys c key b of
                       (Inl e, b') \<Rightarrow> (Inl (Blob_Failed e), w\<lparr>pb_blobs := b'\<rparr>)
                     | (Inr meta, b') \<Rightarrow>
                         (case recording_object_ref_post_init (pair_of c) of
                            Inl e \<Rightarrow> (Inl (Pair_Failed e), w\<lparr>pb_blobs := b'\<rparr>)
                          | Inr _ \<Rightarrow>
                              (case publish_op (pair_of c) key (pb_catalog w) of
                                 (Inl e, s) \<Rightarrow> (Inl (Catalog_Failed e), w\<lparr>pb_blobs := b', pb_catalog := s\<rparr>)
                               | (Inr p, s) \<Rightarrow> (Inr p, w\<lparr>pb_blobs := b', pb_catalog := s\<rparr>)))))))"
proof (cases "opened (open_data source c)")
  case (Inr xs)
  obtain r b where b: "put_data stamp xs c key (pb_blobs w) = (r, b)" by (cases "put_data stamp xs c key (pb_blobs w)")
  show ?thesis
  proof (cases r)
    case (Inl e)
    with Inr b show ?thesis
      by (simp add: publish_recording_def bind_io_def lift_def upload_def put_data_def)
  next
    case r: (Inr data)
    have data: "data = data_ref c" using put_ref [OF b [unfolded put_data_def r]] by (simp add: data_ref_def)
    show ?thesis
    proof (cases "opened (open_metadata source c)")
      case (Inl e)
      with Inr b r show ?thesis
        by (simp add: publish_recording_def bind_io_def lift_def upload_def put_data_def)
    next
      case o: (Inr ys)
      obtain r' b' where b': "put_metadata stamp' ys c key b = (r', b')" by (cases "put_metadata stamp' ys c key b")
      show ?thesis
      proof (cases r')
        case (Inl e)
        with Inr b r o b' show ?thesis
          by (simp add: publish_recording_def bind_io_def lift_def upload_def put_data_def put_metadata_def)
      next
        case r': (Inr meta)
        have "meta = metadata_ref c"
          using put_ref [OF b' [unfolded put_metadata_def r']] by (simp add: metadata_ref_def)
        with Inr b r o b' r' data show ?thesis
          by (simp add: publish_recording_def bind_io_def lift_def upload_def put_data_def put_metadata_def
              pair_of_def [symmetric] checked_def split: sum.splits prod.splits)
      qed
    qed
  qed
qed (simp add: publish_recording_def bind_io_def lift_def)

subsection \<open>Histories of publications\<close>

datatype publisher_op = Publish local_source int int completed_recording | New_Process

fun publisher_do ::
  "(recording_object_ref \<Rightarrow> string \<Rightarrow> ('s, published_recording_ref) catalog_io) \<Rightarrow> publisher_op \<Rightarrow> 's publishing \<Rightarrow> 's publishing" where
  "publisher_do publish_op (Publish source stamp stamp' c) w =
     snd (publish_recording publish_op source stamp stamp' c (publication_idempotency_key c) w)"
| "publisher_do publish_op New_Process w = w\<lparr>pb_blobs := blob_do Restarted (pb_blobs w)\<rparr>"

definition publisher_run where
  "publisher_run publish_op ops w = fold (publisher_do publish_op) ops w"

fun recordings_in :: "publisher_op \<Rightarrow> completed_recording set" where
  "recordings_in (Publish source stamp stamp' c) = {c}"
| "recordings_in New_Process = {}"

text \<open>The source gives the bytes the recording was completed with.\<close>

definition source_good :: "local_source \<Rightarrow> completed_recording \<Rightarrow> bool" where
  "source_good source c \<longleftrightarrow>
     (\<exists>xs a ys b. open_data source c = Reply xs \<and> receive (lo_bytes (co_data c)) [] xs = Inr a
        \<and> digest_sha256 a = lo_digest (co_data c) \<and> int (length a) = lo_bytes (co_data c)
        \<and> open_metadata source c = Reply ys \<and> receive (lo_bytes (co_metadata c)) [] ys = Inr b
        \<and> digest_sha256 b = lo_digest (co_metadata c) \<and> int (length b) = lo_bytes (co_metadata c))"

definition file_at :: "blob_store \<Rightarrow> digest \<Rightarrow> int \<Rightarrow> bool" where
  "file_at st d n \<longleftrightarrow> (\<exists>f. cas_files st (dvalue d) = Some f \<and> file_is d n f)"

definition both_files :: "blob_store \<Rightarrow> completed_recording \<Rightarrow> bool" where
  "both_files st c \<longleftrightarrow> file_at st (lo_digest (co_data c)) (lo_bytes (co_data c))
     \<and> file_at st (lo_digest (co_metadata c)) (lo_bytes (co_metadata c))"

lemma file_at_grow: "cas_files st \<subseteq>\<^sub>m cas_files t \<Longrightarrow> file_at st d n \<Longrightarrow> file_at t d n"
  by (auto simp: file_at_def map_le_def dom_def)

lemma both_files_grow: "cas_files st \<subseteq>\<^sub>m cas_files t \<Longrightarrow> both_files st c \<Longrightarrow> both_files t c"
  by (auto simp: both_files_def intro: file_at_grow)

text \<open>One \<open>put\<close>.\<close>

lemma put_grows: "cas_files st \<subseteq>\<^sub>m cas_files (snd (blob_put id stamp stream d n media fmt key st))"
  using blob_do_files [of "Put stamp stream d n media fmt key" st] by simp

lemma put_file_at: "blob_put id stamp stream d n media fmt key st = (Inr ref, t) \<Longrightarrow> file_at t d n"
proof -
  have "blob_run [] = id" by (rule ext) (simp add: blob_run_def)
  then show "blob_put id stamp stream d n media fmt key st = (Inr ref, t) \<Longrightarrow> file_at t d n"
    using put_stores [of "[]" stamp stream d n media fmt key st ref t] by (simp add: file_at_def)
qed

lemma put_keys:
  "cas_keys (snd (blob_put id stamp stream d n media fmt key st)) k = Some i \<Longrightarrow>
     cas_keys st k = Some i \<or> k = key \<and> i = (d, n)"
  by (auto simp: blob_put_def link_blob_def Let_def split: if_splits sum.splits prod.splits option.splits)

lemma put_again:
  assumes "file_at st d n" and "\<not> key_taken key (d, n) st" and "key \<noteq> []"
    and "receive n [] stream = Inr bytes" and "digest_sha256 bytes = d" and "int (length bytes) = n"
    and "object_ref_post_init \<lparr>obj_digest = d, byte_count = n, media_type = media, format_id = fmt,
      locator = cas_locator d\<rparr> = Inr ()"
  shows "\<exists>t. blob_put id stamp stream d n media fmt key st = (Inr \<lparr>obj_digest = d, byte_count = n, media_type = media,
      format_id = fmt, locator = cas_locator d\<rparr>, t) \<and> cas_files t = cas_files st"
proof -
  obtain f where "cas_files st (dvalue d) = Some f" "file_is d n f" using assms(1) by (auto simp: file_at_def)
  then have "link_blob stamp d n bytes st = (Inr (), st)"
    by (simp add: link_blob_def verify_path_def file_is_def)
  with assms(2-7) show ?thesis
    by (auto simp: blob_put_def Let_def checked_def embed_exn_def)
qed

text \<open>Keys of publications tell recordings apart.\<close>

lemma publication_key_inj:
  assumes "length (dvalue (co_manifest_digest c)) = 64" and "length (dvalue (co_manifest_digest c')) = 64"
    and "publication_idempotency_key c = publication_idempotency_key c'"
  shows "co_recording_id c = co_recording_id c'"
proof -
  have l: "length (str_digest d) = length (dvalue d) + 7" for d
    by (cases "algorithm d") (simp add: str_digest_def)
  have "co_recording_id c @ '':'' @ str_digest (co_manifest_digest c) = co_recording_id c' @ '':'' @ str_digest (co_manifest_digest c')"
    using assms(3) by (simp add: publication_idempotency_key_def)
  then show ?thesis using assms(1,2) l by (simp add: append_eq_append_conv2) (auto dest: arg_cong [where f = length])
qed

subsection \<open>Publishing once and again\<close>

text \<open>
  Recordings that may occur together: built by their constructors, and one for each identity.
\<close>

definition one_each :: "completed_recording set \<Rightarrow> bool" where
  "one_each S \<longleftrightarrow> (\<forall>c \<in> S. built_completed c) \<and>
     (\<forall>c \<in> S. \<forall>c' \<in> S. co_recording_id c = co_recording_id c' \<longrightarrow> c = c')"

definition keys_of :: "completed_recording set \<Rightarrow> blob_store \<Rightarrow> bool" where
  "keys_of S st \<longleftrightarrow> (\<forall>k i. cas_keys st k = Some i \<longrightarrow> (\<exists>c \<in> S.
     k = publication_idempotency_key c @ '':data'' \<and> i = (lo_digest (co_data c), lo_bytes (co_data c))
     \<or> k = publication_idempotency_key c @ '':metadata'' \<and> i = (lo_digest (co_metadata c), lo_bytes (co_metadata c))))"

lemma one_each_key:
  assumes "one_each S" and "c \<in> S" and "c' \<in> S" and "publication_idempotency_key c = publication_idempotency_key c'"
  shows "c = c'"
proof -
  have "length (dvalue (co_manifest_digest d)) = 64" if "d \<in> S" for d
  proof -
    have "built_digest (co_manifest_digest d)"
      using assms(1) that built_completed_digest by (auto simp: one_each_def)
    then show ?thesis by (cases "algorithm (co_manifest_digest d)") (simp add: built_digest_def digest_post_init_def split: if_splits)
  qed
  then have "co_recording_id c = co_recording_id c'" using publication_key_inj assms(2-4) by blast
  then show ?thesis using assms(1-3) by (simp add: one_each_def)
qed

lemma not_taken:
  assumes "one_each S" and "keys_of S st" and "c \<in> S"
  shows "\<not> key_taken (publication_idempotency_key c @ '':data'') (lo_digest (co_data c), lo_bytes (co_data c)) st"
    "\<not> key_taken (publication_idempotency_key c @ '':metadata'') (lo_digest (co_metadata c), lo_bytes (co_metadata c)) st"
proof -
  have apart: "publication_idempotency_key x @ '':data'' \<noteq> publication_idempotency_key y @ '':metadata''" for x y
  proof
    assume e: "publication_idempotency_key x @ '':data'' = publication_idempotency_key y @ '':metadata''"
    have "drop 4 (rev (publication_idempotency_key x @ '':data'')) \<noteq> drop 4 (rev (publication_idempotency_key y @ '':metadata''))"
      by simp
    with e show False by simp
  qed
  have "i = (lo_digest (co_data c), lo_bytes (co_data c))"
    if k: "cas_keys st (publication_idempotency_key c @ '':data'') = Some i" for i
  proof -
    obtain c' where c': "c' \<in> S" "publication_idempotency_key c @ '':data'' = publication_idempotency_key c' @ '':data''"
        "i = (lo_digest (co_data c'), lo_bytes (co_data c'))"
      using assms(2) k apart unfolding keys_of_def by blast
    then have "c = c'" using one_each_key [OF assms(1,3) c'(1)] by simp
    then show ?thesis using c'(3) by simp
  qed
  then show "\<not> key_taken (publication_idempotency_key c @ '':data'') (lo_digest (co_data c), lo_bytes (co_data c)) st"
    by (simp add: key_taken_def split: option.splits)
  have "i = (lo_digest (co_metadata c), lo_bytes (co_metadata c))"
    if k: "cas_keys st (publication_idempotency_key c @ '':metadata'') = Some i" for i
  proof -
    obtain c' where c': "c' \<in> S" "publication_idempotency_key c @ '':metadata'' = publication_idempotency_key c' @ '':metadata''"
        "i = (lo_digest (co_metadata c'), lo_bytes (co_metadata c'))"
      using assms(2) k apart [symmetric] unfolding keys_of_def by blast
    then have "c = c'" using one_each_key [OF assms(1,3) c'(1)] by simp
    then show ?thesis using c'(3) by simp
  qed
  then show "\<not> key_taken (publication_idempotency_key c @ '':metadata'') (lo_digest (co_metadata c), lo_bytes (co_metadata c)) st"
    by (simp add: key_taken_def split: option.splits)
qed

lemma keys_of_put:
  assumes "keys_of S st" and "c \<in> S"
  shows "keys_of S (snd (put_data stamp xs c (publication_idempotency_key c) st))"
    "keys_of S (snd (put_metadata stamp xs c (publication_idempotency_key c) st))"
proof -
  show "keys_of S (snd (put_data stamp xs c (publication_idempotency_key c) st))"
    unfolding keys_of_def
  proof (intro allI impI)
    fix k i
    assume "cas_keys (snd (put_data stamp xs c (publication_idempotency_key c) st)) k = Some i"
    from put_keys [OF this [unfolded put_data_def]] assms show "\<exists>c \<in> S.
       k = publication_idempotency_key c @ '':data'' \<and> i = (lo_digest (co_data c), lo_bytes (co_data c))
       \<or> k = publication_idempotency_key c @ '':metadata'' \<and> i = (lo_digest (co_metadata c), lo_bytes (co_metadata c))"
      unfolding keys_of_def by blast
  qed
  show "keys_of S (snd (put_metadata stamp xs c (publication_idempotency_key c) st))"
    unfolding keys_of_def
  proof (intro allI impI)
    fix k i
    assume "cas_keys (snd (put_metadata stamp xs c (publication_idempotency_key c) st)) k = Some i"
    from put_keys [OF this [unfolded put_metadata_def]] assms show "\<exists>c \<in> S.
       k = publication_idempotency_key c @ '':data'' \<and> i = (lo_digest (co_data c), lo_bytes (co_data c))
       \<or> k = publication_idempotency_key c @ '':metadata'' \<and> i = (lo_digest (co_metadata c), lo_bytes (co_metadata c))"
      unfolding keys_of_def by blast
  qed
qed

lemma puts_grow:
  "cas_files st \<subseteq>\<^sub>m cas_files (snd (put_data stamp xs c key st))"
  "cas_files st \<subseteq>\<^sub>m cas_files (snd (put_metadata stamp xs c key st))"
  unfolding put_data_def put_metadata_def by (rule put_grows)+

context recording_catalog
begin

definition publisher_inv :: "completed_recording set \<Rightarrow> 's publishing \<Rightarrow> bool" where
  "publisher_inv S w \<longleftrightarrow> ok (pb_catalog w) \<and> keys_of S (pb_blobs w)"

definition published :: "'s publishing \<Rightarrow> completed_recording \<Rightarrow> bool" where
  "published w c \<longleftrightarrow> stored (pb_catalog w) (pair_of c) (publication_idempotency_key c) \<and> both_files (pb_blobs w) c
     \<and> recording_object_ref_post_init (pair_of c) = Inr ()"

lemma publish_keeps:
  assumes "publisher_inv S w" and "c \<in> S"
    and "recording_object_ref_post_init (pair_of c) = Inr () \<Longrightarrow> storable (pair_of c)"
  shows "publisher_inv S (snd (publish_recording publish_op source stamp stamp' c (publication_idempotency_key c) w))
    \<and> (published w q \<longrightarrow> published (snd (publish_recording publish_op source stamp stamp' c (publication_idempotency_key c) w)) q)"
proof -
  let ?key = "publication_idempotency_key c"
  have blobs: "publisher_inv S (w\<lparr>pb_blobs := b\<rparr>) \<and> (published w q \<longrightarrow> published (w\<lparr>pb_blobs := b\<rparr>) q)"
    if "keys_of S b" "cas_files (pb_blobs w) \<subseteq>\<^sub>m cas_files b" for b
    using that assms(1) both_files_grow by (auto simp: publisher_inv_def published_def)
  have whole: "publisher_inv S (w\<lparr>pb_blobs := b, pb_catalog := s\<rparr>)
      \<and> (published w q \<longrightarrow> published (w\<lparr>pb_blobs := b, pb_catalog := s\<rparr>) q)"
    if "keys_of S b" "cas_files (pb_blobs w) \<subseteq>\<^sub>m cas_files b" "ok s"
      "\<And>q j. stored (pb_catalog w) q j \<Longrightarrow> stored s q j" for b s
    using that assms(1) both_files_grow by (auto simp: publisher_inv_def published_def)
  have k0: "keys_of S (pb_blobs w)" "ok (pb_catalog w)" using assms(1) by (auto simp: publisher_inv_def)
  show ?thesis
  proof (cases "opened (open_data source c)")
    case (Inl e)
    then show ?thesis using assms(1) by (simp add: publish_recording_steps)
  next
    case xs: (Inr xs)
    obtain r b where b: "put_data stamp xs c ?key (pb_blobs w) = (r, b)" by (cases "put_data stamp xs c ?key (pb_blobs w)")
    have kb: "keys_of S b" "cas_files (pb_blobs w) \<subseteq>\<^sub>m cas_files b"
      using keys_of_put(1) [OF k0(1) assms(2), of stamp xs] puts_grow(1) [of "pb_blobs w" stamp xs c ?key] b by simp_all
    show ?thesis
    proof (cases "is_ok r \<and> is_ok (opened (open_metadata source c))")
      case False
      then show ?thesis using blobs [OF kb] xs b
        by (auto simp: publish_recording_steps is_ok_def split: sum.splits)
    next
      case True
      then obtain data ys where d: "r = Inr data" "opened (open_metadata source c) = Inr ys"
        by (auto simp: is_ok_def split: sum.splits)
      obtain r' b' where b': "put_metadata stamp' ys c ?key b = (r', b')" by (cases "put_metadata stamp' ys c ?key b")
      have kb': "keys_of S b'" "cas_files b \<subseteq>\<^sub>m cas_files b'"
        using keys_of_put(2) [OF kb(1) assms(2), of stamp' ys] puts_grow(2) [of b stamp' ys c ?key] b' by simp_all
      have g: "cas_files (pb_blobs w) \<subseteq>\<^sub>m cas_files b'" using map_le_trans kb(2) kb'(2) by blast
      show ?thesis
      proof (cases "is_ok r' \<and> recording_object_ref_post_init (pair_of c) = Inr ()")
        case False
        then show ?thesis using blobs [OF kb'(1) g] xs b d b'
          by (auto simp: publish_recording_steps is_ok_def split: sum.splits)
      next
        case ok': True
        have st: "storable (pair_of c)" using ok' assms(3) by blast
        obtain r'' s where s: "publish_op (pair_of c) ?key (pb_catalog w) = (r'', s)"
          by (cases "publish_op (pair_of c) ?key (pb_catalog w)")
        have "ok s" "\<And>q j. stored (pb_catalog w) q j \<Longrightarrow> stored s q j"
          using keeps_ok [OF k0(2) st, of ?key] keeps_stored [OF k0(2) st, of _ _ ?key] s by simp_all
        from whole [OF kb'(1) g this] ok' xs b d b' s show ?thesis
          by (auto simp: publish_recording_steps is_ok_def split: sum.splits)
      qed
    qed
  qed
qed

lemma publish_publishes:
  assumes "publisher_inv S w" and "c \<in> S"
    and "recording_object_ref_post_init (pair_of c) = Inr () \<Longrightarrow> storable (pair_of c)"
    and "publish_recording publish_op source stamp stamp' c (publication_idempotency_key c) w = (Inr p, u)"
  shows "p = \<lparr>recording_object = pair_of c\<rparr> \<and> published u c"
proof -
  let ?key = "publication_idempotency_key c"
  from assms(4) obtain xs data b ys meta b' s where r:
      "put_data stamp xs c ?key (pb_blobs w) = (Inr data, b)"
      "put_metadata stamp' ys c ?key b = (Inr meta, b')"
      "recording_object_ref_post_init (pair_of c) = Inr ()"
      "publish_op (pair_of c) ?key (pb_catalog w) = (Inr p, s)"
      "u = w\<lparr>pb_blobs := b', pb_catalog := s\<rparr>"
    unfolding publish_recording_steps by (auto split: sum.splits prod.splits)
  have "ok (pb_catalog w)" using assms(1) by (simp add: publisher_inv_def)
  from publishes_stored [OF this assms(3) [OF r(3)] r(4)]
  have p: "recording_object p = pair_of c" "stored s (pair_of c) ?key" by auto
  have "file_at b (lo_digest (co_data c)) (lo_bytes (co_data c))" using put_file_at r(1) by (simp add: put_data_def)
  then have "file_at b' (lo_digest (co_data c)) (lo_bytes (co_data c))"
    using file_at_grow puts_grow(2) [of b stamp' ys c ?key] r(2) by simp
  moreover have "file_at b' (lo_digest (co_metadata c)) (lo_bytes (co_metadata c))"
    using put_file_at r(2) by (simp add: put_metadata_def)
  ultimately show ?thesis using p r(3,5) by (simp add: published_def both_files_def published_eta)
qed

lemma publish_repeats:
  assumes "publisher_inv S w" and "one_each S" and "c \<in> S" and "published w c" and "source_good source c"
    and "object_ref_post_init (data_ref c) = Inr ()" and "object_ref_post_init (metadata_ref c) = Inr ()"
  shows "\<exists>u. publish_recording publish_op source stamp stamp' c (publication_idempotency_key c) w
      = (Inr \<lparr>recording_object = pair_of c\<rparr>, u)
    \<and> cas_files (pb_blobs u) = cas_files (pb_blobs w) \<and> pb_catalog u = pb_catalog w"
proof -
  let ?key = "publication_idempotency_key c"
  have inv: "ok (pb_catalog w)" "keys_of S (pb_blobs w)" using assms(1) by (auto simp: publisher_inv_def)
  have pub: "stored (pb_catalog w) (pair_of c) ?key" "both_files (pb_blobs w) c"
      "recording_object_ref_post_init (pair_of c) = Inr ()"
    using assms(4) by (auto simp: published_def)
  obtain xs a ys b where src: "open_data source c = Reply xs" "receive (lo_bytes (co_data c)) [] xs = Inr a"
      "digest_sha256 a = lo_digest (co_data c)" "int (length a) = lo_bytes (co_data c)"
      "open_metadata source c = Reply ys" "receive (lo_bytes (co_metadata c)) [] ys = Inr b"
      "digest_sha256 b = lo_digest (co_metadata c)" "int (length b) = lo_bytes (co_metadata c)"
    using assms(5) by (auto simp: source_good_def)
  obtain t where t: "put_data stamp xs c ?key (pb_blobs w) = (Inr (data_ref c), t)" "cas_files t = cas_files (pb_blobs w)"
    using put_again [OF _ not_taken(1) [OF assms(2) inv(2) assms(3)] _ src(2-4), where stamp = stamp
        and media = "''application/octet-stream''" and fmt = "''leo-recording-data-v1''"] pub(2) assms(6)
    by (auto simp: put_data_def data_ref_def both_files_def)
  have kt: "keys_of S t" using keys_of_put(1) [OF inv(2) assms(3), of stamp xs] t(1) by simp
  have "file_at t (lo_digest (co_metadata c)) (lo_bytes (co_metadata c))"
    using pub(2) t(2) by (simp add: both_files_def file_at_def)
  from put_again [OF this not_taken(2) [OF assms(2) kt assms(3)] _ src(6-8), where stamp = stamp'
        and media = "''application/json''" and fmt = "''leo-recording-metadata-v1''"] assms(7)
  obtain v where v: "put_metadata stamp' ys c ?key t = (Inr (metadata_ref c), v)" "cas_files v = cas_files t"
    by (auto simp: put_metadata_def metadata_ref_def)
  show ?thesis
    using src(1,5) t v pub(3) stored_again [OF inv(1) pub(1)] by (simp add: publish_recording_steps)
qed

lemma run_keeps:
  assumes "publisher_inv S w" and "\<forall>op \<in> set ops. recordings_in op \<subseteq> S"
    and "\<And>c. c \<in> S \<Longrightarrow> recording_object_ref_post_init (pair_of c) = Inr () \<Longrightarrow> storable (pair_of c)"
  shows "publisher_inv S (publisher_run publish_op ops w) \<and> (published w q \<longrightarrow> published (publisher_run publish_op ops w) q)"
  using assms(1,2)
proof (induction ops arbitrary: w)
  case (Cons op ops)
  have "publisher_inv S (publisher_do publish_op op w) \<and> (published w q \<longrightarrow> published (publisher_do publish_op op w) q)"
  proof (cases op)
    case (Publish source stamp stamp' c)
    then have "c \<in> S" using Cons.prems(2) by simp
    from publish_keeps [OF Cons.prems(1) this assms(3) [OF this]] Publish show ?thesis by simp
  next
    case New_Process
    then show ?thesis
      using Cons.prems(1) by (auto simp: publisher_inv_def published_def keys_of_def both_files_def file_at_def)
  qed
  with Cons.IH [of "publisher_do publish_op op w"] Cons.prems(2) show ?case by (auto simp: publisher_run_def)
qed (simp add: publisher_run_def)

end

lemma built_refs:
  assumes "built_completed c"
  shows "object_ref_post_init (data_ref c) = Inr ()" "object_ref_post_init (metadata_ref c) = Inr ()"
    "recording_object_ref_post_init (pair_of c) = Inr () \<Longrightarrow> built_pair (pair_of c)"
proof -
  have t: "is_token ''leo-recording-data-v1''" "is_token ''leo-recording-metadata-v1''" by code_simp+
  have l: "0 < lo_bytes (co_data c)" "0 < lo_bytes (co_metadata c)"
      "built_digest (lo_digest (co_data c))" "built_digest (lo_digest (co_metadata c))"
    using assms
    by (auto simp: built_completed_def built_local_object_def local_object_post_init_def require_positive_def
        split: if_splits)
  show r: "object_ref_post_init (data_ref c) = Inr ()" "object_ref_post_init (metadata_ref c) = Inr ()"
    using l t by (simp_all add: object_ref_post_init_def data_ref_def metadata_ref_def require_nonnegative_def
        require_token_def cas_locator_def)
  show "built_pair (pair_of c)" if "recording_object_ref_post_init (pair_of c) = Inr ()"
    using that r l built_completed_id [OF assms] built_completed_digest [OF assms]
    by (simp add: built_pair_def pair_of_def built_object_def) (simp add: data_ref_def metadata_ref_def)
qed

definition empty_publishing :: "catalog_tables publishing" where
  "empty_publishing = \<lparr>pb_blobs = empty_store, pb_catalog = \<lparr>ct_objects = [], ct_claimed = [], ct_recordings = []\<rparr>\<rparr>"

text \<open>
  C12. A publication is durable and can be repeated. Over the blob store and the PostgreSQL
  catalog, after any history of publications (with sources that give anything, raise or end the
  process) and new processes: if the publication of a recording returns, it returns a remote
  object that matches the recording; after any further history the catalog still shows it, both
  its objects can be read back with their digests and lengths, and publishing the recording
  again, as the reconciler does when it died before the acknowledgement, returns the same and
  changes neither the files nor the catalog.
\<close>

theorem published_recording_stays:
  assumes "one_each S" and "\<forall>op \<in> set (Publish source stamp stamp' c # ops @ later). recordings_in op \<subseteq> S"
    and "w = publisher_run catalog_publish ops empty_publishing"
    and "publish_recording catalog_publish source stamp stamp' c (publication_idempotency_key c) w = (Inr p, t)"
    and "u = publisher_run catalog_publish later t"
  shows "remote_matches c p
    \<and> catalog_get (co_recording_id c) (pb_catalog u) = Inr (Some p)
    \<and> (\<exists>a b. fst (blob_read id id (data_object (recording_object p)) None (pb_blobs u)) = Inr a
         \<and> digest_sha256 a = lo_digest (co_data c) \<and> int (length a) = lo_bytes (co_data c)
         \<and> fst (blob_read id id (metadata_object (recording_object p)) None (pb_blobs u)) = Inr b
         \<and> digest_sha256 b = lo_digest (co_metadata c) \<and> int (length b) = lo_bytes (co_metadata c))
    \<and> (\<forall>source'. source_good source' c \<longrightarrow>
         (\<exists>v. publish_recording catalog_publish source' n n' c (publication_idempotency_key c) u = (Inr p, v)
            \<and> cas_files (pb_blobs v) = cas_files (pb_blobs u) \<and> pb_catalog v = pb_catalog u))"
proof -
  have c: "c \<in> S" using assms(2) by simp
  have built: "built_completed d" if "d \<in> S" for d using assms(1) that by (simp add: one_each_def)
  have storable: "recording_object_ref_post_init (pair_of d) = Inr () \<Longrightarrow> built_pair (pair_of d)" if "d \<in> S" for d
    using built_refs(3) [OF built [OF that]] .
  have "postgres.publisher_inv S empty_publishing"
    by (simp add: postgres.publisher_inv_def empty_publishing_def catalog_ok_def keys_of_def empty_store_def)
  then have w: "postgres.publisher_inv S w"
    using postgres.run_keeps [of S empty_publishing ops] storable assms(2,3) by auto
  from postgres.publish_publishes [OF w c storable [OF c] assms(4)]
  have p: "p = \<lparr>recording_object = pair_of c\<rparr>" "postgres.published t c" by auto
  have "postgres.publisher_inv S t"
    using postgres.publish_keeps [OF w c storable [OF c], of source stamp stamp'] assms(4) by simp
  then have u: "postgres.publisher_inv S u" "postgres.published u c"
    using postgres.run_keeps [of S t later c] storable assms(2,5) p(2) by auto
  have "catalog_get (co_recording_id c) (pb_catalog u) = Inr (Some p)"
    using u p(1) get_stored [of "pb_catalog u" "pair_of c"] by (auto simp: postgres.published_def pair_of_def)
  moreover obtain f g where fg: "cas_files (pb_blobs u) (dvalue (lo_digest (co_data c))) = Some f"
      "file_is (lo_digest (co_data c)) (lo_bytes (co_data c)) f"
      "cas_files (pb_blobs u) (dvalue (lo_digest (co_metadata c))) = Some g"
      "file_is (lo_digest (co_metadata c)) (lo_bytes (co_metadata c)) g"
    using u(2) by (auto simp: postgres.published_def both_files_def file_at_def)
  have "fst (blob_read id id (data_ref c) None (pb_blobs u)) = Inr (sf_bytes f)"
    "fst (blob_read id id (metadata_ref c) None (pb_blobs u)) = Inr (sf_bytes g)"
    using fg by (intro read_stored; simp add: data_ref_def metadata_ref_def)+
  then have "\<exists>a b. fst (blob_read id id (data_object (recording_object p)) None (pb_blobs u)) = Inr a
      \<and> digest_sha256 a = lo_digest (co_data c) \<and> int (length a) = lo_bytes (co_data c)
      \<and> fst (blob_read id id (metadata_object (recording_object p)) None (pb_blobs u)) = Inr b
      \<and> digest_sha256 b = lo_digest (co_metadata c) \<and> int (length b) = lo_bytes (co_metadata c)"
    using fg(2,4) p(1) by (auto simp: pair_of_def file_is_digest)
  moreover have "\<forall>source'. source_good source' c \<longrightarrow>
      (\<exists>v. publish_recording catalog_publish source' n n' c (publication_idempotency_key c) u = (Inr p, v)
         \<and> cas_files (pb_blobs v) = cas_files (pb_blobs u) \<and> pb_catalog v = pb_catalog u)"
    using postgres.publish_repeats [OF u(1) assms(1) c u(2) _ built_refs(1,2) [OF built [OF c]], of _ n n'] p(1) by simp
  moreover have "remote_matches c p" using pair_matches p(1) by simp
  ultimately show ?thesis by blast
qed

text \<open>The recording of the spool's example with real bytes, published, and again by a new process.\<close>

definition demo_stored :: completed_recording where
  "demo_stored = demo_recording
     \<lparr>co_data := \<lparr>lo_locator = ''a'', lo_digest = digest_sha256 ''iq'', lo_bytes = 2\<rparr>,
      co_metadata := \<lparr>lo_locator = ''b'', lo_digest = digest_sha256 ''{}'', lo_bytes = 2\<rparr>\<rparr>"

definition demo_source :: local_source where
  "demo_source = \<lparr>open_data = (\<lambda>c. Reply [''i'', ''q'']), open_metadata = (\<lambda>c. Reply [''{}''])\<rparr>"

lemma demo_digests_differ: "digest_sha256 ''iq'' \<noteq> digest_sha256 ''{}''"
  by code_simp

lemma demo_stored_built: "built_completed demo_stored" "recording_object_ref_post_init (pair_of demo_stored) = Inr ()"
proof -
  have "built_digest (digest_sha256 x)" for x using digest_sha256_valid by (simp add: built_digest_def)
  then show "built_completed demo_stored"
    using demo_recording_built demo_digests_differ
    by (simp add: built_completed_def demo_stored_def completed_recording_post_init_def built_local_object_def
        local_object_post_init_def require_positive_def)
  show "recording_object_ref_post_init (pair_of demo_stored) = Inr ()"
    using demo_digests_differ
    by (simp add: recording_object_ref_post_init_def pair_of_def data_ref_def metadata_ref_def demo_stored_def)
qed

lemma demo_source_good: "source_good demo_source demo_stored"
  by (simp add: source_good_def demo_source_def demo_stored_def)

lemma demo_published_once:
  "\<exists>t. publish_recording catalog_publish demo_source 1 2 demo_stored (publication_idempotency_key demo_stored) empty_publishing
     = (Inr \<lparr>recording_object = pair_of demo_stored\<rparr>, t)"
proof -
  let ?key = "publication_idempotency_key demo_stored"
  have refs: "object_ref_post_init (data_ref demo_stored) = Inr ()" "object_ref_post_init (metadata_ref demo_stored) = Inr ()"
    using built_refs demo_stored_built(1) by auto
  have v: "dvalue (digest_sha256 ''{}'') \<noteq> dvalue (digest_sha256 ''iq'')"
    using demo_digests_differ by (simp add: digest_sha256_def)
  obtain b where b: "put_data 1 [''i'', ''q''] demo_stored ?key empty_store = (Inr (data_ref demo_stored), b)"
      "cas_files b = [dvalue (digest_sha256 ''iq'') \<mapsto> \<lparr>sf_bytes = ''iq'', sf_stamp = 1\<rparr>]"
      "cas_keys b = [?key @ '':data'' \<mapsto> (digest_sha256 ''iq'', 2)]"
    using refs(1)
    by (simp add: put_data_def blob_put_def link_blob_def empty_store_def key_taken_def Let_def data_ref_def
        demo_stored_def checked_def embed_exn_def)
  obtain b' where b': "put_metadata 2 [''{}''] demo_stored ?key b = (Inr (metadata_ref demo_stored), b')"
    using refs(2) v b(2,3)
    by (simp add: put_metadata_def blob_put_def link_blob_def key_taken_def Let_def metadata_ref_def
        demo_stored_def checked_def embed_exn_def)
  have "\<exists>u. catalog_publish (pair_of demo_stored) ?key \<lparr>ct_objects = [], ct_claimed = [], ct_recordings = []\<rparr>
      = (Inr \<lparr>recording_object = pair_of demo_stored\<rparr>, u)"
    using v
    by (simp add: catalog_publish_def publish_statements_def register_object_def register_live_object_blob_def
        bind_io_def Let_def live_row_def same_blob_def pair_of_def data_ref_def metadata_ref_def demo_stored_def
        cas_locator_def)
  then show ?thesis
    using b(1) b' demo_stored_built(2)
    by (auto simp: publish_recording_steps demo_source_def empty_publishing_def)
qed

theorem published_recording_stays_witness:
  "\<exists>t v. publish_recording catalog_publish demo_source 1 2 demo_stored (publication_idempotency_key demo_stored) empty_publishing
       = (Inr \<lparr>recording_object = pair_of demo_stored\<rparr>, t)
     \<and> publish_recording catalog_publish demo_source 3 4 demo_stored (publication_idempotency_key demo_stored)
         (publisher_run catalog_publish [New_Process] t) = (Inr \<lparr>recording_object = pair_of demo_stored\<rparr>, v)"
proof -
  obtain t where t: "publish_recording catalog_publish demo_source 1 2 demo_stored (publication_idempotency_key demo_stored)
      empty_publishing = (Inr \<lparr>recording_object = pair_of demo_stored\<rparr>, t)"
    using demo_published_once by blast
  have "one_each {demo_stored}" using demo_stored_built(1) by (simp add: one_each_def)
  from published_recording_stays [OF this _ _ t refl, of "[]" "[New_Process]" 3 4] t demo_source_good
  show ?thesis by (auto simp: publisher_run_def)
qed

end
