(* ===== verification/Engine.thy ===== *)
theory Engine
  imports Continuity Publication
begin

section \<open>The capture engine\<close>

text \<open>
  \<open>capture/engine.py\<close>: \<open>PlanCaptureEngine.execute\<close> carries out a capture plan segment by segment,
  between a radio, the writer of a recording and the spool. Radio and writer are code of other
  modules: their answers to a call may depend on all calls before it, and are a value, an
  exception with its class name and text, or the end of the process. The world of a capture is
  the table of the spool, the calls made so far and the number of clock readings and of calls of
  the spool; before each call of the spool other users of it may have acted. A radio that is
  handed an exception by the callback it writes through lets it pass; \<open>delay\<close> only waits.
\<close>

record capture_identity =
  ci_station :: string
  ci_serial :: string
  ci_clock_status :: string
  ci_hardware :: string
  ci_producer :: string

definition capture_identity_post_init :: "capture_identity \<Rightarrow> (string, unit) result" where
  "capture_identity_post_init c =
     raise_first
       [(ci_serial c = [] \<or> ci_clock_status c = [] \<or> ci_producer c = [],
           ValueError ''capture identity strings cannot be empty'')]"

datatype engine_call =
    Begin string capture_plan string string
  | Acquire segment_request
  | Append_Iq string string
  | Append_Refill string string refill
  | Record_Continuity string segment_continuity
  | Finish_Segment segment_manifest
  | Finalize recording_manifest
  | Abort string

text \<open>
  What a radio hands over in one acquisition: buffers, each with the metadata a metadata-aware
  radio has for it.
\<close>

type_synonym buffers = "(string \<times> refill option) list"

text \<open>
  \<open>metadata_of\<close> is \<open>None\<close> for a radio without \<open>acquire_segment_with_metadata\<close>. \<open>explain\<close> is the text
  of an exception of the contracts, which their models identify by its check.
\<close>

record engine_env =
  identity :: capture_identity
  explain :: "capture_error + continuity_error \<Rightarrow> string"
  radio_of :: string
  metadata_of :: "(continuity_policy \<times> capture_provenance) option"
  radio_acquires :: "engine_call list \<Rightarrow> segment_request \<Rightarrow> buffers \<times> segment_manifest reply"
  writer_begins :: "engine_call list \<Rightarrow> string reply"
  continuity_aware :: bool
  writer_answers :: "engine_call list \<Rightarrow> unit reply"
  writer_finalizes :: "engine_call list \<Rightarrow> completed_recording reply"
  utc_clock :: "nat \<Rightarrow> int"
  recording_root :: string
  spool_clock :: "nat \<Rightarrow> int"
  spool_draws :: "nat \<Rightarrow> string \<times> int"
  spool_users :: "nat \<Rightarrow> spool_op list"

record engine_world =
  ew_table :: spool_table
  ew_log :: "engine_call list"
  ew_reads :: nat
  ew_spooled :: nat

type_synonym 'a engine_io = "(engine_world, pub_exn, 'a) io"

subsection \<open>Calls\<close>

definition now_utc :: "engine_env \<Rightarrow> int engine_io" where
  "now_utc env w = (Inr (utc_clock env (ew_reads w)), w\<lparr>ew_reads := ew_reads w + 1\<rparr>)"

definition fails :: "string \<Rightarrow> string \<Rightarrow> 'a engine_io" where
  "fails name msg = lift (Inl (Named name msg))"

definition call_writer :: "engine_env \<Rightarrow> engine_call \<Rightarrow> unit engine_io" where
  "call_writer env c w =
     (let log = ew_log w @ [c] in (answer (writer_answers env log), w\<lparr>ew_log := log\<rparr>))"

definition spooled :: "engine_env \<Rightarrow> (int \<Rightarrow> 'a spool_io) \<Rightarrow> 'a engine_io" where
  "spooled env m w =
     (let k = ew_spooled w;
          (r, t) = m (spool_clock env k) (spool_run (recording_root env) (spool_users env k) (ew_table w))
      in (map_sum Spool_Raised id r, w\<lparr>ew_table := t, ew_spooled := k + 1\<rparr>))"

fun class_of :: "'e exn \<Rightarrow> string" where
  "class_of (ValueError e) = ''ValueError''"
| "class_of (TypeError e) = ''TypeError''"
| "class_of (RuntimeError e) = ''RuntimeError''"
| "class_of (KeyError e) = ''KeyError''"
| "class_of (IndexError e) = ''IndexError''"
| "class_of (SystemExit e) = ''SystemExit''"
| "class_of (AssertionError e) = ''AssertionError''"
| "class_of (StopIteration e) = ''StopIteration''"

fun check_of :: "'e exn \<Rightarrow> 'e" where
  "check_of (ValueError e) = e"
| "check_of (TypeError e) = e"
| "check_of (RuntimeError e) = e"
| "check_of (KeyError e) = e"
| "check_of (IndexError e) = e"
| "check_of (SystemExit e) = e"
| "check_of (AssertionError e) = e"
| "check_of (StopIteration e) = e"

definition contract :: "('e \<Rightarrow> string) \<Rightarrow> ('e, 'a) result \<Rightarrow> 'a engine_io" where
  "contract msg r = lift (map_sum (\<lambda>e. Named (class_of e) (msg (check_of e))) id r)"

text \<open>Python's \<open>==\<close> on values of one class: their documents up to \<open>True == 1 == 1.0\<close>.\<close>

fun py_value :: "json \<Rightarrow> json" where
  "py_value (JBool b) = JFloat (if b then 1 else 0)"
| "py_value (JInt n) = JFloat (of_int n)"
| "py_value (JList xs) = JList (map py_value xs)"
| "py_value (JObj kvs) = JObj (map (\<lambda>(k, v). (k, py_value v)) kvs)"
| "py_value v = v"

definition same_request :: "segment_request \<Rightarrow> segment_request \<Rightarrow> bool" where
  "same_request r q \<longleftrightarrow> py_value (json_segment_request r) = py_value (json_segment_request q)"

definition same_manifest :: "recording_manifest \<Rightarrow> recording_manifest \<Rightarrow> bool" where
  "same_manifest m n \<longleftrightarrow> py_value (json_manifest m) = py_value (json_manifest n)"

subsection \<open>One segment\<close>

definition wait_until :: "engine_env \<Rightarrow> int option \<Rightarrow> unit engine_io" where
  "wait_until env scheduled =
     (case scheduled of None \<Rightarrow> ret () | Some t \<Rightarrow> bind_io (now_utc env) (\<lambda>_. ret ()))"

text \<open>The callbacks \<open>write_ci16\<close> and \<open>write_refill\<close>.\<close>

fun write_call :: "string \<Rightarrow> string \<times> refill option \<Rightarrow> engine_call" where
  "write_call seg (data, None) = Append_Iq seg data"
| "write_call seg (data, Some meta) = Append_Refill seg data meta"

fun write_buffers :: "engine_env \<Rightarrow> string \<Rightarrow> buffers \<Rightarrow> unit engine_io" where
  "write_buffers env seg [] = ret ()"
| "write_buffers env seg (b # bs) = bind_io (call_writer env (write_call seg b)) (\<lambda>_. write_buffers env seg bs)"

definition acquire :: "engine_env \<Rightarrow> segment_request \<Rightarrow> (segment_manifest \<times> buffers) engine_io" where
  "acquire env req w =
     (let (bufs, rep) = radio_acquires env (ew_log w) req;
          bs = (if metadata_of env = None then map (\<lambda>(data, meta). (data, None)) bufs else bufs)
      in bind_io (write_buffers env (sq_id req) bs) (\<lambda>_. bind_io (lift (answer rep)) (\<lambda>seg. ret (seg, bs)))
           (w\<lparr>ew_log := ew_log w @ [Acquire req]\<rparr>))"

definition refills_of :: "buffers \<Rightarrow> refill list" where
  "refills_of bs = List.map_filter snd bs"

definition missing_metadata :: "buffers \<Rightarrow> nat" where
  "missing_metadata bs = length (filter (\<lambda>b. snd b = None) bs)"

definition record_checked ::
  "engine_env \<Rightarrow> continuity_policy \<Rightarrow> segment_request \<Rightarrow> segment_continuity \<Rightarrow> unit engine_io" where
  "record_checked env policy req cont =
     (if policy = REQUIRE_CONTIGUOUS \<and> sc_status cont \<noteq> VERIFIED_CONTIGUOUS
      then fails ''ContinuityError''
        ''contiguous IQ was required but a sample sequence gap or unavailable metadata prevented proof''
      else if policy = ALLOW_VERIFIED_GAPPED \<and> sc_status cont = UNVERIFIED
      then fails ''ContinuityError'' ''verified IQ was required but v5 metadata was unavailable''
      else call_writer env (Record_Continuity (sq_id req) cont))"

definition with_metadata ::
  "engine_env \<Rightarrow> continuity_policy \<Rightarrow> capture_provenance \<Rightarrow> segment_request \<Rightarrow> segment_manifest engine_io" where
  "with_metadata env policy prov req =
     (if \<not> continuity_aware env
      then fails ''ContinuityError'' ''metadata-aware radio requires a continuity-aware writer''
      else
        bind_io (acquire env req) (\<lambda>(seg, bs).
          if refills_of bs \<noteq> [] \<and> missing_metadata bs \<noteq> 0
          then fails ''ContinuityError'' ''segment mixed metadata-verified and unverified refills''
          else
            bind_io (contract (explain env \<circ> Inr) (from_refills (sq_chains req) prov (refills_of bs))) (\<lambda>cont.
            bind_io (record_checked env policy req cont) (\<lambda>_. ret seg))))"

definition capture_segment :: "engine_env \<Rightarrow> segment_request \<Rightarrow> segment_manifest engine_io" where
  "capture_segment env req =
     bind_io (wait_until env (scheduled_utc_ns req)) (\<lambda>_.
     bind_io
       (case metadata_of env of
          None \<Rightarrow> bind_io (acquire env req) (\<lambda>(seg, bs). ret seg)
        | Some (policy, prov) \<Rightarrow> with_metadata env policy prov req)
       (\<lambda>seg.
          if \<not> same_request (sm_requested seg) req
          then fails ''RadioConfigurationError'' ''radio returned a manifest for different requested settings''
          else bind_io (call_writer env (Finish_Segment seg)) (\<lambda>_. ret seg)))"

subsection \<open>A whole plan\<close>

fun capture_segments :: "engine_env \<Rightarrow> segment_request list \<Rightarrow> segment_manifest list engine_io" where
  "capture_segments env [] = ret []"
| "capture_segments env (r # rs) =
     bind_io (capture_segment env r) (\<lambda>s. bind_io (capture_segments env rs) (\<lambda>ss. ret (s # ss)))"

definition capture_activity ::
  "engine_env \<Rightarrow> int \<Rightarrow> activity_request \<Rightarrow> (activity_manifest \<times> segment_manifest list) engine_io" where
  "capture_activity env prior a =
     bind_io (now_utc env) (\<lambda>n.
     let started = max n prior in
     bind_io (capture_segments env (aq_segments a)) (\<lambda>segs.
     bind_io (now_utc env) (\<lambda>n.
     let finished = max n (started + 1) in
     bind_io (contract (explain env \<circ> Inl) (checked activity_manifest_post_init
         \<lparr>am_id = aq_id a, am_kind = aq_kind a, am_started = started, am_finished = finished,
          am_segment_ids = map sm_id segs\<rparr>)) (\<lambda>m. ret (m, segs)))))"

fun capture_activities ::
  "engine_env \<Rightarrow> int \<Rightarrow> activity_request list \<Rightarrow> (activity_manifest list \<times> segment_manifest list) engine_io" where
  "capture_activities env prior [] = ret ([], [])"
| "capture_activities env prior (a # as) =
     bind_io (capture_activity env prior a) (\<lambda>(m, segs).
     bind_io (capture_activities env (am_finished m) as) (\<lambda>(ms, more). ret (m # ms, segs @ more)))"

definition last_finished :: "int \<Rightarrow> activity_manifest list \<Rightarrow> int" where
  "last_finished started ms = (if ms = [] then started else am_finished (last ms))"

definition engine_manifest ::
  "engine_env \<Rightarrow> capture_plan \<Rightarrow> string \<Rightarrow> int \<Rightarrow> int \<Rightarrow> int \<Rightarrow> activity_manifest list \<Rightarrow> segment_manifest list
     \<Rightarrow> recording_manifest" where
  "engine_manifest env plan i created started finished acts segs =
     \<lparr>rm_schema = schema_v0_1 ''org.leo-flow.recording-manifest'', rm_recording_id = i, rm_created = created,
      rm_started = started, rm_finished = finished, rm_station = ci_station (identity env),
      rm_radio = cp_radio plan, rm_serial = ci_serial (identity env), rm_chains = cp_chains plan,
      rm_clock_status = ci_clock_status (identity env), rm_hardware = ci_hardware (identity env),
      rm_activities = acts, rm_segments = segs, rm_plan_id = cp_id plan, rm_producer = ci_producer (identity env),
      rm_tags = cp_tags plan, rm_dtype = ''<i2'', rm_layout = [''sample'', ''receiver'', ''component''],
      rm_state = ''complete''\<rparr>"

definition finalize :: "engine_env \<Rightarrow> recording_manifest \<Rightarrow> completed_recording engine_io" where
  "finalize env m w =
     (let log = ew_log w @ [Finalize m] in (answer (writer_finalizes env log), w\<lparr>ew_log := log\<rparr>))"

text \<open>The \<open>try\<close> block once the writer has opened a session.\<close>

definition capture_session :: "engine_env \<Rightarrow> capture_plan \<Rightarrow> int \<Rightarrow> string \<Rightarrow> string \<Rightarrow> completed_recording engine_io" where
  "capture_session env plan created i session_id =
     (if session_id \<noteq> i
      then fails ''WriterIdentityError'' ''writer session ID differs from the local spool allocation''
      else
        bind_io (now_utc env) (\<lambda>started.
        bind_io (capture_activities env started (cp_activities plan)) (\<lambda>(acts, segs).
        bind_io (now_utc env) (\<lambda>n.
        let finished = max n (max (started + 1) (last_finished started acts)) in
        bind_io (contract (explain env \<circ> Inl) (checked recording_manifest_post_init
            (engine_manifest env plan i created started finished acts segs))) (\<lambda>m.
        bind_io (finalize env m) (\<lambda>c.
          if co_recording_id c \<noteq> i \<or> \<not> same_manifest (co_manifest c) m
          then fails ''WriterIdentityError'' ''writer changed recording identity or manifest''
          else if co_manifest_digest c \<noteq> canonical_digest (json_manifest m)
          then fails ''WriterIdentityError'' ''writer returned the wrong manifest digest''
          else bind_io (spooled env (record_complete c)) (\<lambda>_. ret c)))))))"

text \<open>The handler: \<open>session\<close> says whether there is one to abort.\<close>

definition capture_failed :: "engine_env \<Rightarrow> bool \<Rightarrow> string \<Rightarrow> pub_exn \<Rightarrow> 'a engine_io" where
  "capture_failed env session i e =
     (if e = Ended then lift (Inl e)
      else
        bind_io (if session then call_writer env (Abort (snd (error_parts e))) else ret ()) (\<lambda>_.
        bind_io (spooled env (record_failure i (fst (error_parts e) @ '': '' @ snd (error_parts e)))) (\<lambda>_.
          lift (Inl e))))"

definition begin_session :: "engine_env \<Rightarrow> engine_call \<Rightarrow> string engine_io" where
  "begin_session env c w =
     (let log = ew_log w @ [c] in (answer (writer_begins env log), w\<lparr>ew_log := log\<rparr>))"

definition capture_allocated :: "engine_env \<Rightarrow> capture_plan \<Rightarrow> int \<Rightarrow> string \<times> string \<Rightarrow> completed_recording engine_io" where
  "capture_allocated env plan created = (\<lambda>(i, destination) w.
     case begin_session env (Begin i plan (ci_hardware (identity env)) destination) w of
       (Inl e, v) \<Rightarrow> capture_failed env False i e v
     | (Inr s, v) \<Rightarrow>
         (case capture_session env plan created i s v of
            (Inl e, u) \<Rightarrow> capture_failed env True i e u
          | (Inr c, u) \<Rightarrow> (Inr c, u)))"

definition execute :: "engine_env \<Rightarrow> capture_plan \<Rightarrow> completed_recording engine_io" where
  "execute env plan =
     (if radio_of env \<noteq> cp_radio plan
      then fails ''RadioConfigurationError'' ''plan and attached radio IDs differ''
      else
        bind_io (now_utc env) (\<lambda>created.
        bind_io (spooled env (\<lambda>_. spool_allocate (recording_root env) (cp_id plan) (spool_draws env))) (\<lambda>(i, d).
          capture_allocated env plan created (i, d))))"


subsection \<open>What the calls do\<close>

lemma fails_Inr: "fails n m w = (Inr b, v) \<longleftrightarrow> False"
  by (simp add: fails_def lift_Inr)

lemma contract_Inr: "contract msg r w = (Inr b, v) \<longleftrightarrow> r = Inr b \<and> v = w"
  by (cases r) (auto simp: contract_def lift_Inr)

lemma answer_Inr: "answer r = Inr a \<longleftrightarrow> r = Reply a"
  by (cases r) auto

lemmas returns = io_returns fails_Inr contract_Inr answer_Inr

text \<open>Everything but a call of the spool leaves the table alone and only adds calls.\<close>

definition quiet :: "engine_world \<Rightarrow> engine_world \<Rightarrow> bool" where
  "quiet w v \<longleftrightarrow> ew_table v = ew_table w \<and> ew_spooled v = ew_spooled w \<and> (\<exists>calls. ew_log v = ew_log w @ calls)"

lemma quiet_refl [simp]: "quiet w w"
  by (simp add: quiet_def)

lemma quiet_trans: "quiet w u \<Longrightarrow> quiet u v \<Longrightarrow> quiet w v"
  by (auto simp: quiet_def)

interpretation engine: io_frame quiet
  by unfold_locales (auto intro: quiet_trans)

named_theorems quiet_intros

lemmas engine_framed [quiet_intros] = engine.framed_basic

lemma quietly_basic [quiet_intros]:
  "engine.framed (fails n msg)" "engine.framed (contract f r')" "engine.framed (now_utc env)"
  "engine.framed (call_writer env c)" "engine.framed (finalize env m)" "engine.framed (begin_session env c)"
  by (simp_all add: engine.framed_def quiet_def ret_def lift_def fails_def contract_def now_utc_def call_writer_def
      finalize_def begin_session_def Let_def split: sum.split)

lemma quietly_write [quiet_intros]: "engine.framed (write_buffers env seg bs)"
  by (induction bs) (auto intro: quiet_intros)

lemma quietly_acquire [quiet_intros]: "engine.framed (acquire env req)"
proof -
  have q: "engine.framed (bind_io (write_buffers env (sq_id req) bs) (\<lambda>_. bind_io (lift r) (\<lambda>seg. ret (seg, bs))))" for bs r
    by (intro quiet_intros)
  have "quiet w (snd (bind_io (write_buffers env (sq_id req) bs) (\<lambda>_. bind_io (lift r) (\<lambda>seg. ret (seg, bs)))
      (w\<lparr>ew_log := ew_log w @ [c]\<rparr>)))" for w bs r c
    using q [of bs r, unfolded engine.framed_def, rule_format, of "w\<lparr>ew_log := ew_log w @ [c]\<rparr>"]
    by (auto simp: quiet_def)
  then show ?thesis unfolding engine.framed_def acquire_def Let_def case_prod_unfold by blast
qed

lemma quietly_segment [quiet_intros]: "engine.framed (capture_segment env req)"
  unfolding capture_segment_def with_metadata_def record_checked_def wait_until_def
  by (auto intro!: quiet_intros split: option.split prod.split)

lemma quietly_segments [quiet_intros]: "engine.framed (capture_segments env rs)"
  by (induction rs) (auto intro: quiet_intros)

lemma quietly_activity [quiet_intros]: "engine.framed (capture_activity env prior a)"
  unfolding capture_activity_def Let_def by (intro quiet_intros)

lemma quietly_activities [quiet_intros]: "engine.framed (capture_activities env prior as)"
  by (induction as arbitrary: prior) (auto intro!: quiet_intros split: prod.split)

subsection \<open>What a returned segment is\<close>

text \<open>No sample is missing between two refills.\<close>

definition unbroken :: "refill list \<Rightarrow> bool" where
  "unbroken rs \<longleftrightarrow> (\<forall>i. Suc i < length rs \<longrightarrow> first_sample_sequence (rs ! Suc i) = sequence_end (rs ! i))"

text \<open>
  What a policy asks of the buffers of a segment: trusted metadata is for all of them and
  verifies, the stricter policies ask for it, the strictest for an unbroken sequence.
\<close>

fun buffers_meet :: "continuity_policy \<Rightarrow> buffers \<Rightarrow> bool" where
  "buffers_meet policy bs \<longleftrightarrow>
     (let rs = refills_of bs in
      (rs = [] \<or> verified_refills rs \<and> missing_metadata bs = 0)
      \<and> (policy \<noteq> ALLOW_UNVERIFIED \<longrightarrow> rs \<noteq> []) \<and> (policy = REQUIRE_CONTIGUOUS \<longrightarrow> unbroken rs))"

definition segment_done :: "engine_env \<Rightarrow> segment_request \<Rightarrow> segment_manifest \<times> engine_call list \<Rightarrow> bool" where
  "segment_done env req = (\<lambda>(seg, calls).
     sm_id seg = sq_id req \<and> same_request (sm_requested seg) req \<and>
     (\<exists>bs. case metadata_of env of
        None \<Rightarrow> (\<forall>b \<in> set bs. snd b = None) \<and> calls = Acquire req # map (write_call (sq_id req)) bs @ [Finish_Segment seg]
      | Some (policy, prov) \<Rightarrow>
          buffers_meet policy bs \<and>
          (\<exists>cont. segment_continuity_post_init cont = Inr () \<and> refills cont = refills_of bs
             \<and> sc_provenance cont = prov
             \<and> calls = Acquire req # map (write_call (sq_id req)) bs @ [Record_Continuity (sq_id req) cont, Finish_Segment seg])))"

text \<open>What exists: the ports answer with values their constructors accepted.\<close>

definition engine_ok :: "engine_env \<Rightarrow> bool" where
  "engine_ok env \<longleftrightarrow>
     (\<forall>log req. \<forall>r \<in> set (refills_of (fst (radio_acquires env log req))). valid_refill r)
     \<and> (\<forall>log req seg. snd (radio_acquires env log req) = Reply seg \<longrightarrow> segment_manifest_post_init seg = Inr ())
     \<and> (\<forall>log c. writer_finalizes env log = Reply c \<longrightarrow> built_completed c)
     \<and> (\<forall>n. valid_id RecordingId (fst (spool_draws env n))) \<and> (\<forall>n. \<forall>op \<in> set (spool_users env n). op_built op)"

lemma write_buffers_log:
  assumes "write_buffers env seg bs w = (Inr u, v)"
  shows "v = w\<lparr>ew_log := ew_log w @ map (write_call seg) bs\<rparr>"
  using assms
proof (induction bs arbitrary: w)
  case (Cons b bs)
  then have "write_buffers env seg bs (w\<lparr>ew_log := ew_log w @ [write_call seg b]\<rparr>) = (Inr u, v)"
    by (auto simp: returns call_writer_def Let_def)
  from Cons.IH [OF this] show ?case by simp
qed (simp add: returns)

lemma acquire_log:
  assumes "engine_ok env" and "acquire env req w = (Inr (seg, bs), v)"
  shows "ew_log v = ew_log w @ Acquire req # map (write_call (sq_id req)) bs"
    "segment_manifest_post_init seg = Inr ()" "\<forall>r \<in> set (refills_of bs). valid_refill r"
    "metadata_of env = None \<Longrightarrow> \<forall>b \<in> set bs. snd b = None"
proof -
  obtain bufs rep where r: "radio_acquires env (ew_log w) req = (bufs, rep)" by fastforce
  let ?bs = "if metadata_of env = None then map (\<lambda>(data, meta). (data, None)) bufs else bufs"
  have *: "bs = ?bs" "rep = Reply seg" "ew_log v = ew_log w @ Acquire req # map (write_call (sq_id req)) bs"
    using assms(2) r unfolding acquire_def Let_def
    by (auto simp: returns simp del: write_buffers.simps dest!: write_buffers_log)
  have "refills_of ?bs = (if metadata_of env = None then [] else refills_of bufs)"
    by (auto simp: refills_of_def List.map_filter_def filter_empty_conv)
  then show "\<forall>r \<in> set (refills_of bs). valid_refill r"
    using assms(1) r unfolding engine_ok_def * by (metis empty_iff empty_set fst_conv)
  show "segment_manifest_post_init seg = Inr ()" using assms(1) r * unfolding engine_ok_def by (metis snd_conv)
  show "metadata_of env = None \<Longrightarrow> \<forall>b \<in> set bs. snd b = None" using *(1) by auto
  show "ew_log v = ew_log w @ Acquire req # map (write_call (sq_id req)) bs" by (rule *(3))
qed

lemma same_request_id: "same_request r q \<Longrightarrow> sq_id r = sq_id q"
  by (simp add: same_request_def json_segment_request_def)

lemma from_refills_meets:
  assumes "from_refills chs prov rs = Inr cont" and "\<forall>r \<in> set rs. valid_refill r"
  shows "segment_continuity_post_init cont = Inr ()" "refills cont = rs" "sc_provenance cont = prov"
    "rs = [] \<or> verified_refills rs" "sc_status cont = UNVERIFIED \<longleftrightarrow> rs = []"
    "sc_status cont = VERIFIED_CONTIGUOUS \<Longrightarrow> unbroken rs"
proof -
  show p: "segment_continuity_post_init cont = Inr ()" "refills cont = rs" "sc_provenance cont = prov"
    "sc_status cont = UNVERIFIED \<longleftrightarrow> rs = []"
    using assms(1) by (auto simp: from_refills_def split: if_splits)
  show v: "rs = [] \<or> verified_refills rs"
    using assms by (auto simp: from_refills_def verified_refills_def split: if_splits)
  assume c: "sc_status cont = VERIFIED_CONTIGUOUS"
  then have "rs \<noteq> []" using p(4) by auto
  with v have r: "verified_refills rs" by simp
  have "gap_list rs = []" using assms(1) c \<open>rs \<noteq> []\<close> verified_refillsD(5) [OF r] by (auto simp: from_refills_def split: if_splits)
  then have "\<forall>j \<in> {1..<length rs}. \<not> jump (rs ! (j - 1)) (rs ! j)" by (auto simp: gap_list_def jumps_def filter_empty_conv)
  then have "\<not> jump (rs ! i) (rs ! Suc i)" if "Suc i < length rs" for i using that by force
  then show "unbroken rs" by (simp add: unbroken_def jump_def)
qed

lemma call_writer_Inr:
  "call_writer env c w = (Inr u, v) \<longleftrightarrow> writer_answers env (ew_log w @ [c]) = Reply () \<and> v = w\<lparr>ew_log := ew_log w @ [c]\<rparr>"
  by (auto simp: call_writer_def Let_def answer_Inr)

lemma with_metadata_returns:
  assumes "engine_ok env" and "metadata_of env = Some (policy, prov)"
    and "with_metadata env policy prov req w = (Inr seg, v)"
  shows "segment_manifest_post_init seg = Inr () \<and> (\<exists>bs cont. buffers_meet policy bs
    \<and> segment_continuity_post_init cont = Inr () \<and> refills cont = refills_of bs \<and> sc_provenance cont = prov
    \<and> ew_log v = ew_log w @ Acquire req # map (write_call (sq_id req)) bs @ [Record_Continuity (sq_id req) cont])"
proof -
  from assms(3) obtain bs u cont where a: "acquire env req w = (Inr (seg, bs), u)"
      "refills_of bs \<noteq> [] \<longrightarrow> missing_metadata bs = 0"
      "from_refills (sq_chains req) prov (refills_of bs) = Inr cont"
      "record_checked env policy req cont u = (Inr (), v)"
    unfolding with_metadata_def by (auto simp: returns split: if_splits)
  have c: "policy = REQUIRE_CONTIGUOUS \<longrightarrow> sc_status cont = VERIFIED_CONTIGUOUS"
      "policy = ALLOW_VERIFIED_GAPPED \<longrightarrow> sc_status cont \<noteq> UNVERIFIED"
      "ew_log v = ew_log u @ [Record_Continuity (sq_id req) cont]"
    using a(4) by (auto simp: record_checked_def call_writer_Inr fails_Inr split: if_splits)
  note l = acquire_log [OF assms(1) a(1)]
  note f = from_refills_meets [OF a(3) l(3)]
  have "buffers_meet policy bs"
    using a(2) c(1,2) f(4-6) by (cases policy) (auto simp: Let_def)
  with f(1-3) l(1,2) c(3) show ?thesis by (intro conjI exI [of _ bs] exI [of _ cont]) auto
qed

lemma capture_segment_returns:
  assumes "engine_ok env" and "capture_segment env req w = (Inr seg, v)"
  shows "\<exists>calls. ew_log v = ew_log w @ calls \<and> segment_done env req (seg, calls)"
proof -
  define act where "act = (case metadata_of env of
          None \<Rightarrow> bind_io (acquire env req) (\<lambda>(seg, bs). ret seg)
        | Some (policy, prov) \<Rightarrow> with_metadata env policy prov req)"
  from assms(2) obtain t u where w: "wait_until env (scheduled_utc_ns req) w = (Inr (), t)"
      "act t = (Inr seg, u)" "same_request (sm_requested seg) req" "ew_log v = ew_log u @ [Finish_Segment seg]"
    unfolding capture_segment_def act_def [symmetric] by (auto simp: returns call_writer_Inr split: if_splits)
  have t: "ew_log t = ew_log w"
    using w(1) by (auto simp: wait_until_def returns now_utc_def split: option.splits)
  have id: "sm_id seg = sq_id req" if "segment_manifest_post_init seg = Inr ()"
    using that same_request_id [OF w(3)] by (simp add: segment_manifest_post_init_def)
  show ?thesis
  proof (cases "metadata_of env")
    case None
    then obtain bs where a: "acquire env req t = (Inr (seg, bs), u)" using w(2) by (auto simp: act_def returns)
    note l = acquire_log [OF assms(1) a]
    have "segment_done env req (seg, Acquire req # map (write_call (sq_id req)) bs @ [Finish_Segment seg])"
      unfolding segment_done_def using None l(4) [OF None] id [OF l(2)] w(3) by auto
    then show ?thesis using l(1) w(4) t by auto
  next
    case (Some pp)
    obtain policy prov where pp: "pp = (policy, prov)" by (cases pp)
    with Some w(2) have "with_metadata env policy prov req t = (Inr seg, u)" by (simp add: act_def)
    from with_metadata_returns [OF assms(1) Some [unfolded pp] this] obtain bs cont where m:
        "segment_manifest_post_init seg = Inr ()" "buffers_meet policy bs"
        "segment_continuity_post_init cont = Inr ()" "refills cont = refills_of bs" "sc_provenance cont = prov"
        "ew_log u = ew_log t @ Acquire req # map (write_call (sq_id req)) bs @ [Record_Continuity (sq_id req) cont]"
      by blast
    have "segment_done env req (seg, Acquire req # map (write_call (sq_id req)) bs @
        [Record_Continuity (sq_id req) cont, Finish_Segment seg])"
      unfolding segment_done_def using Some pp m(2-5) id [OF m(1)] w(3) by auto
    then show ?thesis using m(6) w(4) t by auto
  qed
qed

lemma capture_segments_returns:
  assumes "engine_ok env" and "capture_segments env reqs w = (Inr segs, v)"
  shows "\<exists>parts. map fst parts = segs \<and> ew_log v = ew_log w @ concat (map snd parts)
    \<and> list_all2 (segment_done env) reqs parts"
  using assms(2)
proof (induction reqs arbitrary: segs w)
  case (Cons r rs)
  then obtain s ss u where u: "capture_segment env r w = (Inr s, u)" "capture_segments env rs u = (Inr ss, v)"
      "segs = s # ss"
    by (auto simp: returns)
  from capture_segment_returns [OF assms(1) u(1)] Cons.IH [OF u(2)] obtain calls parts where
    "ew_log u = ew_log w @ calls" "segment_done env r (s, calls)" "map fst parts = ss"
    "ew_log v = ew_log u @ concat (map snd parts)" "list_all2 (segment_done env) rs parts"
    by blast
  with u(3) show ?case by (intro exI [of _ "(s, calls) # parts"]) auto
qed (simp add: returns)

lemma parts_ids: "list_all2 (segment_done env) reqs parts \<Longrightarrow> map (sm_id \<circ> fst) parts = map sq_id reqs"
  by (induction rule: list_all2_induct) (auto simp: segment_done_def)

text \<open>The activities of a manifest report those of the plan, one after the other.\<close>

definition activity_done :: "activity_request \<Rightarrow> activity_manifest \<Rightarrow> bool" where
  "activity_done a m \<longleftrightarrow>
     am_id m = aq_id a \<and> am_kind m = aq_kind a \<and> am_segment_ids m = map sq_id (aq_segments a)
     \<and> am_started m < am_finished m"

fun one_after_other :: "int \<Rightarrow> activity_manifest list \<Rightarrow> bool" where
  "one_after_other t [] \<longleftrightarrow> True"
| "one_after_other t (m # ms) \<longleftrightarrow> t \<le> am_started m \<and> one_after_other (am_finished m) ms"

definition activity_report :: "activity_request \<Rightarrow> int \<Rightarrow> int \<Rightarrow> segment_manifest list \<Rightarrow> activity_manifest" where
  "activity_report a started n segs =
     \<lparr>am_id = aq_id a, am_kind = aq_kind a, am_started = started, am_finished = max n (started + 1),
      am_segment_ids = map sm_id segs\<rparr>"

lemma capture_activity_Inr:
  assumes "capture_activity env prior a w = (Inr (m, ss), u)"
  shows "\<exists>y. capture_segments env (aq_segments a) (w\<lparr>ew_reads := ew_reads w + 1\<rparr>) = (Inr ss, y)
    \<and> ew_log u = ew_log y
    \<and> m = activity_report a (max (utc_clock env (ew_reads w)) prior) (utc_clock env (ew_reads y)) ss"
  using assms unfolding capture_activity_def Let_def activity_report_def by (auto simp: returns now_utc_def)

lemma capture_activities_returns:
  assumes "engine_ok env" and "capture_activities env prior as w = (Inr (ms, segs), v)"
  shows "\<exists>parts. map fst parts = segs \<and> ew_log v = ew_log w @ concat (map snd parts)
    \<and> list_all2 (segment_done env) (concat (map aq_segments as)) parts
    \<and> list_all2 activity_done as ms \<and> one_after_other prior ms"
  using assms(2)
proof (induction "as" arbitrary: prior ms segs w)
  case (Cons a rest)
  then obtain m ss ms' more u where u: "capture_activity env prior a w = (Inr (m, ss), u)"
      "capture_activities env (am_finished m) rest u = (Inr (ms', more), v)" "ms = m # ms'" "segs = ss @ more"
    by (auto simp: returns)
  from capture_activity_Inr [OF u(1)] obtain y where y: "capture_segments env (aq_segments a) (w\<lparr>ew_reads := ew_reads w + 1\<rparr>) = (Inr ss, y)"
      "ew_log u = ew_log y" "m = activity_report a (max (utc_clock env (ew_reads w)) prior) (utc_clock env (ew_reads y)) ss"
    by blast
  define x where "x = w\<lparr>ew_reads := ew_reads w + 1\<rparr>"
  have x: "ew_log x = ew_log w" "capture_segments env (aq_segments a) x = (Inr ss, y)" "ew_log u = ew_log y"
    using y by (simp_all add: x_def)
  have time: "prior \<le> am_started m" "am_started m < am_finished m" by (auto simp: y(3) activity_report_def less_max_iff_disj)
  from capture_segments_returns [OF assms(1) x(2)] Cons.IH [OF u(2)] obtain p q where
    p: "map fst p = ss" "ew_log y = ew_log x @ concat (map snd p)" "list_all2 (segment_done env) (aq_segments a) p"
    and q: "map fst q = more" "ew_log v = ew_log u @ concat (map snd q)"
      "list_all2 (segment_done env) (concat (map aq_segments rest)) q" "list_all2 activity_done rest ms'"
      "one_after_other (am_finished m) ms'"
    by blast
  have "activity_done a m" using y(3) time(2) p(1) parts_ids [OF p(3)] by (auto simp: activity_done_def activity_report_def)
  moreover have "list_all2 (segment_done env) (concat (map aq_segments (a # rest))) (p @ q)"
    using p(3) q(3) by (simp add: list_all2_appendI)
  ultimately show ?case using u(3,4) x(1,3) time(1) p(1,2) q by (intro exI [of _ "p @ q"]) auto
qed (simp add: returns)

subsection \<open>A capture and the spool\<close>

definition fresh_world :: "spool_table \<Rightarrow> engine_world" where
  "fresh_world tbl = \<lparr>ew_table = tbl, ew_log = [], ew_reads = 0, ew_spooled = 0\<rparr>"

definition spool_grows :: "engine_env \<Rightarrow> engine_world \<Rightarrow> engine_world \<Rightarrow> bool" where
  "spool_grows env w v \<longleftrightarrow>
     spool_ok (recording_root env) (ew_table v) \<and> rows_advance (ew_table w) (ew_table v)"

lemma quiet_grows: "quiet w v \<Longrightarrow> spool_ok (recording_root env) (ew_table w) \<Longrightarrow> spool_grows env w v"
  by (simp add: quiet_def spool_grows_def)

lemma spool_grows_trans: "spool_grows env w u \<Longrightarrow> spool_grows env u v \<Longrightarrow> spool_grows env w v"
  unfolding spool_grows_def using rows_advance_trans by blast

lemma spooled_grows:
  assumes "engine_ok env" and "spool_ok (recording_root env) (ew_table w)" and "spooled env m w = (r, v)"
    and "\<And>n t. spool_ok (recording_root env) t \<Longrightarrow>
      spool_ok (recording_root env) (snd (m n t)) \<and> rows_advance t (snd (m n t))"
  obtains r' where "spool_grows env w v" "ew_log v = ew_log w" "r = map_sum Spool_Raised id r'"
    "m (spool_clock env (ew_spooled w)) (spool_run (recording_root env) (spool_users env (ew_spooled w)) (ew_table w))
      = (r', ew_table v)"
    "rows_advance (ew_table w) (spool_run (recording_root env) (spool_users env (ew_spooled w)) (ew_table w))"
    "spool_ok (recording_root env) (spool_run (recording_root env) (spool_users env (ew_spooled w)) (ew_table w))"
proof -
  let ?n = "spool_clock env (ew_spooled w)"
  let ?t = "spool_run (recording_root env) (spool_users env (ew_spooled w)) (ew_table w)"
  obtain r' t where m: "m ?n ?t = (r', t)" by (cases "m ?n ?t")
  have v: "r = map_sum Spool_Raised id r'" "ew_table v = t" "ew_log v = ew_log w"
    using assms(3) m by (auto simp: spooled_def Let_def)
  have t: "spool_ok (recording_root env) ?t" "rows_advance (ew_table w) ?t"
    using spool_run_keeps [OF assms(2)] assms(1) by (auto simp: engine_ok_def)
  with assms(4) [OF t(1), of ?n] m v have "spool_grows env w v"
    using rows_advance_trans unfolding spool_grows_def by fastforce
  with v m t that show thesis by auto
qed

lemma op_grows:
  assumes "op_built op"
  shows "spool_ok dir t \<Longrightarrow> spool_ok dir (snd (spool_do dir op t)) \<and> rows_advance t (snd (spool_do dir op t))"
  using spool_do_keeps assms by blast

lemma allocate_tries_new:
  "allocate_tries k dir plan draw tbl = (Inr (i, d), t) \<Longrightarrow>
    d = destination_of dir i \<and> i \<notin> set (map fst tbl)
    \<and> (\<exists>row. t = tbl @ [(i, row)] \<and> sr_state row = ALLOCATED \<and> sr_plan_id row = plan)"
  by (induction k arbitrary: draw) (auto simp: Let_def split: prod.splits if_splits)

text \<open>What a successful execution must have done.\<close>

definition carried_out :: "engine_env \<Rightarrow> capture_plan \<Rightarrow> string \<Rightarrow> completed_recording \<Rightarrow> engine_call list \<Rightarrow> bool" where
  "carried_out env plan d c calls \<longleftrightarrow>
     (\<exists>created started finished acts parts m.
        m = engine_manifest env plan (co_recording_id c) created started finished acts (map fst parts)
        \<and> recording_manifest_post_init m = Inr () \<and> same_manifest (co_manifest c) m
        \<and> co_manifest_digest c = canonical_digest (json_manifest m)
        \<and> calls = Begin (co_recording_id c) plan (ci_hardware (identity env)) d # concat (map snd parts) @ [Finalize m]
        \<and> list_all2 (segment_done env) (concat (map aq_segments (cp_activities plan))) parts
        \<and> list_all2 activity_done (cp_activities plan) acts
        \<and> one_after_other started acts \<and> last_finished started acts \<le> finished)"

lemma finalize_Inr:
  "finalize env m w = (Inr c, v) \<longleftrightarrow>
    writer_finalizes env (ew_log w @ [Finalize m]) = Reply c \<and> v = w\<lparr>ew_log := ew_log w @ [Finalize m]\<rparr>"
  by (auto simp: finalize_def Let_def answer_Inr)

lemma now_utc_Inr:
  "now_utc env w = (Inr n, v) \<longleftrightarrow> n = utc_clock env (ew_reads w) \<and> v = w\<lparr>ew_reads := ew_reads w + 1\<rparr>"
  by (auto simp: now_utc_def)

text \<open>The session up to the last call of the spool, and that call.\<close>

definition session_result :: "engine_env \<Rightarrow> capture_plan \<Rightarrow> int \<Rightarrow> string \<Rightarrow> string \<Rightarrow> completed_recording engine_io" where
  "session_result env plan created i session_id =
     (if session_id \<noteq> i
      then fails ''WriterIdentityError'' ''writer session ID differs from the local spool allocation''
      else
        bind_io (now_utc env) (\<lambda>started.
        bind_io (capture_activities env started (cp_activities plan)) (\<lambda>(acts, segs).
        bind_io (now_utc env) (\<lambda>n.
        let finished = max n (max (started + 1) (last_finished started acts)) in
        bind_io (contract (explain env \<circ> Inl) (checked recording_manifest_post_init
            (engine_manifest env plan i created started finished acts segs))) (\<lambda>m.
        bind_io (finalize env m) (\<lambda>c.
          if co_recording_id c \<noteq> i \<or> \<not> same_manifest (co_manifest c) m
          then fails ''WriterIdentityError'' ''writer changed recording identity or manifest''
          else if co_manifest_digest c \<noteq> canonical_digest (json_manifest m)
          then fails ''WriterIdentityError'' ''writer returned the wrong manifest digest''
          else ret c))))))"

lemma bind_fails: "bind_io (fails n m) f = fails n m"
  by (rule ext) (simp add: bind_io_def fails_def lift_def)

lemma session_split:
  "capture_session env plan created i s =
     bind_io (session_result env plan created i s) (\<lambda>c. bind_io (spooled env (record_complete c)) (\<lambda>_. ret c))"
  unfolding capture_session_def session_result_def Let_def case_prod_unfold
  by (auto simp: bind_assoc bind_ret bind_fails if_distrib [of "\<lambda>m. bind_io m _"] cong: if_cong)

lemma session_quiet: "engine.framed (session_result env plan created i s)"
  unfolding session_result_def Let_def by (auto intro!: quiet_intros split: prod.split)

lemma session_returns:
  assumes "engine_ok env" and "session_result env plan created i s w = (Inr c, v)"
    and "ew_log w = [Begin i plan (ci_hardware (identity env)) d]"
  shows "s = i \<and> co_recording_id c = i \<and> built_completed c \<and> carried_out env plan d c (ew_log v)"
proof -
  from assms(2) obtain t started acts segs u n x m where s: "s = i"
      "now_utc env w = (Inr started, t)"
      "capture_activities env started (cp_activities plan) t = (Inr (acts, segs), u)"
      "now_utc env u = (Inr n, x)"
      "m = engine_manifest env plan i created started (max n (max (started + 1) (last_finished started acts))) acts segs"
      "recording_manifest_post_init m = Inr ()" "finalize env m x = (Inr c, v)"
      "co_recording_id c = i" "same_manifest (co_manifest c) m"
      "co_manifest_digest c = canonical_digest (json_manifest m)"
    unfolding session_result_def Let_def by (auto simp: returns split: if_splits)
  from capture_activities_returns [OF assms(1) s(3)] obtain parts where p: "map fst parts = segs"
      "ew_log u = ew_log t @ concat (map snd parts)"
      "list_all2 (segment_done env) (concat (map aq_segments (cp_activities plan))) parts"
      "list_all2 activity_done (cp_activities plan) acts" "one_after_other started acts"
    by blast
  have l: "ew_log t = ew_log w" "ew_log x = ew_log u" "ew_log v = ew_log x @ [Finalize m]"
      "built_completed c"
    using s(2,4,7) assms(1) by (auto simp: now_utc_Inr finalize_Inr engine_ok_def)
  have "carried_out env plan d c (ew_log v)"
    unfolding carried_out_def
    by (intro exI [of _ created] exI [of _ started] exI [of _ "max n (max (started + 1) (last_finished started acts))"]
        exI [of _ acts] exI [of _ parts] exI [of _ m])
      (use s(5,6,8-10) p l(1-3) assms(3) in \<open>auto simp: less_max_iff_disj\<close>)
  with s(1,8) l(4) show ?thesis by simp
qed

text \<open>
  Where an execution can stop: before anything is allocated, or in the session of a new row,
  with the row allocated when the handler, or the last call of the spool, is reached.
\<close>

lemma execute_cases:
  assumes "engine_ok env" and "valid_id PlanId (cp_id plan)" and "spool_ok (recording_root env) tbl"
    and "execute env plan (fresh_world tbl) = (r, w)"
  obtains (nothing) e where "r = Inl e" "ew_log w = []" "spool_grows env (fresh_world tbl) w"
  | (session) created i d row v u q where
      "spool_grows env (fresh_world tbl) v" "ew_log v = []" "i \<notin> set (map fst tbl)"
      "d = destination_of (recording_root env) i" "map_of (ew_table v) i = Some row" "sr_state row = ALLOCATED"
      "begin_session env (Begin i plan (ci_hardware (identity env)) d) v = (q, u)"
      "(\<exists>e. q = Inl e \<and> capture_failed env False i e u = (r, w))
       \<or> (\<exists>s x c. q = Inr s \<and> session_result env plan created i s u = (Inr c, x)
            \<and> ((\<exists>y a. spooled env (record_complete c) x = (Inr a, y) \<and> r = Inr c \<and> w = y)
               \<or> (\<exists>y e. spooled env (record_complete c) x = (Inl e, y) \<and> capture_failed env True i e y = (r, w))))
       \<or> (\<exists>s x e. q = Inr s \<and> session_result env plan created i s u = (Inl e, x) \<and> capture_failed env True i e x = (r, w))"
proof (cases "radio_of env = cp_radio plan")
  case False
  then have "r = Inl (Named ''RadioConfigurationError'' ''plan and attached radio IDs differ'')" "w = fresh_world tbl"
    using assms(4) by (auto simp: execute_def fails_def lift_def)
  note * = this
  show thesis
    by (rule that(1) [OF *(1)]) (use *(2) assms(3) in \<open>simp_all add: fresh_world_def spool_grows_def\<close>)
next
  case True
  define w0 where "w0 = (fresh_world tbl)\<lparr>ew_reads := 1\<rparr>"
  define created where "created = utc_clock env 0"
  let ?alloc = "\<lambda>_. spool_allocate (recording_root env) (cp_id plan) (spool_draws env)"
  obtain a v where a: "spooled env ?alloc w0 = (a, v)" by (cases "spooled env ?alloc w0")
  have w0: "spool_ok (recording_root env) (ew_table w0)" "ew_table w0 = tbl" "ew_log w0 = []"
    using assms(3) by (simp_all add: w0_def fresh_world_def)
  have "spool_ok (recording_root env) (snd (?alloc n t)) \<and> rows_advance t (snd (?alloc n t))"
    if "spool_ok (recording_root env) t" for n t
    using allocate_tries_keeps [OF that assms(2)] assms(1) by (auto simp: spool_allocate_def engine_ok_def)
  from spooled_grows [OF assms(1) w0(1) a this] obtain r' where g: "spool_grows env w0 v" "ew_log v = ew_log w0"
      "a = map_sum Spool_Raised id r'"
      "spool_allocate (recording_root env) (cp_id plan) (spool_draws env)
        (spool_run (recording_root env) (spool_users env (ew_spooled w0)) (ew_table w0)) = (r', ew_table v)"
      "rows_advance (ew_table w0) (spool_run (recording_root env) (spool_users env (ew_spooled w0)) (ew_table w0))"
    by blast
  have g0: "spool_grows env (fresh_world tbl) v" using g(1) by (simp add: spool_grows_def w0_def)
  have run: "execute env plan (fresh_world tbl) =
      (case a of Inl e \<Rightarrow> (Inl e, v) | Inr p \<Rightarrow> capture_allocated env plan created p v)"
    using True a unfolding execute_def created_def w0_def
    by (auto simp: bind_io_def now_utc_def fresh_world_def split: sum.split)
  show thesis
  proof (cases r')
    case (Inl e)
    with g(2,3) run assms(4) w0(3) g0 that(1) show thesis by auto
  next
    case (Inr p)
    obtain i d where p: "p = (i, d)" by (cases p)
    let ?t = "spool_run (recording_root env) (spool_users env (ew_spooled w0)) (ew_table w0)"
    obtain row where n: "d = destination_of (recording_root env) i" "i \<notin> set (map fst ?t)"
        "ew_table v = ?t @ [(i, row)]" "sr_state row = ALLOCATED"
      using allocate_tries_new [OF g(4) [unfolded spool_allocate_def Inr p]] by blast
    have "i \<notin> set (map fst tbl)" using n(2) g(5) w0(2) by (force simp: rows_advance_def)
    moreover have "map_of (ew_table v) i = Some row"
      using unique_row [of "recording_root env" "ew_table v" i row] n(3) g(1) by (simp add: spool_grows_def)
    moreover obtain q u where q: "begin_session env (Begin i plan (ci_hardware (identity env)) d) v = (q, u)"
      by fastforce
    moreover have cap: "capture_allocated env plan created (i, d) v = (r, w)"
      using run assms(4) g(3) Inr p by simp
    have "(\<exists>e. q = Inl e \<and> capture_failed env False i e u = (r, w))
       \<or> (\<exists>s x c. q = Inr s \<and> session_result env plan created i s u = (Inr c, x)
            \<and> ((\<exists>y a. spooled env (record_complete c) x = (Inr a, y) \<and> r = Inr c \<and> w = y)
               \<or> (\<exists>y e. spooled env (record_complete c) x = (Inl e, y) \<and> capture_failed env True i e y = (r, w))))
       \<or> (\<exists>s x e. q = Inr s \<and> session_result env plan created i s u = (Inl e, x) \<and> capture_failed env True i e x = (r, w))"
    proof (cases q)
      case (Inl e)
      with cap q show ?thesis by (simp add: capture_allocated_def)
    next
      case (Inr s)
      obtain z x where z: "session_result env plan created i s u = (z, x)" by fastforce
      obtain y b where y: "spooled env (record_complete c) x = (b c, y c)" for c
        using that [of "\<lambda>c. fst (spooled env (record_complete c) x)" "\<lambda>c. snd (spooled env (record_complete c) x)"] by simp
      have "capture_allocated env plan created (i, d) v =
          (case z of Inl e \<Rightarrow> capture_failed env True i e x
           | Inr c \<Rightarrow> (case b c of Inl e \<Rightarrow> capture_failed env True i e (y c) | Inr _ \<Rightarrow> (Inr c, y c)))"
        using q Inr z y unfolding capture_allocated_def session_split
        by (auto simp: bind_io_def ret_def split: sum.split)
      with cap Inr z y show ?thesis by (cases z) (auto split: sum.splits)
    qed
    ultimately show thesis using that(2) [OF g0 _ _ n(1) _ n(4)] g(2) w0(3) by simp
  qed
qed

lemma record_complete_row:
  assumes "record_complete c now t = (Inr (), t')"
  shows "row_is COMPLETE c t'"
  using assms by (auto simp: record_complete_def Let_def row_is_def map_of_update split: option.splits if_splits)

lemma record_failure_row:
  assumes "spool_ok dir t" and "map_of t i = Some row" and "reason \<noteq> []" and "record_failure i reason now t = (r, t')"
  shows "\<exists>q. map_of t' i = Some q \<and> (sr_state q = FAILED \<or> durable_state q)"
    "sr_state row = ALLOCATED \<Longrightarrow> r = Inr () \<and>
      map_of t' i = Some (row\<lparr>sr_state := FAILED, sr_error := Some reason, sr_updated := now\<rparr>)"
proof -
  let ?f = "\<lambda>r. r\<lparr>sr_state := FAILED, sr_error := Some reason, sr_updated := now\<rparr>"
  let ?u = "spool_update (\<lambda>j r. j = i \<and> sr_state r = ALLOCATED) ?f t"
  have m: "map_of (snd ?u) i = Some (if sr_state row = ALLOCATED then ?f row else row)"
    using map_of_update [of i "\<lambda>r. sr_state r = ALLOCATED" ?f t i] assms(2) by simp
  show a: "r = Inr () \<and> map_of t' i = Some (?f row)" if s: "sr_state row = ALLOCATED"
  proof -
    have "fst ?u = 1" by (rule update_count [OF assms(1,2)]) (rule s)
    then show ?thesis using assms(3,4) m s by (cases ?u) (auto simp: record_failure_def)
  qed
  have "map_of t' i = Some row" if "sr_state row \<noteq> ALLOCATED"
    using assms(2-4) m that unfolding record_failure_def Let_def by (auto split: prod.splits option.splits if_splits)
  with a show "\<exists>q. map_of t' i = Some q \<and> (sr_state q = FAILED \<or> durable_state q)"
    by (cases "sr_state row") (auto simp: durable_state_def)
qed

lemma advanced_row:
  assumes "rows_advance t t'" and "spool_ok dir t'" and "map_of t i = Some row"
  shows "\<exists>q. map_of t' i = Some q"
  using assms unique_row map_of_SomeD [OF assms(3)] by (fastforce simp: rows_advance_def)

definition abort_raised :: "engine_env \<Rightarrow> engine_world \<Rightarrow> bool" where
  "abort_raised env w \<longleftrightarrow>
     (\<exists>calls msg. ew_log w = calls @ [Abort msg]) \<and> writer_answers env (ew_log w) \<noteq> Reply ()"

definition reason_of :: "pub_exn \<Rightarrow> string" where
  "reason_of e = fst (error_parts e) @ '': '' @ snd (error_parts e)"

text \<open>The handler leaves the row failed, unless other users have gone on with it or abort raises.\<close>

lemma capture_failed_marks:
  assumes "engine_ok env" and "spool_ok (recording_root env) (ew_table w)" and "map_of (ew_table w) i = Some row"
    and "capture_failed env session i e w = (r, v)"
  shows "spool_grows env w v \<and> (\<exists>rest. ew_log v = ew_log w @ rest) \<and> (\<exists>e'. r = Inl e' \<and>
    (e' = Ended \<or> abort_raised env v \<or>
      (\<exists>q. map_of (ew_table v) i = Some q \<and> (sr_state q = FAILED \<or> durable_state q)
         \<and> ((\<forall>n. spool_users env n = []) \<longrightarrow> sr_state row = ALLOCATED \<longrightarrow>
              e' = e \<and> sr_state q = FAILED \<and> sr_error q = Some (reason_of e)))))"
proof (cases "e = Ended")
  case True
  then show ?thesis using assms(2,4) by (auto simp: capture_failed_def lift_def spool_grows_def)
next
  case False
  define tell where "tell = (if session then call_writer env (Abort (snd (error_parts e))) else ret ())"
  obtain a u where t: "tell w = (a, u)" by (cases "tell w")
  have "engine.framed tell" unfolding tell_def by (intro quiet_intros)
  from engine.framedD [OF this t] have q: "quiet w u" .
  then have tab: "ew_table u = ew_table w" and lu: "\<exists>rest. ew_log u = ew_log w @ rest" by (auto simp: quiet_def)
  have run: "capture_failed env session i e w =
      (case a of Inl e' \<Rightarrow> (Inl e', u)
       | Inr _ \<Rightarrow> bind_io (spooled env (record_failure i (reason_of e))) (\<lambda>_. lift (Inl e)) u)"
    using False t unfolding capture_failed_def tell_def reason_of_def by (auto simp: bind_io_def split: sum.split)
  show ?thesis
  proof (cases a)
    case (Inl e')
    then have "session" using t by (auto simp: tell_def ret_def split: if_splits)
    then have "abort_raised env u"
      using t Inl by (auto simp: tell_def call_writer_def Let_def abort_raised_def)
    moreover have "capture_failed env session i e w = (Inl e', u)" using run Inl by simp
    then have "r = Inl e'" "v = u" using assms(4) by (metis prod.inject)+
    ultimately show ?thesis using lu quiet_grows [OF q assms(2)] by blast
  next
    case (Inr x)
    obtain b y where s: "spooled env (record_failure i (reason_of e)) u = (b, y)" by fastforce
    have "\<And>n t. spool_ok (recording_root env) t \<Longrightarrow> spool_ok (recording_root env) (snd (record_failure i (reason_of e) n t))
        \<and> rows_advance t (snd (record_failure i (reason_of e) n t))"
      using op_grows [of "Fail_One i (reason_of e) n" for n] by simp
    from spooled_grows [OF assms(1) assms(2) [folded tab] s this] obtain r' where g:
        "spool_grows env u y" "ew_log y = ew_log u" "b = map_sum Spool_Raised id r'"
        "record_failure i (reason_of e) (spool_clock env (ew_spooled u))
           (spool_run (recording_root env) (spool_users env (ew_spooled u)) (ew_table u)) = (r', ew_table y)"
        "rows_advance (ew_table u) (spool_run (recording_root env) (spool_users env (ew_spooled u)) (ew_table u))"
        "spool_ok (recording_root env) (spool_run (recording_root env) (spool_users env (ew_spooled u)) (ew_table u))"
      by blast
    let ?t = "spool_run (recording_root env) (spool_users env (ew_spooled u)) (ew_table u)"
    obtain row' where row': "map_of ?t i = Some row'"
      using advanced_row [OF g(5,6)] assms(3) tab by auto
    have ne: "reason_of e \<noteq> []" by (simp add: reason_of_def)
    note f = record_failure_row [OF g(6) row' ne g(4)]
    have alone: "?t = ew_table w \<and> row' = row" if "\<forall>n. spool_users env n = []"
      using that row' assms(3) tab by (simp add: spool_run_def)
    have "(r, v) = (case b of Inl e' \<Rightarrow> (Inl e', y) | Inr _ \<Rightarrow> (Inl e, y))"
      unfolding assms(4) [symmetric] run using Inr s by (simp add: bind_io_def lift_def split: sum.split)
    then have v: "v = y" "\<exists>e'. r = Inl e' \<and> (b = Inr () \<longrightarrow> e' = e)" by (auto split: sum.splits)
    have grows: "spool_grows env w y" using g(1) tab by (simp add: spool_grows_def)
    obtain q where q: "map_of (ew_table y) i = Some q" "sr_state q = FAILED \<or> durable_state q" using f(1) by blast
    have "e' = e \<and> sr_state q = FAILED \<and> sr_error q = Some (reason_of e)"
      if "\<forall>n. spool_users env n = []" "sr_state row = ALLOCATED" "b = Inr () \<longrightarrow> e' = e" for e'
      using f(2) alone [OF that(1)] that(2,3) q(1) g(3) by auto
    note alone_fails = this
    obtain e' where e': "r = Inl e'" "b = Inr () \<longrightarrow> e' = e" using v(2) by blast
    have "\<exists>rest. ew_log v = ew_log w @ rest" using lu g(2) v(1) by simp
    moreover have "spool_grows env w v" using grows v(1) by simp
    moreover have "map_of (ew_table v) i = Some q" using q(1) v(1) by simp
    ultimately show ?thesis using e'(1) q(2) alone_fails [OF _ _ e'(2)] by blast
  qed
qed

lemma capture_failed_Inl: "\<exists>e' v. capture_failed env session i e w = (Inl e', v)"
  unfolding capture_failed_def
  by (auto simp: bind_io_def lift_def split: prod.split sum.split)

text \<open>
  C6. A capture that returns did what the plan asked for, whatever the radio and the writer
  answered, however the clock ran and whatever other users did to the spool meanwhile. Its
  recording is built, has an identity the spool did not know, and its row is complete with exactly
  this recording. The writer was told, in this order: the session of this row, then for each
  segment of the plan the buffers the radio handed over, their continuity and the manifest for
  the requested settings, and last the manifest; nothing else. The manifest is Python-equal to the
  one the engine built: the segments of the plan in order, an activity for each of the plan, with
  times that follow one another inside the recording. With a metadata-aware radio the buffers of
  every segment meet its policy: under \<open>REQUIRE_CONTIGUOUS\<close> no radio sample is missing between them.
\<close>

theorem capture_is_what_was_planned:
  assumes "engine_ok env" and "built_plan plan" and "spool_ok (recording_root env) tbl"
    and "execute env plan (fresh_world tbl) = (Inr c, w)"
  shows "spool_ok (recording_root env) (ew_table w) \<and> rows_advance tbl (ew_table w)
    \<and> co_recording_id c \<notin> set (map fst tbl) \<and> built_completed c \<and> row_is COMPLETE c (ew_table w)
    \<and> carried_out env plan (destination_of (recording_root env) (co_recording_id c)) c (ew_log w)"
proof -
  have p: "valid_id PlanId (cp_id plan)" using assms(2) by (simp add: built_plan_def)
  from execute_cases [OF assms(1) p assms(3,4)] show ?thesis
  proof cases
    case (2 created i d row v u q)
    have nofail: "capture_failed env b i e x \<noteq> (Inr c, w)" for b e x
      using capture_failed_Inl [of env b i e x] by (metis Inl_Inr_False prod.inject)
    from 2(8) obtain s x y a where s: "q = Inr s" "session_result env plan created i s u = (Inr c, x)"
        "spooled env (record_complete c) x = (Inr a, y)" "w = y"
      using nofail by auto
    have u: "ew_log u = [Begin i plan (ci_hardware (identity env)) d]" "ew_table u = ew_table v"
      using 2(2,7) by (auto simp: begin_session_def Let_def)
    note r = session_returns [OF assms(1) s(2) u(1)]
    have x: "quiet u x" by (rule engine.framedD [OF session_quiet s(2)])
    have grows: "spool_grows env (fresh_world tbl) x" using 2(1) u(2) x by (simp add: spool_grows_def quiet_def)
    have "\<And>n t. spool_ok (recording_root env) t \<Longrightarrow> spool_ok (recording_root env) (snd (record_complete c n t))
        \<and> rows_advance t (snd (record_complete c n t))"
      using op_grows [of "Complete c n" for n] r by simp
    from spooled_grows [OF assms(1) _ s(3) this] grows obtain r' where g: "spool_grows env x y" "ew_log y = ew_log x"
        "record_complete c (spool_clock env (ew_spooled x))
           (spool_run (recording_root env) (spool_users env (ew_spooled x)) (ew_table x)) = (r', ew_table y)"
        "Inr a = map_sum Spool_Raised id r'"
      by (auto simp: spool_grows_def)
    have "row_is COMPLETE c (ew_table y)" using g(3,4) record_complete_row by (cases r') auto
    with spool_grows_trans [OF grows g(1)] r 2(3,4) s(4) g(2) show ?thesis
      by (auto simp: spool_grows_def fresh_world_def)
  qed simp
qed

text \<open>
  C13. A capture that raises an exception keeps the spool in order, and either allocated nothing, or
  leaves the row it had allocated failed, or taken further by another user of the spool. With no
  other users the row is failed and its reason is the class and text of the exception that
  \<open>execute\<close> raises. Only an \<open>abort\<close> of the writer that raises itself, which replaces the exception
  and skips the entry in the spool, and the end of the process are left out.
\<close>

theorem failed_capture_is_marked:
  assumes "engine_ok env" and "built_plan plan" and "spool_ok (recording_root env) tbl"
    and "execute env plan (fresh_world tbl) = (Inl e, w)"
  shows "spool_ok (recording_root env) (ew_table w) \<and> rows_advance tbl (ew_table w)
    \<and> (e = Ended \<or> ew_log w = [] \<or> abort_raised env w \<or>
        (\<exists>i rest row. i \<notin> set (map fst tbl) \<and> map_of (ew_table w) i = Some row
           \<and> ew_log w = Begin i plan (ci_hardware (identity env)) (destination_of (recording_root env) i) # rest
           \<and> (sr_state row = FAILED \<or> durable_state row)
           \<and> ((\<forall>n. spool_users env n = []) \<longrightarrow> sr_state row = FAILED \<and> sr_error row = Some (reason_of e))))"
proof -
  have p: "valid_id PlanId (cp_id plan)" using assms(2) by (simp add: built_plan_def)
  from execute_cases [OF assms(1) p assms(3,4)] show ?thesis
  proof cases
    case (2 created i d row v u q)
    have u: "ew_log u = [Begin i plan (ci_hardware (identity env)) d]" "ew_table u = ew_table v"
      using 2(2,7) by (auto simp: begin_session_def Let_def)
    have gu: "spool_grows env (fresh_world tbl) u" using 2(1) u(2) by (simp add: spool_grows_def)
    have key: ?thesis
      if x: "spool_grows env u x" "ew_log x = ew_log u @ more"
        "capture_failed env b i e' x = (Inl e :: pub_exn + completed_recording, w)"
        "\<exists>row'. map_of (ew_table x) i = Some row' \<and> ((\<forall>n. spool_users env n = []) \<longrightarrow> sr_state row' = ALLOCATED)"
      for x b e' more
    proof -
      obtain row' where row': "map_of (ew_table x) i = Some row'"
          "(\<forall>n. spool_users env n = []) \<longrightarrow> sr_state row' = ALLOCATED"
        using x(4) by blast
      have ok: "spool_ok (recording_root env) (ew_table x)" using x(1) by (simp add: spool_grows_def)
      from capture_failed_marks [OF assms(1) ok row'(1) x(3)] obtain rest where m: "spool_grows env x w"
          "ew_log w = ew_log x @ rest"
          "e = Ended \<or> abort_raised env w \<or>
            (\<exists>q. map_of (ew_table w) i = Some q \<and> (sr_state q = FAILED \<or> durable_state q)
              \<and> ((\<forall>n. spool_users env n = []) \<longrightarrow> sr_state row' = ALLOCATED \<longrightarrow>
                  e = e' \<and> sr_state q = FAILED \<and> sr_error q = Some (reason_of e')))"
        by auto
      have "spool_grows env (fresh_world tbl) w"
        using spool_grows_trans [OF gu spool_grows_trans [OF x(1) m(1)]] .
      moreover have "ew_log w = Begin i plan (ci_hardware (identity env)) (destination_of (recording_root env) i) # more @ rest"
        using m(2) x(2) u(1) 2(4) by simp
      ultimately show ?thesis using m(3) row'(2) 2(3) unfolding spool_grows_def fresh_world_def by auto
    qed
    from 2(8) consider (unopened) e' where "capture_failed env False i e' u = (Inl e :: pub_exn + completed_recording, w)"
      | (finished) s x c y e' where "session_result env plan created i s u = (Inr c, x)"
          "spooled env (record_complete c) x = (Inl e', y)" "capture_failed env True i e' y = (Inl e :: pub_exn + completed_recording, w)"
      | (unfinished) s x e' where "session_result env plan created i s u = (Inl e', x)"
          "capture_failed env True i e' x = (Inl e :: pub_exn + completed_recording, w)"
      by auto
    then show ?thesis
    proof cases
      case unopened
      show ?thesis by (rule key [of u "[]", OF _ _ unopened]) (use gu 2(5,6) u(2) in \<open>auto simp: spool_grows_def\<close>)
    next
      case unfinished
      have x: "quiet u x" by (rule engine.framedD [OF session_quiet unfinished(1)])
      then obtain more where "ew_log x = ew_log u @ more" by (auto simp: quiet_def)
      moreover have "spool_grows env u x" using quiet_grows [OF x, of env] gu by (simp add: spool_grows_def)
      ultimately show ?thesis using key unfinished(2) 2(5,6) u(2) x unfolding quiet_def by metis
    next
      case finished
      have x: "quiet u x" by (rule engine.framedD [OF session_quiet finished(1)])
      then obtain more where more: "ew_log x = ew_log u @ more" by (auto simp: quiet_def)
      have gx: "spool_grows env u x" using quiet_grows [OF x, of env] gu by (simp add: spool_grows_def)
      have b: "built_completed c" using session_returns [OF assms(1) finished(1) u(1)] by simp
      have "\<And>n t. spool_ok (recording_root env) t \<Longrightarrow> spool_ok (recording_root env) (snd (record_complete c n t))
          \<and> rows_advance t (snd (record_complete c n t))"
        using op_grows [of "Complete c n" for n] b by simp
      from spooled_grows [OF assms(1) _ finished(2) this] gx obtain r' where g: "spool_grows env x y" "ew_log y = ew_log x"
          "record_complete c (spool_clock env (ew_spooled x))
             (spool_run (recording_root env) (spool_users env (ew_spooled x)) (ew_table x)) = (r', ew_table y)"
          "Inl e' = map_sum Spool_Raised id r'"
        by (auto simp: spool_grows_def)
      have same: "ew_table y = spool_run (recording_root env) (spool_users env (ew_spooled x)) (ew_table x)"
        using g(3,4) spool_raise_keeps [of "recording_root env" "Complete c (spool_clock env (ew_spooled x))"
          "spool_run (recording_root env) (spool_users env (ew_spooled x)) (ew_table x)"] by (cases r') auto
      have mv: "map_of (ew_table x) i = Some row" using 2(5) u(2) x by (simp add: quiet_def)
      obtain row' where row': "map_of (ew_table y) i = Some row'"
        using advanced_row [OF _ _ mv] g(1) unfolding spool_grows_def by blast
      have "row' = row" if "\<forall>n. spool_users env n = []"
        using that same row' mv by (simp add: spool_run_def)
      with 2(6) row' have "\<exists>row'. map_of (ew_table y) i = Some row' \<and> ((\<forall>n. spool_users env n = []) \<longrightarrow> sr_state row' = ALLOCATED)"
        by auto
      with key [OF spool_grows_trans [OF gx g(1)] _ finished(3)] more g(2) show ?thesis by simp
    qed
  qed (simp add: spool_grows_def fresh_world_def)
qed

subsection \<open>A capture with ports that work\<close>

definition good_buffers :: "engine_env \<Rightarrow> segment_request \<Rightarrow> buffers \<Rightarrow> bool" where
  "good_buffers env req bs \<longleftrightarrow>
     (case metadata_of env of None \<Rightarrow> True
      | Some (policy, prov) \<Rightarrow> continuity_aware env \<and> length (sq_chains req) = 2 \<and> buffers_meet policy bs)"

definition good_radio :: "engine_env \<Rightarrow> capture_plan \<Rightarrow> bool" where
  "good_radio env plan \<longleftrightarrow>
     radio_of env = cp_radio plan \<and>
     (\<forall>calls. \<forall>req \<in> set (concat (map aq_segments (cp_activities plan))).
        \<exists>bs seg. radio_acquires env calls req = (bs, Reply seg) \<and> built_segment_manifest seg
          \<and> sm_requested seg = req \<and> good_buffers env req bs)"

definition good_writer :: "engine_env \<Rightarrow> capture_plan \<Rightarrow> bool" where
  "good_writer env plan \<longleftrightarrow>
     (\<forall>calls i hw d. writer_begins env (calls @ [Begin i plan hw d]) = Reply i)
     \<and> (\<forall>calls. writer_answers env calls = Reply ())
     \<and> (\<forall>calls m. built_manifest m \<longrightarrow> (\<exists>c. writer_finalizes env (calls @ [Finalize m]) = Reply c
          \<and> co_recording_id c = rm_recording_id m \<and> co_manifest c = m
          \<and> co_manifest_digest c = canonical_digest (json_manifest m)))"

text \<open>
  What the engine needs beyond a built plan: the clock does not go back, nobody else uses the
  spool, and no chain and no segment of the plan is named twice.
\<close>

definition good_setting :: "engine_env \<Rightarrow> capture_plan \<Rightarrow> bool" where
  "good_setting env plan \<longleftrightarrow>
     valid_id StationId (ci_station (identity env)) \<and> valid_id HardwareSnapshotId (ci_hardware (identity env))
     \<and> (\<forall>n. 0 \<le> utc_clock env n \<and> utc_clock env 0 \<le> utc_clock env n) \<and> (\<forall>n. spool_users env n = [])
     \<and> distinct (cp_chains plan) \<and> distinct (map sq_id (concat (map aq_segments (cp_activities plan))))"

lemma refills_of_none: "\<forall>b \<in> set bs. snd b = None \<Longrightarrow> refills_of bs = []"
  by (induction bs) (auto simp: refills_of_def List.map_filter_def)

lemma from_refills_good:
  assumes "buffers_meet policy bs" and "length chs = 2" and "distinct chs"
  shows "\<exists>cont. from_refills chs prov (refills_of bs) = Inr cont
    \<and> (policy = REQUIRE_CONTIGUOUS \<longrightarrow> sc_status cont = VERIFIED_CONTIGUOUS)
    \<and> (policy = ALLOW_VERIFIED_GAPPED \<longrightarrow> sc_status cont \<noteq> UNVERIFIED)
    \<and> (refills_of bs \<noteq> [] \<longrightarrow> missing_metadata bs = 0)"
proof (cases "refills_of bs = []")
  case True
  with assms show ?thesis
    by (auto simp: from_refills_def segment_continuity_post_init_def distinct_remdups_id Let_def)
next
  case False
  with assms(1) have v: "verified_refills (refills_of bs)" "missing_metadata bs = 0"
      "policy = REQUIRE_CONTIGUOUS \<Longrightarrow> unbroken (refills_of bs)"
    by (auto simp: Let_def)
  note d = verified_refillsD [OF v(1)]
  have "gap_list (refills_of bs) = []" if "unbroken (refills_of bs)"
  proof -
    have "\<not> jump (refills_of bs ! (j - 1)) (refills_of bs ! j)" if "j \<in> {1..<length (refills_of bs)}" for j
      using \<open>unbroken (refills_of bs)\<close> that unfolding unbroken_def jump_def
      by (metis Suc_diff_1 Suc_le_eq One_nat_def atLeastLessThan_iff)
    then show ?thesis by (auto simp: gap_list_def jumps_def filter_empty_conv)
  qed
  then show ?thesis
    using False assms(2,3) d(5) v(2,3)
    by (auto simp: from_refills_def segment_continuity_post_init_def distinct_remdups_id)
qed

lemma write_buffers_good:
  "(\<And>calls. writer_answers env calls = Reply ()) \<Longrightarrow>
    write_buffers env seg bs w = (Inr (), w\<lparr>ew_log := ew_log w @ map (write_call seg) bs\<rparr>)"
  by (induction bs arbitrary: w) (auto simp: bind_io_def call_writer_def ret_def Let_def)

lemma capture_segment_good:
  assumes "good_radio env plan" and "good_writer env plan" and "built_segment_request req"
    and "req \<in> set (concat (map aq_segments (cp_activities plan)))"
  shows "\<exists>seg v. capture_segment env req w = (Inr seg, v) \<and> built_segment_manifest seg \<and> sm_requested seg = req"
proof -
  have wr: "writer_answers env calls = Reply ()" for calls using assms(2) by (simp add: good_writer_def)
  obtain x where x: "wait_until env (scheduled_utc_ns req) w = (Inr (), x)"
    by (cases "scheduled_utc_ns req") (auto simp: wait_until_def ret_def bind_io_def now_utc_def)
  obtain bs seg where r: "radio_acquires env (ew_log x) req = (bs, Reply seg)" "built_segment_manifest seg"
      "sm_requested seg = req" "good_buffers env req bs"
    using assms(1,4) unfolding good_radio_def by blast
  let ?bs = "if metadata_of env = None then map (\<lambda>(data, meta). (data, None)) bs else bs"
  obtain y where y: "acquire env req x = (Inr (seg, ?bs), y)"
    using r(1) unfolding acquire_def Let_def
    by (simp add: write_buffers_good [OF wr] bind_io_def lift_def ret_def split del: if_split)
  have finish: "call_writer env c u = (Inr (), u\<lparr>ew_log := ew_log u @ [c]\<rparr>)" for c u
    by (simp add: call_writer_def wr Let_def)
  have same: "same_request (sm_requested seg) req" using r(3) by (simp add: same_request_def)
  show ?thesis
  proof (cases "metadata_of env")
    case None
    then show ?thesis
      using x y r(2,3) same finish unfolding capture_segment_def by (simp add: bind_io_def ret_def)
  next
    case (Some pp)
    obtain policy prov where pp: "pp = (policy, prov)" by (cases pp)
    have g: "continuity_aware env" "length (sq_chains req) = 2" "buffers_meet policy bs"
      using r(4) Some pp by (simp_all add: good_buffers_def)
    have "distinct (sq_chains req)"
      using assms(3) by (auto simp: built_segment_request_def segment_request_post_init_def)
    from from_refills_good [OF g(3,2) this, of prov] obtain cont where c:
        "from_refills (sq_chains req) prov (refills_of bs) = Inr cont"
        "policy = REQUIRE_CONTIGUOUS \<longrightarrow> sc_status cont = VERIFIED_CONTIGUOUS"
        "policy = ALLOW_VERIFIED_GAPPED \<longrightarrow> sc_status cont \<noteq> UNVERIFIED"
        "refills_of bs \<noteq> [] \<longrightarrow> missing_metadata bs = 0"
      by blast
    have rec: "record_checked env policy req cont y = (Inr (), y\<lparr>ew_log := ew_log y @ [Record_Continuity (sq_id req) cont]\<rparr>)"
      using c(2,3) by (auto simp: record_checked_def call_writer_def wr Let_def)
    have "\<exists>v. with_metadata env policy prov req x = (Inr seg, v)"
      using g(1) y Some c(1,4) rec unfolding with_metadata_def
      by (auto simp: bind_io_def contract_def lift_def ret_def)
    then show ?thesis
      using x Some pp r(2,3) same finish unfolding capture_segment_def by (auto simp: bind_io_def ret_def)
  qed
qed

lemma capture_segments_good:
  assumes "good_radio env plan" and "good_writer env plan"
    and "\<forall>req \<in> set reqs. built_segment_request req \<and> req \<in> set (concat (map aq_segments (cp_activities plan)))"
  shows "\<exists>segs v. capture_segments env reqs w = (Inr segs, v) \<and> (\<forall>s \<in> set segs. built_segment_manifest s)
    \<and> map sm_id segs = map sq_id reqs"
  using assms(3)
proof (induction reqs arbitrary: w)
  case (Cons r rs)
  then have r: "built_segment_request r" "r \<in> set (concat (map aq_segments (cp_activities plan)))" by auto
  from capture_segment_good [OF assms(1,2) r, of w] obtain s u where s: "capture_segment env r w = (Inr s, u)"
      "built_segment_manifest s" "sm_requested s = r"
    by blast
  from Cons.IH [of u] Cons.prems obtain ss v where v: "capture_segments env rs u = (Inr ss, v)"
      "\<forall>s \<in> set ss. built_segment_manifest s" "map sm_id ss = map sq_id rs"
    by auto
  have "sm_id s = sq_id r"
    using s(2,3) by (auto simp: built_segment_manifest_def segment_manifest_post_init_def)
  with s v show ?case by (auto simp: bind_io_def ret_def)
qed (simp add: ret_def)

lemma capture_activity_good:
  assumes "good_radio env plan" and "good_writer env plan" and "0 \<le> prior" and "built_activity_request a"
    and "set (aq_segments a) \<subseteq> set (concat (map aq_segments (cp_activities plan)))"
  shows "\<exists>m segs v. capture_activity env prior a w = (Inr (m, segs), v) \<and> built_activity_manifest m
    \<and> (\<forall>s \<in> set segs. built_segment_manifest s) \<and> map sm_id segs = map sq_id (aq_segments a)
    \<and> am_segment_ids m = map sm_id segs \<and> prior \<le> am_finished m"
proof -
  define n where "n = max (utc_clock env (ew_reads w)) prior"
  have b: "\<forall>req \<in> set (aq_segments a). built_segment_request req" "aq_segments a \<noteq> []" "valid_id ActivityId (aq_id a)"
    using assms(4) by (auto simp: built_activity_request_def activity_request_post_init_def)
  from capture_segments_good [OF assms(1,2), of "aq_segments a" "w\<lparr>ew_reads := ew_reads w + 1\<rparr>"] b(1) assms(5)
  obtain segs u where u: "capture_segments env (aq_segments a) (w\<lparr>ew_reads := ew_reads w + 1\<rparr>) = (Inr segs, u)"
      "\<forall>s \<in> set segs. built_segment_manifest s" "map sm_id segs = map sq_id (aq_segments a)"
    by blast
  define m where "m = activity_report a n (utc_clock env (ew_reads u)) segs"
  have n: "0 \<le> n" "prior \<le> n" using assms(3) by (simp_all add: n_def)
  have ids: "segs \<noteq> []" "\<forall>i \<in> set (map sm_id segs). valid_id SegmentId i"
    using u(3) b(1,2) by (auto simp: built_segment_request_def)
  have p: "activity_manifest_post_init m = Inr ()"
    using n ids(1) by (auto simp: activity_manifest_post_init_def m_def activity_report_def require_utc_ns_def)
  have "built_activity_manifest m"
    using p ids(2) b(3) by (auto simp: built_activity_manifest_def m_def activity_report_def)
  moreover have "prior \<le> am_finished m" using n by (auto simp: m_def activity_report_def)
  moreover have "\<exists>v. capture_activity env prior a w = (Inr (m, segs), v)"
    using u(1) p unfolding capture_activity_def m_def activity_report_def n_def Let_def
    by (simp add: bind_io_def now_utc_def contract_def lift_def ret_def checked_okI)
  ultimately show ?thesis using u(2,3) by (auto simp: m_def activity_report_def)
qed

lemma capture_activities_good:
  assumes "good_radio env plan" and "good_writer env plan"
  shows "0 \<le> prior \<Longrightarrow> \<forall>a \<in> set as. built_activity_request a
      \<and> set (aq_segments a) \<subseteq> set (concat (map aq_segments (cp_activities plan))) \<Longrightarrow>
    \<exists>ms segs v. capture_activities env prior as w = (Inr (ms, segs), v) \<and> (\<forall>m \<in> set ms. built_activity_manifest m)
    \<and> (\<forall>s \<in> set segs. built_segment_manifest s) \<and> map sm_id segs = map sq_id (concat (map aq_segments as))
    \<and> concat (map am_segment_ids ms) = map sm_id segs"
proof (induction "as" arbitrary: prior w)
  case (Cons a rest)
  from capture_activity_good [OF assms Cons.prems(1), of a w] Cons.prems(2) obtain m ss u where
      u: "capture_activity env prior a w = (Inr (m, ss), u)" "built_activity_manifest m"
      "\<forall>s \<in> set ss. built_segment_manifest s" "map sm_id ss = map sq_id (aq_segments a)"
      "am_segment_ids m = map sm_id ss" "prior \<le> am_finished m"
    by auto
  from Cons.IH [of "am_finished m" u] Cons.prems u(6) obtain ms more v where
      v: "capture_activities env (am_finished m) rest u = (Inr (ms, more), v)" "\<forall>m \<in> set ms. built_activity_manifest m"
      "\<forall>s \<in> set more. built_segment_manifest s" "map sm_id more = map sq_id (concat (map aq_segments rest))"
      "concat (map am_segment_ids ms) = map sm_id more"
    by auto
  from u(1) v(1) have "capture_activities env prior (a # rest) w = (Inr (m # ms, ss @ more), v)"
    by (simp add: bind_io_def ret_def)
  with u(2-5) v(2-5) show ?case by (intro exI [of _ "m # ms"] exI [of _ "ss @ more"] exI [of _ v]) auto
qed (simp add: ret_def)

lemma engine_manifest_good:
  assumes "good_setting env plan" and "built_plan plan" and "valid_id RecordingId i"
    and "0 \<le> created" and "created \<le> started" and "started < finished"
    and "\<forall>m \<in> set acts. built_activity_manifest m" and "\<forall>s \<in> set segs. built_segment_manifest s"
    and "map sm_id segs = map sq_id (concat (map aq_segments (cp_activities plan)))"
    and "concat (map am_segment_ids acts) = map sm_id segs"
  shows "built_manifest (engine_manifest env plan i created started finished acts segs)"
proof -
  have d: "distinct (map sm_id segs)" "distinct (cp_chains plan)"
    using assms(1,9) by (simp_all add: good_setting_def)
  have "card (set (map sm_id segs)) = length (map sm_id segs)" using d(1) by (rule distinct_card)
  then have "recording_manifest_post_init (engine_manifest env plan i created started finished acts segs) = Inr ()"
    using assms(4-6,10) d
    by (auto simp: recording_manifest_post_init_def engine_manifest_def require_utc_ns_def schema_v0_1_def Let_def)
  moreover have "built_schema (schema_v0_1 ''org.leo-flow.recording-manifest'')" by code_simp
  ultimately show ?thesis
    using assms(1-3,7,8)
    by (auto simp: built_manifest_def engine_manifest_def good_setting_def built_plan_def)
qed

lemma fresh_allocation:
  assumes "spool_ok dir tbl" and "fst (draw 0) \<notin> set (map fst tbl)"
  shows "spool_allocate dir plan draw tbl = (Inr (fst (draw 0), destination_of dir (fst (draw 0))),
    tbl @ [(fst (draw 0), \<lparr>sr_plan_id = plan, sr_destination = destination_of dir (fst (draw 0)), sr_state = ALLOCATED,
      sr_payload = None, publish_attempts = 0, sr_error = None, sr_key = None, published_identity = None,
      sr_created = snd (draw 0), sr_updated = snd (draw 0)\<rparr>)])"
proof -
  have "sr_destination r = destination_of dir j" if "(j, r) \<in> set tbl" for j r
    using assms(1) that by (auto simp: spool_ok_def spool_row_ok_def)
  then have "destination_of dir (fst (draw 0)) \<notin> set (map (sr_destination \<circ> snd) tbl)"
    using assms(2) by (force simp: destination_of_def)
  then show ?thesis
    using assms(2) by (simp add: spool_allocate_def numeral_eq_Suc Let_def case_prod_unfold)
qed

lemma session_good:
  assumes "engine_ok env" and "good_radio env plan" and "good_writer env plan" and "good_setting env plan"
    and "built_plan plan" and "valid_id RecordingId i"
  shows "\<exists>c v. session_result env plan (utc_clock env 0) i i w = (Inr c, v)
    \<and> co_recording_id c = i \<and> rm_plan_id (co_manifest c) = cp_id plan"
proof -
  have clock: "0 \<le> utc_clock env n" "utc_clock env 0 \<le> utc_clock env n" for n
    using assms(4) by (simp_all add: good_setting_def)
  define started where "started = utc_clock env (ew_reads w)"
  have st: "0 \<le> started" "utc_clock env 0 \<le> started" using clock [of "ew_reads w"] by (simp_all add: started_def)
  have acts: "\<forall>a \<in> set (cp_activities plan). built_activity_request a
      \<and> set (aq_segments a) \<subseteq> set (concat (map aq_segments (cp_activities plan)))"
    using assms(5) by (auto simp: built_plan_def)
  from capture_activities_good [OF assms(2,3) st(1) acts, of "w\<lparr>ew_reads := ew_reads w + 1\<rparr>"] obtain ms segs u where
      u: "capture_activities env started (cp_activities plan) (w\<lparr>ew_reads := ew_reads w + 1\<rparr>) = (Inr (ms, segs), u)"
      "\<forall>m \<in> set ms. built_activity_manifest m" "\<forall>s \<in> set segs. built_segment_manifest s"
      "map sm_id segs = map sq_id (concat (map aq_segments (cp_activities plan)))"
      "concat (map am_segment_ids ms) = map sm_id segs"
    by blast
  define finished where "finished = max (utc_clock env (ew_reads u)) (max (started + 1) (last_finished started ms))"
  define m where "m = engine_manifest env plan i (utc_clock env 0) started finished ms segs"
  have "started < finished" by (auto simp: finished_def)
  from engine_manifest_good [OF assms(4-6) clock(1) st(2) this u(2-5)] have m: "built_manifest m" by (simp add: m_def)
  define x where "x = u\<lparr>ew_reads := ew_reads u + 1\<rparr>"
  from assms(3) m obtain c where c: "writer_finalizes env (ew_log x @ [Finalize m]) = Reply c"
      "co_recording_id c = rm_recording_id m" "co_manifest c = m" "co_manifest_digest c = canonical_digest (json_manifest m)"
    unfolding good_writer_def by blast
  have ids: "rm_recording_id m = i" "rm_plan_id m = cp_id plan" by (simp_all add: m_def engine_manifest_def)
  have "recording_manifest_post_init m = Inr ()" using m by (simp add: built_manifest_def)
  then have ok: "contract (explain env \<circ> Inl) (checked recording_manifest_post_init m) x = (Inr m, x)"
    by (simp add: contract_def checked_okI lift_def)
  have n1: "now_utc env w = (Inr started, w\<lparr>ew_reads := ew_reads w + 1\<rparr>)" by (simp add: now_utc_def started_def)
  have n2: "now_utc env u = (Inr (utc_clock env (ew_reads u)), x)" by (simp add: now_utc_def x_def)
  have f: "finalize env m x = (Inr c, x\<lparr>ew_log := ew_log x @ [Finalize m]\<rparr>)" using c(1) by (simp add: finalize_def Let_def)
  have same: "same_manifest (co_manifest c) m" by (simp add: c(3) same_manifest_def)
  have "session_result env plan (utc_clock env 0) i i w = (Inr c, x\<lparr>ew_log := ew_log x @ [Finalize m]\<rparr>)"
    unfolding session_result_def Let_def
    by (simp add: bind_mem [where m = "now_utc env" and s = w, OF n1]
        bind_mem [where m = "now_utc env" and s = u, OF n2]
        bind_mem [where m = "capture_activities env started (cp_activities plan)", OF u(1)]
        finished_def [symmetric] m_def [symmetric]
        bind_mem [where m = "contract (explain env \<circ> Inl) (checked recording_manifest_post_init m)" and s = x, OF ok]
        bind_mem [where m = "finalize env m" and s = x, OF f] same c(2,4) ids ret_def del: One_nat_def)
  then show ?thesis using c(2,3) ids by auto
qed

lemma good_capture_returns:
  assumes "engine_ok env" and "good_radio env plan" and "good_writer env plan" and "good_setting env plan"
    and "built_plan plan" and "spool_ok (recording_root env) tbl" and "fst (spool_draws env 0) \<notin> set (map fst tbl)"
  shows "\<exists>c w. execute env plan (fresh_world tbl) = (Inr c, w)
    \<and> co_recording_id c = fst (spool_draws env 0) \<and> row_is COMPLETE c (ew_table w)"
proof -
  define i where "i = fst (spool_draws env 0)"
  define row where "row = \<lparr>sr_plan_id = cp_id plan, sr_destination = destination_of (recording_root env) i, sr_state = ALLOCATED,
      sr_payload = None, publish_attempts = 0, sr_error = None, sr_key = None, published_identity = None,
      sr_created = snd (spool_draws env 0), sr_updated = snd (spool_draws env 0)\<rparr>"
  have i: "valid_id RecordingId i" "i \<notin> set (map fst tbl)" using assms(1,7) by (simp_all add: engine_ok_def i_def)
  have alone: "spool_users env n = []" for n using assms(4) by (simp add: good_setting_def)
  let ?v = "(fresh_world tbl)\<lparr>ew_reads := 1, ew_table := tbl @ [(i, row)], ew_spooled := 1\<rparr>"
  have alloc: "spooled env (\<lambda>_. spool_allocate (recording_root env) (cp_id plan) (spool_draws env))
      ((fresh_world tbl)\<lparr>ew_reads := 1\<rparr>) = (Inr (i, destination_of (recording_root env) i), ?v)"
    using fresh_allocation [where draw = "spool_draws env" and plan = "cp_id plan", OF assms(6,7)]
    by (simp add: spooled_def alone spool_run_def Let_def fresh_world_def i_def row_def)
  define u where "u = ?v\<lparr>ew_log := [Begin i plan (ci_hardware (identity env)) (destination_of (recording_root env) i)]\<rparr>"
  have "writer_begins env ([] @ [Begin i plan hw d]) = Reply i" for hw d
    using assms(3) unfolding good_writer_def by blast
  then have opens: "begin_session env (Begin i plan (ci_hardware (identity env)) (destination_of (recording_root env) i)) ?v = (Inr i, u)"
    by (simp add: begin_session_def Let_def u_def fresh_world_def)
  from session_good [OF assms(1-5) i(1), of u] obtain c x where x:
      "session_result env plan (utc_clock env 0) i i u = (Inr c, x)" "co_recording_id c = i"
      "rm_plan_id (co_manifest c) = cp_id plan"
    by blast
  have "quiet u x" by (rule engine.framedD [OF session_quiet x(1)])
  then have tab: "ew_table x = tbl @ [(i, row)]" by (simp add: quiet_def u_def)
  have "map_of (tbl @ [(i, row)]) i = Some row" using i(2) by (simp add: map_add_Some_iff map_of_eq_None_iff)
  then obtain t where t: "record_complete c now (tbl @ [(i, row)]) = (Inr (), t now)" for now
    using x(2,3) that [of "\<lambda>now. snd (record_complete c now (tbl @ [(i, row)]))"]
    by (simp add: record_complete_def row_def Let_def)
  have kept: "spooled env (record_complete c) x = (Inr (), x\<lparr>ew_table := t (spool_clock env (ew_spooled x)), ew_spooled := ew_spooled x + 1\<rparr>)"
    using t tab by (simp add: spooled_def alone spool_run_def Let_def)
  have "execute env plan (fresh_world tbl) = (Inr c, x\<lparr>ew_table := t (spool_clock env (ew_spooled x)), ew_spooled := ew_spooled x + 1\<rparr>)"
    using assms(2) alloc opens x(1) kept
    unfolding execute_def capture_allocated_def session_split good_radio_def
    by (simp add: bind_io_def now_utc_def fresh_world_def ret_def)
  with record_complete_row [OF t] x(2) i_def show ?thesis by auto
qed

text \<open>
  C7. A plan is captured when its ports work: with a radio that serves each request with buffers
  that meet its policy, a writer that keeps its session and returns the manifest it is given, a
  clock that never shows a time before the first, and a fresh identity, \<open>execute\<close> returns a
  recording, and its row in the spool is complete. The plan must name no chain and no segment
  twice, which its constructor does not check across activities.
\<close>

theorem planned_capture_completes:
  assumes "engine_ok env" and "good_radio env plan" and "good_writer env plan" and "good_setting env plan"
    and "built_plan plan" and "spool_ok (recording_root env) tbl" and "fst (spool_draws env 0) \<notin> set (map fst tbl)"
  shows "\<exists>c w. execute env plan (fresh_world tbl) = (Inr c, w)
    \<and> co_recording_id c = fst (spool_draws env 0) \<and> row_is COMPLETE c (ew_table w)"
  by (rule good_capture_returns [OF assms])

text \<open>
  A plan that names a segment in two activities, or a chain twice, is never captured: only the
  manifest, at the end, refuses it.
\<close>

lemma repeated_names_never_captured:
  assumes "carried_out env plan d c calls"
  shows "distinct (cp_chains plan)" "distinct (map sq_id (concat (map aq_segments (cp_activities plan))))"
proof -
  from assms obtain created started finished acts parts where m:
      "recording_manifest_post_init (engine_manifest env plan (co_recording_id c) created started finished acts (map fst parts)) = Inr ()"
      "list_all2 (segment_done env) (concat (map aq_segments (cp_activities plan))) parts"
    unfolding carried_out_def by blast
  then show "distinct (cp_chains plan)" "distinct (map sq_id (concat (map aq_segments (cp_activities plan))))"
    using parts_ids [OF m(2)] by (simp_all add: recording_manifest_post_init_def engine_manifest_def)
qed

subsection \<open>An instance\<close>

definition demo_taken :: segment_manifest where
  "demo_taken = hd (rm_segments demo_manifest)"

definition demo_engine :: engine_env where
  "demo_engine =
     \<lparr>identity = \<lparr>ci_station = ''station_1'', ci_serial = ''serial'', ci_clock_status = ''locked'', ci_hardware = ''hw_1'',
        ci_producer = ''capture''\<rparr>,
      explain = (\<lambda>_. ''contract''), radio_of = ''radio_1'',
      metadata_of = Some (REQUIRE_CONTIGUOUS, demo_capture_provenance),
      radio_acquires = (\<lambda>_ _. ([(''iq'', Some (hd demo_refills))], Reply demo_taken)),
      writer_begins = (\<lambda>calls. case last calls of Begin i p hw d \<Rightarrow> Reply i | _ \<Rightarrow> Process_Ends),
      continuity_aware = True, writer_answers = (\<lambda>_. Reply ()),
      writer_finalizes = (\<lambda>calls. case last calls of
          Finalize m \<Rightarrow>
            if built_manifest m
            then Reply \<lparr>co_recording_id = rm_recording_id m, co_data = demo_object CHR ''a'', co_metadata = demo_object CHR ''b'',
                   co_manifest = m, co_manifest_digest = canonical_digest (json_manifest m)\<rparr>
            else Process_Ends
        | _ \<Rightarrow> Process_Ends),
      utc_clock = (\<lambda>n. int n + 1), recording_root = ''/spool'', spool_clock = int, spool_draws = (\<lambda>n. (''rec_1'', int n)),
      spool_users = (\<lambda>_. [])\<rparr>"

definition broken_engine :: engine_env where
  "broken_engine = demo_engine\<lparr>radio_acquires := (\<lambda>_ _. ([], Raise_Exc ''RefillError'' ''no data''))\<rparr>"

lemma demo_taken_built: "built_segment_manifest demo_taken" "sm_requested demo_taken = demo_request"
  "segment_manifest_post_init demo_taken = Inr ()"
  by code_simp+

lemma demo_buffers: "buffers_meet REQUIRE_CONTIGUOUS [(''iq'', Some (hd demo_refills))]"
  "valid_refill (hd demo_refills)"
proof -
  show v: "valid_refill (hd demo_refills)" by code_simp
  have "is_ok (verify_refills [hd demo_refills])" by code_simp
  with v show "buffers_meet REQUIRE_CONTIGUOUS [(''iq'', Some (hd demo_refills))]"
    by (simp add: refills_of_def List.map_filter_def verified_refills_def missing_metadata_def unbroken_def)
qed

lemma demo_finalized:
  "built_manifest m \<Longrightarrow> built_completed \<lparr>co_recording_id = rm_recording_id m, co_data = demo_object CHR ''a'',
     co_metadata = demo_object CHR ''b'', co_manifest = m, co_manifest_digest = canonical_digest (json_manifest m)\<rparr>"
  using demo_built(3,4) by (simp add: built_completed_def completed_recording_post_init_def) (simp add: demo_object_def)

lemma demo_engine_ok: "engine_ok demo_engine" "engine_ok broken_engine"
proof -
  have "valid_id RecordingId ''rec_1''" by code_simp
  then show "engine_ok demo_engine" "engine_ok broken_engine"
    using demo_taken_built(3) demo_buffers(2) demo_finalized
    by (auto simp: engine_ok_def demo_engine_def broken_engine_def refills_of_def List.map_filter_def
        split: engine_call.splits if_splits)
qed

lemma demo_engine_good:
  "good_radio demo_engine demo_plan" "good_writer demo_engine demo_plan" "good_setting demo_engine demo_plan"
proof -
  have "set (concat (map aq_segments (cp_activities demo_plan))) = {demo_request}" by (simp add: demo_plan_def)
  moreover have "length (sq_chains demo_request) = 2" "cp_radio demo_plan = ''radio_1''" by code_simp+
  ultimately show "good_radio demo_engine demo_plan"
    using demo_taken_built demo_buffers(1)
    by (simp add: good_radio_def good_buffers_def demo_engine_def del: buffers_meet.simps)
  show "good_writer demo_engine demo_plan" by (simp add: good_writer_def demo_engine_def)
  have "valid_id StationId ''station_1''" "valid_id HardwareSnapshotId ''hw_1''" by code_simp+
  then show "good_setting demo_engine demo_plan" by (simp add: good_setting_def demo_engine_def demo_plan_def)
qed

lemma demo_engine_returns:
  "\<exists>c w. execute demo_engine demo_plan (fresh_world []) = (Inr c, w) \<and> row_is COMPLETE c (ew_table w)"
  using good_capture_returns [OF demo_engine_ok(1) demo_engine_good demo_built(1), of "[]"] by (auto simp: spool_ok_def)

theorem planned_capture_completes_witness:
  "\<exists>c w. execute demo_engine demo_plan (fresh_world []) = (Inr c, w)
    \<and> co_recording_id c = ''rec_1'' \<and> row_is COMPLETE c (ew_table w)"
  using planned_capture_completes [OF demo_engine_ok(1) demo_engine_good demo_built(1), of "[]"]
  by (auto simp: spool_ok_def demo_engine_def)

theorem capture_is_what_was_planned_witness:
  "\<exists>c w. execute demo_engine demo_plan (fresh_world []) = (Inr c, w) \<and> row_is COMPLETE c (ew_table w)
    \<and> carried_out demo_engine demo_plan (destination_of (recording_root demo_engine) (co_recording_id c)) c (ew_log w)"
proof -
  obtain c w where "execute demo_engine demo_plan (fresh_world []) = (Inr c, w)" using demo_engine_returns by blast
  moreover have "spool_ok (recording_root demo_engine) []" by (simp add: spool_ok_def)
  ultimately show ?thesis using capture_is_what_was_planned [OF demo_engine_ok(1) demo_built(1)] by blast
qed

theorem failed_capture_is_marked_witness:
  "\<exists>w i row. execute broken_engine demo_plan (fresh_world []) = (Inl (Named ''RefillError'' ''no data''), w)
    \<and> map_of (ew_table w) i = Some row \<and> sr_state row = FAILED \<and> sr_error row = Some ''RefillError: no data''"
proof -
  let ?x = "execute broken_engine demo_plan (fresh_world [])"
  have f: "fst ?x = Inl (Named ''RefillError'' ''no data'')" "ew_log (snd ?x) \<noteq> []" by code_simp+
  then have r: "?x = (Inl (Named ''RefillError'' ''no data''), snd ?x)" by (metis prod.collapse)
  have "spool_ok (recording_root broken_engine) []" by (simp add: spool_ok_def)
  moreover have "\<not> abort_raised broken_engine w" "spool_users broken_engine n = []" for w n
    by (simp_all add: abort_raised_def broken_engine_def demo_engine_def)
  moreover have "reason_of (Named ''RefillError'' ''no data'') = ''RefillError: no data''" by (simp add: reason_of_def)
  ultimately show ?thesis
    using failed_capture_is_marked [OF demo_engine_ok(2) demo_built(1) _ r] f(2) r by auto
qed

end
