(* ===== verification/Dual.thy ===== *)
theory Dual
  imports Batch_Rows Float64
begin

section \<open>Two captures at once\<close>

text \<open>
  \<open>capture/dual.py\<close>: the executor that runs the two attempts of a batch in a thread each,
  releases a coordinated pair together, and reduces what happened to one recorded outcome per
  attempt. The threads are seen through what the executor reads of them: whether a control was
  declared ready, whether a thread is alive and how it ended. These, the clocks and the answer of
  the release gate are functions of everything the executor has read and done so far, so the
  threads may take any course and react to a release or a cancellation as they like. The worker of
  the first expected attempt is 0, of the second 1. Waiting is not modelled, a wait for an event
  and a \<open>join\<close> only let time pass. The recorder is a pair of operations on a store.
\<close>

datatype dual_error =
    Wrong_Runners | Other_Definition | Partial_Batch | Outcome_Lost | Not_Terminal | Cleanup_Ignored
  | Bad_Result_Schema | Bad_Dual_Time | Ends_Before_First_Sample | Bad_Timeout | Bad_Lateness
  | Batch_Raised batch_error

datatype failure_code =
    CHILD_BUILD | CYCLE_PREFLIGHT | HOST_SPOOL_PREFLIGHT | CATALOG_PREFLIGHT | RADIO_ATTESTATION
  | FIRST_SEGMENT_CONFIGURATION | CAPTURE_ENGINE | RECORDING_PUBLICATION | RECORDING_RESOLUTION | CHILD_CLEANUP

fun str_failure :: "failure_code \<Rightarrow> string" where
  "str_failure CHILD_BUILD = ''capture_child_build_failed''"
| "str_failure CYCLE_PREFLIGHT = ''capture_cycle_preflight_failed''"
| "str_failure HOST_SPOOL_PREFLIGHT = ''capture_host_spool_preflight_failed''"
| "str_failure CATALOG_PREFLIGHT = ''capture_catalog_preflight_failed''"
| "str_failure RADIO_ATTESTATION = ''capture_radio_attestation_failed''"
| "str_failure FIRST_SEGMENT_CONFIGURATION = ''capture_first_segment_configuration_failed''"
| "str_failure CAPTURE_ENGINE = ''capture_engine_failed''"
| "str_failure RECORDING_PUBLICATION = ''capture_recording_publication_failed''"
| "str_failure RECORDING_RESOLUTION = ''capture_recording_resolution_failed''"
| "str_failure CHILD_CLEANUP = ''capture_child_cleanup_failed''"

record run_result =
  run_schema :: schema_ref
  run_batch_id :: string
  run_attempt_id :: string
  run_radio_id :: string
  run_plan_id :: string
  observed_start :: int
  run_completed :: int
  run_recording :: published_recording_ref

definition run_result_post_init :: "run_result \<Rightarrow> (dual_error, unit) result" where
  "run_result_post_init r =
     raise_first
       [(schema_id (run_schema r) \<noteq> ''org.leo-flow.capture-attempt-run-result'' \<or> version (run_schema r) \<noteq> V0_1,
           ValueError Bad_Result_Schema),
        (observed_start r < 0, ValueError Bad_Dual_Time),
        (run_completed r < 0, ValueError Bad_Dual_Time),
        (run_completed r < observed_start r, ValueError Ends_Before_First_Sample)]"

text \<open>How the call of a runner ends; \<open>Killed\<close> is an exception that is no \<open>Exception\<close>.\<close>

datatype run_end = Returned "run_result option" | Runner_Failure failure_code | Runner_Raised | Killed

text \<open>\<open>_run\<close>: the result and the failure reason of the worker.\<close>

fun run_worker :: "run_end \<Rightarrow> run_result option \<times> string option" where
  "run_worker (Returned r) = (r, None)"
| "run_worker (Runner_Failure c) = (None, Some (str_failure c))"
| "run_worker Runner_Raised = (None, Some ''capture_runner_failed'')"
| "run_worker Killed = (None, None)"

text \<open>What the executor reads and does, in order.\<close>

datatype dual_event = Ready nat bool | Alive nat bool | Clock | Cancel nat | Release | Admitted bool

record dual_env =
  is_ready :: "dual_event list \<Rightarrow> nat \<Rightarrow> bool"
  is_alive :: "dual_event list \<Rightarrow> nat \<Rightarrow> bool"
  ended :: "dual_event list \<Rightarrow> nat \<Rightarrow> run_end"
  monotonic :: "dual_event list \<Rightarrow> pyfloat"
  now_ns :: "dual_event list \<Rightarrow> int"
  admission :: "(dual_event list \<Rightarrow> int \<Rightarrow> bool option) option"
  startup_timeout :: pyfloat
  finish_timeout :: pyfloat
  cleanup_timeout :: pyfloat
  polls :: nat

definition executor_init :: "dual_env \<Rightarrow> (dual_error, unit) result" where
  "executor_init env =
     raise_first
       [(startup_timeout env \<le> 0, ValueError Bad_Timeout), (finish_timeout env \<le> 0, ValueError Bad_Timeout),
        (cleanup_timeout env \<le> 0, ValueError Bad_Timeout)]"

record 's dual_world =
  dw_store :: 's
  dw_log :: "dual_event list"

datatype dual_exn = Raised "dual_error exn" | Still_Starting

type_synonym ('s, 'a) dual_io = "('s dual_world, dual_exn, 'a) io"

subsection \<open>The release gate\<close>

definition gate_init :: "int \<Rightarrow> pyfloat \<Rightarrow> (dual_error, unit) result" where
  "gate_init maximum_lateness_ns poll_interval_s =
     raise_first [(maximum_lateness_ns < 0, ValueError Bad_Lateness), (poll_interval_s \<le> 0, ValueError Bad_Timeout)]"

text \<open>
  \<open>UtcCoordinatedReleaseGate.admit\<close>: each turn asks whether it was cancelled and reads the clock;
  \<open>None\<close> when the given number of turns was not enough.
\<close>

fun gate_admit :: "nat \<Rightarrow> int \<Rightarrow> (nat \<Rightarrow> bool) \<Rightarrow> (nat \<Rightarrow> int) \<Rightarrow> int \<Rightarrow> bool option" where
  "gate_admit 0 lateness cancelled clock requested = None"
| "gate_admit (Suc k) lateness cancelled clock requested =
     (if cancelled 0 then Some False
      else
        let now = clock 0 in
        if requested + lateness < now then Some False
        else if requested \<le> now then Some True
        else gate_admit k lateness (\<lambda>n. cancelled (Suc n)) (\<lambda>n. clock (Suc n)) requested)"

subsection \<open>Reading and acting\<close>

definition tell :: "dual_event \<Rightarrow> ('s, unit) dual_io" where
  "tell e w = (Inr (), w\<lparr>dw_log := dw_log w @ [e]\<rparr>)"

definition see_ready :: "dual_env \<Rightarrow> nat \<Rightarrow> ('s, bool) dual_io" where
  "see_ready env i w = (let b = is_ready env (dw_log w) i in (Inr b, w\<lparr>dw_log := dw_log w @ [Ready i b]\<rparr>))"

definition see_alive :: "dual_env \<Rightarrow> nat \<Rightarrow> ('s, bool) dual_io" where
  "see_alive env i w = (let b = is_alive env (dw_log w) i in (Inr b, w\<lparr>dw_log := dw_log w @ [Alive i b]\<rparr>))"

definition see_monotonic :: "dual_env \<Rightarrow> ('s, pyfloat) dual_io" where
  "see_monotonic env w = (Inr (monotonic env (dw_log w)), w\<lparr>dw_log := dw_log w @ [Clock]\<rparr>)"

definition see_now :: "dual_env \<Rightarrow> ('s, int) dual_io" where
  "see_now env w = (Inr (now_ns env (dw_log w)), w\<lparr>dw_log := dw_log w @ [Clock]\<rparr>)"

definition raises :: "dual_error exn \<Rightarrow> ('s, 'a) dual_io" where
  "raises e = lift (Inl (Raised e))"

text \<open>An operation of the recorder.\<close>

definition recorder :: "('s, 'a) batch_io \<Rightarrow> ('s, 'a) dual_io" where
  "recorder m w =
     (let (r, t) = m (dw_store w) in (map_sum (Raised \<circ> map_exn Batch_Raised) id r, w\<lparr>dw_store := t\<rparr>))"

text \<open>\<open>execution_deadline is not None and self._monotonic() >= execution_deadline\<close>.\<close>

definition expired :: "dual_env \<Rightarrow> pyfloat option \<Rightarrow> ('s, bool) dual_io" where
  "expired env deadline =
     (case deadline of None \<Rightarrow> ret False
      | Some d \<Rightarrow> bind_io (see_monotonic env) (\<lambda>t. ret (d \<le> t)))"

subsection \<open>Waiting for the start\<close>

definition all_ready :: "dual_env \<Rightarrow> ('s, bool) dual_io" where
  "all_ready env = bind_io (see_ready env 0) (\<lambda>b. if b then see_ready env 1 else ret False)"

definition unready_and :: "dual_env \<Rightarrow> bool \<Rightarrow> nat \<Rightarrow> ('s, bool) dual_io" where
  "unready_and env living i =
     bind_io (see_ready env i) (\<lambda>r.
       if r then ret False else bind_io (see_alive env i) (\<lambda>a. ret (a = living)))"

text \<open>\<open>any(not worker.control.ready and ... for worker in workers)\<close>.\<close>

definition any_unready :: "dual_env \<Rightarrow> bool \<Rightarrow> ('s, bool) dual_io" where
  "any_unready env living =
     bind_io (unready_and env living 0) (\<lambda>b. if b then ret True else unready_and env living 1)"

text \<open>The \<open>for\<close> loop that waits on the first control that is not ready.\<close>

definition wait_first :: "dual_env \<Rightarrow> ('s, unit) dual_io" where
  "wait_first env =
     bind_io (see_ready env 0) (\<lambda>b. if b then bind_io (see_ready env 1) (\<lambda>_. ret ()) else ret ())"

fun poll_start :: "nat \<Rightarrow> dual_env \<Rightarrow> pyfloat \<Rightarrow> pyfloat option \<Rightarrow> ('s, bool \<times> bool \<times> bool) dual_io" where
  "poll_start 0 env deadline execution = lift (Inl Still_Starting)"
| "poll_start (Suc k) env deadline execution =
     bind_io (all_ready env) (\<lambda>b.
       if b then ret (True, False, False)
       else
         bind_io (any_unready env False) (\<lambda>b.
           if b then ret (False, False, False)
           else
             bind_io (see_monotonic env) (\<lambda>t.
               if fsub deadline t \<le> 0
               then bind_io (expired env execution) (\<lambda>x. ret (False, True, x))
               else bind_io (wait_first env) (\<lambda>_. poll_start k env deadline execution))))"

definition wait_for_start :: "dual_env \<Rightarrow> pyfloat option \<Rightarrow> ('s, bool \<times> bool \<times> bool) dual_io" where
  "wait_for_start env execution =
     bind_io (see_monotonic env) (\<lambda>t.
       let deadline = fadd t (startup_timeout env) in
       poll_start (polls env) env (case execution of None \<Rightarrow> deadline | Some e \<Rightarrow> min deadline e) execution)"

subsection \<open>Starting\<close>

type_synonym reasons = "nat \<Rightarrow> string option"

definition ask_admission :: "dual_env \<Rightarrow> int \<Rightarrow> ('s, bool) dual_io" where
  "ask_admission env requested w =
     (case admission env of
        None \<Rightarrow> (Inr True, w)
      | Some admit \<Rightarrow>
          (let b = (admit (dw_log w) requested = Some True) in (Inr b, w\<lparr>dw_log := dw_log w @ [Admitted b]\<rparr>)))"

text \<open>Both controls are ready in coordinated mode; an admission that raises counts as refused.\<close>

definition missed :: "bool \<Rightarrow> string" where
  "missed over = (if over then ''capture_slot_deadline'' else ''capture_release_window_missed'')"

definition release_pair :: "dual_env \<Rightarrow> pyfloat option \<Rightarrow> int \<Rightarrow> ('s, reasons) dual_io" where
  "release_pair env execution requested =
     bind_io (ask_admission env requested) (\<lambda>admitted.
     bind_io (expired env execution) (\<lambda>over.
       if admitted \<and> \<not> over then bind_io (tell Release) (\<lambda>_. ret (\<lambda>_. None))
       else
         bind_io (tell (Cancel 0)) (\<lambda>_. bind_io (expired env execution) (\<lambda>x0.
         bind_io (tell (Cancel 1)) (\<lambda>_. bind_io (expired env execution) (\<lambda>x1.
         bind_io (tell Release) (\<lambda>_. ret [0 \<mapsto> missed x0, 1 \<mapsto> missed x1])))))))"

text \<open>A coordinated pair of which not both became ready.\<close>

definition unready_reason :: "dual_env \<Rightarrow> bool \<Rightarrow> bool \<Rightarrow> bool \<Rightarrow> nat \<Rightarrow> ('s, string option) dual_io" where
  "unready_reason env startup over peer_waits i =
     bind_io (tell (Cancel i)) (\<lambda>_.
       if over then ret (Some ''capture_slot_deadline'')
       else
         bind_io (see_ready env i) (\<lambda>r.
           if r
           then ret (Some (if peer_waits \<and> startup then ''capture_peer_startup_timeout'' else ''capture_peer_startup_failed''))
           else
             bind_io (see_alive env i) (\<lambda>a.
               ret (if a \<and> startup then Some ''capture_startup_timeout'' else None))))"

definition cancel_pair :: "dual_env \<Rightarrow> bool \<Rightarrow> bool \<Rightarrow> ('s, reasons) dual_io" where
  "cancel_pair env startup over =
     bind_io (any_unready env True) (\<lambda>peer_waits.
     bind_io (unready_reason env startup over peer_waits 0) (\<lambda>r0.
     bind_io (unready_reason env startup over peer_waits 1) (\<lambda>r1.
     bind_io (tell Release) (\<lambda>_. ret ((\<lambda>_. None)(0 := r0, 1 := r1))))))"

text \<open>Independent captures: only one that is still starting is given up.\<close>

definition late_reason :: "dual_env \<Rightarrow> bool \<Rightarrow> bool \<Rightarrow> nat \<Rightarrow> ('s, string option) dual_io" where
  "late_reason env startup over i =
     bind_io (unready_and env True i) (\<lambda>b.
       if b \<and> startup
       then bind_io (tell (Cancel i)) (\<lambda>_. ret (Some (if over then ''capture_slot_deadline'' else ''capture_startup_timeout'')))
       else ret None)"

definition start_pair :: "dual_env \<Rightarrow> batch_mode \<Rightarrow> pyfloat option \<Rightarrow> int \<Rightarrow> ('s, reasons) dual_io" where
  "start_pair env mode execution requested =
     bind_io (wait_for_start env execution) (\<lambda>(ready, startup, over).
       if ready then (if mode = COORDINATED then release_pair env execution requested else ret (\<lambda>_. None))
       else if mode = COORDINATED then cancel_pair env startup over
       else
         bind_io (late_reason env startup over 0) (\<lambda>r0.
         bind_io (late_reason env startup over 1) (\<lambda>r1. ret ((\<lambda>_. None)(0 := r0, 1 := r1)))))"

subsection \<open>Finishing\<close>

text \<open>Which workers are alive after the joins, whether the slot is over, and which ignore their cancellation.\<close>

definition finish_pair :: "dual_env \<Rightarrow> pyfloat option \<Rightarrow> ('s, (nat \<Rightarrow> bool) \<times> bool \<times> bool) dual_io" where
  "finish_pair env execution =
     bind_io (see_monotonic env) (\<lambda>_.
     bind_io (see_monotonic env) (\<lambda>_. bind_io (see_monotonic env) (\<lambda>_.
     bind_io (see_alive env 0) (\<lambda>a0. bind_io (see_alive env 1) (\<lambda>a1.
     bind_io (expired env execution) (\<lambda>over.
     bind_io (if a0 then tell (Cancel 0) else ret ()) (\<lambda>_. bind_io (if a1 then tell (Cancel 1) else ret ()) (\<lambda>_.
     bind_io (see_monotonic env) (\<lambda>_.
     bind_io (see_alive env 0) (\<lambda>b0. bind_io (if b0 then bind_io (see_monotonic env) (\<lambda>_. ret ()) else ret ()) (\<lambda>_.
     bind_io (see_alive env 1) (\<lambda>b1. bind_io (if b1 then bind_io (see_monotonic env) (\<lambda>_. ret ()) else ret ()) (\<lambda>_.
     bind_io (see_alive env 0) (\<lambda>c0. bind_io (see_alive env 1) (\<lambda>c1.
       ret ((\<lambda>i. if i = 0 then a0 else a1), over, c0 \<or> c1))))))))))))))))"

subsection \<open>Outcomes\<close>

definition run_matches :: "string \<Rightarrow> expected_attempt \<Rightarrow> run_result \<Rightarrow> bool" where
  "run_matches b e r \<longleftrightarrow>
     run_batch_id r = b \<and> run_attempt_id r = ea_attempt_id e \<and> run_radio_id r = ea_radio_id e
     \<and> run_plan_id r = ea_plan_id e"

definition judge ::
  "dual_env \<Rightarrow> batch_definition \<Rightarrow> reasons \<Rightarrow> (nat \<Rightarrow> bool) \<Rightarrow> bool \<Rightarrow> nat \<Rightarrow> ('s, string + run_result) dual_io" where
  "judge env d failed late over i =
     (case failed i of
        Some reason \<Rightarrow> ret (Inl reason)
      | None \<Rightarrow>
          if late i then ret (Inl (if over then ''capture_slot_deadline'' else ''capture_finish_timeout''))
          else
            (\<lambda>w. case run_worker (ended env (dw_log w) i) of
                (_, Some reason) \<Rightarrow> (Inr (Inl reason), w)
              | (None, None) \<Rightarrow> (Inr (Inl ''capture_runner_no_result''), w)
              | (Some r, None) \<Rightarrow>
                  bind_io (see_ready env i) (\<lambda>b. ret
                    (if \<not> b then Inl ''capture_start_gate_missing''
                     else if \<not> run_matches (bd_batch_id d) (expected_attempts d ! i) r then Inl ''capture_identity_mismatch''
                     else Inr r)) w))"

definition same_recording :: "string + run_result \<Rightarrow> string + run_result \<Rightarrow> bool" where
  "same_recording x y \<longleftrightarrow>
     (case (x, y) of
        (Inr r, Inr q) \<Rightarrow> published_recording_id (run_recording r) = published_recording_id (run_recording q)
      | _ \<Rightarrow> False)"

fun outcome_for ::
  "dual_env \<Rightarrow> batch_definition \<Rightarrow> expected_attempt \<Rightarrow> string + run_result \<Rightarrow> ('s, attempt_outcome) dual_io" where
  "outcome_for env d e (Inr r) =
     lift (map_sum (Raised \<circ> map_exn Batch_Raised) id (checked attempt_outcome_post_init
       \<lparr>ao_schema = schema_v0_1 outcome_schema_id, ao_batch_id = bd_batch_id d, ao_attempt_id = ea_attempt_id e,
        ao_radio_id = ea_radio_id e, ao_plan_id = ea_plan_id e, ao_state = SUCCEEDED,
        ao_terminal = run_completed r, ao_observed_start = Some (observed_start r),
        ao_recording = Some (run_recording r), ao_failure_reason = None\<rparr>))"
| "outcome_for env d e (Inl reason) =
     bind_io (see_now env) (\<lambda>now.
       lift (map_sum (Raised \<circ> map_exn Batch_Raised) id (checked attempt_outcome_post_init
         \<lparr>ao_schema = schema_v0_1 outcome_schema_id, ao_batch_id = bd_batch_id d, ao_attempt_id = ea_attempt_id e,
          ao_radio_id = ea_radio_id e, ao_plan_id = ea_plan_id e, ao_state = FAILED,
          ao_terminal = now, ao_observed_start = None, ao_recording = None,
          ao_failure_reason = Some (if reason = [] then ''capture_runner_no_result'' else reason)\<rparr>)))"

definition pair_outcomes ::
  "dual_env \<Rightarrow> batch_definition \<Rightarrow> reasons \<Rightarrow> (nat \<Rightarrow> bool) \<Rightarrow> bool \<Rightarrow> ('s, attempt_outcome \<times> attempt_outcome) dual_io" where
  "pair_outcomes env d failed late over =
     bind_io (judge env d failed late over 0) (\<lambda>x.
     bind_io (judge env d failed late over 1) (\<lambda>y.
     let conflict = Inl ''capture_recording_identity_conflict'';
         (x, y) = (if same_recording x y then (conflict, conflict) else (x, y)) in
     bind_io (outcome_for env d (expected_attempts d ! 0) x) (\<lambda>a.
     bind_io (outcome_for env d (expected_attempts d ! 1) y) (\<lambda>b. ret (a, b)))))"

subsection \<open>The whole execution\<close>

definition record_checked_outcome ::
  "(attempt_outcome \<Rightarrow> ('s, batch_snapshot) batch_io) \<Rightarrow> batch_definition \<Rightarrow> attempt_outcome \<Rightarrow> ('s, batch_snapshot) dual_io" where
  "record_checked_outcome record_op d a =
     bind_io (recorder (record_op a)) (\<lambda>s.
       if bs_definition s \<noteq> d \<or> a \<notin> set (outcomes s) then raises (RuntimeError Outcome_Lost) else ret s)"

definition run_pair ::
  "dual_env \<Rightarrow> (attempt_outcome \<Rightarrow> ('s, batch_snapshot) batch_io) \<Rightarrow> batch_definition \<Rightarrow> pyfloat option
     \<Rightarrow> ('s, batch_snapshot) dual_io" where
  "run_pair env record_op d execution =
     bind_io (start_pair env (bd_mode d) execution (ea_requested_start (expected_attempts d ! 0))) (\<lambda>failed.
     bind_io (finish_pair env execution) (\<lambda>(late, over, ignored).
     bind_io (pair_outcomes env d failed late over) (\<lambda>(a, b).
     bind_io (record_checked_outcome record_op d a) (\<lambda>_.
     bind_io (record_checked_outcome record_op d b) (\<lambda>s.
       if \<not> terminal s then raises (RuntimeError Not_Terminal)
       else if ignored then raises (RuntimeError Cleanup_Ignored) else ret s)))))"

text \<open>A slot whose deadline has passed: both attempts fail without being started.\<close>

definition skip_pair ::
  "dual_env \<Rightarrow> (attempt_outcome \<Rightarrow> ('s, batch_snapshot) batch_io) \<Rightarrow> batch_definition \<Rightarrow> ('s, batch_snapshot) dual_io" where
  "skip_pair env record_op d =
     bind_io (outcome_for env d (expected_attempts d ! 0) (Inl ''capture_slot_deadline'')) (\<lambda>a.
     bind_io (recorder (record_op a)) (\<lambda>_.
     bind_io (outcome_for env d (expected_attempts d ! 1) (Inl ''capture_slot_deadline'')) (\<lambda>b.
       recorder (record_op b))))"

definition dual_execute ::
  "dual_env \<Rightarrow> (batch_definition \<Rightarrow> ('s, batch_snapshot) batch_io) \<Rightarrow> (attempt_outcome \<Rightarrow> ('s, batch_snapshot) batch_io)
     \<Rightarrow> batch_definition \<Rightarrow> string list \<Rightarrow> int option \<Rightarrow> ('s, batch_snapshot) dual_io" where
  "dual_execute env register_op record_op d runners deadline =
     (if set runners \<noteq> set (map ea_radio_id (expected_attempts d)) then raises (RuntimeError Wrong_Runners)
      else
        bind_io (recorder (register_op d)) (\<lambda>initial.
          if bs_definition initial \<noteq> d then raises (RuntimeError Other_Definition)
          else if outcomes initial \<noteq> []
          then (if terminal initial then ret initial else raises (RuntimeError Partial_Batch))
          else
            (case deadline of
               None \<Rightarrow> run_pair env record_op d None
             | Some t \<Rightarrow>
                 if t < 0 then raises (ValueError Bad_Dual_Time)
                 else
                   bind_io (see_now env) (\<lambda>now.
                     let remaining = fdiv (round64 (of_int (t - now))) 1000000000 in
                     if remaining \<le> 0 then skip_pair env record_op d
                     else
                       bind_io (see_monotonic env) (\<lambda>m. run_pair env record_op d (Some (fadd m remaining)))))))"

end
