(* ===== verification/Dual_Claims.thy ===== *)
theory Dual_Claims
  imports Dual
begin

section \<open>What the dual executor guarantees\<close>

text \<open>
  Assertions about the log of an execution and the programs of \<open>Dual\<close> one after the other, then the
  execution over any store of batches that keeps the contract \<open>batch_store\<close>, and over the one in SQLite.
\<close>

subsection \<open>What the executor has seen\<close>

text \<open>
  Assertions about a run: the store is the given one, each of the given facts held of the log at some
  point, and every release so far followed its evidence: either both attempts were cancelled before it,
  or both were seen ready and the gate, if there is one, admitted it.
\<close>

definition release_justified :: "dual_env \<Rightarrow> dual_event list \<Rightarrow> bool" where
  "release_justified env l \<longleftrightarrow>
     Cancel 0 \<in> set l \<and> Cancel 1 \<in> set l
     \<or> Ready 0 True \<in> set l \<and> Ready 1 True \<in> set l \<and> (admission env = None \<or> Admitted True \<in> set l)"

definition releases_justified :: "dual_env \<Rightarrow> dual_event list \<Rightarrow> bool" where
  "releases_justified env l \<longleftrightarrow> (\<forall>p q. l = p @ Release # q \<longrightarrow> release_justified env p)"

type_synonym log_fact = "dual_event list \<Rightarrow> bool"

definition held :: "log_fact \<Rightarrow> dual_event list \<Rightarrow> bool" where
  "held F l \<longleftrightarrow> (\<exists>p q. l = p @ q \<and> F p)"

definition sees :: "dual_event \<Rightarrow> log_fact" where
  "sees e l \<longleftrightarrow> e \<in> set l"

definition seen :: "dual_env \<Rightarrow> 's \<Rightarrow> log_fact set \<Rightarrow> 's dual_world \<Rightarrow> bool" where
  "seen env s Fs w \<longleftrightarrow>
     dw_store w = s \<and> releases_justified env (dw_log w) \<and> (\<forall>F \<in> Fs. held F (dw_log w))"

lemma held_sees: "held (sees e) l \<longleftrightarrow> e \<in> set l"
  by (auto simp: held_def sees_def split_list intro: exI [of _ l] exI [of _ "[]"])

lemma held_grow: "held F l \<Longrightarrow> held F (l @ k)"
  unfolding held_def by (metis append.assoc)

lemma held_now: "F l \<Longrightarrow> held F l"
  by (auto simp: held_def intro: exI [of _ l])

lemma releases_justified_snoc:
  "releases_justified env (l @ [e]) \<longleftrightarrow> releases_justified env l \<and> (e = Release \<longrightarrow> release_justified env l)"
proof -
  have "l @ [e] = p @ Release # q \<longleftrightarrow> (q = [] \<and> e = Release \<and> p = l \<or> (\<exists>r. q = r @ [e] \<and> l = p @ Release # r))" for p q
    by (cases q rule: rev_cases) auto
  then show ?thesis by (auto simp: releases_justified_def)
qed

lemma seen_mono: "seen env s Fs w \<Longrightarrow> Gs \<subseteq> Fs \<Longrightarrow> seen env s Gs w"
  by (auto simp: seen_def)

lemma seen_more:
  assumes "seen env s Fs w" and "e = Release \<Longrightarrow> release_justified env (dw_log w)"
  shows "seen env s (insert (sees e) Fs) (w\<lparr>dw_log := dw_log w @ [e]\<rparr>)"
  using assms by (auto simp: seen_def releases_justified_snoc held_sees held_grow)

lemma seen_step:
  assumes "seen env s Fs w" and "e \<noteq> Release"
  shows "seen env s Fs (w\<lparr>dw_log := dw_log w @ [e]\<rparr>)" "seen env s (insert (sees e) Fs) (w\<lparr>dw_log := dw_log w @ [e]\<rparr>)"
  using seen_more [OF assms(1), of e] assms(2) by (auto elim: seen_mono)

lemma see_ready_triple: "triple (seen env s Fs) (see_ready env i) (\<lambda>b. seen env s (insert (sees (Ready i b)) Fs)) X"
  and see_alive_triple: "triple (seen env s Fs) (see_alive env i) (\<lambda>b. seen env s (insert (sees (Alive i b)) Fs)) X"
  and see_monotonic_triple: "triple (seen env s Fs) (see_monotonic env) (\<lambda>_. seen env s Fs) X"
  and see_now_triple: "triple (seen env s Fs) (see_now env) (\<lambda>n w. seen env s Fs w \<and> (\<exists>l. n = now_ns env l)) X"
  and tell_triple: "e \<noteq> Release \<Longrightarrow> triple (seen env s Fs) (tell e) (\<lambda>_. seen env s (insert (sees e) Fs)) X"
  by (auto simp: triple_def see_ready_def see_alive_def see_monotonic_def see_now_def tell_def Let_def intro: seen_step)

lemma release_triple:
  assumes "{sees (Cancel 0), sees (Cancel 1)} \<subseteq> Fs
    \<or> {sees (Ready 0 True), sees (Ready 1 True)} \<subseteq> Fs \<and> (admission env = None \<or> sees (Admitted True) \<in> Fs)"
  shows "triple (seen env s Fs) (tell Release) (\<lambda>_. seen env s Fs) X"
  unfolding triple_def
proof (intro allI impI)
  fix w
  assume w: "seen env s Fs w"
  have h: "e \<in> set (dw_log w)" if "sees e \<in> Fs" for e
    using w that held_sees [of e] by (auto simp: seen_def)
  have "release_justified env (dw_log w)" using assms h by (auto simp: release_justified_def)
  from seen_more [OF w this] have "seen env s Fs (w\<lparr>dw_log := dw_log w @ [Release]\<rparr>)" by (rule seen_mono) auto
  then show "case tell Release w of (Inr a, t) \<Rightarrow> seen env s Fs t | (Inl e, t) \<Rightarrow> X e t"
    by (simp add: tell_def)
qed

text \<open>Reading and cancelling never raise and keep every assertion.\<close>

named_theorems steady

definition steadily :: "dual_env \<Rightarrow> ('s, 'a) dual_io \<Rightarrow> bool" where
  "steadily env m \<longleftrightarrow> (\<forall>s Fs w. seen env s Fs w \<longrightarrow> (\<exists>a u. m w = (Inr a, u) \<and> seen env s Fs u))"

lemma steadily_triple: "steadily env m \<Longrightarrow> triple (seen env s Fs) m (\<lambda>_. seen env s Fs) X"
  unfolding steadily_def triple_def by (fastforce split: prod.split sum.split)

lemma steadily_bind [steady]:
  fixes m :: "('s, 'a) dual_io"
  assumes "steadily env m" and "\<And>a. steadily env (f a)"
  shows "steadily env (bind_io m f)"
  unfolding steadily_def
proof (intro allI impI)
  fix s Fs and w :: "'s dual_world"
  assume "seen env s Fs w"
  with assms(1) obtain a u where u: "m w = (Inr a, u)" "seen env s Fs u" unfolding steadily_def by blast
  with assms(2) obtain b v where "f a u = (Inr b, v)" "seen env s Fs v" unfolding steadily_def by blast
  with u show "\<exists>b v. bind_io m f w = (Inr b, v) \<and> seen env s Fs v" by (simp add: bind_mem)
qed

lemma steadily_basic [steady]:
  "steadily env (ret a)" "steadily env m \<Longrightarrow> steadily env n \<Longrightarrow> steadily env (if b then m else n)"
  "steadily env (see_ready env i)" "steadily env (see_alive env i)" "steadily env (see_monotonic env)"
  "steadily env (see_now env)" "steadily env (tell (Cancel i))"
  by (simp_all add: steadily_def ret_def see_ready_def see_alive_def see_monotonic_def see_now_def tell_def Let_def seen_step)

lemma steadily_expired [steady]: "steadily env (expired env d)"
  by (cases d) (auto simp: expired_def intro!: steady)

lemma steadily_unready [steady]: "steadily env (unready_and env v i)" "steadily env (any_unready env v)"
  unfolding any_unready_def unready_and_def by (intro steady)+

lemma steadily_wait [steady]: "steadily env (wait_first env)"
  unfolding wait_first_def by (intro steady)

text \<open>After a steady step the same is known.\<close>

lemma steady_then:
  assumes "steadily env m" and "\<And>a. triple (seen env s Fs) (f a) Q X"
  shows "triple (seen env s Fs) (bind_io m f) Q X"
  by (rule triple_bind [OF steadily_triple [OF assms(1)] assms(2)])

lemma all_ready_triple:
  "triple (seen env s Fs) (all_ready env)
     (\<lambda>b. seen env s (Fs \<union> (if b then {sees (Ready 0 True), sees (Ready 1 True)} else {}))) X"
  unfolding all_ready_def
proof (intro triple_bind [OF see_ready_triple] triple_if)
  fix b
  assume "b"
  then show "triple (seen env s (insert (sees (Ready 0 b)) Fs)) (see_ready env 1)
      (\<lambda>b. seen env s (Fs \<union> (if b then {sees (Ready 0 True), sees (Ready 1 True)} else {}))) X"
    by (intro triple_weaken [OF see_ready_triple]) (auto elim: seen_mono)
qed (auto intro!: triple_ret elim: seen_mono)


text \<open>Waiting: both seen ready, or not; it raises only when the given number of turns was not enough.\<close>

text \<open>The clock passes the startup timeout within the given number of readings.\<close>

definition clock_advances :: "dual_env \<Rightarrow> bool" where
  "clock_advances env \<longleftrightarrow> 0 < polls env
     \<and> (\<forall>l k. polls env \<le> length k \<longrightarrow> fadd (monotonic env l) (startup_timeout env) \<le> monotonic env (l @ k))"

definition unfinished :: "dual_env \<Rightarrow> 's \<Rightarrow> dual_exn \<Rightarrow> 's dual_world \<Rightarrow> bool" where
  "unfinished env s e w \<longleftrightarrow> e = Still_Starting \<and> \<not> clock_advances env \<and> seen env s {} w"

definition adds :: "nat \<Rightarrow> ('s, 'a) dual_io \<Rightarrow> bool" where
  "adds n m \<longleftrightarrow> (\<forall>w. \<exists>a u q. m w = (Inr a, u) \<and> dw_log u = dw_log w @ q \<and> n \<le> length q)"

lemma addsE:
  assumes "adds n m"
  obtains a u q where "m w = (Inr a, u)" "dw_log u = dw_log w @ q" "n \<le> length q"
  using assms unfolding adds_def by blast

lemma adds_bind:
  fixes m :: "('s, 'a) dual_io"
  assumes "adds n m" and "\<And>a. adds 0 (f a)"
  shows "adds n (bind_io m f)"
  unfolding adds_def
proof
  fix w :: "'s dual_world"
  obtain a u q where m: "m w = (Inr a, u)" "dw_log u = dw_log w @ q" "n \<le> length q"
    by (rule addsE [OF assms(1)])
  obtain b v p where f: "f a u = (Inr b, v)" "dw_log v = dw_log u @ p" by (rule addsE [OF assms(2)])
  have "dw_log v = dw_log w @ q @ p" "n \<le> length (q @ p)" using m(2,3) f(2) by simp_all
  with f(1) bind_mem [of m w a u f] m(1) show "\<exists>b v q. bind_io m f w = (Inr b, v) \<and> dw_log v = dw_log w @ q \<and> n \<le> length q"
    by auto
qed

lemma adds_basic:
  "adds 0 (ret a)" "adds 1 (see_ready env i)" "adds 1 (see_alive env i)" "adds 1 (see_monotonic env)"
  by (simp_all add: adds_def ret_def see_ready_def see_alive_def see_monotonic_def Let_def)

lemma adds_none: "adds 1 m \<Longrightarrow> adds 0 m"
  unfolding adds_def by blast

lemma adds_if: "adds n m \<Longrightarrow> adds n k \<Longrightarrow> adds n (if b then m else k)"
  by simp

lemmas adds_rules = adds_bind adds_if adds_basic adds_none [OF adds_basic(2)] adds_none [OF adds_basic(3)]

lemma adds_turn: "adds 1 (all_ready env)" "adds 1 (unready_and env v i)" "adds 1 (any_unready env v)" "adds 0 (wait_first env)"
proof -
  show u: "adds 1 (unready_and env v i)" for i unfolding unready_and_def by (intro adds_rules)
  show "adds 1 (all_ready env)" unfolding all_ready_def by (intro adds_rules)
  show "adds 1 (any_unready env v)" unfolding any_unready_def by (intro adds_rules u adds_none [OF u])
  show "adds 0 (wait_first env)" unfolding wait_first_def by (intro adds_rules)
qed

lemma adds_expired: "adds 0 (expired env x)"
  unfolding expired_def by (cases x) (auto intro!: adds_bind adds_basic adds_none [OF adds_basic(4)])

lemma fsub_over: "d \<le> t \<Longrightarrow> fsub d t \<le> 0"
  using round64_nonneg [of "t - d"] round64_minus [of "t - d"] by (simp add: fsub_def)

lemma poll_start_ends:
  assumes "0 < k" and "\<And>q. k \<le> length q \<Longrightarrow> d \<le> monotonic env (dw_log w @ q)"
  shows "\<exists>r u. poll_start k env d x w = (Inr r, u)"
  using assms
proof (induction k arbitrary: w)
  case (Suc k)
  obtain b u q where b: "all_ready env w = (Inr b, u)" "dw_log u = dw_log w @ q" by (rule addsE [OF adds_turn(1)])
  show ?case
  proof (cases b)
    case True
    with b(1) have "poll_start (Suc k) env d x w = (Inr (True, False, False), u)" by (simp add: bind_mem ret_def)
    then show ?thesis by blast
  next
    case unready: False
    obtain c v p where c: "any_unready env False u = (Inr c, v)" "dw_log v = dw_log u @ p" "1 \<le> length p"
      by (rule addsE [OF adds_turn(3)])
    show ?thesis
    proof (cases c)
      case True
      with b(1) c(1) unready have "poll_start (Suc k) env d x w = (Inr (False, False, False), v)"
        by (simp add: bind_mem ret_def)
      then show ?thesis by blast
    next
      case waiting: False
      let ?t = "monotonic env (dw_log v)" and ?z = "v\<lparr>dw_log := dw_log v @ [Clock]\<rparr>"
      have t: "see_monotonic env v = (Inr ?t, ?z)" by (simp add: see_monotonic_def)
      have eq: "poll_start (Suc k) env d x w =
          (if fsub d ?t \<le> 0 then bind_io (expired env x) (\<lambda>x. ret (False, True, x))
           else bind_io (wait_first env) (\<lambda>_. poll_start k env d x)) ?z"
        using b(1) c(1) t unready waiting by (simp add: bind_mem)
      show ?thesis
      proof (cases "fsub d ?t \<le> 0")
        case True
        have "adds 0 (bind_io (expired env x) (\<lambda>x. ret (False, True, x)))"
          by (rule adds_bind [OF adds_expired adds_basic(1)])
        then obtain r y p where "bind_io (expired env x) (\<lambda>x. ret (False, True, x)) ?z = (Inr r, y)" by (rule addsE)
        with eq True have "poll_start (Suc k) env d x w = (Inr r, y)" by simp
        then show ?thesis by blast
      next
        case False
        have "k \<noteq> 0"
        proof
          assume "k = 0"
          with Suc.prems(2) [of "q @ p"] c(2,3) b(2) have "d \<le> ?t" by simp
          with False fsub_over show False by blast
        qed
        obtain y a p' where y: "wait_first env ?z = (Inr a, y)" "dw_log y = dw_log ?z @ p'" by (rule addsE [OF adds_turn(4)])
        have "d \<le> monotonic env (dw_log y @ m)" if "k \<le> length m" for m
          using Suc.prems(2) [of "q @ p @ [Clock] @ p' @ m"] that b(2) c(2) y(2) by simp
        with Suc.IH [of y] \<open>k \<noteq> 0\<close> obtain r u' where "poll_start k env d x y = (Inr r, u')" by blast
        with eq False y(1) have "poll_start (Suc k) env d x w = (Inr r, u')" by (simp add: bind_mem)
        then show ?thesis by blast
      qed
    qed
  qed
qed simp

lemma wait_for_start_ends:
  assumes "clock_advances env"
  shows "\<exists>r u. wait_for_start env x w = (Inr r, u)"
proof -
  let ?t = "monotonic env (dw_log w)" and ?w = "w\<lparr>dw_log := dw_log w @ [Clock]\<rparr>"
  let ?d = "fadd ?t (startup_timeout env)"
  let ?e = "case x of None \<Rightarrow> ?d | Some e \<Rightarrow> min ?d e"
  have "?e \<le> monotonic env (dw_log ?w @ q)" if "polls env \<le> length q" for q
  proof -
    have "?d \<le> monotonic env (dw_log w @ [Clock] @ q)"
      using assms that unfolding clock_advances_def by (metis le_add2 le_trans length_append)
    then show ?thesis by (auto simp: min_def split: option.split)
  qed
  then have "\<exists>r u. poll_start (polls env) env ?e x ?w = (Inr r, u)"
    using assms by (intro poll_start_ends) (simp_all add: clock_advances_def)
  moreover have "wait_for_start env x w = poll_start (polls env) env ?e x ?w"
    by (cases x) (simp_all add: wait_for_start_def see_monotonic_def bind_io_def Let_def)
  ultimately show ?thesis by simp
qed

lemma poll_start_triple:
  "triple (seen env s Fs) (poll_start k env d x)
     (\<lambda>(b, _). seen env s (Fs \<union> (if b then {sees (Ready 0 True), sees (Ready 1 True)} else {})))
     (\<lambda>e w. e = Still_Starting \<and> seen env s {} w)"
proof (induction k)
  case 0
  show ?case by (auto intro!: triples elim: seen_mono)
next
  case (Suc k)
  show ?case
    unfolding poll_start.simps
  proof (rule triple_bind [OF all_ready_triple])
    fix b :: bool
    let ?Fs = "Fs \<union> (if b then {sees (Ready 0 True), sees (Ready 1 True)} else {})"
    have over: "triple (seen env s Fs) (bind_io (expired env x) (\<lambda>y. ret (False, True, y)))
        (\<lambda>(b, _). seen env s (Fs \<union> (if b then {sees (Ready 0 True), sees (Ready 1 True)} else {}))) (\<lambda>e w. e = Still_Starting \<and> seen env s {} w)"
      by (rule steady_then [OF steadily_expired]) (auto intro!: triple_ret)
    show "triple (seen env s ?Fs)
       (if b then ret (True, False, False)
        else bind_io (any_unready env False) (\<lambda>b.
          if b then ret (False, False, False)
          else bind_io (see_monotonic env) (\<lambda>t.
            if fsub d t \<le> 0 then bind_io (expired env x) (\<lambda>y. ret (False, True, y))
            else bind_io (wait_first env) (\<lambda>_. poll_start k env d x))))
        (\<lambda>(b, _). seen env s (Fs \<union> (if b then {sees (Ready 0 True), sees (Ready 1 True)} else {}))) (\<lambda>e w. e = Still_Starting \<and> seen env s {} w)"
      by (cases b) (auto intro!: triple_ret triple_if over Suc.IH steady_then [OF steadily_unready(2)]
          steady_then [OF steadily_basic(5)] steady_then [OF steadily_wait])
  qed
qed

lemma wait_for_start_triple:
  "triple (seen env s Fs) (wait_for_start env x)
     (\<lambda>(b, _). seen env s (Fs \<union> (if b then {sees (Ready 0 True), sees (Ready 1 True)} else {}))) (unfinished env s)"
proof -
  let ?Q = "\<lambda>(b, _). seen env s (Fs \<union> (if b then {sees (Ready 0 True), sees (Ready 1 True)} else {}))"
  have t: "triple (seen env s Fs) (wait_for_start env x) ?Q (\<lambda>e w. e = Still_Starting \<and> seen env s {} w)"
    unfolding wait_for_start_def Let_def by (rule steady_then [OF steadily_basic(5)]) (rule poll_start_triple)
  show ?thesis
    unfolding triple_def
  proof (intro allI impI)
    fix w
    assume w: "seen env s Fs w"
    show "case wait_for_start env x w of (Inr a, u) \<Rightarrow> ?Q a u | (Inl e, u) \<Rightarrow> unfinished env s e u"
      using tripleD [OF t w] tripleD_raise [OF t w] wait_for_start_ends [of env x w]
      by (cases "wait_for_start env x w") (auto simp: unfinished_def split: sum.split)
  qed
qed

subsection \<open>Reasons\<close>

definition dual_reasons :: "string list" where
  "dual_reasons =
     [''capture_startup_timeout'', ''capture_peer_startup_timeout'', ''capture_peer_startup_failed'',
      ''capture_finish_timeout'', ''capture_runner_failed'', ''capture_runner_no_result'',
      ''capture_start_gate_missing'', ''capture_release_window_missed'', ''capture_slot_deadline'',
      ''capture_identity_mismatch'', ''capture_recording_identity_conflict'']
     @ map str_failure [CHILD_BUILD, CYCLE_PREFLIGHT, HOST_SPOOL_PREFLIGHT, CATALOG_PREFLIGHT, RADIO_ATTESTATION,
         FIRST_SEGMENT_CONFIGURATION, CAPTURE_ENGINE, RECORDING_PUBLICATION, RECORDING_RESOLUTION, CHILD_CLEANUP]"

lemma dual_reasons_ok: "list_all failure_reason_ok dual_reasons" "[] \<notin> set dual_reasons"
  by code_simp+

lemma str_failure_reason: "str_failure c \<in> set dual_reasons"
  by (cases c) (simp_all add: dual_reasons_def)

definition reasons_ok :: "reasons \<Rightarrow> bool" where
  "reasons_ok f \<longleftrightarrow> (\<forall>i r. f i = Some r \<longrightarrow> r \<in> set dual_reasons)"

lemma reasons_ok_none [simp]: "reasons_ok (\<lambda>_. None)"
  by (simp add: reasons_ok_def)

definition reason_ok :: "string option \<Rightarrow> bool" where
  "reason_ok r \<longleftrightarrow> (case r of None \<Rightarrow> True | Some c \<Rightarrow> c \<in> set dual_reasons)"

lemma reasons_ok_two: "reason_ok r0 \<Longrightarrow> reason_ok r1 \<Longrightarrow> reasons_ok ((\<lambda>_. None)(0 := r0, 1 := r1))"
  by (auto simp: reasons_ok_def reason_ok_def)

lemma ask_admission_triple:
  "triple (seen env s Fs) (ask_admission env t)
     (\<lambda>b. seen env s (Fs \<union> (if b \<and> admission env \<noteq> None then {sees (Admitted True)} else {}))) X"
proof (cases "admission env")
  case None
  then show ?thesis by (simp add: triple_def ask_admission_def)
next
  case (Some admit)
  have "case ask_admission env t w of
      (Inr b, u) \<Rightarrow> seen env s (Fs \<union> (if b \<and> admission env \<noteq> None then {sees (Admitted True)} else {})) u
    | (Inl e, u) \<Rightarrow> X e u" if "seen env s Fs w" for w
    using seen_step [OF that, of "Admitted (admit (dw_log w) t = Some True)"] Some
    by (auto simp: ask_admission_def Let_def)
  then show ?thesis unfolding triple_def by blast
qed

lemma missed_reason: "missed b \<in> set dual_reasons"
  by (simp add: missed_def dual_reasons_def)

subsection \<open>The start\<close>

lemma release_pair_triple:
  assumes "{sees (Ready 0 True), sees (Ready 1 True)} \<subseteq> Fs"
  shows "triple (seen env s Fs) (release_pair env x t) (\<lambda>f w. seen env s {} w \<and> reasons_ok f) X"
  unfolding release_pair_def
proof (rule triple_bind [OF ask_admission_triple], rule steady_then [OF steadily_expired], rule triple_if)
  fix admitted over :: bool
  let ?Fs = "Fs \<union> (if admitted \<and> admission env \<noteq> None then {sees (Admitted True)} else {})"
  assume "admitted \<and> \<not> over"
  then have "triple (seen env s ?Fs) (tell Release) (\<lambda>_. seen env s ?Fs) X"
    using assms by (intro release_triple) auto
  then show "triple (seen env s ?Fs) (bind_io (tell Release) (\<lambda>_. ret (\<lambda>_. None)))
      (\<lambda>f w. seen env s {} w \<and> reasons_ok f) X"
    by (rule triple_bind) (auto intro!: triple_ret elim: seen_mono)
next
  fix admitted over :: bool
  let ?Fs = "Fs \<union> (if admitted \<and> admission env \<noteq> None then {sees (Admitted True)} else {})"
  let ?Gs = "insert (sees (Cancel 1)) (insert (sees (Cancel 0)) ?Fs)"
  have rel: "triple (seen env s ?Gs) (tell Release) (\<lambda>_. seen env s ?Gs) X" by (intro release_triple) auto
  have c0: "triple (seen env s ?Fs) (tell (Cancel 0)) (\<lambda>_. seen env s (insert (sees (Cancel 0)) ?Fs)) X"
    and c1: "triple (seen env s (insert (sees (Cancel 0)) ?Fs)) (tell (Cancel 1)) (\<lambda>_. seen env s ?Gs) X"
    by (rule tell_triple, simp)+
  have fin: "triple (seen env s ?Gs) (bind_io (tell Release) (\<lambda>_. ret [0 \<mapsto> missed x0, 1 \<mapsto> missed x1]))
      (\<lambda>f w. seen env s {} w \<and> reasons_ok f) X" for x0 x1
    by (rule triple_bind [OF rel]) (auto intro!: triple_ret simp: reasons_ok_def missed_reason split: if_splits elim: seen_mono)
  show "triple (seen env s ?Fs)
     (bind_io (tell (Cancel 0)) (\<lambda>_. bind_io (expired env x) (\<lambda>x0.
      bind_io (tell (Cancel 1)) (\<lambda>_. bind_io (expired env x) (\<lambda>x1.
      bind_io (tell Release) (\<lambda>_. ret [0 \<mapsto> missed x0, 1 \<mapsto> missed x1]))))))
     (\<lambda>f w. seen env s {} w \<and> reasons_ok f) X"
    by (rule triple_bind [OF c0], rule steady_then [OF steadily_expired], rule triple_bind [OF c1],
        rule steady_then [OF steadily_expired], rule fin)
qed

lemma triple_pure: "(C \<Longrightarrow> triple P m Q X) \<Longrightarrow> triple (\<lambda>w. P w \<and> C) m Q X"
  by (auto simp: triple_def)

lemma unready_reason_triple:
  "triple (seen env s Fs) (unready_reason env b over v i)
     (\<lambda>r w. seen env s (insert (sees (Cancel i)) Fs) w \<and> reason_ok r) X"
proof -
  let ?Gs = "insert (sees (Cancel i)) Fs"
  have c: "triple (seen env s Fs) (tell (Cancel i)) (\<lambda>_. seen env s ?Gs) X" by (rule tell_triple) simp
  have r: "triple (seen env s ?Gs) (ret a) (\<lambda>r w. seen env s ?Gs w \<and> reason_ok r) X" if "reason_ok a" for a
    using that by (auto intro: triple_ret)
  show ?thesis
    unfolding unready_reason_def
    by (rule triple_bind [OF c], rule triple_if, rule r, simp add: reason_ok_def dual_reasons_def,
        rule steady_then [OF steadily_basic(3)], rule triple_if, rule r, simp add: reason_ok_def dual_reasons_def,
        rule steady_then [OF steadily_basic(4)], rule r, simp add: reason_ok_def dual_reasons_def)
qed

lemma cancel_pair_triple:
  "triple (seen env s Fs) (cancel_pair env b over) (\<lambda>f w. seen env s {} w \<and> reasons_ok f) X"
  unfolding cancel_pair_def
proof (rule steady_then [OF steadily_unready(2)], rule triple_bind [OF unready_reason_triple], rule triple_pure,
    rule triple_bind [OF unready_reason_triple], rule triple_pure)
  fix v r0 r1
  let ?Gs = "insert (sees (Cancel 1)) (insert (sees (Cancel 0)) Fs)"
  assume r: "reason_ok r0" "reason_ok r1"
  have rel: "triple (seen env s ?Gs) (tell Release) (\<lambda>_. seen env s ?Gs) X" by (intro release_triple) auto
  show "triple (seen env s ?Gs) (bind_io (tell Release) (\<lambda>_. ret ((\<lambda>_. None)(0 := r0, 1 := r1))))
      (\<lambda>f w. seen env s {} w \<and> reasons_ok f) X"
    by (rule triple_bind [OF rel]) (use reasons_ok_two [OF r] in \<open>auto intro!: triple_ret elim: seen_mono\<close>)
qed

lemma late_reason_triple:
  "triple (seen env s Fs) (late_reason env b over i) (\<lambda>r w. seen env s Fs w \<and> reason_ok r) X"
proof -
  have r: "triple (seen env s Fs) (ret a) (\<lambda>r w. seen env s Fs w \<and> reason_ok r) X" if "reason_ok a" for a
    using that by (auto intro: triple_ret)
  show ?thesis
    unfolding late_reason_def
    by (rule steady_then [OF steadily_unready(1)], rule triple_if, rule steady_then [OF steadily_basic(7)])
      (rule r, simp add: reason_ok_def dual_reasons_def)+
qed

lemma start_pair_triple:
  "triple (seen env s Fs) (start_pair env mode x t) (\<lambda>f w. seen env s {} w \<and> reasons_ok f) (unfinished env s)"
  unfolding start_pair_def
proof (rule triple_bind [OF wait_for_start_triple])
  fix y :: "bool \<times> bool \<times> bool"
  obtain ready b over where y: "y = (ready, b, over)" by (cases y)
  let ?Gs = "Fs \<union> (if ready then {sees (Ready 0 True), sees (Ready 1 True)} else {})"
  have late: "triple (seen env s Gs)
      (bind_io (late_reason env b over 0) (\<lambda>r0.
       bind_io (late_reason env b over 1) (\<lambda>r1. ret ((\<lambda>_. None)(0 := r0, 1 := r1)))))
      (\<lambda>f w. seen env s {} w \<and> reasons_ok f) X" for Gs X
    by (rule triple_bind [OF late_reason_triple], rule triple_pure, rule triple_bind [OF late_reason_triple],
        rule triple_pure, rule triple_ret) (use reasons_ok_two in \<open>auto simp del: fun_upd_apply One_nat_def elim: seen_mono\<close>)
  have none: "triple (seen env s Gs) (ret (\<lambda>_. None)) (\<lambda>f w. seen env s {} w \<and> reasons_ok f) X" for Gs X
    by (auto intro!: triple_ret elim: seen_mono)
  show "triple (case y of (b, _) \<Rightarrow> seen env s (Fs \<union> (if b then {sees (Ready 0 True), sees (Ready 1 True)} else {})))
     (case y of (ready, startup, over) \<Rightarrow>
       if ready then (if mode = COORDINATED then release_pair env x t else ret (\<lambda>_. None))
       else if mode = COORDINATED then cancel_pair env startup over
       else
         bind_io (late_reason env startup over 0) (\<lambda>r0.
         bind_io (late_reason env startup over 1) (\<lambda>r1. ret ((\<lambda>_. None)(0 := r0, 1 := r1)))))
     (\<lambda>f w. seen env s {} w \<and> reasons_ok f) (unfinished env s)"
    unfolding y prod.case
    by (cases ready) (auto intro!: triple_if release_pair_triple cancel_pair_triple late none simp del: fun_upd_apply One_nat_def)
qed

subsection \<open>The end\<close>

lemma finish_pair_triple:
  "triple (seen env s Fs) (finish_pair env x)
     (\<lambda>(late, _). seen env s {sees (Alive 0 (late 0)), sees (Alive 1 (late 1))}) X"
  unfolding finish_pair_def
proof (rule steady_then [OF steadily_basic(5)], rule steady_then [OF steadily_basic(5)],
    rule steady_then [OF steadily_basic(5)], rule triple_bind [OF see_alive_triple], rule triple_bind [OF see_alive_triple])
  fix a0 a1 :: bool
  let ?Gs = "insert (sees (Alive 1 a1)) (insert (sees (Alive 0 a0)) Fs)"
  have c: "steadily env (if a then tell (Cancel i) else ret ())" "steadily env (if a then bind_io (see_monotonic env) (\<lambda>_. ret ()) else ret ())"
    for a i by (intro steady)+
  show "triple (seen env s ?Gs)
     (bind_io (expired env x) (\<lambda>over.
      bind_io (if a0 then tell (Cancel 0) else ret ()) (\<lambda>_. bind_io (if a1 then tell (Cancel 1) else ret ()) (\<lambda>_.
      bind_io (see_monotonic env) (\<lambda>_.
      bind_io (see_alive env 0) (\<lambda>b0. bind_io (if b0 then bind_io (see_monotonic env) (\<lambda>_. ret ()) else ret ()) (\<lambda>_.
      bind_io (see_alive env 1) (\<lambda>b1. bind_io (if b1 then bind_io (see_monotonic env) (\<lambda>_. ret ()) else ret ()) (\<lambda>_.
      bind_io (see_alive env 0) (\<lambda>c0. bind_io (see_alive env 1) (\<lambda>c1.
        ret ((\<lambda>i::nat. if i = 0 then a0 else a1), over, c0 \<or> c1))))))))))))
     (\<lambda>(late, _). seen env s {sees (Alive 0 (late 0)), sees (Alive 1 (late 1))}) X"
    by (intro steady_then [OF steadily_expired] steady_then [OF c(1)] steady_then [OF steadily_basic(5)]
        steady_then [OF steadily_basic(4)] steady_then [OF c(2)] triple_ret) (auto elim: seen_mono)
qed

text \<open>What an outcome answers to: a worker that was seen dead and ready and had returned a matching result.\<close>

definition ends :: "dual_env \<Rightarrow> nat \<Rightarrow> run_result \<Rightarrow> log_fact" where
  "ends env i r l \<longleftrightarrow> ended env l i = Returned (Some r) \<and> Alive i False \<in> set l"

definition verdict_facts :: "dual_env \<Rightarrow> nat \<Rightarrow> string + run_result \<Rightarrow> log_fact set" where
  "verdict_facts env i x = (case x of Inl _ \<Rightarrow> {} | Inr r \<Rightarrow> {sees (Ready i True), ends env i r})"

definition sound_verdict :: "dual_env \<Rightarrow> batch_definition \<Rightarrow> nat \<Rightarrow> string + run_result \<Rightarrow> bool" where
  "sound_verdict env d i x \<longleftrightarrow>
     (case x of Inl c \<Rightarrow> c \<in> set dual_reasons
      | Inr r \<Rightarrow> run_matches (bd_batch_id d) (expected_attempts d ! i) r \<and> (\<exists>l. ended env l i = Returned (Some r)))"

lemma judge_triple:
  assumes "reasons_ok f" and "sees (Alive i (late i)) \<in> Fs"
  shows "triple (seen env s Fs) (judge env d f late over i)
    (\<lambda>x w. seen env s (Fs \<union> verdict_facts env i x) w \<and> sound_verdict env d i x) X"
  unfolding triple_def
proof (intro allI impI)
  fix w
  assume w: "seen env s Fs w"
  let ?Q = "\<lambda>r. case r of (Inr x, u) \<Rightarrow> seen env s (Fs \<union> verdict_facts env i x) u \<and> sound_verdict env d i x | (Inl e, u) \<Rightarrow> X e u"
  have failed: "?Q (ret (Inl c) w)" if "c \<in> set dual_reasons" for c
    using w that by (simp add: ret_def verdict_facts_def sound_verdict_def)
  show "?Q (judge env d f late over i w)"
  proof (cases "f i")
    case (Some c)
    with assms(1) have "c \<in> set dual_reasons" by (auto simp: reasons_ok_def)
    with failed [of c] Some show ?thesis by (simp add: judge_def)
  next
    case none: None
    show ?thesis
    proof (cases "late i")
      case True
      have "(if over then ''capture_slot_deadline'' else ''capture_finish_timeout'') \<in> set dual_reasons"
        by (simp add: dual_reasons_def)
      from failed [OF this] none True show ?thesis by (simp add: judge_def)
    next
      case dead: False
      have alive: "Alive i False \<in> set (dw_log w)" using w assms(2) dead by (force simp: seen_def held_sees)
      show ?thesis
      proof (cases "ended env (dw_log w) i")
        case (Returned r)
        show ?thesis
        proof (cases r)
          case None
          from failed [of "''capture_runner_no_result''"] none dead Returned None show ?thesis
            by (simp add: judge_def dual_reasons_def ret_def)
        next
          case (Some q)
          let ?b = "is_ready env (dw_log w) i"
          let ?u = "w\<lparr>dw_log := dw_log w @ [Ready i ?b]\<rparr>"
          let ?x = "if \<not> ?b then Inl ''capture_start_gate_missing''
            else if \<not> run_matches (bd_batch_id d) (expected_attempts d ! i) q then Inl ''capture_identity_mismatch''
            else Inr q"
          have j: "judge env d f late over i w = (Inr ?x, ?u)"
            using none dead Returned Some by (simp add: judge_def bind_io_def see_ready_def ret_def Let_def)
          have u: "seen env s (insert (sees (Ready i ?b)) Fs) ?u" by (rule seen_step(2) [OF w]) simp
          have "ends env i q (dw_log w)" using Returned Some alive by (simp add: ends_def)
          then have "held (ends env i q) (dw_log ?u)" using held_grow [OF held_now] by simp
          with u have "seen env s (Fs \<union> verdict_facts env i ?x) ?u"
            by (auto simp: verdict_facts_def seen_def)
          moreover have "sound_verdict env d i ?x"
            using Returned Some by (auto simp: sound_verdict_def dual_reasons_def)
          ultimately show ?thesis unfolding j by simp
        qed
      next
        case (Runner_Failure c)
        with failed [OF str_failure_reason, of c] none dead show ?thesis by (simp add: judge_def ret_def)
      next
        case Runner_Raised
        with failed [of "''capture_runner_failed''"] none dead show ?thesis
          by (simp add: judge_def ret_def dual_reasons_def)
      next
        case Killed
        with failed [of "''capture_runner_no_result''"] none dead show ?thesis
          by (simp add: judge_def ret_def dual_reasons_def)
      qed
    qed
  qed
qed

definition justified :: "dual_env \<Rightarrow> batch_definition \<Rightarrow> dual_event list \<Rightarrow> nat \<Rightarrow> attempt_outcome \<Rightarrow> bool" where
  "justified env d l i a \<longleftrightarrow>
     (let e = expected_attempts d ! i in
      ao_schema a = schema_v0_1 outcome_schema_id \<and> ao_batch_id a = bd_batch_id d
      \<and> ao_attempt_id a = ea_attempt_id e \<and> ao_radio_id a = ea_radio_id e \<and> ao_plan_id a = ea_plan_id e
      \<and> attempt_outcome_post_init a = Inr ()
      \<and> (case ao_state a of
           SUCCEEDED \<Rightarrow>
             Ready i True \<in> set l
             \<and> (\<exists>r. held (ends env i r) l \<and> run_matches (bd_batch_id d) e r \<and> ao_terminal a = run_completed r
                  \<and> ao_observed_start a = Some (observed_start r) \<and> ao_recording a = Some (run_recording r))
         | FAILED \<Rightarrow> ao_recording a = None \<and> (\<exists>c \<in> set dual_reasons. ao_failure_reason a = Some c)))"

text \<open>What the executor relies on: results their constructor built, and a clock after the epoch.\<close>

definition env_ok :: "dual_env \<Rightarrow> bool" where
  "env_ok env \<longleftrightarrow> (\<forall>l. 0 \<le> now_ns env l)
     \<and> (\<forall>l i r. ended env l i = Returned (Some r) \<longrightarrow> run_result_post_init r = Inr () \<and> built_published (run_recording r))"

lemma justified_grow: "justified env d l i a \<Longrightarrow> justified env d (l @ k) i a"
  using held_grow unfolding justified_def Let_def by (cases "ao_state a") (simp_all, blast)

lemma outcome_for_triple:
  assumes "env_ok env" and "sound_verdict env d i x" and "verdict_facts env i x \<subseteq> Fs"
  shows "triple (seen env s Fs) (outcome_for env d (expected_attempts d ! i) x)
    (\<lambda>a w. seen env s Fs w \<and> justified env d (dw_log w) i a
       \<and> ao_recording a = (case x of Inl _ \<Rightarrow> None | Inr r \<Rightarrow> Some (run_recording r))) X"
proof (cases x)
  case (Inr r)
  then obtain l where m: "run_matches (bd_batch_id d) (expected_attempts d ! i) r" "ended env l i = Returned (Some r)"
    using assms(2) by (auto simp: sound_verdict_def)
  with assms(1) have "run_result_post_init r = Inr ()" by (auto simp: env_ok_def)
  then have t: "0 \<le> observed_start r" "observed_start r \<le> run_completed r" by (auto simp: run_result_post_init_def)
  have h: "held (ends env i r) (dw_log w) \<and> Ready i True \<in> set (dw_log w)" if "seen env s Fs w" for w
    using that assms(3) Inr by (auto simp: verdict_facts_def seen_def held_sees)
  from m t h show ?thesis
    unfolding Inr outcome_for.simps
    by (intro triple_lift)
      (force simp: checked_def attempt_outcome_post_init_def justified_def Let_def split: sum.splits)+
next
  case (Inl c)
  then have c: "c \<in> set dual_reasons" using assms(2) by (simp add: sound_verdict_def)
  then have "c \<noteq> []" "failure_reason_ok c" using dual_reasons_ok by (auto simp: list_all_iff)
  moreover have "\<not> now_ns env l < 0" for l using assms(1) by (simp add: env_ok_def not_less)
  ultimately show ?thesis
    unfolding Inl outcome_for.simps
    by (intro triple_bind [OF see_now_triple] triple_lift)
      (use c in \<open>auto simp: checked_def attempt_outcome_post_init_def justified_def Let_def split: sum.splits\<close>)
qed

definition justified_at :: "dual_env \<Rightarrow> batch_definition \<Rightarrow> nat \<Rightarrow> attempt_outcome \<Rightarrow> log_fact" where
  "justified_at env d i a l \<longleftrightarrow> justified env d l i a"

lemma justified_held: "held (justified_at env d i a) l \<longleftrightarrow> justified env d l i a"
  unfolding held_def justified_at_def using justified_grow by (metis append.right_neutral)

definition recording_of :: "string + run_result \<Rightarrow> published_recording_ref option" where
  "recording_of x = (case x of Inl _ \<Rightarrow> None | Inr r \<Rightarrow> Some (run_recording r))"

lemma outcome_for_justified:
  assumes "env_ok env" and "sound_verdict env d i x" and "verdict_facts env i x \<subseteq> Fs"
  shows "triple (seen env s Fs) (outcome_for env d (expected_attempts d ! i) x)
    (\<lambda>a w. seen env s (insert (justified_at env d i a) Fs) w \<and> ao_recording a = recording_of x) X"
  by (rule triple_weaken [OF outcome_for_triple [OF assms]]) (auto simp: seen_def justified_held recording_of_def)

definition apart :: "attempt_outcome \<Rightarrow> attempt_outcome \<Rightarrow> bool" where
  "apart a b \<longleftrightarrow> (\<forall>p q. ao_recording a = Some p \<longrightarrow> ao_recording b = Some q \<longrightarrow>
     published_recording_id p \<noteq> published_recording_id q)"

lemma two_outcomes_triple:
  assumes "env_ok env" and "sound_verdict env d 0 x" "sound_verdict env d 1 y"
    and "verdict_facts env 0 x \<subseteq> Fs" "verdict_facts env 1 y \<subseteq> Fs" and "\<not> same_recording x y"
  shows "triple (seen env s Fs)
    (bind_io (outcome_for env d (expected_attempts d ! 0) x) (\<lambda>a.
     bind_io (outcome_for env d (expected_attempts d ! 1) y) (\<lambda>b. ret (a, b))))
    (\<lambda>(a, b) w. seen env s {} w \<and> justified env d (dw_log w) 0 a \<and> justified env d (dw_log w) 1 b \<and> apart a b) X"
proof (rule triple_bind [OF outcome_for_justified [OF assms(1,2,4)]], rule triple_pure,
    rule triple_bind [OF outcome_for_justified [OF assms(1,3)]])
  fix a
  show "verdict_facts env 1 y \<subseteq> insert (justified_at env d 0 a) Fs" using assms(5) by blast
next
  fix a b :: attempt_outcome
  assume a: "ao_recording a = recording_of x"
  have apart: "apart a b" if "ao_recording b = recording_of y"
    using assms(6) a that by (auto simp: apart_def same_recording_def recording_of_def split: sum.splits)
  show "triple (\<lambda>w. seen env s (insert (justified_at env d 1 b) (insert (justified_at env d 0 a) Fs)) w
        \<and> ao_recording b = recording_of y) (ret (a, b))
     (\<lambda>(a, b) w. seen env s {} w \<and> justified env d (dw_log w) 0 a \<and> justified env d (dw_log w) 1 b \<and> apart a b) X"
    by (rule triple_ret) (auto simp: seen_def justified_held apart simp del: One_nat_def)
qed

lemma pair_outcomes_triple:
  assumes "env_ok env" and "reasons_ok f"
  shows "triple (seen env s {sees (Alive 0 (late 0)), sees (Alive 1 (late 1))}) (pair_outcomes env d f late over)
    (\<lambda>(a, b) w. seen env s {} w \<and> justified env d (dw_log w) 0 a \<and> justified env d (dw_log w) 1 b \<and> apart a b) X"
  unfolding pair_outcomes_def
proof (rule triple_bind [OF judge_triple [OF assms(2)]], simp, rule triple_pure,
    rule triple_bind [OF judge_triple [OF assms(2)]], simp, rule triple_pure)
  fix x y
  assume v: "sound_verdict env d 0 x" "sound_verdict env d 1 y"
  let ?Fs = "{sees (Alive 0 (late 0)), sees (Alive 1 (late 1))} \<union> verdict_facts env 0 x \<union> verdict_facts env 1 y"
  let ?c = "Inl ''capture_recording_identity_conflict'' :: string + run_result"
  have c: "sound_verdict env d i ?c" "verdict_facts env i ?c \<subseteq> ?Fs" "\<not> same_recording ?c ?c" for i
    by (simp_all add: sound_verdict_def verdict_facts_def same_recording_def dual_reasons_def)
  show "triple (seen env s ?Fs)
     (let conflict = ?c; (x, y) = (if same_recording x y then (conflict, conflict) else (x, y)) in
      bind_io (outcome_for env d (expected_attempts d ! 0) x) (\<lambda>a.
      bind_io (outcome_for env d (expected_attempts d ! 1) y) (\<lambda>b. ret (a, b))))
     (\<lambda>(a, b) w. seen env s {} w \<and> justified env d (dw_log w) 0 a \<and> justified env d (dw_log w) 1 b \<and> apart a b) X"
  proof (cases "same_recording x y")
    case True
    then show ?thesis using two_outcomes_triple [OF assms(1) c(1) c(1) c(2) c(2) c(3)] by (simp add: Let_def)
  next
    case False
    have "verdict_facts env 0 x \<subseteq> ?Fs" "verdict_facts env 1 y \<subseteq> ?Fs" by auto
    with two_outcomes_triple [OF assms(1) v this False] False show ?thesis by (simp add: Let_def)
  qed
qed

subsection \<open>Recording the pair\<close>

lemma initial_concrete: "initial_snapshot d = concrete d (\<lambda>_. None)"
  by (simp add: initial_snapshot_def concrete_def List.map_filter_def)

text \<open>The two outcomes of a batch without outcomes are accepted, in this order.\<close>

lemma pair_is_recorded:
  assumes "valid_definition d" and "justified env d l 0 a" and "justified env d l 1 b" and "apart a b"
  obtains s t where "batch_record (initial_snapshot d) a = Inr s" "batch_record s b = Inr t"
    "valid_snapshot s" "valid_snapshot t" "bs_definition s = d" "bs_definition t = d"
    "outcomes s = [a]" "outcomes t = [a, b]"
proof -
  obtain e f where ef: "expected_attempts d = [e, f]" "ea_attempt_id e < ea_attempt_id f"
    using assms(1) by (rule valid_definitionE)
  then have ne: "ea_attempt_id e \<noteq> ea_attempt_id f" "ea_attempt_id f \<noteq> ea_attempt_id e" by auto
  let ?v = "[ea_attempt_id e \<mapsto> a]" and ?w = "[ea_attempt_id e \<mapsto> a, ea_attempt_id f \<mapsto> b]"
  have a: "ao_attempt_id a = ea_attempt_id e" "routed d a" and b: "ao_attempt_id b = ea_attempt_id f" "routed d b"
    using assms(2,3) ef(1) by (auto simp: justified_def Let_def routed_def)
  have w: "admissible d ?w"
    using a b ne assms(4) unfolding admissible_def keyed_def apart_def by (auto split: if_splits)
  then have v: "admissible d ?v" by (rule admissible_subset) (use ne in \<open>auto split: if_splits\<close>)
  have "put d (\<lambda>_. None) a = Some ?v" "put d ?v b = Some ?w"
    using v w a b ne by (auto simp: put_def)
  then have "batch_record (initial_snapshot d) a = Inr (concrete d ?v)" "batch_record (concrete d ?v) b = Inr (concrete d ?w)"
    unfolding initial_concrete using batch_record_put [OF assms(1)] v by auto
  moreover have "outcomes (concrete d ?v) = [a]" "outcomes (concrete d ?w) = [a, b]"
    using ef(1) ne by (simp_all add: concrete_def Let_def)
  ultimately show thesis
    using that valid_concrete [OF assms(1) v] valid_concrete [OF assms(1) w] by auto
qed

context batch_store
begin

text \<open>Recording with nobody else at the store.\<close>

lemma record_alone:
  assumes "ok s" and "view s (ao_batch_id a) = Some x" and "bs_batch_id x = ao_batch_id a"
    and "valid_definition (bs_definition x)" and "valid_snapshot x" and "accepts a" and "batch_record x a = Inr z"
  shows "\<exists>t. coordinator_record get_op cas_op (\<lambda>_. (id, id)) (Suc n) a s = (Inr z, t)
    \<and> ok t \<and> view t = (view s)(ao_batch_id a \<mapsto> z)"
proof -
  have get: "get_op (ao_batch_id a) s = (Inr (Some x), s)" using get_view [OF assms(1)] assms(2) by simp
  show ?thesis
  proof (cases "z = x")
    case True
    with get assms(1,2,7) show ?thesis by (simp add: fun_upd_idem)
  next
    case False
    have "storable z" using record_storable [OF view_storable [OF assms(1,2)] assms(6,7)] .
    moreover have "bs_revision z = bs_revision x + 1" using batch_record_revision [OF assms(4,5,7)] False by simp
    moreover have "bs_definition z = bs_definition x" using record_evolves(1) [OF assms(4,5,7)] by (simp add: evolves_def)
    ultimately obtain t where "cas_op (ao_batch_id a) (bs_revision x) z s = (Inr z, t)" "ok t"
        "view t = (view s)(ao_batch_id a \<mapsto> z)"
      using cas_swap [OF assms(1) _ assms(2) refl, of z] assms(3) by (auto simp: bs_batch_id_def)
    with get False assms(3,7) show ?thesis by simp
  qed
qed

end

subsection \<open>An execution\<close>

text \<open>
  How an execution over a batch without outcomes ends: with both outcomes stored, each justified by what
  was seen, and returned unless a worker ignored its cancellation; or it is still starting.
\<close>

definition executed ::
  "dual_env \<Rightarrow> batch_definition \<Rightarrow> ('s \<Rightarrow> string \<Rightarrow> batch_snapshot option) \<Rightarrow> dual_exn + batch_snapshot \<Rightarrow> 's dual_world \<Rightarrow> bool" where
  "executed env d view res w \<longleftrightarrow>
     releases_justified env (dw_log w)
     \<and> (res = Inl Still_Starting \<and> \<not> clock_advances env \<and> view (dw_store w) (bd_batch_id d) = Some (initial_snapshot d)
        \<or> (\<exists>s a b. view (dw_store w) (bd_batch_id d) = Some s \<and> bs_definition s = d \<and> valid_snapshot s
             \<and> outcomes s = [a, b] \<and> justified env d (dw_log w) 0 a \<and> justified env d (dw_log w) 1 b \<and> apart a b
             \<and> (res = Inr s \<or> res = Inl (Raised (RuntimeError Cleanup_Ignored)))))"

lemma recorder_Inr: "m (dw_store w) = (Inr x, t) \<Longrightarrow> recorder m w = (Inr x, w\<lparr>dw_store := t\<rparr>)"
  by (simp add: recorder_def)

lemma recorded_pair_terminal:
  "valid_definition d \<Longrightarrow> bs_definition s = d \<Longrightarrow> outcomes s = [a, b] \<Longrightarrow> terminal s"
  by (erule valid_definitionE) (simp add: terminal_def)

context batch_store
begin

abbreviation record_op :: "nat \<Rightarrow> attempt_outcome \<Rightarrow> ('s, batch_snapshot) batch_io" where
  "record_op n \<equiv> coordinator_record get_op cas_op (\<lambda>_. (id, id)) (Suc n)"

lemma record_pair:
  assumes "valid_definition d" and "justified env d l 0 a" and "justified env d l 1 b" and "apart a b"
    and "ok s" and "view s (bd_batch_id d) = Some (initial_snapshot d)" and "accepts a" "accepts b"
  obtains x y t u where "record_op n a s = (Inr x, t)" "record_op n b t = (Inr y, u)" "ok u"
    "view u (bd_batch_id d) = Some y" "valid_snapshot y" "bs_definition x = d" "bs_definition y = d"
    "outcomes x = [a]" "outcomes y = [a, b]"
proof -
  obtain x y where xy: "batch_record (initial_snapshot d) a = Inr x" "batch_record x b = Inr y"
    "valid_snapshot x" "valid_snapshot y" "bs_definition x = d" "bs_definition y = d"
    "outcomes x = [a]" "outcomes y = [a, b]"
    by (rule pair_is_recorded [OF assms(1-4)])
  have id: "ao_batch_id a = bd_batch_id d" "ao_batch_id b = bd_batch_id d"
    using assms(2,3) by (auto simp: justified_def Let_def)
  have i: "bs_batch_id (initial_snapshot d) = bd_batch_id d" "bs_definition (initial_snapshot d) = d"
    "valid_snapshot (initial_snapshot d)"
    by (simp_all add: initial_snapshot_def bs_batch_id_def batch_snapshot_post_init_def)
  obtain t where t: "record_op n a s = (Inr x, t)" "ok t" "view t = (view s)(bd_batch_id d \<mapsto> x)"
    using record_alone [OF assms(5) _ _ _ i(3) assms(7) xy(1), of n] assms(1,6) id i by auto
  obtain u where u: "record_op n b t = (Inr y, u)" "ok u" "view u = (view t)(bd_batch_id d \<mapsto> y)"
    using record_alone [OF t(2) _ _ _ xy(3) assms(8) xy(2), of n] assms(1) id t(3) xy(5)
    by (auto simp: bs_batch_id_def)
  from that [OF t(1) u(1,2) _ xy(4-8)] u(3) show thesis by simp
qed

lemma run_pair_executed:
  assumes "env_ok env" and "valid_definition d" and "seen env s {} w" and "ok s"
    and "view s (bd_batch_id d) = Some (initial_snapshot d)"
    and "\<forall>l i a. i < 2 \<longrightarrow> justified env d l i a \<longrightarrow> accepts a"
  shows "\<exists>res u. run_pair env (record_op n) d x w = (res, u) \<and> ok (dw_store u) \<and> executed env d view res u"
proof -
  let ?start = "start_pair env (bd_mode d) x (ea_requested_start (expected_attempts d ! 0))"
  obtain r0 u0 where start: "?start w = (r0, u0)" by (cases "?start w")
  show ?thesis
  proof (cases r0)
    case (Inl e)
    with tripleD_raise [OF start_pair_triple assms(3)] start have "unfinished env s e u0" by blast
    then have "executed env d view (Inl e :: dual_exn + batch_snapshot) u0" "ok (dw_store u0)"
      using assms(4,5) by (auto simp: executed_def unfinished_def seen_def)
    with start Inl show ?thesis by (simp add: run_pair_def bind_io_def)
  next
    case (Inr f)
    with tripleD [OF start_pair_triple assms(3)] start have f: "seen env s {} u0" "reasons_ok f" by blast+
    obtain r1 u1 where fin: "finish_pair env x u0 = (r1, u1)" by (cases "finish_pair env x u0")
    have "\<exists>late over ignored. r1 = Inr (late, over, ignored) \<and> seen env s {sees (Alive 0 (late 0)), sees (Alive 1 (late 1))} u1"
      using finish_pair_triple [of env s "{}" x "\<lambda>_ _. False"] f(1) fin
      unfolding triple_def by (cases r1) (auto split: prod.splits dest: spec)
    then obtain late over ignored where late: "r1 = Inr (late, over, ignored)"
        "seen env s {sees (Alive 0 (late 0)), sees (Alive 1 (late 1))} u1"
      by blast
    obtain r2 u2 where out: "pair_outcomes env d f late over u1 = (r2, u2)" by (cases "pair_outcomes env d f late over u1")
    have "\<exists>a b. r2 = Inr (a, b) \<and> seen env s {} u2 \<and> justified env d (dw_log u2) 0 a \<and> justified env d (dw_log u2) 1 b \<and> apart a b"
      using pair_outcomes_triple [OF assms(1) f(2), of s late d over "\<lambda>_ _. False"] late(2) out
      unfolding triple_def by (cases r2) (auto split: prod.splits dest: spec)
    then obtain a b where ab: "r2 = Inr (a, b)" "seen env s {} u2" "justified env d (dw_log u2) 0 a"
        "justified env d (dw_log u2) 1 b" "apart a b"
      by blast
    have "accepts a" "accepts b" using assms(6) ab(3,4) by (metis pos2, metis one_less_numeral_iff semiring_norm(76))
    then obtain y z t v where rec: "record_op n a s = (Inr y, t)" "record_op n b t = (Inr z, v)" "ok v"
        "view v (bd_batch_id d) = Some z" "valid_snapshot z" "bs_definition y = d" "bs_definition z = d"
        "outcomes y = [a]" "outcomes z = [a, b]"
      by (rule record_pair [OF assms(2) ab(3-5) assms(4,5), where n = n])
    let ?t = "u2\<lparr>dw_store := t\<rparr>" and ?v = "u2\<lparr>dw_store := v\<rparr>"
    have "dw_store u2 = s" using ab(2) by (simp add: seen_def)
    then have c: "record_checked_outcome (record_op n) d a u2 = (Inr y, ?t)"
      "record_checked_outcome (record_op n) d b ?t = (Inr z, ?v)"
      using recorder_Inr [of "record_op n a" u2] recorder_Inr [of "record_op n b" ?t] rec
      by (simp_all add: record_checked_outcome_def bind_mem ret_def del: coordinator_record.simps)
    have "terminal z" by (rule recorded_pair_terminal [OF assms(2) rec(7,9)])
    then have "run_pair env (record_op n) d x w =
        (if ignored then Inl (Raised (RuntimeError Cleanup_Ignored)) else Inr z, ?v)"
      using start Inr fin late(1) out ab(1) c
      by (simp add: run_pair_def bind_mem ret_def raises_def lift_def del: coordinator_record.simps)
    moreover have "executed env d view (if ignored then Inl (Raised (RuntimeError Cleanup_Ignored)) else Inr z) ?v"
      using ab rec by (simp add: executed_def seen_def)
    ultimately show ?thesis using rec(3) by simp
  qed
qed

end

context batch_store
begin

lemma skip_pair_executed:
  assumes "env_ok env" and "valid_definition d" and "seen env s {} w" and "ok s"
    and "view s (bd_batch_id d) = Some (initial_snapshot d)"
    and "\<forall>l i a. i < 2 \<longrightarrow> justified env d l i a \<longrightarrow> accepts a"
  shows "\<exists>res u. skip_pair env (record_op n) d w = (res, u) \<and> ok (dw_store u) \<and> executed env d view res u"
proof -
  let ?c = "Inl ''capture_slot_deadline'' :: string + run_result"
  have c: "sound_verdict env d i ?c" "verdict_facts env i ?c \<subseteq> {}" for i
    by (simp_all add: sound_verdict_def verdict_facts_def dual_reasons_def)
  have out: "\<exists>a u. outcome_for env d (expected_attempts d ! i) ?c w = (Inr a, u) \<and> seen env s {} u
      \<and> (\<exists>q. dw_log u = dw_log w @ q) \<and> justified env d (dw_log u) i a \<and> ao_recording a = None"
    if "seen env s {} w" for i s and w :: "'s dual_world"
  proof -
    let ?m = "outcome_for env d (expected_attempts d ! i) ?c"
    obtain r u where m: "?m w = (r, u)" by (cases "?m w")
    have "\<exists>q. dw_log (snd (?m w)) = dw_log w @ q" by (auto simp: bind_io_def see_now_def lift_def)
    then have log: "\<exists>q. dw_log u = dw_log w @ q" using m by simp
    note t = outcome_for_justified [where s = s and i = i and Fs = "{}" and X = "\<lambda>_ _. False", OF assms(1) c]
    show ?thesis
    proof (cases r)
      case (Inl e)
      with m tripleD_raise [OF t that, of e u] show ?thesis by simp
    next
      case (Inr a)
      with m tripleD [OF t that, of a u] log show ?thesis
        by (auto simp: seen_def justified_held recording_of_def simp del: outcome_for.simps)
    qed
  qed
  obtain a u where a: "outcome_for env d (expected_attempts d ! 0) ?c w = (Inr a, u)" "seen env s {} u"
      "justified env d (dw_log u) 0 a" "ao_recording a = None"
    using out [OF assms(3), of 0] by blast
  have su: "dw_store u = s" using a(2) by (simp add: seen_def)
  obtain r t where t: "record_op n a s = (r, t)" by (cases "record_op n a s")
  let ?u = "u\<lparr>dw_store := t\<rparr>"
  have "seen env t {} ?u" using a(2) by (simp add: seen_def)
  then obtain b v where b: "outcome_for env d (expected_attempts d ! 1) ?c ?u = (Inr b, v)" "seen env t {} v"
      "\<exists>q. dw_log v = dw_log u @ q" "justified env d (dw_log v) 1 b" "ao_recording b = None"
    using out [of t ?u 1] by auto
  have ja: "justified env d (dw_log v) 0 a" using a(3) b(3) justified_grow by auto
  have ap: "apart a b" using a(4) by (simp add: apart_def)
  have "accepts a" "accepts b" using assms(6) ja b(4) by (metis pos2, metis one_less_numeral_iff semiring_norm(76))
  then obtain y z x v' where rec: "record_op n a s = (Inr y, x)" "record_op n b x = (Inr z, v')" "ok v'"
      "view v' (bd_batch_id d) = Some z" "valid_snapshot z" "bs_definition y = d" "bs_definition z = d"
      "outcomes y = [a]" "outcomes z = [a, b]"
    by (rule record_pair [OF assms(2) ja b(4) ap assms(4,5), where n = n])
  let ?v = "v\<lparr>dw_store := v'\<rparr>"
  have "dw_store v = t" "x = t" using b(2) rec(1) t by (simp_all add: seen_def)
  then have "recorder (record_op n a) u = (Inr y, ?u)" "recorder (record_op n b) v = (Inr z, ?v)"
    using recorder_Inr [of "record_op n a" u] recorder_Inr [of "record_op n b" v] rec su
    by (simp_all del: coordinator_record.simps)
  then have "skip_pair env (record_op n) d w = (Inr z, ?v)"
    using a(1) b(1) by (simp add: skip_pair_def bind_mem del: coordinator_record.simps outcome_for.simps)
  moreover have "executed env d view (Inr z) ?v"
    using b(2,4) ja ap rec by (simp add: executed_def seen_def)
  ultimately show ?thesis using rec(3) by simp
qed

lemma dual_executed:
  fixes w :: "'s dual_world"
  assumes "env_ok env" and "valid_definition d" and "storable (initial_snapshot d)" and "ok (dw_store w)"
    and "view (dw_store w) (bd_batch_id d) \<in> {None, Some (initial_snapshot d)}" and "dw_log w = []"
    and "set runners = set (map ea_radio_id (expected_attempts d))"
    and "case deadline of None \<Rightarrow> True | Some t \<Rightarrow> 0 \<le> t"
    and "\<forall>l i a. i < 2 \<longrightarrow> justified env d l i a \<longrightarrow> accepts a"
  shows "\<exists>res u. dual_execute env (batch_register create_op) (record_op n) d runners deadline w = (res, u)
    \<and> ok (dw_store u) \<and> executed env d view res u"
proof -
  have i: "bs_definition (initial_snapshot d) = d" "outcomes (initial_snapshot d) = []"
    "bs_batch_id (initial_snapshot d) = bd_batch_id d" "valid_snapshot (initial_snapshot d)"
    by (simp_all add: initial_snapshot_def bs_batch_id_def batch_snapshot_post_init_def)
  have "\<exists>t. batch_register create_op d (dw_store w) = (Inr (initial_snapshot d), t) \<and> ok t
      \<and> view t (bd_batch_id d) = Some (initial_snapshot d)"
  proof (cases "view (dw_store w) (bd_batch_id d)")
    case None
    from register_returns [OF assms(4) None assms(2,3)] show ?thesis by auto
  next
    case (Some c)
    with assms(5) have "create_op (initial_snapshot d) (dw_store w) = (Inr (initial_snapshot d), dw_store w)"
      using create_again [OF assms(4), of "initial_snapshot d"] i by auto
    with i Some assms(4,5) show ?thesis
      by (auto simp: batch_register_def bind_io_def lift_def ret_def checked_def)
  qed
  then obtain t where t: "batch_register create_op d (dw_store w) = (Inr (initial_snapshot d), t)" "ok t"
      "view t (bd_batch_id d) = Some (initial_snapshot d)"
    by blast
  let ?w = "w\<lparr>dw_store := t\<rparr>"
  have s: "seen env t {} ?w" using assms(6) by (simp add: seen_def releases_justified_def)
  note reg = recorder_Inr [of "batch_register create_op d" w, OF t(1)]
  note run = run_pair_executed [OF assms(1,2) _ t(2,3) assms(9), where n = n]
  have eq: "dual_execute env (batch_register create_op) (record_op n) d runners deadline w =
      (case deadline of
         None \<Rightarrow> run_pair env (record_op n) d None ?w
       | Some e \<Rightarrow>
           bind_io (see_now env) (\<lambda>now.
             let remaining = fdiv (round64 (of_int (e - now))) 1000000000 in
             if remaining \<le> 0 then skip_pair env (record_op n) d
             else bind_io (see_monotonic env) (\<lambda>m. run_pair env (record_op n) d (Some (fadd m remaining)))) ?w)"
    using assms(7,8) i reg by (cases deadline) (simp_all add: dual_execute_def bind_mem del: coordinator_record.simps)
  show ?thesis
  proof (cases deadline)
    case None
    with run [OF s, where x = None] eq show ?thesis by simp
  next
    case (Some e)
    let ?u = "?w\<lparr>dw_log := [Clock]\<rparr>" and ?v = "?w\<lparr>dw_log := [Clock, Clock]\<rparr>"
    let ?now = "now_ns env []" and ?m = "monotonic env [Clock]"
    let ?rem = "fdiv (round64 (of_int (e - ?now))) 1000000000"
    have u: "seen env t {} ?u" and v: "seen env t {} ?v"
      using seen_step(1) [OF s, of Clock] seen_step(1) [OF seen_step(1) [OF s, of Clock], of Clock] assms(6) by simp_all
    have "dual_execute env (batch_register create_op) (record_op n) d runners deadline w =
        (if ?rem \<le> 0 then skip_pair env (record_op n) d ?u
         else run_pair env (record_op n) d (Some (fadd ?m ?rem)) ?v)"
      unfolding eq using Some assms(6)
      by (simp add: bind_io_def see_now_def see_monotonic_def Let_def)
    with run [OF v, where x = "Some (fadd ?m ?rem)"] skip_pair_executed [OF assms(1,2) u t(2,3) assms(9), where n = n]
    show ?thesis by simp
  qed
qed

text \<open>A batch with outcomes is not captured again.\<close>

lemma dual_decided:
  fixes w :: "'s dual_world"
  assumes "ok (dw_store w)" and "view (dw_store w) (bd_batch_id d) = Some s" and "bs_definition s = d"
    and "outcomes s \<noteq> []" and "set runners = set (map ea_radio_id (expected_attempts d))"
  shows "dual_execute env (batch_register create_op) (record_op n) d runners deadline w =
    (if terminal s then Inr s else Inl (Raised (RuntimeError Partial_Batch)), w)"
proof -
  have i: "bs_definition (initial_snapshot d) = d" "bs_batch_id (initial_snapshot d) = bd_batch_id d"
    "valid_snapshot (initial_snapshot d)"
    by (simp_all add: initial_snapshot_def bs_batch_id_def batch_snapshot_post_init_def)
  have "create_op (initial_snapshot d) (dw_store w) = (Inr s, dw_store w)"
    using create_again [OF assms(1), of "initial_snapshot d" s] i assms(2,3) by simp
  then have "batch_register create_op d (dw_store w) = (Inr s, dw_store w)"
    using i assms(3) by (simp add: batch_register_def bind_io_def lift_def ret_def checked_def bs_batch_id_def)
  from recorder_Inr [of "batch_register create_op d" w, OF this] show ?thesis
    using assms(3-5) by (simp add: dual_execute_def bind_mem ret_def raises_def lift_def del: coordinator_record.simps)
qed

end

subsection \<open>Over the store in SQLite\<close>

definition dual_sql ::
  "(batch_table \<Rightarrow> int) \<Rightarrow> nat \<Rightarrow> dual_env \<Rightarrow> batch_definition \<Rightarrow> string list \<Rightarrow> int option
     \<Rightarrow> (batch_table, batch_snapshot) dual_io" where
  "dual_sql clock retries env d runners deadline =
     dual_execute env (batch_register (\<lambda>x t. batch_sql_create (clock t) x t))
       (batch_sql_record clock (\<lambda>_. (id, id)) retries) d runners deadline"

lemma held_ends: "held (ends env i r) l \<Longrightarrow> \<exists>k. ended env k i = Returned (Some r)"
  by (auto simp: held_def ends_def)

lemma justified_built:
  assumes "built_batch d" and "env_ok env" and "i < 2" and "justified env d l i a"
  shows "built_outcome a"
proof -
  from assms(1) have v: "valid_definition d" and e: "list_all built_expected (expected_attempts d)"
    by (simp_all add: built_batch_def)
  obtain x y where "expected_attempts d = [x, y]" using v by (rule valid_definitionE)
  then have e: "built_expected (expected_attempts d ! i)" using e assms(3) by (auto simp: less_2_cases_iff)
  have schema: "built_schema (schema_v0_1 outcome_schema_id)" by code_simp
  have rec: "built_published p" if p: "ao_recording a = Some p" for p
  proof (cases "ao_state a")
    case SUCCEEDED
    with assms(4) p obtain r where "held (ends env i r) l" "p = run_recording r" by (auto simp: justified_def Let_def)
    then show ?thesis using held_ends assms(2) unfolding env_ok_def by blast
  next
    case FAILED
    with assms(4) p show ?thesis by (simp add: justified_def Let_def)
  qed
  show ?thesis
    using assms(1,4) e schema rec by (simp add: built_outcome_def justified_def Let_def built_batch_def built_expected_def)
qed

lemma initial_built:
  assumes "built_batch d"
  shows "built_snapshot (initial_snapshot d)"
proof -
  have "built_schema (schema_v0_1 state_schema_id)" by code_simp
  with assms show ?thesis by (simp add: built_snapshot_def initial_snapshot_def batch_snapshot_post_init_def)
qed

lemma dual_sql_executed:
  assumes "env_ok env" and "built_batch d" and "0 < retries" and "batch_table_ok tbl"
    and "batch_view tbl (bd_batch_id d) \<in> {None, Some (initial_snapshot d)}"
    and "set runners = set (map ea_radio_id (expected_attempts d))"
    and "case deadline of None \<Rightarrow> True | Some t \<Rightarrow> 0 \<le> t"
  shows "\<exists>res w. dual_sql clock retries env d runners deadline \<lparr>dw_store = tbl, dw_log = []\<rparr> = (res, w)
    \<and> batch_table_ok (dw_store w) \<and> executed env d batch_view res w"
proof -
  obtain n where n: "retries = Suc n" using assms(3) by (cases retries) auto
  have "\<forall>l i a. i < 2 \<longrightarrow> justified env d l i a \<longrightarrow> built_outcome a" using justified_built [OF assms(2,1)] by blast
  moreover have "valid_definition d" using assms(2) by (simp add: built_batch_def)
  ultimately show ?thesis
    using sqlite_store.dual_executed [OF assms(1) _ initial_built [OF assms(2)],
        of "\<lparr>dw_store = tbl, dw_log = []\<rparr>" runners deadline clock n] assms(4-7)
    unfolding dual_sql_def batch_sql_record_def n by simp
qed

text \<open>
  C3. Whatever the two capture threads, the clocks and the release gate do, an execution over a batch that
  has no outcome yet leaves the batch with one outcome per attempt, and each says what was seen: a success
  holds the times and the recording of the matching result the runner returned, of a thread that was seen
  dead and whose control was seen ready, and no recording counts twice; a failure has a reason of the fixed
  list. It returns this snapshot, or raises because a thread ignored its cancellation; or it still waits for
  the start and the batch has no outcome. Every common release came after both attempts were seen ready and
  the gate admitted it, or after both were cancelled.
\<close>

theorem dual_outcomes_are_justified:
  assumes "env_ok env" and "built_batch d" and "0 < retries" and "batch_table_ok tbl"
    and "batch_view tbl (bd_batch_id d) \<in> {None, Some (initial_snapshot d)}"
    and "set runners = set (map ea_radio_id (expected_attempts d))"
    and "case deadline of None \<Rightarrow> True | Some t \<Rightarrow> 0 \<le> t"
  shows "\<exists>res w. dual_sql clock retries env d runners deadline \<lparr>dw_store = tbl, dw_log = []\<rparr> = (res, w)
    \<and> batch_table_ok (dw_store w) \<and> releases_justified env (dw_log w)
    \<and> (res = Inl Still_Starting \<and> batch_view (dw_store w) (bd_batch_id d) = Some (initial_snapshot d)
       \<or> (\<exists>s a b. batch_view (dw_store w) (bd_batch_id d) = Some s \<and> outcomes s = [a, b]
            \<and> justified env d (dw_log w) 0 a \<and> justified env d (dw_log w) 1 b \<and> apart a b
            \<and> (res = Inr s \<or> res = Inl (Raised (RuntimeError Cleanup_Ignored)))))"
  using dual_sql_executed [OF assms, of clock] unfolding executed_def by blast

text \<open>
  C9. A dual capture comes to its end: when the monotonic clock passes the startup timeout within the turns
  given, the execution leaves a complete batch in the store, whether the threads get ready, die or hang, and
  returns it unless a thread ignored its cancellation.
\<close>

theorem dual_execution_completes:
  assumes "clock_advances env" and "env_ok env" and "built_batch d" and "0 < retries" and "batch_table_ok tbl"
    and "batch_view tbl (bd_batch_id d) \<in> {None, Some (initial_snapshot d)}"
    and "set runners = set (map ea_radio_id (expected_attempts d))"
    and "case deadline of None \<Rightarrow> True | Some t \<Rightarrow> 0 \<le> t"
  shows "\<exists>res w s. dual_sql clock retries env d runners deadline \<lparr>dw_store = tbl, dw_log = []\<rparr> = (res, w)
    \<and> batch_view (dw_store w) (bd_batch_id d) = Some s \<and> terminal s \<and> valid_snapshot s
    \<and> (res = Inr s \<or> res = Inl (Raised (RuntimeError Cleanup_Ignored)))"
proof -
  obtain res w where w: "dual_sql clock retries env d runners deadline \<lparr>dw_store = tbl, dw_log = []\<rparr> = (res, w)"
      "executed env d batch_view res w"
    using dual_sql_executed [OF assms(2-8), of clock] by blast
  then obtain s a b where s: "batch_view (dw_store w) (bd_batch_id d) = Some s" "bs_definition s = d" "valid_snapshot s"
      "outcomes s = [a, b]" "res = Inr s \<or> res = Inl (Raised (RuntimeError Cleanup_Ignored))"
    using assms(1) unfolding executed_def by blast
  have "terminal s" using recorded_pair_terminal [OF _ s(2,4)] assms(3) by (simp add: built_batch_def)
  with w s show ?thesis by blast
qed

text \<open>
  A batch that has an outcome is never captured again: the executor reads nothing of the threads,
  releases and records nothing, and returns the stored batch when it is complete and raises when it is not.
\<close>

lemma decided_batch_is_not_recaptured:
  assumes "batch_table_ok tbl" and "batch_view tbl (bd_batch_id d) = Some s" and "bs_definition s = d"
    and "outcomes s \<noteq> []" and "set runners = set (map ea_radio_id (expected_attempts d))" and "0 < retries"
  shows "dual_sql clock retries env d runners deadline \<lparr>dw_store = tbl, dw_log = l\<rparr> =
    (if terminal s then Inr s else Inl (Raised (RuntimeError Partial_Batch)), \<lparr>dw_store = tbl, dw_log = l\<rparr>)"
proof -
  obtain n where n: "retries = Suc n" using assms(6) by (cases retries) auto
  show ?thesis
    using sqlite_store.dual_decided [of "\<lparr>dw_store = tbl, dw_log = l\<rparr>" d s runners env clock n deadline] assms(1-5)
    unfolding dual_sql_def batch_sql_record_def n by simp
qed

subsection \<open>The gate\<close>

lemma gate_turn:
  assumes "0 \<le> lateness" and "n < k" and "\<forall>m < n. \<not> cancelled m \<and> clock m < requested"
    and "cancelled n \<or> requested \<le> clock n"
  shows "gate_admit k lateness cancelled clock requested = Some (\<not> cancelled n \<and> clock n \<le> requested + lateness)"
  using assms(2-4)
proof (induction k arbitrary: n cancelled clock)
  case (Suc k)
  show ?case
  proof (cases n)
    case 0
    with Suc.prems show ?thesis by (auto simp: Let_def)
  next
    case (Suc m)
    have first: "\<not> cancelled 0" "clock 0 < requested" using Suc.prems(2) Suc by auto
    then have "gate_admit (Suc k) lateness cancelled clock requested
        = gate_admit k lateness (\<lambda>n. cancelled (Suc n)) (\<lambda>n. clock (Suc n)) requested"
      using assms(1) by (simp add: Let_def)
    then show ?thesis using Suc.IH [of m "\<lambda>n. cancelled (Suc n)" "\<lambda>n. clock (Suc n)"] Suc.prems Suc by simp
  qed
qed simp

lemma gate_waits:
  assumes "0 \<le> lateness" and "\<forall>n < k. \<not> cancelled n \<and> clock n < requested"
  shows "gate_admit k lateness cancelled clock requested = None"
  using assms(2)
proof (induction k arbitrary: cancelled clock)
  case (Suc k)
  have first: "\<not> cancelled 0" "\<not> requested \<le> clock 0" and rest: "\<forall>n < k. \<not> cancelled (Suc n) \<and> clock (Suc n) < requested"
    using Suc.prems by (auto simp: not_le)
  have "gate_admit k lateness (\<lambda>n. cancelled (Suc n)) (\<lambda>n. clock (Suc n)) requested = None" by (rule Suc.IH [OF rest])
  with first assms(1) show ?case by (simp add: Let_def)
qed simp

text \<open>
  C40. The release gate decides at the first turn at which it is cancelled or the clock has reached the
  requested start, and waits until then; it admits just when it is not cancelled at that turn and the clock is
  not past the start by more than the allowed lateness.
\<close>

theorem gate_admits_in_window:
  assumes "gate_init lateness interval = Inr ()"
  shows "gate_admit k lateness cancelled clock requested =
    (case find (\<lambda>n. cancelled n \<or> requested \<le> clock n) [0..<k] of
       None \<Rightarrow> None
     | Some n \<Rightarrow> Some (\<not> cancelled n \<and> requested \<le> clock n \<and> clock n \<le> requested + lateness))"
proof -
  have late: "0 \<le> lateness" using assms by (auto simp: gate_init_def split: if_splits)
  show ?thesis
  proof (cases "find (\<lambda>n. cancelled n \<or> requested \<le> clock n) [0..<k]")
    case None
    then have "\<forall>n < k. \<not> cancelled n \<and> clock n < requested" by (auto simp: find_None_iff not_le)
    with gate_waits [OF late this] None show ?thesis by simp
  next
    case (Some n)
    then have n: "n < k" "cancelled n \<or> requested \<le> clock n" "\<forall>m < n. \<not> cancelled m \<and> clock m < requested"
      by (auto simp: find_Some_iff not_le)
    with gate_turn [OF late n(1,3,2)] Some show ?thesis by auto
  qed
qed

subsection \<open>A concrete execution\<close>

definition demo_run :: "string \<Rightarrow> int \<Rightarrow> run_result" where
  "demo_run x start =
     \<lparr>run_schema = schema_v0_1 ''org.leo-flow.capture-attempt-run-result'', run_batch_id = ''cbatch_1'',
      run_attempt_id = ''cattempt_'' @ x, run_radio_id = ''radio_'' @ x, run_plan_id = ''plan_'' @ x,
      observed_start = start, run_completed = 5000, run_recording = demo_recording (''rec_'' @ x)\<rparr>"

text \<open>Both attempts get ready and succeed; the gate admits at its third reading of the clock.\<close>

definition demo_dual :: dual_env where
  "demo_dual =
     \<lparr>is_ready = \<lambda>_ _. True, is_alive = \<lambda>_ _. False,
      ended = \<lambda>_ i. Returned (Some (if i = 0 then demo_run ''a'' 1010 else demo_run ''b'' 1040)),
      monotonic = \<lambda>l. 4 ^ length l, now_ns = \<lambda>_. 900,
      admission = Some (\<lambda>_. gate_admit 3 50 (\<lambda>_. False) (\<lambda>n. 990 + 5 * int n)),
      startup_timeout = 1, finish_timeout = 1, cleanup_timeout = 1, polls = 1\<rparr>"

lemma round64_double: "0 \<le> x \<Longrightarrow> round64 x \<le> 2 * x"
proof -
  assume x: "0 \<le> x"
  have half: "of_int (round_half_even y) \<le> 2 * y" if "1 \<le> y" for y
    using that by (auto simp: round_half_even_def Let_def) linarith+
  show ?thesis
  proof (cases "x = 0")
    case False
    let ?u = "2 powi (ilog2 x - 52) :: rat"
    have u: "0 < ?u" by simp
    have "2 powi ilog2 x \<le> x" using ilog2_bounds [of x] x False by simp
    moreover have "?u \<le> 2 powi ilog2 x" by (rule power_int_increasing) simp_all
    ultimately have "1 \<le> x / ?u" using u by simp
    from half [OF this] have "of_int (round_half_even (x / ?u)) * ?u \<le> 2 * (x / ?u) * ?u"
      by (rule mult_right_mono) simp
    then show ?thesis using x False u by (simp add: round64_def round64_pos_def Let_def)
  qed simp
qed

lemma demo_dual_clock: "clock_advances demo_dual"
proof -
  have "fadd (4 ^ n) 1 \<le> 4 ^ (n + Suc m)" for n m
  proof -
    have "(1::rat) \<le> 4 ^ n" by simp
    then have le: "2 * (4 ^ n + 1) \<le> (4 * 4 ^ n :: rat)" "(0::rat) \<le> 4 ^ n + 1" by (simp_all add: algebra_simps)
    have "fadd (4 ^ n) 1 \<le> 4 * 4 ^ n" unfolding fadd_def by (rule order_trans [OF round64_double [OF le(2)] le(1)])
    also have "\<dots> \<le> 4 * 4 ^ n * (4 ^ m)" by (simp add: one_le_power)
    finally show ?thesis by (simp add: power_add mult_ac)
  qed
  then have "fadd (4 ^ n) 1 \<le> 4 ^ (n + m)" if "1 \<le> m" for n m using that by (cases m) auto
  then show ?thesis by (simp add: clock_advances_def demo_dual_def)
qed

lemma demo_dual_ok: "env_ok demo_dual" "executor_init demo_dual = Inr ()" "gate_init 50 (1 / 100) = Inr ()"
proof -
  have p: "built_published (demo_recording ''rec_a'')" "built_published (demo_recording ''rec_b'')"
    using demo_batch_built(2,3) by (auto simp: built_outcome_def demo_outcome_def)
  have "run_result_post_init (demo_run x s) = Inr ()" if "0 \<le> s" "s \<le> 5000" for x s
    using that by (simp add: run_result_post_init_def demo_run_def schema_v0_1_def)
  moreover have "run_recording (demo_run x s) = demo_recording (''rec_'' @ x)" for x s by (simp add: demo_run_def)
  ultimately show "env_ok demo_dual" using p by (auto simp: env_ok_def demo_dual_def)
  show "executor_init demo_dual = Inr ()" by (simp add: executor_init_def demo_dual_def)
  show "gate_init 50 (1 / 100) = Inr ()" by (simp add: gate_init_def)
qed

lemma demo_dual_batch:
  "built_batch demo_batch" "bd_batch_id demo_batch = ''cbatch_1''"
  "set [''radio_b'', ''radio_a''] = set (map ea_radio_id (expected_attempts demo_batch))"
proof -
  show "built_batch demo_batch" by code_simp
qed (auto simp: demo_batch_def demo_attempt_def)

theorem dual_outcomes_are_justified_witness:
  "\<exists>res w. dual_sql (\<lambda>_. 7) 3 demo_dual demo_batch [''radio_b'', ''radio_a''] (Some 800) \<lparr>dw_store = demo_rows, dw_log = []\<rparr> = (res, w)
     \<and> batch_table_ok (dw_store w) \<and> releases_justified demo_dual (dw_log w)"
  using dual_outcomes_are_justified [OF demo_dual_ok(1) demo_dual_batch(1) _ demo_rows_ok(1) _ demo_dual_batch(3),
      of 3 "Some 800" "\<lambda>_. 7"] demo_rows_ok(2) demo_dual_batch(2) by auto

theorem dual_execution_completes_witness:
  "\<exists>res w s. dual_sql (\<lambda>_. 7) 3 demo_dual demo_batch [''radio_b'', ''radio_a''] None \<lparr>dw_store = demo_rows, dw_log = []\<rparr> = (res, w)
     \<and> batch_view (dw_store w) ''cbatch_1'' = Some s \<and> terminal s"
  using dual_execution_completes [OF demo_dual_clock demo_dual_ok(1) demo_dual_batch(1) _ demo_rows_ok(1) _ demo_dual_batch(3),
      of 3 None "\<lambda>_. 7"] demo_rows_ok(2) demo_dual_batch(2) by auto

theorem gate_admits_in_window_witness:
  "gate_admit 3 50 (\<lambda>_. False) (\<lambda>n. 990 + 5 * int n) 1000 = Some True"
  using gate_admits_in_window [OF demo_dual_ok(3), of 3 "\<lambda>_. False" "\<lambda>n. 990 + 5 * int n" 1000]
  by (simp add: upt_rec)

end
