(* ===== verification/Spec2Isabelle.thy ===== *)
theory Spec2Isabelle
  imports Jobs Job_Rows Continuity Campaign_Claims Continuous_Claims Canary_Operator Campaign_Rows Collection_Rows
    Canary_Rows Plan_Rows Batch_Rows Publisher Engine Dual_Claims
begin

text \<open>
  This library models the durable core of the capture and analysis pipeline under
  \<open>src/src/leo_flow\<close>: how a radio capture is planned, recorded, paired, published to workers
  and accounted for, so that a restart, a second worker or a slow port never repeats a capture
  or loses a result. The numerical analysis of the recordings is outside it.

  The parts and how they call each other.
  Two radios capture one batch (\<open>contracts/capture_batch.py\<close>): an executor (\<open>capture/dual.py\<close>) runs
  the two attempts in a thread each, releases them together and records one outcome for each. A campaign
  (\<open>capture/campaign.py\<close>), a capture-first collection (\<open>capture/continuous.py\<close>) and a
  supercycle canary (\<open>capture/supercycle_canary.py\<close>) are coordinators that go through a fixed
  schedule of such batches: each call of a coordinator loads the state from a journal, asks a
  port for a capture, an analysis or the free capacity, and stores the next state by
  compare-and-swap under the revision it has read. A capture plan is carried out by the engine
  (\<open>capture/engine.py\<close>) between a radio, the writer of one recording and the spool. What it has
  recorded waits in the spool (\<open>capture/spool.py\<close>) until a pass of the reconciler (\<open>capture/publication.py\<close>) has
  published it, acknowledged it and removed its bytes. Publishing stores both of its objects by
  their digests (\<open>storage/filesystem.py\<close>) and then shows the pair in a catalog
  (\<open>storage/catalog.py\<close>, \<open>storage/postgres_catalog.py\<close>). The journals are in memory or in SQLite
  (\<open>adapters/\<close>), where a state is canonical JSON text under a revision. Analysis work itself is a
  queue of jobs claimed under fenced leases (\<open>jobs/\<close>), in memory or in PostgreSQL. What the
  radios deliver is described by \<open>contracts/continuity.py\<close>. All identities are SHA-256 digests
  of canonical JSON (\<open>contracts/core.py\<close>).

  The theories.
  \<open>Prelude\<close>: exceptions as values, checks of \<open>__post_init__\<close>, a small calculus for stateful code
  that raises half way, decimal text. \<open>Sha256\<close>: \<open>hashlib.sha256\<close>. \<open>Float64\<close>: Python floats and
  their text; \<open>Float_Text\<close>: that this text reads back. \<open>Core_Types\<close>: \<open>contracts/_validation.py\<close>,
  \<open>core.py\<close>, \<open>storage.py\<close>. \<open>Json\<close>: \<open>json.loads\<close>; \<open>Json_Canonical\<close>: that it reads canonical
  documents back. \<open>Documents\<close>: the readers the strict codecs share. \<open>Capture_Batch\<close>:
  \<open>contracts/capture_batch.py\<close> and \<open>application/capture_batches.py\<close>. \<open>Batch_Codec\<close>:
  \<open>contracts/capture_batch_codec.py\<close>. \<open>Batch_Rows\<close>: \<open>adapters/capture_batch_sqlite.py\<close>. \<open>Continuity\<close>: \<open>contracts/continuity.py\<close>. \<open>Jobs\<close>:
  \<open>jobs/contracts.py\<close>, \<open>ports.py\<close>, \<open>memory.py\<close> and the worker cycle of \<open>services/analysis.py\<close>.
  \<open>Job_Rows\<close>: \<open>jobs/postgres_repository.py\<close> with the SQL functions of migration 0017.
  \<open>Journal\<close>: the interface of the journals and the answers of ports. \<open>Campaign_Plan\<close>,
  \<open>Campaign\<close>: the pure and the stateful half of \<open>capture/campaign.py\<close>; \<open>Campaign_Claims\<close>: what
  they guarantee. \<open>Continuous\<close> with \<open>Continuous_Claims\<close>, \<open>Canary\<close> with \<open>Canary_Claims\<close>: the same
  for the collector and the canary; \<open>Canary_Operator\<close>: the two bounded loops of
  \<open>deployments/v5_supercycle_canary_operator.py\<close> that drive the canary. \<open>Sql_Journal\<close>: the transactions the three SQLite journals
  share; \<open>Campaign_Rows\<close>, \<open>Collection_Rows\<close>, \<open>Canary_Rows\<close>: their payloads and operations.
  \<open>Capture_Plan\<close>: \<open>contracts/capture.py\<close> and \<open>capture/serialization.py\<close>; \<open>Plan_Codec\<close>: their round
  trip. \<open>Plan_Rows\<close>: \<open>capture/plan_repository.py\<close>. \<open>Spool\<close>: \<open>capture/spool.py\<close>. \<open>Publication\<close>:
  \<open>capture/publication.py\<close> over the spool. \<open>Blob_Store\<close>: \<open>storage/filesystem.py\<close>. \<open>Catalog\<close>: both
  catalogs of recordings, with the tables of migration 0001 and the registration of migration
  0017. \<open>Publisher\<close>: \<open>PostgresRecordingPublisher\<close> over the blob store and either catalog. \<open>Engine\<close>:
  \<open>capture/engine.py\<close>, over ports for the radio and the writer and over the spool. \<open>Dual\<close>:
  \<open>capture/dual.py\<close>; \<open>Dual_Claims\<close>: its guarantees over any batch store and over the one in SQLite.

  State and operations.
  A dataclass is a record with its field names (a prefix where two classes share one), an enum a
  datatype. \<open>__post_init__\<close> is a function \<open>..._post_init\<close> that returns the first exception the
  checks raise, in their order, or \<open>Inr ()\<close>; building a value is \<open>checked\<close> of that function.
  A method that may raise returns \<open>Inl\<close> the exception or \<open>Inr\<close> the value, together with the
  state it leaves behind, also when it raises. The journal, the job table and the batch store are
  the state; the clock, the token factory and the ports are arguments, one reading or answer for
  each use. A step of a coordinator is a function of the stored state (\<open>campaign_step\<close>,
  \<open>collection_do\<close>, \<open>canary_do\<close>, \<open>job_step\<close>, \<open>pg_effect\<close>,
  \<open>spool_do\<close>, \<open>system_step\<close>), and histories are lists of steps or
  inductive reachability, so the invariants hold for every interleaving of calls that take effect
  one at a time. Locks and transactions make each store call one step; only the batch coordinator
  reads and swaps in separate steps, and there other coordinators may act in between.

  What the lemmas show.
  Each component has a well-formedness predicate every operation keeps
  (\<open>job_repository_invariant\<close>, \<open>campaign_journal_invariant\<close>, \<open>collection_journal_invariant\<close>,
  \<open>spool_keeps_recordings\<close>).
  Safety: a superseded lease changes nothing, a capture is never repeated, outcomes are final,
  captures precede analysis, bytes are removed only after a publication that matches them, a read
  of the blob store gives only bytes with the digest asked for, a published recording stays, a
  success of a dual capture answers to a matching result of a thread seen ready and dead, a
  finished capture has just the activities and segments of its plan, in their order, and a failed one
  is marked in the spool.
  Liveness and termination: a batch record completes under interference, a campaign completes
  with ports that answer in time, and a canary within the transition limits of its operator, an analysis drain ends, a publication pass with working
  ports drains the spool, a capture with a working radio and writer completes, a dual capture ends with a complete batch
  whatever its threads do. Refinement: the batch snapshot implements insert-if-absent, the SQLite journals and batch store
  implement those in memory, the PostgreSQL repository implements the one in memory (a lease it grants lasts until the clock in whole
  microseconds plus the TTL, to within a microsecond, where the one in memory counts nanoseconds), and whether a
  worker's lease is still its own is told from the history of the operations, not from the row; the contracts
  are the locales \<open>batch_store\<close>, \<open>lease_repository\<close> and \<open>recording_catalog\<close> (each interpreted on the
  code in memory and on the code over a database),
  \<open>cas_journal\<close> and, for the payloads, \<open>document_readers\<close> and \<open>durable_codec\<close>; the locales
  \<open>campaign_run\<close>, \<open>collection_run\<close> and \<open>canary_run\<close> hold what a coordinator keeps over any journal, and
  \<open>recording_step\<close> what one recording costs a pass of the reconciler; \<open>io_frame\<close> is what every call of a
  program does to the state it must not touch. Round trips: each strict
  decoder accepts exactly the canonical text of a value its constructors build, and plans and
  recordings, which hold floats, survive their text.

  Bounds and fuel.
  The JSON reader recurses over the rest of the text with fuel twice the length of the text plus
  one; \<open>loads_not_exhausted\<close> proves that it never runs out. Every other recursion is structural or
  has its own measure, except the two waiting loops of the dual executor and the two loops of the canary's
  operator: they take a number of turns. The theorems say what the clock has to do for the number to be
  enough; the operator's numbers are the transition limits of the code, two calls a slot and one that closes
  capture, and one call a slot and one that finishes the analysis. Python integers are \<open>int\<close>, PostgreSQL timestamps whole microseconds, the
  words of SHA-256 \<open>32 word\<close>. Floats are exact rationals rounded to 53 bits with ties to even;
  their exponent is not bounded, so neither overflow nor subnormal numbers occur.

  Not modelled.
  Text is its UTF-8 bytes, so \<open>NaN\<close>, \<open>Infinity\<close> and lone surrogates, which \<open>json.loads\<close> reads and
  the canonical encoder refuses, are malformed here. What SQLite or PostgreSQL raise themselves
  (busy, lost or damaged databases) and the constructors that open them. PostgreSQL text is
  ordered by bytes and each statement reads the clock once. Binding a unit to a station
  (\<open>materialize_...\<close>) builds file paths and radio plans. Objects are never collected: of the
  maintenance of stored objects only its marks in the tables appear. Signal processing under \<open>analysis/\<close> is
  floating-point array code of NumPy; \<open>dashboard/\<close>, \<open>deployments/\<close> (but for those two loops) and \<open>leo_station\<close> present, wire
  and drive these parts; radio drivers are calls of device libraries; the
  recording codecs under \<open>storage/\<close> stream sample files; most PostgreSQL adapters are single statements
  over analysis products whose contracts are not part of this library.
\<close>

end
